(* ===== verification/Ascon_Prelude.thy ===== *)
theory Ascon_Prelude
  imports Main "HOL-Library.Word"
begin

unbundle bit_operations_syntax

text \<open>
  Shared vocabulary of the development: the C integer types as words, byte strings,
  the three ways in which the library touches a range of a byte array (XOR in, overwrite, read
  out), and generic lemmas on lists and words.  Nothing in this theory models a particular
  function of the library; the collections declared here are the hints that the component
  theories extend.
\<close>

section \<open>Types\<close>

type_synonym u8 = "8 word"
type_synonym u16 = "16 word"
type_synonym u32 = "32 word"
type_synonym u64 = "64 word"
type_synonym bytes = "8 word list"

named_theorems byte_len "lengths of byte strings produced by the operations"
named_theorems byte_nth "how an operation on a byte string acts on a single position"

section \<open>Exclusive or\<close>

lemma xor_cancel_left [simp]: "(a::'a::len word) XOR (a XOR b) = b"
  by (simp flip: xor.assoc)

lemma xor_cancel_right [simp]: "((a::'a::len word) XOR b) XOR b = a"
  by (simp add: xor.assoc)

lemma xor_right_eq [simp]: "(a::'a::len word) XOR c = b XOR c \<longleftrightarrow> a = b"
  by (metis xor_cancel_right)

lemma xor_left_eq [simp]: "(c::'a::len word) XOR a = c XOR b \<longleftrightarrow> a = b"
  by (metis xor_cancel_left)

lemma xor_eq_zero_iff: "(a::'a::len word) XOR b = 0 \<longleftrightarrow> a = b"
  by (metis xor.right_neutral xor_self_eq xor.assoc)

section \<open>Ranges of a byte array\<close>

text \<open>\<open>xor_at s off ds\<close>: the array \<open>s\<close> after \<open>ds\<close> has been XORed in from position \<open>off\<close> on;
  \<open>put_at\<close> overwrites instead; \<open>get_at\<close> reads \<open>n\<close> bytes.  All three stop at the end of the
  array.\<close>

definition xor_at :: "bytes \<Rightarrow> nat \<Rightarrow> bytes \<Rightarrow> bytes" where
  "xor_at s off ds = map (\<lambda>i. if off \<le> i \<and> i < off + length ds
     then s ! i XOR ds ! (i - off) else s ! i) [0..<length s]"

definition put_at :: "bytes \<Rightarrow> nat \<Rightarrow> bytes \<Rightarrow> bytes" where
  "put_at s off ds = map (\<lambda>i. if off \<le> i \<and> i < off + length ds
     then ds ! (i - off) else s ! i) [0..<length s]"

definition get_at :: "bytes \<Rightarrow> nat \<Rightarrow> nat \<Rightarrow> bytes" where
  "get_at s off n = take n (drop off s)"

definition xor_bytes :: "bytes \<Rightarrow> bytes \<Rightarrow> bytes" where
  "xor_bytes a b = map2 (XOR) a b"

definition zeros :: "nat \<Rightarrow> bytes" where
  "zeros n = replicate n 0"

lemma length_xor_at [simp, byte_len]: "length (xor_at s off ds) = length s"
  by (simp add: xor_at_def)

lemma length_put_at [simp, byte_len]: "length (put_at s off ds) = length s"
  by (simp add: put_at_def)

lemma length_get_at [simp, byte_len]: "length (get_at s off n) = min n (length s - off)"
  by (simp add: get_at_def min.commute)

lemma length_xor_bytes [simp, byte_len]: "length (xor_bytes a b) = min (length a) (length b)"
  by (simp add: xor_bytes_def)

lemma length_zeros [simp, byte_len]: "length (zeros n) = n"
  by (simp add: zeros_def)

lemma nth_xor_at [byte_nth]:
  "i < length s \<Longrightarrow> xor_at s off ds ! i =
     (if off \<le> i \<and> i < off + length ds then s ! i XOR ds ! (i - off) else s ! i)"
  by (simp add: xor_at_def)

lemma nth_put_at [byte_nth]:
  "i < length s \<Longrightarrow> put_at s off ds ! i =
     (if off \<le> i \<and> i < off + length ds then ds ! (i - off) else s ! i)"
  by (simp add: put_at_def)

lemma nth_get_at [byte_nth]:
  "i < n \<Longrightarrow> off + i < length s \<Longrightarrow> get_at s off n ! i = s ! (off + i)"
  by (simp add: get_at_def add.commute)

lemma nth_xor_bytes [byte_nth]:
  "i < length a \<Longrightarrow> i < length b \<Longrightarrow> xor_bytes a b ! i = a ! i XOR b ! i"
  by (simp add: xor_bytes_def)

lemma nth_zeros [simp]: "i < n \<Longrightarrow> zeros n ! i = 0"
  by (simp add: zeros_def)

lemma xor_at_Nil [simp]: "xor_at s off [] = s"
  by (rule nth_equalityI) (auto simp: byte_nth)

lemma put_at_Nil [simp]: "put_at s off [] = s"
  by (rule nth_equalityI) (auto simp: byte_nth)

lemma get_at_0 [simp]: "get_at s off 0 = []"
  by (simp add: get_at_def)

lemma xor_at_append:
  "xor_at s off (a @ b) = xor_at (xor_at s off a) (off + length a) b"
  by (rule nth_equalityI) (auto simp: byte_nth nth_append)

lemma put_at_append:
  "put_at s off (a @ b) = put_at (put_at s off a) (off + length a) b"
  by (rule nth_equalityI) (auto simp: byte_nth nth_append)

lemma get_at_append:
  "get_at s off (m + n) = get_at s off m @ get_at s (off + m) n"
  by (simp add: get_at_def take_add add.commute)

lemma xor_at_Cons: "xor_at s off (d # ds) = xor_at (xor_at s off [d]) (Suc off) ds"
  using xor_at_append[of s off "[d]" ds] by simp

lemma put_at_Cons: "put_at s off (d # ds) = put_at (put_at s off [d]) (Suc off) ds"
  using put_at_append[of s off "[d]" ds] by simp

lemma xor_at_one: "off < length s \<Longrightarrow> xor_at s off [d] = s[off := s ! off XOR d]"
  by (rule nth_equalityI) (auto simp: byte_nth nth_list_update)

lemma put_at_one: "put_at s off [d] = s[off := d]"
  by (rule nth_equalityI) (auto simp: byte_nth nth_list_update)

lemma xor_at_beyond: "length s \<le> off \<Longrightarrow> xor_at s off ds = s"
  by (rule nth_equalityI) (auto simp: byte_nth)

lemma put_at_beyond: "length s \<le> off \<Longrightarrow> put_at s off ds = s"
  by (rule nth_equalityI) (auto simp: byte_nth)

lemma get_at_beyond: "length s \<le> off \<Longrightarrow> get_at s off n = []"
  by (simp add: get_at_def)

lemma put_at_whole: "length b = length d \<Longrightarrow> put_at b 0 d = d"
  by (rule nth_equalityI) (auto simp: byte_nth)

text \<open>The identities the duplex modes rest on: what is read back after a write.\<close>

lemma get_at_xor_at:
  "off + length ds \<le> length s \<Longrightarrow>
     get_at (xor_at s off ds) off (length ds) = xor_bytes (get_at s off (length ds)) ds"
  by (rule nth_equalityI) (auto simp: byte_nth)

lemma get_at_put_at:
  "off + length ds \<le> length s \<Longrightarrow> get_at (put_at s off ds) off (length ds) = ds"
  by (rule nth_equalityI) (auto simp: byte_nth)

lemma put_at_xor_bytes:
  "off + length ds \<le> length s \<Longrightarrow>
     put_at s off (xor_bytes (get_at s off (length ds)) ds) = xor_at s off ds"
  by (rule nth_equalityI) (auto simp: byte_nth)

lemma xor_at_commute: "xor_at (xor_at s i a) j b = xor_at (xor_at s j b) i a"
  by (rule nth_equalityI) (auto simp: byte_nth ac_simps)

lemma xor_at_cancel: "xor_at (xor_at s off ds) off ds = s"
  by (rule nth_equalityI) (auto simp: byte_nth)

lemma xor_bytes_commute: "xor_bytes a b = xor_bytes b a"
  by (rule nth_equalityI) (auto simp: byte_nth ac_simps)

lemma xor_bytes_cancel:
  "length a = length b \<Longrightarrow> xor_bytes a (xor_bytes a b) = b"
  by (rule nth_equalityI) (auto simp: byte_nth simp flip: xor.assoc)

lemma xor_bytes_zeros: "length a \<le> n \<Longrightarrow> xor_bytes a (zeros n) = a"
  by (rule nth_equalityI) (auto simp: byte_nth)

lemma xor_bytes_self: "xor_bytes a a = zeros (length a)"
  by (rule nth_equalityI) (auto simp: byte_nth)

lemma xor_bytes_Nil [simp]: "xor_bytes [] b = []" "xor_bytes a [] = []"
  by (simp_all add: xor_bytes_def)

lemma xor_bytes_Cons [simp]: "xor_bytes (x # a) (y # b) = (x XOR y) # xor_bytes a b"
  by (simp add: xor_bytes_def)

lemma xor_bytes_append:
  "length a = length c \<Longrightarrow> xor_bytes (a @ b) (c @ d) = xor_bytes a c @ xor_bytes b d"
  by (simp add: xor_bytes_def)

lemma xor_bytes_eq_zeros_iff:
  "length a = length b \<Longrightarrow> xor_bytes a b = zeros (length a) \<longleftrightarrow> a = b"
proof (induction a b rule: list_induct2)
  case Nil
  then show ?case by (simp add: zeros_def)
next
  case (Cons x a y b)
  then show ?case by (auto simp: zeros_def xor_eq_zero_iff)
qed

section \<open>Lists\<close>

lemma take_drop_self: "take n (drop m xs) @ drop (m + n) xs = drop m xs"
  by (metis append_take_drop_id drop_drop add.commute)

lemma list5_cases:
  "length xs = 5 \<Longrightarrow> \<exists>a b c d e. xs = [a, b, c, d, e]"
  by (auto simp: length_Suc_conv numeral_eq_Suc)

lemma list8_cases:
  "length xs = 8 \<Longrightarrow> \<exists>a b c d e f g h. xs = [a, b, c, d, e, f, g, h]"
  by (auto simp: length_Suc_conv numeral_eq_Suc)

lemma less_5_cases: "(i::nat) < 5 \<Longrightarrow> i = 0 \<or> i = 1 \<or> i = 2 \<or> i = 3 \<or> i = 4"
  by auto

lemma less_8_cases:
  "(i::nat) < 8 \<Longrightarrow> i = 0 \<or> i = 1 \<or> i = 2 \<or> i = 3 \<or> i = 4 \<or> i = 5 \<or> i = 6 \<or> i = 7"
  by auto

section \<open>Words\<close>

lemma bit_shift_or_rotr:
  fixes a :: "'a::len word"
  assumes "n < LENGTH('a)"
  shows "drop_bit n a OR push_bit (LENGTH('a) - n) a = word_rotr n a"
proof (rule bit_word_eqI)
  fix i assume i: "i < LENGTH('a)"
  have "bit a ((i + n) mod LENGTH('a)) = (if i + n < LENGTH('a) then bit a (i + n)
      else bit a (i + n - LENGTH('a)))"
    using i assms by (simp add: mod_if)
  with i assms show "bit (drop_bit n a OR push_bit (LENGTH('a) - n) a) i = bit (word_rotr n a) i"
    by (auto simp: bit_or_iff bit_drop_bit_eq bit_push_bit_iff bit_word_rotr_iff add.commute
        dest: bit_imp_le_length)
qed

lemma bit_shift_or_rotl:
  fixes a :: "'a::len word"
  assumes "n < LENGTH('a)"
  shows "push_bit n a OR drop_bit (LENGTH('a) - n) a = word_rotl n a"
proof (cases "n = 0")
  case True
  then show ?thesis
    by (intro bit_word_eqI)
      (auto simp: word_rotl_eq_word_rotr bit_word_rotr_iff bit_or_iff bit_drop_bit_eq
        dest: bit_imp_le_length)
next
  case False
  then have "word_rotr (LENGTH('a) - n) a = word_rotl n a"
    using assms by (simp add: word_rotl_eq_word_rotr)
  with False bit_shift_or_rotr[of "LENGTH('a) - n" a] assms show ?thesis
    by (simp add: or.commute)
qed

end
