(* ===== verification/Ascon_Util.thy ===== *)
theory Ascon_Util
  imports Ascon_Prelude
begin

text \<open>
  \<open>core/ascon-util.h\<close>: loads and stores of 16, 32 and 64-bit words in either byte order, the
  \<open>lw_xor_block\<close> family of byte loops, and the rotation macros, both the direct ones and the
  composed table that is used on AVR.  A pointer argument is the list of the bytes it points
  to; a store returns the bytes written.
\<close>

section \<open>Loads and stores\<close>

definition be_load_word32 :: "bytes \<Rightarrow> u32" where
  "be_load_word32 ptr =
     push_bit 24 (ucast (ptr ! 0)) OR push_bit 16 (ucast (ptr ! 1)) OR
     push_bit 8 (ucast (ptr ! 2)) OR ucast (ptr ! 3)"

definition be_store_word32 :: "u32 \<Rightarrow> bytes" where
  "be_store_word32 x =
     [ucast (drop_bit 24 x), ucast (drop_bit 16 x), ucast (drop_bit 8 x), ucast x]"

definition le_load_word32 :: "bytes \<Rightarrow> u32" where
  "le_load_word32 ptr =
     push_bit 24 (ucast (ptr ! 3)) OR push_bit 16 (ucast (ptr ! 2)) OR
     push_bit 8 (ucast (ptr ! 1)) OR ucast (ptr ! 0)"

definition le_store_word32 :: "u32 \<Rightarrow> bytes" where
  "le_store_word32 x =
     [ucast x, ucast (drop_bit 8 x), ucast (drop_bit 16 x), ucast (drop_bit 24 x)]"

definition reverse_word32 :: "u32 \<Rightarrow> u32" where
  "reverse_word32 x =
     drop_bit 24 x OR (drop_bit 8 x AND 0x0000FF00) OR
     (push_bit 8 x AND 0x00FF0000) OR push_bit 24 x"

definition be_load_word64 :: "bytes \<Rightarrow> u64" where
  "be_load_word64 ptr =
     push_bit 56 (ucast (ptr ! 0)) OR push_bit 48 (ucast (ptr ! 1)) OR
     push_bit 40 (ucast (ptr ! 2)) OR push_bit 32 (ucast (ptr ! 3)) OR
     push_bit 24 (ucast (ptr ! 4)) OR push_bit 16 (ucast (ptr ! 5)) OR
     push_bit 8 (ucast (ptr ! 6)) OR ucast (ptr ! 7)"

definition be_store_word64 :: "u64 \<Rightarrow> bytes" where
  "be_store_word64 x =
     [ucast (drop_bit 56 x), ucast (drop_bit 48 x), ucast (drop_bit 40 x), ucast (drop_bit 32 x),
      ucast (drop_bit 24 x), ucast (drop_bit 16 x), ucast (drop_bit 8 x), ucast x]"

definition le_load_word64 :: "bytes \<Rightarrow> u64" where
  "le_load_word64 ptr =
     push_bit 56 (ucast (ptr ! 7)) OR push_bit 48 (ucast (ptr ! 6)) OR
     push_bit 40 (ucast (ptr ! 5)) OR push_bit 32 (ucast (ptr ! 4)) OR
     push_bit 24 (ucast (ptr ! 3)) OR push_bit 16 (ucast (ptr ! 2)) OR
     push_bit 8 (ucast (ptr ! 1)) OR ucast (ptr ! 0)"

definition le_store_word64 :: "u64 \<Rightarrow> bytes" where
  "le_store_word64 x =
     [ucast x, ucast (drop_bit 8 x), ucast (drop_bit 16 x), ucast (drop_bit 24 x),
      ucast (drop_bit 32 x), ucast (drop_bit 40 x), ucast (drop_bit 48 x), ucast (drop_bit 56 x)]"

definition be_load_word16 :: "bytes \<Rightarrow> u16" where
  "be_load_word16 ptr = push_bit 8 (ucast (ptr ! 0)) OR ucast (ptr ! 1)"

definition be_store_word16 :: "u16 \<Rightarrow> bytes" where
  "be_store_word16 x = [ucast (drop_bit 8 x), ucast x]"

definition le_load_word16 :: "bytes \<Rightarrow> u16" where
  "le_load_word16 ptr = push_bit 8 (ucast (ptr ! 1)) OR ucast (ptr ! 0)"

definition le_store_word16 :: "u16 \<Rightarrow> bytes" where
  "le_store_word16 x = [ucast x, ucast (drop_bit 8 x)]"

lemmas load_store_defs =
  be_load_word16_def be_store_word16_def le_load_word16_def le_store_word16_def
  be_load_word32_def be_store_word32_def le_load_word32_def le_store_word32_def
  be_load_word64_def be_store_word64_def le_load_word64_def le_store_word64_def

lemmas word_bit_simps =
  bit_or_iff bit_and_iff bit_xor_iff bit_not_iff bit_push_bit_iff bit_drop_bit_eq
  bit_unsigned_iff bit_take_bit_iff

lemma length_be_store [simp, byte_len]:
  "length (be_store_word16 x2) = 2" "length (be_store_word32 x4) = 4"
  "length (be_store_word64 x8) = 8"
  "length (le_store_word16 x2) = 2" "length (le_store_word32 x4) = 4"
  "length (le_store_word64 x8) = 8"
  by (simp_all add: load_store_defs)

text \<open>The bit-level reading of the loads: bit \<open>i\<close> of the word is bit \<open>i mod 8\<close> of the
  byte that holds it.\<close>

lemma bit_byte_at_64:
  "bit (push_bit n (ucast (b::u8)) :: u64) i \<longleftrightarrow> i < 64 \<and> n \<le> i \<and> i < n + 8 \<and> bit b (i - n)"
  by (auto simp: word_bit_simps dest: bit_imp_le_length)

lemma bit_byte_at_32:
  "bit (push_bit n (ucast (b::u8)) :: u32) i \<longleftrightarrow> i < 32 \<and> n \<le> i \<and> i < n + 8 \<and> bit b (i - n)"
  by (auto simp: word_bit_simps dest: bit_imp_le_length)

lemma bit_byte_at_0:
  "bit (ucast (b::u8) :: u64) i \<longleftrightarrow> i < 8 \<and> bit b i"
  "bit (ucast (b::u8) :: u32) i \<longleftrightarrow> i < 8 \<and> bit b i"
  by (auto simp: word_bit_simps dest: bit_imp_le_length)

lemma byte_bit_cases:
  fixes i :: nat
  obtains q r where "i = 8 * q + r" "r < 8" "i div 8 = q" "i mod 8 = r"
  by (rule that[of "i div 8" "i mod 8"]) auto

lemma bit_be_load_word64:
  "bit (be_load_word64 p) i \<longleftrightarrow> i < 64 \<and> bit (p ! (7 - i div 8)) (i mod 8)"
proof (cases "i < 64")
  case True
  obtain q r where r: "i = 8 * q + r" "r < 8" "i div 8 = q" "i mod 8 = r"
    by (rule byte_bit_cases)
  with True have "q < 8" by simp
  from less_8_cases[OF this] r(2) True show ?thesis
    unfolding r(3,4) unfolding r(1)
    by (elim disjE) (simp_all add: be_load_word64_def bit_or_iff bit_byte_at_64 bit_byte_at_0)
next
  case False
  then show ?thesis by (auto dest: bit_imp_le_length)
qed

lemma bit_le_load_word64:
  "bit (le_load_word64 p) i \<longleftrightarrow> i < 64 \<and> bit (p ! (i div 8)) (i mod 8)"
proof (cases "i < 64")
  case True
  obtain q r where r: "i = 8 * q + r" "r < 8" "i div 8 = q" "i mod 8 = r"
    by (rule byte_bit_cases)
  with True have "q < 8" by simp
  from less_8_cases[OF this] r(2) True show ?thesis
    unfolding r(3,4) unfolding r(1)
    by (elim disjE) (simp_all add: le_load_word64_def bit_or_iff bit_byte_at_64 bit_byte_at_0)
next
  case False
  then show ?thesis by (auto dest: bit_imp_le_length)
qed

lemma bit_be_load_word32:
  "bit (be_load_word32 p) i \<longleftrightarrow> i < 32 \<and> bit (p ! (3 - i div 8)) (i mod 8)"
proof (cases "i < 32")
  case True
  obtain q r where r: "i = 8 * q + r" "r < 8" "i div 8 = q" "i mod 8 = r"
    by (rule byte_bit_cases)
  with True have "q = 0 \<or> q = 1 \<or> q = 2 \<or> q = 3" by auto
  from this r(2) True show ?thesis
    unfolding r(3,4) unfolding r(1)
    by (elim disjE) (simp_all add: be_load_word32_def bit_or_iff bit_byte_at_32 bit_byte_at_0)
next
  case False
  then show ?thesis by (auto dest: bit_imp_le_length)
qed

lemma bit_le_load_word32:
  "bit (le_load_word32 p) i \<longleftrightarrow> i < 32 \<and> bit (p ! (i div 8)) (i mod 8)"
proof (cases "i < 32")
  case True
  obtain q r where r: "i = 8 * q + r" "r < 8" "i div 8 = q" "i mod 8 = r"
    by (rule byte_bit_cases)
  with True have "q = 0 \<or> q = 1 \<or> q = 2 \<or> q = 3" by auto
  from this r(2) True show ?thesis
    unfolding r(3,4) unfolding r(1)
    by (elim disjE) (simp_all add: le_load_word32_def bit_or_iff bit_byte_at_32 bit_byte_at_0)
next
  case False
  then show ?thesis by (auto dest: bit_imp_le_length)
qed

lemma nth_be_store_word64:
  "j < 8 \<Longrightarrow> be_store_word64 x ! j = ucast (drop_bit (56 - 8 * j) x)"
  using less_8_cases[of j] by (auto simp: be_store_word64_def)

lemma nth_le_store_word64:
  "j < 8 \<Longrightarrow> le_store_word64 x ! j = ucast (drop_bit (8 * j) x)"
  using less_8_cases[of j] by (auto simp: le_store_word64_def)

lemma nth_be_store_word32:
  "j < 4 \<Longrightarrow> be_store_word32 x ! j = ucast (drop_bit (24 - 8 * j) x)"
  by (auto simp: be_store_word32_def less_Suc_eq numeral_eq_Suc)

lemma nth_le_store_word32:
  "j < 4 \<Longrightarrow> le_store_word32 x ! j = ucast (drop_bit (8 * j) x)"
  by (auto simp: le_store_word32_def less_Suc_eq numeral_eq_Suc)

lemma bit_store_byte:
  "bit (ucast (drop_bit n (x::u64)) :: u8) i \<longleftrightarrow> i < 8 \<and> bit x (n + i)"
  "bit (ucast (drop_bit n (y::u32)) :: u8) i \<longleftrightarrow> i < 8 \<and> bit y (n + i)"
  by (auto simp: word_bit_simps)

lemma be_position:
  "(i::nat) < 64 \<Longrightarrow> 56 + i mod 8 - 8 * (7 - i div 8) = i"
  "(i::nat) < 32 \<Longrightarrow> 24 + i mod 8 - 8 * (3 - i div 8) = i"
proof -
  assume "i < 64"
  then have "i div 8 \<le> 7" by simp
  then have "56 + i mod 8 - 8 * (7 - i div 8) = 8 * (i div 8) + i mod 8" by linarith
  then show "56 + i mod 8 - 8 * (7 - i div 8) = i" by simp
next
  assume "i < 32"
  then have "i div 8 \<le> 3" by simp
  then have "24 + i mod 8 - 8 * (3 - i div 8) = 8 * (i div 8) + i mod 8" by linarith
  then show "24 + i mod 8 - 8 * (3 - i div 8) = i" by simp
qed

lemma be_position_inv:
  fixes i j :: nat
  assumes "i < 8"
  shows "j < 8 \<Longrightarrow> (56 - 8 * j + i) div 8 = 7 - j" "j < 8 \<Longrightarrow> (56 - 8 * j + i) mod 8 = i"
    "j < 8 \<Longrightarrow> 56 - 8 * j + i < 64"
    "j < 4 \<Longrightarrow> (24 - 8 * j + i) div 8 = 3 - j" "j < 4 \<Longrightarrow> (24 - 8 * j + i) mod 8 = i"
    "j < 4 \<Longrightarrow> 24 - 8 * j + i < 32"
proof -
  have *: "56 - 8 * j = 8 * (7 - j)" "24 - 8 * j = 8 * (3 - j)" by simp_all
  show "j < 8 \<Longrightarrow> (56 - 8 * j + i) div 8 = 7 - j" "j < 8 \<Longrightarrow> (56 - 8 * j + i) mod 8 = i"
    "j < 8 \<Longrightarrow> 56 - 8 * j + i < 64"
    "j < 4 \<Longrightarrow> (24 - 8 * j + i) div 8 = 3 - j" "j < 4 \<Longrightarrow> (24 - 8 * j + i) mod 8 = i"
    "j < 4 \<Longrightarrow> 24 - 8 * j + i < 32"
    unfolding * using assms by simp_all
qed

lemma be_load_store_word64 [simp]: "be_load_word64 (be_store_word64 x) = x"
proof (rule bit_word_eqI)
  fix i assume "i < LENGTH(64)"
  then show "bit (be_load_word64 (be_store_word64 x)) i = bit x i"
    by (simp add: be_position bit_be_load_word64 nth_be_store_word64 bit_store_byte)
qed

lemma le_load_store_word64 [simp]: "le_load_word64 (le_store_word64 x) = x"
  by (rule bit_word_eqI)
    (simp add: bit_le_load_word64 nth_le_store_word64 bit_store_byte less_mult_imp_div_less)

lemma be_load_store_word32 [simp]: "be_load_word32 (be_store_word32 x) = x"
proof (rule bit_word_eqI)
  fix i assume "i < LENGTH(32)"
  then show "bit (be_load_word32 (be_store_word32 x)) i = bit x i"
    by (simp add: be_position bit_be_load_word32 nth_be_store_word32 bit_store_byte)
qed

lemma le_load_store_word32 [simp]: "le_load_word32 (le_store_word32 x) = x"
  by (rule bit_word_eqI)
    (simp add: bit_le_load_word32 nth_le_store_word32 bit_store_byte less_mult_imp_div_less)

text \<open>Storing what was loaded gives the bytes back.\<close>

lemma be_store_load_word64:
  assumes "8 \<le> length p" shows "be_store_word64 (be_load_word64 p) = take 8 p"
proof (rule nth_equalityI)
  fix j assume "j < length (be_store_word64 (be_load_word64 p))"
  then have "j < 8" by simp
  then show "be_store_word64 (be_load_word64 p) ! j = take 8 p ! j"
    by (intro bit_word_eqI)
      (simp add: nth_be_store_word64 bit_store_byte bit_be_load_word64 be_position_inv
        del: diff_diff_left add_diff_assoc2)
qed (use assms in simp)

lemma be_store_load_word32:
  assumes "4 \<le> length p" shows "be_store_word32 (be_load_word32 p) = take 4 p"
proof (rule nth_equalityI)
  fix j assume "j < length (be_store_word32 (be_load_word32 p))"
  then have "j < 4" by simp
  then show "be_store_word32 (be_load_word32 p) ! j = take 4 p ! j"
    by (intro bit_word_eqI)
      (simp add: nth_be_store_word32 bit_store_byte bit_be_load_word32 be_position_inv
        del: diff_diff_left add_diff_assoc2)
qed (use assms in simp)

lemma le_store_load_word64:
  assumes "8 \<le> length p" shows "le_store_word64 (le_load_word64 p) = take 8 p"
proof (rule nth_equalityI)
  fix j assume "j < length (le_store_word64 (le_load_word64 p))"
  then show "le_store_word64 (le_load_word64 p) ! j = take 8 p ! j"
    by (intro bit_word_eqI) (simp add: nth_le_store_word64 bit_store_byte bit_le_load_word64)
qed (use assms in simp)

lemma le_store_load_word32:
  assumes "4 \<le> length p" shows "le_store_word32 (le_load_word32 p) = take 4 p"
proof (rule nth_equalityI)
  fix j assume "j < length (le_store_word32 (le_load_word32 p))"
  then show "le_store_word32 (le_load_word32 p) ! j = take 4 p ! j"
    by (intro bit_word_eqI) (simp add: nth_le_store_word32 bit_store_byte bit_le_load_word32)
qed (use assms in simp)

text \<open>Loading is linear in the bytes.\<close>

lemma be_load_word64_xor:
  "\<lbrakk>8 \<le> length a; 8 \<le> length b\<rbrakk> \<Longrightarrow>
     be_load_word64 (xor_bytes a b) = be_load_word64 a XOR be_load_word64 b"
  by (rule bit_word_eqI) (simp add: bit_be_load_word64 bit_xor_iff nth_xor_bytes)

lemma be_store_word64_xor:
  "be_store_word64 (a XOR b) = xor_bytes (be_store_word64 a) (be_store_word64 b)"
  by (rule nth_equalityI)
    (auto intro!: bit_word_eqI simp: nth_be_store_word64 nth_xor_bytes word_bit_simps)

lemma be_store_word64_inj [simp]: "be_store_word64 a = be_store_word64 b \<longleftrightarrow> a = b"
  by (metis be_load_store_word64)

lemma be_load_word64_take: "be_load_word64 (take 8 p) = be_load_word64 p"
  by (simp add: be_load_word64_def nth_take)

lemma be_load_word64_append: "8 \<le> length a \<Longrightarrow> be_load_word64 (a @ b) = be_load_word64 a"
  by (simp add: be_load_word64_take[of "a @ b", symmetric] be_load_word64_take[of a, symmetric])

text \<open>The little-endian load is the byte reversal of the big-endian one.\<close>

lemma bit_0xFF00: "bit (0x0000FF00 :: int) i \<longleftrightarrow> 8 \<le> i \<and> i < 16"
proof -
  have *: "(0x0000FF00 :: int) = push_bit 8 (mask 8)"
    by (simp add: mask_eq_exp_minus_1 push_bit_eq_mult)
  show ?thesis unfolding * by (auto simp: bit_push_bit_iff bit_mask_iff)
qed

lemma bit_0xFF0000: "bit (0x00FF0000 :: int) i \<longleftrightarrow> 16 \<le> i \<and> i < 24"
proof -
  have *: "(0x00FF0000 :: int) = push_bit 16 (mask 8)"
    by (simp add: mask_eq_exp_minus_1 push_bit_eq_mult)
  show ?thesis unfolding * by (auto simp: bit_push_bit_iff bit_mask_iff)
qed

lemma div_mod_8_add:
  fixes r :: nat
  assumes "r < 8"
  shows "(8 + r) div 8 = 1" "(16 + r) div 8 = 2" "(24 + r) div 8 = 3"
    "(8 + r) mod 8 = r" "(16 + r) mod 8 = r" "(24 + r) mod 8 = r"
  using assms by (simp_all add: div_nat_eqI mod_nat_eqI)

lemma reverse_word32_load:
  "reverse_word32 (le_load_word32 p) = be_load_word32 p"
proof (rule bit_word_eqI)
  fix i assume "i < LENGTH(32)"
  then have i: "i < 32" by simp
  obtain q r where r: "i = 8 * q + r" "r < 8" "i div 8 = q" "i mod 8 = r"
    by (rule byte_bit_cases)
  with i have "q = 0 \<or> q = 1 \<or> q = 2 \<or> q = 3" by auto
  then show "bit (reverse_word32 (le_load_word32 p)) i = bit (be_load_word32 p) i"
    using r i
    by (elim disjE) (simp_all add: reverse_word32_def word_bit_simps bit_0xFF00 bit_0xFF0000
        bit_le_load_word32 bit_be_load_word32 div_mod_8_add)
qed

section \<open>Byte loops\<close>

text \<open>The \<open>lw_xor_block\<close> macros.  Each walks its buffers for \<open>len\<close> bytes; a buffer is the list
  of bytes from the pointer on, and the macro returns the buffers it writes.\<close>

fun lw_xor_block :: "bytes \<Rightarrow> bytes \<Rightarrow> nat \<Rightarrow> bytes" where
  "lw_xor_block (d # dest) (s # src) (Suc len) = (d XOR s) # lw_xor_block dest src len"
| "lw_xor_block dest src len = dest"

fun lw_xor_block_2_src :: "bytes \<Rightarrow> bytes \<Rightarrow> nat \<Rightarrow> bytes" where
  "lw_xor_block_2_src (s1 # src1) (s2 # src2) (Suc len) =
     (s1 XOR s2) # lw_xor_block_2_src src1 src2 len"
| "lw_xor_block_2_src src1 src2 len = []"

text \<open>Returns the bytes written to \<open>dest2\<close> and the updated \<open>dest\<close>.\<close>

fun lw_xor_block_2_dest :: "bytes \<Rightarrow> bytes \<Rightarrow> nat \<Rightarrow> bytes \<times> bytes" where
  "lw_xor_block_2_dest (d # dest) (s # src) (Suc len) =
     (let t = d XOR s; (dest2, dest') = lw_xor_block_2_dest dest src len
      in (t # dest2, t # dest'))"
| "lw_xor_block_2_dest dest src len = ([], dest)"

text \<open>Returns the bytes written to \<open>dest2\<close> (a copy of \<open>src2\<close>) and to \<open>dest\<close>.\<close>

fun lw_xor_block_copy_src :: "bytes \<Rightarrow> bytes \<Rightarrow> nat \<Rightarrow> bytes \<times> bytes" where
  "lw_xor_block_copy_src (s1 # src1) (s2 # src2) (Suc len) =
     (let temp = s2; (dest2, dest) = lw_xor_block_copy_src src1 src2 len
      in (temp # dest2, (s1 XOR temp) # dest))"
| "lw_xor_block_copy_src src1 src2 len = ([], [])"

text \<open>Returns the bytes written to \<open>dest2\<close> and the updated \<open>dest\<close>, which now holds \<open>src\<close>.\<close>

fun lw_xor_block_swap :: "bytes \<Rightarrow> bytes \<Rightarrow> nat \<Rightarrow> bytes \<times> bytes" where
  "lw_xor_block_swap (d # dest) (s # src) (Suc len) =
     (let temp = s; (dest2, dest') = lw_xor_block_swap dest src len
      in ((d XOR temp) # dest2, temp # dest'))"
| "lw_xor_block_swap dest src len = ([], dest)"

text \<open>What the loops compute, in terms of the range operations of the prelude.\<close>

lemma lw_xor_block_eq:
  "\<lbrakk>n \<le> length d; n \<le> length s\<rbrakk> \<Longrightarrow>
     lw_xor_block d s n = xor_bytes (take n d) (take n s) @ drop n d"
  by (induction d s n rule: lw_xor_block.induct) auto

lemma lw_xor_block_2_src_eq:
  "\<lbrakk>n \<le> length a; n \<le> length b\<rbrakk> \<Longrightarrow>
     lw_xor_block_2_src a b n = xor_bytes (take n a) (take n b)"
  by (induction a b n rule: lw_xor_block_2_src.induct) auto

lemma lw_xor_block_2_dest_eq:
  "\<lbrakk>n \<le> length d; n \<le> length s\<rbrakk> \<Longrightarrow>
     lw_xor_block_2_dest d s n =
       (xor_bytes (take n d) (take n s), xor_bytes (take n d) (take n s) @ drop n d)"
  by (induction d s n rule: lw_xor_block_2_dest.induct) (auto simp: Let_def)

lemma lw_xor_block_copy_src_eq:
  "\<lbrakk>n \<le> length a; n \<le> length b\<rbrakk> \<Longrightarrow>
     lw_xor_block_copy_src a b n = (take n b, xor_bytes (take n a) (take n b))"
  by (induction a b n rule: lw_xor_block_copy_src.induct) (auto simp: Let_def)

lemma lw_xor_block_swap_eq:
  "\<lbrakk>n \<le> length d; n \<le> length s\<rbrakk> \<Longrightarrow>
     lw_xor_block_swap d s n = (xor_bytes (take n d) (take n s), take n s @ drop n d)"
  by (induction d s n rule: lw_xor_block_swap.induct) (auto simp: Let_def)

section \<open>Rotations\<close>

definition leftRotate :: "u32 \<Rightarrow> nat \<Rightarrow> u32" where
  "leftRotate a bits = push_bit bits a OR drop_bit (32 - bits) a"

definition rightRotate :: "u32 \<Rightarrow> nat \<Rightarrow> u32" where
  "rightRotate a bits = drop_bit bits a OR push_bit (32 - bits) a"

definition leftRotate_64 :: "u64 \<Rightarrow> nat \<Rightarrow> u64" where
  "leftRotate_64 a bits = push_bit bits a OR drop_bit (64 - bits) a"

definition rightRotate_64 :: "u64 \<Rightarrow> nat \<Rightarrow> u64" where
  "rightRotate_64 a bits = drop_bit bits a OR push_bit (64 - bits) a"

definition leftRotate_16 :: "u16 \<Rightarrow> nat \<Rightarrow> u16" where
  "leftRotate_16 a bits = push_bit bits a OR drop_bit (16 - bits) a"

definition rightRotate_16 :: "u16 \<Rightarrow> nat \<Rightarrow> u16" where
  "rightRotate_16 a bits = drop_bit bits a OR push_bit (16 - bits) a"

definition leftRotate_8 :: "u8 \<Rightarrow> nat \<Rightarrow> u8" where
  "leftRotate_8 a bits = push_bit bits a OR drop_bit (8 - bits) a"

definition rightRotate_8 :: "u8 \<Rightarrow> nat \<Rightarrow> u8" where
  "rightRotate_8 a bits = drop_bit bits a OR push_bit (8 - bits) a"

lemma rotate_64: "n < 64 \<Longrightarrow> rightRotate_64 a n = word_rotr n a"
  "n < 64 \<Longrightarrow> leftRotate_64 a n = word_rotl n a"
  using bit_shift_or_rotr[of n a] bit_shift_or_rotl[of n a]
  by (simp_all add: rightRotate_64_def leftRotate_64_def)

lemma rotate_32: "n < 32 \<Longrightarrow> rightRotate a n = word_rotr n a"
  "n < 32 \<Longrightarrow> leftRotate a n = word_rotl n a"
  using bit_shift_or_rotr[of n a] bit_shift_or_rotl[of n a]
  by (simp_all add: rightRotate_def leftRotate_def)

lemma rotate_16: "n < 16 \<Longrightarrow> rightRotate_16 a n = word_rotr n a"
  "n < 16 \<Longrightarrow> leftRotate_16 a n = word_rotl n a"
  using bit_shift_or_rotr[of n a] bit_shift_or_rotl[of n a]
  by (simp_all add: rightRotate_16_def leftRotate_16_def)

lemma rotate_8: "n < 8 \<Longrightarrow> rightRotate_8 a n = word_rotr n a"
  "n < 8 \<Longrightarrow> leftRotate_8 a n = word_rotl n a"
  using bit_shift_or_rotr[of n a] bit_shift_or_rotl[of n a]
  by (simp_all add: rightRotate_8_def leftRotate_8_def)

text \<open>The composed rotations of AVR: entry \<open>n - 1\<close> of the table is the body of the macro
  \<open>leftRotate<n>\<close>, which uses rotations by 1, 8, 16 and 24 only; the right rotations are
  defined from the left ones, \<open>rightRotate<n>\<close> being \<open>leftRotate<32-n>\<close>.\<close>

definition leftRotate_composed :: "u32 \<Rightarrow> nat \<Rightarrow> u32" where
  "leftRotate_composed a n =
     [
      leftRotate a 1,
      leftRotate (leftRotate a 1) 1,
      leftRotate (leftRotate (leftRotate a 1) 1) 1,
      leftRotate (leftRotate (leftRotate (leftRotate a 1) 1) 1) 1,
      rightRotate (rightRotate (rightRotate (leftRotate a 8) 1) 1) 1,
      rightRotate (rightRotate (leftRotate a 8) 1) 1,
      rightRotate (leftRotate a 8) 1,
      leftRotate a 8,
      leftRotate (leftRotate a 8) 1,
      leftRotate (leftRotate (leftRotate a 8) 1) 1,
      leftRotate (leftRotate (leftRotate (leftRotate a 8) 1) 1) 1,
      rightRotate (rightRotate (rightRotate (rightRotate (leftRotate a 16) 1) 1) 1) 1,
      rightRotate (rightRotate (rightRotate (leftRotate a 16) 1) 1) 1,
      rightRotate (rightRotate (leftRotate a 16) 1) 1,
      rightRotate (leftRotate a 16) 1,
      leftRotate a 16,
      leftRotate (leftRotate a 16) 1,
      leftRotate (leftRotate (leftRotate a 16) 1) 1,
      leftRotate (leftRotate (leftRotate (leftRotate a 16) 1) 1) 1,
      leftRotate (leftRotate (leftRotate (leftRotate (leftRotate a 16) 1) 1) 1) 1,
      rightRotate (rightRotate (rightRotate (leftRotate a 24) 1) 1) 1,
      rightRotate (rightRotate (leftRotate a 24) 1) 1,
      rightRotate (leftRotate a 24) 1,
      leftRotate a 24,
      leftRotate (leftRotate a 24) 1,
      leftRotate (leftRotate (leftRotate a 24) 1) 1,
      leftRotate (leftRotate (leftRotate (leftRotate a 24) 1) 1) 1,
      rightRotate (rightRotate (rightRotate (rightRotate a 1) 1) 1) 1,
      rightRotate (rightRotate (rightRotate a 1) 1) 1,
      rightRotate (rightRotate a 1) 1,
      rightRotate a 1
     ] ! (n - 1)"

definition rightRotate_composed :: "u32 \<Rightarrow> nat \<Rightarrow> u32" where
  "rightRotate_composed a n = leftRotate_composed a
     ([31, 30, 29, 28, 27, 26, 25, 24, 23, 22, 21, 20, 19, 18, 17, 16, 15, 14, 13, 12, 11, 10, 9,
       8, 7, 6, 5, 4, 3, 2, 1] ! (n - 1))"

lemma word_rotr_32: "32 \<le> k \<Longrightarrow> word_rotr k (a::u32) = word_rotr (k - 32) a"
proof -
  assume "32 \<le> k"
  then have "(i + k) mod 32 = (i + (k - 32)) mod 32" for i :: nat
    by (simp add: le_mod_geq)
  then show ?thesis
    by (intro bit_word_eqI) (simp add: bit_word_rotr_iff add.commute)
qed

lemma less_32_cases:
  fixes bits :: nat
  assumes "1 \<le> bits" "bits < 32"
  shows "bits = 1 \<or> bits = 2 \<or> bits = 3 \<or> bits = 4 \<or> bits = 5 \<or> bits = 6 \<or> bits = 7 \<or> bits = 8 \<or>
     bits = 9 \<or> bits = 10 \<or> bits = 11 \<or> bits = 12 \<or> bits = 13 \<or> bits = 14 \<or> bits = 15 \<or> bits = 16 \<or>
     bits = 17 \<or> bits = 18 \<or> bits = 19 \<or> bits = 20 \<or> bits = 21 \<or> bits = 22 \<or> bits = 23 \<or> bits = 24 \<or>
     bits = 25 \<or> bits = 26 \<or> bits = 27 \<or> bits = 28 \<or> bits = 29 \<or> bits = 30 \<or> bits = 31"
  using assms by presburger

lemma leftRotate_composed_eq:
  assumes "1 \<le> n" "n < 32"
  shows "leftRotate_composed a n = word_rotl n a"
  using less_32_cases[OF assms]
  by (elim disjE)
    (simp_all add: leftRotate_composed_def rotate_32 word_rotl_eq_word_rotr
      word_rotr_word_rotr_eq word_rotr_32 flip: numeral_2_eq_2)

lemma rightRotate_composed_eq:
  assumes "1 \<le> n" "n < 32"
  shows "rightRotate_composed a n = word_rotr n a"
proof -
  have "rightRotate_composed a n = leftRotate_composed a (32 - n)"
    using less_32_cases[OF assms] by (elim disjE) (simp_all add: rightRotate_composed_def)
  then show ?thesis
    using assms by (simp add: leftRotate_composed_eq word_rotl_eq_word_rotr)
qed

end
