(* ===== verification/Ascon_Permutation.thy ===== *)
theory Ascon_Permutation
  imports Ascon_Util
begin

text \<open>
  \<open>core/ascon-c64.c\<close>: the ASCON permutation on five 64-bit words, in the variant that keeps
  the words of the state (\<open>ASCON_BACKEND_C64\<close>) and the one that loads and stores the bytes of the
  state in big-endian order (\<open>ASCON_BACKEND_C64_DIRECT_XOR\<close>).  The second half of the theory is
  the permutation of the ASCON specification (round constants, the 5-bit S-box as a table applied
  to the 64 columns, the linear layer as rotations), the proof that the bit-sliced code computes it,
  and the proof that the permutation is a bijection.
\<close>

section \<open>The code\<close>

type_synonym regs = "u64 \<times> u64 \<times> u64 \<times> u64 \<times> u64"

definition ROUND_CONSTANT :: "nat \<Rightarrow> u64" where
  "ROUND_CONSTANT round = NOT (of_nat (push_bit 4 (0x0F - round) OR round))"

definition RC :: "u64 list" where
  "RC = [ROUND_CONSTANT 0, ROUND_CONSTANT 1, ROUND_CONSTANT 2, ROUND_CONSTANT 3,
         ROUND_CONSTANT 4, ROUND_CONSTANT 5, ROUND_CONSTANT 6, ROUND_CONSTANT 7,
         ROUND_CONSTANT 8, ROUND_CONSTANT 9, ROUND_CONSTANT 10, ROUND_CONSTANT 11]"

text \<open>The substitution layer, statement by statement; the complement of \<open>x2\<close> at its end is left
  to the next round constant, which is inverted.\<close>

definition c64_sbox :: "regs \<Rightarrow> regs" where
  "c64_sbox s = (case s of (x0, x1, x2, x3, x4) \<Rightarrow>
     let x0 = x0 XOR x4; x4 = x4 XOR x3; x2 = x2 XOR x1;
         t0 = NOT x0; t1 = NOT x1; t2 = NOT x2; t3 = NOT x3; t4 = NOT x4;
         t0 = t0 AND x1; t1 = t1 AND x2; t2 = t2 AND x3; t3 = t3 AND x4; t4 = t4 AND x0;
         x0 = x0 XOR t1; x1 = x1 XOR t2; x2 = x2 XOR t3; x3 = x3 XOR t4; x4 = x4 XOR t0;
         x1 = x1 XOR x0; x0 = x0 XOR x4; x3 = x3 XOR x2
     in (x0, x1, x2, x3, x4))"

definition c64_linear :: "regs \<Rightarrow> regs" where
  "c64_linear s = (case s of (x0, x1, x2, x3, x4) \<Rightarrow>
     let x0 = x0 XOR (rightRotate_64 x0 19 XOR rightRotate_64 x0 28);
         x1 = x1 XOR (rightRotate_64 x1 61 XOR rightRotate_64 x1 39);
         x2 = x2 XOR (rightRotate_64 x2 1 XOR rightRotate_64 x2 6);
         x3 = x3 XOR (rightRotate_64 x3 10 XOR rightRotate_64 x3 17);
         x4 = x4 XOR (rightRotate_64 x4 7 XOR rightRotate_64 x4 41)
     in (x0, x1, x2, x3, x4))"

definition c64_round :: "u64 \<Rightarrow> regs \<Rightarrow> regs" where
  "c64_round rc s = (case s of (x0, x1, x2, x3, x4) \<Rightarrow>
     c64_linear (c64_sbox (x0, x1, x2 XOR rc, x3, x4)))"

lemma first_round_step:
  "first_round < 12 \<Longrightarrow> unat (first_round + 1 :: u8) = Suc (unat first_round)"
proof -
  assume "first_round < 12"
  then have "unat first_round < 12" by (simp add: word_less_nat_alt)
  then show ?thesis by (simp add: unat_word_ariths)
qed

function c64_rounds :: "u8 \<Rightarrow> regs \<Rightarrow> regs" where
  "c64_rounds first_round s =
     (if first_round < 12
      then c64_rounds (first_round + 1) (c64_round (RC ! unat first_round) s)
      else s)"
  by pat_completeness auto

termination
proof (relation "measure (\<lambda>(r, s). 12 - unat r)")
  fix r :: u8 and s :: regs
  assume r: "r < 12"
  then have "unat r < 12" by (simp add: word_less_nat_alt)
  with first_round_step[OF r]
  show "((r + 1, c64_round (RC ! unat r) s), (r, s)) \<in> measure (\<lambda>(r, s). 12 - unat r)"
    by simp
qed simp

declare c64_rounds.simps [simp del]

definition c64_permute :: "regs \<Rightarrow> u8 \<Rightarrow> regs" where
  "c64_permute s first_round = (case s of (x0, x1, x2, x3, x4) \<Rightarrow>
     case c64_rounds first_round (x0, x1, NOT x2, x3, x4) of (x0, x1, x2, x3, x4) \<Rightarrow>
     (x0, x1, NOT x2, x3, x4))"

text \<open>\<open>ascon_permute\<close> of the word backend, on the array \<open>S\<close> of the state.\<close>

definition ascon_permute_c64 :: "u64 list \<Rightarrow> u8 \<Rightarrow> u64 list" where
  "ascon_permute_c64 S first_round =
     (case c64_permute (S ! 0, S ! 1, S ! 2, S ! 3, S ! 4) first_round of
        (x0, x1, x2, x3, x4) \<Rightarrow> [x0, x1, x2, x3, x4])"

text \<open>\<open>ascon_permute\<close> of the direct-XOR backend, on the bytes \<open>B\<close> of the state.\<close>

definition ascon_permute_c64_direct_xor :: "bytes \<Rightarrow> u8 \<Rightarrow> bytes" where
  "ascon_permute_c64_direct_xor B first_round =
     (case c64_permute (be_load_word64 B, be_load_word64 (drop 8 B), be_load_word64 (drop 16 B),
             be_load_word64 (drop 24 B), be_load_word64 (drop 32 B)) first_round of
        (x0, x1, x2, x3, x4) \<Rightarrow>
          be_store_word64 x0 @ be_store_word64 x1 @ be_store_word64 x2 @ be_store_word64 x3 @
          be_store_word64 x4)"

section \<open>The permutation of the specification\<close>

definition spec_const :: "nat \<Rightarrow> u64" where
  "spec_const r = of_nat (0xf0 - r * 0x10 + r)"

definition SBOX :: "nat list" where
  "SBOX = [4, 11, 31, 20, 26, 21, 9, 2, 27, 5, 8, 18, 29, 3, 6, 28,
           30, 19, 7, 14, 0, 13, 17, 24, 16, 12, 1, 25, 22, 10, 15, 23]"

text \<open>Column \<open>i\<close> of the state, with \<open>x0\<close> as its most significant bit.\<close>

definition column :: "regs \<Rightarrow> nat \<Rightarrow> nat" where
  "column s i = (case s of (x0, x1, x2, x3, x4) \<Rightarrow>
     16 * of_bool (bit x0 i) + 8 * of_bool (bit x1 i) + 4 * of_bool (bit x2 i) +
     2 * of_bool (bit x3 i) + of_bool (bit x4 i))"

definition of_columns :: "(nat \<Rightarrow> nat) \<Rightarrow> regs" where
  "of_columns f = (let row = (\<lambda>k. horner_sum of_bool 2 (map (\<lambda>i. bit (f i) k) [0..<64]))
     in (row 4, row 3, row 2, row 1, row 0))"

definition spec_sbox :: "regs \<Rightarrow> regs" where
  "spec_sbox s = of_columns (\<lambda>i. SBOX ! column s i)"

definition spec_diffuse :: "nat \<Rightarrow> nat \<Rightarrow> u64 \<Rightarrow> u64" where
  "spec_diffuse a b x = x XOR word_rotr a x XOR word_rotr b x"

definition spec_linear :: "regs \<Rightarrow> regs" where
  "spec_linear s = (case s of (x0, x1, x2, x3, x4) \<Rightarrow>
     (spec_diffuse 19 28 x0, spec_diffuse 61 39 x1, spec_diffuse 1 6 x2,
      spec_diffuse 10 17 x3, spec_diffuse 7 41 x4))"

definition spec_round :: "nat \<Rightarrow> regs \<Rightarrow> regs" where
  "spec_round r s = (case s of (x0, x1, x2, x3, x4) \<Rightarrow>
     spec_linear (spec_sbox (x0, x1, x2 XOR spec_const r, x3, x4)))"

definition spec_permute :: "nat \<Rightarrow> regs \<Rightarrow> regs" where
  "spec_permute first_round s = fold spec_round [first_round..<12] s"

section \<open>The code computes the permutation of the specification\<close>

lemma bit_horner_64:
  "bit (horner_sum of_bool 2 (map P [0..<64]) :: u64) i \<longleftrightarrow> i < 64 \<and> P i"
  by (auto simp: bit_horner_sum_bit_word_iff)

lemma sbox_columns:
  assumes "i < 64"
  shows "(case c64_sbox (x0, x1, x2, x3, x4) of (y0, y1, y2, y3, y4) \<Rightarrow>
      bit y0 i = bit (SBOX ! column (x0, x1, x2, x3, x4) i) 4 \<and>
      bit y1 i = bit (SBOX ! column (x0, x1, x2, x3, x4) i) 3 \<and>
      bit y2 i = (\<not> bit (SBOX ! column (x0, x1, x2, x3, x4) i) 2) \<and>
      bit y3 i = bit (SBOX ! column (x0, x1, x2, x3, x4) i) 1 \<and>
      bit y4 i = bit (SBOX ! column (x0, x1, x2, x3, x4) i) 0)"
  using assms
  by (cases "bit x0 i"; cases "bit x1 i"; cases "bit x2 i"; cases "bit x3 i"; cases "bit x4 i")
    (simp_all add: c64_sbox_def Let_def column_def SBOX_def word_bit_simps bit_numeral_rec
      bit_Suc_0_iff)

text \<open>The code keeps \<open>x2\<close> complemented between the rounds.\<close>

definition compl_x2 :: "regs \<Rightarrow> regs" where
  "compl_x2 s = (case s of (x0, x1, x2, x3, x4) \<Rightarrow> (x0, x1, NOT x2, x3, x4))"

lemma compl_x2_idem [simp]: "compl_x2 (compl_x2 s) = s"
  by (simp add: compl_x2_def split: prod.splits)

lemma c64_sbox_spec: "c64_sbox s = compl_x2 (spec_sbox s)"
proof -
  obtain x0 x1 x2 x3 x4 where s: "s = (x0, x1, x2, x3, x4)" by (metis prod.exhaust)
  obtain y0 y1 y2 y3 y4 where y: "c64_sbox s = (y0, y1, y2, y3, y4)" by (metis prod.exhaust)
  from sbox_columns[of _ x0 x1 x2 x3 x4] y
  have "y0 = horner_sum of_bool 2 (map (\<lambda>i. bit (SBOX ! column s i) 4) [0..<64])"
    "y1 = horner_sum of_bool 2 (map (\<lambda>i. bit (SBOX ! column s i) 3) [0..<64])"
    "y2 = NOT (horner_sum of_bool 2 (map (\<lambda>i. bit (SBOX ! column s i) 2) [0..<64]))"
    "y3 = horner_sum of_bool 2 (map (\<lambda>i. bit (SBOX ! column s i) 1) [0..<64])"
    "y4 = horner_sum of_bool 2 (map (\<lambda>i. bit (SBOX ! column s i) 0) [0..<64])"
    unfolding s by - (rule bit_word_eqI; simp add: bit_horner_64 bit_not_iff)+
  then show ?thesis
    by (simp add: y spec_sbox_def of_columns_def compl_x2_def Let_def)
qed

lemma word_rotr_not: "word_rotr n (NOT a) = NOT (word_rotr n (a :: 'a::len word))"
  by (rule bit_word_eqI) (simp add: bit_word_rotr_iff bit_not_iff)

lemma word_rotr_xor: "word_rotr n (a XOR b) = word_rotr n a XOR word_rotr n (b :: 'a::len word)"
  by (rule bit_word_eqI) (simp add: bit_word_rotr_iff bit_xor_iff)

lemma spec_diffuse_not: "spec_diffuse a b (NOT x) = NOT (spec_diffuse a b x)"
  by (simp add: spec_diffuse_def word_rotr_not)

lemma c64_linear_spec: "c64_linear (compl_x2 s) = compl_x2 (spec_linear s)"
  by (simp add: c64_linear_def spec_linear_def compl_x2_def Let_def rotate_64 spec_diffuse_def
      word_rotr_not xor.assoc split: prod.splits)

lemma RC_spec:
  assumes "r < 12" shows "RC ! r = NOT (spec_const r)"
proof -
  from assms have "r = 0 \<or> r = 1 \<or> r = 2 \<or> r = 3 \<or> r = 4 \<or> r = 5 \<or> r = 6 \<or> r = 7
    \<or> r = 8 \<or> r = 9 \<or> r = 10 \<or> r = 11" by presburger
  then show ?thesis
    by (elim disjE) (simp_all add: RC_def ROUND_CONSTANT_def spec_const_def)
qed

lemma c64_round_spec:
  assumes "r < 12" shows "c64_round (RC ! r) (compl_x2 s) = compl_x2 (spec_round r s)"
proof -
  obtain x0 x1 x2 x3 x4 where s: "s = (x0, x1, x2, x3, x4)" by (metis prod.exhaust)
  have "c64_round (RC ! r) (compl_x2 s) =
      c64_linear (c64_sbox (x0, x1, x2 XOR spec_const r, x3, x4))"
    using assms by (simp add: s compl_x2_def c64_round_def RC_spec)
  also have "\<dots> = compl_x2 (spec_round r s)"
    by (simp add: s c64_sbox_spec c64_linear_spec spec_round_def)
  finally show ?thesis .
qed

lemma c64_rounds_spec:
  "c64_rounds r (compl_x2 s) = compl_x2 (spec_permute (unat r) s)"
proof (induction "12 - unat r" arbitrary: r s)
  case 0
  then have "\<not> r < 12" by (simp add: word_less_nat_alt)
  with 0 show ?case by (simp add: c64_rounds.simps[of r] spec_permute_def)
next
  case (Suc n)
  then have r: "r < 12" "unat r < 12" by (simp_all add: word_less_nat_alt)
  have "c64_rounds r (compl_x2 s) = c64_rounds (r + 1) (compl_x2 (spec_round (unat r) s))"
    using r by (subst c64_rounds.simps) (simp add: c64_round_spec)
  also have "\<dots> = compl_x2 (spec_permute (Suc (unat r)) (spec_round (unat r) s))"
    using Suc(1)[of "r + 1"] Suc(2) first_round_step[OF r(1)] by simp
  finally show ?case
    using r by (simp add: spec_permute_def upt_conv_Cons)
qed

lemma c64_permute_spec: "c64_permute s r = spec_permute (unat r) s"
proof -
  have "c64_permute s r = compl_x2 (c64_rounds r (compl_x2 s))"
    by (simp add: c64_permute_def compl_x2_def split: prod.splits)
  then show ?thesis by (simp add: c64_rounds_spec)
qed

section \<open>The permutation is a bijection\<close>

lemma spec_diffuse_twice:
  "spec_diffuse a b (spec_diffuse a b x) = spec_diffuse (2 * a) (2 * b) x"
  by (simp add: spec_diffuse_def word_rotr_xor word_rotr_word_rotr_eq ac_simps mult_2_right)

text \<open>Six squarings: rotations by multiples of 64 vanish, so the sixty-fourth power of a
  diffusion function is the identity.\<close>

lemma spec_diffuse_pow:
  "(spec_diffuse a b ^^ (2 ^ k)) x = spec_diffuse (2 ^ k * a) (2 ^ k * b) x"
proof (induction k arbitrary: x)
  case (Suc k)
  have "(spec_diffuse a b ^^ (2 ^ Suc k)) x =
      (spec_diffuse a b ^^ (2 ^ k)) ((spec_diffuse a b ^^ (2 ^ k)) x)"
    by (simp add: mult_2 funpow_add)
  with Suc show ?case by (simp add: spec_diffuse_twice mult.assoc)
qed simp

lemma word_rotr_64_mult: "word_rotr (64 * n) (x :: u64) = x"
  by (rule bit_word_eqI) (simp add: bit_word_rotr_iff)

lemma spec_diffuse_64: "(spec_diffuse a b ^^ 64) x = x"
  using spec_diffuse_pow[of 6 a b x] by (simp add: spec_diffuse_def word_rotr_64_mult)

lemma inj_spec_diffuse: "inj (spec_diffuse a b)"
proof (rule injI)
  fix x y assume "spec_diffuse a b x = spec_diffuse a b y"
  then have "(spec_diffuse a b ^^ Suc 63) x = (spec_diffuse a b ^^ Suc 63) y"
    by (simp only: funpow_Suc_right comp_apply)
  then show "x = y" using spec_diffuse_64[of a b] by (simp del: funpow.simps)
qed

lemma inj_spec_linear: "inj spec_linear"
  by (rule injI) (auto simp: spec_linear_def dest: injD[OF inj_spec_diffuse])

lemma SBOX_inj: "\<lbrakk>a < 32; b < 32; SBOX ! a = SBOX ! b\<rbrakk> \<Longrightarrow> a = b"
proof -
  have "distinct SBOX" "length SBOX = 32" by (simp_all add: SBOX_def)
  then show "\<lbrakk>a < 32; b < 32; SBOX ! a = SBOX ! b\<rbrakk> \<Longrightarrow> a = b"
    by (simp add: nth_eq_iff_index_eq)
qed

lemma column_less: "column s i < 32"
  by (auto simp: column_def of_bool_def split: prod.splits)

lemma column_eqI:
  "(\<And>i. i < 64 \<Longrightarrow> column s i = column t i) \<Longrightarrow> s = t"
proof -
  assume eq: "\<And>i. i < 64 \<Longrightarrow> column s i = column t i"
  obtain x0 x1 x2 x3 x4 where s: "s = (x0, x1, x2, x3, x4)" by (metis prod.exhaust)
  obtain y0 y1 y2 y3 y4 where t: "t = (y0, y1, y2, y3, y4)" by (metis prod.exhaust)
  have "bit x0 i = bit y0 i \<and> bit x1 i = bit y1 i \<and> bit x2 i = bit y2 i \<and> bit x3 i = bit y3 i
      \<and> bit x4 i = bit y4 i" if "i < 64" for i
    using eq[OF that] by (auto simp: s t column_def of_bool_def split: if_splits)
  then show "s = t" by (auto simp: s t intro!: bit_word_eqI)
qed

lemma SBOX_bits:
  assumes "a < 32"
  shows "16 * of_bool (bit (SBOX ! a) 4) + 8 * of_bool (bit (SBOX ! a) 3) +
     4 * of_bool (bit (SBOX ! a) 2) + 2 * of_bool (bit (SBOX ! a) 1) +
     of_bool (bit (SBOX ! a) 0) = SBOX ! a"
proof -
  have "\<forall>n\<in>set SBOX. 16 * of_bool (bit n 4) + 8 * of_bool (bit n 3) + 4 * of_bool (bit n 2) +
     2 * of_bool (bit n 1) + of_bool (bit n 0) = n"
    by (simp add: SBOX_def bit_numeral_rec bit_Suc_0_iff)
  moreover have "length SBOX = 32" by (simp add: SBOX_def)
  then have "SBOX ! a \<in> set SBOX" using assms by (metis nth_mem)
  ultimately show ?thesis by blast
qed

lemma column_spec_sbox: "i < 64 \<Longrightarrow> column (spec_sbox s) i = SBOX ! column s i"
  using SBOX_bits[OF column_less[of s i]]
  by (simp add: spec_sbox_def of_columns_def Let_def column_def[of "(_, _)"] bit_horner_64)

lemma inj_spec_sbox: "inj spec_sbox"
proof (rule injI)
  fix s t assume "spec_sbox s = spec_sbox t"
  then have "SBOX ! column s i = SBOX ! column t i" if "i < 64" for i
    using that by (metis column_spec_sbox)
  then show "s = t"
    by (intro column_eqI SBOX_inj[OF column_less column_less])
qed

lemma inj_spec_round: "inj (spec_round r)"
  by (rule injI)
    (auto simp: spec_round_def split: prod.splits
      dest!: injD[OF inj_spec_linear] injD[OF inj_spec_sbox])

lemma inj_spec_permute: "inj (spec_permute r)"
proof -
  have "inj (fold spec_round rs)" for rs
    by (induction rs) (simp_all only: fold.simps inj_on_id inj_compose inj_spec_round)
  then show ?thesis by (simp add: spec_permute_def[abs_def])
qed

lemma bij_c64_permute: "bij (\<lambda>s. c64_permute s r)"
  by (auto simp: c64_permute_spec bij_def intro!: finite_UNIV_inj_surj inj_spec_permute)

text \<open>The byte variant is the word variant between two conversions that invert each other.\<close>

definition regs_of :: "bytes \<Rightarrow> regs" where
  "regs_of B = (be_load_word64 B, be_load_word64 (drop 8 B), be_load_word64 (drop 16 B),
     be_load_word64 (drop 24 B), be_load_word64 (drop 32 B))"

definition bytes_of :: "regs \<Rightarrow> bytes" where
  "bytes_of s = (case s of (x0, x1, x2, x3, x4) \<Rightarrow>
     be_store_word64 x0 @ be_store_word64 x1 @ be_store_word64 x2 @ be_store_word64 x3 @
     be_store_word64 x4)"

lemma permute_direct_xor_eq:
  "ascon_permute_c64_direct_xor B r = bytes_of (c64_permute (regs_of B) r)"
  by (simp add: ascon_permute_c64_direct_xor_def regs_of_def bytes_of_def)

lemma length_bytes_of [simp]: "length (bytes_of s) = 40"
  by (simp add: bytes_of_def split: prod.split)

lemma regs_of_bytes_of [simp]: "regs_of (bytes_of s) = s"
  by (simp add: regs_of_def bytes_of_def be_load_word64_append split: prod.split)

lemma split_word: "8 \<le> length B \<Longrightarrow> B = be_store_word64 (be_load_word64 B) @ drop 8 B"
  by (simp add: be_store_load_word64)

lemma bytes_of_regs_of:
  assumes "length B = 40" shows "bytes_of (regs_of B) = B"
proof -
  have "B = be_store_word64 (be_load_word64 B) @ drop 8 B"
    using assms by (intro split_word) simp
  also have "drop 8 B = be_store_word64 (be_load_word64 (drop 8 B)) @ drop 16 B"
    using assms split_word[of "drop 8 B"] by simp
  also have "drop 16 B = be_store_word64 (be_load_word64 (drop 16 B)) @ drop 24 B"
    using assms split_word[of "drop 16 B"] by simp
  also have "drop 24 B = be_store_word64 (be_load_word64 (drop 24 B)) @ drop 32 B"
    using assms split_word[of "drop 24 B"] by simp
  also have "drop 32 B = be_store_word64 (be_load_word64 (drop 32 B))"
    using assms split_word[of "drop 32 B"] by simp
  finally show ?thesis by (simp add: bytes_of_def regs_of_def)
qed

section \<open>Properties\<close>

text \<open>Property C2. The bit-sliced, complemented-\<open>x2\<close> loop of \<open>ascon_permute\<close> computes, for every
  state and every value of \<open>first_round\<close>, the permutation of the ASCON specification: constant
  addition, the S-box table on each of the 64 columns, and the linear layer, for the rounds
  \<open>first_round\<close> to 11.\<close>

theorem ascon_permute_correct:
  "ascon_permute_c64 [x0, x1, x2, x3, x4] first_round =
     (case spec_permute (unat first_round) (x0, x1, x2, x3, x4) of
        (y0, y1, y2, y3, y4) \<Rightarrow> [y0, y1, y2, y3, y4])"
  by (simp add: ascon_permute_c64_def c64_permute_spec)

text \<open>For every \<open>first_round\<close>, \<open>ascon_permute\<close> is a permutation of the byte states:
  it maps the 40-byte arrays onto themselves one to one.\<close>

theorem ascon_permute_bijective:
  "bij_betw (\<lambda>B. ascon_permute_c64_direct_xor B first_round)
     {B. length B = 40} {B. length B = 40}"
proof (rule bij_betw_byWitness[where f' =
      "\<lambda>B. bytes_of (inv (\<lambda>s. c64_permute s first_round) (regs_of B))"])
  note bij = bij_c64_permute[of first_round]
  show "\<forall>B\<in>{B. length B = 40}. bytes_of (inv (\<lambda>s. c64_permute s first_round)
      (regs_of (ascon_permute_c64_direct_xor B first_round))) = B"
    by (simp add: permute_direct_xor_eq inv_f_f[OF bij_is_inj[OF bij]] bytes_of_regs_of)
  show "\<forall>B\<in>{B. length B = 40}. ascon_permute_c64_direct_xor
      (bytes_of (inv (\<lambda>s. c64_permute s first_round) (regs_of B))) first_round = B"
    by (simp add: permute_direct_xor_eq surj_f_inv_f[OF bij_is_surj[OF bij]] bytes_of_regs_of)
qed (auto simp: permute_direct_xor_eq)

end
