(* ===== verification/Snp.thy ===== *)
theory Snp
  imports Ascon_Permutation
begin

text \<open>
  The interface of the permutation backends.  \<open>ascon/permutation.h\<close> declares the functions on an
  \<open>ascon_state_t\<close> and \<open>core/ascon-util-snp.h\<close> adds macros, chosen by the preprocessor, that
  do the same work without the call; every mode of the library is written against the two.  A
  backend is a record of those operations over its own representation \<open>'s\<close> of the state.  The
  locale \<open>snp_laws\<close> is the contract: relative to the 40 bytes that a representation stands for,
  each operation XORs, overwrites or reads a range of bytes, or permutes.  The modes are defined
  over a record and their theorems are proved from the locale, once for all backends.
\<close>

record 's snp =
  snp_init :: 's
  snp_free :: "'s \<Rightarrow> 's"
  snp_add_bytes :: "'s \<Rightarrow> bytes \<Rightarrow> nat \<Rightarrow> nat \<Rightarrow> 's"
  snp_overwrite_bytes :: "'s \<Rightarrow> bytes \<Rightarrow> nat \<Rightarrow> nat \<Rightarrow> 's"
  snp_overwrite_with_zeroes :: "'s \<Rightarrow> nat \<Rightarrow> nat \<Rightarrow> 's"
  snp_extract_bytes :: "'s \<Rightarrow> nat \<Rightarrow> nat \<Rightarrow> bytes"
  snp_extract_and_add_bytes :: "'s \<Rightarrow> bytes \<Rightarrow> nat \<Rightarrow> nat \<Rightarrow> bytes"
  snp_extract_and_overwrite_bytes :: "'s \<Rightarrow> bytes \<Rightarrow> nat \<Rightarrow> nat \<Rightarrow> 's \<times> bytes"
  snp_release :: "'s \<Rightarrow> 's"
  snp_acquire :: "'s \<Rightarrow> 's"
  snp_copy :: "'s \<Rightarrow> 's \<Rightarrow> 's"
  snp_permute :: "'s \<Rightarrow> u8 \<Rightarrow> 's"
  snp_separator :: "'s \<Rightarrow> 's"
  snp_pad :: "'s \<Rightarrow> nat \<Rightarrow> 's"
  snp_absorb_8 :: "'s \<Rightarrow> bytes \<Rightarrow> nat \<Rightarrow> 's"
  snp_absorb_16 :: "'s \<Rightarrow> bytes \<Rightarrow> nat \<Rightarrow> 's"
  snp_absorb_partial :: "'s \<Rightarrow> bytes \<Rightarrow> nat \<Rightarrow> nat \<Rightarrow> 's"
  snp_squeeze_8 :: "'s \<Rightarrow> nat \<Rightarrow> bytes"
  snp_squeeze_16 :: "'s \<Rightarrow> nat \<Rightarrow> bytes"
  snp_squeeze_partial :: "'s \<Rightarrow> nat \<Rightarrow> nat \<Rightarrow> bytes"
  snp_encrypt_8 :: "'s \<Rightarrow> bytes \<Rightarrow> nat \<Rightarrow> 's \<times> bytes"
  snp_encrypt_16 :: "'s \<Rightarrow> bytes \<Rightarrow> nat \<Rightarrow> 's \<times> bytes"
  snp_encrypt_partial :: "'s \<Rightarrow> bytes \<Rightarrow> nat \<Rightarrow> nat \<Rightarrow> 's \<times> bytes"
  snp_decrypt_8 :: "'s \<Rightarrow> bytes \<Rightarrow> nat \<Rightarrow> 's \<times> bytes"
  snp_decrypt_16 :: "'s \<Rightarrow> bytes \<Rightarrow> nat \<Rightarrow> 's \<times> bytes"
  snp_decrypt_partial :: "'s \<Rightarrow> bytes \<Rightarrow> nat \<Rightarrow> nat \<Rightarrow> 's \<times> bytes"
  snp_load :: "u64 list \<Rightarrow> u32 list \<Rightarrow> bytes \<Rightarrow> 's"

text \<open>The last field stands for the \<open>#if\<close> chains that copy a precomputed state from one of three
  tables, in 64-bit words, in bit-sliced 32-bit words, or in bytes.\<close>

text \<open>The permutation on the 40 bytes of the state in the standard order.\<close>

abbreviation permute_bytes :: "bytes \<Rightarrow> u8 \<Rightarrow> bytes" where
  "permute_bytes \<equiv> ascon_permute_c64_direct_xor"

lemma length_permute_bytes [simp, byte_len]: "length (permute_bytes b r) = 40"
  by (simp add: ascon_permute_c64_direct_xor_def split: prod.split)

text \<open>The macros \<open>ascon_permute12\<close>, \<open>8\<close> and \<open>6\<close> of \<open>permutation.h\<close>.\<close>

definition ascon_permute12 :: "'s snp \<Rightarrow> 's \<Rightarrow> 's" where
  "ascon_permute12 B s = snp_permute B s 0"

definition ascon_permute8 :: "'s snp \<Rightarrow> 's \<Rightarrow> 's" where
  "ascon_permute8 B s = snp_permute B s 4"

definition ascon_permute6 :: "'s snp \<Rightarrow> 's \<Rightarrow> 's" where
  "ascon_permute6 B s = snp_permute B s 6"

text \<open>A precomputed state: the words in their standard form and the same words in bit-sliced form
  (even bits in the first word of a pair, odd bits in the second).\<close>

definition even_bits :: "u64 \<Rightarrow> u32" where
  "even_bits x = horner_sum of_bool 2 (map (\<lambda>i. bit x (2 * i)) [0..<32])"

definition odd_bits :: "u64 \<Rightarrow> u32" where
  "odd_bits x = horner_sum of_bool 2 (map (\<lambda>i. bit x (2 * i + 1)) [0..<32])"

definition table_ok :: "u64 list \<Rightarrow> u32 list \<Rightarrow> bytes \<Rightarrow> bool" where
  "table_ok S W b \<longleftrightarrow> length S = 5 \<and> b = concat (map be_store_word64 S) \<and>
     W = concat (map (\<lambda>x. [even_bits x, odd_bits x]) S)"

locale snp_laws =
  fixes B :: "'s snp" and rep :: "'s \<Rightarrow> bytes \<Rightarrow> bool"
  assumes rep_length: "rep s b \<Longrightarrow> length b = 40"
    and rep_init: "rep (snp_init B) (zeros 40)"
    and rep_free: "rep s b \<Longrightarrow> rep (snp_free B s) (zeros 40)"
    and rep_add: "\<lbrakk>rep s b; n \<le> length d; off + n \<le> 40\<rbrakk> \<Longrightarrow>
      rep (snp_add_bytes B s d off n) (xor_at b off (take n d))"
    and rep_overwrite: "\<lbrakk>rep s b; n \<le> length d; off + n \<le> 40\<rbrakk> \<Longrightarrow>
      rep (snp_overwrite_bytes B s d off n) (put_at b off (take n d))"
    and rep_zeroes: "\<lbrakk>rep s b; off + n \<le> 40\<rbrakk> \<Longrightarrow>
      rep (snp_overwrite_with_zeroes B s off n) (put_at b off (zeros n))"
    and rep_extract: "\<lbrakk>rep s b; off + n \<le> 40\<rbrakk> \<Longrightarrow> snp_extract_bytes B s off n = get_at b off n"
    and rep_extract_add: "\<lbrakk>rep s b; n \<le> length d; off + n \<le> 40\<rbrakk> \<Longrightarrow>
      snp_extract_and_add_bytes B s d off n = xor_bytes (get_at b off n) (take n d)"
    and rep_extract_overwrite: "\<lbrakk>rep s b; n \<le> length d; off + n \<le> 40\<rbrakk> \<Longrightarrow>
      rep (fst (snp_extract_and_overwrite_bytes B s d off n)) (put_at b off (take n d)) \<and>
      snd (snp_extract_and_overwrite_bytes B s d off n) = xor_bytes (get_at b off n) (take n d)"
    and rep_release: "rep s b \<Longrightarrow> rep (snp_release B s) b"
    and rep_acquire: "rep s b \<Longrightarrow> rep (snp_acquire B s) b"
    and rep_copy: "rep s b \<Longrightarrow> rep (snp_copy B s' s) b"
    and rep_permute: "rep s b \<Longrightarrow> rep (snp_permute B s r) (permute_bytes b r)"
    and rep_separator: "rep s b \<Longrightarrow> rep (snp_separator B s) (xor_at b 39 [1])"
    and rep_pad: "\<lbrakk>rep s b; off < 40\<rbrakk> \<Longrightarrow> rep (snp_pad B s off) (xor_at b off [0x80])"
    and rep_absorb_8: "\<lbrakk>rep s b; 8 \<le> length d; 8 dvd off; off + 8 \<le> 40\<rbrakk> \<Longrightarrow>
      rep (snp_absorb_8 B s d off) (xor_at b off (take 8 d))"
    and rep_absorb_16: "\<lbrakk>rep s b; 16 \<le> length d; 8 dvd off; off + 16 \<le> 40\<rbrakk> \<Longrightarrow>
      rep (snp_absorb_16 B s d off) (xor_at b off (take 16 d))"
    and rep_absorb_partial: "\<lbrakk>rep s b; n \<le> length d; off + n \<le> 40\<rbrakk> \<Longrightarrow>
      rep (snp_absorb_partial B s d off n) (xor_at b off (take n d))"
    and rep_squeeze_8: "\<lbrakk>rep s b; 8 dvd off; off + 8 \<le> 40\<rbrakk> \<Longrightarrow>
      snp_squeeze_8 B s off = get_at b off 8"
    and rep_squeeze_16: "\<lbrakk>rep s b; 8 dvd off; off + 16 \<le> 40\<rbrakk> \<Longrightarrow>
      snp_squeeze_16 B s off = get_at b off 16"
    and rep_squeeze_partial: "\<lbrakk>rep s b; off + n \<le> 40\<rbrakk> \<Longrightarrow>
      snp_squeeze_partial B s off n = get_at b off n"
    and rep_encrypt_8: "\<lbrakk>rep s b; 8 \<le> length d; 8 dvd off; off + 8 \<le> 40\<rbrakk> \<Longrightarrow>
      rep (fst (snp_encrypt_8 B s d off)) (xor_at b off (take 8 d)) \<and>
      snd (snp_encrypt_8 B s d off) = xor_bytes (get_at b off 8) (take 8 d)"
    and rep_encrypt_16: "\<lbrakk>rep s b; 16 \<le> length d; 8 dvd off; off + 16 \<le> 40\<rbrakk> \<Longrightarrow>
      rep (fst (snp_encrypt_16 B s d off)) (xor_at b off (take 16 d)) \<and>
      snd (snp_encrypt_16 B s d off) = xor_bytes (get_at b off 16) (take 16 d)"
    and rep_encrypt_partial: "\<lbrakk>rep s b; n \<le> length d; off + n \<le> 40\<rbrakk> \<Longrightarrow>
      rep (fst (snp_encrypt_partial B s d off n)) (xor_at b off (take n d)) \<and>
      snd (snp_encrypt_partial B s d off n) = xor_bytes (get_at b off n) (take n d)"
    and rep_decrypt_8: "\<lbrakk>rep s b; 8 \<le> length d; 8 dvd off; off + 8 \<le> 40\<rbrakk> \<Longrightarrow>
      rep (fst (snp_decrypt_8 B s d off)) (put_at b off (take 8 d)) \<and>
      snd (snp_decrypt_8 B s d off) = xor_bytes (get_at b off 8) (take 8 d)"
    and rep_decrypt_16: "\<lbrakk>rep s b; 16 \<le> length d; 8 dvd off; off + 16 \<le> 40\<rbrakk> \<Longrightarrow>
      rep (fst (snp_decrypt_16 B s d off)) (put_at b off (take 16 d)) \<and>
      snd (snp_decrypt_16 B s d off) = xor_bytes (get_at b off 16) (take 16 d)"
    and rep_decrypt_partial: "\<lbrakk>rep s b; n \<le> length d; off + n \<le> 40\<rbrakk> \<Longrightarrow>
      rep (fst (snp_decrypt_partial B s d off n)) (put_at b off (take n d)) \<and>
      snd (snp_decrypt_partial B s d off n) = xor_bytes (get_at b off n) (take n d)"
    and rep_load: "table_ok S W b \<Longrightarrow> rep (snp_load B S W b) b"

end
