(* ===== verification/Duplex.thy ===== *)
theory Duplex
  imports Snp
begin

text \<open>
  The abstract duplex and the block loops that implement it.  On paper a sponge or duplex mode
  takes its input one byte at a time: a byte meets the state at the current position, and when the
  position reaches the rate the state is permuted.  Such a machine consumes a
  concatenation as it consumes the parts in sequence, which is what an incremental interface
  promises.  The C functions work on partial blocks, whole blocks and a tail instead;
  \<open>duplex_crypt\<close> is the shape the encrypting and decrypting functions share, and the locale
  \<open>duplex\<close> shows that it runs the machine.
\<close>

section \<open>Byte machines\<close>

fun run :: "('st \<Rightarrow> u8 \<Rightarrow> 'st \<times> bytes) \<Rightarrow> 'st \<Rightarrow> bytes \<Rightarrow> 'st \<times> bytes" where
  "run step st [] = (st, [])"
| "run step st (x # xs) =
     (let (st1, out1) = step st x; (st2, out2) = run step st1 xs in (st2, out1 @ out2))"

lemma run_append:
  "run step st (xs @ ys) =
     (let (st1, out1) = run step st xs; (st2, out2) = run step st1 ys in (st2, out1 @ out2))"
  by (induction xs arbitrary: st) (auto simp: Let_def split: prod.splits)

text \<open>A position in the rate part of the state: \<open>effect b p xs\<close> says what the bytes \<open>xs\<close> do to the
  state from position \<open>p\<close> on, and what comes out.\<close>

type_synonym effect = "bytes \<Rightarrow> nat \<Rightarrow> bytes \<Rightarrow> bytes \<times> bytes"

definition duplex_step ::
  "effect \<Rightarrow> (bytes \<Rightarrow> bytes) \<Rightarrow> nat \<Rightarrow> bytes \<times> nat \<Rightarrow> u8 \<Rightarrow> (bytes \<times> nat) \<times> bytes" where
  "duplex_step G f R st x = (case st of (b, p) \<Rightarrow>
     case G b p [x] of (b', out) \<Rightarrow>
       (if Suc p = R then (f b', 0) else (b', Suc p), out))"

definition absorb_effect :: effect where
  "absorb_effect b p xs = (xor_at b p xs, [])"

definition encrypt_effect :: effect where
  "encrypt_effect b p xs = (xor_at b p xs, xor_bytes (get_at b p (length xs)) xs)"

definition decrypt_effect :: effect where
  "decrypt_effect b p xs = (put_at b p xs, xor_bytes (get_at b p (length xs)) xs)"

section \<open>The loops of the code\<close>

text \<open>\<open>while (len >= R) { ...; src += R; len -= R; }\<close>: the state and the output after the
  loop, and the input that is left.\<close>

function block_loop ::
  "nat \<Rightarrow> ('s \<Rightarrow> bytes \<Rightarrow> 's \<times> bytes) \<Rightarrow> 's \<Rightarrow> bytes \<Rightarrow> 's \<times> bytes \<times> bytes" where
  "block_loop R f s src =
     (if 0 < R \<and> R \<le> length src
      then case f s src of (s, dest) \<Rightarrow>
           case block_loop R f s (drop R src) of (s, dest', src) \<Rightarrow> (s, dest @ dest', src)
      else (s, [], src))"
  by pat_completeness auto
termination by (relation "measure (\<lambda>(R, f, s, src). length src)") auto

declare block_loop.simps [simp del]

text \<open>The common shape of \<open>ascon_aead_encrypt_8\<close>, \<open>_16\<close>, \<open>ascon_aead_decrypt_8\<close> and \<open>_16\<close>:
  \<open>block\<close> and \<open>part\<close> are the macros for a whole and a partial block, \<open>perm\<close> is the permutation.
  The result is the state, the output and the new value of \<open>partial\<close>.\<close>

definition duplex_crypt ::
  "nat \<Rightarrow> ('s \<Rightarrow> bytes \<Rightarrow> nat \<Rightarrow> 's \<times> bytes) \<Rightarrow> ('s \<Rightarrow> bytes \<Rightarrow> nat \<Rightarrow> nat \<Rightarrow> 's \<times> bytes) \<Rightarrow>
     ('s \<Rightarrow> 's) \<Rightarrow> 's \<Rightarrow> bytes \<Rightarrow> u8 \<Rightarrow> 's \<times> bytes \<times> u8" where
  "duplex_crypt R block part perm s src partial =
     (let temp = unat (of_nat R - ucast partial :: u32) in
      if partial \<noteq> 0 \<and> temp > length src
      then case part s src (unat partial) (length src) of (s, dest) \<Rightarrow>
           (s, dest, of_nat (unat partial + length src))
      else
        let (s, dest1, src) =
              (if partial \<noteq> 0
               then case part s src (unat partial) temp of (s, dest) \<Rightarrow>
                    (perm s, dest, drop temp src)
               else (s, [], src));
            (s, dest2, src) =
              block_loop R (\<lambda>s src. case block s src 0 of (s, dest) \<Rightarrow> (perm s, dest)) s src;
            (s, dest3) =
              (if length src > 0 then part s src 0 (length src) else (s, []))
        in (s, dest1 @ dest2 @ dest3, of_nat (length src)))"

section \<open>The loops run the machine\<close>

locale duplex_blocks =
  fixes rep :: "'s \<Rightarrow> bytes \<Rightarrow> bool" and G :: effect and f :: "bytes \<Rightarrow> bytes" and R :: nat
    and block :: "'s \<Rightarrow> bytes \<Rightarrow> nat \<Rightarrow> 's \<times> bytes"
    and perm :: "'s \<Rightarrow> 's"
  assumes rate: "0 < R" "R \<le> 40"
    and effect_append: "G b p (xs @ ys) =
      (case G b p xs of (b', out) \<Rightarrow> case G b' (p + length xs) ys of (b'', out') \<Rightarrow>
        (b'', out @ out'))"
    and effect_Nil: "G b p [] = (b, [])"
    and block_rep: "\<lbrakk>rep s b; R \<le> length d\<rbrakk> \<Longrightarrow>
      rep (fst (block s d 0)) (fst (G b 0 (take R d))) \<and> snd (block s d 0) = snd (G b 0 (take R d))"
    and perm_rep: "rep s b \<Longrightarrow> rep (perm s) (f b)"
begin

lemma run_fit:
  "p + length xs < R \<Longrightarrow>
     run (duplex_step G f R) (b, p) xs = ((fst (G b p xs), p + length xs), snd (G b p xs))"
proof (induction xs arbitrary: b p)
  case (Cons x xs)
  then show ?case
    using effect_append[of b p "[x]" xs] by (auto simp: duplex_step_def split: prod.splits)
qed (simp add: effect_Nil)

lemma run_fill:
  assumes "p + length xs = R" "xs \<noteq> []"
  shows "run (duplex_step G f R) (b, p) xs = ((f (fst (G b p xs)), 0), snd (G b p xs))"
proof -
  obtain ys y where xs: "xs = ys @ [y]" using assms(2) by (metis append_butlast_last_id)
  with assms(1) run_fit[of p ys b] effect_append[of b p ys "[y]"] show ?thesis
    by (auto simp: run_append duplex_step_def split: prod.splits)
qed

lemma run_block:
  assumes "R \<le> length xs"
  shows "run (duplex_step G f R) (b, 0) xs =
    (case run (duplex_step G f R) (f (fst (G b 0 (take R xs))), 0) (drop R xs) of
       (st, out) \<Rightarrow> (st, snd (G b 0 (take R xs)) @ out))"
proof -
  have "take R xs \<noteq> []" "0 + length (take R xs) = R" using assms rate by auto
  from run_fill[OF this(2,1)] run_append[of "duplex_step G f R" "(b, 0)" "take R xs" "drop R xs"]
  show ?thesis by simp
qed

abbreviation blocks where
  "blocks \<equiv> block_loop R (\<lambda>s src. case block s src 0 of (s, dest) \<Rightarrow> (perm s, dest))"

lemma block_loop_run:
  assumes "rep s b"
  shows "\<exists>s' b' out rest. blocks s src = (s', out, rest) \<and> rep s' b' \<and> length rest < R \<and>
    run (duplex_step G f R) (b, 0) src =
      (case run (duplex_step G f R) (b', 0) rest of (st, out') \<Rightarrow> (st, out @ out'))"
  using assms
proof (induction "length src" arbitrary: s b src rule: less_induct)
  case less
  show ?case
  proof (cases "R \<le> length src")
    case True
    let ?s = "perm (fst (block s src 0))"
    have r: "rep ?s (f (fst (G b 0 (take R src))))"
      using block_rep[OF less.prems True] perm_rep by blast
    have "length (drop R src) < length src" using True rate by simp
    from less.hyps[OF this r] obtain s' b' out rest where
      *: "blocks ?s (drop R src) = (s', out, rest)" "rep s' b'" "length rest < R"
      "run (duplex_step G f R) (f (fst (G b 0 (take R src))), 0) (drop R src) =
        (case run (duplex_step G f R) (b', 0) rest of (st, out') \<Rightarrow> (st, out @ out'))"
      by blast
    have "blocks s src = (s', snd (block s src 0) @ out, rest)"
      using True rate * by (subst block_loop.simps) (simp add: case_prod_beta)
    with * block_rep[OF less.prems True] run_block[OF True, of b] show ?thesis
      by (auto simp: case_prod_beta)
  next
    case False
    with less.prems show ?thesis
      by (subst block_loop.simps) (auto simp: case_prod_beta)
  qed
qed

end

text \<open>With the macro for a partial block, the whole function.\<close>

locale duplex = duplex_blocks rep G f R block perm
  for rep :: "'s \<Rightarrow> bytes \<Rightarrow> bool" and G :: effect and f :: "bytes \<Rightarrow> bytes" and R :: nat
    and block :: "'s \<Rightarrow> bytes \<Rightarrow> nat \<Rightarrow> 's \<times> bytes"
    and part :: "'s \<Rightarrow> bytes \<Rightarrow> nat \<Rightarrow> nat \<Rightarrow> 's \<times> bytes"
    and perm :: "'s \<Rightarrow> 's" +
  assumes part_rep: "\<lbrakk>rep s b; n \<le> length d; p + n \<le> R\<rbrakk> \<Longrightarrow>
      rep (fst (part s d p n)) (fst (G b p (take n d))) \<and> snd (part s d p n) = snd (G b p (take n d))"
begin

lemma temp_eq:
  assumes "unat partial < R"
  shows "unat (of_nat R - ucast (partial :: u8) :: u32) = R - unat partial"
proof -
  have "unat (of_nat R :: u32) = R" "unat (ucast partial :: u32) = unat partial"
    using rate unsigned_less[of partial, where ?'a = nat]
    by (simp_all add: unat_of_nat take_bit_nat_eq_self unsigned_ucast_eq)
  with assms show ?thesis
    by (simp add: unat_sub word_le_nat_alt)
qed

text \<open>The loop and the tail, started on a block boundary.\<close>

lemma loop_tail_run:
  assumes "rep s b"
  shows "\<exists>s1 out1 rest s2 out2 b'. blocks s src = (s1, out1, rest) \<and> length rest < R \<and>
    (if length rest > 0 then part s1 rest 0 (length rest) else (s1, [])) = (s2, out2) \<and>
    rep s2 b' \<and> run (duplex_step G f R) (b, 0) src = ((b', length rest), out1 @ out2)"
proof -
  obtain s1 b1 out1 rest where *: "blocks s src = (s1, out1, rest)" "rep s1 b1" "length rest < R"
    "run (duplex_step G f R) (b, 0) src =
      (case run (duplex_step G f R) (b1, 0) rest of (st, out') \<Rightarrow> (st, out1 @ out'))"
    using block_loop_run[OF assms] by blast
  obtain s2 out2 where 2: "(if length rest > 0 then part s1 rest 0 (length rest) else (s1, [])) =
      (s2, out2)"
    by (metis prod.exhaust)
  with *(2,3) part_rep[of s1 b1 "length rest" rest 0]
  have "rep s2 (fst (G b1 0 rest)) \<and> out2 = snd (G b1 0 rest)"
    by (cases "rest = []") (auto simp: effect_Nil)
  with * 2 run_fit[of 0 rest b1] show ?thesis by auto
qed

theorem crypt_run:
  assumes "rep s b" "unat partial < R"
  shows "\<exists>s' b' p' out. run (duplex_step G f R) (b, unat partial) src = ((b', p'), out) \<and>
    duplex_crypt R block part perm s src partial = (s', out, of_nat p') \<and> rep s' b' \<and> p' < R"
proof (cases "partial \<noteq> 0 \<and> R - unat partial > length src")
  case True
  then have "unat partial + length src < R" by linarith
  with run_fit[OF this, of b] part_rep[OF assms(1), of "length src" src "unat partial"] True
  show ?thesis
    by (cases "part s src (unat partial) (length src)")
      (auto simp: duplex_crypt_def temp_eq[OF assms(2)] Let_def)
next
  case fits: False
  show ?thesis
  proof (cases "partial = 0")
    case True
    with loop_tail_run[OF assms(1), of src] fits show ?thesis
      by (auto simp: duplex_crypt_def temp_eq[OF assms(2)] Let_def)
  next
    case False
    let ?t = "R - unat partial"
    have t: "?t \<le> length src" "unat partial + length (take ?t src) = R" "take ?t src \<noteq> []"
      using fits False assms(2) by auto
    have part: "rep (fst (part s src (unat partial) ?t)) (fst (G b (unat partial) (take ?t src)))"
      "snd (part s src (unat partial) ?t) = snd (G b (unat partial) (take ?t src))"
      using part_rep[OF assms(1), of ?t src "unat partial"] t assms(2) by auto
    obtain s1 out1 rest s2 out2 b' where
      *: "blocks (perm (fst (part s src (unat partial) ?t))) (drop ?t src) = (s1, out1, rest)"
      "length rest < R"
      "(if length rest > 0 then part s1 rest 0 (length rest) else (s1, [])) = (s2, out2)"
      "rep s2 b'"
      "run (duplex_step G f R) (f (fst (G b (unat partial) (take ?t src))), 0) (drop ?t src) =
        ((b', length rest), out1 @ out2)"
      using loop_tail_run[OF perm_rep[OF part(1)], of "drop ?t src"] by blast
    have "run (duplex_step G f R) (b, unat partial) src =
        ((b', length rest), snd (G b (unat partial) (take ?t src)) @ out1 @ out2)"
      using run_append[of "duplex_step G f R" "(b, unat partial)" "take ?t src" "drop ?t src"]
        run_fill[OF t(2,3), of b] *(5) by simp
    moreover have "duplex_crypt R block part perm s src partial =
        (s2, snd (part s src (unat partial) ?t) @ out1 @ out2, of_nat (length rest))"
      using False fits *
      by (cases "rest = []") (auto simp: duplex_crypt_def temp_eq[OF assms(2)] Let_def case_prod_beta)
    ultimately show ?thesis using *(2,4) part(2) by auto
  qed
qed

end

end
