(* ===== verification/Aead_Common.thy ===== *)
theory Aead_Common
  imports Duplex
begin

text \<open>
  \<open>aead/ascon-aead-common.c\<close> and \<open>aead/ascon-aead-util.c\<close>: the tag comparison, the absorption of
  associated data, encryption and decryption of a stretch of payload at rate 8 or 16, and the
  nonce helpers.  A data pointer with its length is a list; a function that writes an output
  buffer returns it.
\<close>

section \<open>Tag comparison\<close>

fun tag_accum :: "u32 \<Rightarrow> bytes \<Rightarrow> bytes \<Rightarrow> nat \<Rightarrow> u32" where
  "tag_accum accum (t1 # tag1) (t2 # tag2) (Suc sz) =
     tag_accum (accum OR (ucast t1 XOR ucast t2)) tag1 tag2 sz"
| "tag_accum accum tag1 tag2 sz = accum"

text \<open>\<open>accum\<close> is a 32-bit \<open>int\<close> and the shift to the right is arithmetic; the result is the return
  value and the plaintext buffer.\<close>

definition ascon_aead_check_tag :: "bytes \<Rightarrow> bytes \<Rightarrow> bytes \<Rightarrow> nat \<Rightarrow> int \<times> bytes" where
  "ascon_aead_check_tag plaintext tag1 tag2 sz =
     (let accum = tag_accum 0 tag1 tag2 sz;
          accum = signed_drop_bit 8 (accum - 1)
      in (sint (NOT accum), map (\<lambda>p. p AND ucast accum) plaintext))"

lemma bit_byte: "bit (a::u8) i \<Longrightarrow> i < 8"
  by (auto dest: bit_imp_le_length)

lemma tag_accum_bits:
  "\<forall>i. bit accum i \<longrightarrow> i < 8 \<Longrightarrow> \<forall>i. bit (tag_accum accum t1 t2 n) i \<longrightarrow> i < 8"
proof (induction accum t1 t2 n rule: tag_accum.induct)
  case (1 accum t1 tag1 t2 tag2 sz)
  have "\<forall>i. bit (accum OR (ucast t1 XOR ucast t2)) i \<longrightarrow> i < 8"
    using 1(2) by (auto simp: word_bit_simps dest: bit_byte)
  from 1(1)[OF this] show ?case by simp
qed auto

lemma small_word: "(\<forall>i. bit (a::u32) i \<longrightarrow> i < 8) \<longleftrightarrow> a < 256"
proof -
  have "(\<forall>i. bit a i \<longrightarrow> i < 8) \<longleftrightarrow> take_bit 8 a = a"
  proof
    assume "take_bit 8 a = a"
    then show "\<forall>i. bit a i \<longrightarrow> i < 8" by (metis bit_take_bit_iff)
  qed (auto intro!: bit_word_eqI simp: bit_take_bit_iff)
  then show ?thesis
    by (simp add: word_unat_eq_iff unsigned_take_bit_eq take_bit_nat_eq_self_iff word_less_nat_alt)
qed

lemma ucast_8_eq: "(ucast (a::u8) :: u32) = ucast b \<longleftrightarrow> a = b"
proof
  assume eq: "(ucast a :: u32) = ucast b"
  show "a = b"
  proof (rule bit_word_eqI)
    fix i assume "i < LENGTH(8)"
    then show "bit a i = bit b i"
      using arg_cong[OF eq, of "\<lambda>w. bit w i"] by (simp add: bit_ucast_iff)
  qed
qed simp

lemma tag_accum_zero:
  "\<lbrakk>n \<le> length t1; n \<le> length t2\<rbrakk> \<Longrightarrow>
     tag_accum accum t1 t2 n = 0 \<longleftrightarrow> accum = 0 \<and> take n t1 = take n t2"
  by (induction accum t1 t2 n rule: tag_accum.induct)
    (auto simp: or_eq_0_iff xor_eq_zero_iff ucast_8_eq)

lemma ucast_minus_1: "(ucast (- 1 :: u32) :: u8) = - 1"
  by (rule bit_word_eqI) (simp add: bit_ucast_iff)

lemma check_tag_eq:
  assumes "n \<le> length t1" "n \<le> length t2"
  shows "ascon_aead_check_tag p t1 t2 n =
     (if take n t1 = take n t2 then (0, p) else (-1, zeros (length p)))"
proof (cases "take n t1 = take n t2")
  case True
  then have "tag_accum 0 t1 t2 n = 0" using tag_accum_zero[OF assms] by simp
  moreover have "signed_drop_bit 8 (- 1 :: u32) = - 1"
    by (rule bit_word_eqI) (simp add: bit_signed_drop_bit_iff)
  ultimately show ?thesis
    using True by (simp add: ascon_aead_check_tag_def Let_def ucast_minus_1)
next
  case False
  let ?a = "tag_accum 0 t1 t2 n"
  have "?a \<noteq> 0" "?a < 256"
    using False tag_accum_zero[OF assms] small_word[of ?a] tag_accum_bits[of 0 t1 t2 n] by auto
  then have "?a - 1 < 256" by (simp add: word_less_nat_alt unat_minus_one)
  then have small: "\<forall>i. bit (?a - 1) i \<longrightarrow> i < 8" using small_word[of "?a - 1"] by blast
  then have "\<not> bit (?a - 1) 31" by force
  with small have "signed_drop_bit 8 (?a - 1) = 0"
    by (intro bit_word_eqI) (auto simp: bit_signed_drop_bit_iff)
  with False show ?thesis
    by (simp add: ascon_aead_check_tag_def Let_def zeros_def map_replicate_const)
qed

section \<open>Absorbing, encrypting, decrypting\<close>

definition ascon_aead_absorb_8 :: "'s snp \<Rightarrow> 's \<Rightarrow> bytes \<Rightarrow> u8 \<Rightarrow> bool \<Rightarrow> 's" where
  "ascon_aead_absorb_8 B s data first_round last_permute =
     (let (s, _, data) =
            block_loop 8 (\<lambda>s data. (snp_permute B (snp_absorb_8 B s data 0) first_round, [])) s data;
          len = length data;
          s = (if len > 0 then snp_absorb_partial B s data 0 len else s);
          s = snp_pad B s len
      in if last_permute then snp_permute B s first_round else s)"

definition ascon_aead_absorb_16 :: "'s snp \<Rightarrow> 's \<Rightarrow> bytes \<Rightarrow> u8 \<Rightarrow> bool \<Rightarrow> 's" where
  "ascon_aead_absorb_16 B s data first_round last_permute =
     (let (s, _, data) =
            block_loop 16 (\<lambda>s data. (snp_permute B (snp_absorb_16 B s data 0) first_round, [])) s data;
          len = length data;
          s = (if len > 0 then snp_absorb_partial B s data 0 len else s);
          s = snp_pad B s len
      in if last_permute then snp_permute B s first_round else s)"

definition ascon_aead_encrypt_8 :: "'s snp \<Rightarrow> 's \<Rightarrow> bytes \<Rightarrow> u8 \<Rightarrow> u8 \<Rightarrow> 's \<times> bytes \<times> u8" where
  "ascon_aead_encrypt_8 B s src first_round partial =
     duplex_crypt 8 (snp_encrypt_8 B) (snp_encrypt_partial B) (\<lambda>s. snp_permute B s first_round)
       s src partial"

definition ascon_aead_encrypt_16 :: "'s snp \<Rightarrow> 's \<Rightarrow> bytes \<Rightarrow> u8 \<Rightarrow> u8 \<Rightarrow> 's \<times> bytes \<times> u8" where
  "ascon_aead_encrypt_16 B s src first_round partial =
     duplex_crypt 16 (snp_encrypt_16 B) (snp_encrypt_partial B) (\<lambda>s. snp_permute B s first_round)
       s src partial"

definition ascon_aead_decrypt_8 :: "'s snp \<Rightarrow> 's \<Rightarrow> bytes \<Rightarrow> u8 \<Rightarrow> u8 \<Rightarrow> 's \<times> bytes \<times> u8" where
  "ascon_aead_decrypt_8 B s src first_round partial =
     duplex_crypt 8 (snp_decrypt_8 B) (snp_decrypt_partial B) (\<lambda>s. snp_permute B s first_round)
       s src partial"

definition ascon_aead_decrypt_16 :: "'s snp \<Rightarrow> 's \<Rightarrow> bytes \<Rightarrow> u8 \<Rightarrow> u8 \<Rightarrow> 's \<times> bytes \<times> u8" where
  "ascon_aead_decrypt_16 B s src first_round partial =
     duplex_crypt 16 (snp_decrypt_16 B) (snp_decrypt_partial B) (\<lambda>s. snp_permute B s first_round)
       s src partial"

section \<open>The effects on the bytes of the state\<close>

lemma absorb_effect_append:
  "absorb_effect b p (xs @ ys) =
     (case absorb_effect b p xs of (b', out) \<Rightarrow> case absorb_effect b' (p + length xs) ys of
        (b'', out') \<Rightarrow> (b'', out @ out'))"
  by (simp add: absorb_effect_def xor_at_append)

lemma get_at_untouched:
  "\<lbrakk>\<And>i. p \<le> i \<Longrightarrow> i < length b \<Longrightarrow> b' ! i = b ! i; length b' = length b\<rbrakk> \<Longrightarrow> get_at b' p n = get_at b p n"
  by (rule nth_equalityI) (auto simp: byte_nth)

lemma crypt_output_append:
  assumes "get_at b' (p + length xs) (length ys) = get_at b (p + length xs) (length ys)"
  shows "xor_bytes (get_at b p (length (xs @ ys))) (xs @ ys) =
       xor_bytes (get_at b p (length xs)) xs @ xor_bytes (get_at b' (p + length xs) (length ys)) ys"
proof (cases "p + length xs \<le> length b")
  case True
  then show ?thesis by (simp add: assms get_at_append xor_bytes_append)
next
  case False
  then have "get_at b (p + length xs) (length ys) = []" "length (get_at b p (length xs)) \<le> length xs"
    by (simp_all add: get_at_beyond)
  then show ?thesis by (simp add: assms get_at_append xor_bytes_def zip_append2)
qed

lemma encrypt_effect_append:
  "encrypt_effect b p (xs @ ys) =
     (case encrypt_effect b p xs of (b', out) \<Rightarrow> case encrypt_effect b' (p + length xs) ys of
        (b'', out') \<Rightarrow> (b'', out @ out'))"
proof -
  have "get_at (xor_at b p xs) (p + length xs) (length ys) = get_at b (p + length xs) (length ys)"
    by (rule get_at_untouched) (auto simp: byte_nth)
  from crypt_output_append[OF this] show ?thesis
    by (simp add: encrypt_effect_def xor_at_append)
qed

lemma decrypt_effect_append:
  "decrypt_effect b p (xs @ ys) =
     (case decrypt_effect b p xs of (b', out) \<Rightarrow> case decrypt_effect b' (p + length xs) ys of
        (b'', out') \<Rightarrow> (b'', out @ out'))"
proof -
  have "get_at (put_at b p xs) (p + length xs) (length ys) = get_at b (p + length xs) (length ys)"
    by (rule get_at_untouched) (auto simp: byte_nth)
  from crypt_output_append[OF this] show ?thesis
    by (simp add: decrypt_effect_def put_at_append)
qed

lemma effect_Nil:
  "absorb_effect b p [] = (b, [])" "encrypt_effect b p [] = (b, [])" "decrypt_effect b p [] = (b, [])"
  by (simp_all add: absorb_effect_def encrypt_effect_def decrypt_effect_def)

section \<open>The code runs the duplex machine\<close>

text \<open>Every backend satisfies the contract of the duplex locale at both rates.\<close>

sublocale snp_laws \<subseteq> encrypt_8: duplex rep encrypt_effect "\<lambda>b. permute_bytes b fr" 8
    "snp_encrypt_8 B" "snp_encrypt_partial B" "\<lambda>s. snp_permute B s fr" for fr
  by unfold_locales
    (auto simp: encrypt_effect_append effect_Nil rep_permute, auto simp: encrypt_effect_def
      rep_encrypt_8 rep_encrypt_partial)

sublocale snp_laws \<subseteq> encrypt_16: duplex rep encrypt_effect "\<lambda>b. permute_bytes b fr" 16
    "snp_encrypt_16 B" "snp_encrypt_partial B" "\<lambda>s. snp_permute B s fr" for fr
  by unfold_locales
    (auto simp: encrypt_effect_append effect_Nil rep_permute, auto simp: encrypt_effect_def
      rep_encrypt_16 rep_encrypt_partial)

sublocale snp_laws \<subseteq> decrypt_8: duplex rep decrypt_effect "\<lambda>b. permute_bytes b fr" 8
    "snp_decrypt_8 B" "snp_decrypt_partial B" "\<lambda>s. snp_permute B s fr" for fr
  by unfold_locales
    (auto simp: decrypt_effect_append effect_Nil rep_permute, auto simp: decrypt_effect_def
      rep_decrypt_8 rep_decrypt_partial)

sublocale snp_laws \<subseteq> decrypt_16: duplex rep decrypt_effect "\<lambda>b. permute_bytes b fr" 16
    "snp_decrypt_16 B" "snp_decrypt_partial B" "\<lambda>s. snp_permute B s fr" for fr
  by unfold_locales
    (auto simp: decrypt_effect_append effect_Nil rep_permute, auto simp: decrypt_effect_def
      rep_decrypt_16 rep_decrypt_partial)

sublocale snp_laws \<subseteq> absorb_8: duplex rep absorb_effect "\<lambda>b. permute_bytes b fr" 8
    "\<lambda>s d off. (snp_absorb_8 B s d off, [])" "\<lambda>s d off n. (snp_absorb_partial B s d off n, [])"
    "\<lambda>s. snp_permute B s fr" for fr
  by unfold_locales
    (auto simp: absorb_effect_append effect_Nil rep_permute, auto simp: absorb_effect_def
      rep_absorb_8 rep_absorb_partial)

sublocale snp_laws \<subseteq> absorb_16: duplex rep absorb_effect "\<lambda>b. permute_bytes b fr" 16
    "\<lambda>s d off. (snp_absorb_16 B s d off, [])" "\<lambda>s d off n. (snp_absorb_partial B s d off n, [])"
    "\<lambda>s. snp_permute B s fr" for fr
  by unfold_locales
    (auto simp: absorb_effect_append effect_Nil rep_permute, auto simp: absorb_effect_def
      rep_absorb_16 rep_absorb_partial)

end
