(* ===== verification/Aead_Spec.thy ===== *)
theory Aead_Spec
  imports Aead_Common
begin

text \<open>
  The authenticated encryption of the ASCON specification as functions on byte strings, over the
  byte machine of theory \<open>Duplex\<close>: initialisation, associated data, payload, tag.  The
  three variants differ in the initialisation vector, the rate and the number of rounds between
  blocks.  This theory proves what the construction promises; the theories of the modes show that
  the code computes it.
\<close>

section \<open>The construction\<close>

definition machine :: "effect \<Rightarrow> nat \<Rightarrow> u8 \<Rightarrow> bytes \<times> nat \<Rightarrow> u8 \<Rightarrow> (bytes \<times> nat) \<times> bytes" where
  "machine G R fr = duplex_step G (\<lambda>b. permute_bytes b fr) R"

definition spec_absorb :: "nat \<Rightarrow> u8 \<Rightarrow> bytes \<Rightarrow> bytes \<Rightarrow> bytes" where
  "spec_absorb R fr b xs =
     (case run (machine absorb_effect R fr) (b, 0) xs of ((b, p), _) \<Rightarrow> xor_at b p [0x80])"

definition spec_aead_start :: "bytes \<Rightarrow> nat \<Rightarrow> u8 \<Rightarrow> bytes \<Rightarrow> bytes \<Rightarrow> bytes \<Rightarrow> bytes" where
  "spec_aead_start iv R fr k npub ad =
     (let b = xor_at (permute_bytes (iv @ k @ npub) 0) (40 - length k) k;
          b = (if ad = [] then b else permute_bytes (spec_absorb R fr b ad) fr)
      in xor_at b 39 [1])"

definition spec_aead_tag :: "nat \<Rightarrow> bytes \<Rightarrow> bytes \<times> nat \<Rightarrow> bytes" where
  "spec_aead_tag R k st = (case st of (b, p) \<Rightarrow>
     let b = permute_bytes (xor_at (xor_at b p [0x80]) R k) 0;
         b = xor_at b 24 (drop (length k - 16) k)
     in get_at b 24 16)"

definition spec_aead_encrypt ::
  "bytes \<Rightarrow> nat \<Rightarrow> u8 \<Rightarrow> bytes \<Rightarrow> bytes \<Rightarrow> bytes \<Rightarrow> bytes \<Rightarrow> bytes" where
  "spec_aead_encrypt iv R fr k npub ad m =
     (case run (machine encrypt_effect R fr) (spec_aead_start iv R fr k npub ad, 0) m of
        (st, c) \<Rightarrow> c @ spec_aead_tag R k st)"

definition spec_aead_decrypt ::
  "bytes \<Rightarrow> nat \<Rightarrow> u8 \<Rightarrow> bytes \<Rightarrow> bytes \<Rightarrow> bytes \<Rightarrow> bytes \<Rightarrow> bytes option" where
  "spec_aead_decrypt iv R fr k npub ad c =
     (if length c < 16 then None
      else case run (machine decrypt_effect R fr) (spec_aead_start iv R fr k npub ad, 0)
                  (take (length c - 16) c) of
             (st, m) \<Rightarrow> if spec_aead_tag R k st = drop (length c - 16) c then Some m else None)"

section \<open>Encryption and decryption are inverse\<close>

definition duplex_ok :: "nat \<Rightarrow> bytes \<times> nat \<Rightarrow> bool" where
  "duplex_ok R st \<longleftrightarrow> length (fst st) = 40 \<and> snd st < R"

lemma machine_step:
  assumes "duplex_ok R st" "R \<le> 40"
  shows "duplex_ok R (fst (machine encrypt_effect R fr st x))"
    "duplex_ok R (fst (machine decrypt_effect R fr st x))"
    "duplex_ok R (fst (machine absorb_effect R fr st x))"
    "snd (machine encrypt_effect R fr st x) = [fst st ! snd st XOR x]"
    "snd (machine decrypt_effect R fr st x) = [fst st ! snd st XOR x]"
    "machine decrypt_effect R fr st (fst st ! snd st XOR x) =
       (fst (machine encrypt_effect R fr st x), [x])"
proof -
  obtain b p where st: "st = (b, p)" by (cases st)
  with assms have len: "length b = 40" "p < R" "p < 40" by (auto simp: duplex_ok_def)
  have get: "get_at b p (Suc 0) = [b ! p]"
    using len by (simp add: get_at_def flip: Cons_nth_drop_Suc)
  have put: "put_at b p [b ! p XOR x] = xor_at b p [x]"
    using len by (simp add: put_at_one xor_at_one)
  show "duplex_ok R (fst (machine encrypt_effect R fr st x))"
    "duplex_ok R (fst (machine decrypt_effect R fr st x))"
    "duplex_ok R (fst (machine absorb_effect R fr st x))"
    "snd (machine encrypt_effect R fr st x) = [fst st ! snd st XOR x]"
    "snd (machine decrypt_effect R fr st x) = [fst st ! snd st XOR x]"
    "machine decrypt_effect R fr st (fst st ! snd st XOR x) =
       (fst (machine encrypt_effect R fr st x), [x])"
    using len get put
    by (auto simp: st machine_def duplex_step_def encrypt_effect_def decrypt_effect_def
        absorb_effect_def duplex_ok_def)
qed

lemma run_ok:
  assumes "R \<le> 40" "duplex_ok R st" "G \<in> {encrypt_effect, decrypt_effect, absorb_effect}"
  shows "duplex_ok R (fst (run (machine G R fr) st xs))"
  using assms(2)
proof (induction xs arbitrary: st)
  case (Cons x xs)
  have "duplex_ok R (fst (machine G R fr st x))"
    using machine_step(1-3)[OF Cons.prems assms(1)] assms(3) by auto
  from Cons.IH[OF this] show ?case by (simp add: case_prod_beta Let_def)
qed simp

lemma length_run:
  assumes "R \<le> 40" "duplex_ok R st" "G \<in> {encrypt_effect, decrypt_effect}"
  shows "length (snd (run (machine G R fr) st xs)) = length xs"
  using assms(2)
proof (induction xs arbitrary: st)
  case (Cons x xs)
  have "duplex_ok R (fst (machine G R fr st x))" "length (snd (machine G R fr st x)) = 1"
    using machine_step[OF Cons.prems assms(1)] assms(3) by auto
  with Cons.IH[of "fst (machine G R fr st x)"] show ?case by (simp add: case_prod_beta Let_def)
qed simp

lemma decrypt_inverts:
  assumes "R \<le> 40" "duplex_ok R st"
  shows "run (machine decrypt_effect R fr) st (snd (run (machine encrypt_effect R fr) st xs)) =
    (fst (run (machine encrypt_effect R fr) st xs), xs)"
  using assms(2)
proof (induction xs arbitrary: st)
  case (Cons x xs)
  have "duplex_ok R (fst (machine encrypt_effect R fr st x))"
    using machine_step[OF Cons.prems assms(1)] by auto
  from Cons.IH[OF this] machine_step(4,6)[OF Cons.prems assms(1)] show ?case
    by (simp add: case_prod_beta Let_def)
qed simp

lemma encrypt_inverts:
  assumes "R \<le> 40" "duplex_ok R st"
  shows "run (machine encrypt_effect R fr) st (snd (run (machine decrypt_effect R fr) st ys)) =
    (fst (run (machine decrypt_effect R fr) st ys), ys)"
  using assms(2)
proof (induction ys arbitrary: st)
  case (Cons y ys)
  let ?x = "fst st ! snd st XOR y"
  obtain S where e: "machine encrypt_effect R fr st ?x = (S, [y])"
    using machine_step(4)[OF Cons.prems assms(1), of fr ?x] by (metis prod.collapse xor_cancel_left)
  have d: "machine decrypt_effect R fr st y = (S, [?x])"
    using machine_step(6)[OF Cons.prems assms(1), of fr ?x] e by simp
  have "duplex_ok R S"
    using machine_step(1)[OF Cons.prems assms(1), of fr ?x] e by simp
  from Cons.IH[OF this] show ?case
    by (simp add: d e case_prod_beta Let_def)
qed simp

lemma duplex_ok_start: "0 < R \<Longrightarrow> duplex_ok R (spec_aead_start iv R fr k npub ad, 0)"
  by (simp add: duplex_ok_def spec_aead_start_def Let_def spec_absorb_def)

lemma length_spec_tag: "length (spec_aead_tag R k st) = 16"
  by (simp add: spec_aead_tag_def Let_def split: prod.split)

text \<open>Decryption accepts exactly the outputs of encryption.\<close>

lemma spec_decrypt_iff:
  assumes "0 < R" "R \<le> 40"
  shows "spec_aead_decrypt iv R fr k npub ad c = Some m \<longleftrightarrow>
     c = spec_aead_encrypt iv R fr k npub ad m"
proof -
  let ?st = "(spec_aead_start iv R fr k npub ad, 0)"
  let ?E = "run (machine encrypt_effect R fr) ?st" and ?D = "run (machine decrypt_effect R fr) ?st"
  note ok = duplex_ok_start[OF assms(1), of iv fr k npub ad]
  have enc: "?D (snd (?E m)) = (fst (?E m), m)" for m
    by (rule decrypt_inverts[OF assms(2) ok])
  have dec: "?E (snd (?D y)) = (fst (?D y), y)" for y
    by (rule encrypt_inverts[OF assms(2) ok])
  have len: "length (snd (?E m)) = length m" for m
    by (rule length_run[OF assms(2) ok]) simp
  show ?thesis
  proof
    assume c: "c = spec_aead_encrypt iv R fr k npub ad m"
    then show "spec_aead_decrypt iv R fr k npub ad c = Some m"
      using enc[of m] len[of m]
      by (simp add: spec_aead_encrypt_def spec_aead_decrypt_def case_prod_beta length_spec_tag)
  next
    let ?y = "take (length c - 16) c"
    assume "spec_aead_decrypt iv R fr k npub ad c = Some m"
    then have m: "m = snd (?D ?y)" and t: "spec_aead_tag R k (fst (?D ?y)) = drop (length c - 16) c"
      by (auto simp: spec_aead_decrypt_def case_prod_beta split: if_splits)
    have "spec_aead_encrypt iv R fr k npub ad m = ?y @ drop (length c - 16) c"
      using dec[of ?y] t by (simp add: spec_aead_encrypt_def m)
    then show "c = spec_aead_encrypt iv R fr k npub ad m" by simp
  qed
qed

lemma length_spec_encrypt:
  assumes "0 < R" "R \<le> 40"
  shows "length (spec_aead_encrypt iv R fr k npub ad m) = length m + 16"
  using length_run[OF assms(2) duplex_ok_start[OF assms(1)], of encrypt_effect]
  by (simp add: spec_aead_encrypt_def case_prod_beta length_spec_tag)

end
