(* ===== verification/Aead_OneShot.thy ===== *)
theory Aead_OneShot
  imports Aead_Spec
begin

text \<open>
  \<open>aead/ascon-aead-128.c\<close>, \<open>ascon-aead-128a.c\<close> and \<open>ascon-aead-80pq.c\<close>: authenticated encryption
  and decryption of a whole packet.  The statements that set up the state and those that
  finalise it are the same in the encrypting and the decrypting function of a variant; they are
  the definitions \<open>..._setup\<close> and \<open>..._finish\<close>.  Encryption returns the ciphertext with the tag
  appended, of length \<open>*clen\<close>; decryption returns the result code and, unless it gave up before
  writing anything, the plaintext buffer of length \<open>*mlen\<close>.
\<close>

section \<open>The code\<close>

definition ASCON128_IV :: bytes where
  "ASCON128_IV = [0x80, 0x40, 0x0c, 0x06, 0x00, 0x00, 0x00, 0x00]"

lemma length_ASCON128_IV [simp]: "length ASCON128_IV = 8"
  by (simp add: ASCON128_IV_def)

definition ascon128_setup :: "'s snp \<Rightarrow> 's \<Rightarrow> bytes \<Rightarrow> bytes \<Rightarrow> bytes \<Rightarrow> 's" where
  "ascon128_setup B s k npub ad =
     (let s = snp_overwrite_bytes B s ASCON128_IV 0 8;
          s = snp_overwrite_bytes B s k 8 16;
          s = snp_overwrite_bytes B s npub 24 16;
          s = snp_permute B s 0;
          s = snp_absorb_16 B s k 24;
          s = (if length ad > 0 then ascon_aead_absorb_8 B s ad 6 True else s)
      in snp_separator B s)"

definition ascon128_finish :: "'s snp \<Rightarrow> 's \<Rightarrow> u8 \<Rightarrow> bytes \<Rightarrow> 's" where
  "ascon128_finish B s partial k =
     (let s = snp_pad B s (unat partial);
          s = snp_absorb_16 B s k 8;
          s = snp_permute B s 0
      in snp_absorb_16 B s k 24)"

definition ascon128_aead_encrypt :: "'s snp \<Rightarrow> bytes \<Rightarrow> bytes \<Rightarrow> bytes \<Rightarrow> bytes \<Rightarrow> bytes" where
  "ascon128_aead_encrypt B m ad npub k =
     (let s = ascon128_setup B (snp_init B) k npub ad;
          (s, c, partial) = ascon_aead_encrypt_8 B s m 6 0;
          s = ascon128_finish B s partial k
      in c @ snp_squeeze_partial B s 24 16)"

definition ascon128_aead_decrypt ::
  "'s snp \<Rightarrow> bytes \<Rightarrow> bytes \<Rightarrow> bytes \<Rightarrow> bytes \<Rightarrow> int \<times> bytes option" where
  "ascon128_aead_decrypt B c ad npub k =
     (if length c < 16 then (-1, None)
      else let mlen = length c - 16;
               s = ascon128_setup B (snp_init B) k npub ad;
               (s, m, partial) = ascon_aead_decrypt_8 B s (take mlen c) 6 0;
               s = ascon128_finish B s partial k;
               tag = snp_squeeze_16 B s 24;
               (result, m) = ascon_aead_check_tag m tag (drop mlen c) 16
           in (result, Some m))"

definition ASCON128a_IV :: bytes where
  "ASCON128a_IV = [0x80, 0x80, 0x0c, 0x08, 0x00, 0x00, 0x00, 0x00]"

lemma length_ASCON128a_IV [simp]: "length ASCON128a_IV = 8"
  by (simp add: ASCON128a_IV_def)

definition ascon128a_setup :: "'s snp \<Rightarrow> 's \<Rightarrow> bytes \<Rightarrow> bytes \<Rightarrow> bytes \<Rightarrow> 's" where
  "ascon128a_setup B s k npub ad =
     (let s = snp_overwrite_bytes B s ASCON128a_IV 0 8;
          s = snp_overwrite_bytes B s k 8 16;
          s = snp_overwrite_bytes B s npub 24 16;
          s = snp_permute B s 0;
          s = snp_absorb_16 B s k 24;
          s = (if length ad > 0 then ascon_aead_absorb_16 B s ad 4 True else s)
      in snp_separator B s)"

definition ascon128a_finish :: "'s snp \<Rightarrow> 's \<Rightarrow> u8 \<Rightarrow> bytes \<Rightarrow> 's" where
  "ascon128a_finish B s partial k =
     (let s = snp_pad B s (unat partial);
          s = snp_absorb_16 B s k 16;
          s = snp_permute B s 0
      in snp_absorb_16 B s k 24)"

definition ascon128a_aead_encrypt :: "'s snp \<Rightarrow> bytes \<Rightarrow> bytes \<Rightarrow> bytes \<Rightarrow> bytes \<Rightarrow> bytes" where
  "ascon128a_aead_encrypt B m ad npub k =
     (let s = ascon128a_setup B (snp_init B) k npub ad;
          (s, c, partial) = ascon_aead_encrypt_16 B s m 4 0;
          s = ascon128a_finish B s partial k
      in c @ snp_squeeze_partial B s 24 16)"

definition ascon128a_aead_decrypt ::
  "'s snp \<Rightarrow> bytes \<Rightarrow> bytes \<Rightarrow> bytes \<Rightarrow> bytes \<Rightarrow> int \<times> bytes option" where
  "ascon128a_aead_decrypt B c ad npub k =
     (if length c < 16 then (-1, None)
      else let mlen = length c - 16;
               s = ascon128a_setup B (snp_init B) k npub ad;
               (s, m, partial) = ascon_aead_decrypt_16 B s (take mlen c) 4 0;
               s = ascon128a_finish B s partial k;
               tag = snp_squeeze_16 B s 24;
               (result, m) = ascon_aead_check_tag m tag (drop mlen c) 16
           in (result, Some m))"

definition ASCON80PQ_IV :: bytes where
  "ASCON80PQ_IV = [0xa0, 0x40, 0x0c, 0x06]"

lemma length_ASCON80PQ_IV [simp]: "length ASCON80PQ_IV = 4"
  by (simp add: ASCON80PQ_IV_def)

definition ascon80pq_setup :: "'s snp \<Rightarrow> 's \<Rightarrow> bytes \<Rightarrow> bytes \<Rightarrow> bytes \<Rightarrow> 's" where
  "ascon80pq_setup B s k npub ad =
     (let s = snp_overwrite_bytes B s ASCON80PQ_IV 0 4;
          s = snp_overwrite_bytes B s k 4 20;
          s = snp_overwrite_bytes B s npub 24 16;
          s = snp_permute B s 0;
          s = snp_absorb_partial B s k 20 20;
          s = (if length ad > 0 then ascon_aead_absorb_8 B s ad 6 True else s)
      in snp_separator B s)"

definition ascon80pq_finish :: "'s snp \<Rightarrow> 's \<Rightarrow> u8 \<Rightarrow> bytes \<Rightarrow> 's" where
  "ascon80pq_finish B s partial k =
     (let s = snp_pad B s (unat partial);
          s = snp_absorb_partial B s k 8 20;
          s = snp_permute B s 0
      in snp_absorb_16 B s (drop 4 k) 24)"

definition ascon80pq_aead_encrypt :: "'s snp \<Rightarrow> bytes \<Rightarrow> bytes \<Rightarrow> bytes \<Rightarrow> bytes \<Rightarrow> bytes" where
  "ascon80pq_aead_encrypt B m ad npub k =
     (let s = ascon80pq_setup B (snp_init B) k npub ad;
          (s, c, partial) = ascon_aead_encrypt_8 B s m 6 0;
          s = ascon80pq_finish B s partial k
      in c @ snp_squeeze_16 B s 24)"

definition ascon80pq_aead_decrypt ::
  "'s snp \<Rightarrow> bytes \<Rightarrow> bytes \<Rightarrow> bytes \<Rightarrow> bytes \<Rightarrow> int \<times> bytes option" where
  "ascon80pq_aead_decrypt B c ad npub k =
     (if length c < 16 then (-1, None)
      else let mlen = length c - 16;
               s = ascon80pq_setup B (snp_init B) k npub ad;
               (s, m, partial) = ascon_aead_decrypt_8 B s (take mlen c) 6 0;
               s = ascon80pq_finish B s partial k;
               tag = snp_squeeze_16 B s 24;
               (result, m) = ascon_aead_check_tag m tag (drop mlen c) 16
           in (result, Some m))"

section \<open>The code computes the construction\<close>

context snp_laws
begin

lemma encrypt_8_run:
  assumes "rep s b" "unat partial < 8"
  shows "\<exists>s'. ascon_aead_encrypt_8 B s m fr partial =
      (s', snd (run (machine encrypt_effect 8 fr) (b, unat partial) m),
       of_nat (snd (fst (run (machine encrypt_effect 8 fr) (b, unat partial) m)))) \<and>
    rep s' (fst (fst (run (machine encrypt_effect 8 fr) (b, unat partial) m))) \<and>
    snd (fst (run (machine encrypt_effect 8 fr) (b, unat partial) m)) < 8"
  using encrypt_8.crypt_run[OF assms, of fr m]
  by (auto simp: ascon_aead_encrypt_8_def machine_def)

lemma encrypt_16_run:
  assumes "rep s b" "unat partial < 16"
  shows "\<exists>s'. ascon_aead_encrypt_16 B s m fr partial =
      (s', snd (run (machine encrypt_effect 16 fr) (b, unat partial) m),
       of_nat (snd (fst (run (machine encrypt_effect 16 fr) (b, unat partial) m)))) \<and>
    rep s' (fst (fst (run (machine encrypt_effect 16 fr) (b, unat partial) m))) \<and>
    snd (fst (run (machine encrypt_effect 16 fr) (b, unat partial) m)) < 16"
  using encrypt_16.crypt_run[OF assms, of fr m]
  by (auto simp: ascon_aead_encrypt_16_def machine_def)

lemma decrypt_8_run:
  assumes "rep s b" "unat partial < 8"
  shows "\<exists>s'. ascon_aead_decrypt_8 B s m fr partial =
      (s', snd (run (machine decrypt_effect 8 fr) (b, unat partial) m),
       of_nat (snd (fst (run (machine decrypt_effect 8 fr) (b, unat partial) m)))) \<and>
    rep s' (fst (fst (run (machine decrypt_effect 8 fr) (b, unat partial) m))) \<and>
    snd (fst (run (machine decrypt_effect 8 fr) (b, unat partial) m)) < 8"
  using decrypt_8.crypt_run[OF assms, of fr m]
  by (auto simp: ascon_aead_decrypt_8_def machine_def)

lemma decrypt_16_run:
  assumes "rep s b" "unat partial < 16"
  shows "\<exists>s'. ascon_aead_decrypt_16 B s m fr partial =
      (s', snd (run (machine decrypt_effect 16 fr) (b, unat partial) m),
       of_nat (snd (fst (run (machine decrypt_effect 16 fr) (b, unat partial) m)))) \<and>
    rep s' (fst (fst (run (machine decrypt_effect 16 fr) (b, unat partial) m))) \<and>
    snd (fst (run (machine decrypt_effect 16 fr) (b, unat partial) m)) < 16"
  using decrypt_16.crypt_run[OF assms, of fr m]
  by (auto simp: ascon_aead_decrypt_16_def machine_def)

lemma absorb_8_run:
  assumes "rep s b"
  shows "rep (ascon_aead_absorb_8 B s ad fr True) (permute_bytes (spec_absorb 8 fr b ad) fr)"
  using absorb_8.loop_tail_run[OF assms, of fr ad]
  by (fastforce simp: ascon_aead_absorb_8_def spec_absorb_def machine_def Let_def
      intro!: rep_permute rep_pad split: if_splits)

lemma absorb_16_run:
  assumes "rep s b"
  shows "rep (ascon_aead_absorb_16 B s ad fr True) (permute_bytes (spec_absorb 16 fr b ad) fr)"
  using absorb_16.loop_tail_run[OF assms, of fr ad]
  by (fastforce simp: ascon_aead_absorb_16_def spec_absorb_def machine_def Let_def
      intro!: rep_permute rep_pad split: if_splits)

lemma put_three:
  assumes "length b = length x + length y + length z"
  shows "put_at (put_at (put_at b 0 x) (length x) y) (length x + length y) z = x @ y @ z"
  using put_at_whole[of b "x @ y @ z"] assms by (simp add: put_at_append)

lemma ascon128_setup_rep:
  assumes "rep s b" "length k = 16" "length npub = 16"
  shows "rep (ascon128_setup B s k npub ad) (spec_aead_start ASCON128_IV 8 6 k npub ad)"
proof -
  let ?s1 = "snp_overwrite_bytes B (snp_overwrite_bytes B (snp_overwrite_bytes B s ASCON128_IV 0 8) k 8 16) npub 24 16"
  have "rep ?s1 (put_at (put_at (put_at b 0 ASCON128_IV) 8 k) 24 npub)"
    using rep_overwrite[OF rep_overwrite[OF rep_overwrite[OF assms(1), of 8 ASCON128_IV 0],
        of 16 k 8], of 16 npub 24] assms
    by simp
  then have 1: "rep ?s1 (ASCON128_IV @ k @ npub)"
    using put_three[of b ASCON128_IV k npub] assms rep_length[OF assms(1)] by simp
  have 2: "rep (snp_absorb_16 B (snp_permute B ?s1 0) k 24)
      (xor_at (permute_bytes (ASCON128_IV @ k @ npub) 0) 24 k)"
    using rep_absorb_16[OF rep_permute[OF 1], of k 24 0] assms by simp
  show ?thesis
    using rep_separator[OF 2] rep_separator[OF absorb_8_run[OF 2, where ad = ad and fr = 6]] assms
    by (simp add: ascon128_setup_def spec_aead_start_def Let_def)
qed

lemma ascon128_finish_rep:
  assumes "rep s b" "p < 8" "length k = 16"
  shows "\<exists>b'. rep (ascon128_finish B s (of_nat p) k) b' \<and> get_at b' 24 16 = spec_aead_tag 8 k (b, p)"
proof -
  have "unat (of_nat p :: u8) = p"
    using assms(2) by (simp add: unat_of_nat take_bit_nat_eq_self)
  then have 1: "rep (snp_pad B s (unat (of_nat p :: u8))) (xor_at b p [0x80])"
    using rep_pad[OF assms(1), of p] assms(2) by simp
  have 2: "rep (snp_absorb_16 B (snp_pad B s (unat (of_nat p :: u8))) k 8)
      (xor_at (xor_at b p [0x80]) 8 k)"
    using rep_absorb_16[OF 1, of k 8] assms by simp
  have 3: "rep (ascon128_finish B s (of_nat p) k)
      (xor_at (permute_bytes (xor_at (xor_at b p [0x80]) 8 k) 0) 24 (k))"
    using rep_absorb_16[OF rep_permute[OF 2], of "k" 24 0] assms
    by (simp add: ascon128_finish_def Let_def)
  show ?thesis
    by (rule exI, rule conjI, rule 3) (simp add: spec_aead_tag_def Let_def assms(3))
qed

lemma ascon128_encrypt_spec:
  assumes "length k = 16" "length npub = 16"
  shows "ascon128_aead_encrypt B m ad npub k = spec_aead_encrypt ASCON128_IV 8 6 k npub ad m"
proof -
  let ?r = "run (machine encrypt_effect 8 6) (spec_aead_start ASCON128_IV 8 6 k npub ad, 0) m"
  obtain s' where 1: "ascon_aead_encrypt_8 B (ascon128_setup B (snp_init B) k npub ad) m 6 0 =
      (s', snd ?r, of_nat (snd (fst ?r)))" "rep s' (fst (fst ?r))" "snd (fst ?r) < 8"
    using encrypt_8_run[OF ascon128_setup_rep[OF rep_init assms, where ad = ad],
        where partial = 0 and m = m and fr = 6] by auto
  obtain b' where 2: "rep (ascon128_finish B s' (of_nat (snd (fst ?r))) k) b'"
    "get_at b' 24 16 = spec_aead_tag 8 k (fst ?r)"
    using ascon128_finish_rep[OF 1(2,3) assms(1)] by auto
  show ?thesis
    using rep_squeeze_partial[OF 2(1)] 2(2)
    by (simp add: ascon128_aead_encrypt_def 1(1) spec_aead_encrypt_def case_prod_beta Let_def)
qed

lemma ascon128_decrypt_spec:
  assumes "length k = 16" "length npub = 16"
  shows "ascon128_aead_decrypt B c ad npub k =
    (if length c < 16 then (-1, None)
     else case spec_aead_decrypt ASCON128_IV 8 6 k npub ad c of
            Some m \<Rightarrow> (0, Some m) | None \<Rightarrow> (-1, Some (zeros (length c - 16))))"
proof (cases "length c < 16")
  case False
  let ?r = "run (machine decrypt_effect 8 6) (spec_aead_start ASCON128_IV 8 6 k npub ad, 0)
    (take (length c - 16) c)"
  obtain s' where 1: "ascon_aead_decrypt_8 B (ascon128_setup B (snp_init B) k npub ad)
      (take (length c - 16) c) 6 0 = (s', snd ?r, of_nat (snd (fst ?r)))"
      "rep s' (fst (fst ?r))" "snd (fst ?r) < 8"
    using decrypt_8_run[OF ascon128_setup_rep[OF rep_init assms, where ad = ad],
        where partial = 0 and m = "take (length c - 16) c" and fr = 6] by auto
  obtain b' where 2: "rep (ascon128_finish B s' (of_nat (snd (fst ?r))) k) b'"
    "get_at b' 24 16 = spec_aead_tag 8 k (fst ?r)"
    using ascon128_finish_rep[OF 1(2,3) assms(1)] by auto
  have len: "length (snd ?r) = length c - 16"
    using length_run[OF _ duplex_ok_start, of 8 decrypt_effect] by simp
  have tag: "ascon_aead_check_tag (snd ?r) (snp_squeeze_16 B (ascon128_finish B s' (of_nat (snd (fst ?r))) k) 24)
      (drop (length c - 16) c) 16 =
    (if spec_aead_tag 8 k (fst ?r) = drop (length c - 16) c then (0, snd ?r)
     else (-1, zeros (length c - 16)))"
    using rep_squeeze_16[OF 2(1), of 24] 2(2) False len
    by (simp add: check_tag_eq length_spec_tag)
  show ?thesis
    using False tag
    by (simp add: ascon128_aead_decrypt_def 1(1) spec_aead_decrypt_def case_prod_beta Let_def)
qed (simp add: ascon128_aead_decrypt_def)

lemma ascon128a_setup_rep:
  assumes "rep s b" "length k = 16" "length npub = 16"
  shows "rep (ascon128a_setup B s k npub ad) (spec_aead_start ASCON128a_IV 16 4 k npub ad)"
proof -
  let ?s1 = "snp_overwrite_bytes B (snp_overwrite_bytes B (snp_overwrite_bytes B s ASCON128a_IV 0 8) k 8 16) npub 24 16"
  have "rep ?s1 (put_at (put_at (put_at b 0 ASCON128a_IV) 8 k) 24 npub)"
    using rep_overwrite[OF rep_overwrite[OF rep_overwrite[OF assms(1), of 8 ASCON128a_IV 0],
        of 16 k 8], of 16 npub 24] assms
    by simp
  then have 1: "rep ?s1 (ASCON128a_IV @ k @ npub)"
    using put_three[of b ASCON128a_IV k npub] assms rep_length[OF assms(1)] by simp
  have 2: "rep (snp_absorb_16 B (snp_permute B ?s1 0) k 24)
      (xor_at (permute_bytes (ASCON128a_IV @ k @ npub) 0) 24 k)"
    using rep_absorb_16[OF rep_permute[OF 1], of k 24 0] assms by simp
  show ?thesis
    using rep_separator[OF 2] rep_separator[OF absorb_16_run[OF 2, where ad = ad and fr = 4]] assms
    by (simp add: ascon128a_setup_def spec_aead_start_def Let_def)
qed

lemma ascon128a_finish_rep:
  assumes "rep s b" "p < 16" "length k = 16"
  shows "\<exists>b'. rep (ascon128a_finish B s (of_nat p) k) b' \<and> get_at b' 24 16 = spec_aead_tag 16 k (b, p)"
proof -
  have "unat (of_nat p :: u8) = p"
    using assms(2) by (simp add: unat_of_nat take_bit_nat_eq_self)
  then have 1: "rep (snp_pad B s (unat (of_nat p :: u8))) (xor_at b p [0x80])"
    using rep_pad[OF assms(1), of p] assms(2) by simp
  have 2: "rep (snp_absorb_16 B (snp_pad B s (unat (of_nat p :: u8))) k 16)
      (xor_at (xor_at b p [0x80]) 16 k)"
    using rep_absorb_16[OF 1, of k 16] assms by simp
  have 3: "rep (ascon128a_finish B s (of_nat p) k)
      (xor_at (permute_bytes (xor_at (xor_at b p [0x80]) 16 k) 0) 24 (k))"
    using rep_absorb_16[OF rep_permute[OF 2], of "k" 24 0] assms
    by (simp add: ascon128a_finish_def Let_def)
  show ?thesis
    by (rule exI, rule conjI, rule 3) (simp add: spec_aead_tag_def Let_def assms(3))
qed

lemma ascon128a_encrypt_spec:
  assumes "length k = 16" "length npub = 16"
  shows "ascon128a_aead_encrypt B m ad npub k = spec_aead_encrypt ASCON128a_IV 16 4 k npub ad m"
proof -
  let ?r = "run (machine encrypt_effect 16 4) (spec_aead_start ASCON128a_IV 16 4 k npub ad, 0) m"
  obtain s' where 1: "ascon_aead_encrypt_16 B (ascon128a_setup B (snp_init B) k npub ad) m 4 0 =
      (s', snd ?r, of_nat (snd (fst ?r)))" "rep s' (fst (fst ?r))" "snd (fst ?r) < 16"
    using encrypt_16_run[OF ascon128a_setup_rep[OF rep_init assms, where ad = ad],
        where partial = 0 and m = m and fr = 4] by auto
  obtain b' where 2: "rep (ascon128a_finish B s' (of_nat (snd (fst ?r))) k) b'"
    "get_at b' 24 16 = spec_aead_tag 16 k (fst ?r)"
    using ascon128a_finish_rep[OF 1(2,3) assms(1)] by auto
  show ?thesis
    using rep_squeeze_partial[OF 2(1)] 2(2)
    by (simp add: ascon128a_aead_encrypt_def 1(1) spec_aead_encrypt_def case_prod_beta Let_def)
qed

lemma ascon128a_decrypt_spec:
  assumes "length k = 16" "length npub = 16"
  shows "ascon128a_aead_decrypt B c ad npub k =
    (if length c < 16 then (-1, None)
     else case spec_aead_decrypt ASCON128a_IV 16 4 k npub ad c of
            Some m \<Rightarrow> (0, Some m) | None \<Rightarrow> (-1, Some (zeros (length c - 16))))"
proof (cases "length c < 16")
  case False
  let ?r = "run (machine decrypt_effect 16 4) (spec_aead_start ASCON128a_IV 16 4 k npub ad, 0)
    (take (length c - 16) c)"
  obtain s' where 1: "ascon_aead_decrypt_16 B (ascon128a_setup B (snp_init B) k npub ad)
      (take (length c - 16) c) 4 0 = (s', snd ?r, of_nat (snd (fst ?r)))"
      "rep s' (fst (fst ?r))" "snd (fst ?r) < 16"
    using decrypt_16_run[OF ascon128a_setup_rep[OF rep_init assms, where ad = ad],
        where partial = 0 and m = "take (length c - 16) c" and fr = 4] by auto
  obtain b' where 2: "rep (ascon128a_finish B s' (of_nat (snd (fst ?r))) k) b'"
    "get_at b' 24 16 = spec_aead_tag 16 k (fst ?r)"
    using ascon128a_finish_rep[OF 1(2,3) assms(1)] by auto
  have len: "length (snd ?r) = length c - 16"
    using length_run[OF _ duplex_ok_start, of 16 decrypt_effect] by simp
  have tag: "ascon_aead_check_tag (snd ?r) (snp_squeeze_16 B (ascon128a_finish B s' (of_nat (snd (fst ?r))) k) 24)
      (drop (length c - 16) c) 16 =
    (if spec_aead_tag 16 k (fst ?r) = drop (length c - 16) c then (0, snd ?r)
     else (-1, zeros (length c - 16)))"
    using rep_squeeze_16[OF 2(1), of 24] 2(2) False len
    by (simp add: check_tag_eq length_spec_tag)
  show ?thesis
    using False tag
    by (simp add: ascon128a_aead_decrypt_def 1(1) spec_aead_decrypt_def case_prod_beta Let_def)
qed (simp add: ascon128a_aead_decrypt_def)

lemma ascon80pq_setup_rep:
  assumes "rep s b" "length k = 20" "length npub = 16"
  shows "rep (ascon80pq_setup B s k npub ad) (spec_aead_start ASCON80PQ_IV 8 6 k npub ad)"
proof -
  let ?s1 = "snp_overwrite_bytes B (snp_overwrite_bytes B (snp_overwrite_bytes B s ASCON80PQ_IV 0 4) k 4 20) npub 24 16"
  have "rep ?s1 (put_at (put_at (put_at b 0 ASCON80PQ_IV) 4 k) 24 npub)"
    using rep_overwrite[OF rep_overwrite[OF rep_overwrite[OF assms(1), of 4 ASCON80PQ_IV 0],
        of 20 k 4], of 16 npub 24] assms
    by simp
  then have 1: "rep ?s1 (ASCON80PQ_IV @ k @ npub)"
    using put_three[of b ASCON80PQ_IV k npub] assms rep_length[OF assms(1)] by simp
  have 2: "rep (snp_absorb_partial B (snp_permute B ?s1 0) k 20 20)
      (xor_at (permute_bytes (ASCON80PQ_IV @ k @ npub) 0) 20 k)"
    using rep_absorb_partial[OF rep_permute[OF 1], of 20 k 20 0] assms by simp
  show ?thesis
    using rep_separator[OF 2] rep_separator[OF absorb_8_run[OF 2, where ad = ad and fr = 6]] assms
    by (simp add: ascon80pq_setup_def spec_aead_start_def Let_def)
qed

lemma ascon80pq_finish_rep:
  assumes "rep s b" "p < 8" "length k = 20"
  shows "\<exists>b'. rep (ascon80pq_finish B s (of_nat p) k) b' \<and> get_at b' 24 16 = spec_aead_tag 8 k (b, p)"
proof -
  have "unat (of_nat p :: u8) = p"
    using assms(2) by (simp add: unat_of_nat take_bit_nat_eq_self)
  then have 1: "rep (snp_pad B s (unat (of_nat p :: u8))) (xor_at b p [0x80])"
    using rep_pad[OF assms(1), of p] assms(2) by simp
  have 2: "rep (snp_absorb_partial B (snp_pad B s (unat (of_nat p :: u8))) k 8 20)
      (xor_at (xor_at b p [0x80]) 8 k)"
    using rep_absorb_partial[OF 1, of 20 k 8] assms by simp
  have 3: "rep (ascon80pq_finish B s (of_nat p) k)
      (xor_at (permute_bytes (xor_at (xor_at b p [0x80]) 8 k) 0) 24 (drop 4 k))"
    using rep_absorb_16[OF rep_permute[OF 2], of "drop 4 k" 24 0] assms
    by (simp add: ascon80pq_finish_def Let_def)
  show ?thesis
    by (rule exI, rule conjI, rule 3) (simp add: spec_aead_tag_def Let_def assms(3))
qed

lemma ascon80pq_encrypt_spec:
  assumes "length k = 20" "length npub = 16"
  shows "ascon80pq_aead_encrypt B m ad npub k = spec_aead_encrypt ASCON80PQ_IV 8 6 k npub ad m"
proof -
  let ?r = "run (machine encrypt_effect 8 6) (spec_aead_start ASCON80PQ_IV 8 6 k npub ad, 0) m"
  obtain s' where 1: "ascon_aead_encrypt_8 B (ascon80pq_setup B (snp_init B) k npub ad) m 6 0 =
      (s', snd ?r, of_nat (snd (fst ?r)))" "rep s' (fst (fst ?r))" "snd (fst ?r) < 8"
    using encrypt_8_run[OF ascon80pq_setup_rep[OF rep_init assms, where ad = ad],
        where partial = 0 and m = m and fr = 6] by auto
  obtain b' where 2: "rep (ascon80pq_finish B s' (of_nat (snd (fst ?r))) k) b'"
    "get_at b' 24 16 = spec_aead_tag 8 k (fst ?r)"
    using ascon80pq_finish_rep[OF 1(2,3) assms(1)] by auto
  show ?thesis
    using rep_squeeze_16[OF 2(1)] 2(2)
    by (simp add: ascon80pq_aead_encrypt_def 1(1) spec_aead_encrypt_def case_prod_beta Let_def)
qed

lemma ascon80pq_decrypt_spec:
  assumes "length k = 20" "length npub = 16"
  shows "ascon80pq_aead_decrypt B c ad npub k =
    (if length c < 16 then (-1, None)
     else case spec_aead_decrypt ASCON80PQ_IV 8 6 k npub ad c of
            Some m \<Rightarrow> (0, Some m) | None \<Rightarrow> (-1, Some (zeros (length c - 16))))"
proof (cases "length c < 16")
  case False
  let ?r = "run (machine decrypt_effect 8 6) (spec_aead_start ASCON80PQ_IV 8 6 k npub ad, 0)
    (take (length c - 16) c)"
  obtain s' where 1: "ascon_aead_decrypt_8 B (ascon80pq_setup B (snp_init B) k npub ad)
      (take (length c - 16) c) 6 0 = (s', snd ?r, of_nat (snd (fst ?r)))"
      "rep s' (fst (fst ?r))" "snd (fst ?r) < 8"
    using decrypt_8_run[OF ascon80pq_setup_rep[OF rep_init assms, where ad = ad],
        where partial = 0 and m = "take (length c - 16) c" and fr = 6] by auto
  obtain b' where 2: "rep (ascon80pq_finish B s' (of_nat (snd (fst ?r))) k) b'"
    "get_at b' 24 16 = spec_aead_tag 8 k (fst ?r)"
    using ascon80pq_finish_rep[OF 1(2,3) assms(1)] by auto
  have len: "length (snd ?r) = length c - 16"
    using length_run[OF _ duplex_ok_start, of 8 decrypt_effect] by simp
  have tag: "ascon_aead_check_tag (snd ?r) (snp_squeeze_16 B (ascon80pq_finish B s' (of_nat (snd (fst ?r))) k) 24)
      (drop (length c - 16) c) 16 =
    (if spec_aead_tag 8 k (fst ?r) = drop (length c - 16) c then (0, snd ?r)
     else (-1, zeros (length c - 16)))"
    using rep_squeeze_16[OF 2(1), of 24] 2(2) False len
    by (simp add: check_tag_eq length_spec_tag)
  show ?thesis
    using False tag
    by (simp add: ascon80pq_aead_decrypt_def 1(1) spec_aead_decrypt_def case_prod_beta Let_def)
qed (simp add: ascon80pq_aead_decrypt_def)

end

end
