(* ===== verification/Aead_Inc.thy ===== *)
theory Aead_Inc
  imports Aead_OneShot
begin

text \<open>
  \<open>aead/ascon-aead-inc-128.c\<close>, \<open>ascon-aead-inc-128a.c\<close>, \<open>ascon-aead-inc-80pq.c\<close> and
  \<open>ascon-aead-util.c\<close>: authenticated encryption of a packet whose payload arrives in pieces, with a
  nonce that is counted up from packet to packet.  The three state structures have the same
  fields and share a record; the key is 16 bytes, 20 for ASCON-80pq.  A pointer that may be
  \<open>NULL\<close> is an option.
\<close>

section \<open>The nonce\<close>

definition ascon_aead_set_counter :: "u64 \<Rightarrow> bytes" where
  "ascon_aead_set_counter n = be_store_word64 0 @ be_store_word64 n"

text \<open>The loop over the bytes from the last one down, with a 16-bit carry.\<close>

fun increment_loop :: "nat \<Rightarrow> u16 \<Rightarrow> bytes \<Rightarrow> bytes" where
  "increment_loop (Suc index) carry npub =
     (let carry = carry + ucast (npub ! index);
          npub = npub[index := ucast carry]
      in increment_loop index (drop_bit 8 carry) npub)"
| "increment_loop 0 carry npub = npub"

definition ascon_aead_increment_nonce :: "bytes \<Rightarrow> bytes" where
  "ascon_aead_increment_nonce npub = increment_loop 16 1 npub"

text \<open>A byte string as a big-endian number.\<close>

definition be_value :: "bytes \<Rightarrow> nat" where
  "be_value xs = foldl (\<lambda>n b. 256 * n + unat b) 0 xs"

lemma be_value_append1: "be_value (xs @ [x]) = 256 * be_value xs + unat x"
  by (simp add: be_value_def)

lemma length_increment_loop [simp]: "length (increment_loop n c xs) = length xs"
  by (induction n c xs rule: increment_loop.induct) (auto simp: Let_def)

lemma length_increment_nonce [simp, byte_len]:
  "length (ascon_aead_increment_nonce npub) = length npub"
  by (simp add: ascon_aead_increment_nonce_def)

lemma increment_loop_append:
  "n \<le> length xs \<Longrightarrow> increment_loop n c (xs @ ys) = increment_loop n c xs @ ys"
  by (induction n c xs rule: increment_loop.induct) (auto simp: Let_def nth_append list_update_append)

lemma mod_256_step:
  "(r::nat) < 256 \<Longrightarrow> 256 * (q mod 256 ^ n) + r = (256 * q + r) mod 256 ^ Suc n"
  by (simp add: mod_mult2_eq)

lemma increment_loop_value:
  "\<lbrakk>length xs = n; unat c \<le> 1\<rbrakk> \<Longrightarrow>
     be_value (increment_loop n c xs) = (be_value xs + unat c) mod 256 ^ n"
proof (induction n arbitrary: c xs)
  case 0
  then show ?case by (simp add: be_value_def)
next
  case (Suc n)
  obtain ys y where xs: "xs = ys @ [y]" and ys: "length ys = n"
    using Suc.prems(1) by (metis append_butlast_last_id length_append_singleton length_0_conv
        nat.distinct(1) old.nat.inject)
  let ?c = "c + ucast y"
  have y: "unat (ucast y :: u16) = unat y" "unat y < 256"
    using unsigned_less[of y, where ?'a = nat] by (simp_all add: unsigned_ucast_eq take_bit_nat_eq_self)
  have c: "unat ?c = unat c + unat y"
    using y Suc.prems(2) by (subst unat_add_lem[THEN iffD1]) auto
  have lo: "unat (ucast ?c :: u8) = (unat c + unat y) mod 256"
    using c by (simp add: unsigned_ucast_eq take_bit_eq_mod)
  have hi: "unat (drop_bit 8 ?c) = (unat c + unat y) div 256"
    using c by (simp add: drop_bit_eq_div unat_div_distrib)
  then have hi1: "unat (drop_bit 8 ?c) \<le> 1"
    using y Suc.prems(2) by simp
  have "increment_loop (Suc n) c xs = increment_loop n (drop_bit 8 ?c) ys @ [ucast ?c]"
    using ys by (simp add: xs Let_def nth_append list_update_append increment_loop_append)
  then have "be_value (increment_loop (Suc n) c xs) =
      256 * ((be_value ys + (unat c + unat y) div 256) mod 256 ^ n) + (unat c + unat y) mod 256"
    using Suc.IH[OF ys hi1] hi lo by (simp add: be_value_append1)
  also have "\<dots> = (256 * (be_value ys + (unat c + unat y) div 256) +
      (unat c + unat y) mod 256) mod 256 ^ Suc n"
    by (rule mod_256_step) simp
  also have "256 * (be_value ys + (unat c + unat y) div 256) + (unat c + unat y) mod 256 =
      be_value xs + unat c"
    by (simp add: xs be_value_append1 distrib_left)
  finally show ?case .
qed

section \<open>The code\<close>

record 's aead_state =
  aead_perm :: 's
  aead_key :: bytes
  aead_nonce :: bytes
  aead_posn :: u8

definition ascon128_aead_reinit ::
  "'s aead_state \<Rightarrow> bytes option \<Rightarrow> bytes option \<Rightarrow> 's aead_state" where
  "ascon128_aead_reinit st npub k = st
     \<lparr> aead_key := (case k of Some k \<Rightarrow> take 16 k | None \<Rightarrow> replicate 16 0),
       aead_nonce := (case npub of Some npub \<Rightarrow> take 16 npub | None \<Rightarrow> replicate 16 0),
       aead_posn := 0 \<rparr>"

definition ascon128_aead_init :: "'s snp \<Rightarrow> bytes option \<Rightarrow> bytes option \<Rightarrow> 's aead_state" where
  "ascon128_aead_init B npub k =
     ascon128_aead_reinit
       \<lparr> aead_perm = snp_release B (snp_init B), aead_key = [], aead_nonce = [], aead_posn = 0 \<rparr>
       npub k"

definition ascon128_aead_start :: "'s snp \<Rightarrow> 's aead_state \<Rightarrow> bytes \<Rightarrow> 's aead_state" where
  "ascon128_aead_start B st ad =
     (let s = snp_acquire B (aead_perm st);
          s = ascon128_setup B s (aead_key st) (aead_nonce st) ad;
          s = snp_release B s
      in st \<lparr> aead_perm := s, aead_posn := 0,
              aead_nonce := ascon_aead_increment_nonce (aead_nonce st) \<rparr>)"

definition ascon128_aead_free :: "'s snp \<Rightarrow> 's aead_state \<Rightarrow> 's aead_state" where
  "ascon128_aead_free B st =
     \<lparr> aead_perm = snp_free B (snp_acquire B (aead_perm st)),
       aead_key = replicate (length (aead_key st)) 0,
       aead_nonce = replicate (length (aead_nonce st)) 0, aead_posn = 0 \<rparr>"

definition ascon128_aead_encrypt_block ::
  "'s snp \<Rightarrow> 's aead_state \<Rightarrow> bytes \<Rightarrow> 's aead_state \<times> bytes" where
  "ascon128_aead_encrypt_block B st inp =
     (let s = snp_acquire B (aead_perm st);
          (s, out, posn) = ascon_aead_encrypt_8 B s inp 6 (aead_posn st);
          s = snp_release B s
      in (st \<lparr> aead_perm := s, aead_posn := posn \<rparr>, out))"

definition ascon128_aead_encrypt_finalize ::
  "'s snp \<Rightarrow> 's aead_state \<Rightarrow> 's aead_state \<times> bytes" where
  "ascon128_aead_encrypt_finalize B st =
     (let s = snp_acquire B (aead_perm st);
          s = ascon128_finish B s (aead_posn st) (aead_key st);
          tag = snp_squeeze_partial B s 24 16;
          s = snp_release B s
      in (st \<lparr> aead_perm := s \<rparr>, tag))"

definition ascon128_aead_decrypt_block ::
  "'s snp \<Rightarrow> 's aead_state \<Rightarrow> bytes \<Rightarrow> 's aead_state \<times> bytes" where
  "ascon128_aead_decrypt_block B st inp =
     (let s = snp_acquire B (aead_perm st);
          (s, out, posn) = ascon_aead_decrypt_8 B s inp 6 (aead_posn st);
          s = snp_release B s
      in (st \<lparr> aead_perm := s, aead_posn := posn \<rparr>, out))"

definition ascon128_aead_decrypt_finalize ::
  "'s snp \<Rightarrow> 's aead_state \<Rightarrow> bytes \<Rightarrow> 's aead_state \<times> int" where
  "ascon128_aead_decrypt_finalize B st tag =
     (let s = snp_acquire B (aead_perm st);
          s = ascon128_finish B s (aead_posn st) (aead_key st);
          tag2 = snp_squeeze_16 B s 24;
          s = snp_release B s;
          (result, _) = ascon_aead_check_tag [] tag2 tag 16
      in (st \<lparr> aead_perm := s \<rparr>, result))"

definition ascon128a_aead_reinit ::
  "'s aead_state \<Rightarrow> bytes option \<Rightarrow> bytes option \<Rightarrow> 's aead_state" where
  "ascon128a_aead_reinit st npub k = st
     \<lparr> aead_key := (case k of Some k \<Rightarrow> take 16 k | None \<Rightarrow> replicate 16 0),
       aead_nonce := (case npub of Some npub \<Rightarrow> take 16 npub | None \<Rightarrow> replicate 16 0),
       aead_posn := 0 \<rparr>"

definition ascon128a_aead_init :: "'s snp \<Rightarrow> bytes option \<Rightarrow> bytes option \<Rightarrow> 's aead_state" where
  "ascon128a_aead_init B npub k =
     ascon128a_aead_reinit
       \<lparr> aead_perm = snp_release B (snp_init B), aead_key = [], aead_nonce = [], aead_posn = 0 \<rparr>
       npub k"

definition ascon128a_aead_start :: "'s snp \<Rightarrow> 's aead_state \<Rightarrow> bytes \<Rightarrow> 's aead_state" where
  "ascon128a_aead_start B st ad =
     (let s = snp_acquire B (aead_perm st);
          s = ascon128a_setup B s (aead_key st) (aead_nonce st) ad;
          s = snp_release B s
      in st \<lparr> aead_perm := s, aead_posn := 0,
              aead_nonce := ascon_aead_increment_nonce (aead_nonce st) \<rparr>)"

definition ascon128a_aead_free :: "'s snp \<Rightarrow> 's aead_state \<Rightarrow> 's aead_state" where
  "ascon128a_aead_free B st =
     \<lparr> aead_perm = snp_free B (snp_acquire B (aead_perm st)),
       aead_key = replicate (length (aead_key st)) 0,
       aead_nonce = replicate (length (aead_nonce st)) 0, aead_posn = 0 \<rparr>"

definition ascon128a_aead_encrypt_block ::
  "'s snp \<Rightarrow> 's aead_state \<Rightarrow> bytes \<Rightarrow> 's aead_state \<times> bytes" where
  "ascon128a_aead_encrypt_block B st inp =
     (let s = snp_acquire B (aead_perm st);
          (s, out, posn) = ascon_aead_encrypt_16 B s inp 4 (aead_posn st);
          s = snp_release B s
      in (st \<lparr> aead_perm := s, aead_posn := posn \<rparr>, out))"

definition ascon128a_aead_encrypt_finalize ::
  "'s snp \<Rightarrow> 's aead_state \<Rightarrow> 's aead_state \<times> bytes" where
  "ascon128a_aead_encrypt_finalize B st =
     (let s = snp_acquire B (aead_perm st);
          s = ascon128a_finish B s (aead_posn st) (aead_key st);
          tag = snp_squeeze_partial B s 24 16;
          s = snp_release B s
      in (st \<lparr> aead_perm := s \<rparr>, tag))"

definition ascon128a_aead_decrypt_block ::
  "'s snp \<Rightarrow> 's aead_state \<Rightarrow> bytes \<Rightarrow> 's aead_state \<times> bytes" where
  "ascon128a_aead_decrypt_block B st inp =
     (let s = snp_acquire B (aead_perm st);
          (s, out, posn) = ascon_aead_decrypt_16 B s inp 4 (aead_posn st);
          s = snp_release B s
      in (st \<lparr> aead_perm := s, aead_posn := posn \<rparr>, out))"

definition ascon128a_aead_decrypt_finalize ::
  "'s snp \<Rightarrow> 's aead_state \<Rightarrow> bytes \<Rightarrow> 's aead_state \<times> int" where
  "ascon128a_aead_decrypt_finalize B st tag =
     (let s = snp_acquire B (aead_perm st);
          s = ascon128a_finish B s (aead_posn st) (aead_key st);
          tag2 = snp_squeeze_16 B s 24;
          s = snp_release B s;
          (result, _) = ascon_aead_check_tag [] tag2 tag 16
      in (st \<lparr> aead_perm := s \<rparr>, result))"

definition ascon80pq_aead_reinit ::
  "'s aead_state \<Rightarrow> bytes option \<Rightarrow> bytes option \<Rightarrow> 's aead_state" where
  "ascon80pq_aead_reinit st npub k = st
     \<lparr> aead_key := (case k of Some k \<Rightarrow> take 20 k | None \<Rightarrow> replicate 20 0),
       aead_nonce := (case npub of Some npub \<Rightarrow> take 16 npub | None \<Rightarrow> replicate 16 0),
       aead_posn := 0 \<rparr>"

definition ascon80pq_aead_init :: "'s snp \<Rightarrow> bytes option \<Rightarrow> bytes option \<Rightarrow> 's aead_state" where
  "ascon80pq_aead_init B npub k =
     ascon80pq_aead_reinit
       \<lparr> aead_perm = snp_release B (snp_init B), aead_key = [], aead_nonce = [], aead_posn = 0 \<rparr>
       npub k"

definition ascon80pq_aead_start :: "'s snp \<Rightarrow> 's aead_state \<Rightarrow> bytes \<Rightarrow> 's aead_state" where
  "ascon80pq_aead_start B st ad =
     (let s = snp_acquire B (aead_perm st);
          s = ascon80pq_setup B s (aead_key st) (aead_nonce st) ad;
          s = snp_release B s
      in st \<lparr> aead_perm := s, aead_posn := 0,
              aead_nonce := ascon_aead_increment_nonce (aead_nonce st) \<rparr>)"

definition ascon80pq_aead_free :: "'s snp \<Rightarrow> 's aead_state \<Rightarrow> 's aead_state" where
  "ascon80pq_aead_free B st =
     \<lparr> aead_perm = snp_free B (snp_acquire B (aead_perm st)),
       aead_key = replicate (length (aead_key st)) 0,
       aead_nonce = replicate (length (aead_nonce st)) 0, aead_posn = 0 \<rparr>"

definition ascon80pq_aead_encrypt_block ::
  "'s snp \<Rightarrow> 's aead_state \<Rightarrow> bytes \<Rightarrow> 's aead_state \<times> bytes" where
  "ascon80pq_aead_encrypt_block B st inp =
     (let s = snp_acquire B (aead_perm st);
          (s, out, posn) = ascon_aead_encrypt_8 B s inp 6 (aead_posn st);
          s = snp_release B s
      in (st \<lparr> aead_perm := s, aead_posn := posn \<rparr>, out))"

definition ascon80pq_aead_encrypt_finalize ::
  "'s snp \<Rightarrow> 's aead_state \<Rightarrow> 's aead_state \<times> bytes" where
  "ascon80pq_aead_encrypt_finalize B st =
     (let s = snp_acquire B (aead_perm st);
          s = ascon80pq_finish B s (aead_posn st) (aead_key st);
          tag = snp_squeeze_16 B s 24;
          s = snp_release B s
      in (st \<lparr> aead_perm := s \<rparr>, tag))"

definition ascon80pq_aead_decrypt_block ::
  "'s snp \<Rightarrow> 's aead_state \<Rightarrow> bytes \<Rightarrow> 's aead_state \<times> bytes" where
  "ascon80pq_aead_decrypt_block B st inp =
     (let s = snp_acquire B (aead_perm st);
          (s, out, posn) = ascon_aead_decrypt_8 B s inp 6 (aead_posn st);
          s = snp_release B s
      in (st \<lparr> aead_perm := s, aead_posn := posn \<rparr>, out))"

definition ascon80pq_aead_decrypt_finalize ::
  "'s snp \<Rightarrow> 's aead_state \<Rightarrow> bytes \<Rightarrow> 's aead_state \<times> int" where
  "ascon80pq_aead_decrypt_finalize B st tag =
     (let s = snp_acquire B (aead_perm st);
          s = ascon80pq_finish B s (aead_posn st) (aead_key st);
          tag2 = snp_squeeze_16 B s 24;
          s = snp_release B s;
          (result, _) = ascon_aead_check_tag [] tag2 tag 16
      in (st \<lparr> aead_perm := s \<rparr>, result))"

section \<open>Feeding a payload in pieces\<close>

text \<open>A caller that hands over a payload piece by piece.\<close>

fun feed :: "('st \<Rightarrow> bytes \<Rightarrow> 'st \<times> bytes) \<Rightarrow> 'st \<Rightarrow> bytes list \<Rightarrow> 'st \<times> bytes" where
  "feed f st [] = (st, [])"
| "feed f st (x # xs) =
     (let (st, out) = f st x; (st, outs) = feed f st xs in (st, out @ outs))"

lemma unat_of_small: "p < 256 \<Longrightarrow> unat (of_nat p :: u8) = p"
  by (simp add: unat_of_nat take_bit_nat_eq_self)

context snp_laws
begin

lemma ascon128_encrypt_feed:
  assumes "rep (aead_perm st) b" "unat (aead_posn st) < 8"
  shows "\<exists>s' posn'. feed (ascon128_aead_encrypt_block B) st ms =
      (st \<lparr> aead_perm := s', aead_posn := posn' \<rparr>,
       snd (run (machine encrypt_effect 8 6) (b, unat (aead_posn st)) (concat ms))) \<and>
    unat posn' = snd (fst (run (machine encrypt_effect 8 6) (b, unat (aead_posn st)) (concat ms))) \<and>
    unat posn' < 8 \<and>
    rep s' (fst (fst (run (machine encrypt_effect 8 6) (b, unat (aead_posn st)) (concat ms))))"
  using assms
proof (induction ms arbitrary: st b)
  case Nil
  then show ?case
    by (intro exI[of _ "aead_perm st"] exI[of _ "aead_posn st"]) simp
next
  case (Cons m ms)
  let ?r = "run (machine encrypt_effect 8 6) (b, unat (aead_posn st)) m"
  obtain s1 where 1: "ascon_aead_encrypt_8 B (snp_acquire B (aead_perm st)) m 6 (aead_posn st) =
      (s1, snd ?r, of_nat (snd (fst ?r)))" "rep s1 (fst (fst ?r))" "snd (fst ?r) < 8"
    using encrypt_8_run[OF rep_acquire[OF Cons.prems(1)] Cons.prems(2), of m 6] by auto
  let ?st = "st \<lparr> aead_perm := snp_release B s1, aead_posn := of_nat (snd (fst ?r)) \<rparr>"
  have 2: "ascon128_aead_encrypt_block B st m = (?st, snd ?r)"
    by (simp add: ascon128_aead_encrypt_block_def 1(1) Let_def)
  have 3: "rep (aead_perm ?st) (fst (fst ?r))" "unat (aead_posn ?st) = snd (fst ?r)"
    using 1(2,3) by (simp_all add: rep_release unat_of_small)
  obtain s' posn' where "feed (ascon128_aead_encrypt_block B) ?st ms =
      (?st \<lparr> aead_perm := s', aead_posn := posn' \<rparr>,
       snd (run (machine encrypt_effect 8 6) (fst ?r) (concat ms)))"
    "unat posn' = snd (fst (run (machine encrypt_effect 8 6) (fst ?r) (concat ms)))"
    "unat posn' < 8" "rep s' (fst (fst (run (machine encrypt_effect 8 6) (fst ?r) (concat ms))))"
    using Cons.IH[OF 3(1)] 1(3) unfolding 3(2) by auto
  with 2 show ?case
    by (intro exI[of _ s'] exI[of _ posn']) (simp add: run_append case_prod_beta Let_def)
qed

lemma ascon128_decrypt_feed:
  assumes "rep (aead_perm st) b" "unat (aead_posn st) < 8"
  shows "\<exists>s' posn'. feed (ascon128_aead_decrypt_block B) st ms =
      (st \<lparr> aead_perm := s', aead_posn := posn' \<rparr>,
       snd (run (machine decrypt_effect 8 6) (b, unat (aead_posn st)) (concat ms))) \<and>
    unat posn' = snd (fst (run (machine decrypt_effect 8 6) (b, unat (aead_posn st)) (concat ms))) \<and>
    unat posn' < 8 \<and>
    rep s' (fst (fst (run (machine decrypt_effect 8 6) (b, unat (aead_posn st)) (concat ms))))"
  using assms
proof (induction ms arbitrary: st b)
  case Nil
  then show ?case
    by (intro exI[of _ "aead_perm st"] exI[of _ "aead_posn st"]) simp
next
  case (Cons m ms)
  let ?r = "run (machine decrypt_effect 8 6) (b, unat (aead_posn st)) m"
  obtain s1 where 1: "ascon_aead_decrypt_8 B (snp_acquire B (aead_perm st)) m 6 (aead_posn st) =
      (s1, snd ?r, of_nat (snd (fst ?r)))" "rep s1 (fst (fst ?r))" "snd (fst ?r) < 8"
    using decrypt_8_run[OF rep_acquire[OF Cons.prems(1)] Cons.prems(2), of m 6] by auto
  let ?st = "st \<lparr> aead_perm := snp_release B s1, aead_posn := of_nat (snd (fst ?r)) \<rparr>"
  have 2: "ascon128_aead_decrypt_block B st m = (?st, snd ?r)"
    by (simp add: ascon128_aead_decrypt_block_def 1(1) Let_def)
  have 3: "rep (aead_perm ?st) (fst (fst ?r))" "unat (aead_posn ?st) = snd (fst ?r)"
    using 1(2,3) by (simp_all add: rep_release unat_of_small)
  obtain s' posn' where "feed (ascon128_aead_decrypt_block B) ?st ms =
      (?st \<lparr> aead_perm := s', aead_posn := posn' \<rparr>,
       snd (run (machine decrypt_effect 8 6) (fst ?r) (concat ms)))"
    "unat posn' = snd (fst (run (machine decrypt_effect 8 6) (fst ?r) (concat ms)))"
    "unat posn' < 8" "rep s' (fst (fst (run (machine decrypt_effect 8 6) (fst ?r) (concat ms))))"
    using Cons.IH[OF 3(1)] 1(3) unfolding 3(2) by auto
  with 2 show ?case
    by (intro exI[of _ s'] exI[of _ posn']) (simp add: run_append case_prod_beta Let_def)
qed

lemma ascon128_start_rep:
  assumes "rep (aead_perm st) b" "length (aead_key st) = 16" "length (aead_nonce st) = 16"
  shows "rep (aead_perm (ascon128_aead_start B st ad))
      (spec_aead_start ASCON128_IV 8 6 (aead_key st) (aead_nonce st) ad)"
  using rep_release[OF ascon128_setup_rep[OF rep_acquire[OF assms(1)] assms(2,3), where ad = ad]]
  by (simp add: ascon128_aead_start_def Let_def)

lemma ascon128_start_fields:
  "aead_key (ascon128_aead_start B st ad) = aead_key st"
  "aead_nonce (ascon128_aead_start B st ad) = ascon_aead_increment_nonce (aead_nonce st)"
  "aead_posn (ascon128_aead_start B st ad) = 0"
  by (simp_all add: ascon128_aead_start_def Let_def)

lemma ascon128_incremental_encrypt:
  assumes "rep (aead_perm st) b" "length (aead_key st) = 16" "length (aead_nonce st) = 16"
    and "feed (ascon128_aead_encrypt_block B) (ascon128_aead_start B st ad) ms = (st2, c)"
    and "ascon128_aead_encrypt_finalize B st2 = (st3, tag)"
  shows "c @ tag = spec_aead_encrypt ASCON128_IV 8 6 (aead_key st) (aead_nonce st) ad (concat ms) \<and>
    aead_key st3 = aead_key st \<and> aead_nonce st3 = ascon_aead_increment_nonce (aead_nonce st) \<and>
    (\<exists>b'. rep (aead_perm st3) b')"
proof -
  let ?r = "run (machine encrypt_effect 8 6)
    (spec_aead_start ASCON128_IV 8 6 (aead_key st) (aead_nonce st) ad, 0) (concat ms)"
  obtain s' posn' where 1: "st2 = ascon128_aead_start B st ad \<lparr> aead_perm := s', aead_posn := posn' \<rparr>"
    "c = snd ?r" "unat posn' = snd (fst ?r)" "unat posn' < 8" "rep s' (fst (fst ?r))"
    using ascon128_encrypt_feed[OF ascon128_start_rep[OF assms(1-3), of ad], of ms] assms(4)
    by (auto simp: ascon128_start_fields)
  have "of_nat (unat posn') = posn'" by simp
  with ascon128_finish_rep[OF rep_acquire[OF 1(5)] 1(4) assms(2)] obtain b'
    where 2: "rep (ascon128_finish B (snp_acquire B s') posn' (aead_key st)) b'"
      "get_at b' 24 16 = spec_aead_tag 8 (aead_key st) (fst (fst ?r), unat posn')"
    by metis
  have 3: "st3 = st2 \<lparr> aead_perm := snp_release B (ascon128_finish B (snp_acquire B s') posn' (aead_key st)) \<rparr>"
    "tag = get_at b' 24 16"
    using assms(5) rep_squeeze_partial[OF 2(1), of 24 16]
    by (auto simp: ascon128_aead_encrypt_finalize_def Let_def 1(1) ascon128_start_fields)
  then show ?thesis
    using rep_release[OF 2(1)] 1(2,3) 2(2)
    by (auto simp: spec_aead_encrypt_def case_prod_beta 1(1) ascon128_start_fields)
qed

lemma ascon128_incremental_decrypt:
  assumes "rep (aead_perm st) b" "length (aead_key st) = 16" "length (aead_nonce st) = 16"
    and "feed (ascon128_aead_decrypt_block B) (ascon128_aead_start B st ad) cs = (st2, m)"
    and "ascon128_aead_decrypt_finalize B st2 tag = (st3, result)" "length tag = 16"
  shows "result = (if spec_aead_decrypt ASCON128_IV 8 6 (aead_key st) (aead_nonce st) ad
        (concat cs @ tag) = Some m then 0 else -1) \<and>
    spec_aead_decrypt ASCON128_IV 8 6 (aead_key st) (aead_nonce st) ad (concat cs @ tag) \<in> {None, Some m} \<and>
    aead_key st3 = aead_key st \<and> aead_nonce st3 = ascon_aead_increment_nonce (aead_nonce st) \<and>
    (\<exists>b'. rep (aead_perm st3) b')"
proof -
  let ?r = "run (machine decrypt_effect 8 6)
    (spec_aead_start ASCON128_IV 8 6 (aead_key st) (aead_nonce st) ad, 0) (concat cs)"
  obtain s' posn' where 1: "st2 = ascon128_aead_start B st ad \<lparr> aead_perm := s', aead_posn := posn' \<rparr>"
    "m = snd ?r" "unat posn' = snd (fst ?r)" "unat posn' < 8" "rep s' (fst (fst ?r))"
    using ascon128_decrypt_feed[OF ascon128_start_rep[OF assms(1-3), of ad], of cs] assms(4)
    by (auto simp: ascon128_start_fields)
  have "of_nat (unat posn') = posn'" by simp
  with ascon128_finish_rep[OF rep_acquire[OF 1(5)] 1(4) assms(2)] obtain b'
    where 2: "rep (ascon128_finish B (snp_acquire B s') posn' (aead_key st)) b'"
      "get_at b' 24 16 = spec_aead_tag 8 (aead_key st) (fst (fst ?r), unat posn')"
    by metis
  have 3: "st3 = st2 \<lparr> aead_perm := snp_release B (ascon128_finish B (snp_acquire B s') posn' (aead_key st)) \<rparr>"
    "result = (if get_at b' 24 16 = tag then 0 else -1)"
    using assms(5,6) rep_squeeze_16[OF 2(1), of 24] rep_length[OF 2(1)]
    by (auto simp: ascon128_aead_decrypt_finalize_def Let_def 1(1) ascon128_start_fields check_tag_eq
        split: if_splits)
  then show ?thesis
    using rep_release[OF 2(1)] 1(2,3) 2(2) assms(6)
    by (auto simp: spec_aead_decrypt_def case_prod_beta 1(1) ascon128_start_fields)
qed

lemma ascon128a_encrypt_feed:
  assumes "rep (aead_perm st) b" "unat (aead_posn st) < 16"
  shows "\<exists>s' posn'. feed (ascon128a_aead_encrypt_block B) st ms =
      (st \<lparr> aead_perm := s', aead_posn := posn' \<rparr>,
       snd (run (machine encrypt_effect 16 4) (b, unat (aead_posn st)) (concat ms))) \<and>
    unat posn' = snd (fst (run (machine encrypt_effect 16 4) (b, unat (aead_posn st)) (concat ms))) \<and>
    unat posn' < 16 \<and>
    rep s' (fst (fst (run (machine encrypt_effect 16 4) (b, unat (aead_posn st)) (concat ms))))"
  using assms
proof (induction ms arbitrary: st b)
  case Nil
  then show ?case
    by (intro exI[of _ "aead_perm st"] exI[of _ "aead_posn st"]) simp
next
  case (Cons m ms)
  let ?r = "run (machine encrypt_effect 16 4) (b, unat (aead_posn st)) m"
  obtain s1 where 1: "ascon_aead_encrypt_16 B (snp_acquire B (aead_perm st)) m 4 (aead_posn st) =
      (s1, snd ?r, of_nat (snd (fst ?r)))" "rep s1 (fst (fst ?r))" "snd (fst ?r) < 16"
    using encrypt_16_run[OF rep_acquire[OF Cons.prems(1)] Cons.prems(2), of m 4] by auto
  let ?st = "st \<lparr> aead_perm := snp_release B s1, aead_posn := of_nat (snd (fst ?r)) \<rparr>"
  have 2: "ascon128a_aead_encrypt_block B st m = (?st, snd ?r)"
    by (simp add: ascon128a_aead_encrypt_block_def 1(1) Let_def)
  have 3: "rep (aead_perm ?st) (fst (fst ?r))" "unat (aead_posn ?st) = snd (fst ?r)"
    using 1(2,3) by (simp_all add: rep_release unat_of_small)
  obtain s' posn' where "feed (ascon128a_aead_encrypt_block B) ?st ms =
      (?st \<lparr> aead_perm := s', aead_posn := posn' \<rparr>,
       snd (run (machine encrypt_effect 16 4) (fst ?r) (concat ms)))"
    "unat posn' = snd (fst (run (machine encrypt_effect 16 4) (fst ?r) (concat ms)))"
    "unat posn' < 16" "rep s' (fst (fst (run (machine encrypt_effect 16 4) (fst ?r) (concat ms))))"
    using Cons.IH[OF 3(1)] 1(3) unfolding 3(2) by auto
  with 2 show ?case
    by (intro exI[of _ s'] exI[of _ posn']) (simp add: run_append case_prod_beta Let_def)
qed

lemma ascon128a_decrypt_feed:
  assumes "rep (aead_perm st) b" "unat (aead_posn st) < 16"
  shows "\<exists>s' posn'. feed (ascon128a_aead_decrypt_block B) st ms =
      (st \<lparr> aead_perm := s', aead_posn := posn' \<rparr>,
       snd (run (machine decrypt_effect 16 4) (b, unat (aead_posn st)) (concat ms))) \<and>
    unat posn' = snd (fst (run (machine decrypt_effect 16 4) (b, unat (aead_posn st)) (concat ms))) \<and>
    unat posn' < 16 \<and>
    rep s' (fst (fst (run (machine decrypt_effect 16 4) (b, unat (aead_posn st)) (concat ms))))"
  using assms
proof (induction ms arbitrary: st b)
  case Nil
  then show ?case
    by (intro exI[of _ "aead_perm st"] exI[of _ "aead_posn st"]) simp
next
  case (Cons m ms)
  let ?r = "run (machine decrypt_effect 16 4) (b, unat (aead_posn st)) m"
  obtain s1 where 1: "ascon_aead_decrypt_16 B (snp_acquire B (aead_perm st)) m 4 (aead_posn st) =
      (s1, snd ?r, of_nat (snd (fst ?r)))" "rep s1 (fst (fst ?r))" "snd (fst ?r) < 16"
    using decrypt_16_run[OF rep_acquire[OF Cons.prems(1)] Cons.prems(2), of m 4] by auto
  let ?st = "st \<lparr> aead_perm := snp_release B s1, aead_posn := of_nat (snd (fst ?r)) \<rparr>"
  have 2: "ascon128a_aead_decrypt_block B st m = (?st, snd ?r)"
    by (simp add: ascon128a_aead_decrypt_block_def 1(1) Let_def)
  have 3: "rep (aead_perm ?st) (fst (fst ?r))" "unat (aead_posn ?st) = snd (fst ?r)"
    using 1(2,3) by (simp_all add: rep_release unat_of_small)
  obtain s' posn' where "feed (ascon128a_aead_decrypt_block B) ?st ms =
      (?st \<lparr> aead_perm := s', aead_posn := posn' \<rparr>,
       snd (run (machine decrypt_effect 16 4) (fst ?r) (concat ms)))"
    "unat posn' = snd (fst (run (machine decrypt_effect 16 4) (fst ?r) (concat ms)))"
    "unat posn' < 16" "rep s' (fst (fst (run (machine decrypt_effect 16 4) (fst ?r) (concat ms))))"
    using Cons.IH[OF 3(1)] 1(3) unfolding 3(2) by auto
  with 2 show ?case
    by (intro exI[of _ s'] exI[of _ posn']) (simp add: run_append case_prod_beta Let_def)
qed

lemma ascon128a_start_rep:
  assumes "rep (aead_perm st) b" "length (aead_key st) = 16" "length (aead_nonce st) = 16"
  shows "rep (aead_perm (ascon128a_aead_start B st ad))
      (spec_aead_start ASCON128a_IV 16 4 (aead_key st) (aead_nonce st) ad)"
  using rep_release[OF ascon128a_setup_rep[OF rep_acquire[OF assms(1)] assms(2,3), where ad = ad]]
  by (simp add: ascon128a_aead_start_def Let_def)

lemma ascon128a_start_fields:
  "aead_key (ascon128a_aead_start B st ad) = aead_key st"
  "aead_nonce (ascon128a_aead_start B st ad) = ascon_aead_increment_nonce (aead_nonce st)"
  "aead_posn (ascon128a_aead_start B st ad) = 0"
  by (simp_all add: ascon128a_aead_start_def Let_def)

lemma ascon128a_incremental_encrypt:
  assumes "rep (aead_perm st) b" "length (aead_key st) = 16" "length (aead_nonce st) = 16"
    and "feed (ascon128a_aead_encrypt_block B) (ascon128a_aead_start B st ad) ms = (st2, c)"
    and "ascon128a_aead_encrypt_finalize B st2 = (st3, tag)"
  shows "c @ tag = spec_aead_encrypt ASCON128a_IV 16 4 (aead_key st) (aead_nonce st) ad (concat ms) \<and>
    aead_key st3 = aead_key st \<and> aead_nonce st3 = ascon_aead_increment_nonce (aead_nonce st) \<and>
    (\<exists>b'. rep (aead_perm st3) b')"
proof -
  let ?r = "run (machine encrypt_effect 16 4)
    (spec_aead_start ASCON128a_IV 16 4 (aead_key st) (aead_nonce st) ad, 0) (concat ms)"
  obtain s' posn' where 1: "st2 = ascon128a_aead_start B st ad \<lparr> aead_perm := s', aead_posn := posn' \<rparr>"
    "c = snd ?r" "unat posn' = snd (fst ?r)" "unat posn' < 16" "rep s' (fst (fst ?r))"
    using ascon128a_encrypt_feed[OF ascon128a_start_rep[OF assms(1-3), of ad], of ms] assms(4)
    by (auto simp: ascon128a_start_fields)
  have "of_nat (unat posn') = posn'" by simp
  with ascon128a_finish_rep[OF rep_acquire[OF 1(5)] 1(4) assms(2)] obtain b'
    where 2: "rep (ascon128a_finish B (snp_acquire B s') posn' (aead_key st)) b'"
      "get_at b' 24 16 = spec_aead_tag 16 (aead_key st) (fst (fst ?r), unat posn')"
    by metis
  have 3: "st3 = st2 \<lparr> aead_perm := snp_release B (ascon128a_finish B (snp_acquire B s') posn' (aead_key st)) \<rparr>"
    "tag = get_at b' 24 16"
    using assms(5) rep_squeeze_partial[OF 2(1), of 24 16]
    by (auto simp: ascon128a_aead_encrypt_finalize_def Let_def 1(1) ascon128a_start_fields)
  then show ?thesis
    using rep_release[OF 2(1)] 1(2,3) 2(2)
    by (auto simp: spec_aead_encrypt_def case_prod_beta 1(1) ascon128a_start_fields)
qed

lemma ascon128a_incremental_decrypt:
  assumes "rep (aead_perm st) b" "length (aead_key st) = 16" "length (aead_nonce st) = 16"
    and "feed (ascon128a_aead_decrypt_block B) (ascon128a_aead_start B st ad) cs = (st2, m)"
    and "ascon128a_aead_decrypt_finalize B st2 tag = (st3, result)" "length tag = 16"
  shows "result = (if spec_aead_decrypt ASCON128a_IV 16 4 (aead_key st) (aead_nonce st) ad
        (concat cs @ tag) = Some m then 0 else -1) \<and>
    spec_aead_decrypt ASCON128a_IV 16 4 (aead_key st) (aead_nonce st) ad (concat cs @ tag) \<in> {None, Some m} \<and>
    aead_key st3 = aead_key st \<and> aead_nonce st3 = ascon_aead_increment_nonce (aead_nonce st) \<and>
    (\<exists>b'. rep (aead_perm st3) b')"
proof -
  let ?r = "run (machine decrypt_effect 16 4)
    (spec_aead_start ASCON128a_IV 16 4 (aead_key st) (aead_nonce st) ad, 0) (concat cs)"
  obtain s' posn' where 1: "st2 = ascon128a_aead_start B st ad \<lparr> aead_perm := s', aead_posn := posn' \<rparr>"
    "m = snd ?r" "unat posn' = snd (fst ?r)" "unat posn' < 16" "rep s' (fst (fst ?r))"
    using ascon128a_decrypt_feed[OF ascon128a_start_rep[OF assms(1-3), of ad], of cs] assms(4)
    by (auto simp: ascon128a_start_fields)
  have "of_nat (unat posn') = posn'" by simp
  with ascon128a_finish_rep[OF rep_acquire[OF 1(5)] 1(4) assms(2)] obtain b'
    where 2: "rep (ascon128a_finish B (snp_acquire B s') posn' (aead_key st)) b'"
      "get_at b' 24 16 = spec_aead_tag 16 (aead_key st) (fst (fst ?r), unat posn')"
    by metis
  have 3: "st3 = st2 \<lparr> aead_perm := snp_release B (ascon128a_finish B (snp_acquire B s') posn' (aead_key st)) \<rparr>"
    "result = (if get_at b' 24 16 = tag then 0 else -1)"
    using assms(5,6) rep_squeeze_16[OF 2(1), of 24] rep_length[OF 2(1)]
    by (auto simp: ascon128a_aead_decrypt_finalize_def Let_def 1(1) ascon128a_start_fields check_tag_eq
        split: if_splits)
  then show ?thesis
    using rep_release[OF 2(1)] 1(2,3) 2(2) assms(6)
    by (auto simp: spec_aead_decrypt_def case_prod_beta 1(1) ascon128a_start_fields)
qed

lemma ascon80pq_encrypt_feed:
  assumes "rep (aead_perm st) b" "unat (aead_posn st) < 8"
  shows "\<exists>s' posn'. feed (ascon80pq_aead_encrypt_block B) st ms =
      (st \<lparr> aead_perm := s', aead_posn := posn' \<rparr>,
       snd (run (machine encrypt_effect 8 6) (b, unat (aead_posn st)) (concat ms))) \<and>
    unat posn' = snd (fst (run (machine encrypt_effect 8 6) (b, unat (aead_posn st)) (concat ms))) \<and>
    unat posn' < 8 \<and>
    rep s' (fst (fst (run (machine encrypt_effect 8 6) (b, unat (aead_posn st)) (concat ms))))"
  using assms
proof (induction ms arbitrary: st b)
  case Nil
  then show ?case
    by (intro exI[of _ "aead_perm st"] exI[of _ "aead_posn st"]) simp
next
  case (Cons m ms)
  let ?r = "run (machine encrypt_effect 8 6) (b, unat (aead_posn st)) m"
  obtain s1 where 1: "ascon_aead_encrypt_8 B (snp_acquire B (aead_perm st)) m 6 (aead_posn st) =
      (s1, snd ?r, of_nat (snd (fst ?r)))" "rep s1 (fst (fst ?r))" "snd (fst ?r) < 8"
    using encrypt_8_run[OF rep_acquire[OF Cons.prems(1)] Cons.prems(2), of m 6] by auto
  let ?st = "st \<lparr> aead_perm := snp_release B s1, aead_posn := of_nat (snd (fst ?r)) \<rparr>"
  have 2: "ascon80pq_aead_encrypt_block B st m = (?st, snd ?r)"
    by (simp add: ascon80pq_aead_encrypt_block_def 1(1) Let_def)
  have 3: "rep (aead_perm ?st) (fst (fst ?r))" "unat (aead_posn ?st) = snd (fst ?r)"
    using 1(2,3) by (simp_all add: rep_release unat_of_small)
  obtain s' posn' where "feed (ascon80pq_aead_encrypt_block B) ?st ms =
      (?st \<lparr> aead_perm := s', aead_posn := posn' \<rparr>,
       snd (run (machine encrypt_effect 8 6) (fst ?r) (concat ms)))"
    "unat posn' = snd (fst (run (machine encrypt_effect 8 6) (fst ?r) (concat ms)))"
    "unat posn' < 8" "rep s' (fst (fst (run (machine encrypt_effect 8 6) (fst ?r) (concat ms))))"
    using Cons.IH[OF 3(1)] 1(3) unfolding 3(2) by auto
  with 2 show ?case
    by (intro exI[of _ s'] exI[of _ posn']) (simp add: run_append case_prod_beta Let_def)
qed

lemma ascon80pq_decrypt_feed:
  assumes "rep (aead_perm st) b" "unat (aead_posn st) < 8"
  shows "\<exists>s' posn'. feed (ascon80pq_aead_decrypt_block B) st ms =
      (st \<lparr> aead_perm := s', aead_posn := posn' \<rparr>,
       snd (run (machine decrypt_effect 8 6) (b, unat (aead_posn st)) (concat ms))) \<and>
    unat posn' = snd (fst (run (machine decrypt_effect 8 6) (b, unat (aead_posn st)) (concat ms))) \<and>
    unat posn' < 8 \<and>
    rep s' (fst (fst (run (machine decrypt_effect 8 6) (b, unat (aead_posn st)) (concat ms))))"
  using assms
proof (induction ms arbitrary: st b)
  case Nil
  then show ?case
    by (intro exI[of _ "aead_perm st"] exI[of _ "aead_posn st"]) simp
next
  case (Cons m ms)
  let ?r = "run (machine decrypt_effect 8 6) (b, unat (aead_posn st)) m"
  obtain s1 where 1: "ascon_aead_decrypt_8 B (snp_acquire B (aead_perm st)) m 6 (aead_posn st) =
      (s1, snd ?r, of_nat (snd (fst ?r)))" "rep s1 (fst (fst ?r))" "snd (fst ?r) < 8"
    using decrypt_8_run[OF rep_acquire[OF Cons.prems(1)] Cons.prems(2), of m 6] by auto
  let ?st = "st \<lparr> aead_perm := snp_release B s1, aead_posn := of_nat (snd (fst ?r)) \<rparr>"
  have 2: "ascon80pq_aead_decrypt_block B st m = (?st, snd ?r)"
    by (simp add: ascon80pq_aead_decrypt_block_def 1(1) Let_def)
  have 3: "rep (aead_perm ?st) (fst (fst ?r))" "unat (aead_posn ?st) = snd (fst ?r)"
    using 1(2,3) by (simp_all add: rep_release unat_of_small)
  obtain s' posn' where "feed (ascon80pq_aead_decrypt_block B) ?st ms =
      (?st \<lparr> aead_perm := s', aead_posn := posn' \<rparr>,
       snd (run (machine decrypt_effect 8 6) (fst ?r) (concat ms)))"
    "unat posn' = snd (fst (run (machine decrypt_effect 8 6) (fst ?r) (concat ms)))"
    "unat posn' < 8" "rep s' (fst (fst (run (machine decrypt_effect 8 6) (fst ?r) (concat ms))))"
    using Cons.IH[OF 3(1)] 1(3) unfolding 3(2) by auto
  with 2 show ?case
    by (intro exI[of _ s'] exI[of _ posn']) (simp add: run_append case_prod_beta Let_def)
qed

lemma ascon80pq_start_rep:
  assumes "rep (aead_perm st) b" "length (aead_key st) = 20" "length (aead_nonce st) = 16"
  shows "rep (aead_perm (ascon80pq_aead_start B st ad))
      (spec_aead_start ASCON80PQ_IV 8 6 (aead_key st) (aead_nonce st) ad)"
  using rep_release[OF ascon80pq_setup_rep[OF rep_acquire[OF assms(1)] assms(2,3), where ad = ad]]
  by (simp add: ascon80pq_aead_start_def Let_def)

lemma ascon80pq_start_fields:
  "aead_key (ascon80pq_aead_start B st ad) = aead_key st"
  "aead_nonce (ascon80pq_aead_start B st ad) = ascon_aead_increment_nonce (aead_nonce st)"
  "aead_posn (ascon80pq_aead_start B st ad) = 0"
  by (simp_all add: ascon80pq_aead_start_def Let_def)

lemma ascon80pq_incremental_encrypt:
  assumes "rep (aead_perm st) b" "length (aead_key st) = 20" "length (aead_nonce st) = 16"
    and "feed (ascon80pq_aead_encrypt_block B) (ascon80pq_aead_start B st ad) ms = (st2, c)"
    and "ascon80pq_aead_encrypt_finalize B st2 = (st3, tag)"
  shows "c @ tag = spec_aead_encrypt ASCON80PQ_IV 8 6 (aead_key st) (aead_nonce st) ad (concat ms) \<and>
    aead_key st3 = aead_key st \<and> aead_nonce st3 = ascon_aead_increment_nonce (aead_nonce st) \<and>
    (\<exists>b'. rep (aead_perm st3) b')"
proof -
  let ?r = "run (machine encrypt_effect 8 6)
    (spec_aead_start ASCON80PQ_IV 8 6 (aead_key st) (aead_nonce st) ad, 0) (concat ms)"
  obtain s' posn' where 1: "st2 = ascon80pq_aead_start B st ad \<lparr> aead_perm := s', aead_posn := posn' \<rparr>"
    "c = snd ?r" "unat posn' = snd (fst ?r)" "unat posn' < 8" "rep s' (fst (fst ?r))"
    using ascon80pq_encrypt_feed[OF ascon80pq_start_rep[OF assms(1-3), of ad], of ms] assms(4)
    by (auto simp: ascon80pq_start_fields)
  have "of_nat (unat posn') = posn'" by simp
  with ascon80pq_finish_rep[OF rep_acquire[OF 1(5)] 1(4) assms(2)] obtain b'
    where 2: "rep (ascon80pq_finish B (snp_acquire B s') posn' (aead_key st)) b'"
      "get_at b' 24 16 = spec_aead_tag 8 (aead_key st) (fst (fst ?r), unat posn')"
    by metis
  have 3: "st3 = st2 \<lparr> aead_perm := snp_release B (ascon80pq_finish B (snp_acquire B s') posn' (aead_key st)) \<rparr>"
    "tag = get_at b' 24 16"
    using assms(5) rep_squeeze_16[OF 2(1), of 24]
    by (auto simp: ascon80pq_aead_encrypt_finalize_def Let_def 1(1) ascon80pq_start_fields)
  then show ?thesis
    using rep_release[OF 2(1)] 1(2,3) 2(2)
    by (auto simp: spec_aead_encrypt_def case_prod_beta 1(1) ascon80pq_start_fields)
qed

lemma ascon80pq_incremental_decrypt:
  assumes "rep (aead_perm st) b" "length (aead_key st) = 20" "length (aead_nonce st) = 16"
    and "feed (ascon80pq_aead_decrypt_block B) (ascon80pq_aead_start B st ad) cs = (st2, m)"
    and "ascon80pq_aead_decrypt_finalize B st2 tag = (st3, result)" "length tag = 16"
  shows "result = (if spec_aead_decrypt ASCON80PQ_IV 8 6 (aead_key st) (aead_nonce st) ad
        (concat cs @ tag) = Some m then 0 else -1) \<and>
    spec_aead_decrypt ASCON80PQ_IV 8 6 (aead_key st) (aead_nonce st) ad (concat cs @ tag) \<in> {None, Some m} \<and>
    aead_key st3 = aead_key st \<and> aead_nonce st3 = ascon_aead_increment_nonce (aead_nonce st) \<and>
    (\<exists>b'. rep (aead_perm st3) b')"
proof -
  let ?r = "run (machine decrypt_effect 8 6)
    (spec_aead_start ASCON80PQ_IV 8 6 (aead_key st) (aead_nonce st) ad, 0) (concat cs)"
  obtain s' posn' where 1: "st2 = ascon80pq_aead_start B st ad \<lparr> aead_perm := s', aead_posn := posn' \<rparr>"
    "m = snd ?r" "unat posn' = snd (fst ?r)" "unat posn' < 8" "rep s' (fst (fst ?r))"
    using ascon80pq_decrypt_feed[OF ascon80pq_start_rep[OF assms(1-3), of ad], of cs] assms(4)
    by (auto simp: ascon80pq_start_fields)
  have "of_nat (unat posn') = posn'" by simp
  with ascon80pq_finish_rep[OF rep_acquire[OF 1(5)] 1(4) assms(2)] obtain b'
    where 2: "rep (ascon80pq_finish B (snp_acquire B s') posn' (aead_key st)) b'"
      "get_at b' 24 16 = spec_aead_tag 8 (aead_key st) (fst (fst ?r), unat posn')"
    by metis
  have 3: "st3 = st2 \<lparr> aead_perm := snp_release B (ascon80pq_finish B (snp_acquire B s') posn' (aead_key st)) \<rparr>"
    "result = (if get_at b' 24 16 = tag then 0 else -1)"
    using assms(5,6) rep_squeeze_16[OF 2(1), of 24] rep_length[OF 2(1)]
    by (auto simp: ascon80pq_aead_decrypt_finalize_def Let_def 1(1) ascon80pq_start_fields check_tag_eq
        split: if_splits)
  then show ?thesis
    using rep_release[OF 2(1)] 1(2,3) 2(2) assms(6)
    by (auto simp: spec_aead_decrypt_def case_prod_beta 1(1) ascon80pq_start_fields)
qed

end

section \<open>Sessions\<close>

text \<open>The states a caller can reach with the calls of the interface, in any order, with the
  nonce field set by hand in between as the header allows.\<close>

inductive ascon128_session :: "'s snp \<Rightarrow> 's aead_state \<Rightarrow> bool" for B where
  ascon128_session_init: "\<lbrakk>pred_option (\<lambda>n. 16 \<le> length n) npub; pred_option (\<lambda>k. 16 \<le> length k) k\<rbrakk> \<Longrightarrow>
    ascon128_session B (ascon128_aead_init B npub k)"
| ascon128_session_reinit: "\<lbrakk>ascon128_session B st; pred_option (\<lambda>n. 16 \<le> length n) npub;
    pred_option (\<lambda>k. 16 \<le> length k) k\<rbrakk> \<Longrightarrow> ascon128_session B (ascon128_aead_reinit st npub k)"
| ascon128_session_nonce: "\<lbrakk>ascon128_session B st; length n = 16\<rbrakk> \<Longrightarrow> ascon128_session B (st \<lparr> aead_nonce := n \<rparr>)"
| ascon128_session_start: "ascon128_session B st \<Longrightarrow> ascon128_session B (ascon128_aead_start B st ad)"
| ascon128_session_encrypt: "ascon128_session B st \<Longrightarrow> ascon128_session B (fst (ascon128_aead_encrypt_block B st m))"
| ascon128_session_encrypt_finalize: "ascon128_session B st \<Longrightarrow> ascon128_session B (fst (ascon128_aead_encrypt_finalize B st))"
| ascon128_session_decrypt: "ascon128_session B st \<Longrightarrow> ascon128_session B (fst (ascon128_aead_decrypt_block B st c))"
| ascon128_session_decrypt_finalize: "\<lbrakk>ascon128_session B st; length tag = 16\<rbrakk> \<Longrightarrow>
    ascon128_session B (fst (ascon128_aead_decrypt_finalize B st tag))"

inductive ascon128a_session :: "'s snp \<Rightarrow> 's aead_state \<Rightarrow> bool" for B where
  ascon128a_session_init: "\<lbrakk>pred_option (\<lambda>n. 16 \<le> length n) npub; pred_option (\<lambda>k. 16 \<le> length k) k\<rbrakk> \<Longrightarrow>
    ascon128a_session B (ascon128a_aead_init B npub k)"
| ascon128a_session_reinit: "\<lbrakk>ascon128a_session B st; pred_option (\<lambda>n. 16 \<le> length n) npub;
    pred_option (\<lambda>k. 16 \<le> length k) k\<rbrakk> \<Longrightarrow> ascon128a_session B (ascon128a_aead_reinit st npub k)"
| ascon128a_session_nonce: "\<lbrakk>ascon128a_session B st; length n = 16\<rbrakk> \<Longrightarrow> ascon128a_session B (st \<lparr> aead_nonce := n \<rparr>)"
| ascon128a_session_start: "ascon128a_session B st \<Longrightarrow> ascon128a_session B (ascon128a_aead_start B st ad)"
| ascon128a_session_encrypt: "ascon128a_session B st \<Longrightarrow> ascon128a_session B (fst (ascon128a_aead_encrypt_block B st m))"
| ascon128a_session_encrypt_finalize: "ascon128a_session B st \<Longrightarrow> ascon128a_session B (fst (ascon128a_aead_encrypt_finalize B st))"
| ascon128a_session_decrypt: "ascon128a_session B st \<Longrightarrow> ascon128a_session B (fst (ascon128a_aead_decrypt_block B st c))"
| ascon128a_session_decrypt_finalize: "\<lbrakk>ascon128a_session B st; length tag = 16\<rbrakk> \<Longrightarrow>
    ascon128a_session B (fst (ascon128a_aead_decrypt_finalize B st tag))"

inductive ascon80pq_session :: "'s snp \<Rightarrow> 's aead_state \<Rightarrow> bool" for B where
  ascon80pq_session_init: "\<lbrakk>pred_option (\<lambda>n. 16 \<le> length n) npub; pred_option (\<lambda>k. 20 \<le> length k) k\<rbrakk> \<Longrightarrow>
    ascon80pq_session B (ascon80pq_aead_init B npub k)"
| ascon80pq_session_reinit: "\<lbrakk>ascon80pq_session B st; pred_option (\<lambda>n. 16 \<le> length n) npub;
    pred_option (\<lambda>k. 20 \<le> length k) k\<rbrakk> \<Longrightarrow> ascon80pq_session B (ascon80pq_aead_reinit st npub k)"
| ascon80pq_session_nonce: "\<lbrakk>ascon80pq_session B st; length n = 16\<rbrakk> \<Longrightarrow> ascon80pq_session B (st \<lparr> aead_nonce := n \<rparr>)"
| ascon80pq_session_start: "ascon80pq_session B st \<Longrightarrow> ascon80pq_session B (ascon80pq_aead_start B st ad)"
| ascon80pq_session_encrypt: "ascon80pq_session B st \<Longrightarrow> ascon80pq_session B (fst (ascon80pq_aead_encrypt_block B st m))"
| ascon80pq_session_encrypt_finalize: "ascon80pq_session B st \<Longrightarrow> ascon80pq_session B (fst (ascon80pq_aead_encrypt_finalize B st))"
| ascon80pq_session_decrypt: "ascon80pq_session B st \<Longrightarrow> ascon80pq_session B (fst (ascon80pq_aead_decrypt_block B st c))"
| ascon80pq_session_decrypt_finalize: "\<lbrakk>ascon80pq_session B st; length tag = 16\<rbrakk> \<Longrightarrow>
    ascon80pq_session B (fst (ascon80pq_aead_decrypt_finalize B st tag))"

context snp_laws
begin

lemma ascon128_finish_any:
  assumes "rep s b" "unat partial < 8" "length k = 16"
  shows "\<exists>b'. rep (ascon128_finish B s partial k) b'"
  using ascon128_finish_rep[OF assms] by simp blast

lemma ascon128_session_inv:
  assumes "ascon128_session B st"
  shows "(\<exists>b. rep (aead_perm st) b) \<and> length (aead_key st) = 16 \<and> length (aead_nonce st) = 16 \<and>
    unat (aead_posn st) < 8"
  using assms
proof induction
  case (ascon128_session_init npub k)
  then show ?case
    using rep_release[OF rep_init]
    by (auto simp: ascon128_aead_init_def ascon128_aead_reinit_def split: option.splits)
next
  case (ascon128_session_reinit st npub k)
  then show ?case by (auto simp: ascon128_aead_reinit_def split: option.splits)
next
  case (ascon128_session_start st ad)
  then show ?case
    using ascon128_start_rep by (auto simp: ascon128_start_fields)
next
  case (ascon128_session_encrypt st m)
  then obtain b where b: "rep (aead_perm st) b" "unat (aead_posn st) < 8" by auto
  from ascon128_encrypt_feed[OF b, of "[m]"] ascon128_session_encrypt show ?case
    by (auto simp: case_prod_beta Let_def prod_eq_iff)
next
  case (ascon128_session_decrypt st c)
  then obtain b where b: "rep (aead_perm st) b" "unat (aead_posn st) < 8" by auto
  from ascon128_decrypt_feed[OF b, of "[c]"] ascon128_session_decrypt show ?case
    by (auto simp: case_prod_beta Let_def prod_eq_iff)
next
  case (ascon128_session_encrypt_finalize st)
  then obtain b where "rep (aead_perm st) b" "unat (aead_posn st) < 8" "length (aead_key st) = 16"
    by auto
  then obtain b' where "rep (ascon128_finish B (snp_acquire B (aead_perm st)) (aead_posn st) (aead_key st)) b'"
    using ascon128_finish_any rep_acquire by blast
  with ascon128_session_encrypt_finalize rep_release show ?case
    by (auto simp: ascon128_aead_encrypt_finalize_def Let_def)
next
  case (ascon128_session_decrypt_finalize st tag)
  then obtain b where "rep (aead_perm st) b" "unat (aead_posn st) < 8" "length (aead_key st) = 16"
    by auto
  then obtain b' where "rep (ascon128_finish B (snp_acquire B (aead_perm st)) (aead_posn st) (aead_key st)) b'"
    using ascon128_finish_any rep_acquire by blast
  with ascon128_session_decrypt_finalize rep_release show ?case
    by (auto simp: ascon128_aead_decrypt_finalize_def Let_def case_prod_beta)
qed auto

lemma ascon128a_finish_any:
  assumes "rep s b" "unat partial < 16" "length k = 16"
  shows "\<exists>b'. rep (ascon128a_finish B s partial k) b'"
  using ascon128a_finish_rep[OF assms] by simp blast

lemma ascon128a_session_inv:
  assumes "ascon128a_session B st"
  shows "(\<exists>b. rep (aead_perm st) b) \<and> length (aead_key st) = 16 \<and> length (aead_nonce st) = 16 \<and>
    unat (aead_posn st) < 16"
  using assms
proof induction
  case (ascon128a_session_init npub k)
  then show ?case
    using rep_release[OF rep_init]
    by (auto simp: ascon128a_aead_init_def ascon128a_aead_reinit_def split: option.splits)
next
  case (ascon128a_session_reinit st npub k)
  then show ?case by (auto simp: ascon128a_aead_reinit_def split: option.splits)
next
  case (ascon128a_session_start st ad)
  then show ?case
    using ascon128a_start_rep by (auto simp: ascon128a_start_fields)
next
  case (ascon128a_session_encrypt st m)
  then obtain b where b: "rep (aead_perm st) b" "unat (aead_posn st) < 16" by auto
  from ascon128a_encrypt_feed[OF b, of "[m]"] ascon128a_session_encrypt show ?case
    by (auto simp: case_prod_beta Let_def prod_eq_iff)
next
  case (ascon128a_session_decrypt st c)
  then obtain b where b: "rep (aead_perm st) b" "unat (aead_posn st) < 16" by auto
  from ascon128a_decrypt_feed[OF b, of "[c]"] ascon128a_session_decrypt show ?case
    by (auto simp: case_prod_beta Let_def prod_eq_iff)
next
  case (ascon128a_session_encrypt_finalize st)
  then obtain b where "rep (aead_perm st) b" "unat (aead_posn st) < 16" "length (aead_key st) = 16"
    by auto
  then obtain b' where "rep (ascon128a_finish B (snp_acquire B (aead_perm st)) (aead_posn st) (aead_key st)) b'"
    using ascon128a_finish_any rep_acquire by blast
  with ascon128a_session_encrypt_finalize rep_release show ?case
    by (auto simp: ascon128a_aead_encrypt_finalize_def Let_def)
next
  case (ascon128a_session_decrypt_finalize st tag)
  then obtain b where "rep (aead_perm st) b" "unat (aead_posn st) < 16" "length (aead_key st) = 16"
    by auto
  then obtain b' where "rep (ascon128a_finish B (snp_acquire B (aead_perm st)) (aead_posn st) (aead_key st)) b'"
    using ascon128a_finish_any rep_acquire by blast
  with ascon128a_session_decrypt_finalize rep_release show ?case
    by (auto simp: ascon128a_aead_decrypt_finalize_def Let_def case_prod_beta)
qed auto

lemma ascon80pq_finish_any:
  assumes "rep s b" "unat partial < 8" "length k = 20"
  shows "\<exists>b'. rep (ascon80pq_finish B s partial k) b'"
  using ascon80pq_finish_rep[OF assms] by simp blast

lemma ascon80pq_session_inv:
  assumes "ascon80pq_session B st"
  shows "(\<exists>b. rep (aead_perm st) b) \<and> length (aead_key st) = 20 \<and> length (aead_nonce st) = 16 \<and>
    unat (aead_posn st) < 8"
  using assms
proof induction
  case (ascon80pq_session_init npub k)
  then show ?case
    using rep_release[OF rep_init]
    by (auto simp: ascon80pq_aead_init_def ascon80pq_aead_reinit_def split: option.splits)
next
  case (ascon80pq_session_reinit st npub k)
  then show ?case by (auto simp: ascon80pq_aead_reinit_def split: option.splits)
next
  case (ascon80pq_session_start st ad)
  then show ?case
    using ascon80pq_start_rep by (auto simp: ascon80pq_start_fields)
next
  case (ascon80pq_session_encrypt st m)
  then obtain b where b: "rep (aead_perm st) b" "unat (aead_posn st) < 8" by auto
  from ascon80pq_encrypt_feed[OF b, of "[m]"] ascon80pq_session_encrypt show ?case
    by (auto simp: case_prod_beta Let_def prod_eq_iff)
next
  case (ascon80pq_session_decrypt st c)
  then obtain b where b: "rep (aead_perm st) b" "unat (aead_posn st) < 8" by auto
  from ascon80pq_decrypt_feed[OF b, of "[c]"] ascon80pq_session_decrypt show ?case
    by (auto simp: case_prod_beta Let_def prod_eq_iff)
next
  case (ascon80pq_session_encrypt_finalize st)
  then obtain b where "rep (aead_perm st) b" "unat (aead_posn st) < 8" "length (aead_key st) = 20"
    by auto
  then obtain b' where "rep (ascon80pq_finish B (snp_acquire B (aead_perm st)) (aead_posn st) (aead_key st)) b'"
    using ascon80pq_finish_any rep_acquire by blast
  with ascon80pq_session_encrypt_finalize rep_release show ?case
    by (auto simp: ascon80pq_aead_encrypt_finalize_def Let_def)
next
  case (ascon80pq_session_decrypt_finalize st tag)
  then obtain b where "rep (aead_perm st) b" "unat (aead_posn st) < 8" "length (aead_key st) = 20"
    by auto
  then obtain b' where "rep (ascon80pq_finish B (snp_acquire B (aead_perm st)) (aead_posn st) (aead_key st)) b'"
    using ascon80pq_finish_any rep_acquire by blast
  with ascon80pq_session_decrypt_finalize rep_release show ?case
    by (auto simp: ascon80pq_aead_decrypt_finalize_def Let_def case_prod_beta)
qed auto

end

end
