(* ===== verification/Snp_Bytes.thy ===== *)
theory Snp_Bytes
  imports Snp
begin

text \<open>
  The byte loops of \<open>core/ascon-sliced64.c\<close> and \<open>core/ascon-direct-xor.c\<close>.  The two files run the
  same loops over \<open>ASCON_C64_BYTE_FOR_OFFSET(state, offset)\<close> and over \<open>state->B[offset]\<close>; here the
  byte at an offset is a parameter, a reader and a writer.  The locale \<open>byte_view\<close> says when
  such a pair shows the bytes of the state, and its lemmas are the contract of the loops.
  The second part is the macro family of the generic branch of \<open>core/ascon-util-snp.h\<close>, which is
  written with the functions only.
\<close>

section \<open>Loops\<close>

type_synonym 's get_byte = "'s \<Rightarrow> nat \<Rightarrow> u8"
type_synonym 's set_byte = "'s \<Rightarrow> nat \<Rightarrow> u8 \<Rightarrow> 's"

fun add_loop :: "'s get_byte \<Rightarrow> 's set_byte \<Rightarrow> 's \<Rightarrow> bytes \<Rightarrow> nat \<Rightarrow> nat \<Rightarrow> 's" where
  "add_loop getb setb s (d # data) offset (Suc sz) =
     (if offset < 40
      then add_loop getb setb (setb s offset (getb s offset XOR d)) data (offset + 1) sz
      else s)"
| "add_loop getb setb s data offset sz = s"

fun overwrite_loop :: "'s set_byte \<Rightarrow> 's \<Rightarrow> bytes \<Rightarrow> nat \<Rightarrow> nat \<Rightarrow> 's" where
  "overwrite_loop setb s (d # data) offset (Suc sz) =
     (if offset < 40 then overwrite_loop setb (setb s offset d) data (offset + 1) sz else s)"
| "overwrite_loop setb s data offset sz = s"

fun zero_loop :: "'s set_byte \<Rightarrow> 's \<Rightarrow> nat \<Rightarrow> nat \<Rightarrow> 's" where
  "zero_loop setb s offset (Suc sz) =
     (if offset < 40 then zero_loop setb (setb s offset 0) (offset + 1) sz else s)"
| "zero_loop setb s offset 0 = s"

fun extract_loop :: "'s get_byte \<Rightarrow> 's \<Rightarrow> nat \<Rightarrow> nat \<Rightarrow> bytes" where
  "extract_loop getb s offset (Suc sz) =
     (if offset < 40 then getb s offset # extract_loop getb s (offset + 1) sz else [])"
| "extract_loop getb s offset 0 = []"

fun extract_add_loop :: "'s get_byte \<Rightarrow> 's \<Rightarrow> bytes \<Rightarrow> nat \<Rightarrow> nat \<Rightarrow> bytes" where
  "extract_add_loop getb s (d # input) offset (Suc sz) =
     (if offset < 40
      then (d XOR getb s offset) # extract_add_loop getb s input (offset + 1) sz
      else [])"
| "extract_add_loop getb s input offset sz = []"

fun extract_overwrite_loop ::
  "'s get_byte \<Rightarrow> 's set_byte \<Rightarrow> 's \<Rightarrow> bytes \<Rightarrow> nat \<Rightarrow> nat \<Rightarrow> 's \<times> bytes" where
  "extract_overwrite_loop getb setb s (d # input) offset (Suc sz) =
     (if offset < 40
      then let out = d XOR getb s offset;
               (s', outs) = extract_overwrite_loop getb setb (setb s offset d) input (offset + 1) sz
           in (s', out # outs)
      else (s, []))"
| "extract_overwrite_loop getb setb s input offset sz = (s, [])"

locale byte_view =
  fixes getb :: "'s get_byte" and setb :: "'s set_byte" and rep :: "'s \<Rightarrow> bytes \<Rightarrow> bool"
  assumes view_length: "rep s b \<Longrightarrow> length b = 40"
    and view_get: "\<lbrakk>rep s b; i < 40\<rbrakk> \<Longrightarrow> getb s i = b ! i"
    and view_set: "\<lbrakk>rep s b; i < 40\<rbrakk> \<Longrightarrow> rep (setb s i v) (b[i := v])"
begin

lemma add_loop_rep:
  "\<lbrakk>rep s b; n \<le> length d; off + n \<le> 40\<rbrakk> \<Longrightarrow>
     rep (add_loop getb setb s d off n) (xor_at b off (take n d))"
proof (induction d arbitrary: s b off n)
  case (Cons x d)
  show ?case
  proof (cases n)
    case (Suc m)
    with Cons.prems have "rep (setb s off (getb s off XOR x)) (xor_at b off [x])"
      by (simp add: xor_at_one view_length view_get view_set)
    from Cons.IH[OF this, of m "off + 1"] Cons.prems Suc show ?thesis
      by (simp add: xor_at_Cons[of b off x "take m d"])
  qed (use Cons in simp)
qed simp

lemma overwrite_loop_rep:
  "\<lbrakk>rep s b; n \<le> length d; off + n \<le> 40\<rbrakk> \<Longrightarrow>
     rep (overwrite_loop setb s d off n) (put_at b off (take n d))"
proof (induction d arbitrary: s b off n)
  case (Cons x d)
  show ?case
  proof (cases n)
    case (Suc m)
    with Cons.prems have "rep (setb s off x) (put_at b off [x])"
      by (simp add: put_at_one view_set)
    from Cons.IH[OF this, of m "off + 1"] Cons.prems Suc show ?thesis
      by (simp add: put_at_Cons[of b off x "take m d"])
  qed (use Cons in simp)
qed simp

lemma zero_loop_rep:
  "\<lbrakk>rep s b; off + n \<le> 40\<rbrakk> \<Longrightarrow> rep (zero_loop setb s off n) (put_at b off (zeros n))"
proof (induction n arbitrary: s b off)
  case (Suc n)
  then have "rep (setb s off 0) (put_at b off [0])"
    by (simp add: put_at_one view_set)
  from Suc.IH[OF this, of "off + 1"] Suc.prems show ?case
    by (simp add: zeros_def put_at_Cons[of b off 0 "replicate n 0"])
qed (simp add: zeros_def)

lemma extract_loop_eq:
  "\<lbrakk>rep s b; off + n \<le> 40\<rbrakk> \<Longrightarrow> extract_loop getb s off n = get_at b off n"
proof (induction n arbitrary: off)
  case (Suc n)
  then show ?case
    using view_length[of s b] view_get[of s b off]
    by (simp add: get_at_def flip: Cons_nth_drop_Suc)
qed simp

lemma extract_add_loop_eq:
  "\<lbrakk>rep s b; n \<le> length d; off + n \<le> 40\<rbrakk> \<Longrightarrow>
     extract_add_loop getb s d off n = xor_bytes (get_at b off n) (take n d)"
proof (induction d arbitrary: off n)
  case (Cons x d)
  show ?case
  proof (cases n)
    case (Suc m)
    with Cons view_length[of s b] view_get[of s b off] show ?thesis
      by (simp add: get_at_def xor.commute flip: Cons_nth_drop_Suc)
  qed simp
qed simp

lemma extract_overwrite_loop_rep:
  "\<lbrakk>rep s b; n \<le> length d; off + n \<le> 40\<rbrakk> \<Longrightarrow>
     rep (fst (extract_overwrite_loop getb setb s d off n)) (put_at b off (take n d)) \<and>
     snd (extract_overwrite_loop getb setb s d off n) = xor_bytes (get_at b off n) (take n d)"
proof (induction d arbitrary: s b off n)
  case (Cons x d)
  show ?case
  proof (cases n)
    case (Suc m)
    with Cons.prems have "rep (setb s off x) (put_at b off [x])"
      by (simp add: put_at_one view_set)
    moreover have "get_at (put_at b off [x]) (Suc off) m = get_at b (Suc off) m"
      using Cons.prems Suc view_length[of s b]
      by (intro nth_equalityI) (auto simp: byte_nth)
    moreover have "get_at b off (Suc m) = getb s off # get_at b (Suc off) m"
      using Cons.prems Suc view_length[of s b] view_get[of s b off]
      by (simp add: get_at_def flip: Cons_nth_drop_Suc)
    ultimately show ?thesis
      using Cons.IH[of "setb s off x" "put_at b off [x]" m "off + 1"] Cons.prems Suc
      by (simp add: put_at_Cons[of b off x "take m d"] Let_def xor.commute case_prod_beta)
  qed (use Cons in simp)
qed simp

end

section \<open>The generic macros\<close>

text \<open>\<open>ASCON_FORCE_GENERIC\<close> on the functions of a backend; the precomputed states are written with
  \<open>ascon_overwrite_bytes\<close>.\<close>

definition generic_separator :: "'s snp \<Rightarrow> 's \<Rightarrow> 's" where
  "generic_separator B s = snp_add_bytes B s [0x01] 39 1"

definition generic_pad :: "'s snp \<Rightarrow> 's \<Rightarrow> nat \<Rightarrow> 's" where
  "generic_pad B s offset = snp_add_bytes B s [0x80] offset 1"

definition generic_encrypt :: "'s snp \<Rightarrow> 's \<Rightarrow> bytes \<Rightarrow> nat \<Rightarrow> nat \<Rightarrow> 's \<times> bytes" where
  "generic_encrypt B s src offset count =
     (let s = snp_add_bytes B s src offset count
      in (s, snp_extract_bytes B s offset count))"

definition generic_snp :: "'s snp \<Rightarrow> 's snp" where
  "generic_snp B = B \<lparr>
     snp_separator := generic_separator B,
     snp_pad := generic_pad B,
     snp_absorb_8 := (\<lambda>s data offset. snp_add_bytes B s data offset 8),
     snp_absorb_16 := (\<lambda>s data offset. snp_add_bytes B s data offset 16),
     snp_absorb_partial := snp_add_bytes B,
     snp_squeeze_8 := (\<lambda>s offset. snp_extract_bytes B s offset 8),
     snp_squeeze_16 := (\<lambda>s offset. snp_extract_bytes B s offset 16),
     snp_squeeze_partial := snp_extract_bytes B,
     snp_encrypt_8 := (\<lambda>s src offset. generic_encrypt B s src offset 8),
     snp_encrypt_16 := (\<lambda>s src offset. generic_encrypt B s src offset 16),
     snp_encrypt_partial := generic_encrypt B,
     snp_decrypt_8 := (\<lambda>s src offset. snp_extract_and_overwrite_bytes B s src offset 8),
     snp_decrypt_16 := (\<lambda>s src offset. snp_extract_and_overwrite_bytes B s src offset 16),
     snp_decrypt_partial := snp_extract_and_overwrite_bytes B,
     snp_load := (\<lambda>S W b. snp_overwrite_bytes B (snp_init B) b 0 40) \<rparr>"

lemma table_ok_length: "table_ok S W b \<Longrightarrow> length b = 40"
  by (auto simp: table_ok_def length_concat comp_def sum_list_triv)

context snp_laws
begin

lemma generic_encrypt_rep:
  assumes "rep s b" "n \<le> length d" "off + n \<le> 40"
  shows "rep (fst (generic_encrypt B s d off n)) (xor_at b off (take n d)) \<and>
     snd (generic_encrypt B s d off n) = xor_bytes (get_at b off n) (take n d)"
proof -
  have *: "rep (snp_add_bytes B s d off n) (xor_at b off (take n d))"
    using assms by (rule rep_add)
  moreover have "get_at (xor_at b off (take n d)) off n = xor_bytes (get_at b off n) (take n d)"
    using get_at_xor_at[of off "take n d" b] assms rep_length[OF assms(1)] by simp
  ultimately show ?thesis
    using assms(3) by (simp add: generic_encrypt_def rep_extract)
qed

lemma generic_snp_laws: "snp_laws (generic_snp B) rep"
proof unfold_locales
  fix s b assume "rep s b"
  then show "rep (snp_separator (generic_snp B) s) (xor_at b 39 [1])"
    using rep_add[of s b 1 "[1]" 39] by (simp add: generic_snp_def generic_separator_def)
next
  fix s b off assume "rep s b" "off < (40::nat)"
  then show "rep (snp_pad (generic_snp B) s off) (xor_at b off [0x80])"
    using rep_add[of s b 1 "[0x80]" off] by (simp add: generic_snp_def generic_pad_def)
next
  fix S W b assume "table_ok S W b"
  then have "length b = 40" by (rule table_ok_length)
  then show "rep (snp_load (generic_snp B) S W b) b"
    using rep_overwrite[OF rep_init, of 40 b 0]
    by (simp add: generic_snp_def put_at_whole)
qed (simp_all add: generic_snp_def rep_length rep_init rep_free rep_add rep_overwrite rep_zeroes
    rep_extract rep_extract_add rep_extract_overwrite rep_release rep_acquire rep_copy
    rep_permute generic_encrypt_rep)

end

end
