(* ===== verification/Snp_Direct_Xor.thy ===== *)
theory Snp_Direct_Xor
  imports Snp_Bytes
begin

text \<open>
  The direct-XOR backend: \<open>core/ascon-direct-xor.c\<close> (without the balance checks of
  \<open>ASCON_CHECK_ACQUIRE_RELEASE\<close>), the direct-XOR branch of \<open>core/ascon-util-snp.h\<close> and the byte
  variant of the permutation.  The state is the array \<open>B\<close> of 40 bytes in the standard order, so
  this backend is also the reference the others are compared with.
\<close>

abbreviation byte_at :: "bytes get_byte" where
  "byte_at B offset \<equiv> B ! offset"

abbreviation set_byte_at :: "bytes set_byte" where
  "set_byte_at B offset v \<equiv> B[offset := v]"

definition direct_xor_init :: bytes where
  "direct_xor_init = replicate 40 0"

definition direct_xor_free :: "bytes \<Rightarrow> bytes" where
  "direct_xor_free B = replicate (length B) 0"

definition direct_xor_add_bytes :: "bytes \<Rightarrow> bytes \<Rightarrow> nat \<Rightarrow> nat \<Rightarrow> bytes" where
  "direct_xor_add_bytes = add_loop byte_at set_byte_at"

definition direct_xor_overwrite_bytes :: "bytes \<Rightarrow> bytes \<Rightarrow> nat \<Rightarrow> nat \<Rightarrow> bytes" where
  "direct_xor_overwrite_bytes = overwrite_loop set_byte_at"

definition direct_xor_overwrite_with_zeroes :: "bytes \<Rightarrow> nat \<Rightarrow> nat \<Rightarrow> bytes" where
  "direct_xor_overwrite_with_zeroes = zero_loop set_byte_at"

definition direct_xor_extract_bytes :: "bytes \<Rightarrow> nat \<Rightarrow> nat \<Rightarrow> bytes" where
  "direct_xor_extract_bytes = extract_loop byte_at"

definition direct_xor_extract_and_add_bytes :: "bytes \<Rightarrow> bytes \<Rightarrow> nat \<Rightarrow> nat \<Rightarrow> bytes" where
  "direct_xor_extract_and_add_bytes = extract_add_loop byte_at"

definition direct_xor_extract_and_overwrite_bytes ::
  "bytes \<Rightarrow> bytes \<Rightarrow> nat \<Rightarrow> nat \<Rightarrow> bytes \<times> bytes" where
  "direct_xor_extract_and_overwrite_bytes = extract_overwrite_loop byte_at set_byte_at"

text \<open>The macros.  \<open>(state)->B + offset\<close> is the tail of the array from \<open>offset\<close> on.\<close>

definition direct_xor_separator :: "bytes \<Rightarrow> bytes" where
  "direct_xor_separator B = B[39 := B ! 39 XOR 0x01]"

definition direct_xor_pad :: "bytes \<Rightarrow> nat \<Rightarrow> bytes" where
  "direct_xor_pad B offset = B[offset := B ! offset XOR 0x80]"

definition direct_xor_absorb :: "bytes \<Rightarrow> bytes \<Rightarrow> nat \<Rightarrow> nat \<Rightarrow> bytes" where
  "direct_xor_absorb B data offset count =
     take offset B @ lw_xor_block (drop offset B) data count"

definition direct_xor_squeeze :: "bytes \<Rightarrow> nat \<Rightarrow> nat \<Rightarrow> bytes" where
  "direct_xor_squeeze B offset count = take count (drop offset B)"

definition direct_xor_encrypt :: "bytes \<Rightarrow> bytes \<Rightarrow> nat \<Rightarrow> nat \<Rightarrow> bytes \<times> bytes" where
  "direct_xor_encrypt B src offset count =
     (case lw_xor_block_2_dest (drop offset B) src count of (dest, B') \<Rightarrow>
       (take offset B @ B', dest))"

definition direct_xor_decrypt :: "bytes \<Rightarrow> bytes \<Rightarrow> nat \<Rightarrow> nat \<Rightarrow> bytes \<times> bytes" where
  "direct_xor_decrypt B src offset count =
     (case lw_xor_block_swap (drop offset B) src count of (dest, B') \<Rightarrow>
       (take offset B @ B', dest))"

definition direct_xor :: "bytes snp" where
  "direct_xor = \<lparr>
     snp_init = direct_xor_init,
     snp_free = direct_xor_free,
     snp_add_bytes = direct_xor_add_bytes,
     snp_overwrite_bytes = direct_xor_overwrite_bytes,
     snp_overwrite_with_zeroes = direct_xor_overwrite_with_zeroes,
     snp_extract_bytes = direct_xor_extract_bytes,
     snp_extract_and_add_bytes = direct_xor_extract_and_add_bytes,
     snp_extract_and_overwrite_bytes = direct_xor_extract_and_overwrite_bytes,
     snp_release = (\<lambda>s. s),
     snp_acquire = (\<lambda>s. s),
     snp_copy = (\<lambda>dest src. src),
     snp_permute = ascon_permute_c64_direct_xor,
     snp_separator = direct_xor_separator,
     snp_pad = direct_xor_pad,
     snp_absorb_8 = (\<lambda>s data offset. direct_xor_absorb s data offset 8),
     snp_absorb_16 = (\<lambda>s data offset. direct_xor_absorb s data offset 16),
     snp_absorb_partial = direct_xor_absorb,
     snp_squeeze_8 = (\<lambda>s offset. direct_xor_squeeze s offset 8),
     snp_squeeze_16 = (\<lambda>s offset. direct_xor_squeeze s offset 16),
     snp_squeeze_partial = direct_xor_squeeze,
     snp_encrypt_8 = (\<lambda>s src offset. direct_xor_encrypt s src offset 8),
     snp_encrypt_16 = (\<lambda>s src offset. direct_xor_encrypt s src offset 16),
     snp_encrypt_partial = direct_xor_encrypt,
     snp_decrypt_8 = (\<lambda>s src offset. direct_xor_decrypt s src offset 8),
     snp_decrypt_16 = (\<lambda>s src offset. direct_xor_decrypt s src offset 16),
     snp_decrypt_partial = direct_xor_decrypt,
     snp_load = (\<lambda>S W b. b) \<rparr>"

section \<open>The backend satisfies the contract\<close>

definition rep_direct_xor :: "bytes \<Rightarrow> bytes \<Rightarrow> bool" where
  "rep_direct_xor B b \<longleftrightarrow> B = b \<and> length b = 40"

interpretation dx: byte_view byte_at set_byte_at rep_direct_xor
  by unfold_locales (auto simp: rep_direct_xor_def)

lemma splice_xor:
  "\<lbrakk>off + n \<le> length b; n \<le> length d\<rbrakk> \<Longrightarrow>
     take off b @ xor_bytes (take n (drop off b)) (take n d) @ drop n (drop off b) =
     xor_at b off (take n d)"
  by (rule nth_equalityI) (auto simp: byte_nth nth_append)

lemma splice_put:
  "\<lbrakk>off + n \<le> length b; n \<le> length d\<rbrakk> \<Longrightarrow>
     take off b @ take n d @ drop n (drop off b) = put_at b off (take n d)"
  by (rule nth_equalityI) (auto simp: byte_nth nth_append)

lemma direct_xor_absorb_eq:
  "\<lbrakk>off + n \<le> length b; n \<le> length d\<rbrakk> \<Longrightarrow>
     direct_xor_absorb b d off n = xor_at b off (take n d)"
  using splice_xor[of off n b d] by (simp add: direct_xor_absorb_def lw_xor_block_eq)

lemma direct_xor_encrypt_eq:
  "\<lbrakk>off + n \<le> length b; n \<le> length d\<rbrakk> \<Longrightarrow>
     direct_xor_encrypt b d off n =
       (xor_at b off (take n d), xor_bytes (get_at b off n) (take n d))"
  using splice_xor[of off n b d]
  by (simp add: direct_xor_encrypt_def lw_xor_block_2_dest_eq get_at_def)

lemma direct_xor_decrypt_eq:
  "\<lbrakk>off + n \<le> length b; n \<le> length d\<rbrakk> \<Longrightarrow>
     direct_xor_decrypt b d off n =
       (put_at b off (take n d), xor_bytes (get_at b off n) (take n d))"
  using splice_put[of off n b d]
  by (simp add: direct_xor_decrypt_def lw_xor_block_swap_eq get_at_def)

lemmas direct_xor_defs =
  direct_xor_def direct_xor_init_def direct_xor_free_def direct_xor_add_bytes_def
  direct_xor_overwrite_bytes_def direct_xor_overwrite_with_zeroes_def direct_xor_extract_bytes_def
  direct_xor_extract_and_add_bytes_def direct_xor_extract_and_overwrite_bytes_def
  direct_xor_separator_def direct_xor_pad_def direct_xor_squeeze_def

lemmas direct_xor_eqs =
  direct_xor_absorb_eq direct_xor_encrypt_eq direct_xor_decrypt_eq

interpretation direct_xor: snp_laws direct_xor rep_direct_xor
proof unfold_locales
  fix s b
  assume "rep_direct_xor s b"
  then show "length b = 40" by (simp add: rep_direct_xor_def)
qed (simp_all add: direct_xor_defs dx.add_loop_rep dx.overwrite_loop_rep dx.zero_loop_rep
    dx.extract_loop_eq dx.extract_add_loop_eq dx.extract_overwrite_loop_rep,
    simp_all add: rep_direct_xor_def direct_xor_eqs zeros_def get_at_def xor_at_one
      table_ok_length)

interpretation generic: snp_laws "generic_snp direct_xor" rep_direct_xor
  by (rule direct_xor.generic_snp_laws)

end
