(* ===== verification/Snp_Sliced64.thy ===== *)
theory Snp_Sliced64
  imports Snp_Bytes
begin

text \<open>
  The sliced64 backend: \<open>core/ascon-sliced64.c\<close>, the sliced64 branch of \<open>core/ascon-util-snp.h\<close>
  and the word variant of the permutation.  The state is the array \<open>S\<close> of five 64-bit words; the
  byte functions access the same memory through the array \<open>B\<close> of the union, so they depend on
  the byte order of the machine, which is a parameter (\<open>le\<close> for little-endian).
\<close>

section \<open>The union\<close>

text \<open>\<open>state->B[i]\<close> on a machine of the given byte order.\<close>

definition union_shift :: "bool \<Rightarrow> nat \<Rightarrow> nat" where
  "union_shift le i = 8 * (if le then i mod 8 else 7 - i mod 8)"

definition union_get :: "bool \<Rightarrow> u64 list get_byte" where
  "union_get le S i = ucast (drop_bit (union_shift le i) (S ! (i div 8)))"

definition union_set :: "bool \<Rightarrow> u64 list set_byte" where
  "union_set le S i v = S[i div 8 :=
     (S ! (i div 8) AND NOT (push_bit (union_shift le i) 0xFF)) OR
     push_bit (union_shift le i) (ucast v)]"

text \<open>The index in \<open>ASCON_C64_BYTE_FOR_OFFSET(state, offset)\<close>.\<close>

definition ASCON_C64_BYTE_FOR_OFFSET :: "bool \<Rightarrow> nat \<Rightarrow> nat" where
  "ASCON_C64_BYTE_FOR_OFFSET le offset =
     (if le then (offset AND 0x38) + (7 - (offset AND 0x07)) else offset)"

abbreviation c64_get :: "bool \<Rightarrow> u64 list get_byte" where
  "c64_get le S offset \<equiv> union_get le S (ASCON_C64_BYTE_FOR_OFFSET le offset)"

abbreviation c64_set :: "bool \<Rightarrow> u64 list set_byte" where
  "c64_set le S offset v \<equiv> union_set le S (ASCON_C64_BYTE_FOR_OFFSET le offset) v"

section \<open>The functions and the macros\<close>

definition sliced64_init :: "u64 list" where
  "sliced64_init = [0, 0, 0, 0, 0]"

definition sliced64_free :: "u64 list \<Rightarrow> u64 list" where
  "sliced64_free S = [0, 0, 0, 0, 0]"

definition sliced64_add_bytes :: "bool \<Rightarrow> u64 list \<Rightarrow> bytes \<Rightarrow> nat \<Rightarrow> nat \<Rightarrow> u64 list" where
  "sliced64_add_bytes le = add_loop (c64_get le) (c64_set le)"

definition sliced64_overwrite_bytes :: "bool \<Rightarrow> u64 list \<Rightarrow> bytes \<Rightarrow> nat \<Rightarrow> nat \<Rightarrow> u64 list" where
  "sliced64_overwrite_bytes le = overwrite_loop (c64_set le)"

definition sliced64_overwrite_with_zeroes :: "bool \<Rightarrow> u64 list \<Rightarrow> nat \<Rightarrow> nat \<Rightarrow> u64 list" where
  "sliced64_overwrite_with_zeroes le = zero_loop (c64_set le)"

definition sliced64_extract_bytes :: "bool \<Rightarrow> u64 list \<Rightarrow> nat \<Rightarrow> nat \<Rightarrow> bytes" where
  "sliced64_extract_bytes le = extract_loop (c64_get le)"

definition sliced64_extract_and_add_bytes ::
  "bool \<Rightarrow> u64 list \<Rightarrow> bytes \<Rightarrow> nat \<Rightarrow> nat \<Rightarrow> bytes" where
  "sliced64_extract_and_add_bytes le = extract_add_loop (c64_get le)"

definition sliced64_extract_and_overwrite_bytes ::
  "bool \<Rightarrow> u64 list \<Rightarrow> bytes \<Rightarrow> nat \<Rightarrow> nat \<Rightarrow> u64 list \<times> bytes" where
  "sliced64_extract_and_overwrite_bytes le = extract_overwrite_loop (c64_get le) (c64_set le)"

definition sliced64_separator :: "u64 list \<Rightarrow> u64 list" where
  "sliced64_separator S = S[4 := S ! 4 XOR 0x01]"

definition sliced64_pad :: "u64 list \<Rightarrow> nat \<Rightarrow> u64 list" where
  "sliced64_pad S offset =
     S[offset div 8 := S ! (offset div 8) XOR drop_bit ((offset AND 7) * 8) 0x8000000000000000]"

definition sliced64_absorb_8 :: "u64 list \<Rightarrow> bytes \<Rightarrow> nat \<Rightarrow> u64 list" where
  "sliced64_absorb_8 S data offset =
     S[offset div 8 := S ! (offset div 8) XOR be_load_word64 data]"

definition sliced64_absorb_16 :: "u64 list \<Rightarrow> bytes \<Rightarrow> nat \<Rightarrow> u64 list" where
  "sliced64_absorb_16 S data offset =
     (let S = S[offset div 8 := S ! (offset div 8) XOR be_load_word64 data]
      in S[offset div 8 + 1 := S ! (offset div 8 + 1) XOR be_load_word64 (drop 8 data)])"

definition sliced64_squeeze_8 :: "u64 list \<Rightarrow> nat \<Rightarrow> bytes" where
  "sliced64_squeeze_8 S offset = be_store_word64 (S ! (offset div 8))"

definition sliced64_squeeze_16 :: "u64 list \<Rightarrow> nat \<Rightarrow> bytes" where
  "sliced64_squeeze_16 S offset =
     be_store_word64 (S ! (offset div 8)) @ be_store_word64 (S ! (offset div 8 + 1))"

definition sliced64_encrypt_8 :: "u64 list \<Rightarrow> bytes \<Rightarrow> nat \<Rightarrow> u64 list \<times> bytes" where
  "sliced64_encrypt_8 S src offset =
     (let S = S[offset div 8 := S ! (offset div 8) XOR be_load_word64 src]
      in (S, be_store_word64 (S ! (offset div 8))))"

definition sliced64_encrypt_16 :: "u64 list \<Rightarrow> bytes \<Rightarrow> nat \<Rightarrow> u64 list \<times> bytes" where
  "sliced64_encrypt_16 S src offset =
     (let S = S[offset div 8 := S ! (offset div 8) XOR be_load_word64 src];
          S = S[offset div 8 + 1 := S ! (offset div 8 + 1) XOR be_load_word64 (drop 8 src)]
      in (S, be_store_word64 (S ! (offset div 8)) @ be_store_word64 (S ! (offset div 8 + 1))))"

definition sliced64_encrypt_partial ::
  "bool \<Rightarrow> u64 list \<Rightarrow> bytes \<Rightarrow> nat \<Rightarrow> nat \<Rightarrow> u64 list \<times> bytes" where
  "sliced64_encrypt_partial le S src offset count =
     (let S = sliced64_add_bytes le S src offset count
      in (S, sliced64_extract_bytes le S offset count))"

definition sliced64_decrypt_8 :: "u64 list \<Rightarrow> bytes \<Rightarrow> nat \<Rightarrow> u64 list \<times> bytes" where
  "sliced64_decrypt_8 S src offset =
     (let word = be_load_word64 src;
          dest = be_store_word64 (word XOR S ! (offset div 8))
      in (S[offset div 8 := word], dest))"

definition sliced64_decrypt_16 :: "u64 list \<Rightarrow> bytes \<Rightarrow> nat \<Rightarrow> u64 list \<times> bytes" where
  "sliced64_decrypt_16 S src offset =
     (let word = be_load_word64 src;
          dest1 = be_store_word64 (word XOR S ! (offset div 8));
          S = S[offset div 8 := word];
          word = be_load_word64 (drop 8 src);
          dest2 = be_store_word64 (word XOR S ! (offset div 8 + 1))
      in (S[offset div 8 + 1 := word], dest1 @ dest2))"

definition sliced64 :: "bool \<Rightarrow> u64 list snp" where
  "sliced64 le = \<lparr>
     snp_init = sliced64_init,
     snp_free = sliced64_free,
     snp_add_bytes = sliced64_add_bytes le,
     snp_overwrite_bytes = sliced64_overwrite_bytes le,
     snp_overwrite_with_zeroes = sliced64_overwrite_with_zeroes le,
     snp_extract_bytes = sliced64_extract_bytes le,
     snp_extract_and_add_bytes = sliced64_extract_and_add_bytes le,
     snp_extract_and_overwrite_bytes = sliced64_extract_and_overwrite_bytes le,
     snp_release = (\<lambda>s. s),
     snp_acquire = (\<lambda>s. s),
     snp_copy = (\<lambda>dest src. src),
     snp_permute = ascon_permute_c64,
     snp_separator = sliced64_separator,
     snp_pad = sliced64_pad,
     snp_absorb_8 = sliced64_absorb_8,
     snp_absorb_16 = sliced64_absorb_16,
     snp_absorb_partial = sliced64_add_bytes le,
     snp_squeeze_8 = sliced64_squeeze_8,
     snp_squeeze_16 = sliced64_squeeze_16,
     snp_squeeze_partial = sliced64_extract_bytes le,
     snp_encrypt_8 = sliced64_encrypt_8,
     snp_encrypt_16 = sliced64_encrypt_16,
     snp_encrypt_partial = sliced64_encrypt_partial le,
     snp_decrypt_8 = sliced64_decrypt_8,
     snp_decrypt_16 = sliced64_decrypt_16,
     snp_decrypt_partial = sliced64_extract_and_overwrite_bytes le,
     snp_load = (\<lambda>S W b. S) \<rparr>"

section \<open>The bytes of the state\<close>

definition rep_sliced64 :: "u64 list \<Rightarrow> bytes \<Rightarrow> bool" where
  "rep_sliced64 S b \<longleftrightarrow> length S = 5 \<and> b = concat (map be_store_word64 S)"

lemma length_concat_store [simp]: "length (concat (map be_store_word64 S)) = 8 * length S"
  by (induction S) auto

lemma nth_concat_store:
  "i < 8 * length S \<Longrightarrow>
     concat (map be_store_word64 S) ! i = be_store_word64 (S ! (i div 8)) ! (i mod 8)"
proof (induction S arbitrary: i)
  case (Cons w S)
  show ?case
  proof (cases "i < 8")
    case False
    then have "i div 8 = Suc ((i - 8) div 8)" "i mod 8 = (i - 8) mod 8"
      by (simp_all add: le_div_geq le_mod_geq)
    with Cons False show ?thesis by (simp add: nth_append)
  qed (simp add: nth_append)
qed simp

lemma rep_sliced64_length: "rep_sliced64 S b \<Longrightarrow> length b = 40"
  by (auto simp: rep_sliced64_def)

lemma rep_sliced64_word:
  "\<lbrakk>rep_sliced64 S b; k < 5\<rbrakk> \<Longrightarrow> be_store_word64 (S ! k) = get_at b (8 * k) 8"
  by (rule nth_equalityI) (auto simp: rep_sliced64_def byte_nth nth_concat_store)

lemma rep_sliced64_update:
  assumes "rep_sliced64 S b" "k < 5"
  shows "rep_sliced64 (S[k := w]) (put_at b (8 * k) (be_store_word64 w))"
proof -
  have "concat (map be_store_word64 (S[k := w])) = put_at b (8 * k) (be_store_word64 w)"
  proof (rule nth_equalityI)
    fix i assume "i < length (concat (map be_store_word64 (S[k := w])))"
    moreover have "8 * k \<le> i \<and> i < 8 * k + 8 \<longleftrightarrow> i div 8 = k" by auto
    moreover have "i div 8 = k \<Longrightarrow> i - 8 * k = i mod 8" by (auto simp: minus_mult_div_eq_mod)
    ultimately show "concat (map be_store_word64 (S[k := w])) ! i =
        put_at b (8 * k) (be_store_word64 w) ! i"
      using assms by (auto simp: rep_sliced64_def nth_concat_store byte_nth nth_list_update)
  qed (use assms in \<open>simp add: rep_sliced64_def\<close>)
  with assms show ?thesis by (simp add: rep_sliced64_def)
qed

text \<open>A whole word XORed in or overwritten, as ranges of bytes.\<close>

lemma sliced64_xor_word:
  assumes "rep_sliced64 S b" "8 dvd off" "off + 8 \<le> 40" "8 \<le> length d"
  shows "rep_sliced64 (S[off div 8 := S ! (off div 8) XOR be_load_word64 d])
     (xor_at b off (take 8 d))"
proof -
  from assms have k: "off div 8 < 5" "8 * (off div 8) = off" by auto
  have "be_store_word64 (S ! (off div 8) XOR be_load_word64 d) =
      xor_bytes (get_at b off 8) (take 8 d)"
    using assms k rep_sliced64_word[OF assms(1) k(1)]
    by (simp add: be_store_word64_xor be_store_load_word64)
  with rep_sliced64_update[OF assms(1) k(1), of "S ! (off div 8) XOR be_load_word64 d"]
  show ?thesis
    using k put_at_xor_bytes[of off "take 8 d" b] assms by (simp add: rep_sliced64_length)
qed

lemma sliced64_put_word:
  assumes "rep_sliced64 S b" "8 dvd off" "off + 8 \<le> 40" "8 \<le> length d"
  shows "rep_sliced64 (S[off div 8 := be_load_word64 d]) (put_at b off (take 8 d))"
proof -
  from assms have k: "off div 8 < 5" "8 * (off div 8) = off" by auto
  from rep_sliced64_update[OF assms(1) k(1), of "be_load_word64 d"] show ?thesis
    using k assms by (simp add: be_store_load_word64)
qed

lemma sliced64_get_word:
  assumes "rep_sliced64 S b" "8 dvd off" "off + 8 \<le> (40::nat)"
  shows "be_store_word64 (S ! (off div 8)) = get_at b off 8"
  using assms rep_sliced64_word[of S b "off div 8"] by auto

lemma offset_next_word: "8 dvd (off::nat) \<Longrightarrow> off div 8 + 1 = (off + 8) div 8"
  by auto

lemma take_16_split: "take 16 d = take 8 d @ take 8 (drop 8 d)"
  using take_add[of 8 8 d] by simp

section \<open>Single bytes\<close>

lemma byte_offset_le:
  assumes "i < 40"
  shows "(i AND 0x38) + (7 - (i AND 0x07)) = 8 * (i div 8) + (7 - i mod (8::nat))"
proof -
  have "\<forall>i\<in>set [0..<40]. (i AND 0x38) + (7 - (i AND 0x07)) = 8 * (i div 8) + (7 - i mod (8::nat))"
    by code_simp
  with assms show ?thesis by simp
qed

lemma c64_offset:
  assumes "i < 40"
  shows "ASCON_C64_BYTE_FOR_OFFSET le i div 8 = i div 8"
    "union_shift le (ASCON_C64_BYTE_FOR_OFFSET le i) = 56 - 8 * (i mod 8)"
proof -
  have *: "t < 8 \<Longrightarrow> (8 * q + t) div 8 = q \<and> (8 * q + t) mod 8 = t" for q t :: nat
    by simp
  with *[of "7 - i mod 8" "i div 8"] byte_offset_le[OF assms]
  show "ASCON_C64_BYTE_FOR_OFFSET le i div 8 = i div 8"
    "union_shift le (ASCON_C64_BYTE_FOR_OFFSET le i) = 56 - 8 * (i mod 8)"
    by (simp_all add: ASCON_C64_BYTE_FOR_OFFSET_def union_shift_def diff_mult_distrib2)
qed

lemma be_store_word64_set_byte:
  assumes "j < 8"
  shows "be_store_word64 ((w AND NOT (push_bit (56 - 8 * j) 0xFF)) OR push_bit (56 - 8 * j) (ucast v))
     = (be_store_word64 w)[j := v]"
proof (rule nth_equalityI)
  fix k assume "k < length (be_store_word64
    ((w AND NOT (push_bit (56 - 8 * j) 0xFF)) OR push_bit (56 - 8 * j) (ucast v)))"
  then have k: "k < 8" by simp
  have mask: "(0xFF :: u64) = mask 8" by (simp add: mask_eq_exp_minus_1)
  have *: "56 - 8 * j \<le> 56 - 8 * k + n \<and> 56 - 8 * k + n - (56 - 8 * j) < 8 \<longleftrightarrow> k = j"
    if "n < 8" for n
    using that k assms by (cases k j rule: linorder_cases) auto
  show "be_store_word64 ((w AND NOT (push_bit (56 - 8 * j) 0xFF)) OR
      push_bit (56 - 8 * j) (ucast v)) ! k = (be_store_word64 w)[j := v] ! k"
  proof (rule bit_word_eqI)
    fix n assume "n < LENGTH(8)"
    then show "bit (be_store_word64 ((w AND NOT (push_bit (56 - 8 * j) 0xFF)) OR
      push_bit (56 - 8 * j) (ucast v)) ! k) n = bit ((be_store_word64 w)[j := v] ! k) n"
      using k assms *[of n]
      by (auto simp: mask nth_be_store_word64 nth_list_update word_bit_simps bit_mask_iff
          dest: bit_imp_le_length)
  qed
qed (simp)

lemma put_at_update:
  assumes "i < 40" "length b = 40"
  shows "put_at b (8 * (i div 8)) ((get_at b (8 * (i div 8)) 8)[i mod 8 := v]) = b[i := v]"
proof (rule nth_equalityI)
  fix k assume "k < length (put_at b (8 * (i div 8)) ((get_at b (8 * (i div 8)) 8)[i mod 8 := v]))"
  with assms have k: "k < 40" by simp
  obtain q r where r: "i = 8 * q + r" "r < 8" "i div 8 = q" "i mod 8 = r"
    by (rule byte_bit_cases)
  with assms have "8 * q \<le> 32" by simp
  then show "put_at b (8 * (i div 8)) ((get_at b (8 * (i div 8)) 8)[i mod 8 := v]) ! k = b[i := v] ! k"
    using k assms r(2) unfolding r(3,4) unfolding r(1)
    by (cases "8 * q \<le> k \<and> k < 8 * q + 8") (auto simp: byte_nth nth_list_update)
qed (use assms in simp)

interpretation c64: byte_view "c64_get le" "c64_set le" rep_sliced64
proof unfold_locales
  fix S b i assume r: "rep_sliced64 S b" and i: "i < (40::nat)"
  show "c64_get le S i = b ! i"
    using i r by (simp add: union_get_def c64_offset rep_sliced64_def nth_concat_store
        nth_be_store_word64)
next
  fix S b i and v :: u8 assume r: "rep_sliced64 S b" and i: "i < (40::nat)"
  from i have k: "i div 8 < 5" by simp
  let ?w = "(S ! (i div 8) AND NOT (push_bit (56 - 8 * (i mod 8)) 0xFF)) OR
     push_bit (56 - 8 * (i mod 8)) (ucast v)"
  have "be_store_word64 ?w = (get_at b (8 * (i div 8)) 8)[i mod 8 := v]"
    using rep_sliced64_word[OF r k] by (simp only: be_store_word64_set_byte mod_less_divisor)
  then have "put_at b (8 * (i div 8)) (be_store_word64 ?w) = b[i := v]"
    using put_at_update[OF i rep_sliced64_length[OF r], of v] by simp
  with rep_sliced64_update[OF r k, of ?w]
  show "rep_sliced64 (c64_set le S i v) (b[i := v])"
    using i by (simp only: union_set_def c64_offset)
qed (rule rep_sliced64_length)

section \<open>The backend satisfies the contract\<close>

lemma bit_top_64: "bit (0x8000000000000000 :: int) n \<longleftrightarrow> n = 63"
proof -
  have "(0x8000000000000000 :: int) = 2 ^ 63" by simp
  then show ?thesis using bit_exp_iff[where 'a = int, of 63 n] by auto
qed

lemma bit_top_8: "bit (0x80 :: int) n \<longleftrightarrow> n = 7"
proof -
  have "(0x80 :: int) = 2 ^ 7" by simp
  then show ?thesis using bit_exp_iff[where 'a = int, of 7 n] by auto
qed

lemma sliced64_pad_byte:
  "be_store_word64 (drop_bit ((off AND 7) * 8) 0x8000000000000000) = (zeros 8)[off mod 8 := 0x80]"
proof (rule nth_equalityI)
  have off: "off AND 7 = off mod 8"
    using take_bit_eq_mod[of 3 off] take_bit_eq_mask[of 3 off] by (simp add: mask_eq_exp_minus_1)
  fix k assume "k < length (be_store_word64 (drop_bit ((off AND 7) * 8) 0x8000000000000000))"
  then have k: "k < 8" by simp
  have j: "off mod 8 < 8" by simp
  have "56 - 8 * k + n + off mod 8 * 8 = 63 \<longleftrightarrow> k = off mod 8 \<and> n = 7" if "n < 8" for n
    using that k j by (cases k "off mod 8" rule: linorder_cases) auto
  then show "be_store_word64 (drop_bit ((off AND 7) * 8) 0x8000000000000000) ! k =
      (zeros 8)[off mod 8 := 0x80] ! k"
    unfolding off using k
    by (intro bit_word_eqI)
      (auto simp: nth_be_store_word64 nth_list_update word_bit_simps bit_top_64 bit_top_8
        add.commute add.left_commute)
qed simp

lemma xor_at_one_byte:
  assumes "r < 8"
  shows "xor_at b (8 * q) ((zeros 8)[r := v]) = xor_at b (8 * q + r) [v]"
proof (rule nth_equalityI)
  fix k assume k: "k < length (xor_at b (8 * q) ((zeros 8)[r := v]))"
  show "xor_at b (8 * q) ((zeros 8)[r := v]) ! k = xor_at b (8 * q + r) [v] ! k"
    using k assms by (auto simp: byte_nth nth_list_update)
qed simp

lemma sliced64_xor_byte:
  assumes "rep_sliced64 S b" "off < 40" "be_store_word64 w = (zeros 8)[off mod 8 := v]"
  shows "rep_sliced64 (S[off div 8 := S ! (off div 8) XOR w]) (xor_at b off [v])"
proof -
  from assms(2) have k: "off div 8 < 5" "8 * (off div 8) + 8 \<le> 40" by auto
  have "be_store_word64 (S ! (off div 8) XOR w) =
      xor_bytes (get_at b (8 * (off div 8)) 8) ((zeros 8)[off mod 8 := v])"
    using rep_sliced64_word[OF assms(1) k(1)] assms(3) by (simp add: be_store_word64_xor)
  then have "put_at b (8 * (off div 8)) (be_store_word64 (S ! (off div 8) XOR w)) = xor_at b off [v]"
    using put_at_xor_bytes[of "8 * (off div 8)" "(zeros 8)[off mod 8 := v]" b] k
      rep_sliced64_length[OF assms(1)] xor_at_one_byte[of "off mod 8" b "off div 8" v]
    by simp
  with rep_sliced64_update[OF assms(1) k(1), of "S ! (off div 8) XOR w"] show ?thesis by simp
qed

lemma zeros_8: "zeros 8 = [0, 0, 0, 0, 0, 0, 0, 0]"
  by (simp add: zeros_def numeral_eq_Suc)

lemma sliced64_separator_rep:
  "rep_sliced64 S b \<Longrightarrow> rep_sliced64 (sliced64_separator S) (xor_at b 39 [1])"
  using sliced64_xor_byte[of S b 39 1 1]
  by (simp add: sliced64_separator_def be_store_word64_def zeros_8)

lemma sliced64_pad_rep:
  "\<lbrakk>rep_sliced64 S b; off < 40\<rbrakk> \<Longrightarrow> rep_sliced64 (sliced64_pad S off) (xor_at b off [0x80])"
  using sliced64_xor_byte[OF _ _ sliced64_pad_byte] by (simp add: sliced64_pad_def)

lemma sliced64_absorb_16_rep:
  assumes "rep_sliced64 S b" "16 \<le> length d" "8 dvd off" "off + 16 \<le> 40"
  shows "rep_sliced64 (sliced64_absorb_16 S d off) (xor_at b off (take 16 d))"
proof -
  have "rep_sliced64 (S[off div 8 := S ! (off div 8) XOR be_load_word64 d]) (xor_at b off (take 8 d))"
    using assms by (intro sliced64_xor_word) auto
  from sliced64_xor_word[OF this, of "off + 8" "drop 8 d"] show ?thesis
    using assms offset_next_word[of off]
    by (simp add: sliced64_absorb_16_def take_16_split xor_at_append)
qed

lemma sliced64_squeeze_16_eq:
  assumes "rep_sliced64 S b" "8 dvd off" "off + 16 \<le> 40"
  shows "sliced64_squeeze_16 S off = get_at b off 16"
  using assms sliced64_get_word[of S b off] sliced64_get_word[of S b "off + 8"]
    get_at_append[of b off 8 8] offset_next_word[of off]
  by (simp add: sliced64_squeeze_16_def)

lemma sliced64_encrypt_8_rep:
  assumes "rep_sliced64 S b" "8 \<le> length d" "8 dvd off" "off + 8 \<le> (40::nat)"
  shows "rep_sliced64 (fst (sliced64_encrypt_8 S d off)) (xor_at b off (take 8 d)) \<and>
     snd (sliced64_encrypt_8 S d off) = xor_bytes (get_at b off 8) (take 8 d)"
proof -
  have *: "rep_sliced64 (S[off div 8 := S ! (off div 8) XOR be_load_word64 d]) (xor_at b off (take 8 d))"
    using assms by (intro sliced64_xor_word) auto
  with sliced64_get_word[OF * assms(3,4)] get_at_xor_at[of off "take 8 d" b]
    rep_sliced64_length[OF assms(1)]
  show ?thesis using assms by (simp add: sliced64_encrypt_8_def Let_def)
qed

lemma sliced64_encrypt_16_rep:
  assumes "rep_sliced64 S b" "16 \<le> length d" "8 dvd off" "off + 16 \<le> 40"
  shows "rep_sliced64 (fst (sliced64_encrypt_16 S d off)) (xor_at b off (take 16 d)) \<and>
     snd (sliced64_encrypt_16 S d off) = xor_bytes (get_at b off 16) (take 16 d)"
proof -
  have "fst (sliced64_encrypt_16 S d off) = sliced64_absorb_16 S d off"
    "snd (sliced64_encrypt_16 S d off) = sliced64_squeeze_16 (sliced64_absorb_16 S d off) off"
    by (simp_all add: sliced64_encrypt_16_def sliced64_absorb_16_def sliced64_squeeze_16_def Let_def)
  with sliced64_absorb_16_rep[OF assms] sliced64_squeeze_16_eq[OF _ assms(3,4)]
    get_at_xor_at[of off "take 16 d" b] assms rep_sliced64_length[OF assms(1)]
  show ?thesis by simp
qed

lemma sliced64_decrypt_8_rep:
  assumes "rep_sliced64 S b" "8 \<le> length d" "8 dvd off" "off + 8 \<le> (40::nat)"
  shows "rep_sliced64 (fst (sliced64_decrypt_8 S d off)) (put_at b off (take 8 d)) \<and>
     snd (sliced64_decrypt_8 S d off) = xor_bytes (get_at b off 8) (take 8 d)"
  using assms sliced64_put_word[of S b off d] sliced64_get_word[of S b off]
  by (simp add: sliced64_decrypt_8_def Let_def be_store_word64_xor be_store_load_word64
      xor_bytes_commute)

lemma get_at_put_at_above:
  "off + length d \<le> off' \<Longrightarrow> get_at (put_at b off d) off' n = get_at b off' n"
  by (rule nth_equalityI) (auto simp: byte_nth)

lemma sliced64_decrypt_16_rep:
  assumes "rep_sliced64 S b" "16 \<le> length d" "8 dvd off" "off + 16 \<le> 40"
  shows "rep_sliced64 (fst (sliced64_decrypt_16 S d off)) (put_at b off (take 16 d)) \<and>
     snd (sliced64_decrypt_16 S d off) = xor_bytes (get_at b off 16) (take 16 d)"
proof -
  let ?S = "S[off div 8 := be_load_word64 d]"
  have 1: "rep_sliced64 ?S (put_at b off (take 8 d))"
    using assms by (intro sliced64_put_word) auto
  have "rep_sliced64 (?S[(off + 8) div 8 := be_load_word64 (drop 8 d)])
      (put_at (put_at b off (take 8 d)) (off + 8) (take 8 (drop 8 d)))"
    using 1 assms by (intro sliced64_put_word) auto
  moreover have "be_store_word64 (?S ! ((off + 8) div 8)) = get_at b (off + 8) 8"
    using sliced64_get_word[OF 1, of "off + 8"] assms by (simp add: get_at_put_at_above)
  moreover have "get_at b off 16 = get_at b off 8 @ get_at b (off + 8) 8"
    using get_at_append[of b off 8 8] by simp
  ultimately show ?thesis
    using assms sliced64_get_word[of S b off] offset_next_word[of off] rep_sliced64_length[of S b]
    by (simp add: sliced64_decrypt_16_def Let_def be_store_word64_xor be_store_load_word64
      xor_bytes_commute take_16_split put_at_append xor_bytes_append)
qed

lemma rep_sliced64_load:
  "\<lbrakk>rep_sliced64 S b; k < 5\<rbrakk> \<Longrightarrow> be_load_word64 (drop (8 * k) b) = S ! k"
proof -
  assume r: "rep_sliced64 S b" "k < 5"
  then have "be_store_word64 (S ! k) = take 8 (drop (8 * k) b)"
    using rep_sliced64_word[OF r] by (simp add: get_at_def)
  then show ?thesis by (metis be_load_store_word64 be_load_word64_take)
qed

lemma rep_sliced64_permute:
  assumes "rep_sliced64 S b"
  shows "rep_sliced64 (ascon_permute_c64 S r) (permute_bytes b r)"
proof -
  have "be_load_word64 b = S ! 0" "be_load_word64 (drop 8 b) = S ! 1"
    "be_load_word64 (drop 16 b) = S ! 2" "be_load_word64 (drop 24 b) = S ! 3"
    "be_load_word64 (drop 32 b) = S ! 4"
    using rep_sliced64_load[OF assms, of 0] rep_sliced64_load[OF assms, of 1]
      rep_sliced64_load[OF assms, of 2] rep_sliced64_load[OF assms, of 3]
      rep_sliced64_load[OF assms, of 4] by simp_all
  then show ?thesis
    by (simp add: rep_sliced64_def ascon_permute_c64_def ascon_permute_c64_direct_xor_def
        split: prod.split)
qed

lemma rep_sliced64_init: "rep_sliced64 [0, 0, 0, 0, 0] (zeros 40)"
proof -
  have "be_store_word64 0 = zeros 8" by (simp add: be_store_word64_def zeros_8)
  then show ?thesis
    by (simp add: rep_sliced64_def zeros_def flip: replicate_add)
qed

lemma sliced64_encrypt_partial_rep:
  assumes "rep_sliced64 S b" "n \<le> length d" "off + n \<le> 40"
  shows "rep_sliced64 (fst (sliced64_encrypt_partial le S d off n)) (xor_at b off (take n d)) \<and>
     snd (sliced64_encrypt_partial le S d off n) = xor_bytes (get_at b off n) (take n d)"
proof -
  from assms have *: "rep_sliced64 (sliced64_add_bytes le S d off n) (xor_at b off (take n d))"
    by (simp add: sliced64_add_bytes_def c64.add_loop_rep)
  with get_at_xor_at[of off "take n d" b] assms rep_sliced64_length[OF assms(1)]
    c64.extract_loop_eq[OF *, of off n]
  show ?thesis by (simp add: sliced64_encrypt_partial_def sliced64_extract_bytes_def)
qed

lemmas sliced64_byte_defs =
  sliced64_add_bytes_def sliced64_overwrite_bytes_def sliced64_overwrite_with_zeroes_def
  sliced64_extract_bytes_def sliced64_extract_and_add_bytes_def
  sliced64_extract_and_overwrite_bytes_def

interpretation sliced64: snp_laws "sliced64 le" rep_sliced64
proof unfold_locales
  fix s b assume "rep_sliced64 s b"
  then show "length b = 40" by (rule rep_sliced64_length)
next
  fix s b off and d :: bytes
  assume "rep_sliced64 s b" "8 \<le> length d" "8 dvd off" "off + 8 \<le> (40::nat)"
  then show "rep_sliced64 (snp_absorb_8 (sliced64 le) s d off) (xor_at b off (take 8 d))"
    using sliced64_xor_word[of s b off d]
    by (simp add: sliced64_def sliced64_absorb_8_def)
next
  fix s b off assume "rep_sliced64 s b" "8 dvd off" "off + 8 \<le> (40::nat)"
  then show "snp_squeeze_8 (sliced64 le) s off = get_at b off 8"
    using sliced64_get_word[of s b off] by (simp add: sliced64_def sliced64_squeeze_8_def)
qed (simp_all add: sliced64_def sliced64_init_def sliced64_free_def rep_sliced64_init
    sliced64_byte_defs c64.add_loop_rep c64.overwrite_loop_rep c64.zero_loop_rep
    c64.extract_loop_eq c64.extract_add_loop_eq c64.extract_overwrite_loop_rep
    rep_sliced64_permute sliced64_separator_rep sliced64_pad_rep sliced64_absorb_16_rep
    sliced64_squeeze_16_eq sliced64_encrypt_8_rep sliced64_encrypt_16_rep
    sliced64_encrypt_partial_rep[unfolded sliced64_byte_defs] sliced64_decrypt_8_rep
    sliced64_decrypt_16_rep, simp_all add: rep_sliced64_def table_ok_def sliced64_encrypt_partial_rep)

end
