(* ===== verification/Aead_Properties.thy ===== *)
theory Aead_Properties
  imports Aead_Inc Snp_Direct_Xor Snp_Sliced64
begin

text \<open>
  The properties of authenticated encryption, on the backends of the library.  The theorems of the
  modes hold in the locale \<open>snp_laws\<close>; here they are read off at the word backend, in either
  byte order, and at the others.
\<close>

text \<open>A key and a nonce for the witnesses.\<close>

definition sample_key :: bytes where
  "sample_key = [0x00, 0x01, 0x02, 0x03, 0x04, 0x05, 0x06, 0x07,
     0x08, 0x09, 0x0A, 0x0B, 0x0C, 0x0D, 0x0E, 0x0F]"

definition sample_key_80pq :: bytes where
  "sample_key_80pq = sample_key @ [0x10, 0x11, 0x12, 0x13]"

lemma length_sample [simp]: "length sample_key = 16" "length sample_key_80pq = 20"
  by (simp_all add: sample_key_def sample_key_80pq_def)

text \<open>What decryption returns, from the construction.\<close>

lemma decrypt_result_cases:
  assumes "0 < R" "R \<le> 40"
    and "dec = (if length c < 16 then (-1, None)
      else case spec_aead_decrypt iv R fr k npub ad c of
             Some m \<Rightarrow> (0, Some m) | None \<Rightarrow> (-1, Some (zeros (length c - 16))))"
    and "\<And>m. enc m = spec_aead_encrypt iv R fr k npub ad m"
  shows "((dec = ((0::int), Some m)) = (c = enc m)) \<and>
    ((\<forall>m. c \<noteq> enc m) \<longrightarrow> dec = (-1, if length c < 16 then None else Some (zeros (length c - 16))))"
  using assms spec_decrypt_iff[OF assms(1,2), of iv fr k npub ad c]
    length_spec_encrypt[OF assms(1,2), of iv fr k npub ad]
  by (cases "spec_aead_decrypt iv R fr k npub ad c") auto

lemmas aead_packet_specs =
  snp_laws.ascon128_encrypt_spec snp_laws.ascon128a_encrypt_spec snp_laws.ascon80pq_encrypt_spec
  snp_laws.ascon128_decrypt_spec snp_laws.ascon128a_decrypt_spec snp_laws.ascon80pq_decrypt_spec

section \<open>One packet\<close>

text \<open>The three modes, packet by packet and in sessions, as one record, so that a statement about the library
  is made once.\<close>

record 's aead_mode =
  mode_key_size :: nat
  mode_encrypt :: "bytes \<Rightarrow> bytes \<Rightarrow> bytes \<Rightarrow> bytes \<Rightarrow> bytes"
  mode_decrypt :: "bytes \<Rightarrow> bytes \<Rightarrow> bytes \<Rightarrow> bytes \<Rightarrow> int \<times> bytes option"
  mode_session :: "'s aead_state \<Rightarrow> bool"
  mode_start :: "'s aead_state \<Rightarrow> bytes \<Rightarrow> 's aead_state"
  mode_encrypt_block :: "'s aead_state \<Rightarrow> bytes \<Rightarrow> 's aead_state \<times> bytes"
  mode_encrypt_finalize :: "'s aead_state \<Rightarrow> 's aead_state \<times> bytes"
  mode_decrypt_block :: "'s aead_state \<Rightarrow> bytes \<Rightarrow> 's aead_state \<times> bytes"
  mode_decrypt_finalize :: "'s aead_state \<Rightarrow> bytes \<Rightarrow> 's aead_state \<times> int"

definition ascon128 :: "'s snp \<Rightarrow> 's aead_mode" where
  "ascon128 B = \<lparr> mode_key_size = 16,
     mode_encrypt = ascon128_aead_encrypt B, mode_decrypt = ascon128_aead_decrypt B,
     mode_session = ascon128_session B, mode_start = ascon128_aead_start B,
     mode_encrypt_block = ascon128_aead_encrypt_block B, mode_encrypt_finalize = ascon128_aead_encrypt_finalize B,
     mode_decrypt_block = ascon128_aead_decrypt_block B, mode_decrypt_finalize = ascon128_aead_decrypt_finalize B \<rparr>"

definition ascon128a :: "'s snp \<Rightarrow> 's aead_mode" where
  "ascon128a B = \<lparr> mode_key_size = 16,
     mode_encrypt = ascon128a_aead_encrypt B, mode_decrypt = ascon128a_aead_decrypt B,
     mode_session = ascon128a_session B, mode_start = ascon128a_aead_start B,
     mode_encrypt_block = ascon128a_aead_encrypt_block B, mode_encrypt_finalize = ascon128a_aead_encrypt_finalize B,
     mode_decrypt_block = ascon128a_aead_decrypt_block B, mode_decrypt_finalize = ascon128a_aead_decrypt_finalize B \<rparr>"

definition ascon80pq :: "'s snp \<Rightarrow> 's aead_mode" where
  "ascon80pq B = \<lparr> mode_key_size = 20,
     mode_encrypt = ascon80pq_aead_encrypt B, mode_decrypt = ascon80pq_aead_decrypt B,
     mode_session = ascon80pq_session B, mode_start = ascon80pq_aead_start B,
     mode_encrypt_block = ascon80pq_aead_encrypt_block B, mode_encrypt_finalize = ascon80pq_aead_encrypt_finalize B,
     mode_decrypt_block = ascon80pq_aead_decrypt_block B, mode_decrypt_finalize = ascon80pq_aead_decrypt_finalize B \<rparr>"

lemmas aead_modes = ascon128_def ascon128a_def ascon80pq_def

text \<open>What the three have in common, on any backend that keeps the contract.\<close>

context snp_laws
begin

lemma mode_packet:
  assumes "M \<in> {ascon128 B, ascon128a B, ascon80pq B}" "length k = mode_key_size M" "length npub = 16"
  shows "((mode_decrypt M c ad npub k = (0, Some m)) = (c = mode_encrypt M m ad npub k)) \<and>
    ((\<forall>m. c \<noteq> mode_encrypt M m ad npub k) \<longrightarrow>
       mode_decrypt M c ad npub k = (-1, if length c < 16 then None else Some (zeros (length c - 16))))"
proof -
  consider "M = ascon128 B" | "M = ascon128a B" | "M = ascon80pq B" using assms(1) by auto
  then show ?thesis
  proof cases
    case 1
    with assms have len: "length k = 16" "length npub = 16" by (simp_all add: aead_modes)
    show ?thesis unfolding 1 aead_modes aead_mode.simps
      by (rule decrypt_result_cases[OF _ _ ascon128_decrypt_spec[OF len] ascon128_encrypt_spec[OF len]]) simp_all
  next
    case 2
    with assms have len: "length k = 16" "length npub = 16" by (simp_all add: aead_modes)
    show ?thesis unfolding 2 aead_modes aead_mode.simps
      by (rule decrypt_result_cases[OF _ _ ascon128a_decrypt_spec[OF len] ascon128a_encrypt_spec[OF len]]) simp_all
  next
    case 3
    with assms have len: "length k = 20" "length npub = 16" by (simp_all add: aead_modes)
    show ?thesis unfolding 3 aead_modes aead_mode.simps
      by (rule decrypt_result_cases[OF _ _ ascon80pq_decrypt_spec[OF len] ascon80pq_encrypt_spec[OF len]]) simp_all
  qed
qed

lemma mode_session_inv:
  assumes "M \<in> {ascon128 B, ascon128a B, ascon80pq B}" "mode_session M st"
  shows "\<exists>b. rep (aead_perm st) b \<and> length (aead_key st) = mode_key_size M \<and> length (aead_nonce st) = 16"
  using assms ascon128_session_inv ascon128a_session_inv ascon80pq_session_inv by (auto simp: aead_modes)

lemma mode_encrypt_pieces:
  assumes "M \<in> {ascon128 B, ascon128a B, ascon80pq B}" "mode_session M st"
    and "feed (mode_encrypt_block M) (mode_start M st ad) ms = (st2, c)"
    and "mode_encrypt_finalize M st2 = (st3, tag)"
  shows "c @ tag = mode_encrypt M (concat ms) ad (aead_nonce st) (aead_key st) \<and>
    aead_key st3 = aead_key st \<and> aead_nonce st3 = ascon_aead_increment_nonce (aead_nonce st)"
proof -
  obtain b where b: "rep (aead_perm st) b" "length (aead_key st) = mode_key_size M" "length (aead_nonce st) = 16"
    using mode_session_inv[OF assms(1,2)] by blast
  consider "M = ascon128 B" | "M = ascon128a B" | "M = ascon80pq B" using assms(1) by auto
  then show ?thesis
    by cases (use b assms(3,4) ascon128_incremental_encrypt[of st b ad ms st2 c st3 tag]
        ascon128a_incremental_encrypt[of st b ad ms st2 c st3 tag]
        ascon80pq_incremental_encrypt[of st b ad ms st2 c st3 tag]
      in \<open>simp_all add: aead_modes ascon128_encrypt_spec ascon128a_encrypt_spec ascon80pq_encrypt_spec
        ascon128_decrypt_spec ascon128a_decrypt_spec ascon80pq_decrypt_spec\<close>)
qed

lemma mode_decrypt_pieces:
  assumes "M \<in> {ascon128 B, ascon128a B, ascon80pq B}" "mode_session M st" "length tag = 16"
    and "feed (mode_decrypt_block M) (mode_start M st ad) cs = (st2, m)"
    and "mode_decrypt_finalize M st2 tag = (st3, result)"
  shows "result = fst (mode_decrypt M (concat cs @ tag) ad (aead_nonce st) (aead_key st)) \<and>
    (result = 0 \<longrightarrow> snd (mode_decrypt M (concat cs @ tag) ad (aead_nonce st) (aead_key st)) = Some m) \<and>
    aead_nonce st3 = ascon_aead_increment_nonce (aead_nonce st)"
proof -
  obtain b where b: "rep (aead_perm st) b" "length (aead_key st) = mode_key_size M" "length (aead_nonce st) = 16"
    using mode_session_inv[OF assms(1,2)] by blast
  consider "M = ascon128 B" | "M = ascon128a B" | "M = ascon80pq B" using assms(1) by auto
  then show ?thesis
    by cases (use b assms(3-5) ascon128_incremental_decrypt[of st b ad cs st2 m tag st3 result]
        ascon128a_incremental_decrypt[of st b ad cs st2 m tag st3 result]
        ascon80pq_incremental_decrypt[of st b ad cs st2 m tag st3 result]
      in \<open>auto simp: aead_modes ascon128_encrypt_spec ascon128a_encrypt_spec ascon80pq_encrypt_spec
        ascon128_decrypt_spec ascon128a_decrypt_spec ascon80pq_decrypt_spec\<close>)
qed

end

text \<open>Property C1. In ASCON-128, ASCON-128a and ASCON-80pq decryption returns 0 and a plaintext exactly when the
  ciphertext is the encryption of that plaintext under the same key, nonce and associated data; in
  particular it inverts encryption.  On every other input it returns -1, with the output buffer
  untouched when the input is shorter than a tag and zeroed otherwise.\<close>

theorem aead_decrypt_accepts:
  assumes "M \<in> {ascon128 (sliced64 le), ascon128a (sliced64 le), ascon80pq (sliced64 le)}"
    and "length k = mode_key_size M" "length npub = 16"
  shows "((mode_decrypt M c ad npub k = (0, Some m)) = (c = mode_encrypt M m ad npub k)) \<and>
    ((\<forall>m. c \<noteq> mode_encrypt M m ad npub k) \<longrightarrow>
       mode_decrypt M c ad npub k = (-1, if length c < 16 then None else Some (zeros (length c - 16))))"
  by (rule snp_laws.mode_packet[OF sliced64.snp_laws_axioms assms])

lemma aead_decrypt_accepts_witness:
  "ascon80pq_aead_decrypt (sliced64 True)
     (ascon80pq_aead_encrypt (sliced64 True) [0x61, 0x62, 0x63] [0x64] sample_key sample_key_80pq)
     [0x64] sample_key sample_key_80pq = (0, Some [0x61, 0x62, 0x63])"
  using aead_decrypt_accepts[of "ascon80pq (sliced64 True)" True sample_key_80pq sample_key
      "ascon80pq_aead_encrypt (sliced64 True) [0x61, 0x62, 0x63] [0x64] sample_key sample_key_80pq"
      "[0x64]" "[0x61, 0x62, 0x63]"]
  by (simp add: aead_modes)

section \<open>A packet in pieces\<close>

text \<open>Property C5. From every state a caller can reach, a packet of any of the three modes that is started and fed
  to \<open>encrypt_block\<close> in pieces of any sizes gives, with the tag of \<open>encrypt_finalize\<close>, the ciphertext
  that the one-shot function computes for the whole plaintext under the key and nonce of the
  state, and leaves the nonce incremented for the next packet.\<close>

theorem aead_incremental_encryption:
  assumes "M \<in> {ascon128 (sliced64 le), ascon128a (sliced64 le), ascon80pq (sliced64 le)}"
    and "mode_session M st"
    and "feed (mode_encrypt_block M) (mode_start M st ad) ms = (st2, c)"
    and "mode_encrypt_finalize M st2 = (st3, tag)"
  shows "c @ tag = mode_encrypt M (concat ms) ad (aead_nonce st) (aead_key st) \<and>
    aead_key st3 = aead_key st \<and> aead_nonce st3 = ascon_aead_increment_nonce (aead_nonce st)"
  by (rule snp_laws.mode_encrypt_pieces[OF sliced64.snp_laws_axioms assms])

lemma aead_incremental_encryption_witness:
  "\<exists>st2 c st3 tag.
     feed (ascon128a_aead_encrypt_block (sliced64 True))
       (ascon128a_aead_start (sliced64 True) (ascon128a_aead_init (sliced64 True) (Some sample_key) (Some sample_key)) [1])
       [[2, 3], [], [4]] = (st2, c) \<and>
     ascon128a_aead_encrypt_finalize (sliced64 True) st2 = (st3, tag) \<and>
     c @ tag = ascon128a_aead_encrypt (sliced64 True) [2, 3, 4] [1] sample_key sample_key \<and>
     aead_nonce st3 = ascon_aead_increment_nonce sample_key"
proof -
  let ?st = "ascon128a_aead_init (sliced64 True) (Some sample_key) (Some sample_key)"
  let ?M = "ascon128a (sliced64 True)"
  have s: "mode_session ?M ?st"
    by (simp add: aead_modes ascon128a_session_init)
  have f: "aead_nonce ?st = sample_key" "aead_key ?st = sample_key"
    by (simp_all add: ascon128a_aead_init_def ascon128a_aead_reinit_def)
  obtain st2 c where 1: "feed (mode_encrypt_block ?M) (mode_start ?M ?st [1]) [[2, 3], [], [4]] = (st2, c)"
    by (metis prod.exhaust)
  obtain st3 tag where 2: "mode_encrypt_finalize ?M st2 = (st3, tag)"
    by (metis prod.exhaust)
  from aead_incremental_encryption[OF _ s 1 2] 1 2 f show ?thesis by (auto simp: aead_modes)
qed

text \<open>Property C6. From every state a caller can reach, a packet of any of the three modes whose ciphertext is fed
  to \<open>decrypt_block\<close> in pieces of any sizes is accepted by \<open>decrypt_finalize\<close>, with result 0, exactly
  when the one-shot function accepts the whole ciphertext, and the pieces of plaintext are then the
  plaintext; otherwise the result is -1.\<close>

theorem aead_incremental_decryption:
  assumes "M \<in> {ascon128 (sliced64 le), ascon128a (sliced64 le), ascon80pq (sliced64 le)}"
    and "mode_session M st" "length tag = 16"
    and "feed (mode_decrypt_block M) (mode_start M st ad) cs = (st2, m)"
    and "mode_decrypt_finalize M st2 tag = (st3, result)"
  shows "result = fst (mode_decrypt M (concat cs @ tag) ad (aead_nonce st) (aead_key st)) \<and>
    (result = 0 \<longrightarrow> snd (mode_decrypt M (concat cs @ tag) ad (aead_nonce st) (aead_key st)) = Some m) \<and>
    aead_nonce st3 = ascon_aead_increment_nonce (aead_nonce st)"
  by (rule snp_laws.mode_decrypt_pieces[OF sliced64.snp_laws_axioms assms])

lemma aead_incremental_decryption_witness:
  "\<exists>st2 m st3 result.
     feed (ascon128_aead_decrypt_block (sliced64 True))
       (ascon128_aead_start (sliced64 True) (ascon128_aead_init (sliced64 True) (Some sample_key) (Some sample_key)) [1])
       [[2, 3], [4]] = (st2, m) \<and>
     ascon128_aead_decrypt_finalize (sliced64 True) st2 sample_key = (st3, result) \<and>
     result = fst (ascon128_aead_decrypt (sliced64 True) ([2, 3, 4] @ sample_key) [1] sample_key sample_key)"
proof -
  let ?st = "ascon128_aead_init (sliced64 True) (Some sample_key) (Some sample_key)"
  let ?M = "ascon128 (sliced64 True)"
  have s: "mode_session ?M ?st"
    by (simp add: aead_modes ascon128_session_init)
  have f: "aead_nonce ?st = sample_key" "aead_key ?st = sample_key"
    by (simp_all add: ascon128_aead_init_def ascon128_aead_reinit_def)
  obtain st2 m where 1: "feed (mode_decrypt_block ?M) (mode_start ?M ?st [1]) [[2, 3], [4]] = (st2, m)"
    by (metis prod.exhaust)
  obtain st3 result where 2: "mode_decrypt_finalize ?M st2 sample_key = (st3, result)"
    by (metis prod.exhaust)
  from aead_incremental_decryption[OF _ s _ 1 2] 1 2 f show ?thesis by (auto simp: aead_modes)
qed

section \<open>The nonce\<close>

text \<open>\<open>ascon_aead_increment_nonce\<close> adds one to the nonce, read as a 128-bit big-endian
  number, modulo \<open>2^128\<close>.\<close>

theorem increment_nonce_value:
  assumes "length npub = 16"
  shows "be_value (ascon_aead_increment_nonce npub) = (be_value npub + 1) mod 2 ^ 128"
proof -
  have "(256::nat) ^ 16 = 2 ^ 128" by simp
  with increment_loop_value[OF assms, of 1] show ?thesis
    by (simp add: ascon_aead_increment_nonce_def)
qed

lemma increment_nonce_value_witness:
  "be_value (ascon_aead_increment_nonce [0xFF, 0xFF, 0xFF, 0xFF, 0xFF, 0xFF, 0xFF, 0xFF, 0xFF, 0xFF, 0xFF, 0xFF, 0xFF, 0xFF,
      0xFF, 0xFF]) = 0"
proof -
  have "be_value [0xFF, 0xFF, 0xFF, 0xFF, 0xFF, 0xFF, 0xFF, 0xFF, 0xFF, 0xFF, 0xFF, 0xFF, 0xFF, 0xFF,
      0xFF, 0xFF] + 1 = 2 ^ 128"
    by (simp add: be_value_def)
  with increment_nonce_value[of "[0xFF, 0xFF, 0xFF, 0xFF, 0xFF, 0xFF, 0xFF, 0xFF, 0xFF, 0xFF, 0xFF, 0xFF, 0xFF, 0xFF,
      0xFF, 0xFF]"]
  show ?thesis by simp
qed

section \<open>The tag comparison\<close>

text \<open>\<open>ascon_aead_check_tag\<close> returns 0 and leaves the plaintext alone when the first
  \<open>size\<close> bytes of the tags agree; when they differ anywhere it returns -1 and every byte of the
  plaintext has become zero.\<close>

theorem check_tag_result:
  assumes "n \<le> length tag1" "n \<le> length tag2"
  shows "ascon_aead_check_tag plaintext tag1 tag2 n =
     (if take n tag1 = take n tag2 then (0, plaintext) else (-1, zeros (length plaintext)))"
  using assms by (rule check_tag_eq)

lemma check_tag_result_witness:
  "ascon_aead_check_tag [7, 8] [1, 2, 3] [1, 2, 4] 3 = (-1, [0, 0]) \<and>
   ascon_aead_check_tag [7, 8] [1, 2, 3] [1, 2, 4] 2 = (0, [7, 8])"
  using check_tag_result[of 3 "[1, 2, 3]" "[1, 2, 4]" "[7, 8]"]
    check_tag_result[of 2 "[1, 2, 3]" "[1, 2, 4]" "[7, 8]"]
  by (simp add: zeros_def numeral_eq_Suc)

end
