(* ===== verification/Ascon_C32.thy ===== *)
theory Ascon_C32
  imports Snp
begin

text \<open>
  \<open>core/ascon-c32.c\<close> and the bit-slicing macros of \<open>core/ascon-sliced32.h\<close>: each 64-bit word of the
  state is kept as two 32-bit words, its even bits and its odd bits, so that a 64-bit rotation is
  two 32-bit rotations.  The theory shows that separating and combining are inverse
  rearrangements of bits, and that the 32-bit permutation is the 64-bit one on the separated words.
\<close>

section \<open>Separating and combining\<close>

definition ascon_bit_permute_step :: "u32 \<Rightarrow> u32 \<Rightarrow> nat \<Rightarrow> u32" where
  "ascon_bit_permute_step y msk shift =
     (let t = (drop_bit shift y XOR y) AND msk
      in (y XOR t) XOR push_bit shift t)"

definition ascon_separate :: "u32 \<Rightarrow> u32" where
  "ascon_separate x =
     (let x = ascon_bit_permute_step x 0x22222222 1;
          x = ascon_bit_permute_step x 0x0c0c0c0c 2;
          x = ascon_bit_permute_step x 0x00f000f0 4
      in ascon_bit_permute_step x 0x0000ff00 8)"

definition ascon_combine :: "u32 \<Rightarrow> u32" where
  "ascon_combine x =
     (let x = ascon_bit_permute_step x 0x0000aaaa 15;
          x = ascon_bit_permute_step x 0x0000cccc 14;
          x = ascon_bit_permute_step x 0x0000f0f0 12
      in ascon_bit_permute_step x 0x0000ff00 8)"

text \<open>A step swaps the bits under the mask with the bits \<open>shift\<close> positions above; this is the
  position a bit of the result comes from.\<close>

definition step_source :: "u32 \<Rightarrow> nat \<Rightarrow> nat \<Rightarrow> nat" where
  "step_source msk shift i =
     (if bit msk i then i + shift
      else if shift \<le> i \<and> bit msk (i - shift) then i - shift
      else i)"

definition step_ok :: "u32 \<Rightarrow> nat \<Rightarrow> bool" where
  "step_ok msk shift \<longleftrightarrow>
     list_all (\<lambda>i. bit msk i \<longrightarrow> i + shift < 32 \<and> \<not> bit msk (i + shift)) [0..<32]"

lemma step_okD:
  "\<lbrakk>step_ok msk shift; bit msk i\<rbrakk> \<Longrightarrow> i + shift < 32 \<and> \<not> bit msk (i + shift)"
  using bit_imp_le_length[of msk i] by (auto simp: step_ok_def list_all_iff)

lemma bit_permute_step:
  assumes "step_ok msk shift" "i < 32"
  shows "bit (ascon_bit_permute_step y msk shift) i \<longleftrightarrow> bit y (step_source msk shift i)"
  using assms(2) step_okD[OF assms(1), of i] step_okD[OF assms(1), of "i - shift"]
  by (auto simp: ascon_bit_permute_step_def step_source_def Let_def bit_xor_iff bit_and_iff
      bit_drop_bit_eq bit_push_bit_iff add.commute)

lemma step_source_less: "\<lbrakk>step_ok msk shift; i < 32\<rbrakk> \<Longrightarrow> step_source msk shift i < 32"
  using step_okD[of msk shift i] by (auto simp: step_source_def)

lemma separate_steps:
  "step_ok 0x22222222 1" "step_ok 0x0c0c0c0c 2" "step_ok 0x00f000f0 4" "step_ok 0x0000ff00 8"
  "step_ok 0x0000aaaa 15" "step_ok 0x0000cccc 14" "step_ok 0x0000f0f0 12"
  by code_simp+

lemma separate_sources:
  "list_all (\<lambda>i. step_source 0x22222222 1 (step_source 0x0c0c0c0c 2
      (step_source 0x00f000f0 4 (step_source 0x0000ff00 8 i))) =
     (if i < 16 then 2 * i else 2 * (i - 16) + 1)) [0..<32]"
  by code_simp

lemma combine_sources:
  "list_all (\<lambda>i. step_source 0x0000aaaa 15 (step_source 0x0000cccc 14
      (step_source 0x0000f0f0 12 (step_source 0x0000ff00 8 i))) =
     (if even i then i div 2 else i div 2 + 16)) [0..<32]"
  by code_simp

lemma bit_separate:
  "i < 32 \<Longrightarrow> bit (ascon_separate x) i \<longleftrightarrow> bit x (if i < 16 then 2 * i else 2 * (i - 16) + 1)"
  using separate_sources
  by (simp add: ascon_separate_def Let_def bit_permute_step separate_steps step_source_less list_all_iff
    del: One_nat_def)

lemma bit_combine:
  "i < 32 \<Longrightarrow> bit (ascon_combine x) i \<longleftrightarrow> bit x (if even i then i div 2 else i div 2 + 16)"
  using combine_sources
  by (simp add: ascon_combine_def Let_def bit_permute_step separate_steps step_source_less list_all_iff
    del: One_nat_def)

lemma combine_separate [simp]: "ascon_combine (ascon_separate x) = x"
proof (rule bit_word_eqI)
  fix i assume "i < LENGTH(32)"
  then have "i < 32" "i div 2 < 16" by simp_all
  then show "bit (ascon_combine (ascon_separate x)) i = bit x i"
    by (cases "even i") (simp_all add: bit_combine bit_separate)
qed

lemma separate_xor: "ascon_separate (x XOR y) = ascon_separate x XOR ascon_separate y"
  by (rule bit_word_eqI) (simp add: bit_separate bit_xor_iff)

section \<open>Even and odd bits\<close>

lemma bit_even_odd:
  "bit (even_bits x) i \<longleftrightarrow> i < 32 \<and> bit x (2 * i)"
  "bit (odd_bits x) i \<longleftrightarrow> i < 32 \<and> bit x (2 * i + 1)"
  by (auto simp: even_bits_def odd_bits_def bit_horner_sum_bit_word_iff)

lemma slice_xor:
  "even_bits (x XOR y) = even_bits x XOR even_bits y"
  "odd_bits (x XOR y) = odd_bits x XOR odd_bits y"
  by (rule bit_word_eqI; simp add: bit_even_odd bit_xor_iff)+

lemma slice_and:
  "even_bits (x AND y) = even_bits x AND even_bits y"
  "odd_bits (x AND y) = odd_bits x AND odd_bits y"
  by (rule bit_word_eqI; simp add: bit_even_odd bit_and_iff)+

lemma slice_not:
  "even_bits (NOT x) = NOT (even_bits x)" "odd_bits (NOT x) = NOT (odd_bits x)"
  by (rule bit_word_eqI; simp add: bit_even_odd bit_not_iff)+

lemma double_mod: "(2 * a) mod 64 = 2 * (a mod 32)" for a :: nat
  by (metis mult_mod_right numeral_Bit0_eq_double mult_2)

lemma double_mod_Suc: "Suc (2 * a) mod 64 = Suc (2 * (a mod 32))" for a :: nat
proof -
  have "Suc (2 * a) mod 64 = Suc (2 * a mod 64)"
    using mod_Suc[of "2 * a" 64] by (auto simp: double_mod)
  then show ?thesis by (simp add: double_mod)
qed

lemma even_odd_positions:
  "(2 * i + 2 * k) mod 64 = 2 * ((i + k) mod 32)"
  "(2 * i + 1 + 2 * k) mod 64 = 2 * ((i + k) mod 32) + 1"
  "(2 * i + (2 * k + 1)) mod 64 = 2 * ((i + k) mod 32) + 1"
  "(2 * i + 1 + (2 * k + 1)) mod 64 = 2 * ((i + (k + 1)) mod 32)"
  for i k :: nat
  using double_mod[of "i + k"] double_mod_Suc[of "i + k"] double_mod[of "i + (k + 1)"]
  by (simp_all add: algebra_simps)

lemma bit_rotr_at:
  "bit (word_rotr n (w :: u64)) j \<longleftrightarrow> j < 64 \<and> bit w ((j + n) mod 64)"
  "bit (word_rotr n (v :: u32)) j \<longleftrightarrow> j < 32 \<and> bit v ((j + n) mod 32)"
  by (auto simp: bit_word_rotr_iff add.commute)

lemma slice_rotr_even:
  "even_bits (word_rotr (2 * k) x) = word_rotr k (even_bits x)"
  "odd_bits (word_rotr (2 * k) x) = word_rotr k (odd_bits x)"
  by (rule bit_word_eqI; simp only: bit_even_odd bit_rotr_at even_odd_positions; simp)+

lemma slice_rotr_odd:
  "even_bits (word_rotr (2 * k + 1) x) = word_rotr k (odd_bits x)"
  "odd_bits (word_rotr (2 * k + 1) x) = word_rotr (k + 1) (even_bits x)"
  by (rule bit_word_eqI; simp only: bit_even_odd bit_rotr_at even_odd_positions; simp)+

section \<open>The permutation in 32-bit words\<close>

text \<open>The state of the loop: for each word its even half and its odd half.\<close>

type_synonym halves = "u32 \<times> u32"
type_synonym regs32 = "halves \<times> halves \<times> halves \<times> halves \<times> halves"

definition RC_pair :: "u32 \<Rightarrow> u32 \<Rightarrow> u32 list" where
  "RC_pair rc1 rc2 = [NOT rc1, NOT rc2]"

definition RC32 :: "u32 list" where
  "RC32 = concat [RC_pair 12 12, RC_pair 9 12, RC_pair 12 9, RC_pair 9 9, RC_pair 6 12, RC_pair 3 12,
     RC_pair 6 9, RC_pair 3 9, RC_pair 12 6, RC_pair 9 6, RC_pair 12 3, RC_pair 9 3]"

definition ascon_sbox :: "u32 \<Rightarrow> u32 \<Rightarrow> u32 \<Rightarrow> u32 \<Rightarrow> u32 \<Rightarrow> u32 \<times> u32 \<times> u32 \<times> u32 \<times> u32" where
  "ascon_sbox x0 x1 x2 x3 x4 =
     (let x0 = x0 XOR x4; x4 = x4 XOR x3; x2 = x2 XOR x1;
          t0 = NOT x0; t1 = NOT x1; t2 = NOT x2; t3 = NOT x3; t4 = NOT x4;
          t0 = t0 AND x1; t1 = t1 AND x2; t2 = t2 AND x3; t3 = t3 AND x4; t4 = t4 AND x0;
          x0 = x0 XOR t1; x1 = x1 XOR t2; x2 = x2 XOR t3; x3 = x3 XOR t4; x4 = x4 XOR t0;
          x1 = x1 XOR x0; x0 = x0 XOR x4; x3 = x3 XOR x2
      in (x0, x1, x2, x3, x4))"

definition c32_linear :: "regs32 \<Rightarrow> regs32" where
  "c32_linear s = (case s of
     ((x0_e, x0_o), (x1_e, x1_o), (x2_e, x2_o), (x3_e, x3_o), (x4_e, x4_o)) \<Rightarrow>
     let t0 = x0_e XOR rightRotate x0_o 4; t1 = x0_o XOR rightRotate x0_e 5;
         x0_e = x0_e XOR rightRotate t1 9; x0_o = x0_o XOR rightRotate t0 10;
         t0 = x1_e XOR rightRotate x1_e 11; t1 = x1_o XOR rightRotate x1_o 11;
         x1_e = x1_e XOR rightRotate t1 19; x1_o = x1_o XOR rightRotate t0 20;
         t0 = x2_e XOR rightRotate x2_o 2; t1 = x2_o XOR rightRotate x2_e 3;
         x2_e = x2_e XOR t1; x2_o = x2_o XOR rightRotate t0 1;
         t0 = x3_e XOR rightRotate x3_o 3; t1 = x3_o XOR rightRotate x3_e 4;
         x3_e = x3_e XOR rightRotate t0 5; x3_o = x3_o XOR rightRotate t1 5;
         t0 = x4_e XOR rightRotate x4_e 17; t1 = x4_o XOR rightRotate x4_o 17;
         x4_e = x4_e XOR rightRotate t1 3; x4_o = x4_o XOR rightRotate t0 4
     in ((x0_e, x0_o), (x1_e, x1_o), (x2_e, x2_o), (x3_e, x3_o), (x4_e, x4_o)))"

definition c32_round :: "u32 \<Rightarrow> u32 \<Rightarrow> regs32 \<Rightarrow> regs32" where
  "c32_round rc0 rc1 s = (case s of
     ((x0_e, x0_o), (x1_e, x1_o), (x2_e, x2_o), (x3_e, x3_o), (x4_e, x4_o)) \<Rightarrow>
     let x2_e = x2_e XOR rc0; x2_o = x2_o XOR rc1;
         (x0_e, x1_e, x2_e, x3_e, x4_e) = ascon_sbox x0_e x1_e x2_e x3_e x4_e;
         (x0_o, x1_o, x2_o, x3_o, x4_o) = ascon_sbox x0_o x1_o x2_o x3_o x4_o
     in c32_linear ((x0_e, x0_o), (x1_e, x1_o), (x2_e, x2_o), (x3_e, x3_o), (x4_e, x4_o)))"

function c32_rounds :: "u8 \<Rightarrow> regs32 \<Rightarrow> regs32" where
  "c32_rounds first_round s =
     (if first_round < 12
      then c32_rounds (first_round + 1)
             (c32_round (RC32 ! (unat first_round * 2)) (RC32 ! (unat first_round * 2 + 1)) s)
      else s)"
  by pat_completeness auto
termination
  by (relation "measure (\<lambda>(r, s). 12 - unat r)")
    (auto simp: first_round_step word_less_nat_alt)

declare c32_rounds.simps [simp del]

text \<open>\<open>ascon_permute\<close> of \<open>core/ascon-c32.c\<close>, on the array \<open>W\<close> of the state.\<close>

definition ascon_permute_c32 :: "u32 list \<Rightarrow> u8 \<Rightarrow> u32 list" where
  "ascon_permute_c32 W first_round =
     (case c32_rounds first_round ((W ! 0, W ! 1), (W ! 2, W ! 3), (NOT (W ! 4), NOT (W ! 5)),
             (W ! 6, W ! 7), (W ! 8, W ! 9)) of
        ((x0_e, x0_o), (x1_e, x1_o), (x2_e, x2_o), (x3_e, x3_o), (x4_e, x4_o)) \<Rightarrow>
        [x0_e, x0_o, x1_e, x1_o, NOT x2_e, NOT x2_o, x3_e, x3_o, x4_e, x4_o])"

section \<open>The 32-bit permutation is the 64-bit one, bit-sliced\<close>

definition slice_word :: "u64 \<Rightarrow> halves" where
  "slice_word x = (even_bits x, odd_bits x)"

definition slice_regs :: "regs \<Rightarrow> regs32" where
  "slice_regs s = (case s of (x0, x1, x2, x3, x4) \<Rightarrow>
     (slice_word x0, slice_word x1, slice_word x2, slice_word x3, slice_word x4))"

lemma RC32_slice:
  "r < 12 \<Longrightarrow> (RC32 ! (r * 2), RC32 ! (r * 2 + 1)) = slice_word (RC ! r)"
proof -
  have "list_all (\<lambda>r. (RC32 ! (r * 2), RC32 ! (r * 2 + 1)) = slice_word (RC ! r)) [0..<12]"
    by code_simp
  then show "r < 12 \<Longrightarrow> (RC32 ! (r * 2), RC32 ! (r * 2 + 1)) = slice_word (RC ! r)"
    by (simp add: list_all_iff)
qed

lemma slice_sbox:
  assumes "c64_sbox (x0, x1, x2, x3, x4) = (y0, y1, y2, y3, y4)"
  shows "ascon_sbox (even_bits x0) (even_bits x1) (even_bits x2) (even_bits x3) (even_bits x4) =
      (even_bits y0, even_bits y1, even_bits y2, even_bits y3, even_bits y4)"
    "ascon_sbox (odd_bits x0) (odd_bits x1) (odd_bits x2) (odd_bits x3) (odd_bits x4) =
      (odd_bits y0, odd_bits y1, odd_bits y2, odd_bits y3, odd_bits y4)"
  using assms
  by (auto simp: c64_sbox_def ascon_sbox_def Let_def slice_xor slice_and slice_not)

lemmas slice_rotr = slice_rotr_even[of 14] slice_rotr_even[of 3] slice_rotr_even[of 5]
  slice_rotr_odd[of 9] slice_rotr_odd[of 30] slice_rotr_odd[of 19] slice_rotr_odd[of 0]
  slice_rotr_odd[of 8] slice_rotr_odd[of 3] slice_rotr_odd[of 20]

lemma rotr_0: "word_rotr 0 (x :: u32) = x"
  by (rule bit_word_eqI) (simp add: bit_rotr_at)

lemma slice_linear: "c32_linear (slice_regs s) = slice_regs (c64_linear s)"
  using slice_rotr
  by (simp add: c64_linear_def c32_linear_def slice_regs_def slice_word_def Let_def slice_xor
      rotate_64 rotate_32 word_rotr_xor word_rotr_word_rotr_eq rotr_0 ac_simps
      flip: numeral_3_eq_3 split: prod.splits)

lemma slice_round:
  assumes "(rc0, rc1) = slice_word rc"
  shows "c32_round rc0 rc1 (slice_regs s) = slice_regs (c64_round rc s)"
proof -
  obtain x0 x1 x2 x3 x4 where s: "s = (x0, x1, x2, x3, x4)" by (metis prod.exhaust)
  obtain y0 y1 y2 y3 y4 where y: "c64_sbox (x0, x1, x2 XOR rc, x3, x4) = (y0, y1, y2, y3, y4)"
    by (metis prod.exhaust)
  show ?thesis
    using assms slice_sbox[OF y] slice_linear[of "(y0, y1, y2, y3, y4)"] y
    by (simp add: s c32_round_def c64_round_def slice_regs_def slice_word_def slice_xor)
qed

lemma slice_rounds: "c32_rounds r (slice_regs s) = slice_regs (c64_rounds r s)"
proof (induction r s rule: c64_rounds.induct)
  case (1 r s)
  show ?case
  proof (cases "r < 12")
    case True
    then have "unat r < 12" by (simp add: word_less_nat_alt)
    from slice_round[OF RC32_slice[OF this], of s] 1 True show ?thesis
      by (simp add: c32_rounds.simps[of r] c64_rounds.simps[of r])
  qed (simp add: c32_rounds.simps[of r] c64_rounds.simps[of r])
qed

definition slice_words :: "u64 list \<Rightarrow> u32 list" where
  "slice_words S = concat (map (\<lambda>x. [even_bits x, odd_bits x]) S)"

lemma permute_c32_slice:
  assumes "length S = 5"
  shows "ascon_permute_c32 (slice_words S) r = slice_words (ascon_permute_c64 S r)"
proof -
  obtain x0 x1 x2 x3 x4 where S: "S = [x0, x1, x2, x3, x4]" using list5_cases[OF assms] by blast
  obtain y0 y1 y2 y3 y4 where y: "c64_rounds r (x0, x1, NOT x2, x3, x4) = (y0, y1, y2, y3, y4)"
    by (metis prod.exhaust)
  show ?thesis
    using slice_rounds[of r "(x0, x1, NOT x2, x3, x4)"] y
    by (simp add: S ascon_permute_c32_def ascon_permute_c64_def c64_permute_def slice_words_def
        slice_regs_def slice_word_def slice_not numeral_nat)
qed

end
