(* ===== verification/Snp_Sliced32.thy ===== *)
theory Snp_Sliced32
  imports Ascon_C32 Snp_Sliced64
begin

text \<open>
  \<open>core/ascon-sliced32.c\<close>, \<open>core/ascon-sliced32.h\<close> and the \<open>SLICED32\<close> branch of
  \<open>core/ascon-util-snp.h\<close>: the backend for 32-bit machines, on ten words that hold the even and
  the odd bits of the five 64-bit words.  Its byte functions work in three phases, a partial
  leading word, whole words and a partial trailing word.  The backend is an interpretation of
  the same contract as the others.
\<close>

section \<open>Macros on one word of the state\<close>

definition even_half :: "u32 \<Rightarrow> u32 \<Rightarrow> u32" where
  "even_half high low = push_bit 16 high OR (low AND 0x0000FFFF)"

definition odd_half :: "u32 \<Rightarrow> u32 \<Rightarrow> u32" where
  "odd_half high low = (high AND 0xFFFF0000) OR drop_bit 16 low"

definition high_half :: "u32 \<Rightarrow> u32 \<Rightarrow> u32" where
  "high_half w0 w1 = drop_bit 16 w0 OR (w1 AND 0xFFFF0000)"

definition low_half :: "u32 \<Rightarrow> u32 \<Rightarrow> u32" where
  "low_half w0 w1 = (w0 AND 0x0000FFFF) OR push_bit 16 w1"

definition ascon_set_sliced :: "u32 list \<Rightarrow> bytes \<Rightarrow> nat \<Rightarrow> u32 list" where
  "ascon_set_sliced W data off =
     (let high = ascon_separate (be_load_word32 data);
          low = ascon_separate (be_load_word32 (drop 4 data))
      in W[off * 2 := even_half high low, off * 2 + 1 := odd_half high low])"

definition ascon_set_word64 :: "u32 list \<Rightarrow> u64 \<Rightarrow> nat \<Rightarrow> u32 list" where
  "ascon_set_word64 W val off =
     (let high = ascon_separate (ucast (drop_bit 32 val));
          low = ascon_separate (ucast val)
      in W[off * 2 := even_half high low, off * 2 + 1 := odd_half high low])"

definition ascon_absorb_sliced :: "u32 list \<Rightarrow> bytes \<Rightarrow> nat \<Rightarrow> u32 list" where
  "ascon_absorb_sliced W data off =
     (let high = ascon_separate (be_load_word32 data);
          low = ascon_separate (be_load_word32 (drop 4 data))
      in W[off * 2 := W ! (off * 2) XOR even_half high low,
           off * 2 + 1 := W ! (off * 2 + 1) XOR odd_half high low])"

definition ascon_absorb_word64 :: "u32 list \<Rightarrow> u64 \<Rightarrow> nat \<Rightarrow> u32 list" where
  "ascon_absorb_word64 W val off =
     (let high = ascon_separate (ucast (drop_bit 32 val));
          low = ascon_separate (ucast val)
      in W[off * 2 := W ! (off * 2) XOR even_half high low,
           off * 2 + 1 := W ! (off * 2 + 1) XOR odd_half high low])"

definition ascon_absorb32_low_sliced :: "u32 list \<Rightarrow> bytes \<Rightarrow> nat \<Rightarrow> u32 list" where
  "ascon_absorb32_low_sliced W data off =
     (let low = ascon_separate (be_load_word32 data)
      in W[off * 2 := W ! (off * 2) XOR (low AND 0x0000FFFF),
           off * 2 + 1 := W ! (off * 2 + 1) XOR drop_bit 16 low])"

definition ascon_absorb32_high_sliced :: "u32 list \<Rightarrow> bytes \<Rightarrow> nat \<Rightarrow> u32 list" where
  "ascon_absorb32_high_sliced W data off =
     (let high = ascon_separate (be_load_word32 data)
      in W[off * 2 := W ! (off * 2) XOR push_bit 16 high,
           off * 2 + 1 := W ! (off * 2 + 1) XOR (high AND 0xFFFF0000)])"

definition ascon_squeeze_sliced :: "u32 list \<Rightarrow> nat \<Rightarrow> bytes" where
  "ascon_squeeze_sliced W off =
     (let high = ascon_combine (high_half (W ! (off * 2)) (W ! (off * 2 + 1)));
          low = ascon_combine (low_half (W ! (off * 2)) (W ! (off * 2 + 1)))
      in be_store_word32 high @ be_store_word32 low)"

definition ascon_squeeze_word64 :: "u32 list \<Rightarrow> nat \<Rightarrow> u64" where
  "ascon_squeeze_word64 W off =
     (let high = ascon_combine (high_half (W ! (off * 2)) (W ! (off * 2 + 1)));
          low = ascon_combine (low_half (W ! (off * 2)) (W ! (off * 2 + 1)))
      in push_bit 32 (ucast high) OR ucast low)"

definition ascon_encrypt_sliced :: "u32 list \<Rightarrow> bytes \<Rightarrow> nat \<Rightarrow> u32 list \<times> bytes" where
  "ascon_encrypt_sliced W m off =
     (let high = ascon_separate (be_load_word32 m);
          low = ascon_separate (be_load_word32 (drop 4 m));
          W = W[off * 2 := W ! (off * 2) XOR even_half high low,
                off * 2 + 1 := W ! (off * 2 + 1) XOR odd_half high low];
          high = ascon_combine (high_half (W ! (off * 2)) (W ! (off * 2 + 1)));
          low = ascon_combine (low_half (W ! (off * 2)) (W ! (off * 2 + 1)))
      in (W, be_store_word32 high @ be_store_word32 low))"

definition ascon_decrypt_sliced :: "u32 list \<Rightarrow> bytes \<Rightarrow> nat \<Rightarrow> u32 list \<times> bytes" where
  "ascon_decrypt_sliced W c off =
     (let high = ascon_separate (be_load_word32 c);
          low = ascon_separate (be_load_word32 (drop 4 c));
          high2 = high XOR high_half (W ! (off * 2)) (W ! (off * 2 + 1));
          low2 = low XOR low_half (W ! (off * 2)) (W ! (off * 2 + 1));
          W = W[off * 2 := even_half high low, off * 2 + 1 := odd_half high low]
      in (W, be_store_word32 (ascon_combine high2) @ be_store_word32 (ascon_combine low2)))"

definition ascon_decrypt_sliced_no_insert :: "u32 list \<Rightarrow> bytes \<Rightarrow> nat \<Rightarrow> bytes" where
  "ascon_decrypt_sliced_no_insert W c off =
     (let high = ascon_separate (be_load_word32 c);
          low = ascon_separate (be_load_word32 (drop 4 c));
          high = high XOR high_half (W ! (off * 2)) (W ! (off * 2 + 1));
          low = low XOR low_half (W ! (off * 2)) (W ! (off * 2 + 1))
      in be_store_word32 (ascon_combine high) @ be_store_word32 (ascon_combine low))"

section \<open>The macros on the 64-bit words\<close>

lemma mask_halves: "(0x0000FFFF :: u32) = mask 16" "(0xFFFF0000 :: u32) = NOT (mask 16)"
  by (simp_all add: mask_eq_exp_minus_1)

lemma bit_halves:
  "bit (even_half high low) i \<longleftrightarrow> i < 32 \<and> (if i < 16 then bit low i else bit high (i - 16))"
  "bit (odd_half high low) i \<longleftrightarrow> i < 32 \<and> (if i < 16 then bit low (i + 16) else bit high i)"
  "bit (high_half w0 w1) i \<longleftrightarrow> i < 32 \<and> (if i < 16 then bit w0 (i + 16) else bit w1 i)"
  "bit (low_half w0 w1) i \<longleftrightarrow> i < 32 \<and> (if i < 16 then bit w0 i else bit w1 (i - 16))"
  by (auto simp: even_half_def odd_half_def high_half_def low_half_def mask_halves word_bit_simps
      bit_mask_iff bit_not_iff add.commute dest: bit_imp_le_length)

lemma bit_ucast_halves:
  fixes x :: u64
  shows "bit (ucast (drop_bit 32 x) :: u32) j \<longleftrightarrow> j < 32 \<and> bit x (32 + j)"
    "bit (ucast x :: u32) j \<longleftrightarrow> j < 32 \<and> bit x j"
  by (simp_all add: bit_ucast_iff bit_drop_bit_eq)

lemma separate_word:
  "even_half (ascon_separate (ucast (drop_bit 32 x))) (ascon_separate (ucast x)) = even_bits x"
  "odd_half (ascon_separate (ucast (drop_bit 32 x))) (ascon_separate (ucast x)) = odd_bits x"
proof -
  have *: "\<not> i < 16 \<Longrightarrow> 32 + 2 * (i - 16) = 2 * i" for i :: nat by simp
  show "even_half (ascon_separate (ucast (drop_bit 32 x))) (ascon_separate (ucast x)) = even_bits x"
    "odd_half (ascon_separate (ucast (drop_bit 32 x))) (ascon_separate (ucast x)) = odd_bits x"
    by (rule bit_word_eqI; simp only: bit_halves bit_even_odd;
        auto simp: bit_separate bit_ucast_halves bit_drop_bit_eq *)+
qed

lemma combine_word:
  "ascon_combine (high_half (even_bits x) (odd_bits x)) = ucast (drop_bit 32 x)"
  "ascon_combine (low_half (even_bits x) (odd_bits x)) = ucast x"
proof -
  have "bit (ascon_combine (high_half (even_bits x) (odd_bits x))) n = bit x (32 + n) \<and>
    bit (ascon_combine (low_half (even_bits x) (odd_bits x))) n = bit x n" if n: "n < 32" for n
  proof (cases "even n")
    case True
    then obtain k where "n = 2 * k" by (rule evenE)
    with n show ?thesis by (simp add: bit_combine bit_halves bit_even_odd distrib_left add.commute)
  next
    case False
    then obtain k where "n = 2 * k + 1" by (rule oddE)
    with n show ?thesis by (simp add: bit_combine bit_halves bit_even_odd distrib_left add.commute)
  qed
  then show "ascon_combine (high_half (even_bits x) (odd_bits x)) = ucast (drop_bit 32 x)"
    "ascon_combine (low_half (even_bits x) (odd_bits x)) = ucast x"
    by (auto intro!: bit_word_eqI simp: bit_ucast_halves bit_drop_bit_eq)
qed

lemma combine_xor: "ascon_combine (x XOR y) = ascon_combine x XOR ascon_combine y"
  by (rule bit_word_eqI) (simp add: bit_combine bit_xor_iff)

lemma load_halves:
  assumes "8 \<le> length d"
  shows "be_load_word32 d = ucast (drop_bit 32 (be_load_word64 d))"
  "be_load_word32 (drop 4 d) = ucast (be_load_word64 d)"
proof -
  have *: "(32 + n) div 8 = 4 + n div 8" "(32 + n) mod 8 = n mod 8" for n :: nat
    by presburger+
  have "\<forall>n<32. bit (be_load_word32 d) n = bit (be_load_word64 d) (32 + n)"
    by (simp add: bit_be_load_word32 bit_be_load_word64 *)
  then show "be_load_word32 d = ucast (drop_bit 32 (be_load_word64 d))"
    by (intro bit_word_eqI) (simp add: bit_ucast_iff bit_drop_bit_eq)
  have "3 - n div 8 + 4 = 7 - n div 8" if "n < 32" for n :: nat
    using that by simp
  then have "\<forall>n<32. bit (be_load_word32 (drop 4 d)) n = bit (be_load_word64 d) n"
    using assms by (simp add: bit_be_load_word32 bit_be_load_word64 add.commute)
  then show "be_load_word32 (drop 4 d) = ucast (be_load_word64 d)"
    by (intro bit_word_eqI) (simp add: bit_ucast_iff)
qed

lemma store_halves:
  "be_store_word32 (ucast (drop_bit 32 x)) @ be_store_word32 (ucast x) = be_store_word64 x"
proof -
  have "(ucast (drop_bit n (ucast (x::u64) :: u32)) :: u8) = ucast (drop_bit n x)" if "n \<le> 24" for n x
    using that by (intro bit_word_eqI) (simp add: bit_ucast_iff bit_drop_bit_eq)
  from this[of 0] this[of 8] this[of 16] this[of 24] show ?thesis
    by (simp add: be_store_word32_def be_store_word64_def)
qed

lemma word_of_halves: "push_bit 32 (ucast (ucast (drop_bit 32 x) :: u32)) OR ucast (ucast x :: u32) = (x :: u64)"
  by (rule bit_word_eqI) (auto simp: word_bit_simps bit_ucast_iff)

lemma nth_slice_words:
  "k < length S \<Longrightarrow> slice_words S ! (k * 2) = even_bits (S ! k)"
  "k < length S \<Longrightarrow> slice_words S ! (k * 2 + 1) = odd_bits (S ! k)"
proof (induction S arbitrary: k)
  case (Cons x S)
  { case 1 with Cons show ?case by (cases k) (simp_all add: slice_words_def) }
  { case 2 with Cons show ?case by (cases k) (simp_all add: slice_words_def) }
qed simp_all

lemma length_slice_words [simp]: "length (slice_words S) = 2 * length S"
  by (induction S) (simp_all add: slice_words_def)

lemma slice_words_update:
  "k < length S \<Longrightarrow>
     (slice_words S)[k * 2 := even_bits x, k * 2 + 1 := odd_bits x] = slice_words (S[k := x])"
proof (induction S arbitrary: k)
  case (Cons y S)
  then show ?case by (cases k) (simp_all add: slice_words_def)
qed simp

lemmas sliced_macro_defs =
  ascon_set_sliced_def ascon_set_word64_def ascon_absorb_sliced_def ascon_absorb_word64_def
  ascon_squeeze_sliced_def ascon_squeeze_word64_def ascon_encrypt_sliced_def
  ascon_decrypt_sliced_def ascon_decrypt_sliced_no_insert_def

lemmas sliced_macro_simps =
  separate_word combine_word combine_xor load_halves store_halves word_of_halves
  nth_slice_words slice_words_update nth_list_update

text \<open>On the bit-sliced words every macro is the operation on the 64-bit word.\<close>

lemma sliced_macros:
  assumes "k < length S" "8 \<le> length d"
  shows "ascon_set_word64 (slice_words S) v k = slice_words (S[k := v])"
    "ascon_set_sliced (slice_words S) d k = slice_words (S[k := be_load_word64 d])"
    "ascon_absorb_word64 (slice_words S) v k = slice_words (S[k := S ! k XOR v])"
    "ascon_absorb_sliced (slice_words S) d k = slice_words (S[k := S ! k XOR be_load_word64 d])"
    "ascon_squeeze_word64 (slice_words S) k = S ! k"
    "ascon_squeeze_sliced (slice_words S) k = be_store_word64 (S ! k)"
    "ascon_encrypt_sliced (slice_words S) d k =
       (slice_words (S[k := S ! k XOR be_load_word64 d]), be_store_word64 (S ! k XOR be_load_word64 d))"
    "ascon_decrypt_sliced (slice_words S) d k =
       (slice_words (S[k := be_load_word64 d]), be_store_word64 (be_load_word64 d XOR S ! k))"
    "ascon_decrypt_sliced_no_insert (slice_words S) d k = be_store_word64 (be_load_word64 d XOR S ! k)"
proof -
  show set64: "ascon_set_word64 (slice_words S) v k = slice_words (S[k := v])" for v
    using assms by (simp add: ascon_set_word64_def Let_def separate_word slice_words_update
        del: One_nat_def)
  show absorb64: "ascon_absorb_word64 (slice_words S) v k = slice_words (S[k := S ! k XOR v])" for v
    using assms slice_words_update[OF assms(1), of "S ! k XOR v"]
    by (simp add: ascon_absorb_word64_def Let_def separate_word nth_slice_words slice_xor
        del: One_nat_def)
  show "ascon_set_sliced (slice_words S) d k = slice_words (S[k := be_load_word64 d])"
    using set64[of "be_load_word64 d"]
    by (simp add: ascon_set_word64_def ascon_set_sliced_def load_halves[OF assms(2)])
  show absorb: "ascon_absorb_sliced (slice_words S) d k = slice_words (S[k := S ! k XOR be_load_word64 d])"
    using absorb64[of "be_load_word64 d"]
    by (simp add: ascon_absorb_word64_def ascon_absorb_sliced_def load_halves[OF assms(2)])
  show "ascon_squeeze_word64 (slice_words S) k = S ! k"
    using assms by (simp add: ascon_squeeze_word64_def Let_def nth_slice_words combine_word
        word_of_halves del: One_nat_def)
  have squeeze: "ascon_squeeze_sliced (slice_words S) k = be_store_word64 (S ! k)"
    if "k < length S" for S
    using that by (simp add: ascon_squeeze_sliced_def Let_def nth_slice_words combine_word
        store_halves del: One_nat_def)
  then show "ascon_squeeze_sliced (slice_words S) k = be_store_word64 (S ! k)" using assms(1) .
  have "ascon_encrypt_sliced (slice_words S) d k =
      (ascon_absorb_sliced (slice_words S) d k, ascon_squeeze_sliced (ascon_absorb_sliced (slice_words S) d k) k)"
    by (simp add: ascon_encrypt_sliced_def ascon_absorb_sliced_def ascon_squeeze_sliced_def Let_def)
  then show "ascon_encrypt_sliced (slice_words S) d k =
       (slice_words (S[k := S ! k XOR be_load_word64 d]), be_store_word64 (S ! k XOR be_load_word64 d))"
    using assms by (simp add: absorb squeeze)
  show no_insert: "ascon_decrypt_sliced_no_insert (slice_words S) d k =
      be_store_word64 (be_load_word64 d XOR S ! k)"
    using assms by (simp add: ascon_decrypt_sliced_no_insert_def Let_def nth_slice_words combine_xor
        combine_word load_halves[OF assms(2)] combine_separate unsigned_xor_eq
        drop_bit_xor flip: store_halves del: One_nat_def)
  show "ascon_decrypt_sliced (slice_words S) d k =
       (slice_words (S[k := be_load_word64 d]), be_store_word64 (be_load_word64 d XOR S ! k))"
    using no_insert \<open>ascon_set_sliced (slice_words S) d k = slice_words (S[k := be_load_word64 d])\<close>
    by (simp add: ascon_decrypt_sliced_def ascon_decrypt_sliced_no_insert_def ascon_set_sliced_def Let_def)
qed

lemmas sliced_word_macros = sliced_macros(1,3,5,6)[where d = "zeros 8", simplified]

section \<open>The byte functions\<close>

text \<open>The loops over the bytes of a partial word; \<open>shift\<close> is the position of the next byte.  The C
  variable is unsigned and wraps in the step after its last use, where the model stays at 0.\<close>

fun pack_loop :: "u64 \<Rightarrow> bytes \<Rightarrow> nat \<Rightarrow> nat \<Rightarrow> u64" where
  "pack_loop val (d # data) shift (Suc n) = pack_loop (val OR push_bit shift (ucast d)) data (shift - 8) n"
| "pack_loop val data shift n = val"

fun replace_loop :: "u64 \<Rightarrow> bytes \<Rightarrow> nat \<Rightarrow> nat \<Rightarrow> u64" where
  "replace_loop val (d # data) shift (Suc n) =
     replace_loop ((val AND NOT (push_bit shift 0xFF)) OR push_bit shift (ucast d)) data (shift - 8) n"
| "replace_loop val data shift n = val"

fun unpack_loop :: "u64 \<Rightarrow> nat \<Rightarrow> nat \<Rightarrow> bytes" where
  "unpack_loop val shift (Suc n) = ucast (drop_bit shift val) # unpack_loop val (shift - 8) n"
| "unpack_loop val shift 0 = []"

fun unpack_add_loop :: "u64 \<Rightarrow> bytes \<Rightarrow> nat \<Rightarrow> nat \<Rightarrow> bytes" where
  "unpack_add_loop val (d # input) shift (Suc n) =
     (d XOR ucast (drop_bit shift val)) # unpack_add_loop val input (shift - 8) n"
| "unpack_add_loop val input shift n = []"

fun unpack_replace_loop :: "u64 \<Rightarrow> bytes \<Rightarrow> nat \<Rightarrow> nat \<Rightarrow> u64 \<times> bytes" where
  "unpack_replace_loop val (d # input) shift (Suc n) =
     (let out = d XOR ucast (drop_bit shift val);
          val = (val AND NOT (push_bit shift 0xFF)) OR push_bit shift (ucast d);
          (val, outs) = unpack_replace_loop val input (shift - 8) n
      in (val, out # outs))"
| "unpack_replace_loop val input shift n = (val, [])"

text \<open>\<open>while (size >= 8U)\<close>: \<open>posn\<close> counts the bytes of the data consumed so far.\<close>

function words_loop ::
  "('s \<Rightarrow> nat \<Rightarrow> nat \<Rightarrow> 's \<times> bytes) \<Rightarrow> 's \<Rightarrow> nat \<Rightarrow> nat \<Rightarrow> nat \<Rightarrow> 's \<times> bytes \<times> nat \<times> nat \<times> nat" where
  "words_loop whole s posn offset n =
     (if 8 \<le> n
      then case whole s posn (offset div 8) of (s, out) \<Rightarrow>
           case words_loop whole s (posn + 8) (offset + 8) (n - 8) of (s, out', posn, offset, n) \<Rightarrow>
           (s, out @ out', posn, offset, n)
      else (s, [], posn, offset, n))"
  by pat_completeness auto
termination by (relation "measure (\<lambda>(whole, s, posn, offset, n). n)") auto

declare words_loop.simps [simp del]

text \<open>The shape the six byte functions share: \<open>lead\<close> handles a word that starts in the middle,
  \<open>whole\<close> a whole word, \<open>tail\<close> the first bytes of a word.\<close>

definition sliced_phases ::
  "('s \<Rightarrow> nat \<Rightarrow> nat \<Rightarrow> nat \<Rightarrow> 's \<times> bytes) \<Rightarrow> ('s \<Rightarrow> nat \<Rightarrow> nat \<Rightarrow> 's \<times> bytes) \<Rightarrow>
     ('s \<Rightarrow> nat \<Rightarrow> nat \<Rightarrow> nat \<Rightarrow> 's \<times> bytes) \<Rightarrow> 's \<Rightarrow> nat \<Rightarrow> nat \<Rightarrow> 's \<times> bytes" where
  "sliced_phases lead whole tail s offset n =
     (let ofs = offset mod 8;
          (s, out1, posn, offset, n) =
            (if ofs \<noteq> 0
             then let posn = min (8 - ofs) n; (s, out) = lead s (offset div 8) ofs posn
                  in (s, out, posn, offset + posn, n - posn)
             else (s, [], 0, offset, n));
          (s, out2, posn, offset, n) = words_loop whole s posn offset n;
          (s, out3) = (if n > 0 then tail s posn (offset div 8) n else (s, []))
      in (s, out1 @ out2 @ out3))"

definition sliced32_add_bytes :: "u32 list \<Rightarrow> bytes \<Rightarrow> nat \<Rightarrow> nat \<Rightarrow> u32 list" where
  "sliced32_add_bytes W data offset n =
     fst (sliced_phases
       (\<lambda>W k ofs n. (ascon_absorb_word64 W (pack_loop 0 data ((7 - ofs) * 8) n) k, []))
       (\<lambda>W posn k. (ascon_absorb_sliced W (drop posn data) k, []))
       (\<lambda>W posn k n. (ascon_absorb_word64 W (pack_loop 0 (drop posn data) 56 n) k, []))
       W offset n)"

definition sliced32_overwrite_bytes :: "u32 list \<Rightarrow> bytes \<Rightarrow> nat \<Rightarrow> nat \<Rightarrow> u32 list" where
  "sliced32_overwrite_bytes W data offset n =
     fst (sliced_phases
       (\<lambda>W k ofs n. (ascon_set_word64 W
          (replace_loop (ascon_squeeze_word64 W k) data ((7 - ofs) * 8) n) k, []))
       (\<lambda>W posn k. (ascon_set_sliced W (drop posn data) k, []))
       (\<lambda>W posn k n. (ascon_set_word64 W
          (replace_loop (ascon_squeeze_word64 W k) (drop posn data) 56 n) k, []))
       W offset n)"

definition sliced32_overwrite_with_zeroes :: "u32 list \<Rightarrow> nat \<Rightarrow> nat \<Rightarrow> u32 list" where
  "sliced32_overwrite_with_zeroes W offset n =
     fst (sliced_phases
       (\<lambda>W k ofs posn.
          let val = ascon_squeeze_word64 W k;
              val = (val AND push_bit ((8 - ofs) * 8) (NOT 0)) OR
                    (val AND (push_bit ((8 - ofs - posn) * 8) 1 - 1))
          in (ascon_set_word64 W val k, []))
       (\<lambda>W posn k. (W[k * 2 := 0, k * 2 + 1 := 0], []))
       (\<lambda>W posn k n. (ascon_set_word64 W (ascon_squeeze_word64 W k AND drop_bit (n * 8) (NOT 0)) k, []))
       W offset n)"

definition sliced32_extract_bytes :: "u32 list \<Rightarrow> nat \<Rightarrow> nat \<Rightarrow> bytes" where
  "sliced32_extract_bytes W offset n =
     snd (sliced_phases
       (\<lambda>W k ofs n. (W, unpack_loop (ascon_squeeze_word64 W k) ((7 - ofs) * 8) n))
       (\<lambda>W posn k. (W, ascon_squeeze_sliced W k))
       (\<lambda>W posn k n. (W, unpack_loop (ascon_squeeze_word64 W k) 56 n))
       W offset n)"

definition sliced32_extract_and_add_bytes :: "u32 list \<Rightarrow> bytes \<Rightarrow> nat \<Rightarrow> nat \<Rightarrow> bytes" where
  "sliced32_extract_and_add_bytes W input offset n =
     snd (sliced_phases
       (\<lambda>W k ofs n. (W, unpack_add_loop (ascon_squeeze_word64 W k) input ((7 - ofs) * 8) n))
       (\<lambda>W posn k. (W, ascon_decrypt_sliced_no_insert W (drop posn input) k))
       (\<lambda>W posn k n. (W, unpack_add_loop (ascon_squeeze_word64 W k) (drop posn input) 56 n))
       W offset n)"

definition sliced32_extract_and_overwrite_bytes ::
  "u32 list \<Rightarrow> bytes \<Rightarrow> nat \<Rightarrow> nat \<Rightarrow> u32 list \<times> bytes" where
  "sliced32_extract_and_overwrite_bytes W input offset n =
     sliced_phases
       (\<lambda>W k ofs n.
          let (val, out) = unpack_replace_loop (ascon_squeeze_word64 W k) input ((7 - ofs) * 8) n
          in (ascon_set_word64 W val k, out))
       (\<lambda>W posn k. ascon_decrypt_sliced W (drop posn input) k)
       (\<lambda>W posn k n.
          let (val, out) = unpack_replace_loop (ascon_squeeze_word64 W k) (drop posn input) 56 n
          in (ascon_set_word64 W val k, out))
       W offset n"

section \<open>Partial words\<close>

lemma unpack_byte:
  "j < 8 \<Longrightarrow> ucast (drop_bit ((7 - j) * 8) val) = be_store_word64 val ! j"
  by (simp add: nth_be_store_word64 diff_mult_distrib2 mult.commute)

lemma shift_step: "(7 - j) * 8 - 8 = (7 - Suc j) * 8"
  by (simp add: diff_mult_distrib)

lemma unpack_loop_eq:
  "j + n \<le> 8 \<Longrightarrow> unpack_loop val ((7 - j) * 8) n = get_at (be_store_word64 val) j n"
proof (induction n arbitrary: j)
  case (Suc n)
  then have "get_at (be_store_word64 val) j (Suc n) =
      be_store_word64 val ! j # get_at (be_store_word64 val) (Suc j) n"
    by (simp add: get_at_def flip: Cons_nth_drop_Suc)
  with Suc.IH[of "Suc j"] Suc.prems unpack_byte[of j val] show ?case
    by (simp only: unpack_loop.simps shift_step)
qed simp

lemma unpack_add_loop_eq:
  "\<lbrakk>j + n \<le> 8; n \<le> length d\<rbrakk> \<Longrightarrow>
     unpack_add_loop val d ((7 - j) * 8) n = xor_bytes (get_at (be_store_word64 val) j n) (take n d)"
proof (induction n arbitrary: j d)
  case (Suc n)
  then obtain x d' where d: "d = x # d'" by (cases d) auto
  from Suc have "get_at (be_store_word64 val) j (Suc n) =
      be_store_word64 val ! j # get_at (be_store_word64 val) (Suc j) n"
    by (simp add: get_at_def flip: Cons_nth_drop_Suc)
  with Suc.IH[of "Suc j" d'] Suc.prems unpack_byte[of j val] show ?case
    by (simp only: d unpack_add_loop.simps shift_step) (simp add: d xor.commute)
qed simp

lemma replace_byte:
  "j < 8 \<Longrightarrow> be_store_word64 ((w AND NOT (push_bit ((7 - j) * 8) 0xFF)) OR
     push_bit ((7 - j) * 8) (ucast v)) = (be_store_word64 w)[j := v]"
  using be_store_word64_set_byte[of j w v] by (simp add: diff_mult_distrib2 mult.commute)

lemma replace_loop_eq:
  "\<lbrakk>j + n \<le> 8; n \<le> length d\<rbrakk> \<Longrightarrow>
     be_store_word64 (replace_loop val d ((7 - j) * 8) n) = put_at (be_store_word64 val) j (take n d)"
proof (induction n arbitrary: j d val)
  case (Suc n)
  then obtain x d' where d: "d = x # d'" by (cases d) auto
  let ?v = "(val AND NOT (push_bit ((7 - j) * 8) 0xFF)) OR push_bit ((7 - j) * 8) (ucast x)"
  from Suc.IH[of "Suc j" d' ?v] Suc.prems replace_byte[of j val x] show ?case
    by (simp only: d replace_loop.simps shift_step)
      (simp add: d put_at_Cons[of _ _ _ "take n d'"] put_at_one)
qed simp

lemma unpack_replace_loop_eq:
  "\<lbrakk>j + n \<le> 8; n \<le> length d\<rbrakk> \<Longrightarrow>
     unpack_replace_loop val d ((7 - j) * 8) n =
       (replace_loop val d ((7 - j) * 8) n, unpack_add_loop val d ((7 - j) * 8) n)"
proof (induction n arbitrary: j d val)
  case (Suc n)
  then obtain x d' where d: "d = x # d'" by (cases d) auto
  let ?v = "(val AND NOT (push_bit ((7 - j) * 8) 0xFF)) OR push_bit ((7 - j) * 8) (ucast x)"
  have "get_at (be_store_word64 ?v) (Suc j) n = get_at (be_store_word64 val) (Suc j) n"
    using Suc.prems replace_byte[of j val x] by (simp add: get_at_def)
  then have "unpack_add_loop ?v d' ((7 - Suc j) * 8) n = unpack_add_loop val d' ((7 - Suc j) * 8) n"
    using Suc.prems unpack_add_loop_eq[of "Suc j" n d' ?v] unpack_add_loop_eq[of "Suc j" n d' val]
    by (simp only: d) simp
  with Suc.IH[of "Suc j" d' ?v] Suc.prems show ?case
    by (simp only: d unpack_replace_loop.simps replace_loop.simps unpack_add_loop.simps shift_step)
      (simp add: Let_def d)
qed simp

text \<open>Bytes packed into a word whose remaining bytes are zero.\<close>

lemma pack_byte:
  assumes "j < 8" "be_store_word64 w ! j = 0"
  shows "be_store_word64 (w OR push_bit ((7 - j) * 8) (ucast v)) = (be_store_word64 w)[j := v]"
proof -
  have "w AND NOT (push_bit ((7 - j) * 8) 0xFF) = w"
  proof (rule bit_word_eqI)
    fix i assume i: "i < LENGTH(64)"
    have "\<not> bit w i" if "bit (push_bit ((7 - j) * 8) 0xFF :: u64) i"
    proof -
      have "(0xFF :: u64) = mask 8" by (simp add: mask_eq_exp_minus_1)
      with that have *: "(7 - j) * 8 \<le> i" "i - (7 - j) * 8 < 8"
        by (auto simp: bit_push_bit_iff bit_mask_iff)
      have "\<not> bit (be_store_word64 w ! j) (i - (7 - j) * 8)" using assms(2) by simp
      with * assms(1) show ?thesis
        by (simp add: bit_ucast_iff bit_drop_bit_eq flip: unpack_byte)
    qed
    then show "bit (w AND NOT (push_bit ((7 - j) * 8) 0xFF)) i = bit w i"
      using i by (auto simp: bit_and_iff bit_not_iff)
  qed
  with replace_byte[OF assms(1), of w v] show ?thesis by simp
qed

lemma pack_loop_eq:
  "\<lbrakk>j + n \<le> 8; n \<le> length d; \<forall>i. j \<le> i \<and> i < 8 \<longrightarrow> be_store_word64 val ! i = 0\<rbrakk> \<Longrightarrow>
     be_store_word64 (pack_loop val d ((7 - j) * 8) n) = put_at (be_store_word64 val) j (take n d)"
proof (induction n arbitrary: j d val)
  case (Suc n)
  then obtain x d' where d: "d = x # d'" by (cases d) auto
  let ?v = "val OR push_bit ((7 - j) * 8) (ucast x)"
  have v: "be_store_word64 ?v = (be_store_word64 val)[j := x]"
    using Suc.prems by (intro pack_byte) auto
  then have "\<forall>i. Suc j \<le> i \<and> i < 8 \<longrightarrow> be_store_word64 ?v ! i = 0"
    using Suc.prems by simp
  with Suc.IH[of "Suc j" d' ?v] Suc.prems v show ?case
    by (simp only: d pack_loop.simps shift_step)
      (simp add: d put_at_Cons[of _ _ _ "take n d'"] put_at_one)
qed simp

lemma be_store_word64_0: "be_store_word64 0 = zeros 8"
  by (simp add: be_store_word64_def zeros_8)

lemma pack_loop_0:
  "\<lbrakk>j + n \<le> 8; n \<le> length d\<rbrakk> \<Longrightarrow>
     be_store_word64 (pack_loop 0 d ((7 - j) * 8) n) = put_at (zeros 8) j (take n d)"
  using pack_loop_eq[of j n d 0] by (simp add: be_store_word64_0)

lemma zero_lead:
  assumes "0 < ofs" "ofs + n \<le> 8"
  shows "be_store_word64 ((val AND push_bit ((8 - ofs) * 8) (NOT 0)) OR
      (val AND (push_bit ((8 - ofs - n) * 8) 1 - 1))) = put_at (be_store_word64 val) ofs (zeros n)"
proof (rule nth_equalityI)
  have mask: "2 ^ k - 1 = (mask k :: u64)" for k
    by (simp add: mask_eq_exp_minus_1)
  fix i assume "i < length (be_store_word64 ((val AND push_bit ((8 - ofs) * 8) (NOT 0)) OR
      (val AND (push_bit ((8 - ofs - n) * 8) 1 - 1))))"
  then have i: "i < 8" by simp
  have "(8 - ofs) * 8 \<le> (7 - i) * 8 + k \<longleftrightarrow> i < ofs" "(7 - i) * 8 + k < (8 - ofs - n) * 8 \<longleftrightarrow> ofs + n \<le> i"
    if "k < 8" for k
    using that i assms by (cases "i < ofs"; cases "ofs + n \<le> i"; simp; presburger)+
  then show "be_store_word64 ((val AND push_bit ((8 - ofs) * 8) (NOT 0)) OR
      (val AND (push_bit ((8 - ofs - n) * 8) 1 - 1))) ! i = put_at (be_store_word64 val) ofs (zeros n) ! i"
    using i assms
    by (intro bit_word_eqI) (auto simp: mask byte_nth word_bit_simps bit_mask_iff bit_not_iff
        bit_ucast_iff bit_drop_bit_eq simp flip: unpack_byte)
qed simp

lemma zero_tail:
  assumes "n < 8"
  shows "be_store_word64 (val AND drop_bit (n * 8) (NOT 0)) = put_at (be_store_word64 val) 0 (zeros n)"
proof (rule nth_equalityI)
  fix i assume "i < length (be_store_word64 (val AND drop_bit (n * 8) (NOT 0)))"
  then have i: "i < 8" by simp
  have "(7 - i) * 8 + k < 64 - n * 8 \<longleftrightarrow> n \<le> i" if "k < 8" for k
    using that i assms by (cases "n \<le> i"; simp; presburger)
  then show "be_store_word64 (val AND drop_bit (n * 8) (NOT 0)) ! i =
      put_at (be_store_word64 val) 0 (zeros n) ! i"
    using i assms
    by (intro bit_word_eqI) (auto simp: byte_nth word_bit_simps bit_not_iff bit_mask_iff
        bit_ucast_iff bit_drop_bit_eq simp flip: unpack_byte)
qed simp

section \<open>The three phases make one range of bytes\<close>

locale sliced_effect =
  fixes rep :: "'s \<Rightarrow> bytes \<Rightarrow> bool"
    and G :: "bytes \<Rightarrow> nat \<Rightarrow> nat \<Rightarrow> nat \<Rightarrow> bytes \<times> bytes"
    and lead whole tail limit
  assumes rep_len: "rep s b \<Longrightarrow> length b = 40"
    and G_0: "length b = 40 \<Longrightarrow> G b p posn 0 = (b, [])"
    and G_add: "\<lbrakk>length b = 40; p + m + n \<le> 40; posn + m + n \<le> limit\<rbrakk> \<Longrightarrow>
      G b p posn (m + n) = (case G b p posn m of (b1, o1) \<Rightarrow>
        case G b1 (p + m) (posn + m) n of (b2, o2) \<Rightarrow> (b2, o1 @ o2))"
    and lead: "\<lbrakk>rep s b; k < 5; 0 < ofs; ofs + n \<le> 8; n \<le> limit\<rbrakk> \<Longrightarrow>
      rep (fst (lead s k ofs n)) (fst (G b (8 * k + ofs) 0 n)) \<and>
      snd (lead s k ofs n) = snd (G b (8 * k + ofs) 0 n)"
    and whole: "\<lbrakk>rep s b; k < 5; posn + 8 \<le> limit\<rbrakk> \<Longrightarrow>
      rep (fst (whole s posn k)) (fst (G b (8 * k) posn 8)) \<and>
      snd (whole s posn k) = snd (G b (8 * k) posn 8)"
    and tail: "\<lbrakk>rep s b; k < 5; n < 8; posn + n \<le> limit\<rbrakk> \<Longrightarrow>
      rep (fst (tail s posn k n)) (fst (G b (8 * k) posn n)) \<and>
      snd (tail s posn k n) = snd (G b (8 * k) posn n)"
begin

lemma words_loop_rep:
  "\<lbrakk>rep s b; 8 dvd off; off + n \<le> 40; posn + n \<le> limit\<rbrakk> \<Longrightarrow>
     \<exists>s' out m r. words_loop whole s posn off n = (s', out, posn + m, off + m, r) \<and>
       n = m + r \<and> r < 8 \<and> 8 dvd m \<and>
       rep s' (fst (G b off posn m)) \<and> out = snd (G b off posn m)"
proof (induction n arbitrary: s b off posn rule: less_induct)
  case (less n)
  show ?case
  proof (cases "8 \<le> n")
    case False
    have "G b off posn 0 = (b, [])" by (rule G_0[OF rep_len[OF less.prems(1)]])
    with False less.prems show ?thesis
      by (simp add: words_loop.simps[of _ _ _ _ n])
  next
    case True
    from less.prems have k: "off div 8 < 5" "8 * (off div 8) = off" using True by auto
    obtain s1 o1 where w: "whole s posn (off div 8) = (s1, o1)" by fastforce
    obtain b1 where g: "G b off posn 8 = (b1, o1)" and r1: "rep s1 b1"
      using whole[OF less.prems(1) k(1), of posn] w k(2) less.prems True
      by (metis add_leD1 le_add_diff_inverse add.assoc fst_conv snd_conv prod.exhaust_sel)
    obtain s' out m r where ih: "words_loop whole s1 (posn + 8) (off + 8) (n - 8) =
        (s', out, posn + 8 + m, off + 8 + m, r)" "n - 8 = m + r" "r < 8" "8 dvd m"
      "rep s' (fst (G b1 (off + 8) (posn + 8) m))" "out = snd (G b1 (off + 8) (posn + 8) m)"
      using less.IH[OF _ r1, of "n - 8" "off + 8" "posn + 8"] less.prems True by auto
    have "G b off posn (8 + m) = (fst (G b1 (off + 8) (posn + 8) m), o1 @ snd (G b1 (off + 8) (posn + 8) m))"
      using G_add[of b off 8 m posn] g rep_len[OF less.prems(1)] less.prems ih(2) True
      by (simp add: case_prod_beta)
    with ih w True show ?thesis
      by (simp add: words_loop.simps[of _ _ _ _ n] add.assoc)
  qed
qed

lemma phases_rep:
  assumes "rep s b" "off + n \<le> 40" "n \<le> limit"
  shows "rep (fst (sliced_phases lead whole tail s off n)) (fst (G b off 0 n)) \<and>
    snd (sliced_phases lead whole tail s off n) = snd (G b off 0 n)"
proof -
  have len: "length b = 40" by (rule rep_len[OF assms(1)])
  have after: "\<exists>s' o'. (case words_loop whole s1 posn off1 n1 of (s, out2, posn, offset, n) \<Rightarrow>
      case (if n > 0 then tail s posn (offset div 8) n else (s, [])) of (s, out3) \<Rightarrow>
        (s, out1 @ out2 @ out3)) = (s', out1 @ o') \<and> rep s' (fst (G b1 off1 posn n1)) \<and>
        o' = snd (G b1 off1 posn n1)"
    if r: "rep s1 b1" and a: "n1 > 0 \<longrightarrow> 8 dvd off1" "off1 + n1 \<le> 40" "posn + n1 \<le> limit"
    for s1 b1 posn off1 n1 out1
  proof (cases "n1 = 0")
    case True
    then show ?thesis
      using r rep_len[OF r] by (simp add: words_loop.simps[of _ _ _ _ 0] G_0)
  next
    case False
    with r a obtain s' out m r' where w: "words_loop whole s1 posn off1 n1 = (s', out, posn + m, off1 + m, r')"
      "n1 = m + r'" "r' < 8" "8 dvd m" "rep s' (fst (G b1 off1 posn m))" "out = snd (G b1 off1 posn m)"
      using words_loop_rep[OF r, of off1 n1 posn] by auto
    define b2 where "b2 = fst (G b1 off1 posn m)"
    have b2: "rep s' b2" "length b2 = 40" using w(5) rep_len by (simp_all add: b2_def)
    have g: "G b1 off1 posn n1 = (fst (G b2 (off1 + m) (posn + m) r'),
        out @ snd (G b2 (off1 + m) (posn + m) r'))"
      using G_add[of b1 off1 m r' posn] w a rep_len[OF r] by (simp add: case_prod_beta b2_def)
    show ?thesis
    proof (cases "r' = 0")
      case True
      then show ?thesis using w g b2 by (simp add: G_0)
    next
      case r': False
      have "8 dvd off1" using a(1) False by blast
      then have "8 dvd off1 + m" using w(4) by (rule dvd_add)
      then have "(off1 + m) div 8 < 5" "8 * ((off1 + m) div 8) = off1 + m"
        using r' a w by auto
      with tail[OF b2(1), of "(off1 + m) div 8" r' "posn + m"] w g a r' show ?thesis
        by (simp add: case_prod_beta)
    qed
  qed
  show ?thesis
  proof (cases "off mod 8 = 0")
    case True
    with after[OF assms(1), of n off 0 "[]"] assms show ?thesis
      by (auto simp: sliced_phases_def Let_def case_prod_beta dvd_eq_mod_eq_0)
  next
    case False
    let ?ofs = "off mod 8" and ?m = "min (8 - off mod 8) n"
    obtain s1 o1 where l: "lead s (off div 8) ?ofs ?m = (s1, o1)" by fastforce
    show ?thesis
    proof (cases "n = 0")
      case True
      have "off < 40" using False assms(2) by (cases "off = 40") auto
      then have "off div 8 < 5" by simp
      with lead[OF assms(1), of "off div 8" ?ofs 0] l True False len show ?thesis
        by (auto simp: sliced_phases_def Let_def G_0 words_loop.simps[of _ _ _ _ 0])
    next
      case n: False
      then have k: "off div 8 < 5" "8 * (off div 8) + ?ofs = off" using assms by auto
      define b1 where "b1 = fst (G b off 0 ?m)"
      have 1: "rep s1 b1" "o1 = snd (G b off 0 ?m)"
        using lead[OF assms(1) k(1), of ?ofs ?m] l False k(2) assms(3) by (simp_all add: b1_def)
      have "off + (8 - ?ofs) = 8 * (off div 8 + 1)"
        by presburger
      then have d: "n - ?m > 0 \<longrightarrow> 8 dvd off + ?m"
        by (simp add: min_def)
      have g: "G b off 0 n = (fst (G b1 (off + ?m) ?m (n - ?m)), o1 @ snd (G b1 (off + ?m) ?m (n - ?m)))"
        using G_add[of b off ?m "n - ?m" 0] len assms 1 by (simp add: case_prod_beta b1_def)
      have le: "off + ?m + (n - ?m) \<le> 40" "?m + (n - ?m) \<le> limit" using assms by simp_all
      obtain s' o' where A: "(case words_loop whole s1 ?m (off + ?m) (n - ?m) of
          (s, out2, posn, offset, n) \<Rightarrow>
          case (if n > 0 then tail s posn (offset div 8) n else (s, [])) of (s, out3) \<Rightarrow>
            (s, o1 @ out2 @ out3)) = (s', o1 @ o')"
        and R: "rep s' (fst (G b1 (off + ?m) ?m (n - ?m)))" "o' = snd (G b1 (off + ?m) ?m (n - ?m))"
        using after[OF 1(1) d le, of o1] by blast
      have "sliced_phases lead whole tail s off n = (s', o1 @ o')"
        unfolding A[symmetric] sliced_phases_def Let_def using False
        by (simp only: l if_True not_False_eq_True split_conv simp_thms)
      with R g show ?thesis by simp
    qed
  qed
qed

end

section \<open>The backend\<close>

definition sliced32_init :: "u32 list" where
  "sliced32_init = replicate 10 0"

definition sliced32_free :: "u32 list \<Rightarrow> u32 list" where
  "sliced32_free W = replicate 10 0"

definition sliced32_separator :: "u32 list \<Rightarrow> u32 list" where
  "sliced32_separator W = W[8 := W ! 8 XOR 0x01]"

definition sliced32_pad :: "u32 list \<Rightarrow> nat \<Rightarrow> u32 list" where
  "sliced32_pad W offset =
     (let k = (offset div 8) * 2 + 1
      in W[k := W ! k XOR drop_bit ((offset AND 7) * 4) 0x80000000])"

definition sliced32_absorb_8 :: "u32 list \<Rightarrow> bytes \<Rightarrow> nat \<Rightarrow> u32 list" where
  "sliced32_absorb_8 W data offset = ascon_absorb_sliced W data (offset div 8)"

definition sliced32_absorb_16 :: "u32 list \<Rightarrow> bytes \<Rightarrow> nat \<Rightarrow> u32 list" where
  "sliced32_absorb_16 W data offset =
     ascon_absorb_sliced (ascon_absorb_sliced W data (offset div 8)) (drop 8 data) (offset div 8 + 1)"

definition sliced32_squeeze_8 :: "u32 list \<Rightarrow> nat \<Rightarrow> bytes" where
  "sliced32_squeeze_8 W offset = ascon_squeeze_sliced W (offset div 8)"

definition sliced32_squeeze_16 :: "u32 list \<Rightarrow> nat \<Rightarrow> bytes" where
  "sliced32_squeeze_16 W offset =
     ascon_squeeze_sliced W (offset div 8) @ ascon_squeeze_sliced W (offset div 8 + 1)"

definition sliced32_encrypt_8 :: "u32 list \<Rightarrow> bytes \<Rightarrow> nat \<Rightarrow> u32 list \<times> bytes" where
  "sliced32_encrypt_8 W src offset = ascon_encrypt_sliced W src (offset div 8)"

definition sliced32_encrypt_16 :: "u32 list \<Rightarrow> bytes \<Rightarrow> nat \<Rightarrow> u32 list \<times> bytes" where
  "sliced32_encrypt_16 W src offset =
     (let (W, dest1) = ascon_encrypt_sliced W src (offset div 8);
          (W, dest2) = ascon_encrypt_sliced W (drop 8 src) (offset div 8 + 1)
      in (W, dest1 @ dest2))"

definition sliced32_encrypt_partial :: "u32 list \<Rightarrow> bytes \<Rightarrow> nat \<Rightarrow> nat \<Rightarrow> u32 list \<times> bytes" where
  "sliced32_encrypt_partial W src offset count =
     (let W = sliced32_add_bytes W src offset count
      in (W, sliced32_extract_bytes W offset count))"

definition sliced32_decrypt_8 :: "u32 list \<Rightarrow> bytes \<Rightarrow> nat \<Rightarrow> u32 list \<times> bytes" where
  "sliced32_decrypt_8 W src offset = ascon_decrypt_sliced W src (offset div 8)"

definition sliced32_decrypt_16 :: "u32 list \<Rightarrow> bytes \<Rightarrow> nat \<Rightarrow> u32 list \<times> bytes" where
  "sliced32_decrypt_16 W src offset =
     (let (W, dest1) = ascon_decrypt_sliced W src (offset div 8);
          (W, dest2) = ascon_decrypt_sliced W (drop 8 src) (offset div 8 + 1)
      in (W, dest1 @ dest2))"

definition sliced32 :: "u32 list snp" where
  "sliced32 = \<lparr> snp_init = sliced32_init, snp_free = sliced32_free,
     snp_add_bytes = sliced32_add_bytes, snp_overwrite_bytes = sliced32_overwrite_bytes,
     snp_overwrite_with_zeroes = sliced32_overwrite_with_zeroes,
     snp_extract_bytes = sliced32_extract_bytes,
     snp_extract_and_add_bytes = sliced32_extract_and_add_bytes,
     snp_extract_and_overwrite_bytes = sliced32_extract_and_overwrite_bytes,
     snp_release = (\<lambda>W. W), snp_acquire = (\<lambda>W. W), snp_copy = (\<lambda>dest src. src),
     snp_permute = ascon_permute_c32, snp_separator = sliced32_separator, snp_pad = sliced32_pad,
     snp_absorb_8 = sliced32_absorb_8, snp_absorb_16 = sliced32_absorb_16,
     snp_absorb_partial = sliced32_add_bytes,
     snp_squeeze_8 = sliced32_squeeze_8, snp_squeeze_16 = sliced32_squeeze_16,
     snp_squeeze_partial = sliced32_extract_bytes,
     snp_encrypt_8 = sliced32_encrypt_8, snp_encrypt_16 = sliced32_encrypt_16,
     snp_encrypt_partial = sliced32_encrypt_partial,
     snp_decrypt_8 = sliced32_decrypt_8, snp_decrypt_16 = sliced32_decrypt_16,
     snp_decrypt_partial = sliced32_extract_and_overwrite_bytes,
     snp_load = (\<lambda>S W b. W) \<rparr>"

section \<open>The bytes of the bit-sliced state\<close>

definition rep_sliced32 :: "u32 list \<Rightarrow> bytes \<Rightarrow> bool" where
  "rep_sliced32 W b \<longleftrightarrow> (\<exists>S. rep_sliced64 S b \<and> W = slice_words S)"

lemma rep_sliced32_length: "rep_sliced32 W b \<Longrightarrow> length b = 40"
  by (auto simp: rep_sliced32_def rep_sliced64_length)

lemma rep_sliced64_size: "rep_sliced64 S b \<Longrightarrow> length S = 5"
  by (simp add: rep_sliced64_def)

lemma put_at_within:
  "\<lbrakk>ofs + length ds \<le> 8; 8 * k + 8 \<le> length b\<rbrakk> \<Longrightarrow>
     put_at b (8 * k) (put_at (get_at b (8 * k) 8) ofs ds) = put_at b (8 * k + ofs) ds"
  by (rule nth_equalityI) (auto simp: byte_nth)

lemma xor_at_within:
  "ofs + length ds \<le> 8 \<Longrightarrow> xor_at b (8 * k) (put_at (zeros 8) ofs ds) = xor_at b (8 * k + ofs) ds"
  by (rule nth_equalityI) (auto simp: byte_nth)

lemma get_at_within: "ofs + n \<le> 8 \<Longrightarrow> get_at (get_at b (8 * k) 8) ofs n = get_at b (8 * k + ofs) n"
  by (simp add: get_at_def drop_take add.commute)

lemma sliced32_squeeze_word:
  "\<lbrakk>rep_sliced32 W b; k < 5\<rbrakk> \<Longrightarrow> be_store_word64 (ascon_squeeze_word64 W k) = get_at b (8 * k) 8"
  by (auto simp: rep_sliced32_def sliced_word_macros rep_sliced64_size rep_sliced64_word)

lemma sliced32_set_word:
  assumes "rep_sliced32 W b" "k < 5" "ofs + length ds \<le> 8"
    and "be_store_word64 v = put_at (be_store_word64 (ascon_squeeze_word64 W k)) ofs ds"
  shows "rep_sliced32 (ascon_set_word64 W v k) (put_at b (8 * k + ofs) ds)"
proof -
  from assms(1) obtain S where S: "rep_sliced64 S b" "W = slice_words S"
    by (auto simp: rep_sliced32_def)
  from assms rep_sliced32_length[OF assms(1)] sliced32_squeeze_word[OF assms(1,2)]
  have "put_at b (8 * k) (be_store_word64 v) = put_at b (8 * k + ofs) ds"
    by (simp add: put_at_within)
  with rep_sliced64_update[OF S(1) assms(2), of v] S assms(2) show ?thesis
    by (auto simp: rep_sliced32_def sliced_word_macros rep_sliced64_size)
qed

lemma sliced32_absorb_word:
  assumes "rep_sliced32 W b" "k < 5" "ofs + length ds \<le> 8"
    and "be_store_word64 v = put_at (zeros 8) ofs ds"
  shows "rep_sliced32 (ascon_absorb_word64 W v k) (xor_at b (8 * k + ofs) ds)"
proof -
  from assms(1) obtain S where S: "rep_sliced64 S b" "W = slice_words S"
    by (auto simp: rep_sliced32_def)
  have "be_load_word64 (put_at (zeros 8) ofs ds) = v"
    by (metis assms(4) be_load_store_word64)
  with sliced64_xor_word[OF S(1), of "8 * k" "put_at (zeros 8) ofs ds"] assms
  have "rep_sliced64 (S[k := S ! k XOR v]) (xor_at b (8 * k + ofs) ds)"
    by (simp add: xor_at_within)
  with S assms(2) show ?thesis
    by (auto simp: rep_sliced32_def sliced_word_macros rep_sliced64_size)
qed

text \<open>A macro on a whole word, from the operation on 64-bit words.\<close>

lemma sliced32_words:
  assumes "rep_sliced32 W b" "k < 5" "8 \<le> length d"
  shows "rep_sliced32 (ascon_absorb_sliced W d k) (xor_at b (8 * k) (take 8 d))"
    "rep_sliced32 (ascon_set_sliced W d k) (put_at b (8 * k) (take 8 d))"
    "ascon_squeeze_sliced W k = get_at b (8 * k) 8"
    "ascon_decrypt_sliced_no_insert W d k = xor_bytes (get_at b (8 * k) 8) (take 8 d)"
    "rep_sliced32 (fst (ascon_encrypt_sliced W d k)) (xor_at b (8 * k) (take 8 d))"
    "snd (ascon_encrypt_sliced W d k) = xor_bytes (get_at b (8 * k) 8) (take 8 d)"
    "rep_sliced32 (fst (ascon_decrypt_sliced W d k)) (put_at b (8 * k) (take 8 d))"
    "snd (ascon_decrypt_sliced W d k) = xor_bytes (get_at b (8 * k) 8) (take 8 d)"
proof -
  from assms(1) obtain S where S: "rep_sliced64 S b" "W = slice_words S"
    by (auto simp: rep_sliced32_def)
  note simps = S(2) sliced_macros[OF _ assms(3)] sliced_word_macros assms rep_sliced64_size[OF S(1)]
    be_store_word64_xor be_store_load_word64 rep_sliced64_word[OF S(1)] xor_bytes_commute
  have "rep_sliced64 (S[k := S ! k XOR be_load_word64 d]) (xor_at b (8 * k) (take 8 d))"
    using sliced64_xor_word[OF S(1), of "8 * k" d] assms by simp
  then show "rep_sliced32 (ascon_absorb_sliced W d k) (xor_at b (8 * k) (take 8 d))"
    "rep_sliced32 (fst (ascon_encrypt_sliced W d k)) (xor_at b (8 * k) (take 8 d))"
    by (auto simp: simps rep_sliced32_def)
  have "rep_sliced64 (S[k := be_load_word64 d]) (put_at b (8 * k) (take 8 d))"
    using sliced64_put_word[OF S(1), of "8 * k" d] assms by simp
  then show "rep_sliced32 (ascon_set_sliced W d k) (put_at b (8 * k) (take 8 d))"
    "rep_sliced32 (fst (ascon_decrypt_sliced W d k)) (put_at b (8 * k) (take 8 d))"
    by (auto simp: simps rep_sliced32_def)
qed (use assms in \<open>auto simp: rep_sliced32_def sliced_macros sliced_word_macros rep_sliced64_size
      be_store_word64_xor be_store_load_word64 rep_sliced64_word xor_bytes_commute\<close>)

lemmas lead_loops = pack_loop_0 replace_loop_eq unpack_loop_eq unpack_add_loop_eq unpack_replace_loop_eq
lemmas tail_loops = lead_loops[of 0, simplified]

interpretation add32: sliced_effect rep_sliced32
  "\<lambda>b p posn n. (xor_at b p (take n (drop posn data)), [])"
  "\<lambda>W k ofs n. (ascon_absorb_word64 W (pack_loop 0 data ((7 - ofs) * 8) n) k, [])"
  "\<lambda>W posn k. (ascon_absorb_sliced W (drop posn data) k, [])"
  "\<lambda>W posn k n. (ascon_absorb_word64 W (pack_loop 0 (drop posn data) 56 n) k, [])"
  "length data"
proof unfold_locales
  fix s b and k posn n :: nat
  assume *: "rep_sliced32 s b" "k < 5" "n < 8" "posn + n \<le> length data"
  show "rep_sliced32 (fst (ascon_absorb_word64 s (pack_loop 0 (drop posn data) 56 n) k, []))
      (fst (xor_at b (8 * k) (take n (drop posn data)), [])) \<and>
    snd (ascon_absorb_word64 s (pack_loop 0 (drop posn data) 56 n) k, []) =
      snd (xor_at b (8 * k) (take n (drop posn data)), [])"
    using * sliced32_absorb_word[OF *(1,2), of 0 "take n (drop posn data)"] tail_loops(1)[of n "drop posn data"]
    by simp
next
  fix s b and k ofs n :: nat
  assume *: "rep_sliced32 s b" "k < 5" "ofs + n \<le> 8" "n \<le> length data"
  then show "rep_sliced32 (fst (ascon_absorb_word64 s (pack_loop 0 data ((7 - ofs) * 8) n) k, []))
      (fst (xor_at b (8 * k + ofs) (take n (drop 0 data)), [])) \<and>
    snd (ascon_absorb_word64 s (pack_loop 0 data ((7 - ofs) * 8) n) k, []) =
      snd (xor_at b (8 * k + ofs) (take n (drop 0 data)), [])"
    using sliced32_absorb_word[OF *(1,2), of ofs "take n data"] pack_loop_0[of ofs n data] by simp
qed (auto simp: rep_sliced32_length take_add xor_at_append add.commute sliced32_words)

interpretation overwrite32: sliced_effect rep_sliced32
  "\<lambda>b p posn n. (put_at b p (take n (drop posn data)), [])"
  "\<lambda>W k ofs n. (ascon_set_word64 W
          (replace_loop (ascon_squeeze_word64 W k) data ((7 - ofs) * 8) n) k, [])"
  "\<lambda>W posn k. (ascon_set_sliced W (drop posn data) k, [])"
  "\<lambda>W posn k n. (ascon_set_word64 W
          (replace_loop (ascon_squeeze_word64 W k) (drop posn data) 56 n) k, [])"
  "length data"
proof unfold_locales
  fix s b and k posn n :: nat
  assume *: "rep_sliced32 s b" "k < 5" "n < 8" "posn + n \<le> length data"
  let ?v = "replace_loop (ascon_squeeze_word64 s k) (drop posn data) 56 n"
  show "rep_sliced32 (fst (ascon_set_word64 s ?v k, []))
      (fst (put_at b (8 * k) (take n (drop posn data)), [])) \<and>
    snd (ascon_set_word64 s ?v k, []) = snd (put_at b (8 * k) (take n (drop posn data)), [])"
    using * sliced32_set_word[OF *(1,2), of 0 "take n (drop posn data)" ?v]
      tail_loops(2)[of n "drop posn data" "ascon_squeeze_word64 s k"]
    by simp
next
  fix s b and k ofs n :: nat
  assume *: "rep_sliced32 s b" "k < 5" "ofs + n \<le> 8" "n \<le> length data"
  let ?v = "replace_loop (ascon_squeeze_word64 s k) data ((7 - ofs) * 8) n"
  show "rep_sliced32 (fst (ascon_set_word64 s ?v k, []))
      (fst (put_at b (8 * k + ofs) (take n (drop 0 data)), [])) \<and>
    snd (ascon_set_word64 s ?v k, []) = snd (put_at b (8 * k + ofs) (take n (drop 0 data)), [])"
    using * sliced32_set_word[OF *(1,2), of ofs "take n data" ?v]
      replace_loop_eq[of ofs n data "ascon_squeeze_word64 s k"] by simp
qed (auto simp: rep_sliced32_length take_add put_at_append add.commute sliced32_words)

interpretation extract32: sliced_effect rep_sliced32
  "\<lambda>b p posn n. (b, get_at b p n)"
  "\<lambda>W k ofs n. (W, unpack_loop (ascon_squeeze_word64 W k) ((7 - ofs) * 8) n)"
  "\<lambda>W posn k. (W, ascon_squeeze_sliced W k)"
  "\<lambda>W posn k n. (W, unpack_loop (ascon_squeeze_word64 W k) 56 n)"
  limit
proof unfold_locales
  fix s b and k posn n :: nat
  assume *: "rep_sliced32 s b" "k < 5" "n < 8"
  then show "rep_sliced32 (fst (s, unpack_loop (ascon_squeeze_word64 s k) 56 n)) (fst (b, get_at b (8 * k) n)) \<and>
       snd (s, unpack_loop (ascon_squeeze_word64 s k) 56 n) = snd (b, get_at b (8 * k) n)"
    using tail_loops(3)[of n "ascon_squeeze_word64 s k"] get_at_within[of 0 n b k]
    by (simp add: sliced32_squeeze_word)
qed (auto simp: rep_sliced32_length get_at_append sliced32_words[where d = "zeros 8", simplified]
    unpack_loop_eq sliced32_squeeze_word get_at_within)

interpretation extract_add32: sliced_effect rep_sliced32
  "\<lambda>b p posn n. (b, xor_bytes (get_at b p n) (take n (drop posn input)))"
  "\<lambda>W k ofs n. (W, unpack_add_loop (ascon_squeeze_word64 W k) input ((7 - ofs) * 8) n)"
  "\<lambda>W posn k. (W, ascon_decrypt_sliced_no_insert W (drop posn input) k)"
  "\<lambda>W posn k n. (W, unpack_add_loop (ascon_squeeze_word64 W k) (drop posn input) 56 n)"
  "length input"
proof unfold_locales
  fix s b and k posn n :: nat
  assume *: "rep_sliced32 s b" "k < 5" "n < 8" "posn + n \<le> length input"
  let ?o = "unpack_add_loop (ascon_squeeze_word64 s k) (drop posn input) 56 n"
  show "rep_sliced32 (fst (s, ?o)) (fst (b, xor_bytes (get_at b (8 * k) n) (take n (drop posn input)))) \<and>
       snd (s, ?o) = snd (b, xor_bytes (get_at b (8 * k) n) (take n (drop posn input)))"
    using * tail_loops(4)[of n "drop posn input" "ascon_squeeze_word64 s k"] get_at_within[of 0 n b k]
    by (simp add: sliced32_squeeze_word)
qed (auto simp: rep_sliced32_length get_at_append take_add xor_bytes_append add.commute sliced32_words
    unpack_add_loop_eq sliced32_squeeze_word get_at_within)

interpretation extract_overwrite32: sliced_effect rep_sliced32
  "\<lambda>b p posn n. (put_at b p (take n (drop posn input)),
     xor_bytes (get_at b p n) (take n (drop posn input)))"
  "\<lambda>W k ofs n.
          let (val, out) = unpack_replace_loop (ascon_squeeze_word64 W k) input ((7 - ofs) * 8) n
          in (ascon_set_word64 W val k, out)"
  "\<lambda>W posn k. ascon_decrypt_sliced W (drop posn input) k"
  "\<lambda>W posn k n.
          let (val, out) = unpack_replace_loop (ascon_squeeze_word64 W k) (drop posn input) 56 n
          in (ascon_set_word64 W val k, out)"
  "length input"
proof unfold_locales
  fix s b and k ofs n :: nat
  assume *: "rep_sliced32 s b" "k < 5" "ofs + n \<le> 8" "n \<le> length input"
  let ?v = "replace_loop (ascon_squeeze_word64 s k) input ((7 - ofs) * 8) n"
  let ?r = "let (val, out) = unpack_replace_loop (ascon_squeeze_word64 s k) input ((7 - ofs) * 8) n
      in (ascon_set_word64 s val k, out)"
  show "rep_sliced32 (fst ?r) (fst (put_at b (8 * k + ofs) (take n (drop 0 input)),
      xor_bytes (get_at b (8 * k + ofs) n) (take n (drop 0 input)))) \<and>
    snd ?r = snd (put_at b (8 * k + ofs) (take n (drop 0 input)),
      xor_bytes (get_at b (8 * k + ofs) n) (take n (drop 0 input)))"
    using * sliced32_set_word[OF *(1,2), of ofs "take n input" ?v]
    by (simp add: unpack_replace_loop_eq replace_loop_eq unpack_add_loop_eq sliced32_squeeze_word
        get_at_within)
next
  fix s b and k posn n :: nat
  assume *: "rep_sliced32 s b" "k < 5" "n < 8" "posn + n \<le> length input"
  let ?i = "drop posn input"
  let ?v = "replace_loop (ascon_squeeze_word64 s k) ?i 56 n"
  let ?r = "let (val, out) = unpack_replace_loop (ascon_squeeze_word64 s k) ?i 56 n
      in (ascon_set_word64 s val k, out)"
  show "rep_sliced32 (fst ?r) (fst (put_at b (8 * k) (take n ?i),
      xor_bytes (get_at b (8 * k) n) (take n ?i))) \<and>
    snd ?r = snd (put_at b (8 * k) (take n ?i), xor_bytes (get_at b (8 * k) n) (take n ?i))"
    using * sliced32_set_word[OF *(1,2), of 0 "take n ?i" ?v] get_at_within[of 0 n b k]
      tail_loops(2,4,5)[of n ?i "ascon_squeeze_word64 s k"]
    by (simp add: sliced32_squeeze_word)
qed (auto simp: rep_sliced32_length get_at_append take_add xor_bytes_append put_at_append add.commute
    sliced32_words get_at_put_at_above)

lemma slice_words_zero: "k < length S \<Longrightarrow> (slice_words S)[k * 2 := 0, k * 2 + 1 := 0] = slice_words (S[k := 0])"
proof -
  have "even_bits 0 = 0" "odd_bits 0 = 0"
    by (rule bit_word_eqI; simp add: bit_even_odd)+
  then show "k < length S \<Longrightarrow> ?thesis"
    using slice_words_update[of k S 0] by simp
qed

interpretation zero32: sliced_effect rep_sliced32
  "\<lambda>b p posn n. (put_at b p (zeros n), [])"
  "\<lambda>W k ofs posn.
          let val = ascon_squeeze_word64 W k;
              val = (val AND push_bit ((8 - ofs) * 8) (NOT 0)) OR
                    (val AND (push_bit ((8 - ofs - posn) * 8) 1 - 1))
          in (ascon_set_word64 W val k, [])"
  "\<lambda>W posn k. (W[k * 2 := 0, k * 2 + 1 := 0], [])"
  "\<lambda>W posn k n. (ascon_set_word64 W (ascon_squeeze_word64 W k AND drop_bit (n * 8) (NOT 0)) k, [])"
  limit
proof unfold_locales
  fix s b and k ofs n :: nat
  assume *: "rep_sliced32 s b" "k < 5" "0 < ofs" "ofs + n \<le> 8"
  from sliced32_set_word[OF *(1,2), of ofs "zeros n"] zero_lead[OF *(3,4)] *(4)
  show "rep_sliced32 (fst (let val = ascon_squeeze_word64 s k;
              val = (val AND push_bit ((8 - ofs) * 8) (NOT 0)) OR
                    (val AND (push_bit ((8 - ofs - n) * 8) 1 - 1))
          in (ascon_set_word64 s val k, []))) (fst (put_at b (8 * k + ofs) (zeros n), [])) \<and>
     snd (let val = ascon_squeeze_word64 s k;
              val = (val AND push_bit ((8 - ofs) * 8) (NOT 0)) OR
                    (val AND (push_bit ((8 - ofs - n) * 8) 1 - 1))
          in (ascon_set_word64 s val k, [])) = snd (put_at b (8 * k + ofs) (zeros n), [])"
    by (simp add: Let_def)
next
  fix s b and k posn n :: nat
  assume *: "rep_sliced32 s b" "k < 5" "n < 8"
  from sliced32_set_word[OF *(1,2), of 0 "zeros n"] zero_tail[OF *(3)] *(3)
  show "rep_sliced32 (fst (ascon_set_word64 s (ascon_squeeze_word64 s k AND drop_bit (n * 8) (NOT 0)) k, []))
      (fst (put_at b (8 * k) (zeros n), [])) \<and>
     snd (ascon_set_word64 s (ascon_squeeze_word64 s k AND drop_bit (n * 8) (NOT 0)) k, []) =
      snd (put_at b (8 * k) (zeros n), [])"
    by simp
next
  fix s b and k posn :: nat
  assume *: "rep_sliced32 s b" "k < 5"
  then obtain S where S: "rep_sliced64 S b" "s = slice_words S" by (auto simp: rep_sliced32_def)
  have "s[k * 2 := 0, k * 2 + 1 := 0] = slice_words (S[k := 0])"
    using slice_words_zero[of k S] S * by (simp add: rep_sliced64_size)
  with rep_sliced64_update[OF S(1) *(2), of 0] show
    "rep_sliced32 (fst (s[k * 2 := 0, k * 2 + 1 := 0], [])) (fst (put_at b (8 * k) (zeros 8), [])) \<and>
       snd (s[k * 2 := 0, k * 2 + 1 := 0], []) = snd (put_at b (8 * k) (zeros 8), [])"
    by (auto simp: rep_sliced32_def be_store_word64_0)
next
  fix b :: bytes and p m n posn :: nat
  show "(put_at b p (zeros (m + n)), []) = (case (put_at b p (zeros m), []) of
      (b1, o1) \<Rightarrow> case (put_at b1 (p + m) (zeros n), []) of (b2, o2) \<Rightarrow> (b2, o1 @ o2))"
    using put_at_append[of b p "zeros m" "zeros n"] by (simp add: zeros_def replicate_add)
qed (simp_all add: rep_sliced32_length zeros_def)

section \<open>The backend satisfies the contract\<close>

lemma slice_words_xor:
  "k < length S \<Longrightarrow> slice_words (S[k := S ! k XOR v]) =
     (slice_words S)[k * 2 := slice_words S ! (k * 2) XOR even_bits v,
        k * 2 + 1 := slice_words S ! (k * 2 + 1) XOR odd_bits v]"
  using slice_words_update[of k S "S ! k XOR v"] nth_slice_words[of k S] by (simp add: slice_xor)

lemma slice_constants:
  "even_bits 1 = 1" "odd_bits 1 = 0"
  "r < 8 \<Longrightarrow> even_bits (drop_bit (r * 8) 0x8000000000000000) = 0"
  "r < 8 \<Longrightarrow> odd_bits (drop_bit (r * 8) 0x8000000000000000) = drop_bit (r * 4) 0x80000000"
proof -
  show "even_bits 1 = 1" "odd_bits 1 = 0" by code_simp+
  have "list_all (\<lambda>r. even_bits (drop_bit (r * 8) 0x8000000000000000) = 0 \<and>
      odd_bits (drop_bit (r * 8) 0x8000000000000000) = drop_bit (r * 4) 0x80000000) [0..<8]"
    by code_simp
  then show "r < 8 \<Longrightarrow> even_bits (drop_bit (r * 8) 0x8000000000000000) = 0"
    "r < 8 \<Longrightarrow> odd_bits (drop_bit (r * 8) 0x8000000000000000) = drop_bit (r * 4) 0x80000000"
    by (simp_all add: list_all_iff)
qed

lemma sliced32_separator_rep:
  assumes "rep_sliced32 W b" shows "rep_sliced32 (sliced32_separator W) (xor_at b 39 [1])"
proof -
  from assms obtain S where S: "rep_sliced64 S b" "W = slice_words S" by (auto simp: rep_sliced32_def)
  have "sliced32_separator W = slice_words (sliced64_separator S)"
    using slice_words_xor[of 4 S 1] S list_update_id[of "W[8 := W ! 8 XOR 1]" 9]
    by (simp add: sliced32_separator_def sliced64_separator_def rep_sliced64_size slice_constants)
  with sliced64_separator_rep[OF S(1)] show ?thesis by (auto simp: rep_sliced32_def)
qed

lemma sliced32_pad_rep:
  assumes "rep_sliced32 W b" "off < 40" shows "rep_sliced32 (sliced32_pad W off) (xor_at b off [0x80])"
proof -
  from assms obtain S where S: "rep_sliced64 S b" "W = slice_words S" by (auto simp: rep_sliced32_def)
  have "off AND 7 < 8"
    using take_bit_eq_mod[of 3 off] take_bit_eq_mask[of 3 off] by (simp add: mask_eq_exp_minus_1)
  then have "sliced32_pad W off = slice_words (sliced64_pad S off)"
    using slice_words_xor[of "off div 8" S "drop_bit ((off AND 7) * 8) 0x8000000000000000"] S assms(2)
    by (simp add: sliced32_pad_def sliced64_pad_def rep_sliced64_size slice_constants Let_def)
  with sliced64_pad_rep[OF S(1) assms(2)] show ?thesis by (auto simp: rep_sliced32_def)
qed

lemma rep_sliced32_init: "rep_sliced32 (replicate 10 0) (zeros 40)"
proof -
  have "slice_words [0, 0, 0, 0, 0] = replicate 10 0" by code_simp
  with rep_sliced64_init show ?thesis by (auto simp: rep_sliced32_def intro: exI[of _ "[0, 0, 0, 0, 0]"])
qed

lemma rep_sliced32_permute:
  "rep_sliced32 W b \<Longrightarrow> rep_sliced32 (ascon_permute_c32 W r) (permute_bytes b r)"
  by (metis rep_sliced32_def rep_sliced64_permute permute_c32_slice rep_sliced64_size)

lemma rep_sliced32_load: "table_ok S W b \<Longrightarrow> rep_sliced32 W b"
  by (auto simp: rep_sliced32_def rep_sliced64_def table_ok_def slice_words_def)

text \<open>Words at an offset that is a multiple of 8.\<close>

lemma sliced32_at:
  assumes "rep_sliced32 W b" "8 dvd off" "off + 8 \<le> 40" "8 \<le> length d"
  shows "rep_sliced32 (ascon_absorb_sliced W d (off div 8)) (xor_at b off (take 8 d))"
    "ascon_squeeze_sliced W (off div 8) = get_at b off 8"
    "rep_sliced32 (fst (ascon_encrypt_sliced W d (off div 8))) (xor_at b off (take 8 d))"
    "snd (ascon_encrypt_sliced W d (off div 8)) = xor_bytes (get_at b off 8) (take 8 d)"
    "rep_sliced32 (fst (ascon_decrypt_sliced W d (off div 8))) (put_at b off (take 8 d))"
    "snd (ascon_decrypt_sliced W d (off div 8)) = xor_bytes (get_at b off 8) (take 8 d)"
  using sliced32_words[OF assms(1) _ assms(4), of "off div 8"] assms(2,3) by auto

lemma get_at_xor_at_above:
  "off + length d \<le> off' \<Longrightarrow> get_at (xor_at b off d) off' n = get_at b off' n"
  by (rule nth_equalityI) (auto simp: byte_nth)

lemma sliced32_double:
  assumes "rep_sliced32 W b" "16 \<le> length d" "8 dvd off" "off + 16 \<le> 40"
  shows "rep_sliced32 (sliced32_absorb_16 W d off) (xor_at b off (take 16 d))"
    "rep_sliced32 (fst (sliced32_encrypt_16 W d off)) (xor_at b off (take 16 d)) \<and>
      snd (sliced32_encrypt_16 W d off) = xor_bytes (get_at b off 16) (take 16 d)"
    "rep_sliced32 (fst (sliced32_decrypt_16 W d off)) (put_at b off (take 16 d)) \<and>
      snd (sliced32_decrypt_16 W d off) = xor_bytes (get_at b off 16) (take 16 d)"
proof -
  have n: "8 dvd off + 8" "off + 8 + 8 \<le> 40" "8 \<le> length (drop 8 d)" "off div 8 + 1 = (off + 8) div 8"
    and f: "8 dvd off" "off + 8 \<le> 40" "8 \<le> length d"
    using assms offset_next_word[of off] by auto
  note word1 = sliced32_at[OF assms(1) f] and word2 = sliced32_at[OF _ n(1-3)]
  have g: "xor_bytes (get_at b off 16) (take 16 d) =
      xor_bytes (get_at b off 8) (take 8 d) @ xor_bytes (get_at b (off + 8) 8) (take 8 (drop 8 d))"
    using get_at_append[of b off 8 8] f assms rep_sliced32_length[OF assms(1)]
    by (simp add: take_16_split xor_bytes_append)
  note simps = n(4) g xor_at_append[of b off "take 8 d"] put_at_append[of b off "take 8 d"] f
    get_at_xor_at_above get_at_put_at_above rep_sliced32_length[OF assms(1)] case_prod_beta assms
  show "rep_sliced32 (sliced32_absorb_16 W d off) (xor_at b off (take 16 d))"
    using word2(1)[OF word1(1)] by (simp add: sliced32_absorb_16_def simps take_16_split)
  show "rep_sliced32 (fst (sliced32_encrypt_16 W d off)) (xor_at b off (take 16 d)) \<and>
      snd (sliced32_encrypt_16 W d off) = xor_bytes (get_at b off 16) (take 16 d)"
    using word2(3,4)[OF word1(3)] word1(4) by (simp add: sliced32_encrypt_16_def simps) (simp add: simps take_16_split)
  show "rep_sliced32 (fst (sliced32_decrypt_16 W d off)) (put_at b off (take 16 d)) \<and>
      snd (sliced32_decrypt_16 W d off) = xor_bytes (get_at b off 16) (take 16 d)"
    using word2(5,6)[OF word1(5)] word1(6) by (simp add: sliced32_decrypt_16_def simps) (simp add: simps take_16_split)
qed

lemma sliced32_squeeze_16_eq:
  assumes "rep_sliced32 W b" "8 dvd off" "off + 16 \<le> 40"
  shows "sliced32_squeeze_16 W off = get_at b off 16"
  using assms sliced32_at(2)[of W b off "zeros 8"] sliced32_at(2)[of W b "off + 8" "zeros 8"]
    get_at_append[of b off 8 8] offset_next_word[of off]
  by (simp add: sliced32_squeeze_16_def)

lemma sliced32_bytes:
  assumes "rep_sliced32 W b" "off + n \<le> 40"
  shows "n \<le> length d \<Longrightarrow> rep_sliced32 (sliced32_add_bytes W d off n) (xor_at b off (take n d))"
    "n \<le> length d \<Longrightarrow> rep_sliced32 (sliced32_overwrite_bytes W d off n) (put_at b off (take n d))"
    "rep_sliced32 (sliced32_overwrite_with_zeroes W off n) (put_at b off (zeros n))"
    "sliced32_extract_bytes W off n = get_at b off n"
    "n \<le> length d \<Longrightarrow> sliced32_extract_and_add_bytes W d off n = xor_bytes (get_at b off n) (take n d)"
    "n \<le> length d \<Longrightarrow>
       rep_sliced32 (fst (sliced32_extract_and_overwrite_bytes W d off n)) (put_at b off (take n d)) \<and>
       snd (sliced32_extract_and_overwrite_bytes W d off n) = xor_bytes (get_at b off n) (take n d)"
  using add32.phases_rep[OF assms, of d] overwrite32.phases_rep[OF assms, of d]
    zero32.phases_rep[OF assms order_refl] extract32.phases_rep[OF assms order_refl]
    extract_add32.phases_rep[OF assms, of d] extract_overwrite32.phases_rep[OF assms, of d]
  by (simp_all add: sliced32_add_bytes_def sliced32_overwrite_bytes_def
      sliced32_overwrite_with_zeroes_def sliced32_extract_bytes_def
      sliced32_extract_and_add_bytes_def sliced32_extract_and_overwrite_bytes_def)

lemma sliced32_encrypt_partial_rep:
  assumes "rep_sliced32 W b" "n \<le> length d" "off + n \<le> 40"
  shows "rep_sliced32 (fst (sliced32_encrypt_partial W d off n)) (xor_at b off (take n d)) \<and>
     snd (sliced32_encrypt_partial W d off n) = xor_bytes (get_at b off n) (take n d)"
  using sliced32_bytes(1)[OF assms(1,3,2)] sliced32_bytes(4)[OF sliced32_bytes(1)[OF assms(1,3,2)] assms(3)]
    get_at_xor_at[of off "take n d" b] assms rep_sliced32_length[OF assms(1)]
  by (simp add: sliced32_encrypt_partial_def Let_def)

interpretation sliced32: snp_laws sliced32 rep_sliced32
proof unfold_locales
  fix s b assume "rep_sliced32 s b"
  then show "length b = 40" by (rule rep_sliced32_length)
next
  fix s b off assume "rep_sliced32 s b" "8 dvd off" "off + 8 \<le> (40::nat)"
  then show "snp_squeeze_8 sliced32 s off = get_at b off 8"
    using sliced32_at(2)[of s b off "zeros 8"] by (simp add: sliced32_def sliced32_squeeze_8_def)
qed (simp_all add: sliced32_def sliced32_init_def sliced32_free_def rep_sliced32_init
    sliced32_bytes rep_sliced32_permute sliced32_separator_rep sliced32_pad_rep rep_sliced32_load
    sliced32_absorb_8_def sliced32_encrypt_8_def sliced32_decrypt_8_def sliced32_at sliced32_double
    sliced32_squeeze_16_eq sliced32_encrypt_partial_rep)

end
