(* ===== verification/Backend_Properties.thy ===== *)
theory Backend_Properties
  imports Aead_Inc Snp_Direct_Xor Snp_Sliced32
begin

text \<open>
  The properties of the permutation backends: the 32-bit backend keeps the bit-sliced form of
  what the 64-bit backend keeps, and the modes compute the same bytes on every backend.
\<close>

section \<open>The 32-bit backend\<close>

text \<open>\<open>ascon_permute\<close> on bit-sliced 32-bit words computes the bit-sliced form of what
  \<open>ascon_permute\<close> on 64-bit words computes, for every state and number of rounds.\<close>

theorem permute_c32_sliced:
  assumes "length S = 5"
  shows "ascon_permute_c32 (slice_words S) first_round = slice_words (ascon_permute_c64 S first_round)"
  by (rule permute_c32_slice[OF assms])

lemma permute_c32_sliced_witness:
  "ascon_permute_c32 (slice_words [1, 2, 3, 4, 5]) 6 = slice_words (ascon_permute_c64 [1, 2, 3, 4, 5] 6)"
  using permute_c32_sliced[of "[1, 2, 3, 4, 5]" 6] by simp

text \<open>A 64-bit word that is separated into the halves of the state and combined again
  comes back, whatever the state held, and the other words are untouched.\<close>

theorem sliced32_word_roundtrip:
  assumes "length W = 10" "k < 5" "j < 5"
  shows "ascon_squeeze_word64 (ascon_set_word64 W val k) j =
     (if j = k then val else ascon_squeeze_word64 W j)"
proof -
  have neq: "k * 2 \<noteq> Suc (j * 2)" "Suc (k * 2) \<noteq> j * 2" by presburger+
  with assms show ?thesis
    by (simp add: ascon_squeeze_word64_def ascon_set_word64_def Let_def separate_word combine_word
        word_of_halves)
qed

lemma sliced32_word_roundtrip_witness:
  "ascon_squeeze_word64 (ascon_set_word64 (replicate 10 7) 0x0123456789ABCDEF 4) 4 = 0x0123456789ABCDEF"
  using sliced32_word_roundtrip[of "replicate 10 7" 4 4 "0x0123456789ABCDEF"] by simp

text \<open>On the 32-bit backend \<open>ascon_extract_and_overwrite_bytes\<close>, with its partial leading
  word, whole words and partial trailing word, returns the input XORed with the range of state
  bytes and leaves the input in that range, for every range inside the state.\<close>

theorem sliced32_overwrite_range:
  assumes "rep_sliced32 W b" "offset + n \<le> 40" "n \<le> length input"
  shows "snd (sliced32_extract_and_overwrite_bytes W input offset n) =
      xor_bytes (get_at b offset n) (take n input) \<and>
    rep_sliced32 (fst (sliced32_extract_and_overwrite_bytes W input offset n))
      (put_at b offset (take n input))"
  using sliced32_bytes(6)[OF assms] by simp

lemma sliced32_overwrite_range_witness:
  "rep_sliced32 (fst (sliced32_extract_and_overwrite_bytes sliced32_init [1, 2, 3, 4, 5, 6, 7, 8, 9, 10, 11] 6 11))
     (put_at (zeros 40) 6 [1, 2, 3, 4, 5, 6, 7, 8, 9, 10, 11])"
  using sliced32_overwrite_range[OF rep_sliced32_init, of 6 11 "[1, 2, 3, 4, 5, 6, 7, 8, 9, 10, 11]"]
  by (simp add: sliced32_init_def)

section \<open>The backends agree\<close>

text \<open>Property C17. Encryption with ASCON-128, ASCON-128a and ASCON-80pq gives the same bytes on the
  bit-sliced, the word, the byte-array and the generic backend, on the first two in either byte
  order of the machine.\<close>

theorem encryption_backend_independent:
  assumes "length npub = 16" "length k = 16" "length k80 = 20"
  shows "ascon128_aead_encrypt sliced32 m ad npub k = ascon128_aead_encrypt (sliced64 le) m ad npub k \<and>
    ascon128_aead_encrypt direct_xor m ad npub k = ascon128_aead_encrypt (sliced64 le) m ad npub k \<and>
    ascon128_aead_encrypt (generic_snp direct_xor) m ad npub k = ascon128_aead_encrypt (sliced64 le) m ad npub k \<and>
    ascon128a_aead_encrypt sliced32 m ad npub k = ascon128a_aead_encrypt (sliced64 le) m ad npub k \<and>
    ascon128a_aead_encrypt direct_xor m ad npub k = ascon128a_aead_encrypt (sliced64 le) m ad npub k \<and>
    ascon128a_aead_encrypt (generic_snp direct_xor) m ad npub k = ascon128a_aead_encrypt (sliced64 le) m ad npub k \<and>
    ascon80pq_aead_encrypt sliced32 m ad npub k80 = ascon80pq_aead_encrypt (sliced64 le) m ad npub k80 \<and>
    ascon80pq_aead_encrypt direct_xor m ad npub k80 = ascon80pq_aead_encrypt (sliced64 le) m ad npub k80 \<and>
    ascon80pq_aead_encrypt (generic_snp direct_xor) m ad npub k80 = ascon80pq_aead_encrypt (sliced64 le) m ad npub k80"
proof -
  note laws = sliced32.snp_laws_axioms sliced64.snp_laws_axioms[of le] direct_xor.snp_laws_axioms
    generic.snp_laws_axioms
  show ?thesis
    by (simp add: assms snp_laws.ascon128_encrypt_spec[OF laws(1)] snp_laws.ascon128_encrypt_spec[OF laws(2)]
        snp_laws.ascon128_encrypt_spec[OF laws(3)] snp_laws.ascon128_encrypt_spec[OF laws(4)]
        snp_laws.ascon128a_encrypt_spec[OF laws(1)] snp_laws.ascon128a_encrypt_spec[OF laws(2)]
        snp_laws.ascon128a_encrypt_spec[OF laws(3)] snp_laws.ascon128a_encrypt_spec[OF laws(4)]
        snp_laws.ascon80pq_encrypt_spec[OF laws(1)] snp_laws.ascon80pq_encrypt_spec[OF laws(2)]
        snp_laws.ascon80pq_encrypt_spec[OF laws(3)] snp_laws.ascon80pq_encrypt_spec[OF laws(4)])
qed

lemma encryption_backend_independent_witness:
  "ascon128_aead_encrypt sliced32 [1, 2] [] (zeros 16) (zeros 16) =
     ascon128_aead_encrypt (sliced64 True) [1, 2] [] (zeros 16) (zeros 16)"
  using encryption_backend_independent[of "zeros 16" "zeros 16" "zeros 20" "[1, 2]" "[]" True] by simp

end
