(* ===== verification/Squeeze.thy ===== *)
theory Squeeze
  imports Duplex
begin

text \<open>
  Squeezing.  \<open>ascon_xof_squeeze\<close> and \<open>ascon_prf_squeeze\<close> have one shape at two rates: what is left
  of the current block, whole blocks and a tail, permuting before a block is read.  The shape is
  \<open>squeeze_output\<close>; the locale \<open>lazy_squeeze\<close> shows that it reads the output of a machine that
  yields one byte at a time.
\<close>

section \<open>The machine\<close>

definition lazy_step ::
  "nat \<Rightarrow> (bytes \<Rightarrow> bytes) \<Rightarrow> bytes \<times> nat \<Rightarrow> u8 \<Rightarrow> (bytes \<times> nat) \<times> bytes" where
  "lazy_step R f st x = (case st of (b, p) \<Rightarrow>
     let b = (if p = 0 then f b else b) in ((b, Suc p mod R), [b ! p]))"

text \<open>The output as blocks: the first block of the state, then of the next state, and so on.\<close>

fun spec_squeeze :: "nat \<Rightarrow> (bytes \<Rightarrow> bytes) \<Rightarrow> bytes \<Rightarrow> nat \<Rightarrow> bytes" where
  "spec_squeeze R f b n =
     (if R = 0 \<or> n \<le> R then get_at b 0 n else get_at b 0 R @ spec_squeeze R f (f b) (n - R))"

declare spec_squeeze.simps [simp del]

lemma zeros_add: "zeros (m + n) = zeros m @ zeros n"
  by (simp add: zeros_def replicate_add)

lemma get_at_split: "p < length b \<Longrightarrow> get_at b p (Suc n) = b ! p # get_at b (Suc p) n"
  by (simp add: get_at_def flip: Cons_nth_drop_Suc)

lemma lazy_within:
  "\<lbrakk>0 < p; p < R; p + n \<le> R; R \<le> length b\<rbrakk> \<Longrightarrow>
     run (lazy_step R f) (b, p) (zeros n) = ((b, (p + n) mod R), get_at b p n)"
proof (induction n arbitrary: p)
  case (Suc n)
  have get: "get_at b p (Suc n) = b ! p # get_at b (Suc p) n"
    using Suc.prems by (simp add: get_at_split)
  show ?case
  proof (cases "n = 0")
    case False
    then have "Suc p mod R = Suc p" "Suc p < R" using Suc.prems by simp_all
    with Suc.IH[of "Suc p"] Suc.prems get show ?thesis
      by (simp add: zeros_def lazy_step_def)
  qed (use Suc.prems get in \<open>simp add: zeros_def lazy_step_def\<close>)
qed (simp add: zeros_def)

lemma lazy_block:
  assumes "0 < n" "n \<le> R" "1 < R" "R \<le> length (f b)"
  shows "run (lazy_step R f) (b, 0) (zeros n) = ((f b, n mod R), get_at (f b) 0 n)"
proof -
  obtain k where n: "n = Suc k" using assms(1) by (cases n) auto
  have get: "get_at (f b) 0 n = f b ! 0 # get_at (f b) 1 k"
    using assms get_at_split[of 0 "f b" k] by (fastforce simp: n)
  show ?thesis
    using lazy_within[of 1 R k "f b" f] get assms
    by (simp add: n zeros_def lazy_step_def Let_def)
qed

lemma lazy_spec_squeeze:
  assumes "\<And>b. R \<le> length (f b)" "1 < R"
  shows "snd (run (lazy_step R f) (b, 0) (zeros n)) = spec_squeeze R f (f b) n"
proof (induction n arbitrary: b rule: less_induct)
  case (less n)
  show ?case
  proof (cases "n \<le> R")
    case True
    then show ?thesis
      using lazy_block[of n R f b] assms by (cases "n = 0") (simp_all add: spec_squeeze.simps zeros_def)
  next
    case False
    then have "zeros n = zeros R @ zeros (n - R)" by (simp flip: zeros_add)
    with False less[of "n - R" "f b"] lazy_block[of R R f b] assms show ?thesis
      by (simp add: run_append case_prod_beta spec_squeeze.simps[of R f "f b" n])
  qed
qed

lemma length_spec_squeeze:
  "\<lbrakk>\<And>b. length (f b) = 40; length b = 40; R \<le> 40; 0 < R\<rbrakk> \<Longrightarrow> length (spec_squeeze R f b n) = n"
  by (induction R f b n rule: spec_squeeze.induct) (subst spec_squeeze.simps, auto)

section \<open>The loops of the code\<close>

function squeeze_loop :: "nat \<Rightarrow> ('s \<Rightarrow> 's \<times> bytes) \<Rightarrow> 's \<Rightarrow> nat \<Rightarrow> 's \<times> bytes \<times> nat" where
  "squeeze_loop R f s outlen =
     (if 0 < R \<and> R \<le> outlen
      then case f s of (s, out) \<Rightarrow> case squeeze_loop R f s (outlen - R) of (s, out', outlen) \<Rightarrow>
           (s, out @ out', outlen)
      else (s, [], outlen))"
  by pat_completeness auto
termination by (relation "measure (\<lambda>(R, f, s, outlen). outlen)") auto

declare squeeze_loop.simps [simp del]

definition squeeze_output ::
  "nat \<Rightarrow> ('s \<Rightarrow> bytes) \<Rightarrow> ('s \<Rightarrow> nat \<Rightarrow> nat \<Rightarrow> bytes) \<Rightarrow> ('s \<Rightarrow> 's) \<Rightarrow>
     's \<Rightarrow> nat \<Rightarrow> u8 \<Rightarrow> 's \<times> bytes \<times> u8" where
  "squeeze_output R full part perm s outlen count =
     (let temp = unat (of_nat R - ucast count :: u32) in
      if count \<noteq> 0 \<and> temp > outlen then
        (s, part s (unat count) outlen, count + of_nat outlen)
      else
        let (out1, outlen, count) =
              (if count \<noteq> 0 then (part s (unat count) temp, outlen - temp, 0)
               else ([], outlen, count));
            (s, out2, outlen) = squeeze_loop R (\<lambda>s. let s = perm s in (s, full s)) s outlen;
            (s, out3, count) =
              (if outlen > 0 then let s = perm s in (s, part s 0 outlen, of_nat outlen)
               else (s, [], count))
        in (s, out1 @ out2 @ out3, count))"

section \<open>The loops run the machine\<close>

locale lazy_squeeze =
  fixes rep :: "'s \<Rightarrow> bytes \<Rightarrow> bool" and f :: "bytes \<Rightarrow> bytes" and R :: nat
    and full :: "'s \<Rightarrow> bytes" and part :: "'s \<Rightarrow> nat \<Rightarrow> nat \<Rightarrow> bytes" and perm :: "'s \<Rightarrow> 's"
  assumes rate: "1 < R" "R \<le> 40"
    and rep_size: "rep s b \<Longrightarrow> length b = 40"
    and full_rep: "rep s b \<Longrightarrow> full s = get_at b 0 R"
    and part_rep: "\<lbrakk>rep s b; p + n \<le> R\<rbrakk> \<Longrightarrow> part s p n = get_at b p n"
    and perm_rep: "rep s b \<Longrightarrow> rep (perm s) (f b)"
begin

abbreviation blocks where
  "blocks \<equiv> squeeze_loop R (\<lambda>s. let s = perm s in (s, full s))"

lemma first_block:
  assumes "rep s b" "0 < n" "n \<le> R"
  shows "run (lazy_step R f) (b, 0) (zeros n) = ((f b, n mod R), get_at (f b) 0 n)"
  using assms rate lazy_block[of n R f b] rep_size[OF perm_rep[OF assms(1)]] by simp

lemma squeeze_loop_run:
  assumes "rep s b"
  shows "\<exists>s' out n' b'. blocks s n = (s', out, n') \<and> n' < R \<and> rep s' b' \<and>
    run (lazy_step R f) (b, 0) (zeros n) =
      (case run (lazy_step R f) (b', 0) (zeros n') of (st, o') \<Rightarrow> (st, out @ o'))"
  using assms
proof (induction n arbitrary: s b rule: less_induct)
  case (less n)
  show ?case
  proof (cases "n < R")
    case True
    with less.prems show ?thesis
      by (auto simp: squeeze_loop.simps[of _ _ _ n] split: prod.split)
  next
    case False
    have r: "rep (perm s) (f b)" using less.prems by (rule perm_rep)
    from False rate less.IH[OF _ r, of "n - R"] obtain s' out n' b' where
      *: "blocks (perm s) (n - R) = (s', out, n')" "n' < R" "rep s' b'"
      "run (lazy_step R f) (f b, 0) (zeros (n - R)) =
      (case run (lazy_step R f) (b', 0) (zeros n') of (st, o') \<Rightarrow> (st, out @ o'))"
      by auto
    have z: "zeros n = zeros R @ zeros (n - R)" using False by (simp flip: zeros_add)
    from * False rate full_rep[OF r] first_block[OF less.prems, of R] show ?thesis
      by (simp add: squeeze_loop.simps[of _ _ _ n] z run_append Let_def) (auto simp: case_prod_beta)
  qed
qed

lemma loop_tail_run:
  assumes "rep s b"
  shows "\<exists>s1 o1 n' s2 o2 c b' p'. blocks s n = (s1, o1, n') \<and>
    (if n' > 0 then let s = perm s1 in (s, part s 0 n', of_nat n') else (s1, [], 0)) = (s2, o2, c :: u8) \<and>
    run (lazy_step R f) (b, 0) (zeros n) = ((b', p'), o1 @ o2) \<and> rep s2 b' \<and> c = of_nat p' \<and> p' < R"
proof -
  obtain s1 o1 n' b1 where *: "blocks s n = (s1, o1, n')" "n' < R" "rep s1 b1"
    "run (lazy_step R f) (b, 0) (zeros n) =
      (case run (lazy_step R f) (b1, 0) (zeros n') of (st, o') \<Rightarrow> (st, o1 @ o'))"
    using squeeze_loop_run[OF assms, of n] by blast
  show ?thesis
  proof (cases "n' = 0")
    case True
    with * rate show ?thesis by (simp add: zeros_def)
  next
    case False
    from * False rate perm_rep[OF *(3)] part_rep[OF perm_rep[OF *(3)], of 0 n'] first_block[OF *(3), of n']
    show ?thesis by (simp add: Let_def)
  qed
qed

lemma temp_eq:
  assumes "unat count < R"
  shows "unat (of_nat R - ucast (count :: u8) :: u32) = R - unat count"
proof -
  have "unat (of_nat R :: u32) = R" "unat (ucast count :: u32) = unat count"
    using rate unsigned_less[of count, where ?'a = nat]
    by (simp_all add: unat_of_nat take_bit_nat_eq_self unsigned_ucast_eq)
  with assms show ?thesis
    by (simp add: unat_sub word_le_nat_alt)
qed

theorem squeeze_run:
  assumes "rep s b" "unat count < R"
  shows "\<exists>s' b' p' out. run (lazy_step R f) (b, unat count) (zeros n) = ((b', p'), out) \<and>
    squeeze_output R full part perm s n count = (s', out, of_nat p') \<and> rep s' b' \<and> p' < R"
proof (cases "count = 0")
  case True
  obtain s1 o1 n' s2 o2 c b' p' where *: "blocks s n = (s1, o1, n')"
    "(if n' > 0 then let s = perm s1 in (s, part s 0 n', of_nat n') else (s1, [], 0)) = (s2, o2, c :: u8)"
    "run (lazy_step R f) (b, 0) (zeros n) = ((b', p'), o1 @ o2)" "rep s2 b'" "c = of_nat p'" "p' < R"
    using loop_tail_run[OF assms(1), of n] by blast
  then have "squeeze_output R full part perm s n count = (s2, o1 @ o2, of_nat p')"
    by (simp add: squeeze_output_def True)
  with * True show ?thesis by simp
next
  case c0: False
  then have p: "0 < unat count" by (simp add: unat_gt_0)
  have size: "R \<le> length b" using rep_size[OF assms(1)] rate by simp
  show ?thesis
  proof (cases "R - unat count > n")
    case True
    then have "unat count + n < R" by linarith
    with True c0 p size lazy_within[of "unat count" R n b f] part_rep[OF assms(1), of "unat count" n] assms
    show ?thesis
      by (simp add: squeeze_output_def temp_eq Let_def)
  next
    case False
    let ?t = "R - unat count"
    have z: "zeros n = zeros ?t @ zeros (n - ?t)" using False by (simp flip: zeros_add)
    have first: "run (lazy_step R f) (b, unat count) (zeros ?t) = ((b, 0), get_at b (unat count) ?t)"
      using lazy_within[of "unat count" R ?t b f] p assms(2) size by simp
    obtain s1 o1 n' s2 o2 c b' p' where *: "blocks s (n - ?t) = (s1, o1, n')"
      "(if n' > 0 then let s = perm s1 in (s, part s 0 n', of_nat n') else (s1, [], 0)) = (s2, o2, c :: u8)"
      "run (lazy_step R f) (b, 0) (zeros (n - ?t)) = ((b', p'), o1 @ o2)" "rep s2 b'" "c = of_nat p'" "p' < R"
      using loop_tail_run[OF assms(1), of "n - ?t"] by blast
    have "squeeze_output R full part perm s n count = (s2, part s (unat count) ?t @ o1 @ o2, of_nat p')"
      using False c0 *(1,2,5) by (simp add: squeeze_output_def temp_eq[OF assms(2)])
    with * part_rep[OF assms(1), of "unat count" ?t] assms(2) show ?thesis
      by (simp add: z run_append first)
  qed
qed

end

end
