(* ===== verification/Sponge_Spec.thy ===== *)
theory Sponge_Spec
  imports Aead_Spec Squeeze
begin

text \<open>
  The sponge of ASCON-XOF and ASCON-HASH on byte strings, and its incremental form.  A sponge
  in use is the 40 bytes of the state, the position in the current block and the phase.  The
  two families of the code differ in when they permute while squeezing: ASCON-XOF before a
  block is read (\<open>lazy_step\<close>), ASCON-XOFA as soon as a block is used up (\<open>duplex_step\<close>).  Both give
  the blocks of \<open>spec_squeeze\<close>.
\<close>

section \<open>The construction\<close>

definition spec_sponge :: "u8 \<Rightarrow> bytes \<Rightarrow> bytes \<Rightarrow> nat \<Rightarrow> bytes" where
  "spec_sponge fr b xs n =
     spec_squeeze 8 (\<lambda>b. permute_bytes b fr) (permute_bytes (spec_absorb 8 fr b xs) 0) n"

definition spec_xof_start :: "u64 \<Rightarrow> nat \<Rightarrow> bytes" where
  "spec_xof_start iv outlen =
     permute_bytes (be_store_word64 (iv OR of_nat (outlen * 8)) @ zeros 32) 0"

section \<open>Incremental sponges\<close>

type_synonym sponge = "bytes \<times> nat \<times> bool"

definition extract_effect :: effect where
  "extract_effect b p xs = (b, get_at b p (length xs))"

definition sponge_absorb :: "u8 \<Rightarrow> sponge \<Rightarrow> bytes \<Rightarrow> sponge" where
  "sponge_absorb fr st xs = (case st of (b, p, m) \<Rightarrow>
     let (b, p) = (if m then (permute_bytes b 0, 0) else (b, p));
         ((b, p), _) = run (machine absorb_effect 8 fr) (b, p) xs
     in (b, p, False))"

definition lazy_sponge_squeeze :: "sponge \<Rightarrow> nat \<Rightarrow> sponge \<times> bytes" where
  "lazy_sponge_squeeze st n = (case st of (b, p, m) \<Rightarrow>
     let (b, p) = (if m then (b, p) else (xor_at b p [0x80], 0));
         ((b, p), out) = run (lazy_step 8 (\<lambda>b. permute_bytes b 0)) (b, p) (zeros n)
     in ((b, p, True), out))"

definition eager_sponge_squeeze :: "u8 \<Rightarrow> sponge \<Rightarrow> nat \<Rightarrow> sponge \<times> bytes" where
  "eager_sponge_squeeze fr st n = (case st of (b, p, m) \<Rightarrow>
     let (b, p) = (if m then (b, p) else (permute_bytes (xor_at b p [0x80]) 0, 0));
         ((b, p), out) = run (machine extract_effect 8 fr) (b, p) (zeros n)
     in ((b, p, True), out))"

definition sponge_ok :: "sponge \<Rightarrow> bool" where
  "sponge_ok st \<longleftrightarrow> (case st of (b, p, m) \<Rightarrow> length b = 40 \<and> p < 8)"

text \<open>Padding to a block boundary without absorbing, and a customisation string, which is absorbed,
  padded, permuted and separated from the input.\<close>

definition sponge_pad :: "u8 \<Rightarrow> sponge \<Rightarrow> sponge" where
  "sponge_pad fr st = (case st of (b, p, m) \<Rightarrow>
     if m then sponge_absorb fr st []
     else if p \<noteq> 0 then (permute_bytes b fr, 0, False) else st)"

definition sponge_absorb_custom :: "u8 \<Rightarrow> sponge \<Rightarrow> bytes \<Rightarrow> sponge" where
  "sponge_absorb_custom fr st custom =
     (if custom = [] then st
      else case sponge_absorb fr st custom of (b, p, m) \<Rightarrow>
        (xor_at (permute_bytes (xor_at b p [0x80]) fr) 39 [1], 0, m))"

definition spec_name_block :: "u8 \<Rightarrow> u64 \<Rightarrow> bytes option \<Rightarrow> bytes" where
  "spec_name_block fr iv name =
     (let name = (case name of None \<Rightarrow> [] | Some name \<Rightarrow> name) in
      if length name \<le> 32 then name @ zeros (32 - length name)
      else spec_sponge fr (spec_xof_start iv 32) name 32)"

definition spec_custom_start :: "u8 \<Rightarrow> u64 \<Rightarrow> bytes option \<Rightarrow> bytes \<Rightarrow> nat \<Rightarrow> sponge" where
  "spec_custom_start fr iv name custom outlen =
     sponge_absorb_custom fr
       (permute_bytes (be_store_word64 (iv OR of_nat (outlen * 8)) @ spec_name_block fr iv name) 0, 0, False)
       custom"

text \<open>The customised function that KMAC, the key derivation functions and PBKDF2 are made of.\<close>

definition spec_cxof :: "u8 \<Rightarrow> u64 \<Rightarrow> bytes \<Rightarrow> bytes \<Rightarrow> nat \<Rightarrow> bytes \<Rightarrow> nat \<Rightarrow> bytes" where
  "spec_cxof fr iv name custom outlen xs n =
     spec_sponge fr
       (fst (spec_custom_start fr iv (Some name) custom (if outlen \<ge> 2 ^ 29 then 0 else outlen))) xs n"

text \<open>Output requested in pieces.\<close>

fun pull :: "('st \<Rightarrow> nat \<Rightarrow> 'st \<times> bytes) \<Rightarrow> 'st \<Rightarrow> nat list \<Rightarrow> 'st \<times> bytes" where
  "pull f st [] = (st, [])"
| "pull f st (n # ns) =
     (let (st1, out1) = f st n; (st2, out2) = pull f st1 ns in (st2, out1 @ out2))"

section \<open>The byte machines and the blocks\<close>

lemma extract_effect_append:
  "extract_effect b p (xs @ ys) =
     (case extract_effect b p xs of (b', out) \<Rightarrow> case extract_effect b' (p + length xs) ys of
        (b'', out') \<Rightarrow> (b'', out @ out'))"
  by (simp add: extract_effect_def get_at_append)

lemma extract_effect_Nil: "extract_effect b p [] = (b, [])"
  by (simp add: extract_effect_def)

sublocale snp_laws \<subseteq> extract_8: duplex rep extract_effect "\<lambda>b. permute_bytes b fr" 8
    "\<lambda>s d off. (s, snp_squeeze_8 B s off)" "\<lambda>s d off n. (s, snp_squeeze_partial B s off n)"
    "\<lambda>s. snp_permute B s fr" for fr
  by unfold_locales
    (auto simp: extract_effect_append extract_effect_Nil rep_permute, auto simp: extract_effect_def
      rep_squeeze_8 rep_squeeze_partial)

sublocale snp_laws \<subseteq> squeeze_8: lazy_squeeze rep "\<lambda>b. permute_bytes b 0" 8
    "\<lambda>s. snp_squeeze_8 B s 0" "snp_squeeze_partial B" "\<lambda>s. snp_permute B s 0"
  by unfold_locales (simp_all add: rep_length rep_squeeze_8 rep_squeeze_partial rep_permute)

text \<open>The eager machine is a duplex, so its lemmas come from the locale, on any backend; the byte
  machine itself is the backend here.\<close>

lemma eager_within:
  "\<lbrakk>p + n < 8; length b = 40\<rbrakk> \<Longrightarrow>
     run (duplex_step extract_effect f 8) (b, p) (zeros n) = ((b, p + n), get_at b p n)"
proof (induction n arbitrary: p)
  case (Suc n)
  have "get_at b p (Suc n) = b ! p # get_at b (Suc p) n" "get_at b p (Suc 0) = [b ! p]"
    using Suc.prems by (simp_all add: get_at_def flip: Cons_nth_drop_Suc)
  with Suc.IH[of "Suc p"] Suc.prems show ?case
    by (simp add: zeros_def duplex_step_def extract_effect_def)
qed (simp add: zeros_def)

lemma eager_block:
  assumes "length b = 40"
  shows "run (duplex_step extract_effect f 8) (b, 0) (zeros 8) = ((f b, 0), get_at b 0 8)"
proof -
  have z: "zeros 8 = zeros 7 @ zeros 1" by (simp flip: zeros_add)
  have "get_at b 0 8 = get_at b 0 7 @ get_at b 7 1" "get_at b 7 (Suc 0) = [b ! 7]"
    using get_at_append[of b 0 7 1] assms by (simp_all add: get_at_def flip: Cons_nth_drop_Suc)
  with eager_within[of 0 7 b f] assms show ?thesis
    by (simp add: z run_append) (simp add: zeros_def duplex_step_def extract_effect_def)
qed

lemma eager_squeeze:
  assumes "\<And>b. length (f b) = 40" "length b = 40"
  shows "snd (run (duplex_step extract_effect f 8) (b, 0) (zeros n)) = spec_squeeze 8 f b n"
  using assms(2)
proof (induction n arbitrary: b rule: less_induct)
  case (less n)
  consider "n < 8" | "n = 8" | "n > 8" by linarith
  then show ?case
  proof cases
    case 1
    with eager_within[of 0 n b f] less.prems show ?thesis by (simp add: spec_squeeze.simps)
  next
    case 2
    with eager_block[OF less.prems, of f] show ?thesis by (simp add: spec_squeeze.simps)
  next
    case 3
    then have "zeros n = zeros 8 @ zeros (n - 8)" by (simp flip: zeros_add)
    with 3 less.IH[of "n - 8" "f b"] eager_block[OF less.prems, of f] assms show ?thesis
      by (simp add: run_append case_prod_beta spec_squeeze.simps[of 8 f b n])
  qed
qed

section \<open>Pieces\<close>

lemma run_invariant:
  "\<lbrakk>\<And>st x. P st \<Longrightarrow> P (fst (step st x)); P st\<rbrakk> \<Longrightarrow> P (fst (run step st xs))"
  by (induction xs arbitrary: st) (simp_all add: case_prod_beta Let_def)

lemma squeeze_step_ok:
  "duplex_ok 8 st \<Longrightarrow> duplex_ok 8 (fst (lazy_step 8 (\<lambda>b. permute_bytes b fr) st x))"
  "duplex_ok 8 st \<Longrightarrow> duplex_ok 8 (fst (machine extract_effect 8 fr st x))"
  by (auto simp: duplex_ok_def lazy_step_def machine_def duplex_step_def extract_effect_def Let_def
      split: prod.splits)

lemma lazy_sponge_ok: "sponge_ok st \<Longrightarrow> sponge_ok (fst (lazy_sponge_squeeze st n))"
proof -
  assume ok: "sponge_ok st"
  obtain b p m where st: "st = (b, p, m)" by (metis prod.exhaust)
  define b0 p0 where "b0 = (if m then b else xor_at b p [0x80])" and "p0 = (if m then p else 0)"
  have "duplex_ok 8 (b0, p0)" using ok by (simp add: st sponge_ok_def duplex_ok_def b0_def p0_def)
  then have "duplex_ok 8 (fst (run (lazy_step 8 (\<lambda>b. permute_bytes b 0)) (b0, p0) (zeros n)))"
    using run_invariant[of "duplex_ok 8" "lazy_step 8 (\<lambda>b. permute_bytes b 0)" "(b0, p0)" "zeros n"] squeeze_step_ok(1) by blast
  then show ?thesis
    by (cases m) (auto simp: st lazy_sponge_squeeze_def sponge_ok_def duplex_ok_def b0_def p0_def
        split: prod.split)
qed

lemma eager_sponge_ok: "sponge_ok st \<Longrightarrow> sponge_ok (fst (eager_sponge_squeeze fr st n))"
proof -
  assume ok: "sponge_ok st"
  obtain b p m where st: "st = (b, p, m)" by (metis prod.exhaust)
  define b0 p0 where "b0 = (if m then b else permute_bytes (xor_at b p [0x80]) 0)" and "p0 = (if m then p else 0)"
  have "duplex_ok 8 (b0, p0)" using ok by (simp add: st sponge_ok_def duplex_ok_def b0_def p0_def)
  then have "duplex_ok 8 (fst (run (machine extract_effect 8 fr) (b0, p0) (zeros n)))"
    using run_invariant[of "duplex_ok 8" "machine extract_effect 8 fr" "(b0, p0)" "zeros n"] squeeze_step_ok(2) by blast
  then show ?thesis
    by (cases m) (auto simp: st eager_sponge_squeeze_def sponge_ok_def duplex_ok_def b0_def p0_def
        split: prod.split)
qed

lemma sponge_absorb_ok: "sponge_ok st \<Longrightarrow> sponge_ok (sponge_absorb fr st xs)"
proof -
  assume ok: "sponge_ok st"
  obtain b p m where st: "st = (b, p, m)" by (metis prod.exhaust)
  define b0 p0 where "b0 = (if m then permute_bytes b 0 else b)" and "p0 = (if m then 0 else p)"
  have "duplex_ok 8 (b0, p0)" using ok by (simp add: st sponge_ok_def duplex_ok_def b0_def p0_def)
  from run_ok[OF _ this, of absorb_effect fr xs] show ?thesis
    by (cases m) (auto simp: st sponge_absorb_def sponge_ok_def duplex_ok_def b0_def p0_def
        split: prod.split)
qed

text \<open>Absorbing and squeezing in pieces.\<close>

lemma sponge_absorb_append:
  "sponge_absorb fr (sponge_absorb fr st xs) ys = sponge_absorb fr st (xs @ ys)"
  by (simp add: sponge_absorb_def run_append Let_def split: prod.splits if_splits)

lemma lazy_squeeze_append:
  "lazy_sponge_squeeze st (m + n) =
     (case lazy_sponge_squeeze st m of (st1, o1) \<Rightarrow> case lazy_sponge_squeeze st1 n of
        (st2, o2) \<Rightarrow> (st2, o1 @ o2))"
  by (auto simp: lazy_sponge_squeeze_def run_append zeros_add Let_def split: prod.splits if_splits)

lemma eager_squeeze_append:
  "eager_sponge_squeeze fr st (m + n) =
     (case eager_sponge_squeeze fr st m of (st1, o1) \<Rightarrow> case eager_sponge_squeeze fr st1 n of
        (st2, o2) \<Rightarrow> (st2, o1 @ o2))"
  by (auto simp: eager_sponge_squeeze_def run_append zeros_add Let_def split: prod.splits if_splits)

text \<open>A whole message and a whole output.\<close>

lemma lazy_sponge_output:
  assumes "length b = 40"
  shows "snd (lazy_sponge_squeeze (sponge_absorb 0 (b, 0, False) xs) n) = spec_sponge 0 b xs n"
  using lazy_spec_squeeze[of 8 "\<lambda>b. permute_bytes b 0"]
  by (simp add: lazy_sponge_squeeze_def sponge_absorb_def spec_sponge_def spec_absorb_def
      case_prod_beta)

lemma eager_sponge_output:
  assumes "length b = 40"
  shows "snd (eager_sponge_squeeze fr (sponge_absorb fr (b, 0, False) xs) n) = spec_sponge fr b xs n"
  using eager_squeeze[of "\<lambda>b. permute_bytes b fr"]
  by (simp add: eager_sponge_squeeze_def sponge_absorb_def spec_sponge_def spec_absorb_def machine_def
      case_prod_beta)

lemma sponge_absorb_pieces:
  "foldl (sponge_absorb fr) (sponge_absorb fr st xs) ms = sponge_absorb fr st (xs @ concat ms)"
  by (induction ms arbitrary: xs) (simp_all add: sponge_absorb_append)

lemma sponge_absorb_Nil: "sponge_absorb fr (b, p, False) [] = (b, p, False)"
  by (simp add: sponge_absorb_def)

lemma sponge_absorb_fold:
  "foldl (sponge_absorb fr) (b, p, False) ms = sponge_absorb fr (b, p, False) (concat ms)"
  using sponge_absorb_pieces[of fr "(b, p, False)" "[]" ms] by (simp add: sponge_absorb_Nil)

lemma lazy_squeeze_pieces: "snd (pull lazy_sponge_squeeze st ns) = snd (lazy_sponge_squeeze st (sum_list ns))"
proof (induction ns arbitrary: st)
  case Nil
  show ?case by (simp add: lazy_sponge_squeeze_def zeros_def split: prod.split)
qed (simp add: lazy_squeeze_append case_prod_beta Let_def)

lemma eager_squeeze_pieces:
  "snd (pull (eager_sponge_squeeze fr) st ns) = snd (eager_sponge_squeeze fr st (sum_list ns))"
proof (induction ns arbitrary: st)
  case Nil
  show ?case by (simp add: eager_sponge_squeeze_def zeros_def split: prod.split)
qed (simp add: eager_squeeze_append case_prod_beta Let_def)

lemma length_spec_sponge [simp]: "length (spec_sponge fr b xs n) = n"
  by (simp add: spec_sponge_def length_spec_squeeze)

lemma length_spec_name_block: "length (spec_name_block fr iv name) = 32"
  by (simp add: spec_name_block_def Let_def split: option.split)

lemma spec_custom_start_fresh:
  "spec_custom_start fr iv name custom outlen = (fst (spec_custom_start fr iv name custom outlen), 0, False)"
  by (auto simp: spec_custom_start_def sponge_absorb_custom_def sponge_absorb_def split: prod.splits)

end
