(* ===== verification/Ascon_Eval.thy ===== *)
theory Ascon_Eval
  imports Ascon_Permutation
begin

text \<open>
  Evaluation of the permutation inside the kernel.  A word is represented by the list of its bits,
  least significant bit first, on which the bitwise operations are one rewrite step per bit
  and a rotation is \<open>drop\<close> and \<open>take\<close>.  The collection \<open>perm_eval\<close> turns literals into
  bit lists and computes.
  The theory holds no model of the code.
\<close>

definition of_bits :: "bool list \<Rightarrow> 'a::len word" where
  "of_bits bs = horner_sum of_bool 2 bs"

lemma bit_of_bits: "bit (of_bits bs :: 'a::len word) i \<longleftrightarrow> i < LENGTH('a) \<and> i < length bs \<and> bs ! i"
  by (simp add: of_bits_def bit_horner_sum_bit_word_iff)

fun bits_xor :: "bool list \<Rightarrow> bool list \<Rightarrow> bool list" where
  "bits_xor [] ys = ys"
| "bits_xor (x # xs) [] = x # xs"
| "bits_xor (x # xs) (y # ys) = (x \<noteq> y) # bits_xor xs ys"

fun bits_and :: "bool list \<Rightarrow> bool list \<Rightarrow> bool list" where
  "bits_and (x # xs) (y # ys) = (x \<and> y) # bits_and xs ys"
| "bits_and xs ys = []"

fun bits_not :: "bool list \<Rightarrow> bool list" where
  "bits_not [] = []"
| "bits_not (True # xs) = False # bits_not xs"
| "bits_not (False # xs) = True # bits_not xs"

text \<open>The bits of a numeral, written over a list of as many \<open>False\<close> as the word is wide.\<close>

fun bits_num :: "bool list \<Rightarrow> num \<Rightarrow> bool list" where
  "bits_num [] k = []"
| "bits_num (t # ts) num.One = True # ts"
| "bits_num (t # ts) (num.Bit0 k) = False # bits_num ts k"
| "bits_num (t # ts) (num.Bit1 k) = True # bits_num ts k"

lemma bits_xor_eval:
  "bits_xor (True # xs) (True # ys) = False # bits_xor xs ys"
  "bits_xor (True # xs) (False # ys) = True # bits_xor xs ys"
  "bits_xor (False # xs) (True # ys) = True # bits_xor xs ys"
  "bits_xor (False # xs) (False # ys) = False # bits_xor xs ys"
  "bits_xor [] [] = []"
  by simp_all

lemma bits_and_eval:
  "bits_and (True # xs) (True # ys) = True # bits_and xs ys"
  "bits_and (True # xs) (False # ys) = False # bits_and xs ys"
  "bits_and (False # xs) (True # ys) = False # bits_and xs ys"
  "bits_and (False # xs) (False # ys) = False # bits_and xs ys"
  "bits_and [] [] = []"
  by simp_all

lemma length_bits_xor: "length (bits_xor a b) = max (length a) (length b)"
  by (induction a b rule: bits_xor.induct) auto

lemma nth_bits_xor:
  "i < length (bits_xor a b) \<Longrightarrow>
     bits_xor a b ! i = ((i < length a \<and> a ! i) \<noteq> (i < length b \<and> b ! i))"
  by (induction a b arbitrary: i rule: bits_xor.induct) (auto simp: nth_Cons' length_bits_xor)

lemma bits_and_map2: "bits_and a b = map2 (\<and>) a b"
  by (induction a b rule: bits_and.induct) auto

lemma bits_not_map: "bits_not xs = map Not xs"
  by (induction xs rule: bits_not.induct) auto

lemma length_bits_num: "length (bits_num ts k) = length ts"
  by (induction ts k rule: bits_num.induct) auto

lemma nth_bits_num:
  "\<lbrakk>list_all Not ts; i < length ts\<rbrakk> \<Longrightarrow> bits_num ts k ! i = bit (numeral k :: int) i"
proof (induction ts k arbitrary: i rule: bits_num.induct)
  case (2 t ts)
  then show ?case by (cases i) (auto simp: list_all_length)
next
  case (3 t ts k)
  then show ?case by (cases i) auto
next
  case (4 t ts k)
  then show ?case by (cases i) auto
qed simp

lemma numeral_of_bits:
  assumes "list_all Not ts" "length ts = LENGTH('a)"
  shows "(numeral k :: 'a::len word) = of_bits (bits_num ts k)"
  using assms
  by (intro bit_word_eqI) (auto simp: bit_of_bits nth_bits_num length_bits_num)

lemma of_bits_xor: "of_bits a XOR of_bits b = (of_bits (bits_xor a b) :: 'a::len word)"
  by (rule bit_word_eqI) (auto simp: bit_xor_iff bit_of_bits length_bits_xor nth_bits_xor)

lemma of_bits_and: "of_bits a AND of_bits b = (of_bits (bits_and a b) :: 'a::len word)"
  by (rule bit_word_eqI) (auto simp: bit_and_iff bit_of_bits bits_and_map2)

lemma of_bits_not: "length a = 64 \<Longrightarrow> NOT (of_bits a) = (of_bits (bits_not a) :: u64)"
  by (rule bit_word_eqI) (auto simp: bit_not_iff bit_of_bits bits_not_map)

lemma of_bits_rotate:
  "\<lbrakk>length a = 64; n < 64\<rbrakk> \<Longrightarrow> rightRotate_64 (of_bits a) n = of_bits (drop n a @ take n a)"
  by (rule bit_word_eqI)
    (auto simp: rightRotate_64_def bit_or_iff bit_drop_bit_eq bit_push_bit_iff bit_of_bits
      nth_append)

lemma literal_64:
  "(numeral k :: u64) = of_bits (bits_num [False, False, False, False, False, False, False, False, False, False, False, False, False, False, False, False,
     False, False, False, False, False, False, False, False, False, False, False, False, False, False, False, False,
     False, False, False, False, False, False, False, False, False, False, False, False, False, False, False, False,
     False, False, False, False, False, False, False, False, False, False, False, False, False, False, False, False] k)"
  by (rule numeral_of_bits) simp_all

lemma zero_64: "(0 :: u64) = of_bits [False, False, False, False, False, False, False, False, False, False, False, False, False, False, False, False,
     False, False, False, False, False, False, False, False, False, False, False, False, False, False, False, False,
     False, False, False, False, False, False, False, False, False, False, False, False, False, False, False, False,
     False, False, False, False, False, False, False, False, False, False, False, False, False, False, False, False]"
  by (simp add: of_bits_def)

lemma literal_8:
  "(numeral k :: u8) = of_bits (bits_num [False, False, False, False, False, False, False, False] k)"
  by (rule numeral_of_bits) simp_all

lemma zero_8: "(0 :: u8) = of_bits [False, False, False, False, False, False, False, False]"
  by (simp add: of_bits_def)

lemma one_8: "(1 :: u8) = of_bits [True, False, False, False, False, False, False, False]"
  by (simp add: of_bits_def)

lemma length_64:
  "length [bt0, bt1, bt2, bt3, bt4, bt5, bt6, bt7, bt8, bt9, bt10, bt11, bt12, bt13, bt14, bt15,
     bt16, bt17, bt18, bt19, bt20, bt21, bt22, bt23, bt24, bt25, bt26, bt27, bt28, bt29, bt30, bt31,
     bt32, bt33, bt34, bt35, bt36, bt37, bt38, bt39, bt40, bt41, bt42, bt43, bt44, bt45, bt46, bt47,
     bt48, bt49, bt50, bt51, bt52, bt53, bt54, bt55, bt56, bt57, bt58, bt59, bt60, bt61, bt62, bt63] = 64"
  by simp

lemma load_bits:
  "be_load_word64 [of_bits [bt56, bt57, bt58, bt59, bt60, bt61, bt62, bt63],
      of_bits [bt48, bt49, bt50, bt51, bt52, bt53, bt54, bt55],
      of_bits [bt40, bt41, bt42, bt43, bt44, bt45, bt46, bt47],
      of_bits [bt32, bt33, bt34, bt35, bt36, bt37, bt38, bt39],
      of_bits [bt24, bt25, bt26, bt27, bt28, bt29, bt30, bt31],
      of_bits [bt16, bt17, bt18, bt19, bt20, bt21, bt22, bt23],
      of_bits [bt8, bt9, bt10, bt11, bt12, bt13, bt14, bt15],
      of_bits [bt0, bt1, bt2, bt3, bt4, bt5, bt6, bt7]] = of_bits [bt0, bt1, bt2, bt3, bt4, bt5, bt6, bt7, bt8, bt9, bt10, bt11, bt12, bt13, bt14, bt15,
     bt16, bt17, bt18, bt19, bt20, bt21, bt22, bt23, bt24, bt25, bt26, bt27, bt28, bt29, bt30, bt31,
     bt32, bt33, bt34, bt35, bt36, bt37, bt38, bt39, bt40, bt41, bt42, bt43, bt44, bt45, bt46, bt47,
     bt48, bt49, bt50, bt51, bt52, bt53, bt54, bt55, bt56, bt57, bt58, bt59, bt60, bt61, bt62, bt63]"
proof (rule bit_word_eqI)
  fix i assume "i < LENGTH(64)"
  then have i: "i < 64" by simp
  obtain q r where r: "i = 8 * q + r" "r < 8" "i div 8 = q" "i mod 8 = r"
    by (rule byte_bit_cases)
  with i have "q < 8" by simp
  from less_8_cases[OF this] less_8_cases[OF r(2)]
  show "bit (be_load_word64 [of_bits [bt56, bt57, bt58, bt59, bt60, bt61, bt62, bt63],
      of_bits [bt48, bt49, bt50, bt51, bt52, bt53, bt54, bt55],
      of_bits [bt40, bt41, bt42, bt43, bt44, bt45, bt46, bt47],
      of_bits [bt32, bt33, bt34, bt35, bt36, bt37, bt38, bt39],
      of_bits [bt24, bt25, bt26, bt27, bt28, bt29, bt30, bt31],
      of_bits [bt16, bt17, bt18, bt19, bt20, bt21, bt22, bt23],
      of_bits [bt8, bt9, bt10, bt11, bt12, bt13, bt14, bt15],
      of_bits [bt0, bt1, bt2, bt3, bt4, bt5, bt6, bt7]]) i = bit (of_bits [bt0, bt1, bt2, bt3, bt4, bt5, bt6, bt7, bt8, bt9, bt10, bt11, bt12, bt13, bt14, bt15,
     bt16, bt17, bt18, bt19, bt20, bt21, bt22, bt23, bt24, bt25, bt26, bt27, bt28, bt29, bt30, bt31,
     bt32, bt33, bt34, bt35, bt36, bt37, bt38, bt39, bt40, bt41, bt42, bt43, bt44, bt45, bt46, bt47,
     bt48, bt49, bt50, bt51, bt52, bt53, bt54, bt55, bt56, bt57, bt58, bt59, bt60, bt61, bt62, bt63] :: u64) i"
    unfolding bit_be_load_word64 r(3,4) unfolding r(1)
    by (elim disjE) (simp_all add: bit_of_bits)
qed

lemma store_bits:
  "be_store_word64 (of_bits [bt0, bt1, bt2, bt3, bt4, bt5, bt6, bt7, bt8, bt9, bt10, bt11, bt12, bt13, bt14, bt15,
     bt16, bt17, bt18, bt19, bt20, bt21, bt22, bt23, bt24, bt25, bt26, bt27, bt28, bt29, bt30, bt31,
     bt32, bt33, bt34, bt35, bt36, bt37, bt38, bt39, bt40, bt41, bt42, bt43, bt44, bt45, bt46, bt47,
     bt48, bt49, bt50, bt51, bt52, bt53, bt54, bt55, bt56, bt57, bt58, bt59, bt60, bt61, bt62, bt63]) = [of_bits [bt56, bt57, bt58, bt59, bt60, bt61, bt62, bt63],
      of_bits [bt48, bt49, bt50, bt51, bt52, bt53, bt54, bt55],
      of_bits [bt40, bt41, bt42, bt43, bt44, bt45, bt46, bt47],
      of_bits [bt32, bt33, bt34, bt35, bt36, bt37, bt38, bt39],
      of_bits [bt24, bt25, bt26, bt27, bt28, bt29, bt30, bt31],
      of_bits [bt16, bt17, bt18, bt19, bt20, bt21, bt22, bt23],
      of_bits [bt8, bt9, bt10, bt11, bt12, bt13, bt14, bt15],
      of_bits [bt0, bt1, bt2, bt3, bt4, bt5, bt6, bt7]]"
  by (simp flip: load_bits add: be_store_load_word64)

lemma shift_bounds:
  "(19::nat) < 64" "(28::nat) < 64" "(61::nat) < 64" "(39::nat) < 64" "(1::nat) < 64"
  "(6::nat) < 64" "(10::nat) < 64" "(17::nat) < 64" "(7::nat) < 64" "(41::nat) < 64"
  by simp_all

lemma drop_take_numeral:
  "drop (numeral v) (x # xs) = drop (pred_numeral v) xs"
  "take (numeral v) (x # xs) = x # take (pred_numeral v) xs"
  by (simp_all add: numeral_eq_Suc)

lemma drop_take_1: "drop 1 (x # xs) = xs" "take 1 (x # xs) = [x]"
  by simp_all

lemma RC_literals:
  "RC = [0xFFFFFFFFFFFFFF0F, 0xFFFFFFFFFFFFFF1E, 0xFFFFFFFFFFFFFF2D, 0xFFFFFFFFFFFFFF3C,
     0xFFFFFFFFFFFFFF4B, 0xFFFFFFFFFFFFFF5A, 0xFFFFFFFFFFFFFF69, 0xFFFFFFFFFFFFFF78,
     0xFFFFFFFFFFFFFF87, 0xFFFFFFFFFFFFFF96, 0xFFFFFFFFFFFFFFA5, 0xFFFFFFFFFFFFFFB4]"
  by (simp add: RC_def ROUND_CONSTANT_def)

lemma c64_rounds_12:
  "c64_rounds 0 s =
     c64_round 0xFFFFFFFFFFFFFFB4 (c64_round 0xFFFFFFFFFFFFFFA5 (c64_round 0xFFFFFFFFFFFFFF96
    (c64_round 0xFFFFFFFFFFFFFF87 (c64_round 0xFFFFFFFFFFFFFF78 (c64_round 0xFFFFFFFFFFFFFF69
    (c64_round 0xFFFFFFFFFFFFFF5A (c64_round 0xFFFFFFFFFFFFFF4B (c64_round 0xFFFFFFFFFFFFFF3C
    (c64_round 0xFFFFFFFFFFFFFF2D (c64_round 0xFFFFFFFFFFFFFF1E (c64_round 0xFFFFFFFFFFFFFF0F
      s)))))))))))"
  by (simp add: c64_rounds.simps RC_literals)

lemma c64_rounds_8:
  "c64_rounds 4 s =
     c64_round 0xFFFFFFFFFFFFFFB4 (c64_round 0xFFFFFFFFFFFFFFA5 (c64_round 0xFFFFFFFFFFFFFF96
    (c64_round 0xFFFFFFFFFFFFFF87 (c64_round 0xFFFFFFFFFFFFFF78 (c64_round 0xFFFFFFFFFFFFFF69
    (c64_round 0xFFFFFFFFFFFFFF5A (c64_round 0xFFFFFFFFFFFFFF4B s)))))))"
  by (simp add: c64_rounds.simps RC_literals)

lemma c64_rounds_6:
  "c64_rounds 6 s =
     c64_round 0xFFFFFFFFFFFFFFB4 (c64_round 0xFFFFFFFFFFFFFFA5 (c64_round 0xFFFFFFFFFFFFFF96
    (c64_round 0xFFFFFFFFFFFFFF87 (c64_round 0xFFFFFFFFFFFFFF78 (c64_round 0xFFFFFFFFFFFFFF69
      s)))))"
  by (simp add: c64_rounds.simps RC_literals)

text \<open>One round as a chain of calls, so that every intermediate value is a literal by the time
  it is duplicated.\<close>

definition ev_out :: "u64 \<Rightarrow> u64 \<Rightarrow> u64 \<Rightarrow> u64 \<Rightarrow> u64 \<Rightarrow> regs" where
  "ev_out x0 x1 x2 x3 x4 = (x0, x1, x2, x3, x4)"

definition ev_linear :: "u64 \<Rightarrow> u64 \<Rightarrow> u64 \<Rightarrow> u64 \<Rightarrow> u64 \<Rightarrow> regs" where
  "ev_linear x0 x1 x2 x3 x4 = ev_out
     (x0 XOR (rightRotate_64 x0 19 XOR rightRotate_64 x0 28))
     (x1 XOR (rightRotate_64 x1 61 XOR rightRotate_64 x1 39))
     (x2 XOR (rightRotate_64 x2 1 XOR rightRotate_64 x2 6))
     (x3 XOR (rightRotate_64 x3 10 XOR rightRotate_64 x3 17))
     (x4 XOR (rightRotate_64 x4 7 XOR rightRotate_64 x4 41))"

definition ev_sbox3 :: "u64 \<Rightarrow> u64 \<Rightarrow> u64 \<Rightarrow> u64 \<Rightarrow> u64 \<Rightarrow> regs" where
  "ev_sbox3 x0 x1 x2 x3 x4 = ev_linear (x0 XOR x4) (x1 XOR x0) x2 (x3 XOR x2) x4"

definition ev_sbox2 :: "u64 \<Rightarrow> u64 \<Rightarrow> u64 \<Rightarrow> u64 \<Rightarrow> u64 \<Rightarrow> regs" where
  "ev_sbox2 x0 x1 x2 x3 x4 =
     ev_sbox3 (x0 XOR (NOT x1 AND x2)) (x1 XOR (NOT x2 AND x3)) (x2 XOR (NOT x3 AND x4))
       (x3 XOR (NOT x4 AND x0)) (x4 XOR (NOT x0 AND x1))"

definition ev_sbox1 :: "u64 \<Rightarrow> u64 \<Rightarrow> u64 \<Rightarrow> u64 \<Rightarrow> u64 \<Rightarrow> regs" where
  "ev_sbox1 x0 x1 x2 x3 x4 = ev_sbox2 (x0 XOR x4) x1 (x2 XOR x1) x3 (x4 XOR x3)"

lemma ev_round:
  "c64_round rc (x0, x1, x2, x3, x4) = ev_sbox1 x0 x1 (x2 XOR rc) x3 x4"
  by (simp add: c64_round_def c64_sbox_def c64_linear_def ev_sbox1_def ev_sbox2_def ev_sbox3_def
      ev_linear_def ev_out_def Let_def)

definition ev_finish :: "regs \<Rightarrow> regs" where
  "ev_finish s = (case s of (x0, x1, x2, x3, x4) \<Rightarrow> (x0, x1, NOT x2, x3, x4))"

lemma ev_finish: "ev_finish (x0, x1, x2, x3, x4) = (x0, x1, NOT x2, x3, x4)"
  by (simp add: ev_finish_def)

lemma ev_permute:
  "c64_permute (x0, x1, x2, x3, x4) r = ev_finish (c64_rounds r (x0, x1, NOT x2, x3, x4))"
  by (simp add: c64_permute_def ev_finish_def)

lemmas perm_eval =
  ev_permute c64_rounds_12 c64_rounds_8 c64_rounds_6 ev_round ev_sbox1_def ev_sbox2_def
  ev_sbox3_def ev_linear_def ev_out_def ev_finish literal_64 zero_64 length_64
  of_bits_xor of_bits_and of_bits_not of_bits_rotate bits_xor_eval bits_and_eval
  bits_not.simps bits_num.simps shift_bounds drop_take_numeral drop_take_1
  drop_0 take_0 append.simps pred_numeral_simps numeral_One BitM.simps simp_thms

lemmas byte_eval = literal_8 zero_8 one_8 load_bits store_bits

text \<open>The initial state of ASCON-XOF, computed from its initial block.\<close>

lemma xof_initial_state:
  "c64_permute (0x00400c0000000000, 0, 0, 0, 0) 0 =
     (0xb57e273b814cd416, 0x2b51042562ae2420, 0x66a3a7768ddf2218, 0x5aad0a7a8153650c,
      0x4f3e0e32539493b6)"
  by (simp only: perm_eval)

end
