(* ===== verification/Xof.thy ===== *)
theory Xof
  imports Sponge_Spec Ascon_Eval
begin

text \<open>
  \<open>hash/ascon-xof.c\<close>: ASCON-XOF, absorbing and squeezing in pieces of any sizes, fixed output
  lengths, function names and customisation strings, padding to a block and copying.  The
  operations are related to the incremental sponge of theory \<open>Sponge_Spec\<close>.
\<close>

section \<open>The code\<close>

text \<open>The structures \<open>ascon_xof_state_t\<close> and \<open>ascon_xofa_state_t\<close>.\<close>

record 's xof_state =
  xof_perm :: 's
  xof_count :: u8
  xof_mode :: u8

definition xof_rep :: "('s \<Rightarrow> bytes \<Rightarrow> bool) \<Rightarrow> 's xof_state \<Rightarrow> sponge \<Rightarrow> bool" where
  "xof_rep rep st a \<longleftrightarrow> (case a of (b, p, m) \<Rightarrow>
     rep (xof_perm st) b \<and> unat (xof_count st) = p \<and> p < 8 \<and> xof_mode st = of_bool m)"

lemma spec_xof_start_regs:
  "spec_xof_start iv outlen = bytes_of (c64_permute (iv OR of_nat (outlen * 8), 0, 0, 0, 0) 0)"
proof -
  have "zeros 32 = be_store_word64 0 @ be_store_word64 0 @ be_store_word64 0 @ be_store_word64 0"
    by (simp add: be_store_word64_def zeros_def numeral_eq_Suc)
  then have "be_store_word64 x @ zeros 32 = bytes_of (x, 0, 0, 0, 0)" for x
    by (simp add: bytes_of_def)
  then show ?thesis by (simp add: spec_xof_start_def permute_direct_xor_eq)
qed

lemma put_at_zeros: "length d = 8 \<Longrightarrow> put_at (zeros 40) 0 d = d @ zeros 32"
  by (rule nth_equalityI) (auto simp: byte_nth nth_append)

lemma put_at_zeros_block:
  "\<lbrakk>length d = 8; length t = 32\<rbrakk> \<Longrightarrow> put_at (put_at (zeros 40) 8 t) 0 d = d @ t"
  by (rule nth_equalityI) (auto simp: byte_nth nth_append)

definition XOF_IV64 :: "u64 list" where
  "XOF_IV64 =
    [0xb57e273b814cd416, 0x2b51042562ae2420, 0x66a3a7768ddf2218,
     0x5aad0a7a8153650c, 0x4f3e0e32539493b6]"

definition XOF_IV32 :: "u32 list" where
  "XOF_IV32 =
    [0x7e351ae6, 0xc7578281, 0x1d238220, 0x70045f44, 0xa13e3f04,
     0x5dd5ab52, 0xc30c1db2, 0x3e378142, 0xb624d656, 0x3735189d]"

definition XOF_IV8 :: "bytes" where
  "XOF_IV8 =
    [0xb5, 0x7e, 0x27, 0x3b, 0x81, 0x4c, 0xd4, 0x16,
     0x2b, 0x51, 0x04, 0x25, 0x62, 0xae, 0x24, 0x20,
     0x66, 0xa3, 0xa7, 0x76, 0x8d, 0xdf, 0x22, 0x18,
     0x5a, 0xad, 0x0a, 0x7a, 0x81, 0x53, 0x65, 0x0c,
     0x4f, 0x3e, 0x0e, 0x32, 0x53, 0x94, 0x93, 0xb6]"

definition XOF32_IV64 :: "u64 list" where
  "XOF32_IV64 =
    [0xee9398aadb67f03d, 0x8bb21831c60f1002, 0xb48a92db98d5da62,
     0x43189921b8f8e3e8, 0x348fa5c9d525e140]"

definition XOF32_IV32 :: "u32 list" where
  "XOF32_IV32 =
    [0xa540dbc7, 0xf9afb5c6, 0x1445a340, 0xbd249301, 0x604d4fc8,
     0xcb9ba8b5, 0x94514c98, 0x12a4eede, 0x6339f398, 0x4bca84c0]"

definition XOF32_IV8 :: "bytes" where
  "XOF32_IV8 =
    [0xee, 0x93, 0x98, 0xaa, 0xdb, 0x67, 0xf0, 0x3d,
     0x8b, 0xb2, 0x18, 0x31, 0xc6, 0x0f, 0x10, 0x02,
     0xb4, 0x8a, 0x92, 0xdb, 0x98, 0xd5, 0xda, 0x62,
     0x43, 0x18, 0x99, 0x21, 0xb8, 0xf8, 0xe3, 0xe8,
     0x34, 0x8f, 0xa5, 0xc9, 0xd5, 0x25, 0xe1, 0x40]"

text \<open>\<open>size_t\<close> has 64 bits; a requested length of \<open>2^29\<close> bytes or more means arbitrary length.\<close>

definition ascon_xof_init :: "'s snp \<Rightarrow> 's xof_state" where
  "ascon_xof_init B =
     \<lparr> xof_perm = snp_load B XOF_IV64 XOF_IV32 XOF_IV8, xof_count = 0, xof_mode = 0 \<rparr>"

definition ascon_xof_init_fixed :: "'s snp \<Rightarrow> nat \<Rightarrow> 's xof_state" where
  "ascon_xof_init_fixed B outlen =
     (let outlen = (if outlen \<ge> 2 ^ 29 then 0 else outlen) in
      if outlen = 0 then ascon_xof_init B
      else if outlen = 32 then
        \<lparr> xof_perm = snp_load B XOF32_IV64 XOF32_IV32 XOF32_IV8, xof_count = 0, xof_mode = 0 \<rparr>
      else
        let s = snp_init B;
            iv = be_store_word64 (0x00400c0000000000 OR of_nat (outlen * 8));
            s = snp_overwrite_bytes B s iv 0 8;
            s = snp_permute B s 0
        in \<lparr> xof_perm = snp_release B s, xof_count = 0, xof_mode = 0 \<rparr>)"

definition ascon_xof_absorb :: "'s snp \<Rightarrow> 's xof_state \<Rightarrow> bytes \<Rightarrow> 's xof_state" where
  "ascon_xof_absorb B st inp =
     (let s = snp_acquire B (xof_perm st);
          (s, count, mode) =
            (if xof_mode st \<noteq> 0 then (snp_permute B s 0, 0, 0) else (s, xof_count st, xof_mode st));
          (s, _, count) =
            duplex_crypt 8 (\<lambda>s d off. (snp_absorb_8 B s d off, []))
              (\<lambda>s d off n. (snp_absorb_partial B s d off n, [])) (\<lambda>s. snp_permute B s 0)
              s inp count
      in \<lparr> xof_perm = snp_release B s, xof_count = count, xof_mode = mode \<rparr>)"

definition ascon_xof_squeeze :: "'s snp \<Rightarrow> 's xof_state \<Rightarrow> nat \<Rightarrow> 's xof_state \<times> bytes" where
  "ascon_xof_squeeze B st outlen =
     (let s = snp_acquire B (xof_perm st);
          (s, count, mode) =
            (if xof_mode st = 0 then (snp_pad B s (unat (xof_count st)), 0, 1)
             else (s, xof_count st, xof_mode st));
          (s, out, count) =
            squeeze_output 8 (\<lambda>s. snp_squeeze_8 B s 0) (snp_squeeze_partial B)
              (\<lambda>s. snp_permute B s 0) s outlen count
      in (\<lparr> xof_perm = snp_release B s, xof_count = count, xof_mode = mode \<rparr>, out))"

definition ascon_xof_free :: "'s snp \<Rightarrow> 's xof_state \<Rightarrow> 's xof_state" where
  "ascon_xof_free B st =
     \<lparr> xof_perm = snp_free B (snp_acquire B (xof_perm st)), xof_count = 0, xof_mode = 0 \<rparr>"

definition ascon_xof_absorb_custom :: "'s snp \<Rightarrow> 's xof_state \<Rightarrow> bytes \<Rightarrow> 's xof_state" where
  "ascon_xof_absorb_custom B st custom =
     (if length custom > 0 then
        let st = ascon_xof_absorb B st custom;
            s = snp_acquire B (xof_perm st);
            s = snp_pad B s (unat (xof_count st));
            s = snp_permute B s 0;
            s = snp_separator B s
        in st \<lparr> xof_perm := snp_release B s, xof_count := 0 \<rparr>
      else st)"

text \<open>The 32 bytes that stand for the function name; \<open>None\<close> is the \<open>NULL\<close> pointer, a name has no
  zero byte.\<close>

definition xof_name_block :: "'s snp \<Rightarrow> bytes option \<Rightarrow> bytes" where
  "xof_name_block B function_name =
     (let name = (case function_name of None \<Rightarrow> [] | Some name \<Rightarrow> name); len = length name in
      if len = 0 then zeros 32
      else if len \<le> 32 then name @ zeros (32 - len)
      else snd (ascon_xof_squeeze B (ascon_xof_absorb B (ascon_xof_init_fixed B 32) name) 32))"

definition ascon_xof_init_custom ::
  "'s snp \<Rightarrow> bytes option \<Rightarrow> bytes \<Rightarrow> nat \<Rightarrow> 's xof_state" where
  "ascon_xof_init_custom B function_name custom outlen =
     (let outlen = (if outlen \<ge> 2 ^ 29 then 0 else outlen);
          temp = xof_name_block B function_name;
          s = snp_init B;
          s = snp_overwrite_bytes B s temp 8 32;
          s = snp_overwrite_bytes B s (be_store_word64 (0x00400c0000000000 OR of_nat (outlen * 8))) 0 8;
          s = snp_permute B s 0
      in ascon_xof_absorb_custom B
           \<lparr> xof_perm = snp_release B s, xof_count = 0, xof_mode = 0 \<rparr> custom)"

text \<open>The re-initialising functions do not read the old state; the generic backend frees it first.\<close>

definition ascon_xof_reinit :: "'s snp \<Rightarrow> 's xof_state \<Rightarrow> 's xof_state" where
  "ascon_xof_reinit B st = ascon_xof_init B"

definition ascon_xof_reinit_fixed :: "'s snp \<Rightarrow> 's xof_state \<Rightarrow> nat \<Rightarrow> 's xof_state" where
  "ascon_xof_reinit_fixed B st outlen = ascon_xof_init_fixed B outlen"

definition ascon_xof_reinit_custom ::
  "'s snp \<Rightarrow> 's xof_state \<Rightarrow> bytes option \<Rightarrow> bytes \<Rightarrow> nat \<Rightarrow> 's xof_state" where
  "ascon_xof_reinit_custom B st function_name custom outlen =
     ascon_xof_init_custom B function_name custom outlen"

definition ascon_xof_pad :: "'s snp \<Rightarrow> 's xof_state \<Rightarrow> 's xof_state" where
  "ascon_xof_pad B st =
     (if xof_mode st \<noteq> 0 then ascon_xof_absorb B st []
      else if xof_count st \<noteq> 0 then
        let s = snp_permute B (snp_acquire B (xof_perm st)) 0
        in st \<lparr> xof_perm := snp_release B s, xof_count := 0 \<rparr>
      else st)"

text \<open>\<open>alias\<close> says whether the two pointers are the same.\<close>

definition ascon_xof_copy :: "'s snp \<Rightarrow> bool \<Rightarrow> 's xof_state \<Rightarrow> 's xof_state \<Rightarrow> 's xof_state" where
  "ascon_xof_copy B alias dest src =
     (if alias then dest
      else \<lparr> xof_perm = snp_release B (snp_copy B (snp_init B) (xof_perm src)),
             xof_count = xof_count src, xof_mode = xof_mode src \<rparr>)"

definition ascon_xof :: "'s snp \<Rightarrow> bytes \<Rightarrow> bytes" where
  "ascon_xof B inp =
     snd (ascon_xof_squeeze B (ascon_xof_absorb B (ascon_xof_init B) inp) 32)"

section \<open>The tables\<close>

lemma xof_tables: "table_ok XOF_IV64 XOF_IV32 XOF_IV8" "table_ok XOF32_IV64 XOF32_IV32 XOF32_IV8"
  by code_simp+

lemma xof_start_states:
  "c64_permute (0x00400c0000000000, 0, 0, 0, 0) 0 = (0xb57e273b814cd416, 0x2b51042562ae2420, 0x66a3a7768ddf2218, 0x5aad0a7a8153650c, 0x4f3e0e32539493b6)"
  "c64_permute (0x00400c0000000100, 0, 0, 0, 0) 0 = (0xee9398aadb67f03d, 0x8bb21831c60f1002, 0xb48a92db98d5da62, 0x43189921b8f8e3e8, 0x348fa5c9d525e140)"
  by (simp_all only: perm_eval)

lemma xof_tables_start:
  "XOF_IV8 = spec_xof_start 0x00400c0000000000 0" "XOF32_IV8 = spec_xof_start 0x00400c0000000000 32"
proof -
  have "XOF_IV8 = bytes_of (0xb57e273b814cd416, 0x2b51042562ae2420, 0x66a3a7768ddf2218, 0x5aad0a7a8153650c, 0x4f3e0e32539493b6)" "XOF32_IV8 = bytes_of (0xee9398aadb67f03d, 0x8bb21831c60f1002, 0xb48a92db98d5da62, 0x43189921b8f8e3e8, 0x348fa5c9d525e140)"
    using xof_tables by (simp_all add: table_ok_def bytes_of_def XOF_IV64_def XOF32_IV64_def)
  then show "XOF_IV8 = spec_xof_start 0x00400c0000000000 0" "XOF32_IV8 = spec_xof_start 0x00400c0000000000 32"
    by (simp_all add: spec_xof_start_regs flip: xof_start_states)
qed

section \<open>The code runs the sponge\<close>

context snp_laws
begin

lemma xof_init_fixed_rep:
  "xof_rep rep (ascon_xof_init_fixed B outlen)
     (spec_xof_start 0x00400c0000000000 (if outlen \<ge> 2 ^ 29 then 0 else outlen), 0, False)"
proof -
  define n where "n = (if outlen \<ge> 2 ^ 29 then 0 else outlen)"
  have "rep (snp_release B (snp_permute B (snp_overwrite_bytes B (snp_init B)
      (be_store_word64 (0x00400c0000000000 OR of_nat (n * 8))) 0 8) 0)) (spec_xof_start 0x00400c0000000000 n)"
    using rep_release[OF rep_permute[OF rep_overwrite[OF rep_init, of 8 "be_store_word64 (0x00400c0000000000 OR of_nat (n * 8))" 0]]]
    by (simp add: spec_xof_start_def put_at_zeros)
  moreover have "rep (snp_load B XOF_IV64 XOF_IV32 XOF_IV8) (spec_xof_start 0x00400c0000000000 0)"
    "rep (snp_load B XOF32_IV64 XOF32_IV32 XOF32_IV8) (spec_xof_start 0x00400c0000000000 32)"
    using rep_load[OF xof_tables(1)] rep_load[OF xof_tables(2)] by (simp_all add: xof_tables_start)
  ultimately show ?thesis
    unfolding ascon_xof_init_fixed_def Let_def n_def[symmetric]
    by (auto simp: xof_rep_def ascon_xof_init_def)
qed

lemma xof_init_rep: "xof_rep rep (ascon_xof_init B) (spec_xof_start 0x00400c0000000000 0, 0, False)"
  using xof_init_fixed_rep[of 0] by (simp add: ascon_xof_init_fixed_def)

lemma xof_absorb_rep:
  assumes "xof_rep rep st a"
  shows "xof_rep rep (ascon_xof_absorb B st xs) (sponge_absorb 0 a xs)"
proof -
  obtain b p m where a: "a = (b, p, m)" by (metis prod.exhaust)
  define s c where "s = (if m then snp_permute B (snp_acquire B (xof_perm st)) 0 else snp_acquire B (xof_perm st))"
    and "c = (if m then 0 else xof_count st)"
  define b0 p0 where "b0 = (if m then permute_bytes b 0 else b)" and "p0 = (if m then 0 else p)"
  have "rep s b0" "unat c < 8" and c: "unat c = p0"
    using assms rep_acquire rep_permute by (auto simp: a xof_rep_def s_def b0_def c_def p0_def)
  from absorb_8.crypt_run[OF this(1,2), of 0 xs]
  obtain s' b' p' out where "run (machine absorb_effect 8 0) (b0, p0) xs = ((b', p'), out)"
    "duplex_crypt 8 (\<lambda>s d off. (snp_absorb_8 B s d off, []))
       (\<lambda>s d off n. (snp_absorb_partial B s d off n, [])) (\<lambda>s. snp_permute B s 0) s xs c =
       (s', out, of_nat p')" "rep s' b'" "p' < 8"
    unfolding c machine_def by blast
  then show ?thesis
    using assms rep_release
    by (cases m) (auto simp: a xof_rep_def ascon_xof_absorb_def sponge_absorb_def s_def c_def b0_def p0_def Let_def
        unat_of_nat take_bit_nat_eq_self)
qed

lemma xof_squeeze_rep:
  assumes "xof_rep rep st a"
  shows "xof_rep rep (fst (ascon_xof_squeeze B st n)) (fst (lazy_sponge_squeeze a n)) \<and>
    snd (ascon_xof_squeeze B st n) = snd (lazy_sponge_squeeze a n)"
proof -
  obtain b p m where a: "a = (b, p, m)" by (metis prod.exhaust)
  define s c where "s = (if m then snp_acquire B (xof_perm st) else snp_pad B (snp_acquire B (xof_perm st)) (unat (xof_count st)))"
    and "c = (if m then xof_count st else 0)"
  define b0 p0 where "b0 = (if m then b else xor_at b p [0x80])" and "p0 = (if m then p else 0)"
  have "rep s b0" "unat c < 8" and c: "unat c = p0"
    using assms rep_acquire rep_pad by (auto simp: a xof_rep_def s_def b0_def c_def p0_def)
  from squeeze_8.squeeze_run[OF this(1,2), of n]
  obtain s' b' p' out where "run (lazy_step 8 (\<lambda>b. permute_bytes b 0)) (b0, p0) (zeros n) = ((b', p'), out)"
    "squeeze_output 8 (\<lambda>s. snp_squeeze_8 B s 0) (snp_squeeze_partial B) (\<lambda>s. snp_permute B s 0) s n c =
       (s', out, of_nat p')" "rep s' b'" "p' < 8"
    unfolding c by blast
  then show ?thesis
    using assms rep_release
    by (cases m) (auto simp: a xof_rep_def ascon_xof_squeeze_def lazy_sponge_squeeze_def s_def c_def b0_def p0_def
        Let_def unat_of_nat take_bit_nat_eq_self)
qed

lemma xof_free_rep: "xof_rep rep st a \<Longrightarrow> xof_rep rep (ascon_xof_free B st) (zeros 40, 0, False)"
  using rep_free rep_acquire by (auto simp: xof_rep_def ascon_xof_free_def split: prod.splits)

lemma xof_absorb_custom_rep:
  assumes "xof_rep rep st (b, p, False)"
  shows "xof_rep rep (ascon_xof_absorb_custom B st custom) (sponge_absorb_custom 0 (b, p, False) custom)"
proof (cases "custom = []")
  case False
  obtain b' p' m' where a': "sponge_absorb 0 (b, p, False) custom = (b', p', m')"
    by (metis prod.exhaust)
  then have a: "sponge_absorb 0 (b, p, False) custom = (b', p', False)"
    by (auto simp: sponge_absorb_def split: prod.splits)
  with xof_absorb_rep[OF assms, of custom]
  have r: "rep (xof_perm (ascon_xof_absorb B st custom)) b'" "unat (xof_count (ascon_xof_absorb B st custom)) = p'"
    "p' < 8" "xof_mode (ascon_xof_absorb B st custom) = 0"
    by (auto simp: xof_rep_def)
  from rep_release[OF rep_separator[OF rep_permute[OF rep_pad[OF rep_acquire[OF r(1)], of p']]]] r False
  show ?thesis
    by (simp add: ascon_xof_absorb_custom_def sponge_absorb_custom_def a xof_rep_def Let_def)
qed (use assms in \<open>simp add: ascon_xof_absorb_custom_def sponge_absorb_custom_def\<close>)

lemma xof_pad_rep:
  assumes "xof_rep rep st a"
  shows "xof_rep rep (ascon_xof_pad B st) (sponge_pad 0 a)"
proof -
  obtain b p m where a: "a = (b, p, m)" by (metis prod.exhaust)
  show ?thesis
  proof (cases m)
    case True
    with assms xof_absorb_rep[OF assms, of "[]"] show ?thesis
      by (simp add: a ascon_xof_pad_def sponge_pad_def xof_rep_def)
  next
    case False
    with assms rep_release[OF rep_permute[OF rep_acquire]] show ?thesis
      by (auto simp: a ascon_xof_pad_def sponge_pad_def xof_rep_def Let_def unat_eq_zero)
  qed
qed

lemma xof_copy_rep:
  "\<lbrakk>xof_rep rep src a; alias \<Longrightarrow> dest = src\<rbrakk> \<Longrightarrow> xof_rep rep (ascon_xof_copy B alias dest src) a"
  using rep_release[OF rep_copy] by (auto simp: xof_rep_def ascon_xof_copy_def split: prod.splits)

text \<open>Absorbing and squeezing in any pieces.\<close>

lemma xof_absorb_pieces:
  "xof_rep rep st a \<Longrightarrow>
     xof_rep rep (foldl (ascon_xof_absorb B) st ms) (foldl (sponge_absorb 0) a ms)"
  by (induction ms arbitrary: st a) (simp_all add: xof_absorb_rep)

lemma xof_squeeze_pieces:
  assumes "xof_rep rep st a"
  shows "\<exists>st' a'. pull (ascon_xof_squeeze B) st ns = (st', snd (pull (lazy_sponge_squeeze) a ns)) \<and>
    a' = fst (pull (lazy_sponge_squeeze) a ns) \<and> xof_rep rep st' a'"
  using assms
proof (induction ns arbitrary: st a)
  case (Cons n ns)
  from xof_squeeze_rep[OF Cons.prems, of n] Cons.IH[of "fst (ascon_xof_squeeze B st n)" "fst (lazy_sponge_squeeze a n)"]
  show ?case by (auto simp: case_prod_beta Let_def prod_eq_iff)
qed simp

theorem xof_pieces:
  assumes "xof_rep rep st (b, 0, False)"
  shows "snd (pull (ascon_xof_squeeze B) (foldl (ascon_xof_absorb B) st ms) ns) =
    spec_sponge 0 b (concat ms) (sum_list ns)"
proof -
  have len: "length b = 40" using assms by (auto simp: xof_rep_def rep_length)
  from xof_squeeze_pieces[OF xof_absorb_pieces[OF assms, of ms], of ns]
  have "snd (pull (ascon_xof_squeeze B) (foldl (ascon_xof_absorb B) st ms) ns) =
      snd (pull (lazy_sponge_squeeze) (foldl (sponge_absorb 0) (b, 0, False) ms) ns)"
    by auto
  then show ?thesis
    using len by (simp add: sponge_absorb_fold lazy_squeeze_pieces lazy_sponge_output)
qed

lemma xof_once:
  assumes "xof_rep rep st (b, 0, False)"
  shows "snd (ascon_xof_squeeze B (ascon_xof_absorb B st xs) n) = spec_sponge 0 b xs n"
  using xof_pieces[OF assms, of "[xs]" "[n]"] by (simp add: case_prod_beta Let_def)

lemma xof_name_block_eq:
  "xof_name_block B name = spec_name_block 0 0x00400c0000000000 name"
  using xof_once[OF xof_init_fixed_rep[of 32]]
  by (simp add: xof_name_block_def spec_name_block_def Let_def split: option.split)

lemma xof_init_custom_rep:
  "xof_rep rep (ascon_xof_init_custom B name custom outlen)
     (spec_custom_start 0 0x00400c0000000000 name custom (if outlen \<ge> 2 ^ 29 then 0 else outlen))"
proof -
  define n where "n = (if outlen \<ge> 2 ^ 29 then 0 else outlen)"
  let ?t = "spec_name_block 0 0x00400c0000000000 name" and ?iv = "be_store_word64 (0x00400c0000000000 OR of_nat (n * 8))"
  have "rep (snp_overwrite_bytes B (snp_overwrite_bytes B (snp_init B) ?t 8 32) ?iv 0 8) (?iv @ ?t)"
    using rep_overwrite[OF rep_overwrite[OF rep_init, of 32 ?t 8], of 8 ?iv 0]
    by (simp add: put_at_zeros_block length_spec_name_block)
  from rep_release[OF rep_permute[OF this]]
  have "xof_rep rep \<lparr> xof_perm = snp_release B (snp_permute B (snp_overwrite_bytes B
      (snp_overwrite_bytes B (snp_init B) ?t 8 32) ?iv 0 8) 0), xof_count = 0, xof_mode = 0 \<rparr>
      (permute_bytes (?iv @ ?t) 0, 0, False)"
    by (simp add: xof_rep_def)
  from xof_absorb_custom_rep[OF this, of custom] show ?thesis
    unfolding ascon_xof_init_custom_def spec_custom_start_def xof_name_block_eq Let_def n_def[symmetric] .
qed

end

section \<open>Sessions\<close>

text \<open>The states a caller can reach.\<close>

inductive xof_session :: "'s snp \<Rightarrow> 's xof_state \<Rightarrow> bool" for B where
  xof_session_init: "xof_session B (ascon_xof_init B)"
| xof_session_fixed: "xof_session B (ascon_xof_init_fixed B outlen)"
| xof_session_custom: "xof_session B (ascon_xof_init_custom B name custom outlen)"
| xof_session_absorb: "xof_session B st \<Longrightarrow> xof_session B (ascon_xof_absorb B st xs)"
| xof_session_squeeze: "xof_session B st \<Longrightarrow> xof_session B (fst (ascon_xof_squeeze B st n))"
| xof_session_pad: "xof_session B st \<Longrightarrow> xof_session B (ascon_xof_pad B st)"
| xof_session_copy: "\<lbrakk>xof_session B src; xof_session B dest\<rbrakk> \<Longrightarrow> xof_session B (ascon_xof_copy B False dest src)"
| xof_session_free: "xof_session B st \<Longrightarrow> xof_session B (ascon_xof_free B st)"

context snp_laws
begin

lemma xof_session_inv: "xof_session B st \<Longrightarrow> \<exists>a. xof_rep rep st a"
proof (induction rule: xof_session.induct)
  case (xof_session_squeeze st n)
  then show ?case using xof_squeeze_rep by blast
next
  case (xof_session_copy src dest)
  then show ?case using xof_copy_rep[of src _ False dest] by blast
qed (use xof_init_rep xof_init_fixed_rep xof_init_custom_rep xof_absorb_rep xof_pad_rep xof_free_rep in blast)+

end

end
