(* ===== verification/Xofa.thy ===== *)
theory Xofa
  imports Xof
begin

text \<open>
  \<open>hash/ascon-xofa.c\<close>: ASCON-XOFA, absorbing and squeezing in pieces of any sizes, fixed output
  lengths, function names and customisation strings, padding to a block and copying.  The
  operations are related to the incremental sponge of theory \<open>Sponge_Spec\<close>.
\<close>

section \<open>The code\<close>

definition XOFA_IV64 :: "u64 list" where
  "XOFA_IV64 =
    [0x44906568b77b9832, 0xcd8d6cae53455532, 0xf7b5212756422129,
     0x246885e1de0d225b, 0xa8cb5ce33449973f]"

definition XOFA_IV32 :: "u32 list" where
  "XOFA_IV32 =
    [0xa4b87d44, 0x0846d7a5, 0xb3a2dbf4, 0xaa6f1005, 0xf713e811,
     0xdc451146, 0x2839e30d, 0x468cb253, 0x09e96977, 0xeb2d4297]"

definition XOFA_IV8 :: "bytes" where
  "XOFA_IV8 =
    [0x44, 0x90, 0x65, 0x68, 0xb7, 0x7b, 0x98, 0x32,
     0xcd, 0x8d, 0x6c, 0xae, 0x53, 0x45, 0x55, 0x32,
     0xf7, 0xb5, 0x21, 0x27, 0x56, 0x42, 0x21, 0x29,
     0x24, 0x68, 0x85, 0xe1, 0xde, 0x0d, 0x22, 0x5b,
     0xa8, 0xcb, 0x5c, 0xe3, 0x34, 0x49, 0x97, 0x3f]"

definition XOFA32_IV64 :: "u64 list" where
  "XOFA32_IV64 =
    [0x01470194fc6528a6, 0x738ec38ac0adffa7, 0x2ec8e3296c76384c,
     0xd6f6a54d7f52377d, 0xa13c42a223be8d87]"

definition XOFA32_IV32 :: "u32 list" where
  "XOFA32_IV32 =
    [0x1b16eb02, 0x0108e46d, 0xd29083f3, 0x5b9b8efd, 0x2891ae4a,
     0x7ad66562, 0xee3bfc7f, 0x9dc27156, 0x16801633, 0xc61d5fa9]"

definition XOFA32_IV8 :: "bytes" where
  "XOFA32_IV8 =
    [0x01, 0x47, 0x01, 0x94, 0xfc, 0x65, 0x28, 0xa6,
     0x73, 0x8e, 0xc3, 0x8a, 0xc0, 0xad, 0xff, 0xa7,
     0x2e, 0xc8, 0xe3, 0x29, 0x6c, 0x76, 0x38, 0x4c,
     0xd6, 0xf6, 0xa5, 0x4d, 0x7f, 0x52, 0x37, 0x7d,
     0xa1, 0x3c, 0x42, 0xa2, 0x23, 0xbe, 0x8d, 0x87]"

text \<open>\<open>size_t\<close> has 64 bits; a requested length of \<open>2^29\<close> bytes or more means arbitrary length.\<close>

definition ascon_xofa_init :: "'s snp \<Rightarrow> 's xof_state" where
  "ascon_xofa_init B =
     \<lparr> xof_perm = snp_load B XOFA_IV64 XOFA_IV32 XOFA_IV8, xof_count = 0, xof_mode = 0 \<rparr>"

definition ascon_xofa_init_fixed :: "'s snp \<Rightarrow> nat \<Rightarrow> 's xof_state" where
  "ascon_xofa_init_fixed B outlen =
     (let outlen = (if outlen \<ge> 2 ^ 29 then 0 else outlen) in
      if outlen = 0 then ascon_xofa_init B
      else if outlen = 32 then
        \<lparr> xof_perm = snp_load B XOFA32_IV64 XOFA32_IV32 XOFA32_IV8, xof_count = 0, xof_mode = 0 \<rparr>
      else
        let s = snp_init B;
            iv = be_store_word64 (0x00400c0400000000 OR of_nat (outlen * 8));
            s = snp_overwrite_bytes B s iv 0 8;
            s = snp_permute B s 0
        in \<lparr> xof_perm = snp_release B s, xof_count = 0, xof_mode = 0 \<rparr>)"

definition ascon_xofa_absorb :: "'s snp \<Rightarrow> 's xof_state \<Rightarrow> bytes \<Rightarrow> 's xof_state" where
  "ascon_xofa_absorb B st inp =
     (let s = snp_acquire B (xof_perm st);
          (s, count, mode) =
            (if xof_mode st \<noteq> 0 then (snp_permute B s 0, 0, 0) else (s, xof_count st, xof_mode st));
          (s, _, count) =
            duplex_crypt 8 (\<lambda>s d off. (snp_absorb_8 B s d off, []))
              (\<lambda>s d off n. (snp_absorb_partial B s d off n, [])) (\<lambda>s. snp_permute B s 4)
              s inp count
      in \<lparr> xof_perm = snp_release B s, xof_count = count, xof_mode = mode \<rparr>)"

text \<open>The squeezing function has the shape of \<open>duplex_crypt\<close> on the output buffer: \<open>zeros outlen\<close>
  stands for the buffer, whose old bytes are not read.\<close>

definition ascon_xofa_squeeze :: "'s snp \<Rightarrow> 's xof_state \<Rightarrow> nat \<Rightarrow> 's xof_state \<times> bytes" where
  "ascon_xofa_squeeze B st outlen =
     (let s = snp_acquire B (xof_perm st);
          (s, count, mode) =
            (if xof_mode st = 0 then (snp_permute B (snp_pad B s (unat (xof_count st))) 0, 0, 1)
             else (s, xof_count st, xof_mode st));
          (s, out, count) =
            duplex_crypt 8 (\<lambda>s d off. (s, snp_squeeze_8 B s off))
              (\<lambda>s d off n. (s, snp_squeeze_partial B s off n)) (\<lambda>s. snp_permute B s 4)
              s (zeros outlen) count
      in (\<lparr> xof_perm = snp_release B s, xof_count = count, xof_mode = mode \<rparr>, out))"

definition ascon_xofa_free :: "'s snp \<Rightarrow> 's xof_state \<Rightarrow> 's xof_state" where
  "ascon_xofa_free B st =
     \<lparr> xof_perm = snp_free B (snp_acquire B (xof_perm st)), xof_count = 0, xof_mode = 0 \<rparr>"

definition ascon_xofa_absorb_custom :: "'s snp \<Rightarrow> 's xof_state \<Rightarrow> bytes \<Rightarrow> 's xof_state" where
  "ascon_xofa_absorb_custom B st custom =
     (if length custom > 0 then
        let st = ascon_xofa_absorb B st custom;
            s = snp_acquire B (xof_perm st);
            s = snp_pad B s (unat (xof_count st));
            s = snp_permute B s 4;
            s = snp_separator B s
        in st \<lparr> xof_perm := snp_release B s, xof_count := 0 \<rparr>
      else st)"

text \<open>The 32 bytes that stand for the function name; \<open>None\<close> is the \<open>NULL\<close> pointer, a name has no
  zero byte.\<close>

definition xofa_name_block :: "'s snp \<Rightarrow> bytes option \<Rightarrow> bytes" where
  "xofa_name_block B function_name =
     (let name = (case function_name of None \<Rightarrow> [] | Some name \<Rightarrow> name); len = length name in
      if len = 0 then zeros 32
      else if len \<le> 32 then name @ zeros (32 - len)
      else snd (ascon_xofa_squeeze B (ascon_xofa_absorb B (ascon_xofa_init_fixed B 32) name) 32))"

definition ascon_xofa_init_custom ::
  "'s snp \<Rightarrow> bytes option \<Rightarrow> bytes \<Rightarrow> nat \<Rightarrow> 's xof_state" where
  "ascon_xofa_init_custom B function_name custom outlen =
     (let outlen = (if outlen \<ge> 2 ^ 29 then 0 else outlen);
          temp = xofa_name_block B function_name;
          s = snp_init B;
          s = snp_overwrite_bytes B s temp 8 32;
          s = snp_overwrite_bytes B s (be_store_word64 (0x00400c0400000000 OR of_nat (outlen * 8))) 0 8;
          s = snp_permute B s 0
      in ascon_xofa_absorb_custom B
           \<lparr> xof_perm = snp_release B s, xof_count = 0, xof_mode = 0 \<rparr> custom)"

text \<open>The re-initialising functions do not read the old state; the generic backend frees it first.\<close>

definition ascon_xofa_reinit :: "'s snp \<Rightarrow> 's xof_state \<Rightarrow> 's xof_state" where
  "ascon_xofa_reinit B st = ascon_xofa_init B"

definition ascon_xofa_reinit_fixed :: "'s snp \<Rightarrow> 's xof_state \<Rightarrow> nat \<Rightarrow> 's xof_state" where
  "ascon_xofa_reinit_fixed B st outlen = ascon_xofa_init_fixed B outlen"

definition ascon_xofa_reinit_custom ::
  "'s snp \<Rightarrow> 's xof_state \<Rightarrow> bytes option \<Rightarrow> bytes \<Rightarrow> nat \<Rightarrow> 's xof_state" where
  "ascon_xofa_reinit_custom B st function_name custom outlen =
     ascon_xofa_init_custom B function_name custom outlen"

definition ascon_xofa_pad :: "'s snp \<Rightarrow> 's xof_state \<Rightarrow> 's xof_state" where
  "ascon_xofa_pad B st =
     (if xof_mode st \<noteq> 0 then ascon_xofa_absorb B st []
      else if xof_count st \<noteq> 0 then
        let s = snp_permute B (snp_acquire B (xof_perm st)) 4
        in st \<lparr> xof_perm := snp_release B s, xof_count := 0 \<rparr>
      else st)"

text \<open>\<open>alias\<close> says whether the two pointers are the same.\<close>

definition ascon_xofa_copy :: "'s snp \<Rightarrow> bool \<Rightarrow> 's xof_state \<Rightarrow> 's xof_state \<Rightarrow> 's xof_state" where
  "ascon_xofa_copy B alias dest src =
     (if alias then dest
      else \<lparr> xof_perm = snp_release B (snp_copy B (snp_init B) (xof_perm src)),
             xof_count = xof_count src, xof_mode = xof_mode src \<rparr>)"

definition ascon_xofa :: "'s snp \<Rightarrow> bytes \<Rightarrow> bytes" where
  "ascon_xofa B inp =
     snd (ascon_xofa_squeeze B (ascon_xofa_absorb B (ascon_xofa_init B) inp) 32)"

section \<open>The tables\<close>

lemma xofa_tables: "table_ok XOFA_IV64 XOFA_IV32 XOFA_IV8" "table_ok XOFA32_IV64 XOFA32_IV32 XOFA32_IV8"
  by code_simp+

lemma xofa_start_states:
  "c64_permute (0x00400c0400000000, 0, 0, 0, 0) 0 = (0x44906568b77b9832, 0xcd8d6cae53455532, 0xf7b5212756422129, 0x246885e1de0d225b, 0xa8cb5ce33449973f)"
  "c64_permute (0x00400c0400000100, 0, 0, 0, 0) 0 = (0x01470194fc6528a6, 0x738ec38ac0adffa7, 0x2ec8e3296c76384c, 0xd6f6a54d7f52377d, 0xa13c42a223be8d87)"
  by (simp_all only: perm_eval)

lemma xofa_tables_start:
  "XOFA_IV8 = spec_xof_start 0x00400c0400000000 0" "XOFA32_IV8 = spec_xof_start 0x00400c0400000000 32"
proof -
  have "XOFA_IV8 = bytes_of (0x44906568b77b9832, 0xcd8d6cae53455532, 0xf7b5212756422129, 0x246885e1de0d225b, 0xa8cb5ce33449973f)" "XOFA32_IV8 = bytes_of (0x01470194fc6528a6, 0x738ec38ac0adffa7, 0x2ec8e3296c76384c, 0xd6f6a54d7f52377d, 0xa13c42a223be8d87)"
    using xofa_tables by (simp_all add: table_ok_def bytes_of_def XOFA_IV64_def XOFA32_IV64_def)
  then show "XOFA_IV8 = spec_xof_start 0x00400c0400000000 0" "XOFA32_IV8 = spec_xof_start 0x00400c0400000000 32"
    by (simp_all add: spec_xof_start_regs flip: xofa_start_states)
qed

section \<open>The code runs the sponge\<close>

context snp_laws
begin

lemma xofa_init_fixed_rep:
  "xof_rep rep (ascon_xofa_init_fixed B outlen)
     (spec_xof_start 0x00400c0400000000 (if outlen \<ge> 2 ^ 29 then 0 else outlen), 0, False)"
proof -
  define n where "n = (if outlen \<ge> 2 ^ 29 then 0 else outlen)"
  have "rep (snp_release B (snp_permute B (snp_overwrite_bytes B (snp_init B)
      (be_store_word64 (0x00400c0400000000 OR of_nat (n * 8))) 0 8) 0)) (spec_xof_start 0x00400c0400000000 n)"
    using rep_release[OF rep_permute[OF rep_overwrite[OF rep_init, of 8 "be_store_word64 (0x00400c0400000000 OR of_nat (n * 8))" 0]]]
    by (simp add: spec_xof_start_def put_at_zeros)
  moreover have "rep (snp_load B XOFA_IV64 XOFA_IV32 XOFA_IV8) (spec_xof_start 0x00400c0400000000 0)"
    "rep (snp_load B XOFA32_IV64 XOFA32_IV32 XOFA32_IV8) (spec_xof_start 0x00400c0400000000 32)"
    using rep_load[OF xofa_tables(1)] rep_load[OF xofa_tables(2)] by (simp_all add: xofa_tables_start)
  ultimately show ?thesis
    unfolding ascon_xofa_init_fixed_def Let_def n_def[symmetric]
    by (auto simp: xof_rep_def ascon_xofa_init_def)
qed

lemma xofa_init_rep: "xof_rep rep (ascon_xofa_init B) (spec_xof_start 0x00400c0400000000 0, 0, False)"
  using xofa_init_fixed_rep[of 0] by (simp add: ascon_xofa_init_fixed_def)

lemma xofa_absorb_rep:
  assumes "xof_rep rep st a"
  shows "xof_rep rep (ascon_xofa_absorb B st xs) (sponge_absorb 4 a xs)"
proof -
  obtain b p m where a: "a = (b, p, m)" by (metis prod.exhaust)
  define s c where "s = (if m then snp_permute B (snp_acquire B (xof_perm st)) 0 else snp_acquire B (xof_perm st))"
    and "c = (if m then 0 else xof_count st)"
  define b0 p0 where "b0 = (if m then permute_bytes b 0 else b)" and "p0 = (if m then 0 else p)"
  have "rep s b0" "unat c < 8" and c: "unat c = p0"
    using assms rep_acquire rep_permute by (auto simp: a xof_rep_def s_def b0_def c_def p0_def)
  from absorb_8.crypt_run[OF this(1,2), of 4 xs]
  obtain s' b' p' out where "run (machine absorb_effect 8 4) (b0, p0) xs = ((b', p'), out)"
    "duplex_crypt 8 (\<lambda>s d off. (snp_absorb_8 B s d off, []))
       (\<lambda>s d off n. (snp_absorb_partial B s d off n, [])) (\<lambda>s. snp_permute B s 4) s xs c =
       (s', out, of_nat p')" "rep s' b'" "p' < 8"
    unfolding c machine_def by blast
  then show ?thesis
    using assms rep_release
    by (cases m) (auto simp: a xof_rep_def ascon_xofa_absorb_def sponge_absorb_def s_def c_def b0_def p0_def Let_def
        unat_of_nat take_bit_nat_eq_self)
qed

lemma xofa_squeeze_rep:
  assumes "xof_rep rep st a"
  shows "xof_rep rep (fst (ascon_xofa_squeeze B st n)) (fst (eager_sponge_squeeze 4 a n)) \<and>
    snd (ascon_xofa_squeeze B st n) = snd (eager_sponge_squeeze 4 a n)"
proof -
  obtain b p m where a: "a = (b, p, m)" by (metis prod.exhaust)
  define s c where "s = (if m then snp_acquire B (xof_perm st)
      else snp_permute B (snp_pad B (snp_acquire B (xof_perm st)) (unat (xof_count st))) 0)"
    and "c = (if m then xof_count st else 0)"
  define b0 p0 where "b0 = (if m then b else permute_bytes (xor_at b p [0x80]) 0)" and "p0 = (if m then p else 0)"
  have "rep s b0" "unat c < 8" and c: "unat c = p0"
    using assms rep_acquire rep_pad rep_permute by (auto simp: a xof_rep_def s_def b0_def c_def p0_def)
  from extract_8.crypt_run[OF this(1,2), of 4 "zeros n"]
  obtain s' b' p' out where "run (machine extract_effect 8 4) (b0, p0) (zeros n) = ((b', p'), out)"
    "duplex_crypt 8 (\<lambda>s d off. (s, snp_squeeze_8 B s off))
       (\<lambda>s d off n. (s, snp_squeeze_partial B s off n)) (\<lambda>s. snp_permute B s 4) s (zeros n) c =
       (s', out, of_nat p')" "rep s' b'" "p' < 8"
    unfolding c machine_def by blast
  then show ?thesis
    using assms rep_release
    by (cases m) (auto simp: a xof_rep_def ascon_xofa_squeeze_def eager_sponge_squeeze_def s_def c_def b0_def p0_def Let_def
        unat_of_nat take_bit_nat_eq_self)
qed

lemma xofa_free_rep: "xof_rep rep st a \<Longrightarrow> xof_rep rep (ascon_xofa_free B st) (zeros 40, 0, False)"
  using rep_free rep_acquire by (auto simp: xof_rep_def ascon_xofa_free_def split: prod.splits)

lemma xofa_absorb_custom_rep:
  assumes "xof_rep rep st (b, p, False)"
  shows "xof_rep rep (ascon_xofa_absorb_custom B st custom) (sponge_absorb_custom 4 (b, p, False) custom)"
proof (cases "custom = []")
  case False
  obtain b' p' m' where a': "sponge_absorb 4 (b, p, False) custom = (b', p', m')"
    by (metis prod.exhaust)
  then have a: "sponge_absorb 4 (b, p, False) custom = (b', p', False)"
    by (auto simp: sponge_absorb_def split: prod.splits)
  with xofa_absorb_rep[OF assms, of custom]
  have r: "rep (xof_perm (ascon_xofa_absorb B st custom)) b'" "unat (xof_count (ascon_xofa_absorb B st custom)) = p'"
    "p' < 8" "xof_mode (ascon_xofa_absorb B st custom) = 0"
    by (auto simp: xof_rep_def)
  from rep_release[OF rep_separator[OF rep_permute[OF rep_pad[OF rep_acquire[OF r(1)], of p']]]] r False
  show ?thesis
    by (simp add: ascon_xofa_absorb_custom_def sponge_absorb_custom_def a xof_rep_def Let_def)
qed (use assms in \<open>simp add: ascon_xofa_absorb_custom_def sponge_absorb_custom_def\<close>)

lemma xofa_pad_rep:
  assumes "xof_rep rep st a"
  shows "xof_rep rep (ascon_xofa_pad B st) (sponge_pad 4 a)"
proof -
  obtain b p m where a: "a = (b, p, m)" by (metis prod.exhaust)
  show ?thesis
  proof (cases m)
    case True
    with assms xofa_absorb_rep[OF assms, of "[]"] show ?thesis
      by (simp add: a ascon_xofa_pad_def sponge_pad_def xof_rep_def)
  next
    case False
    with assms rep_release[OF rep_permute[OF rep_acquire]] show ?thesis
      by (auto simp: a ascon_xofa_pad_def sponge_pad_def xof_rep_def Let_def unat_eq_zero)
  qed
qed

lemma xofa_copy_rep:
  "\<lbrakk>xof_rep rep src a; alias \<Longrightarrow> dest = src\<rbrakk> \<Longrightarrow> xof_rep rep (ascon_xofa_copy B alias dest src) a"
  using rep_release[OF rep_copy] by (auto simp: xof_rep_def ascon_xofa_copy_def split: prod.splits)

text \<open>Absorbing and squeezing in any pieces.\<close>

lemma xofa_absorb_pieces:
  "xof_rep rep st a \<Longrightarrow>
     xof_rep rep (foldl (ascon_xofa_absorb B) st ms) (foldl (sponge_absorb 4) a ms)"
  by (induction ms arbitrary: st a) (simp_all add: xofa_absorb_rep)

lemma xofa_squeeze_pieces:
  assumes "xof_rep rep st a"
  shows "\<exists>st' a'. pull (ascon_xofa_squeeze B) st ns = (st', snd (pull (eager_sponge_squeeze 4) a ns)) \<and>
    a' = fst (pull (eager_sponge_squeeze 4) a ns) \<and> xof_rep rep st' a'"
  using assms
proof (induction ns arbitrary: st a)
  case (Cons n ns)
  from xofa_squeeze_rep[OF Cons.prems, of n] Cons.IH[of "fst (ascon_xofa_squeeze B st n)" "fst (eager_sponge_squeeze 4 a n)"]
  show ?case by (auto simp: case_prod_beta Let_def prod_eq_iff)
qed simp

theorem xofa_pieces:
  assumes "xof_rep rep st (b, 0, False)"
  shows "snd (pull (ascon_xofa_squeeze B) (foldl (ascon_xofa_absorb B) st ms) ns) =
    spec_sponge 4 b (concat ms) (sum_list ns)"
proof -
  have len: "length b = 40" using assms by (auto simp: xof_rep_def rep_length)
  from xofa_squeeze_pieces[OF xofa_absorb_pieces[OF assms, of ms], of ns]
  have "snd (pull (ascon_xofa_squeeze B) (foldl (ascon_xofa_absorb B) st ms) ns) =
      snd (pull (eager_sponge_squeeze 4) (foldl (sponge_absorb 4) (b, 0, False) ms) ns)"
    by auto
  then show ?thesis
    using len by (simp add: sponge_absorb_fold eager_squeeze_pieces eager_sponge_output)
qed

lemma xofa_once:
  assumes "xof_rep rep st (b, 0, False)"
  shows "snd (ascon_xofa_squeeze B (ascon_xofa_absorb B st xs) n) = spec_sponge 4 b xs n"
  using xofa_pieces[OF assms, of "[xs]" "[n]"] by (simp add: case_prod_beta Let_def)

lemma xofa_name_block_eq:
  "xofa_name_block B name = spec_name_block 4 0x00400c0400000000 name"
  using xofa_once[OF xofa_init_fixed_rep[of 32]]
  by (simp add: xofa_name_block_def spec_name_block_def Let_def split: option.split)

lemma xofa_init_custom_rep:
  "xof_rep rep (ascon_xofa_init_custom B name custom outlen)
     (spec_custom_start 4 0x00400c0400000000 name custom (if outlen \<ge> 2 ^ 29 then 0 else outlen))"
proof -
  define n where "n = (if outlen \<ge> 2 ^ 29 then 0 else outlen)"
  let ?t = "spec_name_block 4 0x00400c0400000000 name" and ?iv = "be_store_word64 (0x00400c0400000000 OR of_nat (n * 8))"
  have "rep (snp_overwrite_bytes B (snp_overwrite_bytes B (snp_init B) ?t 8 32) ?iv 0 8) (?iv @ ?t)"
    using rep_overwrite[OF rep_overwrite[OF rep_init, of 32 ?t 8], of 8 ?iv 0]
    by (simp add: put_at_zeros_block length_spec_name_block)
  from rep_release[OF rep_permute[OF this]]
  have "xof_rep rep \<lparr> xof_perm = snp_release B (snp_permute B (snp_overwrite_bytes B
      (snp_overwrite_bytes B (snp_init B) ?t 8 32) ?iv 0 8) 0), xof_count = 0, xof_mode = 0 \<rparr>
      (permute_bytes (?iv @ ?t) 0, 0, False)"
    by (simp add: xof_rep_def)
  from xofa_absorb_custom_rep[OF this, of custom] show ?thesis
    unfolding ascon_xofa_init_custom_def spec_custom_start_def xofa_name_block_eq Let_def n_def[symmetric] .
qed

end

section \<open>Sessions\<close>

text \<open>The states a caller can reach.\<close>

inductive xofa_session :: "'s snp \<Rightarrow> 's xof_state \<Rightarrow> bool" for B where
  xofa_session_init: "xofa_session B (ascon_xofa_init B)"
| xofa_session_fixed: "xofa_session B (ascon_xofa_init_fixed B outlen)"
| xofa_session_custom: "xofa_session B (ascon_xofa_init_custom B name custom outlen)"
| xofa_session_absorb: "xofa_session B st \<Longrightarrow> xofa_session B (ascon_xofa_absorb B st xs)"
| xofa_session_squeeze: "xofa_session B st \<Longrightarrow> xofa_session B (fst (ascon_xofa_squeeze B st n))"
| xofa_session_pad: "xofa_session B st \<Longrightarrow> xofa_session B (ascon_xofa_pad B st)"
| xofa_session_copy: "\<lbrakk>xofa_session B src; xofa_session B dest\<rbrakk> \<Longrightarrow> xofa_session B (ascon_xofa_copy B False dest src)"
| xofa_session_free: "xofa_session B st \<Longrightarrow> xofa_session B (ascon_xofa_free B st)"

context snp_laws
begin

lemma xofa_session_inv: "xofa_session B st \<Longrightarrow> \<exists>a. xof_rep rep st a"
proof (induction rule: xofa_session.induct)
  case (xofa_session_squeeze st n)
  then show ?case using xofa_squeeze_rep by blast
next
  case (xofa_session_copy src dest)
  then show ?case using xofa_copy_rep[of src _ False dest] by blast
qed (use xofa_init_rep xofa_init_fixed_rep xofa_init_custom_rep xofa_absorb_rep xofa_pad_rep xofa_free_rep in blast)+

end

end
