(* ===== verification/Hash.thy ===== *)
theory Hash
  imports Xofa
begin

text \<open>
  \<open>hash/ascon-hash.c\<close> and \<open>hash/ascon-hasha.c\<close>: ASCON-HASH and ASCON-HASHA, the fixed-length hash
  functions over the sponges of \<open>Xof\<close> and \<open>Xofa\<close>.  The structures \<open>ascon_hash_state_t\<close> and
  \<open>ascon_hasha_state_t\<close> hold just the sponge and are its record.
\<close>

section \<open>ASCON-HASH\<close>

definition HASH_IV64 :: "u64 list" where
  "HASH_IV64 =
    [0xee9398aadb67f03d, 0x8bb21831c60f1002, 0xb48a92db98d5da62,
     0x43189921b8f8e3e8, 0x348fa5c9d525e140]"

definition HASH_IV32 :: "u32 list" where
  "HASH_IV32 =
    [0xa540dbc7, 0xf9afb5c6, 0x1445a340, 0xbd249301, 0x604d4fc8,
     0xcb9ba8b5, 0x94514c98, 0x12a4eede, 0x6339f398, 0x4bca84c0]"

definition HASH_IV8 :: "bytes" where
  "HASH_IV8 =
    [0xee, 0x93, 0x98, 0xaa, 0xdb, 0x67, 0xf0, 0x3d,
     0x8b, 0xb2, 0x18, 0x31, 0xc6, 0x0f, 0x10, 0x02,
     0xb4, 0x8a, 0x92, 0xdb, 0x98, 0xd5, 0xda, 0x62,
     0x43, 0x18, 0x99, 0x21, 0xb8, 0xf8, 0xe3, 0xe8,
     0x34, 0x8f, 0xa5, 0xc9, 0xd5, 0x25, 0xe1, 0x40]"

definition ascon_hash_init :: "'s snp \<Rightarrow> 's xof_state" where
  "ascon_hash_init B =
     \<lparr> xof_perm = snp_load B HASH_IV64 HASH_IV32 HASH_IV8, xof_count = 0, xof_mode = 0 \<rparr>"

definition ascon_hash_reinit :: "'s snp \<Rightarrow> 's xof_state \<Rightarrow> 's xof_state" where
  "ascon_hash_reinit B st = ascon_hash_init B"

definition ascon_hash_free :: "'s snp \<Rightarrow> 's xof_state \<Rightarrow> 's xof_state" where
  "ascon_hash_free B st = ascon_xof_free B st"

definition ascon_hash_update :: "'s snp \<Rightarrow> 's xof_state \<Rightarrow> bytes \<Rightarrow> 's xof_state" where
  "ascon_hash_update B st inp = ascon_xof_absorb B st inp"

definition ascon_hash_finalize :: "'s snp \<Rightarrow> 's xof_state \<Rightarrow> 's xof_state \<times> bytes" where
  "ascon_hash_finalize B st = ascon_xof_squeeze B st 32"

definition ascon_hash_copy :: "'s snp \<Rightarrow> bool \<Rightarrow> 's xof_state \<Rightarrow> 's xof_state \<Rightarrow> 's xof_state" where
  "ascon_hash_copy B alias dest src = ascon_xof_copy B alias dest src"

definition ascon_hash :: "'s snp \<Rightarrow> bytes \<Rightarrow> bytes" where
  "ascon_hash B inp =
     snd (ascon_xof_squeeze B (ascon_xof_absorb B (ascon_hash_init B) inp) 32)"

text \<open>The hash function of the specification.\<close>

definition spec_hash :: "bytes \<Rightarrow> bytes" where
  "spec_hash m = spec_sponge 0 (spec_xof_start 0x00400c0000000000 32) m 32"

lemma length_spec_hash [simp]: "length (spec_hash m) = 32"
  by (simp add: spec_hash_def)

lemma hash_tables:
  "HASH_IV64 = XOF32_IV64" "HASH_IV32 = XOF32_IV32" "HASH_IV8 = XOF32_IV8"
  by (simp_all add: HASH_IV64_def HASH_IV32_def HASH_IV8_def XOF32_IV64_def XOF32_IV32_def XOF32_IV8_def)

lemma hash_init_eq: "ascon_hash_init B = ascon_xof_init_fixed B 32"
  by (simp add: ascon_hash_init_def ascon_xof_init_fixed_def hash_tables)

context snp_laws
begin

lemma hash_init_rep: "xof_rep rep (ascon_hash_init B) (spec_xof_start 0x00400c0000000000 32, 0, False)"
  using xof_init_fixed_rep[of 32] by (simp add: hash_init_eq)

lemma hash_eq: "ascon_hash B m = spec_hash m"
  by (simp add: ascon_hash_def spec_hash_def xof_once[OF hash_init_rep])

lemma hash_incremental:
  "snd (ascon_hash_finalize B (foldl (ascon_hash_update B) (ascon_hash_init B) ms)) = spec_hash (concat ms)"
  using xof_pieces[OF hash_init_rep, of ms "[32]"]
  by (simp add: ascon_hash_finalize_def ascon_hash_update_def[abs_def] spec_hash_def case_prod_beta Let_def)

end

section \<open>ASCON-HASHA\<close>

definition HASHA_IV64 :: "u64 list" where
  "HASHA_IV64 =
    [0x01470194fc6528a6, 0x738ec38ac0adffa7, 0x2ec8e3296c76384c,
     0xd6f6a54d7f52377d, 0xa13c42a223be8d87]"

definition HASHA_IV32 :: "u32 list" where
  "HASHA_IV32 =
    [0x1b16eb02, 0x0108e46d, 0xd29083f3, 0x5b9b8efd, 0x2891ae4a,
     0x7ad66562, 0xee3bfc7f, 0x9dc27156, 0x16801633, 0xc61d5fa9]"

definition HASHA_IV8 :: "bytes" where
  "HASHA_IV8 =
    [0x01, 0x47, 0x01, 0x94, 0xfc, 0x65, 0x28, 0xa6,
     0x73, 0x8e, 0xc3, 0x8a, 0xc0, 0xad, 0xff, 0xa7,
     0x2e, 0xc8, 0xe3, 0x29, 0x6c, 0x76, 0x38, 0x4c,
     0xd6, 0xf6, 0xa5, 0x4d, 0x7f, 0x52, 0x37, 0x7d,
     0xa1, 0x3c, 0x42, 0xa2, 0x23, 0xbe, 0x8d, 0x87]"

definition ascon_hasha_init :: "'s snp \<Rightarrow> 's xof_state" where
  "ascon_hasha_init B =
     \<lparr> xof_perm = snp_load B HASHA_IV64 HASHA_IV32 HASHA_IV8, xof_count = 0, xof_mode = 0 \<rparr>"

definition ascon_hasha_reinit :: "'s snp \<Rightarrow> 's xof_state \<Rightarrow> 's xof_state" where
  "ascon_hasha_reinit B st = ascon_hasha_init B"

definition ascon_hasha_free :: "'s snp \<Rightarrow> 's xof_state \<Rightarrow> 's xof_state" where
  "ascon_hasha_free B st = ascon_xofa_free B st"

definition ascon_hasha_update :: "'s snp \<Rightarrow> 's xof_state \<Rightarrow> bytes \<Rightarrow> 's xof_state" where
  "ascon_hasha_update B st inp = ascon_xofa_absorb B st inp"

definition ascon_hasha_finalize :: "'s snp \<Rightarrow> 's xof_state \<Rightarrow> 's xof_state \<times> bytes" where
  "ascon_hasha_finalize B st = ascon_xofa_squeeze B st 32"

definition ascon_hasha_copy :: "'s snp \<Rightarrow> bool \<Rightarrow> 's xof_state \<Rightarrow> 's xof_state \<Rightarrow> 's xof_state" where
  "ascon_hasha_copy B alias dest src = ascon_xofa_copy B alias dest src"

definition ascon_hasha :: "'s snp \<Rightarrow> bytes \<Rightarrow> bytes" where
  "ascon_hasha B inp =
     snd (ascon_xofa_squeeze B (ascon_xofa_absorb B (ascon_hasha_init B) inp) 32)"

text \<open>The hash function of the specification.\<close>

definition spec_hasha :: "bytes \<Rightarrow> bytes" where
  "spec_hasha m = spec_sponge 4 (spec_xof_start 0x00400c0400000000 32) m 32"

lemma length_spec_hasha [simp]: "length (spec_hasha m) = 32"
  by (simp add: spec_hasha_def)

lemma hasha_tables:
  "HASHA_IV64 = XOFA32_IV64" "HASHA_IV32 = XOFA32_IV32" "HASHA_IV8 = XOFA32_IV8"
  by (simp_all add: HASHA_IV64_def HASHA_IV32_def HASHA_IV8_def XOFA32_IV64_def XOFA32_IV32_def XOFA32_IV8_def)

lemma hasha_init_eq: "ascon_hasha_init B = ascon_xofa_init_fixed B 32"
  by (simp add: ascon_hasha_init_def ascon_xofa_init_fixed_def hasha_tables)

context snp_laws
begin

lemma hasha_init_rep: "xof_rep rep (ascon_hasha_init B) (spec_xof_start 0x00400c0400000000 32, 0, False)"
  using xofa_init_fixed_rep[of 32] by (simp add: hasha_init_eq)

lemma hasha_eq: "ascon_hasha B m = spec_hasha m"
  by (simp add: ascon_hasha_def spec_hasha_def xofa_once[OF hasha_init_rep])

lemma hasha_incremental:
  "snd (ascon_hasha_finalize B (foldl (ascon_hasha_update B) (ascon_hasha_init B) ms)) = spec_hasha (concat ms)"
  using xofa_pieces[OF hasha_init_rep, of ms "[32]"]
  by (simp add: ascon_hasha_finalize_def ascon_hasha_update_def[abs_def] spec_hasha_def case_prod_beta Let_def)

end

end
