(* ===== verification/Hash_Properties.thy ===== *)
theory Hash_Properties
  imports Hash Snp_Direct_Xor Snp_Sliced32
begin

text \<open>
  The properties of the hash functions and the extendable-output functions: the code computes
  the sponge of the specification for any way of cutting input and output into pieces, the
  states it can reach are well formed, and a published test vector comes out.
\<close>

section \<open>Test vectors\<close>

text \<open>The permutation on words instead of bytes, for evaluation.\<close>

lemma permute_bytes_of: "permute_bytes (bytes_of r) fr = bytes_of (c64_permute r fr)"
  by (simp add: permute_direct_xor_eq)

lemma xor_pad_bytes_of:
  "xor_at (bytes_of (x0, x1, x2, x3, x4)) 0 [0x80] = bytes_of (x0 XOR 0x8000000000000000, x1, x2, x3, x4)"
proof -
  have "be_store_word64 0x8000000000000000 = [0x80, 0, 0, 0, 0, 0, 0, 0]" by code_simp
  then have "be_store_word64 (x0 XOR 0x8000000000000000) = xor_bytes (be_store_word64 x0) [0x80, 0, 0, 0, 0, 0, 0, 0]"
    by (simp add: be_store_word64_xor)
  then show ?thesis
    by (simp add: bytes_of_def be_store_word64_def xor_at_one)
qed

lemma get_block_bytes_of: "get_at (bytes_of (x0, x1, x2, x3, x4)) 0 8 = be_store_word64 x0"
  by (simp add: bytes_of_def get_at_def)

lemma spec_squeeze_32:
  "spec_squeeze 8 f b 32 = get_at b 0 8 @ get_at (f b) 0 8 @ get_at (f (f b)) 0 8 @ get_at (f (f (f b))) 0 8"
  by (simp add: spec_squeeze.simps)

text \<open>The states the sponge goes through on the empty message.\<close>

lemma empty_hash_states:
  "c64_permute (0x6e9398aadb67f03d, 0x8bb21831c60f1002, 0xb48a92db98d5da62, 0x43189921b8f8e3e8, 0x348fa5c9d525e140) 0 =
     (0x7346bc14f036e87a, 0x23c805e0805daea6, 0xe60ef839287135cb, 0x42be9cb410c6f938, 0x4948fe932a58c929)"
  "c64_permute (0x7346bc14f036e87a, 0x23c805e0805daea6, 0xe60ef839287135cb, 0x42be9cb410c6f938, 0x4948fe932a58c929) 0 =
     (0xe03d0997913088f5, 0x3bf5db7638ebbeea, 0xd7a5bef4e544d5e9, 0xd121177132163b5a, 0xdfc167e31bb4fe47)"
  "c64_permute (0xe03d0997913088f5, 0x3bf5db7638ebbeea, 0xd7a5bef4e544d5e9, 0xd121177132163b5a, 0xdfc167e31bb4fe47) 0 =
     (0xf68411434b3cf8b5, 0x0827351d385c5ce1, 0xcf631565bccdabd5, 0xb9e13bc380157e4e, 0x57b3965d1984ac40)"
  "c64_permute (0xf68411434b3cf8b5, 0x0827351d385c5ce1, 0xcf631565bccdabd5, 0xb9e13bc380157e4e, 0x57b3965d1984ac40) 0 =
     (0x4fa796a80d251f91, 0xa134eea1c802c4e7, 0xeb060fc6cd0f7afa, 0x9ad0ff57fc5272fd, 0x3d21c4c0779da3f2)"
  by (simp_all only: perm_eval)

lemma empty_hash_words:
  "be_store_word64 0x7346bc14f036e87a = [0x73, 0x46, 0xBC, 0x14, 0xF0, 0x36, 0xE8, 0x7A]"
  "be_store_word64 0xe03d0997913088f5 = [0xE0, 0x3D, 0x09, 0x97, 0x91, 0x30, 0x88, 0xF5]"
  "be_store_word64 0xf68411434b3cf8b5 = [0xF6, 0x84, 0x11, 0x43, 0x4B, 0x3C, 0xF8, 0xB5]"
  "be_store_word64 0x4fa796a80d251f91 = [0x4F, 0xA7, 0x96, 0xA8, 0x0D, 0x25, 0x1F, 0x91]"
  by code_simp+

text \<open>ASCON-HASH of the empty message, computed by the code on the word backend in either byte
  order, is the published test vector.\<close>

theorem ascon_hash_empty_vector:
  "ascon_hash (sliced64 le) [] =
     [0x73, 0x46, 0xBC, 0x14, 0xF0, 0x36, 0xE8, 0x7A, 0xE0, 0x3D, 0x09, 0x97, 0x91, 0x30, 0x88, 0xF5,
      0xF6, 0x84, 0x11, 0x43, 0x4B, 0x3C, 0xF8, 0xB5, 0x4F, 0xA7, 0x96, 0xA8, 0x0D, 0x25, 0x1F, 0x91]"
proof -
  have "0xee9398aadb67f03d XOR 0x8000000000000000 = (0x6e9398aadb67f03d :: u64)" by simp
  moreover have "spec_xof_start 0x00400c0000000000 32 = bytes_of (0xee9398aadb67f03d, 0x8bb21831c60f1002,
      0xb48a92db98d5da62, 0x43189921b8f8e3e8, 0x348fa5c9d525e140)"
    by (simp add: spec_xof_start_regs flip: xof_start_states)
  ultimately have "spec_hash [] = be_store_word64 0x7346bc14f036e87a @ be_store_word64 0xe03d0997913088f5 @
      be_store_word64 0xf68411434b3cf8b5 @ be_store_word64 0x4fa796a80d251f91"
    by (simp add: spec_hash_def spec_sponge_def spec_absorb_def spec_squeeze_32 xor_pad_bytes_of
        permute_bytes_of get_block_bytes_of empty_hash_states)
  then show ?thesis
    by (simp add: snp_laws.hash_eq[OF sliced64.snp_laws_axioms] empty_hash_words)
qed

section \<open>Functional correctness\<close>

text \<open>Property C8. ASCON-HASH and ASCON-HASHA, fed a message in pieces of any sizes, give the sponge of the
  specification on the whole message, which is also what the one-shot functions give; and they do
  on every backend.\<close>

theorem hash_incremental_one_shot:
  "snd (ascon_hash_finalize (sliced64 le) (foldl (ascon_hash_update (sliced64 le)) (ascon_hash_init (sliced64 le)) ms)) =
     ascon_hash direct_xor (concat ms) \<and>
   ascon_hash direct_xor (concat ms) = spec_hash (concat ms) \<and>
   snd (ascon_hasha_finalize (sliced64 le) (foldl (ascon_hasha_update (sliced64 le)) (ascon_hasha_init (sliced64 le)) ms)) =
     ascon_hasha direct_xor (concat ms) \<and>
   ascon_hasha direct_xor (concat ms) = spec_hasha (concat ms)"
  by (simp add: snp_laws.hash_incremental[OF sliced64.snp_laws_axioms] snp_laws.hash_eq[OF direct_xor.snp_laws_axioms]
      snp_laws.hasha_incremental[OF sliced64.snp_laws_axioms] snp_laws.hasha_eq[OF direct_xor.snp_laws_axioms])

text \<open>Property C9. ASCON-XOF with a requested output length: absorbing the input in pieces of any sizes and
  asking for the output in pieces of any sizes gives the output stream of the sponge of the
  specification, started from the initial block with the length (0 for lengths from \<open>2^29\<close> on); the
  precomputed initial states are the ones the permutation yields.\<close>

theorem xof_incremental:
  "snd (pull (ascon_xof_squeeze (sliced64 le))
      (foldl (ascon_xof_absorb (sliced64 le)) (ascon_xof_init_fixed (sliced64 le) outlen) ms) ns) =
    spec_sponge 0 (spec_xof_start 0x00400c0000000000 (if outlen \<ge> 2 ^ 29 then 0 else outlen))
      (concat ms) (sum_list ns)"
  by (rule snp_laws.xof_pieces[OF sliced64.snp_laws_axioms
        snp_laws.xof_init_fixed_rep[OF sliced64.snp_laws_axioms]])

text \<open>The same for ASCON-XOFA, which permutes with 8 rounds and at other moments.\<close>

theorem xofa_incremental:
  "snd (pull (ascon_xofa_squeeze (sliced64 le))
      (foldl (ascon_xofa_absorb (sliced64 le)) (ascon_xofa_init_fixed (sliced64 le) outlen) ms) ns) =
    spec_sponge 4 (spec_xof_start 0x00400c0400000000 (if outlen \<ge> 2 ^ 29 then 0 else outlen))
      (concat ms) (sum_list ns)"
  by (rule snp_laws.xofa_pieces[OF sliced64.snp_laws_axioms
        snp_laws.xofa_init_fixed_rep[OF sliced64.snp_laws_axioms]])

section \<open>Invariants\<close>

text \<open>Property C18. In every state that the operations of ASCON-XOF can reach, in any order and on any input,
  the count is the position inside a block of 8 bytes, the mode is 0 or 1, and the permutation
  state has its five words.\<close>

theorem xof_session_invariant:
  assumes "xof_session (sliced64 le) st"
  shows "unat (xof_count st) < 8 \<and> (xof_mode st = 0 \<or> xof_mode st = 1) \<and> length (xof_perm st) = 5"
proof -
  obtain b p m where "xof_rep rep_sliced64 st (b, p, m)"
    using snp_laws.xof_session_inv[OF sliced64.snp_laws_axioms assms] by (metis prod.exhaust)
  then show ?thesis by (cases m) (auto simp: xof_rep_def rep_sliced64_def)
qed

lemma xof_session_invariant_witness:
  "unat (xof_count (fst (ascon_xof_squeeze (sliced64 True) (ascon_xof_init (sliced64 True)) 13))) < 8"
  using xof_session_invariant[OF xof_session_squeeze[OF xof_session_init], of True 13] by simp

text \<open>The padding function brings a state of ASCON-XOF to the start of a block of the absorbing phase
  and leaves a state that is already there as it was.\<close>

theorem xof_pad_aligns:
  assumes "xof_session (sliced64 le) st"
  shows "xof_count (ascon_xof_pad (sliced64 le) st) = 0 \<and> xof_mode (ascon_xof_pad (sliced64 le) st) = 0 \<and>
    (xof_mode st = 0 \<and> xof_count st = 0 \<longrightarrow> ascon_xof_pad (sliced64 le) st = st)"
proof -
  note laws = sliced64.snp_laws_axioms[of le]
  obtain b p m where a: "xof_rep rep_sliced64 st (b, p, m)"
    using snp_laws.xof_session_inv[OF laws assms] by (metis prod.exhaust)
  from snp_laws.xof_pad_rep[OF laws a] a show ?thesis
    by (cases m) (auto simp: xof_rep_def sponge_pad_def sponge_absorb_def unat_eq_zero ascon_xof_pad_def
        split: if_splits)
qed

lemma xof_pad_aligns_witness:
  "xof_count (ascon_xof_pad (sliced64 True) (ascon_xof_absorb (sliced64 True) (ascon_xof_init (sliced64 True)) [1, 2, 3])) = 0"
  using xof_pad_aligns[OF xof_session_absorb[OF xof_session_init], of True "[1, 2, 3]"] by simp

section \<open>Function names\<close>

text \<open>Initialising ASCON-XOF with a function name and a customisation string and hashing a message
  gives the sponge whose initial block holds the name, hashed when it is longer than 32 bytes,
  and which has first absorbed the customisation string as a padded, separated string of its own.\<close>

theorem xof_custom_output:
  "snd (pull (ascon_xof_squeeze (sliced64 le))
      (foldl (ascon_xof_absorb (sliced64 le)) (ascon_xof_init_custom (sliced64 le) name custom outlen) ms) ns) =
    spec_sponge 0
      (fst (spec_custom_start 0 0x00400c0000000000 name custom (if outlen \<ge> 2 ^ 29 then 0 else outlen)))
      (concat ms) (sum_list ns)"
proof -
  note laws = sliced64.snp_laws_axioms[of le]
  let ?a = "spec_custom_start 0 0x00400c0000000000 name custom (if outlen \<ge> 2 ^ 29 then 0 else outlen)"
  have "?a = (fst ?a, 0, False)"
    by (auto simp: spec_custom_start_def sponge_absorb_custom_def sponge_absorb_def split: prod.splits)
  with snp_laws.xof_init_custom_rep[OF laws, of name custom outlen]
  have "xof_rep rep_sliced64 (ascon_xof_init_custom (sliced64 le) name custom outlen) (fst ?a, 0, False)"
    by simp
  from snp_laws.xof_pieces[OF laws this] show ?thesis .
qed

end
