(* ===== verification/Hmac.thy ===== *)
theory Hmac
  imports Hash
begin

text \<open>
  \<open>mac/ascon-hmac-common.h\<close>, instantiated by \<open>mac/ascon-hmac.c\<close> and \<open>mac/ascon-hmaca.c\<close>: HMAC
  over a hash function.  The header is a template over the names of a hash function's
  operations; here the operations are a record and the template is a group of definitions over
  it.  The locale \<open>hash_laws\<close> is what HMAC needs of the hash function, and both ASCON-HASH and
  ASCON-HASHA provide it on every backend.
\<close>

section \<open>The template\<close>

record 'h hash_ops =
  hash_init :: 'h
  hash_reinit :: "'h \<Rightarrow> 'h"
  hash_free :: "'h \<Rightarrow> 'h"
  hash_update :: "'h \<Rightarrow> bytes \<Rightarrow> 'h"
  hash_finalize :: "'h \<Rightarrow> 'h \<times> bytes"

definition HMAC_IPAD :: u8 where "HMAC_IPAD = 0x36"
definition HMAC_OPAD :: u8 where "HMAC_OPAD = 0x5C"

fun xor_pad :: "bytes \<Rightarrow> u8 \<Rightarrow> bytes" where
  "xor_pad (x # inp) pad = (x XOR pad) # xor_pad inp pad"
| "xor_pad [] pad = []"

text \<open>The loop over a short key in pieces of 32 bytes, on what is left of the key, and the loop that
  fills the block up.\<close>

function absorb_key_loop :: "'h hash_ops \<Rightarrow> 'h \<Rightarrow> bytes \<Rightarrow> u8 \<Rightarrow> 'h" where
  "absorb_key_loop H st key pad =
     (if length key > 0 then
        let len = min (length key) 32;
            st = hash_update H st (xor_pad (take len key) pad)
        in absorb_key_loop H st (drop len key) pad
      else st)"
  by pat_completeness auto
termination by (relation "measure (\<lambda>(H, st, key, pad). length key)") auto

declare absorb_key_loop.simps [simp del]

function fill_block_loop :: "'h hash_ops \<Rightarrow> 'h \<Rightarrow> nat \<Rightarrow> u8 \<Rightarrow> 'h" where
  "fill_block_loop H st posn pad =
     (if posn < 64 then
        let len = min (64 - posn) 32
        in fill_block_loop H (hash_update H st (replicate len pad)) (posn + len) pad
      else st)"
  by pat_completeness auto
termination by (relation "measure (\<lambda>(H, st, posn, pad). 64 - posn)") auto

declare fill_block_loop.simps [simp del]

definition hmac_absorb_key :: "'h hash_ops \<Rightarrow> 'h \<Rightarrow> bytes \<Rightarrow> u8 \<Rightarrow> 'h" where
  "hmac_absorb_key H st key pad =
     (let (st, posn) =
        (if length key \<le> 64 then (absorb_key_loop H st key pad, length key)
         else
           let st = hash_update H st key;
               (st, temp) = hash_finalize H st;
               st = hash_reinit H st
           in (hash_update H st (xor_pad temp pad), 32))
      in fill_block_loop H st posn pad)"

definition hmac_init :: "'h hash_ops \<Rightarrow> bytes \<Rightarrow> 'h" where
  "hmac_init H key = hmac_absorb_key H (hash_init H) key HMAC_IPAD"

definition hmac_reinit :: "'h hash_ops \<Rightarrow> 'h \<Rightarrow> bytes \<Rightarrow> 'h" where
  "hmac_reinit H st key = hmac_absorb_key H (hash_reinit H st) key HMAC_IPAD"

definition hmac_free :: "'h hash_ops \<Rightarrow> 'h \<Rightarrow> 'h" where
  "hmac_free H st = hash_free H st"

definition hmac_update :: "'h hash_ops \<Rightarrow> 'h \<Rightarrow> bytes \<Rightarrow> 'h" where
  "hmac_update H st inp = hash_update H st inp"

definition hmac_finalize :: "'h hash_ops \<Rightarrow> 'h \<Rightarrow> bytes \<Rightarrow> 'h \<times> bytes" where
  "hmac_finalize H st key =
     (let (st, temp) = hash_finalize H st;
          st = hash_reinit H st;
          st = hmac_absorb_key H st key HMAC_OPAD;
          st = hash_update H st temp
      in hash_finalize H st)"

definition hmac :: "'h hash_ops \<Rightarrow> bytes \<Rightarrow> bytes \<Rightarrow> bytes" where
  "hmac H key inp =
     (let st = hmac_absorb_key H (hash_init H) key HMAC_IPAD;
          st = hash_update H st inp
      in snd (hmac_finalize H st key))"

section \<open>The instances\<close>

definition ascon_hash_ops :: "'s snp \<Rightarrow> 's xof_state hash_ops" where
  "ascon_hash_ops B = \<lparr> hash_init = ascon_hash_init B, hash_reinit = ascon_hash_reinit B,
     hash_free = ascon_hash_free B, hash_update = ascon_hash_update B,
     hash_finalize = ascon_hash_finalize B \<rparr>"

definition ascon_hasha_ops :: "'s snp \<Rightarrow> 's xof_state hash_ops" where
  "ascon_hasha_ops B = \<lparr> hash_init = ascon_hasha_init B, hash_reinit = ascon_hasha_reinit B,
     hash_free = ascon_hasha_free B, hash_update = ascon_hasha_update B,
     hash_finalize = ascon_hasha_finalize B \<rparr>"

definition ascon_hmac :: "'s snp \<Rightarrow> bytes \<Rightarrow> bytes \<Rightarrow> bytes" where
  "ascon_hmac B = hmac (ascon_hash_ops B)"

definition ascon_hmaca :: "'s snp \<Rightarrow> bytes \<Rightarrow> bytes \<Rightarrow> bytes" where
  "ascon_hmaca B = hmac (ascon_hasha_ops B)"

section \<open>HMAC\<close>

text \<open>RFC 2104 for a hash function with blocks of 64 bytes.\<close>

definition hmac_key_block :: "(bytes \<Rightarrow> bytes) \<Rightarrow> bytes \<Rightarrow> bytes" where
  "hmac_key_block digest key =
     (let k = (if length key \<le> 64 then key else digest key) in k @ zeros (64 - length k))"

definition spec_hmac :: "(bytes \<Rightarrow> bytes) \<Rightarrow> bytes \<Rightarrow> bytes \<Rightarrow> bytes" where
  "spec_hmac digest key m =
     (let k = hmac_key_block digest key
      in digest (map (\<lambda>x. x XOR 0x5C) k @ digest (map (\<lambda>x. x XOR 0x36) k @ m)))"

lemma xor_pad_map: "xor_pad inp pad = map (\<lambda>x. x XOR pad) inp"
  by (induction inp pad rule: xor_pad.induct) auto

locale hash_laws =
  fixes H :: "'h hash_ops" and digest :: "bytes \<Rightarrow> bytes" and holds :: "'h \<Rightarrow> bytes \<Rightarrow> bool"
  assumes init_holds: "holds (hash_init H) []"
    and reinit_holds: "holds (hash_reinit H st) []"
    and update_holds: "holds st m \<Longrightarrow> holds (hash_update H st xs) (m @ xs)"
    and finalize_digest: "holds st m \<Longrightarrow> snd (hash_finalize H st) = digest m"
    and digest_length: "length (digest m) = 32"
begin

lemma absorb_key_loop_holds:
  "holds st m \<Longrightarrow> holds (absorb_key_loop H st key pad) (m @ map (\<lambda>x. x XOR pad) key)"
proof (induction "length key" arbitrary: st m key rule: less_induct)
  case less
  show ?case
  proof (cases "key = []")
    case False
    let ?len = "min (length key) 32"
    have "length (drop ?len key) < length key" using False by simp
    from less.hyps[OF this update_holds[OF less.prems, of "xor_pad (take ?len key) pad"]] False
    show ?thesis
      by (simp add: absorb_key_loop.simps[of H st key] xor_pad_map Let_def flip: map_append)
  qed (use less.prems in \<open>simp add: absorb_key_loop.simps\<close>)
qed

lemma fill_block_loop_holds:
  "holds st m \<Longrightarrow> holds (fill_block_loop H st posn pad) (m @ replicate (64 - posn) pad)"
proof (induction "64 - posn" arbitrary: st m posn rule: less_induct)
  case less
  show ?case
  proof (cases "posn < 64")
    case True
    let ?len = "min (64 - posn) 32"
    have "64 - (posn + ?len) < 64 - posn" using True by simp
    from less.hyps[OF this update_holds[OF less.prems, of "replicate ?len pad"]] True
    show ?thesis
      by (simp add: fill_block_loop.simps[of H st posn] Let_def flip: replicate_add)
  qed (use less.prems in \<open>simp add: fill_block_loop.simps\<close>)
qed

lemma absorb_key_holds:
  assumes "holds st []"
  shows "holds (hmac_absorb_key H st key pad) (map (\<lambda>x. x XOR pad) (hmac_key_block digest key))"
proof (cases "length key \<le> 64")
  case True
  from fill_block_loop_holds[OF absorb_key_loop_holds[OF assms, of key pad], of "length key" pad] True
  show ?thesis
    by (simp add: hmac_absorb_key_def hmac_key_block_def zeros_def)
next
  case False
  have d: "snd (hash_finalize H (hash_update H st key)) = digest key"
    using finalize_digest[OF update_holds[OF assms, of key]] by simp
  from fill_block_loop_holds[OF update_holds[OF reinit_holds, where xs = "xor_pad (digest key) pad"],
      where posn = 32 and pad = pad] False d
  show ?thesis
    by (simp add: hmac_absorb_key_def hmac_key_block_def zeros_def digest_length xor_pad_map case_prod_beta Let_def)
qed

text \<open>A message authenticated in pieces, from a fresh or a used state.\<close>

definition mac_holds :: "'h \<Rightarrow> bytes \<Rightarrow> bytes \<Rightarrow> bool" where
  "mac_holds st key m \<longleftrightarrow> holds st (map (\<lambda>x. x XOR 0x36) (hmac_key_block digest key) @ m)"

lemma hmac_init_holds: "mac_holds (hmac_init H key) key []" "mac_holds (hmac_reinit H st key) key []"
  using absorb_key_holds[OF init_holds, of key HMAC_IPAD] absorb_key_holds[OF reinit_holds, of st key HMAC_IPAD]
  by (simp_all add: mac_holds_def hmac_init_def hmac_reinit_def HMAC_IPAD_def)

lemma hmac_update_holds: "mac_holds st key m \<Longrightarrow> mac_holds (hmac_update H st xs) key (m @ xs)"
  unfolding mac_holds_def hmac_update_def append_assoc[symmetric] by (rule update_holds)

lemma hmac_finalize_eq: "mac_holds st key m \<Longrightarrow> snd (hmac_finalize H st key) = spec_hmac digest key m"
  using finalize_digest[of st] finalize_digest[OF update_holds[OF absorb_key_holds[OF reinit_holds]]]
  by (simp add: mac_holds_def hmac_finalize_def spec_hmac_def HMAC_OPAD_def case_prod_beta Let_def)

lemma hmac_eq: "hmac H key m = spec_hmac digest key m"
  using hmac_finalize_eq[OF hmac_update_holds[OF hmac_init_holds(1), of key m]]
  by (simp add: hmac_def hmac_init_def hmac_update_def Let_def)

lemma hmac_pieces:
  "mac_holds st key m \<Longrightarrow> mac_holds (foldl (hmac_update H) st xs) key (m @ concat xs)"
  by (induction xs arbitrary: st m) (simp, force dest: hmac_update_holds)

end

lemma length_spec_hmac: "(\<And>m. length (digest m) = 32) \<Longrightarrow> length (spec_hmac digest key m) = 32"
  by (simp add: spec_hmac_def Let_def)

section \<open>A MAC as an interface\<close>

text \<open>The functions of a MAC that HKDF and PBKDF2 call, and what they rely on.  HMAC over any hash
  function with the laws above provides it.\<close>

record 'm mac_ops =
  mac_init :: "bytes \<Rightarrow> 'm"
  mac_reinit :: "'m \<Rightarrow> bytes \<Rightarrow> 'm"
  mac_update :: "'m \<Rightarrow> bytes \<Rightarrow> 'm"
  mac_finalize :: "'m \<Rightarrow> bytes \<Rightarrow> 'm \<times> bytes"
  mac_free :: "'m \<Rightarrow> 'm"

definition hmac_ops :: "'h hash_ops \<Rightarrow> 'h mac_ops" where
  "hmac_ops H = \<lparr> mac_init = hmac_init H, mac_reinit = hmac_reinit H, mac_update = hmac_update H,
     mac_finalize = hmac_finalize H, mac_free = hmac_free H \<rparr>"

locale mac_laws =
  fixes M :: "'m mac_ops" and mac :: "bytes \<Rightarrow> bytes \<Rightarrow> bytes"
    and keyed :: "'m \<Rightarrow> bytes \<Rightarrow> bytes \<Rightarrow> bool"
  assumes init_keyed: "keyed (mac_init M key) key []"
    and reinit_keyed: "keyed (mac_reinit M st key) key []"
    and update_keyed: "keyed st key m \<Longrightarrow> keyed (mac_update M st xs) key (m @ xs)"
    and finalize_mac: "keyed st key m \<Longrightarrow> snd (mac_finalize M st key) = mac key m"
    and mac_length: "length (mac key m) = 32"
begin

text \<open>The MAC of a message given in two or three updates.\<close>

lemma mac_once: "keyed st key [] \<Longrightarrow> snd (mac_finalize M (mac_update M st xs) key) = mac key xs"
  using finalize_mac[OF update_keyed] by fastforce

lemma mac_twice:
  "keyed st key [] \<Longrightarrow> snd (mac_finalize M (mac_update M (mac_update M st xs) ys) key) = mac key (xs @ ys)"
  using finalize_mac[OF update_keyed[OF update_keyed]] by fastforce

lemma mac_thrice:
  "keyed st key [] \<Longrightarrow>
     snd (mac_finalize M (mac_update M (mac_update M (mac_update M st xs) ys) zs) key) = mac key (xs @ ys @ zs)"
  using finalize_mac[OF update_keyed[OF update_keyed[OF update_keyed]]] by fastforce

end

sublocale hash_laws \<subseteq> mac: mac_laws "hmac_ops H" "spec_hmac digest" mac_holds
  by unfold_locales (simp_all add: hmac_ops_def hmac_init_holds hmac_update_holds hmac_finalize_eq
      length_spec_hmac digest_length)

section \<open>The hash functions provide the laws\<close>

sublocale snp_laws \<subseteq> hash: hash_laws "ascon_hash_ops B" spec_hash
    "\<lambda>st m. xof_rep rep st (sponge_absorb 0 (spec_xof_start 0x00400c0000000000 32, 0, False) m)"
proof unfold_locales
  fix st m
  assume "xof_rep rep st (sponge_absorb 0 (spec_xof_start 0x00400c0000000000 32, 0, False) m)"
  from xof_squeeze_rep[OF this, of 32] show "snd (hash_finalize (ascon_hash_ops B) st) = spec_hash m"
    by (simp add: ascon_hash_ops_def ascon_hash_finalize_def lazy_sponge_output spec_hash_def spec_xof_start_def)
next
  fix st m xs
  assume "xof_rep rep st (sponge_absorb 0 (spec_xof_start 0x00400c0000000000 32, 0, False) m)"
  from xof_absorb_rep[OF this, of xs] show
    "xof_rep rep (hash_update (ascon_hash_ops B) st xs)
       (sponge_absorb 0 (spec_xof_start 0x00400c0000000000 32, 0, False) (m @ xs))"
    by (simp add: ascon_hash_ops_def ascon_hash_update_def sponge_absorb_append)
qed (use hash_init_rep in \<open>simp_all add: ascon_hash_ops_def ascon_hash_reinit_def sponge_absorb_Nil\<close>)

sublocale snp_laws \<subseteq> hasha: hash_laws "ascon_hasha_ops B" spec_hasha
    "\<lambda>st m. xof_rep rep st (sponge_absorb 4 (spec_xof_start 0x00400c0400000000 32, 0, False) m)"
proof unfold_locales
  fix st m
  assume "xof_rep rep st (sponge_absorb 4 (spec_xof_start 0x00400c0400000000 32, 0, False) m)"
  from xofa_squeeze_rep[OF this, of 32] show "snd (hash_finalize (ascon_hasha_ops B) st) = spec_hasha m"
    by (simp add: ascon_hasha_ops_def ascon_hasha_finalize_def eager_sponge_output spec_hasha_def spec_xof_start_def)
next
  fix st m xs
  assume "xof_rep rep st (sponge_absorb 4 (spec_xof_start 0x00400c0400000000 32, 0, False) m)"
  from xofa_absorb_rep[OF this, of xs] show
    "xof_rep rep (hash_update (ascon_hasha_ops B) st xs)
       (sponge_absorb 4 (spec_xof_start 0x00400c0400000000 32, 0, False) (m @ xs))"
    by (simp add: ascon_hasha_ops_def ascon_hasha_update_def sponge_absorb_append)
qed (use hasha_init_rep in \<open>simp_all add: ascon_hasha_ops_def ascon_hasha_reinit_def sponge_absorb_Nil\<close>)

context snp_laws
begin

lemmas hmac_hash_laws = hash.hash_laws_axioms
lemmas hmac_hasha_laws = hasha.hash_laws_axioms
lemmas hmac_mac_laws = hash.mac.mac_laws_axioms
lemmas hmaca_mac_laws = hasha.mac.mac_laws_axioms

end

end
