(* ===== verification/Hkdf.thy ===== *)
theory Hkdf
  imports Hmac
begin

text \<open>
  \<open>kdf/ascon-hkdf-common.h\<close>, instantiated by \<open>kdf/ascon-hkdf.c\<close> and \<open>kdf/ascon-hkdfa.c\<close>: the
  extract-and-expand key derivation of RFC 5869 over HMAC, whose output can be drawn in pieces
  up to 255 blocks.  The template is a group of definitions over the record of a MAC's
  operations; its lemmas are proved from the locale \<open>mac_laws\<close>.
\<close>

section \<open>The template\<close>

record hkdf_state =
  hkdf_prk :: bytes
  hkdf_out :: bytes
  hkdf_counter :: u8
  hkdf_posn :: u8

definition hkdf_extract :: "'m mac_ops \<Rightarrow> hkdf_state \<Rightarrow> bytes \<Rightarrow> bytes \<Rightarrow> hkdf_state" where
  "hkdf_extract M st key salt =
     (let hmac = mac_init M salt;
          hmac = mac_update M hmac key;
          (hmac, prk) = mac_finalize M hmac salt
      in st \<lparr> hkdf_prk := prk, hkdf_counter := 1, hkdf_posn := 32 \<rparr>)"

text \<open>One block of output, and the loop that draws blocks.  The loop returns the state, the result
  of the function and the bytes written.\<close>

definition hkdf_block :: "'m mac_ops \<Rightarrow> hkdf_state \<Rightarrow> bytes \<Rightarrow> bytes" where
  "hkdf_block M st info =
     (let hmac = mac_init M (hkdf_prk st);
          hmac = (if hkdf_counter st \<noteq> 1 then mac_update M hmac (hkdf_out st) else hmac);
          hmac = mac_update M hmac info;
          hmac = mac_update M hmac [hkdf_counter st]
      in snd (mac_finalize M hmac (hkdf_prk st)))"

function hkdf_expand_loop ::
  "'m mac_ops \<Rightarrow> hkdf_state \<Rightarrow> bytes \<Rightarrow> nat \<Rightarrow> hkdf_state \<times> int \<times> bytes" where
  "hkdf_expand_loop M st info outlen =
     (if outlen > 0 then
        if hkdf_counter st = 0 then (st, -1, zeros outlen)
        else
          let out = hkdf_block M st info;
              len = (if 32 > outlen then outlen else 32);
              st = st \<lparr> hkdf_out := out, hkdf_counter := hkdf_counter st + 1, hkdf_posn := of_nat len \<rparr>;
              (st, result, rest) = hkdf_expand_loop M st info (outlen - len)
          in (st, result, take len out @ rest)
      else (st, 0, []))"
  by pat_completeness auto
termination by (relation "measure (\<lambda>(M, st, info, outlen). outlen)") auto

declare hkdf_expand_loop.simps [simp del]

definition hkdf_expand ::
  "'m mac_ops \<Rightarrow> hkdf_state \<Rightarrow> bytes \<Rightarrow> nat \<Rightarrow> hkdf_state \<times> int \<times> bytes" where
  "hkdf_expand M st info outlen =
     (let len = unat (32 - ucast (hkdf_posn st) :: u64);
          len = (if len > outlen then outlen else len);
          out = take len (drop (unat (hkdf_posn st)) (hkdf_out st));
          st = st \<lparr> hkdf_posn := hkdf_posn st + of_nat len \<rparr>;
          (st, result, rest) = hkdf_expand_loop M st info (outlen - len)
      in (st, result, out @ rest))"

text \<open>The one-call function: \<open>None\<close> when the output buffer is not written.  \<open>stack\<close> is what the
  local variable holds before it is set.\<close>

definition hkdf ::
  "'m mac_ops \<Rightarrow> hkdf_state \<Rightarrow> bytes \<Rightarrow> bytes \<Rightarrow> bytes \<Rightarrow> nat \<Rightarrow> int \<times> bytes option" where
  "hkdf M stack key salt info outlen =
     (if outlen > 32 * 255 then (-1, None)
      else
        let st = hkdf_extract M stack key salt;
            (st, result, out) = hkdf_expand M st info outlen
        in (0, Some out))"

definition hkdf_free :: "hkdf_state \<Rightarrow> hkdf_state" where
  "hkdf_free st = \<lparr> hkdf_prk = zeros 32, hkdf_out = zeros 32, hkdf_counter = 0, hkdf_posn = 0 \<rparr>"

definition ascon_hkdf ::
  "'s snp \<Rightarrow> hkdf_state \<Rightarrow> bytes \<Rightarrow> bytes \<Rightarrow> bytes \<Rightarrow> nat \<Rightarrow> int \<times> bytes option" where
  "ascon_hkdf B = hkdf (hmac_ops (ascon_hash_ops B))"

definition ascon_hkdfa ::
  "'s snp \<Rightarrow> hkdf_state \<Rightarrow> bytes \<Rightarrow> bytes \<Rightarrow> bytes \<Rightarrow> nat \<Rightarrow> int \<times> bytes option" where
  "ascon_hkdfa B = hkdf (hmac_ops (ascon_hasha_ops B))"

section \<open>HKDF\<close>

text \<open>RFC 5869: the blocks T(0), T(1), ... and the longest output.\<close>

fun spec_hkdf_block :: "(bytes \<Rightarrow> bytes) \<Rightarrow> bytes \<Rightarrow> nat \<Rightarrow> bytes" where
  "spec_hkdf_block prf info 0 = []"
| "spec_hkdf_block prf info (Suc i) = prf (spec_hkdf_block prf info i @ info @ [of_nat (Suc i)])"

definition spec_hkdf_stream :: "(bytes \<Rightarrow> bytes) \<Rightarrow> bytes \<Rightarrow> bytes" where
  "spec_hkdf_stream prf info = concat (map (spec_hkdf_block prf info) [1..<256])"

definition spec_hkdf :: "(bytes \<Rightarrow> bytes \<Rightarrow> bytes) \<Rightarrow> bytes \<Rightarrow> bytes \<Rightarrow> bytes \<Rightarrow> nat \<Rightarrow> bytes" where
  "spec_hkdf mac key salt info n = take n (spec_hkdf_stream (mac (mac salt key)) info)"

lemma concat_blocks_length:
  "(\<And>i. length (f (Suc i)) = 32) \<Longrightarrow> length (concat (map f [1..<Suc k])) = 32 * k"
  by (induction k) (auto simp del: upt_Suc simp: upt_Suc_append)

lemma concat_blocks_drop:
  assumes "\<And>i. length (f (Suc i)) = 32" "k < n"
  shows "drop (32 * k) (concat (map f [1..<Suc n])) = f (Suc k) @ drop (32 * Suc k) (concat (map f [1..<Suc n]))"
proof -
  have "[1..<Suc n] = [1..<Suc k] @ [Suc k] @ [Suc (Suc k)..<Suc n]"
    using assms(2) by (metis append.left_neutral append_Cons le_add1 plus_1_eq_Suc Suc_le_eq upt_add_eq_append upt_conv_Cons
        less_imp_add_positive Suc_less_eq add_Suc_right)
  then have "concat (map f [1..<Suc n]) =
      concat (map f [1..<Suc k]) @ f (Suc k) @ concat (map f [Suc (Suc k)..<Suc n])" by simp
  with concat_blocks_length[of f k, OF assms(1)] assms(1)[of k] show ?thesis by simp
qed

lemma counter_zero: "k \<le> 255 \<Longrightarrow> of_nat (Suc k) = (0 :: u8) \<longleftrightarrow> k = 255"
  unfolding word_of_nat_eq_0_iff by simp presburger

lemma counter_one: "k \<le> 255 \<Longrightarrow> of_nat (Suc k) = (1 :: u8) \<longleftrightarrow> k = 0"
  using word_of_nat_eq_0_iff[of k, where ?'a = 8] by (auto dest: dvd_imp_le)

text \<open>A state from which \<open>p\<close> bytes have been drawn: \<open>k\<close> blocks have been made and the last one is used up to
  \<open>posn\<close>.\<close>

definition hkdf_at :: "(bytes \<Rightarrow> bytes \<Rightarrow> bytes) \<Rightarrow> bytes \<Rightarrow> bytes \<Rightarrow> hkdf_state \<Rightarrow> nat \<Rightarrow> bool" where
  "hkdf_at mac prk info st p \<longleftrightarrow> hkdf_prk st = prk \<and> unat (hkdf_posn st) \<le> 32 \<and>
     (\<exists>k \<le> 255. hkdf_counter st = of_nat (Suc k) \<and> p + 32 = 32 * k + unat (hkdf_posn st) \<and>
       (k > 0 \<longrightarrow> hkdf_out st = spec_hkdf_block (mac prk) info k))"

lemma hkdf_at_bound: "hkdf_at mac prk info st p \<Longrightarrow> p \<le> 8160"
  by (auto simp: hkdf_at_def)

text \<open>Drawing a piece, without the result.\<close>

definition hkdf_draw :: "'m mac_ops \<Rightarrow> bytes \<Rightarrow> hkdf_state \<Rightarrow> nat \<Rightarrow> hkdf_state \<times> bytes" where
  "hkdf_draw M info st n = (case hkdf_expand M st info n of (st, result, out) \<Rightarrow> (st, out))"

context mac_laws
begin

lemma hkdf_extract_at:
  "hkdf_at mac (mac salt key) info (hkdf_extract M st key salt) 0"
  using mac_once[OF init_keyed, of salt key]
  by (auto simp: hkdf_at_def hkdf_extract_def Let_def case_prod_beta intro: exI[of _ 0])

abbreviation blk where "blk prk info \<equiv> spec_hkdf_block (mac prk) info"
abbreviation stream where "stream prk info \<equiv> spec_hkdf_stream (mac prk) info"

lemma length_blk: "length (blk prk info (Suc i)) = 32"
  by (simp add: mac_length)

lemma length_stream: "length (stream prk info) = 8160"
  using concat_blocks_length[of "blk prk info" 255, OF length_blk]
  by (simp add: spec_hkdf_stream_def)

lemma stream_block:
  "k < 255 \<Longrightarrow> drop (32 * k) (stream prk info) = blk prk info (Suc k) @ drop (32 * Suc k) (stream prk info)"
  using concat_blocks_drop[of "blk prk info" k 255, OF length_blk] by (simp add: spec_hkdf_stream_def)

lemma hkdf_block_eq:
  assumes "hkdf_prk st = prk" "hkdf_counter st = of_nat (Suc k)" "k < 255" "k > 0 \<longrightarrow> hkdf_out st = blk prk info k"
  shows "hkdf_block M st info = blk prk info (Suc k)"
proof (cases "k = 0")
  case True
  with assms mac_twice[OF init_keyed, of prk info "[1]"] show ?thesis
    by (simp add: hkdf_block_def)
next
  case False
  then have "hkdf_counter st \<noteq> 1" using assms(2,3) counter_one[of k] by (simp del: of_nat_Suc)
  with False assms mac_thrice[OF init_keyed, of prk "blk prk info k" info "[of_nat (Suc k)]"] show ?thesis
    by (simp add: hkdf_block_def Let_def)
qed

definition drawn :: "bytes \<Rightarrow> bytes \<Rightarrow> nat \<Rightarrow> nat \<Rightarrow> hkdf_state \<times> int \<times> bytes \<Rightarrow> bool" where
  "drawn prk info p n r \<longleftrightarrow> (case r of (st, result, out) \<Rightarrow>
     hkdf_at mac prk info st (min (p + n) 8160) \<and> result = (if p + n \<le> 8160 then 0 else -1) \<and>
     out = take n (drop p (stream prk info)) @ zeros (n - (8160 - p)))"

lemma expand_loop_drawn:
  assumes "hkdf_at mac prk info st (32 * k)" "hkdf_counter st = of_nat (Suc k)" "k \<le> 255" "k > 0 \<longrightarrow> hkdf_out st = blk prk info k"
  shows "drawn prk info (32 * k) n (hkdf_expand_loop M st info n)"
  using assms
proof (induction n arbitrary: st k rule: less_induct)
  case (less n)
  have prk: "hkdf_prk st = prk" using less.prems(1) by (simp add: hkdf_at_def)
  consider "n = 0" | "n > 0" "k = 255" | "n > 0" "k < 255" using less.prems(3) by linarith
  then show ?case
  proof cases
    case 1
    with less.prems hkdf_at_bound[OF less.prems(1)] show ?thesis
      by (simp add: drawn_def hkdf_expand_loop.simps[of M st info 0] zeros_def min_absorb1)
  next
    case 2
    with less.prems length_stream[of prk info] show ?thesis
      by (simp add: drawn_def hkdf_expand_loop.simps[of M st info n])
  next
    case 3
    define len where "len = (if 32 > n then n else 32)"
    let ?st = "st \<lparr> hkdf_out := blk prk info (Suc k), hkdf_counter := hkdf_counter st + 1, hkdf_posn := of_nat len \<rparr>"
    have c: "hkdf_counter st \<noteq> 0" using less.prems(2) 3 counter_zero[of k] by simp
    have blk: "hkdf_block M st info = blk prk info (Suc k)"
      using hkdf_block_eq[OF prk less.prems(2)] 3 less.prems(4) by blast
    have len: "len \<le> 32" "0 < len" "len \<le> n" using 3 by (auto simp: len_def)
    have "unat (of_nat len :: u8) = len" using len by (simp add: unat_of_nat)
    then have at: "hkdf_at mac prk info ?st (32 * k + len)"
      using prk less.prems(2) 3 len by (auto simp: hkdf_at_def intro!: exI[of _ "Suc k"])
    have step: "hkdf_expand_loop M st info n = (case hkdf_expand_loop M ?st info (n - len) of
        (st, result, rest) \<Rightarrow> (st, result, take len (blk prk info (Suc k)) @ rest))"
      using 3 c by (simp add: hkdf_expand_loop.simps[of M st info n] blk len_def Let_def)
    show ?thesis
    proof (cases "n \<le> 32")
      case True
      then have "len = n" by (simp add: len_def)
      with step at 3 stream_block[OF 3(2), of prk info] True length_blk[of prk info k] show ?thesis
        by (simp add: drawn_def hkdf_expand_loop.simps[of M _ info 0] zeros_def del: spec_hkdf_block.simps)
    next
      case False
      then have l: "len = 32" by (simp add: len_def)
      then have "hkdf_at mac prk info ?st (32 * Suc k)" using at by (simp add: add.commute)
      from less.IH[OF _ this] 3 False less.prems(2) l
      have "drawn prk info (32 * Suc k) (n - 32) (hkdf_expand_loop M ?st info (n - 32))" by simp
      with step 3 False l stream_block[OF 3(2), of prk info] length_blk[of prk info k] show ?thesis
        by (auto simp: drawn_def simp del: spec_hkdf_block.simps)
    qed
  qed
qed

lemma stream_from:
  assumes "p + 32 = 32 * k + q" "q \<le> 32" "k \<le> 255" "k > 0 \<longrightarrow> out = blk prk info k"
  shows "drop p (stream prk info) = take (32 - q) (drop q out) @ drop (32 * k) (stream prk info) \<and>
    length (take (32 - q) (drop q out)) = 32 - q"
proof (cases k)
  case (Suc j)
  then have pj: "p = q + 32 * j" using assms(1) by simp
  have "drop p (stream prk info) = drop q (drop (32 * j) (stream prk info))"
    by (simp add: pj)
  with Suc assms stream_block[of j prk info] length_blk[of prk info j] show ?thesis
    by (simp del: spec_hkdf_block.simps)
next
  case 0
  then have "p = 0" "q = 32" using assms(1,2) by simp_all
  then show ?thesis by (simp add: 0)
qed

lemma expand_drawn:
  assumes "hkdf_at mac prk info st p"
  shows "drawn prk info p n (hkdf_expand M st info n)"
proof -
  define q where "q = unat (hkdf_posn st)"
  define len where "len = (if 32 - q > n then n else 32 - q)"
  obtain k where k: "k \<le> 255" "hkdf_counter st = of_nat (Suc k)" "p + 32 = 32 * k + q"
    "k > 0 \<longrightarrow> hkdf_out st = blk prk info k" and prk: "hkdf_prk st = prk" and posn: "q \<le> 32"
    using assms by (auto simp: hkdf_at_def q_def)
  have "unat (ucast (hkdf_posn st) :: u64) = q"
    using unsigned_less[of "hkdf_posn st", where ?'a = nat]
    by (simp add: q_def unsigned_ucast_eq take_bit_nat_eq_self)
  then have u: "unat (32 - ucast (hkdf_posn st) :: u64) = 32 - q"
    using posn by (simp add: unat_sub word_le_nat_alt)
  let ?st = "st \<lparr> hkdf_posn := hkdf_posn st + of_nat len \<rparr>"
  have q': "unat (hkdf_posn st + of_nat len) = q + len"
    using posn by (simp add: q_def len_def unat_word_ariths unat_of_nat)
  have at: "hkdf_at mac prk info ?st (p + len)"
    using k prk posn q' by (auto simp: hkdf_at_def len_def intro!: exI[of _ k])
  have e: "hkdf_expand M st info n = (case hkdf_expand_loop M ?st info (n - len) of
      (st', result, rest) \<Rightarrow> (st', result, take len (drop q (hkdf_out st)) @ rest))"
    unfolding hkdf_expand_def Let_def u q_def[symmetric] len_def[symmetric] by (rule refl)
  note rest = stream_from[OF k(3) posn k(1,4)]
  show ?thesis
  proof (cases "n \<le> 32 - q")
    case True
    then have "len = n" "p + n \<le> 8160" using k(1,3) posn by (simp_all add: len_def)
    moreover have "take n (drop p (stream prk info)) = take n (drop q (hkdf_out st))"
      using rest True by (simp add: min_absorb1)
    ultimately show ?thesis
      using at by (simp add: drawn_def e hkdf_expand_loop.simps[of M _ info 0] zeros_def)
  next
    case False
    then have l: "len = 32 - q" by (simp add: len_def)
    have pk: "p + len = 32 * k" using k(3) posn l by simp
    have loop: "drawn prk info (32 * k) (n - len) (hkdf_expand_loop M ?st info (n - len))"
      using expand_loop_drawn[of prk info ?st k "n - len"] at k pk by simp
    have "take n (drop p (stream prk info)) =
        take len (drop q (hkdf_out st)) @ take (n - len) (drop (32 * k) (stream prk info))"
      using rest False l by simp
    moreover have "32 * k + (n - len) = p + n" "n - len - (8160 - 32 * k) = n - (8160 - p)"
      using pk False l k(1) by auto
    ultimately show ?thesis
      using loop by (auto simp: drawn_def e)
  qed
qed

text \<open>All pieces drawn from a state, and the one-call function.\<close>

lemma drawn_append:
  "p \<le> 8160 \<Longrightarrow> length xs = 8160 \<Longrightarrow>
     take n (drop p xs) @ zeros (n - (8160 - p)) @
       take k (drop (min (p + n) 8160) xs) @ zeros (k - (8160 - min (p + n) 8160)) =
     take (n + k) (drop p xs) @ zeros (n + k - (8160 - p))"
proof (cases "p + n \<le> 8160")
  case True
  then have "k - (8160 - (p + n)) = n + k - (8160 - p)" by linarith
  moreover have "take (n + k) (drop p xs) = take n (drop p xs) @ take k (drop (p + n) xs)"
    by (simp only: take_add drop_drop add.commute[of p n])
  ultimately show "p \<le> 8160 \<Longrightarrow> length xs = 8160 \<Longrightarrow> ?thesis"
    using True by (simp add: min_absorb1 zeros_def)
next
  case False
  then have "n + k - (8160 - p) = n - (8160 - p) + k" by linarith
  with False show "p \<le> 8160 \<Longrightarrow> length xs = 8160 \<Longrightarrow> ?thesis"
    by (simp add: min_absorb2 zeros_def flip: replicate_add)
qed

lemma expand_pieces:
  assumes "hkdf_at mac prk info st p"
  shows "hkdf_at mac prk info (fst (pull (hkdf_draw M info) st ns)) (min (p + sum_list ns) 8160) \<and>
    snd (pull (hkdf_draw M info) st ns) =
      take (sum_list ns) (drop p (stream prk info)) @ zeros (sum_list ns - (8160 - p))"
  using assms
proof (induction ns arbitrary: st p)
  case Nil
  with hkdf_at_bound[OF Nil] show ?case by (simp add: min_absorb1 zeros_def)
next
  case (Cons n ns)
  obtain st' r out where *: "hkdf_expand M st info n = (st', r, out)" by (metis prod.exhaust)
  with expand_drawn[OF Cons.prems, of n]
  have at: "hkdf_at mac prk info st' (min (p + n) 8160)"
    and out: "out = take n (drop p (stream prk info)) @ zeros (n - (8160 - p))"
    by (simp_all add: drawn_def)
  have "min (min (p + n) 8160 + sum_list ns) 8160 = min (p + (n + sum_list ns)) 8160" by simp
  with Cons.IH[OF at] out drawn_append[OF hkdf_at_bound[OF Cons.prems] length_stream, of n prk info "sum_list ns"] *
  show ?case
    by (simp add: hkdf_draw_def case_prod_beta Let_def)
qed

lemma hkdf_eq:
  "n \<le> 8160 \<Longrightarrow> hkdf M stack key salt info n = (0, Some (spec_hkdf mac key salt info n))"
  using expand_drawn[OF hkdf_extract_at[of salt key info stack], of n]
  by (auto simp: hkdf_def drawn_def spec_hkdf_def zeros_def split: prod.split)

end

end
