(* ===== verification/Kmac.thy ===== *)
theory Kmac
  imports Xofa
begin

text \<open>
  \<open>mac/ascon-kmac.c\<close>, \<open>mac/ascon-kmaca.c\<close>, \<open>kdf/ascon-kdf.c\<close> and \<open>kdf/ascon-kdfa.c\<close>: the keyed functions
  that are ASCON-XOF or ASCON-XOFA with a function name.  KMAC with its default output length
  starts from a precomputed state, which is the one the name gives.
\<close>

definition KMAC_NAME :: bytes where "KMAC_NAME = map of_char ''KMAC''"

definition KDF_NAME :: bytes where "KDF_NAME = map of_char ''KDF''"

section \<open>KMAC and KDF\<close>

definition KMAC_IV64 :: "u64 list" where
  "KMAC_IV64 =
    [0x7a09132495dfa176, 0x1b19e04f31cc4cae, 0x64ba72afaa61d2b1,
     0xd2964e09a5169084, 0x05bc6c865abe514b]"

definition KMAC_IV32 :: "u32 list" where
  "KMAC_IV32 =
    [0xc1527f1e, 0x72148bc5, 0x558b5aa2, 0x32c34a2f, 0xa4c309c5,
     0x4f5ff49c, 0xc6a13642, 0x9932c188, 0x36a2c6d9, 0x0e693f03]"

definition KMAC_IV8 :: "bytes" where
  "KMAC_IV8 =
    [0x7a, 0x09, 0x13, 0x24, 0x95, 0xdf, 0xa1, 0x76,
     0x1b, 0x19, 0xe0, 0x4f, 0x31, 0xcc, 0x4c, 0xae,
     0x64, 0xba, 0x72, 0xaf, 0xaa, 0x61, 0xd2, 0xb1,
     0xd2, 0x96, 0x4e, 0x09, 0xa5, 0x16, 0x90, 0x84,
     0x05, 0xbc, 0x6c, 0x86, 0x5a, 0xbe, 0x51, 0x4b]"

definition ascon_kmac_init_precomputed :: "'s snp \<Rightarrow> 's xof_state" where
  "ascon_kmac_init_precomputed B =
     \<lparr> xof_perm = snp_load B KMAC_IV64 KMAC_IV32 KMAC_IV8, xof_count = 0, xof_mode = 0 \<rparr>"

definition ascon_kmac_init :: "'s snp \<Rightarrow> bytes \<Rightarrow> bytes \<Rightarrow> nat \<Rightarrow> 's xof_state" where
  "ascon_kmac_init B key custom outlen =
     (let st =
        (if outlen = 32 then ascon_xof_absorb_custom B (ascon_kmac_init_precomputed B) custom
         else ascon_xof_init_custom B (Some KMAC_NAME) custom outlen)
      in ascon_xof_absorb B st key)"

definition ascon_kmac_free :: "'s snp \<Rightarrow> 's xof_state \<Rightarrow> 's xof_state" where
  "ascon_kmac_free B st = ascon_xof_free B st"

definition ascon_kmac_reinit :: "'s snp \<Rightarrow> 's xof_state \<Rightarrow> bytes \<Rightarrow> bytes \<Rightarrow> nat \<Rightarrow> 's xof_state" where
  "ascon_kmac_reinit B st key custom outlen =
     (let st = ascon_kmac_free B st in ascon_kmac_init B key custom outlen)"

definition ascon_kmac_absorb :: "'s snp \<Rightarrow> 's xof_state \<Rightarrow> bytes \<Rightarrow> 's xof_state" where
  "ascon_kmac_absorb B st inp = ascon_xof_absorb B st inp"

definition ascon_kmac_squeeze :: "'s snp \<Rightarrow> 's xof_state \<Rightarrow> nat \<Rightarrow> 's xof_state \<times> bytes" where
  "ascon_kmac_squeeze B st outlen = ascon_xof_squeeze B st outlen"

definition ascon_kmac :: "'s snp \<Rightarrow> bytes \<Rightarrow> bytes \<Rightarrow> bytes \<Rightarrow> nat \<Rightarrow> bytes" where
  "ascon_kmac B key inp custom outlen =
     (let st = ascon_kmac_init B key custom outlen;
          st = ascon_xof_absorb B st inp
      in snd (ascon_xof_squeeze B st outlen))"

definition ascon_kdf_init :: "'s snp \<Rightarrow> bytes \<Rightarrow> bytes \<Rightarrow> nat \<Rightarrow> 's xof_state" where
  "ascon_kdf_init B key custom outlen =
     ascon_xof_absorb B (ascon_xof_init_custom B (Some KDF_NAME) custom outlen) key"

definition ascon_kdf_free :: "'s snp \<Rightarrow> 's xof_state \<Rightarrow> 's xof_state" where
  "ascon_kdf_free B st = ascon_xof_free B st"

definition ascon_kdf_reinit :: "'s snp \<Rightarrow> 's xof_state \<Rightarrow> bytes \<Rightarrow> bytes \<Rightarrow> nat \<Rightarrow> 's xof_state" where
  "ascon_kdf_reinit B st key custom outlen = ascon_kdf_init B key custom outlen"

definition ascon_kdf_squeeze :: "'s snp \<Rightarrow> 's xof_state \<Rightarrow> nat \<Rightarrow> 's xof_state \<times> bytes" where
  "ascon_kdf_squeeze B st outlen = ascon_xof_squeeze B st outlen"

definition ascon_kdf :: "'s snp \<Rightarrow> bytes \<Rightarrow> bytes \<Rightarrow> nat \<Rightarrow> bytes" where
  "ascon_kdf B key custom outlen = snd (ascon_xof_squeeze B (ascon_kdf_init B key custom outlen) outlen)"

text \<open>The precomputed state is the permuted block with the function name.\<close>

lemma kmac_table: "table_ok KMAC_IV64 KMAC_IV32 KMAC_IV8"
  by code_simp

lemma kmac_start_state:
  "c64_permute (0x00400c0000000100, 0x4b4d414300000000, 0, 0, 0) 0 = (0x7a09132495dfa176, 0x1b19e04f31cc4cae, 0x64ba72afaa61d2b1, 0xd2964e09a5169084, 0x05bc6c865abe514b)"
  by (simp only: perm_eval)

lemma kmac_block: "be_store_word64 (0x00400c0000000000 OR of_nat (32 * 8)) @ KMAC_NAME @ zeros 28 = bytes_of (0x00400c0000000100, 0x4b4d414300000000, 0, 0, 0)"
  by code_simp

lemma kmac_precomputed_start:
  "spec_custom_start 0 0x00400c0000000000 (Some KMAC_NAME) custom 32 = sponge_absorb_custom 0 (KMAC_IV8, 0, False) custom"
proof -
  have "KMAC_IV8 = bytes_of (0x7a09132495dfa176, 0x1b19e04f31cc4cae, 0x64ba72afaa61d2b1, 0xd2964e09a5169084, 0x05bc6c865abe514b)"
    using kmac_table by (simp add: table_ok_def bytes_of_def KMAC_IV64_def)
  also have "\<dots> = permute_bytes (be_store_word64 (0x00400c0000000000 OR of_nat (32 * 8)) @ KMAC_NAME @ zeros 28) 0"
    by (simp only: kmac_block permute_direct_xor_eq regs_of_bytes_of kmac_start_state)
  finally have t: "KMAC_IV8 = permute_bytes (be_store_word64 (0x00400c0000000000 OR of_nat (32 * 8)) @ KMAC_NAME @ zeros 28) 0" .
  have "spec_name_block 0 0x00400c0000000000 (Some KMAC_NAME) = KMAC_NAME @ zeros 28"
    by (simp add: spec_name_block_def KMAC_NAME_def)
  then show ?thesis by (simp only: t spec_custom_start_def)
qed

context snp_laws
begin

lemma kmac_init_rep:
  "xof_rep rep (ascon_kmac_init B key custom outlen)
     (sponge_absorb 0 (spec_custom_start 0 0x00400c0000000000 (Some KMAC_NAME) custom (if outlen \<ge> 2 ^ 29 then 0 else outlen)) key)"
proof (cases "outlen = 32")
  case True
  have "xof_rep rep (ascon_kmac_init_precomputed B) (KMAC_IV8, 0, False)"
    using rep_load[OF kmac_table] by (simp add: xof_rep_def ascon_kmac_init_precomputed_def)
  from xof_absorb_rep[OF xof_absorb_custom_rep[OF this, of custom], of key] True show ?thesis
    by (simp add: ascon_kmac_init_def kmac_precomputed_start)
next
  case False
  with xof_absorb_rep[OF xof_init_custom_rep[of "Some KMAC_NAME" custom outlen], of key] show ?thesis
    by (simp add: ascon_kmac_init_def)
qed

text \<open>Absorbing and squeezing after a start with a name, a customisation string and a key.\<close>

lemma xof_keyed_pieces:
  assumes "xof_rep rep st (sponge_absorb 0 (spec_custom_start 0 0x00400c0000000000 (Some name) custom (if outlen \<ge> 2 ^ 29 then 0 else outlen)) key)"
  shows "snd (pull (ascon_xof_squeeze B) (foldl (ascon_xof_absorb B) st ms) ns) =
    spec_cxof 0 0x00400c0000000000 name custom outlen (key @ concat ms) (sum_list ns)"
proof -
  define a where "a = spec_custom_start 0 0x00400c0000000000 (Some name) custom (if outlen \<ge> 2 ^ 29 then 0 else outlen)"
  have fresh: "a = (fst a, 0, False)" unfolding a_def by (rule spec_custom_start_fresh)
  have r: "xof_rep rep st (sponge_absorb 0 (fst a, 0, False) key)"
    using assms unfolding a_def[symmetric] by (subst fresh[symmetric])
  then have "rep (xof_perm st) (fst (sponge_absorb 0 (fst a, 0, False) key))"
    by (auto simp: xof_rep_def split: prod.splits)
  have len: "length (fst a) = 40"
    using xof_init_custom_rep[of "Some name" custom outlen] unfolding a_def[symmetric]
    by (subst (asm) fresh) (auto simp: xof_rep_def rep_length)
  from xof_squeeze_pieces[OF xof_absorb_pieces[OF r, of ms], of ns]
  have "snd (pull (ascon_xof_squeeze B) (foldl (ascon_xof_absorb B) st ms) ns) =
      snd (pull (lazy_sponge_squeeze) (sponge_absorb 0 (fst a, 0, False) (key @ concat ms)) ns)"
    by (auto simp: sponge_absorb_pieces)
  then show ?thesis
    unfolding spec_cxof_def a_def[symmetric]
    using len by (simp add: lazy_squeeze_pieces lazy_sponge_output)
qed

lemma kmac_pieces:
  "snd (pull (ascon_kmac_squeeze B) (foldl (ascon_kmac_absorb B) (ascon_kmac_init B key custom outlen) ms) ns) =
    spec_cxof 0 0x00400c0000000000 KMAC_NAME custom outlen (key @ concat ms) (sum_list ns)"
  using xof_keyed_pieces[OF kmac_init_rep, of key custom outlen ms ns]
  by (simp add: ascon_kmac_squeeze_def[abs_def] ascon_kmac_absorb_def[abs_def])

lemma kmac_eq: "ascon_kmac B key m custom outlen = spec_cxof 0 0x00400c0000000000 KMAC_NAME custom outlen (key @ m) outlen"
  using kmac_pieces[of key custom outlen "[m]" "[outlen]"]
  by (simp add: ascon_kmac_def ascon_kmac_squeeze_def ascon_kmac_absorb_def case_prod_beta Let_def)

lemma kdf_init_rep:
  "xof_rep rep (ascon_kdf_init B key custom outlen)
     (sponge_absorb 0 (spec_custom_start 0 0x00400c0000000000 (Some KDF_NAME) custom (if outlen \<ge> 2 ^ 29 then 0 else outlen)) key)"
  using xof_absorb_rep[OF xof_init_custom_rep] by (simp add: ascon_kdf_init_def)

lemma kdf_pieces:
  "snd (pull (ascon_kdf_squeeze B) (ascon_kdf_init B key custom outlen) ns) =
    spec_cxof 0 0x00400c0000000000 KDF_NAME custom outlen key (sum_list ns)"
  using xof_keyed_pieces[OF kdf_init_rep, of key custom outlen "[]" ns]
  by (simp add: ascon_kdf_squeeze_def[abs_def])

lemma kdf_eq: "ascon_kdf B key custom outlen = spec_cxof 0 0x00400c0000000000 KDF_NAME custom outlen key outlen"
  using kdf_pieces[of key custom outlen "[outlen]"]
  by (simp add: ascon_kdf_def ascon_kdf_squeeze_def case_prod_beta Let_def)

end

section \<open>KMACA and KDFA\<close>

definition KMACA_IV64 :: "u64 list" where
  "KMACA_IV64 =
    [0x47d45e034222e472, 0xed0da2bb5580c30a, 0xedceed89ce04c765,
     0xffe052a5533eaa30, 0xc8be4956f967f91a]"

definition KMACA_IV32 :: "u32 list" where
  "KMACA_IV32 =
    [0xbee180ac, 0x183115c5, 0xb305f090, 0xe2df0893, 0xbab1a2bb,
     0xebeab094, 0xf8c3d604, 0xfc1c17f4, 0x869edbd4, 0xaf21e5e3]"

definition KMACA_IV8 :: "bytes" where
  "KMACA_IV8 =
    [0x47, 0xd4, 0x5e, 0x03, 0x42, 0x22, 0xe4, 0x72,
     0xed, 0x0d, 0xa2, 0xbb, 0x55, 0x80, 0xc3, 0x0a,
     0xed, 0xce, 0xed, 0x89, 0xce, 0x04, 0xc7, 0x65,
     0xff, 0xe0, 0x52, 0xa5, 0x53, 0x3e, 0xaa, 0x30,
     0xc8, 0xbe, 0x49, 0x56, 0xf9, 0x67, 0xf9, 0x1a]"

definition ascon_kmaca_init_precomputed :: "'s snp \<Rightarrow> 's xof_state" where
  "ascon_kmaca_init_precomputed B =
     \<lparr> xof_perm = snp_load B KMACA_IV64 KMACA_IV32 KMACA_IV8, xof_count = 0, xof_mode = 0 \<rparr>"

definition ascon_kmaca_init :: "'s snp \<Rightarrow> bytes \<Rightarrow> bytes \<Rightarrow> nat \<Rightarrow> 's xof_state" where
  "ascon_kmaca_init B key custom outlen =
     (let st =
        (if outlen = 32 then ascon_xofa_absorb_custom B (ascon_kmaca_init_precomputed B) custom
         else ascon_xofa_init_custom B (Some KMAC_NAME) custom outlen)
      in ascon_xofa_absorb B st key)"

definition ascon_kmaca_free :: "'s snp \<Rightarrow> 's xof_state \<Rightarrow> 's xof_state" where
  "ascon_kmaca_free B st = ascon_xofa_free B st"

definition ascon_kmaca_reinit :: "'s snp \<Rightarrow> 's xof_state \<Rightarrow> bytes \<Rightarrow> bytes \<Rightarrow> nat \<Rightarrow> 's xof_state" where
  "ascon_kmaca_reinit B st key custom outlen =
     (let st = ascon_kmaca_free B st in ascon_kmaca_init B key custom outlen)"

definition ascon_kmaca_absorb :: "'s snp \<Rightarrow> 's xof_state \<Rightarrow> bytes \<Rightarrow> 's xof_state" where
  "ascon_kmaca_absorb B st inp = ascon_xofa_absorb B st inp"

definition ascon_kmaca_squeeze :: "'s snp \<Rightarrow> 's xof_state \<Rightarrow> nat \<Rightarrow> 's xof_state \<times> bytes" where
  "ascon_kmaca_squeeze B st outlen = ascon_xofa_squeeze B st outlen"

definition ascon_kmaca :: "'s snp \<Rightarrow> bytes \<Rightarrow> bytes \<Rightarrow> bytes \<Rightarrow> nat \<Rightarrow> bytes" where
  "ascon_kmaca B key inp custom outlen =
     (let st = ascon_kmaca_init B key custom outlen;
          st = ascon_xofa_absorb B st inp
      in snd (ascon_xofa_squeeze B st outlen))"

definition ascon_kdfa_init :: "'s snp \<Rightarrow> bytes \<Rightarrow> bytes \<Rightarrow> nat \<Rightarrow> 's xof_state" where
  "ascon_kdfa_init B key custom outlen =
     ascon_xofa_absorb B (ascon_xofa_init_custom B (Some KDF_NAME) custom outlen) key"

definition ascon_kdfa_free :: "'s snp \<Rightarrow> 's xof_state \<Rightarrow> 's xof_state" where
  "ascon_kdfa_free B st = ascon_xofa_free B st"

definition ascon_kdfa_reinit :: "'s snp \<Rightarrow> 's xof_state \<Rightarrow> bytes \<Rightarrow> bytes \<Rightarrow> nat \<Rightarrow> 's xof_state" where
  "ascon_kdfa_reinit B st key custom outlen = ascon_kdfa_init B key custom outlen"

definition ascon_kdfa_squeeze :: "'s snp \<Rightarrow> 's xof_state \<Rightarrow> nat \<Rightarrow> 's xof_state \<times> bytes" where
  "ascon_kdfa_squeeze B st outlen = ascon_xofa_squeeze B st outlen"

definition ascon_kdfa :: "'s snp \<Rightarrow> bytes \<Rightarrow> bytes \<Rightarrow> nat \<Rightarrow> bytes" where
  "ascon_kdfa B key custom outlen = snd (ascon_xofa_squeeze B (ascon_kdfa_init B key custom outlen) outlen)"

text \<open>The precomputed state is the permuted block with the function name.\<close>

lemma kmaca_table: "table_ok KMACA_IV64 KMACA_IV32 KMACA_IV8"
  by code_simp

lemma kmaca_start_state:
  "c64_permute (0x00400c0400000100, 0x4b4d414300000000, 0, 0, 0) 0 = (0x47d45e034222e472, 0xed0da2bb5580c30a, 0xedceed89ce04c765, 0xffe052a5533eaa30, 0xc8be4956f967f91a)"
  by (simp only: perm_eval)

lemma kmaca_block: "be_store_word64 (0x00400c0400000000 OR of_nat (32 * 8)) @ KMAC_NAME @ zeros 28 = bytes_of (0x00400c0400000100, 0x4b4d414300000000, 0, 0, 0)"
  by code_simp

lemma kmaca_precomputed_start:
  "spec_custom_start 4 0x00400c0400000000 (Some KMAC_NAME) custom 32 = sponge_absorb_custom 4 (KMACA_IV8, 0, False) custom"
proof -
  have "KMACA_IV8 = bytes_of (0x47d45e034222e472, 0xed0da2bb5580c30a, 0xedceed89ce04c765, 0xffe052a5533eaa30, 0xc8be4956f967f91a)"
    using kmaca_table by (simp add: table_ok_def bytes_of_def KMACA_IV64_def)
  also have "\<dots> = permute_bytes (be_store_word64 (0x00400c0400000000 OR of_nat (32 * 8)) @ KMAC_NAME @ zeros 28) 0"
    by (simp only: kmaca_block permute_direct_xor_eq regs_of_bytes_of kmaca_start_state)
  finally have t: "KMACA_IV8 = permute_bytes (be_store_word64 (0x00400c0400000000 OR of_nat (32 * 8)) @ KMAC_NAME @ zeros 28) 0" .
  have "spec_name_block 4 0x00400c0400000000 (Some KMAC_NAME) = KMAC_NAME @ zeros 28"
    by (simp add: spec_name_block_def KMAC_NAME_def)
  then show ?thesis by (simp only: t spec_custom_start_def)
qed

context snp_laws
begin

lemma kmaca_init_rep:
  "xof_rep rep (ascon_kmaca_init B key custom outlen)
     (sponge_absorb 4 (spec_custom_start 4 0x00400c0400000000 (Some KMAC_NAME) custom (if outlen \<ge> 2 ^ 29 then 0 else outlen)) key)"
proof (cases "outlen = 32")
  case True
  have "xof_rep rep (ascon_kmaca_init_precomputed B) (KMACA_IV8, 0, False)"
    using rep_load[OF kmaca_table] by (simp add: xof_rep_def ascon_kmaca_init_precomputed_def)
  from xofa_absorb_rep[OF xofa_absorb_custom_rep[OF this, of custom], of key] True show ?thesis
    by (simp add: ascon_kmaca_init_def kmaca_precomputed_start)
next
  case False
  with xofa_absorb_rep[OF xofa_init_custom_rep[of "Some KMAC_NAME" custom outlen], of key] show ?thesis
    by (simp add: ascon_kmaca_init_def)
qed

text \<open>Absorbing and squeezing after a start with a name, a customisation string and a key.\<close>

lemma xofa_keyed_pieces:
  assumes "xof_rep rep st (sponge_absorb 4 (spec_custom_start 4 0x00400c0400000000 (Some name) custom (if outlen \<ge> 2 ^ 29 then 0 else outlen)) key)"
  shows "snd (pull (ascon_xofa_squeeze B) (foldl (ascon_xofa_absorb B) st ms) ns) =
    spec_cxof 4 0x00400c0400000000 name custom outlen (key @ concat ms) (sum_list ns)"
proof -
  define a where "a = spec_custom_start 4 0x00400c0400000000 (Some name) custom (if outlen \<ge> 2 ^ 29 then 0 else outlen)"
  have fresh: "a = (fst a, 0, False)" unfolding a_def by (rule spec_custom_start_fresh)
  have r: "xof_rep rep st (sponge_absorb 4 (fst a, 0, False) key)"
    using assms unfolding a_def[symmetric] by (subst fresh[symmetric])
  then have "rep (xof_perm st) (fst (sponge_absorb 4 (fst a, 0, False) key))"
    by (auto simp: xof_rep_def split: prod.splits)
  have len: "length (fst a) = 40"
    using xofa_init_custom_rep[of "Some name" custom outlen] unfolding a_def[symmetric]
    by (subst (asm) fresh) (auto simp: xof_rep_def rep_length)
  from xofa_squeeze_pieces[OF xofa_absorb_pieces[OF r, of ms], of ns]
  have "snd (pull (ascon_xofa_squeeze B) (foldl (ascon_xofa_absorb B) st ms) ns) =
      snd (pull (eager_sponge_squeeze 4) (sponge_absorb 4 (fst a, 0, False) (key @ concat ms)) ns)"
    by (auto simp: sponge_absorb_pieces)
  then show ?thesis
    unfolding spec_cxof_def a_def[symmetric]
    using len by (simp add: eager_squeeze_pieces eager_sponge_output)
qed

lemma kmaca_pieces:
  "snd (pull (ascon_kmaca_squeeze B) (foldl (ascon_kmaca_absorb B) (ascon_kmaca_init B key custom outlen) ms) ns) =
    spec_cxof 4 0x00400c0400000000 KMAC_NAME custom outlen (key @ concat ms) (sum_list ns)"
  using xofa_keyed_pieces[OF kmaca_init_rep, of key custom outlen ms ns]
  by (simp add: ascon_kmaca_squeeze_def[abs_def] ascon_kmaca_absorb_def[abs_def])

lemma kmaca_eq: "ascon_kmaca B key m custom outlen = spec_cxof 4 0x00400c0400000000 KMAC_NAME custom outlen (key @ m) outlen"
  using kmaca_pieces[of key custom outlen "[m]" "[outlen]"]
  by (simp add: ascon_kmaca_def ascon_kmaca_squeeze_def ascon_kmaca_absorb_def case_prod_beta Let_def)

lemma kdfa_init_rep:
  "xof_rep rep (ascon_kdfa_init B key custom outlen)
     (sponge_absorb 4 (spec_custom_start 4 0x00400c0400000000 (Some KDF_NAME) custom (if outlen \<ge> 2 ^ 29 then 0 else outlen)) key)"
  using xofa_absorb_rep[OF xofa_init_custom_rep] by (simp add: ascon_kdfa_init_def)

lemma kdfa_pieces:
  "snd (pull (ascon_kdfa_squeeze B) (ascon_kdfa_init B key custom outlen) ns) =
    spec_cxof 4 0x00400c0400000000 KDF_NAME custom outlen key (sum_list ns)"
  using xofa_keyed_pieces[OF kdfa_init_rep, of key custom outlen "[]" ns]
  by (simp add: ascon_kdfa_squeeze_def[abs_def])

lemma kdfa_eq: "ascon_kdfa B key custom outlen = spec_cxof 4 0x00400c0400000000 KDF_NAME custom outlen key outlen"
  using kdfa_pieces[of key custom outlen "[outlen]"]
  by (simp add: ascon_kdfa_def ascon_kdfa_squeeze_def case_prod_beta Let_def)

end

end
