(* ===== verification/Pbkdf2.thy ===== *)
theory Pbkdf2
  imports Hmac Kmac
begin

text \<open>
  \<open>password/ascon-pbkdf2.c\<close> and \<open>password/ascon-pbkdf2-hmac.c\<close>: password hashing with the iterated
  function of RFC 8018, over ASCON-XOF with the password as customisation string, and over HMAC.
  A count of 0 is the same as 1.  \<open>unsigned long\<close> has 64 bits.  \<open>stack\<close> is what a local state holds
  before it is set.
\<close>

section \<open>The specification\<close>

fun spec_pbkdf2_u :: "(bytes \<Rightarrow> bytes) \<Rightarrow> bytes \<Rightarrow> nat \<Rightarrow> nat \<Rightarrow> bytes" where
  "spec_pbkdf2_u prf salt i 0 = prf (salt @ be_store_word32 (of_nat i))"
| "spec_pbkdf2_u prf salt i (Suc j) = prf (spec_pbkdf2_u prf salt i j)"

definition spec_pbkdf2_f :: "(bytes \<Rightarrow> bytes) \<Rightarrow> bytes \<Rightarrow> nat \<Rightarrow> nat \<Rightarrow> bytes" where
  "spec_pbkdf2_f prf salt count i =
     foldl xor_bytes (spec_pbkdf2_u prf salt i 0) (map (spec_pbkdf2_u prf salt i) [1..<count])"

definition spec_pbkdf2 :: "(bytes \<Rightarrow> bytes) \<Rightarrow> bytes \<Rightarrow> nat \<Rightarrow> nat \<Rightarrow> bytes" where
  "spec_pbkdf2 prf salt count n =
     take n (concat (map (spec_pbkdf2_f prf salt count) [1..<1 + (n + 31) div 32]))"

section \<open>The output loop\<close>

text \<open>The loop over blocks of output is the same in both files; \<open>f\<close> is the block function.\<close>

function pbkdf2_output :: "(u64 \<Rightarrow> bytes) \<Rightarrow> nat \<Rightarrow> u64 \<Rightarrow> bytes" where
  "pbkdf2_output f outlen blocknum =
     (if outlen > 0 then
        if outlen \<ge> 32 then
          let out = f blocknum in out @ pbkdf2_output f (outlen - 32) (blocknum + 1)
        else let T = f blocknum in take outlen T
      else [])"
  by pat_completeness auto
termination by (relation "measure (\<lambda>(f, outlen, blocknum). outlen)") auto

declare pbkdf2_output.simps [simp del]

lemma pbkdf2_output_eq:
  assumes "\<And>i. length (f (of_nat i)) = 32"
  shows "pbkdf2_output f n (of_nat i) = take n (concat (map (\<lambda>i. f (of_nat i)) [i..<i + (n + 31) div 32]))"
proof (induction n arbitrary: i rule: less_induct)
  case (less n)
  consider "n = 0" | "0 < n" "n < 32" | "32 \<le> n" by linarith
  then show ?case
  proof cases
    case 2
    have "(n + 31) div 32 = 1" by (rule div_nat_eqI) (use 2 in simp_all)
    then have "i + (n + 31) div 32 = Suc i" by (simp only: plus_1_eq_Suc One_nat_def add_Suc_right add_0_right)
    then have "concat (map (\<lambda>i. f (of_nat i)) [i..<i + (n + 31) div 32]) = f (of_nat i)"
      by (simp only: upt_Suc_append[OF le_refl]) simp
    with 2 show ?thesis
      by (simp only: pbkdf2_output.simps[of f n "of_nat i"] Let_def) simp
  next
    case 3
    define k where "k = (n - 32 + 31) div 32"
    have "n + 31 = n - 32 + 31 + 32" using 3 by simp
    then have "i + (n + 31) div 32 = Suc i + k"
      unfolding k_def by (metis add_Suc_shift add.commute div_add_self2 plus_1_eq_Suc zero_neq_numeral)
    then have blocks: "[i..<i + (n + 31) div 32] = i # [Suc i..<Suc i + k]"
      by (simp only: upt_conv_Cons)
    have "of_nat i + 1 = (of_nat (Suc i) :: u64)" by (simp add: add.commute)
    then have "pbkdf2_output f n (of_nat i) = f (of_nat i) @ pbkdf2_output f (n - 32) (of_nat (Suc i))"
      using 3 by (simp only: pbkdf2_output.simps[of f n "of_nat i"] Let_def) simp
    also have "\<dots> = f (of_nat i) @ take (n - 32) (concat (map (\<lambda>i. f (of_nat i)) [Suc i..<Suc i + k]))"
      using 3 unfolding k_def by (subst less.IH) simp_all
    also have "\<dots> = take n (concat (map (\<lambda>i. f (of_nat i)) [i..<i + (n + 31) div 32]))"
      unfolding blocks using 3 assms[of i] by (simp del: upt_Suc)
    finally show ?thesis .
  qed (simp add: pbkdf2_output.simps[of f 0])
qed

section \<open>Over ASCON-XOF\<close>

definition PBKDF2_NAME :: bytes where "PBKDF2_NAME = map of_char ''PBKDF2''"

function pbkdf2_loop ::
  "'s snp \<Rightarrow> 's xof_state \<Rightarrow> 's xof_state \<Rightarrow> bytes \<Rightarrow> bytes \<Rightarrow> nat \<Rightarrow> bytes \<times> bytes" where
  "pbkdf2_loop B state state2 T U count =
     (if count > 2 then
        let state2 = ascon_xof_copy B False state2 state;
            state2 = ascon_xof_absorb B state2 U;
            (state2, U) = ascon_xof_squeeze B state2 32;
            state2 = ascon_xof_free B state2;
            T = lw_xor_block T U 32
        in pbkdf2_loop B state state2 T U (count - 1)
      else (T, U))"
  by pat_completeness auto
termination by (relation "measure (\<lambda>(B, state, state2, T, U, count). count)") auto

declare pbkdf2_loop.simps [simp del]

definition ascon_pbkdf2_f ::
  "'s snp \<Rightarrow> 's xof_state \<Rightarrow> 's xof_state \<Rightarrow> bytes \<Rightarrow> nat \<Rightarrow> u64 \<Rightarrow> bytes" where
  "ascon_pbkdf2_f B stack state salt count blocknum =
     (let b = be_store_word32 (ucast blocknum);
          state2 = ascon_xof_copy B False stack state;
          state2 = ascon_xof_absorb B state2 salt;
          state2 = ascon_xof_absorb B state2 b;
          (state2, T) = ascon_xof_squeeze B state2 32
      in
      if count > 1 then
        let state2 = ascon_xof_copy B False state2 state;
            state2 = ascon_xof_absorb B state2 T;
            (state2, U) = ascon_xof_squeeze B state2 32;
            T = lw_xor_block T U 32
        in fst (pbkdf2_loop B state state2 T U count)
      else T)"

definition ascon_pbkdf2 :: "'s snp \<Rightarrow> 's xof_state \<Rightarrow> nat \<Rightarrow> bytes \<Rightarrow> bytes \<Rightarrow> nat \<Rightarrow> bytes" where
  "ascon_pbkdf2 B stack outlen password salt count =
     (let state = ascon_xof_init_custom B (Some PBKDF2_NAME) password 32
      in pbkdf2_output (ascon_pbkdf2_f B stack state salt count) outlen 1)"

section \<open>Over HMAC\<close>

text \<open>The functions of the MAC are the record \<open>M\<close>, which the file sets to those of ASCON-HMAC.\<close>

function pbkdf2_hmac_loop ::
  "'m mac_ops \<Rightarrow> 'm \<Rightarrow> bytes \<Rightarrow> bytes \<Rightarrow> bytes \<Rightarrow> nat \<Rightarrow> bytes \<times> bytes" where
  "pbkdf2_hmac_loop M state password T U count =
     (if count > 2 then
        let state = mac_reinit M state password;
            state = mac_update M state U;
            (state, U) = mac_finalize M state password;
            T = lw_xor_block T U 32
        in pbkdf2_hmac_loop M state password T U (count - 1)
      else (T, U))"
  by pat_completeness auto
termination by (relation "measure (\<lambda>(M, state, password, T, U, count). count)") auto

declare pbkdf2_hmac_loop.simps [simp del]

definition pbkdf2_hmac_f :: "'m mac_ops \<Rightarrow> bytes \<Rightarrow> bytes \<Rightarrow> nat \<Rightarrow> u64 \<Rightarrow> bytes" where
  "pbkdf2_hmac_f M password salt count blocknum =
     (let b = be_store_word32 (ucast blocknum);
          state = mac_init M password;
          state = mac_update M state salt;
          state = mac_update M state b;
          (state, T) = mac_finalize M state password
      in
      if count > 1 then
        let state = mac_reinit M state password;
            state = mac_update M state T;
            (state, U) = mac_finalize M state password;
            T = lw_xor_block T U 32
        in fst (pbkdf2_hmac_loop M state password T U count)
      else T)"

definition ascon_pbkdf2_hmac :: "'s snp \<Rightarrow> nat \<Rightarrow> bytes \<Rightarrow> bytes \<Rightarrow> nat \<Rightarrow> bytes" where
  "ascon_pbkdf2_hmac B outlen password salt count =
     pbkdf2_output (pbkdf2_hmac_f (hmac_ops (ascon_hash_ops B)) password salt count) outlen 1"

section \<open>Correctness\<close>

lemma length_u: "(\<And>x. length (prf x) = 32) \<Longrightarrow> length (spec_pbkdf2_u prf salt i j) = 32"
  by (cases j) simp_all

lemma xor_32: "\<lbrakk>length a = 32; length b = 32\<rbrakk> \<Longrightarrow> lw_xor_block a b 32 = xor_bytes a b"
  by (simp add: lw_xor_block_eq)

lemma length_fold_xor:
  "length a = 32 \<Longrightarrow> (\<And>x. x \<in> set xs \<Longrightarrow> length x = 32) \<Longrightarrow> length (foldl xor_bytes a xs) = 32"
  by (induction xs arbitrary: a) simp_all

lemma length_spec_pbkdf2_f: "(\<And>x. length (prf x) = 32) \<Longrightarrow> length (spec_pbkdf2_f prf salt count i) = 32"
  unfolding spec_pbkdf2_f_def by (rule length_fold_xor) (auto simp: length_u)

lemma spec_pbkdf2_eq:
  assumes "\<And>i. f (of_nat i) = spec_pbkdf2_f prf salt count i" "\<And>x. length (prf x) = 32"
  shows "pbkdf2_output f n 1 = spec_pbkdf2 prf salt count n"
proof -
  have "length (f (of_nat i)) = 32" for i
    by (simp add: assms(1) length_spec_pbkdf2_f assms(2))
  from pbkdf2_output_eq[of f n 1, OF this] show ?thesis
    by (simp add: spec_pbkdf2_def assms(1) del: upt_Suc)
qed

lemma ucast_block: "ucast (of_nat i :: u64) = (of_nat i :: u32)"
  by (rule bit_word_eqI) (auto simp: bit_simps)

context mac_laws
begin

lemma pbkdf2_hmac_loop_eq:
  "\<lbrakk>U = spec_pbkdf2_u (mac password) salt i j; length T = 32; 0 < count\<rbrakk> \<Longrightarrow>
     fst (pbkdf2_hmac_loop M state password T U count) =
       foldl xor_bytes T (map (spec_pbkdf2_u (mac password) salt i) [Suc j..<Suc j + (count - 2)])"
proof (induction count arbitrary: state T U j)
  case (Suc count)
  show ?case
  proof (cases "Suc count > 2")
    case True
    have "snd (mac_finalize M (mac_update M (mac_reinit M state password) U) password) =
        spec_pbkdf2_u (mac password) salt i (Suc j)"
      using Suc.prems(1) mac_once[OF reinit_keyed] by simp
    moreover have "[Suc j..<Suc j + (Suc count - 2)] = Suc j # [Suc (Suc j)..<Suc (Suc j) + (count - 2)]"
    proof -
      have "Suc j + (Suc count - 2) = Suc (Suc j) + (count - 2)" using True by linarith
      then show ?thesis by (simp only: upt_conv_Cons)
    qed
    moreover note Suc.IH[where U = "spec_pbkdf2_u (mac password) salt i (Suc j)" and j = "Suc j"
        and T = "xor_bytes T (spec_pbkdf2_u (mac password) salt i (Suc j))"]
    ultimately show ?thesis
      using True Suc.prems(2)
      by (simp add: pbkdf2_hmac_loop.simps[of M state password T U "Suc count"] xor_32 mac_length
          case_prod_beta Let_def del: upt_Suc)
  qed (simp add: pbkdf2_hmac_loop.simps)
qed simp

text \<open>A block is the sum of its rounds.\<close>

lemma pbkdf2_hmac_f_eq:
  "pbkdf2_hmac_f M password salt count (of_nat i) = spec_pbkdf2_f (mac password) salt count i"
proof -
  let ?u = "spec_pbkdf2_u (mac password) salt i"
  have T: "snd (mac_finalize M (mac_update M (mac_update M (mac_init M password) salt)
      (be_store_word32 (of_nat i))) password) = ?u 0"
    using mac_twice[OF init_keyed] by simp
  have U: "snd (mac_finalize M (mac_update M (mac_reinit M st password) (?u 0)) password) = ?u 1" for st
    using mac_once[OF reinit_keyed] by simp
  show ?thesis
  proof (cases "count > 1")
    case True
    then have "[1..<count] = 1 # [Suc 1..<Suc 1 + (count - 2)]"
      by (metis upt_conv_Cons add_2_eq_Suc Suc_1 le_add_diff_inverse Suc_leI)
    moreover note pbkdf2_hmac_loop_eq[of "?u 1" password salt i 1 "xor_bytes (?u 0) (?u 1)" count]
    ultimately show ?thesis
      using True T U
      by (simp add: pbkdf2_hmac_f_def spec_pbkdf2_f_def ucast_block xor_32 mac_length case_prod_beta Let_def
          del: upt_Suc)
  next
    case False
    then show ?thesis
      using T by (simp add: pbkdf2_hmac_f_def spec_pbkdf2_f_def ucast_block case_prod_beta Let_def)
  qed
qed

lemma pbkdf2_hmac_eq:
  "pbkdf2_output (pbkdf2_hmac_f M password salt count) n 1 = spec_pbkdf2 (mac password) salt count n"
  by (rule spec_pbkdf2_eq) (simp_all add: pbkdf2_hmac_f_eq mac_length)

end

definition pbkdf2_prf :: "bytes \<Rightarrow> bytes \<Rightarrow> bytes" where
  "pbkdf2_prf password x = spec_cxof 0 0x00400c0000000000 PBKDF2_NAME password 32 x 32"

lemma length_pbkdf2_prf: "length (pbkdf2_prf password x) = 32"
  by (simp add: pbkdf2_prf_def spec_cxof_def)

context snp_laws
begin

abbreviation pbkdf2_state where
  "pbkdf2_state password \<equiv> ascon_xof_init_custom B (Some PBKDF2_NAME) password 32"

lemma pbkdf2_prf_pieces:
  "snd (ascon_xof_squeeze B (foldl (ascon_xof_absorb B) (ascon_xof_copy B False st (pbkdf2_state password)) ms) 32) =
     pbkdf2_prf password (concat ms)"
proof -
  let ?a = "spec_custom_start 0 0x00400c0000000000 (Some PBKDF2_NAME) password 32"
  have "sponge_absorb 0 ?a [] = ?a" by (metis spec_custom_start_fresh sponge_absorb_Nil)
  moreover have "xof_rep rep (ascon_xof_copy B False st (pbkdf2_state password)) ?a"
    by (rule xof_copy_rep) (use xof_init_custom_rep[of "Some PBKDF2_NAME" password 32] in simp_all)
  ultimately have "xof_rep rep (ascon_xof_copy B False st (pbkdf2_state password)) (sponge_absorb 0 ?a [])"
    by simp
  then have "xof_rep rep (ascon_xof_copy B False st (pbkdf2_state password))
      (sponge_absorb 0 (spec_custom_start 0 0x00400c0000000000 (Some PBKDF2_NAME) password (if (32::nat) \<ge> 2 ^ 29 then 0 else 32)) [])"
    by simp
  from xof_keyed_pieces[OF this, of ms "[32]"] show ?thesis
    by (simp add: pbkdf2_prf_def case_prod_beta Let_def)
qed

lemmas pbkdf2_prf_once = pbkdf2_prf_pieces[where ms = "[x]" for x, simplified]
lemmas pbkdf2_prf_twice = pbkdf2_prf_pieces[where ms = "[x, y]" for x y, simplified]

lemma pbkdf2_loop_eq:
  "\<lbrakk>U = spec_pbkdf2_u (pbkdf2_prf password) salt i j; length T = 32; 0 < count\<rbrakk> \<Longrightarrow>
     fst (pbkdf2_loop B (pbkdf2_state password) state2 T U count) =
       foldl xor_bytes T (map (spec_pbkdf2_u (pbkdf2_prf password) salt i) [Suc j..<Suc j + (count - 2)])"
proof (induction count arbitrary: state2 T U j)
  case (Suc count)
  show ?case
  proof (cases "Suc count > 2")
    case True
    have "Suc j + (Suc count - 2) = Suc (Suc j) + (count - 2)" using True by linarith
    then have "[Suc j..<Suc j + (Suc count - 2)] = Suc j # [Suc (Suc j)..<Suc (Suc j) + (count - 2)]"
      by (simp only: upt_conv_Cons)
    moreover note Suc.IH[where U = "spec_pbkdf2_u (pbkdf2_prf password) salt i (Suc j)" and j = "Suc j"
        and T = "xor_bytes T (spec_pbkdf2_u (pbkdf2_prf password) salt i (Suc j))"]
    ultimately show ?thesis
      using True Suc.prems
      by (simp add: pbkdf2_loop.simps[of B _ state2 T _ "Suc count"] xor_32 length_pbkdf2_prf
          pbkdf2_prf_once case_prod_beta Let_def del: upt_Suc)
  qed (simp add: pbkdf2_loop.simps)
qed simp

lemma pbkdf2_f_eq:
  "ascon_pbkdf2_f B stack (pbkdf2_state password) salt count (of_nat i) =
     spec_pbkdf2_f (pbkdf2_prf password) salt count i"
proof (cases "count > 1")
  case True
  let ?u = "spec_pbkdf2_u (pbkdf2_prf password) salt i"
  from True have "[1..<count] = 1 # [Suc 1..<Suc 1 + (count - 2)]"
    by (metis upt_conv_Cons add_2_eq_Suc Suc_1 le_add_diff_inverse Suc_leI)
  moreover note pbkdf2_loop_eq[of "?u 1" password salt i 1 "xor_bytes (?u 0) (?u 1)" count]
  ultimately show ?thesis
    using True
    by (simp add: ascon_pbkdf2_f_def spec_pbkdf2_f_def ucast_block xor_32 length_pbkdf2_prf
        pbkdf2_prf_once pbkdf2_prf_twice case_prod_beta Let_def del: upt_Suc)
qed (simp add: ascon_pbkdf2_f_def spec_pbkdf2_f_def ucast_block pbkdf2_prf_twice case_prod_beta Let_def)

lemma pbkdf2_eq:
  "ascon_pbkdf2 B stack n password salt count = spec_pbkdf2 (pbkdf2_prf password) salt count n"
  unfolding ascon_pbkdf2_def Let_def
  by (rule spec_pbkdf2_eq) (simp_all add: pbkdf2_f_eq length_pbkdf2_prf)

end

end
