(* ===== verification/Prf.thy ===== *)
theory Prf
  imports Sponge_Spec Xof
begin

text \<open>
  \<open>mac/ascon-prf.c\<close>: ASCON-PRF, a keyed sponge that absorbs 32 bytes and squeezes 16 bytes per
  permutation, ASCON-MAC and its verification, and ASCON-PRFshort for inputs and outputs of at
  most 16 bytes.  The structure \<open>ascon_prf_state_t\<close> has the fields of \<open>ascon_xof_state_t\<close> and is
  modelled by the same record.  Keys have 16 bytes.
\<close>

section \<open>The code\<close>

definition ascon_prf_free :: "'s snp \<Rightarrow> 's xof_state \<Rightarrow> 's xof_state" where
  "ascon_prf_free B st =
     \<lparr> xof_perm = snp_free B (snp_acquire B (xof_perm st)), xof_count = 0, xof_mode = 0 \<rparr>"

definition ascon_prf_fixed_init :: "'s snp \<Rightarrow> bytes \<Rightarrow> nat \<Rightarrow> 's xof_state" where
  "ascon_prf_fixed_init B key outlen =
     (let iv = [0x80, 0x80, 0x8c, 0x00, 0x00, 0x00, 0x00, 0x00];
          outlen = (if outlen \<ge> 2 ^ 29 then 0 else outlen);
          iv = take 4 iv @ be_store_word32 (of_nat (outlen * 8));
          s = snp_init B;
          s = snp_overwrite_bytes B s iv 0 8;
          s = snp_overwrite_bytes B s key 8 16;
          s = snp_permute B s 0
      in \<lparr> xof_perm = snp_release B s, xof_count = 0, xof_mode = 0 \<rparr>)"

definition ascon_prf_init :: "'s snp \<Rightarrow> bytes \<Rightarrow> 's xof_state" where
  "ascon_prf_init B key = ascon_prf_fixed_init B key 0"

definition ascon_prf_reinit :: "'s snp \<Rightarrow> 's xof_state \<Rightarrow> bytes \<Rightarrow> 's xof_state" where
  "ascon_prf_reinit B st key =
     (let st = ascon_prf_free B st in ascon_prf_fixed_init B key 0)"

definition ascon_prf_fixed_reinit :: "'s snp \<Rightarrow> 's xof_state \<Rightarrow> bytes \<Rightarrow> nat \<Rightarrow> 's xof_state" where
  "ascon_prf_fixed_reinit B st key outlen =
     (let st = ascon_prf_free B st in ascon_prf_fixed_init B key outlen)"

definition ascon_prf_absorb :: "'s snp \<Rightarrow> 's xof_state \<Rightarrow> bytes \<Rightarrow> 's xof_state" where
  "ascon_prf_absorb B st inp =
     (let s = snp_acquire B (xof_perm st);
          (s, count, mode) =
            (if xof_mode st \<noteq> 0 then (snp_permute B s 0, 0, 0) else (s, xof_count st, xof_mode st));
          (s, _, count) =
            duplex_crypt 32
              (\<lambda>s d off. (snp_absorb_16 B (snp_absorb_16 B s d off) (drop 16 d) (off + 16), []))
              (\<lambda>s d off n. (snp_absorb_partial B s d off n, [])) (\<lambda>s. snp_permute B s 0)
              s inp count
      in \<lparr> xof_perm = snp_release B s, xof_count = count, xof_mode = mode \<rparr>)"

definition ascon_prf_squeeze :: "'s snp \<Rightarrow> 's xof_state \<Rightarrow> nat \<Rightarrow> 's xof_state \<times> bytes" where
  "ascon_prf_squeeze B st outlen =
     (let s = snp_acquire B (xof_perm st);
          (s, count, mode) =
            (if xof_mode st = 0 then (snp_separator B (snp_pad B s (unat (xof_count st))), 0, 1)
             else (s, xof_count st, xof_mode st));
          (s, out, count) =
            squeeze_output 16 (\<lambda>s. snp_squeeze_16 B s 0) (snp_squeeze_partial B)
              (\<lambda>s. snp_permute B s 0) s outlen count
      in (\<lparr> xof_perm = snp_release B s, xof_count = count, xof_mode = mode \<rparr>, out))"

definition ascon_prf :: "'s snp \<Rightarrow> nat \<Rightarrow> bytes \<Rightarrow> bytes \<Rightarrow> bytes" where
  "ascon_prf B outlen inp key =
     (let st = ascon_prf_fixed_init B key 0;
          st = ascon_prf_absorb B st inp
      in snd (ascon_prf_squeeze B st outlen))"

definition ascon_prf_fixed :: "'s snp \<Rightarrow> nat \<Rightarrow> bytes \<Rightarrow> bytes \<Rightarrow> bytes" where
  "ascon_prf_fixed B outlen inp key =
     (let st = ascon_prf_fixed_init B key outlen;
          st = ascon_prf_absorb B st inp
      in snd (ascon_prf_squeeze B st outlen))"

definition ascon_mac :: "'s snp \<Rightarrow> bytes \<Rightarrow> bytes \<Rightarrow> bytes" where
  "ascon_mac B inp key =
     (let st = ascon_prf_fixed_init B key 16;
          st = ascon_prf_absorb B st inp
      in snd (ascon_prf_squeeze B st 16))"

definition ascon_mac_verify :: "'s snp \<Rightarrow> bytes \<Rightarrow> bytes \<Rightarrow> bytes \<Rightarrow> int" where
  "ascon_mac_verify B tag inp key =
     (let tag2 = ascon_mac B inp key in fst (ascon_aead_check_tag [] tag tag2 16))"

text \<open>\<open>None\<close> when the output is not written.\<close>

definition ascon_prf_short :: "'s snp \<Rightarrow> nat \<Rightarrow> bytes \<Rightarrow> bytes \<Rightarrow> int \<times> bytes option" where
  "ascon_prf_short B outlen inp key =
     (let iv = [0x80, 0x00, 0x4c, 0x80, 0x00, 0x00, 0x00, 0x00] in
      if length inp > 16 then (-1, None)
      else if outlen > 16 then (-1, None)
      else
        let iv = iv[1 := of_nat (length inp * 8)];
            s = snp_init B;
            s = snp_overwrite_bytes B s iv 0 8;
            s = snp_overwrite_bytes B s key 8 16;
            s = snp_overwrite_bytes B s inp 24 (length inp);
            s = snp_permute B s 0;
            s = snp_absorb_16 B s key 24
        in (0, Some (snp_squeeze_partial B s 24 outlen)))"

section \<open>The specification\<close>

definition spec_prf_start :: "bytes \<Rightarrow> nat \<Rightarrow> bytes" where
  "spec_prf_start key outlen =
     permute_bytes ([0x80, 0x80, 0x8c, 0x00] @ be_store_word32 (of_nat (outlen * 8)) @ key @ zeros 16) 0"

definition spec_prf :: "bytes \<Rightarrow> nat \<Rightarrow> bytes \<Rightarrow> nat \<Rightarrow> bytes" where
  "spec_prf key outlen m n =
     (let f = (\<lambda>b. permute_bytes b 0);
          b = xor_at (spec_absorb 32 0 (spec_prf_start key outlen) m) 39 [1]
      in spec_squeeze 16 f (f b) n)"

definition spec_prf_short :: "bytes \<Rightarrow> bytes \<Rightarrow> nat \<Rightarrow> bytes" where
  "spec_prf_short key m n =
     (let b = permute_bytes ([0x80, of_nat (length m * 8), 0x4c, 0x80, 0, 0, 0, 0] @ key @ m @
                zeros (16 - length m)) 0
      in take n (xor_bytes (get_at b 24 16) key))"

text \<open>The incremental form, on the state, the position and the phase.\<close>

definition prf_sponge_absorb :: "sponge \<Rightarrow> bytes \<Rightarrow> sponge" where
  "prf_sponge_absorb st xs = (case st of (b, p, m) \<Rightarrow>
     let (b, p) = (if m then (permute_bytes b 0, 0) else (b, p));
         ((b, p), _) = run (machine absorb_effect 32 0) (b, p) xs
     in (b, p, False))"

definition prf_sponge_squeeze :: "sponge \<Rightarrow> nat \<Rightarrow> sponge \<times> bytes" where
  "prf_sponge_squeeze st n = (case st of (b, p, m) \<Rightarrow>
     let (b, p) = (if m then (b, p) else (xor_at (xor_at b p [0x80]) 39 [1], 0));
         ((b, p), out) = run (lazy_step 16 (\<lambda>b. permute_bytes b 0)) (b, p) (zeros n)
     in ((b, p, True), out))"

lemma prf_sponge_absorb_append:
  "prf_sponge_absorb (prf_sponge_absorb st xs) ys = prf_sponge_absorb st (xs @ ys)"
  by (simp add: prf_sponge_absorb_def run_append Let_def split: prod.splits if_splits)

lemma prf_sponge_absorb_pieces:
  "foldl prf_sponge_absorb (prf_sponge_absorb st xs) ms = prf_sponge_absorb st (xs @ concat ms)"
  by (induction ms arbitrary: xs) (simp_all add: prf_sponge_absorb_append)

lemma prf_sponge_absorb_fold:
  "foldl prf_sponge_absorb (b, p, False) ms = prf_sponge_absorb (b, p, False) (concat ms)"
  using prf_sponge_absorb_pieces[of "(b, p, False)" "[]" ms] by (simp add: prf_sponge_absorb_def)

lemma prf_sponge_squeeze_pieces:
  "snd (pull prf_sponge_squeeze st ns) = snd (prf_sponge_squeeze st (sum_list ns))"
proof (induction ns arbitrary: st)
  case Nil
  show ?case by (simp add: prf_sponge_squeeze_def zeros_def split: prod.split)
next
  case (Cons n ns)
  then show ?case
    by (auto simp: prf_sponge_squeeze_def run_append zeros_add case_prod_beta Let_def)
qed

lemma prf_sponge_output:
  assumes "length b = 40"
  shows "snd (prf_sponge_squeeze (prf_sponge_absorb (b, 0, False) xs) n) =
    (let f = (\<lambda>b. permute_bytes b 0) in spec_squeeze 16 f (f (xor_at (spec_absorb 32 0 b xs) 39 [1])) n)"
  using lazy_spec_squeeze[of 16 "\<lambda>b. permute_bytes b 0"]
  by (simp add: prf_sponge_squeeze_def prf_sponge_absorb_def spec_absorb_def case_prod_beta Let_def)

section \<open>The code runs the keyed sponge\<close>

definition prf_rep :: "('s \<Rightarrow> bytes \<Rightarrow> bool) \<Rightarrow> 's xof_state \<Rightarrow> sponge \<Rightarrow> bool" where
  "prf_rep rep st a \<longleftrightarrow> (case a of (b, p, m) \<Rightarrow>
     rep (xof_perm st) b \<and> unat (xof_count st) = p \<and> p < (if m then 16 else 32) \<and> xof_mode st = of_bool m)"

sublocale snp_laws \<subseteq> absorb_32: duplex rep absorb_effect "\<lambda>b. permute_bytes b fr" 32
    "\<lambda>s d off. (snp_absorb_16 B (snp_absorb_16 B s d off) (drop 16 d) (off + 16), [])"
    "\<lambda>s d off n. (snp_absorb_partial B s d off n, [])" "\<lambda>s. snp_permute B s fr" for fr
proof unfold_locales
  fix s b and d :: bytes
  assume r: "rep s b" and d: "32 \<le> length d"
  have "take 32 d = take 16 d @ take 16 (drop 16 d)"
    using take_add[of 16 16 d] by simp
  then have "xor_at b 0 (take 32 d) = xor_at (xor_at b 0 (take 16 d)) 16 (take 16 (drop 16 d))"
    using d xor_at_append[of b 0 "take 16 d" "take 16 (drop 16 d)"] by simp
  with rep_absorb_16[OF rep_absorb_16[OF r, of d 0], of "drop 16 d" 16] d
  show "rep (fst (snp_absorb_16 B (snp_absorb_16 B s d 0) (drop 16 d) (0 + 16), []))
        (fst (absorb_effect b 0 (take 32 d))) \<and>
      snd (snp_absorb_16 B (snp_absorb_16 B s d 0) (drop 16 d) (0 + 16), []) =
        snd (absorb_effect b 0 (take 32 d))"
    by (simp add: absorb_effect_def)
qed (auto simp: absorb_effect_append effect_Nil rep_permute, auto simp: absorb_effect_def rep_absorb_partial)

sublocale snp_laws \<subseteq> squeeze_16: lazy_squeeze rep "\<lambda>b. permute_bytes b 0" 16
    "\<lambda>s. snp_squeeze_16 B s 0" "snp_squeeze_partial B" "\<lambda>s. snp_permute B s 0"
  by unfold_locales (simp_all add: rep_length rep_squeeze_16 rep_squeeze_partial rep_permute)

lemma put_at_key_block:
  "\<lbrakk>length iv = 8; length key = 16\<rbrakk> \<Longrightarrow> put_at (put_at (zeros 40) 0 iv) 8 key = iv @ key @ zeros 16"
  by (rule nth_equalityI) (auto simp: byte_nth nth_append)

lemma put_at_short_block:
  "\<lbrakk>length iv = 8; length key = 16; length m \<le> 16\<rbrakk> \<Longrightarrow>
     put_at (put_at (put_at (zeros 40) 0 iv) 8 key) 24 m = iv @ key @ m @ zeros (16 - length m)"
  by (rule nth_equalityI) (auto simp: byte_nth nth_append)

context snp_laws
begin

lemma prf_fixed_init_rep:
  assumes "length key = 16"
  shows "prf_rep rep (ascon_prf_fixed_init B key outlen)
    (spec_prf_start key (if outlen \<ge> 2 ^ 29 then 0 else outlen), 0, False)"
proof -
  define n where "n = (if outlen \<ge> 2 ^ 29 then 0 else outlen)"
  let ?iv = "[0x80, 0x80, 0x8c, 0x00] @ be_store_word32 (of_nat (n * 8))"
  have len: "length ?iv = 8" by simp
  from rep_release[OF rep_permute[OF rep_overwrite[OF rep_overwrite[OF rep_init, of 8 ?iv 0], of 16 key 8]]]
  have "rep (snp_release B (snp_permute B (snp_overwrite_bytes B (snp_overwrite_bytes B (snp_init B) ?iv 0 8) key 8 16) 0))
      (spec_prf_start key n)"
    using assms put_at_key_block[OF len assms] by (simp add: spec_prf_start_def)
  then show ?thesis
    unfolding ascon_prf_fixed_init_def Let_def n_def[symmetric]
    by (simp add: prf_rep_def)
qed

lemma prf_absorb_rep:
  assumes "prf_rep rep st a"
  shows "prf_rep rep (ascon_prf_absorb B st xs) (prf_sponge_absorb a xs)"
proof -
  obtain b p m where a: "a = (b, p, m)" by (metis prod.exhaust)
  define s c where "s = (if m then snp_permute B (snp_acquire B (xof_perm st)) 0 else snp_acquire B (xof_perm st))"
    and "c = (if m then 0 else xof_count st)"
  define b0 p0 where "b0 = (if m then permute_bytes b 0 else b)" and "p0 = (if m then 0 else p)"
  have "rep s b0" "unat c < 32" and c: "unat c = p0"
    using assms rep_acquire rep_permute by (auto simp: a prf_rep_def s_def b0_def c_def p0_def)
  from absorb_32.crypt_run[OF this(1,2), of 0 xs]
  obtain s' b' p' out where "run (machine absorb_effect 32 0) (b0, p0) xs = ((b', p'), out)"
    "duplex_crypt 32 (\<lambda>s d off. (snp_absorb_16 B (snp_absorb_16 B s d off) (drop 16 d) (off + 16), []))
       (\<lambda>s d off n. (snp_absorb_partial B s d off n, [])) (\<lambda>s. snp_permute B s 0) s xs c =
       (s', out, of_nat p')" "rep s' b'" "p' < 32"
    unfolding c machine_def by blast
  then show ?thesis
    using assms rep_release
    by (cases m) (auto simp: a prf_rep_def ascon_prf_absorb_def prf_sponge_absorb_def s_def c_def b0_def p0_def Let_def
        unat_of_nat take_bit_nat_eq_self)
qed

lemma prf_squeeze_rep:
  assumes "prf_rep rep st a"
  shows "prf_rep rep (fst (ascon_prf_squeeze B st n)) (fst (prf_sponge_squeeze a n)) \<and>
    snd (ascon_prf_squeeze B st n) = snd (prf_sponge_squeeze a n)"
proof -
  obtain b p m where a: "a = (b, p, m)" by (metis prod.exhaust)
  define s c where "s = (if m then snp_acquire B (xof_perm st)
      else snp_separator B (snp_pad B (snp_acquire B (xof_perm st)) (unat (xof_count st))))"
    and "c = (if m then xof_count st else 0)"
  define b0 p0 where "b0 = (if m then b else xor_at (xor_at b p [0x80]) 39 [1])" and "p0 = (if m then p else 0)"
  have "rep s b0" "unat c < 16" and c: "unat c = p0"
    using assms rep_acquire rep_pad rep_separator by (auto simp: a prf_rep_def s_def b0_def c_def p0_def)
  from squeeze_16.squeeze_run[OF this(1,2), of n]
  obtain s' b' p' out where "run (lazy_step 16 (\<lambda>b. permute_bytes b 0)) (b0, p0) (zeros n) = ((b', p'), out)"
    "squeeze_output 16 (\<lambda>s. snp_squeeze_16 B s 0) (snp_squeeze_partial B) (\<lambda>s. snp_permute B s 0) s n c =
       (s', out, of_nat p')" "rep s' b'" "p' < 16"
    unfolding c by blast
  then show ?thesis
    using assms rep_release
    by (cases m) (auto simp: a prf_rep_def ascon_prf_squeeze_def prf_sponge_squeeze_def s_def c_def b0_def p0_def
        Let_def unat_of_nat take_bit_nat_eq_self)
qed

lemma prf_absorb_fold:
  "prf_rep rep st a \<Longrightarrow> prf_rep rep (foldl (ascon_prf_absorb B) st ms) (foldl prf_sponge_absorb a ms)"
  by (induction ms arbitrary: st a) (simp_all add: prf_absorb_rep)

lemma prf_squeeze_fold:
  "prf_rep rep st a \<Longrightarrow> snd (pull (ascon_prf_squeeze B) st ns) = snd (pull prf_sponge_squeeze a ns)"
proof (induction ns arbitrary: st a)
  case (Cons n ns)
  from prf_squeeze_rep[OF Cons.prems, of n] Cons.IH show ?case
    by (fastforce simp: case_prod_beta Let_def)
qed simp

lemma prf_pieces:
  assumes "length key = 16"
  shows "snd (pull (ascon_prf_squeeze B) (foldl (ascon_prf_absorb B) (ascon_prf_fixed_init B key outlen) ms) ns) =
    spec_prf key (if outlen \<ge> 2 ^ 29 then 0 else outlen) (concat ms) (sum_list ns)"
proof -
  note r = prf_fixed_init_rep[OF assms, of outlen]
  then have "length (spec_prf_start key (if outlen \<ge> 2 ^ 29 then 0 else outlen)) = 40"
    by (auto simp: prf_rep_def rep_length)
  from prf_sponge_output[OF this] prf_squeeze_fold[OF prf_absorb_fold[OF r]] show ?thesis
    by (simp add: prf_sponge_absorb_fold prf_sponge_squeeze_pieces spec_prf_def Let_def)
qed

lemma prf_one_shot:
  assumes "length key = 16"
  shows "ascon_prf B n m key = spec_prf key 0 m n"
    "ascon_prf_fixed B n m key = spec_prf key (if n \<ge> 2 ^ 29 then 0 else n) m n"
    "ascon_mac B m key = spec_prf key 16 m 16"
  using prf_pieces[OF assms, of 0 "[m]" "[n]"] prf_pieces[OF assms, of n "[m]" "[n]"]
    prf_pieces[OF assms, of 16 "[m]" "[16]"]
  by (simp_all add: ascon_prf_def ascon_prf_fixed_def ascon_mac_def case_prod_beta Let_def)

lemma mac_verify_eq:
  assumes "length key = 16" "length tag = 16"
  shows "ascon_mac_verify B tag m key = (if tag = spec_prf key 16 m 16 then 0 else -1)"
proof -
  have "length (spec_prf key 16 m 16) = 16"
    by (simp add: spec_prf_def length_spec_squeeze Let_def)
  then show ?thesis
    using assms check_tag_eq[of 16 tag "spec_prf key 16 m 16" "[]"]
    by (simp add: ascon_mac_verify_def prf_one_shot)
qed

lemma prf_short_eq:
  assumes "length key = 16"
  shows "ascon_prf_short B n m key =
    (if length m \<le> 16 \<and> n \<le> 16 then (0, Some (spec_prf_short key m n)) else (-1, None))"
proof (cases "length m \<le> 16 \<and> n \<le> 16")
  case True
  let ?iv = "[0x80, of_nat (length m * 8), 0x4c, 0x80, 0, 0, 0, 0] :: bytes"
  have blk: "put_at (put_at (put_at (zeros 40) 0 ?iv) 8 key) 24 m = ?iv @ key @ m @ zeros (16 - length m)"
    by (rule put_at_short_block) (use True assms in simp_all)
  let ?b = "permute_bytes (?iv @ key @ m @ zeros (16 - length m)) 0"
  let ?s = "snp_overwrite_bytes B (snp_overwrite_bytes B (snp_overwrite_bytes B (snp_init B) ?iv 0 8) key 8 16) m 24 (length m)"
  have "rep ?s (?iv @ key @ m @ zeros (16 - length m))"
    using rep_overwrite[OF rep_overwrite[OF rep_overwrite[OF rep_init, of 8 ?iv 0], of 16 key 8], of "length m" m 24]
      True assms blk by simp
  from rep_absorb_16[OF rep_permute[OF this, of 0], of key 24] assms
  have r: "rep (snp_absorb_16 B (snp_permute B ?s 0) key 24) (xor_at ?b 24 key)" by simp
  have "get_at (xor_at ?b 24 key) 24 n = take n (get_at (xor_at ?b 24 key) 24 16)"
    using True by (simp add: get_at_def min_absorb1)
  also have "\<dots> = take n (xor_bytes (get_at ?b 24 16) key)"
    using get_at_xor_at[of 24 key ?b] assms by simp
  finally show ?thesis
    using True rep_squeeze_partial[OF r, of 24 n]
    by (simp add: ascon_prf_short_def spec_prf_short_def Let_def)
qed (auto simp: ascon_prf_short_def)

end

end
