(* ===== verification/Mac_Properties.thy ===== *)
theory Mac_Properties
  imports Hkdf Pbkdf2 Prf Snp_Direct_Xor Snp_Sliced64
begin

text \<open>
  The properties of the message authentication codes and of the key derivation functions.
\<close>

section \<open>HMAC\<close>

text \<open>Property C19. ASCON-HMAC and ASCON-HMACA, in one call or with the message in pieces of any
  sizes, from a fresh or a reused state, compute the HMAC of RFC 2104 with blocks of 64 bytes over the
  specification's hash function, for keys of any length.\<close>

theorem hmac_rfc2104:
  "ascon_hmac (sliced64 le) key (concat ms) = spec_hmac spec_hash key (concat ms) \<and>
   snd (hmac_finalize (ascon_hash_ops (sliced64 le))
     (foldl (hmac_update (ascon_hash_ops (sliced64 le))) (hmac_init (ascon_hash_ops (sliced64 le)) key) ms) key) =
     spec_hmac spec_hash key (concat ms) \<and>
   snd (hmac_finalize (ascon_hash_ops (sliced64 le))
     (foldl (hmac_update (ascon_hash_ops (sliced64 le))) (hmac_reinit (ascon_hash_ops (sliced64 le)) st key) ms) key) =
     spec_hmac spec_hash key (concat ms) \<and>
   ascon_hmaca (sliced64 le) key (concat ms) = spec_hmac spec_hasha key (concat ms) \<and>
   snd (hmac_finalize (ascon_hasha_ops (sliced64 le))
     (foldl (hmac_update (ascon_hasha_ops (sliced64 le))) (hmac_init (ascon_hasha_ops (sliced64 le)) key) ms) key) =
     spec_hmac spec_hasha key (concat ms)"
proof -
  note h = snp_laws.hmac_hash_laws[OF sliced64.snp_laws_axioms[of le]]
    and ha = snp_laws.hmac_hasha_laws[OF sliced64.snp_laws_axioms[of le]]
  note pieces = hash_laws.hmac_finalize_eq[OF _ hash_laws.hmac_pieces[OF _ hash_laws.hmac_init_holds(1), simplified]]
    and pieces' = hash_laws.hmac_finalize_eq[OF _ hash_laws.hmac_pieces[OF _ hash_laws.hmac_init_holds(2), simplified]]
  show ?thesis
    by (simp add: ascon_hmac_def ascon_hmaca_def hash_laws.hmac_eq[OF h] hash_laws.hmac_eq[OF ha]
        pieces[OF h h h] pieces'[OF h h h] pieces[OF ha ha ha])
qed

section \<open>HKDF\<close>

text \<open>\<open>ascon_hkdf\<close> and \<open>ascon_hkdfa\<close> return 0 with the output keying material of RFC 5869 for lengths up
  to 255 blocks of 32 bytes, and -1 without touching the output for longer ones.\<close>

theorem hkdf_rfc5869:
  "ascon_hkdf (sliced64 le) stack key salt info n =
     (if n \<le> 255 * 32 then (0, Some (spec_hkdf (spec_hmac spec_hash) key salt info n)) else (-1, None)) \<and>
   ascon_hkdfa (sliced64 le) stack key salt info n =
     (if n \<le> 255 * 32 then (0, Some (spec_hkdf (spec_hmac spec_hasha) key salt info n)) else (-1, None))"
proof -
  note h = snp_laws.hmac_mac_laws[OF sliced64.snp_laws_axioms[of le]]
    and ha = snp_laws.hmaca_mac_laws[OF sliced64.snp_laws_axioms[of le]]
  show ?thesis
    by (auto simp: ascon_hkdf_def ascon_hkdfa_def mac_laws.hkdf_eq[OF h] mac_laws.hkdf_eq[OF ha])
      (simp_all add: hkdf_def)
qed

text \<open>After the extraction and any draws of sizes \<open>ns\<close>, one more draw of \<open>n\<close> bytes continues the output
  of RFC 5869 where the last one stopped; what goes past 255 blocks is zero bytes, and the result
  is then -1 and 0 otherwise.\<close>

theorem hkdf_expand_continues:
  "let M = hmac_ops (ascon_hash_ops (sliced64 le));
       stream = spec_hkdf_stream (spec_hmac spec_hash (spec_hmac spec_hash salt key)) info;
       p = min (sum_list ns) (255 * 32);
       st = fst (pull (hkdf_draw M info) (hkdf_extract M stack key salt) ns)
   in snd (hkdf_expand M st info n) =
        ((if p + n \<le> 255 * 32 then 0 else -1), take n (drop p stream) @ zeros (n - (255 * 32 - p)))"
proof -
  note laws = snp_laws.hmac_mac_laws[OF sliced64.snp_laws_axioms[of le]]
  note at = mac_laws.expand_pieces[OF laws mac_laws.hkdf_extract_at[OF laws, of salt key info stack],
      of ns, THEN conjunct1]
  from mac_laws.expand_drawn[OF laws at, of n] show ?thesis
    by (auto simp: Let_def mac_laws.drawn_def[OF laws] split: prod.splits)
qed

section \<open>KMAC and the key derivation functions over ASCON-XOF\<close>

text \<open>ASCON-KMAC and ASCON-KMACA, with any requested length, are the customised functions with the
  name KMAC on the key followed by the message, however the message and the output are cut into
  pieces; the precomputed state for the default length is the one the name gives.\<close>

theorem kmac_output:
  "snd (pull (ascon_kmac_squeeze (sliced64 le))
      (foldl (ascon_kmac_absorb (sliced64 le)) (ascon_kmac_init (sliced64 le) key custom outlen) ms) ns) =
    spec_cxof 0 0x00400c0000000000 (map of_char ''KMAC'') custom outlen (key @ concat ms) (sum_list ns) \<and>
   snd (pull (ascon_kmaca_squeeze (sliced64 le))
      (foldl (ascon_kmaca_absorb (sliced64 le)) (ascon_kmaca_init (sliced64 le) key custom outlen) ms) ns) =
    spec_cxof 4 0x00400c0400000000 (map of_char ''KMAC'') custom outlen (key @ concat ms) (sum_list ns)"
  using snp_laws.kmac_pieces[OF sliced64.snp_laws_axioms] snp_laws.kmaca_pieces[OF sliced64.snp_laws_axioms]
  by (simp only: KMAC_NAME_def simp_thms)

text \<open>ASCON-KDF and ASCON-KDFA are the customised functions with the name KDF on the key, and drawing
  the output in pieces gives what one call gives.\<close>

theorem kdf_output:
  "ascon_kdf (sliced64 le) key custom (sum_list ns) =
     spec_cxof 0 0x00400c0000000000 (map of_char ''KDF'') custom (sum_list ns) key (sum_list ns) \<and>
   snd (pull (ascon_kdf_squeeze (sliced64 le)) (ascon_kdf_init (sliced64 le) key custom (sum_list ns)) ns) =
     ascon_kdf (sliced64 le) key custom (sum_list ns) \<and>
   ascon_kdfa (sliced64 le) key custom (sum_list ns) =
     spec_cxof 4 0x00400c0400000000 (map of_char ''KDF'') custom (sum_list ns) key (sum_list ns) \<and>
   snd (pull (ascon_kdfa_squeeze (sliced64 le)) (ascon_kdfa_init (sliced64 le) key custom (sum_list ns)) ns) =
     ascon_kdfa (sliced64 le) key custom (sum_list ns)"
  using snp_laws.kdf_eq[OF sliced64.snp_laws_axioms] snp_laws.kdfa_eq[OF sliced64.snp_laws_axioms]
    snp_laws.kdf_pieces[OF sliced64.snp_laws_axioms] snp_laws.kdfa_pieces[OF sliced64.snp_laws_axioms]
  by (simp only: KDF_NAME_def simp_thms)

section \<open>ASCON-PRF and ASCON-MAC\<close>

text \<open>ASCON-PRF with an arbitrary or a fixed output length gives the keyed sponge of the specification
  with blocks of 32 bytes in and 16 bytes out, however the input and the output are cut.\<close>

theorem prf_output:
  assumes "length key = 16"
  shows "snd (pull (ascon_prf_squeeze (sliced64 le))
      (foldl (ascon_prf_absorb (sliced64 le)) (ascon_prf_fixed_init (sliced64 le) key outlen) ms) ns) =
    spec_prf key (if outlen \<ge> 2 ^ 29 then 0 else outlen) (concat ms) (sum_list ns) \<and>
    ascon_prf (sliced64 le) outlen (concat ms) key = spec_prf key 0 (concat ms) outlen"
  using snp_laws.prf_pieces[OF sliced64.snp_laws_axioms assms]
    snp_laws.prf_one_shot(1)[OF sliced64.snp_laws_axioms assms] by blast

lemma prf_output_witness:
  "ascon_prf (sliced64 True) 20 ([1, 2] @ [3]) (replicate 16 7) = spec_prf (replicate 16 7) 0 [1, 2, 3] 20"
  using prf_output[of "replicate 16 7" True 20 "[[1, 2], [3]]" "[20]"] by simp

text \<open>Property C20. \<open>ascon_mac_verify\<close> accepts, with result 0, exactly the tag that \<open>ascon_mac\<close> computes for the same key
  and input, and gives -1 for every other one.\<close>

theorem mac_verify_accepts:
  assumes "length key = 16" "length tag = 16"
  shows "ascon_mac_verify (sliced64 le) tag m key = (if tag = ascon_mac (sliced64 le) m key then 0 else -1)"
  by (simp add: snp_laws.mac_verify_eq[OF sliced64.snp_laws_axioms assms]
      snp_laws.prf_one_shot(3)[OF sliced64.snp_laws_axioms assms(1)])

lemma mac_verify_accepts_witness:
  "ascon_mac_verify (sliced64 True) (ascon_mac (sliced64 True) [1] (replicate 16 2)) [1] (replicate 16 2) = 0"
proof -
  have "length (ascon_mac (sliced64 True) [1] (replicate 16 2)) = 16"
    by (simp add: snp_laws.prf_one_shot(3)[OF sliced64.snp_laws_axioms] spec_prf_def length_spec_squeeze Let_def)
  then show ?thesis using mac_verify_accepts[of "replicate 16 2"] by simp
qed

text \<open>\<open>ascon_prf_short\<close> rejects inputs and output lengths of more than 16 bytes with -1, without writing,
  and gives the single-permutation function of the specification otherwise.\<close>

theorem prf_short_result:
  assumes "length key = 16"
  shows "ascon_prf_short (sliced64 le) n m key =
    (if length m \<le> 16 \<and> n \<le> 16 then (0, Some (spec_prf_short key m n)) else (-1, None))"
  by (rule snp_laws.prf_short_eq[OF sliced64.snp_laws_axioms assms])

lemma prf_short_result_witness:
  "ascon_prf_short (sliced64 True) 17 [1] (replicate 16 2) = (-1, None)"
  using prf_short_result[of "replicate 16 2" True 17 "[1]"] by simp

section \<open>Password hashing\<close>

text \<open>Property C21. Both password hashing functions are the PBKDF2 of RFC 8018, one over the customised ASCON-XOF with
  the password as customisation string, the other over ASCON-HMAC, for every length and count.\<close>

theorem pbkdf2_rfc8018:
  "ascon_pbkdf2 (sliced64 le) stack n password salt count =
     spec_pbkdf2 (\<lambda>x. spec_cxof 0 0x00400c0000000000 (map of_char ''PBKDF2'') password 32 x 32) salt count n \<and>
   ascon_pbkdf2_hmac (sliced64 le) n password salt count =
     spec_pbkdf2 (spec_hmac spec_hash password) salt count n"
  using snp_laws.pbkdf2_eq[OF sliced64.snp_laws_axioms]
    mac_laws.pbkdf2_hmac_eq[OF snp_laws.hmac_mac_laws[OF sliced64.snp_laws_axioms]]
  by (simp add: ascon_pbkdf2_hmac_def pbkdf2_prf_def[abs_def] PBKDF2_NAME_def)

end
