(* ===== verification/Stream_Crypt.thy ===== *)
theory Stream_Crypt
  imports Sponge_Spec Aead_OneShot
begin

text \<open>
  Output feedback encryption, the shape of \<open>ascon_siv_encrypt_8\<close>, \<open>ascon_siv_encrypt_16\<close> and the
  payload loop of ISAP: permute the state, XOR the first bytes of it with the input, go on with the
  next block.  The state never takes any input, so the same function decrypts.
\<close>

function stream_crypt ::
  "nat \<Rightarrow> ('s \<Rightarrow> bytes \<Rightarrow> nat \<Rightarrow> bytes) \<Rightarrow> ('s \<Rightarrow> 's) \<Rightarrow> 's \<Rightarrow> bytes \<Rightarrow> 's \<times> bytes" where
  "stream_crypt R out perm s src =
     (if 0 < R \<and> R \<le> length src then
        let s = perm s; dest = out s src R; (s, rest) = stream_crypt R out perm s (drop R src)
        in (s, dest @ rest)
      else if length src > 0 then let s = perm s in (s, out s src (length src))
      else (s, []))"
  by pat_completeness auto
termination by (relation "measure (\<lambda>(R, out, perm, s, src). length src)") auto

declare stream_crypt.simps [simp del]

text \<open>The specification: the input and the key stream.\<close>

definition spec_stream :: "nat \<Rightarrow> u8 \<Rightarrow> bytes \<Rightarrow> bytes \<Rightarrow> bytes" where
  "spec_stream R fr b m =
     (let f = (\<lambda>b. permute_bytes b fr) in xor_bytes (spec_squeeze R f (f b) (length m)) m)"

lemma length_spec_stream: "\<lbrakk>0 < R; R \<le> 40\<rbrakk> \<Longrightarrow> length (spec_stream R fr b m) = length m"
  by (simp add: spec_stream_def length_spec_squeeze Let_def)

lemma spec_stream_twice:
  assumes "0 < R" "R \<le> 40"
  shows "spec_stream R fr b (spec_stream R fr b m) = m"
  unfolding spec_stream_def Let_def
  by (simp add: assms length_spec_squeeze xor_bytes_cancel)

locale stream_laws =
  fixes rep :: "'s \<Rightarrow> bytes \<Rightarrow> bool" and f :: "bytes \<Rightarrow> bytes" and R :: nat
    and out :: "'s \<Rightarrow> bytes \<Rightarrow> nat \<Rightarrow> bytes" and perm :: "'s \<Rightarrow> 's"
  assumes rate: "0 < R" "R \<le> 40"
    and size: "rep s b \<Longrightarrow> length b = 40"
    and out_rep: "\<lbrakk>rep s b; n \<le> R; n \<le> length src\<rbrakk> \<Longrightarrow> out s src n = xor_bytes (get_at b 0 n) (take n src)"
    and perm_rep: "rep s b \<Longrightarrow> rep (perm s) (f b)"
begin

lemma stream_crypt_rep:
  assumes "rep s b"
  shows "snd (stream_crypt R out perm s src) = xor_bytes (spec_squeeze R f (f b) (length src)) src \<and>
    (\<exists>b'. rep (fst (stream_crypt R out perm s src)) b')"
  using assms
proof (induction "length src" arbitrary: s b src rule: less_induct)
  case less
  have r: "rep (perm s) (f b)" using less.prems by (rule perm_rep)
  consider "R < length src" | "R = length src" | "length src < R" by linarith
  then show ?case
  proof cases
    case 1
    then have "length (drop R src) < length src" using rate by simp
    note IH = less.hyps[OF this r]
    have "xor_bytes (get_at (f b) 0 R @ spec_squeeze R f (f (f b)) (length src - R)) (take R src @ drop R src) =
        xor_bytes (get_at (f b) 0 R) (take R src) @ xor_bytes (spec_squeeze R f (f (f b)) (length src - R)) (drop R src)"
      using 1 size[OF r] rate by (intro xor_bytes_append) simp
    with 1 rate IH out_rep[OF r, of R src] show ?thesis
      by (simp add: stream_crypt.simps[of R out perm s src] spec_squeeze.simps[of R f "f b"] case_prod_beta Let_def)
  next
    case 2
    have "stream_crypt R out perm s src = (perm s, out (perm s) src R)"
      using 2 rate by (subst stream_crypt.simps) (simp add: stream_crypt.simps[of _ out perm _ "[]"] Let_def)
    moreover have "spec_squeeze R f (f b) (length src) = get_at (f b) 0 R"
      using 2 by (subst spec_squeeze.simps) simp
    ultimately show ?thesis using 2 r out_rep[OF r, of R src] by auto
  next
    case 3
    with rate out_rep[OF r, of "length src" src] r less.prems show ?thesis
      by (auto simp: stream_crypt.simps[of R out perm s src] spec_squeeze.simps[of R f "f b"] Let_def)
  qed
qed

end

text \<open>The two extractors.\<close>

sublocale snp_laws \<subseteq> stream_8: stream_laws rep "\<lambda>b. permute_bytes b fr" 8
    "\<lambda>s src n. lw_xor_block_2_src (snp_squeeze_8 B s 0) src n" "\<lambda>s. snp_permute B s fr" for fr
  by unfold_locales (simp_all add: rep_length rep_squeeze_8 rep_permute lw_xor_block_2_src_eq get_at_def min_absorb1)

sublocale snp_laws \<subseteq> stream_16: stream_laws rep "\<lambda>b. permute_bytes b fr" 16
    "\<lambda>s src n. lw_xor_block_2_src (snp_squeeze_16 B s 0) src n" "\<lambda>s. snp_permute B s fr" for fr
  by unfold_locales (simp_all add: rep_length rep_squeeze_16 rep_permute lw_xor_block_2_src_eq get_at_def min_absorb1)

sublocale snp_laws \<subseteq> stream_add: stream_laws rep "\<lambda>b. permute_bytes b fr" 8
    "\<lambda>s src n. snp_extract_and_add_bytes B s src 0 n" "\<lambda>s. snp_permute B s fr" for fr
  by unfold_locales (simp_all add: rep_length rep_extract_add rep_permute)

end
