(* ===== verification/Siv.thy ===== *)
theory Siv
  imports Stream_Crypt
begin

text \<open>
  \<open>siv/ascon-siv-128.c\<close>, \<open>ascon-siv-128a.c\<close> and \<open>ascon-siv-80pq.c\<close>: authenticated encryption with a
  synthetic initialisation vector.  The tag is computed over the associated data and the
  plaintext and serves as the nonce of an output-feedback encryption.  Lengths of keys, nonces and
  tags are as in \<open>Aead_OneShot\<close>.
\<close>

section \<open>The specification\<close>

definition spec_siv_tag :: "bytes \<Rightarrow> nat \<Rightarrow> u8 \<Rightarrow> bytes \<Rightarrow> bytes \<Rightarrow> bytes \<Rightarrow> bytes \<Rightarrow> bytes" where
  "spec_siv_tag iv R fr k npub ad m =
     spec_aead_tag R k (fst (run (machine absorb_effect R fr) (spec_aead_start iv R fr k npub ad, 0) m))"

definition spec_siv_stream :: "bytes \<Rightarrow> nat \<Rightarrow> u8 \<Rightarrow> bytes \<Rightarrow> bytes \<Rightarrow> bytes \<Rightarrow> bytes" where
  "spec_siv_stream iv R fr k tag m =
     spec_stream R fr (xor_at (permute_bytes (iv @ k @ tag) 0) (40 - length k) k) m"

definition spec_siv_encrypt ::
  "bytes \<Rightarrow> bytes \<Rightarrow> nat \<Rightarrow> u8 \<Rightarrow> bytes \<Rightarrow> bytes \<Rightarrow> bytes \<Rightarrow> bytes \<Rightarrow> bytes" where
  "spec_siv_encrypt iv1 iv2 R fr k npub ad m =
     (let tag = spec_siv_tag iv1 R fr k npub ad m in spec_siv_stream iv2 R fr k tag m @ tag)"

definition spec_siv_decrypt ::
  "bytes \<Rightarrow> bytes \<Rightarrow> nat \<Rightarrow> u8 \<Rightarrow> bytes \<Rightarrow> bytes \<Rightarrow> bytes \<Rightarrow> bytes \<Rightarrow> bytes option" where
  "spec_siv_decrypt iv1 iv2 R fr k npub ad c =
     (if length c < 16 then None
      else
        let mlen = length c - 16; tag = drop mlen c; m = spec_siv_stream iv2 R fr k tag (take mlen c)
        in if spec_siv_tag iv1 R fr k npub ad m = tag then Some m else None)"

lemma length_spec_siv_tag: "length (spec_siv_tag iv R fr k npub ad m) = 16"
  by (simp add: spec_siv_tag_def length_spec_tag)

lemma length_spec_siv_stream: "\<lbrakk>0 < R; R \<le> 40\<rbrakk> \<Longrightarrow> length (spec_siv_stream iv R fr k tag m) = length m"
  by (simp add: spec_siv_stream_def length_spec_stream)

lemma spec_siv_decrypt_iff:
  assumes "0 < R" "R \<le> 40"
  shows "spec_siv_decrypt iv1 iv2 R fr k npub ad c = Some m \<longleftrightarrow> c = spec_siv_encrypt iv1 iv2 R fr k npub ad m"
proof
  note twice = spec_stream_twice[OF assms] and len = length_spec_siv_stream[OF assms] length_spec_siv_tag
  show "spec_siv_decrypt iv1 iv2 R fr k npub ad c = Some m"
    if "c = spec_siv_encrypt iv1 iv2 R fr k npub ad m"
    using twice that by (simp add: spec_siv_decrypt_def spec_siv_encrypt_def len Let_def spec_siv_stream_def)
  assume "spec_siv_decrypt iv1 iv2 R fr k npub ad c = Some m"
  then have *: "\<not> length c < 16" "m = spec_siv_stream iv2 R fr k (drop (length c - 16) c) (take (length c - 16) c)"
    "spec_siv_tag iv1 R fr k npub ad m = drop (length c - 16) c"
    by (auto simp: spec_siv_decrypt_def Let_def split: if_splits)
  then have "spec_siv_encrypt iv1 iv2 R fr k npub ad m = take (length c - 16) c @ drop (length c - 16) c"
    using twice by (simp add: spec_siv_encrypt_def Let_def spec_siv_stream_def)
  then show "c = spec_siv_encrypt iv1 iv2 R fr k npub ad m" by simp
qed

section \<open>The code\<close>

definition ASCON128_IV1 :: bytes where "ASCON128_IV1 = [0x81, 0x40, 0x0c, 0x06, 0x00, 0x00, 0x00, 0x00]"

definition ASCON128_IV2 :: bytes where "ASCON128_IV2 = [0x82, 0x40, 0x0c, 0x06, 0x00, 0x00, 0x00, 0x00]"

definition ascon128_siv_init :: "'s snp \<Rightarrow> bytes \<Rightarrow> bytes \<Rightarrow> bytes \<Rightarrow> 's" where
  "ascon128_siv_init B npub k iv =
     (let s = snp_init B;
          s = snp_overwrite_bytes B s iv 0 8;
          s = snp_overwrite_bytes B s k 8 16;
          s = snp_overwrite_bytes B s npub 24 16;
          s = snp_permute B s 0
      in snp_absorb_16 B s k 24)"

definition ascon_siv_encrypt_8 :: "'s snp \<Rightarrow> 's \<Rightarrow> bytes \<Rightarrow> u8 \<Rightarrow> 's \<times> bytes" where
  "ascon_siv_encrypt_8 B s src first_round =
     stream_crypt 8 (\<lambda>s src n. lw_xor_block_2_src (snp_squeeze_8 B s 0) src n)
       (\<lambda>s. snp_permute B s first_round) s src"

text \<open>The authentication phase, the same statements in the encrypting and the decrypting function.\<close>

definition ascon128_siv_mac :: "'s snp \<Rightarrow> bytes \<Rightarrow> bytes \<Rightarrow> bytes \<Rightarrow> bytes \<Rightarrow> bytes" where
  "ascon128_siv_mac B m ad npub k =
     (let s = ascon128_siv_init B npub k ASCON128_IV1;
          s = (if length ad > 0 then ascon_aead_absorb_8 B s ad 6 True else s);
          s = snp_separator B s;
          s = ascon_aead_absorb_8 B s m 6 False;
          s = snp_absorb_16 B s k 8;
          s = snp_permute B s 0;
          s = snp_absorb_16 B s k 24
      in snp_squeeze_16 B s 24)"

definition ascon128_siv_encrypt :: "'s snp \<Rightarrow> bytes \<Rightarrow> bytes \<Rightarrow> bytes \<Rightarrow> bytes \<Rightarrow> bytes" where
  "ascon128_siv_encrypt B m ad npub k =
     (let tag = ascon128_siv_mac B m ad npub k;
          s = ascon128_siv_init B tag k ASCON128_IV2;
          (s, c) = ascon_siv_encrypt_8 B s m 6
      in c @ tag)"

definition ascon128_siv_decrypt ::
  "'s snp \<Rightarrow> bytes \<Rightarrow> bytes \<Rightarrow> bytes \<Rightarrow> bytes \<Rightarrow> int \<times> bytes option" where
  "ascon128_siv_decrypt B c ad npub k =
     (if length c < 16 then (-1, None)
      else let clen = length c - 16;
               s = ascon128_siv_init B (drop clen c) k ASCON128_IV2;
               (s, m) = ascon_siv_encrypt_8 B s (take clen c) 6;
               tag = ascon128_siv_mac B m ad npub k;
               (result, m) = ascon_aead_check_tag m tag (drop clen c) 16
           in (result, Some m))"

definition ASCON128a_IV1 :: bytes where "ASCON128a_IV1 = [0x81, 0x80, 0x0c, 0x08, 0x00, 0x00, 0x00, 0x00]"

definition ASCON128a_IV2 :: bytes where "ASCON128a_IV2 = [0x82, 0x80, 0x0c, 0x08, 0x00, 0x00, 0x00, 0x00]"

definition ascon128a_siv_init :: "'s snp \<Rightarrow> bytes \<Rightarrow> bytes \<Rightarrow> bytes \<Rightarrow> 's" where
  "ascon128a_siv_init B npub k iv =
     (let s = snp_init B;
          s = snp_overwrite_bytes B s iv 0 8;
          s = snp_overwrite_bytes B s k 8 16;
          s = snp_overwrite_bytes B s npub 24 16;
          s = snp_permute B s 0
      in snp_absorb_16 B s k 24)"

definition ascon_siv_encrypt_16 :: "'s snp \<Rightarrow> 's \<Rightarrow> bytes \<Rightarrow> u8 \<Rightarrow> 's \<times> bytes" where
  "ascon_siv_encrypt_16 B s src first_round =
     stream_crypt 16 (\<lambda>s src n. lw_xor_block_2_src (snp_squeeze_16 B s 0) src n)
       (\<lambda>s. snp_permute B s first_round) s src"

text \<open>The authentication phase, the same statements in the encrypting and the decrypting function.\<close>

definition ascon128a_siv_mac :: "'s snp \<Rightarrow> bytes \<Rightarrow> bytes \<Rightarrow> bytes \<Rightarrow> bytes \<Rightarrow> bytes" where
  "ascon128a_siv_mac B m ad npub k =
     (let s = ascon128a_siv_init B npub k ASCON128a_IV1;
          s = (if length ad > 0 then ascon_aead_absorb_16 B s ad 4 True else s);
          s = snp_separator B s;
          s = ascon_aead_absorb_16 B s m 4 False;
          s = snp_absorb_16 B s k 16;
          s = snp_permute B s 0;
          s = snp_absorb_16 B s k 24
      in snp_squeeze_16 B s 24)"

definition ascon128a_siv_encrypt :: "'s snp \<Rightarrow> bytes \<Rightarrow> bytes \<Rightarrow> bytes \<Rightarrow> bytes \<Rightarrow> bytes" where
  "ascon128a_siv_encrypt B m ad npub k =
     (let tag = ascon128a_siv_mac B m ad npub k;
          s = ascon128a_siv_init B tag k ASCON128a_IV2;
          (s, c) = ascon_siv_encrypt_16 B s m 4
      in c @ tag)"

definition ascon128a_siv_decrypt ::
  "'s snp \<Rightarrow> bytes \<Rightarrow> bytes \<Rightarrow> bytes \<Rightarrow> bytes \<Rightarrow> int \<times> bytes option" where
  "ascon128a_siv_decrypt B c ad npub k =
     (if length c < 16 then (-1, None)
      else let clen = length c - 16;
               s = ascon128a_siv_init B (drop clen c) k ASCON128a_IV2;
               (s, m) = ascon_siv_encrypt_16 B s (take clen c) 4;
               tag = ascon128a_siv_mac B m ad npub k;
               (result, m) = ascon_aead_check_tag m tag (drop clen c) 16
           in (result, Some m))"

definition ASCON80PQ_IV1 :: bytes where "ASCON80PQ_IV1 = [0xa1, 0x40, 0x0c, 0x06]"

definition ASCON80PQ_IV2 :: bytes where "ASCON80PQ_IV2 = [0xa2, 0x40, 0x0c, 0x06]"

definition ascon80pq_siv_init :: "'s snp \<Rightarrow> bytes \<Rightarrow> bytes \<Rightarrow> bytes \<Rightarrow> 's" where
  "ascon80pq_siv_init B npub k iv =
     (let s = snp_init B;
          s = snp_overwrite_bytes B s iv 0 4;
          s = snp_overwrite_bytes B s k 4 20;
          s = snp_overwrite_bytes B s npub 24 16;
          s = snp_permute B s 0
      in snp_absorb_partial B s k 20 20)"

definition ascon_siv_encrypt_8_80pq :: "'s snp \<Rightarrow> 's \<Rightarrow> bytes \<Rightarrow> u8 \<Rightarrow> 's \<times> bytes" where
  "ascon_siv_encrypt_8_80pq B s src first_round =
     stream_crypt 8 (\<lambda>s src n. lw_xor_block_2_src (snp_squeeze_8 B s 0) src n)
       (\<lambda>s. snp_permute B s first_round) s src"

text \<open>The authentication phase, the same statements in the encrypting and the decrypting function.\<close>

definition ascon80pq_siv_mac :: "'s snp \<Rightarrow> bytes \<Rightarrow> bytes \<Rightarrow> bytes \<Rightarrow> bytes \<Rightarrow> bytes" where
  "ascon80pq_siv_mac B m ad npub k =
     (let s = ascon80pq_siv_init B npub k ASCON80PQ_IV1;
          s = (if length ad > 0 then ascon_aead_absorb_8 B s ad 6 True else s);
          s = snp_separator B s;
          s = ascon_aead_absorb_8 B s m 6 False;
          s = snp_absorb_partial B s k 8 20;
          s = snp_permute B s 0;
          s = snp_absorb_16 B s (drop 4 k) 24
      in snp_squeeze_16 B s 24)"

definition ascon80pq_siv_encrypt :: "'s snp \<Rightarrow> bytes \<Rightarrow> bytes \<Rightarrow> bytes \<Rightarrow> bytes \<Rightarrow> bytes" where
  "ascon80pq_siv_encrypt B m ad npub k =
     (let tag = ascon80pq_siv_mac B m ad npub k;
          s = ascon80pq_siv_init B tag k ASCON80PQ_IV2;
          (s, c) = ascon_siv_encrypt_8_80pq B s m 6
      in c @ tag)"

definition ascon80pq_siv_decrypt ::
  "'s snp \<Rightarrow> bytes \<Rightarrow> bytes \<Rightarrow> bytes \<Rightarrow> bytes \<Rightarrow> int \<times> bytes option" where
  "ascon80pq_siv_decrypt B c ad npub k =
     (if length c < 16 then (-1, None)
      else let clen = length c - 16;
               s = ascon80pq_siv_init B (drop clen c) k ASCON80PQ_IV2;
               (s, m) = ascon_siv_encrypt_8_80pq B s (take clen c) 6;
               tag = ascon80pq_siv_mac B m ad npub k;
               (result, m) = ascon_aead_check_tag m tag (drop clen c) 16
           in (result, Some m))"

section \<open>The code computes the construction\<close>

context snp_laws
begin

lemma absorb_8_pad_run: "rep s b \<Longrightarrow> rep (ascon_aead_absorb_8 B s m fr False) (spec_absorb 8 fr b m)"
  using absorb_8.loop_tail_run[of s b fr m]
  by (fastforce simp: ascon_aead_absorb_8_def spec_absorb_def machine_def Let_def intro!: rep_pad split: if_splits)

lemma absorb_16_pad_run: "rep s b \<Longrightarrow> rep (ascon_aead_absorb_16 B s m fr False) (spec_absorb 16 fr b m)"
  using absorb_16.loop_tail_run[of s b fr m]
  by (fastforce simp: ascon_aead_absorb_16_def spec_absorb_def machine_def Let_def intro!: rep_pad split: if_splits)

end

lemma length_ascon128_siv_iv [simp]: "length ASCON128_IV1 = 8" "length ASCON128_IV2 = 8"
  by (simp_all add: ASCON128_IV1_def ASCON128_IV2_def)

context snp_laws
begin

lemma ascon128_siv_init_rep:
  assumes "length k = 16" "16 \<le> length npub" "length iv = 8"
  shows "rep (ascon128_siv_init B npub k iv) (xor_at (permute_bytes (iv @ k @ take 16 npub) 0) (40 - length k) k)"
proof -
  let ?s1 = "snp_overwrite_bytes B (snp_overwrite_bytes B (snp_overwrite_bytes B (snp_init B) iv 0 8) k 8 16) npub 24 16"
  have "rep ?s1 (put_at (put_at (put_at (zeros 40) 0 iv) 8 k) 24 (take 16 npub))"
    using rep_overwrite[OF rep_overwrite[OF rep_overwrite[OF rep_init, of 8 iv 0],
        of 16 k 8], of 16 npub 24] assms
    by simp
  then have 1: "rep ?s1 (iv @ k @ take 16 npub)"
    using put_three[of "zeros 40" iv k "take 16 npub"] assms by simp
  show ?thesis
    using rep_absorb_16[OF rep_permute[OF 1], of k 24 0] assms
    by (simp add: ascon128_siv_init_def Let_def)
qed

lemma ascon128_siv_mac_eq:
  assumes "length k = 16" "length npub = 16"
  shows "ascon128_siv_mac B m ad npub k = spec_siv_tag ASCON128_IV1 8 6 k npub ad m"
proof -
  let ?s = "ascon128_siv_init B npub k ASCON128_IV1"
  have 1: "rep ?s (xor_at (permute_bytes (ASCON128_IV1 @ k @ npub) 0) (40 - length k) k)"
    using ascon128_siv_init_rep[of k npub ASCON128_IV1] assms by simp
  have 2: "rep (snp_separator B (if length ad > 0 then ascon_aead_absorb_8 B ?s ad 6 True else ?s))
      (spec_aead_start ASCON128_IV1 8 6 k npub ad)"
    using rep_separator[OF 1] rep_separator[OF absorb_8_run[OF 1, where ad = ad and fr = 6]]
    by (simp add: spec_aead_start_def Let_def)
  let ?r = "run (machine absorb_effect 8 6) (spec_aead_start ASCON128_IV1 8 6 k npub ad, 0) m"
  obtain b p where r: "fst ?r = (b, p)" by (metis prod.exhaust)
  let ?s2 = "ascon_aead_absorb_8 B (snp_separator B (if length ad > 0 then ascon_aead_absorb_8 B ?s ad 6 True else ?s)) m 6 False"
  have pad: "spec_absorb 8 6 (spec_aead_start ASCON128_IV1 8 6 k npub ad) m = xor_at b p [0x80]"
    using r by (auto simp: spec_absorb_def split: prod.splits)
  have "rep ?s2 (xor_at b p [0x80])"
    by (rule absorb_8_pad_run[OF 2, of m 6, unfolded pad])
  from rep_squeeze_16[OF rep_absorb_16[OF rep_permute[OF rep_absorb_16[OF this, of k 8]], of k 24 0], of 24] assms
  show ?thesis
    by (simp add: ascon128_siv_mac_def spec_siv_tag_def r spec_aead_tag_def Let_def)
qed

lemma ascon128_siv_stream_eq:
  assumes "length k = 16" "length tag = 16"
  shows "snd (ascon_siv_encrypt_8 B (ascon128_siv_init B tag k ASCON128_IV2) m 6) = spec_siv_stream ASCON128_IV2 8 6 k tag m"
  using stream_8.stream_crypt_rep[OF ascon128_siv_init_rep[of k tag ASCON128_IV2], of 6 m] assms
  by (simp add: ascon_siv_encrypt_8_def spec_siv_stream_def spec_stream_def Let_def)

lemma ascon128_siv_encrypt_spec:
  assumes "length k = 16" "length npub = 16"
  shows "ascon128_siv_encrypt B m ad npub k = spec_siv_encrypt ASCON128_IV1 ASCON128_IV2 8 6 k npub ad m"
  using ascon128_siv_stream_eq[OF assms(1) length_spec_siv_tag] ascon128_siv_mac_eq[OF assms]
  by (simp add: ascon128_siv_encrypt_def spec_siv_encrypt_def case_prod_beta Let_def)

lemma ascon128_siv_decrypt_spec:
  assumes "length k = 16" "length npub = 16"
  shows "ascon128_siv_decrypt B c ad npub k =
    (if length c < 16 then (-1, None)
     else case spec_siv_decrypt ASCON128_IV1 ASCON128_IV2 8 6 k npub ad c of
            Some m \<Rightarrow> (0, Some m) | None \<Rightarrow> (-1, Some (zeros (length c - 16))))"
proof (cases "length c < 16")
  case False
  then have "length (drop (length c - 16) c) = 16" by simp
  from ascon128_siv_stream_eq[OF assms(1) this, of "take (length c - 16) c"] False ascon128_siv_mac_eq[OF assms]
  show ?thesis
    by (simp add: ascon128_siv_decrypt_def spec_siv_decrypt_def case_prod_beta Let_def check_tag_eq
        length_spec_siv_tag length_spec_siv_stream)
qed (simp add: ascon128_siv_decrypt_def)

end

lemma length_ascon128a_siv_iv [simp]: "length ASCON128a_IV1 = 8" "length ASCON128a_IV2 = 8"
  by (simp_all add: ASCON128a_IV1_def ASCON128a_IV2_def)

context snp_laws
begin

lemma ascon128a_siv_init_rep:
  assumes "length k = 16" "16 \<le> length npub" "length iv = 8"
  shows "rep (ascon128a_siv_init B npub k iv) (xor_at (permute_bytes (iv @ k @ take 16 npub) 0) (40 - length k) k)"
proof -
  let ?s1 = "snp_overwrite_bytes B (snp_overwrite_bytes B (snp_overwrite_bytes B (snp_init B) iv 0 8) k 8 16) npub 24 16"
  have "rep ?s1 (put_at (put_at (put_at (zeros 40) 0 iv) 8 k) 24 (take 16 npub))"
    using rep_overwrite[OF rep_overwrite[OF rep_overwrite[OF rep_init, of 8 iv 0],
        of 16 k 8], of 16 npub 24] assms
    by simp
  then have 1: "rep ?s1 (iv @ k @ take 16 npub)"
    using put_three[of "zeros 40" iv k "take 16 npub"] assms by simp
  show ?thesis
    using rep_absorb_16[OF rep_permute[OF 1], of k 24 0] assms
    by (simp add: ascon128a_siv_init_def Let_def)
qed

lemma ascon128a_siv_mac_eq:
  assumes "length k = 16" "length npub = 16"
  shows "ascon128a_siv_mac B m ad npub k = spec_siv_tag ASCON128a_IV1 16 4 k npub ad m"
proof -
  let ?s = "ascon128a_siv_init B npub k ASCON128a_IV1"
  have 1: "rep ?s (xor_at (permute_bytes (ASCON128a_IV1 @ k @ npub) 0) (40 - length k) k)"
    using ascon128a_siv_init_rep[of k npub ASCON128a_IV1] assms by simp
  have 2: "rep (snp_separator B (if length ad > 0 then ascon_aead_absorb_16 B ?s ad 4 True else ?s))
      (spec_aead_start ASCON128a_IV1 16 4 k npub ad)"
    using rep_separator[OF 1] rep_separator[OF absorb_16_run[OF 1, where ad = ad and fr = 4]]
    by (simp add: spec_aead_start_def Let_def)
  let ?r = "run (machine absorb_effect 16 4) (spec_aead_start ASCON128a_IV1 16 4 k npub ad, 0) m"
  obtain b p where r: "fst ?r = (b, p)" by (metis prod.exhaust)
  let ?s2 = "ascon_aead_absorb_16 B (snp_separator B (if length ad > 0 then ascon_aead_absorb_16 B ?s ad 4 True else ?s)) m 4 False"
  have pad: "spec_absorb 16 4 (spec_aead_start ASCON128a_IV1 16 4 k npub ad) m = xor_at b p [0x80]"
    using r by (auto simp: spec_absorb_def split: prod.splits)
  have "rep ?s2 (xor_at b p [0x80])"
    by (rule absorb_16_pad_run[OF 2, of m 4, unfolded pad])
  from rep_squeeze_16[OF rep_absorb_16[OF rep_permute[OF rep_absorb_16[OF this, of k 16]], of k 24 0], of 24] assms
  show ?thesis
    by (simp add: ascon128a_siv_mac_def spec_siv_tag_def r spec_aead_tag_def Let_def)
qed

lemma ascon128a_siv_stream_eq:
  assumes "length k = 16" "length tag = 16"
  shows "snd (ascon_siv_encrypt_16 B (ascon128a_siv_init B tag k ASCON128a_IV2) m 4) = spec_siv_stream ASCON128a_IV2 16 4 k tag m"
  using stream_16.stream_crypt_rep[OF ascon128a_siv_init_rep[of k tag ASCON128a_IV2], of 4 m] assms
  by (simp add: ascon_siv_encrypt_16_def spec_siv_stream_def spec_stream_def Let_def)

lemma ascon128a_siv_encrypt_spec:
  assumes "length k = 16" "length npub = 16"
  shows "ascon128a_siv_encrypt B m ad npub k = spec_siv_encrypt ASCON128a_IV1 ASCON128a_IV2 16 4 k npub ad m"
  using ascon128a_siv_stream_eq[OF assms(1) length_spec_siv_tag] ascon128a_siv_mac_eq[OF assms]
  by (simp add: ascon128a_siv_encrypt_def spec_siv_encrypt_def case_prod_beta Let_def)

lemma ascon128a_siv_decrypt_spec:
  assumes "length k = 16" "length npub = 16"
  shows "ascon128a_siv_decrypt B c ad npub k =
    (if length c < 16 then (-1, None)
     else case spec_siv_decrypt ASCON128a_IV1 ASCON128a_IV2 16 4 k npub ad c of
            Some m \<Rightarrow> (0, Some m) | None \<Rightarrow> (-1, Some (zeros (length c - 16))))"
proof (cases "length c < 16")
  case False
  then have "length (drop (length c - 16) c) = 16" by simp
  from ascon128a_siv_stream_eq[OF assms(1) this, of "take (length c - 16) c"] False ascon128a_siv_mac_eq[OF assms]
  show ?thesis
    by (simp add: ascon128a_siv_decrypt_def spec_siv_decrypt_def case_prod_beta Let_def check_tag_eq
        length_spec_siv_tag length_spec_siv_stream)
qed (simp add: ascon128a_siv_decrypt_def)

end

lemma length_ascon80pq_siv_iv [simp]: "length ASCON80PQ_IV1 = 4" "length ASCON80PQ_IV2 = 4"
  by (simp_all add: ASCON80PQ_IV1_def ASCON80PQ_IV2_def)

context snp_laws
begin

lemma ascon80pq_siv_init_rep:
  assumes "length k = 20" "16 \<le> length npub" "length iv = 4"
  shows "rep (ascon80pq_siv_init B npub k iv) (xor_at (permute_bytes (iv @ k @ take 16 npub) 0) (40 - length k) k)"
proof -
  let ?s1 = "snp_overwrite_bytes B (snp_overwrite_bytes B (snp_overwrite_bytes B (snp_init B) iv 0 4) k 4 20) npub 24 16"
  have "rep ?s1 (put_at (put_at (put_at (zeros 40) 0 iv) 4 k) 24 (take 16 npub))"
    using rep_overwrite[OF rep_overwrite[OF rep_overwrite[OF rep_init, of 4 iv 0],
        of 20 k 4], of 16 npub 24] assms
    by simp
  then have 1: "rep ?s1 (iv @ k @ take 16 npub)"
    using put_three[of "zeros 40" iv k "take 16 npub"] assms by simp
  show ?thesis
    using rep_absorb_partial[OF rep_permute[OF 1], of 20 k 20 0] assms
    by (simp add: ascon80pq_siv_init_def Let_def)
qed

lemma ascon80pq_siv_mac_eq:
  assumes "length k = 20" "length npub = 16"
  shows "ascon80pq_siv_mac B m ad npub k = spec_siv_tag ASCON80PQ_IV1 8 6 k npub ad m"
proof -
  let ?s = "ascon80pq_siv_init B npub k ASCON80PQ_IV1"
  have 1: "rep ?s (xor_at (permute_bytes (ASCON80PQ_IV1 @ k @ npub) 0) (40 - length k) k)"
    using ascon80pq_siv_init_rep[of k npub ASCON80PQ_IV1] assms by simp
  have 2: "rep (snp_separator B (if length ad > 0 then ascon_aead_absorb_8 B ?s ad 6 True else ?s))
      (spec_aead_start ASCON80PQ_IV1 8 6 k npub ad)"
    using rep_separator[OF 1] rep_separator[OF absorb_8_run[OF 1, where ad = ad and fr = 6]]
    by (simp add: spec_aead_start_def Let_def)
  let ?r = "run (machine absorb_effect 8 6) (spec_aead_start ASCON80PQ_IV1 8 6 k npub ad, 0) m"
  obtain b p where r: "fst ?r = (b, p)" by (metis prod.exhaust)
  let ?s2 = "ascon_aead_absorb_8 B (snp_separator B (if length ad > 0 then ascon_aead_absorb_8 B ?s ad 6 True else ?s)) m 6 False"
  have pad: "spec_absorb 8 6 (spec_aead_start ASCON80PQ_IV1 8 6 k npub ad) m = xor_at b p [0x80]"
    using r by (auto simp: spec_absorb_def split: prod.splits)
  have "rep ?s2 (xor_at b p [0x80])"
    by (rule absorb_8_pad_run[OF 2, of m 6, unfolded pad])
  from rep_squeeze_16[OF rep_absorb_16[OF rep_permute[OF rep_absorb_partial[OF this, of 20 k 8]], of "drop 4 k" 24 0], of 24] assms
  show ?thesis
    by (simp add: ascon80pq_siv_mac_def spec_siv_tag_def r spec_aead_tag_def Let_def)
qed

lemma ascon80pq_siv_stream_eq:
  assumes "length k = 20" "length tag = 16"
  shows "snd (ascon_siv_encrypt_8_80pq B (ascon80pq_siv_init B tag k ASCON80PQ_IV2) m 6) = spec_siv_stream ASCON80PQ_IV2 8 6 k tag m"
  using stream_8.stream_crypt_rep[OF ascon80pq_siv_init_rep[of k tag ASCON80PQ_IV2], of 6 m] assms
  by (simp add: ascon_siv_encrypt_8_80pq_def spec_siv_stream_def spec_stream_def Let_def)

lemma ascon80pq_siv_encrypt_spec:
  assumes "length k = 20" "length npub = 16"
  shows "ascon80pq_siv_encrypt B m ad npub k = spec_siv_encrypt ASCON80PQ_IV1 ASCON80PQ_IV2 8 6 k npub ad m"
  using ascon80pq_siv_stream_eq[OF assms(1) length_spec_siv_tag] ascon80pq_siv_mac_eq[OF assms]
  by (simp add: ascon80pq_siv_encrypt_def spec_siv_encrypt_def case_prod_beta Let_def)

lemma ascon80pq_siv_decrypt_spec:
  assumes "length k = 20" "length npub = 16"
  shows "ascon80pq_siv_decrypt B c ad npub k =
    (if length c < 16 then (-1, None)
     else case spec_siv_decrypt ASCON80PQ_IV1 ASCON80PQ_IV2 8 6 k npub ad c of
            Some m \<Rightarrow> (0, Some m) | None \<Rightarrow> (-1, Some (zeros (length c - 16))))"
proof (cases "length c < 16")
  case False
  then have "length (drop (length c - 16) c) = 16" by simp
  from ascon80pq_siv_stream_eq[OF assms(1) this, of "take (length c - 16) c"] False ascon80pq_siv_mac_eq[OF assms]
  show ?thesis
    by (simp add: ascon80pq_siv_decrypt_def spec_siv_decrypt_def case_prod_beta Let_def check_tag_eq
        length_spec_siv_tag length_spec_siv_stream)
qed (simp add: ascon80pq_siv_decrypt_def)

end

end
