(* ===== verification/Isap.thy ===== *)
theory Isap
  imports Stream_Crypt Snp_Direct_Xor Snp_Sliced32
begin

text \<open>
  \<open>isap/ascon-isap-common.h\<close>, instantiated by \<open>ascon-isap-128.c\<close>, \<open>ascon-isap-128a.c\<close> and
  \<open>ascon-isap-80pq.c\<close>: the leakage-resilient ISAP mode.  The header is a template over sizes and
  numbers of rounds, which are the record \<open>isap_alg\<close> here; the macro \<open>ISAP_ADD_BIT\<close>, which has one
  body per backend, is the argument \<open>add\<close>, and the locale \<open>isap_backend\<close> says what it does to the
  state.
\<close>

section \<open>Adding one bit to the state\<close>

definition direct_xor_add_bit :: "bytes \<Rightarrow> u8 \<Rightarrow> nat \<Rightarrow> bytes" where
  "direct_xor_add_bit B val i = B[0 := B ! 0 XOR (push_bit i val AND 0x80)]"

definition sliced32_add_bit :: "u32 list \<Rightarrow> u8 \<Rightarrow> nat \<Rightarrow> u32 list" where
  "sliced32_add_bit W val i = W[1 := W ! 1 XOR (push_bit (24 + i) (ucast val) AND 0x80000000)]"

definition sliced64_add_bit :: "u64 list \<Rightarrow> u8 \<Rightarrow> nat \<Rightarrow> u64 list" where
  "sliced64_add_bit S val i = S[0 := S ! 0 XOR (push_bit (56 + i) (ucast val) AND 0x8000000000000000)]"

definition generic_add_bit :: "'s snp \<Rightarrow> 's \<Rightarrow> u8 \<Rightarrow> nat \<Rightarrow> 's" where
  "generic_add_bit B s val i =
     (let absorb = push_bit i val AND 0x80 in snp_add_bytes B s [absorb] 0 1)"

locale isap_backend = snp_laws B rep for B :: "'s snp" and rep +
  fixes add :: "'s \<Rightarrow> u8 \<Rightarrow> nat \<Rightarrow> 's"
  assumes rep_add_bit: "\<lbrakk>rep s b; i < 8\<rbrakk> \<Longrightarrow>
    rep (add s v i) (if bit v (7 - i) then xor_at b 0 [0x80] else b)"

lemma top_bit_8: "i < 8 \<Longrightarrow> push_bit i v AND 0x80 = (if bit v (7 - i) then 0x80 else 0 :: u8)"
  by (rule bit_word_eqI) (auto simp: bit_simps bit_top_8)

lemma top_bit_64: "i < 8 \<Longrightarrow>
    push_bit (56 + i) (ucast (v :: u8)) AND 0x8000000000000000 = (if bit v (7 - i) then 0x8000000000000000 else 0 :: u64)"
  by (rule bit_word_eqI) (auto simp: bit_simps bit_top_64)

lemma bit_top_32: "bit (0x80000000 :: int) n \<longleftrightarrow> n = 31"
proof -
  have "(0x80000000 :: int) = 2 ^ 31" by simp
  then show ?thesis using bit_exp_iff[where 'a = int, of 31 n] by auto
qed

lemma top_bit_32: "i < 8 \<Longrightarrow>
    push_bit (24 + i) (ucast (v :: u8)) AND 0x80000000 = (if bit v (7 - i) then 0x80000000 else 0 :: u32)"
  by (rule bit_word_eqI) (auto simp: bit_simps bit_top_32)

interpretation isap_direct_xor: isap_backend direct_xor rep_direct_xor direct_xor_add_bit
proof unfold_locales
  fix s b i and v :: u8
  assume "rep_direct_xor s b" "i < (8::nat)"
  then show "rep_direct_xor (direct_xor_add_bit s v i) (if bit v (7 - i) then xor_at b 0 [0x80] else b)"
    by (simp add: direct_xor_add_bit_def rep_direct_xor_def top_bit_8 xor_at_one)
qed

interpretation isap_sliced64: isap_backend "sliced64 le" rep_sliced64 sliced64_add_bit for le
proof unfold_locales
  fix s b i and v :: u8
  assume r: "rep_sliced64 s b" and i: "i < (8::nat)"
  have "sliced64_add_bit s v i = (if bit v (7 - i) then sliced64_pad s 0 else s)"
    using i by (simp add: sliced64_add_bit_def sliced64_pad_def top_bit_64)
  with sliced64_pad_rep[OF r, of 0] r
  show "rep_sliced64 (sliced64_add_bit s v i) (if bit v (7 - i) then xor_at b 0 [0x80] else b)"
    by simp
qed

interpretation isap_sliced32: isap_backend sliced32 rep_sliced32 sliced32_add_bit
proof unfold_locales
  fix s b i and v :: u8
  assume r: "rep_sliced32 s b" and i: "i < (8::nat)"
  have "sliced32_add_bit s v i = (if bit v (7 - i) then sliced32_pad s 0 else s)"
    using i by (simp add: sliced32_add_bit_def sliced32_pad_def top_bit_32 Let_def)
  with sliced32_pad_rep[OF r, of 0] r
  show "rep_sliced32 (sliced32_add_bit s v i) (if bit v (7 - i) then xor_at b 0 [0x80] else b)"
    by simp
qed

sublocale snp_laws \<subseteq> isap_generic: isap_backend B rep "generic_add_bit B"
proof unfold_locales
  fix s b i and v :: u8
  assume r: "rep s b" and i: "i < (8::nat)"
  have "xor_at b 0 [0] = b" using rep_length[OF r] by (simp add: xor_at_one)
  with rep_add[OF r, of 1 "[push_bit i v AND 0x80]" 0] top_bit_8[OF i, of v]
  show "rep (generic_add_bit B s v i) (if bit v (7 - i) then xor_at b 0 [0x80] else b)"
    by (auto simp: generic_add_bit_def split: if_splits)
qed

section \<open>The template\<close>

record isap_alg =
  isap_key_size :: nat
  isap_sH :: u8
  isap_sE :: u8
  isap_sB :: u8
  isap_sK :: u8

definition isap_iv :: "isap_alg \<Rightarrow> u8 \<Rightarrow> nat \<Rightarrow> bytes" where
  "isap_iv A tag len =
     (let iv = [tag, of_nat (isap_key_size A * 8), 8 * 8, 1, isap_sH A, isap_sB A, isap_sE A, isap_sK A]
      in iv @ zeros (len - 8))"

definition isap_IV_A :: "isap_alg \<Rightarrow> bytes" where "isap_IV_A A = isap_iv A 0x01 (40 - 16)"

definition isap_IV_KA :: "isap_alg \<Rightarrow> bytes" where "isap_IV_KA A = isap_iv A 0x02 (40 - isap_key_size A)"

definition isap_IV_KE :: "isap_alg \<Rightarrow> bytes" where "isap_IV_KE A = isap_iv A 0x03 (40 - isap_key_size A)"

text \<open>The precomputed key \<open>ISAP_KEY_STATE\<close>.\<close>

record 's isap_key =
  isap_ke :: 's
  isap_ka :: 's

function isap_rekey_loop ::
  "'s snp \<Rightarrow> ('s \<Rightarrow> u8 \<Rightarrow> nat \<Rightarrow> 's) \<Rightarrow> isap_alg \<Rightarrow> 's \<Rightarrow> bytes \<Rightarrow> nat \<Rightarrow> nat \<Rightarrow> 's" where
  "isap_rekey_loop B add A s data i num_bits =
     (if i < num_bits then
        let s = add s (data ! (i div 8)) (i mod 8);
            s = snp_permute B s (12 - isap_sB A)
        in isap_rekey_loop B add A s data (i + 1) num_bits
      else s)"
  by pat_completeness auto
termination by (relation "measure (\<lambda>(B, add, A, s, data, i, num_bits). num_bits - i)") auto

declare isap_rekey_loop.simps [simp del]

definition isap_rekey ::
  "'s snp \<Rightarrow> ('s \<Rightarrow> u8 \<Rightarrow> nat \<Rightarrow> 's) \<Rightarrow> isap_alg \<Rightarrow> 's \<Rightarrow> 's \<Rightarrow> bytes \<Rightarrow> nat \<Rightarrow> 's" where
  "isap_rekey B add A state pk data data_len =
     (let s = snp_copy B state pk;
          num_bits = data_len * 8 - 1;
          s = isap_rekey_loop B add A s data 0 num_bits;
          s = add s (data ! (num_bits div 8)) (num_bits mod 8)
      in snp_permute B s (12 - isap_sK A))"

definition isap_encrypt ::
  "'s snp \<Rightarrow> ('s \<Rightarrow> u8 \<Rightarrow> nat \<Rightarrow> 's) \<Rightarrow> isap_alg \<Rightarrow> 's \<Rightarrow> 's isap_key \<Rightarrow> bytes \<Rightarrow> bytes \<Rightarrow> 's \<times> bytes" where
  "isap_encrypt B add A s pk npub m =
     (let s = isap_rekey B add A s (isap_ke pk) npub 16;
          s = snp_overwrite_bytes B s npub (40 - 16) 16
      in stream_crypt 8 (\<lambda>s src n. snp_extract_and_add_bytes B s src 0 n)
           (\<lambda>s. snp_permute B s (12 - isap_sE A)) s m)"

text \<open>Absorbing the associated data and, the same way, the ciphertext.\<close>

definition isap_absorb :: "'s snp \<Rightarrow> isap_alg \<Rightarrow> 's \<Rightarrow> bytes \<Rightarrow> 's" where
  "isap_absorb B A s data =
     (let (s, _, data) =
            block_loop 8 (\<lambda>s d. (snp_permute B (snp_add_bytes B s d 0 8) (12 - isap_sH A), [])) s data;
          temp = length data;
          s = (if temp > 0 then snp_add_bytes B s data 0 temp else s);
          s = snp_pad B s temp
      in snp_permute B s (12 - isap_sH A))"

definition isap_mac ::
  "'s snp \<Rightarrow> ('s \<Rightarrow> u8 \<Rightarrow> nat \<Rightarrow> 's) \<Rightarrow> isap_alg \<Rightarrow> 's \<Rightarrow> 's isap_key \<Rightarrow> bytes \<Rightarrow> bytes \<Rightarrow> bytes \<Rightarrow> 's \<times> bytes" where
  "isap_mac B add A s pk npub ad c =
     (let s = snp_overwrite_bytes B s npub 0 16;
          s = snp_overwrite_bytes B s (isap_IV_A A) 16 (40 - 16);
          s = snp_permute B s (12 - isap_sH A);
          s = isap_absorb B A s ad;
          s = snp_separator B s;
          s = isap_absorb B A s c;
          k = snp_extract_bytes B s 0 (isap_key_size A);
          preserve = snp_extract_bytes B s (isap_key_size A) (40 - isap_key_size A);
          s = isap_rekey B add A s (isap_ka pk) k (isap_key_size A);
          s = snp_overwrite_bytes B s preserve (isap_key_size A) (40 - isap_key_size A);
          s = snp_permute B s (12 - isap_sH A)
      in (s, snp_extract_bytes B s 0 16))"

definition isap_expand_key :: "'s snp \<Rightarrow> isap_alg \<Rightarrow> bytes \<Rightarrow> bytes \<Rightarrow> 's" where
  "isap_expand_key B A k iv =
     (let s = snp_init B;
          s = snp_overwrite_bytes B s k 0 (isap_key_size A);
          s = snp_overwrite_bytes B s iv (isap_key_size A) (40 - isap_key_size A);
          s = snp_permute B s (12 - isap_sK A)
      in snp_release B s)"

definition isap_aead_init :: "'s snp \<Rightarrow> isap_alg \<Rightarrow> bytes \<Rightarrow> 's isap_key" where
  "isap_aead_init B A k =
     \<lparr> isap_ke = isap_expand_key B A k (isap_IV_KE A), isap_ka = isap_expand_key B A k (isap_IV_KA A) \<rparr>"

definition isap_aead_load_key :: "'s snp \<Rightarrow> bytes \<Rightarrow> 's isap_key" where
  "isap_aead_load_key B k =
     \<lparr> isap_ke = snp_release B (snp_overwrite_bytes B (snp_init B) k 0 40),
       isap_ka = snp_release B (snp_overwrite_bytes B (snp_init B) (drop 40 k) 0 40) \<rparr>"

text \<open>Saving acquires and releases the two states, which may change their representation.\<close>

definition isap_aead_save_key :: "'s snp \<Rightarrow> 's isap_key \<Rightarrow> 's isap_key \<times> bytes" where
  "isap_aead_save_key B pk =
     (let ke = snp_acquire B (isap_ke pk); k1 = snp_extract_bytes B ke 0 40;
          ka = snp_acquire B (isap_ka pk); k2 = snp_extract_bytes B ka 0 40
      in (\<lparr> isap_ke = snp_release B ke, isap_ka = snp_release B ka \<rparr>, k1 @ k2))"

definition isap_aead_free :: "'s snp \<Rightarrow> 's isap_key \<Rightarrow> 's isap_key" where
  "isap_aead_free B pk =
     \<lparr> isap_ke = snp_free B (snp_acquire B (isap_ke pk)), isap_ka = snp_free B (snp_acquire B (isap_ka pk)) \<rparr>"

definition isap_aead_encrypt ::
  "'s snp \<Rightarrow> ('s \<Rightarrow> u8 \<Rightarrow> nat \<Rightarrow> 's) \<Rightarrow> isap_alg \<Rightarrow> bytes \<Rightarrow> bytes \<Rightarrow> bytes \<Rightarrow> 's isap_key \<Rightarrow> bytes" where
  "isap_aead_encrypt B add A m ad npub pk =
     (let s = snp_init B;
          (s, c) = isap_encrypt B add A s pk npub m;
          (s, tag) = isap_mac B add A s pk npub ad c
      in c @ tag)"

definition isap_aead_decrypt ::
  "'s snp \<Rightarrow> ('s \<Rightarrow> u8 \<Rightarrow> nat \<Rightarrow> 's) \<Rightarrow> isap_alg \<Rightarrow> bytes \<Rightarrow> bytes \<Rightarrow> bytes \<Rightarrow> 's isap_key \<Rightarrow>
     int \<times> bytes option" where
  "isap_aead_decrypt B add A c ad npub pk =
     (if length c < 16 then (-1, None)
      else
        let mlen = length c - 16;
            s = snp_init B;
            (s, tag) = isap_mac B add A s pk npub ad (take mlen c);
            (s, m) = isap_encrypt B add A s pk npub (take mlen c);
            (result, m) = ascon_aead_check_tag m tag (drop mlen c) 16
        in (result, Some m))"

text \<open>The instances.\<close>

definition ascon128_isap :: isap_alg where
  "ascon128_isap = \<lparr> isap_key_size = 16, isap_sH = 12, isap_sE = 12, isap_sB = 12, isap_sK = 12 \<rparr>"

definition ascon128a_isap :: isap_alg where
  "ascon128a_isap = \<lparr> isap_key_size = 16, isap_sH = 12, isap_sE = 6, isap_sB = 1, isap_sK = 12 \<rparr>"

definition ascon80pq_isap :: isap_alg where
  "ascon80pq_isap = \<lparr> isap_key_size = 20, isap_sH = 12, isap_sE = 12, isap_sB = 12, isap_sK = 12 \<rparr>"

section \<open>The specification\<close>

text \<open>The bits of a string, the most significant bit of a byte first.\<close>

definition isap_bits :: "bytes \<Rightarrow> bool list" where
  "isap_bits data = concat (map (\<lambda>x. map (\<lambda>i. bit x (7 - i)) [0..<8]) data)"

definition spec_isap_absorb_bit :: "bytes \<Rightarrow> bool \<Rightarrow> bytes" where
  "spec_isap_absorb_bit b x = (if x then xor_at b 0 [0x80] else b)"

definition spec_isap_rekey :: "isap_alg \<Rightarrow> bytes \<Rightarrow> bytes \<Rightarrow> bytes" where
  "spec_isap_rekey A b data =
     (let bs = isap_bits data;
          b = foldl (\<lambda>b x. permute_bytes (spec_isap_absorb_bit b x) (12 - isap_sB A)) b (butlast bs)
      in permute_bytes (spec_isap_absorb_bit b (last bs)) (12 - isap_sK A))"

definition spec_isap_key :: "isap_alg \<Rightarrow> u8 \<Rightarrow> bytes \<Rightarrow> bytes" where
  "spec_isap_key A tag k = permute_bytes (k @ isap_iv A tag (40 - isap_key_size A)) (12 - isap_sK A)"

definition spec_isap_stream :: "isap_alg \<Rightarrow> bytes \<Rightarrow> bytes \<Rightarrow> bytes \<Rightarrow> bytes" where
  "spec_isap_stream A ke npub m =
     spec_stream 8 (12 - isap_sE A) (put_at (spec_isap_rekey A ke npub) 24 npub) m"

definition spec_isap_mac :: "isap_alg \<Rightarrow> bytes \<Rightarrow> bytes \<Rightarrow> bytes \<Rightarrow> bytes \<Rightarrow> bytes" where
  "spec_isap_mac A ka npub ad c =
     (let f = (\<lambda>b. permute_bytes b (12 - isap_sH A));
          b = f (npub @ isap_iv A 1 24);
          b = xor_at (f (spec_absorb 8 (12 - isap_sH A) b ad)) 39 [1];
          b = f (spec_absorb 8 (12 - isap_sH A) b c);
          n = isap_key_size A
      in take 16 (f (take n (spec_isap_rekey A ka (take n b)) @ drop n b)))"

definition spec_isap_encrypt :: "isap_alg \<Rightarrow> bytes \<Rightarrow> bytes \<Rightarrow> bytes \<Rightarrow> bytes \<Rightarrow> bytes" where
  "spec_isap_encrypt A k npub ad m =
     (let c = spec_isap_stream A (spec_isap_key A 3 k) npub m
      in c @ spec_isap_mac A (spec_isap_key A 2 k) npub ad c)"

definition spec_isap_decrypt :: "isap_alg \<Rightarrow> bytes \<Rightarrow> bytes \<Rightarrow> bytes \<Rightarrow> bytes \<Rightarrow> bytes option" where
  "spec_isap_decrypt A k npub ad c =
     (if length c < 16 then None
      else
        let mlen = length c - 16
        in if spec_isap_mac A (spec_isap_key A 2 k) npub ad (take mlen c) = drop mlen c
           then Some (spec_isap_stream A (spec_isap_key A 3 k) npub (take mlen c)) else None)"

lemma length_spec_isap_mac: "length (spec_isap_mac A ka npub ad c) = 16"
  by (simp add: spec_isap_mac_def Let_def)

lemma length_spec_isap_stream: "length (spec_isap_stream A ke npub m) = length m"
  by (simp add: spec_isap_stream_def length_spec_stream)

lemma spec_isap_decrypt_iff:
  "spec_isap_decrypt A k npub ad c = Some m \<longleftrightarrow> c = spec_isap_encrypt A k npub ad m"
proof
  note twice = spec_stream_twice[of 8, simplified]
  show "spec_isap_decrypt A k npub ad c = Some m" if "c = spec_isap_encrypt A k npub ad m"
    using twice that
    by (simp add: spec_isap_decrypt_def spec_isap_encrypt_def length_spec_isap_mac Let_def spec_isap_stream_def)
  assume "spec_isap_decrypt A k npub ad c = Some m"
  then have *: "\<not> length c < 16" "m = spec_isap_stream A (spec_isap_key A 3 k) npub (take (length c - 16) c)"
    "spec_isap_mac A (spec_isap_key A 2 k) npub ad (take (length c - 16) c) = drop (length c - 16) c"
    by (auto simp: spec_isap_decrypt_def Let_def split: if_splits)
  then have "spec_isap_encrypt A k npub ad m = take (length c - 16) c @ drop (length c - 16) c"
    using twice by (simp add: spec_isap_encrypt_def Let_def spec_isap_stream_def)
  then show "c = spec_isap_encrypt A k npub ad m" by simp
qed

lemma length_isap_bits: "length (isap_bits data) = 8 * length data"
  by (induction data) (simp_all add: isap_bits_def)

lemma nth_isap_bits:
  "i < 8 * length data \<Longrightarrow> isap_bits data ! i = bit (data ! (i div 8)) (7 - i mod 8)"
proof (induction data arbitrary: i)
  case (Cons x data)
  show ?case
  proof (cases "i < 8")
    case False
    then obtain j where j: "i = j + 8" by (metis add.commute le_add_diff_inverse not_less)
    have "(j + 8) div 8 = Suc (j div 8)" using div_add_self2[of 8 j] by linarith
    with j Cons.IH[of j] Cons.prems show ?thesis
      by (simp add: isap_bits_def nth_append)
  qed (simp add: isap_bits_def nth_append)
qed simp

section \<open>The code computes the construction\<close>

definition isap_rep :: "('s \<Rightarrow> bytes \<Rightarrow> bool) \<Rightarrow> isap_alg \<Rightarrow> 's isap_key \<Rightarrow> bytes \<Rightarrow> bool" where
  "isap_rep rep A pk k \<longleftrightarrow> rep (isap_ke pk) (spec_isap_key A 3 k) \<and> rep (isap_ka pk) (spec_isap_key A 2 k)"

sublocale snp_laws \<subseteq> add_8: duplex rep absorb_effect "\<lambda>b. permute_bytes b fr" 8
    "\<lambda>s d off. (snp_add_bytes B s d off 8, [])" "\<lambda>s d off n. (snp_add_bytes B s d off n, [])"
    "\<lambda>s. snp_permute B s fr" for fr
  by unfold_locales
    (auto simp: absorb_effect_append effect_Nil rep_permute, auto simp: absorb_effect_def rep_add)

lemma length_isap_iv: "8 \<le> n \<Longrightarrow> length (isap_iv A tag n) = n"
  by (simp add: isap_iv_def Let_def)

lemma put_tail: "\<lbrakk>length b = 40; n \<le> 40; length xs = 40 - n\<rbrakk> \<Longrightarrow> put_at b n xs = take n b @ xs"
  by (rule nth_equalityI) (auto simp: byte_nth nth_append)

context isap_backend
begin

lemma add_bit_rep: "\<lbrakk>rep s b; i < 8\<rbrakk> \<Longrightarrow> rep (add s v i) (spec_isap_absorb_bit b (bit v (7 - i)))"
  using rep_add_bit by (simp add: spec_isap_absorb_bit_def)

lemma isap_rekey_loop_rep:
  assumes "rep s b" "n \<le> 8 * length data"
  shows "rep (isap_rekey_loop B add A s data i n)
    (foldl (\<lambda>b x. permute_bytes (spec_isap_absorb_bit b x) (12 - isap_sB A)) b (drop i (take n (isap_bits data))))"
  using assms
proof (induction "n - i" arbitrary: s b i rule: less_induct)
  case less
  show ?case
  proof (cases "i < n")
    case True
    let ?x = "bit (data ! (i div 8)) (7 - i mod 8)"
    have r: "rep (snp_permute B (add s (data ! (i div 8)) (i mod 8)) (12 - isap_sB A))
        (permute_bytes (spec_isap_absorb_bit b ?x) (12 - isap_sB A))"
      using rep_permute[OF add_bit_rep[OF less.prems(1), of "i mod 8" "data ! (i div 8)"]] by simp
    have "drop i (take n (isap_bits data)) = ?x # drop (Suc i) (take n (isap_bits data))"
      using True less.prems(2) nth_isap_bits[of i data]
      by (subst Cons_nth_drop_Suc[symmetric]) (simp_all add: length_isap_bits)
    with less.hyps[OF _ r less.prems(2), of "Suc i"] True show ?thesis
      by (simp add: isap_rekey_loop.simps[of B add A s data i] Let_def)
  qed (use less.prems in \<open>simp add: isap_rekey_loop.simps length_isap_bits\<close>)
qed

lemma isap_rekey_rep:
  assumes "rep pk b" "data \<noteq> []"
  shows "rep (isap_rekey B add A s pk data (length data)) (spec_isap_rekey A b data)"
proof -
  let ?n = "length data * 8 - 1"
  have n: "?n < 8 * length data" using assms(2) by (cases data) simp_all
  note bits = length_isap_bits[of data]
  have "butlast (isap_bits data) = drop 0 (take ?n (isap_bits data))"
    by (simp add: butlast_conv_take bits mult.commute)
  moreover have "last (isap_bits data) = bit (data ! (?n div 8)) (7 - ?n mod 8)"
    using nth_isap_bits[OF n] assms(2) n bits
    by (subst last_conv_nth) (auto simp: mult.commute)
  moreover note rep_permute[OF add_bit_rep[OF isap_rekey_loop_rep[OF rep_copy[OF assms(1), of s] less_imp_le[OF n], of A 0],
      of "?n mod 8" "data ! (?n div 8)"], of "12 - isap_sK A"]
  ultimately show ?thesis
    by (simp add: isap_rekey_def spec_isap_rekey_def Let_def)
qed

lemma isap_encrypt_rep:
  assumes "rep (isap_ke pk) ke" "length npub = 16"
  shows "snd (isap_encrypt B add A s pk npub m) = spec_isap_stream A ke npub m \<and>
    (\<exists>b. rep (fst (isap_encrypt B add A s pk npub m)) b)"
proof -
  have "npub \<noteq> []" using assms(2) by auto
  from rep_overwrite[OF isap_rekey_rep[OF assms(1) this, of A s], of 16 npub 24] assms(2)
  have "rep (snp_overwrite_bytes B (isap_rekey B add A s (isap_ke pk) npub 16) npub 24 16)
      (put_at (spec_isap_rekey A ke npub) 24 npub)" by simp
  from stream_add.stream_crypt_rep[OF this, of "12 - isap_sE A" m] show ?thesis
    by (simp add: isap_encrypt_def spec_isap_stream_def spec_stream_def Let_def)
qed

lemma isap_absorb_rep:
  assumes "rep s b"
  shows "rep (isap_absorb B A s xs) (permute_bytes (spec_absorb 8 (12 - isap_sH A) b xs) (12 - isap_sH A))"
  using add_8.loop_tail_run[OF assms, of "12 - isap_sH A" xs]
  by (fastforce simp: isap_absorb_def spec_absorb_def machine_def Let_def
      intro!: rep_permute rep_pad split: if_splits)

lemma isap_mac_rep:
  assumes "rep s b0" "rep (isap_ka pk) ka" "length npub = 16" "16 \<le> isap_key_size A" "isap_key_size A \<le> 32"
  shows "snd (isap_mac B add A s pk npub ad c) = spec_isap_mac A ka npub ad c \<and>
    (\<exists>b. rep (fst (isap_mac B add A s pk npub ad c)) b)"
proof -
  define f where "f b = permute_bytes b (12 - isap_sH A)" for b
  define n where "n = isap_key_size A"
  have n: "16 \<le> n" "n \<le> 32" using assms(4,5) by (simp_all add: n_def)
  define s1 where "s1 = snp_permute B (snp_overwrite_bytes B (snp_overwrite_bytes B s npub 0 16) (isap_IV_A A) 16 24) (12 - isap_sH A)"
  have "put_at (put_at b0 0 npub) 16 (isap_iv A 1 24) = npub @ isap_iv A 1 24"
    using put_at_whole[of b0 "npub @ isap_iv A 1 24"] rep_length[OF assms(1)] assms(3)
    by (simp add: put_at_append length_isap_iv)
  with rep_permute[OF rep_overwrite[OF rep_overwrite[OF assms(1), of 16 npub 0], of 24 "isap_IV_A A" 16]] assms(3)
  have 1: "rep s1 (f (npub @ isap_iv A 1 24))"
    by (simp add: s1_def f_def isap_IV_A_def length_isap_iv)
  define s2 where "s2 = isap_absorb B A (snp_separator B (isap_absorb B A s1 ad)) c"
  define b where "b = f (spec_absorb 8 (12 - isap_sH A)
      (xor_at (f (spec_absorb 8 (12 - isap_sH A) (f (npub @ isap_iv A 1 24)) ad)) 39 [1]) c)"
  have 2: "rep s2 b"
    using isap_absorb_rep[OF rep_separator[OF isap_absorb_rep[OF 1, of A ad]], of A c] by (simp add: s2_def b_def f_def)
  have len: "length b = 40" using rep_length[OF 2] .
  have ex: "snp_extract_bytes B s2 0 n = take n b" "snp_extract_bytes B s2 n (40 - n) = drop n b"
    using rep_extract[OF 2, of 0 n] rep_extract[OF 2, of n "40 - n"] n len by (simp_all add: get_at_def)
  have "take n b \<noteq> []" using n len by auto
  note rk = isap_rekey_rep[OF assms(2) this, of A s2]
  define r where "r = spec_isap_rekey A ka (take n b)"
  have "length r = 40" by (simp add: r_def spec_isap_rekey_def Let_def)
  then have "put_at r n (drop n b) = take n r @ drop n b" using n len by (intro put_tail) simp_all
  with rep_permute[OF rep_overwrite[OF rk, of "40 - n" "drop n b" n], of "12 - isap_sH A"] n len
  have 3: "rep (snp_permute B (snp_overwrite_bytes B (isap_rekey B add A s2 (isap_ka pk) (take n b) n) (drop n b) n (40 - n)) (12 - isap_sH A))
      (f (take n r @ drop n b))"
    by (simp add: f_def r_def min_absorb2)
  have mac: "isap_mac B add A s pk npub ad c =
      (let s = snp_permute B (snp_overwrite_bytes B (isap_rekey B add A s2 (isap_ka pk) (take n b) n) (drop n b) n (40 - n)) (12 - isap_sH A)
       in (s, snp_extract_bytes B s 0 16))"
    using ex by (simp add: isap_mac_def s1_def[symmetric] s2_def[symmetric] n_def[symmetric] Let_def)
  show ?thesis
    using 3 rep_extract[OF 3, of 0 16]
    by (auto simp: mac spec_isap_mac_def b_def[symmetric] f_def[symmetric] n_def[symmetric] r_def[symmetric]
        get_at_def Let_def)
qed

lemma isap_init_rep:
  assumes "length k = isap_key_size A" "isap_key_size A \<le> 32"
  shows "isap_rep rep A (isap_aead_init B A k) k"
proof -
  have "rep (isap_expand_key B A k (isap_iv A t (40 - isap_key_size A))) (spec_isap_key A t k)" for t
  proof -
    have "put_at (put_at (zeros 40) 0 k) (isap_key_size A) (isap_iv A t (40 - isap_key_size A)) =
        k @ isap_iv A t (40 - isap_key_size A)"
      using put_at_whole[of "zeros 40" "k @ isap_iv A t (40 - isap_key_size A)"] assms
      by (simp add: put_at_append length_isap_iv)
    with rep_release[OF rep_permute[OF rep_overwrite[OF rep_overwrite[OF rep_init, of "isap_key_size A" k 0],
        of "40 - isap_key_size A" "isap_iv A t (40 - isap_key_size A)" "isap_key_size A"]]] assms
    show ?thesis
      by (simp add: isap_expand_key_def spec_isap_key_def length_isap_iv Let_def)
  qed
  then show ?thesis
    by (simp add: isap_rep_def isap_aead_init_def isap_IV_KE_def isap_IV_KA_def)
qed

lemma isap_encrypt_spec:
  assumes "isap_rep rep A pk k" "length npub = 16" "16 \<le> isap_key_size A" "isap_key_size A \<le> 32"
  shows "isap_aead_encrypt B add A m ad npub pk = spec_isap_encrypt A k npub ad m"
proof -
  have ke: "rep (isap_ke pk) (spec_isap_key A 3 k)" and ka: "rep (isap_ka pk) (spec_isap_key A 2 k)"
    using assms(1) by (simp_all add: isap_rep_def)
  from isap_encrypt_rep[OF ke assms(2), of A "snp_init B" m] obtain b where
    c: "snd (isap_encrypt B add A (snp_init B) pk npub m) = spec_isap_stream A (spec_isap_key A 3 k) npub m"
    and r: "rep (fst (isap_encrypt B add A (snp_init B) pk npub m)) b" by blast
  from isap_mac_rep[OF r ka assms(2-4)] c show ?thesis
    by (simp add: isap_aead_encrypt_def spec_isap_encrypt_def case_prod_beta Let_def)
qed

lemma isap_decrypt_spec:
  assumes "isap_rep rep A pk k" "length npub = 16" "16 \<le> isap_key_size A" "isap_key_size A \<le> 32"
  shows "isap_aead_decrypt B add A c ad npub pk =
    (if length c < 16 then (-1, None)
     else case spec_isap_decrypt A k npub ad c of
            Some m \<Rightarrow> (0, Some m) | None \<Rightarrow> (-1, Some (zeros (length c - 16))))"
proof (cases "length c < 16")
  case False
  have ke: "rep (isap_ke pk) (spec_isap_key A 3 k)" and ka: "rep (isap_ka pk) (spec_isap_key A 2 k)"
    using assms(1) by (simp_all add: isap_rep_def)
  from isap_mac_rep[OF rep_init ka assms(2-4), of ad "take (length c - 16) c"]
    isap_encrypt_rep[OF ke assms(2), of A "fst (isap_mac B add A (snp_init B) pk npub ad (take (length c - 16) c))" "take (length c - 16) c"]
  show ?thesis
    using False
    by (simp add: isap_aead_decrypt_def spec_isap_decrypt_def case_prod_beta Let_def check_tag_eq
        length_spec_isap_mac length_spec_isap_stream)
qed (simp add: isap_aead_decrypt_def)

text \<open>The saved form of a key is the bytes of its two states, on every backend.\<close>

lemma isap_save_bytes:
  assumes "isap_rep rep A pk k"
  shows "snd (isap_aead_save_key B pk) = spec_isap_key A 3 k @ spec_isap_key A 2 k"
proof -
  have "rep (snp_acquire B (isap_ke pk)) (spec_isap_key A 3 k)" "rep (snp_acquire B (isap_ka pk)) (spec_isap_key A 2 k)"
    using assms rep_acquire by (simp_all add: isap_rep_def)
  then have "snp_extract_bytes B (snp_acquire B (isap_ke pk)) 0 40 = spec_isap_key A 3 k"
    "snp_extract_bytes B (snp_acquire B (isap_ka pk)) 0 40 = spec_isap_key A 2 k"
    using rep_extract rep_length by (force simp: get_at_def)+
  then show ?thesis by (simp add: isap_aead_save_key_def Let_def)
qed

lemma isap_load_rep:
  "isap_rep rep A (isap_aead_load_key B (spec_isap_key A 3 k @ spec_isap_key A 2 k)) k"
proof -
  have len: "length (spec_isap_key A t k) = 40" for t by (simp add: spec_isap_key_def)
  then have "put_at (zeros 40) 0 (spec_isap_key A t k) = spec_isap_key A t k" for t
    by (simp add: put_at_whole)
  with rep_release[OF rep_overwrite[OF rep_init, of 40 "spec_isap_key A 3 k @ spec_isap_key A 2 k" 0]]
    rep_release[OF rep_overwrite[OF rep_init, of 40 "spec_isap_key A 2 k" 0]] len
  show ?thesis by (simp add: isap_rep_def isap_aead_load_key_def)
qed

end

end
