(* ===== verification/Mode_Properties.thy ===== *)
theory Mode_Properties
  imports Siv Isap
begin

text \<open>
  The properties of the other two authenticated modes: ASCON-SIV and ISAP.
\<close>

text \<open>What decryption returns, when it accepts exactly the encryptions.\<close>

lemma accept_cases:
  assumes "dec = (if length c < 16 then (-1, None)
      else case d of Some m \<Rightarrow> (0, Some m) | None \<Rightarrow> (-1, Some (zeros (length c - 16))))"
    and "\<And>m. d = Some m \<longleftrightarrow> c = enc m" and "\<And>m. 16 \<le> length (enc m)"
  shows "((dec = ((0::int), Some m)) = (c = enc m)) \<and>
    ((\<forall>m. c \<noteq> enc m) \<longrightarrow> dec = (-1, if length c < 16 then None else Some (zeros (length c - 16))))"
proof (cases "length c < 16")
  case True
  then have "c \<noteq> enc m" for m using assms(3)[of m] by auto
  with True assms(1) show ?thesis by auto
next
  case False
  with assms(1,2) show ?thesis by (cases d) auto
qed

lemma length_spec_siv_encrypt: "16 \<le> length (spec_siv_encrypt iv1 iv2 R fr k npub ad m)"
  by (simp add: spec_siv_encrypt_def Let_def length_spec_siv_tag)

lemma length_spec_isap_encrypt: "16 \<le> length (spec_isap_encrypt A k npub ad m)"
  by (simp add: spec_isap_encrypt_def Let_def length_spec_isap_mac)

section \<open>ASCON-SIV\<close>

text \<open>Property C10. In each of the three SIV variants decryption returns 0 and a plaintext exactly when the input is
  the encryption of that plaintext under the same key, nonce and associated data; on every other
  input it returns -1, with the output untouched when the input is shorter than a tag and zeroed
  otherwise.\<close>

theorem siv_decrypt_accepts:
  assumes "length k = 16" "length k' = 20" "length npub = 16"
  shows "(ascon128_siv_decrypt (sliced64 le) c ad npub k = (0, Some m)) =
      (c = ascon128_siv_encrypt (sliced64 le) m ad npub k) \<and>
    (ascon128a_siv_decrypt (sliced64 le) c ad npub k = (0, Some m)) =
      (c = ascon128a_siv_encrypt (sliced64 le) m ad npub k) \<and>
    (ascon80pq_siv_decrypt (sliced64 le) c ad npub k' = (0, Some m)) =
      (c = ascon80pq_siv_encrypt (sliced64 le) m ad npub k') \<and>
    ((\<forall>m. c \<noteq> ascon128_siv_encrypt (sliced64 le) m ad npub k) \<longrightarrow>
       ascon128_siv_decrypt (sliced64 le) c ad npub k =
         (-1, if length c < 16 then None else Some (zeros (length c - 16)))) \<and>
    ((\<forall>m. c \<noteq> ascon128a_siv_encrypt (sliced64 le) m ad npub k) \<longrightarrow>
       ascon128a_siv_decrypt (sliced64 le) c ad npub k =
         (-1, if length c < 16 then None else Some (zeros (length c - 16)))) \<and>
    ((\<forall>m. c \<noteq> ascon80pq_siv_encrypt (sliced64 le) m ad npub k') \<longrightarrow>
       ascon80pq_siv_decrypt (sliced64 le) c ad npub k' =
         (-1, if length c < 16 then None else Some (zeros (length c - 16))))"
proof -
  note laws = sliced64.snp_laws_axioms[of le]
  note iff = spec_siv_decrypt_iff[of 8, simplified] spec_siv_decrypt_iff[of 16, simplified]
  note a = accept_cases[OF snp_laws.ascon128_siv_decrypt_spec[OF laws assms(1,3), of c ad],
      of "\<lambda>m. ascon128_siv_encrypt (sliced64 le) m ad npub k" m,
      unfolded snp_laws.ascon128_siv_encrypt_spec[OF laws assms(1,3)], OF iff(1) length_spec_siv_encrypt]
    and b = accept_cases[OF snp_laws.ascon128a_siv_decrypt_spec[OF laws assms(1,3), of c ad],
      of "\<lambda>m. ascon128a_siv_encrypt (sliced64 le) m ad npub k" m,
      unfolded snp_laws.ascon128a_siv_encrypt_spec[OF laws assms(1,3)], OF iff(2) length_spec_siv_encrypt]
    and d = accept_cases[OF snp_laws.ascon80pq_siv_decrypt_spec[OF laws assms(2,3), of c ad],
      of "\<lambda>m. ascon80pq_siv_encrypt (sliced64 le) m ad npub k'" m,
      unfolded snp_laws.ascon80pq_siv_encrypt_spec[OF laws assms(2,3)], OF iff(1) length_spec_siv_encrypt]
  show ?thesis
    unfolding snp_laws.ascon128_siv_encrypt_spec[OF laws assms(1,3)]
      snp_laws.ascon128a_siv_encrypt_spec[OF laws assms(1,3)] snp_laws.ascon80pq_siv_encrypt_spec[OF laws assms(2,3)]
    using a b d by blast
qed

lemma siv_decrypt_accepts_witness:
  "ascon128_siv_decrypt (sliced64 True)
     (ascon128_siv_encrypt (sliced64 True) [1, 2, 3] [4] (replicate 16 5) (replicate 16 6))
     [4] (replicate 16 5) (replicate 16 6) = (0, Some [1, 2, 3])"
  using siv_decrypt_accepts[of "replicate 16 6" "replicate 20 6" "replicate 16 5" True
      "ascon128_siv_encrypt (sliced64 True) [1, 2, 3] [4] (replicate 16 5) (replicate 16 6)" "[4]" "[1, 2, 3]"]
  by simp

section \<open>ISAP\<close>

text \<open>Property C11. In each of the three ISAP variants decryption with an expanded key returns 0 and a plaintext exactly
  when the input is the encryption of that plaintext under the same key, nonce and associated
  data; on every other input it returns -1, with the output untouched when the input is shorter
  than a tag and zeroed otherwise.\<close>

theorem isap_decrypt_accepts:
  assumes "A \<in> {ascon128_isap, ascon128a_isap, ascon80pq_isap}"
    and "length k = isap_key_size A" "length npub = 16"
  shows "let pk = isap_aead_init (sliced64 le) A k;
      enc = (\<lambda>m. isap_aead_encrypt (sliced64 le) sliced64_add_bit A m ad npub pk);
      dec = isap_aead_decrypt (sliced64 le) sliced64_add_bit A c ad npub pk
    in (dec = (0, Some m)) = (c = enc m) \<and>
      ((\<forall>m. c \<noteq> enc m) \<longrightarrow> dec = (-1, if length c < 16 then None else Some (zeros (length c - 16))))"
proof -
  have size: "16 \<le> isap_key_size A" "isap_key_size A \<le> 32"
    using assms(1) by (auto simp: ascon128_isap_def ascon128a_isap_def ascon80pq_isap_def)
  note laws = isap_sliced64.isap_backend_axioms[of le]
  note r = isap_backend.isap_init_rep[OF laws assms(2) size(2)]
  note enc = isap_backend.isap_encrypt_spec[OF laws r assms(3) size]
  show ?thesis
    unfolding Let_def enc
    by (rule accept_cases[OF isap_backend.isap_decrypt_spec[OF laws r assms(3) size]
          spec_isap_decrypt_iff length_spec_isap_encrypt])
qed

lemma isap_decrypt_accepts_witness:
  "let pk = isap_aead_init (sliced64 True) ascon80pq_isap (replicate 20 7)
   in isap_aead_decrypt (sliced64 True) sliced64_add_bit ascon80pq_isap
     (isap_aead_encrypt (sliced64 True) sliced64_add_bit ascon80pq_isap [1, 2, 3] [4] (replicate 16 5) pk)
     [4] (replicate 16 5) pk = (0, Some [1, 2, 3])"
  using isap_decrypt_accepts[of ascon80pq_isap "replicate 20 7" "replicate 16 5" True "[4]"
      "isap_aead_encrypt (sliced64 True) sliced64_add_bit ascon80pq_isap [1, 2, 3] [4] (replicate 16 5)
         (isap_aead_init (sliced64 True) ascon80pq_isap (replicate 20 7))" "[1, 2, 3]"]
  by (simp add: ascon80pq_isap_def Let_def)

text \<open>Saving an expanded ISAP key and loading it gives a key that encrypts to the same bytes, also on
  another backend, and the saved form has 80 bytes.\<close>

theorem isap_saved_key:
  assumes "A \<in> {ascon128_isap, ascon128a_isap, ascon80pq_isap}"
    and "length k = isap_key_size A" "length npub = 16"
  shows "let pk = isap_aead_init (sliced64 le) A k;
      saved = snd (isap_aead_save_key (sliced64 le) pk)
    in length saved = 80 \<and>
      isap_aead_encrypt sliced32 sliced32_add_bit A m ad npub (isap_aead_load_key sliced32 saved) =
        isap_aead_encrypt (sliced64 le) sliced64_add_bit A m ad npub pk"
proof -
  have size: "16 \<le> isap_key_size A" "isap_key_size A \<le> 32"
    using assms(1) by (auto simp: ascon128_isap_def ascon128a_isap_def ascon80pq_isap_def)
  note laws = isap_sliced64.isap_backend_axioms[of le]
  note laws32 = isap_sliced32.isap_backend_axioms
  let ?pk = "isap_aead_init (sliced64 le) A k"
  note r = isap_backend.isap_init_rep[OF laws assms(2) size(2)]
  have bytes: "snd (isap_aead_save_key (sliced64 le) ?pk) = spec_isap_key A 3 k @ spec_isap_key A 2 k"
    by (rule isap_backend.isap_save_bytes[OF laws r])
  have "isap_rep rep_sliced32 A (isap_aead_load_key sliced32 (spec_isap_key A 3 k @ spec_isap_key A 2 k)) k"
    by (rule isap_backend.isap_load_rep[OF laws32])
  from isap_backend.isap_encrypt_spec[OF laws32 this assms(3) size]
    isap_backend.isap_encrypt_spec[OF laws r assms(3) size] show ?thesis
    by (simp add: bytes Let_def spec_isap_key_def)
qed

lemma isap_saved_key_witness:
  "length (snd (isap_aead_save_key (sliced64 True) (isap_aead_init (sliced64 True) ascon128a_isap (replicate 16 7)))) = 80"
  using isap_saved_key[of ascon128a_isap "replicate 16 7" "replicate 16 5" True "[]" "[]"]
  by (simp add: ascon128a_isap_def Let_def)

end
