(* ===== verification/Prng.thy ===== *)
theory Prng
  imports Xof
begin

text \<open>
  \<open>random/ascon-prng.c\<close> and \<open>random/ascon-random.c\<close>: the pseudorandom generator, a sponge that is seeded
  by the system, re-seeded after 16384 bytes and re-keyed after every use, and its seed file.

  The system's random source and the storage device are parameters.  \<open>'w\<close> is the state of the
  world; \<open>trng w n\<close> is \<open>ascon_trng_generate\<close> for \<open>n\<close> bytes, with the new world, the bytes and the
  result.  A pointer that may be \<open>NULL\<close> is an option.
\<close>

section \<open>The code\<close>

type_synonym 'w trng = "'w \<Rightarrow> nat \<Rightarrow> 'w \<times> bytes \<times> int"

record 's prng_state =
  prng_xof :: "'s xof_state"
  prng_counter :: u32
  prng_reserved :: u32

definition ASCON_RANDOM_RESEED_LIMIT :: nat where "ASCON_RANDOM_RESEED_LIMIT = 16384"

definition ASCON_SYSTEM_SEED_SIZE :: nat where "ASCON_SYSTEM_SEED_SIZE = 32"

definition PRNG_NAME :: bytes where "PRNG_NAME = map of_char ''SpongePRNG''"

function random_rekey_loop :: "'s snp \<Rightarrow> 's \<Rightarrow> nat \<Rightarrow> 's" where
  "random_rekey_loop B s temp =
     (if temp < 40 - 8 then
        let s = snp_overwrite_with_zeroes B s 0 8; s = snp_permute B s 0
        in random_rekey_loop B s (temp + 8)
      else s)"
  by pat_completeness auto
termination by (relation "measure (\<lambda>(B, s, temp). 40 - temp)") auto

declare random_rekey_loop.simps [simp del]

definition ascon_random_rekey :: "'s snp \<Rightarrow> 's prng_state \<Rightarrow> 's prng_state" where
  "ascon_random_rekey B st =
     (let xof = ascon_xof_pad B (prng_xof st);
          s = snp_acquire B (xof_perm xof);
          s = random_rekey_loop B s 0
      in st \<lparr> prng_xof := xof \<lparr> xof_perm := snp_release B s \<rparr> \<rparr>)"

definition ascon_random :: "'s snp \<Rightarrow> 'w trng \<Rightarrow> 'w \<Rightarrow> nat \<Rightarrow> 'w \<times> bytes \<times> int" where
  "ascon_random B trng w outlen =
     (let (w, seed, ok) = trng w ASCON_SYSTEM_SEED_SIZE;
          xof = ascon_xof_init_fixed B outlen;
          xof = ascon_xof_absorb B xof seed;
          (xof, out) = ascon_xof_squeeze B xof outlen
      in (w, out, if ok \<noteq> 0 then 1 else 0))"

definition ascon_random_init ::
  "'s snp \<Rightarrow> 'w trng \<Rightarrow> 'w \<Rightarrow> 's prng_state option \<Rightarrow> 'w \<times> 's prng_state option \<times> int" where
  "ascon_random_init B trng w st =
     (case st of
        None \<Rightarrow> (w, None, 0)
      | Some st \<Rightarrow>
          let st = st \<lparr> prng_xof := ascon_xof_init_custom B (Some PRNG_NAME) [] 0,
                         prng_counter := 0, prng_reserved := 0 \<rparr>;
              (w, seed, ok) = trng w ASCON_SYSTEM_SEED_SIZE;
              st = st \<lparr> prng_xof := ascon_xof_absorb B (prng_xof st) seed \<rparr>
          in (w, Some (ascon_random_rekey B st), ok))"

definition ascon_random_free :: "'s snp \<Rightarrow> 's prng_state option \<Rightarrow> 's prng_state option" where
  "ascon_random_free B st =
     (case st of
        None \<Rightarrow> None
      | Some st \<Rightarrow>
          let st = st \<lparr> prng_counter := 0 \<rparr>
          in Some (st \<lparr> prng_xof := ascon_xof_free B (prng_xof st) \<rparr>))"

definition ascon_random_reseed ::
  "'s snp \<Rightarrow> 'w trng \<Rightarrow> 'w \<Rightarrow> 's prng_state option \<Rightarrow> 'w \<times> 's prng_state option \<times> int" where
  "ascon_random_reseed B trng w st =
     (case st of
        None \<Rightarrow> (w, None, 0)
      | Some st \<Rightarrow>
          let (w, seed, ok) = trng w ASCON_SYSTEM_SEED_SIZE;
              st = st \<lparr> prng_xof := ascon_xof_absorb B (prng_xof st) seed \<rparr>;
              st = st \<lparr> prng_counter := 0 \<rparr>
          in (w, Some (ascon_random_rekey B st), ok))"

definition ascon_random_fetch ::
  "'s snp \<Rightarrow> 'w trng \<Rightarrow> 'w \<Rightarrow> 's prng_state option \<Rightarrow> nat \<Rightarrow> 'w \<times> 's prng_state option \<times> bytes" where
  "ascon_random_fetch B trng w st outlen =
     (case st of
        None \<Rightarrow> let (w, out, ok) = ascon_random B trng w outlen in (w, None, out)
      | Some st \<Rightarrow>
          let (w, st) =
                (if unat (prng_counter st) \<ge> ASCON_RANDOM_RESEED_LIMIT
                 then let (w, st, ok) = ascon_random_reseed B trng w (Some st) in (w, the st)
                 else (w, st));
              (xof, out) = ascon_xof_squeeze B (prng_xof st) outlen;
              st = st \<lparr> prng_xof := xof \<rparr>;
              st = st \<lparr> prng_counter :=
                  (if outlen < ASCON_RANDOM_RESEED_LIMIT then prng_counter st + of_nat outlen
                   else of_nat ASCON_RANDOM_RESEED_LIMIT) \<rparr>
          in (w, Some (ascon_random_rekey B st), out))"

definition ascon_random_feed ::
  "'s snp \<Rightarrow> 's prng_state option \<Rightarrow> bytes \<Rightarrow> 's prng_state option" where
  "ascon_random_feed B st entropy =
     (case st of
        None \<Rightarrow> None
      | Some st \<Rightarrow>
          let st = st \<lparr> prng_xof := ascon_xof_absorb B (prng_xof st) entropy \<rparr>;
              st = st \<lparr> prng_xof := ascon_xof_pad B (prng_xof st) \<rparr>
          in Some (ascon_random_rekey B st))"

text \<open>The storage device: reading returns the number of bytes read and the bytes, writing the number
  written.  The last argument of writing asks for the old contents to be erased first.\<close>

record 'w storage =
  storage_page_size :: nat
  storage_erase_size :: nat
  storage_address :: nat
  storage_size :: nat
  storage_partial_writes :: bool
  storage_read :: "'w \<Rightarrow> nat \<Rightarrow> nat \<Rightarrow> 'w \<times> int \<times> bytes"
  storage_write :: "'w \<Rightarrow> nat \<Rightarrow> bytes \<Rightarrow> bool \<Rightarrow> 'w \<times> int"

definition ASCON_RANDOM_SAVED_SEED_SIZE :: nat where "ASCON_RANDOM_SAVED_SEED_SIZE = 32"

definition ascon_random_save_seed ::
  "'s snp \<Rightarrow> 'w trng \<Rightarrow> 'w \<Rightarrow> 's prng_state option \<Rightarrow> 'w storage option \<Rightarrow>
     'w \<times> 's prng_state option \<times> int" where
  "ascon_random_save_seed B trng w st storage =
     (if st = None \<or> storage = None \<or> storage_size (the storage) < ASCON_RANDOM_SAVED_SEED_SIZE
      then (w, st, -1)
      else
        let (w, st, seed) = ascon_random_fetch B trng w st ASCON_RANDOM_SAVED_SEED_SIZE;
            (w, written) =
              storage_write (the storage) w 0 seed (storage_erase_size (the storage) \<noteq> 0)
        in (w, st, if written = int ASCON_RANDOM_SAVED_SEED_SIZE then 1 else 0))"

definition ascon_random_load_seed ::
  "'s snp \<Rightarrow> 'w trng \<Rightarrow> 'w \<Rightarrow> 's prng_state option \<Rightarrow> 'w storage option \<Rightarrow>
     'w \<times> 's prng_state option \<times> int" where
  "ascon_random_load_seed B trng w st storage =
     (if st = None \<or> storage = None \<or> storage_size (the storage) < ASCON_RANDOM_SAVED_SEED_SIZE
      then (w, st, -1)
      else
        let (w, read, seed) = storage_read (the storage) w 0 ASCON_RANDOM_SAVED_SEED_SIZE;
            st = (if read = int ASCON_RANDOM_SAVED_SEED_SIZE then ascon_random_feed B st seed else st);
            (w, st, ok) = ascon_random_reseed B trng w st;
            (w, st, seed) = ascon_random_fetch B trng w st ASCON_RANDOM_SAVED_SEED_SIZE;
            (w, written) =
              storage_write (the storage) w 0 seed (storage_erase_size (the storage) \<noteq> 0)
        in (w, st, if read = int ASCON_RANDOM_SAVED_SEED_SIZE then 1 else 0))"

section \<open>The generator as a sponge\<close>

text \<open>Between operations the generator is the 40 bytes of a state at the start of an absorbing block,
  and the number of bytes handed out since the system was asked for a seed.\<close>

type_synonym prng = "bytes \<times> nat"

definition prng_forget :: "bytes \<Rightarrow> bytes" where
  "prng_forget b = permute_bytes (zeros 8 @ drop 8 b) 0"

definition spec_rekey :: "sponge \<Rightarrow> bytes" where
  "spec_rekey a = (prng_forget ^^ 4) (fst (sponge_pad 0 a))"

definition spec_prng_feed :: "bytes \<Rightarrow> bytes \<Rightarrow> bytes" where
  "spec_prng_feed b xs = spec_rekey (sponge_absorb 0 (b, 0, False) xs)"

definition spec_prng_start :: "bytes \<Rightarrow> prng" where
  "spec_prng_start seed =
     (spec_prng_feed (fst (spec_custom_start 0 0x00400c0000000000 (Some PRNG_NAME) [] 0)) seed, 0)"

definition spec_prng_fetch :: "'w trng \<Rightarrow> 'w \<Rightarrow> prng \<Rightarrow> nat \<Rightarrow> 'w \<times> prng \<times> bytes" where
  "spec_prng_fetch trng w a k =
     (let (w, b, n) =
        (if snd a \<ge> 16384 then case trng w 32 of (w, seed, ok) \<Rightarrow> (w, spec_prng_feed (fst a) seed, 0)
         else (w, a))
      in (w, (spec_rekey (fst (lazy_sponge_squeeze (b, 0, False) k)), n + k), spec_sponge 0 b [] k))"

text \<open>The states a caller can reach, with the number of bytes handed out since the system was last asked
  for a seed.\<close>

inductive prng_session :: "'s snp \<Rightarrow> 'w trng \<Rightarrow> 's prng_state \<Rightarrow> nat \<Rightarrow> bool" for B trng where
  session_init: "ascon_random_init B trng w (Some st0) = (w', Some st, ok) \<Longrightarrow> prng_session B trng st 0"
| session_reseed: "\<lbrakk>prng_session B trng st n; ascon_random_reseed B trng w (Some st) = (w', Some st', ok)\<rbrakk> \<Longrightarrow>
    prng_session B trng st' 0"
| session_feed: "\<lbrakk>prng_session B trng st n; ascon_random_feed B (Some st) entropy = Some st'\<rbrakk> \<Longrightarrow>
    prng_session B trng st' n"
| session_fetch: "\<lbrakk>prng_session B trng st n; ascon_random_fetch B trng w (Some st) k = (w', Some st', out)\<rbrakk> \<Longrightarrow>
    prng_session B trng st' (if n \<ge> 16384 then k else n + k)"

inductive_cases prng_session_cases: "prng_session B trng st n"

text \<open>A run of the generator: the operations of a caller, with what each returns.\<close>

datatype prng_call = Call_Feed bytes | Call_Reseed | Call_Fetch nat

fun prng_call_step ::
  "'s snp \<Rightarrow> 'w trng \<Rightarrow> 'w \<times> 's prng_state option \<Rightarrow> prng_call \<Rightarrow> ('w \<times> 's prng_state option) \<times> bytes \<times> int" where
  "prng_call_step B trng (w, st) (Call_Feed xs) = ((w, ascon_random_feed B st xs), [], 0)"
| "prng_call_step B trng (w, st) Call_Reseed =
     (case ascon_random_reseed B trng w st of (w, st, ok) \<Rightarrow> ((w, st), [], ok))"
| "prng_call_step B trng (w, st) (Call_Fetch k) =
     (case ascon_random_fetch B trng w st k of (w, st, out) \<Rightarrow> ((w, st), out, 0))"

fun spec_call_step :: "'w trng \<Rightarrow> 'w \<times> prng \<Rightarrow> prng_call \<Rightarrow> ('w \<times> prng) \<times> bytes \<times> int" where
  "spec_call_step trng (w, b, n) (Call_Feed xs) = ((w, spec_prng_feed b xs, n), [], 0)"
| "spec_call_step trng (w, b, n) Call_Reseed =
     (case trng w 32 of (w, seed, ok) \<Rightarrow> ((w, spec_prng_feed b seed, 0), [], ok))"
| "spec_call_step trng (w, b, n) (Call_Fetch k) =
     (case spec_prng_fetch trng w (b, n) k of (w, a, out) \<Rightarrow> ((w, a), out, 0))"

fun outputs :: "('st \<Rightarrow> 'c \<Rightarrow> 'st \<times> 'o) \<Rightarrow> 'st \<Rightarrow> 'c list \<Rightarrow> 'o list" where
  "outputs step st [] = []"
| "outputs step st (c # cs) = (case step st c of (st, out) \<Rightarrow> out # outputs step st cs)"

definition prng_rep :: "('s \<Rightarrow> bytes \<Rightarrow> bool) \<Rightarrow> 's prng_state \<Rightarrow> prng \<Rightarrow> bool" where
  "prng_rep rep st a \<longleftrightarrow> xof_rep rep (prng_xof st) (fst a, 0, False) \<and>
     (if snd a < 16384 then unat (prng_counter st) = snd a
      else 16384 \<le> unat (prng_counter st) \<and> unat (prng_counter st) < 32768)"

lemma counter_step:
  assumes "unat (c :: u32) < 16384"
  shows "unat (if k < 16384 then c + of_nat k else 16384) = (if k < 16384 then unat c + k else 16384)"
  using assms by (auto simp: unat_word_ariths unat_of_nat)

context snp_laws
begin

lemma erase_rate: "length b = 40 \<Longrightarrow> put_at b 0 (zeros 8) = zeros 8 @ drop 8 b"
  by (rule nth_equalityI) (auto simp: byte_nth nth_append)

lemma rekey_step:
  "rep s b \<Longrightarrow> rep (snp_permute B (snp_overwrite_with_zeroes B s 0 8) 0) (prng_forget b)"
  using rep_permute[OF rep_zeroes[of s b 0 8], of 0] rep_length[of s b]
  by (simp add: erase_rate prng_forget_def)

lemma rekey_loop_rep: "rep s b \<Longrightarrow> rep (random_rekey_loop B s 0) ((prng_forget ^^ 4) b)"
proof -
  define step where "step s = snp_permute B (snp_overwrite_with_zeroes B s 0 8) 0" for s
  have "random_rekey_loop B s 0 = step (step (step (step s)))"
    by (simp add: random_rekey_loop.simps[of B _ 0] random_rekey_loop.simps[of B _ "8"]
        random_rekey_loop.simps[of B _ "16"] random_rekey_loop.simps[of B _ "24"]
        random_rekey_loop.simps[of B _ "32"] step_def Let_def)
  moreover have "rep (step s) (prng_forget b)" if "rep s b" for s b
    using rekey_step[OF that] by (simp add: step_def)
  moreover have "(prng_forget ^^ 4) b = prng_forget (prng_forget (prng_forget (prng_forget b)))" for b
    by (simp add: numeral_eq_Suc)
  moreover assume "rep s b"
  ultimately show ?thesis by simp
qed

lemma pad_aligned: "xof_rep rep st a \<Longrightarrow> xof_rep rep (ascon_xof_pad B st) (fst (sponge_pad 0 a), 0, False)"
  using xof_pad_rep[of st a]
  by (auto simp: sponge_pad_def sponge_absorb_def split: prod.splits if_splits)

lemma rekey_rep:
  assumes "xof_rep rep (prng_xof st) a"
  shows "xof_rep rep (prng_xof (ascon_random_rekey B st)) (spec_rekey a, 0, False)"
proof -
  have pad: "xof_rep rep (ascon_xof_pad B (prng_xof st)) (fst (sponge_pad 0 a), 0, False)"
    using pad_aligned[OF assms] .
  then have "rep (snp_acquire B (xof_perm (ascon_xof_pad B (prng_xof st)))) (fst (sponge_pad 0 a))"
    using rep_acquire by (simp add: xof_rep_def)
  from rekey_loop_rep[OF this] rep_release pad show ?thesis
    by (fastforce simp: ascon_random_rekey_def xof_rep_def Let_def spec_rekey_def)
qed

lemma rekey_counter [simp]: "prng_counter (ascon_random_rekey B st) = prng_counter st"
  by (simp add: ascon_random_rekey_def Let_def)

lemma random_init_rep:
  "\<exists>st'. ascon_random_init B trng w (Some st) = (fst (trng w 32), Some st', snd (snd (trng w 32))) \<and>
     prng_rep rep st' (spec_prng_start (fst (snd (trng w 32))))"
proof -
  have "xof_rep rep (ascon_xof_init_custom B (Some PRNG_NAME) [] 0)
      (fst (spec_custom_start 0 0x00400c0000000000 (Some PRNG_NAME) [] 0), 0, False)"
    using xof_init_custom_rep[of "Some PRNG_NAME" "[]" 0]
      spec_custom_start_fresh[of 0 "0x00400c0000000000" "Some PRNG_NAME" "[]" 0] by simp
  note xof_absorb_rep[OF this, of "fst (snd (trng w 32))"]
  then show ?thesis
    by (auto simp: ascon_random_init_def case_prod_beta Let_def prng_rep_def spec_prng_start_def
        spec_prng_feed_def ASCON_SYSTEM_SEED_SIZE_def intro: rekey_rep)
qed

lemma random_reseed_rep:
  assumes "prng_rep rep st a"
  shows "\<exists>st'. ascon_random_reseed B trng w (Some st) = (fst (trng w 32), Some st', snd (snd (trng w 32))) \<and>
    prng_rep rep st' (spec_prng_feed (fst a) (fst (snd (trng w 32))), 0)"
  using xof_absorb_rep[of "prng_xof st" "(fst a, 0, False)" "fst (snd (trng w 32))"] assms
  by (auto simp: ascon_random_reseed_def case_prod_beta Let_def prng_rep_def
      spec_prng_feed_def ASCON_SYSTEM_SEED_SIZE_def intro: rekey_rep)

lemma random_feed_rep:
  assumes "prng_rep rep st a"
  shows "\<exists>st'. ascon_random_feed B (Some st) xs = Some st' \<and> prng_rep rep st' (spec_prng_feed (fst a) xs, snd a)"
proof -
  have pad: "spec_rekey (fst (sponge_pad 0 c), 0, False) = spec_rekey c" for c
    by (simp add: spec_rekey_def sponge_pad_def)
  have "xof_rep rep (ascon_xof_absorb B (prng_xof st) xs) (sponge_absorb 0 (fst a, 0, False) xs)"
    using assms by (simp add: prng_rep_def xof_absorb_rep)
  from pad_aligned[OF this] rekey_rep[of "st \<lparr> prng_xof := ascon_xof_pad B (ascon_xof_absorb B (prng_xof st) xs) \<rparr>"] assms
  show ?thesis
    by (fastforce simp: ascon_random_feed_def Let_def prng_rep_def spec_prng_feed_def pad split: if_splits)
qed

lemma fetch_fresh:
  assumes "prng_rep rep st (b, n)" "n < 16384"
  shows "\<exists>st'. ascon_random_fetch B trng w (Some st) k = (w, Some st', spec_sponge 0 b [] k) \<and>
    prng_rep rep st' (spec_rekey (fst (lazy_sponge_squeeze (b, 0, False) k)), n + k)"
proof -
  have x: "xof_rep rep (prng_xof st) (b, 0, False)" and c: "unat (prng_counter st) = n"
    using assms by (simp_all add: prng_rep_def)
  have out: "snd (ascon_xof_squeeze B (prng_xof st) k) = spec_sponge 0 b [] k"
    using xof_squeeze_rep[OF x, of k] lazy_sponge_output[of b "[]" k] rep_length x
    by (auto simp: sponge_absorb_Nil xof_rep_def)
  have sq: "xof_rep rep (fst (ascon_xof_squeeze B (prng_xof st) k)) (fst (lazy_sponge_squeeze (b, 0, False) k))"
    using xof_squeeze_rep[OF x] by simp
  show ?thesis
    using out counter_step[of "prng_counter st" k] c assms(2)
    by (auto simp: ascon_random_fetch_def ASCON_RANDOM_RESEED_LIMIT_def case_prod_beta Let_def prng_rep_def
        intro!: rekey_rep sq)
qed

lemma random_fetch_rep:
  assumes "prng_rep rep st a"
  shows "\<exists>st' w' a' out. ascon_random_fetch B trng w (Some st) k = (w', Some st', out) \<and>
    spec_prng_fetch trng w a k = (w', a', out) \<and> prng_rep rep st' a'"
proof (cases "snd a < 16384")
  case True
  with fetch_fresh[of st "fst a" "snd a" trng w k] assms show ?thesis
    by (auto simp: spec_prng_fetch_def split: prod.split)
next
  case False
  obtain w1 seed ok where t: "trng w 32 = (w1, seed, ok)" by (metis prod.exhaust)
  from random_reseed_rep[OF assms, of trng w]
  obtain st1 where reseed: "ascon_random_reseed B trng w (Some st) = (w1, Some st1, ok)"
    and rep1: "prng_rep rep st1 (spec_prng_feed (fst a) seed, 0)" by (auto simp: t)
  then have "prng_counter st1 = 0" by (simp add: prng_rep_def unat_eq_0)
  then have "ascon_random_fetch B trng w (Some st) k = ascon_random_fetch B trng w1 (Some st1) k"
    using reseed assms False
    by (simp add: ascon_random_fetch_def ASCON_RANDOM_RESEED_LIMIT_def prng_rep_def Let_def)
  with fetch_fresh[OF rep1, of trng w1 k] False t show ?thesis
    by (auto simp: spec_prng_fetch_def)
qed

lemma prng_run_rep:
  "prng_rep rep st a \<Longrightarrow>
     outputs (prng_call_step B trng) (w, Some st) cs = outputs (spec_call_step trng) (w, a) cs"
proof (induction cs arbitrary: w st a)
  case (Cons c cs)
  obtain b n where a: "a = (b, n)" by (metis prod.exhaust)
  show ?case
  proof (cases c)
    case (Call_Feed xs)
    with random_feed_rep[OF Cons.prems, of xs] Cons.IH a show ?thesis by auto
  next
    case Call_Reseed
    with random_reseed_rep[OF Cons.prems, of trng w] Cons.IH a show ?thesis
      by (auto simp: case_prod_beta)
  next
    case (Call_Fetch k)
    with random_fetch_rep[OF Cons.prems, of trng w k] Cons.IH a show ?thesis by auto
  qed
qed simp

lemma prng_session_rep: "prng_session B trng st n \<Longrightarrow> \<exists>b. prng_rep rep st (b, n)"
proof (induction rule: prng_session.induct)
  case (session_init w st0 w' st ok)
  then show ?case using random_init_rep[of trng w st0] by (auto simp: spec_prng_start_def)
next
  case (session_reseed st n w w' st' ok)
  then show ?case using random_reseed_rep[of st _ trng w] by fastforce
next
  case (session_feed st n entropy st')
  then show ?case using random_feed_rep[of st _ entropy] by fastforce
next
  case (session_fetch st n w k w' st' out)
  then obtain b where "prng_rep rep st (b, n)" by blast
  from random_fetch_rep[OF this, of trng w k] session_fetch.hyps show ?case
    by (auto simp: spec_prng_fetch_def split: prod.splits if_splits)
qed

lemma random_output:
  "ascon_random B trng w n = (case trng w 32 of (w, seed, ok) \<Rightarrow>
     (w, spec_sponge 0 (spec_xof_start 0x00400c0000000000 (if n \<ge> 2 ^ 29 then 0 else n)) seed n,
      if ok \<noteq> 0 then 1 else 0))"
  using xof_once[OF xof_init_fixed_rep]
  by (simp add: ascon_random_def ASCON_SYSTEM_SEED_SIZE_def Let_def case_prod_beta)

end

end
