(* ===== verification/Trng.thy ===== *)
theory Trng
  imports Sponge_Spec Snp_Sliced64 Snp_Sliced32
begin

text \<open>
  \<open>src/random\<close>: the sources of random bytes behind \<open>ascon_trng_generate\<close> and the generator of masking
  words.  The operating system, the clock, the hardware registers and the application's hook are
  parameters; each takes the state of the world, of type \<open>'w\<close>, and returns the new one.
\<close>

text \<open>The bytes of a word as it lies in memory, on a host of either byte order.\<close>

definition host_bytes32 :: "bool \<Rightarrow> u32 \<Rightarrow> bytes" where
  "host_bytes32 le x = (if le then le_store_word32 x else be_store_word32 x)"

definition host_word32 :: "bool \<Rightarrow> bytes \<Rightarrow> u32" where
  "host_word32 le b = (if le then le_load_word32 b else be_load_word32 b)"

definition host_word64 :: "bool \<Rightarrow> bytes \<Rightarrow> u64" where
  "host_word64 le b = (if le then le_load_word64 b else be_load_word64 b)"

section \<open>The mixer\<close>

text \<open>\<open>ascon-trng-mixer.c\<close>, for systems that have a seed but no fast random word.  Where the backend has
  words the value is a member of the union at the position, and otherwise bytes of the state;
  \<open>word32\<close> and \<open>word64\<close> stand for the two ways.\<close>

record 's trng_state =
  trng_posn :: u32
  trng_prng :: 's

definition ASCON_TRNG_MIXER_RATE :: nat where "ASCON_TRNG_MIXER_RATE = 8"

definition sliced64_word32 :: "bool \<Rightarrow> u64 list \<Rightarrow> nat \<Rightarrow> u32" where
  "sliced64_word32 le S posn =
     (let x = S ! (posn div 4 div 2)
      in if le = (posn div 4 mod 2 = 0) then ucast x else ucast (drop_bit 32 x))"

definition sliced64_word64 :: "u64 list \<Rightarrow> nat \<Rightarrow> u64" where
  "sliced64_word64 S posn = S ! (posn div 8)"

definition sliced32_word32 :: "u32 list \<Rightarrow> nat \<Rightarrow> u32" where
  "sliced32_word32 W posn = W ! (posn div 4)"

definition sliced32_word64 :: "bool \<Rightarrow> u32 list \<Rightarrow> nat \<Rightarrow> u64" where
  "sliced32_word64 le W posn =
     (let x = ucast (W ! (2 * (posn div 8))); y = ucast (W ! (2 * (posn div 8) + 1))
      in if le then x OR push_bit 32 y else y OR push_bit 32 x)"

definition generic_word32 :: "bool \<Rightarrow> 's snp \<Rightarrow> 's \<Rightarrow> nat \<Rightarrow> u32" where
  "generic_word32 le B s posn = host_word32 le (snp_extract_bytes B s posn 4)"

definition generic_word64 :: "bool \<Rightarrow> 's snp \<Rightarrow> 's \<Rightarrow> nat \<Rightarrow> u64" where
  "generic_word64 le B s posn = host_word64 le (snp_extract_bytes B s posn 8)"

type_synonym 'w source = "'w \<Rightarrow> nat \<Rightarrow> 'w \<times> bytes \<times> int"

definition ascon_trng_init :: "'s snp \<Rightarrow> 'w source \<Rightarrow> 'w \<Rightarrow> 'w \<times> 's trng_state \<times> int" where
  "ascon_trng_init B generate w =
     (let (w, seed, ok) = generate w 32;
          prng = snp_init B;
          prng = snp_overwrite_bytes B prng seed (40 - 32) 32;
          prng = ascon_permute12 B prng;
          prng = snp_release B prng
      in (w, \<lparr> trng_posn = 0, trng_prng = prng \<rparr>, ok))"

definition ascon_trng_free :: "'s snp \<Rightarrow> 's trng_state \<Rightarrow> 's trng_state" where
  "ascon_trng_free B st = st \<lparr> trng_prng := snp_free B (snp_acquire B (trng_prng st)) \<rparr>"

definition ascon_trng_generate_32 ::
  "'s snp \<Rightarrow> ('s \<Rightarrow> nat \<Rightarrow> u32) \<Rightarrow> 's trng_state \<Rightarrow> 's trng_state \<times> u32" where
  "ascon_trng_generate_32 B word32 st =
     (let prng = snp_acquire B (trng_prng st);
          (prng, posn) =
            (if unat (trng_posn st) + 4 > ASCON_TRNG_MIXER_RATE then (ascon_permute6 B prng, 0)
             else (prng, trng_posn st));
          x = word32 prng (unat posn);
          prng = snp_release B prng
      in (\<lparr> trng_posn = posn + 4, trng_prng = prng \<rparr>, x))"

definition ascon_trng_generate_64 ::
  "'s snp \<Rightarrow> ('s \<Rightarrow> nat \<Rightarrow> u64) \<Rightarrow> 's trng_state \<Rightarrow> 's trng_state \<times> u64" where
  "ascon_trng_generate_64 B word64 st =
     (let prng = snp_acquire B (trng_prng st);
          (prng, posn) =
            (if unat (trng_posn st) + 8 > ASCON_TRNG_MIXER_RATE \<or> unat (trng_posn st) mod 8 \<noteq> 0
             then (ascon_permute6 B prng, 0) else (prng, trng_posn st));
          x = word64 prng (unat posn);
          prng = snp_release B prng
      in (\<lparr> trng_posn = posn + 8, trng_prng = prng \<rparr>, x))"

definition ascon_trng_reseed :: "'s snp \<Rightarrow> 'w source \<Rightarrow> 'w \<Rightarrow> 's trng_state \<Rightarrow> 'w \<times> 's trng_state \<times> int" where
  "ascon_trng_reseed B generate w st =
     (let (w, seed, ok) = generate w 32;
          prng = snp_acquire B (trng_prng st);
          prng = snp_add_bytes B prng seed (40 - 32) 32;
          prng = snp_overwrite_with_zeroes B prng 0 8;
          prng = ascon_permute12 B prng;
          prng = snp_release B prng
      in (w, st \<lparr> trng_prng := prng, trng_posn := 0 \<rparr>, ok))"

text \<open>What a caller can do with a generator, and the positions at which a word was read.\<close>

inductive trng_session :: "'s snp \<Rightarrow> ('s \<Rightarrow> nat \<Rightarrow> u32) \<Rightarrow> ('s \<Rightarrow> nat \<Rightarrow> u64) \<Rightarrow> 'w source \<Rightarrow> 's trng_state \<Rightarrow> bool"
  for B word32 word64 generate where
  trng_start: "ascon_trng_init B generate w = (w', st, ok) \<Longrightarrow> trng_session B word32 word64 generate st"
| trng_again: "\<lbrakk>trng_session B word32 word64 generate st; ascon_trng_reseed B generate w st = (w', st', ok)\<rbrakk> \<Longrightarrow>
    trng_session B word32 word64 generate st'"
| trng_32: "trng_session B word32 word64 generate st \<Longrightarrow>
    trng_session B word32 word64 generate (fst (ascon_trng_generate_32 B word32 st))"
| trng_64: "trng_session B word32 word64 generate st \<Longrightarrow>
    trng_session B word32 word64 generate (fst (ascon_trng_generate_64 B word64 st))"

section \<open>Without a random source\<close>

text \<open>\<open>ascon-trng-none.c\<close>: a global state that collects timer values and what the application's hook
  offers.  \<open>clock\<close> gives the seconds and the fraction of one clock as two 32-bit words; the branch
  of the code with \<open>clock_gettime\<close> reads two clocks.\<close>

record 's global_prng =
  global_prng :: 's
  global_prng_initialized :: bool

definition ascon_trng_add_timespec :: "'s snp \<Rightarrow> bool \<Rightarrow> 's \<Rightarrow> nat \<Rightarrow> u32 \<Rightarrow> u32 \<Rightarrow> 's" where
  "ascon_trng_add_timespec B le s offset sec partial_sec =
     (let x = host_bytes32 le sec @ host_bytes32 le partial_sec in snp_add_bytes B s x offset 8)"

definition ascon_trng_add_time ::
  "'s snp \<Rightarrow> bool \<Rightarrow> ('w \<Rightarrow> 'w \<times> u32 \<times> u32) \<Rightarrow> ('w \<Rightarrow> 'w \<times> u32 \<times> u32) \<Rightarrow> 'w \<Rightarrow> 's \<Rightarrow> 'w \<times> 's" where
  "ascon_trng_add_time B le monotonic realtime w s =
     (let (w, sec, nsec) = monotonic w;
          s = ascon_trng_add_timespec B le s 0 sec nsec;
          (w, sec, nsec) = realtime w;
          s = ascon_trng_add_timespec B le s 8 sec nsec;
          s = ascon_permute6 B s;
          s = snp_overwrite_with_zeroes B s 0 8;
          s = ascon_permute6 B s
      in (w, s))"

function ascon_trng_squeeze :: "'s snp \<Rightarrow> 's \<Rightarrow> nat \<Rightarrow> 's \<times> bytes" where
  "ascon_trng_squeeze B s outlen =
     (if outlen \<ge> 8 then
        let out1 = snp_extract_bytes B s 0 8; s = ascon_permute6 B s;
            (s, out2) = ascon_trng_squeeze B s (outlen - 8)
        in (s, out1 @ out2)
      else if outlen > 0 then
        let out1 = snp_extract_bytes B s 0 outlen; s = ascon_permute6 B s in (s, out1)
      else (s, []))"
  by pat_completeness auto
termination by (relation "measure (\<lambda>(B, s, outlen). outlen)") auto

declare ascon_trng_squeeze.simps [simp del]

definition ascon_trng_global_init ::
  "'s snp \<Rightarrow> bool \<Rightarrow> ('w \<Rightarrow> 'w \<times> u32 \<times> u32) \<Rightarrow> ('w \<Rightarrow> 'w \<times> u32 \<times> u32) \<Rightarrow> 'w source \<Rightarrow>
     'w \<Rightarrow> 's global_prng \<Rightarrow> 'w \<times> 's global_prng \<times> int" where
  "ascon_trng_global_init B le monotonic realtime get_bytes w g =
     (let s = (if \<not> global_prng_initialized g then snp_init B else snp_acquire B (global_prng g));
          (w, seed, given) = get_bytes w 32;
          (s, ok) = (if given \<noteq> 0 then (snp_add_bytes B s seed 8 32, 1) else (s, 0));
          (w, s) = ascon_trng_add_time B le monotonic realtime w s
      in (w, \<lparr> global_prng = s, global_prng_initialized = True \<rparr>, ok))"

definition none_trng_generate ::
  "'s snp \<Rightarrow> bool \<Rightarrow> ('w \<Rightarrow> 'w \<times> u32 \<times> u32) \<Rightarrow> ('w \<Rightarrow> 'w \<times> u32 \<times> u32) \<Rightarrow> 'w source \<Rightarrow>
     'w \<Rightarrow> 's global_prng \<Rightarrow> nat \<Rightarrow> 'w \<times> 's global_prng \<times> bytes \<times> int" where
  "none_trng_generate B le monotonic realtime get_bytes w g outlen =
     (let (w, g, ok) = ascon_trng_global_init B le monotonic realtime get_bytes w g;
          (s, out) = ascon_trng_squeeze B (global_prng g) outlen;
          s = snp_overwrite_with_zeroes B s 0 8;
          s = ascon_permute6 B s;
          s = snp_release B s
      in (w, g \<lparr> global_prng := s \<rparr>, out, ok))"

text \<open>The hook the library supplies itself declines.\<close>

definition ascon_trng_get_bytes :: "'w source" where
  "ascon_trng_get_bytes w outlen = (w, [], 0)"

section \<open>The operating system's device\<close>

text \<open>\<open>ascon-trng-dev-random.c\<close>.  A system call returns its result, the value of \<open>errno\<close> and the bytes now
  in the buffer; the loops may run for ever, so they are partial functions.\<close>

definition EINTR :: nat where "EINTR = 4"

definition EAGAIN :: nat where "EAGAIN = 11"

type_synonym 'w syscall = "'w \<Rightarrow> nat \<Rightarrow> 'w \<times> int \<times> nat \<times> bytes"

partial_function (option) getrandom_loop :: "'w syscall \<Rightarrow> 'w \<Rightarrow> nat \<Rightarrow> ('w \<times> bytes \<times> int) option" where
  "getrandom_loop getrandom w outlen =
     (case getrandom w outlen of (w, ret, errno, out) \<Rightarrow>
        if ret \<ge> 0 then Some (w, out, 1)
        else if errno \<noteq> EINTR \<and> errno \<noteq> EAGAIN then Some (w, zeros outlen, 0)
        else getrandom_loop getrandom w outlen)"

partial_function (option) read_loop :: "'w syscall \<Rightarrow> 'w \<Rightarrow> nat \<Rightarrow> ('w \<times> bytes \<times> int) option" where
  "read_loop read w outlen =
     (case read w outlen of (w, ret, errno, out) \<Rightarrow>
        if ret = int outlen then Some (w, out, 1)
        else if ret < 0 \<and> errno \<noteq> EINTR \<and> errno \<noteq> EAGAIN then Some (w, zeros outlen, 0)
        else read_loop read w outlen)"

definition device_random_read :: "'w syscall \<Rightarrow> 'w \<Rightarrow> int \<Rightarrow> nat \<Rightarrow> ('w \<times> bytes \<times> int) option" where
  "device_random_read read w fd outlen =
     (if fd \<ge> 0 then read_loop read w outlen else Some (w, zeros outlen, 0))"

definition getrandom_trng_generate :: "'w syscall \<Rightarrow> 'w \<Rightarrow> nat \<Rightarrow> ('w \<times> bytes \<times> int) option" where
  "getrandom_trng_generate getrandom w outlen = getrandom_loop getrandom w outlen"

definition device_trng_generate ::
  "('w \<Rightarrow> 'w \<times> int) \<Rightarrow> 'w syscall \<Rightarrow> ('w \<Rightarrow> int \<Rightarrow> 'w) \<Rightarrow> 'w \<Rightarrow> nat \<Rightarrow> ('w \<times> bytes \<times> int) option" where
  "device_trng_generate open_device read close_device w outlen =
     (let (w, fd) = open_device w in
      case device_random_read read w fd outlen of
        None \<Rightarrow> None
      | Some (w, out, ok) \<Rightarrow> Some (if fd \<ge> 0 then close_device w fd else w, out, ok))"

section \<open>Hardware word sources\<close>

text \<open>\<open>ascon-trng-due.c\<close> waits for the peripheral of the SAM3X8E at most 100 polls per word, and
  \<open>ascon-trng-esp.c\<close> reads one register.  \<open>ready\<close> polls the status, \<open>odata\<close> reads the word.\<close>

fun due_word_loop :: "('w \<Rightarrow> 'w \<times> bool) \<Rightarrow> ('w \<Rightarrow> 'w \<times> u32) \<Rightarrow> nat \<Rightarrow> 'w \<Rightarrow> 'w \<times> u32 \<times> bool" where
  "due_word_loop ready odata 0 w = (w, 0xABADBEEF, False)"
| "due_word_loop ready odata (Suc count) w =
     (let (w, r) = ready w in
      if r then let (w, x) = odata w in (w, x, True)
      else due_word_loop ready odata count w)"

definition due_trng_generate_word :: "('w \<Rightarrow> 'w \<times> bool) \<Rightarrow> ('w \<Rightarrow> 'w \<times> u32) \<Rightarrow> 'w \<Rightarrow> 'w \<times> u32 \<times> bool" where
  "due_trng_generate_word ready odata w = due_word_loop ready odata 100 w"

fun word_fill :: "bool \<Rightarrow> ('w \<Rightarrow> 'w \<times> u32 \<times> bool) \<Rightarrow> nat \<Rightarrow> 'w \<Rightarrow> bool \<Rightarrow> 'w \<times> bytes \<times> bool" where
  "word_fill le word outlen w ok =
     (if outlen \<ge> 4 then
        let (w, x, good) = word w; (w, out, ok) = word_fill le word (outlen - 4) w (ok \<and> good)
        in (w, host_bytes32 le x @ out, ok)
      else if outlen > 0 then
        let (w, x, good) = word w in (w, take outlen (host_bytes32 le x), ok \<and> good)
      else (w, [], ok))"

declare word_fill.simps [simp del]

definition due_trng_generate ::
  "bool \<Rightarrow> ('w \<Rightarrow> 'w \<times> bool) \<Rightarrow> ('w \<Rightarrow> 'w \<times> u32) \<Rightarrow> 'w \<Rightarrow> nat \<Rightarrow> 'w \<times> bytes \<times> int" where
  "due_trng_generate le ready odata w outlen =
     (let (w, out, ok) = word_fill le (due_trng_generate_word ready odata) outlen w True
      in (w, out, if ok then 1 else 0))"

definition due_trng_generate_64 :: "('w \<Rightarrow> 'w \<times> bool) \<Rightarrow> ('w \<Rightarrow> 'w \<times> u32) \<Rightarrow> 'w \<Rightarrow> 'w \<times> u64" where
  "due_trng_generate_64 ready odata w =
     (let (w, low, _) = due_trng_generate_word ready odata w;
          (w, high, _) = due_trng_generate_word ready odata w
      in (w, ucast low OR push_bit 32 (ucast high)))"

definition esp_trng_generate :: "bool \<Rightarrow> ('w \<Rightarrow> 'w \<times> u32) \<Rightarrow> 'w \<Rightarrow> nat \<Rightarrow> 'w \<times> bytes \<times> int" where
  "esp_trng_generate le esp_random w outlen =
     (let (w, out, ok) = word_fill le (\<lambda>w. let (w, x) = esp_random w in (w, x, True)) outlen w True
      in (w, out, 1))"

section \<open>What the mixer reads\<close>

text \<open>The two ways to read a word agree with a function of the 40 bytes, at the positions the generator
  reads from.\<close>

locale mixer_backend = snp_laws B rep for B :: "'s snp" and rep +
  fixes word32 :: "'s \<Rightarrow> nat \<Rightarrow> u32" and value32 :: "bytes \<Rightarrow> nat \<Rightarrow> u32"
    and word64 :: "'s \<Rightarrow> nat \<Rightarrow> u64" and value64 :: "bytes \<Rightarrow> u64"
  assumes rep_word32: "\<lbrakk>rep s b; i < 2\<rbrakk> \<Longrightarrow> word32 s (4 * i) = value32 b i"
    and rep_word64: "rep s b \<Longrightarrow> word64 s 0 = value64 b"

definition host_value32 :: "bool \<Rightarrow> bytes \<Rightarrow> nat \<Rightarrow> u32" where
  "host_value32 le b i = host_word32 le (get_at b (4 * i) 4)"

definition sliced64_value32 :: "bool \<Rightarrow> bytes \<Rightarrow> nat \<Rightarrow> u32" where
  "sliced64_value32 le b i =
     (let x = be_load_word64 b in if le = (i = 0) then ucast x else ucast (drop_bit 32 x))"

sublocale snp_laws \<subseteq> mixer_generic: mixer_backend B rep
    "generic_word32 le B" "host_value32 le" "generic_word64 le B" "\<lambda>b. host_word64 le (get_at b 0 8)" for le
  by unfold_locales (simp_all add: generic_word32_def generic_word64_def host_value32_def rep_extract)

lemma first_word: "rep_sliced64 S b \<Longrightarrow> S ! 0 = be_load_word64 b"
  by (auto simp: rep_sliced64_def length_Suc_conv numeral_eq_Suc be_load_word64_append)

interpretation mixer_sliced64: mixer_backend "sliced64 le" rep_sliced64
    "sliced64_word32 le" "sliced64_value32 le" sliced64_word64 be_load_word64 for le
proof unfold_locales
  fix s b i assume r: "rep_sliced64 s b" and i: "i < (2::nat)"
  then have "4 * i div 4 div 2 = 0" "(4 * i div 4 mod 2 = 0) = (i = 0)" by auto
  with first_word[OF r] show "sliced64_word32 le s (4 * i) = sliced64_value32 le b i"
    by (simp add: sliced64_word32_def sliced64_value32_def)
qed (simp add: sliced64_word64_def first_word)

fun calls :: "('st \<Rightarrow> 'st \<times> 'o) \<Rightarrow> nat \<Rightarrow> 'st \<Rightarrow> 'o list" where
  "calls f 0 st = []"
| "calls f (Suc n) st = (case f st of (st, x) \<Rightarrow> x # calls f n st)"

abbreviation mix :: "bytes \<Rightarrow> bytes" where "mix b \<equiv> permute_bytes b 6"

lemma map_upt_Suc0: "map f [0..<Suc n] = f 0 # map (\<lambda>k. f (Suc k)) [0..<n]"
  by (simp add: map_upt_Suc del: upt_Suc)

lemma posn_cases: "i \<le> 2 \<Longrightarrow> i = 0 \<or> i = 1 \<or> i = (2::nat)"
  by auto

context mixer_backend
begin

lemma generate_32_rep:
  assumes "rep (trng_prng st) b" "trng_posn st = of_nat (4 * i)" "i \<le> 2"
  shows "\<exists>st'. ascon_trng_generate_32 B word32 st = (st', value32 ((mix ^^ (i div 2)) b) (i mod 2)) \<and>
    rep (trng_prng st') ((mix ^^ (i div 2)) b) \<and> trng_posn st' = of_nat (4 * (i mod 2 + 1))"
proof -
  have acq: "rep (snp_acquire B (trng_prng st)) b" using rep_acquire[OF assms(1)] .
  have per: "rep (snp_permute B (snp_acquire B (trng_prng st)) 6) (mix b)" using rep_permute[OF acq] .
  have r32: "word32 (snp_acquire B (trng_prng st)) 0 = value32 b 0"
      "word32 (snp_acquire B (trng_prng st)) 4 = value32 b 1"
      "word32 (snp_permute B (snp_acquire B (trng_prng st)) 6) 0 = value32 (mix b) 0"
    using rep_word32[OF acq, of 0] rep_word32[OF acq, of 1] rep_word32[OF per, of 0] by simp_all
  consider "i = 0" | "i = 1" | "i = 2" using assms(3) posn_cases by blast
  then show ?thesis
  proof cases
    case 1
    with assms(2) r32 rep_release[OF acq] show ?thesis
      by (simp add: ascon_trng_generate_32_def ASCON_TRNG_MIXER_RATE_def Let_def)
  next
    case 2
    with assms(2) r32 rep_release[OF acq] show ?thesis
      by (simp add: ascon_trng_generate_32_def ASCON_TRNG_MIXER_RATE_def Let_def)
  next
    case 3
    with assms(2) r32 rep_release[OF per] show ?thesis
      by (simp add: ascon_trng_generate_32_def ASCON_TRNG_MIXER_RATE_def ascon_permute6_def Let_def)
  qed
qed

lemma words_32:
  assumes "rep (trng_prng st) b" "trng_posn st = of_nat (4 * i)" "i \<le> 2"
  shows "calls (ascon_trng_generate_32 B word32) n st =
    map (\<lambda>k. value32 ((mix ^^ ((i + k) div 2)) b) ((i + k) mod 2)) [0..<n]"
  using assms
proof (induction n arbitrary: st b i)
  case (Suc n)
  from generate_32_rep[OF Suc.prems] obtain st'
    where st': "ascon_trng_generate_32 B word32 st = (st', value32 ((mix ^^ (i div 2)) b) (i mod 2))"
      "rep (trng_prng st') ((mix ^^ (i div 2)) b)" "trng_posn st' = of_nat (4 * (i mod 2 + 1))" by blast
  have eq: "(mix ^^ ((i mod 2 + 1 + k) div 2)) ((mix ^^ (i div 2)) b) = (mix ^^ ((i + Suc k) div 2)) b"
    "(i mod 2 + 1 + k) mod 2 = (i + Suc k) mod 2" for k
  proof -
    have "(i mod 2 + 1 + k) div 2 + i div 2 = (i + Suc k) div 2" by presburger
    then show "(mix ^^ ((i mod 2 + 1 + k) div 2)) ((mix ^^ (i div 2)) b) = (mix ^^ ((i + Suc k) div 2)) b"
      by (metis funpow_add comp_apply)
    show "(i mod 2 + 1 + k) mod 2 = (i + Suc k) mod 2" using mod_add_left_eq[of i 2 "Suc k"] by simp
  qed
  have "i mod 2 + 1 \<le> 2" by simp
  note IH = Suc.IH[OF st'(2,3) this]
  show ?case
    unfolding calls.simps(2) st'(1) prod.case IH map_upt_Suc0 eq add_0_right ..
qed simp

lemma generate_64_rep:
  assumes "rep (trng_prng st) b" "trng_posn st = of_nat (8 * i)" "i \<le> 1"
  shows "\<exists>st'. ascon_trng_generate_64 B word64 st = (st', value64 ((mix ^^ i) b)) \<and>
    rep (trng_prng st') ((mix ^^ i) b) \<and> trng_posn st' = of_nat 8"
proof -
  have "i = 0 \<or> i = 1" using assms(3) by auto
  then show ?thesis
    using rep_word64[OF rep_acquire[OF assms(1)]] rep_word64[OF rep_permute[OF rep_acquire[OF assms(1)]], of 6]
      rep_permute[OF rep_acquire[OF assms(1)], of 6] rep_acquire[OF assms(1)] assms(2)
    by (auto simp: ascon_trng_generate_64_def ASCON_TRNG_MIXER_RATE_def ascon_permute6_def Let_def rep_release)
qed

lemma words_64:
  assumes "rep (trng_prng st) b" "trng_posn st = of_nat (8 * i)" "i \<le> 1"
  shows "calls (ascon_trng_generate_64 B word64) n st = map (\<lambda>k. value64 ((mix ^^ (i + k)) b)) [0..<n]"
  using assms
proof (induction n arbitrary: st b i)
  case (Suc n)
  from generate_64_rep[OF Suc.prems] obtain st'
    where st': "ascon_trng_generate_64 B word64 st = (st', value64 ((mix ^^ i) b))"
      "rep (trng_prng st') ((mix ^^ i) b)" "trng_posn st' = of_nat (8 * 1)" by auto
  have "(mix ^^ (1 + k)) ((mix ^^ i) b) = (mix ^^ (i + Suc k)) b" for k
  proof -
    have "1 + k + i = i + Suc k" by simp
    then show ?thesis by (metis funpow_add comp_apply)
  qed
  with Suc.IH[OF st'(2,3)] st'(1) show ?case
    by (simp add: map_upt_Suc0 del: upt_Suc)
qed simp

lemma trng_init_rep:
  assumes "length (fst (snd (generate w 32))) = 32"
  shows "\<exists>st. ascon_trng_init B generate w = (fst (generate w 32), st, snd (snd (generate w 32))) \<and>
    trng_posn st = 0 \<and> rep (trng_prng st) (permute_bytes (zeros 8 @ fst (snd (generate w 32))) 0)"
proof -
  define seed where "seed = fst (snd (generate w 32))"
  have "put_at (zeros 40) 8 seed = zeros 8 @ seed"
    using assms by (intro nth_equalityI) (auto simp: seed_def byte_nth nth_append)
  with rep_permute[OF rep_overwrite[OF rep_init, of 32 seed 8], of 0] assms show ?thesis
    by (auto simp: ascon_trng_init_def ascon_permute12_def Let_def case_prod_beta seed_def rep_release)
qed

end

text \<open>The position is always one from which a whole word of the first eight bytes can be read.\<close>

lemma trng_session_posn:
  "trng_session B word32 word64 generate st \<Longrightarrow> trng_posn st \<in> {0, 4, 8}"
proof (induction rule: trng_session.induct)
  case (trng_32 st)
  then show ?case
    by (auto simp: ascon_trng_generate_32_def ASCON_TRNG_MIXER_RATE_def Let_def split: prod.splits)
next
  case (trng_64 st)
  then show ?case
    by (auto simp: ascon_trng_generate_64_def ASCON_TRNG_MIXER_RATE_def Let_def split: prod.splits)
qed (auto simp: ascon_trng_init_def ascon_trng_reseed_def Let_def split: prod.splits)

section \<open>The loops on system calls\<close>

text \<open>An interrupted call is repeated; the first other answer decides.\<close>

definition transient :: "int \<times> nat \<times> bytes \<Rightarrow> bool" where
  "transient r \<longleftrightarrow> fst r < 0 \<and> (fst (snd r) = EINTR \<or> fst (snd r) = EAGAIN)"

lemma getrandom_loop_result:
  assumes "\<And>j. j < k \<Longrightarrow> transient (snd (getrandom (((\<lambda>w. fst (getrandom w n)) ^^ j) w) n))"
    and "getrandom (((\<lambda>w. fst (getrandom w n)) ^^ k) w) n = (w', ret, errno, out)"
    and "\<not> transient (ret, errno, out)"
  shows "getrandom_loop getrandom w n = Some (w', if ret \<ge> 0 then out else zeros n, if ret \<ge> 0 then 1 else 0)"
  using assms
proof (induction k arbitrary: w)
  case 0
  then show ?case
    by (subst getrandom_loop.simps) (auto simp: transient_def)
next
  case (Suc k)
  let ?next = "\<lambda>w. fst (getrandom w n)"
  have tr: "transient (snd (getrandom ((?next ^^ j) (?next w)) n))" if "j < k" for j
    using Suc.prems(1)[of "Suc j"] that by (simp add: funpow_Suc_right del: funpow.simps(2))
  have "getrandom ((?next ^^ k) (?next w)) n = (w', ret, errno, out)"
    using Suc.prems(2) by (simp add: funpow_Suc_right del: funpow.simps(2))
  note IH = Suc.IH[OF tr this Suc.prems(3)]
  moreover have "getrandom_loop getrandom w n = getrandom_loop getrandom (?next w) n"
    using Suc.prems(1)[of 0] by (subst getrandom_loop.simps) (auto simp: transient_def split: prod.splits)
  ultimately show ?case by simp
qed

text \<open>The wait for the peripheral ends after at most 100 polls, with the word or the marker.\<close>

lemma length_word_fill: "length (fst (snd (word_fill le word n w ok))) = n"
proof (induction le word n w ok rule: word_fill.induct)
  case (1 le word n w ok)
  then show ?case
    by (subst word_fill.simps)
      (auto simp: Let_def host_bytes32_def split: prod.splits)
qed

end
