(* ===== verification/Hex.thy ===== *)
theory Hex
  imports Ascon_Prelude
begin

text \<open>
  \<open>core/ascon-hex.c\<close>: hexadecimal strings, and the C++ function of \<open>ascon/utility.h\<close> that is built
  on the parser.  Characters are their ASCII codes.  A function that fills a buffer returns its
  result and the bytes it wrote; the result is an \<open>int\<close> of 32 bits.
\<close>

section \<open>The code\<close>

definition hex_lower :: bytes where "hex_lower = map of_char ''0123456789abcdef''"

definition hex_upper :: bytes where "hex_upper = map of_char ''0123456789ABCDEF''"

fun bytes_to_hex_loop :: "bytes \<Rightarrow> bytes \<Rightarrow> bytes" where
  "bytes_to_hex_loop hex_chars (ch # inp) =
     hex_chars ! unat (drop_bit 4 ch AND 0x0F) # hex_chars ! unat (ch AND 0x0F) #
     bytes_to_hex_loop hex_chars inp"
| "bytes_to_hex_loop hex_chars [] = []"

definition ascon_bytes_to_hex :: "nat \<Rightarrow> bytes \<Rightarrow> bool \<Rightarrow> int \<times> bytes" where
  "ascon_bytes_to_hex outlen inp upper_case =
     (let hex_chars = (if upper_case then hex_upper else hex_lower) in
      if outlen < length inp * 2 + 1 then (-1, if outlen > 0 then [0] else [])
      else
        let out = bytes_to_hex_loop hex_chars inp; posn = length out
        in (sint (of_nat posn :: u32), out @ [0]))"

definition hex_digit :: "u8 \<Rightarrow> u8 option" where
  "hex_digit ch =
     (if ch \<ge> of_char CHR ''0'' \<and> ch \<le> of_char CHR ''9'' then Some (ch - of_char CHR ''0'')
      else if ch \<ge> of_char CHR ''a'' \<and> ch \<le> of_char CHR ''f'' then Some (ch - of_char CHR ''a'' + 10)
      else if ch \<ge> of_char CHR ''A'' \<and> ch \<le> of_char CHR ''F'' then Some (ch - of_char CHR ''A'' + 10)
      else None)"

definition hex_space :: "u8 \<Rightarrow> bool" where
  "hex_space ch \<longleftrightarrow> ch = 0x20 \<or> ch = 0x09 \<or> ch = 0x0D \<or> ch = 0x0A \<or> ch = 0x0C \<or> ch = 0x0B"

text \<open>The loop of the parser on what is left of the input; \<open>out\<close> is what has been written.\<close>

fun bytes_from_hex_loop :: "nat \<Rightarrow> bytes \<Rightarrow> u8 \<Rightarrow> bool \<Rightarrow> bytes \<Rightarrow> int \<times> bytes" where
  "bytes_from_hex_loop outlen out val nibble (ch # inp) =
     (case hex_digit ch of
        Some digit \<Rightarrow>
          if nibble then
            if length out \<ge> outlen then (-1, out)
            else bytes_from_hex_loop outlen (out @ [val OR digit]) val False inp
          else bytes_from_hex_loop outlen out (push_bit 4 digit) True inp
      | None \<Rightarrow> if hex_space ch then bytes_from_hex_loop outlen out val nibble inp else (-1, out))"
| "bytes_from_hex_loop outlen out val nibble [] =
     (if nibble then (-1, out) else (sint (of_nat (length out) :: u32), out))"

definition ascon_bytes_from_hex :: "nat \<Rightarrow> bytes \<Rightarrow> int \<times> bytes" where
  "ascon_bytes_from_hex outlen inp = bytes_from_hex_loop outlen [] 0 False inp"

text \<open>The C++ function: an array of half the length of the string, zero at first, handed to the
  parser.\<close>

definition cpp_bytes_from_hex :: "bytes \<Rightarrow> bytes" where
  "cpp_bytes_from_hex str =
     (let vec = zeros (length str div 2); (result, out) = ascon_bytes_from_hex (length vec) str
      in if result \<noteq> -1 then put_at vec 0 out else [])"

section \<open>Printing and parsing\<close>

lemma hex_digits:
  "i < 16 \<Longrightarrow> hex_digit (hex_lower ! i) = Some (of_nat i)"
  "i < 16 \<Longrightarrow> hex_digit (hex_upper ! i) = Some (of_nat i)"
proof -
  have "list_all (\<lambda>i. hex_digit (hex_lower ! i) = Some (of_nat i) \<and> hex_digit (hex_upper ! i) = Some (of_nat i)) [0..<16]"
    by code_simp
  then show "i < 16 \<Longrightarrow> hex_digit (hex_lower ! i) = Some (of_nat i)"
    "i < 16 \<Longrightarrow> hex_digit (hex_upper ! i) = Some (of_nat i)"
    by (simp_all add: list_all_iff)
qed

lemma space_not_digit: "hex_space ch \<Longrightarrow> hex_digit ch = None"
proof -
  have "hex_digit 0x20 = None" "hex_digit 0x09 = None" "hex_digit 0x0D = None" "hex_digit 0x0A = None"
    "hex_digit 0x0C = None" "hex_digit 0x0B = None" by code_simp+
  then show "hex_space ch \<Longrightarrow> hex_digit ch = None" by (auto simp: hex_space_def)
qed

lemma length_to_hex: "length (bytes_to_hex_loop cs xs) = 2 * length xs"
  by (induction cs xs rule: bytes_to_hex_loop.induct) simp_all

lemma nibbles:
  "push_bit 4 (drop_bit 4 x AND 0x0F) OR (x AND 0x0F) = (x :: u8)"
  "unat (drop_bit 4 x AND 0x0F) < 16" "unat (x AND 0x0F) < 16"
proof -
  have low: "y AND 0x0F = take_bit 4 y" for y :: u8
    by (simp add: take_bit_eq_mask mask_eq_exp_minus_1)
  show "push_bit 4 (drop_bit 4 x AND 0x0F) OR (x AND 0x0F) = (x :: u8)"
    unfolding low by (rule bit_word_eqI) (auto simp: bit_simps)
  have "unat (y AND 0x0F) < 16" for y :: u8
    unfolding low by (simp add: unsigned_take_bit_eq take_bit_nat_less_exp[of 4, simplified])
  then show "unat (drop_bit 4 x AND 0x0F) < 16" "unat (x AND 0x0F) < 16" by blast+
qed

text \<open>The parser skips white space: it depends only on the other characters.\<close>

lemma from_hex_filter:
  "bytes_from_hex_loop outlen out val nibble (filter (\<lambda>c. \<not> hex_space c) inp) =
     bytes_from_hex_loop outlen out val nibble inp"
  by (induction outlen out val nibble inp rule: bytes_from_hex_loop.induct)
    (auto simp: space_not_digit split: option.splits)

lemma from_hex_to_hex:
  assumes "cs = hex_lower \<or> cs = hex_upper"
  shows "length out + length xs \<le> outlen \<Longrightarrow>
    bytes_from_hex_loop outlen out val False (bytes_to_hex_loop cs xs) =
      (sint (of_nat (length out + length xs) :: u32), out @ xs)"
proof (induction xs arbitrary: out val)
  case (Cons x xs)
  define hi lo where "hi = drop_bit 4 x AND 0x0F" and "lo = x AND 0x0F"
  have "hex_digit (cs ! unat hi) = Some hi" "hex_digit (cs ! unat lo) = Some lo"
    using assms hex_digits nibbles(2,3)[of x] by (auto simp: hi_def lo_def)
  moreover have "push_bit 4 hi OR lo = x" by (simp only: hi_def lo_def nibbles(1))
  moreover have "bytes_to_hex_loop cs (x # xs) = cs ! unat hi # cs ! unat lo # bytes_to_hex_loop cs xs"
    by (simp add: hi_def lo_def)
  ultimately show ?case
    using Cons.IH[of "out @ [x]"] Cons.prems by (simp del: bytes_to_hex_loop.simps)
qed simp

lemma from_hex_short:
  assumes "cs = hex_lower \<or> cs = hex_upper"
  shows "\<lbrakk>length out \<le> outlen; outlen < length out + length xs\<rbrakk> \<Longrightarrow>
    bytes_from_hex_loop outlen out val False (bytes_to_hex_loop cs xs) = (-1, out @ take (outlen - length out) xs)"
proof (induction xs arbitrary: out val)
  case (Cons x xs)
  define hi lo where "hi = drop_bit 4 x AND 0x0F" and "lo = x AND 0x0F"
  have "hex_digit (cs ! unat hi) = Some hi" "hex_digit (cs ! unat lo) = Some lo"
    using assms hex_digits nibbles(2,3)[of x] by (auto simp: hi_def lo_def)
  moreover have "push_bit 4 hi OR lo = x" by (simp only: hi_def lo_def nibbles(1))
  moreover have "bytes_to_hex_loop cs (x # xs) = cs ! unat hi # cs ! unat lo # bytes_to_hex_loop cs xs"
    by (simp add: hi_def lo_def)
  moreover have "outlen = length out \<or> outlen - length out = Suc (outlen - Suc (length out))"
    using Cons.prems by auto
  ultimately show ?case
    using Cons.IH[of "out @ [x]"] Cons.prems by (auto simp del: bytes_to_hex_loop.simps)
qed simp

text \<open>What the C++ function does with white space: the array keeps the length that the string
  suggests, so zero bytes follow the value.\<close>

lemma cpp_from_hex_trailing_zero: "cpp_bytes_from_hex (map of_char ''61  '') = [0x61, 0]"
  by code_simp

end
