(* ===== verification/Random_Properties.thy ===== *)
theory Random_Properties
  imports Prng Trng Hex
begin

text \<open>
  The properties of the random number generation and of the hexadecimal conversions.
\<close>

section \<open>The pseudorandom generator\<close>

text \<open>Property C16. The pseudorandom generator is its specification: initialised and driven by any sequence of
  feeding, re-seeding and fetching, on either byte order, it returns the results and the bytes of
  the sponge that absorbs the seeds, squeezes each request from the re-keyed block, erases the rate
  four times after every operation, and asks the system for a seed again before a fetch once 16384
  bytes have been handed out.\<close>

theorem prng_outputs_ideal:
  "(case ascon_random_init (sliced64 le) trng w (Some st) of (w1, st1, ok) \<Rightarrow>
      (ok, outputs (prng_call_step (sliced64 le) trng) (w1, st1) cs)) =
   (case trng w 32 of (w1, seed, ok) \<Rightarrow> (ok, outputs (spec_call_step trng) (w1, spec_prng_start seed) cs))"
proof -
  note laws = sliced64.snp_laws_axioms[of le]
  obtain w1 seed ok where t: "trng w 32 = (w1, seed, ok)" by (metis prod.exhaust)
  obtain st1 where "ascon_random_init (sliced64 le) trng w (Some st) = (w1, Some st1, ok)"
    "prng_rep rep_sliced64 st1 (spec_prng_start seed)"
    using snp_laws.random_init_rep[OF laws, of trng w st] by (auto simp: t)
  with snp_laws.prng_run_rep[OF laws this(2)] show ?thesis by (simp add: t)
qed

text \<open>In every state a caller can reach, the counter of the generator is the number of bytes handed
  out since the system was last asked for a seed, as long as that is below the limit of 16384, and
  from then on it stays at or above the limit, below 32768, so that the addition in 32 bits never
  wraps and the next fetch re-seeds.\<close>

theorem prng_counter_invariant:
  assumes "prng_session (sliced64 le) trng st n"
  shows "(if n < 16384 then unat (prng_counter st) = n
     else 16384 \<le> unat (prng_counter st) \<and> unat (prng_counter st) < 32768)"
  using snp_laws.prng_session_rep[OF sliced64.snp_laws_axioms assms]
  by (auto simp: prng_rep_def)

lemma prng_counter_invariant_witness:
  "\<exists>st. prng_session (sliced64 True) (\<lambda>w n. (w :: unit, zeros n, 1)) st 20 \<and> unat (prng_counter st) = 20"
proof -
  let ?trng = "\<lambda>w n. (w :: unit, zeros n, 1)" and ?B = "sliced64 True"
  note laws = sliced64.snp_laws_axioms[of True]
  obtain st1 where st1: "ascon_random_init ?B ?trng () (Some undefined) = ((), Some st1, 1)"
    using snp_laws.random_init_rep[OF laws, of ?trng "()" undefined] by auto
  have session: "prng_session ?B ?trng st1 0" by (rule prng_session.session_init[OF st1])
  obtain b where "prng_rep rep_sliced64 st1 (b, 0)"
    using snp_laws.prng_session_rep[OF laws session] by blast
  from snp_laws.random_fetch_rep[OF laws this, of ?trng "()" 20] obtain st2 w out
    where "ascon_random_fetch ?B ?trng () (Some st1) 20 = (w, Some st2, out)" by blast
  from prng_session.session_fetch[OF session this] have "prng_session ?B ?trng st2 20" by simp
  with prng_counter_invariant[OF this] show ?thesis by auto
qed

text \<open>Property C22. Loading a seed file returns -1, and changes nothing, when the generator or the device is missing
  or the device is smaller than 32 bytes.  Otherwise the generator absorbs the stored seed only if
  32 bytes were read, absorbs a seed that it asks the system for, and hands 32 bytes that it then squeezes to the
  device as the new stored seed, ignoring whether the system and the device report success; it returns 1 if 32
  bytes were read and 0 if not.  (The documentation in \<open>random.h\<close> has 0 for success and -1 for a storage that fails.)\<close>

theorem load_seed_result:
  assumes "prng_rep rep_sliced64 st (b, n)"
  shows "ascon_random_load_seed (sliced64 le) trng w None dev = (w, None, -1) \<and>
    ascon_random_load_seed (sliced64 le) trng w (Some st) None = (w, Some st, -1) \<and>
    (storage_size d < 32 \<longrightarrow> ascon_random_load_seed (sliced64 le) trng w (Some st) (Some d) = (w, Some st, -1)) \<and>
    (storage_size d \<ge> 32 \<longrightarrow>
      (let (w1, got, stored) = storage_read d w 0 32;
           b1 = (if got = 32 then spec_prng_feed b stored else b);
           (w2, seed, ok) = trng w1 32;
           b2 = spec_prng_feed b1 seed;
           fresh = spec_sponge 0 b2 [] 32;
           (w3, written) = storage_write d w2 0 fresh (storage_erase_size d \<noteq> 0)
       in \<exists>st'. ascon_random_load_seed (sliced64 le) trng w (Some st) (Some d) =
            (w3, Some st', if got = 32 then 1 else 0) \<and>
          prng_rep rep_sliced64 st' (spec_rekey (fst (lazy_sponge_squeeze (b2, 0, False) 32)), 32)))"
proof -
  note laws = sliced64.snp_laws_axioms[of le]
  obtain w1 got stored where read: "storage_read d w 0 32 = (w1, got, stored)" by (metis prod.exhaust)
  obtain w2 seed ok where t: "trng w1 32 = (w2, seed, ok)" by (metis prod.exhaust)
  define b1 where "b1 = (if got = 32 then spec_prng_feed b stored else b)"
  obtain st1 m where st1: "(if got = 32 then ascon_random_feed (sliced64 le) (Some st) stored else Some st) = Some st1"
    "prng_rep rep_sliced64 st1 (b1, m)"
  proof (cases "got = 32")
    case True
    then show ?thesis using that snp_laws.random_feed_rep[OF laws assms, of stored] by (auto simp: b1_def)
  next
    case False
    then show ?thesis using that assms by (simp add: b1_def)
  qed
  obtain st2 where st2: "ascon_random_reseed (sliced64 le) trng w1 (Some st1) = (w2, Some st2, ok)"
    "prng_rep rep_sliced64 st2 (spec_prng_feed b1 seed, 0)"
    using snp_laws.random_reseed_rep[OF laws st1(2), of trng w1] by (auto simp: t)
  obtain st3 where st3: "ascon_random_fetch (sliced64 le) trng w2 (Some st2) 32 =
      (w2, Some st3, spec_sponge 0 (spec_prng_feed b1 seed) [] 32)"
    "prng_rep rep_sliced64 st3 (spec_rekey (fst (lazy_sponge_squeeze (spec_prng_feed b1 seed, 0, False) 32)), 32)"
    using snp_laws.fetch_fresh[OF laws st2(2), of trng w2 32] by auto
  show ?thesis
    using st3(2) read t st1(1) st2(1) st3(1)
    by (auto simp: ascon_random_load_seed_def ASCON_RANDOM_SAVED_SEED_SIZE_def Let_def
        split: prod.splits if_splits simp flip: b1_def)
qed

lemma load_seed_result_witness:
  "\<exists>st st'. ascon_random_load_seed (sliced64 True) (\<lambda>w n. (w :: unit, zeros n, 1)) () (Some st)
     (Some \<lparr> storage_page_size = 1, storage_erase_size = 0, storage_address = 0, storage_size = 64,
       storage_partial_writes = False, storage_read = (\<lambda>w a n. (w, int n, zeros n)),
             storage_write = (\<lambda>w a b e. (w, int (length b))) \<rparr>) = ((), Some st', 1)"
proof -
  let ?trng = "\<lambda>w n. (w :: unit, zeros n, 1)"
  let ?d = "\<lparr> storage_page_size = 1, storage_erase_size = 0, storage_address = 0, storage_size = 64,
       storage_partial_writes = False, storage_read = (\<lambda>w a n. (w :: unit, int n, zeros n)),
    storage_write = (\<lambda>w a b e. (w, int (length b))) \<rparr>"
  obtain st b where "prng_rep rep_sliced64 st (b, 0)"
    using snp_laws.random_init_rep[OF sliced64.snp_laws_axioms, of True ?trng "()" undefined]
    by (auto simp: spec_prng_start_def)
  from load_seed_result[OF this, where dev = None and d = ?d and trng = ?trng and w = "()" and le = True] show ?thesis by (auto simp: Let_def)
qed

section \<open>The random sources\<close>

text \<open>After a start from a seed of 32 bytes, the mixer gives the 32-bit words of the first eight bytes
  of the state, both of them before each permutation with 6 rounds, and the 64-bit words one per
  permutation: no word of a state is given twice, for any number of calls and on either byte order.\<close>

theorem trng_words:
  assumes "generate w 32 = (w1, seed, ok)" and "length seed = 32"
  shows "\<exists>st. ascon_trng_init (sliced64 le) generate w = (w1, st, ok) \<and>
    calls (ascon_trng_generate_32 (sliced64 le) (sliced64_word32 le)) n st =
      map (\<lambda>k. sliced64_value32 le ((mix ^^ (k div 2)) (permute_bytes (zeros 8 @ seed) 0)) (k mod 2)) [0..<n] \<and>
    calls (ascon_trng_generate_64 (sliced64 le) sliced64_word64) n st =
      map (\<lambda>k. be_load_word64 ((mix ^^ k) (permute_bytes (zeros 8 @ seed) 0))) [0..<n]"
proof -
  note laws = mixer_sliced64.mixer_backend_axioms[of le]
  obtain st where st: "ascon_trng_init (sliced64 le) generate w = (w1, st, ok)" "trng_posn st = 0"
    "rep_sliced64 (trng_prng st) (permute_bytes (zeros 8 @ seed) 0)"
    using mixer_backend.trng_init_rep[OF laws, of generate w] assms by auto
  from mixer_backend.words_32[OF laws st(3), of 0 n] mixer_backend.words_64[OF laws st(3), of 0 n] st(1,2)
  show ?thesis by simp
qed

lemma trng_words_witness:
  "\<exists>st. ascon_trng_init (sliced64 True) (\<lambda>w n. (w :: unit, zeros n, 1)) () = ((), st, 1) \<and>
    length (calls (ascon_trng_generate_32 (sliced64 True) (sliced64_word32 True)) 5 st) = 5"
  using trng_words[of "\<lambda>w n. (w :: unit, zeros n, 1)" "()" "()" "zeros 32" 1 True 5] by auto

text \<open>Property C23. The loop on \<open>getrandom\<close> ends as soon as the system gives an answer other than being interrupted:
  after any number of interrupted calls it returns 1 with the bytes of the first call that
  succeeds, or 0 with a zeroed buffer at the first permanent error.\<close>

theorem getrandom_returns:
  assumes "\<And>j. j < k \<Longrightarrow> transient (snd (getrandom (((\<lambda>w. fst (getrandom w n)) ^^ j) w) n))"
    and "getrandom (((\<lambda>w. fst (getrandom w n)) ^^ k) w) n = (w', ret, errno, out)"
    and "\<not> transient (ret, errno, out)"
  shows "getrandom_trng_generate getrandom w n =
    Some (w', if ret \<ge> 0 then out else zeros n, if ret \<ge> 0 then 1 else 0)"
  unfolding getrandom_trng_generate_def
  by (rule getrandom_loop_result[of k getrandom n w]) (use assms in auto)

lemma getrandom_returns_witness:
  "getrandom_trng_generate
     (\<lambda>w n. if w < 3 then (w + 1, -1, EINTR, []) else (w :: nat, int n, 0, replicate n 7)) 0 2 = Some (3, [7, 7], 1)"
proof -
  let ?g = "\<lambda>w n. if w < 3 then (w + 1, -1, EINTR, []) else (w :: nat, int n, 0, replicate n (7 :: u8))"
  have steps: "j \<le> 3 \<Longrightarrow> ((\<lambda>w. fst (?g w 2)) ^^ j) 0 = j" for j
    by (induction j) simp_all
  have "getrandom_trng_generate ?g 0 2 = Some (3, if int 2 \<ge> 0 then replicate 2 7 else zeros 2, if int 2 \<ge> 0 then 1 else 0)"
    by (rule getrandom_returns[of 3 ?g 2 0 3 "int 2" 0 "replicate 2 7"])
      (simp_all add: steps transient_def)
  then show ?thesis by (simp add: numeral_eq_Suc)
qed

section \<open>Hexadecimal strings\<close>

text \<open>Parsing undoes printing, in either case and with white space put anywhere in the string: the
  parser returns the number of bytes and the bytes when the buffer is large enough, and one that is too
  small makes it return -1 with the bytes that fit.\<close>

theorem hex_roundtrip:
  assumes "filter (\<lambda>c. \<not> hex_space c) str = butlast (snd (ascon_bytes_to_hex (2 * length xs + 1) xs upper))"
  shows "ascon_bytes_from_hex outlen str =
    (if length xs \<le> outlen then (sint (of_nat (length xs) :: u32), xs) else (-1, take outlen xs))"
proof -
  define cs where "cs = (if upper then hex_upper else hex_lower)"
  have "filter (\<lambda>c. \<not> hex_space c) str = bytes_to_hex_loop cs xs"
    using assms by (simp add: ascon_bytes_to_hex_def cs_def Let_def)
  then have "ascon_bytes_from_hex outlen str = bytes_from_hex_loop outlen [] 0 False (bytes_to_hex_loop cs xs)"
    by (metis ascon_bytes_from_hex_def from_hex_filter)
  moreover have "cs = hex_lower \<or> cs = hex_upper" by (simp add: cs_def)
  ultimately show ?thesis
    using from_hex_to_hex[of cs "[]" xs outlen 0] from_hex_short[of cs "[]" outlen xs 0] by auto
qed

lemma hex_roundtrip_witness:
  "ascon_bytes_from_hex 2 (map of_char ''0a ff '') = (2, [0x0A, 0xFF]) \<and>
   ascon_bytes_from_hex 1 (map of_char ''0a ff '') = (-1, [0x0A])"
proof -
  have "filter (\<lambda>c. \<not> hex_space c) (map of_char ''0a ff '') =
    butlast (snd (ascon_bytes_to_hex (2 * length [0x0A, 0xFF :: u8] + 1) [0x0A, 0xFF] False))"
    by code_simp
  from hex_roundtrip[OF this, of 2] hex_roundtrip[OF this, of 1] show ?thesis by simp
qed

end
