(* ===== verification/Secure_Common.thy ===== *)
theory Secure_Common
  imports Hash
begin

text \<open>
  \<open>ascon-lora\<close>: the layer that secures a LoRa link with ASCON-128a.  This theory has what sender and
  receiver share: the result codes and buffers of \<open>AsconSecure.h\<close>, the helpers of
  \<open>AsconSecureComum.cpp\<close>, and the interface to the non-volatile storage.
\<close>

section \<open>Constants and results\<close>

definition ASCON_SECURE_KEY_BYTES :: nat where "ASCON_SECURE_KEY_BYTES = 16"

definition ASCON_SECURE_PREFIX_BYTES :: nat where "ASCON_SECURE_PREFIX_BYTES = 12"

definition ASCON_SECURE_COUNTER_BYTES :: nat where "ASCON_SECURE_COUNTER_BYTES = 4"

definition ASCON_SECURE_TAG_BYTES :: nat where "ASCON_SECURE_TAG_BYTES = 16"

definition ASCON_SECURE_OVERHEAD :: nat where
  "ASCON_SECURE_OVERHEAD = ASCON_SECURE_COUNTER_BYTES + ASCON_SECURE_TAG_BYTES"

definition ASCON_SECURE_MAX_PAYLOAD :: nat where "ASCON_SECURE_MAX_PAYLOAD = 200"

definition ASCON_SECURE_MAX_PACKET :: nat where
  "ASCON_SECURE_MAX_PACKET = ASCON_SECURE_MAX_PAYLOAD + ASCON_SECURE_OVERHEAD"

definition COUNTER_WINDOW :: u32 where "COUNTER_WINDOW = 32"

definition COUNTER_LIMIT :: u32 where "COUNTER_LIMIT = 0xFFFFF000"

definition MAX_PEERS :: nat where "MAX_PEERS = 8"

lemmas secure_sizes =
  ASCON_SECURE_KEY_BYTES_def ASCON_SECURE_PREFIX_BYTES_def ASCON_SECURE_COUNTER_BYTES_def
  ASCON_SECURE_TAG_BYTES_def ASCON_SECURE_OVERHEAD_def ASCON_SECURE_MAX_PAYLOAD_def
  ASCON_SECURE_MAX_PACKET_def

datatype AsconSecureStatus =
    ASCON_SECURE_OK | ASCON_SECURE_ERR_NOT_READY | ASCON_SECURE_ERR_BUFFER | ASCON_SECURE_ERR_AUTH
  | ASCON_SECURE_ERR_REPLAY | ASCON_SECURE_ERR_NVS | ASCON_SECURE_ERR_RNG | ASCON_SECURE_ERR_EXHAUSTED
  | ASCON_SECURE_ERR_PEER | ASCON_SECURE_ERR_FULL | ASCON_SECURE_ERR_NOT_PROVISIONED | ASCON_SECURE_EMPTY

fun status_code :: "AsconSecureStatus \<Rightarrow> int" where
  "status_code ASCON_SECURE_OK = 0"
| "status_code ASCON_SECURE_ERR_NOT_READY = -1"
| "status_code ASCON_SECURE_ERR_BUFFER = -2"
| "status_code ASCON_SECURE_ERR_AUTH = -3"
| "status_code ASCON_SECURE_ERR_REPLAY = -4"
| "status_code ASCON_SECURE_ERR_NVS = -5"
| "status_code ASCON_SECURE_ERR_RNG = -6"
| "status_code ASCON_SECURE_ERR_EXHAUSTED = -7"
| "status_code ASCON_SECURE_ERR_PEER = -8"
| "status_code ASCON_SECURE_ERR_FULL = -9"
| "status_code ASCON_SECURE_ERR_NOT_PROVISIONED = -10"
| "status_code ASCON_SECURE_EMPTY = 1"

fun asconSecureStatusText :: "AsconSecureStatus \<Rightarrow> string" where
  "asconSecureStatusText ASCON_SECURE_OK = ''ok''"
| "asconSecureStatusText ASCON_SECURE_ERR_NOT_READY = ''nao inicializado''"
| "asconSecureStatusText ASCON_SECURE_ERR_BUFFER = ''buffer invalido''"
| "asconSecureStatusText ASCON_SECURE_ERR_AUTH =
     ''tag invalida: adulterada, ou chave ou tamanho diferentes dos do emissor''"
| "asconSecureStatusText ASCON_SECURE_ERR_REPLAY = ''contador repetido (replay)''"
| "asconSecureStatusText ASCON_SECURE_ERR_NVS = ''falha na memoria nao volatil''"
| "asconSecureStatusText ASCON_SECURE_ERR_RNG = ''falha do gerador aleatorio''"
| "asconSecureStatusText ASCON_SECURE_ERR_EXHAUSTED = ''contador esgotado: trocar a chave''"
| "asconSecureStatusText ASCON_SECURE_ERR_PEER = ''no nao registrado (id errado, ou faltou asconSecureAddPeer)''"
| "asconSecureStatusText ASCON_SECURE_ERR_FULL = ''tabela de nos cheia (maximo 8)''"
| "asconSecureStatusText ASCON_SECURE_ERR_NOT_PROVISIONED =
     ''placa nao provisionada: grave o sketch Provisionamento antes''"
| "asconSecureStatusText ASCON_SECURE_EMPTY = ''pacote vazio''"

record AsconBytes =
  ab_data :: bytes
  ab_length :: nat
  ab_status :: AsconSecureStatus

definition emptyResult :: "AsconSecureStatus \<Rightarrow> AsconBytes" where
  "emptyResult status =
     \<lparr> ab_data = zeros ASCON_SECURE_MAX_PACKET, ab_length = 0, ab_status = status \<rparr>"

section \<open>Helpers\<close>

definition writeCounterBE :: "u32 \<Rightarrow> bytes" where
  "writeCounterBE value =
     [ucast (drop_bit 24 value), ucast (drop_bit 16 value), ucast (drop_bit 8 value), ucast value]"

definition readCounterBE :: "bytes \<Rightarrow> u32" where
  "readCounterBE inp =
     push_bit 24 (ucast (inp ! 0)) OR push_bit 16 (ucast (inp ! 1)) OR
     push_bit 8 (ucast (inp ! 2)) OR ucast (inp ! 3)"

text \<open>Addresses have the 32 bits of the ESP32.\<close>

definition rangesOverlap :: "u32 \<Rightarrow> nat \<Rightarrow> u32 \<Rightarrow> nat \<Rightarrow> bool" where
  "rangesOverlap a aLength b bLength =
     (if aLength = 0 \<or> bLength = 0 then False
      else a < b + of_nat bLength \<and> b < a + of_nat aLength)"

definition buildNonce :: "bytes \<Rightarrow> u32 \<Rightarrow> bytes" where
  "buildNonce prefix counter = take ASCON_SECURE_PREFIX_BYTES prefix @ writeCounterBE counter"

definition keyFingerprint :: "'s snp \<Rightarrow> bytes \<Rightarrow> bytes \<Rightarrow> bytes" where
  "keyFingerprint B key prefix =
     (let material = take ASCON_SECURE_KEY_BYTES key @ take ASCON_SECURE_PREFIX_BYTES prefix;
          digest = ascon_hash B material
      in take 8 digest)"

lemma counter_be: "writeCounterBE = be_store_word32" "readCounterBE = be_load_word32"
  by (simp_all add: fun_eq_iff writeCounterBE_def readCounterBE_def be_store_word32_def be_load_word32_def)

lemma read_write_counter: "readCounterBE (writeCounterBE c @ xs) = c"
proof -
  have "be_load_word32 (be_store_word32 c @ xs) = be_load_word32 (be_store_word32 c)"
    by (simp add: be_load_word32_def be_store_word32_def)
  then show ?thesis by (simp add: counter_be)
qed

lemma length_writeCounter [simp]: "length (writeCounterBE c) = 4"
  by (simp add: counter_be)

lemma length_buildNonce: "length prefix = 12 \<Longrightarrow> length (buildNonce prefix c) = 16"
  by (simp add: buildNonce_def secure_sizes)

lemma buildNonce_counter: "\<lbrakk>length p = 12; length p' = 12; buildNonce p c = buildNonce p' c'\<rbrakk> \<Longrightarrow> c = c'"
  using read_write_counter[of c "[]"] read_write_counter[of c' "[]"]
  by (auto simp: buildNonce_def secure_sizes)

text \<open>Two ranges that do not wrap around the address space overlap exactly when they share an address.\<close>

lemma rangesOverlap_iff:
  assumes "unat a + m < 2 ^ 32" "unat b + n < 2 ^ 32"
  shows "rangesOverlap a m b n \<longleftrightarrow> {unat a..<unat a + m} \<inter> {unat b..<unat b + n} \<noteq> {}"
proof -
  have "unat (b + of_nat n) = unat b + n" "unat (a + of_nat m) = unat a + m"
    using assms by (simp_all add: unat_word_ariths unat_of_nat)
  then have "rangesOverlap a m b n \<longleftrightarrow> 0 < m \<and> 0 < n \<and> unat a < unat b + n \<and> unat b < unat a + m"
    by (auto simp: rangesOverlap_def word_less_nat_alt)
  also have "\<dots> \<longleftrightarrow> {unat a..<unat a + m} \<inter> {unat b..<unat b + n} \<noteq> {}"
  proof
    assume "0 < m \<and> 0 < n \<and> unat a < unat b + n \<and> unat b < unat a + m"
    then have "max (unat a) (unat b) \<in> {unat a..<unat a + m} \<inter> {unat b..<unat b + n}" by auto
    then show "{unat a..<unat a + m} \<inter> {unat b..<unat b + n} \<noteq> {}" by blast
  qed auto
  finally show ?thesis .
qed

section \<open>The non-volatile storage\<close>

text \<open>The \<open>Preferences\<close> library of the platform.  An operation names the namespace it was opened for;
  \<open>'w\<close> is the state of the storage.  Reading bytes returns them with their number, writing the
  number written.\<close>

record 'w nvs =
  nvs_begin :: "'w \<Rightarrow> string \<Rightarrow> bool \<Rightarrow> 'w \<times> bool"
  nvs_end :: "'w \<Rightarrow> 'w"
  nvs_isKey :: "'w \<Rightarrow> string \<Rightarrow> string \<Rightarrow> bool"
  nvs_getUInt :: "'w \<Rightarrow> string \<Rightarrow> string \<Rightarrow> u32 \<Rightarrow> u32"
  nvs_getBytes :: "'w \<Rightarrow> string \<Rightarrow> string \<Rightarrow> nat \<Rightarrow> bytes \<times> nat"
  nvs_putUInt :: "'w \<Rightarrow> string \<Rightarrow> string \<Rightarrow> u32 \<Rightarrow> 'w \<times> nat"
  nvs_putBytes :: "'w \<Rightarrow> string \<Rightarrow> string \<Rightarrow> bytes \<Rightarrow> 'w \<times> nat"
  nvs_clear :: "'w \<Rightarrow> string \<Rightarrow> 'w \<times> bool"

definition NVS_SENDER :: string where "NVS_SENDER = ''ascon-sec''"

definition NVS_RECEIVER :: string where "NVS_RECEIVER = ''ascon-rx''"

definition NVS_KEY :: string where "NVS_KEY = ''k''"

definition NVS_PREFIX :: string where "NVS_PREFIX = ''p''"

definition NVS_RESERVED :: string where "NVS_RESERVED = ''ctr''"

text \<open>What the code relies on: a write that reports success is what is read afterwards, a write that
  reports a failure left the old value or the new one, and nothing else changes.  \<open>number\<close> and \<open>blob\<close>
  are the entries of the storage.\<close>

locale nvs_laws =
  fixes N :: "'w nvs" and number :: "'w \<Rightarrow> string \<Rightarrow> string \<Rightarrow> u32 option"
    and blob :: "'w \<Rightarrow> string \<Rightarrow> string \<Rightarrow> bytes option"
  assumes begin_keeps: "number (fst (nvs_begin N w ns ro)) = number w" "blob (fst (nvs_begin N w ns ro)) = blob w"
    and end_keeps: "number (nvs_end N w) = number w" "blob (nvs_end N w) = blob w"
    and is_key: "nvs_isKey N w ns k \<longleftrightarrow> number w ns k \<noteq> None \<or> blob w ns k \<noteq> None"
    and get_uint: "nvs_getUInt N w ns k d = (case number w ns k of Some v \<Rightarrow> v | None \<Rightarrow> d)"
    and get_bytes: "snd (nvs_getBytes N w ns k n) = n \<Longrightarrow> n > 0 \<Longrightarrow>
      blob w ns k = Some (fst (nvs_getBytes N w ns k n)) \<and> length (fst (nvs_getBytes N w ns k n)) = n"
    and put_uint: "snd (nvs_putUInt N w ns k v) \<noteq> 0 \<Longrightarrow> number (fst (nvs_putUInt N w ns k v)) ns k = Some v"
      "number (fst (nvs_putUInt N w ns k v)) ns k \<in> {number w ns k, Some v}"
      "(ns', k') \<noteq> (ns, k) \<Longrightarrow> number (fst (nvs_putUInt N w ns k v)) ns' k' = number w ns' k'"
      "blob (fst (nvs_putUInt N w ns k v)) = blob w"
    and put_bytes: "snd (nvs_putBytes N w ns k b) = length b \<Longrightarrow> b \<noteq> [] \<Longrightarrow>
        blob (fst (nvs_putBytes N w ns k b)) ns k = Some b"
      "blob (fst (nvs_putBytes N w ns k b)) ns k \<in> {blob w ns k, Some b}"
      "(ns', k') \<noteq> (ns, k) \<Longrightarrow> blob (fst (nvs_putBytes N w ns k b)) ns' k' = blob w ns' k'"
      "number (fst (nvs_putBytes N w ns k b)) = number w"
    and clear: "snd (nvs_clear N w ns) \<Longrightarrow> number (fst (nvs_clear N w ns)) ns k = None"
      "snd (nvs_clear N w ns) \<Longrightarrow> blob (fst (nvs_clear N w ns)) ns k = None"
      "number (fst (nvs_clear N w ns)) ns k \<in> {number w ns k, None}"
      "blob (fst (nvs_clear N w ns)) ns k \<in> {blob w ns k, None}"
      "ns' \<noteq> ns \<Longrightarrow> number (fst (nvs_clear N w ns)) ns' k = number w ns' k"
      "ns' \<noteq> ns \<Longrightarrow> blob (fst (nvs_clear N w ns)) ns' k = blob w ns' k"

text \<open>A storage in memory that keeps the contract and fails on demand: every operation that can fail takes
  the next answer from a list, and succeeds when the list is used up.\<close>

record flash =
  flash_uints :: "string \<Rightarrow> string \<Rightarrow> u32 option"
  flash_blobs :: "string \<Rightarrow> string \<Rightarrow> bytes option"
  flash_faults :: "bool list"

definition flash_answer :: "flash \<Rightarrow> flash \<times> bool" where
  "flash_answer w = (w \<lparr> flash_faults := tl (flash_faults w) \<rparr>, flash_faults w = [] \<or> \<not> hd (flash_faults w))"

definition flash_nvs :: "flash nvs" where
  "flash_nvs = \<lparr>
     nvs_begin = (\<lambda>w ns ro. flash_answer w),
     nvs_end = (\<lambda>w. w),
     nvs_isKey = (\<lambda>w ns k. flash_uints w ns k \<noteq> None \<or> flash_blobs w ns k \<noteq> None),
     nvs_getUInt = (\<lambda>w ns k d. case flash_uints w ns k of Some v \<Rightarrow> v | None \<Rightarrow> d),
     nvs_getBytes = (\<lambda>w ns k n. case flash_blobs w ns k of
        Some b \<Rightarrow> if length b = n then (b, n) else ([], 0) | None \<Rightarrow> ([], 0)),
     nvs_putUInt = (\<lambda>w ns k v. let (w, ok) = flash_answer w in
        if ok then (w \<lparr> flash_uints := (flash_uints w)(ns := (flash_uints w ns)(k \<mapsto> v)) \<rparr>, 4) else (w, 0)),
     nvs_putBytes = (\<lambda>w ns k b. let (w, ok) = flash_answer w in
        if ok then (w \<lparr> flash_blobs := (flash_blobs w)(ns := (flash_blobs w ns)(k \<mapsto> b)) \<rparr>, length b) else (w, 0)),
     nvs_clear = (\<lambda>w ns. let (w, ok) = flash_answer w in
        if ok then (w \<lparr> flash_uints := (flash_uints w)(ns := Map.empty),
                        flash_blobs := (flash_blobs w)(ns := Map.empty) \<rparr>, True) else (w, False)) \<rparr>"

interpretation flash: nvs_laws flash_nvs flash_uints flash_blobs
  by unfold_locales
    (auto simp: flash_nvs_def flash_answer_def Let_def split: option.splits if_splits)

end
