(* ===== verification/Secure_Sender.thy ===== *)
theory Secure_Sender
  imports Secure_Common Aead_Properties
begin

text \<open>
  The sender of \<open>ascon-lora\<close>: \<open>AsconSecureEmissor.cpp\<close>, \<open>AsconSecureProvisionamento.cpp\<close> and the packing
  functions of \<open>AsconSecureAtalhos.cpp\<close>, as one task runs them.  The storage and the random source
  are parameters; the messages on the serial line and the cycle counts are output only and left out.
\<close>

section \<open>The code\<close>

record sender =
  senderReady :: bool
  senderKey :: bytes
  senderPrefix :: bytes
  senderCounter :: u32
  senderReserved :: u32

text \<open>The variables as the program starts.\<close>

definition sender_boot :: sender where
  "sender_boot = \<lparr> senderReady = False, senderKey = zeros 16, senderPrefix = zeros 12,
     senderCounter = 0, senderReserved = 0 \<rparr>"

text \<open>What is in a buffer of \<open>n\<close> bytes after \<open>getBytes\<close> read \<open>got\<close> into it.\<close>

definition fill_buffer :: "nat \<Rightarrow> bytes \<Rightarrow> bytes \<Rightarrow> bytes" where
  "fill_buffer n got old = take n (got @ drop (length got) old)"

lemma fill_buffer_all: "length got = n \<Longrightarrow> fill_buffer n got old = got"
  by (simp add: fill_buffer_def)

definition loadSenderState :: "'w nvs \<Rightarrow> 'w \<Rightarrow> sender \<Rightarrow> 'w \<times> sender \<times> AsconSecureStatus" where
  "loadSenderState N w st =
     (let st = st \<lparr> senderReady := False \<rparr>; (w, opened) = nvs_begin N w NVS_SENDER False in
      if \<not> opened then (w, st, ASCON_SECURE_ERR_NVS)
      else if \<not> nvs_isKey N w NVS_SENDER NVS_KEY
      then (nvs_end N w, st, ASCON_SECURE_ERR_NOT_PROVISIONED)
      else
        let (key, n) = nvs_getBytes N w NVS_SENDER NVS_KEY 16; st = st \<lparr> senderKey := fill_buffer 16 key (senderKey st) \<rparr> in
        if n \<noteq> 16 then (nvs_end N w, st, ASCON_SECURE_ERR_NVS)
        else
          let (prefix, n) = nvs_getBytes N w NVS_SENDER NVS_PREFIX 12; st = st \<lparr> senderPrefix := fill_buffer 12 prefix (senderPrefix st) \<rparr> in
          if n \<noteq> 12 then (nvs_end N w, st, ASCON_SECURE_ERR_NVS)
          else
            let reserved = nvs_getUInt N w NVS_SENDER NVS_RESERVED 0; w = nvs_end N w in
            if reserved < COUNTER_WINDOW
            then (w, st \<lparr> senderKey := zeros 16, senderPrefix := zeros 12 \<rparr>, ASCON_SECURE_ERR_NVS)
            else (w, st \<lparr> senderCounter := reserved, senderReserved := reserved, senderReady := True \<rparr>,
              ASCON_SECURE_OK))"

definition reserveCounters :: "'w nvs \<Rightarrow> 'w \<Rightarrow> sender \<Rightarrow> 'w \<times> sender \<times> AsconSecureStatus" where
  "reserveCounters N w st =
     (let (w, opened) = nvs_begin N w NVS_SENDER False in
      if \<not> opened then (w, st, ASCON_SECURE_ERR_NVS)
      else
        let reservation = senderCounter st + COUNTER_WINDOW;
            (w, written) = nvs_putUInt N w NVS_SENDER NVS_RESERVED reservation in
        if written = 0 then (nvs_end N w, st, ASCON_SECURE_ERR_NVS)
        else
          let w = nvs_end N w;
              st = (if reservation > senderReserved st then st \<lparr> senderReserved := reservation \<rparr> else st)
          in (w, st, ASCON_SECURE_OK))"

definition asconSecureBegin :: "'w nvs \<Rightarrow> 'w \<Rightarrow> sender \<Rightarrow> 'w \<times> sender \<times> AsconSecureStatus" where
  "asconSecureBegin N w st = loadSenderState N w st"

text \<open>The next counter, taken from the reserved ones: the checks, the reservation when it is used up, and the
  checks again.\<close>

definition takeCounter :: "'w nvs \<Rightarrow> 'w \<Rightarrow> sender \<Rightarrow> 'w \<times> sender \<times> AsconSecureStatus \<times> u32" where
  "takeCounter N w st =
     (let exhausted = senderCounter st \<ge> COUNTER_LIMIT;
          needsReservation = senderCounter st \<ge> senderReserved st in
      if exhausted then (w, st, ASCON_SECURE_ERR_EXHAUSTED, 0)
      else
        let (w, st, status) =
              (if needsReservation then reserveCounters N w st else (w, st, ASCON_SECURE_OK)) in
        if status \<noteq> ASCON_SECURE_OK then (w, st, status, 0)
        else if senderCounter st \<ge> COUNTER_LIMIT then (w, st, ASCON_SECURE_ERR_EXHAUSTED, 0)
        else if senderCounter st \<ge> senderReserved st then (w, st, ASCON_SECURE_ERR_NVS, 0)
        else (w, st \<lparr> senderCounter := senderCounter st + 1 \<rparr>, ASCON_SECURE_OK, senderCounter st))"

text \<open>A pointer is its address with what it points to, or \<open>None\<close> for \<open>NULL\<close>.  The result has what was written at
  the packet and the value of \<open>*packetLength\<close>.\<close>

record wrap_args =
  wrap_payload :: "bytes option"
  wrap_header :: "(u32 \<times> bytes) option"
  wrap_headerLength :: nat
  wrap_packet :: "u32 option"
  wrap_packetCapacity :: nat
  wrap_packetLength :: bool

text \<open>The call of the cipher, which writes its key and its nonce to a log: the log is a list of the keys and nonces that
  were given to \<open>ascon128a_aead_encrypt\<close>, the last one first.\<close>

definition logged_encrypt ::
  "'s snp \<Rightarrow> (bytes \<times> bytes) list \<Rightarrow> bytes \<Rightarrow> bytes \<Rightarrow> bytes \<Rightarrow> bytes \<Rightarrow> (bytes \<times> bytes) list \<times> bytes" where
  "logged_encrypt B log m ad nonce key = ((key, nonce) # log, ascon128a_aead_encrypt B m ad nonce key)"

definition asconSecureWrap_log ::
  "'s snp \<Rightarrow> 'w nvs \<Rightarrow> (bytes \<times> bytes) list \<Rightarrow> 'w \<Rightarrow> sender \<Rightarrow> wrap_args \<Rightarrow>
     (bytes \<times> bytes) list \<times> 'w \<times> sender \<times> AsconSecureStatus \<times> bytes \<times> nat" where
  "asconSecureWrap_log B N log w st args =
     (if \<not> senderReady st then (log, w, st, ASCON_SECURE_ERR_NOT_READY, [], 0)
      else case (wrap_payload args, wrap_packet args) of
        (Some payload, Some packet) \<Rightarrow>
          if \<not> wrap_packetLength args then (log, w, st, ASCON_SECURE_ERR_BUFFER, [], 0)
          else if wrap_header args = None \<and> wrap_headerLength args > 0
          then (log, w, st, ASCON_SECURE_ERR_BUFFER, [], 0)
          else if length payload > ASCON_SECURE_MAX_PAYLOAD \<or>
                  wrap_packetCapacity args < length payload + ASCON_SECURE_OVERHEAD
          then (log, w, st, ASCON_SECURE_ERR_BUFFER, [], 0)
          else if (case wrap_header args of None \<Rightarrow> False
                   | Some (a, h) \<Rightarrow> rangesOverlap a (wrap_headerLength args) packet (wrap_packetCapacity args))
          then (log, w, st, ASCON_SECURE_ERR_BUFFER, [], 0)
          else
            let (w, st, status, counter) = takeCounter N w st in
            if status \<noteq> ASCON_SECURE_OK then (log, w, st, status, [], 0)
            else
              let nonce = buildNonce (senderPrefix st) counter;
                  header = (case wrap_header args of None \<Rightarrow> [] | Some (a, h) \<Rightarrow> take (wrap_headerLength args) h);
                  (log, cipher) = logged_encrypt B log payload header nonce (senderKey st);
                  out = writeCounterBE counter @ cipher
              in (log, w, st, ASCON_SECURE_OK, out, ASCON_SECURE_COUNTER_BYTES + length cipher)
      | _ \<Rightarrow> (log, w, st, ASCON_SECURE_ERR_BUFFER, [], 0))"

text \<open>The function as its callers see it.\<close>

definition asconSecureWrap ::
  "'s snp \<Rightarrow> 'w nvs \<Rightarrow> 'w \<Rightarrow> sender \<Rightarrow> wrap_args \<Rightarrow> 'w \<times> sender \<times> AsconSecureStatus \<times> bytes \<times> nat" where
  "asconSecureWrap B N w st args = snd (asconSecureWrap_log B N [] w st args)"

lemmas asconSecureWrap_defs = asconSecureWrap_def asconSecureWrap_log_def logged_encrypt_def

lemma asconSecureWrap_log_irrelevant: "snd (asconSecureWrap_log B N log w st args) = asconSecureWrap B N w st args"
  by (simp add: asconSecureWrap_defs Let_def case_prod_beta split: option.split)

text \<open>The result on the stack, at address \<open>a\<close>.\<close>

definition asconSecurePack_bytes ::
  "'s snp \<Rightarrow> 'w nvs \<Rightarrow> u32 \<Rightarrow> 'w \<Rightarrow> sender \<Rightarrow> bytes option \<Rightarrow> 'w \<times> sender \<times> AsconBytes" where
  "asconSecurePack_bytes B N a w st payload =
     (let (w, st, status, out, n) = asconSecureWrap B N w st
            \<lparr> wrap_payload = payload, wrap_header = None, wrap_headerLength = 0,
              wrap_packet = Some a,  wrap_packetCapacity = ASCON_SECURE_MAX_PACKET,
              wrap_packetLength = True \<rparr> in
      if status \<noteq> ASCON_SECURE_OK then (w, st, emptyResult status)
      else (w, st, \<lparr> ab_data = put_at (zeros ASCON_SECURE_MAX_PACKET) 0 out, ab_length = n, ab_status = status \<rparr>))"

definition asconSecurePack ::
  "'s snp \<Rightarrow> 'w nvs \<Rightarrow> u32 \<Rightarrow> 'w \<Rightarrow> sender \<Rightarrow> bytes option \<Rightarrow> 'w \<times> sender \<times> AsconBytes" where
  "asconSecurePack B N a w st text =
     (case text of
        None \<Rightarrow> (w, st, emptyResult ASCON_SECURE_ERR_BUFFER)
      | Some t \<Rightarrow> asconSecurePack_bytes B N a w st (Some (takeWhile (\<lambda>c. c \<noteq> 0) t)))"

text \<open>Provisioning.  \<open>random\<close> is \<open>randomBytes\<close>, the generator of the chip: the bytes, or \<open>None\<close> for an error.\<close>

definition provisionImpl ::
  "'w nvs \<Rightarrow> bytes option \<Rightarrow> 'w \<Rightarrow> sender \<Rightarrow> 'w \<times> sender \<times> AsconSecureStatus" where
  "provisionImpl N random w st =
     (let (w, opened) = nvs_begin N w NVS_SENDER False in
      if \<not> opened then (w, st, ASCON_SECURE_ERR_NVS)
      else if \<not> nvs_isKey N w NVS_SENDER NVS_KEY then
        (case random of
           None \<Rightarrow> (nvs_end N w, st, ASCON_SECURE_ERR_RNG)
         | Some material \<Rightarrow>
             let (w, n1) = nvs_putBytes N w NVS_SENDER NVS_PREFIX (drop 16 material) in
             if n1 \<noteq> 12 then (nvs_end N w, st, ASCON_SECURE_ERR_NVS)
             else
               let (w, n2) = nvs_putUInt N w NVS_SENDER NVS_RESERVED COUNTER_WINDOW in
               if n2 = 0 then (nvs_end N w, st, ASCON_SECURE_ERR_NVS)
               else
                 let (w, n3) = nvs_putBytes N w NVS_SENDER NVS_KEY (take 16 material) in
                 if n3 \<noteq> 16 then (nvs_end N w, st, ASCON_SECURE_ERR_NVS)
                 else loadSenderState N (nvs_end N w) st)
      else loadSenderState N (nvs_end N w) st)"

definition factoryResetImpl :: "'w nvs \<Rightarrow> 'w \<Rightarrow> sender \<Rightarrow> 'w \<times> sender \<times> AsconSecureStatus" where
  "factoryResetImpl N w st =
     (let (w, opened) = nvs_begin N w NVS_SENDER False in
      if \<not> opened then (w, st, ASCON_SECURE_ERR_NVS)
      else
        let (w, cleared) = nvs_clear N w NVS_SENDER in
        if \<not> cleared then (nvs_end N w, st, ASCON_SECURE_ERR_NVS)
        else (nvs_end N w, \<lparr> senderReady = False, senderKey = zeros 16, senderPrefix = zeros 12,
          senderCounter = 0, senderReserved = 0 \<rparr>, ASCON_SECURE_OK))"

section \<open>The life of a board\<close>

text \<open>The storage as a loss of power in the middle of a call can leave it: after each operation of the call that
  changes it.\<close>

definition reserve_cuts :: "'w nvs \<Rightarrow> 'w \<Rightarrow> sender \<Rightarrow> 'w list" where
  "reserve_cuts N w st =
     (let (w1, opened) = nvs_begin N w NVS_SENDER False;
          w2 = fst (nvs_putUInt N w1 NVS_SENDER NVS_RESERVED (senderCounter st + COUNTER_WINDOW))
      in if \<not> opened then [w1] else [w1, w2, nvs_end N w2])"

definition provision_cuts :: "'w nvs \<Rightarrow> bytes \<Rightarrow> 'w \<Rightarrow> 'w list" where
  "provision_cuts N material w =
     (let (w1, opened) = nvs_begin N w NVS_SENDER False;
          (w2, n1) = nvs_putBytes N w1 NVS_SENDER NVS_PREFIX (drop 16 material);
          (w3, n2) = nvs_putUInt N w2 NVS_SENDER NVS_RESERVED COUNTER_WINDOW;
          w4 = fst (nvs_putBytes N w3 NVS_SENDER NVS_KEY (take 16 material))
      in if \<not> opened \<or> nvs_isKey N w1 NVS_SENDER NVS_KEY then [w1]
         else if n1 \<noteq> 12 then [w1, w2]
         else if n2 = 0 then [w1, w2, w3] else [w1, w2, w3, w4, nvs_end N w4])"

definition reset_cuts :: "'w nvs \<Rightarrow> 'w \<Rightarrow> 'w list" where
  "reset_cuts N w =
     (let (w1, opened) = nvs_begin N w NVS_SENDER False; w2 = fst (nvs_clear N w1 NVS_SENDER)
      in if \<not> opened then [w1] else [w1, w2, nvs_end N w2])"

text \<open>What a board can go through when one task runs: calls after each other, in any order and with any answers of
  the storage, and a loss of power at any moment.  \<open>used\<close> is the log of the cipher, over all restarts.  The
  generator of the chip gives a key that is not in use and was not used before.\<close>

inductive sender_life ::
  "'s snp \<Rightarrow> 'w nvs \<Rightarrow> 'w \<Rightarrow> sender \<Rightarrow> (bytes \<times> bytes) list \<Rightarrow> bool"
  for B N where
  life_new: "\<not> nvs_isKey N w NVS_SENDER NVS_KEY \<Longrightarrow> sender_life B N w sender_boot []"
| life_begin: "\<lbrakk>sender_life B N w st used; asconSecureBegin N w st = (w', st', status)\<rbrakk> \<Longrightarrow>
    sender_life B N w' st' used"
| life_provision: "\<lbrakk>sender_life B N w st used; provisionImpl N random w st = (w', st', status);
      \<And>m. random = Some m \<Longrightarrow>
        length m = 28 \<and> take 16 m \<noteq> senderKey st \<and> take 16 m \<notin> fst ` set used\<rbrakk> \<Longrightarrow>
    sender_life B N w' st' used"
| life_reset: "\<lbrakk>sender_life B N w st used; factoryResetImpl N w st = (w', st', status)\<rbrakk> \<Longrightarrow>
    sender_life B N w' st' used"
| life_wrap: "\<lbrakk>sender_life B N w st used; asconSecureWrap_log B N used w st args = (used', w', st', status, out, n)\<rbrakk> \<Longrightarrow>
    sender_life B N w' st' used'"
| life_power: "sender_life B N w st used \<Longrightarrow> sender_life B N w sender_boot used"
| life_cut_wrap: "\<lbrakk>sender_life B N w st used; senderReady st; senderCounter st < COUNTER_LIMIT;
      senderReserved st \<le> senderCounter st; w' \<in> set (reserve_cuts N w st)\<rbrakk> \<Longrightarrow> sender_life B N w' sender_boot used"
| life_cut_provision: "\<lbrakk>sender_life B N w st used; length m = 28; take 16 m \<notin> fst ` set used;
      w' \<in> set (provision_cuts N m w)\<rbrakk> \<Longrightarrow> sender_life B N w' sender_boot used"
| life_cut_reset: "\<lbrakk>sender_life B N w st used; w' \<in> set (reset_cuts N w)\<rbrakk> \<Longrightarrow>
    sender_life B N w' sender_boot used"

section \<open>No nonce is used twice\<close>

definition nonce_counter :: "bytes \<Rightarrow> u32" where
  "nonce_counter nonce = readCounterBE (drop 12 nonce)"

text \<open>Every counter used with a key is below a bound.\<close>

definition below :: "(bytes \<times> bytes) list \<Rightarrow> bytes \<Rightarrow> u32 \<Rightarrow> bool" where
  "below used key c \<longleftrightarrow> (\<forall>n. (key, n) \<in> set used \<longrightarrow> nonce_counter n < c)"

lemma nonce_counter_build: "length p = 12 \<Longrightarrow> nonce_counter (buildNonce p c) = c"
  using read_write_counter[of c "[]"] by (simp add: nonce_counter_def buildNonce_def secure_sizes)

lemma below_mono: "\<lbrakk>below used k c; c \<le> d\<rbrakk> \<Longrightarrow> below used k d"
  unfolding below_def by (meson order_less_le_trans)

lemma below_fresh: "k \<notin> fst ` set used \<Longrightarrow> below used k c"
  unfolding below_def by (metis fst_conv image_eqI)

lemma window_step:
  assumes "c < COUNTER_LIMIT"
  shows "c < c + COUNTER_WINDOW" "c < c + 1"
  using assms by (simp_all add: COUNTER_LIMIT_def COUNTER_WINDOW_def word_less_nat_alt unat_word_ariths)

definition sender_inv ::
  "('w \<Rightarrow> string \<Rightarrow> string \<Rightarrow> u32 option) \<Rightarrow> ('w \<Rightarrow> string \<Rightarrow> string \<Rightarrow> bytes option) \<Rightarrow>
     'w \<Rightarrow> sender \<Rightarrow> (bytes \<times> bytes) list \<Rightarrow> bool" where
  "sender_inv number blob w st used \<longleftrightarrow>
     (senderReady st \<longrightarrow> senderCounter st \<le> senderReserved st \<and> length (senderPrefix st) = 12 \<and>
        below used (senderKey st) (senderCounter st)) \<and>
     (\<forall>key u. blob w NVS_SENDER NVS_KEY = Some key \<longrightarrow> number w NVS_SENDER NVS_RESERVED = Some u \<longrightarrow>
        below used key u \<and> (senderReady st \<longrightarrow> key = senderKey st \<longrightarrow> senderReserved st \<le> u)) \<and>
     (\<forall>key. blob w NVS_SENDER NVS_KEY = Some key \<longrightarrow> senderReady st \<longrightarrow> key \<noteq> senderKey st \<longrightarrow>
        key \<notin> fst ` set used)"

lemma sender_inv_world:
  "\<lbrakk>number w' = number w; blob w' = blob w\<rbrakk> \<Longrightarrow> sender_inv number blob w' st used = sender_inv number blob w st used"
  by (simp add: sender_inv_def)

lemma sender_inv_off:
  "\<lbrakk>sender_inv number blob w st used; \<not> senderReady st'\<rbrakk> \<Longrightarrow> sender_inv number blob w st' used"
  by (simp add: sender_inv_def)

lemma sender_inv_boot: "sender_inv number blob w st used \<Longrightarrow> sender_inv number blob w sender_boot used"
  by (rule sender_inv_off) (simp_all add: sender_boot_def)

lemma sender_names: "NVS_KEY \<noteq> NVS_RESERVED" "NVS_KEY \<noteq> NVS_PREFIX" "NVS_PREFIX \<noteq> NVS_RESERVED"
  by (simp_all add: NVS_KEY_def NVS_PREFIX_def NVS_RESERVED_def)

context nvs_laws
begin

abbreviation inv :: "'w \<Rightarrow> sender \<Rightarrow> (bytes \<times> bytes) list \<Rightarrow> bool" where
  "inv \<equiv> sender_inv number blob"

lemma inv_begin: "inv (fst (nvs_begin N w ns ro)) st used = inv w st used"
  by (rule sender_inv_world) (simp_all add: begin_keeps)

lemma inv_end: "inv (nvs_end N w) st used = inv w st used"
  by (rule sender_inv_world) (simp_all add: end_keeps)

lemma load_result:
  assumes "loadSenderState N w st = (w', st', status)"
  shows "number w' = number w \<and> blob w' = blob w \<and> (senderReady st' \<longrightarrow>
    blob w NVS_SENDER NVS_KEY = Some (senderKey st') \<and> length (senderPrefix st') = 12 \<and>
    number w NVS_SENDER NVS_RESERVED = Some (senderCounter st') \<and> senderReserved st' = senderCounter st')"
proof -
  obtain w1 opened where b: "nvs_begin N w NVS_SENDER False = (w1, opened)" by fastforce
  have keeps: "number w1 = number w" "blob w1 = blob w"
    using begin_keeps[of w NVS_SENDER False] b by simp_all
  obtain key n where k: "nvs_getBytes N w1 NVS_SENDER NVS_KEY 16 = (key, n)" by fastforce
  obtain prefix n' where p: "nvs_getBytes N w1 NVS_SENDER NVS_PREFIX 12 = (prefix, n')" by fastforce
  have "n = 16 \<Longrightarrow> blob w NVS_SENDER NVS_KEY = Some key \<and> length key = 16" "n' = 12 \<Longrightarrow> length prefix = 12"
    using get_bytes[of w1 NVS_SENDER NVS_KEY 16] get_bytes[of w1 NVS_SENDER NVS_PREFIX 12] k p keeps by simp_all
  moreover have "nvs_getUInt N w1 NVS_SENDER NVS_RESERVED 0 \<ge> COUNTER_WINDOW \<Longrightarrow>
      number w NVS_SENDER NVS_RESERVED = Some (nvs_getUInt N w1 NVS_SENDER NVS_RESERVED 0)"
    using get_uint[of w1 NVS_SENDER NVS_RESERVED 0] keeps
    by (simp add: COUNTER_WINDOW_def split: option.splits)
  ultimately show ?thesis
    using assms b keeps k p
    by (auto simp: loadSenderState_def Let_def end_keeps not_less fill_buffer_all split: if_splits)
qed

lemma load_inv:
  assumes "inv w st used" "loadSenderState N w st = (w', st', status)"
  shows "inv w' st' used"
  using load_result[OF assms(2)] assms(1) by (auto simp: sender_inv_def)

lemma put_uint_any: "number (fst (nvs_putUInt N w ns k v)) ns k = number w ns k \<or>
    number (fst (nvs_putUInt N w ns k v)) ns k = Some v"
  using put_uint(2) by auto

text \<open>A reservation raises the stored bound above every counter used with the key.\<close>

lemma reserve_world:
  assumes "inv w st used" "senderReady st" "senderCounter st < COUNTER_LIMIT"
    and "number w' NVS_SENDER NVS_RESERVED \<in>
      {number w NVS_SENDER NVS_RESERVED, Some (senderCounter st + COUNTER_WINDOW)}"
    and "blob w' NVS_SENDER NVS_KEY = blob w NVS_SENDER NVS_KEY"
    and "senderCounter st \<ge> senderReserved st"
  shows "inv w' st used"
proof -
  have le: "senderReserved st \<le> senderCounter st + COUNTER_WINDOW"
    using assms(6) window_step(1)[OF assms(3)] by simp
  have "below used (senderKey st) (senderCounter st + COUNTER_WINDOW)"
    using assms(1,2) window_step(1)[OF assms(3)] below_mono by (auto simp: sender_inv_def less_imp_le)
  then show ?thesis
    using assms(1,2,4,5) le below_fresh by (auto simp: sender_inv_def)
qed

lemma reserve_inv:
  assumes "inv w st used" "senderReady st" "senderCounter st < COUNTER_LIMIT" "senderReserved st \<le> senderCounter st"
    and "reserveCounters N w st = (w', st', status)"
  shows "inv w' st' used \<and> senderReady st' \<and> senderKey st' = senderKey st \<and>
    senderPrefix st' = senderPrefix st \<and> senderCounter st' = senderCounter st"
proof -
  obtain w1 opened where b: "nvs_begin N w NVS_SENDER False = (w1, opened)" by fastforce
  have keeps: "number w1 = number w" "blob w1 = blob w"
    using begin_keeps[of w NVS_SENDER False] b by simp_all
  define r where "r = senderCounter st + COUNTER_WINDOW"
  obtain w2 n where put: "nvs_putUInt N w1 NVS_SENDER NVS_RESERVED r = (w2, n)" by fastforce
  have stored: "number w2 NVS_SENDER NVS_RESERVED \<in> {number w NVS_SENDER NVS_RESERVED, Some r}"
    "n \<noteq> 0 \<Longrightarrow> number w2 NVS_SENDER NVS_RESERVED = Some r" "blob w2 = blob w"
    using put_uint(1,2,4)[of w1 NVS_SENDER NVS_RESERVED r] put keeps by auto
  have inv1: "inv w1 st used" using sender_inv_world[OF keeps] assms(1) by blast
  have inv2: "inv w2 st used"
    by (rule reserve_world[OF assms(1-3) _ _ assms(4)]) (use stored in \<open>simp_all add: r_def\<close>)
  show ?thesis
  proof (cases "opened \<and> n \<noteq> 0")
    case False
    with assms(2,5) b put inv1 inv2 show ?thesis
      by (auto simp: reserveCounters_def Let_def inv_end r_def split: if_splits)
  next
    case True
    have "r > senderReserved st" using assms(4) window_step(1)[OF assms(3)] by (simp add: r_def)
    with True assms(5) b put have st': "st' = st \<lparr> senderReserved := r \<rparr>" "w' = nvs_end N w2"
      by (auto simp: reserveCounters_def Let_def r_def split: if_splits)
    have "inv w2 (st \<lparr> senderReserved := r \<rparr>) used"
      using inv2 stored(2) True \<open>r > senderReserved st\<close> by (auto simp: sender_inv_def)
    with assms(2) show ?thesis by (simp add: st' inv_end)
  qed
qed

lemma take_next:
  assumes "inv w st used" "senderReady st" "senderCounter st < COUNTER_LIMIT" "senderCounter st < senderReserved st"
  shows "inv w (st \<lparr> senderCounter := senderCounter st + 1 \<rparr>)
      ((senderKey st, buildNonce (senderPrefix st) (senderCounter st)) # used) \<and>
    (senderKey st, buildNonce (senderPrefix st) (senderCounter st)) \<notin> set used"
proof -
  define c where "c = senderCounter st"
  have len: "length (senderPrefix st) = 12" and old: "below used (senderKey st) c"
    using assms(1,2) by (auto simp: sender_inv_def c_def)
  have nc: "nonce_counter (buildNonce (senderPrefix st) c) = c" by (rule nonce_counter_build[OF len])
  have step: "c < c + 1" "c + 1 \<le> senderReserved st"
    using window_step(2)[OF assms(3)] assms(4) by (simp_all add: c_def inc_le)
  have new: "below ((senderKey st, buildNonce (senderPrefix st) c) # used) (senderKey st) d" if "c < d" for d
    using below_mono[OF old, of d] that nc by (auto simp: below_def)
  have "inv w (st \<lparr> senderCounter := c + 1 \<rparr>) ((senderKey st, buildNonce (senderPrefix st) c) # used)"
    unfolding sender_inv_def
  proof (intro conjI allI impI, simp_all add: step len new)
    fix key u
    assume st: "blob w NVS_SENDER NVS_KEY = Some key" "number w NVS_SENDER NVS_RESERVED = Some u"
    show "below ((senderKey st, buildNonce (senderPrefix st) c) # used) key u"
    proof (cases "key = senderKey st")
      case True
      then have "senderReserved st \<le> u" using assms(1,2) st by (auto simp: sender_inv_def)
      then have "c < u" using assms(4) by (simp add: c_def)
      then show ?thesis using new True by blast
    next
      case False
      moreover have "below used key u" using assms(1) st by (auto simp: sender_inv_def)
      ultimately show ?thesis by (auto simp: below_def)
    qed
  next
    fix key u
    assume "blob w NVS_SENDER NVS_KEY = Some (senderKey st)" "number w NVS_SENDER NVS_RESERVED = Some u"
    then show "senderReserved st \<le> u" using assms(1,2) by (auto simp: sender_inv_def)
  next
    fix key
    assume "blob w NVS_SENDER NVS_KEY = Some key" "key \<noteq> senderKey st"
    then show "key \<notin> fst ` set used" using assms(1,2) by (auto simp: sender_inv_def)
  qed
  moreover have "(senderKey st, buildNonce (senderPrefix st) c) \<notin> set used"
    using old nc by (auto simp: below_def)
  ultimately show ?thesis by (simp add: c_def)
qed

lemma take_inv:
  assumes "inv w st used" "senderReady st" "takeCounter N w st = (w', st', status, c)"
  shows "senderKey st' = senderKey st \<and> senderPrefix st' = senderPrefix st \<and> senderReady st' \<and>
    length (senderPrefix st) = 12 \<and>
    (if status = ASCON_SECURE_OK
     then inv w' st' ((senderKey st, buildNonce (senderPrefix st) c) # used) \<and>
       (senderKey st, buildNonce (senderPrefix st) c) \<notin> set used
     else inv w' st' used)"
proof -
  have len: "length (senderPrefix st) = 12" using assms(1,2) by (simp add: sender_inv_def)
  show ?thesis
  proof (cases "senderCounter st < COUNTER_LIMIT")
    case False
    then have "COUNTER_LIMIT \<le> senderCounter st" by simp
    with assms len show ?thesis by (auto simp: takeCounter_def)
  next
    case True
    then have small: "\<not> COUNTER_LIMIT \<le> senderCounter st" by simp
    obtain w1 st1 status1 where r: "(if senderReserved st \<le> senderCounter st then reserveCounters N w st
        else (w, st, ASCON_SECURE_OK)) = (w1, st1, status1)" by (metis prod.exhaust)
    have 1: "inv w1 st1 used \<and> senderReady st1 \<and> senderKey st1 = senderKey st \<and>
        senderPrefix st1 = senderPrefix st \<and> senderCounter st1 = senderCounter st"
      using r reserve_inv[OF assms(1,2) True] assms(1,2) by (auto split: if_splits)
    show ?thesis
    proof (cases "status1 = ASCON_SECURE_OK \<and> senderCounter st1 < senderReserved st1")
      case False
      then have "status1 \<noteq> ASCON_SECURE_OK \<or> senderReserved st1 \<le> senderCounter st1" by auto
      with assms(3) r 1 len small show ?thesis
        by (auto simp: takeCounter_def Let_def split: if_splits)
    next
      case ok: True
      then have "\<not> senderReserved st1 \<le> senderCounter st1" by auto
      with ok assms(3) r 1 small have res: "w' = w1" "st' = st1 \<lparr> senderCounter := senderCounter st1 + 1 \<rparr>"
        "status = ASCON_SECURE_OK" "c = senderCounter st1"
        by (auto simp: takeCounter_def Let_def)
      have "senderCounter st1 < COUNTER_LIMIT" "senderCounter st1 < senderReserved st1" using True 1 ok by auto
      from take_next[OF _ _ this, of w1 used] 1 len show ?thesis by (simp add: res)
    qed
  qed
qed

lemma wrap_inv:
  assumes "inv w st used" "distinct used" "asconSecureWrap_log B N used w st args = (used', w', st', status, out, n)"
  shows "inv w' st' used' \<and> distinct used'"
proof -
  consider "w' = w" "st' = st" "used' = used"
    | c where "senderReady st" "takeCounter N w st = (w', st', status, c)"
      "used' = (if status = ASCON_SECURE_OK then (senderKey st', buildNonce (senderPrefix st') c) # used else used)"
    using assms(3)
    by (auto simp: asconSecureWrap_log_def logged_encrypt_def Let_def split: if_splits option.splits prod.splits)
  then show ?thesis
  proof cases
    case 1
    with assms(1,2) show ?thesis by simp
  next
    case 2
    with take_inv[OF assms(1) 2(1,2)] assms(2) show ?thesis by (auto split: if_splits)
  qed
qed

text \<open>Provisioning writes a fresh key only where there is none.\<close>

lemma provision_worlds:
  assumes "inv w st used" "\<not> nvs_isKey N w NVS_SENDER NVS_KEY" "take 16 m \<notin> fst ` set used"
    and "senderReady st \<longrightarrow> take 16 m \<noteq> senderKey st"
    and "blob w' NVS_SENDER NVS_KEY \<in> {None, Some (take 16 m)}"
  shows "inv w' st used"
proof -
  have "(take 16 m, n) \<notin> set used" for n using assms(3) by (metis fst_conv image_eqI)
  then show ?thesis using assms(1,2,4,5) by (auto simp: sender_inv_def is_key below_def)
qed

lemma provision_cuts_key:
  assumes "\<not> nvs_isKey N w NVS_SENDER NVS_KEY" "w' \<in> set (provision_cuts N m w)"
  shows "blob w' NVS_SENDER NVS_KEY \<in> {None, Some (take 16 m)}"
proof -
  obtain w1 opened where b: "nvs_begin N w NVS_SENDER False = (w1, opened)" by fastforce
  obtain w2 n1 where p: "nvs_putBytes N w1 NVS_SENDER NVS_PREFIX (drop 16 m) = (w2, n1)" by fastforce
  obtain w3 n2 where u: "nvs_putUInt N w2 NVS_SENDER NVS_RESERVED COUNTER_WINDOW = (w3, n2)" by fastforce
  obtain w4 n3 where k: "nvs_putBytes N w3 NVS_SENDER NVS_KEY (take 16 m) = (w4, n3)" by fastforce
  have "blob w1 NVS_SENDER NVS_KEY = None"
    using assms(1) begin_keeps[of w NVS_SENDER False] b by (simp add: is_key)
  moreover have "blob w2 NVS_SENDER NVS_KEY = blob w1 NVS_SENDER NVS_KEY"
    using put_bytes(3)[of NVS_SENDER NVS_KEY NVS_SENDER NVS_PREFIX w1 "drop 16 m"] p sender_names by simp
  moreover have "blob w3 = blob w2"
    using put_uint(4)[of w2 NVS_SENDER NVS_RESERVED COUNTER_WINDOW] u by simp
  moreover have "blob w4 NVS_SENDER NVS_KEY \<in> {blob w3 NVS_SENDER NVS_KEY, Some (take 16 m)}"
    using put_bytes(2)[of w3 NVS_SENDER NVS_KEY "take 16 m"] k by simp
  ultimately show ?thesis
    using assms(2) b p u k by (auto simp: provision_cuts_def Let_def end_keeps split: if_splits)
qed

lemma provision_cuts_kept:
  assumes "nvs_isKey N w NVS_SENDER NVS_KEY" "w' \<in> set (provision_cuts N m w)"
  shows "number w' = number w \<and> blob w' = blob w"
proof -
  obtain w1 opened where b: "nvs_begin N w NVS_SENDER False = (w1, opened)" by fastforce
  have keeps: "number w1 = number w" "blob w1 = blob w"
    using begin_keeps[of w NVS_SENDER False] b by simp_all
  then have "nvs_isKey N w1 NVS_SENDER NVS_KEY" using assms(1) by (simp add: is_key)
  with assms(2) b have "w' = w1" by (simp add: provision_cuts_def case_prod_beta Let_def)
  with keeps show ?thesis by simp
qed

lemma provision_inv:
  assumes "inv w st used" "provisionImpl N random w st = (w', st', status)"
    and fresh: "\<And>m. random = Some m \<Longrightarrow> length m = 28 \<and> take 16 m \<noteq> senderKey st \<and> take 16 m \<notin> fst ` set used"
  shows "inv w' st' used"
proof -
  obtain w1 opened where b: "nvs_begin N w NVS_SENDER False = (w1, opened)" by fastforce
  have inv1: "inv w1 st used" using inv_begin[of w NVS_SENDER False] b assms(1) by simp
  have same: "nvs_isKey N w1 NVS_SENDER NVS_KEY = nvs_isKey N w NVS_SENDER NVS_KEY"
    using begin_keeps[of w NVS_SENDER False] b by (simp add: is_key)
  show ?thesis
  proof (cases "opened \<and> \<not> nvs_isKey N w NVS_SENDER NVS_KEY \<and> random \<noteq> None")
    case False
    with assms(2) b inv1 same load_inv[of "nvs_end N w1" st used] show ?thesis
      by (auto simp: provisionImpl_def Let_def inv_end split: if_splits option.splits)
  next
    case True
    then obtain m where m: "random = Some m" by blast
    note f = fresh[OF m]
    obtain w2 n1 where p: "nvs_putBytes N w1 NVS_SENDER NVS_PREFIX (drop 16 m) = (w2, n1)" by fastforce
    obtain w3 n2 where u: "nvs_putUInt N w2 NVS_SENDER NVS_RESERVED COUNTER_WINDOW = (w3, n2)" by fastforce
    obtain w4 n3 where k: "nvs_putBytes N w3 NVS_SENDER NVS_KEY (take 16 m) = (w4, n3)" by fastforce
    obtain w2 where w2: "w2 \<in> set (provision_cuts N m w)"
      "(w' = nvs_end N w2 \<or> w' = w2) \<and> st' = st \<or> loadSenderState N w2 st = (w', st', status)"
    proof (rule that[of "if n1 \<noteq> 12 then w2 else if n2 = 0 then w3 else if n3 \<noteq> 16 then w4 else nvs_end N w4"])
    qed (use assms(2) b p u k True m same in \<open>simp_all add: provisionImpl_def provision_cuts_def Let_def split: if_splits\<close>)
    have "inv w2 st used"
      by (rule provision_worlds[OF assms(1)])
        (use True f provision_cuts_key[OF _ w2(1)] in auto)
    with w2(2) load_inv inv_end show ?thesis by auto
  qed
qed

lemma reset_worlds:
  assumes "inv w st used" "w' \<in> set (reset_cuts N w)"
  shows "inv w' st used"
proof -
  obtain w1 opened where b: "nvs_begin N w NVS_SENDER False = (w1, opened)" by fastforce
  have inv1: "inv w1 st used" using inv_begin[of w NVS_SENDER False] b assms(1) by simp
  obtain w2 cleared where c: "nvs_clear N w1 NVS_SENDER = (w2, cleared)" by fastforce
  have "number w2 NVS_SENDER NVS_RESERVED \<in> {number w1 NVS_SENDER NVS_RESERVED, None}"
    "blob w2 NVS_SENDER NVS_KEY \<in> {blob w1 NVS_SENDER NVS_KEY, None}"
    using clear(3)[of w1 NVS_SENDER NVS_RESERVED] clear(4)[of w1 NVS_SENDER NVS_KEY] c by simp_all
  then have "inv w2 st used"
    using inv1 by (elim insertE emptyE) (simp_all add: sender_inv_def)
  with assms(2) b c inv1 show ?thesis
    by (auto simp: reset_cuts_def Let_def inv_end split: if_splits)
qed

lemma reset_inv:
  assumes "inv w st used" "factoryResetImpl N w st = (w', st', status)"
  shows "inv w' st' used"
proof -
  have "\<exists>w2 \<in> set (reset_cuts N w). (w' = w2 \<or> w' = nvs_end N w2) \<and> (st' = st \<or> \<not> senderReady st')"
    using assms(2) by (auto simp: factoryResetImpl_def reset_cuts_def Let_def split: if_splits prod.splits)
  with reset_worlds[OF assms(1)] sender_inv_off inv_end show ?thesis by metis
qed

lemma reserve_cut_inv:
  assumes "inv w st used" "senderReady st" "senderCounter st < COUNTER_LIMIT" "senderReserved st \<le> senderCounter st"
    and "w' \<in> set (reserve_cuts N w st)"
  shows "inv w' st used"
proof -
  obtain w1 opened where b: "nvs_begin N w NVS_SENDER False = (w1, opened)" by fastforce
  have keeps: "number w1 = number w" "blob w1 = blob w"
    using begin_keeps[of w NVS_SENDER False] b by simp_all
  define w2 where "w2 = fst (nvs_putUInt N w1 NVS_SENDER NVS_RESERVED (senderCounter st + COUNTER_WINDOW))"
  have "inv w2 st used"
    by (rule reserve_world[OF assms(1-3) _ _ assms(4)])
      (use put_uint(2,4)[of w1 NVS_SENDER NVS_RESERVED] keeps in \<open>auto simp: w2_def\<close>)
  with assms(1,5) b sender_inv_world[OF keeps] show ?thesis
    by (auto simp: reserve_cuts_def Let_def inv_end w2_def split: if_splits)
qed

lemma life_inv: "sender_life B N w st used \<Longrightarrow> inv w st used \<and> distinct used"
proof (induction rule: sender_life.induct)
  case (life_new w)
  then show ?case by (auto simp: sender_inv_def sender_boot_def is_key below_def)
next
  case (life_begin w st used w' st' status)
  then show ?case using load_inv by (auto simp: asconSecureBegin_def)
next
  case (life_provision w st used random w' st' status)
  then show ?case using provision_inv by blast
next
  case (life_reset w st used w' st' status)
  then show ?case using reset_inv by blast
next
  case (life_wrap w st used args used' w' st' status out n)
  then show ?case using wrap_inv[of w st used B args] by blast
next
  case (life_power w st used)
  then show ?case using sender_inv_boot[of number blob w st used] by simp
next
  case (life_cut_wrap w st used w')
  then show ?case using sender_inv_boot[OF reserve_cut_inv] by blast
next
  case (life_cut_provision w st used m w')
  show ?case
  proof (cases "nvs_isKey N w NVS_SENDER NVS_KEY")
    case True
    from provision_cuts_kept[OF True life_cut_provision.hyps(4)]
    have "inv w' st used" using life_cut_provision.IH sender_inv_world[of number w' w blob] by simp
    then show ?thesis using life_cut_provision.IH sender_inv_boot[of number blob w' st used] by simp
  next
    case False
    have "inv w sender_boot used"
      using life_cut_provision.IH sender_inv_boot[of number blob w st used] by simp
    from provision_worlds[OF this False life_cut_provision.hyps(3) _ provision_cuts_key[OF False life_cut_provision.hyps(4)]]
    show ?thesis using life_cut_provision.IH by (simp add: sender_boot_def)
  qed
next
  case (life_cut_reset w st used w')
  then show ?case using sender_inv_boot[OF reset_worlds] by blast
qed

end

end
