(* ===== verification/Secure_Tasks.thy ===== *)
theory Secure_Tasks
  imports Secure_Sender
begin

text \<open>
  Several tasks of the sender of \<open>ascon-lora\<close> that call \<open>asconSecureWrap\<close> at the same time.  The code
  of \<open>AsconSecureEmissor.cpp\<close> takes \<open>counterLock\<close> around its accesses to the counters and not around the
  write to the storage; a step here is one critical section or one call of the storage, so a list of
  steps is an interleaving of the tasks.
\<close>

section \<open>The steps of a call\<close>

text \<open>Where a task stands in \<open>asconSecureWrap\<close> and \<open>reserveCounters\<close>: outside, before opening the storage,
  before reading the counter, with a reservation to write, with a reservation that is written,
  before taking a counter, and with a counter that it took, on its way to the cipher.\<close>

datatype task_pc = Idle | Opening | Reading | Putting u32 | Raising u32 | Taking | Encrypting u32

record 'w config =
  storage_of :: 'w
  sender_of :: sender
  tasks :: "task_pc list"
  used_of :: "(bytes \<times> bytes) list"

datatype task_action = Enter nat | Open nat | Read nat | Put nat | Raise nat | Take nat | Encrypt nat bytes bytes
  | Power_Loss | Load

abbreviation go :: "'w config \<Rightarrow> nat \<Rightarrow> task_pc \<Rightarrow> 'w config" where
  "go c t pc \<equiv> c \<lparr> tasks := (tasks c)[t := pc] \<rparr>"

text \<open>The nonce is built and the cipher is called outside of the lock, with the key and the prefix of that moment; as in
  \<open>asconSecureWrap_log\<close>, \<open>used_of\<close> is the log of the cipher.\<close>

fun task_step :: "'s snp \<Rightarrow> 'w nvs \<Rightarrow> task_action \<Rightarrow> 'w config \<Rightarrow> 'w config" where
  "task_step B N (Enter t) c =
     (let st = sender_of c;
          exhausted = senderCounter st \<ge> COUNTER_LIMIT;
          needsReservation = senderCounter st \<ge> senderReserved st in
      if t < length (tasks c) \<and> tasks c ! t = Idle \<and> senderReady st then
        if exhausted then c else if needsReservation then go c t Opening else go c t Taking
      else c)"
| "task_step B N (Open t) c =
     (if t < length (tasks c) \<and> tasks c ! t = Opening then
        let (w, opened) = nvs_begin N (storage_of c) NVS_SENDER False; c = c \<lparr> storage_of := w \<rparr>
        in if opened then go c t Reading else go c t Idle
      else c)"
| "task_step B N (Read t) c =
     (if t < length (tasks c) \<and> tasks c ! t = Reading
      then go c t (Putting (senderCounter (sender_of c) + COUNTER_WINDOW)) else c)"
| "task_step B N (Put t) c =
     (if t < length (tasks c) then
        case tasks c ! t of
          Putting reservation \<Rightarrow>
            let (w, n) = nvs_putUInt N (storage_of c) NVS_SENDER NVS_RESERVED reservation;
                c = c \<lparr> storage_of := nvs_end N w \<rparr>
            in if n = 0 then go c t Idle else go c t (Raising reservation)
        | _ \<Rightarrow> c
      else c)"
| "task_step B N (Raise t) c =
     (if t < length (tasks c) then
        case tasks c ! t of
          Raising reservation \<Rightarrow>
            let st = sender_of c;
                st = (if reservation > senderReserved st then st \<lparr> senderReserved := reservation \<rparr> else st)
            in go (c \<lparr> sender_of := st \<rparr>) t Taking
        | _ \<Rightarrow> c
      else c)"
| "task_step B N (Take t) c =
     (if t < length (tasks c) \<and> tasks c ! t = Taking then
        let st = sender_of c in
        if senderCounter st \<ge> COUNTER_LIMIT \<or> senderCounter st \<ge> senderReserved st then go c t Idle
        else go (c \<lparr> sender_of := st \<lparr> senderCounter := senderCounter st + 1 \<rparr> \<rparr>) t (Encrypting (senderCounter st))
      else c)"
| "task_step B N (Encrypt t payload header) c =
     (if t < length (tasks c) then
        case tasks c ! t of
          Encrypting counter \<Rightarrow>
            let st = sender_of c; nonce = buildNonce (senderPrefix st) counter;
                (log, cipher) = logged_encrypt B (used_of c) payload header nonce (senderKey st)
            in go (c \<lparr> used_of := log \<rparr>) t Idle
        | _ \<Rightarrow> c
      else c)"
| "task_step B N Power_Loss c = c \<lparr> sender_of := sender_boot, tasks := map (\<lambda>_. Idle) (tasks c) \<rparr>"
| "task_step B N Load c =
     (if \<forall>pc \<in> set (tasks c). pc = Idle then
        let (w, st, status) = loadSenderState N (storage_of c) (sender_of c)
        in c \<lparr> storage_of := w, sender_of := st \<rparr>
      else c)"

definition task_run :: "'s snp \<Rightarrow> 'w nvs \<Rightarrow> task_action list \<Rightarrow> 'w config \<Rightarrow> 'w config" where
  "task_run B N actions c = foldl (\<lambda>c a. task_step B N a c) c actions"

section \<open>As long as the power holds\<close>

text \<open>No call of the storage and no interleaving can make two tasks take the same counter.  The counters that tasks have
  taken and not used yet are different, below the next one, and not in the log.\<close>

definition pending :: "task_pc list \<Rightarrow> (nat \<times> u32) set" where
  "pending ts = {(t, k). t < length ts \<and> ts ! t = Encrypting k}"

definition powered :: "'w config \<Rightarrow> bool" where
  "powered c \<longleftrightarrow> (let st = sender_of c; used = used_of c in
     length (senderPrefix st) = 12 \<and> below used (senderKey st) (senderCounter st) \<and> distinct used \<and>
     inj_on snd (pending (tasks c)) \<and>
     (\<forall>(t, k) \<in> pending (tasks c). k < senderCounter st \<and> (senderKey st, buildNonce (senderPrefix st) k) \<notin> set used))"

lemma pending_go: "\<forall>k. pc \<noteq> Encrypting k \<Longrightarrow> pending (ts[t := pc]) \<subseteq> pending ts"
  by (cases "t < length ts") (auto simp: pending_def nth_list_update split: if_splits)

lemma pending_take: "pending (ts[t := Encrypting k]) \<subseteq> insert (t, k) {(t', k'). t' \<noteq> t \<and> (t', k') \<in> pending ts}"
  by (cases "t < length ts") (auto simp: pending_def nth_list_update split: if_splits)

lemma pending_done: "pending (ts[t := Idle]) \<subseteq> {(t', k'). t' \<noteq> t \<and> (t', k') \<in> pending ts}"
  by (cases "t < length ts") (auto simp: pending_def nth_list_update split: if_splits)

lemma powered_less:
  assumes "powered c" "pending (tasks c') \<subseteq> pending (tasks c)" "used_of c' = used_of c"
    and "sender_of c' = sender_of c \<lparr> senderReserved := r \<rparr>"
  shows "powered c'"
  using assms unfolding powered_def Let_def by (auto intro: inj_on_subset)

lemma powered_go:
  assumes "powered c" "\<forall>k. pc \<noteq> Encrypting k"
  shows "powered (go c t pc)" "powered (c \<lparr> storage_of := w, tasks := (tasks c)[t := pc] \<rparr>)"
    "powered (c \<lparr> storage_of := w \<rparr>)"
  by (rule powered_less[OF assms(1), of _ "senderReserved (sender_of c)"]; simp add: pending_go[OF assms(2)])+

lemma powered_take:
  assumes "powered c" "senderCounter (sender_of c) < COUNTER_LIMIT"
    and "c' = go (c \<lparr> sender_of := sender_of c \<lparr> senderCounter := senderCounter (sender_of c) + 1 \<rparr> \<rparr>) t
      (Encrypting (senderCounter (sender_of c)))"
  shows "powered c'"
proof -
  define st where "st = sender_of c"
  define n where "n = senderCounter st"
  have step: "n < n + 1" using window_step(2)[of n] assms(2) by (simp add: n_def st_def)
  have P: "length (senderPrefix st) = 12" "below (used_of c) (senderKey st) n" "distinct (used_of c)"
    "inj_on snd (pending (tasks c))"
    "\<And>t k. (t, k) \<in> pending (tasks c) \<Longrightarrow> k < n \<and> (senderKey st, buildNonce (senderPrefix st) k) \<notin> set (used_of c)"
    using assms(1) by (auto simp: powered_def Let_def n_def st_def)
  have c': "tasks c' = (tasks c)[t := Encrypting n]" "used_of c' = used_of c" "sender_of c' = st \<lparr> senderCounter := n + 1 \<rparr>"
    by (simp_all add: assms(3) n_def st_def)
  have new: "(senderKey st, buildNonce (senderPrefix st) n) \<notin> set (used_of c)"
    using P(1,2) nonce_counter_build[of "senderPrefix st" n] by (auto simp: below_def)
  have pend: "k = n \<and> t' = t \<or> t' \<noteq> t \<and> (t', k) \<in> pending (tasks c)" if "(t', k) \<in> pending (tasks c')" for t' k
    using that pending_take[of "tasks c" t n] by (auto simp: c')
  have "inj_on snd (pending (tasks c'))"
  proof (rule inj_onI, clarsimp)
    fix a b k assume ab: "(a, k) \<in> pending (tasks c')" "(b, k) \<in> pending (tasks c')"
    show "a = b"
    proof (cases "k = n")
      case True
      then show ?thesis using pend[OF ab(1)] pend[OF ab(2)] P(5) by auto
    next
      case False
      then have "(a, k) \<in> pending (tasks c)" "(b, k) \<in> pending (tasks c)" using pend[OF ab(1)] pend[OF ab(2)] by auto
      then show ?thesis using inj_onD[OF P(4), of "(a, k)" "(b, k)"] by simp
    qed
  qed
  moreover have "below (used_of c) (senderKey st) (n + 1)" using below_mono[OF P(2)] step by auto
  moreover have "k < n + 1 \<and> (senderKey st, buildNonce (senderPrefix st) k) \<notin> set (used_of c)" if "(t', k) \<in> pending (tasks c')" for t' k
    using pend[OF that] P(5) new step by (auto intro: less_trans)
  ultimately show ?thesis using P(1,3) unfolding powered_def Let_def by (auto simp: c')
qed

lemma powered_encrypt:
  assumes "powered c" "(t, k) \<in> pending (tasks c)"
    and "c' = go (c \<lparr> used_of := (senderKey (sender_of c), buildNonce (senderPrefix (sender_of c)) k) # used_of c \<rparr>) t Idle"
  shows "powered c'"
proof -
  define st where "st = sender_of c"
  have P: "length (senderPrefix st) = 12" "below (used_of c) (senderKey st) (senderCounter st)" "distinct (used_of c)"
    "inj_on snd (pending (tasks c))"
    "\<And>t k. (t, k) \<in> pending (tasks c) \<Longrightarrow>
      k < senderCounter st \<and> (senderKey st, buildNonce (senderPrefix st) k) \<notin> set (used_of c)"
    using assms(1) by (auto simp: powered_def Let_def st_def)
  have c': "tasks c' = (tasks c)[t := Idle]" "sender_of c' = st"
    "used_of c' = (senderKey st, buildNonce (senderPrefix st) k) # used_of c"
    by (simp_all add: assms(3) st_def)
  have sub: "t' \<noteq> t \<and> (t', k') \<in> pending (tasks c)" if "(t', k') \<in> pending (tasks c')" for t' k'
    using that pending_done[of "tasks c" t] by (auto simp: c')
  have "below (used_of c') (senderKey st) (senderCounter st)"
    using P(2) P(5)[OF assms(2)] nonce_counter_build[OF P(1), of k] by (auto simp: below_def c')
  moreover have "distinct (used_of c')" using P(3) P(5)[OF assms(2)] by (simp add: c')
  moreover have "inj_on snd (pending (tasks c'))"
    by (rule inj_on_subset[OF P(4)]) (use sub in auto)
  moreover have "k' < senderCounter st \<and> (senderKey st, buildNonce (senderPrefix st) k') \<notin> set (used_of c')"
    if "(t', k') \<in> pending (tasks c')" for t' k'
  proof -
    have t': "t' \<noteq> t" "(t', k') \<in> pending (tasks c)" using sub[OF that] by auto
    have "k' \<noteq> k" using inj_onD[OF P(4) _ t'(2) assms(2)] t'(1) by auto
    then have "buildNonce (senderPrefix st) k' \<noteq> buildNonce (senderPrefix st) k" using buildNonce_counter[OF P(1) P(1)] by blast
    then show ?thesis using P(5)[OF t'(2)] by (simp add: c')
  qed
  ultimately show ?thesis using P(1) unfolding powered_def Let_def by (auto simp: c')
qed

lemma task_step_powered:
  assumes "a \<noteq> Power_Loss" "a \<noteq> Load" "powered c"
  shows "powered (task_step B N a c)"
proof (cases a)
  case (Take t)
  then show ?thesis
    using assms(3) powered_take[OF assms(3) _ refl, of t] powered_go(1)[OF assms(3), of Idle t]
    by (auto simp: Let_def not_le)
next
  case (Encrypt t payload header)
  show ?thesis
  proof (cases "\<exists>k. t < length (tasks c) \<and> tasks c ! t = Encrypting k")
    case True
    then obtain k where k: "(t, k) \<in> pending (tasks c)" "t < length (tasks c)" "tasks c ! t = Encrypting k" by (auto simp: pending_def)
    from powered_encrypt[OF assms(3) k(1) refl] k(2,3) Encrypt show ?thesis by (simp add: logged_encrypt_def Let_def)
  next
    case False
    then show ?thesis using assms(3) Encrypt by (auto split: task_pc.splits)
  qed
next
  case (Raise t)
  show ?thesis
  proof (cases "task_step B N a c = c")
    case False
    define r where "r = senderReserved (sender_of (task_step B N a c))"
    from False have "sender_of (task_step B N a c) = sender_of c \<lparr> senderReserved := r \<rparr>"
      "used_of (task_step B N a c) = used_of c" "tasks (task_step B N a c) = (tasks c)[t := Taking]"
      using Raise by (auto simp: Let_def r_def split: task_pc.splits if_splits)
    then show ?thesis using powered_less[OF assms(3), of "task_step B N a c" r] pending_go[of Taking "tasks c" t] by simp
  qed (use assms(3) in simp)
qed (use assms powered_go[OF assms(3)] in \<open>auto simp: Let_def split: prod.splits task_pc.splits\<close>)

lemma task_run_powered:
  "\<lbrakk>Power_Loss \<notin> set as; Load \<notin> set as; powered c\<rbrakk> \<Longrightarrow> powered (task_run B N as c)"
proof (induction as arbitrary: c)
  case (Cons a as)
  from Cons.prems have "powered (task_step B N a c)"
    by (intro task_step_powered) auto
  with Cons show ?case by (simp add: task_run_def)
qed (simp add: task_run_def)

section \<open>A reservation that is written late\<close>

text \<open>Two tasks share a board whose storage works.  Task 0 computes a reservation and is delayed before it writes
  it; meanwhile task 1 encrypts the messages of \<open>ms\<close>, more than a window of them; then task 0 writes its old,
  smaller reservation over the newer ones, and the power fails.  After the restart the counter starts
  again at the smaller value.\<close>

definition race_board :: "flash \<Rightarrow> flash config" where
  "race_board w = \<lparr> storage_of = w, sender_of = sender_boot, tasks = [Idle, Idle], used_of = [] \<rparr>"

definition one_call :: "nat \<Rightarrow> bytes \<Rightarrow> bytes \<Rightarrow> task_action list" where
  "one_call t payload header = [Enter t, Open t, Read t, Put t, Raise t, Take t, Encrypt t payload header]"

definition late_write :: "bytes list \<Rightarrow> bytes \<Rightarrow> bytes \<Rightarrow> task_action list" where
  "late_write ms m header = [Load, Enter 0, Open 0, Read 0] @ concat (map (\<lambda>m. one_call 1 m header) ms) @
     [Put 0, Power_Loss, Load] @ one_call 1 m header"

lemma task_run_append: "task_run B N (xs @ ys) c = task_run B N ys (task_run B N xs c)"
  by (simp add: task_run_def)

lemma task_run_Cons: "task_run B N (a # as) c = task_run B N as (task_step B N a c)" "task_run B N [] c = c"
  by (simp_all add: task_run_def)

lemma flash_works:
  assumes "flash_faults w = []"
  shows "nvs_begin flash_nvs w ns ro = (w, True)" "nvs_end flash_nvs w = w"
    "nvs_putUInt flash_nvs w ns k v = (w \<lparr> flash_uints := (flash_uints w)(ns := (flash_uints w ns)(k \<mapsto> v)) \<rparr>, 4)"
  using assms by (simp_all add: flash_nvs_def flash_answer_def)

lemma one_call_run:
  assumes "c = \<lparr> storage_of = w, sender_of = st, tasks = [p, Idle], used_of = used \<rparr>"
    and "flash_faults w = []" "senderReady st" "senderCounter st < COUNTER_LIMIT"
  shows "\<exists>w' r. task_run B flash_nvs (one_call 1 m h) c =
      \<lparr> storage_of = w', sender_of = st \<lparr> senderCounter := senderCounter st + 1, senderReserved := r \<rparr>,
        tasks = [p, Idle], used_of = (senderKey st, buildNonce (senderPrefix st) (senderCounter st)) # used \<rparr> \<and>
    flash_faults w' = [] \<and> flash_blobs w' = flash_blobs w"
proof -
  have limit: "\<not> COUNTER_LIMIT \<le> senderCounter st" using assms(4) by simp
  show ?thesis
  proof (cases "senderReserved st \<le> senderCounter st")
    case True
    have more: "senderCounter st < senderCounter st + COUNTER_WINDOW" using window_step(1)[OF assms(4)] .
    then have "senderReserved st < senderCounter st + COUNTER_WINDOW" "\<not> senderCounter st + COUNTER_WINDOW \<le> senderCounter st"
      using True by auto
    with True limit assms(2,3) show ?thesis
      by (simp add: assms(1) one_call_def task_run_Cons flash_works logged_encrypt_def Let_def)
        (rule exI[of _ "senderCounter st + COUNTER_WINDOW"], simp)
  next
    case False
    with limit assms(2,3) show ?thesis
      by (simp add: assms(1) one_call_def task_run_Cons logged_encrypt_def Let_def)
        (rule exI[of _ "senderReserved st"], simp)
  qed
qed

lemma many_calls:
  assumes "c = \<lparr> storage_of = w, sender_of = st, tasks = [p, Idle], used_of = used \<rparr>"
    and "flash_faults w = []" "senderReady st" "unat (senderCounter st) + length ms \<le> unat COUNTER_LIMIT"
  shows "\<exists>w' st' used'. task_run B flash_nvs (concat (map (\<lambda>m. one_call 1 m h) ms)) c =
      \<lparr> storage_of = w', sender_of = st', tasks = [p, Idle], used_of = used' \<rparr> \<and>
    flash_faults w' = [] \<and> flash_blobs w' = flash_blobs w \<and> set used \<subseteq> set used' \<and>
    (\<forall>i < length ms. (senderKey st, buildNonce (senderPrefix st) (senderCounter st + of_nat i)) \<in> set used')"
  using assms
proof (induction ms arbitrary: c w st used)
  case Nil
  then show ?case by (simp add: task_run_Cons)
next
  case (Cons m ms)
  have limit: "senderCounter st < COUNTER_LIMIT" using Cons.prems(4) by (simp add: word_less_nat_alt)
  then have next_counter: "unat (senderCounter st + 1) = unat (senderCounter st) + 1"
    by (simp add: COUNTER_LIMIT_def word_less_nat_alt unat_word_ariths)
  obtain w1 r where one: "task_run B flash_nvs (one_call 1 m h) c =
      \<lparr> storage_of = w1, sender_of = st \<lparr> senderCounter := senderCounter st + 1, senderReserved := r \<rparr>,
        tasks = [p, Idle], used_of = (senderKey st, buildNonce (senderPrefix st) (senderCounter st)) # used \<rparr>"
    and w1: "flash_faults w1 = []" "flash_blobs w1 = flash_blobs w"
    using one_call_run[OF Cons.prems(1-3) limit, of B m h] by auto
  obtain w' st' used' where run: "task_run B flash_nvs (concat (map (\<lambda>m. one_call 1 m h) (m # ms))) c =
      \<lparr> storage_of = w', sender_of = st', tasks = [p, Idle], used_of = used' \<rparr>"
    "flash_faults w' = []" "flash_blobs w' = flash_blobs w"
    "insert (senderKey st, buildNonce (senderPrefix st) (senderCounter st)) (set used) \<subseteq> set used'"
    "\<forall>i < length ms. (senderKey st, buildNonce (senderPrefix st) (senderCounter st + 1 + of_nat i)) \<in> set used'"
    using Cons.IH[OF refl w1(1), of "st \<lparr> senderCounter := senderCounter st + 1, senderReserved := r \<rparr>"
        "(senderKey st, buildNonce (senderPrefix st) (senderCounter st)) # used"] Cons.prems(3,4) next_counter w1(2)
    by (auto simp: task_run_append one[unfolded One_nat_def])
  have "(senderKey st, buildNonce (senderPrefix st) (senderCounter st + of_nat i)) \<in> set used'" if "i < length (m # ms)" for i
  proof (cases i)
    case 0
    then show ?thesis using run(4) by simp
  next
    case (Suc j)
    then show ?thesis using that run(5) by (simp add: algebra_simps)
  qed
  with run show ?case by blast
qed

text \<open>The board after a start, when the storage has a key, a prefix and a reservation.\<close>

lemma load_works:
  assumes "flash_faults w = []" "flash_blobs w NVS_SENDER NVS_KEY = Some key" "length key = 16"
    and "flash_blobs w NVS_SENDER NVS_PREFIX = Some prefix" "length prefix = 12"
    and "flash_uints w NVS_SENDER NVS_RESERVED = Some r" "COUNTER_WINDOW \<le> r"
  shows "loadSenderState flash_nvs w st = (w, \<lparr> senderReady = True, senderKey = key, senderPrefix = prefix,
    senderCounter = r, senderReserved = r \<rparr>, ASCON_SECURE_OK)"
proof -
  have "nvs_isKey flash_nvs w NVS_SENDER NVS_KEY" "nvs_getBytes flash_nvs w NVS_SENDER NVS_KEY 16 = (key, 16)"
    "nvs_getBytes flash_nvs w NVS_SENDER NVS_PREFIX 12 = (prefix, 12)" "nvs_getUInt flash_nvs w NVS_SENDER NVS_RESERVED 0 = r"
    using assms by (simp_all add: flash_nvs_def)
  moreover have "\<not> r < COUNTER_WINDOW" using assms(7) by simp
  ultimately show ?thesis
    using assms(3,5) by (cases st) (simp add: loadSenderState_def flash_works[OF assms(1)] fill_buffer_all Let_def)
qed

text \<open>Property C25. In the interleaving above the nonce of the restarted board was used before with the same key, for
  every key, every reservation \<open>r\<close> that is far enough below the limit, and any messages: the promise
  of the reservation holds for one task, and not for tasks that reserve at the same time.\<close>

theorem late_write_repeats:
  assumes "flash_faults w = []" "flash_blobs w NVS_SENDER NVS_KEY = Some key" "length key = 16"
    and "flash_blobs w NVS_SENDER NVS_PREFIX = Some prefix" "length prefix = 12"
    and "flash_uints w NVS_SENDER NVS_RESERVED = Some r" "COUNTER_WINDOW \<le> r"
    and "unat COUNTER_WINDOW < length ms" "unat r + length ms \<le> unat COUNTER_LIMIT"
  shows "\<exists>used. used_of (task_run B flash_nvs (late_write ms m header) (race_board w)) =
      (key, buildNonce prefix (r + COUNTER_WINDOW)) # used \<and>
    (key, buildNonce prefix (r + COUNTER_WINDOW)) \<in> set used"
proof -
  define st where "st = \<lparr> senderReady = True, senderKey = key, senderPrefix = prefix, senderCounter = r, senderReserved = r \<rparr>"
  define c where "c = \<lparr> storage_of = w, sender_of = st, tasks = [Putting (r + COUNTER_WINDOW), Idle], used_of = [] \<rparr>"
  have sum: "unat (r + COUNTER_WINDOW) = unat r + 32"
    using assms(8,9) by (simp add: COUNTER_LIMIT_def COUNTER_WINDOW_def unat_word_ariths)
  have limit: "\<not> COUNTER_LIMIT \<le> r" "r + COUNTER_WINDOW < COUNTER_LIMIT" "COUNTER_WINDOW \<le> r + COUNTER_WINDOW"
    using assms(8,9) sum by (simp_all add: word_le_nat_alt word_less_nat_alt COUNTER_WINDOW_def)
  have first: "task_run B flash_nvs [Load, Enter 0, Open 0, Read 0] (race_board w) = c"
    using limit(1) load_works[OF assms(1-7)]
    by (simp add: race_board_def task_run_Cons flash_works[OF assms(1)] c_def st_def Let_def)
  obtain w' st' used' where run: "task_run B flash_nvs (concat (map (\<lambda>m. one_call 1 m header) ms)) c =
      \<lparr> storage_of = w', sender_of = st', tasks = [Putting (r + COUNTER_WINDOW), Idle], used_of = used' \<rparr>"
    and w': "flash_faults w' = []" "flash_blobs w' = flash_blobs w"
    and seen: "\<forall>i < length ms. (key, buildNonce prefix (r + of_nat i)) \<in> set used'"
    using many_calls[OF c_def assms(1), of ms B header] assms(9) by (auto simp: st_def)
  define w2 where "w2 = w' \<lparr> flash_uints := (flash_uints w')(NVS_SENDER :=
    (flash_uints w' NVS_SENDER)(NVS_RESERVED \<mapsto> r + COUNTER_WINDOW)) \<rparr>"
  define st2 where "st2 = \<lparr> senderReady = True, senderKey = key, senderPrefix = prefix,
    senderCounter = r + COUNTER_WINDOW, senderReserved = r + COUNTER_WINDOW \<rparr>"
  have w2: "flash_faults w2 = []" "flash_uints w2 NVS_SENDER NVS_RESERVED = Some (r + COUNTER_WINDOW)"
    "flash_blobs w2 = flash_blobs w" using w' by (simp_all add: w2_def)
  have load: "loadSenderState flash_nvs w2 sender_boot = (w2, st2, ASCON_SECURE_OK)"
    unfolding st2_def by (rule load_works[OF w2(1) _ assms(3) _ assms(5) w2(2) limit(3)]) (simp_all add: w2(3) assms(2,4))
  have restart: "task_run B flash_nvs [Put 0, Power_Loss, Load]
      \<lparr> storage_of = w', sender_of = st', tasks = [Putting (r + COUNTER_WINDOW), Idle], used_of = used' \<rparr> =
      \<lparr> storage_of = w2, sender_of = st2, tasks = [Idle, Idle], used_of = used' \<rparr>"
    using load by (simp add: task_run_Cons flash_works[OF w'(1)] flash_works[OF w2(1)] w2_def[symmetric] Let_def)
  have whole: "task_run B flash_nvs (late_write ms m header) (race_board w) = task_run B flash_nvs (one_call 1 m header)
      \<lparr> storage_of = w2, sender_of = st2, tasks = [Idle, Idle], used_of = used' \<rparr>"
    by (simp only: late_write_def task_run_append first run restart)
  have "(key, buildNonce prefix (r + COUNTER_WINDOW)) \<in> set used'"
    using seen assms(8) by (auto simp: COUNTER_WINDOW_def dest: spec[of _ 32])
  moreover have "senderReady st2" "senderCounter st2 < COUNTER_LIMIT" using limit(2) by (simp_all add: st2_def)
  ultimately show ?thesis
    using one_call_run[OF refl w2(1), where st = st2 and used = used' and B = B and m = m and h = header and p = Idle]
    unfolding whole by (auto simp: st2_def)
qed

lemma late_write_repeats_witness:
  "\<exists>used. used_of (task_run (sliced64 True) flash_nvs (late_write (replicate 33 [7]) [8] [])
      (race_board \<lparr> flash_uints = (\<lambda>ns k. if k = NVS_RESERVED then Some 32 else None),
         flash_blobs = (\<lambda>ns k. if k = NVS_KEY then Some (replicate 16 1)
           else if k = NVS_PREFIX then Some (replicate 12 2) else None), flash_faults = [] \<rparr>)) =
      (replicate 16 1, buildNonce (replicate 12 2) 64) # used \<and>
    (replicate 16 1, buildNonce (replicate 12 2) 64) \<in> set used"
  using late_write_repeats[of "\<lparr> flash_uints = (\<lambda>ns k. if k = NVS_RESERVED then Some 32 else None),
         flash_blobs = (\<lambda>ns k. if k = NVS_KEY then Some (replicate 16 1)
           else if k = NVS_PREFIX then Some (replicate 12 2) else None), flash_faults = [] \<rparr>"
      "replicate 16 1" "replicate 12 2" 32 "replicate 33 [7]" "sliced64 True" "[8]" "[]"]
  by (simp add: COUNTER_WINDOW_def COUNTER_LIMIT_def NVS_KEY_def NVS_PREFIX_def)

end
