(* ===== verification/Secure_Receiver.thy ===== *)
theory Secure_Receiver
  imports Secure_Common Aead_Properties
begin

text \<open>
  The receiver of \<open>ascon-lora\<close>: \<open>AsconSecureReceptor.cpp\<close> and the opening function of
  \<open>AsconSecureAtalhos.cpp\<close>, as one task runs them: the table of peers, the counters against replay in
  the non-volatile storage, and the checks of a packet in their order.
\<close>

section \<open>The code\<close>

record peer =
  peer_used :: bool
  peer_id :: u8
  peer_key :: bytes
  peer_prefix :: bytes
  peer_fingerprint :: bytes
  peer_hasAccepted :: bool
  peer_lastAccepted :: u32

record receiver =
  receiverReady :: bool
  peers :: "peer list"

definition peer_zero :: peer where
  "peer_zero = \<lparr> peer_used = False, peer_id = 0, peer_key = zeros 16, peer_prefix = zeros 12,
     peer_fingerprint = zeros 8, peer_hasAccepted = False, peer_lastAccepted = 0 \<rparr>"

definition receiver_boot :: receiver where
  "receiver_boot = \<lparr> receiverReady = False, peers = replicate MAX_PEERS peer_zero \<rparr>"

text \<open>A pointer into the table is an index.\<close>

fun find_index :: "('a \<Rightarrow> bool) \<Rightarrow> 'a list \<Rightarrow> nat option" where
  "find_index P [] = None"
| "find_index P (x # xs) = (if P x then Some 0 else map_option Suc (find_index P xs))"

definition findPeer :: "receiver \<Rightarrow> u8 \<Rightarrow> nat option" where
  "findPeer st peerId = find_index (\<lambda>p. peer_used p \<and> peer_id p = peerId) (peers st)"

definition counter_digits :: string where "counter_digits = ''0123456789abcdef''"

fun hex_pairs :: "bytes \<Rightarrow> string" where
  "hex_pairs (b # bs) =
     counter_digits ! unat (drop_bit 4 b) # counter_digits ! unat (b AND 0x0F) # hex_pairs bs"
| "hex_pairs [] = []"

definition counterKeyFor :: "bytes \<Rightarrow> string" where
  "counterKeyFor fingerprint = CHR ''c'' # hex_pairs (take 7 fingerprint)"

definition receiverBeginImpl :: "'w nvs \<Rightarrow> 'w \<Rightarrow> receiver \<Rightarrow> 'w \<times> receiver \<times> AsconSecureStatus" where
  "receiverBeginImpl N w st =
     (let st = st \<lparr> peers := replicate MAX_PEERS peer_zero \<rparr>; (w, opened) = nvs_begin N w NVS_RECEIVER False in
      if \<not> opened then (w, st \<lparr> receiverReady := False \<rparr>, ASCON_SECURE_ERR_NVS)
      else (nvs_end N w, st \<lparr> receiverReady := True \<rparr>, ASCON_SECURE_OK))"

definition addPeerImpl ::
  "'s snp \<Rightarrow> 'w nvs \<Rightarrow> 'w \<Rightarrow> receiver \<Rightarrow> u8 \<Rightarrow> bytes option \<Rightarrow> bytes option \<Rightarrow> 'w \<times> receiver \<times> AsconSecureStatus" where
  "addPeerImpl B N w st peerId key prefix =
     (if \<not> receiverReady st then (w, st, ASCON_SECURE_ERR_NOT_READY)
      else case (key, prefix) of
        (Some key, Some prefix) \<Rightarrow>
          let fingerprint = keyFingerprint B key prefix;
              slot = (case findPeer st peerId of Some i \<Rightarrow> Some i
                      | None \<Rightarrow> find_index (\<lambda>p. \<not> peer_used p) (peers st)) in
          (case slot of
             None \<Rightarrow> (w, st, ASCON_SECURE_ERR_FULL)
           | Some i \<Rightarrow>
               let counterKey = counterKeyFor fingerprint;
                   (w, opened) = nvs_begin N w NVS_RECEIVER True in
               if \<not> opened then (w, st, ASCON_SECURE_ERR_NVS)
               else
                 let hasAccepted = nvs_isKey N w NVS_RECEIVER counterKey;
                     lastAccepted = (if hasAccepted then nvs_getUInt N w NVS_RECEIVER counterKey 0 else 0);
                     w = nvs_end N w;
                     peer = \<lparr> peer_used = True, peer_id = peerId, peer_key = take 16 key,
                       peer_prefix = take 12 prefix, peer_fingerprint = fingerprint,
                       peer_hasAccepted = hasAccepted, peer_lastAccepted = lastAccepted \<rparr>
                 in (w, st \<lparr> peers := (peers st)[i := peer] \<rparr>, ASCON_SECURE_OK))
      | _ \<Rightarrow> (w, st, ASCON_SECURE_ERR_BUFFER))"

definition asconSecureReceiverBegin :: "'w nvs \<Rightarrow> 'w \<Rightarrow> receiver \<Rightarrow> 'w \<times> receiver \<times> AsconSecureStatus" where
  "asconSecureReceiverBegin N w st = receiverBeginImpl N w st"

definition asconSecureAddPeer ::
  "'s snp \<Rightarrow> 'w nvs \<Rightarrow> 'w \<Rightarrow> receiver \<Rightarrow> u8 \<Rightarrow> bytes option \<Rightarrow> bytes option \<Rightarrow> 'w \<times> receiver \<times> AsconSecureStatus" where
  "asconSecureAddPeer B N w st peerId key prefix = addPeerImpl B N w st peerId key prefix"

text \<open>Recording the counter of a packet that passed its checks: in the storage first, then in every entry of the
  table that has the same key.\<close>

definition persistCounter :: "'w nvs \<Rightarrow> 'w \<Rightarrow> bytes \<Rightarrow> u32 \<Rightarrow> 'w \<times> bool" where
  "persistCounter N w fingerprint counter =
     (let counterKey = counterKeyFor fingerprint; (w, opened) = nvs_begin N w NVS_RECEIVER False in
      if opened then
        let (w, n) = nvs_putUInt N w NVS_RECEIVER counterKey counter in (nvs_end N w, n \<noteq> 0)
      else (w, False))"

definition syncPeers :: "bytes \<Rightarrow> u32 \<Rightarrow> peer list \<Rightarrow> peer list" where
  "syncPeers fingerprint counter =
     map (\<lambda>p. if peer_used p \<and> peer_fingerprint p = fingerprint
              then p \<lparr> peer_hasAccepted := True, peer_lastAccepted := counter \<rparr> else p)"

text \<open>The result has what was written at the payload and the value of \<open>*payloadLength\<close>.\<close>

record unwrap_args =
  unwrap_packet :: "bytes option"
  unwrap_header :: "bytes option"
  unwrap_headerLength :: nat
  unwrap_payload :: bool
  unwrap_payloadCapacity :: nat
  unwrap_payloadLength :: bool

definition asconSecureUnwrap ::
  "'s snp \<Rightarrow> 'w nvs \<Rightarrow> 'w \<Rightarrow> receiver \<Rightarrow> u8 \<Rightarrow> unwrap_args \<Rightarrow>
     'w \<times> receiver \<times> AsconSecureStatus \<times> bytes \<times> nat" where
  "asconSecureUnwrap B N w st peerId args =
     (if \<not> receiverReady st then (w, st, ASCON_SECURE_ERR_NOT_READY, [], 0)
      else case unwrap_packet args of None \<Rightarrow> (w, st, ASCON_SECURE_ERR_BUFFER, [], 0)
      | Some packet \<Rightarrow>
      if \<not> unwrap_payload args \<or> \<not> unwrap_payloadLength args then (w, st, ASCON_SECURE_ERR_BUFFER, [], 0)
      else if unwrap_header args = None \<and> unwrap_headerLength args > 0
      then (w, st, ASCON_SECURE_ERR_BUFFER, [], 0)
      else case findPeer st peerId of None \<Rightarrow> (w, st, ASCON_SECURE_ERR_PEER, [], 0)
      | Some i \<Rightarrow>
        let peer = peers st ! i in
        if length packet < ASCON_SECURE_OVERHEAD \<or>
           length packet - ASCON_SECURE_OVERHEAD > ASCON_SECURE_MAX_PAYLOAD
        then (w, st, ASCON_SECURE_ERR_BUFFER, [], 0)
        else
          let plainLength = length packet - ASCON_SECURE_OVERHEAD in
          if unwrap_payloadCapacity args < plainLength then (w, st, ASCON_SECURE_ERR_BUFFER, [], 0)
          else
            let counter = readCounterBE packet;
                nonce = buildNonce (peer_prefix peer) counter;
                header = (case unwrap_header args of None \<Rightarrow> [] | Some h \<Rightarrow> take (unwrap_headerLength args) h);
                (result, scratch) = ascon128a_aead_decrypt B (drop ASCON_SECURE_COUNTER_BYTES packet)
                  header nonce (peer_key peer) in
            if result < 0 then (w, st, ASCON_SECURE_ERR_AUTH, [], 0)
            else if peer_hasAccepted peer \<and> counter \<le> peer_lastAccepted peer
            then (w, st, ASCON_SECURE_ERR_REPLAY, [], 0)
            else
              let (w, persisted) = persistCounter N w (peer_fingerprint peer) counter in
              if \<not> persisted then (w, st, ASCON_SECURE_ERR_NVS, [], 0)
              else
                let st = st \<lparr> peers := syncPeers (peer_fingerprint peer) counter (peers st) \<rparr>;
                    recovered = the scratch
                in (w, st, ASCON_SECURE_OK, recovered, length recovered))"

definition asconSecureOpen ::
  "'s snp \<Rightarrow> 'w nvs \<Rightarrow> 'w \<Rightarrow> receiver \<Rightarrow> u8 \<Rightarrow> bytes option \<Rightarrow> nat \<Rightarrow> 'w \<times> receiver \<times> AsconBytes" where
  "asconSecureOpen B N w st peerId packet packetLength =
     (if packetLength = 0 then (w, st, emptyResult ASCON_SECURE_EMPTY)
      else
        let (w, st, status, out, n) = asconSecureUnwrap B N w st peerId
              \<lparr> unwrap_packet = map_option (take packetLength) packet, unwrap_header = None,
                unwrap_headerLength = 0, unwrap_payload = True,
                unwrap_payloadCapacity = ASCON_SECURE_MAX_PAYLOAD, unwrap_payloadLength = True \<rparr> in
        if status \<noteq> ASCON_SECURE_OK then (w, st, emptyResult status)
        else (w, st, \<lparr> ab_data = put_at (zeros ASCON_SECURE_MAX_PACKET) 0 out, ab_length = n, ab_status = status \<rparr>))"

section \<open>The life of a receiver\<close>

text \<open>Everything a receiver can go through: calls in any order, with any answers of the storage, a loss of power at any
  moment, and changes of the storage outside the namespace of the receiver.  \<open>K\<close> are the keys and
  prefixes that are ever registered.  \<open>log\<close> has the fingerprint and the counter of each packet that was
  delivered, the last one first.\<close>

inductive receiver_life ::
  "'s snp \<Rightarrow> 'w nvs \<Rightarrow> ('w \<Rightarrow> string \<Rightarrow> string \<Rightarrow> u32 option) \<Rightarrow> (bytes \<times> bytes) set \<Rightarrow>
     'w \<Rightarrow> receiver \<Rightarrow> (bytes \<times> u32) list \<Rightarrow> bool"
  for B N number K where
  rlife_new: "receiver_life B N number K w receiver_boot []"
| rlife_begin: "\<lbrakk>receiver_life B N number K w st log; asconSecureReceiverBegin N w st = (w', st', status)\<rbrakk> \<Longrightarrow>
    receiver_life B N number K w' st' log"
| rlife_add: "\<lbrakk>receiver_life B N number K w st log; (key, prefix) \<in> K;
      asconSecureAddPeer B N w st peerId (Some key) (Some prefix) = (w', st', status)\<rbrakk> \<Longrightarrow>
    receiver_life B N number K w' st' log"
| rlife_unwrap: "\<lbrakk>receiver_life B N number K w st log; findPeer st peerId = Some i;
      asconSecureUnwrap B N w st peerId args = (w', st', status, out, n)\<rbrakk> \<Longrightarrow>
    receiver_life B N number K w' st'
      (if status = ASCON_SECURE_OK
       then (peer_fingerprint (peers st ! i), readCounterBE (the (unwrap_packet args))) # log else log)"
| rlife_power: "receiver_life B N number K w st log \<Longrightarrow> receiver_life B N number K w receiver_boot log"
| rlife_cut: "\<lbrakk>receiver_life B N number K w st log; findPeer st peerId = Some i;
      asconSecureUnwrap B N w st peerId args = (w', st', status, out, n)\<rbrakk> \<Longrightarrow>
    receiver_life B N number K w' receiver_boot log"
| rlife_other: "\<lbrakk>receiver_life B N number K w st log; number w' NVS_RECEIVER = number w NVS_RECEIVER\<rbrakk> \<Longrightarrow>
    receiver_life B N number K w' st log"

section \<open>No packet is delivered twice\<close>

definition fingerprints :: "'s snp \<Rightarrow> (bytes \<times> bytes) set \<Rightarrow> bytes set" where
  "fingerprints B K = (\<lambda>(k, q). keyFingerprint B k q) ` K"

definition receiver_inv ::
  "'s snp \<Rightarrow> ('w \<Rightarrow> string \<Rightarrow> string \<Rightarrow> u32 option) \<Rightarrow> (bytes \<times> bytes) set \<Rightarrow>
     'w \<Rightarrow> receiver \<Rightarrow> (bytes \<times> u32) list \<Rightarrow> bool" where
  "receiver_inv B number K w st log \<longleftrightarrow>
     (\<forall>p \<in> set (peers st). peer_used p \<longrightarrow>
        peer_fingerprint p \<in> fingerprints B K \<and>
        (\<forall>c. (peer_fingerprint p, c) \<in> set log \<longrightarrow> peer_hasAccepted p \<and> c \<le> peer_lastAccepted p)) \<and>
     (\<forall>f c. (f, c) \<in> set log \<longrightarrow> f \<in> fingerprints B K \<and>
        (\<exists>v. number w NVS_RECEIVER (counterKeyFor f) = Some v \<and> c \<le> v)) \<and>
     sorted_wrt (\<lambda>(f, c) (f', c'). f = f' \<longrightarrow> c' < c) log"

lemma find_index_Some: "find_index P xs = Some i \<Longrightarrow> i < length xs \<and> P (xs ! i)"
  by (induction xs arbitrary: i) (auto split: if_splits simp: nth_Cons')

lemma hex_digits_inj: "\<lbrakk>counter_digits ! i = counter_digits ! j; i < 16; j < 16\<rbrakk> \<Longrightarrow> i = j"
  using nth_eq_iff_index_eq[of counter_digits i j] by (simp add: counter_digits_def)

lemma byte_nibbles:
  assumes "drop_bit 4 b = drop_bit 4 b'" "b AND 0x0F = b' AND (0x0F :: u8)"
  shows "b = b'"
proof -
  have "take_bit 4 b = take_bit 4 b'" using assms(2) by (simp add: take_bit_eq_mask mask_eq_exp_minus_1)
  then show ?thesis using assms(1) by (metis bits_ident)
qed

lemma nibble_bounds: "unat (drop_bit 4 (b :: u8)) < 16" "unat (b AND 0x0F) < 16"
proof -
  show "unat (drop_bit 4 b) < 16"
    using unsigned_less[of b, where ?'a = nat] by (simp add: drop_bit_eq_div unat_div)
  have "b AND 0x0F = take_bit 4 b" by (simp add: take_bit_eq_mask mask_eq_exp_minus_1)
  then show "unat (b AND 0x0F) < 16" by (simp add: unsigned_take_bit_eq take_bit_nat_less_exp[of 4, simplified])
qed

lemma hex_pairs_inj: "\<lbrakk>length xs = length ys; hex_pairs xs = hex_pairs ys\<rbrakk> \<Longrightarrow> xs = ys"
proof (induction xs ys rule: list_induct2)
  case (Cons x xs y ys)
  from Cons.prems have eq: "counter_digits ! unat (drop_bit 4 x) = counter_digits ! unat (drop_bit 4 y)"
    "counter_digits ! unat (x AND 0x0F) = counter_digits ! unat (y AND 0x0F)" "hex_pairs xs = hex_pairs ys"
    by simp_all
  have "drop_bit 4 x = drop_bit 4 y"
    by (rule unsigned_word_eqI[OF hex_digits_inj[OF eq(1) nibble_bounds(1) nibble_bounds(1)]])
  moreover have "x AND 0x0F = y AND 0x0F"
    by (rule unsigned_word_eqI[OF hex_digits_inj[OF eq(2) nibble_bounds(2) nibble_bounds(2)]])
  ultimately have "x = y" by (rule byte_nibbles)
  with Cons.IH eq(3) show ?case by simp
qed simp

lemma counterKey_inj:
  "\<lbrakk>length f = 8; length f' = 8; counterKeyFor f = counterKeyFor f'\<rbrakk> \<Longrightarrow> take 7 f = take 7 f'"
  using hex_pairs_inj[of "take 7 f" "take 7 f'"] by (simp add: counterKeyFor_def)

lemma length_fingerprint: "length (spec_hash xs) = 32"
  by (simp add: spec_hash_def)

text \<open>The conditions under which a packet is delivered, and what a delivery changes.\<close>

lemma unwrap_cases:
  assumes "asconSecureUnwrap B N w st peerId args = (w', st', status, out, n)" "findPeer st peerId = Some i"
  shows "(status \<noteq> ASCON_SECURE_OK \<and> st' = st \<and> out = [] \<and> n = 0 \<and>
      (w' = w \<or> (\<exists>f c ok. f = peer_fingerprint (peers st ! i) \<and> persistCounter N w f c = (w', ok) \<and>
        (peer_hasAccepted (peers st ! i) \<longrightarrow> peer_lastAccepted (peers st ! i) < c)))) \<or>
    (\<exists>packet f c. status = ASCON_SECURE_OK \<and> unwrap_packet args = Some packet \<and> c = readCounterBE packet \<and>
      f = peer_fingerprint (peers st ! i) \<and> persistCounter N w f c = (w', True) \<and>
      (peer_hasAccepted (peers st ! i) \<longrightarrow> peer_lastAccepted (peers st ! i) < c) \<and>
      st' = st \<lparr> peers := syncPeers f c (peers st) \<rparr>)"
  using assms
  by (auto simp: asconSecureUnwrap_def Let_def not_le split: if_splits option.splits prod.splits)

context nvs_laws
begin

lemma persist_world:
  assumes "persistCounter N w f c = (w', ok)"
  shows "number w' NVS_RECEIVER (counterKeyFor f) \<in> {number w NVS_RECEIVER (counterKeyFor f), Some c} \<and>
    (ok \<longrightarrow> number w' NVS_RECEIVER (counterKeyFor f) = Some c) \<and>
    (\<forall>k. k \<noteq> counterKeyFor f \<longrightarrow> number w' NVS_RECEIVER k = number w NVS_RECEIVER k)"
proof -
  obtain w1 opened where b: "nvs_begin N w NVS_RECEIVER False = (w1, opened)" by fastforce
  have keeps: "number w1 = number w" using begin_keeps(1)[of w NVS_RECEIVER False] b by simp
  obtain w2 n where p: "nvs_putUInt N w1 NVS_RECEIVER (counterKeyFor f) c = (w2, n)" by fastforce
  show ?thesis
    using assms b p keeps put_uint(1,2)[of w1 NVS_RECEIVER "counterKeyFor f" c]
      put_uint(3)[of NVS_RECEIVER _ NVS_RECEIVER "counterKeyFor f" w1 c]
    by (auto simp: persistCounter_def Let_def end_keeps split: if_splits)
qed

abbreviation rinv :: "'s snp \<Rightarrow> (bytes \<times> bytes) set \<Rightarrow> 'w \<Rightarrow> receiver \<Rightarrow> (bytes \<times> u32) list \<Rightarrow> bool" where
  "rinv B \<equiv> receiver_inv B number"

lemma rinv_world: "number w' NVS_RECEIVER = number w NVS_RECEIVER \<Longrightarrow> rinv B K w' st log = rinv B K w st log"
  by (simp add: receiver_inv_def)

lemma rinv_unused: "\<lbrakk>rinv B K w st log; \<forall>p \<in> set (peers st'). \<not> peer_used p\<rbrakk> \<Longrightarrow> rinv B K w st' log"
  by (simp add: receiver_inv_def)

lemma rinv_boot: "rinv B K w st log \<Longrightarrow> rinv B K w receiver_boot log"
  by (erule rinv_unused) (simp add: receiver_boot_def peer_zero_def)

lemma receiver_begin_inv:
  assumes "rinv B K w st log" "asconSecureReceiverBegin N w st = (w', st', status)"
  shows "rinv B K w' st' log"
proof -
  have "number w' = number w"
    using assms(2) begin_keeps(1)[of w NVS_RECEIVER False] end_keeps(1)
    by (auto simp: asconSecureReceiverBegin_def receiverBeginImpl_def Let_def split: prod.splits if_splits)
  then have "rinv B K w' st log" using assms(1) rinv_world by metis
  then show ?thesis
    by (rule rinv_unused)
      (use assms(2) in \<open>auto simp: asconSecureReceiverBegin_def receiverBeginImpl_def Let_def peer_zero_def
         split: prod.splits if_splits\<close>)
qed

lemma add_peer_inv:
  assumes "rinv B K w st log" "(key, prefix) \<in> K"
    and "asconSecureAddPeer B N w st peerId (Some key) (Some prefix) = (w', st', status)"
  shows "rinv B K w' st' log"
proof -
  obtain w1 opened where b: "nvs_begin N w NVS_RECEIVER True = (w1, opened)" by fastforce
  have keeps: "number w1 = number w" using begin_keeps(1)[of w NVS_RECEIVER True] b by simp
  have w': "number w' = number w"
    using assms(3) b keeps end_keeps(1)
    by (auto simp: asconSecureAddPeer_def addPeerImpl_def Let_def split: option.splits if_splits)
  let ?f = "keyFingerprint B key prefix"
  consider "st' = st"
    | i p where "st' = st \<lparr> peers := (peers st)[i := p] \<rparr>" "peer_fingerprint p = ?f"
      "peer_hasAccepted p = nvs_isKey N w1 NVS_RECEIVER (counterKeyFor ?f)"
      "peer_lastAccepted p = (if peer_hasAccepted p then nvs_getUInt N w1 NVS_RECEIVER (counterKeyFor ?f) 0 else 0)"
    using assms(3) b
    by (auto simp: asconSecureAddPeer_def addPeerImpl_def Let_def split: option.splits if_splits)
  then show ?thesis
  proof cases
    case 1
    with assms(1) w' show ?thesis by (simp add: receiver_inv_def)
  next
    case 2
    have old: "peer_hasAccepted p \<and> c \<le> peer_lastAccepted p" if e: "(peer_fingerprint p, c) \<in> set log" for c
    proof -
      obtain v where "number w NVS_RECEIVER (counterKeyFor ?f) = Some v" "c \<le> v"
        using assms(1) e unfolding receiver_inv_def 2(2) by blast
      then show ?thesis using 2(3,4) by (simp add: keeps is_key get_uint)
    qed
    have fp: "peer_fingerprint p \<in> fingerprints B K"
      using assms(2) 2(2) by (force simp: fingerprints_def)
    have peers: "set (peers st') \<subseteq> insert p (set (peers st))" using 2(1) set_update_subset_insert by simp
    have "peer_fingerprint q \<in> fingerprints B K \<and>
        (\<forall>c. (peer_fingerprint q, c) \<in> set log \<longrightarrow> peer_hasAccepted q \<and> c \<le> peer_lastAccepted q)"
      if "q \<in> set (peers st')" "peer_used q" for q
    proof (cases "q = p")
      case True
      then show ?thesis using fp old by blast
    next
      case False
      then have "q \<in> set (peers st)" using that(1) peers by blast
      then show ?thesis using assms(1) that(2) unfolding receiver_inv_def by blast
    qed
    then show ?thesis using assms(1) w' by (simp add: receiver_inv_def)
  qed
qed

lemma in_syncPeers:
  "p \<in> set (syncPeers f c ps) \<Longrightarrow> \<exists>q \<in> set ps. p = q \<and> \<not> (peer_used q \<and> peer_fingerprint q = f) \<or>
     peer_used q \<and> peer_fingerprint q = f \<and> p = q \<lparr> peer_hasAccepted := True, peer_lastAccepted := c \<rparr>"
  by (auto simp: syncPeers_def split: if_splits)

lemma unwrap_inv:
  assumes inv: "rinv B K w st log" and i: "findPeer st peerId = Some i"
    and run: "asconSecureUnwrap B N w st peerId args = (w', st', status, out, n)"
    and inj: "inj_on (take 7) (fingerprints B K)" and len: "\<And>f. f \<in> fingerprints B K \<Longrightarrow> length f = 8"
  shows "rinv B K w' st'
      (if status = ASCON_SECURE_OK
       then (peer_fingerprint (peers st ! i), readCounterBE (the (unwrap_packet args))) # log else log) \<and>
    rinv B K w' st log"
proof -
  let ?p = "peers st ! i" and ?f = "peer_fingerprint (peers st ! i)"
  have p: "?p \<in> set (peers st)" "peer_used ?p"
    using find_index_Some[OF i[unfolded findPeer_def]] by auto
  have f: "?f \<in> fingerprints B K" using inv p by (auto simp: receiver_inv_def)
  have old: "c \<le> peer_lastAccepted ?p \<and> peer_hasAccepted ?p" if "(?f, c) \<in> set log" for c
    using inv p that by (auto simp: receiver_inv_def)
  have other: "counterKeyFor f' \<noteq> counterKeyFor ?f" if "f' \<in> fingerprints B K" "f' \<noteq> ?f" for f'
    using counterKey_inj[OF len[OF that(1)] len[OF f]] inj that f by (auto dest: inj_onD)
  have stored: "rinv B K w' st log \<and> (ok \<longrightarrow> rinv B K w' (st \<lparr> peers := syncPeers ?f c (peers st) \<rparr>) ((?f, c) # log))"
    if persist: "persistCounter N w ?f c = (w', ok)" and new: "peer_hasAccepted ?p \<longrightarrow> peer_lastAccepted ?p < c" for c ok
  proof -
    note world = persist_world[OF persist]
    have less: "d < c" if "(?f, d) \<in> set log" for d
      using old[OF that] new by auto
    have store: "f' \<in> fingerprints B K \<and> (\<exists>v. number w' NVS_RECEIVER (counterKeyFor f') = Some v \<and> d \<le> v)"
      if e: "(f', d) \<in> set log" for f' d
    proof (cases "f' = ?f")
      case True
      then show ?thesis using world inv e less by (fastforce simp: receiver_inv_def)
    next
      case False
      moreover have "f' \<in> fingerprints B K" using inv e by (auto simp: receiver_inv_def)
      ultimately show ?thesis using world other inv e by (metis (no_types, lifting) receiver_inv_def)
    qed
    have "rinv B K w' st log" using inv store by (simp add: receiver_inv_def)
    moreover have "rinv B K w' (st \<lparr> peers := syncPeers ?f c (peers st) \<rparr>) ((?f, c) # log)" if ok
      unfolding receiver_inv_def
    proof (intro conjI ballI allI impI)
      fix q assume "q \<in> set (peers (st \<lparr> peers := syncPeers ?f c (peers st) \<rparr>))" "peer_used q"
      then obtain r where r: "r \<in> set (peers st)" "peer_used r" "peer_fingerprint q = peer_fingerprint r"
        "q = r \<and> peer_fingerprint r \<noteq> ?f \<or> peer_fingerprint r = ?f \<and> peer_hasAccepted q \<and> peer_lastAccepted q = c"
        by (auto dest!: in_syncPeers)
      show "peer_fingerprint q \<in> fingerprints B K" using inv r by (auto simp: receiver_inv_def)
      fix d assume "(peer_fingerprint q, d) \<in> set ((?f, c) # log)"
      then show "peer_hasAccepted q" "d \<le> peer_lastAccepted q"
        using r inv less by (fastforce simp: receiver_inv_def)+
    next
      fix f' d assume e: "(f', d) \<in> set ((?f, c) # log)"
      show "f' \<in> fingerprints B K" using e f store by auto
      show "\<exists>v. number w' NVS_RECEIVER (counterKeyFor f') = Some v \<and> d \<le> v"
        using e world \<open>ok\<close> store by auto
    next
      show "sorted_wrt (\<lambda>(f, c) (f', c'). f = f' \<longrightarrow> c' < c) ((?f, c) # log)"
        using inv less by (auto simp: receiver_inv_def)
    qed
    ultimately show ?thesis by blast
  qed
  from unwrap_cases[OF run i] show ?thesis
  proof (elim disjE conjE exE)
    assume "status \<noteq> ASCON_SECURE_OK" "st' = st" "w' = w"
    with inv show ?thesis by simp
  next
    fix f c ok
    assume "status \<noteq> ASCON_SECURE_OK" "st' = st" "f = ?f" "persistCounter N w f c = (w', ok)"
      "peer_hasAccepted ?p \<longrightarrow> peer_lastAccepted ?p < c"
    with stored show ?thesis by simp
  next
    fix packet f c
    assume "status = ASCON_SECURE_OK" "unwrap_packet args = Some packet" "c = readCounterBE packet" "f = ?f"
      "persistCounter N w f c = (w', True)" "peer_hasAccepted ?p \<longrightarrow> peer_lastAccepted ?p < c"
      "st' = st \<lparr> peers := syncPeers f c (peers st) \<rparr>"
    with stored[of c True] show ?thesis by simp
  qed
qed

lemma receiver_life_inv:
  assumes "inj_on (take 7) (fingerprints B K)" "\<And>f. f \<in> fingerprints B K \<Longrightarrow> length f = 8"
  shows "receiver_life B N number K w st log \<Longrightarrow> rinv B K w st log"
proof (induction rule: receiver_life.induct)
  case (rlife_new w)
  then show ?case by (simp add: receiver_inv_def receiver_boot_def peer_zero_def)
next
  case (rlife_begin w st log w' st' status)
  then show ?case using receiver_begin_inv by blast
next
  case (rlife_add w st log key prefix peerId w' st' status)
  then show ?case using add_peer_inv by blast
next
  case (rlife_unwrap w st log peerId i args w' st' status out n)
  from unwrap_inv[OF rlife_unwrap.IH rlife_unwrap.hyps(2,3) assms] show ?case by blast
next
  case (rlife_power w st log)
  then show ?case by (rule_tac rinv_boot)
next
  case (rlife_cut w st log peerId i args w' st' status out n)
  from unwrap_inv[OF rlife_cut.IH rlife_cut.hyps(2,3) assms] show ?case using rinv_boot by blast
next
  case (rlife_other w st log w')
  then show ?case using rinv_world by blast
qed

end

end
