(* ===== verification/Secure_Properties.thy ===== *)
theory Secure_Properties
  imports Secure_Tasks Secure_Receiver
begin

text \<open>
  The properties of the secured LoRa link: a nonce is used once, a packet is delivered once, and what
  is delivered is what was sent.
\<close>

section \<open>The sender\<close>

lemma take_counter_value:
  "takeCounter N w st = (w', st', ASCON_SECURE_OK, c) \<Longrightarrow>
     c = senderCounter st \<and> senderKey st' = senderKey st \<and> senderPrefix st' = senderPrefix st"
  by (auto simp: takeCounter_def reserveCounters_def Let_def split: if_splits prod.splits)

lemma wrap_logged:
  assumes "asconSecureWrap_log B N log w st args = (log', w', st', status, out, n)"
  shows "if status = ASCON_SECURE_OK
    then senderReady st \<and> (\<exists>m nonce c. wrap_payload args = Some m \<and> nonce = buildNonce (senderPrefix st) c \<and> log' = (senderKey st, nonce) # log \<and>
      out = writeCounterBE c @ ascon128a_aead_encrypt B m
        (case wrap_header args of None \<Rightarrow> [] | Some (a, h) \<Rightarrow> take (wrap_headerLength args) h) nonce (senderKey st))
    else log' = log \<and> out = []"
  using assms
  by (auto simp: asconSecureWrap_log_def logged_encrypt_def Let_def split: if_splits option.splits prod.splits
      dest!: take_counter_value)

text \<open>Property C12. No key encrypts two packets with the same nonce, in any history of a board with one task: calls
  after each other in any order, any failures of the storage, provisioning and factory resets, and a
  loss of power at any moment, also in the middle of a write.  \<open>used\<close> is the log of the calls of
  \<open>ascon128a_aead_encrypt\<close>, with the key and the nonce that each was given.  A call of \<open>asconSecureWrap\<close> that succeeds
  makes one new entry, with the key of the board and a nonce that is not in the log with it, and its packet is the end
  of that nonce with the encryption of the payload and the header under it; any other call makes no entry and no
  packet.  The storage keeps what it confirmed, and the generator of the chip does not repeat a key.\<close>

theorem sender_nonce_once:
  assumes "nvs_laws N number blob" and "sender_life B N w st used"
  shows "distinct used \<and>
    (case asconSecureWrap_log B N used w st args of (used', w', st', status, out, n) \<Rightarrow>
       if status = ASCON_SECURE_OK
       then \<exists>m nonce. wrap_payload args = Some m \<and> used' = (senderKey st, nonce) # used \<and> (senderKey st, nonce) \<notin> set used \<and>
         out = drop 12 nonce @ ascon128a_aead_encrypt B m
           (case wrap_header args of None \<Rightarrow> [] | Some (a, h) \<Rightarrow> take (wrap_headerLength args) h) nonce (senderKey st)
       else used' = used \<and> out = [])"
proof -
  obtain used' w' st' status out n where call: "asconSecureWrap_log B N used w st args = (used', w', st', status, out, n)"
    by (metis prod.exhaust)
  have "distinct used'" using nvs_laws.life_inv[OF assms(1) life_wrap[OF assms(2) call]] by simp
  moreover have "sender_inv number blob w st used" "distinct used" using nvs_laws.life_inv[OF assms] by simp_all
  ultimately show ?thesis
    using wrap_logged[OF call] by (auto simp: call buildNonce_def secure_sizes sender_inv_def split: if_splits)
qed

lemma wrap_status:
  assumes "asconSecureWrap B N w st \<lparr> wrap_payload = Some m, wrap_header = None, wrap_headerLength = 0,
      wrap_packet = Some a, wrap_packetCapacity = cap, wrap_packetLength = True \<rparr> = (w', st', status, out, n)"
    and "senderReady st" "length m \<le> 200" "length m + 20 \<le> cap"
  shows "\<exists>c. takeCounter N w st = (w', st', status, c) \<and> (status = ASCON_SECURE_OK \<longrightarrow>
    out = writeCounterBE c @ ascon128a_aead_encrypt B m [] (buildNonce (senderPrefix st') c) (senderKey st') \<and>
    n = length out)"
  using assms by (auto simp: asconSecureWrap_defs secure_sizes Let_def split: prod.splits if_splits)

lemma sender_nonce_once_witness:
  "\<exists>w st used. sender_life (sliced64 True) flash_nvs w st used \<and> length used = 1 \<and> distinct used"
proof -
  define w0 where "w0 = \<lparr> flash_uints = (\<lambda>_ _. None), flash_blobs = (\<lambda>_ _. None), flash_faults = [] \<rparr>"
  obtain w1 st1 s1 where p: "provisionImpl flash_nvs (Some (replicate 28 1)) w0 sender_boot = (w1, st1, s1)"
    by (metis prod.exhaust)
  obtain w2 st2 s2 c where t: "takeCounter flash_nvs w1 st1 = (w2, st2, s2, c)" by (metis prod.exhaust)
  have "case provisionImpl flash_nvs (Some (replicate 28 1)) w0 sender_boot of (w1, st1, s1) \<Rightarrow>
      senderReady st1 \<and> (case takeCounter flash_nvs w1 st1 of (w2, st2, s2, c) \<Rightarrow> s2 = ASCON_SECURE_OK)"
    unfolding w0_def by code_simp
  then have ready: "senderReady st1" and ok: "s2 = ASCON_SECURE_OK" by (simp_all add: p t)
  let ?args = "\<lparr> wrap_payload = Some [1], wrap_header = None, wrap_headerLength = 0,
      wrap_packet = Some 0, wrap_packetCapacity = 220, wrap_packetLength = True \<rparr>"
  obtain used w3 st3 s3 out n where wrap: "asconSecureWrap_log (sliced64 True) flash_nvs [] w1 st1 ?args = (used, w3, st3, s3, out, n)"
    by (metis prod.exhaust)
  then have "asconSecureWrap (sliced64 True) flash_nvs w1 st1 ?args = (w3, st3, s3, out, n)" by (simp add: asconSecureWrap_def)
  from wrap_status[OF this ready] t ok have "s3 = ASCON_SECURE_OK" by simp
  have "sender_life (sliced64 True) flash_nvs w0 sender_boot []"
    by (rule life_new) (simp add: flash_nvs_def w0_def)
  from life_provision[OF this p] have life: "sender_life (sliced64 True) flash_nvs w1 st1 []"
    by (simp add: sender_boot_def zeros_def numeral_eq_Suc)
  have after: "sender_life (sliced64 True) flash_nvs w3 st3 used" by (rule life_wrap[OF life wrap])
  moreover have "length used = 1" using wrap_logged[OF wrap] \<open>s3 = ASCON_SECURE_OK\<close> by auto
  moreover have "distinct used" using sender_nonce_once[OF flash.nvs_laws_axioms after] by (rule conjunct1)
  ultimately show ?thesis by blast
qed

text \<open>Property C24. While the power holds, tasks that call \<open>asconSecureWrap\<close> at the same time never give the cipher a
  nonce twice, in any interleaving of their critical sections, calls of the storage and calls of the
  cipher and with any failures of the storage.  At the start no task is on its way to the cipher.\<close>

theorem tasks_nonce_once:
  assumes "Power_Loss \<notin> set actions" "Load \<notin> set actions"
    and "used_of c = []" "length (senderPrefix (sender_of c)) = 12" "pending (tasks c) = {}"
  shows "distinct (used_of (task_run B N actions c))"
proof -
  have "powered c" using assms(3-5) by (simp add: powered_def below_def Let_def)
  from task_run_powered[OF assms(1,2) this, of B N] show ?thesis by (simp add: powered_def Let_def)
qed

lemma tasks_nonce_once_witness:
  "distinct (used_of (task_run (sliced64 True) flash_nvs
     [Enter 0, Open 0, Enter 1, Open 1, Read 0, Read 1, Put 1, Put 0, Raise 0, Take 0, Raise 1, Take 1,
      Encrypt 1 [7] [], Encrypt 0 [8] []]
     \<lparr> storage_of = \<lparr> flash_uints = (\<lambda>_ _. Some 32), flash_blobs = (\<lambda>_ _. None), flash_faults = [] \<rparr>,
        sender_of = \<lparr> senderReady = True, senderKey = replicate 16 1, senderPrefix = replicate 12 2,
          senderCounter = 32, senderReserved = 32 \<rparr>, tasks = [Idle, Idle], used_of = [] \<rparr>))"
  by (rule tasks_nonce_once) (auto simp: pending_def nth_Cons')

section \<open>The receiver\<close>

lemma fingerprint_length: "f \<in> fingerprints (sliced64 le) K \<Longrightarrow> length f = 8"
  using snp_laws.hash_eq[OF sliced64.snp_laws_axioms, of le]
  by (auto simp: fingerprints_def keyFingerprint_def Let_def length_fingerprint)

text \<open>Property C13. The counters of the packets that are delivered for a key are strictly increasing, and so no packet
  is delivered twice, in anything a receiver can go through: any calls, peers registered again or under
  several numbers, any failures of the storage, and a loss of power at any moment.  The fingerprints
  of the registered keys differ in the seven bytes that name a counter in the storage.\<close>

theorem receiver_no_replay:
  assumes "nvs_laws N number blob" and "receiver_life (sliced64 le) N number K w st log"
    and "inj_on (take 7) (fingerprints (sliced64 le) K)"
  shows "sorted_wrt (\<lambda>(f, c) (f', c'). f = f' \<longrightarrow> c' < c) log \<and> distinct log"
proof -
  have "receiver_inv (sliced64 le) number K w st log"
    by (rule nvs_laws.receiver_life_inv[OF assms(1,3) _ assms(2)]) (rule fingerprint_length)
  then have sorted: "sorted_wrt (\<lambda>(f, c) (f', c'). f = f' \<longrightarrow> c' < c) log"
    by (simp add: receiver_inv_def)
  then have "distinct log" by (induction log) auto
  with sorted show ?thesis by blast
qed

text \<open>The checks of a packet, with the cipher replaced by what decryption accepts.\<close>

lemma unwrap_spec:
  assumes "receiverReady st" "findPeer st peerId = Some i" "P = peers st ! i"
    and "length (peer_key P) = 16" "length (peer_prefix P) = 12"
    and "20 \<le> length packet" "length packet \<le> 220" "length packet \<le> cap + 20"
    and "h = None \<longrightarrow> hn = 0"
    and "enc = (\<lambda>m. ascon128a_aead_encrypt (sliced64 le) m (case h of None \<Rightarrow> [] | Some x \<Rightarrow> take hn x)
      (buildNonce (peer_prefix P) (readCounterBE packet)) (peer_key P))"
    and "result = asconSecureUnwrap (sliced64 le) N w st peerId
        \<lparr> unwrap_packet = Some packet, unwrap_header = h, unwrap_headerLength = hn,
          unwrap_payload = True, unwrap_payloadCapacity = cap, unwrap_payloadLength = True \<rparr>"
    and "c = readCounterBE packet"
  shows "(\<forall>m. drop 4 packet \<noteq> enc m) \<Longrightarrow> result = (w, st, ASCON_SECURE_ERR_AUTH, [], 0)"
    and "drop 4 packet = enc m \<Longrightarrow>
        (if peer_hasAccepted P \<and> c \<le> peer_lastAccepted P
         then result = (w, st, ASCON_SECURE_ERR_REPLAY, [], 0)
         else case persistCounter N w (peer_fingerprint P) c of (w', persisted) \<Rightarrow>
           result = (if persisted
             then (w', st \<lparr> peers := syncPeers (peer_fingerprint P) c (peers st) \<rparr>, ASCON_SECURE_OK, m, length m)
             else (w', st, ASCON_SECURE_ERR_NVS, [], 0)))"
proof -
  define dec where "dec = ascon128a_aead_decrypt (sliced64 le) (drop 4 packet)
    (case h of None \<Rightarrow> [] | Some x \<Rightarrow> take hn x) (buildNonce (peer_prefix P) c) (peer_key P)"
  have packet: "((dec = (0, Some m)) = (drop 4 packet = enc m)) \<and>
      ((\<forall>m. drop 4 packet \<noteq> enc m) \<longrightarrow> fst dec = -1)" for m
    using snp_laws.mode_packet[OF sliced64.snp_laws_axioms, of "ascon128a (sliced64 le)" le "peer_key P"
        "buildNonce (peer_prefix P) c" "drop 4 packet" "case h of None \<Rightarrow> [] | Some x \<Rightarrow> take hn x" m] assms(4,5)
    by (auto simp: aead_modes dec_def assms(10,12) length_buildNonce)
  have bounds: "length packet - 20 \<le> cap" "length packet - 20 \<le> 200" "\<not> (h = None \<and> 0 < hn)"
    using assms(7,8,9) by auto
  have run: "result = (if fst dec < 0 then (w, st, ASCON_SECURE_ERR_AUTH, [], 0)
     else if peer_hasAccepted P \<and> c \<le> peer_lastAccepted P then (w, st, ASCON_SECURE_ERR_REPLAY, [], 0)
     else case persistCounter N w (peer_fingerprint P) c of (w', persisted) \<Rightarrow>
       if \<not> persisted then (w', st, ASCON_SECURE_ERR_NVS, [], 0)
       else (w', st \<lparr> peers := syncPeers (peer_fingerprint P) c (peers st) \<rparr>,
         ASCON_SECURE_OK, the (snd dec), length (the (snd dec))))"
    using assms(1-3,6) bounds
    by (cases h) (simp_all add: asconSecureUnwrap_def secure_sizes dec_def Let_def case_prod_beta not_less assms(11,12))
  show "result = (w, st, ASCON_SECURE_ERR_AUTH, [], 0)" if "\<forall>m. drop 4 packet \<noteq> enc m"
    using packet that by (simp add: run)
  show "if peer_hasAccepted P \<and> c \<le> peer_lastAccepted P
      then result = (w, st, ASCON_SECURE_ERR_REPLAY, [], 0)
      else case persistCounter N w (peer_fingerprint P) c of (w', persisted) \<Rightarrow>
        result = (if persisted
          then (w', st \<lparr> peers := syncPeers (peer_fingerprint P) c (peers st) \<rparr>, ASCON_SECURE_OK, m, length m)
          else (w', st, ASCON_SECURE_ERR_NVS, [], 0))" if "drop 4 packet = enc m"
    using packet[of m] that by (simp add: run split: prod.split)
qed

text \<open>What opening a packet of a registered peer returns.  It accepts exactly the packets whose
  ciphertext is an encryption under the key of the peer, the nonce of its prefix and the counter in the
  packet, and the header; a genuine packet whose counter is not larger than the last one is a replay; and the
  plaintext is handed out only after the counter was stored.  In all other cases nothing is written
  and the table is unchanged.\<close>

theorem unwrap_result:
  assumes "receiverReady st" "findPeer st peerId = Some i" "P = peers st ! i"
    and "length (peer_key P) = 16" "length (peer_prefix P) = 12"
    and "20 \<le> length packet" "length packet \<le> 220" "length packet \<le> cap + 20"
    and "enc = (\<lambda>m. ascon128a_aead_encrypt (sliced64 le) m header
      (buildNonce (peer_prefix P) (readCounterBE packet)) (peer_key P))"
  shows "let result = asconSecureUnwrap (sliced64 le) N w st peerId
        \<lparr> unwrap_packet = Some packet, unwrap_header = Some header, unwrap_headerLength = length header,
          unwrap_payload = True, unwrap_payloadCapacity = cap, unwrap_payloadLength = True \<rparr>;
      c = readCounterBE packet
    in ((\<forall>m. drop 4 packet \<noteq> enc m) \<longrightarrow> result = (w, st, ASCON_SECURE_ERR_AUTH, [], 0)) \<and>
      (\<forall>m. drop 4 packet = enc m \<longrightarrow>
        (if peer_hasAccepted P \<and> c \<le> peer_lastAccepted P
         then result = (w, st, ASCON_SECURE_ERR_REPLAY, [], 0)
         else case persistCounter N w (peer_fingerprint P) c of (w', persisted) \<Rightarrow>
           result = (if persisted
             then (w', st \<lparr> peers := syncPeers (peer_fingerprint P) c (peers st) \<rparr>, ASCON_SECURE_OK, m, length m)
             else (w', st, ASCON_SECURE_ERR_NVS, [], 0))))"
  unfolding Let_def
  using unwrap_spec[OF assms(1-8), of "Some header" "length header" enc le _ N w] assms(9)
  by (intro conjI allI impI) simp_all

text \<open>A receiver with one peer, for the witnesses.\<close>

definition sample_receiver :: receiver where
  "sample_receiver = \<lparr> receiverReady = True, peers = \<lparr> peer_used = True, peer_id = 1, peer_key = sample_key,
     peer_prefix = replicate 12 2, peer_fingerprint = replicate 8 3, peer_hasAccepted = True,
     peer_lastAccepted = 7 \<rparr> # replicate 7 peer_zero \<rparr>"

definition empty_flash :: flash where
  "empty_flash = \<lparr> flash_uints = (\<lambda>_ _. None), flash_blobs = (\<lambda>_ _. None), flash_faults = [] \<rparr>"

lemma sample_receiver_peer:
  "findPeer sample_receiver 1 = Some 0" "receiverReady sample_receiver"
  "peer_key (peers sample_receiver ! 0) = sample_key" "peer_prefix (peers sample_receiver ! 0) = replicate 12 2"
  "peer_hasAccepted (peers sample_receiver ! 0)" "peer_lastAccepted (peers sample_receiver ! 0) = 7"
  by (simp_all add: findPeer_def sample_receiver_def)

lemma unwrap_result_witness:
  "asconSecureUnwrap (sliced64 True) flash_nvs empty_flash sample_receiver 1
     \<lparr> unwrap_packet = Some (writeCounterBE 7 @ ascon128a_aead_encrypt (sliced64 True) [1, 2, 3] [9]
          (buildNonce (replicate 12 2) 7) sample_key),
       unwrap_header = Some [9], unwrap_headerLength = 1, unwrap_payload = True, unwrap_payloadCapacity = 200,
       unwrap_payloadLength = True \<rparr> = (empty_flash, sample_receiver, ASCON_SECURE_ERR_REPLAY, [], 0)"
proof -
  let ?enc = "\<lambda>m. ascon128a_aead_encrypt (sliced64 True) m [9] (buildNonce (replicate 12 2) 7) sample_key"
  have len: "length (?enc [1, 2, 3]) = 19"
    using snp_laws.ascon128a_encrypt_spec[OF sliced64.snp_laws_axioms, of sample_key "buildNonce (replicate 12 2) 7"]
    by (simp add: length_buildNonce length_spec_encrypt)
  show ?thesis
    using unwrap_result[of sample_receiver 1 0 "peers sample_receiver ! 0" "writeCounterBE 7 @ ?enc [1, 2, 3]" 200 ?enc True
        "[9]" flash_nvs empty_flash] len sample_receiver_peer
    by (fastforce simp: read_write_counter Let_def)
qed

lemma receiver_no_replay_witness:
  "\<exists>w st log. receiver_life (sliced64 True) flash_nvs flash_uints {(sample_key, replicate 12 2)} w st log \<and>
    length log = 1 \<and> distinct log"
proof -
  let ?B = "sliced64 True" and ?p = "replicate 12 (2 :: u8)" and ?K = "{(sample_key, replicate 12 (2 :: u8))}"
  define f where "f = keyFingerprint ?B sample_key ?p"
  define r1 where "r1 = \<lparr> receiverReady = True, peers = replicate 8 peer_zero \<rparr>"
  define p1 where "p1 = \<lparr> peer_used = True, peer_id = 1, peer_key = sample_key, peer_prefix = ?p,
    peer_fingerprint = f, peer_hasAccepted = False, peer_lastAccepted = 0 \<rparr>"
  define r2 where "r2 = r1 \<lparr> peers := p1 # replicate 7 peer_zero \<rparr>"
  have started: "asconSecureReceiverBegin flash_nvs empty_flash receiver_boot = (empty_flash, r1, ASCON_SECURE_OK)"
    by (simp add: asconSecureReceiverBegin_def receiverBeginImpl_def flash_nvs_def flash_answer_def empty_flash_def
        receiver_boot_def r1_def MAX_PEERS_def)
  have add: "asconSecureAddPeer ?B flash_nvs empty_flash r1 1 (Some sample_key) (Some ?p) = (empty_flash, r2, ASCON_SECURE_OK)"
    by (simp add: asconSecureAddPeer_def addPeerImpl_def flash_nvs_def flash_answer_def empty_flash_def findPeer_def
        r1_def r2_def p1_def f_def peer_zero_def numeral_eq_Suc)
  have found: "findPeer r2 1 = Some 0" by (simp add: findPeer_def r2_def p1_def)
  let ?enc = "\<lambda>m. ascon128a_aead_encrypt ?B m [] (buildNonce ?p 7) sample_key"
  have len: "length (?enc [5]) = 17"
    using snp_laws.ascon128a_encrypt_spec[OF sliced64.snp_laws_axioms, of sample_key "buildNonce ?p 7"]
    by (simp add: length_buildNonce length_spec_encrypt)
  define args where "args = \<lparr> unwrap_packet = Some (writeCounterBE 7 @ ?enc [5]), unwrap_header = None,
    unwrap_headerLength = 0, unwrap_payload = True, unwrap_payloadCapacity = 200, unwrap_payloadLength = True \<rparr>"
  obtain w3 where persist: "persistCounter flash_nvs empty_flash f 7 = (w3, True)"
    by (simp add: persistCounter_def flash_nvs_def flash_answer_def empty_flash_def)
  have "asconSecureUnwrap ?B flash_nvs empty_flash r2 1 args =
      (w3, r2 \<lparr> peers := syncPeers f 7 (peers r2) \<rparr>, ASCON_SECURE_OK, [5], 1)"
    using unwrap_spec(2)[of r2 1 0 p1 "writeCounterBE 7 @ ?enc [5]" 200 None 0 ?enc True _ flash_nvs empty_flash 7 "[5]"]
      found len persist by (simp add: args_def r2_def r1_def p1_def read_write_counter)
  from rlife_unwrap[OF rlife_add[OF rlife_begin[OF rlife_new started] _ add] found this]
  have life: "receiver_life ?B flash_nvs flash_uints ?K w3 (r2 \<lparr> peers := syncPeers f 7 (peers r2) \<rparr>) [(f, 7)]"
    by (simp add: r2_def p1_def args_def read_write_counter)
  have "inj_on (take 7) (fingerprints ?B ?K)" by (simp add: fingerprints_def)
  from receiver_no_replay[OF flash.nvs_laws_axioms life this] life show ?thesis by fastforce
qed

section \<open>The link\<close>

lemma wrap_ok:
  assumes "asconSecureWrap B N w st \<lparr> wrap_payload = Some m, wrap_header = None, wrap_headerLength = 0,
      wrap_packet = Some a, wrap_packetCapacity = cap, wrap_packetLength = True \<rparr> = (w', st', ASCON_SECURE_OK, out, n)"
  shows "length m \<le> 200 \<and> out = writeCounterBE (senderCounter st) @
    ascon128a_aead_encrypt B m [] (buildNonce (senderPrefix st) (senderCounter st)) (senderKey st) \<and> n = length out"
  using assms
  by (auto simp: asconSecureWrap_defs secure_sizes Let_def split: prod.splits if_splits dest!: take_counter_value)

lemma put_at_start: "length x \<le> n \<Longrightarrow> put_at (zeros n) 0 x = x @ zeros (n - length x)"
  by (rule nth_equalityI) (auto simp: byte_nth nth_append)

text \<open>A message that the sender packs is what the receiver gets when it opens the packet, with a zero byte
  behind it, if the two have the same key and prefix, the receiver has not accepted this counter or a
  later one, and its storage works; sender and receiver may have processors of different byte
  orders.  The packet has 20 bytes more than the message.\<close>

theorem pack_open:
  assumes "asconSecurePack_bytes (sliced64 le) N a w st (Some m) = (w1, st1, packet)" "ab_status packet = ASCON_SECURE_OK"
    and "length (senderKey st) = 16" "length (senderPrefix st) = 12"
    and "receiverReady r" "findPeer r peerId = Some i"
    and "peer_key (peers r ! i) = senderKey st" "peer_prefix (peers r ! i) = senderPrefix st"
    and "peer_hasAccepted (peers r ! i) \<longrightarrow> peer_lastAccepted (peers r ! i) < senderCounter st"
    and "persistCounter N' v (peer_fingerprint (peers r ! i)) (senderCounter st) = (v', True)"
  shows "ab_length packet = length m + 20 \<and>
    (\<exists>r'. asconSecureOpen (sliced64 le') N' v r peerId (Some (ab_data packet)) (ab_length packet) =
      (v', r', \<lparr> ab_data = m @ zeros (220 - length m), ab_length = length m, ab_status = ASCON_SECURE_OK \<rparr>))"
proof -
  let ?c = "senderCounter st" and ?P = "peers r ! i"
  let ?enc = "\<lambda>B m. ascon128a_aead_encrypt B m [] (buildNonce (senderPrefix st) ?c) (senderKey st)"
  have len16: "length (buildNonce (senderPrefix st) ?c) = 16" using assms(4) by (rule length_buildNonce)
  have enc: "?enc (sliced64 x) m = spec_aead_encrypt ASCON128a_IV 16 4 (senderKey st) (buildNonce (senderPrefix st) ?c) [] m" for x m
    by (rule snp_laws.ascon128a_encrypt_spec[OF sliced64.snp_laws_axioms assms(3) len16])
  obtain w0 st0 status out n where wrap: "asconSecureWrap (sliced64 le) N w st \<lparr> wrap_payload = Some m, wrap_header = None,
      wrap_headerLength = 0, wrap_packet = Some a, wrap_packetCapacity = 220, wrap_packetLength = True \<rparr> =
      (w0, st0, status, out, n)" by (metis prod.exhaust)
  have "status = ASCON_SECURE_OK" using wrap assms(1,2)
    by (auto simp: asconSecurePack_bytes_def secure_sizes Let_def emptyResult_def split: if_splits)
  note ok = wrap_ok[OF wrap[unfolded this]]
  have length_out: "length out = length m + 20" using ok by (simp add: enc length_spec_encrypt)
  have "packet = \<lparr> ab_data = put_at (zeros 220) 0 out, ab_length = n, ab_status = status \<rparr>"
    using wrap assms(1) \<open>status = ASCON_SECURE_OK\<close>
    by (simp add: asconSecurePack_bytes_def secure_sizes Let_def)
  then have packet: "ab_length packet = length out" "ab_data packet = out @ zeros (220 - length out)"
    using ok length_out by (simp_all add: put_at_start)
  have out: "readCounterBE out = ?c" "drop 4 out = ?enc (sliced64 le') m" using ok by (simp_all add: read_write_counter enc)
  have "asconSecureUnwrap (sliced64 le') N' v r peerId \<lparr> unwrap_packet = Some out, unwrap_header = None,
      unwrap_headerLength = 0, unwrap_payload = True, unwrap_payloadCapacity = 200, unwrap_payloadLength = True \<rparr> =
    (v', r \<lparr> peers := syncPeers (peer_fingerprint ?P) ?c (peers r) \<rparr>, ASCON_SECURE_OK, m, length m)"
  proof -
    have len: "20 \<le> length out" "length out \<le> 220" "length out \<le> 200 + 20" "length (peer_key ?P) = 16"
      "length (peer_prefix ?P) = 12" using length_out ok assms(3,4,7,8) by simp_all
    have fresh: "\<not> (peer_hasAccepted ?P \<and> ?c \<le> peer_lastAccepted ?P)" using assms(9) by auto
    have enc': "?enc (sliced64 le') = (\<lambda>m. ascon128a_aead_encrypt (sliced64 le') m
        (case None of None \<Rightarrow> [] | Some x \<Rightarrow> take 0 x) (buildNonce (peer_prefix ?P) (readCounterBE out)) (peer_key ?P))"
      by (simp add: assms(7,8) out(1))
    show ?thesis
      using unwrap_spec(2)[OF assms(5,6) refl len(4,5,1-3) _ enc' refl out(1)[symmetric] out(2), of N' v] fresh assms(10)
      by (simp split: if_splits)
  qed
  then show ?thesis
    using length_out packet ok by (auto simp: asconSecureOpen_def secure_sizes put_at_start)
qed

lemma pack_open_witness:
  "let st = \<lparr> senderReady = True, senderKey = sample_key, senderPrefix = replicate 12 2,
       senderCounter = 40, senderReserved = 64 \<rparr>
   in case asconSecurePack_bytes (sliced64 True) flash_nvs 0 empty_flash st (Some [1, 2, 3]) of
     (w, st', packet) \<Rightarrow> ab_length packet = 23 \<and>
       (\<exists>v r. asconSecureOpen (sliced64 False) flash_nvs empty_flash sample_receiver 1
         (Some (ab_data packet)) 23 =
         (v, r, \<lparr> ab_data = [1, 2, 3] @ zeros 217, ab_length = 3, ab_status = ASCON_SECURE_OK \<rparr>))"
proof -
  let ?st = "\<lparr> senderReady = True, senderKey = sample_key, senderPrefix = replicate 12 2,
    senderCounter = 40, senderReserved = 64 \<rparr>"
  obtain w st' packet where pack: "asconSecurePack_bytes (sliced64 True) flash_nvs 0 empty_flash ?st (Some [1, 2, 3]) =
      (w, st', packet)" by (metis prod.exhaust)
  have ok: "ab_status packet = ASCON_SECURE_OK"
    using pack by (auto simp: asconSecurePack_bytes_def asconSecureWrap_defs secure_sizes takeCounter_def
        COUNTER_LIMIT_def Let_def split: if_splits prod.splits)
  obtain v where persist: "persistCounter flash_nvs empty_flash
      (peer_fingerprint (peers sample_receiver ! 0)) (senderCounter ?st) = (v, True)"
    by (simp add: persistCounter_def flash_nvs_def flash_answer_def empty_flash_def)
  from pack_open[OF pack ok _ _ _ _ _ _ _ persist, of 1 False] sample_receiver_peer pack show ?thesis by auto
qed

end
