(* ===== verification/Masked_Word.thy ===== *)
theory Masked_Word
  imports Snp_Sliced32
begin

text \<open>
  \<open>masking/ascon-masked-word.h\<close> and \<open>masking/ascon-masked-state.h\<close>: what all masked
  representations share.  A masked word stands for a 64-bit word as the exclusive or of two, three
  or four shares, share \<open>k\<close> being kept rotated with respect to share 0 except in the direct-XOR
  representation; this theory has the rotation macros, the
  record of the operations on a masked word with a given number of shares, and the locale
  \<open>masked_word\<close>, the contract of these operations: whatever random words are drawn, the
  operation on the shares is the operation on the word they stand for.

  The generator is a parameter: \<open>next_64\<close> and \<open>next_32\<close> stand for
  \<open>ascon_trng_generate_64\<close> and \<open>ascon_trng_generate_32\<close> (theory \<open>Trng\<close> models them), and a
  masked operation threads its state.
\<close>

section \<open>Random words\<close>

record 't rng =
  next_64 :: "'t \<Rightarrow> 't \<times> u64"
  next_32 :: "'t \<Rightarrow> 't \<times> u32"

section \<open>Rotation of the shares\<close>

text \<open>The flag tells whether \<open>ASCON_MASKED_WORD_BACKEND_DIRECT_XOR\<close> is defined.\<close>

definition ascon_mask64_rotate_share1_0 :: "bool \<Rightarrow> u64 \<Rightarrow> u64" where
  "ascon_mask64_rotate_share1_0 direct x = (if direct then x else rightRotate_64 x 11)"

definition ascon_mask64_rotate_share2_0 :: "bool \<Rightarrow> u64 \<Rightarrow> u64" where
  "ascon_mask64_rotate_share2_0 direct x = (if direct then x else rightRotate_64 x 22)"

definition ascon_mask64_rotate_share2_1 :: "bool \<Rightarrow> u64 \<Rightarrow> u64" where
  "ascon_mask64_rotate_share2_1 direct x = (if direct then x else rightRotate_64 x 11)"

definition ascon_mask64_rotate_share3_0 :: "bool \<Rightarrow> u64 \<Rightarrow> u64" where
  "ascon_mask64_rotate_share3_0 direct x = (if direct then x else rightRotate_64 x 33)"

definition ascon_mask64_rotate_share3_1 :: "bool \<Rightarrow> u64 \<Rightarrow> u64" where
  "ascon_mask64_rotate_share3_1 direct x = (if direct then x else rightRotate_64 x 22)"

definition ascon_mask64_rotate_share3_2 :: "bool \<Rightarrow> u64 \<Rightarrow> u64" where
  "ascon_mask64_rotate_share3_2 direct x = (if direct then x else rightRotate_64 x 11)"

definition ascon_mask64_unrotate_share1_0 :: "bool \<Rightarrow> u64 \<Rightarrow> u64" where
  "ascon_mask64_unrotate_share1_0 direct x = (if direct then x else rightRotate_64 x 53)"

definition ascon_mask64_unrotate_share2_0 :: "bool \<Rightarrow> u64 \<Rightarrow> u64" where
  "ascon_mask64_unrotate_share2_0 direct x = (if direct then x else rightRotate_64 x 42)"

definition ascon_mask64_unrotate_share2_1 :: "bool \<Rightarrow> u64 \<Rightarrow> u64" where
  "ascon_mask64_unrotate_share2_1 direct x = (if direct then x else rightRotate_64 x 53)"

definition ascon_mask64_unrotate_share3_0 :: "bool \<Rightarrow> u64 \<Rightarrow> u64" where
  "ascon_mask64_unrotate_share3_0 direct x = (if direct then x else rightRotate_64 x 31)"

definition ascon_mask64_unrotate_share3_1 :: "bool \<Rightarrow> u64 \<Rightarrow> u64" where
  "ascon_mask64_unrotate_share3_1 direct x = (if direct then x else rightRotate_64 x 42)"

definition ascon_mask64_unrotate_share3_2 :: "bool \<Rightarrow> u64 \<Rightarrow> u64" where
  "ascon_mask64_unrotate_share3_2 direct x = (if direct then x else rightRotate_64 x 53)"

definition ascon_mask32_rotate_share1_0 :: "u32 \<Rightarrow> u32" where
  "ascon_mask32_rotate_share1_0 x = rightRotate x 5"

definition ascon_mask32_rotate_share2_0 :: "u32 \<Rightarrow> u32" where
  "ascon_mask32_rotate_share2_0 x = rightRotate x 10"

definition ascon_mask32_rotate_share2_1 :: "u32 \<Rightarrow> u32" where
  "ascon_mask32_rotate_share2_1 x = rightRotate x 5"

definition ascon_mask32_rotate_share3_0 :: "u32 \<Rightarrow> u32" where
  "ascon_mask32_rotate_share3_0 x = rightRotate x 15"

definition ascon_mask32_rotate_share3_1 :: "u32 \<Rightarrow> u32" where
  "ascon_mask32_rotate_share3_1 x = rightRotate x 10"

definition ascon_mask32_rotate_share3_2 :: "u32 \<Rightarrow> u32" where
  "ascon_mask32_rotate_share3_2 x = rightRotate x 5"

definition ascon_mask32_unrotate_share1_0 :: "u32 \<Rightarrow> u32" where
  "ascon_mask32_unrotate_share1_0 x = rightRotate x 27"

definition ascon_mask32_unrotate_share2_0 :: "u32 \<Rightarrow> u32" where
  "ascon_mask32_unrotate_share2_0 x = rightRotate x 22"

definition ascon_mask32_unrotate_share2_1 :: "u32 \<Rightarrow> u32" where
  "ascon_mask32_unrotate_share2_1 x = rightRotate x 27"

definition ascon_mask32_unrotate_share3_0 :: "u32 \<Rightarrow> u32" where
  "ascon_mask32_unrotate_share3_0 x = rightRotate x 17"

definition ascon_mask32_unrotate_share3_1 :: "u32 \<Rightarrow> u32" where
  "ascon_mask32_unrotate_share3_1 x = rightRotate x 22"

definition ascon_mask32_unrotate_share3_2 :: "u32 \<Rightarrow> u32" where
  "ascon_mask32_unrotate_share3_2 x = rightRotate x 27"

lemmas mask64_defs =
  ascon_mask64_rotate_share1_0_def ascon_mask64_rotate_share2_0_def
  ascon_mask64_rotate_share2_1_def ascon_mask64_rotate_share3_0_def
  ascon_mask64_rotate_share3_1_def ascon_mask64_rotate_share3_2_def
  ascon_mask64_unrotate_share1_0_def ascon_mask64_unrotate_share2_0_def
  ascon_mask64_unrotate_share2_1_def ascon_mask64_unrotate_share3_0_def
  ascon_mask64_unrotate_share3_1_def ascon_mask64_unrotate_share3_2_def

lemmas mask32_defs =
  ascon_mask32_rotate_share1_0_def ascon_mask32_rotate_share2_0_def
  ascon_mask32_rotate_share2_1_def ascon_mask32_rotate_share3_0_def
  ascon_mask32_rotate_share3_1_def ascon_mask32_rotate_share3_2_def
  ascon_mask32_unrotate_share1_0_def ascon_mask32_unrotate_share2_0_def
  ascon_mask32_unrotate_share2_1_def ascon_mask32_unrotate_share3_0_def
  ascon_mask32_unrotate_share3_1_def ascon_mask32_unrotate_share3_2_def

lemma word_rotr_and: "word_rotr n (a AND b) = word_rotr n a AND word_rotr n (b :: 'a::len word)"
  by (rule bit_word_eqI) (simp add: bit_word_rotr_iff bit_and_iff)

lemma word_rotr_or: "word_rotr n (a OR b) = word_rotr n a OR word_rotr n (b :: 'a::len word)"
  by (rule bit_word_eqI) (simp add: bit_word_rotr_iff bit_or_iff)

lemmas rotr_bitwise = word_rotr_xor word_rotr_and word_rotr_or word_rotr_not

lemma word_rotr_wrap:
  "word_rotr (64 + n) (x :: u64) = word_rotr n x" "word_rotr (32 + n) (y :: u32) = word_rotr n y"
proof -
  have *: "(i + (64 + n)) mod 64 = (i + n) mod 64" "(i + (32 + n)) mod 32 = (i + n) mod 32" for i :: nat
    by (simp_all only: add.left_commute[of i] mod_add_self1)
  show "word_rotr (64 + n) x = word_rotr n x" "word_rotr (32 + n) y = word_rotr n y"
    by (rule bit_word_eqI; simp only: bit_rotr_at *)+
qed

lemmas rotr_wrap =
  word_rotr_wrap(1)[of 0, simplified] word_rotr_wrap(1)[of 11, simplified]
  word_rotr_wrap(1)[of 31, simplified] word_rotr_wrap(1)[of 42, simplified]
  word_rotr_wrap(1)[of 53, simplified] word_rotr_wrap(2)[of 0, simplified]
  word_rotr_wrap(2)[of 5, simplified] word_rotr_wrap(2)[of 17, simplified]
  word_rotr_wrap(2)[of 22, simplified] word_rotr_wrap(2)[of 27, simplified]

lemma word_rotr_0 [simp]: "word_rotr 0 (x :: 'a::len word) = x"
  by (rule bit_word_eqI) (simp add: bit_word_rotr_iff)

text \<open>A rotation of shares commutes with the bitwise operations, so only the positions of the
  shares matter: bringing any share to the position of share 0 undoes its own rotation.\<close>


lemma mask64_positions [simp]:
  "ascon_mask64_unrotate_share1_0 d (ascon_mask64_rotate_share1_0 d x) = x"
  "ascon_mask64_unrotate_share2_0 d (ascon_mask64_rotate_share2_0 d x) = x"
  "ascon_mask64_unrotate_share3_0 d (ascon_mask64_rotate_share3_0 d x) = x"
  "ascon_mask64_unrotate_share2_0 d (ascon_mask64_rotate_share2_1 d x) = ascon_mask64_unrotate_share1_0 d x"
  "ascon_mask64_unrotate_share1_0 d (ascon_mask64_unrotate_share2_1 d x) = ascon_mask64_unrotate_share2_0 d x"
  "ascon_mask64_unrotate_share3_0 d (ascon_mask64_rotate_share3_1 d x) = ascon_mask64_unrotate_share1_0 d x"
  "ascon_mask64_unrotate_share1_0 d (ascon_mask64_unrotate_share3_1 d x) = ascon_mask64_unrotate_share3_0 d x"
  "ascon_mask64_unrotate_share3_0 d (ascon_mask64_rotate_share3_2 d x) = ascon_mask64_unrotate_share2_0 d x"
  "ascon_mask64_unrotate_share2_0 d (ascon_mask64_unrotate_share3_2 d x) = ascon_mask64_unrotate_share3_0 d x"
  by (simp_all add: mask64_defs rotate_64 word_rotr_word_rotr_eq rotr_wrap)

lemma mask64_bitwise:
  "ascon_mask64_rotate_share1_0 d (a XOR b) = ascon_mask64_rotate_share1_0 d a XOR ascon_mask64_rotate_share1_0 d b"
  "ascon_mask64_rotate_share1_0 d (a AND b) = ascon_mask64_rotate_share1_0 d a AND ascon_mask64_rotate_share1_0 d b"
  "ascon_mask64_rotate_share1_0 d (a OR b) = ascon_mask64_rotate_share1_0 d a OR ascon_mask64_rotate_share1_0 d b"
  "ascon_mask64_rotate_share1_0 d (NOT a) = NOT (ascon_mask64_rotate_share1_0 d a)"
  "ascon_mask64_rotate_share1_0 d 0 = 0"
  "ascon_mask64_rotate_share2_0 d (a XOR b) = ascon_mask64_rotate_share2_0 d a XOR ascon_mask64_rotate_share2_0 d b"
  "ascon_mask64_rotate_share2_0 d (a AND b) = ascon_mask64_rotate_share2_0 d a AND ascon_mask64_rotate_share2_0 d b"
  "ascon_mask64_rotate_share2_0 d (a OR b) = ascon_mask64_rotate_share2_0 d a OR ascon_mask64_rotate_share2_0 d b"
  "ascon_mask64_rotate_share2_0 d (NOT a) = NOT (ascon_mask64_rotate_share2_0 d a)"
  "ascon_mask64_rotate_share2_0 d 0 = 0"
  "ascon_mask64_rotate_share2_1 d (a XOR b) = ascon_mask64_rotate_share2_1 d a XOR ascon_mask64_rotate_share2_1 d b"
  "ascon_mask64_rotate_share2_1 d (a AND b) = ascon_mask64_rotate_share2_1 d a AND ascon_mask64_rotate_share2_1 d b"
  "ascon_mask64_rotate_share2_1 d (a OR b) = ascon_mask64_rotate_share2_1 d a OR ascon_mask64_rotate_share2_1 d b"
  "ascon_mask64_rotate_share2_1 d (NOT a) = NOT (ascon_mask64_rotate_share2_1 d a)"
  "ascon_mask64_rotate_share2_1 d 0 = 0"
  "ascon_mask64_rotate_share3_0 d (a XOR b) = ascon_mask64_rotate_share3_0 d a XOR ascon_mask64_rotate_share3_0 d b"
  "ascon_mask64_rotate_share3_0 d (a AND b) = ascon_mask64_rotate_share3_0 d a AND ascon_mask64_rotate_share3_0 d b"
  "ascon_mask64_rotate_share3_0 d (a OR b) = ascon_mask64_rotate_share3_0 d a OR ascon_mask64_rotate_share3_0 d b"
  "ascon_mask64_rotate_share3_0 d (NOT a) = NOT (ascon_mask64_rotate_share3_0 d a)"
  "ascon_mask64_rotate_share3_0 d 0 = 0"
  "ascon_mask64_rotate_share3_1 d (a XOR b) = ascon_mask64_rotate_share3_1 d a XOR ascon_mask64_rotate_share3_1 d b"
  "ascon_mask64_rotate_share3_1 d (a AND b) = ascon_mask64_rotate_share3_1 d a AND ascon_mask64_rotate_share3_1 d b"
  "ascon_mask64_rotate_share3_1 d (a OR b) = ascon_mask64_rotate_share3_1 d a OR ascon_mask64_rotate_share3_1 d b"
  "ascon_mask64_rotate_share3_1 d (NOT a) = NOT (ascon_mask64_rotate_share3_1 d a)"
  "ascon_mask64_rotate_share3_1 d 0 = 0"
  "ascon_mask64_rotate_share3_2 d (a XOR b) = ascon_mask64_rotate_share3_2 d a XOR ascon_mask64_rotate_share3_2 d b"
  "ascon_mask64_rotate_share3_2 d (a AND b) = ascon_mask64_rotate_share3_2 d a AND ascon_mask64_rotate_share3_2 d b"
  "ascon_mask64_rotate_share3_2 d (a OR b) = ascon_mask64_rotate_share3_2 d a OR ascon_mask64_rotate_share3_2 d b"
  "ascon_mask64_rotate_share3_2 d (NOT a) = NOT (ascon_mask64_rotate_share3_2 d a)"
  "ascon_mask64_rotate_share3_2 d 0 = 0"
  "ascon_mask64_unrotate_share1_0 d (a XOR b) = ascon_mask64_unrotate_share1_0 d a XOR ascon_mask64_unrotate_share1_0 d b"
  "ascon_mask64_unrotate_share1_0 d (a AND b) = ascon_mask64_unrotate_share1_0 d a AND ascon_mask64_unrotate_share1_0 d b"
  "ascon_mask64_unrotate_share1_0 d (a OR b) = ascon_mask64_unrotate_share1_0 d a OR ascon_mask64_unrotate_share1_0 d b"
  "ascon_mask64_unrotate_share1_0 d (NOT a) = NOT (ascon_mask64_unrotate_share1_0 d a)"
  "ascon_mask64_unrotate_share1_0 d 0 = 0"
  "ascon_mask64_unrotate_share2_0 d (a XOR b) = ascon_mask64_unrotate_share2_0 d a XOR ascon_mask64_unrotate_share2_0 d b"
  "ascon_mask64_unrotate_share2_0 d (a AND b) = ascon_mask64_unrotate_share2_0 d a AND ascon_mask64_unrotate_share2_0 d b"
  "ascon_mask64_unrotate_share2_0 d (a OR b) = ascon_mask64_unrotate_share2_0 d a OR ascon_mask64_unrotate_share2_0 d b"
  "ascon_mask64_unrotate_share2_0 d (NOT a) = NOT (ascon_mask64_unrotate_share2_0 d a)"
  "ascon_mask64_unrotate_share2_0 d 0 = 0"
  "ascon_mask64_unrotate_share2_1 d (a XOR b) = ascon_mask64_unrotate_share2_1 d a XOR ascon_mask64_unrotate_share2_1 d b"
  "ascon_mask64_unrotate_share2_1 d (a AND b) = ascon_mask64_unrotate_share2_1 d a AND ascon_mask64_unrotate_share2_1 d b"
  "ascon_mask64_unrotate_share2_1 d (a OR b) = ascon_mask64_unrotate_share2_1 d a OR ascon_mask64_unrotate_share2_1 d b"
  "ascon_mask64_unrotate_share2_1 d (NOT a) = NOT (ascon_mask64_unrotate_share2_1 d a)"
  "ascon_mask64_unrotate_share2_1 d 0 = 0"
  "ascon_mask64_unrotate_share3_0 d (a XOR b) = ascon_mask64_unrotate_share3_0 d a XOR ascon_mask64_unrotate_share3_0 d b"
  "ascon_mask64_unrotate_share3_0 d (a AND b) = ascon_mask64_unrotate_share3_0 d a AND ascon_mask64_unrotate_share3_0 d b"
  "ascon_mask64_unrotate_share3_0 d (a OR b) = ascon_mask64_unrotate_share3_0 d a OR ascon_mask64_unrotate_share3_0 d b"
  "ascon_mask64_unrotate_share3_0 d (NOT a) = NOT (ascon_mask64_unrotate_share3_0 d a)"
  "ascon_mask64_unrotate_share3_0 d 0 = 0"
  "ascon_mask64_unrotate_share3_1 d (a XOR b) = ascon_mask64_unrotate_share3_1 d a XOR ascon_mask64_unrotate_share3_1 d b"
  "ascon_mask64_unrotate_share3_1 d (a AND b) = ascon_mask64_unrotate_share3_1 d a AND ascon_mask64_unrotate_share3_1 d b"
  "ascon_mask64_unrotate_share3_1 d (a OR b) = ascon_mask64_unrotate_share3_1 d a OR ascon_mask64_unrotate_share3_1 d b"
  "ascon_mask64_unrotate_share3_1 d (NOT a) = NOT (ascon_mask64_unrotate_share3_1 d a)"
  "ascon_mask64_unrotate_share3_1 d 0 = 0"
  "ascon_mask64_unrotate_share3_2 d (a XOR b) = ascon_mask64_unrotate_share3_2 d a XOR ascon_mask64_unrotate_share3_2 d b"
  "ascon_mask64_unrotate_share3_2 d (a AND b) = ascon_mask64_unrotate_share3_2 d a AND ascon_mask64_unrotate_share3_2 d b"
  "ascon_mask64_unrotate_share3_2 d (a OR b) = ascon_mask64_unrotate_share3_2 d a OR ascon_mask64_unrotate_share3_2 d b"
  "ascon_mask64_unrotate_share3_2 d (NOT a) = NOT (ascon_mask64_unrotate_share3_2 d a)"
  "ascon_mask64_unrotate_share3_2 d 0 = 0"
  by (simp_all add: mask64_defs rotate_64 rotr_bitwise)

lemma mask64_rotr:
  "word_rotr n (ascon_mask64_rotate_share1_0 d a) = ascon_mask64_rotate_share1_0 d (word_rotr n a)"
  "word_rotr n (ascon_mask64_rotate_share2_0 d a) = ascon_mask64_rotate_share2_0 d (word_rotr n a)"
  "word_rotr n (ascon_mask64_rotate_share2_1 d a) = ascon_mask64_rotate_share2_1 d (word_rotr n a)"
  "word_rotr n (ascon_mask64_rotate_share3_0 d a) = ascon_mask64_rotate_share3_0 d (word_rotr n a)"
  "word_rotr n (ascon_mask64_rotate_share3_1 d a) = ascon_mask64_rotate_share3_1 d (word_rotr n a)"
  "word_rotr n (ascon_mask64_rotate_share3_2 d a) = ascon_mask64_rotate_share3_2 d (word_rotr n a)"
  "word_rotr n (ascon_mask64_unrotate_share1_0 d a) = ascon_mask64_unrotate_share1_0 d (word_rotr n a)"
  "word_rotr n (ascon_mask64_unrotate_share2_0 d a) = ascon_mask64_unrotate_share2_0 d (word_rotr n a)"
  "word_rotr n (ascon_mask64_unrotate_share2_1 d a) = ascon_mask64_unrotate_share2_1 d (word_rotr n a)"
  "word_rotr n (ascon_mask64_unrotate_share3_0 d a) = ascon_mask64_unrotate_share3_0 d (word_rotr n a)"
  "word_rotr n (ascon_mask64_unrotate_share3_1 d a) = ascon_mask64_unrotate_share3_1 d (word_rotr n a)"
  "word_rotr n (ascon_mask64_unrotate_share3_2 d a) = ascon_mask64_unrotate_share3_2 d (word_rotr n a)"
  by (simp_all add: mask64_defs rotate_64 word_rotr_word_rotr_eq add.commute)

lemma mask32_positions [simp]:
  "ascon_mask32_unrotate_share1_0 (ascon_mask32_rotate_share1_0 x) = x"
  "ascon_mask32_unrotate_share2_0 (ascon_mask32_rotate_share2_0 x) = x"
  "ascon_mask32_unrotate_share3_0 (ascon_mask32_rotate_share3_0 x) = x"
  "ascon_mask32_unrotate_share2_0 (ascon_mask32_rotate_share2_1 x) = ascon_mask32_unrotate_share1_0 x"
  "ascon_mask32_unrotate_share1_0 (ascon_mask32_unrotate_share2_1 x) = ascon_mask32_unrotate_share2_0 x"
  "ascon_mask32_unrotate_share3_0 (ascon_mask32_rotate_share3_1 x) = ascon_mask32_unrotate_share1_0 x"
  "ascon_mask32_unrotate_share1_0 (ascon_mask32_unrotate_share3_1 x) = ascon_mask32_unrotate_share3_0 x"
  "ascon_mask32_unrotate_share3_0 (ascon_mask32_rotate_share3_2 x) = ascon_mask32_unrotate_share2_0 x"
  "ascon_mask32_unrotate_share2_0 (ascon_mask32_unrotate_share3_2 x) = ascon_mask32_unrotate_share3_0 x"
  by (simp_all add: mask32_defs rotate_32 word_rotr_word_rotr_eq rotr_wrap)

lemma mask32_bitwise:
  "ascon_mask32_rotate_share1_0 (a XOR b) = ascon_mask32_rotate_share1_0 a XOR ascon_mask32_rotate_share1_0 b"
  "ascon_mask32_rotate_share1_0 (a AND b) = ascon_mask32_rotate_share1_0 a AND ascon_mask32_rotate_share1_0 b"
  "ascon_mask32_rotate_share1_0 (a OR b) = ascon_mask32_rotate_share1_0 a OR ascon_mask32_rotate_share1_0 b"
  "ascon_mask32_rotate_share1_0 (NOT a) = NOT (ascon_mask32_rotate_share1_0 a)"
  "ascon_mask32_rotate_share1_0 0 = 0"
  "ascon_mask32_rotate_share2_0 (a XOR b) = ascon_mask32_rotate_share2_0 a XOR ascon_mask32_rotate_share2_0 b"
  "ascon_mask32_rotate_share2_0 (a AND b) = ascon_mask32_rotate_share2_0 a AND ascon_mask32_rotate_share2_0 b"
  "ascon_mask32_rotate_share2_0 (a OR b) = ascon_mask32_rotate_share2_0 a OR ascon_mask32_rotate_share2_0 b"
  "ascon_mask32_rotate_share2_0 (NOT a) = NOT (ascon_mask32_rotate_share2_0 a)"
  "ascon_mask32_rotate_share2_0 0 = 0"
  "ascon_mask32_rotate_share2_1 (a XOR b) = ascon_mask32_rotate_share2_1 a XOR ascon_mask32_rotate_share2_1 b"
  "ascon_mask32_rotate_share2_1 (a AND b) = ascon_mask32_rotate_share2_1 a AND ascon_mask32_rotate_share2_1 b"
  "ascon_mask32_rotate_share2_1 (a OR b) = ascon_mask32_rotate_share2_1 a OR ascon_mask32_rotate_share2_1 b"
  "ascon_mask32_rotate_share2_1 (NOT a) = NOT (ascon_mask32_rotate_share2_1 a)"
  "ascon_mask32_rotate_share2_1 0 = 0"
  "ascon_mask32_rotate_share3_0 (a XOR b) = ascon_mask32_rotate_share3_0 a XOR ascon_mask32_rotate_share3_0 b"
  "ascon_mask32_rotate_share3_0 (a AND b) = ascon_mask32_rotate_share3_0 a AND ascon_mask32_rotate_share3_0 b"
  "ascon_mask32_rotate_share3_0 (a OR b) = ascon_mask32_rotate_share3_0 a OR ascon_mask32_rotate_share3_0 b"
  "ascon_mask32_rotate_share3_0 (NOT a) = NOT (ascon_mask32_rotate_share3_0 a)"
  "ascon_mask32_rotate_share3_0 0 = 0"
  "ascon_mask32_rotate_share3_1 (a XOR b) = ascon_mask32_rotate_share3_1 a XOR ascon_mask32_rotate_share3_1 b"
  "ascon_mask32_rotate_share3_1 (a AND b) = ascon_mask32_rotate_share3_1 a AND ascon_mask32_rotate_share3_1 b"
  "ascon_mask32_rotate_share3_1 (a OR b) = ascon_mask32_rotate_share3_1 a OR ascon_mask32_rotate_share3_1 b"
  "ascon_mask32_rotate_share3_1 (NOT a) = NOT (ascon_mask32_rotate_share3_1 a)"
  "ascon_mask32_rotate_share3_1 0 = 0"
  "ascon_mask32_rotate_share3_2 (a XOR b) = ascon_mask32_rotate_share3_2 a XOR ascon_mask32_rotate_share3_2 b"
  "ascon_mask32_rotate_share3_2 (a AND b) = ascon_mask32_rotate_share3_2 a AND ascon_mask32_rotate_share3_2 b"
  "ascon_mask32_rotate_share3_2 (a OR b) = ascon_mask32_rotate_share3_2 a OR ascon_mask32_rotate_share3_2 b"
  "ascon_mask32_rotate_share3_2 (NOT a) = NOT (ascon_mask32_rotate_share3_2 a)"
  "ascon_mask32_rotate_share3_2 0 = 0"
  "ascon_mask32_unrotate_share1_0 (a XOR b) = ascon_mask32_unrotate_share1_0 a XOR ascon_mask32_unrotate_share1_0 b"
  "ascon_mask32_unrotate_share1_0 (a AND b) = ascon_mask32_unrotate_share1_0 a AND ascon_mask32_unrotate_share1_0 b"
  "ascon_mask32_unrotate_share1_0 (a OR b) = ascon_mask32_unrotate_share1_0 a OR ascon_mask32_unrotate_share1_0 b"
  "ascon_mask32_unrotate_share1_0 (NOT a) = NOT (ascon_mask32_unrotate_share1_0 a)"
  "ascon_mask32_unrotate_share1_0 0 = 0"
  "ascon_mask32_unrotate_share2_0 (a XOR b) = ascon_mask32_unrotate_share2_0 a XOR ascon_mask32_unrotate_share2_0 b"
  "ascon_mask32_unrotate_share2_0 (a AND b) = ascon_mask32_unrotate_share2_0 a AND ascon_mask32_unrotate_share2_0 b"
  "ascon_mask32_unrotate_share2_0 (a OR b) = ascon_mask32_unrotate_share2_0 a OR ascon_mask32_unrotate_share2_0 b"
  "ascon_mask32_unrotate_share2_0 (NOT a) = NOT (ascon_mask32_unrotate_share2_0 a)"
  "ascon_mask32_unrotate_share2_0 0 = 0"
  "ascon_mask32_unrotate_share2_1 (a XOR b) = ascon_mask32_unrotate_share2_1 a XOR ascon_mask32_unrotate_share2_1 b"
  "ascon_mask32_unrotate_share2_1 (a AND b) = ascon_mask32_unrotate_share2_1 a AND ascon_mask32_unrotate_share2_1 b"
  "ascon_mask32_unrotate_share2_1 (a OR b) = ascon_mask32_unrotate_share2_1 a OR ascon_mask32_unrotate_share2_1 b"
  "ascon_mask32_unrotate_share2_1 (NOT a) = NOT (ascon_mask32_unrotate_share2_1 a)"
  "ascon_mask32_unrotate_share2_1 0 = 0"
  "ascon_mask32_unrotate_share3_0 (a XOR b) = ascon_mask32_unrotate_share3_0 a XOR ascon_mask32_unrotate_share3_0 b"
  "ascon_mask32_unrotate_share3_0 (a AND b) = ascon_mask32_unrotate_share3_0 a AND ascon_mask32_unrotate_share3_0 b"
  "ascon_mask32_unrotate_share3_0 (a OR b) = ascon_mask32_unrotate_share3_0 a OR ascon_mask32_unrotate_share3_0 b"
  "ascon_mask32_unrotate_share3_0 (NOT a) = NOT (ascon_mask32_unrotate_share3_0 a)"
  "ascon_mask32_unrotate_share3_0 0 = 0"
  "ascon_mask32_unrotate_share3_1 (a XOR b) = ascon_mask32_unrotate_share3_1 a XOR ascon_mask32_unrotate_share3_1 b"
  "ascon_mask32_unrotate_share3_1 (a AND b) = ascon_mask32_unrotate_share3_1 a AND ascon_mask32_unrotate_share3_1 b"
  "ascon_mask32_unrotate_share3_1 (a OR b) = ascon_mask32_unrotate_share3_1 a OR ascon_mask32_unrotate_share3_1 b"
  "ascon_mask32_unrotate_share3_1 (NOT a) = NOT (ascon_mask32_unrotate_share3_1 a)"
  "ascon_mask32_unrotate_share3_1 0 = 0"
  "ascon_mask32_unrotate_share3_2 (a XOR b) = ascon_mask32_unrotate_share3_2 a XOR ascon_mask32_unrotate_share3_2 b"
  "ascon_mask32_unrotate_share3_2 (a AND b) = ascon_mask32_unrotate_share3_2 a AND ascon_mask32_unrotate_share3_2 b"
  "ascon_mask32_unrotate_share3_2 (a OR b) = ascon_mask32_unrotate_share3_2 a OR ascon_mask32_unrotate_share3_2 b"
  "ascon_mask32_unrotate_share3_2 (NOT a) = NOT (ascon_mask32_unrotate_share3_2 a)"
  "ascon_mask32_unrotate_share3_2 0 = 0"
  by (simp_all add: mask32_defs rotate_32 rotr_bitwise)

lemma mask32_rotr:
  "word_rotr n (ascon_mask32_rotate_share1_0 a) = ascon_mask32_rotate_share1_0 (word_rotr n a)"
  "word_rotr n (ascon_mask32_rotate_share2_0 a) = ascon_mask32_rotate_share2_0 (word_rotr n a)"
  "word_rotr n (ascon_mask32_rotate_share2_1 a) = ascon_mask32_rotate_share2_1 (word_rotr n a)"
  "word_rotr n (ascon_mask32_rotate_share3_0 a) = ascon_mask32_rotate_share3_0 (word_rotr n a)"
  "word_rotr n (ascon_mask32_rotate_share3_1 a) = ascon_mask32_rotate_share3_1 (word_rotr n a)"
  "word_rotr n (ascon_mask32_rotate_share3_2 a) = ascon_mask32_rotate_share3_2 (word_rotr n a)"
  "word_rotr n (ascon_mask32_unrotate_share1_0 a) = ascon_mask32_unrotate_share1_0 (word_rotr n a)"
  "word_rotr n (ascon_mask32_unrotate_share2_0 a) = ascon_mask32_unrotate_share2_0 (word_rotr n a)"
  "word_rotr n (ascon_mask32_unrotate_share2_1 a) = ascon_mask32_unrotate_share2_1 (word_rotr n a)"
  "word_rotr n (ascon_mask32_unrotate_share3_0 a) = ascon_mask32_unrotate_share3_0 (word_rotr n a)"
  "word_rotr n (ascon_mask32_unrotate_share3_1 a) = ascon_mask32_unrotate_share3_1 (word_rotr n a)"
  "word_rotr n (ascon_mask32_unrotate_share3_2 a) = ascon_mask32_unrotate_share3_2 (word_rotr n a)"
  by (simp_all add: mask32_defs rotate_32 word_rotr_word_rotr_eq add.commute)

section \<open>Bytes at the top of a word\<close>

text \<open>The three steps that the functions \<open>..._load_partial\<close> share: \<open>masked\<close> holds a random word
  already, \<open>random\<close> is the share that goes with it, and the bytes enter from the low end.\<close>

definition partial_rotations :: "bytes \<Rightarrow> nat \<Rightarrow> u64 \<Rightarrow> u64 \<Rightarrow> u64 \<times> u64" where
  "partial_rotations data sz masked random =
     (let (masked, random, sz) =
            (if sz \<ge> 4
             then (rightRotate_64 (masked XOR ucast (be_load_word32 (drop (sz - 4) data))) 32,
                   rightRotate_64 random 32, sz - 4)
             else (masked, random, sz));
          (masked, random, sz) =
            (if sz \<ge> 2
             then (rightRotate_64 (masked XOR ucast (be_load_word16 (drop (sz - 2) data))) 16,
                   rightRotate_64 random 16, sz - 2)
             else (masked, random, sz))
      in if sz > 0
         then (rightRotate_64 (masked XOR ucast (data ! 0)) 8, rightRotate_64 random 8)
         else (masked, random))"

text \<open>The same on the way out, for as many masked values as there are shares: each is rotated, and
  their exclusive or is stored.\<close>

definition xor_list :: "u64 list \<Rightarrow> u64" where
  "xor_list ms = foldr (XOR) ms 0"

definition partial_output :: "nat \<Rightarrow> u64 list \<Rightarrow> bytes" where
  "partial_output sz masked =
     (let (masked, sz, out1) =
            (if sz \<ge> 4
             then let masked = map (\<lambda>m. leftRotate_64 m 32) masked
                  in (masked, sz - 4, be_store_word32 (ucast (xor_list masked)))
             else (masked, sz, []));
          (masked, sz, out2) =
            (if sz \<ge> 2
             then let masked = map (\<lambda>m. leftRotate_64 m 16) masked
                  in (masked, sz - 2, be_store_word16 (ucast (xor_list masked)))
             else (masked, sz, []));
          out3 =
            (if sz > 0
             then [ucast (xor_list (map (\<lambda>m. leftRotate_64 m 8) masked))]
             else [])
      in out1 @ out2 @ out3)"

lemma be_store_rotr8:
  "be_store_word64 (word_rotr 8 x) = last (be_store_word64 x) # butlast (be_store_word64 x)"
proof -
  have "(ucast (drop_bit k (word_rotr 8 x)) :: u8) = ucast (drop_bit (k + 8) x)" if "k \<le> 48" for k
  proof (rule bit_word_eqI)
    fix n assume "n < LENGTH(8)"
    then have "(k + n + 8) mod 64 = k + n + 8" using that by simp
    with \<open>n < LENGTH(8)\<close> that show "bit (ucast (drop_bit k (word_rotr 8 x)) :: u8) n = bit (ucast (drop_bit (k + 8) x) :: u8) n"
      by (simp add: bit_store_byte bit_rotr_at ac_simps)
  qed
  from this[of 0] this[of 8] this[of 16] this[of 24] this[of 32] this[of 40] this[of 48]
  have *: "(ucast (word_rotr 8 x) :: u8) = ucast (drop_bit 8 x)"
    "(ucast (drop_bit 8 (word_rotr 8 x)) :: u8) = ucast (drop_bit 16 x)"
    "(ucast (drop_bit 16 (word_rotr 8 x)) :: u8) = ucast (drop_bit 24 x)"
    "(ucast (drop_bit 24 (word_rotr 8 x)) :: u8) = ucast (drop_bit 32 x)"
    "(ucast (drop_bit 32 (word_rotr 8 x)) :: u8) = ucast (drop_bit 40 x)"
    "(ucast (drop_bit 40 (word_rotr 8 x)) :: u8) = ucast (drop_bit 48 x)"
    "(ucast (drop_bit 48 (word_rotr 8 x)) :: u8) = ucast (drop_bit 56 x)"
    by simp_all
  have "(ucast (drop_bit 56 (word_rotr 8 x)) :: u8) = ucast x"
  proof (rule bit_word_eqI)
    fix n assume "n < LENGTH(8)"
    then have "(56 + n + 8) mod 64 = n" by (simp add: add.commute add.left_commute)
    with \<open>n < LENGTH(8)\<close> show "bit (ucast (drop_bit 56 (word_rotr 8 x)) :: u8) n = bit (ucast x :: u8) n"
      by (simp add: bit_drop_bit_eq bit_rotr_at bit_ucast_iff)
  qed
  with * show ?thesis by (simp add: be_store_word64_def)
qed
lemma zeros_small:
  "zeros 7 = [0, 0, 0, 0, 0, 0, 0]" "zeros 6 = [0, 0, 0, 0, 0, 0]" "zeros 5 = [0, 0, 0, 0, 0]"
  "zeros 4 = [0, 0, 0, 0]" "zeros 3 = [0, 0, 0]" "zeros 2 = [0, 0]" "zeros (Suc 0) = [0]"
  by (simp_all add: zeros_def numeral_eq_Suc)

lemma bit_beyond: "32 \<le> k \<Longrightarrow> \<not> bit (w :: u32) k" "16 \<le> k \<Longrightarrow> \<not> bit (v :: u16) k"
  "8 \<le> k \<Longrightarrow> \<not> bit (b :: u8) k"
  by (auto dest: bit_imp_le_length)

lemma be_store_small:
  "be_store_word64 (ucast (b :: u8)) = zeros 7 @ [b]"
  "2 \<le> length p \<Longrightarrow> be_store_word64 (ucast (be_load_word16 p)) = zeros 6 @ take 2 p"
  "4 \<le> length p \<Longrightarrow> be_store_word64 (ucast (be_load_word32 p)) = zeros 4 @ take 4 p"
proof -
  have 1: "be_store_word64 (ucast (w :: u32)) = zeros 4 @ be_store_word32 w" for w
    by (simp add: be_store_word64_def be_store_word32_def zeros_small)
      (auto intro!: bit_word_eqI simp: word_bit_simps bit_ucast_iff bit_beyond)
  have 2: "be_store_word64 (ucast (w :: u16)) = zeros 6 @ be_store_word16 w" for w
    by (simp add: be_store_word64_def be_store_word16_def zeros_small)
      (auto intro!: bit_word_eqI simp: word_bit_simps bit_ucast_iff bit_beyond)
  show "be_store_word64 (ucast b) = zeros 7 @ [b]"
    by (simp add: be_store_word64_def zeros_small)
      (auto intro!: bit_word_eqI simp: word_bit_simps bit_ucast_iff bit_beyond)
  show "4 \<le> length p \<Longrightarrow> be_store_word64 (ucast (be_load_word32 p)) = zeros 4 @ take 4 p"
    by (simp add: 1 be_store_load_word32)
  have "be_store_word16 (be_load_word16 p) = [p ! 0, p ! 1]"
    by (simp add: be_store_word16_def be_load_word16_def)
      (auto intro!: bit_word_eqI simp: word_bit_simps bit_ucast_iff bit_beyond)
  then show "2 \<le> length p \<Longrightarrow> be_store_word64 (ucast (be_load_word16 p)) = zeros 6 @ take 2 p"
    using 2 by (auto simp: Suc_le_length_iff numeral_2_eq_2)
qed

lemma be_store_xor_list:
  "be_store_word64 (xor_list ms) = foldr (\<lambda>m. xor_bytes (be_store_word64 m)) ms (zeros 8)"
  by (induction ms) (simp_all add: xor_list_def be_store_word64_xor, simp add: be_store_word64_def zeros_def numeral_eq_Suc)

lemma xor_list_map:
  assumes "\<And>x y. f (x XOR y) = f x XOR f y" "f 0 = 0"
  shows "xor_list (map f ms) = f (xor_list ms)"
  by (induction ms) (simp_all add: xor_list_def assms)

lemmas partial_simps =
  rotate_64 word_rotr_xor be_store_word64_xor be_store_load_word64 be_store_small zeros_small
  be_store_rotr8 xor_bytes_Cons

lemma partial_rotations_eq:
  assumes "n < 8" "n \<le> length d"
  shows "partial_rotations d n m r =
    (word_rotr (8 * n) m XOR be_load_word64 (take n d @ zeros (8 - n)), word_rotr (8 * n) r)"
proof -
  have rot: "word_rotr 16 x = word_rotr 8 (word_rotr 8 x)"
    "word_rotr 24 x = word_rotr 8 (word_rotr 16 x)" "word_rotr 32 x = word_rotr 16 (word_rotr 16 x)"
    "word_rotr 40 x = word_rotr 8 (word_rotr 32 x)" "word_rotr 48 x = word_rotr 16 (word_rotr 32 x)"
    "word_rotr 56 x = word_rotr 8 (word_rotr 48 x)" for x :: u64
    by (simp_all add: word_rotr_word_rotr_eq)
  consider (0) "n = 0" | (1) "n = 1" | (2) "n = 2" | (3) "n = 3" | (4) "n = 4" | (5) "n = 5" |
    (6) "n = 6" | (7) "n = 7"
    using assms(1) by linarith
  note n = this
  have "be_store_word64 (fst (partial_rotations d n m r)) =
      be_store_word64 (word_rotr (8 * n) m XOR be_load_word64 (take n d @ zeros (8 - n)))"
  proof -
    obtain b0 b1 b2 b3 b4 b5 b6 b7 where m: "be_store_word64 m = [b0, b1, b2, b3, b4, b5, b6, b7]"
      unfolding be_store_word64_def by blast
    from n show ?thesis
    proof cases
      case 0
      have "be_load_word64 (zeros 8) = 0" by (simp add: be_load_word64_def)
      with 0 show ?thesis by (simp add: partial_rotations_def)
    next
      case 1
      with assms(2) obtain d0 ds where d: "d = d0 # ds"
        by (auto simp: Suc_le_length_iff numeral_eq_Suc)
      show ?thesis
        by (simp add: 1 d partial_rotations_def partial_simps rot m)
    next
      case 2
      with assms(2) obtain d0 d1 ds where d: "d = d0 # d1 # ds"
        by (auto simp: Suc_le_length_iff numeral_eq_Suc)
      show ?thesis
        by (simp add: 2 d partial_rotations_def partial_simps rot m)
    next
      case 3
      with assms(2) obtain d0 d1 d2 ds where d: "d = d0 # d1 # d2 # ds"
        by (auto simp: Suc_le_length_iff numeral_eq_Suc)
      show ?thesis
        by (simp add: 3 d partial_rotations_def partial_simps rot m)
    next
      case 4
      with assms(2) obtain d0 d1 d2 d3 ds where d: "d = d0 # d1 # d2 # d3 # ds"
        by (auto simp: Suc_le_length_iff numeral_eq_Suc)
      show ?thesis
        by (simp add: 4 d partial_rotations_def partial_simps rot m)
    next
      case 5
      with assms(2) obtain d0 d1 d2 d3 d4 ds where d: "d = d0 # d1 # d2 # d3 # d4 # ds"
        by (auto simp: Suc_le_length_iff numeral_eq_Suc)
      show ?thesis
        by (simp add: 5 d partial_rotations_def partial_simps rot m)
    next
      case 6
      with assms(2) obtain d0 d1 d2 d3 d4 d5 ds where d: "d = d0 # d1 # d2 # d3 # d4 # d5 # ds"
        by (auto simp: Suc_le_length_iff numeral_eq_Suc)
      show ?thesis
        by (simp add: 6 d partial_rotations_def partial_simps rot m)
    next
      case 7
      with assms(2) obtain d0 d1 d2 d3 d4 d5 d6 ds where d: "d = d0 # d1 # d2 # d3 # d4 # d5 # d6 # ds"
        by (auto simp: Suc_le_length_iff numeral_eq_Suc)
      show ?thesis
        by (simp add: 7 d partial_rotations_def partial_simps rot m)
    qed
  qed
  moreover have "snd (partial_rotations d n m r) = word_rotr (8 * n) r"
    using n by cases (simp_all add: partial_rotations_def rotate_64 word_rotr_word_rotr_eq)
  ultimately show ?thesis by (simp add: prod_eq_iff)
qed

lemma word_rotl_bytes:
  "word_rotl 32 (x :: u64) = word_rotr 8 (word_rotr 8 (word_rotr 8 (word_rotr 8 x)))"
  "word_rotl 16 x = word_rotr 8 (word_rotr 8 (word_rotl 32 x))"
  "word_rotl 8 x = word_rotr 8 (word_rotl 16 x)"
  by (simp_all add: word_rotl_eq_word_rotr word_rotr_word_rotr_eq)

lemma store_low:
  "be_store_word32 (ucast (x :: u64)) = drop 4 (be_store_word64 x)"
  "be_store_word16 (ucast x) = drop 6 (be_store_word64 x)"
  "[ucast x] = drop 7 (be_store_word64 x)"
  by (simp_all add: be_store_word32_def be_store_word16_def be_store_word64_def)
    (auto intro!: bit_word_eqI simp: word_bit_simps bit_ucast_iff)

lemma word_rotl_xor: "word_rotl n (a XOR b) = word_rotl n a XOR word_rotl n (b :: u64)"
  by (simp add: word_rotl_eq_word_rotr word_rotr_xor)

lemma partial_output_eq:
  assumes "n < 8"
  shows "partial_output n ms = take n (be_store_word64 (xor_list ms))"
proof -
  have rot: "xor_list (map (\<lambda>m. leftRotate_64 m k) ms) = leftRotate_64 (xor_list ms) k" if "k < 64" for k ms
    using that by (intro xor_list_map) (simp_all add: rotate_64 word_rotl_xor)
  obtain b0 b1 b2 b3 b4 b5 b6 b7 where m: "be_store_word64 (xor_list ms) = [b0, b1, b2, b3, b4, b5, b6, b7]"
    unfolding be_store_word64_def by blast
  consider "n = 0" | "n = 1" | "n = 2" | "n = 3" | "n = 4" | "n = 5" | "n = 6" | "n = 7"
    using assms(1) by linarith
  then show ?thesis
    by cases (simp_all add: partial_output_def Let_def rot store_low del: map_map,
        simp_all add: rotate_64 word_rotl_bytes be_store_rotr8 m)
qed

section \<open>The operations on a masked word\<close>

text \<open>For a given number of shares, the functions \<open>ascon_masked_word_x<k>_...\<close> and the permutation
  \<open>ascon_x<k>_permute\<close> on the five words of a state.  A function that writes \<open>word\<close> or \<open>dest\<close>
  takes its old value, whose unused shares some functions keep, and returns the new one;
  \<open>preserve\<close> is the array of random words that a caller carries from one permutation to the
  next.\<close>

record ('w, 't) masked_ops =
  mw_zero :: "'w \<Rightarrow> 't \<Rightarrow> 't \<times> 'w"
  mw_load :: "'w \<Rightarrow> bytes \<Rightarrow> 't \<Rightarrow> 't \<times> 'w"
  mw_load_partial :: "'w \<Rightarrow> bytes \<Rightarrow> nat \<Rightarrow> 't \<Rightarrow> 't \<times> 'w"
  mw_load_32 :: "'w \<Rightarrow> bytes \<Rightarrow> bytes \<Rightarrow> 't \<Rightarrow> 't \<times> 'w"
  mw_store :: "'w \<Rightarrow> bytes"
  mw_store_partial :: "nat \<Rightarrow> 'w \<Rightarrow> bytes"
  mw_randomize :: "'w \<Rightarrow> 'w \<Rightarrow> 't \<Rightarrow> 't \<times> 'w"
  mw_xor :: "'w \<Rightarrow> 'w \<Rightarrow> 'w"
  mw_replace :: "'w \<Rightarrow> 'w \<Rightarrow> nat \<Rightarrow> 'w"
  mw_permute :: "'w list \<Rightarrow> u8 \<Rightarrow> u64 list \<Rightarrow> 'w list \<times> u64 list"

text \<open>The contract.  \<open>rep w x\<close> says that the shares of \<open>w\<close> stand for the word \<open>x\<close>, \<open>shaped w\<close> that
  \<open>w\<close> is an array with room for them, and \<open>k\<close> is the number of shares.  Nothing is assumed of the
  generator: the laws hold for every sequence of random words.\<close>

locale masked_word =
  fixes M :: "('w, 't) masked_ops" and rep :: "'w \<Rightarrow> u64 \<Rightarrow> bool" and shaped :: "'w \<Rightarrow> bool"
    and k :: nat
  assumes rep_shaped: "rep w x \<Longrightarrow> shaped w"
    and rep_unique: "\<lbrakk>rep w x; rep w y\<rbrakk> \<Longrightarrow> x = y"
    and rep_zero: "shaped w \<Longrightarrow> rep (snd (mw_zero M w t)) 0"
    and rep_load: "\<lbrakk>shaped w; 8 \<le> length d\<rbrakk> \<Longrightarrow> rep (snd (mw_load M w d t)) (be_load_word64 d)"
    and rep_load_partial: "\<lbrakk>shaped w; n < 8; n \<le> length d\<rbrakk> \<Longrightarrow>
      rep (snd (mw_load_partial M w d n t)) (be_load_word64 (take n d @ zeros (8 - n)))"
    and rep_load_32: "\<lbrakk>shaped w; 4 \<le> length d1; 4 \<le> length d2\<rbrakk> \<Longrightarrow>
      rep (snd (mw_load_32 M w d1 d2 t)) (be_load_word64 (take 4 d1 @ take 4 d2))"
    and rep_store: "rep w x \<Longrightarrow> mw_store M w = be_store_word64 x"
    and rep_store_partial: "\<lbrakk>rep w x; n < 8\<rbrakk> \<Longrightarrow> mw_store_partial M n w = take n (be_store_word64 x)"
    and rep_randomize: "\<lbrakk>shaped w; rep v x\<rbrakk> \<Longrightarrow> rep (snd (mw_randomize M w v t)) x"
    and rep_xor: "\<lbrakk>rep w x; rep v y\<rbrakk> \<Longrightarrow> rep (mw_xor M w v) (x XOR y)"
    and rep_replace: "\<lbrakk>rep w x; rep v y; n < 8\<rbrakk> \<Longrightarrow> rep (mw_replace M w v n)
      (be_load_word64 (take n (be_store_word64 y) @ drop n (be_store_word64 x)))"
    and rep_permute: "\<lbrakk>list_all2 rep ws xs; length xs = 5; k \<le> Suc (length p)\<rbrakk> \<Longrightarrow>
      list_all2 rep (fst (mw_permute M ws r p)) (ascon_permute_c64 xs r) \<and>
      length (snd (mw_permute M ws r p)) = length p"

end
