(* ===== verification/Masked_Perm64.thy ===== *)
theory Masked_Perm64
  imports Masked_Word
begin

text \<open>
  \<open>masking/ascon-x2-c64.c\<close>, \<open>ascon-x3-c64.c\<close> and \<open>ascon-x4-c64.c\<close>: the permutation on masked states in
  64-bit words.  A share of the state is five registers; the substitution layer works on all
  shares at once through the macro \<open>and_not_xor\<close>, with fresh shares of zero in \<open>t0\<close> made from the
  randomness that the caller preserves between calls, and the linear layer works on each share by
  itself.  The shares of the result stand for what the permutation does to the word the
  arguments stand for, whatever the preserved randomness is.

  The word representation is an array \<open>S\<close> for each of the five words of the state; with
  \<open>ASCON_MASKED_WORD_BACKEND_DIRECT_XOR\<close> it is an array \<open>B\<close> of bytes and no share is rotated.
\<close>

section \<open>The code\<close>

text \<open>The start and the end of the substitution layer on one share, the same in all files.\<close>

definition sbox_start :: "regs \<Rightarrow> regs" where
  "sbox_start x = (case x of (x0, x1, x2, x3, x4) \<Rightarrow>
     let x0 = x0 XOR x4; x4 = x4 XOR x3; x2 = x2 XOR x1 in (x0, x1, x2, x3, x4))"

definition sbox_end :: "regs \<Rightarrow> regs" where
  "sbox_end x = (case x of (x0, x1, x2, x3, x4) \<Rightarrow>
     let x1 = x1 XOR x0; x0 = x0 XOR x4; x3 = x3 XOR x2 in (x0, x1, x2, x3, x4))"

definition add_constant :: "u64 \<Rightarrow> regs \<Rightarrow> regs" where
  "add_constant rc x = (case x of (x0, x1, x2, x3, x4) \<Rightarrow> (x0, x1, x2 XOR rc, x3, x4))"

text \<open>\<open>while (first_round < 12)\<close>: the round with the constant \<open>RC[first_round++]\<close>.\<close>

function masked_rounds :: "(u64 \<Rightarrow> 's \<Rightarrow> 's) \<Rightarrow> u8 \<Rightarrow> 's \<Rightarrow> 's" where
  "masked_rounds f first_round s =
     (if first_round < 12 then masked_rounds f (first_round + 1) (f (RC ! unat first_round) s) else s)"
  by pat_completeness auto
termination
  by (relation "measure (\<lambda>(f, r, s). 12 - unat r)") (auto simp: first_round_step word_less_nat_alt)

declare masked_rounds.simps [simp del]

text \<open>Share \<open>k\<close> of a masked state, loaded into and stored from local variables.\<close>

definition share_regs :: "u64 list list \<Rightarrow> nat \<Rightarrow> regs" where
  "share_regs M k = (M ! 0 ! k, M ! 1 ! k, M ! 2 ! k, M ! 3 ! k, M ! 4 ! k)"

definition put_share :: "u64 list list \<Rightarrow> nat \<Rightarrow> regs \<Rightarrow> u64 list list" where
  "put_share M k x = (case x of (x0, x1, x2, x3, x4) \<Rightarrow>
     [(M ! 0)[k := x0], (M ! 1)[k := x1], (M ! 2)[k := x2], (M ! 3)[k := x3], (M ! 4)[k := x4]])"

definition direct_share_regs :: "bytes list \<Rightarrow> nat \<Rightarrow> regs" where
  "direct_share_regs M k =
     (be_load_word64 (drop (8 * k) (M ! 0)), be_load_word64 (drop (8 * k) (M ! 1)),
      be_load_word64 (drop (8 * k) (M ! 2)), be_load_word64 (drop (8 * k) (M ! 3)),
      be_load_word64 (drop (8 * k) (M ! 4)))"

definition direct_put_share :: "bytes list \<Rightarrow> nat \<Rightarrow> regs \<Rightarrow> bytes list" where
  "direct_put_share M k x = (case x of (x0, x1, x2, x3, x4) \<Rightarrow>
     [put_at (M ! 0) (8 * k) (be_store_word64 x0), put_at (M ! 1) (8 * k) (be_store_word64 x1),
      put_at (M ! 2) (8 * k) (be_store_word64 x2), put_at (M ! 3) (8 * k) (be_store_word64 x3),
      put_at (M ! 4) (8 * k) (be_store_word64 x4)])"

subsection \<open>Two shares\<close>

definition x2_and_not_xor ::
  "bool \<Rightarrow> u64 \<times> u64 \<Rightarrow> u64 \<times> u64 \<Rightarrow> u64 \<times> u64 \<Rightarrow> u64 \<times> u64" where
  "x2_and_not_xor direct x y z = (case (x, y, z) of ((x_a, x_b), (y_a, y_b), (z_a, z_b)) \<Rightarrow>
     let x_a = x_a XOR ((NOT y_a) AND (ascon_mask64_unrotate_share1_0 direct z_b));
         x_a = x_a XOR ((NOT y_a) AND z_a);
         x_b = x_b XOR (y_b AND z_b);
         x_b = x_b XOR (y_b AND (ascon_mask64_rotate_share1_0 direct z_a))
     in (x_a, x_b))"

definition x2_sbox ::
  "bool \<Rightarrow> regs \<Rightarrow> regs \<Rightarrow> u64 \<Rightarrow> regs \<times> regs \<times> u64" where
  "x2_sbox direct a b t0_a =
     (case (sbox_start a, sbox_start b) of
       ((x0_a, x1_a, x2_a, x3_a, x4_a),
        (x0_b, x1_b, x2_b, x3_b, x4_b)) \<Rightarrow>
     let t1_a = x0_a;
         t1_b = x0_b;
         t0_b = ascon_mask64_rotate_share1_0 direct t0_a;
         (t0_a, t0_b) = x2_and_not_xor direct (t0_a, t0_b) (x0_a, x0_b) (x1_a, x1_b);
         (x0_a, x0_b) = x2_and_not_xor direct (x0_a, x0_b) (x1_a, x1_b) (x2_a, x2_b);
         (x1_a, x1_b) = x2_and_not_xor direct (x1_a, x1_b) (x2_a, x2_b) (x3_a, x3_b);
         (x2_a, x2_b) = x2_and_not_xor direct (x2_a, x2_b) (x3_a, x3_b) (x4_a, x4_b);
         (x3_a, x3_b) = x2_and_not_xor direct (x3_a, x3_b) (x4_a, x4_b) (t1_a, t1_b);
         x4_a = x4_a XOR t0_a;
         x4_b = x4_b XOR t0_b
     in (sbox_end (x0_a, x1_a, x2_a, x3_a, x4_a), sbox_end (x0_b, x1_b, x2_b, x3_b, x4_b),
         t0_a))"

definition x2_round :: "bool \<Rightarrow> u64 \<Rightarrow> regs \<times> regs \<times> u64 \<Rightarrow> regs \<times> regs \<times> u64" where
  "x2_round direct rc s = (case s of (a, b, t0_a) \<Rightarrow>
     let a = add_constant rc a;
         (a, b, t0_a) = x2_sbox direct a b t0_a;
         b = c64_linear b;
         a = c64_linear a;
         t0_a = rightRotate_64 t0_a 13
     in (a, b, t0_a))"

definition ascon_x2_permute_c64 :: "u64 list list \<Rightarrow> u8 \<Rightarrow> u64 list \<Rightarrow> u64 list list \<times> u64 list" where
  "ascon_x2_permute_c64 M first_round preserve =
     (let t0_a = preserve ! 0;
         a = share_regs M 0;
         b = share_regs M 1;
         a = compl_x2 a;
         (a, b, t0_a) = masked_rounds (x2_round False) first_round (a, b, t0_a);
         preserve = preserve[0 := t0_a];
         a = compl_x2 a;
         M = put_share M 0 a;
         M = put_share M 1 b
     in (M, preserve))"

definition ascon_x2_permute_direct :: "bytes list \<Rightarrow> u8 \<Rightarrow> u64 list \<Rightarrow> bytes list \<times> u64 list" where
  "ascon_x2_permute_direct M first_round preserve =
     (let t0_a = preserve ! 0;
         a = direct_share_regs M 0;
         b = direct_share_regs M 1;
         a = compl_x2 a;
         (a, b, t0_a) = masked_rounds (x2_round True) first_round (a, b, t0_a);
         preserve = preserve[0 := t0_a];
         a = compl_x2 a;
         M = direct_put_share M 0 a;
         M = direct_put_share M 1 b
     in (M, preserve))"

subsection \<open>Three shares\<close>

definition x3_and_not_xor ::
  "bool \<Rightarrow> u64 \<times> u64 \<times> u64 \<Rightarrow> u64 \<times> u64 \<times> u64 \<Rightarrow> u64 \<times> u64 \<times> u64 \<Rightarrow> u64 \<times> u64 \<times> u64" where
  "x3_and_not_xor direct x y z = (case (x, y, z) of ((x_a, x_b, x_c), (y_a, y_b, y_c), (z_a, z_b, z_c)) \<Rightarrow>
     let x_a = x_a XOR (NOT y_a AND z_a);
         x_a = x_a XOR (y_a AND (ascon_mask64_unrotate_share1_0 direct z_b));
         x_a = x_a XOR (y_a AND (ascon_mask64_unrotate_share2_0 direct z_c));
         x_b = x_b XOR (y_b AND (ascon_mask64_rotate_share1_0 direct z_a));
         x_b = x_b XOR ((NOT y_b) AND z_b);
         x_b = x_b XOR (y_b AND (ascon_mask64_unrotate_share2_1 direct z_c));
         x_c = x_c XOR (y_c AND (ascon_mask64_rotate_share2_0 direct (NOT z_a)));
         x_c = x_c XOR (y_c AND (ascon_mask64_rotate_share2_1 direct z_b));
         x_c = x_c XOR (y_c OR z_c)
     in (x_a, x_b, x_c))"

definition x3_sbox ::
  "bool \<Rightarrow> regs \<Rightarrow> regs \<Rightarrow> regs \<Rightarrow> u64 \<Rightarrow> u64 \<Rightarrow> regs \<times> regs \<times> regs \<times> u64 \<times> u64" where
  "x3_sbox direct a b c t0_a t0_b =
     (case (sbox_start a, sbox_start b, sbox_start c) of
       ((x0_a, x1_a, x2_a, x3_a, x4_a),
        (x0_b, x1_b, x2_b, x3_b, x4_b),
        (x0_c, x1_c, x2_c, x3_c, x4_c)) \<Rightarrow>
     let t1_a = x0_a;
         t1_b = x0_b;
         t1_c = x0_c;
         t0_c = ascon_mask64_rotate_share2_0 direct t0_a XOR ascon_mask64_rotate_share2_1 direct t0_b;
         (t0_a, t0_b, t0_c) = x3_and_not_xor direct (t0_a, t0_b, t0_c) (x0_a, x0_b, x0_c) (x1_a, x1_b, x1_c);
         (x0_a, x0_b, x0_c) = x3_and_not_xor direct (x0_a, x0_b, x0_c) (x1_a, x1_b, x1_c) (x2_a, x2_b, x2_c);
         (x1_a, x1_b, x1_c) = x3_and_not_xor direct (x1_a, x1_b, x1_c) (x2_a, x2_b, x2_c) (x3_a, x3_b, x3_c);
         (x2_a, x2_b, x2_c) = x3_and_not_xor direct (x2_a, x2_b, x2_c) (x3_a, x3_b, x3_c) (x4_a, x4_b, x4_c);
         (x3_a, x3_b, x3_c) = x3_and_not_xor direct (x3_a, x3_b, x3_c) (x4_a, x4_b, x4_c) (t1_a, t1_b, t1_c);
         x4_a = x4_a XOR t0_a;
         x4_b = x4_b XOR t0_b;
         x4_c = x4_c XOR t0_c
     in (sbox_end (x0_a, x1_a, x2_a, x3_a, x4_a), sbox_end (x0_b, x1_b, x2_b, x3_b, x4_b), sbox_end (x0_c, x1_c, x2_c, x3_c, x4_c),
         t0_a, t0_b))"

definition x3_round :: "bool \<Rightarrow> u64 \<Rightarrow> regs \<times> regs \<times> regs \<times> u64 \<times> u64 \<Rightarrow> regs \<times> regs \<times> regs \<times> u64 \<times> u64" where
  "x3_round direct rc s = (case s of (a, b, c, t0_a, t0_b) \<Rightarrow>
     let a = add_constant rc a;
         (a, b, c, t0_a, t0_b) = x3_sbox direct a b c t0_a t0_b;
         c = c64_linear c;
         b = c64_linear b;
         a = c64_linear a;
         t0_a = rightRotate_64 t0_a 13;
         t0_b = rightRotate_64 t0_b 29
     in (a, b, c, t0_a, t0_b))"

definition ascon_x3_permute_c64 :: "u64 list list \<Rightarrow> u8 \<Rightarrow> u64 list \<Rightarrow> u64 list list \<times> u64 list" where
  "ascon_x3_permute_c64 M first_round preserve =
     (let t0_a = preserve ! 0;
         t0_b = preserve ! 1;
         a = share_regs M 0;
         b = share_regs M 1;
         c = share_regs M 2;
         a = compl_x2 a;
         (a, b, c, t0_a, t0_b) = masked_rounds (x3_round False) first_round (a, b, c, t0_a, t0_b);
         preserve = preserve[0 := t0_a, 1 := t0_b];
         a = compl_x2 a;
         M = put_share M 0 a;
         M = put_share M 1 b;
         M = put_share M 2 c
     in (M, preserve))"

definition ascon_x3_permute_direct :: "bytes list \<Rightarrow> u8 \<Rightarrow> u64 list \<Rightarrow> bytes list \<times> u64 list" where
  "ascon_x3_permute_direct M first_round preserve =
     (let t0_a = preserve ! 0;
         t0_b = preserve ! 1;
         a = direct_share_regs M 0;
         b = direct_share_regs M 1;
         c = direct_share_regs M 2;
         a = compl_x2 a;
         (a, b, c, t0_a, t0_b) = masked_rounds (x3_round True) first_round (a, b, c, t0_a, t0_b);
         preserve = preserve[0 := t0_a, 1 := t0_b];
         a = compl_x2 a;
         M = direct_put_share M 0 a;
         M = direct_put_share M 1 b;
         M = direct_put_share M 2 c
     in (M, preserve))"

subsection \<open>Four shares\<close>

definition x4_and_not_xor ::
  "bool \<Rightarrow> u64 \<times> u64 \<times> u64 \<times> u64 \<Rightarrow> u64 \<times> u64 \<times> u64 \<times> u64 \<Rightarrow> u64 \<times> u64 \<times> u64 \<times> u64 \<Rightarrow> u64 \<times> u64 \<times> u64 \<times> u64" where
  "x4_and_not_xor direct x y z = (case (x, y, z) of ((x_a, x_b, x_c, x_d), (y_a, y_b, y_c, y_d), (z_a, z_b, z_c, z_d)) \<Rightarrow>
     let x_a = x_a XOR (NOT y_a AND z_a);
         x_a = x_a XOR ((ascon_mask64_unrotate_share1_0 direct y_b) AND z_a);
         x_a = x_a XOR ((ascon_mask64_unrotate_share2_0 direct y_c) AND z_a);
         x_a = x_a XOR ((ascon_mask64_unrotate_share3_0 direct y_d) AND z_a);
         x_b = x_b XOR ((ascon_mask64_rotate_share1_0 direct (NOT y_a)) AND z_b);
         x_b = x_b XOR (y_b AND z_b);
         x_b = x_b XOR ((ascon_mask64_unrotate_share2_1 direct y_c) AND z_b);
         x_b = x_b XOR ((ascon_mask64_unrotate_share3_1 direct y_d) AND z_b);
         x_c = x_c XOR ((ascon_mask64_rotate_share2_0 direct (NOT y_a)) AND z_c);
         x_c = x_c XOR ((ascon_mask64_rotate_share2_1 direct y_b) AND z_c);
         x_c = x_c XOR (y_c AND z_c);
         x_c = x_c XOR ((ascon_mask64_unrotate_share3_2 direct y_d) AND z_c);
         x_d = x_d XOR ((ascon_mask64_rotate_share3_0 direct (NOT y_a)) AND z_d);
         x_d = x_d XOR ((ascon_mask64_rotate_share3_1 direct y_b) AND z_d);
         x_d = x_d XOR ((ascon_mask64_rotate_share3_2 direct y_c) AND z_d);
         x_d = x_d XOR (y_d AND z_d)
     in (x_a, x_b, x_c, x_d))"

definition x4_sbox ::
  "bool \<Rightarrow> regs \<Rightarrow> regs \<Rightarrow> regs \<Rightarrow> regs \<Rightarrow> u64 \<Rightarrow> u64 \<Rightarrow> u64 \<Rightarrow> regs \<times> regs \<times> regs \<times> regs \<times> u64 \<times> u64 \<times> u64" where
  "x4_sbox direct a b c d t0_a t0_b t0_c =
     (case (sbox_start a, sbox_start b, sbox_start c, sbox_start d) of
       ((x0_a, x1_a, x2_a, x3_a, x4_a),
        (x0_b, x1_b, x2_b, x3_b, x4_b),
        (x0_c, x1_c, x2_c, x3_c, x4_c),
        (x0_d, x1_d, x2_d, x3_d, x4_d)) \<Rightarrow>
     let t1_a = x0_a;
         t1_b = x0_b;
         t1_c = x0_c;
         t1_d = x0_d;
         t0_d = ascon_mask64_rotate_share3_0 direct t0_a XOR ascon_mask64_rotate_share3_1 direct t0_b XOR ascon_mask64_rotate_share3_2 direct t0_c;
         (t0_a, t0_b, t0_c, t0_d) = x4_and_not_xor direct (t0_a, t0_b, t0_c, t0_d) (x0_a, x0_b, x0_c, x0_d) (x1_a, x1_b, x1_c, x1_d);
         (x0_a, x0_b, x0_c, x0_d) = x4_and_not_xor direct (x0_a, x0_b, x0_c, x0_d) (x1_a, x1_b, x1_c, x1_d) (x2_a, x2_b, x2_c, x2_d);
         (x1_a, x1_b, x1_c, x1_d) = x4_and_not_xor direct (x1_a, x1_b, x1_c, x1_d) (x2_a, x2_b, x2_c, x2_d) (x3_a, x3_b, x3_c, x3_d);
         (x2_a, x2_b, x2_c, x2_d) = x4_and_not_xor direct (x2_a, x2_b, x2_c, x2_d) (x3_a, x3_b, x3_c, x3_d) (x4_a, x4_b, x4_c, x4_d);
         (x3_a, x3_b, x3_c, x3_d) = x4_and_not_xor direct (x3_a, x3_b, x3_c, x3_d) (x4_a, x4_b, x4_c, x4_d) (t1_a, t1_b, t1_c, t1_d);
         x4_a = x4_a XOR t0_a;
         x4_b = x4_b XOR t0_b;
         x4_c = x4_c XOR t0_c;
         x4_d = x4_d XOR t0_d
     in (sbox_end (x0_a, x1_a, x2_a, x3_a, x4_a), sbox_end (x0_b, x1_b, x2_b, x3_b, x4_b), sbox_end (x0_c, x1_c, x2_c, x3_c, x4_c), sbox_end (x0_d, x1_d, x2_d, x3_d, x4_d),
         t0_a, t0_b, t0_c))"

definition x4_round :: "bool \<Rightarrow> u64 \<Rightarrow> regs \<times> regs \<times> regs \<times> regs \<times> u64 \<times> u64 \<times> u64 \<Rightarrow> regs \<times> regs \<times> regs \<times> regs \<times> u64 \<times> u64 \<times> u64" where
  "x4_round direct rc s = (case s of (a, b, c, d, t0_a, t0_b, t0_c) \<Rightarrow>
     let a = add_constant rc a;
         (a, b, c, d, t0_a, t0_b, t0_c) = x4_sbox direct a b c d t0_a t0_b t0_c;
         d = c64_linear d;
         c = c64_linear c;
         b = c64_linear b;
         a = c64_linear a;
         t0_a = rightRotate_64 t0_a 13;
         t0_b = rightRotate_64 t0_b 29;
         t0_c = rightRotate_64 t0_c 59
     in (a, b, c, d, t0_a, t0_b, t0_c))"

definition ascon_x4_permute_c64 :: "u64 list list \<Rightarrow> u8 \<Rightarrow> u64 list \<Rightarrow> u64 list list \<times> u64 list" where
  "ascon_x4_permute_c64 M first_round preserve =
     (let t0_a = preserve ! 0;
         t0_b = preserve ! 1;
         t0_c = preserve ! 2;
         a = share_regs M 0;
         b = share_regs M 1;
         c = share_regs M 2;
         d = share_regs M 3;
         a = compl_x2 a;
         (a, b, c, d, t0_a, t0_b, t0_c) = masked_rounds (x4_round False) first_round (a, b, c, d, t0_a, t0_b, t0_c);
         preserve = preserve[0 := t0_a, 1 := t0_b, 2 := t0_c];
         a = compl_x2 a;
         M = put_share M 0 a;
         M = put_share M 1 b;
         M = put_share M 2 c;
         M = put_share M 3 d
     in (M, preserve))"

definition ascon_x4_permute_direct :: "bytes list \<Rightarrow> u8 \<Rightarrow> u64 list \<Rightarrow> bytes list \<times> u64 list" where
  "ascon_x4_permute_direct M first_round preserve =
     (let t0_a = preserve ! 0;
         t0_b = preserve ! 1;
         t0_c = preserve ! 2;
         a = direct_share_regs M 0;
         b = direct_share_regs M 1;
         c = direct_share_regs M 2;
         d = direct_share_regs M 3;
         a = compl_x2 a;
         (a, b, c, d, t0_a, t0_b, t0_c) = masked_rounds (x4_round True) first_round (a, b, c, d, t0_a, t0_b, t0_c);
         preserve = preserve[0 := t0_a, 1 := t0_b, 2 := t0_c];
         a = compl_x2 a;
         M = direct_put_share M 0 a;
         M = direct_put_share M 1 b;
         M = direct_put_share M 2 c;
         M = direct_put_share M 3 d
     in (M, preserve))"

section \<open>What the shares stand for\<close>

lemma masked_rounds_c64:
  assumes "\<And>rc s. h (f rc s) = c64_round rc (h s)"
  shows "h (masked_rounds f r s) = c64_rounds r (h s)"
proof (induction r "h s" arbitrary: s rule: c64_rounds.induct)
  case (1 r)
  then show ?case
    by (simp add: masked_rounds.simps[of f r] c64_rounds.simps[of r] assms)
qed

text \<open>The substitution layer of theory \<open>Ascon_Permutation\<close> in three parts.\<close>

definition chi5 :: "regs \<Rightarrow> regs" where
  "chi5 x = (case x of (x0, x1, x2, x3, x4) \<Rightarrow>
     (x0 XOR (NOT x1 AND x2), x1 XOR (NOT x2 AND x3), x2 XOR (NOT x3 AND x4),
      x3 XOR (NOT x4 AND x0), x4 XOR (NOT x0 AND x1)))"

lemma c64_sbox_parts: "c64_sbox x = sbox_end (chi5 (sbox_start x))"
  by (simp add: c64_sbox_def sbox_end_def chi5_def sbox_start_def Let_def and.commute
      split: prod.splits)

definition xor_regs :: "regs \<Rightarrow> regs \<Rightarrow> regs" where
  "xor_regs x y = (case (x, y) of ((x0, x1, x2, x3, x4), (y0, y1, y2, y3, y4)) \<Rightarrow>
     (x0 XOR y0, x1 XOR y1, x2 XOR y2, x3 XOR y3, x4 XOR y4))"

definition map_regs :: "(u64 \<Rightarrow> u64) \<Rightarrow> regs \<Rightarrow> regs" where
  "map_regs f x = (case x of (x0, x1, x2, x3, x4) \<Rightarrow> (f x0, f x1, f x2, f x3, f x4))"

lemma linear_parts:
  "sbox_start (xor_regs x y) = xor_regs (sbox_start x) (sbox_start y)"
  "sbox_end (xor_regs x y) = xor_regs (sbox_end x) (sbox_end y)"
  "c64_linear (xor_regs x y) = xor_regs (c64_linear x) (c64_linear y)"
  by (simp_all add: sbox_start_def sbox_end_def c64_linear_def xor_regs_def Let_def rotate_64
      word_rotr_xor ac_simps split: prod.splits)

lemma linear_map:
  assumes "\<And>x y. f (x XOR y) = f x XOR f y" "\<And>n x. word_rotr n (f x) = f (word_rotr n x)"
  shows "sbox_start (map_regs f x) = map_regs f (sbox_start x)"
    "sbox_end (map_regs f x) = map_regs f (sbox_end x)"
    "c64_linear (map_regs f x) = map_regs f (c64_linear x)"
  by (simp_all add: sbox_start_def sbox_end_def c64_linear_def map_regs_def Let_def rotate_64 assms
      split: prod.splits)

lemmas linear_unrotate =
  linear_map[where f = "ascon_mask64_unrotate_share1_0 direct", OF mask64_bitwise(31) mask64_rotr(7)]
  linear_map[where f = "ascon_mask64_unrotate_share2_0 direct", OF mask64_bitwise(36) mask64_rotr(8)]
  linear_map[where f = "ascon_mask64_unrotate_share3_0 direct", OF mask64_bitwise(46) mask64_rotr(10)]
  for direct

lemma add_constant_parts:
  "add_constant rc (xor_regs x y) = xor_regs (add_constant rc x) y"
  "compl_x2 (xor_regs x y) = xor_regs (compl_x2 x) y"
  by (simp_all add: add_constant_def compl_x2_def xor_regs_def ac_simps split: prod.splits)

lemma c64_round_parts: "c64_round rc x = c64_linear (c64_sbox (add_constant rc x))"
  by (simp add: c64_round_def add_constant_def split: prod.split)

text \<open>The bitwise operations as a ring, to which sums of products of shares reduce.\<close>

lemma not_and_ring: "NOT a AND b = b XOR (a AND (b :: 'a::len word))"
  by (rule bit_word_eqI) (auto simp: bit_xor_iff bit_and_iff bit_not_iff)

lemma and_not_ring: "a AND NOT b = a XOR (a AND (b :: 'a::len word))"
  by (rule bit_word_eqI) (auto simp: bit_xor_iff bit_and_iff bit_not_iff)

lemma or_ring: "a OR b = a XOR (b XOR (a AND (b :: 'a::len word)))"
  by (rule bit_word_eqI) (auto simp: bit_xor_iff bit_and_iff bit_or_iff)

lemmas bit_ring = not_and_ring and_not_ring or_ring bit.conj_xor_distrib bit.conj_xor_distrib2 ac_simps

lemma c64_permute_compl: "c64_permute x r = compl_x2 (c64_rounds r (compl_x2 x))"
  by (simp add: c64_permute_def compl_x2_def split: prod.splits)

definition unmask2 :: "bool \<Rightarrow> regs \<Rightarrow> regs \<Rightarrow> regs" where
  "unmask2 direct a b = xor_regs a (map_regs (ascon_mask64_unrotate_share1_0 direct) b)"

lemma x2_and_not_xor:
  assumes "x2_and_not_xor direct (x_a, x_b) (y_a, y_b) (z_a, z_b) = (r_a, r_b)"
  shows "r_a XOR ascon_mask64_unrotate_share1_0 direct r_b =
     (x_a XOR ascon_mask64_unrotate_share1_0 direct x_b) XOR
     (NOT (y_a XOR ascon_mask64_unrotate_share1_0 direct y_b) AND (z_a XOR ascon_mask64_unrotate_share1_0 direct z_b))"
  using assms by (auto simp: x2_and_not_xor_def Let_def mask64_bitwise bit_ring)

lemma unmask2_parts:
  "sbox_start (unmask2 direct a b) = unmask2 direct (sbox_start a) (sbox_start b)"
  "sbox_end (unmask2 direct a b) = unmask2 direct (sbox_end a) (sbox_end b)"
  "c64_linear (unmask2 direct a b) = unmask2 direct (c64_linear a) (c64_linear b)"
  "unmask2 direct (add_constant rc a) b = add_constant rc (unmask2 direct a b)"
  "unmask2 direct (compl_x2 a) b = compl_x2 (unmask2 direct a b)"
  by (simp_all add: unmask2_def linear_parts linear_unrotate add_constant_parts)

lemma x2_sbox_unmask:
  assumes "x2_sbox direct a b t0_a = (a', b', t_a')"
  shows "unmask2 direct a' b' = c64_sbox (unmask2 direct a b)"
proof -
  obtain x0_a x1_a x2_a x3_a x4_a where a: "sbox_start a = (x0_a, x1_a, x2_a, x3_a, x4_a)"
    by (metis prod.exhaust)
  obtain x0_b x1_b x2_b x3_b x4_b where b: "sbox_start b = (x0_b, x1_b, x2_b, x3_b, x4_b)"
    by (metis prod.exhaust)
  obtain t_a t_b where t: "x2_and_not_xor direct (t0_a, ascon_mask64_rotate_share1_0 direct t0_a)
      (x0_a, x0_b) (x1_a, x1_b) = (t_a, t_b)" by (metis prod.exhaust)
  obtain y0_a y0_b where y0: "x2_and_not_xor direct (x0_a, x0_b)
      (x1_a, x1_b) (x2_a, x2_b) = (y0_a, y0_b)" by (metis prod.exhaust)
  obtain y1_a y1_b where y1: "x2_and_not_xor direct (x1_a, x1_b)
      (x2_a, x2_b) (x3_a, x3_b) = (y1_a, y1_b)" by (metis prod.exhaust)
  obtain y2_a y2_b where y2: "x2_and_not_xor direct (x2_a, x2_b)
      (x3_a, x3_b) (x4_a, x4_b) = (y2_a, y2_b)" by (metis prod.exhaust)
  obtain y3_a y3_b where y3: "x2_and_not_xor direct (x3_a, x3_b)
      (x4_a, x4_b) (x0_a, x0_b) = (y3_a, y3_b)" by (metis prod.exhaust)
  note chi = t[THEN x2_and_not_xor] y0[THEN x2_and_not_xor] y1[THEN x2_and_not_xor]
    y2[THEN x2_and_not_xor] y3[THEN x2_and_not_xor]
  have "(x4_a XOR t_a) XOR ascon_mask64_unrotate_share1_0 direct (x4_b XOR t_b) =
      (x4_a XOR ascon_mask64_unrotate_share1_0 direct x4_b) XOR (t_a XOR ascon_mask64_unrotate_share1_0 direct t_b)"
    by (simp add: mask64_bitwise ac_simps)
  also have "t_a XOR ascon_mask64_unrotate_share1_0 direct t_b = NOT (x0_a XOR ascon_mask64_unrotate_share1_0 direct x0_b) AND (x1_a XOR ascon_mask64_unrotate_share1_0 direct x1_b)"
    unfolding chi(1) by (simp add: mask64_bitwise ac_simps)
  finally have "unmask2 direct
        (y0_a, y1_a, y2_a, y3_a, x4_a XOR t_a)
        (y0_b, y1_b, y2_b, y3_b, x4_b XOR t_b) =
      chi5 (unmask2 direct (sbox_start a) (sbox_start b))"
    using chi(2-5) by (simp add: unmask2_def chi5_def xor_regs_def map_regs_def a b xor.assoc)
  moreover have "a' = sbox_end (y0_a, y1_a, y2_a, y3_a, x4_a XOR t_a)" "b' = sbox_end (y0_b, y1_b, y2_b, y3_b, x4_b XOR t_b)"
    using assms by (auto simp: x2_sbox_def a b t y0 y1 y2 y3)
  ultimately show ?thesis
    by (simp add: c64_sbox_parts unmask2_parts(1) flip: unmask2_parts(2))
qed

lemma x2_round_unmask:
  "(case x2_round direct rc s of (a, b, t0_a) \<Rightarrow> unmask2 direct a b) =
     c64_round rc (case s of (a, b, t0_a) \<Rightarrow> unmask2 direct a b)"
proof -
  obtain a b t0_a where s: "s = (a, b, t0_a)" by (metis prod.exhaust)
  obtain a' b' t_a' where
    r: "x2_sbox direct (add_constant rc a) b t0_a = (a', b', t_a')"
    by (metis prod.exhaust)
  from x2_sbox_unmask[OF r] show ?thesis
    by (simp add: s r x2_round_def c64_round_parts unmask2_parts(4) flip: unmask2_parts(3))
qed

lemma x2_rounds_unmask:
  assumes "masked_rounds (x2_round direct) r (compl_x2 a, b, t0_a) = (a', b', t_a')"
  shows "unmask2 direct (compl_x2 a') b' = c64_permute (unmask2 direct a b) r"
proof -
  have "unmask2 direct a' b' = c64_rounds r (unmask2 direct (compl_x2 a) b)"
    using masked_rounds_c64[of "\<lambda>(a, b, t0_a). unmask2 direct a b" "x2_round direct" r
        "(compl_x2 a, b, t0_a)", OF x2_round_unmask] assms
    by simp
  then show ?thesis
    by (simp add: unmask2_parts(5) c64_permute_compl)
qed

definition unmask3 :: "bool \<Rightarrow> regs \<Rightarrow> regs \<Rightarrow> regs \<Rightarrow> regs" where
  "unmask3 direct a b c = xor_regs (xor_regs a (map_regs (ascon_mask64_unrotate_share1_0 direct) b)) (map_regs (ascon_mask64_unrotate_share2_0 direct) c)"

lemma x3_and_not_xor:
  assumes "x3_and_not_xor direct (x_a, x_b, x_c) (y_a, y_b, y_c) (z_a, z_b, z_c) = (r_a, r_b, r_c)"
  shows "r_a XOR ascon_mask64_unrotate_share1_0 direct r_b XOR ascon_mask64_unrotate_share2_0 direct r_c =
     (x_a XOR ascon_mask64_unrotate_share1_0 direct x_b XOR ascon_mask64_unrotate_share2_0 direct x_c) XOR
     (NOT (y_a XOR ascon_mask64_unrotate_share1_0 direct y_b XOR ascon_mask64_unrotate_share2_0 direct y_c) AND (z_a XOR ascon_mask64_unrotate_share1_0 direct z_b XOR ascon_mask64_unrotate_share2_0 direct z_c))"
  using assms by (auto simp: x3_and_not_xor_def Let_def mask64_bitwise bit_ring)

lemma unmask3_parts:
  "sbox_start (unmask3 direct a b c) = unmask3 direct (sbox_start a) (sbox_start b) (sbox_start c)"
  "sbox_end (unmask3 direct a b c) = unmask3 direct (sbox_end a) (sbox_end b) (sbox_end c)"
  "c64_linear (unmask3 direct a b c) = unmask3 direct (c64_linear a) (c64_linear b) (c64_linear c)"
  "unmask3 direct (add_constant rc a) b c = add_constant rc (unmask3 direct a b c)"
  "unmask3 direct (compl_x2 a) b c = compl_x2 (unmask3 direct a b c)"
  by (simp_all add: unmask3_def linear_parts linear_unrotate add_constant_parts)

lemma x3_sbox_unmask:
  assumes "x3_sbox direct a b c t0_a t0_b = (a', b', c', t_a', t_b')"
  shows "unmask3 direct a' b' c' = c64_sbox (unmask3 direct a b c)"
proof -
  obtain x0_a x1_a x2_a x3_a x4_a where a: "sbox_start a = (x0_a, x1_a, x2_a, x3_a, x4_a)"
    by (metis prod.exhaust)
  obtain x0_b x1_b x2_b x3_b x4_b where b: "sbox_start b = (x0_b, x1_b, x2_b, x3_b, x4_b)"
    by (metis prod.exhaust)
  obtain x0_c x1_c x2_c x3_c x4_c where c: "sbox_start c = (x0_c, x1_c, x2_c, x3_c, x4_c)"
    by (metis prod.exhaust)
  obtain t_a t_b t_c where t: "x3_and_not_xor direct (t0_a, t0_b, ascon_mask64_rotate_share2_0 direct t0_a XOR ascon_mask64_rotate_share2_1 direct t0_b)
      (x0_a, x0_b, x0_c) (x1_a, x1_b, x1_c) = (t_a, t_b, t_c)" by (metis prod.exhaust)
  obtain y0_a y0_b y0_c where y0: "x3_and_not_xor direct (x0_a, x0_b, x0_c)
      (x1_a, x1_b, x1_c) (x2_a, x2_b, x2_c) = (y0_a, y0_b, y0_c)" by (metis prod.exhaust)
  obtain y1_a y1_b y1_c where y1: "x3_and_not_xor direct (x1_a, x1_b, x1_c)
      (x2_a, x2_b, x2_c) (x3_a, x3_b, x3_c) = (y1_a, y1_b, y1_c)" by (metis prod.exhaust)
  obtain y2_a y2_b y2_c where y2: "x3_and_not_xor direct (x2_a, x2_b, x2_c)
      (x3_a, x3_b, x3_c) (x4_a, x4_b, x4_c) = (y2_a, y2_b, y2_c)" by (metis prod.exhaust)
  obtain y3_a y3_b y3_c where y3: "x3_and_not_xor direct (x3_a, x3_b, x3_c)
      (x4_a, x4_b, x4_c) (x0_a, x0_b, x0_c) = (y3_a, y3_b, y3_c)" by (metis prod.exhaust)
  note chi = t[THEN x3_and_not_xor] y0[THEN x3_and_not_xor] y1[THEN x3_and_not_xor]
    y2[THEN x3_and_not_xor] y3[THEN x3_and_not_xor]
  have "(x4_a XOR t_a) XOR ascon_mask64_unrotate_share1_0 direct (x4_b XOR t_b) XOR ascon_mask64_unrotate_share2_0 direct (x4_c XOR t_c) =
      (x4_a XOR ascon_mask64_unrotate_share1_0 direct x4_b XOR ascon_mask64_unrotate_share2_0 direct x4_c) XOR (t_a XOR ascon_mask64_unrotate_share1_0 direct t_b XOR ascon_mask64_unrotate_share2_0 direct t_c)"
    by (simp add: mask64_bitwise ac_simps)
  also have "t_a XOR ascon_mask64_unrotate_share1_0 direct t_b XOR ascon_mask64_unrotate_share2_0 direct t_c = NOT (x0_a XOR ascon_mask64_unrotate_share1_0 direct x0_b XOR ascon_mask64_unrotate_share2_0 direct x0_c) AND (x1_a XOR ascon_mask64_unrotate_share1_0 direct x1_b XOR ascon_mask64_unrotate_share2_0 direct x1_c)"
    unfolding chi(1) by (simp add: mask64_bitwise ac_simps)
  finally have "unmask3 direct
        (y0_a, y1_a, y2_a, y3_a, x4_a XOR t_a)
        (y0_b, y1_b, y2_b, y3_b, x4_b XOR t_b)
        (y0_c, y1_c, y2_c, y3_c, x4_c XOR t_c) =
      chi5 (unmask3 direct (sbox_start a) (sbox_start b) (sbox_start c))"
    using chi(2-5) by (simp add: unmask3_def chi5_def xor_regs_def map_regs_def a b c xor.assoc)
  moreover have "a' = sbox_end (y0_a, y1_a, y2_a, y3_a, x4_a XOR t_a)" "b' = sbox_end (y0_b, y1_b, y2_b, y3_b, x4_b XOR t_b)" "c' = sbox_end (y0_c, y1_c, y2_c, y3_c, x4_c XOR t_c)"
    using assms by (auto simp: x3_sbox_def a b c t y0 y1 y2 y3)
  ultimately show ?thesis
    by (simp add: c64_sbox_parts unmask3_parts(1) flip: unmask3_parts(2))
qed

lemma x3_round_unmask:
  "(case x3_round direct rc s of (a, b, c, t0_a, t0_b) \<Rightarrow> unmask3 direct a b c) =
     c64_round rc (case s of (a, b, c, t0_a, t0_b) \<Rightarrow> unmask3 direct a b c)"
proof -
  obtain a b c t0_a t0_b where s: "s = (a, b, c, t0_a, t0_b)" by (metis prod.exhaust)
  obtain a' b' c' t_a' t_b' where
    r: "x3_sbox direct (add_constant rc a) b c t0_a t0_b = (a', b', c', t_a', t_b')"
    by (metis prod.exhaust)
  from x3_sbox_unmask[OF r] show ?thesis
    by (simp add: s r x3_round_def c64_round_parts unmask3_parts(4) flip: unmask3_parts(3))
qed

lemma x3_rounds_unmask:
  assumes "masked_rounds (x3_round direct) r (compl_x2 a, b, c, t0_a, t0_b) = (a', b', c', t_a', t_b')"
  shows "unmask3 direct (compl_x2 a') b' c' = c64_permute (unmask3 direct a b c) r"
proof -
  have "unmask3 direct a' b' c' = c64_rounds r (unmask3 direct (compl_x2 a) b c)"
    using masked_rounds_c64[of "\<lambda>(a, b, c, t0_a, t0_b). unmask3 direct a b c" "x3_round direct" r
        "(compl_x2 a, b, c, t0_a, t0_b)", OF x3_round_unmask] assms
    by simp
  then show ?thesis
    by (simp add: unmask3_parts(5) c64_permute_compl)
qed

definition unmask4 :: "bool \<Rightarrow> regs \<Rightarrow> regs \<Rightarrow> regs \<Rightarrow> regs \<Rightarrow> regs" where
  "unmask4 direct a b c d = xor_regs (xor_regs (xor_regs a (map_regs (ascon_mask64_unrotate_share1_0 direct) b)) (map_regs (ascon_mask64_unrotate_share2_0 direct) c)) (map_regs (ascon_mask64_unrotate_share3_0 direct) d)"

lemma x4_and_not_xor:
  assumes "x4_and_not_xor direct (x_a, x_b, x_c, x_d) (y_a, y_b, y_c, y_d) (z_a, z_b, z_c, z_d) = (r_a, r_b, r_c, r_d)"
  shows "r_a XOR ascon_mask64_unrotate_share1_0 direct r_b XOR ascon_mask64_unrotate_share2_0 direct r_c XOR ascon_mask64_unrotate_share3_0 direct r_d =
     (x_a XOR ascon_mask64_unrotate_share1_0 direct x_b XOR ascon_mask64_unrotate_share2_0 direct x_c XOR ascon_mask64_unrotate_share3_0 direct x_d) XOR
     (NOT (y_a XOR ascon_mask64_unrotate_share1_0 direct y_b XOR ascon_mask64_unrotate_share2_0 direct y_c XOR ascon_mask64_unrotate_share3_0 direct y_d) AND (z_a XOR ascon_mask64_unrotate_share1_0 direct z_b XOR ascon_mask64_unrotate_share2_0 direct z_c XOR ascon_mask64_unrotate_share3_0 direct z_d))"
  using assms by (auto simp: x4_and_not_xor_def Let_def mask64_bitwise bit_ring)

lemma unmask4_parts:
  "sbox_start (unmask4 direct a b c d) = unmask4 direct (sbox_start a) (sbox_start b) (sbox_start c) (sbox_start d)"
  "sbox_end (unmask4 direct a b c d) = unmask4 direct (sbox_end a) (sbox_end b) (sbox_end c) (sbox_end d)"
  "c64_linear (unmask4 direct a b c d) = unmask4 direct (c64_linear a) (c64_linear b) (c64_linear c) (c64_linear d)"
  "unmask4 direct (add_constant rc a) b c d = add_constant rc (unmask4 direct a b c d)"
  "unmask4 direct (compl_x2 a) b c d = compl_x2 (unmask4 direct a b c d)"
  by (simp_all add: unmask4_def linear_parts linear_unrotate add_constant_parts)

lemma x4_sbox_unmask:
  assumes "x4_sbox direct a b c d t0_a t0_b t0_c = (a', b', c', d', t_a', t_b', t_c')"
  shows "unmask4 direct a' b' c' d' = c64_sbox (unmask4 direct a b c d)"
proof -
  obtain x0_a x1_a x2_a x3_a x4_a where a: "sbox_start a = (x0_a, x1_a, x2_a, x3_a, x4_a)"
    by (metis prod.exhaust)
  obtain x0_b x1_b x2_b x3_b x4_b where b: "sbox_start b = (x0_b, x1_b, x2_b, x3_b, x4_b)"
    by (metis prod.exhaust)
  obtain x0_c x1_c x2_c x3_c x4_c where c: "sbox_start c = (x0_c, x1_c, x2_c, x3_c, x4_c)"
    by (metis prod.exhaust)
  obtain x0_d x1_d x2_d x3_d x4_d where d: "sbox_start d = (x0_d, x1_d, x2_d, x3_d, x4_d)"
    by (metis prod.exhaust)
  obtain t_a t_b t_c t_d where t: "x4_and_not_xor direct (t0_a, t0_b, t0_c, ascon_mask64_rotate_share3_0 direct t0_a XOR ascon_mask64_rotate_share3_1 direct t0_b XOR ascon_mask64_rotate_share3_2 direct t0_c)
      (x0_a, x0_b, x0_c, x0_d) (x1_a, x1_b, x1_c, x1_d) = (t_a, t_b, t_c, t_d)" by (metis prod.exhaust)
  obtain y0_a y0_b y0_c y0_d where y0: "x4_and_not_xor direct (x0_a, x0_b, x0_c, x0_d)
      (x1_a, x1_b, x1_c, x1_d) (x2_a, x2_b, x2_c, x2_d) = (y0_a, y0_b, y0_c, y0_d)" by (metis prod.exhaust)
  obtain y1_a y1_b y1_c y1_d where y1: "x4_and_not_xor direct (x1_a, x1_b, x1_c, x1_d)
      (x2_a, x2_b, x2_c, x2_d) (x3_a, x3_b, x3_c, x3_d) = (y1_a, y1_b, y1_c, y1_d)" by (metis prod.exhaust)
  obtain y2_a y2_b y2_c y2_d where y2: "x4_and_not_xor direct (x2_a, x2_b, x2_c, x2_d)
      (x3_a, x3_b, x3_c, x3_d) (x4_a, x4_b, x4_c, x4_d) = (y2_a, y2_b, y2_c, y2_d)" by (metis prod.exhaust)
  obtain y3_a y3_b y3_c y3_d where y3: "x4_and_not_xor direct (x3_a, x3_b, x3_c, x3_d)
      (x4_a, x4_b, x4_c, x4_d) (x0_a, x0_b, x0_c, x0_d) = (y3_a, y3_b, y3_c, y3_d)" by (metis prod.exhaust)
  note chi = t[THEN x4_and_not_xor] y0[THEN x4_and_not_xor] y1[THEN x4_and_not_xor]
    y2[THEN x4_and_not_xor] y3[THEN x4_and_not_xor]
  have "(x4_a XOR t_a) XOR ascon_mask64_unrotate_share1_0 direct (x4_b XOR t_b) XOR ascon_mask64_unrotate_share2_0 direct (x4_c XOR t_c) XOR ascon_mask64_unrotate_share3_0 direct (x4_d XOR t_d) =
      (x4_a XOR ascon_mask64_unrotate_share1_0 direct x4_b XOR ascon_mask64_unrotate_share2_0 direct x4_c XOR ascon_mask64_unrotate_share3_0 direct x4_d) XOR (t_a XOR ascon_mask64_unrotate_share1_0 direct t_b XOR ascon_mask64_unrotate_share2_0 direct t_c XOR ascon_mask64_unrotate_share3_0 direct t_d)"
    by (simp add: mask64_bitwise ac_simps)
  also have "t_a XOR ascon_mask64_unrotate_share1_0 direct t_b XOR ascon_mask64_unrotate_share2_0 direct t_c XOR ascon_mask64_unrotate_share3_0 direct t_d = NOT (x0_a XOR ascon_mask64_unrotate_share1_0 direct x0_b XOR ascon_mask64_unrotate_share2_0 direct x0_c XOR ascon_mask64_unrotate_share3_0 direct x0_d) AND (x1_a XOR ascon_mask64_unrotate_share1_0 direct x1_b XOR ascon_mask64_unrotate_share2_0 direct x1_c XOR ascon_mask64_unrotate_share3_0 direct x1_d)"
    unfolding chi(1) by (simp add: mask64_bitwise ac_simps)
  finally have "unmask4 direct
        (y0_a, y1_a, y2_a, y3_a, x4_a XOR t_a)
        (y0_b, y1_b, y2_b, y3_b, x4_b XOR t_b)
        (y0_c, y1_c, y2_c, y3_c, x4_c XOR t_c)
        (y0_d, y1_d, y2_d, y3_d, x4_d XOR t_d) =
      chi5 (unmask4 direct (sbox_start a) (sbox_start b) (sbox_start c) (sbox_start d))"
    using chi(2-5) by (simp add: unmask4_def chi5_def xor_regs_def map_regs_def a b c d xor.assoc)
  moreover have "a' = sbox_end (y0_a, y1_a, y2_a, y3_a, x4_a XOR t_a)" "b' = sbox_end (y0_b, y1_b, y2_b, y3_b, x4_b XOR t_b)" "c' = sbox_end (y0_c, y1_c, y2_c, y3_c, x4_c XOR t_c)" "d' = sbox_end (y0_d, y1_d, y2_d, y3_d, x4_d XOR t_d)"
    using assms by (auto simp: x4_sbox_def a b c d t y0 y1 y2 y3)
  ultimately show ?thesis
    by (simp add: c64_sbox_parts unmask4_parts(1) flip: unmask4_parts(2))
qed

lemma x4_round_unmask:
  "(case x4_round direct rc s of (a, b, c, d, t0_a, t0_b, t0_c) \<Rightarrow> unmask4 direct a b c d) =
     c64_round rc (case s of (a, b, c, d, t0_a, t0_b, t0_c) \<Rightarrow> unmask4 direct a b c d)"
proof -
  obtain a b c d t0_a t0_b t0_c where s: "s = (a, b, c, d, t0_a, t0_b, t0_c)" by (metis prod.exhaust)
  obtain a' b' c' d' t_a' t_b' t_c' where
    r: "x4_sbox direct (add_constant rc a) b c d t0_a t0_b t0_c = (a', b', c', d', t_a', t_b', t_c')"
    by (metis prod.exhaust)
  from x4_sbox_unmask[OF r] show ?thesis
    by (simp add: s r x4_round_def c64_round_parts unmask4_parts(4) flip: unmask4_parts(3))
qed

lemma x4_rounds_unmask:
  assumes "masked_rounds (x4_round direct) r (compl_x2 a, b, c, d, t0_a, t0_b, t0_c) = (a', b', c', d', t_a', t_b', t_c')"
  shows "unmask4 direct (compl_x2 a') b' c' d' = c64_permute (unmask4 direct a b c d) r"
proof -
  have "unmask4 direct a' b' c' d' = c64_rounds r (unmask4 direct (compl_x2 a) b c d)"
    using masked_rounds_c64[of "\<lambda>(a, b, c, d, t0_a, t0_b, t0_c). unmask4 direct a b c d" "x4_round direct" r
        "(compl_x2 a, b, c, d, t0_a, t0_b, t0_c)", OF x4_round_unmask] assms
    by simp
  then show ?thesis
    by (simp add: unmask4_parts(5) c64_permute_compl)
qed

end
