(* ===== verification/Masked_Word64.thy ===== *)
theory Masked_Word64
  imports Masked_Perm64
begin

text \<open>
  \<open>masking/ascon-masked-word-c64.c\<close>: masked words as arrays \<open>S\<close> of 64-bit shares, and the proof that
  they satisfy the contract \<open>masked_word\<close> for two, three and four shares.  The length of the array is
  \<open>ASCON_MASKED_MAX_SHARES\<close>: an assignment to a share that does not exist, which the
  preprocessor removes, is an update beyond the end of the list, which does nothing.  (The one such
  assignment that the preprocessor keeps, \<open>S[3]\<close> in \<open>ascon_masked_word_x3_zero\<close>, is outside of the
  array when there are three shares.)
\<close>

section \<open>The code\<close>

subsection \<open>Two shares\<close>

definition mw64_x2_zero ::
  "'t rng \<Rightarrow> u64 list \<Rightarrow> 't \<Rightarrow> 't \<times> u64 list" where
  "mw64_x2_zero R word t =
     (let (t, random) = next_64 R t
      in (t, word[0 := random, 1 := ascon_mask64_rotate_share1_0 False random, 2 := 0, 3 := 0]))"

definition mw64_x2_load ::
  "'t rng \<Rightarrow> u64 list \<Rightarrow> bytes \<Rightarrow> 't \<Rightarrow> 't \<times> u64 list" where
  "mw64_x2_load R word data t =
     (let (t, random) = next_64 R t
      in (t, word[0 := random XOR be_load_word64 data, 1 := ascon_mask64_rotate_share1_0 False random, 2 := 0, 3 := 0]))"

definition mw64_x2_load_partial ::
  "'t rng \<Rightarrow> u64 list \<Rightarrow> bytes \<Rightarrow> nat \<Rightarrow> 't \<Rightarrow> 't \<times> u64 list" where
  "mw64_x2_load_partial R word data sz t =
     (let (t, random) = next_64 R t;
          masked = random;
          random = ascon_mask64_rotate_share1_0 False random;
          (masked, random) = partial_rotations data sz masked random
      in (t, word[0 := masked, 1 := random, 2 := 0, 3 := 0]))"

definition mw64_x2_load_32 ::
  "'t rng \<Rightarrow> u64 list \<Rightarrow> bytes \<Rightarrow> bytes \<Rightarrow> 't \<Rightarrow> 't \<times> u64 list" where
  "mw64_x2_load_32 R word data1 data2 t =
     (let (t, random) = next_64 R t
      in (t, word[0 := (random XOR push_bit 32 (ucast (be_load_word32 data1))) XOR ucast (be_load_word32 data2), 1 := ascon_mask64_rotate_share1_0 False random, 2 := 0, 3 := 0]))"

definition mw64_x2_store ::
  "u64 list \<Rightarrow> bytes" where
  "mw64_x2_store word =
     (be_store_word64
        (word ! 0 XOR
         ascon_mask64_unrotate_share1_0 False (word ! 1)))"

definition mw64_x2_store_partial ::
  "nat \<Rightarrow> u64 list \<Rightarrow> bytes" where
  "mw64_x2_store_partial sz word =
     (partial_output sz
        [word ! 0,
         ascon_mask64_unrotate_share1_0 False (word ! 1)])"

definition mw64_x2_randomize ::
  "'t rng \<Rightarrow> u64 list \<Rightarrow> u64 list \<Rightarrow> 't \<Rightarrow> 't \<times> u64 list" where
  "mw64_x2_randomize R dest src t =
     (let (t, random) = next_64 R t
      in (t, dest[0 := src ! 0 XOR random, 1 := src ! 1 XOR ascon_mask64_rotate_share1_0 False random]))"

definition mw64_x2_xor ::
  "u64 list \<Rightarrow> u64 list \<Rightarrow> u64 list" where
  "mw64_x2_xor dest src =
     (dest[0 := dest ! 0 XOR src ! 0, 1 := dest ! 1 XOR src ! 1])"

definition mw64_x2_replace ::
  "u64 list \<Rightarrow> u64 list \<Rightarrow> nat \<Rightarrow> u64 list" where
  "mw64_x2_replace dest src sz =
     (let mask1 = drop_bit (sz * 8) (NOT 0); mask2 = NOT mask1
      in dest[0 := (dest ! 0 AND mask1) OR (src ! 0 AND mask2),
              1 := (dest ! 1 AND ascon_mask64_rotate_share1_0 False mask1) OR (src ! 1 AND ascon_mask64_rotate_share1_0 False mask2)])"

definition mw64_x2_from_x3 ::
  "'t rng \<Rightarrow> u64 list \<Rightarrow> u64 list \<Rightarrow> 't \<Rightarrow> 't \<times> u64 list" where
  "mw64_x2_from_x3 R dest src t =
     (let (t, random) = next_64 R t
      in (t, dest[0 := random XOR src ! 0,
              1 := (ascon_mask64_rotate_share1_0 False random XOR src ! 1) XOR
                 ascon_mask64_unrotate_share2_1 False (src ! 2),
              2 := 0,
              3 := 0]))"

definition mw64_x2_from_x4 ::
  "'t rng \<Rightarrow> u64 list \<Rightarrow> u64 list \<Rightarrow> 't \<Rightarrow> 't \<times> u64 list" where
  "mw64_x2_from_x4 R dest src t =
     (let (t, random) = next_64 R t
      in (t, dest[0 := (random XOR src ! 0) XOR ascon_mask64_unrotate_share2_0 False (src ! 2),
              1 := (ascon_mask64_rotate_share1_0 False random XOR src ! 1) XOR
                 ascon_mask64_unrotate_share3_1 False (src ! 3),
              2 := 0,
              3 := 0]))"

subsection \<open>Three shares\<close>

definition mw64_x3_zero ::
  "'t rng \<Rightarrow> u64 list \<Rightarrow> 't \<Rightarrow> 't \<times> u64 list" where
  "mw64_x3_zero R word t =
     (let (t, random1) = next_64 R t;
          (t, random2) = next_64 R t
      in (t, word[0 := random1 XOR random2, 1 := ascon_mask64_rotate_share1_0 False random1, 2 := ascon_mask64_rotate_share2_0 False random2, 3 := 0]))"

definition mw64_x3_load ::
  "'t rng \<Rightarrow> u64 list \<Rightarrow> bytes \<Rightarrow> 't \<Rightarrow> 't \<times> u64 list" where
  "mw64_x3_load R word data t =
     (let (t, random1) = next_64 R t;
          (t, random2) = next_64 R t
      in (t, word[0 := random1 XOR random2 XOR be_load_word64 data, 1 := ascon_mask64_rotate_share1_0 False random1, 2 := ascon_mask64_rotate_share2_0 False random2, 3 := 0]))"

definition mw64_x3_load_partial ::
  "'t rng \<Rightarrow> u64 list \<Rightarrow> bytes \<Rightarrow> nat \<Rightarrow> 't \<Rightarrow> 't \<times> u64 list" where
  "mw64_x3_load_partial R word data sz t =
     (let (t, random1) = next_64 R t;
          (t, random2) = next_64 R t;
          masked = random1;
          random1 = ascon_mask64_rotate_share1_0 False random1;
          (masked, random1) = partial_rotations data sz masked random1
      in (t, word[0 := masked XOR random2, 1 := random1, 2 := ascon_mask64_rotate_share2_0 False random2, 3 := 0]))"

definition mw64_x3_load_32 ::
  "'t rng \<Rightarrow> u64 list \<Rightarrow> bytes \<Rightarrow> bytes \<Rightarrow> 't \<Rightarrow> 't \<times> u64 list" where
  "mw64_x3_load_32 R word data1 data2 t =
     (let (t, random1) = next_64 R t;
          (t, random2) = next_64 R t
      in (t, word[0 := (random1 XOR push_bit 32 (ucast (be_load_word32 data1))) XOR
            (random2 XOR ucast (be_load_word32 data2)), 1 := ascon_mask64_rotate_share1_0 False random1, 2 := ascon_mask64_rotate_share2_0 False random2, 3 := 0]))"

definition mw64_x3_store ::
  "u64 list \<Rightarrow> bytes" where
  "mw64_x3_store word =
     (be_store_word64
        (word ! 0 XOR
         ascon_mask64_unrotate_share1_0 False (word ! 1) XOR
         ascon_mask64_unrotate_share2_0 False (word ! 2)))"

definition mw64_x3_store_partial ::
  "nat \<Rightarrow> u64 list \<Rightarrow> bytes" where
  "mw64_x3_store_partial sz word =
     (partial_output sz
        [word ! 0,
         ascon_mask64_unrotate_share1_0 False (word ! 1),
         ascon_mask64_unrotate_share2_0 False (word ! 2)])"

definition mw64_x3_randomize ::
  "'t rng \<Rightarrow> u64 list \<Rightarrow> u64 list \<Rightarrow> 't \<Rightarrow> 't \<times> u64 list" where
  "mw64_x3_randomize R dest src t =
     (let (t, random1) = next_64 R t;
          (t, random2) = next_64 R t
      in (t, dest[0 := src ! 0 XOR random1 XOR random2, 1 := src ! 1 XOR ascon_mask64_rotate_share1_0 False random1, 2 := src ! 2 XOR ascon_mask64_rotate_share2_0 False random2]))"

definition mw64_x3_xor ::
  "u64 list \<Rightarrow> u64 list \<Rightarrow> u64 list" where
  "mw64_x3_xor dest src =
     (dest[0 := dest ! 0 XOR src ! 0, 1 := dest ! 1 XOR src ! 1, 2 := dest ! 2 XOR src ! 2])"

definition mw64_x3_replace ::
  "u64 list \<Rightarrow> u64 list \<Rightarrow> nat \<Rightarrow> u64 list" where
  "mw64_x3_replace dest src sz =
     (let mask1 = drop_bit (sz * 8) (NOT 0); mask2 = NOT mask1
      in dest[0 := (dest ! 0 AND mask1) OR (src ! 0 AND mask2),
              1 := (dest ! 1 AND ascon_mask64_rotate_share1_0 False mask1) OR (src ! 1 AND ascon_mask64_rotate_share1_0 False mask2),
              2 := (dest ! 2 AND ascon_mask64_rotate_share2_0 False mask1) OR (src ! 2 AND ascon_mask64_rotate_share2_0 False mask2)])"

definition mw64_x3_from_x2 ::
  "'t rng \<Rightarrow> u64 list \<Rightarrow> u64 list \<Rightarrow> 't \<Rightarrow> 't \<times> u64 list" where
  "mw64_x3_from_x2 R dest src t =
     (let (t, random1) = next_64 R t;
          (t, random2) = next_64 R t
      in (t, dest[0 := random1 XOR random2 XOR src ! 0,
              1 := ascon_mask64_rotate_share1_0 False random1 XOR src ! 1,
              2 := ascon_mask64_rotate_share2_0 False random2,
              3 := 0]))"

definition mw64_x3_from_x4 ::
  "'t rng \<Rightarrow> u64 list \<Rightarrow> u64 list \<Rightarrow> 't \<Rightarrow> 't \<times> u64 list" where
  "mw64_x3_from_x4 R dest src t =
     (let (t, random1) = next_64 R t;
          (t, random2) = next_64 R t
      in (t, dest[0 := (random1 XOR random2 XOR src ! 0) XOR ascon_mask64_unrotate_share3_0 False (src ! 3),
              1 := ascon_mask64_rotate_share1_0 False random1 XOR src ! 1,
              2 := ascon_mask64_rotate_share2_0 False random2 XOR src ! 2,
              3 := 0]))"

subsection \<open>Four shares\<close>

definition mw64_x4_zero ::
  "'t rng \<Rightarrow> u64 list \<Rightarrow> 't \<Rightarrow> 't \<times> u64 list" where
  "mw64_x4_zero R word t =
     (let (t, random1) = next_64 R t;
          (t, random2) = next_64 R t;
          (t, random3) = next_64 R t
      in (t, word[0 := random1 XOR random2 XOR random3, 1 := ascon_mask64_rotate_share1_0 False random1, 2 := ascon_mask64_rotate_share2_0 False random2, 3 := ascon_mask64_rotate_share3_0 False random3]))"

definition mw64_x4_load ::
  "'t rng \<Rightarrow> u64 list \<Rightarrow> bytes \<Rightarrow> 't \<Rightarrow> 't \<times> u64 list" where
  "mw64_x4_load R word data t =
     (let (t, random1) = next_64 R t;
          (t, random2) = next_64 R t;
          (t, random3) = next_64 R t
      in (t, word[0 := random1 XOR random2 XOR random3 XOR be_load_word64 data, 1 := ascon_mask64_rotate_share1_0 False random1, 2 := ascon_mask64_rotate_share2_0 False random2, 3 := ascon_mask64_rotate_share3_0 False random3]))"

definition mw64_x4_load_partial ::
  "'t rng \<Rightarrow> u64 list \<Rightarrow> bytes \<Rightarrow> nat \<Rightarrow> 't \<Rightarrow> 't \<times> u64 list" where
  "mw64_x4_load_partial R word data sz t =
     (let (t, random1) = next_64 R t;
          (t, random2) = next_64 R t;
          (t, random3) = next_64 R t;
          masked = random1;
          random1 = ascon_mask64_rotate_share1_0 False random1;
          (masked, random1) = partial_rotations data sz masked random1
      in (t, word[0 := masked XOR random2 XOR random3, 1 := random1, 2 := ascon_mask64_rotate_share2_0 False random2, 3 := ascon_mask64_rotate_share3_0 False random3]))"

definition mw64_x4_load_32 ::
  "'t rng \<Rightarrow> u64 list \<Rightarrow> bytes \<Rightarrow> bytes \<Rightarrow> 't \<Rightarrow> 't \<times> u64 list" where
  "mw64_x4_load_32 R word data1 data2 t =
     (let (t, random1) = next_64 R t;
          (t, random2) = next_64 R t;
          (t, random3) = next_64 R t
      in (t, word[0 := (random1 XOR random2 XOR push_bit 32 (ucast (be_load_word32 data1))) XOR
            (random3 XOR ucast (be_load_word32 data2)), 1 := ascon_mask64_rotate_share1_0 False random1, 2 := ascon_mask64_rotate_share2_0 False random2, 3 := ascon_mask64_rotate_share3_0 False random3]))"

definition mw64_x4_store ::
  "u64 list \<Rightarrow> bytes" where
  "mw64_x4_store word =
     (be_store_word64
        (word ! 0 XOR
         ascon_mask64_unrotate_share1_0 False (word ! 1) XOR
         ascon_mask64_unrotate_share2_0 False (word ! 2) XOR
         ascon_mask64_unrotate_share3_0 False (word ! 3)))"

definition mw64_x4_store_partial ::
  "nat \<Rightarrow> u64 list \<Rightarrow> bytes" where
  "mw64_x4_store_partial sz word =
     (partial_output sz
        [word ! 0,
         ascon_mask64_unrotate_share1_0 False (word ! 1),
         ascon_mask64_unrotate_share2_0 False (word ! 2),
         ascon_mask64_unrotate_share3_0 False (word ! 3)])"

definition mw64_x4_randomize ::
  "'t rng \<Rightarrow> u64 list \<Rightarrow> u64 list \<Rightarrow> 't \<Rightarrow> 't \<times> u64 list" where
  "mw64_x4_randomize R dest src t =
     (let (t, random1) = next_64 R t;
          (t, random2) = next_64 R t;
          (t, random3) = next_64 R t
      in (t, dest[0 := src ! 0 XOR random1 XOR random2 XOR random3, 1 := src ! 1 XOR ascon_mask64_rotate_share1_0 False random1, 2 := src ! 2 XOR ascon_mask64_rotate_share2_0 False random2, 3 := src ! 3 XOR ascon_mask64_rotate_share3_0 False random3]))"

definition mw64_x4_xor ::
  "u64 list \<Rightarrow> u64 list \<Rightarrow> u64 list" where
  "mw64_x4_xor dest src =
     (dest[0 := dest ! 0 XOR src ! 0, 1 := dest ! 1 XOR src ! 1, 2 := dest ! 2 XOR src ! 2, 3 := dest ! 3 XOR src ! 3])"

definition mw64_x4_replace ::
  "u64 list \<Rightarrow> u64 list \<Rightarrow> nat \<Rightarrow> u64 list" where
  "mw64_x4_replace dest src sz =
     (let mask1 = drop_bit (sz * 8) (NOT 0); mask2 = NOT mask1
      in dest[0 := (dest ! 0 AND mask1) OR (src ! 0 AND mask2),
              1 := (dest ! 1 AND ascon_mask64_rotate_share1_0 False mask1) OR (src ! 1 AND ascon_mask64_rotate_share1_0 False mask2),
              2 := (dest ! 2 AND ascon_mask64_rotate_share2_0 False mask1) OR (src ! 2 AND ascon_mask64_rotate_share2_0 False mask2),
              3 := (dest ! 3 AND ascon_mask64_rotate_share3_0 False mask1) OR (src ! 3 AND ascon_mask64_rotate_share3_0 False mask2)])"

definition mw64_x4_from_x2 ::
  "'t rng \<Rightarrow> u64 list \<Rightarrow> u64 list \<Rightarrow> 't \<Rightarrow> 't \<times> u64 list" where
  "mw64_x4_from_x2 R dest src t =
     (let (t, random1) = next_64 R t;
          (t, random2) = next_64 R t;
          (t, random3) = next_64 R t
      in (t, dest[0 := random1 XOR random2 XOR random3 XOR src ! 0,
              1 := ascon_mask64_rotate_share1_0 False random1 XOR src ! 1,
              2 := ascon_mask64_rotate_share2_0 False random2,
              3 := ascon_mask64_rotate_share3_0 False random3]))"

definition mw64_x4_from_x3 ::
  "'t rng \<Rightarrow> u64 list \<Rightarrow> u64 list \<Rightarrow> 't \<Rightarrow> 't \<times> u64 list" where
  "mw64_x4_from_x3 R dest src t =
     (let (t, random1) = next_64 R t;
          (t, random2) = next_64 R t;
          (t, random3) = next_64 R t
      in (t, dest[0 := random1 XOR random2 XOR random3 XOR src ! 0,
              1 := ascon_mask64_rotate_share1_0 False random1 XOR src ! 1,
              2 := ascon_mask64_rotate_share2_0 False random2 XOR src ! 2,
              3 := ascon_mask64_rotate_share3_0 False random3]))"

subsection \<open>Any number of shares\<close>

definition mw64_pad :: "u64 list \<Rightarrow> nat \<Rightarrow> u64 list" where
  "mw64_pad word offset = word[0 := word ! 0 XOR drop_bit (offset * 8) 0x8000000000000000]"

definition mw64_separator :: "u64 list \<Rightarrow> u64 list" where
  "mw64_separator word = word[0 := word ! 0 XOR 1]"

definition mw64 :: "'t rng \<Rightarrow> nat \<Rightarrow> (u64 list, 't) masked_ops" where
  "mw64 R k =
     (if k = 2 then
        \<lparr> mw_zero = mw64_x2_zero R, mw_load = mw64_x2_load R, mw_load_partial = mw64_x2_load_partial R,
          mw_load_32 = mw64_x2_load_32 R, mw_store = mw64_x2_store, mw_store_partial = mw64_x2_store_partial,
          mw_randomize = mw64_x2_randomize R, mw_xor = mw64_x2_xor, mw_replace = mw64_x2_replace,
          mw_permute = ascon_x2_permute_c64 \<rparr>
      else if k = 3 then
        \<lparr> mw_zero = mw64_x3_zero R, mw_load = mw64_x3_load R, mw_load_partial = mw64_x3_load_partial R,
          mw_load_32 = mw64_x3_load_32 R, mw_store = mw64_x3_store, mw_store_partial = mw64_x3_store_partial,
          mw_randomize = mw64_x3_randomize R, mw_xor = mw64_x3_xor, mw_replace = mw64_x3_replace,
          mw_permute = ascon_x3_permute_c64 \<rparr>
      else
        \<lparr> mw_zero = mw64_x4_zero R, mw_load = mw64_x4_load R, mw_load_partial = mw64_x4_load_partial R,
          mw_load_32 = mw64_x4_load_32 R, mw_store = mw64_x4_store, mw_store_partial = mw64_x4_store_partial,
          mw_randomize = mw64_x4_randomize R, mw_xor = mw64_x4_xor, mw_replace = mw64_x4_replace,
          mw_permute = ascon_x4_permute_c64 \<rparr>
     )"

section \<open>The word the shares stand for\<close>

definition value64 :: "nat \<Rightarrow> u64 list \<Rightarrow> u64" where
  "value64 k w =
     w ! 0 XOR (ascon_mask64_unrotate_share1_0 False (w ! 1) XOR
       ((if 3 \<le> k then ascon_mask64_unrotate_share2_0 False (w ! 2) else 0) XOR
        (if 4 \<le> k then ascon_mask64_unrotate_share3_0 False (w ! 3) else 0)))"

definition rep64 :: "nat \<Rightarrow> nat \<Rightarrow> u64 list \<Rightarrow> u64 \<Rightarrow> bool" where
  "rep64 mx k w x \<longleftrightarrow> length w = mx \<and> k \<le> mx \<and> value64 k w = x"

lemmas mw64_x2_defs =
  mw64_x2_zero_def mw64_x2_load_def mw64_x2_load_partial_def mw64_x2_load_32_def
  mw64_x2_store_def mw64_x2_store_partial_def mw64_x2_randomize_def mw64_x2_xor_def mw64_x2_replace_def

lemmas mw64_x3_defs =
  mw64_x3_zero_def mw64_x3_load_def mw64_x3_load_partial_def mw64_x3_load_32_def
  mw64_x3_store_def mw64_x3_store_partial_def mw64_x3_randomize_def mw64_x3_xor_def mw64_x3_replace_def

lemmas mw64_x4_defs =
  mw64_x4_zero_def mw64_x4_load_def mw64_x4_load_partial_def mw64_x4_load_32_def
  mw64_x4_store_def mw64_x4_store_partial_def mw64_x4_randomize_def mw64_x4_xor_def mw64_x4_replace_def

lemma load_32_word:
  assumes "4 \<le> length a" "4 \<le> length b"
  shows "push_bit 32 (ucast (be_load_word32 a)) XOR ucast (be_load_word32 b) =
    be_load_word64 (take 4 a @ take 4 b)"
proof -
  have hi: "ucast (be_load_word32 (take 4 a @ take 4 b)) = (ucast (be_load_word32 a) :: u64)"
    "be_load_word32 (drop 4 (take 4 a @ take 4 b)) = be_load_word32 b"
    using assms by (simp_all add: be_load_word32_def nth_append)
  have "push_bit 32 (ucast (be_load_word32 a)) XOR (ucast (be_load_word32 b) :: u64) =
      push_bit 32 (ucast (be_load_word32 a)) OR ucast (be_load_word32 b)"
    by (rule bit_word_eqI) (auto simp: word_bit_simps bit_xor_iff bit_beyond)
  also have "\<dots> = be_load_word64 (take 4 a @ take 4 b)"
    using assms load_halves[of "take 4 a @ take 4 b"] word_of_halves[of "be_load_word64 (take 4 a @ take 4 b)"]
    by (simp flip: hi)
  finally show ?thesis .
qed

text \<open>\<open>mask1\<close> selects the bytes from \<open>size\<close> on, \<open>mask2\<close> those before.\<close>

lemma replace_word:
  assumes "n < 8"
  shows "(x AND drop_bit (n * 8) (NOT 0)) XOR (y AND NOT (drop_bit (n * 8) (NOT 0))) =
    be_load_word64 (take n (be_store_word64 y) @ drop n (be_store_word64 x))"
proof (rule bit_word_eqI)
  fix i assume "i < LENGTH(64)"
  then have i: "i < 64" by simp
  then have j: "7 - i div 8 < 8" "56 + i mod 8 - 8 * (7 - i div 8) = i" by (simp_all add: be_position)
  have "i + n * 8 < 64 \<longleftrightarrow> \<not> 7 - i div 8 < n" using i assms by linarith
  moreover have "bit (drop_bit (n * 8) (NOT (0 :: u64))) i \<longleftrightarrow> i + n * 8 < 64"
    by (auto simp: bit_mask_iff)
  ultimately show "bit ((x AND drop_bit (n * 8) (NOT 0)) XOR (y AND NOT (drop_bit (n * 8) (NOT 0)))) i =
      bit (be_load_word64 (take n (be_store_word64 y) @ drop n (be_store_word64 x))) i"
    using i j assms
    by (simp add: bit_be_load_word64 bit_xor_iff bit_and_iff bit_not_iff nth_append nth_be_store_word64
        bit_store_byte min_def)
qed

lemma share_present: "2 \<le> length w \<Longrightarrow> w \<noteq> []" "3 \<le> length w \<Longrightarrow> w \<noteq> []" "4 \<le> length w \<Longrightarrow> w \<noteq> []"
  by auto

lemma or_masked: "(a AND m) OR (b AND NOT m) = (a AND m) XOR (b AND NOT (m :: 'a::len word))"
  by (rule bit_word_eqI) (auto simp: bit_or_iff bit_xor_iff bit_and_iff bit_not_iff)

lemma value64_x2: "value64 2 w = w ! 0 XOR ascon_mask64_unrotate_share1_0 False (w ! 1)"
  by (simp add: value64_def)

lemma ascon_x2_permute_c64_rep:
  assumes "list_all2 (rep64 mx 2) ws xs" "length xs = 5" "2 \<le> Suc (length p)"
  shows "list_all2 (rep64 mx 2) (fst (ascon_x2_permute_c64 ws r p)) (ascon_permute_c64 xs r) \<and>
    length (snd (ascon_x2_permute_c64 ws r p)) = length p"
proof -
  from assms obtain w0 w1 w2 w3 w4 where ws: "ws = [w0, w1, w2, w3, w4]"
    by (metis list_all2_lengthD list5_cases)
  have len: "length w0 = mx" "length w1 = mx" "length w2 = mx" "length w3 = mx" "length w4 = mx"
    "2 \<le> mx"
    using assms(1) by (auto simp: ws rep64_def list_all2_Cons1)
  have xs: "xs = [value64 2 w0, value64 2 w1, value64 2 w2, value64 2 w3, value64 2 w4]"
    using assms(1) by (auto simp: ws rep64_def list_all2_Cons1)
  let ?a = "share_regs ws 0"
  obtain a' b' t_a' where
    r: "masked_rounds (x2_round False) r
        (compl_x2 ?a, share_regs ws 1, p ! 0) =
      (a', b', t_a')" by (metis prod.exhaust)
  obtain y0_a y1_a y2_a y3_a y4_a y0_b y1_b y2_b y3_b y4_b where
    y: "compl_x2 a' = (y0_a, y1_a, y2_a, y3_a, y4_a)"
      "b' = (y0_b, y1_b, y2_b, y3_b, y4_b)"
    by (metis prod.exhaust)
  have "c64_permute (value64 2 w0, value64 2 w1, value64 2 w2, value64 2 w3, value64 2 w4) r =
      unmask2 False (y0_a, y1_a, y2_a, y3_a, y4_a) (y0_b, y1_b, y2_b, y3_b, y4_b)"
    using x2_rounds_unmask[OF r]
    by (simp add: y share_regs_def ws unmask2_def xor_regs_def map_regs_def value64_x2 xor.assoc)
  moreover have "ascon_x2_permute_c64 ws r p =
      (put_share (put_share ws 0 (compl_x2 a')) 1 b', p[0 := t_a'])"
    unfolding ascon_x2_permute_c64_def Let_def r prod.case ..
  ultimately show ?thesis
    using len
    by (simp add: xs y ascon_permute_c64_def put_share_def ws rep64_def value64_x2 unmask2_def
        xor_regs_def map_regs_def xor.assoc)
qed

lemma mw64_x2_replace_rep:
  assumes "rep64 mx 2 w x" "rep64 mx 2 v y" "n < 8"
  shows "rep64 mx 2 (mw64_x2_replace w v n)
    (be_load_word64 (take n (be_store_word64 y) @ drop n (be_store_word64 x)))"
proof -
  have "value64 2 (w[0 := (w ! 0 AND m) OR (v ! 0 AND NOT m),
        1 := (w ! 1 AND ascon_mask64_rotate_share1_0 False m) OR (v ! 1 AND ascon_mask64_rotate_share1_0 False (NOT m))]) =
      (x AND m) XOR (y AND NOT m)" for m
    using assms(1,2)
    by (auto simp: rep64_def value64_x2 or_masked mask64_bitwise) (simp add: bit.conj_xor_distrib bit.conj_xor_distrib2 ac_simps)
  from this[of "drop_bit (n * 8) (NOT 0)"] show ?thesis
    using assms(1) unfolding rep64_def mw64_x2_replace_def Let_def replace_word[OF assms(3)]
    by (simp only: length_list_update)
qed

lemma mw64_x2_laws: "masked_word (mw64 R 2) (rep64 mx 2) (\<lambda>w. length w = mx \<and> 2 \<le> mx) 2"
proof unfold_locales
  show "list_all2 (rep64 mx 2) (fst (mw_permute (mw64 R 2) ws r p)) (ascon_permute_c64 xs r) \<and>
      length (snd (mw_permute (mw64 R 2) ws r p)) = length p"
    if "list_all2 (rep64 mx 2) ws xs" "length xs = 5" "2 \<le> Suc (length p)" for ws xs r p
    using ascon_x2_permute_c64_rep[OF that] by (simp add: mw64_def)
qed (auto simp: mw64_def mw64_x2_replace_rep, auto simp: share_present mw64_x2_defs rep64_def value64_x2
    Let_def mask64_bitwise partial_rotations_eq partial_output_eq xor_list_def
    load_32_word[symmetric] mask64_rotr ac_simps split: prod.splits)

lemma value64_x3: "value64 3 w = w ! 0 XOR ascon_mask64_unrotate_share1_0 False (w ! 1) XOR ascon_mask64_unrotate_share2_0 False (w ! 2)"
  by (simp add: value64_def)

lemma ascon_x3_permute_c64_rep:
  assumes "list_all2 (rep64 mx 3) ws xs" "length xs = 5" "3 \<le> Suc (length p)"
  shows "list_all2 (rep64 mx 3) (fst (ascon_x3_permute_c64 ws r p)) (ascon_permute_c64 xs r) \<and>
    length (snd (ascon_x3_permute_c64 ws r p)) = length p"
proof -
  from assms obtain w0 w1 w2 w3 w4 where ws: "ws = [w0, w1, w2, w3, w4]"
    by (metis list_all2_lengthD list5_cases)
  have len: "length w0 = mx" "length w1 = mx" "length w2 = mx" "length w3 = mx" "length w4 = mx"
    "3 \<le> mx"
    using assms(1) by (auto simp: ws rep64_def list_all2_Cons1)
  have xs: "xs = [value64 3 w0, value64 3 w1, value64 3 w2, value64 3 w3, value64 3 w4]"
    using assms(1) by (auto simp: ws rep64_def list_all2_Cons1)
  let ?a = "share_regs ws 0"
  obtain a' b' c' t_a' t_b' where
    r: "masked_rounds (x3_round False) r
        (compl_x2 ?a, share_regs ws 1, share_regs ws 2, p ! 0, p ! 1) =
      (a', b', c', t_a', t_b')" by (metis prod.exhaust)
  obtain y0_a y1_a y2_a y3_a y4_a y0_b y1_b y2_b y3_b y4_b y0_c y1_c y2_c y3_c y4_c where
    y: "compl_x2 a' = (y0_a, y1_a, y2_a, y3_a, y4_a)"
      "b' = (y0_b, y1_b, y2_b, y3_b, y4_b)"
      "c' = (y0_c, y1_c, y2_c, y3_c, y4_c)"
    by (metis prod.exhaust)
  have "c64_permute (value64 3 w0, value64 3 w1, value64 3 w2, value64 3 w3, value64 3 w4) r =
      unmask3 False (y0_a, y1_a, y2_a, y3_a, y4_a) (y0_b, y1_b, y2_b, y3_b, y4_b) (y0_c, y1_c, y2_c, y3_c, y4_c)"
    using x3_rounds_unmask[OF r]
    by (simp add: y share_regs_def ws unmask3_def xor_regs_def map_regs_def value64_x3 xor.assoc)
  moreover have "ascon_x3_permute_c64 ws r p =
      (put_share (put_share (put_share ws 0 (compl_x2 a')) 1 b') 2 c', p[0 := t_a', 1 := t_b'])"
    unfolding ascon_x3_permute_c64_def Let_def r prod.case ..
  ultimately show ?thesis
    using len
    by (simp add: xs y ascon_permute_c64_def put_share_def ws rep64_def value64_x3 unmask3_def
        xor_regs_def map_regs_def xor.assoc)
qed

lemma mw64_x3_replace_rep:
  assumes "rep64 mx 3 w x" "rep64 mx 3 v y" "n < 8"
  shows "rep64 mx 3 (mw64_x3_replace w v n)
    (be_load_word64 (take n (be_store_word64 y) @ drop n (be_store_word64 x)))"
proof -
  have "value64 3 (w[0 := (w ! 0 AND m) OR (v ! 0 AND NOT m),
        1 := (w ! 1 AND ascon_mask64_rotate_share1_0 False m) OR (v ! 1 AND ascon_mask64_rotate_share1_0 False (NOT m)),
        2 := (w ! 2 AND ascon_mask64_rotate_share2_0 False m) OR (v ! 2 AND ascon_mask64_rotate_share2_0 False (NOT m))]) =
      (x AND m) XOR (y AND NOT m)" for m
    using assms(1,2)
    by (auto simp: rep64_def value64_x3 or_masked mask64_bitwise) (simp add: bit.conj_xor_distrib bit.conj_xor_distrib2 ac_simps)
  from this[of "drop_bit (n * 8) (NOT 0)"] show ?thesis
    using assms(1) unfolding rep64_def mw64_x3_replace_def Let_def replace_word[OF assms(3)]
    by (simp only: length_list_update)
qed

lemma mw64_x3_laws: "masked_word (mw64 R 3) (rep64 mx 3) (\<lambda>w. length w = mx \<and> 3 \<le> mx) 3"
proof unfold_locales
  show "list_all2 (rep64 mx 3) (fst (mw_permute (mw64 R 3) ws r p)) (ascon_permute_c64 xs r) \<and>
      length (snd (mw_permute (mw64 R 3) ws r p)) = length p"
    if "list_all2 (rep64 mx 3) ws xs" "length xs = 5" "3 \<le> Suc (length p)" for ws xs r p
    using ascon_x3_permute_c64_rep[OF that] by (simp add: mw64_def)
qed (auto simp: mw64_def mw64_x3_replace_rep, auto simp: share_present mw64_x3_defs rep64_def value64_x3
    Let_def mask64_bitwise partial_rotations_eq partial_output_eq xor_list_def
    load_32_word[symmetric] mask64_rotr ac_simps split: prod.splits)

lemma value64_x4: "value64 4 w = w ! 0 XOR ascon_mask64_unrotate_share1_0 False (w ! 1) XOR ascon_mask64_unrotate_share2_0 False (w ! 2) XOR ascon_mask64_unrotate_share3_0 False (w ! 3)"
  by (simp add: value64_def)

lemma ascon_x4_permute_c64_rep:
  assumes "list_all2 (rep64 mx 4) ws xs" "length xs = 5" "4 \<le> Suc (length p)"
  shows "list_all2 (rep64 mx 4) (fst (ascon_x4_permute_c64 ws r p)) (ascon_permute_c64 xs r) \<and>
    length (snd (ascon_x4_permute_c64 ws r p)) = length p"
proof -
  from assms obtain w0 w1 w2 w3 w4 where ws: "ws = [w0, w1, w2, w3, w4]"
    by (metis list_all2_lengthD list5_cases)
  have len: "length w0 = mx" "length w1 = mx" "length w2 = mx" "length w3 = mx" "length w4 = mx"
    "4 \<le> mx"
    using assms(1) by (auto simp: ws rep64_def list_all2_Cons1)
  have xs: "xs = [value64 4 w0, value64 4 w1, value64 4 w2, value64 4 w3, value64 4 w4]"
    using assms(1) by (auto simp: ws rep64_def list_all2_Cons1)
  let ?a = "share_regs ws 0"
  obtain a' b' c' d' t_a' t_b' t_c' where
    r: "masked_rounds (x4_round False) r
        (compl_x2 ?a, share_regs ws 1, share_regs ws 2, share_regs ws 3, p ! 0, p ! 1, p ! 2) =
      (a', b', c', d', t_a', t_b', t_c')" by (metis prod.exhaust)
  obtain y0_a y1_a y2_a y3_a y4_a y0_b y1_b y2_b y3_b y4_b y0_c y1_c y2_c y3_c y4_c y0_d y1_d y2_d y3_d y4_d where
    y: "compl_x2 a' = (y0_a, y1_a, y2_a, y3_a, y4_a)"
      "b' = (y0_b, y1_b, y2_b, y3_b, y4_b)"
      "c' = (y0_c, y1_c, y2_c, y3_c, y4_c)"
      "d' = (y0_d, y1_d, y2_d, y3_d, y4_d)"
    by (metis prod.exhaust)
  have "c64_permute (value64 4 w0, value64 4 w1, value64 4 w2, value64 4 w3, value64 4 w4) r =
      unmask4 False (y0_a, y1_a, y2_a, y3_a, y4_a) (y0_b, y1_b, y2_b, y3_b, y4_b) (y0_c, y1_c, y2_c, y3_c, y4_c) (y0_d, y1_d, y2_d, y3_d, y4_d)"
    using x4_rounds_unmask[OF r]
    by (simp add: y share_regs_def ws unmask4_def xor_regs_def map_regs_def value64_x4 xor.assoc)
  moreover have "ascon_x4_permute_c64 ws r p =
      (put_share (put_share (put_share (put_share ws 0 (compl_x2 a')) 1 b') 2 c') 3 d', p[0 := t_a', 1 := t_b', 2 := t_c'])"
    unfolding ascon_x4_permute_c64_def Let_def r prod.case ..
  ultimately show ?thesis
    using len
    by (simp add: xs y ascon_permute_c64_def put_share_def ws rep64_def value64_x4 unmask4_def
        xor_regs_def map_regs_def xor.assoc)
qed

lemma mw64_x4_replace_rep:
  assumes "rep64 mx 4 w x" "rep64 mx 4 v y" "n < 8"
  shows "rep64 mx 4 (mw64_x4_replace w v n)
    (be_load_word64 (take n (be_store_word64 y) @ drop n (be_store_word64 x)))"
proof -
  have "value64 4 (w[0 := (w ! 0 AND m) OR (v ! 0 AND NOT m),
        1 := (w ! 1 AND ascon_mask64_rotate_share1_0 False m) OR (v ! 1 AND ascon_mask64_rotate_share1_0 False (NOT m)),
        2 := (w ! 2 AND ascon_mask64_rotate_share2_0 False m) OR (v ! 2 AND ascon_mask64_rotate_share2_0 False (NOT m)),
        3 := (w ! 3 AND ascon_mask64_rotate_share3_0 False m) OR (v ! 3 AND ascon_mask64_rotate_share3_0 False (NOT m))]) =
      (x AND m) XOR (y AND NOT m)" for m
    using assms(1,2)
    by (auto simp: rep64_def value64_x4 or_masked mask64_bitwise) (simp add: bit.conj_xor_distrib bit.conj_xor_distrib2 ac_simps)
  from this[of "drop_bit (n * 8) (NOT 0)"] show ?thesis
    using assms(1) unfolding rep64_def mw64_x4_replace_def Let_def replace_word[OF assms(3)]
    by (simp only: length_list_update)
qed

lemma mw64_x4_laws: "masked_word (mw64 R 4) (rep64 mx 4) (\<lambda>w. length w = mx \<and> 4 \<le> mx) 4"
proof unfold_locales
  show "list_all2 (rep64 mx 4) (fst (mw_permute (mw64 R 4) ws r p)) (ascon_permute_c64 xs r) \<and>
      length (snd (mw_permute (mw64 R 4) ws r p)) = length p"
    if "list_all2 (rep64 mx 4) ws xs" "length xs = 5" "4 \<le> Suc (length p)" for ws xs r p
    using ascon_x4_permute_c64_rep[OF that] by (simp add: mw64_def)
qed (auto simp: mw64_def mw64_x4_replace_rep, auto simp: share_present mw64_x4_defs rep64_def value64_x4
    Let_def mask64_bitwise partial_rotations_eq partial_output_eq xor_list_def
    load_32_word[symmetric] mask64_rotr ac_simps split: prod.splits)

end
