(* ===== verification/Masked_Perm32.thy ===== *)
theory Masked_Perm32
  imports Masked_Perm64
begin

text \<open>
  \<open>masking/ascon-x2-c32.c\<close>, \<open>ascon-x3-c32.c\<close> and \<open>ascon-x4-c32.c\<close>: the permutation on masked states in
  bit-sliced 32-bit words.  Each share has five registers of even bits and five of odd bits; the
  substitution layer works on the even registers of all shares, then on the odd ones, and the
  linear layer mixes the two halves of each share.  The shares of the result stand for what the
  32-bit permutation of theory \<open>Ascon_C32\<close> does to the words the arguments stand for.
\<close>

section \<open>The code\<close>

type_synonym regs_half = "u32 \<times> u32 \<times> u32 \<times> u32 \<times> u32"

definition sbox_start32 :: "regs_half \<Rightarrow> regs_half" where
  "sbox_start32 x = (case x of (x0, x1, x2, x3, x4) \<Rightarrow>
     let x0 = x0 XOR x4; x4 = x4 XOR x3; x2 = x2 XOR x1 in (x0, x1, x2, x3, x4))"

definition sbox_end32 :: "regs_half \<Rightarrow> regs_half" where
  "sbox_end32 x = (case x of (x0, x1, x2, x3, x4) \<Rightarrow>
     let x1 = x1 XOR x0; x0 = x0 XOR x4; x3 = x3 XOR x2 in (x0, x1, x2, x3, x4))"

definition add_constant32 :: "u32 \<Rightarrow> regs_half \<Rightarrow> regs_half" where
  "add_constant32 rc x = (case x of (x0, x1, x2, x3, x4) \<Rightarrow> (x0, x1, x2 XOR rc, x3, x4))"

definition invert_x2 :: "regs_half \<Rightarrow> regs_half" where
  "invert_x2 x = (case x of (x0, x1, x2, x3, x4) \<Rightarrow> (x0, x1, NOT x2, x3, x4))"

text \<open>The macro \<open>linear\<close>, on the even and the odd registers of a share.\<close>

definition linear32 :: "regs_half \<Rightarrow> regs_half \<Rightarrow> regs_half \<times> regs_half" where
  "linear32 e o' = (case (e, o') of ((x0_e, x1_e, x2_e, x3_e, x4_e), (x0_o, x1_o, x2_o, x3_o, x4_o)) \<Rightarrow>
     let t0 = x0_e XOR rightRotate x0_o 4; t1 = x0_o XOR rightRotate x0_e 5;
         t2 = x1_e XOR rightRotate x1_e 11; t3 = x1_o XOR rightRotate x1_o 11;
         t4 = x2_e XOR rightRotate x2_o 2; t5 = x2_o XOR rightRotate x2_e 3;
         t6 = x3_e XOR rightRotate x3_o 3; t7 = x3_o XOR rightRotate x3_e 4;
         t8 = x4_e XOR rightRotate x4_e 17; t9 = x4_o XOR rightRotate x4_o 17;
         x0_e = x0_e XOR rightRotate t1 9; x0_o = x0_o XOR rightRotate t0 10;
         x1_e = x1_e XOR rightRotate t3 19; x1_o = x1_o XOR rightRotate t2 20;
         x2_e = x2_e XOR t5; x2_o = x2_o XOR rightRotate t4 1;
         x3_e = x3_e XOR rightRotate t6 5; x3_o = x3_o XOR rightRotate t7 5;
         x4_e = x4_e XOR rightRotate t9 3; x4_o = x4_o XOR rightRotate t8 4
     in ((x0_e, x1_e, x2_e, x3_e, x4_e), (x0_o, x1_o, x2_o, x3_o, x4_o)))"

text \<open>\<open>while (first_round++ < 12)\<close> with \<open>rc\<close> running through the pairs of constants.\<close>

function masked_rounds32 :: "(u32 \<Rightarrow> u32 \<Rightarrow> 's \<Rightarrow> 's) \<Rightarrow> u8 \<Rightarrow> 's \<Rightarrow> 's" where
  "masked_rounds32 f first_round s =
     (if first_round < 12
      then masked_rounds32 f (first_round + 1)
             (f (RC32 ! (unat first_round * 2)) (RC32 ! (unat first_round * 2 + 1)) s)
      else s)"
  by pat_completeness auto
termination
  by (relation "measure (\<lambda>(f, r, s). 12 - unat r)") (auto simp: first_round_step word_less_nat_alt)

declare masked_rounds32.simps [simp del]

text \<open>Half \<open>i\<close> of a masked state: word \<open>W[i]\<close> of each of the five masked words, where \<open>i\<close> is twice
  the share for the even bits and one more for the odd bits.\<close>

definition half_regs :: "u32 list list \<Rightarrow> nat \<Rightarrow> regs_half" where
  "half_regs M i = (M ! 0 ! i, M ! 1 ! i, M ! 2 ! i, M ! 3 ! i, M ! 4 ! i)"

definition put_half :: "u32 list list \<Rightarrow> nat \<Rightarrow> regs_half \<Rightarrow> u32 list list" where
  "put_half M i x = (case x of (x0, x1, x2, x3, x4) \<Rightarrow>
     [(M ! 0)[i := x0], (M ! 1)[i := x1], (M ! 2)[i := x2], (M ! 3)[i := x3], (M ! 4)[i := x4]])"

text \<open>The 64-bit array \<open>preserve\<close> read and written through a pointer to 32-bit words, on a host
  whose byte order is \<open>le\<close>.\<close>

definition preserve_word :: "bool \<Rightarrow> u64 list \<Rightarrow> nat \<Rightarrow> u32" where
  "preserve_word le p i =
     (if (i mod 2 = 0) = le then ucast (p ! (i div 2)) else ucast (drop_bit 32 (p ! (i div 2))))"

definition preserve_pair :: "bool \<Rightarrow> u32 \<Rightarrow> u32 \<Rightarrow> u64" where
  "preserve_pair le w0 w1 =
     (if le then push_bit 32 (ucast w1) OR ucast w0 else push_bit 32 (ucast w0) OR ucast w1)"

subsection \<open>Two shares\<close>

definition x2_and_not_xor32 ::
  "u32 \<times> u32 \<Rightarrow> u32 \<times> u32 \<Rightarrow> u32 \<times> u32 \<Rightarrow> u32 \<times> u32" where
  "x2_and_not_xor32 x y z = (case (x, y, z) of ((x_a, x_b), (y_a, y_b), (z_a, z_b)) \<Rightarrow>
     let x_a = x_a XOR ((NOT y_a) AND (ascon_mask32_unrotate_share1_0 z_b));
         x_a = x_a XOR ((NOT y_a) AND z_a);
         x_b = x_b XOR (y_b AND z_b);
         x_b = x_b XOR (y_b AND (ascon_mask32_rotate_share1_0 z_a))
     in (x_a, x_b))"

definition x2_sbox32 ::
  "regs_half \<Rightarrow> regs_half \<Rightarrow> u32 \<Rightarrow> regs_half \<times> regs_half \<times> u32" where
  "x2_sbox32 a b t0_a =
     (case (sbox_start32 a, sbox_start32 b) of
       ((x0_a, x1_a, x2_a, x3_a, x4_a),
        (x0_b, x1_b, x2_b, x3_b, x4_b)) \<Rightarrow>
     let t1_a = x0_a;
         t1_b = x0_b;
         t0_b = ascon_mask32_rotate_share1_0 t0_a;
         (t0_a, t0_b) = x2_and_not_xor32 (t0_a, t0_b) (x0_a, x0_b) (x1_a, x1_b);
         (x0_a, x0_b) = x2_and_not_xor32 (x0_a, x0_b) (x1_a, x1_b) (x2_a, x2_b);
         (x1_a, x1_b) = x2_and_not_xor32 (x1_a, x1_b) (x2_a, x2_b) (x3_a, x3_b);
         (x2_a, x2_b) = x2_and_not_xor32 (x2_a, x2_b) (x3_a, x3_b) (x4_a, x4_b);
         (x3_a, x3_b) = x2_and_not_xor32 (x3_a, x3_b) (x4_a, x4_b) (t1_a, t1_b);
         x4_a = x4_a XOR t0_a;
         x4_b = x4_b XOR t0_b
     in (sbox_end32 (x0_a, x1_a, x2_a, x3_a, x4_a), sbox_end32 (x0_b, x1_b, x2_b, x3_b, x4_b),
         t0_a))"

definition x2_round32 ::
  "u32 \<Rightarrow> u32 \<Rightarrow> regs_half \<times> regs_half \<times> regs_half \<times> regs_half \<times> u32 \<times> u32 \<Rightarrow>
     regs_half \<times> regs_half \<times> regs_half \<times> regs_half \<times> u32 \<times> u32" where
  "x2_round32 rc0 rc1 s = (case s of (ae, be, ao, bo, t0_ae, t0_ao) \<Rightarrow>
     let ae = add_constant32 rc0 ae;
         (ae, be, t0_ae) = x2_sbox32 ae be t0_ae;
         ao = add_constant32 rc1 ao;
         (ao, bo, t0_ao) = x2_sbox32 ao bo t0_ao;
         (be, bo) = linear32 be bo;
         (ae, ao) = linear32 ae ao;
         t0_ae = rightRotate t0_ae 7; t0_ao = rightRotate t0_ao 7
     in (ae, be, ao, bo, t0_ae, t0_ao))"

definition ascon_x2_permute_c32 ::
  "bool \<Rightarrow> u32 list list \<Rightarrow> u8 \<Rightarrow> u64 list \<Rightarrow> u32 list list \<times> u64 list" where
  "ascon_x2_permute_c32 le M first_round preserve =
     (let t0_ae = preserve_word le preserve 0; t0_ao = preserve_word le preserve 1;
         ae = half_regs M 0; ao = half_regs M 1;
         be = half_regs M 2; bo = half_regs M 3;
         ae = invert_x2 ae; ao = invert_x2 ao;
         (ae, be, ao, bo, t0_ae, t0_ao) =
           masked_rounds32 x2_round32 first_round
             (ae, be, ao, bo, t0_ae, t0_ao);
         preserve = preserve[0 := preserve_pair le t0_ae t0_ao];
         ae = invert_x2 ae; ao = invert_x2 ao;
         M = put_half M 0 ae; M = put_half M 1 ao;
         M = put_half M 2 be; M = put_half M 3 bo
     in (M, preserve))"

subsection \<open>Three shares\<close>

definition x3_and_not_xor32 ::
  "u32 \<times> u32 \<times> u32 \<Rightarrow> u32 \<times> u32 \<times> u32 \<Rightarrow> u32 \<times> u32 \<times> u32 \<Rightarrow> u32 \<times> u32 \<times> u32" where
  "x3_and_not_xor32 x y z = (case (x, y, z) of ((x_a, x_b, x_c), (y_a, y_b, y_c), (z_a, z_b, z_c)) \<Rightarrow>
     let x_a = x_a XOR (NOT y_a AND z_a);
         x_a = x_a XOR (y_a AND (ascon_mask32_unrotate_share1_0 z_b));
         x_a = x_a XOR (y_a AND (ascon_mask32_unrotate_share2_0 z_c));
         x_b = x_b XOR (y_b AND (ascon_mask32_rotate_share1_0 z_a));
         x_b = x_b XOR ((NOT y_b) AND z_b);
         x_b = x_b XOR (y_b AND (ascon_mask32_unrotate_share2_1 z_c));
         x_c = x_c XOR (y_c AND (ascon_mask32_rotate_share2_0 (NOT z_a)));
         x_c = x_c XOR (y_c AND (ascon_mask32_rotate_share2_1 z_b));
         x_c = x_c XOR (y_c OR z_c)
     in (x_a, x_b, x_c))"

definition x3_sbox32 ::
  "regs_half \<Rightarrow> regs_half \<Rightarrow> regs_half \<Rightarrow> u32 \<Rightarrow> u32 \<Rightarrow> regs_half \<times> regs_half \<times> regs_half \<times> u32 \<times> u32" where
  "x3_sbox32 a b c t0_a t0_b =
     (case (sbox_start32 a, sbox_start32 b, sbox_start32 c) of
       ((x0_a, x1_a, x2_a, x3_a, x4_a),
        (x0_b, x1_b, x2_b, x3_b, x4_b),
        (x0_c, x1_c, x2_c, x3_c, x4_c)) \<Rightarrow>
     let t1_a = x0_a;
         t1_b = x0_b;
         t1_c = x0_c;
         t0_c = ascon_mask32_rotate_share2_0 t0_a XOR ascon_mask32_rotate_share2_1 t0_b;
         (t0_a, t0_b, t0_c) = x3_and_not_xor32 (t0_a, t0_b, t0_c) (x0_a, x0_b, x0_c) (x1_a, x1_b, x1_c);
         (x0_a, x0_b, x0_c) = x3_and_not_xor32 (x0_a, x0_b, x0_c) (x1_a, x1_b, x1_c) (x2_a, x2_b, x2_c);
         (x1_a, x1_b, x1_c) = x3_and_not_xor32 (x1_a, x1_b, x1_c) (x2_a, x2_b, x2_c) (x3_a, x3_b, x3_c);
         (x2_a, x2_b, x2_c) = x3_and_not_xor32 (x2_a, x2_b, x2_c) (x3_a, x3_b, x3_c) (x4_a, x4_b, x4_c);
         (x3_a, x3_b, x3_c) = x3_and_not_xor32 (x3_a, x3_b, x3_c) (x4_a, x4_b, x4_c) (t1_a, t1_b, t1_c);
         x4_a = x4_a XOR t0_a;
         x4_b = x4_b XOR t0_b;
         x4_c = x4_c XOR t0_c
     in (sbox_end32 (x0_a, x1_a, x2_a, x3_a, x4_a), sbox_end32 (x0_b, x1_b, x2_b, x3_b, x4_b), sbox_end32 (x0_c, x1_c, x2_c, x3_c, x4_c),
         t0_a, t0_b))"

definition x3_round32 ::
  "u32 \<Rightarrow> u32 \<Rightarrow> regs_half \<times> regs_half \<times> regs_half \<times> regs_half \<times> regs_half \<times> regs_half \<times> u32 \<times> u32 \<times> u32 \<times> u32 \<Rightarrow>
     regs_half \<times> regs_half \<times> regs_half \<times> regs_half \<times> regs_half \<times> regs_half \<times> u32 \<times> u32 \<times> u32 \<times> u32" where
  "x3_round32 rc0 rc1 s = (case s of (ae, be, ce, ao, bo, co, t0_ae, t0_be, t0_ao, t0_bo) \<Rightarrow>
     let ae = add_constant32 rc0 ae;
         (ae, be, ce, t0_ae, t0_be) = x3_sbox32 ae be ce t0_ae t0_be;
         ao = add_constant32 rc1 ao;
         (ao, bo, co, t0_ao, t0_bo) = x3_sbox32 ao bo co t0_ao t0_bo;
         (ce, co) = linear32 ce co;
         (be, bo) = linear32 be bo;
         (ae, ao) = linear32 ae ao;
         t0_ae = rightRotate t0_ae 7; t0_ao = rightRotate t0_ao 7;
         t0_be = rightRotate t0_be 13; t0_bo = rightRotate t0_bo 13
     in (ae, be, ce, ao, bo, co, t0_ae, t0_be, t0_ao, t0_bo))"

definition ascon_x3_permute_c32 ::
  "bool \<Rightarrow> u32 list list \<Rightarrow> u8 \<Rightarrow> u64 list \<Rightarrow> u32 list list \<times> u64 list" where
  "ascon_x3_permute_c32 le M first_round preserve =
     (let t0_ae = preserve_word le preserve 0; t0_ao = preserve_word le preserve 1;
         t0_be = preserve_word le preserve 2; t0_bo = preserve_word le preserve 3;
         ae = half_regs M 0; ao = half_regs M 1;
         be = half_regs M 2; bo = half_regs M 3;
         ce = half_regs M 4; co = half_regs M 5;
         ae = invert_x2 ae; ao = invert_x2 ao;
         (ae, be, ce, ao, bo, co, t0_ae, t0_be, t0_ao, t0_bo) =
           masked_rounds32 x3_round32 first_round
             (ae, be, ce, ao, bo, co, t0_ae, t0_be, t0_ao, t0_bo);
         preserve = preserve[0 := preserve_pair le t0_ae t0_ao, 1 := preserve_pair le t0_be t0_bo];
         ae = invert_x2 ae; ao = invert_x2 ao;
         M = put_half M 0 ae; M = put_half M 1 ao;
         M = put_half M 2 be; M = put_half M 3 bo;
         M = put_half M 4 ce; M = put_half M 5 co
     in (M, preserve))"

subsection \<open>Four shares\<close>

definition x4_and_not_xor32 ::
  "u32 \<times> u32 \<times> u32 \<times> u32 \<Rightarrow> u32 \<times> u32 \<times> u32 \<times> u32 \<Rightarrow> u32 \<times> u32 \<times> u32 \<times> u32 \<Rightarrow> u32 \<times> u32 \<times> u32 \<times> u32" where
  "x4_and_not_xor32 x y z = (case (x, y, z) of ((x_a, x_b, x_c, x_d), (y_a, y_b, y_c, y_d), (z_a, z_b, z_c, z_d)) \<Rightarrow>
     let x_a = x_a XOR (NOT y_a AND z_a);
         x_a = x_a XOR ((ascon_mask32_unrotate_share1_0 y_b) AND z_a);
         x_a = x_a XOR ((ascon_mask32_unrotate_share2_0 y_c) AND z_a);
         x_a = x_a XOR ((ascon_mask32_unrotate_share3_0 y_d) AND z_a);
         x_b = x_b XOR ((ascon_mask32_rotate_share1_0 (NOT y_a)) AND z_b);
         x_b = x_b XOR (y_b AND z_b);
         x_b = x_b XOR ((ascon_mask32_unrotate_share2_1 y_c) AND z_b);
         x_b = x_b XOR ((ascon_mask32_unrotate_share3_1 y_d) AND z_b);
         x_c = x_c XOR ((ascon_mask32_rotate_share2_0 (NOT y_a)) AND z_c);
         x_c = x_c XOR ((ascon_mask32_rotate_share2_1 y_b) AND z_c);
         x_c = x_c XOR (y_c AND z_c);
         x_c = x_c XOR ((ascon_mask32_unrotate_share3_2 y_d) AND z_c);
         x_d = x_d XOR ((ascon_mask32_rotate_share3_0 (NOT y_a)) AND z_d);
         x_d = x_d XOR ((ascon_mask32_rotate_share3_1 y_b) AND z_d);
         x_d = x_d XOR ((ascon_mask32_rotate_share3_2 y_c) AND z_d);
         x_d = x_d XOR (y_d AND z_d)
     in (x_a, x_b, x_c, x_d))"

definition x4_sbox32 ::
  "regs_half \<Rightarrow> regs_half \<Rightarrow> regs_half \<Rightarrow> regs_half \<Rightarrow> u32 \<Rightarrow> u32 \<Rightarrow> u32 \<Rightarrow> regs_half \<times> regs_half \<times> regs_half \<times> regs_half \<times> u32 \<times> u32 \<times> u32" where
  "x4_sbox32 a b c d t0_a t0_b t0_c =
     (case (sbox_start32 a, sbox_start32 b, sbox_start32 c, sbox_start32 d) of
       ((x0_a, x1_a, x2_a, x3_a, x4_a),
        (x0_b, x1_b, x2_b, x3_b, x4_b),
        (x0_c, x1_c, x2_c, x3_c, x4_c),
        (x0_d, x1_d, x2_d, x3_d, x4_d)) \<Rightarrow>
     let t1_a = x0_a;
         t1_b = x0_b;
         t1_c = x0_c;
         t1_d = x0_d;
         t0_d = ascon_mask32_rotate_share3_0 t0_a XOR ascon_mask32_rotate_share3_1 t0_b XOR ascon_mask32_rotate_share3_2 t0_c;
         (t0_a, t0_b, t0_c, t0_d) = x4_and_not_xor32 (t0_a, t0_b, t0_c, t0_d) (x0_a, x0_b, x0_c, x0_d) (x1_a, x1_b, x1_c, x1_d);
         (x0_a, x0_b, x0_c, x0_d) = x4_and_not_xor32 (x0_a, x0_b, x0_c, x0_d) (x1_a, x1_b, x1_c, x1_d) (x2_a, x2_b, x2_c, x2_d);
         (x1_a, x1_b, x1_c, x1_d) = x4_and_not_xor32 (x1_a, x1_b, x1_c, x1_d) (x2_a, x2_b, x2_c, x2_d) (x3_a, x3_b, x3_c, x3_d);
         (x2_a, x2_b, x2_c, x2_d) = x4_and_not_xor32 (x2_a, x2_b, x2_c, x2_d) (x3_a, x3_b, x3_c, x3_d) (x4_a, x4_b, x4_c, x4_d);
         (x3_a, x3_b, x3_c, x3_d) = x4_and_not_xor32 (x3_a, x3_b, x3_c, x3_d) (x4_a, x4_b, x4_c, x4_d) (t1_a, t1_b, t1_c, t1_d);
         x4_a = x4_a XOR t0_a;
         x4_b = x4_b XOR t0_b;
         x4_c = x4_c XOR t0_c;
         x4_d = x4_d XOR t0_d
     in (sbox_end32 (x0_a, x1_a, x2_a, x3_a, x4_a), sbox_end32 (x0_b, x1_b, x2_b, x3_b, x4_b), sbox_end32 (x0_c, x1_c, x2_c, x3_c, x4_c), sbox_end32 (x0_d, x1_d, x2_d, x3_d, x4_d),
         t0_a, t0_b, t0_c))"

definition x4_round32 ::
  "u32 \<Rightarrow> u32 \<Rightarrow> regs_half \<times> regs_half \<times> regs_half \<times> regs_half \<times> regs_half \<times> regs_half \<times> regs_half \<times> regs_half \<times> u32 \<times> u32 \<times> u32 \<times> u32 \<times> u32 \<times> u32 \<Rightarrow>
     regs_half \<times> regs_half \<times> regs_half \<times> regs_half \<times> regs_half \<times> regs_half \<times> regs_half \<times> regs_half \<times> u32 \<times> u32 \<times> u32 \<times> u32 \<times> u32 \<times> u32" where
  "x4_round32 rc0 rc1 s = (case s of (ae, be, ce, de, ao, bo, co, do, t0_ae, t0_be, t0_ce, t0_ao, t0_bo, t0_co) \<Rightarrow>
     let ae = add_constant32 rc0 ae;
         (ae, be, ce, de, t0_ae, t0_be, t0_ce) = x4_sbox32 ae be ce de t0_ae t0_be t0_ce;
         ao = add_constant32 rc1 ao;
         (ao, bo, co, do, t0_ao, t0_bo, t0_co) = x4_sbox32 ao bo co do t0_ao t0_bo t0_co;
         (de, do) = linear32 de do;
         (ce, co) = linear32 ce co;
         (be, bo) = linear32 be bo;
         (ae, ao) = linear32 ae ao;
         t0_ae = rightRotate t0_ae 7; t0_ao = rightRotate t0_ao 7;
         t0_be = rightRotate t0_be 13; t0_bo = rightRotate t0_bo 13;
         t0_ce = rightRotate t0_ce 29; t0_co = rightRotate t0_co 29
     in (ae, be, ce, de, ao, bo, co, do, t0_ae, t0_be, t0_ce, t0_ao, t0_bo, t0_co))"

definition ascon_x4_permute_c32 ::
  "bool \<Rightarrow> u32 list list \<Rightarrow> u8 \<Rightarrow> u64 list \<Rightarrow> u32 list list \<times> u64 list" where
  "ascon_x4_permute_c32 le M first_round preserve =
     (let t0_ae = preserve_word le preserve 0; t0_ao = preserve_word le preserve 1;
         t0_be = preserve_word le preserve 2; t0_bo = preserve_word le preserve 3;
         t0_ce = preserve_word le preserve 4; t0_co = preserve_word le preserve 5;
         ae = half_regs M 0; ao = half_regs M 1;
         be = half_regs M 2; bo = half_regs M 3;
         ce = half_regs M 4; co = half_regs M 5;
         de = half_regs M 6; do = half_regs M 7;
         ae = invert_x2 ae; ao = invert_x2 ao;
         (ae, be, ce, de, ao, bo, co, do, t0_ae, t0_be, t0_ce, t0_ao, t0_bo, t0_co) =
           masked_rounds32 x4_round32 first_round
             (ae, be, ce, de, ao, bo, co, do, t0_ae, t0_be, t0_ce, t0_ao, t0_bo, t0_co);
         preserve = preserve[0 := preserve_pair le t0_ae t0_ao, 1 := preserve_pair le t0_be t0_bo, 2 := preserve_pair le t0_ce t0_co];
         ae = invert_x2 ae; ao = invert_x2 ao;
         M = put_half M 0 ae; M = put_half M 1 ao;
         M = put_half M 2 be; M = put_half M 3 bo;
         M = put_half M 4 ce; M = put_half M 5 co;
         M = put_half M 6 de; M = put_half M 7 do
     in (M, preserve))"

section \<open>What the shares stand for\<close>

lemma masked_rounds_c32:
  assumes "\<And>rc0 rc1 s. h (f rc0 rc1 s) = c32_round rc0 rc1 (h s)"
  shows "h (masked_rounds32 f r s) = c32_rounds r (h s)"
proof (induction r "h s" arbitrary: s rule: c32_rounds.induct)
  case (1 r)
  then show ?case
    by (simp add: masked_rounds32.simps[of f r] c32_rounds.simps[of r] assms)
qed

definition chi5_32 :: "regs_half \<Rightarrow> regs_half" where
  "chi5_32 x = (case x of (x0, x1, x2, x3, x4) \<Rightarrow>
     (x0 XOR (NOT x1 AND x2), x1 XOR (NOT x2 AND x3), x2 XOR (NOT x3 AND x4),
      x3 XOR (NOT x4 AND x0), x4 XOR (NOT x0 AND x1)))"

definition sbox32 :: "regs_half \<Rightarrow> regs_half" where
  "sbox32 x = (case x of (x0, x1, x2, x3, x4) \<Rightarrow> ascon_sbox x0 x1 x2 x3 x4)"

lemma sbox32_parts: "sbox32 x = sbox_end32 (chi5_32 (sbox_start32 x))"
  by (simp add: sbox32_def ascon_sbox_def sbox_end32_def chi5_32_def sbox_start32_def Let_def and.commute
      split: prod.splits)

definition xor_half :: "regs_half \<Rightarrow> regs_half \<Rightarrow> regs_half" where
  "xor_half x y = (case (x, y) of ((x0, x1, x2, x3, x4), (y0, y1, y2, y3, y4)) \<Rightarrow>
     (x0 XOR y0, x1 XOR y1, x2 XOR y2, x3 XOR y3, x4 XOR y4))"

definition map_half :: "(u32 \<Rightarrow> u32) \<Rightarrow> regs_half \<Rightarrow> regs_half" where
  "map_half f x = (case x of (x0, x1, x2, x3, x4) \<Rightarrow> (f x0, f x1, f x2, f x3, f x4))"

definition zip_half :: "regs_half \<Rightarrow> regs_half \<Rightarrow> regs32" where
  "zip_half e o' = (case (e, o') of ((x0_e, x1_e, x2_e, x3_e, x4_e), (x0_o, x1_o, x2_o, x3_o, x4_o)) \<Rightarrow>
     ((x0_e, x0_o), (x1_e, x1_o), (x2_e, x2_o), (x3_e, x3_o), (x4_e, x4_o)))"

lemma c32_round_parts:
  "c32_round rc0 rc1 (zip_half e o') =
     (case linear32 (sbox32 (add_constant32 rc0 e)) (sbox32 (add_constant32 rc1 o')) of (e, o') \<Rightarrow>
        zip_half e o')"
proof -
  obtain a0 a1 a2 a3 a4 where e: "e = (a0, a1, a2, a3, a4)" by (metis prod.exhaust)
  obtain b0 b1 b2 b3 b4 where o': "o' = (b0, b1, b2, b3, b4)" by (metis prod.exhaust)
  obtain y0 y1 y2 y3 y4 where y: "ascon_sbox a0 a1 (a2 XOR rc0) a3 a4 = (y0, y1, y2, y3, y4)"
    by (metis prod.exhaust)
  obtain z0 z1 z2 z3 z4 where z: "ascon_sbox b0 b1 (b2 XOR rc1) b3 b4 = (z0, z1, z2, z3, z4)"
    by (metis prod.exhaust)
  show ?thesis
    by (simp add: e o' c32_round_def zip_half_def add_constant32_def sbox32_def y z linear32_def
        c32_linear_def Let_def)
qed

lemma half_linear_parts:
  "sbox_start32 (xor_half x y) = xor_half (sbox_start32 x) (sbox_start32 y)"
  "sbox_end32 (xor_half x y) = xor_half (sbox_end32 x) (sbox_end32 y)"
  by (simp_all add: sbox_start32_def sbox_end32_def xor_half_def Let_def ac_simps split: prod.splits)

lemma half_linear_map:
  assumes "\<And>x y. f (x XOR y) = f x XOR f y"
  shows "sbox_start32 (map_half f x) = map_half f (sbox_start32 x)"
    "sbox_end32 (map_half f x) = map_half f (sbox_end32 x)"
  by (simp_all add: sbox_start32_def sbox_end32_def map_half_def Let_def assms split: prod.splits)

lemma linear32_xor:
  "linear32 (xor_half a b) (xor_half c d) =
     (case (linear32 a c, linear32 b d) of ((e, o'), (e', o'')) \<Rightarrow> (xor_half e e', xor_half o' o''))"
  by (simp add: linear32_def xor_half_def Let_def rotate_32 word_rotr_xor ac_simps split: prod.splits)

lemma linear32_map:
  assumes "\<And>x y. f (x XOR y) = f x XOR f y" "\<And>n x. word_rotr n (f x) = f (word_rotr n x)"
  shows "linear32 (map_half f a) (map_half f c) =
    (case linear32 a c of (e, o') \<Rightarrow> (map_half f e, map_half f o'))"
  by (simp add: linear32_def map_half_def Let_def rotate_32 word_rotr_xor assms split: prod.splits)

lemmas half_unrotate =
  half_linear_map[where f = ascon_mask32_unrotate_share1_0, OF mask32_bitwise(31)]
  half_linear_map[where f = ascon_mask32_unrotate_share2_0, OF mask32_bitwise(36)]
  half_linear_map[where f = ascon_mask32_unrotate_share3_0, OF mask32_bitwise(46)]
  linear32_map[where f = ascon_mask32_unrotate_share1_0, OF mask32_bitwise(31) mask32_rotr(7)]
  linear32_map[where f = ascon_mask32_unrotate_share2_0, OF mask32_bitwise(36) mask32_rotr(8)]
  linear32_map[where f = ascon_mask32_unrotate_share3_0, OF mask32_bitwise(46) mask32_rotr(10)]

lemma half_constant_parts:
  "add_constant32 rc (xor_half x y) = xor_half (add_constant32 rc x) y"
  "invert_x2 (xor_half x y) = xor_half (invert_x2 x) y"
  by (simp_all add: add_constant32_def invert_x2_def xor_half_def ac_simps split: prod.splits)

text \<open>The 32-bit permutation on the two halves of a state.\<close>

definition permute_halves :: "u8 \<Rightarrow> regs_half \<Rightarrow> regs_half \<Rightarrow> regs32" where
  "permute_halves r e o' = c32_rounds r (zip_half (invert_x2 e) (invert_x2 o'))"

definition unmask2_32 :: "regs_half \<Rightarrow> regs_half \<Rightarrow> regs_half" where
  "unmask2_32 a b = xor_half a (map_half ascon_mask32_unrotate_share1_0 b)"

lemma x2_and_not_xor32:
  assumes "x2_and_not_xor32 (x_a, x_b) (y_a, y_b) (z_a, z_b) = (r_a, r_b)"
  shows "r_a XOR ascon_mask32_unrotate_share1_0 r_b =
     (x_a XOR ascon_mask32_unrotate_share1_0 x_b) XOR
     (NOT (y_a XOR ascon_mask32_unrotate_share1_0 y_b) AND (z_a XOR ascon_mask32_unrotate_share1_0 z_b))"
  using assms by (auto simp: x2_and_not_xor32_def Let_def mask32_bitwise bit_ring)

lemma unmask2_32_parts:
  "sbox_start32 (unmask2_32 a b) = unmask2_32 (sbox_start32 a) (sbox_start32 b)"
  "sbox_end32 (unmask2_32 a b) = unmask2_32 (sbox_end32 a) (sbox_end32 b)"
  "unmask2_32 (add_constant32 rc a) b = add_constant32 rc (unmask2_32 a b)"
  "unmask2_32 (invert_x2 a) b = invert_x2 (unmask2_32 a b)"
  by (simp_all add: unmask2_32_def half_linear_parts half_unrotate half_constant_parts)

lemma unmask2_32_linear:
  assumes "linear32 ae ao = (ae1, ao1)" "linear32 be bo = (be1, bo1)"
  shows "linear32 (unmask2_32 ae be) (unmask2_32 ao bo) =
    (unmask2_32 ae1 be1, unmask2_32 ao1 bo1)"
  using assms by (simp add: unmask2_32_def linear32_xor half_unrotate)

lemma x2_sbox32_unmask:
  assumes "x2_sbox32 a b t0_a = (a', b', t_a')"
  shows "unmask2_32 a' b' = sbox32 (unmask2_32 a b)"
proof -
  obtain x0_a x1_a x2_a x3_a x4_a where a: "sbox_start32 a = (x0_a, x1_a, x2_a, x3_a, x4_a)"
    by (metis prod.exhaust)
  obtain x0_b x1_b x2_b x3_b x4_b where b: "sbox_start32 b = (x0_b, x1_b, x2_b, x3_b, x4_b)"
    by (metis prod.exhaust)
  obtain t_a t_b where t: "x2_and_not_xor32 (t0_a, ascon_mask32_rotate_share1_0 t0_a)
      (x0_a, x0_b) (x1_a, x1_b) = (t_a, t_b)" by (metis prod.exhaust)
  obtain y0_a y0_b where y0: "x2_and_not_xor32 (x0_a, x0_b)
      (x1_a, x1_b) (x2_a, x2_b) = (y0_a, y0_b)" by (metis prod.exhaust)
  obtain y1_a y1_b where y1: "x2_and_not_xor32 (x1_a, x1_b)
      (x2_a, x2_b) (x3_a, x3_b) = (y1_a, y1_b)" by (metis prod.exhaust)
  obtain y2_a y2_b where y2: "x2_and_not_xor32 (x2_a, x2_b)
      (x3_a, x3_b) (x4_a, x4_b) = (y2_a, y2_b)" by (metis prod.exhaust)
  obtain y3_a y3_b where y3: "x2_and_not_xor32 (x3_a, x3_b)
      (x4_a, x4_b) (x0_a, x0_b) = (y3_a, y3_b)" by (metis prod.exhaust)
  note chi = t[THEN x2_and_not_xor32] y0[THEN x2_and_not_xor32] y1[THEN x2_and_not_xor32]
    y2[THEN x2_and_not_xor32] y3[THEN x2_and_not_xor32]
  have "(x4_a XOR t_a) XOR ascon_mask32_unrotate_share1_0 (x4_b XOR t_b) =
      (x4_a XOR ascon_mask32_unrotate_share1_0 x4_b) XOR (t_a XOR ascon_mask32_unrotate_share1_0 t_b)"
    by (simp add: mask32_bitwise ac_simps)
  also have "t_a XOR ascon_mask32_unrotate_share1_0 t_b = NOT (x0_a XOR ascon_mask32_unrotate_share1_0 x0_b) AND (x1_a XOR ascon_mask32_unrotate_share1_0 x1_b)"
    unfolding chi(1) by (simp add: mask32_bitwise ac_simps)
  finally have "unmask2_32
        (y0_a, y1_a, y2_a, y3_a, x4_a XOR t_a)
        (y0_b, y1_b, y2_b, y3_b, x4_b XOR t_b) =
      chi5_32 (unmask2_32 (sbox_start32 a) (sbox_start32 b))"
    using chi(2-5) by (simp add: unmask2_32_def chi5_32_def xor_half_def map_half_def a b xor.assoc)
  moreover have "a' = sbox_end32 (y0_a, y1_a, y2_a, y3_a, x4_a XOR t_a)" "b' = sbox_end32 (y0_b, y1_b, y2_b, y3_b, x4_b XOR t_b)"
    using assms by (auto simp: x2_sbox32_def a b t y0 y1 y2 y3)
  ultimately show ?thesis
    by (simp add: sbox32_parts unmask2_32_parts(1) flip: unmask2_32_parts(2))
qed

lemma x2_round32_unmask:
  "(case x2_round32 rc0 rc1 s of (ae, be, ao, bo, t0_ae, t0_ao) \<Rightarrow> zip_half (unmask2_32 ae be) (unmask2_32 ao bo)) =
     c32_round rc0 rc1 (case s of (ae, be, ao, bo, t0_ae, t0_ao) \<Rightarrow> zip_half (unmask2_32 ae be) (unmask2_32 ao bo))"
proof -
  obtain ae be ao bo t0_ae t0_ao where s: "s = (ae, be, ao, bo, t0_ae, t0_ao)" by (metis prod.exhaust)
  obtain ae' be' t0_ae' where
    e: "x2_sbox32 (add_constant32 rc0 ae) be t0_ae = (ae', be', t0_ae')"
    by (metis prod.exhaust)
  obtain ao' bo' t0_ao' where
    o: "x2_sbox32 (add_constant32 rc1 ao) bo t0_ao = (ao', bo', t0_ao')"
    by (metis prod.exhaust)
  obtain ae1 be1 ao1 bo1 where
    l: "linear32 ae' ao' = (ae1, ao1)" "linear32 be' bo' = (be1, bo1)"
    by (metis prod.exhaust)
  show ?thesis
    using unmask2_32_linear[OF l] x2_sbox32_unmask[OF e] x2_sbox32_unmask[OF o]
    by (simp add: s x2_round32_def e o l c32_round_parts unmask2_32_parts(3))
qed

lemma x2_rounds32_unmask:
  assumes "masked_rounds32 x2_round32 r (invert_x2 ae, be, invert_x2 ao, bo, t0_ae, t0_ao) =
    (ae', be', ao', bo', t0_ae', t0_ao')"
  shows "zip_half (unmask2_32 ae' be') (unmask2_32 ao' bo') =
    permute_halves r (unmask2_32 ae be) (unmask2_32 ao bo)"
  using masked_rounds_c32[of "\<lambda>(ae, be, ao, bo, t0_ae, t0_ao). zip_half (unmask2_32 ae be) (unmask2_32 ao bo)" x2_round32 r
      "(invert_x2 ae, be, invert_x2 ao, bo, t0_ae, t0_ao)", OF x2_round32_unmask] assms
  by (simp add: permute_halves_def unmask2_32_parts(4))

definition unmask3_32 :: "regs_half \<Rightarrow> regs_half \<Rightarrow> regs_half \<Rightarrow> regs_half" where
  "unmask3_32 a b c = xor_half (xor_half a (map_half ascon_mask32_unrotate_share1_0 b)) (map_half ascon_mask32_unrotate_share2_0 c)"

lemma x3_and_not_xor32:
  assumes "x3_and_not_xor32 (x_a, x_b, x_c) (y_a, y_b, y_c) (z_a, z_b, z_c) = (r_a, r_b, r_c)"
  shows "r_a XOR ascon_mask32_unrotate_share1_0 r_b XOR ascon_mask32_unrotate_share2_0 r_c =
     (x_a XOR ascon_mask32_unrotate_share1_0 x_b XOR ascon_mask32_unrotate_share2_0 x_c) XOR
     (NOT (y_a XOR ascon_mask32_unrotate_share1_0 y_b XOR ascon_mask32_unrotate_share2_0 y_c) AND (z_a XOR ascon_mask32_unrotate_share1_0 z_b XOR ascon_mask32_unrotate_share2_0 z_c))"
  using assms by (auto simp: x3_and_not_xor32_def Let_def mask32_bitwise bit_ring)

lemma unmask3_32_parts:
  "sbox_start32 (unmask3_32 a b c) = unmask3_32 (sbox_start32 a) (sbox_start32 b) (sbox_start32 c)"
  "sbox_end32 (unmask3_32 a b c) = unmask3_32 (sbox_end32 a) (sbox_end32 b) (sbox_end32 c)"
  "unmask3_32 (add_constant32 rc a) b c = add_constant32 rc (unmask3_32 a b c)"
  "unmask3_32 (invert_x2 a) b c = invert_x2 (unmask3_32 a b c)"
  by (simp_all add: unmask3_32_def half_linear_parts half_unrotate half_constant_parts)

lemma unmask3_32_linear:
  assumes "linear32 ae ao = (ae1, ao1)" "linear32 be bo = (be1, bo1)" "linear32 ce co = (ce1, co1)"
  shows "linear32 (unmask3_32 ae be ce) (unmask3_32 ao bo co) =
    (unmask3_32 ae1 be1 ce1, unmask3_32 ao1 bo1 co1)"
  using assms by (simp add: unmask3_32_def linear32_xor half_unrotate)

lemma x3_sbox32_unmask:
  assumes "x3_sbox32 a b c t0_a t0_b = (a', b', c', t_a', t_b')"
  shows "unmask3_32 a' b' c' = sbox32 (unmask3_32 a b c)"
proof -
  obtain x0_a x1_a x2_a x3_a x4_a where a: "sbox_start32 a = (x0_a, x1_a, x2_a, x3_a, x4_a)"
    by (metis prod.exhaust)
  obtain x0_b x1_b x2_b x3_b x4_b where b: "sbox_start32 b = (x0_b, x1_b, x2_b, x3_b, x4_b)"
    by (metis prod.exhaust)
  obtain x0_c x1_c x2_c x3_c x4_c where c: "sbox_start32 c = (x0_c, x1_c, x2_c, x3_c, x4_c)"
    by (metis prod.exhaust)
  obtain t_a t_b t_c where t: "x3_and_not_xor32 (t0_a, t0_b, ascon_mask32_rotate_share2_0 t0_a XOR ascon_mask32_rotate_share2_1 t0_b)
      (x0_a, x0_b, x0_c) (x1_a, x1_b, x1_c) = (t_a, t_b, t_c)" by (metis prod.exhaust)
  obtain y0_a y0_b y0_c where y0: "x3_and_not_xor32 (x0_a, x0_b, x0_c)
      (x1_a, x1_b, x1_c) (x2_a, x2_b, x2_c) = (y0_a, y0_b, y0_c)" by (metis prod.exhaust)
  obtain y1_a y1_b y1_c where y1: "x3_and_not_xor32 (x1_a, x1_b, x1_c)
      (x2_a, x2_b, x2_c) (x3_a, x3_b, x3_c) = (y1_a, y1_b, y1_c)" by (metis prod.exhaust)
  obtain y2_a y2_b y2_c where y2: "x3_and_not_xor32 (x2_a, x2_b, x2_c)
      (x3_a, x3_b, x3_c) (x4_a, x4_b, x4_c) = (y2_a, y2_b, y2_c)" by (metis prod.exhaust)
  obtain y3_a y3_b y3_c where y3: "x3_and_not_xor32 (x3_a, x3_b, x3_c)
      (x4_a, x4_b, x4_c) (x0_a, x0_b, x0_c) = (y3_a, y3_b, y3_c)" by (metis prod.exhaust)
  note chi = t[THEN x3_and_not_xor32] y0[THEN x3_and_not_xor32] y1[THEN x3_and_not_xor32]
    y2[THEN x3_and_not_xor32] y3[THEN x3_and_not_xor32]
  have "(x4_a XOR t_a) XOR ascon_mask32_unrotate_share1_0 (x4_b XOR t_b) XOR ascon_mask32_unrotate_share2_0 (x4_c XOR t_c) =
      (x4_a XOR ascon_mask32_unrotate_share1_0 x4_b XOR ascon_mask32_unrotate_share2_0 x4_c) XOR (t_a XOR ascon_mask32_unrotate_share1_0 t_b XOR ascon_mask32_unrotate_share2_0 t_c)"
    by (simp add: mask32_bitwise ac_simps)
  also have "t_a XOR ascon_mask32_unrotate_share1_0 t_b XOR ascon_mask32_unrotate_share2_0 t_c = NOT (x0_a XOR ascon_mask32_unrotate_share1_0 x0_b XOR ascon_mask32_unrotate_share2_0 x0_c) AND (x1_a XOR ascon_mask32_unrotate_share1_0 x1_b XOR ascon_mask32_unrotate_share2_0 x1_c)"
    unfolding chi(1) by (simp add: mask32_bitwise ac_simps)
  finally have "unmask3_32
        (y0_a, y1_a, y2_a, y3_a, x4_a XOR t_a)
        (y0_b, y1_b, y2_b, y3_b, x4_b XOR t_b)
        (y0_c, y1_c, y2_c, y3_c, x4_c XOR t_c) =
      chi5_32 (unmask3_32 (sbox_start32 a) (sbox_start32 b) (sbox_start32 c))"
    using chi(2-5) by (simp add: unmask3_32_def chi5_32_def xor_half_def map_half_def a b c xor.assoc)
  moreover have "a' = sbox_end32 (y0_a, y1_a, y2_a, y3_a, x4_a XOR t_a)" "b' = sbox_end32 (y0_b, y1_b, y2_b, y3_b, x4_b XOR t_b)" "c' = sbox_end32 (y0_c, y1_c, y2_c, y3_c, x4_c XOR t_c)"
    using assms by (auto simp: x3_sbox32_def a b c t y0 y1 y2 y3)
  ultimately show ?thesis
    by (simp add: sbox32_parts unmask3_32_parts(1) flip: unmask3_32_parts(2))
qed

lemma x3_round32_unmask:
  "(case x3_round32 rc0 rc1 s of (ae, be, ce, ao, bo, co, t0_ae, t0_be, t0_ao, t0_bo) \<Rightarrow> zip_half (unmask3_32 ae be ce) (unmask3_32 ao bo co)) =
     c32_round rc0 rc1 (case s of (ae, be, ce, ao, bo, co, t0_ae, t0_be, t0_ao, t0_bo) \<Rightarrow> zip_half (unmask3_32 ae be ce) (unmask3_32 ao bo co))"
proof -
  obtain ae be ce ao bo co t0_ae t0_be t0_ao t0_bo where s: "s = (ae, be, ce, ao, bo, co, t0_ae, t0_be, t0_ao, t0_bo)" by (metis prod.exhaust)
  obtain ae' be' ce' t0_ae' t0_be' where
    e: "x3_sbox32 (add_constant32 rc0 ae) be ce t0_ae t0_be = (ae', be', ce', t0_ae', t0_be')"
    by (metis prod.exhaust)
  obtain ao' bo' co' t0_ao' t0_bo' where
    o: "x3_sbox32 (add_constant32 rc1 ao) bo co t0_ao t0_bo = (ao', bo', co', t0_ao', t0_bo')"
    by (metis prod.exhaust)
  obtain ae1 be1 ce1 ao1 bo1 co1 where
    l: "linear32 ae' ao' = (ae1, ao1)" "linear32 be' bo' = (be1, bo1)" "linear32 ce' co' = (ce1, co1)"
    by (metis prod.exhaust)
  show ?thesis
    using unmask3_32_linear[OF l] x3_sbox32_unmask[OF e] x3_sbox32_unmask[OF o]
    by (simp add: s x3_round32_def e o l c32_round_parts unmask3_32_parts(3))
qed

lemma x3_rounds32_unmask:
  assumes "masked_rounds32 x3_round32 r (invert_x2 ae, be, ce, invert_x2 ao, bo, co, t0_ae, t0_be, t0_ao, t0_bo) =
    (ae', be', ce', ao', bo', co', t0_ae', t0_be', t0_ao', t0_bo')"
  shows "zip_half (unmask3_32 ae' be' ce') (unmask3_32 ao' bo' co') =
    permute_halves r (unmask3_32 ae be ce) (unmask3_32 ao bo co)"
  using masked_rounds_c32[of "\<lambda>(ae, be, ce, ao, bo, co, t0_ae, t0_be, t0_ao, t0_bo). zip_half (unmask3_32 ae be ce) (unmask3_32 ao bo co)" x3_round32 r
      "(invert_x2 ae, be, ce, invert_x2 ao, bo, co, t0_ae, t0_be, t0_ao, t0_bo)", OF x3_round32_unmask] assms
  by (simp add: permute_halves_def unmask3_32_parts(4))

definition unmask4_32 :: "regs_half \<Rightarrow> regs_half \<Rightarrow> regs_half \<Rightarrow> regs_half \<Rightarrow> regs_half" where
  "unmask4_32 a b c d = xor_half (xor_half (xor_half a (map_half ascon_mask32_unrotate_share1_0 b)) (map_half ascon_mask32_unrotate_share2_0 c)) (map_half ascon_mask32_unrotate_share3_0 d)"

lemma x4_and_not_xor32:
  assumes "x4_and_not_xor32 (x_a, x_b, x_c, x_d) (y_a, y_b, y_c, y_d) (z_a, z_b, z_c, z_d) = (r_a, r_b, r_c, r_d)"
  shows "r_a XOR ascon_mask32_unrotate_share1_0 r_b XOR ascon_mask32_unrotate_share2_0 r_c XOR ascon_mask32_unrotate_share3_0 r_d =
     (x_a XOR ascon_mask32_unrotate_share1_0 x_b XOR ascon_mask32_unrotate_share2_0 x_c XOR ascon_mask32_unrotate_share3_0 x_d) XOR
     (NOT (y_a XOR ascon_mask32_unrotate_share1_0 y_b XOR ascon_mask32_unrotate_share2_0 y_c XOR ascon_mask32_unrotate_share3_0 y_d) AND (z_a XOR ascon_mask32_unrotate_share1_0 z_b XOR ascon_mask32_unrotate_share2_0 z_c XOR ascon_mask32_unrotate_share3_0 z_d))"
  using assms by (auto simp: x4_and_not_xor32_def Let_def mask32_bitwise bit_ring)

lemma unmask4_32_parts:
  "sbox_start32 (unmask4_32 a b c d) = unmask4_32 (sbox_start32 a) (sbox_start32 b) (sbox_start32 c) (sbox_start32 d)"
  "sbox_end32 (unmask4_32 a b c d) = unmask4_32 (sbox_end32 a) (sbox_end32 b) (sbox_end32 c) (sbox_end32 d)"
  "unmask4_32 (add_constant32 rc a) b c d = add_constant32 rc (unmask4_32 a b c d)"
  "unmask4_32 (invert_x2 a) b c d = invert_x2 (unmask4_32 a b c d)"
  by (simp_all add: unmask4_32_def half_linear_parts half_unrotate half_constant_parts)

lemma unmask4_32_linear:
  assumes "linear32 ae ao = (ae1, ao1)" "linear32 be bo = (be1, bo1)" "linear32 ce co = (ce1, co1)" "linear32 de do = (de1, do1)"
  shows "linear32 (unmask4_32 ae be ce de) (unmask4_32 ao bo co do) =
    (unmask4_32 ae1 be1 ce1 de1, unmask4_32 ao1 bo1 co1 do1)"
  using assms by (simp add: unmask4_32_def linear32_xor half_unrotate)

lemma x4_sbox32_unmask:
  assumes "x4_sbox32 a b c d t0_a t0_b t0_c = (a', b', c', d', t_a', t_b', t_c')"
  shows "unmask4_32 a' b' c' d' = sbox32 (unmask4_32 a b c d)"
proof -
  obtain x0_a x1_a x2_a x3_a x4_a where a: "sbox_start32 a = (x0_a, x1_a, x2_a, x3_a, x4_a)"
    by (metis prod.exhaust)
  obtain x0_b x1_b x2_b x3_b x4_b where b: "sbox_start32 b = (x0_b, x1_b, x2_b, x3_b, x4_b)"
    by (metis prod.exhaust)
  obtain x0_c x1_c x2_c x3_c x4_c where c: "sbox_start32 c = (x0_c, x1_c, x2_c, x3_c, x4_c)"
    by (metis prod.exhaust)
  obtain x0_d x1_d x2_d x3_d x4_d where d: "sbox_start32 d = (x0_d, x1_d, x2_d, x3_d, x4_d)"
    by (metis prod.exhaust)
  obtain t_a t_b t_c t_d where t: "x4_and_not_xor32 (t0_a, t0_b, t0_c, ascon_mask32_rotate_share3_0 t0_a XOR ascon_mask32_rotate_share3_1 t0_b XOR ascon_mask32_rotate_share3_2 t0_c)
      (x0_a, x0_b, x0_c, x0_d) (x1_a, x1_b, x1_c, x1_d) = (t_a, t_b, t_c, t_d)" by (metis prod.exhaust)
  obtain y0_a y0_b y0_c y0_d where y0: "x4_and_not_xor32 (x0_a, x0_b, x0_c, x0_d)
      (x1_a, x1_b, x1_c, x1_d) (x2_a, x2_b, x2_c, x2_d) = (y0_a, y0_b, y0_c, y0_d)" by (metis prod.exhaust)
  obtain y1_a y1_b y1_c y1_d where y1: "x4_and_not_xor32 (x1_a, x1_b, x1_c, x1_d)
      (x2_a, x2_b, x2_c, x2_d) (x3_a, x3_b, x3_c, x3_d) = (y1_a, y1_b, y1_c, y1_d)" by (metis prod.exhaust)
  obtain y2_a y2_b y2_c y2_d where y2: "x4_and_not_xor32 (x2_a, x2_b, x2_c, x2_d)
      (x3_a, x3_b, x3_c, x3_d) (x4_a, x4_b, x4_c, x4_d) = (y2_a, y2_b, y2_c, y2_d)" by (metis prod.exhaust)
  obtain y3_a y3_b y3_c y3_d where y3: "x4_and_not_xor32 (x3_a, x3_b, x3_c, x3_d)
      (x4_a, x4_b, x4_c, x4_d) (x0_a, x0_b, x0_c, x0_d) = (y3_a, y3_b, y3_c, y3_d)" by (metis prod.exhaust)
  note chi = t[THEN x4_and_not_xor32] y0[THEN x4_and_not_xor32] y1[THEN x4_and_not_xor32]
    y2[THEN x4_and_not_xor32] y3[THEN x4_and_not_xor32]
  have "(x4_a XOR t_a) XOR ascon_mask32_unrotate_share1_0 (x4_b XOR t_b) XOR ascon_mask32_unrotate_share2_0 (x4_c XOR t_c) XOR ascon_mask32_unrotate_share3_0 (x4_d XOR t_d) =
      (x4_a XOR ascon_mask32_unrotate_share1_0 x4_b XOR ascon_mask32_unrotate_share2_0 x4_c XOR ascon_mask32_unrotate_share3_0 x4_d) XOR (t_a XOR ascon_mask32_unrotate_share1_0 t_b XOR ascon_mask32_unrotate_share2_0 t_c XOR ascon_mask32_unrotate_share3_0 t_d)"
    by (simp add: mask32_bitwise ac_simps)
  also have "t_a XOR ascon_mask32_unrotate_share1_0 t_b XOR ascon_mask32_unrotate_share2_0 t_c XOR ascon_mask32_unrotate_share3_0 t_d = NOT (x0_a XOR ascon_mask32_unrotate_share1_0 x0_b XOR ascon_mask32_unrotate_share2_0 x0_c XOR ascon_mask32_unrotate_share3_0 x0_d) AND (x1_a XOR ascon_mask32_unrotate_share1_0 x1_b XOR ascon_mask32_unrotate_share2_0 x1_c XOR ascon_mask32_unrotate_share3_0 x1_d)"
    unfolding chi(1) by (simp add: mask32_bitwise ac_simps)
  finally have "unmask4_32
        (y0_a, y1_a, y2_a, y3_a, x4_a XOR t_a)
        (y0_b, y1_b, y2_b, y3_b, x4_b XOR t_b)
        (y0_c, y1_c, y2_c, y3_c, x4_c XOR t_c)
        (y0_d, y1_d, y2_d, y3_d, x4_d XOR t_d) =
      chi5_32 (unmask4_32 (sbox_start32 a) (sbox_start32 b) (sbox_start32 c) (sbox_start32 d))"
    using chi(2-5) by (simp add: unmask4_32_def chi5_32_def xor_half_def map_half_def a b c d xor.assoc)
  moreover have "a' = sbox_end32 (y0_a, y1_a, y2_a, y3_a, x4_a XOR t_a)" "b' = sbox_end32 (y0_b, y1_b, y2_b, y3_b, x4_b XOR t_b)" "c' = sbox_end32 (y0_c, y1_c, y2_c, y3_c, x4_c XOR t_c)" "d' = sbox_end32 (y0_d, y1_d, y2_d, y3_d, x4_d XOR t_d)"
    using assms by (auto simp: x4_sbox32_def a b c d t y0 y1 y2 y3)
  ultimately show ?thesis
    by (simp add: sbox32_parts unmask4_32_parts(1) flip: unmask4_32_parts(2))
qed

lemma x4_round32_unmask:
  "(case x4_round32 rc0 rc1 s of (ae, be, ce, de, ao, bo, co, do, t0_ae, t0_be, t0_ce, t0_ao, t0_bo, t0_co) \<Rightarrow> zip_half (unmask4_32 ae be ce de) (unmask4_32 ao bo co do)) =
     c32_round rc0 rc1 (case s of (ae, be, ce, de, ao, bo, co, do, t0_ae, t0_be, t0_ce, t0_ao, t0_bo, t0_co) \<Rightarrow> zip_half (unmask4_32 ae be ce de) (unmask4_32 ao bo co do))"
proof -
  obtain ae be ce de ao bo co do t0_ae t0_be t0_ce t0_ao t0_bo t0_co where s: "s = (ae, be, ce, de, ao, bo, co, do, t0_ae, t0_be, t0_ce, t0_ao, t0_bo, t0_co)" by (metis prod.exhaust)
  obtain ae' be' ce' de' t0_ae' t0_be' t0_ce' where
    e: "x4_sbox32 (add_constant32 rc0 ae) be ce de t0_ae t0_be t0_ce = (ae', be', ce', de', t0_ae', t0_be', t0_ce')"
    by (metis prod.exhaust)
  obtain ao' bo' co' do' t0_ao' t0_bo' t0_co' where
    o: "x4_sbox32 (add_constant32 rc1 ao) bo co do t0_ao t0_bo t0_co = (ao', bo', co', do', t0_ao', t0_bo', t0_co')"
    by (metis prod.exhaust)
  obtain ae1 be1 ce1 de1 ao1 bo1 co1 do1 where
    l: "linear32 ae' ao' = (ae1, ao1)" "linear32 be' bo' = (be1, bo1)" "linear32 ce' co' = (ce1, co1)" "linear32 de' do' = (de1, do1)"
    by (metis prod.exhaust)
  show ?thesis
    using unmask4_32_linear[OF l] x4_sbox32_unmask[OF e] x4_sbox32_unmask[OF o]
    by (simp add: s x4_round32_def e o l c32_round_parts unmask4_32_parts(3))
qed

lemma x4_rounds32_unmask:
  assumes "masked_rounds32 x4_round32 r (invert_x2 ae, be, ce, de, invert_x2 ao, bo, co, do, t0_ae, t0_be, t0_ce, t0_ao, t0_bo, t0_co) =
    (ae', be', ce', de', ao', bo', co', do', t0_ae', t0_be', t0_ce', t0_ao', t0_bo', t0_co')"
  shows "zip_half (unmask4_32 ae' be' ce' de') (unmask4_32 ao' bo' co' do') =
    permute_halves r (unmask4_32 ae be ce de) (unmask4_32 ao bo co do)"
  using masked_rounds_c32[of "\<lambda>(ae, be, ce, de, ao, bo, co, do, t0_ae, t0_be, t0_ce, t0_ao, t0_bo, t0_co). zip_half (unmask4_32 ae be ce de) (unmask4_32 ao bo co do)" x4_round32 r
      "(invert_x2 ae, be, ce, de, invert_x2 ao, bo, co, do, t0_ae, t0_be, t0_ce, t0_ao, t0_bo, t0_co)", OF x4_round32_unmask] assms
  by (simp add: permute_halves_def unmask4_32_parts(4))

end
