(* ===== verification/Masked_Word32.thy ===== *)
theory Masked_Word32
  imports Masked_Word64 Masked_Perm32
begin

text \<open>
  \<open>masking/ascon-masked-word-c32.c\<close>: masked words as arrays \<open>W\<close> of 32-bit words, the even and the odd
  bits of share 0, then those of share 1, and so on; the proof that they satisfy the contract
  \<open>masked_word\<close>.  The file repeats the macros \<open>ascon_separate\<close> and \<open>ascon_combine\<close> of theory
  \<open>Ascon_C32\<close>; the expressions that join the halves of two separated words are those of theory
  \<open>Snp_Sliced32\<close>, with the same names here.  The array has two words for each of
  \<open>ASCON_MASKED_MAX_SHARES\<close> shares, and as in theory \<open>Masked_Word64\<close> an assignment beyond it is void.
\<close>

section \<open>The code\<close>

text \<open>Separating two halves of 64 bits into the even and the odd bits.\<close>

definition slice_halves :: "u32 \<Rightarrow> u32 \<Rightarrow> u32 \<times> u32" where
  "slice_halves high low =
     (let high = ascon_separate high; low = ascon_separate low
      in (even_half high low, odd_half high low))"

text \<open>And back: the halves of the 64-bit word with the given even and odd bits.\<close>

definition join_halves :: "u32 \<Rightarrow> u32 \<Rightarrow> u32 \<times> u32" where
  "join_halves w0 w1 = (ascon_combine (high_half w0 w1), ascon_combine (low_half w0 w1))"

subsection \<open>Two shares\<close>

definition mw32_x2_zero ::
  "'t rng \<Rightarrow> u32 list \<Rightarrow> 't \<Rightarrow> 't \<times> u32 list" where
  "mw32_x2_zero R word t =
     (let (t, random1a) = next_32 R t;
          (t, random1b) = next_32 R t
      in (t, word[0 := random1a,
              1 := random1b,
              2 := ascon_mask32_rotate_share1_0 random1a,
              3 := ascon_mask32_rotate_share1_0 random1b,
              4 := 0,
              5 := 0,
              6 := 0,
              7 := 0]))"

definition mw32_x2_load ::
  "'t rng \<Rightarrow> u32 list \<Rightarrow> bytes \<Rightarrow> 't \<Rightarrow> 't \<times> u32 list" where
  "mw32_x2_load R word data t =
     (let (t, random1a) = next_32 R t;
          (t, random1b) = next_32 R t;
          high = random1a XOR be_load_word32 data;
          low = random1b XOR be_load_word32 (drop 4 data);
          (w0, w1) = slice_halves high low;
          (high, low) = slice_halves random1a random1b
      in (t, word[0 := w0,
              1 := w1,
              2 := ascon_mask32_rotate_share1_0 high,
              3 := ascon_mask32_rotate_share1_0 low,
              4 := 0,
              5 := 0,
              6 := 0,
              7 := 0]))"

definition mw32_x2_load_partial ::
  "'t rng \<Rightarrow> u32 list \<Rightarrow> bytes \<Rightarrow> nat \<Rightarrow> 't \<Rightarrow> 't \<times> u32 list" where
  "mw32_x2_load_partial R word data sz t =
     (let (t, random) = next_64 R t;
          masked = random;
          (masked, random) = partial_rotations data sz masked random;
          (w0, w1) = slice_halves (ucast (drop_bit 32 masked)) (ucast masked);
          (high, low) = slice_halves (ucast (drop_bit 32 random)) (ucast random)
      in (t, word[0 := w0,
              1 := w1,
              2 := ascon_mask32_rotate_share1_0 high,
              3 := ascon_mask32_rotate_share1_0 low,
              4 := 0,
              5 := 0,
              6 := 0,
              7 := 0]))"

definition mw32_x2_load_32 ::
  "'t rng \<Rightarrow> u32 list \<Rightarrow> bytes \<Rightarrow> bytes \<Rightarrow> 't \<Rightarrow> 't \<times> u32 list" where
  "mw32_x2_load_32 R word data1 data2 t =
     (let (t, random1a) = next_32 R t;
          (t, random1b) = next_32 R t;
          high = random1a XOR be_load_word32 data1;
          low = random1b XOR be_load_word32 data2;
          (w0, w1) = slice_halves high low;
          (high, low) = slice_halves random1a random1b
      in (t, word[0 := w0,
              1 := w1,
              2 := ascon_mask32_rotate_share1_0 high,
              3 := ascon_mask32_rotate_share1_0 low,
              4 := 0,
              5 := 0,
              6 := 0,
              7 := 0]))"

definition mw32_x2_store ::
  "u32 list \<Rightarrow> bytes" where
  "mw32_x2_store word =
     (let (high1, low1) = join_halves (word ! 0) (word ! 1);
          high2 = ascon_mask32_unrotate_share1_0 (word ! 2);
          low2 = ascon_mask32_unrotate_share1_0 (word ! 3);
          (high3, low3) = join_halves high2 low2
      in be_store_word32 (high1 XOR high3) @ be_store_word32 (low1 XOR low3))"

definition mw32_x2_store_partial ::
  "nat \<Rightarrow> u32 list \<Rightarrow> bytes" where
  "mw32_x2_store_partial sz word =
     (let (high1, low1) = join_halves (word ! 0) (word ! 1);
          high2 = ascon_mask32_unrotate_share1_0 (word ! 2);
          low2 = ascon_mask32_unrotate_share1_0 (word ! 3);
          (high3, low3) = join_halves high2 low2;
          masked1 = push_bit 32 (ucast high1) OR ucast low1;
          masked2 = push_bit 32 (ucast high3) OR ucast low3
      in partial_output sz [masked1, masked2])"

definition mw32_x2_randomize ::
  "'t rng \<Rightarrow> u32 list \<Rightarrow> u32 list \<Rightarrow> 't \<Rightarrow> 't \<times> u32 list" where
  "mw32_x2_randomize R dest src t =
     (let (t, random1a) = next_32 R t;
          (t, random1b) = next_32 R t
      in (t, dest[0 := src ! 0 XOR random1a,
              1 := src ! 1 XOR random1b,
              2 := src ! 2 XOR ascon_mask32_rotate_share1_0 random1a,
              3 := src ! 3 XOR ascon_mask32_rotate_share1_0 random1b]))"

definition mw32_x2_xor ::
  "u32 list \<Rightarrow> u32 list \<Rightarrow> u32 list" where
  "mw32_x2_xor dest src =
     (dest[0 := dest ! 0 XOR src ! 0,
           1 := dest ! 1 XOR src ! 1,
           2 := dest ! 2 XOR src ! 2,
           3 := dest ! 3 XOR src ! 3])"

definition mw32_x2_replace ::
  "u32 list \<Rightarrow> u32 list \<Rightarrow> nat \<Rightarrow> u32 list" where
  "mw32_x2_replace dest src sz =
     (let mask1 = drop_bit (sz * 4) (NOT 0); mask2 = NOT mask1;
          dest = dest[0 := (dest ! 0 AND mask1) OR (src ! 0 AND mask2),
                      1 := (dest ! 1 AND mask1) OR (src ! 1 AND mask2)];
          mask1 = ascon_mask32_rotate_share1_0 mask1; mask2 = ascon_mask32_rotate_share1_0 mask2;
          dest = dest[2 := (dest ! 2 AND mask1) OR (src ! 2 AND mask2),
                      3 := (dest ! 3 AND mask1) OR (src ! 3 AND mask2)]
      in dest)"

definition mw32_x2_from_x3 ::
  "'t rng \<Rightarrow> u32 list \<Rightarrow> u32 list \<Rightarrow> 't \<Rightarrow> 't \<times> u32 list" where
  "mw32_x2_from_x3 R dest src t =
     (let (t, random1a) = next_32 R t;
          (t, random1b) = next_32 R t
      in (t, dest[0 := random1a XOR src ! 0,
              1 := random1b XOR src ! 1,
              2 := (ascon_mask32_rotate_share1_0 random1a XOR src ! 2) XOR ascon_mask32_unrotate_share2_1 (src ! 4),
              3 := (ascon_mask32_rotate_share1_0 random1b XOR src ! 3) XOR ascon_mask32_unrotate_share2_1 (src ! 5),
              4 := 0,
              5 := 0,
              6 := 0,
              7 := 0]))"

definition mw32_x2_from_x4 ::
  "'t rng \<Rightarrow> u32 list \<Rightarrow> u32 list \<Rightarrow> 't \<Rightarrow> 't \<times> u32 list" where
  "mw32_x2_from_x4 R dest src t =
     (let (t, random1a) = next_32 R t;
          (t, random1b) = next_32 R t
      in (t, dest[0 := random1a XOR src ! 0 XOR ascon_mask32_unrotate_share2_0 (src ! 4),
              1 := random1b XOR src ! 1 XOR ascon_mask32_unrotate_share2_0 (src ! 5),
              2 := (ascon_mask32_rotate_share1_0 random1a XOR src ! 2) XOR ascon_mask32_unrotate_share3_1 (src ! 6),
              3 := (ascon_mask32_rotate_share1_0 random1b XOR src ! 3) XOR ascon_mask32_unrotate_share3_1 (src ! 7),
              4 := 0,
              5 := 0,
              6 := 0,
              7 := 0]))"

subsection \<open>Three shares\<close>

definition mw32_x3_zero ::
  "'t rng \<Rightarrow> u32 list \<Rightarrow> 't \<Rightarrow> 't \<times> u32 list" where
  "mw32_x3_zero R word t =
     (let (t, random1a) = next_32 R t;
          (t, random1b) = next_32 R t;
          (t, random2a) = next_32 R t;
          (t, random2b) = next_32 R t
      in (t, word[0 := random1a XOR random2a,
              1 := random1b XOR random2b,
              2 := ascon_mask32_rotate_share1_0 random1a,
              3 := ascon_mask32_rotate_share1_0 random1b,
              4 := ascon_mask32_rotate_share2_0 random2a,
              5 := ascon_mask32_rotate_share2_0 random2b,
              6 := 0,
              7 := 0]))"

definition mw32_x3_load ::
  "'t rng \<Rightarrow> u32 list \<Rightarrow> bytes \<Rightarrow> 't \<Rightarrow> 't \<times> u32 list" where
  "mw32_x3_load R word data t =
     (let (t, random1a) = next_32 R t;
          (t, random1b) = next_32 R t;
          high = random1a XOR be_load_word32 data;
          low = random1b XOR be_load_word32 (drop 4 data);
          (t, w4) = next_32 R t;
          (t, w5) = next_32 R t;
          (w0, w1) = slice_halves high low;
          w0 = w0 XOR ascon_mask32_unrotate_share2_0 (w4);
          w1 = w1 XOR ascon_mask32_unrotate_share2_0 (w5);
          (high, low) = slice_halves random1a random1b
      in (t, word[0 := w0,
              1 := w1,
              2 := ascon_mask32_rotate_share1_0 high,
              3 := ascon_mask32_rotate_share1_0 low,
              4 := w4,
              5 := w5,
              6 := 0,
              7 := 0]))"

definition mw32_x3_load_partial ::
  "'t rng \<Rightarrow> u32 list \<Rightarrow> bytes \<Rightarrow> nat \<Rightarrow> 't \<Rightarrow> 't \<times> u32 list" where
  "mw32_x3_load_partial R word data sz t =
     (let (t, random) = next_64 R t;
          masked = random;
          (masked, random) = partial_rotations data sz masked random;
          (t, random2a) = next_32 R t;
          (t, random2b) = next_32 R t;
          (w0, w1) = slice_halves (ucast (drop_bit 32 masked)) (ucast masked);
          (high, low) = slice_halves (ucast (drop_bit 32 random)) (ucast random)
      in (t, word[0 := w0 XOR random2a,
              1 := w1 XOR random2b,
              2 := ascon_mask32_rotate_share1_0 high,
              3 := ascon_mask32_rotate_share1_0 low,
              4 := ascon_mask32_rotate_share2_0 random2a,
              5 := ascon_mask32_rotate_share2_0 random2b,
              6 := 0,
              7 := 0]))"

definition mw32_x3_load_32 ::
  "'t rng \<Rightarrow> u32 list \<Rightarrow> bytes \<Rightarrow> bytes \<Rightarrow> 't \<Rightarrow> 't \<times> u32 list" where
  "mw32_x3_load_32 R word data1 data2 t =
     (let (t, random1a) = next_32 R t;
          (t, random1b) = next_32 R t;
          high = random1a XOR be_load_word32 data1;
          low = random1b XOR be_load_word32 data2;
          (t, w4) = next_32 R t;
          (t, w5) = next_32 R t;
          (w0, w1) = slice_halves high low;
          w0 = w0 XOR ascon_mask32_unrotate_share2_0 (w4);
          w1 = w1 XOR ascon_mask32_unrotate_share2_0 (w5);
          (high, low) = slice_halves random1a random1b
      in (t, word[0 := w0,
              1 := w1,
              2 := ascon_mask32_rotate_share1_0 high,
              3 := ascon_mask32_rotate_share1_0 low,
              4 := w4,
              5 := w5,
              6 := 0,
              7 := 0]))"

definition mw32_x3_store ::
  "u32 list \<Rightarrow> bytes" where
  "mw32_x3_store word =
     (let (high1, low1) = join_halves (word ! 0) (word ! 1);
          high2 = ascon_mask32_unrotate_share1_0 (word ! 2) XOR
                  ascon_mask32_unrotate_share2_0 (word ! 4);
          low2 = ascon_mask32_unrotate_share1_0 (word ! 3) XOR
                  ascon_mask32_unrotate_share2_0 (word ! 5);
          (high3, low3) = join_halves high2 low2
      in be_store_word32 (high1 XOR high3) @ be_store_word32 (low1 XOR low3))"

definition mw32_x3_store_partial ::
  "nat \<Rightarrow> u32 list \<Rightarrow> bytes" where
  "mw32_x3_store_partial sz word =
     (let (high1, low1) = join_halves (word ! 0) (word ! 1);
          high2 = ascon_mask32_unrotate_share1_0 (word ! 2) XOR
                  ascon_mask32_unrotate_share2_0 (word ! 4);
          low2 = ascon_mask32_unrotate_share1_0 (word ! 3) XOR
                  ascon_mask32_unrotate_share2_0 (word ! 5);
          (high3, low3) = join_halves high2 low2;
          masked1 = push_bit 32 (ucast high1) OR ucast low1;
          masked2 = push_bit 32 (ucast high3) OR ucast low3
      in partial_output sz [masked1, masked2])"

definition mw32_x3_randomize ::
  "'t rng \<Rightarrow> u32 list \<Rightarrow> u32 list \<Rightarrow> 't \<Rightarrow> 't \<times> u32 list" where
  "mw32_x3_randomize R dest src t =
     (let (t, random1a) = next_32 R t;
          (t, random1b) = next_32 R t;
          (t, random2a) = next_32 R t;
          (t, random2b) = next_32 R t
      in (t, dest[0 := src ! 0 XOR random1a XOR random2a,
              1 := src ! 1 XOR random1b XOR random2b,
              2 := src ! 2 XOR ascon_mask32_rotate_share1_0 random1a,
              3 := src ! 3 XOR ascon_mask32_rotate_share1_0 random1b,
              4 := src ! 4 XOR ascon_mask32_rotate_share2_0 random2a,
              5 := src ! 5 XOR ascon_mask32_rotate_share2_0 random2b]))"

definition mw32_x3_xor ::
  "u32 list \<Rightarrow> u32 list \<Rightarrow> u32 list" where
  "mw32_x3_xor dest src =
     (dest[0 := dest ! 0 XOR src ! 0,
           1 := dest ! 1 XOR src ! 1,
           2 := dest ! 2 XOR src ! 2,
           3 := dest ! 3 XOR src ! 3,
           4 := dest ! 4 XOR src ! 4,
           5 := dest ! 5 XOR src ! 5])"

definition mw32_x3_replace ::
  "u32 list \<Rightarrow> u32 list \<Rightarrow> nat \<Rightarrow> u32 list" where
  "mw32_x3_replace dest src sz =
     (let mask1 = drop_bit (sz * 4) (NOT 0); mask2 = NOT mask1;
          dest = dest[0 := (dest ! 0 AND mask1) OR (src ! 0 AND mask2),
                      1 := (dest ! 1 AND mask1) OR (src ! 1 AND mask2)];
          mask1 = ascon_mask32_rotate_share1_0 mask1; mask2 = ascon_mask32_rotate_share1_0 mask2;
          dest = dest[2 := (dest ! 2 AND mask1) OR (src ! 2 AND mask2),
                      3 := (dest ! 3 AND mask1) OR (src ! 3 AND mask2)];
          mask1 = ascon_mask32_rotate_share1_0 mask1; mask2 = ascon_mask32_rotate_share1_0 mask2;
          dest = dest[4 := (dest ! 4 AND mask1) OR (src ! 4 AND mask2),
                      5 := (dest ! 5 AND mask1) OR (src ! 5 AND mask2)]
      in dest)"

definition mw32_x3_from_x2 ::
  "'t rng \<Rightarrow> u32 list \<Rightarrow> u32 list \<Rightarrow> 't \<Rightarrow> 't \<times> u32 list" where
  "mw32_x3_from_x2 R dest src t =
     (let (t, random1a) = next_32 R t;
          (t, random1b) = next_32 R t;
          (t, random2a) = next_32 R t;
          (t, random2b) = next_32 R t
      in (t, dest[0 := random1a XOR random2a XOR src ! 0,
              1 := random1b XOR random2b XOR src ! 1,
              2 := ascon_mask32_rotate_share1_0 random1a XOR src ! 2,
              3 := ascon_mask32_rotate_share1_0 random1b XOR src ! 3,
              4 := ascon_mask32_rotate_share2_0 random2a,
              5 := ascon_mask32_rotate_share2_0 random2b,
              6 := 0,
              7 := 0]))"

definition mw32_x3_from_x4 ::
  "'t rng \<Rightarrow> u32 list \<Rightarrow> u32 list \<Rightarrow> 't \<Rightarrow> 't \<times> u32 list" where
  "mw32_x3_from_x4 R dest src t =
     (let (t, random1a) = next_32 R t;
          (t, random1b) = next_32 R t;
          (t, random2a) = next_32 R t;
          (t, random2b) = next_32 R t
      in (t, dest[0 := random1a XOR random2a XOR src ! 0 XOR ascon_mask32_unrotate_share3_0 (src ! 6),
              1 := random1b XOR random2b XOR src ! 1 XOR ascon_mask32_unrotate_share3_0 (src ! 7),
              2 := ascon_mask32_rotate_share1_0 random1a XOR src ! 2,
              3 := ascon_mask32_rotate_share1_0 random1b XOR src ! 3,
              4 := ascon_mask32_rotate_share2_0 random2a XOR src ! 4,
              5 := ascon_mask32_rotate_share2_0 random2b XOR src ! 5,
              6 := 0,
              7 := 0]))"

subsection \<open>Four shares\<close>

definition mw32_x4_zero ::
  "'t rng \<Rightarrow> u32 list \<Rightarrow> 't \<Rightarrow> 't \<times> u32 list" where
  "mw32_x4_zero R word t =
     (let (t, random1a) = next_32 R t;
          (t, random1b) = next_32 R t;
          (t, random2a) = next_32 R t;
          (t, random2b) = next_32 R t;
          (t, random3a) = next_32 R t;
          (t, random3b) = next_32 R t
      in (t, word[0 := random1a XOR random2a XOR random3a,
              1 := random1b XOR random2b XOR random3b,
              2 := ascon_mask32_rotate_share1_0 random1a,
              3 := ascon_mask32_rotate_share1_0 random1b,
              4 := ascon_mask32_rotate_share2_0 random2a,
              5 := ascon_mask32_rotate_share2_0 random2b,
              6 := ascon_mask32_rotate_share3_0 random3a,
              7 := ascon_mask32_rotate_share3_0 random3b]))"

definition mw32_x4_load ::
  "'t rng \<Rightarrow> u32 list \<Rightarrow> bytes \<Rightarrow> 't \<Rightarrow> 't \<times> u32 list" where
  "mw32_x4_load R word data t =
     (let (t, random1a) = next_32 R t;
          (t, random1b) = next_32 R t;
          high = random1a XOR be_load_word32 data;
          low = random1b XOR be_load_word32 (drop 4 data);
          (t, w4) = next_32 R t;
          (t, w5) = next_32 R t;
          (t, w6) = next_32 R t;
          (t, w7) = next_32 R t;
          (w0, w1) = slice_halves high low;
          w0 = w0 XOR ascon_mask32_unrotate_share2_0 (w4) XOR ascon_mask32_unrotate_share3_0 (w6);
          w1 = w1 XOR ascon_mask32_unrotate_share2_0 (w5) XOR ascon_mask32_unrotate_share3_0 (w7);
          (high, low) = slice_halves random1a random1b
      in (t, word[0 := w0,
              1 := w1,
              2 := ascon_mask32_rotate_share1_0 high,
              3 := ascon_mask32_rotate_share1_0 low,
              4 := w4,
              5 := w5,
              6 := w6,
              7 := w7]))"

definition mw32_x4_load_partial ::
  "'t rng \<Rightarrow> u32 list \<Rightarrow> bytes \<Rightarrow> nat \<Rightarrow> 't \<Rightarrow> 't \<times> u32 list" where
  "mw32_x4_load_partial R word data sz t =
     (let (t, random) = next_64 R t;
          masked = random;
          (masked, random) = partial_rotations data sz masked random;
          (t, random2a) = next_32 R t;
          (t, random2b) = next_32 R t;
          (t, random3a) = next_32 R t;
          (t, random3b) = next_32 R t;
          (w0, w1) = slice_halves (ucast (drop_bit 32 masked)) (ucast masked);
          (high, low) = slice_halves (ucast (drop_bit 32 random)) (ucast random)
      in (t, word[0 := w0 XOR random2a XOR random3a,
              1 := w1 XOR random2b XOR random3b,
              2 := ascon_mask32_rotate_share1_0 high,
              3 := ascon_mask32_rotate_share1_0 low,
              4 := ascon_mask32_rotate_share2_0 random2a,
              5 := ascon_mask32_rotate_share2_0 random2b,
              6 := ascon_mask32_rotate_share3_0 random3a,
              7 := ascon_mask32_rotate_share3_0 random3b]))"

definition mw32_x4_load_32 ::
  "'t rng \<Rightarrow> u32 list \<Rightarrow> bytes \<Rightarrow> bytes \<Rightarrow> 't \<Rightarrow> 't \<times> u32 list" where
  "mw32_x4_load_32 R word data1 data2 t =
     (let (t, random1a) = next_32 R t;
          (t, random1b) = next_32 R t;
          high = random1a XOR be_load_word32 data1;
          low = random1b XOR be_load_word32 data2;
          (t, w4) = next_32 R t;
          (t, w5) = next_32 R t;
          (t, w6) = next_32 R t;
          (t, w7) = next_32 R t;
          (w0, w1) = slice_halves high low;
          w0 = w0 XOR ascon_mask32_unrotate_share2_0 (w4) XOR ascon_mask32_unrotate_share3_0 (w6);
          w1 = w1 XOR ascon_mask32_unrotate_share2_0 (w5) XOR ascon_mask32_unrotate_share3_0 (w7);
          (high, low) = slice_halves random1a random1b
      in (t, word[0 := w0,
              1 := w1,
              2 := ascon_mask32_rotate_share1_0 high,
              3 := ascon_mask32_rotate_share1_0 low,
              4 := w4,
              5 := w5,
              6 := w6,
              7 := w7]))"

definition mw32_x4_store ::
  "u32 list \<Rightarrow> bytes" where
  "mw32_x4_store word =
     (let (high1, low1) = join_halves (word ! 0) (word ! 1);
          high2 = ascon_mask32_unrotate_share1_0 (word ! 2) XOR
                  ascon_mask32_unrotate_share2_0 (word ! 4) XOR
                  ascon_mask32_unrotate_share3_0 (word ! 6);
          low2 = ascon_mask32_unrotate_share1_0 (word ! 3) XOR
                  ascon_mask32_unrotate_share2_0 (word ! 5) XOR
                  ascon_mask32_unrotate_share3_0 (word ! 7);
          (high3, low3) = join_halves high2 low2
      in be_store_word32 (high1 XOR high3) @ be_store_word32 (low1 XOR low3))"

definition mw32_x4_store_partial ::
  "nat \<Rightarrow> u32 list \<Rightarrow> bytes" where
  "mw32_x4_store_partial sz word =
     (let (high1, low1) = join_halves (word ! 0) (word ! 1);
          high2 = ascon_mask32_unrotate_share1_0 (word ! 2) XOR
                  ascon_mask32_unrotate_share2_0 (word ! 4) XOR
                  ascon_mask32_unrotate_share3_0 (word ! 6);
          low2 = ascon_mask32_unrotate_share1_0 (word ! 3) XOR
                  ascon_mask32_unrotate_share2_0 (word ! 5) XOR
                  ascon_mask32_unrotate_share3_0 (word ! 7);
          (high3, low3) = join_halves high2 low2;
          masked1 = push_bit 32 (ucast high1) OR ucast low1;
          masked2 = push_bit 32 (ucast high3) OR ucast low3
      in partial_output sz [masked1, masked2])"

definition mw32_x4_randomize ::
  "'t rng \<Rightarrow> u32 list \<Rightarrow> u32 list \<Rightarrow> 't \<Rightarrow> 't \<times> u32 list" where
  "mw32_x4_randomize R dest src t =
     (let (t, random1a) = next_32 R t;
          (t, random1b) = next_32 R t;
          (t, random2a) = next_32 R t;
          (t, random2b) = next_32 R t;
          (t, random3a) = next_32 R t;
          (t, random3b) = next_32 R t
      in (t, dest[0 := src ! 0 XOR random1a XOR random2a XOR random3a,
              1 := src ! 1 XOR random1b XOR random2b XOR random3b,
              2 := src ! 2 XOR ascon_mask32_rotate_share1_0 random1a,
              3 := src ! 3 XOR ascon_mask32_rotate_share1_0 random1b,
              4 := src ! 4 XOR ascon_mask32_rotate_share2_0 random2a,
              5 := src ! 5 XOR ascon_mask32_rotate_share2_0 random2b,
              6 := src ! 6 XOR ascon_mask32_rotate_share3_0 random3a,
              7 := src ! 7 XOR ascon_mask32_rotate_share3_0 random3b]))"

definition mw32_x4_xor ::
  "u32 list \<Rightarrow> u32 list \<Rightarrow> u32 list" where
  "mw32_x4_xor dest src =
     (dest[0 := dest ! 0 XOR src ! 0,
           1 := dest ! 1 XOR src ! 1,
           2 := dest ! 2 XOR src ! 2,
           3 := dest ! 3 XOR src ! 3,
           4 := dest ! 4 XOR src ! 4,
           5 := dest ! 5 XOR src ! 5,
           6 := dest ! 6 XOR src ! 6,
           7 := dest ! 7 XOR src ! 7])"

definition mw32_x4_replace ::
  "u32 list \<Rightarrow> u32 list \<Rightarrow> nat \<Rightarrow> u32 list" where
  "mw32_x4_replace dest src sz =
     (let mask1 = drop_bit (sz * 4) (NOT 0); mask2 = NOT mask1;
          dest = dest[0 := (dest ! 0 AND mask1) OR (src ! 0 AND mask2),
                      1 := (dest ! 1 AND mask1) OR (src ! 1 AND mask2)];
          mask1 = ascon_mask32_rotate_share1_0 mask1; mask2 = ascon_mask32_rotate_share1_0 mask2;
          dest = dest[2 := (dest ! 2 AND mask1) OR (src ! 2 AND mask2),
                      3 := (dest ! 3 AND mask1) OR (src ! 3 AND mask2)];
          mask1 = ascon_mask32_rotate_share1_0 mask1; mask2 = ascon_mask32_rotate_share1_0 mask2;
          dest = dest[4 := (dest ! 4 AND mask1) OR (src ! 4 AND mask2),
                      5 := (dest ! 5 AND mask1) OR (src ! 5 AND mask2)];
          mask1 = ascon_mask32_rotate_share1_0 mask1; mask2 = ascon_mask32_rotate_share1_0 mask2;
          dest = dest[6 := (dest ! 6 AND mask1) OR (src ! 6 AND mask2),
                      7 := (dest ! 7 AND mask1) OR (src ! 7 AND mask2)]
      in dest)"

definition mw32_x4_from_x2 ::
  "'t rng \<Rightarrow> u32 list \<Rightarrow> u32 list \<Rightarrow> 't \<Rightarrow> 't \<times> u32 list" where
  "mw32_x4_from_x2 R dest src t =
     (let (t, random1a) = next_32 R t;
          (t, random1b) = next_32 R t;
          (t, random2a) = next_32 R t;
          (t, random2b) = next_32 R t;
          (t, random3a) = next_32 R t;
          (t, random3b) = next_32 R t
      in (t, dest[0 := random1a XOR random2a XOR random3a XOR src ! 0,
              1 := random1b XOR random2b XOR random3b XOR src ! 1,
              2 := ascon_mask32_rotate_share1_0 random1a XOR src ! 2,
              3 := ascon_mask32_rotate_share1_0 random1b XOR src ! 3,
              4 := ascon_mask32_rotate_share2_0 random2a,
              5 := ascon_mask32_rotate_share2_0 random2b,
              6 := ascon_mask32_rotate_share3_0 random3a,
              7 := ascon_mask32_rotate_share3_0 random3b]))"

definition mw32_x4_from_x3 ::
  "'t rng \<Rightarrow> u32 list \<Rightarrow> u32 list \<Rightarrow> 't \<Rightarrow> 't \<times> u32 list" where
  "mw32_x4_from_x3 R dest src t =
     (let (t, random1a) = next_32 R t;
          (t, random1b) = next_32 R t;
          (t, random2a) = next_32 R t;
          (t, random2b) = next_32 R t;
          (t, random3a) = next_32 R t;
          (t, random3b) = next_32 R t
      in (t, dest[0 := random1a XOR random2a XOR random3a XOR src ! 0,
              1 := random1b XOR random2b XOR random3b XOR src ! 1,
              2 := ascon_mask32_rotate_share1_0 random1a XOR src ! 2,
              3 := ascon_mask32_rotate_share1_0 random1b XOR src ! 3,
              4 := ascon_mask32_rotate_share2_0 random2a XOR src ! 4,
              5 := ascon_mask32_rotate_share2_0 random2b XOR src ! 5,
              6 := ascon_mask32_rotate_share3_0 random3a,
              7 := ascon_mask32_rotate_share3_0 random3b]))"

subsection \<open>Any number of shares\<close>

definition mw32_pad :: "u32 list \<Rightarrow> nat \<Rightarrow> u32 list" where
  "mw32_pad word offset = word[1 := word ! 1 XOR drop_bit (offset * 4) 0x80000000]"

definition mw32_separator :: "u32 list \<Rightarrow> u32 list" where
  "mw32_separator word = word[0 := word ! 0 XOR 1]"

definition mw32 :: "bool \<Rightarrow> 't rng \<Rightarrow> nat \<Rightarrow> (u32 list, 't) masked_ops" where
  "mw32 le R k =
     (if k = 2 then
        \<lparr> mw_zero = mw32_x2_zero R, mw_load = mw32_x2_load R, mw_load_partial = mw32_x2_load_partial R,
          mw_load_32 = mw32_x2_load_32 R, mw_store = mw32_x2_store, mw_store_partial = mw32_x2_store_partial,
          mw_randomize = mw32_x2_randomize R, mw_xor = mw32_x2_xor, mw_replace = mw32_x2_replace,
          mw_permute = ascon_x2_permute_c32 le \<rparr>
      else if k = 3 then
        \<lparr> mw_zero = mw32_x3_zero R, mw_load = mw32_x3_load R, mw_load_partial = mw32_x3_load_partial R,
          mw_load_32 = mw32_x3_load_32 R, mw_store = mw32_x3_store, mw_store_partial = mw32_x3_store_partial,
          mw_randomize = mw32_x3_randomize R, mw_xor = mw32_x3_xor, mw_replace = mw32_x3_replace,
          mw_permute = ascon_x3_permute_c32 le \<rparr>
      else
        \<lparr> mw_zero = mw32_x4_zero R, mw_load = mw32_x4_load R, mw_load_partial = mw32_x4_load_partial R,
          mw_load_32 = mw32_x4_load_32 R, mw_store = mw32_x4_store, mw_store_partial = mw32_x4_store_partial,
          mw_randomize = mw32_x4_randomize R, mw_xor = mw32_x4_xor, mw_replace = mw32_x4_replace,
          mw_permute = ascon_x4_permute_c32 le \<rparr>
     )"

section \<open>The word the shares stand for\<close>

text \<open>\<open>h\<close> is 0 for the even bits and 1 for the odd ones.\<close>

definition value32 :: "nat \<Rightarrow> u32 list \<Rightarrow> nat \<Rightarrow> u32" where
  "value32 k w h =
     w ! h XOR (ascon_mask32_unrotate_share1_0 (w ! (2 + h)) XOR
       ((if 3 \<le> k then ascon_mask32_unrotate_share2_0 (w ! (4 + h)) else 0) XOR
        (if 4 \<le> k then ascon_mask32_unrotate_share3_0 (w ! (6 + h)) else 0)))"

definition rep32 :: "nat \<Rightarrow> nat \<Rightarrow> u32 list \<Rightarrow> u64 \<Rightarrow> bool" where
  "rep32 mx k w x \<longleftrightarrow> length w = 2 * mx \<and> k \<le> mx \<and>
     value32 k w 0 = even_bits x \<and> value32 k w 1 = odd_bits x"

lemma slice_word_inj:
  assumes "even_bits x = even_bits y" "odd_bits x = odd_bits y"
  shows "x = y"
proof (rule bit_word_eqI)
  fix i assume "i < LENGTH(64)"
  then have i: "i div 2 < 32" by simp
  have e: "bit (even_bits x) (i div 2) = bit (even_bits y) (i div 2)"
    and o: "bit (odd_bits x) (i div 2) = bit (odd_bits y) (i div 2)"
    using assms by simp_all
  show "bit x i = bit y i"
  proof (cases "even i")
    case True
    with e i show ?thesis by (simp add: bit_even_odd)
  next
    case False
    with o i show ?thesis by (simp add: bit_even_odd)
  qed
qed

lemma slice_zero: "even_bits 0 = 0" "odd_bits 0 = 0"
  by (rule bit_word_eqI; simp add: bit_even_odd)+

lemma half_linear:
  "even_half (a XOR c) (b XOR d) = even_half a b XOR even_half c d"
  "odd_half (a XOR c) (b XOR d) = odd_half a b XOR odd_half c d"
  "high_half (a XOR c) (b XOR d) = high_half a b XOR high_half c d"
  "low_half (a XOR c) (b XOR d) = low_half a b XOR low_half c d"
  by (rule bit_word_eqI; auto simp: bit_halves bit_xor_iff)+

lemma slice_halves_word:
  "slice_halves (ucast (drop_bit 32 x)) (ucast x) = (even_bits x, odd_bits x)"
  by (simp add: slice_halves_def separate_word)

lemma slice_halves_xor:
  "slice_halves (a XOR c) (b XOR d) =
     (case (slice_halves a b, slice_halves c d) of ((e, o'), (e', o'')) \<Rightarrow> (e XOR e', o' XOR o''))"
  by (simp add: slice_halves_def separate_xor half_linear Let_def)

lemma slice_halves_load:
  "8 \<le> length d \<Longrightarrow> slice_halves (be_load_word32 d) (be_load_word32 (drop 4 d)) =
     (even_bits (be_load_word64 d), odd_bits (be_load_word64 d))"
  using slice_halves_word[of "be_load_word64 d"] by (simp add: load_halves)

lemma slice_halves_load_32:
  assumes "4 \<le> length a" "4 \<le> length b"
  shows "slice_halves (be_load_word32 a) (be_load_word32 b) =
     (even_bits (be_load_word64 (take 4 a @ take 4 b)), odd_bits (be_load_word64 (take 4 a @ take 4 b)))"
proof -
  have "be_load_word32 (take 4 a @ take 4 b) = be_load_word32 a"
    "be_load_word32 (drop 4 (take 4 a @ take 4 b)) = be_load_word32 b"
    using assms by (simp_all add: be_load_word32_def nth_append)
  with slice_halves_load[of "take 4 a @ take 4 b"] assms show ?thesis by simp
qed

lemma join_halves_word:
  assumes "a XOR c = even_bits x" "b XOR d = odd_bits x"
    "join_halves a b = (h, l)" "join_halves c d = (h', l')"
  shows "h XOR h' = ucast (drop_bit 32 x)" "l XOR l' = ucast x"
    "be_store_word32 (h XOR h') @ be_store_word32 (l XOR l') = be_store_word64 x"
    "(push_bit 32 (ucast h) OR ucast l) XOR (push_bit 32 (ucast h') OR ucast l') = x"
proof -
  show hl: "h XOR h' = ucast (drop_bit 32 x)" "l XOR l' = ucast x"
    using assms combine_word[of x] half_linear(3,4)[of a c b d]
    by (auto simp: join_halves_def combine_xor)
  then show "be_store_word32 (h XOR h') @ be_store_word32 (l XOR l') = be_store_word64 x"
    by (simp add: store_halves)
  have "(push_bit 32 (ucast h) OR ucast l) XOR (push_bit 32 (ucast h') OR ucast l') =
      (push_bit 32 (ucast (h XOR h')) OR ucast (l XOR l') :: u64)"
    by (rule bit_word_eqI) (auto simp: word_bit_simps bit_beyond)
  then show "(push_bit 32 (ucast h) OR ucast l) XOR (push_bit 32 (ucast h') OR ucast l') = x"
    by (simp add: hl word_of_halves)
qed

lemma take_4_4: "take 4 d @ take 4 (drop 4 d) = take 8 d"
  using take_add[of 4 4 d] by simp

lemma shares_present: "\<lbrakk>length w = 2 * mx; 2 \<le> mx\<rbrakk> \<Longrightarrow> w \<noteq> []" "\<lbrakk>length w = 2 * mx; 3 \<le> mx\<rbrakk> \<Longrightarrow> w \<noteq> []"
    "\<lbrakk>length w = 2 * mx; 4 \<le> mx\<rbrakk> \<Longrightarrow> w \<noteq> []"
  by auto

lemma mask32_twice:
  "ascon_mask32_rotate_share1_0 (ascon_mask32_rotate_share1_0 x) = ascon_mask32_rotate_share2_0 x"
  "ascon_mask32_rotate_share1_0 (ascon_mask32_rotate_share2_0 x) = ascon_mask32_rotate_share3_0 x"
  "ascon_mask32_rotate_share2_0 (ascon_mask32_rotate_share1_0 x) = ascon_mask32_rotate_share3_0 x"
  by (simp_all add: mask32_defs rotate_32 word_rotr_word_rotr_eq)

text \<open>The masks of \<open>replace\<close>: four bits of each half for a byte.\<close>

lemma slice_mask:
  assumes "n < 8"
  shows "even_bits (drop_bit (n * 8) (NOT 0)) = drop_bit (n * 4) (NOT 0)"
    "odd_bits (drop_bit (n * 8) (NOT 0)) = drop_bit (n * 4) (NOT 0)"
  by (rule bit_word_eqI; use assms in \<open>auto simp: bit_even_odd bit_mask_iff\<close>)+

lemma length_permute_c64: "length (ascon_permute_c64 xs r) = 5"
  by (simp add: ascon_permute_c64_def split: prod.split)

lemma permute_halves_slice:
  assumes "ascon_permute_c64 [x0, x1, x2, x3, x4] r = [y0, y1, y2, y3, y4]"
    "zip_half e o' = permute_halves r (even_bits x0, even_bits x1, even_bits x2, even_bits x3, even_bits x4)
       (odd_bits x0, odd_bits x1, odd_bits x2, odd_bits x3, odd_bits x4)"
  shows "invert_x2 e = (even_bits y0, even_bits y1, even_bits y2, even_bits y3, even_bits y4)"
    "invert_x2 o' = (odd_bits y0, odd_bits y1, odd_bits y2, odd_bits y3, odd_bits y4)"
proof -
  obtain z0 z1 z2 z3 z4 where z: "c64_rounds r (x0, x1, NOT x2, x3, x4) = (z0, z1, z2, z3, z4)"
    by (metis prod.exhaust)
  with assms(1) have y: "y0 = z0" "y1 = z1" "y2 = NOT z2" "y3 = z3" "y4 = z4"
    by (simp_all add: ascon_permute_c64_def c64_permute_def)
  have "zip_half e o' = slice_regs (z0, z1, z2, z3, z4)"
    using assms(2) slice_rounds[of r "(x0, x1, NOT x2, x3, x4)"] z
    by (simp add: permute_halves_def invert_x2_def zip_half_def slice_regs_def slice_word_def slice_not)
  then show "invert_x2 e = (even_bits y0, even_bits y1, even_bits y2, even_bits y3, even_bits y4)"
    "invert_x2 o' = (odd_bits y0, odd_bits y1, odd_bits y2, odd_bits y3, odd_bits y4)"
    by (auto simp: zip_half_def slice_regs_def slice_word_def invert_x2_def y slice_not split: prod.splits)
qed

lemmas mw32_x2_defs =
  mw32_x2_zero_def mw32_x2_load_def mw32_x2_load_partial_def mw32_x2_load_32_def
  mw32_x2_store_def mw32_x2_store_partial_def mw32_x2_randomize_def mw32_x2_xor_def mw32_x2_replace_def

lemma value32_x2:
  "value32 2 w 0 = w ! 0 XOR ascon_mask32_unrotate_share1_0 (w ! 2)"
  "value32 2 w (Suc 0) = w ! Suc 0 XOR ascon_mask32_unrotate_share1_0 (w ! 3)"
  by (simp_all add: value32_def eval_nat_numeral)

lemma ascon_x2_permute_c32_rep:
  assumes "list_all2 (rep32 mx 2) ws xs" "length xs = 5" "2 \<le> Suc (length p)"
  shows "list_all2 (rep32 mx 2) (fst (ascon_x2_permute_c32 le ws r p)) (ascon_permute_c64 xs r) \<and>
    length (snd (ascon_x2_permute_c32 le ws r p)) = length p"
proof -
  from assms obtain w0 w1 w2 w3 w4 x0 x1 x2 x3 x4 where
    ws: "ws = [w0, w1, w2, w3, w4]" and xs: "xs = [x0, x1, x2, x3, x4]"
    by (metis list_all2_lengthD list5_cases)
  have len: "length w0 = 2 * mx" "length w1 = 2 * mx" "length w2 = 2 * mx" "length w3 = 2 * mx"
    "length w4 = 2 * mx" "2 \<le> mx"
    and vals: "value32 2 w0 0 = even_bits x0" "value32 2 w0 1 = odd_bits x0"
      "value32 2 w1 0 = even_bits x1" "value32 2 w1 1 = odd_bits x1"
      "value32 2 w2 0 = even_bits x2" "value32 2 w2 1 = odd_bits x2"
      "value32 2 w3 0 = even_bits x3" "value32 2 w3 1 = odd_bits x3"
      "value32 2 w4 0 = even_bits x4" "value32 2 w4 1 = odd_bits x4"
    using assms(1) by (simp_all add: ws xs rep32_def)
  obtain ae' be' ao' bo' t0_ae' t0_ao' where
    r: "masked_rounds32 x2_round32 r
        (invert_x2 (half_regs ws 0), half_regs ws 2, invert_x2 (half_regs ws 1), half_regs ws 3,
         preserve_word le p 0, preserve_word le p 1) =
      (ae', be', ao', bo', t0_ae', t0_ao')" by (metis prod.exhaust)
  obtain y0_ae y1_ae y2_ae y3_ae y4_ae where y_ae: "invert_x2 ae' = (y0_ae, y1_ae, y2_ae, y3_ae, y4_ae)" by (metis prod.exhaust)
  obtain y0_ao y1_ao y2_ao y3_ao y4_ao where y_ao: "invert_x2 ao' = (y0_ao, y1_ao, y2_ao, y3_ao, y4_ao)" by (metis prod.exhaust)
  obtain y0_be y1_be y2_be y3_be y4_be where y_be: "be' = (y0_be, y1_be, y2_be, y3_be, y4_be)" by (metis prod.exhaust)
  obtain y0_bo y1_bo y2_bo y3_bo y4_bo where y_bo: "bo' = (y0_bo, y1_bo, y2_bo, y3_bo, y4_bo)" by (metis prod.exhaust)
  note y = y_ae y_ao y_be y_bo
  obtain y0 y1 y2 y3 y4 where Y: "ascon_permute_c64 xs r = [y0, y1, y2, y3, y4]"
    using list5_cases[OF length_permute_c64] by blast
  have halves: "unmask2_32 (half_regs ws 0) (half_regs ws 2) =
      (even_bits x0, even_bits x1, even_bits x2, even_bits x3, even_bits x4)"
    "unmask2_32 (half_regs ws 1) (half_regs ws 3) =
      (odd_bits x0, odd_bits x1, odd_bits x2, odd_bits x3, odd_bits x4)"
    using vals by (simp_all add: half_regs_def ws unmask2_32_def xor_half_def map_half_def value32_x2 xor.assoc)
  have inv: "unmask2_32 (invert_x2 ae') be' = invert_x2 (unmask2_32 ae' be')"
    "unmask2_32 (invert_x2 ao') bo' = invert_x2 (unmask2_32 ao' bo')"
    by (simp_all add: unmask2_32_parts)
  have out: "unmask2_32 (invert_x2 ae') be' =
      (even_bits y0, even_bits y1, even_bits y2, even_bits y3, even_bits y4)"
    "unmask2_32 (invert_x2 ao') bo' =
      (odd_bits y0, odd_bits y1, odd_bits y2, odd_bits y3, odd_bits y4)"
    using x2_rounds32_unmask[OF r] permute_halves_slice[OF Y[unfolded xs]]
    unfolding halves inv by simp_all
  have "ascon_x2_permute_c32 le ws r p =
      (put_half (put_half (put_half (put_half ws 0 (invert_x2 ae')) 1 (invert_x2 ao')) 2 be') 3 bo',
       p[0 := preserve_pair le t0_ae' t0_ao'])"
    unfolding ascon_x2_permute_c32_def Let_def r prod.case ..
  with out show ?thesis
    using len
    by (simp add: Y y put_half_def ws rep32_def value32_x2 unmask2_32_def
        xor_half_def map_half_def xor.assoc)
qed

lemmas mw32_x3_defs =
  mw32_x3_zero_def mw32_x3_load_def mw32_x3_load_partial_def mw32_x3_load_32_def
  mw32_x3_store_def mw32_x3_store_partial_def mw32_x3_randomize_def mw32_x3_xor_def mw32_x3_replace_def

lemma value32_x3:
  "value32 3 w 0 = w ! 0 XOR ascon_mask32_unrotate_share1_0 (w ! 2) XOR ascon_mask32_unrotate_share2_0 (w ! 4)"
  "value32 3 w (Suc 0) = w ! Suc 0 XOR ascon_mask32_unrotate_share1_0 (w ! 3) XOR ascon_mask32_unrotate_share2_0 (w ! 5)"
  by (simp_all add: value32_def eval_nat_numeral)

lemma ascon_x3_permute_c32_rep:
  assumes "list_all2 (rep32 mx 3) ws xs" "length xs = 5" "3 \<le> Suc (length p)"
  shows "list_all2 (rep32 mx 3) (fst (ascon_x3_permute_c32 le ws r p)) (ascon_permute_c64 xs r) \<and>
    length (snd (ascon_x3_permute_c32 le ws r p)) = length p"
proof -
  from assms obtain w0 w1 w2 w3 w4 x0 x1 x2 x3 x4 where
    ws: "ws = [w0, w1, w2, w3, w4]" and xs: "xs = [x0, x1, x2, x3, x4]"
    by (metis list_all2_lengthD list5_cases)
  have len: "length w0 = 2 * mx" "length w1 = 2 * mx" "length w2 = 2 * mx" "length w3 = 2 * mx"
    "length w4 = 2 * mx" "3 \<le> mx"
    and vals: "value32 3 w0 0 = even_bits x0" "value32 3 w0 1 = odd_bits x0"
      "value32 3 w1 0 = even_bits x1" "value32 3 w1 1 = odd_bits x1"
      "value32 3 w2 0 = even_bits x2" "value32 3 w2 1 = odd_bits x2"
      "value32 3 w3 0 = even_bits x3" "value32 3 w3 1 = odd_bits x3"
      "value32 3 w4 0 = even_bits x4" "value32 3 w4 1 = odd_bits x4"
    using assms(1) by (simp_all add: ws xs rep32_def)
  obtain ae' be' ce' ao' bo' co' t0_ae' t0_be' t0_ao' t0_bo' where
    r: "masked_rounds32 x3_round32 r
        (invert_x2 (half_regs ws 0), half_regs ws 2, half_regs ws 4, invert_x2 (half_regs ws 1), half_regs ws 3, half_regs ws 5,
         preserve_word le p 0, preserve_word le p 2, preserve_word le p 1, preserve_word le p 3) =
      (ae', be', ce', ao', bo', co', t0_ae', t0_be', t0_ao', t0_bo')" by (metis prod.exhaust)
  obtain y0_ae y1_ae y2_ae y3_ae y4_ae where y_ae: "invert_x2 ae' = (y0_ae, y1_ae, y2_ae, y3_ae, y4_ae)" by (metis prod.exhaust)
  obtain y0_ao y1_ao y2_ao y3_ao y4_ao where y_ao: "invert_x2 ao' = (y0_ao, y1_ao, y2_ao, y3_ao, y4_ao)" by (metis prod.exhaust)
  obtain y0_be y1_be y2_be y3_be y4_be where y_be: "be' = (y0_be, y1_be, y2_be, y3_be, y4_be)" by (metis prod.exhaust)
  obtain y0_bo y1_bo y2_bo y3_bo y4_bo where y_bo: "bo' = (y0_bo, y1_bo, y2_bo, y3_bo, y4_bo)" by (metis prod.exhaust)
  obtain y0_ce y1_ce y2_ce y3_ce y4_ce where y_ce: "ce' = (y0_ce, y1_ce, y2_ce, y3_ce, y4_ce)" by (metis prod.exhaust)
  obtain y0_co y1_co y2_co y3_co y4_co where y_co: "co' = (y0_co, y1_co, y2_co, y3_co, y4_co)" by (metis prod.exhaust)
  note y = y_ae y_ao y_be y_bo y_ce y_co
  obtain y0 y1 y2 y3 y4 where Y: "ascon_permute_c64 xs r = [y0, y1, y2, y3, y4]"
    using list5_cases[OF length_permute_c64] by blast
  have halves: "unmask3_32 (half_regs ws 0) (half_regs ws 2) (half_regs ws 4) =
      (even_bits x0, even_bits x1, even_bits x2, even_bits x3, even_bits x4)"
    "unmask3_32 (half_regs ws 1) (half_regs ws 3) (half_regs ws 5) =
      (odd_bits x0, odd_bits x1, odd_bits x2, odd_bits x3, odd_bits x4)"
    using vals by (simp_all add: half_regs_def ws unmask3_32_def xor_half_def map_half_def value32_x3 xor.assoc)
  have inv: "unmask3_32 (invert_x2 ae') be' ce' = invert_x2 (unmask3_32 ae' be' ce')"
    "unmask3_32 (invert_x2 ao') bo' co' = invert_x2 (unmask3_32 ao' bo' co')"
    by (simp_all add: unmask3_32_parts)
  have out: "unmask3_32 (invert_x2 ae') be' ce' =
      (even_bits y0, even_bits y1, even_bits y2, even_bits y3, even_bits y4)"
    "unmask3_32 (invert_x2 ao') bo' co' =
      (odd_bits y0, odd_bits y1, odd_bits y2, odd_bits y3, odd_bits y4)"
    using x3_rounds32_unmask[OF r] permute_halves_slice[OF Y[unfolded xs]]
    unfolding halves inv by simp_all
  have "ascon_x3_permute_c32 le ws r p =
      (put_half (put_half (put_half (put_half (put_half (put_half ws 0 (invert_x2 ae')) 1 (invert_x2 ao')) 2 be') 3 bo') 4 ce') 5 co',
       p[0 := preserve_pair le t0_ae' t0_ao', 1 := preserve_pair le t0_be' t0_bo'])"
    unfolding ascon_x3_permute_c32_def Let_def r prod.case ..
  with out show ?thesis
    using len
    by (simp add: Y y put_half_def ws rep32_def value32_x3 unmask3_32_def
        xor_half_def map_half_def xor.assoc)
qed

lemmas mw32_x4_defs =
  mw32_x4_zero_def mw32_x4_load_def mw32_x4_load_partial_def mw32_x4_load_32_def
  mw32_x4_store_def mw32_x4_store_partial_def mw32_x4_randomize_def mw32_x4_xor_def mw32_x4_replace_def

lemma value32_x4:
  "value32 4 w 0 = w ! 0 XOR ascon_mask32_unrotate_share1_0 (w ! 2) XOR ascon_mask32_unrotate_share2_0 (w ! 4) XOR ascon_mask32_unrotate_share3_0 (w ! 6)"
  "value32 4 w (Suc 0) = w ! Suc 0 XOR ascon_mask32_unrotate_share1_0 (w ! 3) XOR ascon_mask32_unrotate_share2_0 (w ! 5) XOR ascon_mask32_unrotate_share3_0 (w ! 7)"
  by (simp_all add: value32_def eval_nat_numeral)

lemma ascon_x4_permute_c32_rep:
  assumes "list_all2 (rep32 mx 4) ws xs" "length xs = 5" "4 \<le> Suc (length p)"
  shows "list_all2 (rep32 mx 4) (fst (ascon_x4_permute_c32 le ws r p)) (ascon_permute_c64 xs r) \<and>
    length (snd (ascon_x4_permute_c32 le ws r p)) = length p"
proof -
  from assms obtain w0 w1 w2 w3 w4 x0 x1 x2 x3 x4 where
    ws: "ws = [w0, w1, w2, w3, w4]" and xs: "xs = [x0, x1, x2, x3, x4]"
    by (metis list_all2_lengthD list5_cases)
  have len: "length w0 = 2 * mx" "length w1 = 2 * mx" "length w2 = 2 * mx" "length w3 = 2 * mx"
    "length w4 = 2 * mx" "4 \<le> mx"
    and vals: "value32 4 w0 0 = even_bits x0" "value32 4 w0 1 = odd_bits x0"
      "value32 4 w1 0 = even_bits x1" "value32 4 w1 1 = odd_bits x1"
      "value32 4 w2 0 = even_bits x2" "value32 4 w2 1 = odd_bits x2"
      "value32 4 w3 0 = even_bits x3" "value32 4 w3 1 = odd_bits x3"
      "value32 4 w4 0 = even_bits x4" "value32 4 w4 1 = odd_bits x4"
    using assms(1) by (simp_all add: ws xs rep32_def)
  obtain ae' be' ce' de' ao' bo' co' do' t0_ae' t0_be' t0_ce' t0_ao' t0_bo' t0_co' where
    r: "masked_rounds32 x4_round32 r
        (invert_x2 (half_regs ws 0), half_regs ws 2, half_regs ws 4, half_regs ws 6, invert_x2 (half_regs ws 1), half_regs ws 3, half_regs ws 5, half_regs ws 7,
         preserve_word le p 0, preserve_word le p 2, preserve_word le p 4, preserve_word le p 1, preserve_word le p 3, preserve_word le p 5) =
      (ae', be', ce', de', ao', bo', co', do', t0_ae', t0_be', t0_ce', t0_ao', t0_bo', t0_co')" by (metis prod.exhaust)
  obtain y0_ae y1_ae y2_ae y3_ae y4_ae where y_ae: "invert_x2 ae' = (y0_ae, y1_ae, y2_ae, y3_ae, y4_ae)" by (metis prod.exhaust)
  obtain y0_ao y1_ao y2_ao y3_ao y4_ao where y_ao: "invert_x2 ao' = (y0_ao, y1_ao, y2_ao, y3_ao, y4_ao)" by (metis prod.exhaust)
  obtain y0_be y1_be y2_be y3_be y4_be where y_be: "be' = (y0_be, y1_be, y2_be, y3_be, y4_be)" by (metis prod.exhaust)
  obtain y0_bo y1_bo y2_bo y3_bo y4_bo where y_bo: "bo' = (y0_bo, y1_bo, y2_bo, y3_bo, y4_bo)" by (metis prod.exhaust)
  obtain y0_ce y1_ce y2_ce y3_ce y4_ce where y_ce: "ce' = (y0_ce, y1_ce, y2_ce, y3_ce, y4_ce)" by (metis prod.exhaust)
  obtain y0_co y1_co y2_co y3_co y4_co where y_co: "co' = (y0_co, y1_co, y2_co, y3_co, y4_co)" by (metis prod.exhaust)
  obtain y0_de y1_de y2_de y3_de y4_de where y_de: "de' = (y0_de, y1_de, y2_de, y3_de, y4_de)" by (metis prod.exhaust)
  obtain y0_do y1_do y2_do y3_do y4_do where y_do: "do' = (y0_do, y1_do, y2_do, y3_do, y4_do)" by (metis prod.exhaust)
  note y = y_ae y_ao y_be y_bo y_ce y_co y_de y_do
  obtain y0 y1 y2 y3 y4 where Y: "ascon_permute_c64 xs r = [y0, y1, y2, y3, y4]"
    using list5_cases[OF length_permute_c64] by blast
  have halves: "unmask4_32 (half_regs ws 0) (half_regs ws 2) (half_regs ws 4) (half_regs ws 6) =
      (even_bits x0, even_bits x1, even_bits x2, even_bits x3, even_bits x4)"
    "unmask4_32 (half_regs ws 1) (half_regs ws 3) (half_regs ws 5) (half_regs ws 7) =
      (odd_bits x0, odd_bits x1, odd_bits x2, odd_bits x3, odd_bits x4)"
    using vals by (simp_all add: half_regs_def ws unmask4_32_def xor_half_def map_half_def value32_x4 xor.assoc)
  have inv: "unmask4_32 (invert_x2 ae') be' ce' de' = invert_x2 (unmask4_32 ae' be' ce' de')"
    "unmask4_32 (invert_x2 ao') bo' co' do' = invert_x2 (unmask4_32 ao' bo' co' do')"
    by (simp_all add: unmask4_32_parts)
  have out: "unmask4_32 (invert_x2 ae') be' ce' de' =
      (even_bits y0, even_bits y1, even_bits y2, even_bits y3, even_bits y4)"
    "unmask4_32 (invert_x2 ao') bo' co' do' =
      (odd_bits y0, odd_bits y1, odd_bits y2, odd_bits y3, odd_bits y4)"
    using x4_rounds32_unmask[OF r] permute_halves_slice[OF Y[unfolded xs]]
    unfolding halves inv by simp_all
  have "ascon_x4_permute_c32 le ws r p =
      (put_half (put_half (put_half (put_half (put_half (put_half (put_half (put_half ws 0 (invert_x2 ae')) 1 (invert_x2 ao')) 2 be') 3 bo') 4 ce') 5 co') 6 de') 7 do',
       p[0 := preserve_pair le t0_ae' t0_ao', 1 := preserve_pair le t0_be' t0_bo', 2 := preserve_pair le t0_ce' t0_co'])"
    unfolding ascon_x4_permute_c32_def Let_def r prod.case ..
  with out show ?thesis
    using len
    by (simp add: Y y put_half_def ws rep32_def value32_x4 unmask4_32_def
        xor_half_def map_half_def xor.assoc)
qed

lemma mw32_x2_replace_rep:
  assumes "rep32 mx 2 w x" "rep32 mx 2 v y" "n < 8"
  shows "rep32 mx 2 (mw32_x2_replace w v n)
    (be_load_word64 (take n (be_store_word64 y) @ drop n (be_store_word64 x)))"
proof -
  from assms(1,2) have len: "length w = 2 * mx" "2 \<le> mx" by (simp_all add: rep32_def)
  let ?r = "\<lambda>m. w[0 := (w ! 0 AND m) OR (v ! 0 AND NOT m),
        1 := (w ! 1 AND m) OR (v ! 1 AND NOT m),
        2 := (w ! 2 AND ascon_mask32_rotate_share1_0 m) OR (v ! 2 AND ascon_mask32_rotate_share1_0 (NOT m)),
        3 := (w ! 3 AND ascon_mask32_rotate_share1_0 m) OR (v ! 3 AND ascon_mask32_rotate_share1_0 (NOT m))]"
  have "value32 2 (?r m) 0 = (value32 2 w 0 AND m) XOR (value32 2 v 0 AND NOT m)"
    "value32 2 (?r m) 1 = (value32 2 w 1 AND m) XOR (value32 2 v 1 AND NOT m)" for m
    using len by (simp_all add: value32_x2 shares_present or_masked mask32_bitwise)
      (simp_all add: bit.conj_xor_distrib bit.conj_xor_distrib2 ac_simps)
  moreover have "mw32_x2_replace w v n = ?r (drop_bit (n * 4) (NOT 0))"
  proof -
    define m :: u32 where "m = drop_bit (n * 4) (NOT 0)"
    show ?thesis
      unfolding mw32_x2_replace_def Let_def m_def[symmetric] mask32_twice by (simp add: mask32_twice)
  qed
  ultimately show ?thesis
    using assms(1,2)
    unfolding rep32_def replace_word[OF assms(3), symmetric] slice_xor slice_and
      slice_not slice_mask[OF assms(3)]
    by (simp only: length_list_update simp_thms)
qed

lemma mw32_x2_xor_rep:
  assumes "rep32 mx 2 w x" "rep32 mx 2 v y"
  shows "rep32 mx 2 (mw32_x2_xor w v) (x XOR y)"
proof -
  from assms have len: "length w = 2 * mx" "2 \<le> mx" by (simp_all add: rep32_def)
  have "value32 2 (mw32_x2_xor w v) 0 = value32 2 w 0 XOR value32 2 v 0"
    "value32 2 (mw32_x2_xor w v) 1 = value32 2 w 1 XOR value32 2 v 1"
    using len by (simp_all add: value32_x2 mw32_x2_xor_def shares_present mask32_bitwise ac_simps)
  with assms show ?thesis by (simp add: rep32_def slice_xor mw32_x2_xor_def)
qed

lemma mw32_x2_laws:
  "masked_word (mw32 le R 2) (rep32 mx 2) (\<lambda>w. length w = 2 * mx \<and> 2 \<le> mx) 2"
proof unfold_locales
  show "list_all2 (rep32 mx 2) (fst (mw_permute (mw32 le R 2) ws r p)) (ascon_permute_c64 xs r) \<and>
      length (snd (mw_permute (mw32 le R 2) ws r p)) = length p"
    if "list_all2 (rep32 mx 2) ws xs" "length xs = 5" "2 \<le> Suc (length p)" for ws xs r p
    using ascon_x2_permute_c32_rep[OF that] by (simp add: mw32_def)
  show "mw_store (mw32 le R 2) w = be_store_word64 x" if "rep32 mx 2 w x" for w x
    using that by (auto simp: mw32_def mw32_x2_store_def rep32_def value32_x2 join_halves_word(3) split: prod.splits)
  show "mw_store_partial (mw32 le R 2) n w = take n (be_store_word64 x)"
    if "rep32 mx 2 w x" "n < 8" for w x n
    using that join_halves_word(4)
    by (auto simp: mw32_def mw32_x2_store_partial_def rep32_def value32_x2 partial_output_eq xor_list_def split: prod.splits)
  show "rep32 mx 2 (snd (mw_randomize (mw32 le R 2) w v t)) x"
    if "length w = 2 * mx \<and> 2 \<le> mx" "rep32 mx 2 v x" for w v t x
  proof -
    have "value32 2 (snd (mw32_x2_randomize R w v t)) 0 = value32 2 v 0"
      "value32 2 (snd (mw32_x2_randomize R w v t)) 1 = value32 2 v 1"
      using that by (simp_all add: value32_x2 mw32_x2_randomize_def shares_present mask32_bitwise ac_simps split: prod.splits)
    with that show ?thesis by (simp add: mw32_def rep32_def) (simp add: mw32_x2_randomize_def split: prod.splits)
  qed
  show "x = y" if "rep32 mx 2 w x" "rep32 mx 2 w y" for w x y
    using that by (auto simp: rep32_def intro: slice_word_inj)
  show "rep32 mx 2 (snd (mw_zero (mw32 le R 2) w t)) 0"
    if "length w = 2 * mx \<and> 2 \<le> mx" for w t
    using that by (auto simp: mw32_def mw32_x2_zero_def rep32_def value32_x2 shares_present mask32_bitwise slice_zero
        ac_simps split: prod.splits)
  show "rep32 mx 2 (snd (mw_load (mw32 le R 2) w d t)) (be_load_word64 d)"
    if "length w = 2 * mx \<and> 2 \<le> mx" "8 \<le> length d" for w d t
    using that slice_halves_load[OF that(2)] by (auto simp: mw32_def mw32_x2_load_def rep32_def value32_x2 shares_present mask32_bitwise
        slice_halves_xor ac_simps split: prod.splits)
  show "rep32 mx 2 (snd (mw_load_32 (mw32 le R 2) w d1 d2 t)) (be_load_word64 (take 4 d1 @ take 4 d2))"
    if "length w = 2 * mx \<and> 2 \<le> mx" "4 \<le> length d1" "4 \<le> length d2" for w d1 d2 t
    using that slice_halves_load_32[OF that(2,3)] by (auto simp: mw32_def mw32_x2_load_32_def rep32_def value32_x2 shares_present mask32_bitwise
        slice_halves_xor ac_simps split: prod.splits)
  show "rep32 mx 2 (snd (mw_load_partial (mw32 le R 2) w d n t)) (be_load_word64 (take n d @ zeros (8 - n)))"
    if "length w = 2 * mx \<and> 2 \<le> mx" "n < 8" "n \<le> length d" for w d n t
    using that by (auto simp: mw32_def mw32_x2_load_partial_def partial_rotations_eq rep32_def value32_x2 shares_present mask32_bitwise
        slice_halves_word slice_xor ac_simps split: prod.splits)
qed (auto simp: mw32_def mw32_x2_replace_rep mw32_x2_xor_rep, auto simp: rep32_def)

lemma mw32_x3_replace_rep:
  assumes "rep32 mx 3 w x" "rep32 mx 3 v y" "n < 8"
  shows "rep32 mx 3 (mw32_x3_replace w v n)
    (be_load_word64 (take n (be_store_word64 y) @ drop n (be_store_word64 x)))"
proof -
  from assms(1,2) have len: "length w = 2 * mx" "3 \<le> mx" by (simp_all add: rep32_def)
  let ?r = "\<lambda>m. w[0 := (w ! 0 AND m) OR (v ! 0 AND NOT m),
        1 := (w ! 1 AND m) OR (v ! 1 AND NOT m),
        2 := (w ! 2 AND ascon_mask32_rotate_share1_0 m) OR (v ! 2 AND ascon_mask32_rotate_share1_0 (NOT m)),
        3 := (w ! 3 AND ascon_mask32_rotate_share1_0 m) OR (v ! 3 AND ascon_mask32_rotate_share1_0 (NOT m)),
        4 := (w ! 4 AND ascon_mask32_rotate_share2_0 m) OR (v ! 4 AND ascon_mask32_rotate_share2_0 (NOT m)),
        5 := (w ! 5 AND ascon_mask32_rotate_share2_0 m) OR (v ! 5 AND ascon_mask32_rotate_share2_0 (NOT m))]"
  have "value32 3 (?r m) 0 = (value32 3 w 0 AND m) XOR (value32 3 v 0 AND NOT m)"
    "value32 3 (?r m) 1 = (value32 3 w 1 AND m) XOR (value32 3 v 1 AND NOT m)" for m
    using len by (simp_all add: value32_x3 shares_present or_masked mask32_bitwise)
      (simp_all add: bit.conj_xor_distrib bit.conj_xor_distrib2 ac_simps)
  moreover have "mw32_x3_replace w v n = ?r (drop_bit (n * 4) (NOT 0))"
  proof -
    define m :: u32 where "m = drop_bit (n * 4) (NOT 0)"
    show ?thesis
      unfolding mw32_x3_replace_def Let_def m_def[symmetric] mask32_twice by (simp add: mask32_twice)
  qed
  ultimately show ?thesis
    using assms(1,2)
    unfolding rep32_def replace_word[OF assms(3), symmetric] slice_xor slice_and
      slice_not slice_mask[OF assms(3)]
    by (simp only: length_list_update simp_thms)
qed

lemma mw32_x3_xor_rep:
  assumes "rep32 mx 3 w x" "rep32 mx 3 v y"
  shows "rep32 mx 3 (mw32_x3_xor w v) (x XOR y)"
proof -
  from assms have len: "length w = 2 * mx" "3 \<le> mx" by (simp_all add: rep32_def)
  have "value32 3 (mw32_x3_xor w v) 0 = value32 3 w 0 XOR value32 3 v 0"
    "value32 3 (mw32_x3_xor w v) 1 = value32 3 w 1 XOR value32 3 v 1"
    using len by (simp_all add: value32_x3 mw32_x3_xor_def shares_present mask32_bitwise ac_simps)
  with assms show ?thesis by (simp add: rep32_def slice_xor mw32_x3_xor_def)
qed

lemma mw32_x3_laws:
  "masked_word (mw32 le R 3) (rep32 mx 3) (\<lambda>w. length w = 2 * mx \<and> 3 \<le> mx) 3"
proof unfold_locales
  show "list_all2 (rep32 mx 3) (fst (mw_permute (mw32 le R 3) ws r p)) (ascon_permute_c64 xs r) \<and>
      length (snd (mw_permute (mw32 le R 3) ws r p)) = length p"
    if "list_all2 (rep32 mx 3) ws xs" "length xs = 5" "3 \<le> Suc (length p)" for ws xs r p
    using ascon_x3_permute_c32_rep[OF that] by (simp add: mw32_def)
  show "mw_store (mw32 le R 3) w = be_store_word64 x" if "rep32 mx 3 w x" for w x
    using that by (auto simp: mw32_def mw32_x3_store_def rep32_def value32_x3 join_halves_word(3) split: prod.splits)
  show "mw_store_partial (mw32 le R 3) n w = take n (be_store_word64 x)"
    if "rep32 mx 3 w x" "n < 8" for w x n
    using that join_halves_word(4)
    by (auto simp: mw32_def mw32_x3_store_partial_def rep32_def value32_x3 partial_output_eq xor_list_def split: prod.splits)
  show "rep32 mx 3 (snd (mw_randomize (mw32 le R 3) w v t)) x"
    if "length w = 2 * mx \<and> 3 \<le> mx" "rep32 mx 3 v x" for w v t x
  proof -
    have "value32 3 (snd (mw32_x3_randomize R w v t)) 0 = value32 3 v 0"
      "value32 3 (snd (mw32_x3_randomize R w v t)) 1 = value32 3 v 1"
      using that by (simp_all add: value32_x3 mw32_x3_randomize_def shares_present mask32_bitwise ac_simps split: prod.splits)
    with that show ?thesis by (simp add: mw32_def rep32_def) (simp add: mw32_x3_randomize_def split: prod.splits)
  qed
  show "x = y" if "rep32 mx 3 w x" "rep32 mx 3 w y" for w x y
    using that by (auto simp: rep32_def intro: slice_word_inj)
  show "rep32 mx 3 (snd (mw_zero (mw32 le R 3) w t)) 0"
    if "length w = 2 * mx \<and> 3 \<le> mx" for w t
    using that by (auto simp: mw32_def mw32_x3_zero_def rep32_def value32_x3 shares_present mask32_bitwise slice_zero
        ac_simps split: prod.splits)
  show "rep32 mx 3 (snd (mw_load (mw32 le R 3) w d t)) (be_load_word64 d)"
    if "length w = 2 * mx \<and> 3 \<le> mx" "8 \<le> length d" for w d t
    using that slice_halves_load[OF that(2)] by (auto simp: mw32_def mw32_x3_load_def rep32_def value32_x3 shares_present mask32_bitwise
        slice_halves_xor ac_simps split: prod.splits)
  show "rep32 mx 3 (snd (mw_load_32 (mw32 le R 3) w d1 d2 t)) (be_load_word64 (take 4 d1 @ take 4 d2))"
    if "length w = 2 * mx \<and> 3 \<le> mx" "4 \<le> length d1" "4 \<le> length d2" for w d1 d2 t
    using that slice_halves_load_32[OF that(2,3)] by (auto simp: mw32_def mw32_x3_load_32_def rep32_def value32_x3 shares_present mask32_bitwise
        slice_halves_xor ac_simps split: prod.splits)
  show "rep32 mx 3 (snd (mw_load_partial (mw32 le R 3) w d n t)) (be_load_word64 (take n d @ zeros (8 - n)))"
    if "length w = 2 * mx \<and> 3 \<le> mx" "n < 8" "n \<le> length d" for w d n t
    using that by (auto simp: mw32_def mw32_x3_load_partial_def partial_rotations_eq rep32_def value32_x3 shares_present mask32_bitwise
        slice_halves_word slice_xor ac_simps split: prod.splits)
qed (auto simp: mw32_def mw32_x3_replace_rep mw32_x3_xor_rep, auto simp: rep32_def)

lemma mw32_x4_replace_rep:
  assumes "rep32 mx 4 w x" "rep32 mx 4 v y" "n < 8"
  shows "rep32 mx 4 (mw32_x4_replace w v n)
    (be_load_word64 (take n (be_store_word64 y) @ drop n (be_store_word64 x)))"
proof -
  from assms(1,2) have len: "length w = 2 * mx" "4 \<le> mx" by (simp_all add: rep32_def)
  let ?r = "\<lambda>m. w[0 := (w ! 0 AND m) OR (v ! 0 AND NOT m),
        1 := (w ! 1 AND m) OR (v ! 1 AND NOT m),
        2 := (w ! 2 AND ascon_mask32_rotate_share1_0 m) OR (v ! 2 AND ascon_mask32_rotate_share1_0 (NOT m)),
        3 := (w ! 3 AND ascon_mask32_rotate_share1_0 m) OR (v ! 3 AND ascon_mask32_rotate_share1_0 (NOT m)),
        4 := (w ! 4 AND ascon_mask32_rotate_share2_0 m) OR (v ! 4 AND ascon_mask32_rotate_share2_0 (NOT m)),
        5 := (w ! 5 AND ascon_mask32_rotate_share2_0 m) OR (v ! 5 AND ascon_mask32_rotate_share2_0 (NOT m)),
        6 := (w ! 6 AND ascon_mask32_rotate_share3_0 m) OR (v ! 6 AND ascon_mask32_rotate_share3_0 (NOT m)),
        7 := (w ! 7 AND ascon_mask32_rotate_share3_0 m) OR (v ! 7 AND ascon_mask32_rotate_share3_0 (NOT m))]"
  have "value32 4 (?r m) 0 = (value32 4 w 0 AND m) XOR (value32 4 v 0 AND NOT m)"
    "value32 4 (?r m) 1 = (value32 4 w 1 AND m) XOR (value32 4 v 1 AND NOT m)" for m
    using len by (simp_all add: value32_x4 shares_present or_masked mask32_bitwise)
      (simp_all add: bit.conj_xor_distrib bit.conj_xor_distrib2 ac_simps)
  moreover have "mw32_x4_replace w v n = ?r (drop_bit (n * 4) (NOT 0))"
  proof -
    define m :: u32 where "m = drop_bit (n * 4) (NOT 0)"
    show ?thesis
      unfolding mw32_x4_replace_def Let_def m_def[symmetric] mask32_twice by (simp add: mask32_twice)
  qed
  ultimately show ?thesis
    using assms(1,2)
    unfolding rep32_def replace_word[OF assms(3), symmetric] slice_xor slice_and
      slice_not slice_mask[OF assms(3)]
    by (simp only: length_list_update simp_thms)
qed

lemma mw32_x4_xor_rep:
  assumes "rep32 mx 4 w x" "rep32 mx 4 v y"
  shows "rep32 mx 4 (mw32_x4_xor w v) (x XOR y)"
proof -
  from assms have len: "length w = 2 * mx" "4 \<le> mx" by (simp_all add: rep32_def)
  have "value32 4 (mw32_x4_xor w v) 0 = value32 4 w 0 XOR value32 4 v 0"
    "value32 4 (mw32_x4_xor w v) 1 = value32 4 w 1 XOR value32 4 v 1"
    using len by (simp_all add: value32_x4 mw32_x4_xor_def shares_present mask32_bitwise ac_simps)
  with assms show ?thesis by (simp add: rep32_def slice_xor mw32_x4_xor_def)
qed

lemma mw32_x4_laws:
  "masked_word (mw32 le R 4) (rep32 mx 4) (\<lambda>w. length w = 2 * mx \<and> 4 \<le> mx) 4"
proof unfold_locales
  show "list_all2 (rep32 mx 4) (fst (mw_permute (mw32 le R 4) ws r p)) (ascon_permute_c64 xs r) \<and>
      length (snd (mw_permute (mw32 le R 4) ws r p)) = length p"
    if "list_all2 (rep32 mx 4) ws xs" "length xs = 5" "4 \<le> Suc (length p)" for ws xs r p
    using ascon_x4_permute_c32_rep[OF that] by (simp add: mw32_def)
  show "mw_store (mw32 le R 4) w = be_store_word64 x" if "rep32 mx 4 w x" for w x
    using that by (auto simp: mw32_def mw32_x4_store_def rep32_def value32_x4 join_halves_word(3) split: prod.splits)
  show "mw_store_partial (mw32 le R 4) n w = take n (be_store_word64 x)"
    if "rep32 mx 4 w x" "n < 8" for w x n
    using that join_halves_word(4)
    by (auto simp: mw32_def mw32_x4_store_partial_def rep32_def value32_x4 partial_output_eq xor_list_def split: prod.splits)
  show "rep32 mx 4 (snd (mw_randomize (mw32 le R 4) w v t)) x"
    if "length w = 2 * mx \<and> 4 \<le> mx" "rep32 mx 4 v x" for w v t x
  proof -
    have "value32 4 (snd (mw32_x4_randomize R w v t)) 0 = value32 4 v 0"
      "value32 4 (snd (mw32_x4_randomize R w v t)) 1 = value32 4 v 1"
      using that by (simp_all add: value32_x4 mw32_x4_randomize_def shares_present mask32_bitwise ac_simps split: prod.splits)
    with that show ?thesis by (simp add: mw32_def rep32_def) (simp add: mw32_x4_randomize_def split: prod.splits)
  qed
  show "x = y" if "rep32 mx 4 w x" "rep32 mx 4 w y" for w x y
    using that by (auto simp: rep32_def intro: slice_word_inj)
  show "rep32 mx 4 (snd (mw_zero (mw32 le R 4) w t)) 0"
    if "length w = 2 * mx \<and> 4 \<le> mx" for w t
    using that by (auto simp: mw32_def mw32_x4_zero_def rep32_def value32_x4 shares_present mask32_bitwise slice_zero
        ac_simps split: prod.splits)
  show "rep32 mx 4 (snd (mw_load (mw32 le R 4) w d t)) (be_load_word64 d)"
    if "length w = 2 * mx \<and> 4 \<le> mx" "8 \<le> length d" for w d t
    using that slice_halves_load[OF that(2)] by (auto simp: mw32_def mw32_x4_load_def rep32_def value32_x4 shares_present mask32_bitwise
        slice_halves_xor ac_simps split: prod.splits)
  show "rep32 mx 4 (snd (mw_load_32 (mw32 le R 4) w d1 d2 t)) (be_load_word64 (take 4 d1 @ take 4 d2))"
    if "length w = 2 * mx \<and> 4 \<le> mx" "4 \<le> length d1" "4 \<le> length d2" for w d1 d2 t
    using that slice_halves_load_32[OF that(2,3)] by (auto simp: mw32_def mw32_x4_load_32_def rep32_def value32_x4 shares_present mask32_bitwise
        slice_halves_xor ac_simps split: prod.splits)
  show "rep32 mx 4 (snd (mw_load_partial (mw32 le R 4) w d n t)) (be_load_word64 (take n d @ zeros (8 - n)))"
    if "length w = 2 * mx \<and> 4 \<le> mx" "n < 8" "n \<le> length d" for w d n t
    using that by (auto simp: mw32_def mw32_x4_load_partial_def partial_rotations_eq rep32_def value32_x4 shares_present mask32_bitwise
        slice_halves_word slice_xor ac_simps split: prod.splits)
qed (auto simp: mw32_def mw32_x4_replace_rep mw32_x4_xor_rep, auto simp: rep32_def)

end
