(* ===== verification/Masked_Direct.thy ===== *)
theory Masked_Direct
  imports Masked_Word64
begin

text \<open>
  \<open>masking/ascon-masked-word-direct.c\<close>: masked words as arrays \<open>B\<close> of bytes, share \<open>i\<close> from byte
  \<open>8 * i\<close> on, with shares that are not rotated against each other; the proof that they satisfy the
  contract \<open>masked_word\<close>, with the permutations \<open>ascon_x<k>_permute_direct\<close> of theory
  \<open>Masked_Perm64\<close>.  An assignment to a whole share \<open>S[i]\<close> stores the bytes of the word in the order
  of the machine (\<open>le\<close> for little-endian); as in theory \<open>Masked_Word64\<close> the array has as many shares as
  \<open>ASCON_MASKED_MAX_SHARES\<close> and an assignment beyond it is void.

  The functions are loops over the bytes of a share, which treat the bytes at the same place of
  all the shares together and apart from the others; the lemma \<open>fold_columns\<close> turns such a loop into its
  effect on one place.
\<close>

section \<open>The code\<close>

definition host_bytes :: "bool \<Rightarrow> u64 \<Rightarrow> bytes" where
  "host_bytes le x = (if le then le_store_word64 x else be_store_word64 x)"

definition set_share :: "bool \<Rightarrow> bytes \<Rightarrow> nat \<Rightarrow> u64 \<Rightarrow> bytes" where
  "set_share le word i x = put_at word (8 * i) (host_bytes le x)"

text \<open>\<open>for (index = a; index < b; ++index)\<close> with the given body.\<close>

definition byte_loop :: "nat \<Rightarrow> nat \<Rightarrow> (nat \<Rightarrow> bytes \<Rightarrow> bytes) \<Rightarrow> bytes \<Rightarrow> bytes" where
  "byte_loop a b body word = fold body [a..<b] word"

subsection \<open>Two shares\<close>

definition mwd_x2_zero ::
  "bool \<Rightarrow> 't rng \<Rightarrow> bytes \<Rightarrow> 't \<Rightarrow> 't \<times> bytes" where
  "mwd_x2_zero le R word t =
     (let (t, random) = next_64 R t; word = set_share le word 0 random;
          word = byte_loop 0 8 (\<lambda>index word. word[index + 8 := word ! index]) word;
          word = set_share le word 2 0;
          word = set_share le word 3 0
      in (t, word))"

definition mwd_x2_load ::
  "bool \<Rightarrow> 't rng \<Rightarrow> bytes \<Rightarrow> bytes \<Rightarrow> 't \<Rightarrow> 't \<times> bytes" where
  "mwd_x2_load le R word data t =
     (let (t, random) = next_64 R t; word = set_share le word 1 random;
          word = byte_loop 0 8 (\<lambda>index word. word[index := data ! index XOR word ! (index + 8)]) word;
          word = set_share le word 2 0;
          word = set_share le word 3 0
      in (t, word))"

definition mwd_x2_load_partial ::
  "bool \<Rightarrow> 't rng \<Rightarrow> bytes \<Rightarrow> bytes \<Rightarrow> nat \<Rightarrow> 't \<Rightarrow> 't \<times> bytes" where
  "mwd_x2_load_partial le R word data sz t =
     (let (t, random) = next_64 R t; word = set_share le word 1 random;
          word = byte_loop 0 sz (\<lambda>index word. word[index := data ! index XOR word ! (index + 8)]) word;
          word = byte_loop sz 8 (\<lambda>index word. word[index := word ! (index + 8)]) word;
          word = set_share le word 2 0;
          word = set_share le word 3 0
      in (t, word))"

definition mwd_x2_load_32 ::
  "bool \<Rightarrow> 't rng \<Rightarrow> bytes \<Rightarrow> bytes \<Rightarrow> bytes \<Rightarrow> 't \<Rightarrow> 't \<times> bytes" where
  "mwd_x2_load_32 le R word data1 data2 t =
     (let (t, random) = next_64 R t; word = set_share le word 1 random;
          word = byte_loop 0 4 (\<lambda>index word. word[index := data1 ! index XOR word ! (index + 8),
            index + 4 := data2 ! index XOR word ! (index + 12)]) word;
          word = set_share le word 2 0;
          word = set_share le word 3 0
      in (t, word))"

definition mwd_x2_store ::
  "bytes \<Rightarrow> bytes" where
  "mwd_x2_store word =
     (map (\<lambda>index. word ! index XOR word ! (index + 8)) [0..<8])"

definition mwd_x2_store_partial ::
  "nat \<Rightarrow> bytes \<Rightarrow> bytes" where
  "mwd_x2_store_partial sz word =
     (map (\<lambda>index. word ! index XOR word ! (index + 8)) [0..<sz])"

definition mwd_x2_randomize ::
  "bool \<Rightarrow> 't rng \<Rightarrow> bytes \<Rightarrow> bytes \<Rightarrow> 't \<Rightarrow> 't \<times> bytes" where
  "mwd_x2_randomize le R dest src t =
     (let (t, random) = next_64 R t; random = host_bytes le random;
          dest = byte_loop 0 8 (\<lambda>index dest. dest[index := src ! index XOR random ! index,
            index + 8 := src ! (index + 8) XOR random ! index]) dest
      in (t, dest))"

definition mwd_x2_xor ::
  "bytes \<Rightarrow> bytes \<Rightarrow> bytes" where
  "mwd_x2_xor dest src =
     (byte_loop 0 8 (\<lambda>index dest. dest[index := dest ! (index) XOR src ! index, index + 8 := dest ! (index + 8) XOR src ! (index + 8)]) dest)"

definition mwd_x2_replace ::
  "bytes \<Rightarrow> bytes \<Rightarrow> nat \<Rightarrow> bytes" where
  "mwd_x2_replace dest src sz =
     (byte_loop 0 sz (\<lambda>index dest. dest[index := src ! index, index + 8 := src ! (index + 8)]) dest)"

definition mwd_x2_from_x3 ::
  "bool \<Rightarrow> 't rng \<Rightarrow> bytes \<Rightarrow> bytes \<Rightarrow> 't \<Rightarrow> 't \<times> bytes" where
  "mwd_x2_from_x3 le R dest src t =
     (let (t, random) = next_64 R t; random = host_bytes le random;
          dest = byte_loop 0 8 (\<lambda>index dest. dest[index := random ! index XOR src ! index,
            index + 8 := (random ! index XOR src ! (index + 8)) XOR src ! (index + 16)]) dest;
          dest = set_share le dest 2 0;
          dest = set_share le dest 3 0
      in (t, dest))"

definition mwd_x2_from_x4 ::
  "bool \<Rightarrow> 't rng \<Rightarrow> bytes \<Rightarrow> bytes \<Rightarrow> 't \<Rightarrow> 't \<times> bytes" where
  "mwd_x2_from_x4 le R dest src t =
     (let (t, random) = next_64 R t; random = host_bytes le random;
          dest = byte_loop 0 8 (\<lambda>index dest. dest[index := (random ! index XOR src ! index) XOR src ! (index + 16),
            index + 8 := (random ! index XOR src ! (index + 8)) XOR src ! (index + 24)]) dest;
          dest = set_share le dest 2 0;
          dest = set_share le dest 3 0
      in (t, dest))"

subsection \<open>Three shares\<close>

definition mwd_x3_zero ::
  "bool \<Rightarrow> 't rng \<Rightarrow> bytes \<Rightarrow> 't \<Rightarrow> 't \<times> bytes" where
  "mwd_x3_zero le R word t =
     (let (t, random) = next_64 R t; word = set_share le word 1 random;
          (t, random) = next_64 R t; word = set_share le word 2 random;
          word = byte_loop 0 8 (\<lambda>index word. word[index := word ! (index + 8) XOR word ! (index + 16)]) word;
          word = set_share le word 3 0
      in (t, word))"

definition mwd_x3_load ::
  "bool \<Rightarrow> 't rng \<Rightarrow> bytes \<Rightarrow> bytes \<Rightarrow> 't \<Rightarrow> 't \<times> bytes" where
  "mwd_x3_load le R word data t =
     (let (t, random) = next_64 R t; word = set_share le word 1 random;
          (t, random) = next_64 R t; word = set_share le word 2 random;
          word = byte_loop 0 8 (\<lambda>index word. word[index := (word ! (index + 8) XOR data ! index) XOR word ! (index + 16)]) word;
          word = set_share le word 3 0
      in (t, word))"

definition mwd_x3_load_partial ::
  "bool \<Rightarrow> 't rng \<Rightarrow> bytes \<Rightarrow> bytes \<Rightarrow> nat \<Rightarrow> 't \<Rightarrow> 't \<times> bytes" where
  "mwd_x3_load_partial le R word data sz t =
     (let (t, random) = next_64 R t; word = set_share le word 1 random;
          (t, random) = next_64 R t; word = set_share le word 2 random;
          word = byte_loop 0 sz (\<lambda>index word. word[index := (word ! (index + 8) XOR data ! index) XOR word ! (index + 16)]) word;
          word = byte_loop sz 8 (\<lambda>index word. word[index := word ! (index + 8) XOR word ! (index + 16)]) word;
          word = set_share le word 3 0
      in (t, word))"

definition mwd_x3_load_32 ::
  "bool \<Rightarrow> 't rng \<Rightarrow> bytes \<Rightarrow> bytes \<Rightarrow> bytes \<Rightarrow> 't \<Rightarrow> 't \<times> bytes" where
  "mwd_x3_load_32 le R word data1 data2 t =
     (let (t, random) = next_64 R t; word = set_share le word 1 random;
          (t, random) = next_64 R t; word = set_share le word 2 random;
          word = byte_loop 0 4 (\<lambda>index word. word[index := (word ! (index + 8) XOR data1 ! index) XOR word ! (index + 16),
            index + 4 := (word ! (index + 12) XOR data2 ! index) XOR word ! (index + 20)]) word;
          word = set_share le word 3 0
      in (t, word))"

definition mwd_x3_store ::
  "bytes \<Rightarrow> bytes" where
  "mwd_x3_store word =
     (map (\<lambda>index. word ! index XOR word ! (index + 8) XOR word ! (index + 16)) [0..<8])"

definition mwd_x3_store_partial ::
  "nat \<Rightarrow> bytes \<Rightarrow> bytes" where
  "mwd_x3_store_partial sz word =
     (map (\<lambda>index. word ! index XOR word ! (index + 8) XOR word ! (index + 16)) [0..<sz])"

definition mwd_x3_randomize ::
  "bool \<Rightarrow> 't rng \<Rightarrow> bytes \<Rightarrow> bytes \<Rightarrow> 't \<Rightarrow> 't \<times> bytes" where
  "mwd_x3_randomize le R dest src t =
     (let (t, random1) = next_64 R t; random1 = host_bytes le random1;
          (t, random2) = next_64 R t; random2 = host_bytes le random2;
          dest = byte_loop 0 8 (\<lambda>index dest. dest[index := (random1 ! index XOR src ! index) XOR random2 ! index,
            index + 8 := src ! (index + 8) XOR random1 ! index,
            index + 16 := src ! (index + 16) XOR random2 ! index]) dest
      in (t, dest))"

definition mwd_x3_xor ::
  "bytes \<Rightarrow> bytes \<Rightarrow> bytes" where
  "mwd_x3_xor dest src =
     (byte_loop 0 8 (\<lambda>index dest. dest[index := dest ! (index) XOR src ! index, index + 8 := dest ! (index + 8) XOR src ! (index + 8), index + 16 := dest ! (index + 16) XOR src ! (index + 16)]) dest)"

definition mwd_x3_replace ::
  "bytes \<Rightarrow> bytes \<Rightarrow> nat \<Rightarrow> bytes" where
  "mwd_x3_replace dest src sz =
     (byte_loop 0 sz (\<lambda>index dest. dest[index := src ! index, index + 8 := src ! (index + 8), index + 16 := src ! (index + 16)]) dest)"

definition mwd_x3_from_x2 ::
  "bool \<Rightarrow> 't rng \<Rightarrow> bytes \<Rightarrow> bytes \<Rightarrow> 't \<Rightarrow> 't \<times> bytes" where
  "mwd_x3_from_x2 le R dest src t =
     (let (t, random1) = next_64 R t; random1 = host_bytes le random1;
          (t, random2) = next_64 R t; random2 = host_bytes le random2;
          dest = byte_loop 0 8 (\<lambda>index dest. dest[index := (random1 ! index XOR src ! index) XOR random2 ! index,
            index + 8 := random1 ! index XOR src ! (index + 8),
            index + 16 := random2 ! index]) dest;
          dest = set_share le dest 3 0
      in (t, dest))"

definition mwd_x3_from_x4 ::
  "bool \<Rightarrow> 't rng \<Rightarrow> bytes \<Rightarrow> bytes \<Rightarrow> 't \<Rightarrow> 't \<times> bytes" where
  "mwd_x3_from_x4 le R dest src t =
     (let (t, random1) = next_64 R t; random1 = host_bytes le random1;
          (t, random2) = next_64 R t; random2 = host_bytes le random2;
          dest = byte_loop 0 8 (\<lambda>index dest. dest[index := ((random1 ! index XOR src ! index) XOR random2 ! index) XOR src ! (index + 24),
            index + 8 := random1 ! index XOR src ! (index + 8),
            index + 16 := random2 ! index XOR src ! (index + 16)]) dest;
          dest = set_share le dest 3 0
      in (t, dest))"

subsection \<open>Four shares\<close>

definition mwd_x4_zero ::
  "bool \<Rightarrow> 't rng \<Rightarrow> bytes \<Rightarrow> 't \<Rightarrow> 't \<times> bytes" where
  "mwd_x4_zero le R word t =
     (let (t, random) = next_64 R t; word = set_share le word 1 random;
          (t, random) = next_64 R t; word = set_share le word 2 random;
          (t, random) = next_64 R t; word = set_share le word 3 random;
          word = byte_loop 0 8 (\<lambda>index word. word[index := word ! (index + 8) XOR word ! (index + 16) XOR word ! (index + 24)]) word
      in (t, word))"

definition mwd_x4_load ::
  "bool \<Rightarrow> 't rng \<Rightarrow> bytes \<Rightarrow> bytes \<Rightarrow> 't \<Rightarrow> 't \<times> bytes" where
  "mwd_x4_load le R word data t =
     (let (t, random) = next_64 R t; word = set_share le word 1 random;
          (t, random) = next_64 R t; word = set_share le word 2 random;
          (t, random) = next_64 R t; word = set_share le word 3 random;
          word = byte_loop 0 8 (\<lambda>index word. word[index := (word ! (index + 8) XOR data ! index) XOR word ! (index + 16) XOR word ! (index + 24)]) word
      in (t, word))"

definition mwd_x4_load_partial ::
  "bool \<Rightarrow> 't rng \<Rightarrow> bytes \<Rightarrow> bytes \<Rightarrow> nat \<Rightarrow> 't \<Rightarrow> 't \<times> bytes" where
  "mwd_x4_load_partial le R word data sz t =
     (let (t, random) = next_64 R t; word = set_share le word 1 random;
          (t, random) = next_64 R t; word = set_share le word 2 random;
          (t, random) = next_64 R t; word = set_share le word 3 random;
          word = byte_loop 0 sz (\<lambda>index word. word[index := (word ! (index + 8) XOR data ! index) XOR word ! (index + 16) XOR word ! (index + 24)]) word;
          word = byte_loop sz 8 (\<lambda>index word. word[index := word ! (index + 8) XOR word ! (index + 16) XOR word ! (index + 24)]) word
      in (t, word))"

definition mwd_x4_load_32 ::
  "bool \<Rightarrow> 't rng \<Rightarrow> bytes \<Rightarrow> bytes \<Rightarrow> bytes \<Rightarrow> 't \<Rightarrow> 't \<times> bytes" where
  "mwd_x4_load_32 le R word data1 data2 t =
     (let (t, random) = next_64 R t; word = set_share le word 1 random;
          (t, random) = next_64 R t; word = set_share le word 2 random;
          (t, random) = next_64 R t; word = set_share le word 3 random;
          word = byte_loop 0 4 (\<lambda>index word. word[index := (word ! (index + 8) XOR data1 ! index) XOR word ! (index + 16) XOR word ! (index + 24),
            index + 4 := (word ! (index + 12) XOR data2 ! index) XOR word ! (index + 20) XOR word ! (index + 28)]) word
      in (t, word))"

definition mwd_x4_store ::
  "bytes \<Rightarrow> bytes" where
  "mwd_x4_store word =
     (map (\<lambda>index. word ! index XOR word ! (index + 8) XOR word ! (index + 16) XOR word ! (index + 24)) [0..<8])"

definition mwd_x4_store_partial ::
  "nat \<Rightarrow> bytes \<Rightarrow> bytes" where
  "mwd_x4_store_partial sz word =
     (map (\<lambda>index. word ! index XOR word ! (index + 8) XOR word ! (index + 16) XOR word ! (index + 24)) [0..<sz])"

definition mwd_x4_randomize ::
  "bool \<Rightarrow> 't rng \<Rightarrow> bytes \<Rightarrow> bytes \<Rightarrow> 't \<Rightarrow> 't \<times> bytes" where
  "mwd_x4_randomize le R dest src t =
     (let (t, random1) = next_64 R t; random1 = host_bytes le random1;
          (t, random2) = next_64 R t; random2 = host_bytes le random2;
          (t, random3) = next_64 R t; random3 = host_bytes le random3;
          dest = byte_loop 0 8 (\<lambda>index dest. dest[index := (random1 ! index XOR src ! index) XOR random2 ! index XOR random3 ! index,
            index + 8 := src ! (index + 8) XOR random1 ! index,
            index + 16 := src ! (index + 16) XOR random2 ! index,
            index + 24 := src ! (index + 24) XOR random3 ! index]) dest
      in (t, dest))"

definition mwd_x4_xor ::
  "bytes \<Rightarrow> bytes \<Rightarrow> bytes" where
  "mwd_x4_xor dest src =
     (byte_loop 0 8 (\<lambda>index dest. dest[index := dest ! (index) XOR src ! index, index + 8 := dest ! (index + 8) XOR src ! (index + 8), index + 16 := dest ! (index + 16) XOR src ! (index + 16), index + 24 := dest ! (index + 24) XOR src ! (index + 24)]) dest)"

definition mwd_x4_replace ::
  "bytes \<Rightarrow> bytes \<Rightarrow> nat \<Rightarrow> bytes" where
  "mwd_x4_replace dest src sz =
     (byte_loop 0 sz (\<lambda>index dest. dest[index := src ! index, index + 8 := src ! (index + 8), index + 16 := src ! (index + 16), index + 24 := src ! (index + 24)]) dest)"

definition mwd_x4_from_x2 ::
  "bool \<Rightarrow> 't rng \<Rightarrow> bytes \<Rightarrow> bytes \<Rightarrow> 't \<Rightarrow> 't \<times> bytes" where
  "mwd_x4_from_x2 le R dest src t =
     (let (t, random1) = next_64 R t; random1 = host_bytes le random1;
          (t, random2) = next_64 R t; random2 = host_bytes le random2;
          (t, random3) = next_64 R t; random3 = host_bytes le random3;
          dest = byte_loop 0 8 (\<lambda>index dest. dest[index := (random1 ! index XOR src ! index) XOR random2 ! index XOR random3 ! index,
            index + 8 := random1 ! index XOR src ! (index + 8),
            index + 16 := random2 ! index,
            index + 24 := random3 ! index]) dest
      in (t, dest))"

definition mwd_x4_from_x3 ::
  "bool \<Rightarrow> 't rng \<Rightarrow> bytes \<Rightarrow> bytes \<Rightarrow> 't \<Rightarrow> 't \<times> bytes" where
  "mwd_x4_from_x3 le R dest src t =
     (let (t, random1) = next_64 R t; random1 = host_bytes le random1;
          (t, random2) = next_64 R t; random2 = host_bytes le random2;
          (t, random3) = next_64 R t; random3 = host_bytes le random3;
          dest = byte_loop 0 8 (\<lambda>index dest. dest[index := (random1 ! index XOR src ! index) XOR random2 ! index XOR random3 ! index,
            index + 8 := random1 ! index XOR src ! (index + 8),
            index + 16 := random2 ! index XOR src ! (index + 16),
            index + 24 := random3 ! index]) dest
      in (t, dest))"

subsection \<open>Any number of shares\<close>

definition mwd_pad :: "bytes \<Rightarrow> nat \<Rightarrow> bytes" where
  "mwd_pad word offset = word[offset := word ! offset XOR 0x80]"

definition mwd_separator :: "bytes \<Rightarrow> bytes" where
  "mwd_separator word = word[7 := word ! 7 XOR 1]"

definition mwd :: "bool \<Rightarrow> 't rng \<Rightarrow> nat \<Rightarrow> (bytes, 't) masked_ops" where
  "mwd le R k =
     (if k = 2 then
        \<lparr> mw_zero = mwd_x2_zero le R, mw_load = mwd_x2_load le R, mw_load_partial = mwd_x2_load_partial le R,
          mw_load_32 = mwd_x2_load_32 le R, mw_store = mwd_x2_store, mw_store_partial = mwd_x2_store_partial,
          mw_randomize = mwd_x2_randomize le R, mw_xor = mwd_x2_xor, mw_replace = mwd_x2_replace,
          mw_permute = ascon_x2_permute_direct \<rparr>
      else if k = 3 then
        \<lparr> mw_zero = mwd_x3_zero le R, mw_load = mwd_x3_load le R, mw_load_partial = mwd_x3_load_partial le R,
          mw_load_32 = mwd_x3_load_32 le R, mw_store = mwd_x3_store, mw_store_partial = mwd_x3_store_partial,
          mw_randomize = mwd_x3_randomize le R, mw_xor = mwd_x3_xor, mw_replace = mwd_x3_replace,
          mw_permute = ascon_x3_permute_direct \<rparr>
      else
        \<lparr> mw_zero = mwd_x4_zero le R, mw_load = mwd_x4_load le R, mw_load_partial = mwd_x4_load_partial le R,
          mw_load_32 = mwd_x4_load_32 le R, mw_store = mwd_x4_store, mw_store_partial = mwd_x4_store_partial,
          mw_randomize = mwd_x4_randomize le R, mw_xor = mwd_x4_xor, mw_replace = mwd_x4_replace,
          mw_permute = ascon_x4_permute_direct \<rparr>
     )"

section \<open>Loops over the places of a share\<close>

text \<open>The body at \<open>i\<close> reads and writes only positions that are \<open>i\<close> modulo \<open>m\<close>.\<close>

definition column :: "nat \<Rightarrow> nat \<Rightarrow> (nat \<Rightarrow> bytes \<Rightarrow> bytes) \<Rightarrow> bool" where
  "column m len f \<longleftrightarrow> (\<forall>i<m. \<forall>w. length w = len \<longrightarrow> length (f i w) = len \<and>
     (\<forall>p<len. p mod m \<noteq> i \<longrightarrow> f i w ! p = w ! p) \<and>
     (\<forall>w'. length w' = len \<longrightarrow> (\<forall>p<len. p mod m = i \<longrightarrow> w ! p = w' ! p) \<longrightarrow>
       (\<forall>p<len. p mod m = i \<longrightarrow> f i w ! p = f i w' ! p)))"

lemma columnD:
  assumes "column m len f" "i < m" "length w = len"
  shows "length (f i w) = len"
    "\<lbrakk>p < len; p mod m \<noteq> i\<rbrakk> \<Longrightarrow> f i w ! p = w ! p"
    "\<lbrakk>length w' = len; \<forall>p<len. p mod m = i \<longrightarrow> w ! p = w' ! p; p < len; p mod m = i\<rbrakk> \<Longrightarrow>
       f i w ! p = f i w' ! p"
  using assms unfolding column_def by blast+

lemma fold_columns:
  assumes "column m len f" "b \<le> m" "length w = len"
  shows "length (byte_loop a b f w) = len"
    "p < len \<Longrightarrow> byte_loop a b f w ! p = (if a \<le> p mod m \<and> p mod m < b then f (p mod m) w ! p else w ! p)"
proof -
  have "length (fold f [a..<b] w) = len \<and> (\<forall>p<len. fold f [a..<b] w ! p =
      (if a \<le> p mod m \<and> p mod m < b then f (p mod m) w ! p else w ! p))"
    using assms(2)
  proof (induction b)
    case (Suc b)
    let ?v = "fold f [a..<b] w"
    from Suc have IH: "length ?v = len" "\<forall>p<len. ?v ! p =
      (if a \<le> p mod m \<and> p mod m < b then f (p mod m) w ! p else w ! p)" "b < m" by auto
    show ?case
    proof (cases "a \<le> b")
      case True
      note col = columnD[OF assms(1) IH(3,1)]
      have same: "\<forall>p<len. p mod m = b \<longrightarrow> ?v ! p = w ! p" using IH(2) by simp
      have "f b ?v ! p = (if a \<le> p mod m \<and> p mod m < Suc b then f (p mod m) w ! p else w ! p)"
        if p: "p < len" for p
      proof (cases "p mod m = b")
        case True
        with col(3)[OF assms(3) same p True] \<open>a \<le> b\<close> show ?thesis by simp
      next
        case False
        then have "p mod m < Suc b \<longleftrightarrow> p mod m < b" by linarith
        with col(2)[OF p False] IH(2) p show ?thesis by simp
      qed
      with col(1) \<open>a \<le> b\<close> show ?thesis by simp
    qed (use assms(3) in auto)
  qed (simp add: assms(3))
  then show "length (byte_loop a b f w) = len"
    "p < len \<Longrightarrow> byte_loop a b f w ! p = (if a \<le> p mod m \<and> p mod m < b then f (p mod m) w ! p else w ! p)"
    by (auto simp: byte_loop_def)
qed

lemma place_mod:
  "i < 8 \<Longrightarrow> (i + 8) mod 8 = i" "i < 8 \<Longrightarrow> (i + 16) mod 8 = i" "i < 8 \<Longrightarrow> (i + 24) mod 8 = (i :: nat)"
  "i < 4 \<Longrightarrow> (i + 4) mod 4 = i" "i < 4 \<Longrightarrow> (i + 8) mod 4 = i" "i < 4 \<Longrightarrow> (i + 12) mod 4 = i"
  "i < 4 \<Longrightarrow> (i + 16) mod 4 = i" "i < 4 \<Longrightarrow> (i + 20) mod 4 = i" "i < 4 \<Longrightarrow> (i + 24) mod 4 = i"
  "i < 4 \<Longrightarrow> (i + 28) mod 4 = (i :: nat)"
  by (simp_all add: mod_add_right_eq[of i, symmetric])

lemma place_mod_4: "j < 8 \<Longrightarrow> j mod 4 = (if j < 4 then j else j - (4 :: nat))"
  by (simp add: le_mod_geq)

lemma mwd_x2_column0:
  assumes "8 * 2 \<le> len"
  shows "column 8 len (\<lambda>index word. word[index + 8 := word ! index])"
  unfolding column_def using assms by (auto simp: nth_list_update place_mod Let_def)

lemma mwd_x2_column1:
  assumes "8 * 2 \<le> len"
  shows "column 8 len (\<lambda>index word. word[index := data ! index XOR word ! (index + 8)])"
  unfolding column_def using assms by (auto simp: nth_list_update place_mod Let_def)

lemma mwd_x2_column2:
  assumes "8 * 2 \<le> len"
  shows "column 8 len (\<lambda>index word. word[index := data ! index XOR word ! (index + 8)])"
  unfolding column_def using assms by (auto simp: nth_list_update place_mod Let_def)

lemma mwd_x2_column3:
  assumes "8 * 2 \<le> len"
  shows "column 8 len (\<lambda>index word. word[index := word ! (index + 8)])"
  unfolding column_def using assms by (auto simp: nth_list_update place_mod Let_def)

lemma mwd_x2_column4:
  assumes "8 * 2 \<le> len"
  shows "column 4 len (\<lambda>index word. word[index := data1 ! index XOR word ! (index + 8),
            index + 4 := data2 ! index XOR word ! (index + 12)])"
  unfolding column_def using assms by (auto simp: nth_list_update place_mod Let_def)

lemma mwd_x2_column5:
  assumes "8 * 2 \<le> len"
  shows "column 8 len (\<lambda>index dest. dest[index := src ! index XOR random ! index,
            index + 8 := src ! (index + 8) XOR random ! index])"
  unfolding column_def using assms by (auto simp: nth_list_update place_mod Let_def)

lemma mwd_x2_column6:
  assumes "8 * 2 \<le> len"
  shows "column 8 len (\<lambda>index dest. dest[index := dest ! (index) XOR src ! index, index + 8 := dest ! (index + 8) XOR src ! (index + 8)])"
  unfolding column_def using assms by (auto simp: nth_list_update place_mod Let_def)

lemma mwd_x2_column7:
  assumes "8 * 2 \<le> len"
  shows "column 8 len (\<lambda>index dest. dest[index := src ! index, index + 8 := src ! (index + 8)])"
  unfolding column_def using assms by (auto simp: nth_list_update place_mod Let_def)

lemma mwd_x2_column8:
  assumes "8 * 2 \<le> len"
  shows "column 8 len (\<lambda>index dest. dest[index := random ! index XOR src ! index,
            index + 8 := (random ! index XOR src ! (index + 8)) XOR src ! (index + 16)])"
  unfolding column_def using assms by (auto simp: nth_list_update place_mod Let_def)

lemma mwd_x2_column9:
  assumes "8 * 2 \<le> len"
  shows "column 8 len (\<lambda>index dest. dest[index := (random ! index XOR src ! index) XOR src ! (index + 16),
            index + 8 := (random ! index XOR src ! (index + 8)) XOR src ! (index + 24)])"
  unfolding column_def using assms by (auto simp: nth_list_update place_mod Let_def)

lemma mwd_x3_column0:
  assumes "8 * 3 \<le> len"
  shows "column 8 len (\<lambda>index word. word[index := word ! (index + 8) XOR word ! (index + 16)])"
  unfolding column_def using assms by (auto simp: nth_list_update place_mod Let_def)

lemma mwd_x3_column1:
  assumes "8 * 3 \<le> len"
  shows "column 8 len (\<lambda>index word. word[index := (word ! (index + 8) XOR data ! index) XOR word ! (index + 16)])"
  unfolding column_def using assms by (auto simp: nth_list_update place_mod Let_def)

lemma mwd_x3_column2:
  assumes "8 * 3 \<le> len"
  shows "column 8 len (\<lambda>index word. word[index := (word ! (index + 8) XOR data ! index) XOR word ! (index + 16)])"
  unfolding column_def using assms by (auto simp: nth_list_update place_mod Let_def)

lemma mwd_x3_column3:
  assumes "8 * 3 \<le> len"
  shows "column 8 len (\<lambda>index word. word[index := word ! (index + 8) XOR word ! (index + 16)])"
  unfolding column_def using assms by (auto simp: nth_list_update place_mod Let_def)

lemma mwd_x3_column4:
  assumes "8 * 3 \<le> len"
  shows "column 4 len (\<lambda>index word. word[index := (word ! (index + 8) XOR data1 ! index) XOR word ! (index + 16),
            index + 4 := (word ! (index + 12) XOR data2 ! index) XOR word ! (index + 20)])"
  unfolding column_def using assms by (auto simp: nth_list_update place_mod Let_def)

lemma mwd_x3_column5:
  assumes "8 * 3 \<le> len"
  shows "column 8 len (\<lambda>index dest. dest[index := (random1 ! index XOR src ! index) XOR random2 ! index,
            index + 8 := src ! (index + 8) XOR random1 ! index,
            index + 16 := src ! (index + 16) XOR random2 ! index])"
  unfolding column_def using assms by (auto simp: nth_list_update place_mod Let_def)

lemma mwd_x3_column6:
  assumes "8 * 3 \<le> len"
  shows "column 8 len (\<lambda>index dest. dest[index := dest ! (index) XOR src ! index, index + 8 := dest ! (index + 8) XOR src ! (index + 8), index + 16 := dest ! (index + 16) XOR src ! (index + 16)])"
  unfolding column_def using assms by (auto simp: nth_list_update place_mod Let_def)

lemma mwd_x3_column7:
  assumes "8 * 3 \<le> len"
  shows "column 8 len (\<lambda>index dest. dest[index := src ! index, index + 8 := src ! (index + 8), index + 16 := src ! (index + 16)])"
  unfolding column_def using assms by (auto simp: nth_list_update place_mod Let_def)

lemma mwd_x3_column8:
  assumes "8 * 3 \<le> len"
  shows "column 8 len (\<lambda>index dest. dest[index := (random1 ! index XOR src ! index) XOR random2 ! index,
            index + 8 := random1 ! index XOR src ! (index + 8),
            index + 16 := random2 ! index])"
  unfolding column_def using assms by (auto simp: nth_list_update place_mod Let_def)

lemma mwd_x3_column9:
  assumes "8 * 3 \<le> len"
  shows "column 8 len (\<lambda>index dest. dest[index := ((random1 ! index XOR src ! index) XOR random2 ! index) XOR src ! (index + 24),
            index + 8 := random1 ! index XOR src ! (index + 8),
            index + 16 := random2 ! index XOR src ! (index + 16)])"
  unfolding column_def using assms by (auto simp: nth_list_update place_mod Let_def)

lemma mwd_x4_column0:
  assumes "8 * 4 \<le> len"
  shows "column 8 len (\<lambda>index word. word[index := word ! (index + 8) XOR word ! (index + 16) XOR word ! (index + 24)])"
  unfolding column_def using assms by (auto simp: nth_list_update place_mod Let_def)

lemma mwd_x4_column1:
  assumes "8 * 4 \<le> len"
  shows "column 8 len (\<lambda>index word. word[index := (word ! (index + 8) XOR data ! index) XOR word ! (index + 16) XOR word ! (index + 24)])"
  unfolding column_def using assms by (auto simp: nth_list_update place_mod Let_def)

lemma mwd_x4_column2:
  assumes "8 * 4 \<le> len"
  shows "column 8 len (\<lambda>index word. word[index := (word ! (index + 8) XOR data ! index) XOR word ! (index + 16) XOR word ! (index + 24)])"
  unfolding column_def using assms by (auto simp: nth_list_update place_mod Let_def)

lemma mwd_x4_column3:
  assumes "8 * 4 \<le> len"
  shows "column 8 len (\<lambda>index word. word[index := word ! (index + 8) XOR word ! (index + 16) XOR word ! (index + 24)])"
  unfolding column_def using assms by (auto simp: nth_list_update place_mod Let_def)

lemma mwd_x4_column4:
  assumes "8 * 4 \<le> len"
  shows "column 4 len (\<lambda>index word. word[index := (word ! (index + 8) XOR data1 ! index) XOR word ! (index + 16) XOR word ! (index + 24),
            index + 4 := (word ! (index + 12) XOR data2 ! index) XOR word ! (index + 20) XOR word ! (index + 28)])"
  unfolding column_def using assms by (auto simp: nth_list_update place_mod Let_def)

lemma mwd_x4_column5:
  assumes "8 * 4 \<le> len"
  shows "column 8 len (\<lambda>index dest. dest[index := (random1 ! index XOR src ! index) XOR random2 ! index XOR random3 ! index,
            index + 8 := src ! (index + 8) XOR random1 ! index,
            index + 16 := src ! (index + 16) XOR random2 ! index,
            index + 24 := src ! (index + 24) XOR random3 ! index])"
  unfolding column_def using assms by (auto simp: nth_list_update place_mod Let_def)

lemma mwd_x4_column6:
  assumes "8 * 4 \<le> len"
  shows "column 8 len (\<lambda>index dest. dest[index := dest ! (index) XOR src ! index, index + 8 := dest ! (index + 8) XOR src ! (index + 8), index + 16 := dest ! (index + 16) XOR src ! (index + 16), index + 24 := dest ! (index + 24) XOR src ! (index + 24)])"
  unfolding column_def using assms by (auto simp: nth_list_update place_mod Let_def)

lemma mwd_x4_column7:
  assumes "8 * 4 \<le> len"
  shows "column 8 len (\<lambda>index dest. dest[index := src ! index, index + 8 := src ! (index + 8), index + 16 := src ! (index + 16), index + 24 := src ! (index + 24)])"
  unfolding column_def using assms by (auto simp: nth_list_update place_mod Let_def)

lemma mwd_x4_column8:
  assumes "8 * 4 \<le> len"
  shows "column 8 len (\<lambda>index dest. dest[index := (random1 ! index XOR src ! index) XOR random2 ! index XOR random3 ! index,
            index + 8 := random1 ! index XOR src ! (index + 8),
            index + 16 := random2 ! index,
            index + 24 := random3 ! index])"
  unfolding column_def using assms by (auto simp: nth_list_update place_mod Let_def)

lemma mwd_x4_column9:
  assumes "8 * 4 \<le> len"
  shows "column 8 len (\<lambda>index dest. dest[index := (random1 ! index XOR src ! index) XOR random2 ! index XOR random3 ! index,
            index + 8 := random1 ! index XOR src ! (index + 8),
            index + 16 := random2 ! index XOR src ! (index + 16),
            index + 24 := random3 ! index])"
  unfolding column_def using assms by (auto simp: nth_list_update place_mod Let_def)

section \<open>The word the shares stand for\<close>

text \<open>Byte \<open>j\<close> of the word.\<close>

definition direct_value :: "nat \<Rightarrow> bytes \<Rightarrow> nat \<Rightarrow> u8" where
  "direct_value k w j = w ! j XOR (w ! (j + 8) XOR
     ((if 3 \<le> k then w ! (j + 16) else 0) XOR (if 4 \<le> k then w ! (j + 24) else 0)))"

definition rep_direct :: "nat \<Rightarrow> nat \<Rightarrow> bytes \<Rightarrow> u64 \<Rightarrow> bool" where
  "rep_direct mx k w x \<longleftrightarrow> length w = 8 * mx \<and> k \<le> mx \<and>
     (\<forall>j<8. direct_value k w j = be_store_word64 x ! j)"

lemma length_host_bytes [simp]: "length (host_bytes le x) = 8"
  by (simp add: host_bytes_def)

lemma length_set_share [simp]: "length (set_share le w i x) = length w"
  by (simp add: set_share_def)

lemma nth_set_share:
  "p < length w \<Longrightarrow> set_share le w i x ! p =
     (if 8 * i \<le> p \<and> p < 8 * i + 8 then host_bytes le x ! (p - 8 * i) else w ! p)"
  by (simp add: set_share_def nth_put_at)

lemma direct_value_shares:
  "direct_value 2 w j = w ! j XOR w ! (j + 8)"
  "direct_value 3 w j = w ! j XOR w ! (j + 8) XOR w ! (j + 16)"
  "direct_value 4 w j = w ! j XOR w ! (j + 8) XOR w ! (j + 16) XOR w ! (j + 24)"
  by (simp_all add: direct_value_def)

lemma mwd_x2_zero_value:
  assumes "length w = len" "8 * 2 \<le> len" 
  shows "length (snd (mwd_x2_zero le R w t)) = len"
    "j < 8 \<Longrightarrow> direct_value 2 (snd (mwd_x2_zero le R w t)) j = 0"
  using assms
  by (simp_all add: mwd_x2_zero_def case_prod_beta Let_def fold_columns[OF mwd_x2_column0[OF assms(2)]]
      direct_value_shares place_mod nth_set_share nth_list_update)

lemma mwd_x2_load_value:
  assumes "length w = len" "8 * 2 \<le> len" 
  shows "length (snd (mwd_x2_load le R w d t)) = len"
    "j < 8 \<Longrightarrow> direct_value 2 (snd (mwd_x2_load le R w d t)) j = d ! j"
  using assms
  by (simp_all add: mwd_x2_load_def case_prod_beta Let_def fold_columns[OF mwd_x2_column1[OF assms(2)]]
      direct_value_shares place_mod nth_set_share nth_list_update)

lemma mwd_x2_load_partial_value:
  assumes "length w = len" "8 * 2 \<le> len" "n \<le> 8"
  shows "length (snd (mwd_x2_load_partial le R w d n t)) = len"
    "j < 8 \<Longrightarrow> direct_value 2 (snd (mwd_x2_load_partial le R w d n t)) j = (if j < n then d ! j else 0)"
  using assms
  by (simp_all add: mwd_x2_load_partial_def case_prod_beta Let_def fold_columns[OF mwd_x2_column2[OF assms(2)]] fold_columns[OF mwd_x2_column3[OF assms(2)]]
      direct_value_shares place_mod nth_set_share nth_list_update)

lemma mwd_x2_load_32_value:
  assumes "length w = len" "8 * 2 \<le> len" 
  shows "length (snd (mwd_x2_load_32 le R w d d' t)) = len"
    "j < 8 \<Longrightarrow> direct_value 2 (snd (mwd_x2_load_32 le R w d d' t)) j = (if j < 4 then d ! j else d' ! (j - 4))"
  using assms
  by (simp_all add: mwd_x2_load_32_def case_prod_beta Let_def fold_columns[OF mwd_x2_column4[OF assms(2)]]
      direct_value_shares place_mod nth_set_share nth_list_update place_mod_4) (auto simp: ac_simps)

lemma mwd_x2_randomize_value:
  assumes "length w = len" "8 * 2 \<le> len" 
  shows "length (snd (mwd_x2_randomize le R w v t)) = len"
    "j < 8 \<Longrightarrow> direct_value 2 (snd (mwd_x2_randomize le R w v t)) j = direct_value 2 v j"
  using assms
  by (simp_all add: mwd_x2_randomize_def case_prod_beta Let_def fold_columns[OF mwd_x2_column5[OF assms(2)]]
      direct_value_shares place_mod nth_set_share nth_list_update) (auto simp: ac_simps)

lemma mwd_x2_xor_value:
  assumes "length w = len" "8 * 2 \<le> len" 
  shows "length (mwd_x2_xor w v) = len"
    "j < 8 \<Longrightarrow> direct_value 2 (mwd_x2_xor w v) j = direct_value 2 w j XOR direct_value 2 v j"
  using assms
  by (simp_all add: mwd_x2_xor_def case_prod_beta Let_def fold_columns[OF mwd_x2_column6[OF assms(2)]]
      direct_value_shares place_mod nth_set_share nth_list_update) (auto simp: ac_simps)

lemma mwd_x2_replace_value:
  assumes "length w = len" "8 * 2 \<le> len" "n \<le> 8"
  shows "length (mwd_x2_replace w v n) = len"
    "j < 8 \<Longrightarrow> direct_value 2 (mwd_x2_replace w v n) j = (if j < n then direct_value 2 v j else direct_value 2 w j)"
  using assms
  by (simp_all add: mwd_x2_replace_def case_prod_beta Let_def fold_columns[OF mwd_x2_column7[OF assms(2)]]
      direct_value_shares place_mod nth_set_share nth_list_update)

lemma mwd_x2_from_x3_value:
  assumes "length w = len" "8 * 2 \<le> len" 
  shows "length (snd (mwd_x2_from_x3 le R w v t)) = len"
    "j < 8 \<Longrightarrow> direct_value 2 (snd (mwd_x2_from_x3 le R w v t)) j = direct_value 3 v j"
  using assms
  by (simp_all add: mwd_x2_from_x3_def case_prod_beta Let_def fold_columns[OF mwd_x2_column8[OF assms(2)]]
      direct_value_shares place_mod nth_set_share nth_list_update) (auto simp: ac_simps)

lemma mwd_x2_from_x4_value:
  assumes "length w = len" "8 * 2 \<le> len" 
  shows "length (snd (mwd_x2_from_x4 le R w v t)) = len"
    "j < 8 \<Longrightarrow> direct_value 2 (snd (mwd_x2_from_x4 le R w v t)) j = direct_value 4 v j"
  using assms
  by (simp_all add: mwd_x2_from_x4_def case_prod_beta Let_def fold_columns[OF mwd_x2_column9[OF assms(2)]]
      direct_value_shares place_mod nth_set_share nth_list_update) (auto simp: ac_simps)

lemma mwd_x3_zero_value:
  assumes "length w = len" "8 * 3 \<le> len" 
  shows "length (snd (mwd_x3_zero le R w t)) = len"
    "j < 8 \<Longrightarrow> direct_value 3 (snd (mwd_x3_zero le R w t)) j = 0"
  using assms
  by (simp_all add: mwd_x3_zero_def case_prod_beta Let_def fold_columns[OF mwd_x3_column0[OF assms(2)]]
      direct_value_shares place_mod nth_set_share nth_list_update)

lemma mwd_x3_load_value:
  assumes "length w = len" "8 * 3 \<le> len" 
  shows "length (snd (mwd_x3_load le R w d t)) = len"
    "j < 8 \<Longrightarrow> direct_value 3 (snd (mwd_x3_load le R w d t)) j = d ! j"
  using assms
  by (simp_all add: mwd_x3_load_def case_prod_beta Let_def fold_columns[OF mwd_x3_column1[OF assms(2)]]
      direct_value_shares place_mod nth_set_share nth_list_update) (auto simp: ac_simps)

lemma mwd_x3_load_partial_value:
  assumes "length w = len" "8 * 3 \<le> len" "n \<le> 8"
  shows "length (snd (mwd_x3_load_partial le R w d n t)) = len"
    "j < 8 \<Longrightarrow> direct_value 3 (snd (mwd_x3_load_partial le R w d n t)) j = (if j < n then d ! j else 0)"
  using assms
  by (simp_all add: mwd_x3_load_partial_def case_prod_beta Let_def fold_columns[OF mwd_x3_column2[OF assms(2)]] fold_columns[OF mwd_x3_column3[OF assms(2)]]
      direct_value_shares place_mod nth_set_share nth_list_update) (auto simp: ac_simps)

lemma mwd_x3_load_32_value:
  assumes "length w = len" "8 * 3 \<le> len" 
  shows "length (snd (mwd_x3_load_32 le R w d d' t)) = len"
    "j < 8 \<Longrightarrow> direct_value 3 (snd (mwd_x3_load_32 le R w d d' t)) j = (if j < 4 then d ! j else d' ! (j - 4))"
  using assms
  by (simp_all add: mwd_x3_load_32_def case_prod_beta Let_def fold_columns[OF mwd_x3_column4[OF assms(2)]]
      direct_value_shares place_mod nth_set_share nth_list_update place_mod_4) (auto simp: ac_simps)

lemma mwd_x3_randomize_value:
  assumes "length w = len" "8 * 3 \<le> len" 
  shows "length (snd (mwd_x3_randomize le R w v t)) = len"
    "j < 8 \<Longrightarrow> direct_value 3 (snd (mwd_x3_randomize le R w v t)) j = direct_value 3 v j"
  using assms
  by (simp_all add: mwd_x3_randomize_def case_prod_beta Let_def fold_columns[OF mwd_x3_column5[OF assms(2)]]
      direct_value_shares place_mod nth_set_share nth_list_update) (auto simp: ac_simps)

lemma mwd_x3_xor_value:
  assumes "length w = len" "8 * 3 \<le> len" 
  shows "length (mwd_x3_xor w v) = len"
    "j < 8 \<Longrightarrow> direct_value 3 (mwd_x3_xor w v) j = direct_value 3 w j XOR direct_value 3 v j"
  using assms
  by (simp_all add: mwd_x3_xor_def case_prod_beta Let_def fold_columns[OF mwd_x3_column6[OF assms(2)]]
      direct_value_shares place_mod nth_set_share nth_list_update) (auto simp: ac_simps)

lemma mwd_x3_replace_value:
  assumes "length w = len" "8 * 3 \<le> len" "n \<le> 8"
  shows "length (mwd_x3_replace w v n) = len"
    "j < 8 \<Longrightarrow> direct_value 3 (mwd_x3_replace w v n) j = (if j < n then direct_value 3 v j else direct_value 3 w j)"
  using assms
  by (simp_all add: mwd_x3_replace_def case_prod_beta Let_def fold_columns[OF mwd_x3_column7[OF assms(2)]]
      direct_value_shares place_mod nth_set_share nth_list_update)

lemma mwd_x3_from_x2_value:
  assumes "length w = len" "8 * 3 \<le> len" 
  shows "length (snd (mwd_x3_from_x2 le R w v t)) = len"
    "j < 8 \<Longrightarrow> direct_value 3 (snd (mwd_x3_from_x2 le R w v t)) j = direct_value 2 v j"
  using assms
  by (simp_all add: mwd_x3_from_x2_def case_prod_beta Let_def fold_columns[OF mwd_x3_column8[OF assms(2)]]
      direct_value_shares place_mod nth_set_share nth_list_update) (auto simp: ac_simps)

lemma mwd_x3_from_x4_value:
  assumes "length w = len" "8 * 3 \<le> len" 
  shows "length (snd (mwd_x3_from_x4 le R w v t)) = len"
    "j < 8 \<Longrightarrow> direct_value 3 (snd (mwd_x3_from_x4 le R w v t)) j = direct_value 4 v j"
  using assms
  by (simp_all add: mwd_x3_from_x4_def case_prod_beta Let_def fold_columns[OF mwd_x3_column9[OF assms(2)]]
      direct_value_shares place_mod nth_set_share nth_list_update) (auto simp: ac_simps)

lemma mwd_x4_zero_value:
  assumes "length w = len" "8 * 4 \<le> len" 
  shows "length (snd (mwd_x4_zero le R w t)) = len"
    "j < 8 \<Longrightarrow> direct_value 4 (snd (mwd_x4_zero le R w t)) j = 0"
  using assms
  by (simp_all add: mwd_x4_zero_def case_prod_beta Let_def fold_columns[OF mwd_x4_column0[OF assms(2)]]
      direct_value_shares place_mod nth_set_share nth_list_update)

lemma mwd_x4_load_value:
  assumes "length w = len" "8 * 4 \<le> len" 
  shows "length (snd (mwd_x4_load le R w d t)) = len"
    "j < 8 \<Longrightarrow> direct_value 4 (snd (mwd_x4_load le R w d t)) j = d ! j"
  using assms
  by (simp_all add: mwd_x4_load_def case_prod_beta Let_def fold_columns[OF mwd_x4_column1[OF assms(2)]]
      direct_value_shares place_mod nth_set_share nth_list_update) (auto simp: ac_simps)

lemma mwd_x4_load_partial_value:
  assumes "length w = len" "8 * 4 \<le> len" "n \<le> 8"
  shows "length (snd (mwd_x4_load_partial le R w d n t)) = len"
    "j < 8 \<Longrightarrow> direct_value 4 (snd (mwd_x4_load_partial le R w d n t)) j = (if j < n then d ! j else 0)"
  using assms
  by (simp_all add: mwd_x4_load_partial_def case_prod_beta Let_def fold_columns[OF mwd_x4_column2[OF assms(2)]] fold_columns[OF mwd_x4_column3[OF assms(2)]]
      direct_value_shares place_mod nth_set_share nth_list_update) (auto simp: ac_simps)

lemma mwd_x4_load_32_value:
  assumes "length w = len" "8 * 4 \<le> len" 
  shows "length (snd (mwd_x4_load_32 le R w d d' t)) = len"
    "j < 8 \<Longrightarrow> direct_value 4 (snd (mwd_x4_load_32 le R w d d' t)) j = (if j < 4 then d ! j else d' ! (j - 4))"
  using assms
  by (simp_all add: mwd_x4_load_32_def case_prod_beta Let_def fold_columns[OF mwd_x4_column4[OF assms(2)]]
      direct_value_shares place_mod nth_set_share nth_list_update place_mod_4) (auto simp: ac_simps)

lemma mwd_x4_randomize_value:
  assumes "length w = len" "8 * 4 \<le> len" 
  shows "length (snd (mwd_x4_randomize le R w v t)) = len"
    "j < 8 \<Longrightarrow> direct_value 4 (snd (mwd_x4_randomize le R w v t)) j = direct_value 4 v j"
  using assms
  by (simp_all add: mwd_x4_randomize_def case_prod_beta Let_def fold_columns[OF mwd_x4_column5[OF assms(2)]]
      direct_value_shares place_mod nth_set_share nth_list_update) (auto simp: ac_simps)

lemma mwd_x4_xor_value:
  assumes "length w = len" "8 * 4 \<le> len" 
  shows "length (mwd_x4_xor w v) = len"
    "j < 8 \<Longrightarrow> direct_value 4 (mwd_x4_xor w v) j = direct_value 4 w j XOR direct_value 4 v j"
  using assms
  by (simp_all add: mwd_x4_xor_def case_prod_beta Let_def fold_columns[OF mwd_x4_column6[OF assms(2)]]
      direct_value_shares place_mod nth_set_share nth_list_update) (auto simp: ac_simps)

lemma mwd_x4_replace_value:
  assumes "length w = len" "8 * 4 \<le> len" "n \<le> 8"
  shows "length (mwd_x4_replace w v n) = len"
    "j < 8 \<Longrightarrow> direct_value 4 (mwd_x4_replace w v n) j = (if j < n then direct_value 4 v j else direct_value 4 w j)"
  using assms
  by (simp_all add: mwd_x4_replace_def case_prod_beta Let_def fold_columns[OF mwd_x4_column7[OF assms(2)]]
      direct_value_shares place_mod nth_set_share nth_list_update)

lemma mwd_x4_from_x2_value:
  assumes "length w = len" "8 * 4 \<le> len" 
  shows "length (snd (mwd_x4_from_x2 le R w v t)) = len"
    "j < 8 \<Longrightarrow> direct_value 4 (snd (mwd_x4_from_x2 le R w v t)) j = direct_value 2 v j"
  using assms
  by (simp_all add: mwd_x4_from_x2_def case_prod_beta Let_def fold_columns[OF mwd_x4_column8[OF assms(2)]]
      direct_value_shares place_mod nth_set_share nth_list_update) (auto simp: ac_simps)

lemma mwd_x4_from_x3_value:
  assumes "length w = len" "8 * 4 \<le> len" 
  shows "length (snd (mwd_x4_from_x3 le R w v t)) = len"
    "j < 8 \<Longrightarrow> direct_value 4 (snd (mwd_x4_from_x3 le R w v t)) j = direct_value 3 v j"
  using assms
  by (simp_all add: mwd_x4_from_x3_def case_prod_beta Let_def fold_columns[OF mwd_x4_column9[OF assms(2)]]
      direct_value_shares place_mod nth_set_share nth_list_update) (auto simp: ac_simps)

section \<open>The contract\<close>

lemma rep_directI:
  "\<lbrakk>length r = 8 * mx; k \<le> mx; \<And>j. j < 8 \<Longrightarrow> direct_value k r j = be_store_word64 x ! j\<rbrakk> \<Longrightarrow> rep_direct mx k r x"
  by (simp add: rep_direct_def)

lemma be_store_zero: "be_store_word64 0 = zeros 8"
  by (simp add: be_store_word64_def zeros_8)

lemma direct_value_word:
  assumes "8 * k \<le> length w" "j < 8" "2 \<le> k"
  shows "direct_value k w j = be_store_word64 (be_load_word64 w XOR be_load_word64 (drop 8 w) XOR
    (if 3 \<le> k then be_load_word64 (drop 16 w) else 0) XOR
    (if 4 \<le> k then be_load_word64 (drop 24 w) else 0)) ! j"
  using assms by (auto simp: direct_value_def be_store_word64_xor be_store_load_word64 be_store_zero
      nth_xor_bytes xor.assoc add.commute)

lemma rep_direct_word:
  assumes "2 \<le> k"
  shows "rep_direct mx k w x \<longleftrightarrow> length w = 8 * mx \<and> k \<le> mx \<and>
    x = be_load_word64 w XOR be_load_word64 (drop 8 w) XOR
      (if 3 \<le> k then be_load_word64 (drop 16 w) else 0) XOR
      (if 4 \<le> k then be_load_word64 (drop 24 w) else 0)" (is "_ \<longleftrightarrow> _ \<and> _ \<and> x = ?x")
proof -
  have "x = ?x" if "length w = 8 * mx" "k \<le> mx" "\<forall>j<8. direct_value k w j = be_store_word64 x ! j"
  proof -
    have "be_store_word64 x = be_store_word64 ?x"
      by (rule nth_equalityI) (use that direct_value_word[OF _ _ assms, of w] in auto)
    then show ?thesis by (metis be_load_store_word64)
  qed
  then show ?thesis
    using direct_value_word[OF _ _ assms, of w] by (auto simp: rep_direct_def)
qed

lemma load_put_share:
  assumes "8 * i + 8 \<le> length w" "8 * j + 8 \<le> length w"
  shows "be_load_word64 (drop (8 * i) (put_at w (8 * j) (be_store_word64 y))) =
    (if i = j then y else be_load_word64 (drop (8 * i) w))"
proof -
  have "take 8 (drop (8 * i) (put_at w (8 * j) (be_store_word64 y))) =
      (if i = j then be_store_word64 y else take 8 (drop (8 * i) w))"
    by (rule nth_equalityI) (use assms in \<open>auto simp: nth_put_at\<close>)
  then show ?thesis by (metis be_load_word64_take be_load_store_word64)
qed

lemma load_put_shares:
  assumes "length w = 8 * mx" "2 \<le> mx"
  shows "be_load_word64 (put_at w 0 (be_store_word64 y)) = y"
    "be_load_word64 (put_at w 8 (be_store_word64 y)) = be_load_word64 w"
    "be_load_word64 (drop 8 (put_at w 0 (be_store_word64 y))) = be_load_word64 (drop 8 w)"
    "be_load_word64 (drop 8 (put_at w 8 (be_store_word64 y))) = y"
    "3 \<le> mx \<Longrightarrow> be_load_word64 (put_at w 16 (be_store_word64 y)) = be_load_word64 w"
    "3 \<le> mx \<Longrightarrow> be_load_word64 (drop 8 (put_at w 16 (be_store_word64 y))) = be_load_word64 (drop 8 w)"
    "3 \<le> mx \<Longrightarrow> be_load_word64 (drop 16 (put_at w 16 (be_store_word64 y))) = y"
    "3 \<le> mx \<Longrightarrow> be_load_word64 (drop 16 (put_at w 0 (be_store_word64 y))) = be_load_word64 (drop 16 w)"
    "3 \<le> mx \<Longrightarrow> be_load_word64 (drop 16 (put_at w 8 (be_store_word64 y))) = be_load_word64 (drop 16 w)"
    "4 \<le> mx \<Longrightarrow> be_load_word64 (put_at w 24 (be_store_word64 y)) = be_load_word64 w"
    "4 \<le> mx \<Longrightarrow> be_load_word64 (drop 8 (put_at w 24 (be_store_word64 y))) = be_load_word64 (drop 8 w)"
    "4 \<le> mx \<Longrightarrow> be_load_word64 (drop 16 (put_at w 24 (be_store_word64 y))) = be_load_word64 (drop 16 w)"
    "4 \<le> mx \<Longrightarrow> be_load_word64 (drop 24 (put_at w 24 (be_store_word64 y))) = y"
  using assms load_put_share[of 0 w 0 y] load_put_share[of 0 w 1 y] load_put_share[of 1 w 0 y]
    load_put_share[of 1 w 1 y] load_put_share[of 0 w 2 y] load_put_share[of 1 w 2 y] load_put_share[of 2 w 2 y]
    load_put_share[of 2 w 0 y] load_put_share[of 2 w 1 y] load_put_share[of 0 w 3 y] load_put_share[of 1 w 3 y]
    load_put_share[of 2 w 3 y] load_put_share[of 3 w 3 y]
  by simp_all

lemma ascon_x2_permute_direct_rep:
  assumes "list_all2 (rep_direct mx 2) ws xs" "length xs = 5" "2 \<le> Suc (length p)"
  shows "list_all2 (rep_direct mx 2) (fst (ascon_x2_permute_direct ws r p)) (ascon_permute_c64 xs r) \<and>
    length (snd (ascon_x2_permute_direct ws r p)) = length p"
proof -
  have k: "2 \<le> (2 :: nat)" by simp
  note word = rep_direct_word[OF k]
  from assms obtain w0 w1 w2 w3 w4 where ws: "ws = [w0, w1, w2, w3, w4]"
    by (metis list_all2_lengthD list5_cases)
  have len: "length w0 = 8 * mx" "length w1 = 8 * mx" "length w2 = 8 * mx" "length w3 = 8 * mx" "length w4 = 8 * mx"
    "2 \<le> mx" "2 \<le> mx"
    using assms(1) by (auto simp: ws word list_all2_Cons1)
  have xs: "xs = [be_load_word64 w0 XOR be_load_word64 (drop 8 w0), be_load_word64 w1 XOR be_load_word64 (drop 8 w1), be_load_word64 w2 XOR be_load_word64 (drop 8 w2), be_load_word64 w3 XOR be_load_word64 (drop 8 w3), be_load_word64 w4 XOR be_load_word64 (drop 8 w4)]"
    using assms(1) by (auto simp: ws word list_all2_Cons1)
  obtain a' b' t_a' where
    r: "masked_rounds (x2_round True) r
        (compl_x2 (direct_share_regs ws 0), direct_share_regs ws 1, p ! 0) =
      (a', b', t_a')" by (metis prod.exhaust)
  obtain y0_a y1_a y2_a y3_a y4_a where y_a: "compl_x2 a' = (y0_a, y1_a, y2_a, y3_a, y4_a)" by (metis prod.exhaust)
  obtain y0_b y1_b y2_b y3_b y4_b where y_b: "b' = (y0_b, y1_b, y2_b, y3_b, y4_b)" by (metis prod.exhaust)
  note y = y_a y_b
  have "c64_permute (be_load_word64 w0 XOR be_load_word64 (drop 8 w0), be_load_word64 w1 XOR be_load_word64 (drop 8 w1), be_load_word64 w2 XOR be_load_word64 (drop 8 w2), be_load_word64 w3 XOR be_load_word64 (drop 8 w3), be_load_word64 w4 XOR be_load_word64 (drop 8 w4)) r =
      unmask2 True (y0_a, y1_a, y2_a, y3_a, y4_a) (y0_b, y1_b, y2_b, y3_b, y4_b)"
    using x2_rounds_unmask[OF r]
    by (simp add: y direct_share_regs_def ws unmask2_def xor_regs_def map_regs_def mask64_defs xor.assoc)
  moreover have "ascon_x2_permute_direct ws r p =
      (direct_put_share (direct_put_share ws 0 (compl_x2 a')) 1 b', p[0 := t_a'])"
    unfolding ascon_x2_permute_direct_def Let_def r prod.case ..
  ultimately show ?thesis
    using len
    by (simp add: xs y ascon_permute_c64_def direct_put_share_def ws word load_put_shares[where mx = mx] unmask2_def
        xor_regs_def map_regs_def mask64_defs xor.assoc)
qed

lemma mwd_x2_laws: "masked_word (mwd le R 2) (rep_direct mx 2) (\<lambda>w. length w = 8 * mx \<and> 2 \<le> mx) 2"
proof unfold_locales
  show "x = y" if "rep_direct mx 2 w x" "rep_direct mx 2 w y" for w x y
    using that rep_direct_word[of 2] by simp
  show "list_all2 (rep_direct mx 2) (fst (mw_permute (mwd le R 2) ws r p)) (ascon_permute_c64 xs r) \<and>
      length (snd (mw_permute (mwd le R 2) ws r p)) = length p"
    if "list_all2 (rep_direct mx 2) ws xs" "length xs = 5" "2 \<le> Suc (length p)" for ws xs r p
    using ascon_x2_permute_direct_rep[OF that] by (simp add: mwd_def)
  show "mw_store (mwd le R 2) w = be_store_word64 x" if "rep_direct mx 2 w x" for w x
    by (rule nth_equalityI)
      (use that in \<open>auto simp: mwd_def mwd_x2_store_def rep_direct_def direct_value_shares\<close>)
  show "mw_store_partial (mwd le R 2) n w = take n (be_store_word64 x)" if "rep_direct mx 2 w x" "n < 8" for w x n
    by (rule nth_equalityI)
      (use that in \<open>auto simp: mwd_def mwd_x2_store_partial_def rep_direct_def direct_value_shares\<close>)
  show "rep_direct mx 2 (snd (mw_zero (mwd le R 2) w t)) 0" if "length w = 8 * mx \<and> 2 \<le> mx" for w t
    by (rule rep_directI) (use that in \<open>auto simp: mwd_def mwd_x2_zero_value be_store_zero\<close>)
  show "rep_direct mx 2 (snd (mw_load (mwd le R 2) w d t)) (be_load_word64 d)"
    if "length w = 8 * mx \<and> 2 \<le> mx" "8 \<le> length d" for w d t
    by (rule rep_directI) (use that in \<open>auto simp: mwd_def mwd_x2_load_value be_store_load_word64\<close>)
  show "rep_direct mx 2 (snd (mw_load_partial (mwd le R 2) w d n t)) (be_load_word64 (take n d @ zeros (8 - n)))"
    if "length w = 8 * mx \<and> 2 \<le> mx" "n < 8" "n \<le> length d" for w d n t
    by (rule rep_directI)
      (use that in \<open>auto simp: mwd_def mwd_x2_load_partial_value be_store_load_word64 nth_append\<close>)
  show "rep_direct mx 2 (snd (mw_load_32 (mwd le R 2) w d1 d2 t)) (be_load_word64 (take 4 d1 @ take 4 d2))"
    if "length w = 8 * mx \<and> 2 \<le> mx" "4 \<le> length d1" "4 \<le> length d2" for w d1 d2 t
    by (rule rep_directI)
      (use that in \<open>auto simp: mwd_def mwd_x2_load_32_value be_store_load_word64 nth_append\<close>)
  show "rep_direct mx 2 (snd (mw_randomize (mwd le R 2) w v t)) x"
    if "length w = 8 * mx \<and> 2 \<le> mx" "rep_direct mx 2 v x" for w v t x
    by (rule rep_directI) (use that in \<open>auto simp: mwd_def mwd_x2_randomize_value rep_direct_def\<close>)
  show "rep_direct mx 2 (mw_xor (mwd le R 2) w v) (x XOR y)"
    if "rep_direct mx 2 w x" "rep_direct mx 2 v y" for w v x y
    by (rule rep_directI)
      (use that in \<open>auto simp: mwd_def mwd_x2_xor_value rep_direct_def be_store_word64_xor nth_xor_bytes\<close>)
  show "rep_direct mx 2 (mw_replace (mwd le R 2) w v n)
      (be_load_word64 (take n (be_store_word64 y) @ drop n (be_store_word64 x)))"
    if "rep_direct mx 2 w x" "rep_direct mx 2 v y" "n < 8" for w v x y n
    by (rule rep_directI)
      (use that in \<open>auto simp: mwd_def mwd_x2_replace_value rep_direct_def be_store_load_word64 nth_append\<close>)
qed (simp add: rep_direct_def)

lemma ascon_x3_permute_direct_rep:
  assumes "list_all2 (rep_direct mx 3) ws xs" "length xs = 5" "3 \<le> Suc (length p)"
  shows "list_all2 (rep_direct mx 3) (fst (ascon_x3_permute_direct ws r p)) (ascon_permute_c64 xs r) \<and>
    length (snd (ascon_x3_permute_direct ws r p)) = length p"
proof -
  have k: "2 \<le> (3 :: nat)" by simp
  note word = rep_direct_word[OF k]
  from assms obtain w0 w1 w2 w3 w4 where ws: "ws = [w0, w1, w2, w3, w4]"
    by (metis list_all2_lengthD list5_cases)
  have len: "length w0 = 8 * mx" "length w1 = 8 * mx" "length w2 = 8 * mx" "length w3 = 8 * mx" "length w4 = 8 * mx"
    "3 \<le> mx" "2 \<le> mx"
    using assms(1) by (auto simp: ws word list_all2_Cons1)
  have xs: "xs = [be_load_word64 w0 XOR be_load_word64 (drop 8 w0) XOR be_load_word64 (drop 16 w0), be_load_word64 w1 XOR be_load_word64 (drop 8 w1) XOR be_load_word64 (drop 16 w1), be_load_word64 w2 XOR be_load_word64 (drop 8 w2) XOR be_load_word64 (drop 16 w2), be_load_word64 w3 XOR be_load_word64 (drop 8 w3) XOR be_load_word64 (drop 16 w3), be_load_word64 w4 XOR be_load_word64 (drop 8 w4) XOR be_load_word64 (drop 16 w4)]"
    using assms(1) by (auto simp: ws word list_all2_Cons1)
  obtain a' b' c' t_a' t_b' where
    r: "masked_rounds (x3_round True) r
        (compl_x2 (direct_share_regs ws 0), direct_share_regs ws 1, direct_share_regs ws 2, p ! 0, p ! 1) =
      (a', b', c', t_a', t_b')" by (metis prod.exhaust)
  obtain y0_a y1_a y2_a y3_a y4_a where y_a: "compl_x2 a' = (y0_a, y1_a, y2_a, y3_a, y4_a)" by (metis prod.exhaust)
  obtain y0_b y1_b y2_b y3_b y4_b where y_b: "b' = (y0_b, y1_b, y2_b, y3_b, y4_b)" by (metis prod.exhaust)
  obtain y0_c y1_c y2_c y3_c y4_c where y_c: "c' = (y0_c, y1_c, y2_c, y3_c, y4_c)" by (metis prod.exhaust)
  note y = y_a y_b y_c
  have "c64_permute (be_load_word64 w0 XOR be_load_word64 (drop 8 w0) XOR be_load_word64 (drop 16 w0), be_load_word64 w1 XOR be_load_word64 (drop 8 w1) XOR be_load_word64 (drop 16 w1), be_load_word64 w2 XOR be_load_word64 (drop 8 w2) XOR be_load_word64 (drop 16 w2), be_load_word64 w3 XOR be_load_word64 (drop 8 w3) XOR be_load_word64 (drop 16 w3), be_load_word64 w4 XOR be_load_word64 (drop 8 w4) XOR be_load_word64 (drop 16 w4)) r =
      unmask3 True (y0_a, y1_a, y2_a, y3_a, y4_a) (y0_b, y1_b, y2_b, y3_b, y4_b) (y0_c, y1_c, y2_c, y3_c, y4_c)"
    using x3_rounds_unmask[OF r]
    by (simp add: y direct_share_regs_def ws unmask3_def xor_regs_def map_regs_def mask64_defs xor.assoc)
  moreover have "ascon_x3_permute_direct ws r p =
      (direct_put_share (direct_put_share (direct_put_share ws 0 (compl_x2 a')) 1 b') 2 c', p[0 := t_a', 1 := t_b'])"
    unfolding ascon_x3_permute_direct_def Let_def r prod.case ..
  ultimately show ?thesis
    using len
    by (simp add: xs y ascon_permute_c64_def direct_put_share_def ws word load_put_shares[where mx = mx] unmask3_def
        xor_regs_def map_regs_def mask64_defs xor.assoc)
qed

lemma mwd_x3_laws: "masked_word (mwd le R 3) (rep_direct mx 3) (\<lambda>w. length w = 8 * mx \<and> 3 \<le> mx) 3"
proof unfold_locales
  show "x = y" if "rep_direct mx 3 w x" "rep_direct mx 3 w y" for w x y
    using that rep_direct_word[of 3] by simp
  show "list_all2 (rep_direct mx 3) (fst (mw_permute (mwd le R 3) ws r p)) (ascon_permute_c64 xs r) \<and>
      length (snd (mw_permute (mwd le R 3) ws r p)) = length p"
    if "list_all2 (rep_direct mx 3) ws xs" "length xs = 5" "3 \<le> Suc (length p)" for ws xs r p
    using ascon_x3_permute_direct_rep[OF that] by (simp add: mwd_def)
  show "mw_store (mwd le R 3) w = be_store_word64 x" if "rep_direct mx 3 w x" for w x
    by (rule nth_equalityI)
      (use that in \<open>auto simp: mwd_def mwd_x3_store_def rep_direct_def direct_value_shares\<close>)
  show "mw_store_partial (mwd le R 3) n w = take n (be_store_word64 x)" if "rep_direct mx 3 w x" "n < 8" for w x n
    by (rule nth_equalityI)
      (use that in \<open>auto simp: mwd_def mwd_x3_store_partial_def rep_direct_def direct_value_shares\<close>)
  show "rep_direct mx 3 (snd (mw_zero (mwd le R 3) w t)) 0" if "length w = 8 * mx \<and> 3 \<le> mx" for w t
    by (rule rep_directI) (use that in \<open>auto simp: mwd_def mwd_x3_zero_value be_store_zero\<close>)
  show "rep_direct mx 3 (snd (mw_load (mwd le R 3) w d t)) (be_load_word64 d)"
    if "length w = 8 * mx \<and> 3 \<le> mx" "8 \<le> length d" for w d t
    by (rule rep_directI) (use that in \<open>auto simp: mwd_def mwd_x3_load_value be_store_load_word64\<close>)
  show "rep_direct mx 3 (snd (mw_load_partial (mwd le R 3) w d n t)) (be_load_word64 (take n d @ zeros (8 - n)))"
    if "length w = 8 * mx \<and> 3 \<le> mx" "n < 8" "n \<le> length d" for w d n t
    by (rule rep_directI)
      (use that in \<open>auto simp: mwd_def mwd_x3_load_partial_value be_store_load_word64 nth_append\<close>)
  show "rep_direct mx 3 (snd (mw_load_32 (mwd le R 3) w d1 d2 t)) (be_load_word64 (take 4 d1 @ take 4 d2))"
    if "length w = 8 * mx \<and> 3 \<le> mx" "4 \<le> length d1" "4 \<le> length d2" for w d1 d2 t
    by (rule rep_directI)
      (use that in \<open>auto simp: mwd_def mwd_x3_load_32_value be_store_load_word64 nth_append\<close>)
  show "rep_direct mx 3 (snd (mw_randomize (mwd le R 3) w v t)) x"
    if "length w = 8 * mx \<and> 3 \<le> mx" "rep_direct mx 3 v x" for w v t x
    by (rule rep_directI) (use that in \<open>auto simp: mwd_def mwd_x3_randomize_value rep_direct_def\<close>)
  show "rep_direct mx 3 (mw_xor (mwd le R 3) w v) (x XOR y)"
    if "rep_direct mx 3 w x" "rep_direct mx 3 v y" for w v x y
    by (rule rep_directI)
      (use that in \<open>auto simp: mwd_def mwd_x3_xor_value rep_direct_def be_store_word64_xor nth_xor_bytes\<close>)
  show "rep_direct mx 3 (mw_replace (mwd le R 3) w v n)
      (be_load_word64 (take n (be_store_word64 y) @ drop n (be_store_word64 x)))"
    if "rep_direct mx 3 w x" "rep_direct mx 3 v y" "n < 8" for w v x y n
    by (rule rep_directI)
      (use that in \<open>auto simp: mwd_def mwd_x3_replace_value rep_direct_def be_store_load_word64 nth_append\<close>)
qed (simp add: rep_direct_def)

lemma ascon_x4_permute_direct_rep:
  assumes "list_all2 (rep_direct mx 4) ws xs" "length xs = 5" "4 \<le> Suc (length p)"
  shows "list_all2 (rep_direct mx 4) (fst (ascon_x4_permute_direct ws r p)) (ascon_permute_c64 xs r) \<and>
    length (snd (ascon_x4_permute_direct ws r p)) = length p"
proof -
  have k: "2 \<le> (4 :: nat)" by simp
  note word = rep_direct_word[OF k]
  from assms obtain w0 w1 w2 w3 w4 where ws: "ws = [w0, w1, w2, w3, w4]"
    by (metis list_all2_lengthD list5_cases)
  have len: "length w0 = 8 * mx" "length w1 = 8 * mx" "length w2 = 8 * mx" "length w3 = 8 * mx" "length w4 = 8 * mx"
    "4 \<le> mx" "2 \<le> mx"
    using assms(1) by (auto simp: ws word list_all2_Cons1)
  have xs: "xs = [be_load_word64 w0 XOR be_load_word64 (drop 8 w0) XOR be_load_word64 (drop 16 w0) XOR be_load_word64 (drop 24 w0), be_load_word64 w1 XOR be_load_word64 (drop 8 w1) XOR be_load_word64 (drop 16 w1) XOR be_load_word64 (drop 24 w1), be_load_word64 w2 XOR be_load_word64 (drop 8 w2) XOR be_load_word64 (drop 16 w2) XOR be_load_word64 (drop 24 w2), be_load_word64 w3 XOR be_load_word64 (drop 8 w3) XOR be_load_word64 (drop 16 w3) XOR be_load_word64 (drop 24 w3), be_load_word64 w4 XOR be_load_word64 (drop 8 w4) XOR be_load_word64 (drop 16 w4) XOR be_load_word64 (drop 24 w4)]"
    using assms(1) by (auto simp: ws word list_all2_Cons1)
  obtain a' b' c' d' t_a' t_b' t_c' where
    r: "masked_rounds (x4_round True) r
        (compl_x2 (direct_share_regs ws 0), direct_share_regs ws 1, direct_share_regs ws 2, direct_share_regs ws 3, p ! 0, p ! 1, p ! 2) =
      (a', b', c', d', t_a', t_b', t_c')" by (metis prod.exhaust)
  obtain y0_a y1_a y2_a y3_a y4_a where y_a: "compl_x2 a' = (y0_a, y1_a, y2_a, y3_a, y4_a)" by (metis prod.exhaust)
  obtain y0_b y1_b y2_b y3_b y4_b where y_b: "b' = (y0_b, y1_b, y2_b, y3_b, y4_b)" by (metis prod.exhaust)
  obtain y0_c y1_c y2_c y3_c y4_c where y_c: "c' = (y0_c, y1_c, y2_c, y3_c, y4_c)" by (metis prod.exhaust)
  obtain y0_d y1_d y2_d y3_d y4_d where y_d: "d' = (y0_d, y1_d, y2_d, y3_d, y4_d)" by (metis prod.exhaust)
  note y = y_a y_b y_c y_d
  have "c64_permute (be_load_word64 w0 XOR be_load_word64 (drop 8 w0) XOR be_load_word64 (drop 16 w0) XOR be_load_word64 (drop 24 w0), be_load_word64 w1 XOR be_load_word64 (drop 8 w1) XOR be_load_word64 (drop 16 w1) XOR be_load_word64 (drop 24 w1), be_load_word64 w2 XOR be_load_word64 (drop 8 w2) XOR be_load_word64 (drop 16 w2) XOR be_load_word64 (drop 24 w2), be_load_word64 w3 XOR be_load_word64 (drop 8 w3) XOR be_load_word64 (drop 16 w3) XOR be_load_word64 (drop 24 w3), be_load_word64 w4 XOR be_load_word64 (drop 8 w4) XOR be_load_word64 (drop 16 w4) XOR be_load_word64 (drop 24 w4)) r =
      unmask4 True (y0_a, y1_a, y2_a, y3_a, y4_a) (y0_b, y1_b, y2_b, y3_b, y4_b) (y0_c, y1_c, y2_c, y3_c, y4_c) (y0_d, y1_d, y2_d, y3_d, y4_d)"
    using x4_rounds_unmask[OF r]
    by (simp add: y direct_share_regs_def ws unmask4_def xor_regs_def map_regs_def mask64_defs xor.assoc)
  moreover have "ascon_x4_permute_direct ws r p =
      (direct_put_share (direct_put_share (direct_put_share (direct_put_share ws 0 (compl_x2 a')) 1 b') 2 c') 3 d', p[0 := t_a', 1 := t_b', 2 := t_c'])"
    unfolding ascon_x4_permute_direct_def Let_def r prod.case ..
  ultimately show ?thesis
    using len
    by (simp add: xs y ascon_permute_c64_def direct_put_share_def ws word load_put_shares[where mx = mx] unmask4_def
        xor_regs_def map_regs_def mask64_defs xor.assoc)
qed

lemma mwd_x4_laws: "masked_word (mwd le R 4) (rep_direct mx 4) (\<lambda>w. length w = 8 * mx \<and> 4 \<le> mx) 4"
proof unfold_locales
  show "x = y" if "rep_direct mx 4 w x" "rep_direct mx 4 w y" for w x y
    using that rep_direct_word[of 4] by simp
  show "list_all2 (rep_direct mx 4) (fst (mw_permute (mwd le R 4) ws r p)) (ascon_permute_c64 xs r) \<and>
      length (snd (mw_permute (mwd le R 4) ws r p)) = length p"
    if "list_all2 (rep_direct mx 4) ws xs" "length xs = 5" "4 \<le> Suc (length p)" for ws xs r p
    using ascon_x4_permute_direct_rep[OF that] by (simp add: mwd_def)
  show "mw_store (mwd le R 4) w = be_store_word64 x" if "rep_direct mx 4 w x" for w x
    by (rule nth_equalityI)
      (use that in \<open>auto simp: mwd_def mwd_x4_store_def rep_direct_def direct_value_shares\<close>)
  show "mw_store_partial (mwd le R 4) n w = take n (be_store_word64 x)" if "rep_direct mx 4 w x" "n < 8" for w x n
    by (rule nth_equalityI)
      (use that in \<open>auto simp: mwd_def mwd_x4_store_partial_def rep_direct_def direct_value_shares\<close>)
  show "rep_direct mx 4 (snd (mw_zero (mwd le R 4) w t)) 0" if "length w = 8 * mx \<and> 4 \<le> mx" for w t
    by (rule rep_directI) (use that in \<open>auto simp: mwd_def mwd_x4_zero_value be_store_zero\<close>)
  show "rep_direct mx 4 (snd (mw_load (mwd le R 4) w d t)) (be_load_word64 d)"
    if "length w = 8 * mx \<and> 4 \<le> mx" "8 \<le> length d" for w d t
    by (rule rep_directI) (use that in \<open>auto simp: mwd_def mwd_x4_load_value be_store_load_word64\<close>)
  show "rep_direct mx 4 (snd (mw_load_partial (mwd le R 4) w d n t)) (be_load_word64 (take n d @ zeros (8 - n)))"
    if "length w = 8 * mx \<and> 4 \<le> mx" "n < 8" "n \<le> length d" for w d n t
    by (rule rep_directI)
      (use that in \<open>auto simp: mwd_def mwd_x4_load_partial_value be_store_load_word64 nth_append\<close>)
  show "rep_direct mx 4 (snd (mw_load_32 (mwd le R 4) w d1 d2 t)) (be_load_word64 (take 4 d1 @ take 4 d2))"
    if "length w = 8 * mx \<and> 4 \<le> mx" "4 \<le> length d1" "4 \<le> length d2" for w d1 d2 t
    by (rule rep_directI)
      (use that in \<open>auto simp: mwd_def mwd_x4_load_32_value be_store_load_word64 nth_append\<close>)
  show "rep_direct mx 4 (snd (mw_randomize (mwd le R 4) w v t)) x"
    if "length w = 8 * mx \<and> 4 \<le> mx" "rep_direct mx 4 v x" for w v t x
    by (rule rep_directI) (use that in \<open>auto simp: mwd_def mwd_x4_randomize_value rep_direct_def\<close>)
  show "rep_direct mx 4 (mw_xor (mwd le R 4) w v) (x XOR y)"
    if "rep_direct mx 4 w x" "rep_direct mx 4 v y" for w v x y
    by (rule rep_directI)
      (use that in \<open>auto simp: mwd_def mwd_x4_xor_value rep_direct_def be_store_word64_xor nth_xor_bytes\<close>)
  show "rep_direct mx 4 (mw_replace (mwd le R 4) w v n)
      (be_load_word64 (take n (be_store_word64 y) @ drop n (be_store_word64 x)))"
    if "rep_direct mx 4 w x" "rep_direct mx 4 v y" "n < 8" for w v x y n
    by (rule rep_directI)
      (use that in \<open>auto simp: mwd_def mwd_x4_replace_value rep_direct_def be_store_load_word64 nth_append\<close>)
qed (simp add: rep_direct_def)

end
