(* ===== verification/Masked_State.thy ===== *)
theory Masked_State
  imports Masked_Word
begin

text \<open>
  The masked state and the masked keys.  A masked backend is a record of the operations on masked
  words for each number of shares, of the conversions between them and of the few functions that
  do not depend on the number of shares; the locale \<open>masking\<close> is its contract.  Over it are
  defined the functions of \<open>masking/ascon-masked-state.c\<close>, on the array \<open>M\<close> of five masked words,
  and of \<open>masking/ascon-masked-key.c\<close>.  The number \<open>K\<close> stands for
  \<open>ASCON_MASKED_KEY_SHARES\<close>, \<open>mb_max\<close> for \<open>ASCON_MASKED_MAX_SHARES\<close>; the state \<open>t\<close> of the
  generator is the one after \<open>ascon_trng_init\<close>.  A conversion may be called with the same state
  as source and destination: none of the functions on words reads a share of the source after
  writing the share of the same number of the destination.
\<close>

section \<open>Masked backends\<close>

text \<open>\<open>mb_clear\<close> is a word all of whose bytes are zero, \<open>mb_from MB k j\<close> the function
  \<open>ascon_masked_word_x<k>_from_x<j>\<close>, \<open>mb_next\<close> the function \<open>ascon_trng_generate_64\<close>.\<close>

record ('w, 't) masked_backend =
  mb_max :: nat
  mb_clear :: 'w
  mb_ops :: "nat \<Rightarrow> ('w, 't) masked_ops"
  mb_from :: "nat \<Rightarrow> nat \<Rightarrow> 'w \<Rightarrow> 'w \<Rightarrow> 't \<Rightarrow> 't \<times> 'w"
  mb_pad :: "'w \<Rightarrow> nat \<Rightarrow> 'w"
  mb_separator :: "'w \<Rightarrow> 'w"
  mb_next :: "'t \<Rightarrow> 't \<times> u64"

abbreviation shares :: "('w, 't) masked_backend \<Rightarrow> nat \<Rightarrow> bool" where
  "shares MB k \<equiv> 2 \<le> k \<and> k \<le> mb_max MB"

locale masking =
  fixes MB :: "('w, 't) masked_backend" and mrep :: "nat \<Rightarrow> 'w \<Rightarrow> u64 \<Rightarrow> bool"
    and shaped :: "'w \<Rightarrow> bool"
  assumes max_shares: "2 \<le> mb_max MB" "mb_max MB \<le> 4"
    and words: "shares MB k \<Longrightarrow> masked_word (mb_ops MB k) (mrep k) shaped k"
    and clear_rep: "shares MB k \<Longrightarrow> mrep k (mb_clear MB) 0"
    and from_rep: "\<lbrakk>shares MB k; shares MB j; k \<noteq> j; shaped w; mrep j v x\<rbrakk> \<Longrightarrow>
      mrep k (snd (mb_from MB k j w v t)) x"
    and pad_rep: "\<lbrakk>shares MB k; mrep k w x; off < 8\<rbrakk> \<Longrightarrow>
      mrep k (mb_pad MB w off) (x XOR drop_bit (off * 8) 0x8000000000000000)"
    and separator_rep: "\<lbrakk>shares MB k; mrep k w x\<rbrakk> \<Longrightarrow> mrep k (mb_separator MB w) (x XOR 1)"
    and randomize_first_rep: "\<lbrakk>shares MB k; mrep k w x\<rbrakk> \<Longrightarrow>
      mrep k (snd (mw_randomize (mb_ops MB 2) w w t)) x"

section \<open>The masked state\<close>

text \<open>The loops over the words of a state, which draw from the generator as they go.\<close>

fun word_loop :: "('w \<Rightarrow> 'a \<Rightarrow> 't \<Rightarrow> 't \<times> 'w) \<Rightarrow> 'w list \<Rightarrow> 'a list \<Rightarrow> 't \<Rightarrow> 't \<times> 'w list" where
  "word_loop f (d # dest) (s # src) t =
     (let (t, d) = f d s t; (t, dest) = word_loop f dest src t in (t, d # dest))"
| "word_loop f dest src t = (t, dest)"

definition ascon_masked_state_init :: "('w, 't) masked_backend \<Rightarrow> 'w list" where
  "ascon_masked_state_init MB = replicate 5 (mb_clear MB)"

definition ascon_masked_state_free :: "('w, 't) masked_backend \<Rightarrow> 'w list \<Rightarrow> 'w list" where
  "ascon_masked_state_free MB state = replicate 5 (mb_clear MB)"

text \<open>A branch of the preprocessor for the byte-array backend passes the bytes \<open>src->B + index * 8\<close>
  themselves, the eight bytes that \<open>ascon_squeeze_8\<close> copies there; likewise for
  \<open>ascon_overwrite_bytes\<close>.\<close>

definition words_of_x1 :: "'s snp \<Rightarrow> 's \<Rightarrow> bytes list" where
  "words_of_x1 P src = map (\<lambda>index. snp_squeeze_8 P src (index * 8)) [0..<5]"

definition words_to_x1 :: "'s snp \<Rightarrow> bytes list \<Rightarrow> 's" where
  "words_to_x1 P ws =
     fold (\<lambda>index dest. snp_overwrite_bytes P dest (ws ! index) (index * 8) 8) [0..<5] (snp_init P)"

definition ascon_x2_randomize ::
  "('w, 't) masked_backend \<Rightarrow> 'w list \<Rightarrow> 't \<Rightarrow> 't \<times> 'w list" where
  "ascon_x2_randomize MB state t = word_loop (mw_randomize (mb_ops MB 2)) state state t"

definition ascon_x2_copy_from_x1 ::
  "('w, 't) masked_backend \<Rightarrow> 's snp \<Rightarrow> 'w list \<Rightarrow> 's \<Rightarrow> 't \<Rightarrow> 't \<times> 'w list" where
  "ascon_x2_copy_from_x1 MB P dest src t =
     word_loop (mw_load (mb_ops MB 2)) dest (words_of_x1 P src) t"

definition ascon_x2_copy_to_x1 :: "('w, 't) masked_backend \<Rightarrow> 's snp \<Rightarrow> 'w list \<Rightarrow> 's" where
  "ascon_x2_copy_to_x1 MB P src = words_to_x1 P (map (mw_store (mb_ops MB 2)) src)"

definition ascon_x2_copy_from_x2 ::
  "('w, 't) masked_backend \<Rightarrow> 'w list \<Rightarrow> 'w list \<Rightarrow> 't \<Rightarrow> 't \<times> 'w list" where
  "ascon_x2_copy_from_x2 MB dest src t = word_loop (mw_randomize (mb_ops MB 2)) dest src t"

definition ascon_x2_copy_from_x3 ::
  "('w, 't) masked_backend \<Rightarrow> 'w list \<Rightarrow> 'w list \<Rightarrow> 't \<Rightarrow> 't \<times> 'w list" where
  "ascon_x2_copy_from_x3 MB dest src t = word_loop (mb_from MB 2 3) dest src t"

definition ascon_x2_copy_from_x4 ::
  "('w, 't) masked_backend \<Rightarrow> 'w list \<Rightarrow> 'w list \<Rightarrow> 't \<Rightarrow> 't \<times> 'w list" where
  "ascon_x2_copy_from_x4 MB dest src t = word_loop (mb_from MB 2 4) dest src t"

definition ascon_x3_randomize ::
  "('w, 't) masked_backend \<Rightarrow> 'w list \<Rightarrow> 't \<Rightarrow> 't \<times> 'w list" where
  "ascon_x3_randomize MB state t = word_loop (mw_randomize (mb_ops MB 3)) state state t"

definition ascon_x3_copy_from_x1 ::
  "('w, 't) masked_backend \<Rightarrow> 's snp \<Rightarrow> 'w list \<Rightarrow> 's \<Rightarrow> 't \<Rightarrow> 't \<times> 'w list" where
  "ascon_x3_copy_from_x1 MB P dest src t =
     word_loop (mw_load (mb_ops MB 3)) dest (words_of_x1 P src) t"

definition ascon_x3_copy_to_x1 :: "('w, 't) masked_backend \<Rightarrow> 's snp \<Rightarrow> 'w list \<Rightarrow> 's" where
  "ascon_x3_copy_to_x1 MB P src = words_to_x1 P (map (mw_store (mb_ops MB 3)) src)"

definition ascon_x3_copy_from_x2 ::
  "('w, 't) masked_backend \<Rightarrow> 'w list \<Rightarrow> 'w list \<Rightarrow> 't \<Rightarrow> 't \<times> 'w list" where
  "ascon_x3_copy_from_x2 MB dest src t = word_loop (mb_from MB 3 2) dest src t"

definition ascon_x3_copy_from_x3 ::
  "('w, 't) masked_backend \<Rightarrow> 'w list \<Rightarrow> 'w list \<Rightarrow> 't \<Rightarrow> 't \<times> 'w list" where
  "ascon_x3_copy_from_x3 MB dest src t = word_loop (mw_randomize (mb_ops MB 3)) dest src t"

definition ascon_x3_copy_from_x4 ::
  "('w, 't) masked_backend \<Rightarrow> 'w list \<Rightarrow> 'w list \<Rightarrow> 't \<Rightarrow> 't \<times> 'w list" where
  "ascon_x3_copy_from_x4 MB dest src t = word_loop (mb_from MB 3 4) dest src t"

definition ascon_x4_randomize ::
  "('w, 't) masked_backend \<Rightarrow> 'w list \<Rightarrow> 't \<Rightarrow> 't \<times> 'w list" where
  "ascon_x4_randomize MB state t = word_loop (mw_randomize (mb_ops MB 4)) state state t"

definition ascon_x4_copy_from_x1 ::
  "('w, 't) masked_backend \<Rightarrow> 's snp \<Rightarrow> 'w list \<Rightarrow> 's \<Rightarrow> 't \<Rightarrow> 't \<times> 'w list" where
  "ascon_x4_copy_from_x1 MB P dest src t =
     word_loop (mw_load (mb_ops MB 4)) dest (words_of_x1 P src) t"

definition ascon_x4_copy_to_x1 :: "('w, 't) masked_backend \<Rightarrow> 's snp \<Rightarrow> 'w list \<Rightarrow> 's" where
  "ascon_x4_copy_to_x1 MB P src = words_to_x1 P (map (mw_store (mb_ops MB 4)) src)"

definition ascon_x4_copy_from_x2 ::
  "('w, 't) masked_backend \<Rightarrow> 'w list \<Rightarrow> 'w list \<Rightarrow> 't \<Rightarrow> 't \<times> 'w list" where
  "ascon_x4_copy_from_x2 MB dest src t = word_loop (mb_from MB 4 2) dest src t"

definition ascon_x4_copy_from_x3 ::
  "('w, 't) masked_backend \<Rightarrow> 'w list \<Rightarrow> 'w list \<Rightarrow> 't \<Rightarrow> 't \<times> 'w list" where
  "ascon_x4_copy_from_x3 MB dest src t = word_loop (mb_from MB 4 3) dest src t"

definition ascon_x4_copy_from_x4 ::
  "('w, 't) masked_backend \<Rightarrow> 'w list \<Rightarrow> 'w list \<Rightarrow> 't \<Rightarrow> 't \<times> 'w list" where
  "ascon_x4_copy_from_x4 MB dest src t = word_loop (mw_randomize (mb_ops MB 4)) dest src t"

section \<open>Masked keys\<close>

text \<open>The words of a key have room for four shares in every configuration; the code uses them as
  masked words, which have room for \<open>mb_max\<close> shares.\<close>

definition ascon_masked_key_128_init ::
  "('w, 't) masked_backend \<Rightarrow> nat \<Rightarrow> 'w list \<Rightarrow> bytes \<Rightarrow> 't \<Rightarrow> 'w list" where
  "ascon_masked_key_128_init MB K masked key t =
     (let masked = (if mb_max MB < 4 then replicate 2 (mb_clear MB) else masked);
          (t, k0) = mw_load (mb_ops MB K) (masked ! 0) key t;
          (t, k1) = mw_load (mb_ops MB K) (masked ! 1) (drop 8 key) t
      in masked[0 := k0, 1 := k1])"

definition ascon_masked_key_128_free :: "('w, 't) masked_backend \<Rightarrow> 'w list \<Rightarrow> 'w list" where
  "ascon_masked_key_128_free MB masked = replicate 2 (mb_clear MB)"

definition ascon_masked_key_128_randomize_with_trng ::
  "('w, 't) masked_backend \<Rightarrow> nat \<Rightarrow> 'w list \<Rightarrow> 't \<Rightarrow> 't \<times> 'w list" where
  "ascon_masked_key_128_randomize_with_trng MB K masked t =
     (let (t, k0) = mw_randomize (mb_ops MB K) (masked ! 0) (masked ! 0) t;
          (t, k1) = mw_randomize (mb_ops MB K) (masked ! 1) (masked ! 1) t
      in (t, masked[0 := k0, 1 := k1]))"

definition ascon_masked_key_128_randomize ::
  "('w, 't) masked_backend \<Rightarrow> nat \<Rightarrow> 'w list \<Rightarrow> 't \<Rightarrow> 'w list" where
  "ascon_masked_key_128_randomize MB K masked t =
     snd (ascon_masked_key_128_randomize_with_trng MB K masked t)"

definition ascon_masked_key_128_extract :: "('w, 't) masked_backend \<Rightarrow> nat \<Rightarrow> 'w list \<Rightarrow> bytes" where
  "ascon_masked_key_128_extract MB K masked =
     mw_store (mb_ops MB K) (masked ! 0) @ mw_store (mb_ops MB K) (masked ! 1)"

text \<open>\<open>ASCON-80pq\<close> absorbs the key in two places, so a key of 160 bits is masked twice, at the two
  alignments.\<close>

definition ascon_masked_key_160_init ::
  "('w, 't) masked_backend \<Rightarrow> nat \<Rightarrow> 'w list \<Rightarrow> bytes \<Rightarrow> 't \<Rightarrow> 'w list" where
  "ascon_masked_key_160_init MB K masked key t =
     (let masked = (if mb_max MB < 4 then replicate 6 (mb_clear MB) else masked);
          zeroes = [0, 0, 0, 0];
          (t, k0) = mw_load (mb_ops MB K) (masked ! 0) key t;
          (t, k1) = mw_load (mb_ops MB K) (masked ! 1) (drop 8 key) t;
          (t, k2) = mw_load_32 (mb_ops MB K) (masked ! 2) (drop 16 key) zeroes t;
          (t, k3) = mw_load_32 (mb_ops MB K) (masked ! 3) zeroes key t;
          (t, k4) = mw_load (mb_ops MB K) (masked ! 4) (drop 4 key) t;
          (t, k5) = mw_load (mb_ops MB K) (masked ! 5) (drop 12 key) t
      in masked[0 := k0, 1 := k1, 2 := k2, 3 := k3, 4 := k4, 5 := k5])"

definition ascon_masked_key_160_free :: "('w, 't) masked_backend \<Rightarrow> 'w list \<Rightarrow> 'w list" where
  "ascon_masked_key_160_free MB masked = replicate 6 (mb_clear MB)"

text \<open>The three branches of the preprocessor call the function for two shares.\<close>

definition ascon_masked_key_160_randomize_with_trng ::
  "('w, 't) masked_backend \<Rightarrow> nat \<Rightarrow> 'w list \<Rightarrow> 't \<Rightarrow> 't \<times> 'w list" where
  "ascon_masked_key_160_randomize_with_trng MB K masked t =
     word_loop (mw_randomize (mb_ops MB 2)) masked masked t"

definition ascon_masked_key_160_randomize ::
  "('w, 't) masked_backend \<Rightarrow> nat \<Rightarrow> 'w list \<Rightarrow> 't \<Rightarrow> 'w list" where
  "ascon_masked_key_160_randomize MB K masked t =
     snd (ascon_masked_key_160_randomize_with_trng MB K masked t)"

definition ascon_masked_key_160_extract :: "('w, 't) masked_backend \<Rightarrow> nat \<Rightarrow> 'w list \<Rightarrow> bytes" where
  "ascon_masked_key_160_extract MB K masked =
     mw_store (mb_ops MB K) (masked ! 0) @ mw_store (mb_ops MB K) (masked ! 1) @
     mw_store_partial (mb_ops MB K) 4 (masked ! 2)"

section \<open>What the state and the keys stand for\<close>

lemma word_loop_rep:
  assumes "length dest = length src" "list_all shaped dest" "list_all2 Q src xs"
    "\<And>d s t x. \<lbrakk>shaped d; Q s x\<rbrakk> \<Longrightarrow> r (snd (f d s t)) x"
  shows "list_all2 r (snd (word_loop f dest src t)) xs"
  using assms(1-3)
proof (induction dest src arbitrary: t xs rule: list_induct2)
  case (Cons d dest s src)
  from Cons.prems obtain x ys where xs: "xs = x # ys" "Q s x" "list_all2 Q src ys"
    by (auto simp: list_all2_Cons1)
  with Cons.IH[of ys "fst (f d s t)"] assms(4)[of d s x t] Cons.prems show ?case
    by (auto simp: Let_def split: prod.splits)
qed simp

text \<open>The words of a plain state as eight bytes each, and back.\<close>

definition stands_for :: "('w \<Rightarrow> u64 \<Rightarrow> bool) \<Rightarrow> 'w list \<Rightarrow> bytes \<Rightarrow> bool" where
  "stands_for r ms b \<longleftrightarrow> (\<exists>xs. list_all2 r ms xs \<and> rep_sliced64 xs b)"

definition key128_masked :: "('w \<Rightarrow> u64 \<Rightarrow> bool) \<Rightarrow> 'w list \<Rightarrow> bytes \<Rightarrow> bool" where
  "key128_masked r ks k \<longleftrightarrow> length k = 16 \<and>
     list_all2 r ks [be_load_word64 k, be_load_word64 (drop 8 k)]"

definition key160_masked :: "('w \<Rightarrow> u64 \<Rightarrow> bool) \<Rightarrow> 'w list \<Rightarrow> bytes \<Rightarrow> bool" where
  "key160_masked r ks k \<longleftrightarrow> length k = 20 \<and>
     list_all2 r ks
       [be_load_word64 k, be_load_word64 (drop 8 k), be_load_word64 (drop 16 k @ zeros 4),
        be_load_word64 (zeros 4 @ take 4 k), be_load_word64 (drop 4 k), be_load_word64 (drop 12 k)]"

lemma five: "[0..<5] = [0, 1, 2, 3, 4::nat]"
  by code_simp

lemma replicate_five: "replicate 5 x = [x, x, x, x, x]"
  by (simp add: eval_nat_numeral)

lemma put_five:
  assumes "length b = 40" "length w0 = 8" "length w1 = 8" "length w2 = 8" "length w3 = 8" "length w4 = 8"
  shows "put_at (put_at (put_at (put_at (put_at b 0 w0) 8 w1) 16 w2) 24 w3) 32 w4 =
    w0 @ w1 @ w2 @ w3 @ w4"
  using put_at_whole[of b "w0 @ w1 @ w2 @ w3 @ w4"] assms by (simp add: put_at_append)

context snp_laws
begin

lemma words_of_x1_eq:
  "rep s b \<Longrightarrow> words_of_x1 B s = map (\<lambda>i. get_at b (i * 8) 8) [0..<5]"
  by (simp add: words_of_x1_def rep_squeeze_8)

lemma words_to_x1_rep:
  assumes "length ws = 5" "list_all (\<lambda>w. length w = 8) ws"
  shows "rep (words_to_x1 B ws) (concat ws)"
proof -
  obtain w0 w1 w2 w3 w4 where ws: "ws = [w0, w1, w2, w3, w4]"
    using assms(1) by (auto simp: numeral_eq_Suc length_Suc_conv)
  with assms(2) have len: "length w0 = 8" "length w1 = 8" "length w2 = 8" "length w3 = 8" "length w4 = 8"
    by simp_all
  note rep_overwrite[OF rep_init, of 8 w0 0]
  note rep_overwrite[OF this, of 8 w1 8]
  note rep_overwrite[OF this, of 8 w2 16]
  note rep_overwrite[OF this, of 8 w3 24]
  note rep_overwrite[OF this, of 8 w4 32]
  with len show ?thesis
    by (simp add: words_to_x1_def five ws put_five)
qed

end

lemma rep_sliced64_words:
  assumes "rep_sliced64 S b"
  shows "map (\<lambda>i. be_load_word64 (get_at b (i * 8) 8)) [0..<5] = S"
proof (rule nth_equalityI)
  fix i assume "i < length (map (\<lambda>i. be_load_word64 (get_at b (i * 8) 8)) [0..<5])"
  then have "be_store_word64 (S ! i) = get_at b (i * 8) 8" "i < 5"
    using rep_sliced64_word[OF assms, of i] by (simp_all add: mult.commute)
  then show "map (\<lambda>i. be_load_word64 (get_at b (i * 8) 8)) [0..<5] ! i = S ! i"
    by (simp flip: \<open>be_store_word64 (S ! i) = get_at b (i * 8) 8\<close>)
qed (use assms in \<open>simp add: rep_sliced64_def\<close>)

context masking
begin

lemmas shaped_rep = masked_word.rep_shaped[OF words]
  and load_rep = masked_word.rep_load[OF words]
  and load_partial_rep = masked_word.rep_load_partial[OF words]
  and load_32_rep = masked_word.rep_load_32[OF words]
  and store_rep = masked_word.rep_store[OF words]
  and store_partial_rep = masked_word.rep_store_partial[OF words]
  and randomize_rep = masked_word.rep_randomize[OF words]
  and xor_rep = masked_word.rep_xor[OF words]
  and replace_rep = masked_word.rep_replace[OF words]
  and permute_rep = masked_word.rep_permute[OF words]

abbreviation state_rep :: "nat \<Rightarrow> 'w list \<Rightarrow> bytes \<Rightarrow> bool" where
  "state_rep k \<equiv> stands_for (mrep k)"

lemma stands_for_shaped:
  "\<lbrakk>shares MB k; list_all2 (mrep k) ms xs\<rbrakk> \<Longrightarrow> list_all shaped ms"
  by (auto simp: list_all2_conv_all_nth list_all_length intro: shaped_rep)

lemma state_rep_length:
  "state_rep k ms b \<Longrightarrow> length ms = 5 \<and> length b = 40"
  by (auto simp: stands_for_def rep_sliced64_length)
    (auto simp: rep_sliced64_def dest: list_all2_lengthD)

lemma state_init_rep: "shares MB k \<Longrightarrow> state_rep k (ascon_masked_state_init MB) (zeros 40)"
  unfolding stands_for_def ascon_masked_state_init_def
  by (rule exI[of _ "[0, 0, 0, 0, 0]"]) (simp add: rep_sliced64_init clear_rep replicate_five)

text \<open>A loop that keeps the words of the state.\<close>

lemma loop_same_rep:
  assumes "shares MB j" "state_rep j src b" "length dest = 5" "list_all shaped dest"
    "\<And>d s t x. \<lbrakk>shaped d; mrep j s x\<rbrakk> \<Longrightarrow> mrep k (snd (f d s t)) x"
  shows "state_rep k (snd (word_loop f dest src t)) b"
proof -
  from assms(2) obtain xs where xs: "list_all2 (mrep j) src xs" "rep_sliced64 xs b"
    by (auto simp: stands_for_def)
  have "list_all2 (mrep k) (snd (word_loop f dest src t)) xs"
    using assms state_rep_length[OF assms(2)] xs by (intro word_loop_rep[where Q = "mrep j" and shaped = shaped]) auto
  with xs(2) show ?thesis by (auto simp: stands_for_def)
qed

lemma loop_self_rep:
  assumes "shares MB j" "state_rep j src b"
    "\<And>d s t x. \<lbrakk>shaped d; mrep j s x\<rbrakk> \<Longrightarrow> mrep k (snd (f d s t)) x"
  shows "state_rep k (snd (word_loop f src src t)) b"
proof -
  from assms(2) have "list_all shaped src"
    by (auto simp: stands_for_def intro: stands_for_shaped[OF assms(1)])
  show ?thesis
    by (rule loop_same_rep[OF assms(1,2) _ \<open>list_all shaped src\<close> assms(3)])
      (use state_rep_length[OF assms(2)] in auto)
qed

text \<open>Keys.\<close>

lemma key_128_init_rep:
  assumes "shares MB K" "length masked = 2" "list_all shaped masked" "length key = 16"
  shows "key128_masked (mrep K) (ascon_masked_key_128_init MB K masked key t) key"
proof -
  from assms(2) obtain m0 m1 where "masked = [m0, m1]" by (auto simp: numeral_eq_Suc length_Suc_conv)
  with assms show ?thesis
    using shaped_rep[OF assms(1) clear_rep[OF assms(1)]]
    by (auto simp: ascon_masked_key_128_init_def key128_masked_def Let_def case_prod_beta load_rep
        numeral_2_eq_2)
qed

lemma key_128_randomize_rep:
  assumes "shares MB K" "key128_masked (mrep K) masked key"
  shows "key128_masked (mrep K) (ascon_masked_key_128_randomize MB K masked t) key"
  using assms(2) shaped_rep[OF assms(1)]
  by (auto simp: ascon_masked_key_128_randomize_def ascon_masked_key_128_randomize_with_trng_def
      key128_masked_def Let_def case_prod_beta list_all2_Cons2 randomize_rep[OF assms(1)])

lemma key_128_extract_eq:
  assumes "shares MB K" "key128_masked (mrep K) masked key"
  shows "ascon_masked_key_128_extract MB K masked = key"
  using assms(2)
  by (auto simp: ascon_masked_key_128_extract_def key128_masked_def list_all2_Cons2
      store_rep[OF assms(1)] be_store_load_word64)

lemma key_160_init_rep:
  assumes "shares MB K" "length masked = 6" "list_all shaped masked" "length key = 20"
  shows "key160_masked (mrep K) (ascon_masked_key_160_init MB K masked key t) key"
proof -
  from assms(2) obtain m0 m1 m2 m3 m4 m5 where "masked = [m0, m1, m2, m3, m4, m5]"
    by (auto simp: numeral_eq_Suc length_Suc_conv)
  with assms show ?thesis
    using shaped_rep[OF assms(1) clear_rep[OF assms(1)]]
      load_32_rep[OF assms(1), of _ "drop 16 key" "[0, 0, 0, 0]"]
      load_32_rep[OF assms(1), of _ "[0, 0, 0, 0]" key]
    by (auto simp: ascon_masked_key_160_init_def key160_masked_def Let_def case_prod_beta load_rep
        eval_nat_numeral zeros_def)
qed

lemma key_160_randomize_rep:
  assumes "shares MB K" "key160_masked (mrep K) masked key"
  shows "key160_masked (mrep K) (ascon_masked_key_160_randomize MB K masked t) key"
  using assms(2) randomize_first_rep[OF assms(1)]
  by (auto simp: ascon_masked_key_160_randomize_def ascon_masked_key_160_randomize_with_trng_def
      key160_masked_def Let_def case_prod_beta list_all2_Cons2)

lemma key_160_extract_eq:
  assumes "shares MB K" "key160_masked (mrep K) masked key"
  shows "ascon_masked_key_160_extract MB K masked = key"
proof -
  have "take 8 key @ take 8 (drop 8 key) @ drop 16 key = key"
    by (metis append_take_drop_id drop_drop numeral_Bit0)
  with assms(2) show ?thesis
    by (auto simp: ascon_masked_key_160_extract_def key160_masked_def list_all2_Cons2
      store_rep[OF assms(1)] store_partial_rep[OF assms(1)] be_store_load_word64)
qed

end

text \<open>With a plain backend beside the masked one.\<close>

locale masking_plain = masking MB mrep shaped + plain: snp_laws P prep
  for MB :: "('w, 't) masked_backend" and mrep :: "nat \<Rightarrow> 'w \<Rightarrow> u64 \<Rightarrow> bool"
    and shaped :: "'w \<Rightarrow> bool" and P :: "'s snp" and prep :: "'s \<Rightarrow> bytes \<Rightarrow> bool"
begin

lemma copy_from_x1_rep:
  assumes "prep s b" "length dest = 5" "list_all shaped dest" "shares MB k"
  shows "state_rep k (snd (word_loop (mw_load (mb_ops MB k)) dest (words_of_x1 P s) t)) b"
proof -
  let ?xs = "map (\<lambda>i. be_load_word64 (get_at b (i * 8) 8)) [0..<5]"
  have b: "length b = 40" by (rule plain.rep_length[OF assms(1)])
  have "list_all2 (mrep k) (snd (word_loop (mw_load (mb_ops MB k)) dest (words_of_x1 P s) t)) ?xs"
    using assms b load_rep[OF assms(4)]
    by (intro word_loop_rep[where Q = "\<lambda>d x. 8 \<le> length d \<and> x = be_load_word64 d" and shaped = shaped])
      (auto simp: plain.words_of_x1_eq[OF assms(1)] list_all2_conv_all_nth)
  moreover have "rep_sliced64 ?xs b"
  proof -
    have "b = get_at b 0 8 @ get_at b 8 8 @ get_at b 16 8 @ get_at b 24 8 @ get_at b 32 8"
      using get_at_append[of b 0 8 32] get_at_append[of b 8 8 24] get_at_append[of b 16 8 16]
        get_at_append[of b 24 8 8] b by (simp add: get_at_def)
    then show ?thesis by (simp add: rep_sliced64_def five be_store_load_word64 b)
  qed
  ultimately show ?thesis by (auto simp: stands_for_def)
qed

lemma copy_to_x1_rep:
  assumes "state_rep k ms b" "shares MB k"
  shows "prep (words_to_x1 P (map (mw_store (mb_ops MB k)) ms)) b"
proof -
  from assms obtain xs where xs: "list_all2 (mrep k) ms xs" "rep_sliced64 xs b"
    by (auto simp: stands_for_def)
  then have "map (mw_store (mb_ops MB k)) ms = map be_store_word64 xs"
    by (auto simp: list_all2_conv_all_nth store_rep[OF assms(2)] intro!: nth_equalityI)
  with plain.words_to_x1_rep[of "map be_store_word64 xs"] xs(2) show ?thesis
    by (simp add: rep_sliced64_def list_all_length)
qed

end

end
