(* ===== verification/Masked_Aead.thy ===== *)
theory Masked_Aead
  imports Masked_State Aead_OneShot
begin

text \<open>
  The masked modes: \<open>aead/ascon-aead-masked-common.c\<close>, \<open>ascon-aead-masked-128.c\<close>,
  \<open>ascon-aead-masked-128a.c\<close> and \<open>ascon-aead-masked-80pq.c\<close>, over a masked backend \<open>MB\<close> and a
  plain one \<open>P\<close>.  \<open>K\<close> and \<open>D\<close> stand for \<open>ASCON_MASKED_KEY_SHARES\<close> and
  \<open>ASCON_MASKED_DATA_SHARES\<close>, which choose between the branches of the preprocessor; with one data
  share the payload is processed by the plain functions.  The functions pass around the masked
  state, a scratch word, the words that the permutation preserves and the generator; a
  tuple of the four is threaded through them.  \<open>word\<close> and \<open>t\<close> are the scratch word as the function
  finds it and the generator after \<open>ascon_trng_init\<close>; the clean-up at the end is not
  modelled, the variables are local.

  The theorem on each mode: on a masked key that stands for the key \<open>k\<close> it computes the
  construction of theory \<open>Aead_Spec\<close> with \<open>k\<close>, whatever the generator returns.
\<close>

section \<open>The common functions\<close>

type_synonym ('w, 't) masked_st = "'w list \<times> 'w \<times> u64 list \<times> 't"

text \<open>\<open>load (word, data); xor (M[i], word)\<close>, the two steps that absorb eight bytes or fewer, and
  the macro for the permutation.\<close>

definition load_xor :: "('w, 't) masked_ops \<Rightarrow> nat \<Rightarrow> bytes \<Rightarrow> ('w, 't) masked_st \<Rightarrow> ('w, 't) masked_st" where
  "load_xor M i data = (\<lambda>(state, word, preserve, t).
     let (t, word) = mw_load M word data t
     in (state[i := mw_xor M (state ! i) word], word, preserve, t))"

definition load_partial_xor ::
  "('w, 't) masked_ops \<Rightarrow> nat \<Rightarrow> bytes \<Rightarrow> nat \<Rightarrow> ('w, 't) masked_st \<Rightarrow> ('w, 't) masked_st" where
  "load_partial_xor M i data len = (\<lambda>(state, word, preserve, t).
     let (t, word) = mw_load_partial M word data len t
     in (state[i := mw_xor M (state ! i) word], word, preserve, t))"

definition masked_permute ::
  "('w, 't) masked_ops \<Rightarrow> u8 \<Rightarrow> ('w, 't) masked_st \<Rightarrow> ('w, 't) masked_st" where
  "masked_permute M first_round = (\<lambda>(state, word, preserve, t).
     let (state, preserve) = mw_permute M state first_round preserve
     in (state, word, preserve, t))"

definition masked_pad ::
  "('w, 't) masked_backend \<Rightarrow> nat \<Rightarrow> nat \<Rightarrow> ('w, 't) masked_st \<Rightarrow> ('w, 't) masked_st" where
  "masked_pad MB i len = (\<lambda>(state, word, preserve, t).
     (state[i := mb_pad MB (state ! i) len], word, preserve, t))"

definition masked_set :: "nat \<Rightarrow> ('w, 't) masked_st \<Rightarrow> ('w, 't) masked_st" where
  "masked_set i = (\<lambda>(state, word, preserve, t). (state[i := word], word, preserve, t))"

definition masked_replace ::
  "('w, 't) masked_ops \<Rightarrow> nat \<Rightarrow> nat \<Rightarrow> ('w, 't) masked_st \<Rightarrow> ('w, 't) masked_st" where
  "masked_replace M i len = (\<lambda>(state, word, preserve, t).
     (state[i := mw_replace M (state ! i) word len], word, preserve, t))"

definition masked_store :: "('w, 't) masked_ops \<Rightarrow> nat \<Rightarrow> ('w, 't) masked_st \<Rightarrow> bytes" where
  "masked_store M i st = mw_store M (fst st ! i)"

definition masked_store_partial ::
  "('w, 't) masked_ops \<Rightarrow> nat \<Rightarrow> nat \<Rightarrow> ('w, 't) masked_st \<Rightarrow> bytes" where
  "masked_store_partial M i len st = mw_store_partial M len (fst st ! i)"

text \<open>The last, partial block at word \<open>i\<close>: absorbed, encrypted or decrypted, and padded.\<close>

definition masked_absorb_tail ::
  "('w, 't) masked_backend \<Rightarrow> nat \<Rightarrow> nat \<Rightarrow> ('w, 't) masked_st \<Rightarrow> bytes \<Rightarrow> ('w, 't) masked_st" where
  "masked_absorb_tail MB D i st data =
     (let len = length data;
          st = (if len > 0 then load_partial_xor (mb_ops MB D) i data len st else st)
      in masked_pad MB i len st)"

definition masked_encrypt_tail ::
  "('w, 't) masked_backend \<Rightarrow> nat \<Rightarrow> nat \<Rightarrow> ('w, 't) masked_st \<Rightarrow> bytes \<Rightarrow>
     ('w, 't) masked_st \<times> bytes" where
  "masked_encrypt_tail MB D i st src =
     (let len = length src;
          (st, dest) =
            (if len > 0 then
               let st = load_partial_xor (mb_ops MB D) i src len st
               in (st, masked_store_partial (mb_ops MB D) i len st)
             else (st, []))
      in (masked_pad MB i len st, dest))"

definition masked_decrypt_tail ::
  "('w, 't) masked_backend \<Rightarrow> nat \<Rightarrow> nat \<Rightarrow> ('w, 't) masked_st \<Rightarrow> bytes \<Rightarrow>
     ('w, 't) masked_st \<times> bytes" where
  "masked_decrypt_tail MB D i st src =
     (let len = length src;
          (st, dest) =
            (if len > 0 then
               let st = load_partial_xor (mb_ops MB D) i src len st;
                   dest = masked_store_partial (mb_ops MB D) i len st
               in (masked_replace (mb_ops MB D) i len st, dest)
             else (st, []))
      in (masked_pad MB i len st, dest))"

definition ascon_masked_aead_absorb_8 ::
  "('w, 't) masked_backend \<Rightarrow> nat \<Rightarrow> ('w, 't) masked_st \<Rightarrow> bytes \<Rightarrow> u8 \<Rightarrow> ('w, 't) masked_st" where
  "ascon_masked_aead_absorb_8 MB D st data first_round =
     (let (st, _, data) = block_loop 8 (\<lambda>st data.
              (masked_permute (mb_ops MB D) first_round (load_xor (mb_ops MB D) 0 data st), [])) st data
      in masked_permute (mb_ops MB D) first_round (masked_absorb_tail MB D 0 st data))"

definition ascon_masked_aead_absorb_16 ::
  "('w, 't) masked_backend \<Rightarrow> nat \<Rightarrow> ('w, 't) masked_st \<Rightarrow> bytes \<Rightarrow> u8 \<Rightarrow> ('w, 't) masked_st" where
  "ascon_masked_aead_absorb_16 MB D st data first_round =
     (let (st, _, data) = block_loop 16 (\<lambda>st data.
              let st = load_xor (mb_ops MB D) 0 data st;
                  st = load_xor (mb_ops MB D) 1 (drop 8 data) st
              in (masked_permute (mb_ops MB D) first_round st, [])) st data;
          st = (if length data \<ge> 8
                then masked_absorb_tail MB D 1 (load_xor (mb_ops MB D) 0 data st) (drop 8 data)
                else masked_absorb_tail MB D 0 st data)
      in masked_permute (mb_ops MB D) first_round st)"

definition ascon_masked_aead_encrypt_8 ::
  "('w, 't) masked_backend \<Rightarrow> nat \<Rightarrow> ('w, 't) masked_st \<Rightarrow> bytes \<Rightarrow> u8 \<Rightarrow>
     ('w, 't) masked_st \<times> bytes" where
  "ascon_masked_aead_encrypt_8 MB D st src first_round =
     (let (st, dest, src) = block_loop 8 (\<lambda>st src.
              let st = load_xor (mb_ops MB D) 0 src st;
                  dest = masked_store (mb_ops MB D) 0 st
              in (masked_permute (mb_ops MB D) first_round st, dest)) st src;
          (st, dest') = masked_encrypt_tail MB D 0 st src
      in (st, dest @ dest'))"

definition ascon_masked_aead_encrypt_16 ::
  "('w, 't) masked_backend \<Rightarrow> nat \<Rightarrow> ('w, 't) masked_st \<Rightarrow> bytes \<Rightarrow> u8 \<Rightarrow>
     ('w, 't) masked_st \<times> bytes" where
  "ascon_masked_aead_encrypt_16 MB D st src first_round =
     (let (st, dest, src) = block_loop 16 (\<lambda>st src.
              let st = load_xor (mb_ops MB D) 0 src st;
                  st = load_xor (mb_ops MB D) 1 (drop 8 src) st;
                  dest = masked_store (mb_ops MB D) 0 st @ masked_store (mb_ops MB D) 1 st
              in (masked_permute (mb_ops MB D) first_round st, dest)) st src;
          (st, dest') =
            (if length src \<ge> 8 then
               let st = load_xor (mb_ops MB D) 0 src st;
                   dest1 = masked_store (mb_ops MB D) 0 st;
                   (st, dest2) = masked_encrypt_tail MB D 1 st (drop 8 src)
               in (st, dest1 @ dest2)
             else masked_encrypt_tail MB D 0 st src)
      in (st, dest @ dest'))"

definition ascon_masked_aead_decrypt_8 ::
  "('w, 't) masked_backend \<Rightarrow> nat \<Rightarrow> ('w, 't) masked_st \<Rightarrow> bytes \<Rightarrow> u8 \<Rightarrow>
     ('w, 't) masked_st \<times> bytes" where
  "ascon_masked_aead_decrypt_8 MB D st src first_round =
     (let (st, dest, src) = block_loop 8 (\<lambda>st src.
              let st = load_xor (mb_ops MB D) 0 src st;
                  dest = masked_store (mb_ops MB D) 0 st;
                  st = masked_set 0 st
              in (masked_permute (mb_ops MB D) first_round st, dest)) st src;
          (st, dest') = masked_decrypt_tail MB D 0 st src
      in (st, dest @ dest'))"

definition ascon_masked_aead_decrypt_16 ::
  "('w, 't) masked_backend \<Rightarrow> nat \<Rightarrow> ('w, 't) masked_st \<Rightarrow> bytes \<Rightarrow> u8 \<Rightarrow>
     ('w, 't) masked_st \<times> bytes" where
  "ascon_masked_aead_decrypt_16 MB D st src first_round =
     (let (st, dest, src) = block_loop 16 (\<lambda>st src.
              let st = load_xor (mb_ops MB D) 0 src st;
                  dest1 = masked_store (mb_ops MB D) 0 st;
                  st = masked_set 0 st;
                  st = load_xor (mb_ops MB D) 1 (drop 8 src) st;
                  dest2 = masked_store (mb_ops MB D) 1 st;
                  st = masked_set 1 st
              in (masked_permute (mb_ops MB D) first_round st, dest1 @ dest2)) st src;
          (st, dest') =
            (if length src \<ge> 8 then
               let st = load_xor (mb_ops MB D) 0 src st;
                   dest1 = masked_store (mb_ops MB D) 0 st;
                   st = masked_set 0 st;
                   (st, dest2) = masked_decrypt_tail MB D 1 st (drop 8 src)
               in (st, dest1 @ dest2)
             else masked_decrypt_tail MB D 0 st src)
      in (st, dest @ dest'))"

section \<open>Between the shares of the key and those of the data\<close>

text \<open>The macros of \<open>ascon-aead-masked-common.h\<close> that convert the state.\<close>

definition ascon_masked_key_randomize ::
  "('w, 't) masked_backend \<Rightarrow> nat \<Rightarrow> 'w list \<Rightarrow> 't \<Rightarrow> 't \<times> 'w list" where
  "ascon_masked_key_randomize MB K state t =
     (if K = 2 then ascon_x2_randomize MB state t
      else if K = 3 then ascon_x3_randomize MB state t
      else ascon_x4_randomize MB state t)"

definition ascon_copy_key_to ::
  "('w, 't) masked_backend \<Rightarrow> nat \<Rightarrow> nat \<Rightarrow> 'w list \<Rightarrow> 't \<Rightarrow> 't \<times> 'w list" where
  "ascon_copy_key_to MB K D state t =
     (if K = 2 then (t, state)
      else if K = 3 then
        (if D = 2 then ascon_x2_copy_from_x3 MB state state t else (t, state))
      else
        (if D = 2 then ascon_x2_copy_from_x4 MB state state t
         else if D = 3 then ascon_x3_copy_from_x4 MB state state t
         else (t, state)))"

definition ascon_copy_key_from ::
  "('w, 't) masked_backend \<Rightarrow> nat \<Rightarrow> nat \<Rightarrow> 'w list \<Rightarrow> 't \<Rightarrow> 't \<times> 'w list" where
  "ascon_copy_key_from MB K D state t =
     (if K = 2 then ascon_x2_randomize MB state t
      else if K = 3 then
        (if D = 2 then ascon_x3_copy_from_x2 MB state state t else ascon_x3_randomize MB state t)
      else
        (if D = 2 then ascon_x4_copy_from_x2 MB state state t
         else if D = 3 then ascon_x4_copy_from_x3 MB state state t
         else ascon_x4_randomize MB state t))"

definition ascon_copy_key_to_x1 :: "('w, 't) masked_backend \<Rightarrow> nat \<Rightarrow> 's snp \<Rightarrow> 'w list \<Rightarrow> 's" where
  "ascon_copy_key_to_x1 MB K P state =
     (if K = 2 then ascon_x2_copy_to_x1 MB P state
      else if K = 3 then ascon_x3_copy_to_x1 MB P state
      else ascon_x4_copy_to_x1 MB P state)"

definition ascon_copy_key_from_x1 ::
  "('w, 't) masked_backend \<Rightarrow> nat \<Rightarrow> 's snp \<Rightarrow> 's \<Rightarrow> 'w list \<Rightarrow> 't \<Rightarrow> 't \<times> 'w list" where
  "ascon_copy_key_from_x1 MB K P src state t =
     (if K = 2 then ascon_x2_copy_from_x1 MB P state src t
      else if K = 3 then ascon_x3_copy_from_x1 MB P state src t
      else ascon_x4_copy_from_x1 MB P state src t)"

text \<open>The array \<open>preserve\<close>, one word less than the key has shares, filled at random.\<close>

fun preserve_words :: "('w, 't) masked_backend \<Rightarrow> nat \<Rightarrow> 't \<Rightarrow> 't \<times> u64 list" where
  "preserve_words MB 0 t = (t, [])"
| "preserve_words MB (Suc n) t =
     (let (t, x) = mb_next MB t; (t, xs) = preserve_words MB n t in (t, x # xs))"

definition key_xor :: "('w, 't) masked_ops \<Rightarrow> nat \<Rightarrow> 'w \<Rightarrow> ('w, 't) masked_st \<Rightarrow> ('w, 't) masked_st" where
  "key_xor M i k = (\<lambda>(state, word, preserve, t).
     (state[i := mw_xor M (state ! i) k], word, preserve, t))"

definition convert_state ::
  "('w list \<Rightarrow> 't \<Rightarrow> 't \<times> 'w list) \<Rightarrow> ('w, 't) masked_st \<Rightarrow> ('w, 't) masked_st" where
  "convert_state f = (\<lambda>(state, word, preserve, t).
     let (t, state) = f state t in (state, word, preserve, t))"

definition masked_separator ::
  "('w, 't) masked_backend \<Rightarrow> ('w, 't) masked_st \<Rightarrow> ('w, 't) masked_st" where
  "masked_separator MB = (\<lambda>(state, word, preserve, t).
     (state[4 := mb_separator MB (state ! 4)], word, preserve, t))"

section \<open>The three modes\<close>

text \<open>In each mode, \<open>init\<close> ends with the conversion to the shares of the data; with one
  data share the caller takes the plain state from the result.  \<open>finalize\<close> takes
  the conversion back as an argument.  The IV of \<open>ASCON-80pq\<close> is filled up to a word.\<close>

definition ASCON80PQ_IV_word :: bytes where
  "ASCON80PQ_IV_word = [0xa0, 0x40, 0x0c, 0x06, 0x00, 0x00, 0x00, 0x00]"

definition ascon128_masked_aead_init ::
  "('w, 't) masked_backend \<Rightarrow> nat \<Rightarrow> nat \<Rightarrow> 't \<Rightarrow> 'w \<Rightarrow> bytes \<Rightarrow> 'w list \<Rightarrow> ('w, 't) masked_st" where
  "ascon128_masked_aead_init MB K D t word npub k =
     (let (t, preserve) = preserve_words MB (K - 1) t;
          state = ascon_masked_state_init MB;
          (t, state) = ascon_masked_key_randomize MB K state t;
          st = (state, word, preserve, t);
          st = load_xor (mb_ops MB K) 0 ASCON128_IV st;
          st = key_xor (mb_ops MB K) 1 (k ! 0) st;
          st = key_xor (mb_ops MB K) 2 (k ! 1) st;
          st = load_xor (mb_ops MB K) 3 npub st;
          st = load_xor (mb_ops MB K) 4 (drop 8 npub) st;
          st = masked_permute (mb_ops MB K) 0 st;
          st = key_xor (mb_ops MB K) 3 (k ! 0) st;
          st = key_xor (mb_ops MB K) 4 (k ! 1) st
      in convert_state (ascon_copy_key_to MB K D) st)"

definition ascon128_masked_aead_finalize ::
  "('w, 't) masked_backend \<Rightarrow> nat \<Rightarrow> ('w list \<Rightarrow> 't \<Rightarrow> 't \<times> 'w list) \<Rightarrow> ('w, 't) masked_st \<Rightarrow>
     'w list \<Rightarrow> bytes" where
  "ascon128_masked_aead_finalize MB K convert st k =
     (let (state, word, _, t) = st;
          (t, preserve) = preserve_words MB (K - 1) t;
          st = convert_state convert (state, word, preserve, t);
          st = key_xor (mb_ops MB K) 1 (k ! 0) st;
          st = key_xor (mb_ops MB K) 2 (k ! 1) st;
          st = masked_permute (mb_ops MB K) 0 st;
          st = key_xor (mb_ops MB K) 3 (k ! 0) st;
          st = key_xor (mb_ops MB K) 4 (k ! 1) st
      in masked_store (mb_ops MB K) 3 st @ masked_store (mb_ops MB K) 4 st)"

definition ascon128_masked_aead_encrypt ::
  "('w, 't) masked_backend \<Rightarrow> nat \<Rightarrow> nat \<Rightarrow> 's snp \<Rightarrow> bytes \<Rightarrow> bytes \<Rightarrow> bytes \<Rightarrow> 'w list \<Rightarrow>
     'w \<Rightarrow> 't \<Rightarrow> bytes" where
  "ascon128_masked_aead_encrypt MB K D P m ad npub k word t =
     (let st = ascon128_masked_aead_init MB K D t word npub k in
      if D = 1 then
        let s = ascon_copy_key_to_x1 MB K P (fst st);
            s = (if length ad > 0 then ascon_aead_absorb_8 P s ad 6 True else s);
            s = snp_separator P s;
            (s, c, partial) = ascon_aead_encrypt_8 P s m 6 0;
            s = snp_pad P s (unat partial)
        in c @ ascon128_masked_aead_finalize MB K (ascon_copy_key_from_x1 MB K P s) st k
      else
        let st = (if length ad > 0 then ascon_masked_aead_absorb_8 MB D st ad 6 else st);
            st = masked_separator MB st;
            (st, c) = ascon_masked_aead_encrypt_8 MB D st m 6
        in c @ ascon128_masked_aead_finalize MB K (ascon_copy_key_from MB K D) st k)"

definition ascon128_masked_aead_decrypt ::
  "('w, 't) masked_backend \<Rightarrow> nat \<Rightarrow> nat \<Rightarrow> 's snp \<Rightarrow> bytes \<Rightarrow> bytes \<Rightarrow> bytes \<Rightarrow> 'w list \<Rightarrow>
     'w \<Rightarrow> 't \<Rightarrow> int \<times> bytes option" where
  "ascon128_masked_aead_decrypt MB K D P c ad npub k word t =
     (if length c < 16 then (-1, None)
      else let mlen = length c - 16;
               st = ascon128_masked_aead_init MB K D t word npub k;
               (m, tag) =
                 (if D = 1 then
                    let s = ascon_copy_key_to_x1 MB K P (fst st);
                        s = (if length ad > 0 then ascon_aead_absorb_8 P s ad 6 True else s);
                        s = snp_separator P s;
                        (s, m, partial) = ascon_aead_decrypt_8 P s (take mlen c) 6 0;
                        s = snp_pad P s (unat partial)
                    in (m, ascon128_masked_aead_finalize MB K (ascon_copy_key_from_x1 MB K P s) st k)
                  else
                    let st = (if length ad > 0 then ascon_masked_aead_absorb_8 MB D st ad 6 else st);
                        st = masked_separator MB st;
                        (st, m) = ascon_masked_aead_decrypt_8 MB D st (take mlen c) 6
                    in (m, ascon128_masked_aead_finalize MB K (ascon_copy_key_from MB K D) st k));
               (result, m) = ascon_aead_check_tag m tag (drop mlen c) 16
           in (result, Some m))"

definition ascon128a_masked_aead_init ::
  "('w, 't) masked_backend \<Rightarrow> nat \<Rightarrow> nat \<Rightarrow> 't \<Rightarrow> 'w \<Rightarrow> bytes \<Rightarrow> 'w list \<Rightarrow> ('w, 't) masked_st" where
  "ascon128a_masked_aead_init MB K D t word npub k =
     (let (t, preserve) = preserve_words MB (K - 1) t;
          state = ascon_masked_state_init MB;
          (t, state) = ascon_masked_key_randomize MB K state t;
          st = (state, word, preserve, t);
          st = load_xor (mb_ops MB K) 0 ASCON128a_IV st;
          st = key_xor (mb_ops MB K) 1 (k ! 0) st;
          st = key_xor (mb_ops MB K) 2 (k ! 1) st;
          st = load_xor (mb_ops MB K) 3 npub st;
          st = load_xor (mb_ops MB K) 4 (drop 8 npub) st;
          st = masked_permute (mb_ops MB K) 0 st;
          st = key_xor (mb_ops MB K) 3 (k ! 0) st;
          st = key_xor (mb_ops MB K) 4 (k ! 1) st
      in convert_state (ascon_copy_key_to MB K D) st)"

definition ascon128a_masked_aead_finalize ::
  "('w, 't) masked_backend \<Rightarrow> nat \<Rightarrow> ('w list \<Rightarrow> 't \<Rightarrow> 't \<times> 'w list) \<Rightarrow> ('w, 't) masked_st \<Rightarrow>
     'w list \<Rightarrow> bytes" where
  "ascon128a_masked_aead_finalize MB K convert st k =
     (let (state, word, _, t) = st;
          (t, preserve) = preserve_words MB (K - 1) t;
          st = convert_state convert (state, word, preserve, t);
          st = key_xor (mb_ops MB K) 2 (k ! 0) st;
          st = key_xor (mb_ops MB K) 3 (k ! 1) st;
          st = masked_permute (mb_ops MB K) 0 st;
          st = key_xor (mb_ops MB K) 3 (k ! 0) st;
          st = key_xor (mb_ops MB K) 4 (k ! 1) st
      in masked_store (mb_ops MB K) 3 st @ masked_store (mb_ops MB K) 4 st)"

definition ascon128a_masked_aead_encrypt ::
  "('w, 't) masked_backend \<Rightarrow> nat \<Rightarrow> nat \<Rightarrow> 's snp \<Rightarrow> bytes \<Rightarrow> bytes \<Rightarrow> bytes \<Rightarrow> 'w list \<Rightarrow>
     'w \<Rightarrow> 't \<Rightarrow> bytes" where
  "ascon128a_masked_aead_encrypt MB K D P m ad npub k word t =
     (let st = ascon128a_masked_aead_init MB K D t word npub k in
      if D = 1 then
        let s = ascon_copy_key_to_x1 MB K P (fst st);
            s = (if length ad > 0 then ascon_aead_absorb_16 P s ad 4 True else s);
            s = snp_separator P s;
            (s, c, partial) = ascon_aead_encrypt_16 P s m 4 0;
            s = snp_pad P s (unat partial)
        in c @ ascon128a_masked_aead_finalize MB K (ascon_copy_key_from_x1 MB K P s) st k
      else
        let st = (if length ad > 0 then ascon_masked_aead_absorb_16 MB D st ad 4 else st);
            st = masked_separator MB st;
            (st, c) = ascon_masked_aead_encrypt_16 MB D st m 4
        in c @ ascon128a_masked_aead_finalize MB K (ascon_copy_key_from MB K D) st k)"

definition ascon128a_masked_aead_decrypt ::
  "('w, 't) masked_backend \<Rightarrow> nat \<Rightarrow> nat \<Rightarrow> 's snp \<Rightarrow> bytes \<Rightarrow> bytes \<Rightarrow> bytes \<Rightarrow> 'w list \<Rightarrow>
     'w \<Rightarrow> 't \<Rightarrow> int \<times> bytes option" where
  "ascon128a_masked_aead_decrypt MB K D P c ad npub k word t =
     (if length c < 16 then (-1, None)
      else let mlen = length c - 16;
               st = ascon128a_masked_aead_init MB K D t word npub k;
               (m, tag) =
                 (if D = 1 then
                    let s = ascon_copy_key_to_x1 MB K P (fst st);
                        s = (if length ad > 0 then ascon_aead_absorb_16 P s ad 4 True else s);
                        s = snp_separator P s;
                        (s, m, partial) = ascon_aead_decrypt_16 P s (take mlen c) 4 0;
                        s = snp_pad P s (unat partial)
                    in (m, ascon128a_masked_aead_finalize MB K (ascon_copy_key_from_x1 MB K P s) st k)
                  else
                    let st = (if length ad > 0 then ascon_masked_aead_absorb_16 MB D st ad 4 else st);
                        st = masked_separator MB st;
                        (st, m) = ascon_masked_aead_decrypt_16 MB D st (take mlen c) 4
                    in (m, ascon128a_masked_aead_finalize MB K (ascon_copy_key_from MB K D) st k));
               (result, m) = ascon_aead_check_tag m tag (drop mlen c) 16
           in (result, Some m))"

definition ascon80pq_masked_aead_init ::
  "('w, 't) masked_backend \<Rightarrow> nat \<Rightarrow> nat \<Rightarrow> 't \<Rightarrow> 'w \<Rightarrow> bytes \<Rightarrow> 'w list \<Rightarrow> ('w, 't) masked_st" where
  "ascon80pq_masked_aead_init MB K D t word npub k =
     (let (t, preserve) = preserve_words MB (K - 1) t;
          state = ascon_masked_state_init MB;
          (t, state) = ascon_masked_key_randomize MB K state t;
          st = (state, word, preserve, t);
          st = load_xor (mb_ops MB K) 0 ASCON80PQ_IV_word st;
          st = key_xor (mb_ops MB K) 0 (k ! 3) st;
          st = key_xor (mb_ops MB K) 1 (k ! 4) st;
          st = key_xor (mb_ops MB K) 2 (k ! 5) st;
          st = load_xor (mb_ops MB K) 3 npub st;
          st = load_xor (mb_ops MB K) 4 (drop 8 npub) st;
          st = masked_permute (mb_ops MB K) 0 st;
          st = key_xor (mb_ops MB K) 2 (k ! 3) st;
          st = key_xor (mb_ops MB K) 3 (k ! 4) st;
          st = key_xor (mb_ops MB K) 4 (k ! 5) st
      in convert_state (ascon_copy_key_to MB K D) st)"

definition ascon80pq_masked_aead_finalize ::
  "('w, 't) masked_backend \<Rightarrow> nat \<Rightarrow> ('w list \<Rightarrow> 't \<Rightarrow> 't \<times> 'w list) \<Rightarrow> ('w, 't) masked_st \<Rightarrow>
     'w list \<Rightarrow> bytes" where
  "ascon80pq_masked_aead_finalize MB K convert st k =
     (let (state, word, _, t) = st;
          (t, preserve) = preserve_words MB (K - 1) t;
          st = convert_state convert (state, word, preserve, t);
          st = key_xor (mb_ops MB K) 1 (k ! 0) st;
          st = key_xor (mb_ops MB K) 2 (k ! 1) st;
          st = key_xor (mb_ops MB K) 3 (k ! 2) st;
          st = masked_permute (mb_ops MB K) 0 st;
          st = key_xor (mb_ops MB K) 3 (k ! 4) st;
          st = key_xor (mb_ops MB K) 4 (k ! 5) st
      in masked_store (mb_ops MB K) 3 st @ masked_store (mb_ops MB K) 4 st)"

definition ascon80pq_masked_aead_encrypt ::
  "('w, 't) masked_backend \<Rightarrow> nat \<Rightarrow> nat \<Rightarrow> 's snp \<Rightarrow> bytes \<Rightarrow> bytes \<Rightarrow> bytes \<Rightarrow> 'w list \<Rightarrow>
     'w \<Rightarrow> 't \<Rightarrow> bytes" where
  "ascon80pq_masked_aead_encrypt MB K D P m ad npub k word t =
     (let st = ascon80pq_masked_aead_init MB K D t word npub k in
      if D = 1 then
        let s = ascon_copy_key_to_x1 MB K P (fst st);
            s = (if length ad > 0 then ascon_aead_absorb_8 P s ad 6 True else s);
            s = snp_separator P s;
            (s, c, partial) = ascon_aead_encrypt_8 P s m 6 0;
            s = snp_pad P s (unat partial)
        in c @ ascon80pq_masked_aead_finalize MB K (ascon_copy_key_from_x1 MB K P s) st k
      else
        let st = (if length ad > 0 then ascon_masked_aead_absorb_8 MB D st ad 6 else st);
            st = masked_separator MB st;
            (st, c) = ascon_masked_aead_encrypt_8 MB D st m 6
        in c @ ascon80pq_masked_aead_finalize MB K (ascon_copy_key_from MB K D) st k)"

definition ascon80pq_masked_aead_decrypt ::
  "('w, 't) masked_backend \<Rightarrow> nat \<Rightarrow> nat \<Rightarrow> 's snp \<Rightarrow> bytes \<Rightarrow> bytes \<Rightarrow> bytes \<Rightarrow> 'w list \<Rightarrow>
     'w \<Rightarrow> 't \<Rightarrow> int \<times> bytes option" where
  "ascon80pq_masked_aead_decrypt MB K D P c ad npub k word t =
     (if length c < 16 then (-1, None)
      else let mlen = length c - 16;
               st = ascon80pq_masked_aead_init MB K D t word npub k;
               (m, tag) =
                 (if D = 1 then
                    let s = ascon_copy_key_to_x1 MB K P (fst st);
                        s = (if length ad > 0 then ascon_aead_absorb_8 P s ad 6 True else s);
                        s = snp_separator P s;
                        (s, m, partial) = ascon_aead_decrypt_8 P s (take mlen c) 6 0;
                        s = snp_pad P s (unat partial)
                    in (m, ascon80pq_masked_aead_finalize MB K (ascon_copy_key_from_x1 MB K P s) st k)
                  else
                    let st = (if length ad > 0 then ascon_masked_aead_absorb_8 MB D st ad 6 else st);
                        st = masked_separator MB st;
                        (st, m) = ascon_masked_aead_decrypt_8 MB D st (take mlen c) 6
                    in (m, ascon80pq_masked_aead_finalize MB K (ascon_copy_key_from MB K D) st k));
               (result, m) = ascon_aead_check_tag m tag (drop mlen c) 16
           in (result, Some m))"

section \<open>The steps on the bytes that the state stands for\<close>

lemma xor_at_zero_bytes: "xor_at b off (zeros n) = b"
  by (rule nth_equalityI) (auto simp: byte_nth)

lemma xor_at_trailing_zeros: "xor_at b off (d @ zeros n) = xor_at b off d"
  by (simp add: xor_at_append xor_at_zero_bytes)

context masking
begin

definition st_rep :: "nat \<Rightarrow> ('w, 't) masked_st \<Rightarrow> bytes \<Rightarrow> bool" where
  "st_rep k = (\<lambda>(state, word, preserve, t) b.
     state_rep k state b \<and> shaped word \<and> k \<le> Suc (length preserve))"

lemma state_xor_rep:
  assumes "shares MB k" "state_rep k ms b" "i < 5" "mrep k w (be_load_word64 d)" "8 \<le> length d"
  shows "state_rep k (ms[i := mw_xor (mb_ops MB k) (ms ! i) w]) (xor_at b (8 * i) (take 8 d))"
proof -
  from assms(2) obtain xs where xs: "list_all2 (mrep k) ms xs" "rep_sliced64 xs b"
    by (auto simp: stands_for_def)
  then have len: "length xs = 5" "length ms = 5"
    by (auto simp: rep_sliced64_def dest: list_all2_lengthD)
  have "list_all2 (mrep k) (ms[i := mw_xor (mb_ops MB k) (ms ! i) w])
      (xs[i := xs ! i XOR be_load_word64 d])"
    using xs(1) assms len xor_rep[OF assms(1) list_all2_nthD[OF xs(1)] assms(4), of i]
    by (intro list_all2_update_cong) auto
  moreover have "rep_sliced64 (xs[i := xs ! i XOR be_load_word64 d]) (xor_at b (8 * i) (take 8 d))"
    using sliced64_xor_word[OF xs(2), of "8 * i" d] assms by simp
  ultimately show ?thesis by (auto simp: stands_for_def)
qed

lemma state_set_rep:
  assumes "state_rep k ms b" "i < 5" "mrep k w (be_load_word64 d)" "8 \<le> length d"
  shows "state_rep k (ms[i := w]) (put_at b (8 * i) (take 8 d))"
proof -
  from assms(1) obtain xs where xs: "list_all2 (mrep k) ms xs" "rep_sliced64 xs b"
    by (auto simp: stands_for_def)
  have "list_all2 (mrep k) (ms[i := w]) (xs[i := be_load_word64 d])"
    using xs(1) assms by (intro list_all2_update_cong) auto
  moreover have "rep_sliced64 (xs[i := be_load_word64 d]) (put_at b (8 * i) (take 8 d))"
    using sliced64_put_word[OF xs(2), of "8 * i" d] assms by simp
  ultimately show ?thesis by (auto simp: stands_for_def)
qed

lemma state_store:
  assumes "shares MB k" "state_rep k ms b" "i < 5"
  shows "mw_store (mb_ops MB k) (ms ! i) = get_at b (8 * i) 8"
    "n < 8 \<Longrightarrow> mw_store_partial (mb_ops MB k) n (ms ! i) = get_at b (8 * i) n"
proof -
  from assms(2) obtain xs where xs: "list_all2 (mrep k) ms xs" "rep_sliced64 xs b"
    by (auto simp: stands_for_def)
  then have "length xs = 5" "length ms = 5"
    by (auto simp: rep_sliced64_def dest: list_all2_lengthD)
  then have w: "mrep k (ms ! i) (xs ! i)" using xs(1) assms(3) by (simp add: list_all2_nthD)
  show "mw_store (mb_ops MB k) (ms ! i) = get_at b (8 * i) 8"
    using store_rep[OF assms(1) w] rep_sliced64_word[OF xs(2) assms(3)] by simp
  show "mw_store_partial (mb_ops MB k) n (ms ! i) = get_at b (8 * i) n" if "n < 8"
    using store_partial_rep[OF assms(1) w that] rep_sliced64_word[OF xs(2) assms(3)] that
    by (simp add: get_at_def)
qed

lemma state_update_rep:
  assumes "shares MB k" "state_rep k ms b" "i < 5"
    "\<And>x. mrep k (ms ! i) x \<Longrightarrow> mrep k w (g x)"
    "\<And>xs. rep_sliced64 xs b \<Longrightarrow> rep_sliced64 (xs[i := g (xs ! i)]) b'"
  shows "state_rep k (ms[i := w]) b'"
proof -
  from assms(2) obtain xs where xs: "list_all2 (mrep k) ms xs" "rep_sliced64 xs b"
    by (auto simp: stands_for_def)
  then have "length xs = 5" "length ms = 5"
    by (auto simp: rep_sliced64_def dest: list_all2_lengthD)
  then have "list_all2 (mrep k) (ms[i := w]) (xs[i := g (xs ! i)])"
    using xs(1) assms(3,4) by (intro list_all2_update_cong) (auto simp: list_all2_nthD)
  with assms(5)[OF xs(2)] show ?thesis by (auto simp: stands_for_def)
qed

lemma state_pad_rep:
  assumes "shares MB k" "state_rep k ms b" "i < 5" "n < 8"
  shows "state_rep k (ms[i := mb_pad MB (ms ! i) n]) (xor_at b (8 * i + n) [0x80])"
proof (rule state_update_rep[OF assms(1-3)])
  show "mrep k (mb_pad MB (ms ! i) n) (x XOR drop_bit (n * 8) 0x8000000000000000)"
    if "mrep k (ms ! i) x" for x
    using pad_rep[OF assms(1) that assms(4)] .
  show "rep_sliced64 (xs[i := xs ! i XOR drop_bit (n * 8) 0x8000000000000000])
      (xor_at b (8 * i + n) [0x80])" if "rep_sliced64 xs b" for xs
  proof -
    have "(8 * i + n) AND 7 = take_bit 3 (8 * i + n)"
      by (simp add: take_bit_eq_mask mask_eq_exp_minus_1)
    then have "(8 * i + n) div 8 = i" "(8 * i + n) AND 7 = n"
      using assms(4) by (simp_all add: take_bit_eq_mod)
    with sliced64_pad_rep[OF that, of "8 * i + n"] assms show ?thesis
      by (simp add: sliced64_pad_def)
  qed
qed

lemma state_separator_rep:
  assumes "shares MB k" "state_rep k ms b"
  shows "state_rep k (ms[4 := mb_separator MB (ms ! 4)]) (xor_at b 39 [1])"
proof (rule state_update_rep[OF assms])
  show "mrep k (mb_separator MB (ms ! 4)) (x XOR 1)" if "mrep k (ms ! 4) x" for x
    using separator_rep[OF assms(1) that] .
  show "rep_sliced64 (xs[4 := xs ! 4 XOR 1]) (xor_at b 39 [1])" if "rep_sliced64 xs b" for xs
    using sliced64_separator_rep[OF that] by (simp add: sliced64_separator_def)
qed simp

lemma state_permute_rep:
  assumes "shares MB k" "state_rep k ms b" "k \<le> Suc (length p)"
  shows "state_rep k (fst (mw_permute (mb_ops MB k) ms r p)) (permute_bytes b r)"
    "length (snd (mw_permute (mb_ops MB k) ms r p)) = length p"
proof -
  from assms(2) obtain xs where xs: "list_all2 (mrep k) ms xs" "rep_sliced64 xs b"
    by (auto simp: stands_for_def)
  then have "length xs = 5" by (simp add: rep_sliced64_def)
  from permute_rep[OF assms(1) xs(1) this assms(3)] rep_sliced64_permute[OF xs(2)]
  show "state_rep k (fst (mw_permute (mb_ops MB k) ms r p)) (permute_bytes b r)"
    "length (snd (mw_permute (mb_ops MB k) ms r p)) = length p"
    by (auto simp: stands_for_def)
qed

text \<open>The same for the tuple that the code threads.\<close>

lemma st_rep_cases:
  assumes "st_rep k st b"
  obtains ms w p t where "st = (ms, w, p, t)" "state_rep k ms b" "shaped w" "k \<le> Suc (length p)"
  using assms unfolding st_rep_def by (cases st) auto

lemma load_xor_rep:
  assumes "shares MB k" "st_rep k st b" "i < 5" "8 \<le> length d"
  shows "st_rep k (load_xor (mb_ops MB k) i d st) (xor_at b (8 * i) (take 8 d))"
    "mrep k (fst (snd (load_xor (mb_ops MB k) i d st))) (be_load_word64 d)"
  using assms(2)
  by (rule st_rep_cases; use assms load_rep[OF assms(1) _ assms(4)] shaped_rep[OF assms(1)] in
      \<open>force simp: st_rep_def load_xor_def case_prod_beta Let_def intro!: state_xor_rep\<close>)+

lemma load_partial_xor_rep:
  assumes "shares MB k" "st_rep k st b" "i < 5" "n < 8" "n \<le> length d"
  shows "st_rep k (load_partial_xor (mb_ops MB k) i d n st) (xor_at b (8 * i) (take n d))"
    "mrep k (fst (snd (load_partial_xor (mb_ops MB k) i d n st))) (be_load_word64 (take n d @ zeros (8 - n)))"
proof -
  obtain ms w p t where st: "st = (ms, w, p, t)" "state_rep k ms b" "shaped w" "k \<le> Suc (length p)"
    using assms(2) by (rule st_rep_cases)
  let ?w = "snd (mw_load_partial (mb_ops MB k) w d n t)"
  have w: "mrep k ?w (be_load_word64 (take n d @ zeros (8 - n)))"
    using load_partial_rep[OF assms(1) st(3) assms(4,5)] .
  then show "mrep k (fst (snd (load_partial_xor (mb_ops MB k) i d n st)))
      (be_load_word64 (take n d @ zeros (8 - n)))"
    by (simp add: st load_partial_xor_def case_prod_beta)
  show "st_rep k (load_partial_xor (mb_ops MB k) i d n st) (xor_at b (8 * i) (take n d))"
    using state_xor_rep[OF assms(1) st(2) assms(3) w] assms shaped_rep[OF assms(1) w] st(4)
    by (simp add: st st_rep_def load_partial_xor_def case_prod_beta xor_at_trailing_zeros)
qed

lemma masked_permute_rep:
  assumes "shares MB k" "st_rep k st b"
  shows "st_rep k (masked_permute (mb_ops MB k) fr st) (permute_bytes b fr)"
  using assms(2) state_permute_rep[OF assms(1)]
  by (auto simp: st_rep_def masked_permute_def case_prod_beta)

lemma masked_pad_rep:
  assumes "shares MB k" "st_rep k st b" "i < 5" "n < 8"
  shows "st_rep k (masked_pad MB i n st) (xor_at b (8 * i + n) [0x80])"
  using assms(2) state_pad_rep[OF assms(1) _ assms(3,4)]
  by (auto simp: st_rep_def masked_pad_def)

lemma masked_separator_rep:
  assumes "shares MB k" "st_rep k st b"
  shows "st_rep k (masked_separator MB st) (xor_at b 39 [1])"
  using assms(2) state_separator_rep[OF assms(1)]
  by (auto simp: st_rep_def masked_separator_def)

lemma key_xor_rep:
  assumes "shares MB k" "st_rep k st b" "i < 5" "mrep k w (be_load_word64 d)" "8 \<le> length d"
  shows "st_rep k (key_xor (mb_ops MB k) i w st) (xor_at b (8 * i) (take 8 d))"
  using assms(2) state_xor_rep[OF assms(1) _ assms(3-5)]
  by (auto simp: st_rep_def key_xor_def)

lemma masked_set_rep:
  assumes "st_rep k st b" "i < 5" "mrep k (fst (snd st)) (be_load_word64 d)" "8 \<le> length d"
  shows "st_rep k (masked_set i st) (put_at b (8 * i) (take 8 d))"
  using assms(1,3) state_set_rep[OF _ assms(2) _ assms(4)]
  by (auto simp: st_rep_def masked_set_def)

lemma masked_store_eq:
  assumes "shares MB k" "st_rep k st b" "i < 5"
  shows "masked_store (mb_ops MB k) i st = get_at b (8 * i) 8"
    "n < 8 \<Longrightarrow> masked_store_partial (mb_ops MB k) i n st = get_at b (8 * i) n"
  using assms(2) state_store[OF assms(1) _ assms(3)]
  by (auto simp: st_rep_def masked_store_def masked_store_partial_def)

lemma masked_replace_rep:
  assumes "shares MB k" "st_rep k st b" "i < 5" "n < 8" "n \<le> length d"
    "mrep k (fst (snd st)) (be_load_word64 (take n d @ zeros (8 - n)))"
  shows "st_rep k (masked_replace (mb_ops MB k) i n st) (put_at b (8 * i) (take n d))"
proof -
  obtain ms w p t where st: "st = (ms, w, p, t)" "state_rep k ms b" "shaped w" "k \<le> Suc (length p)"
    using assms(2) by (rule st_rep_cases)
  let ?y = "be_load_word64 (take n d @ zeros (8 - n))"
  have "state_rep k (ms[i := mw_replace (mb_ops MB k) (ms ! i) w n]) (put_at b (8 * i) (take n d))"
  proof (rule state_update_rep[OF assms(1) st(2) assms(3)])
    show "mrep k (mw_replace (mb_ops MB k) (ms ! i) w n)
        (be_load_word64 (take n (be_store_word64 ?y) @ drop n (be_store_word64 x)))"
      if "mrep k (ms ! i) x" for x
      using replace_rep[OF assms(1) that _ assms(4)] assms(6) by (simp add: st)
    show "rep_sliced64 (xs[i := be_load_word64 (take n (be_store_word64 ?y) @ drop n (be_store_word64 (xs ! i)))])
        (put_at b (8 * i) (take n d))" if r: "rep_sliced64 xs b" for xs
    proof -
      let ?d = "take n d @ drop n (get_at b (8 * i) 8)"
      have len: "length b = 40" by (rule rep_sliced64_length[OF r])
      have "be_store_word64 ?y = take n d @ zeros (8 - n)"
        using assms(4,5) by (simp add: be_store_load_word64)
      then have "be_load_word64 (take n (be_store_word64 ?y) @ drop n (be_store_word64 (xs ! i))) =
          be_load_word64 ?d"
        using rep_sliced64_word[OF r assms(3)] assms(5) by simp
      moreover have "rep_sliced64 (xs[i := be_load_word64 ?d]) (put_at b (8 * i) ?d)"
        using sliced64_put_word[OF r, of "8 * i" ?d] assms len by simp
      moreover have "put_at b (8 * i) ?d = put_at b (8 * i) (take n d)"
        by (rule nth_equalityI) (use assms len in \<open>auto simp: byte_nth nth_append\<close>)
      ultimately show ?thesis by simp
    qed
  qed
  then show ?thesis using st by (simp add: st_rep_def masked_replace_def)
qed

lemma absorb_tail_rep:
  assumes "shares MB D" "st_rep D st b" "i < 5" "length data < 8"
  shows "st_rep D (masked_absorb_tail MB D i st data)
    (xor_at (xor_at b (8 * i) data) (8 * i + length data) [0x80])"
  using assms load_partial_xor_rep(1)[OF assms(1-4) le_refl] masked_pad_rep[OF assms(1-3), of 0]
  by (auto simp: masked_absorb_tail_def Let_def intro!: masked_pad_rep)

lemma encrypt_tail_rep:
  assumes "shares MB D" "st_rep D st b" "i < 5" "length src < 8" "length b = 40"
  shows "st_rep D (fst (masked_encrypt_tail MB D i st src))
      (xor_at (xor_at b (8 * i) src) (8 * i + length src) [0x80]) \<and>
    snd (masked_encrypt_tail MB D i st src) = xor_bytes (get_at b (8 * i) (length src)) src"
proof -
  have l: "st_rep D (load_partial_xor (mb_ops MB D) i src (length src) st) (xor_at b (8 * i) src)"
    using load_partial_xor_rep(1)[OF assms(1-4) le_refl] by simp
  have "get_at (xor_at b (8 * i) src) (8 * i) (length src) = xor_bytes (get_at b (8 * i) (length src)) src"
    using assms by (intro get_at_xor_at) auto
  then have "masked_store_partial (mb_ops MB D) i (length src)
      (load_partial_xor (mb_ops MB D) i src (length src) st) = xor_bytes (get_at b (8 * i) (length src)) src"
    using masked_store_eq(2)[OF assms(1) l assms(3,4)] by simp
  with l assms masked_pad_rep[OF assms(1-3), of 0] show ?thesis
    by (auto simp: masked_encrypt_tail_def Let_def intro!: masked_pad_rep)
qed

lemma decrypt_tail_rep:
  assumes "shares MB D" "st_rep D st b" "i < 5" "length src < 8" "length b = 40"
  shows "st_rep D (fst (masked_decrypt_tail MB D i st src))
      (xor_at (put_at b (8 * i) src) (8 * i + length src) [0x80]) \<and>
    snd (masked_decrypt_tail MB D i st src) = xor_bytes (get_at b (8 * i) (length src)) src"
proof -
  let ?st = "load_partial_xor (mb_ops MB D) i src (length src) st"
  have l: "st_rep D ?st (xor_at b (8 * i) src)"
    using load_partial_xor_rep(1)[OF assms(1-4) le_refl] by simp
  have "get_at (xor_at b (8 * i) src) (8 * i) (length src) = xor_bytes (get_at b (8 * i) (length src)) src"
    using assms by (intro get_at_xor_at) auto
  then have out: "masked_store_partial (mb_ops MB D) i (length src) ?st =
      xor_bytes (get_at b (8 * i) (length src)) src"
    using masked_store_eq(2)[OF assms(1) l assms(3,4)] by simp
  have "st_rep D (masked_replace (mb_ops MB D) i (length src) ?st) (put_at (xor_at b (8 * i) src) (8 * i) src)"
    using masked_replace_rep[OF assms(1) l assms(3,4) le_refl]
      load_partial_xor_rep(2)[OF assms(1-4) le_refl] by simp
  moreover have "put_at (xor_at b (8 * i) src) (8 * i) src = put_at b (8 * i) src"
    by (rule nth_equalityI) (auto simp: byte_nth)
  ultimately show ?thesis
    using out assms masked_pad_rep[OF assms(1-3), of 0] by (auto simp: masked_decrypt_tail_def Let_def intro!: masked_pad_rep)
qed

lemma st_rep_bytes: "st_rep k st b \<Longrightarrow> length b = 40"
  by (auto simp: st_rep_def dest: state_rep_length)

end

section \<open>The loops run the machine\<close>

text \<open>A block loop followed by a tail that takes what is left and pads.\<close>

context duplex_blocks
begin

lemma loop_pad_run:
  assumes "rep s b"
    "\<And>s b rest. \<lbrakk>rep s b; length rest < R\<rbrakk> \<Longrightarrow>
       rep (fst (tail s rest)) (xor_at (fst (G b 0 rest)) (length rest) [0x80]) \<and>
       snd (tail s rest) = snd (G b 0 rest)"
    "blocks s src = (s1, out1, rest)" "tail s1 rest = (s2, out2)"
  shows "\<exists>b' p. run (duplex_step G f R) (b, 0) src = ((b', p), out1 @ out2) \<and> p < R \<and>
    rep s2 (xor_at b' p [0x80])"
proof -
  obtain b1 where *: "rep s1 b1" "length rest < R"
    "run (duplex_step G f R) (b, 0) src =
      (case run (duplex_step G f R) (b1, 0) rest of (st, out') \<Rightarrow> (st, out1 @ out'))"
    using block_loop_run[OF assms(1), of src] assms(3) by auto
  then show ?thesis
    using run_fit[of 0 rest b1] assms(2)[OF *(1,2)] assms(4) by auto
qed

end

lemma xor_at_twice: "8 \<le> length d \<Longrightarrow> xor_at (xor_at b p (take 8 d)) (p + 8) (drop 8 d) = xor_at b p d"
  using xor_at_append[of b p "take 8 d" "drop 8 d"] by simp

lemma put_at_twice: "8 \<le> length d \<Longrightarrow> put_at (put_at b p (take 8 d)) (p + 8) (drop 8 d) = put_at b p d"
  using put_at_append[of b p "take 8 d" "drop 8 d"] by simp

lemma put_xor: "length x = length y \<Longrightarrow> put_at (xor_at b p x) p y = put_at b p y"
  by (rule nth_equalityI) (auto simp: byte_nth)

context masking
begin

lemma absorb_8_blocks:
  assumes "shares MB D"
  shows "duplex_blocks (st_rep D) absorb_effect (\<lambda>b. permute_bytes b fr) 8
     (\<lambda>st d off. (load_xor (mb_ops MB D) 0 d st, [])) (masked_permute (mb_ops MB D) fr)"
  using load_xor_rep(1)[OF assms, of _ _ 0]
  by unfold_locales (simp_all add: absorb_effect_append effect_Nil masked_permute_rep assms,
      simp add: absorb_effect_def)

lemma absorb_16_blocks:
  assumes "shares MB D"
  shows "duplex_blocks (st_rep D) absorb_effect (\<lambda>b. permute_bytes b fr) 16
     (\<lambda>st d off. (load_xor (mb_ops MB D) 1 (drop 8 d) (load_xor (mb_ops MB D) 0 d st), []))
     (masked_permute (mb_ops MB D) fr)"
proof unfold_locales
  fix st b and d :: bytes assume r: "st_rep D st b" "16 \<le> length d"
  have "st_rep D (load_xor (mb_ops MB D) 1 (drop 8 d) (load_xor (mb_ops MB D) 0 d st))
      (xor_at (xor_at b 0 (take 8 d)) 8 (take 8 (drop 8 d)))"
    using load_xor_rep(1)[OF assms load_xor_rep(1)[OF assms r(1), of 0 d], of 1 "drop 8 d"] r by simp
  then show "st_rep D (fst (load_xor (mb_ops MB D) 1 (drop 8 d) (load_xor (mb_ops MB D) 0 d st), []))
      (fst (absorb_effect b 0 (take 16 d))) \<and>
    snd (load_xor (mb_ops MB D) 1 (drop 8 d) (load_xor (mb_ops MB D) 0 d st), []) =
      snd (absorb_effect b 0 (take 16 d))"
    using xor_at_twice[of "take 16 d" b 0] r by (simp add: absorb_effect_def drop_take min_def)
qed (auto simp: absorb_effect_append effect_Nil masked_permute_rep assms)

lemma masked_absorb_8_rep:
  assumes "shares MB D" "st_rep D st b"
  shows "st_rep D (ascon_masked_aead_absorb_8 MB D st ad fr) (permute_bytes (spec_absorb 8 fr b ad) fr)"
proof -
  obtain s1 out rest where 1: "block_loop 8 (\<lambda>st data.
      (masked_permute (mb_ops MB D) fr (load_xor (mb_ops MB D) 0 data st), [])) st ad = (s1, out, rest)"
    by (rule prod_cases3)
  have "\<exists>b' p. run (duplex_step absorb_effect (\<lambda>b. permute_bytes b fr) 8) (b, 0) ad = ((b', p), out @ []) \<and>
      p < 8 \<and> st_rep D (masked_absorb_tail MB D 0 s1 rest) (xor_at b' p [0x80])"
    using duplex_blocks.loop_pad_run[OF absorb_8_blocks[OF assms(1)] assms(2),
        of "\<lambda>st rest. (masked_absorb_tail MB D 0 st rest, [])" fr ad s1 out rest]
      absorb_tail_rep[OF assms(1), of _ _ 0] 1
    by (simp add: absorb_effect_def)
  then show ?thesis
    using 1 by (auto simp: ascon_masked_aead_absorb_8_def spec_absorb_def machine_def
        intro!: masked_permute_rep assms(1))
qed

lemma masked_absorb_16_rep:
  assumes "shares MB D" "st_rep D st b"
  shows "st_rep D (ascon_masked_aead_absorb_16 MB D st ad fr) (permute_bytes (spec_absorb 16 fr b ad) fr)"
proof -
  obtain s1 out rest where 1: "block_loop 16 (\<lambda>st data.
      (masked_permute (mb_ops MB D) fr (load_xor (mb_ops MB D) 1 (drop 8 data) (load_xor (mb_ops MB D) 0 data st)), []))
      st ad = (s1, out, rest)"
    by (rule prod_cases3)
  define tail where "tail = (\<lambda>st data. if length data \<ge> 8
     then masked_absorb_tail MB D 1 (load_xor (mb_ops MB D) 0 data st) (drop 8 data)
     else masked_absorb_tail MB D 0 st data)"
  have tail: "st_rep D (tail st data) (xor_at (xor_at b 0 data) (length data) [0x80])"
    if "st_rep D st b" "length data < 16" for st b data
  proof (cases "8 \<le> length data")
    case True
    then show ?thesis
      using absorb_tail_rep[OF assms(1) load_xor_rep(1)[OF assms(1) that(1), of 0 data], of 1 "drop 8 data"]
        that(2) xor_at_twice[of data b 0] by (simp add: tail_def)
  next
    case False
    then show ?thesis
      using absorb_tail_rep[OF assms(1) that(1), of 0 data] by (simp add: tail_def)
  qed
  have "\<exists>b' p. run (duplex_step absorb_effect (\<lambda>b. permute_bytes b fr) 16) (b, 0) ad = ((b', p), out @ []) \<and>
      p < 16 \<and> st_rep D (tail s1 rest) (xor_at b' p [0x80])"
    by (rule duplex_blocks.loop_pad_run[OF absorb_16_blocks[OF assms(1)] assms(2),
        where tail = "\<lambda>st rest. (tail st rest, [])" and rest = rest])
      (use 1 tail in \<open>simp_all add: absorb_effect_def\<close>)
  moreover have "ascon_masked_aead_absorb_16 MB D st ad fr = masked_permute (mb_ops MB D) fr (tail s1 rest)"
    using 1 by (simp add: ascon_masked_aead_absorb_16_def Let_def tail_def)
  ultimately show ?thesis
    by (auto simp: spec_absorb_def machine_def intro!: masked_permute_rep assms(1))
qed

lemma encrypt_8_blocks:
  assumes "shares MB D"
  shows "duplex_blocks (st_rep D) encrypt_effect (\<lambda>b. permute_bytes b fr) 8
     (\<lambda>st d off. (load_xor (mb_ops MB D) 0 d st, masked_store (mb_ops MB D) 0 (load_xor (mb_ops MB D) 0 d st)))
     (masked_permute (mb_ops MB D) fr)"
proof unfold_locales
  fix st b and d :: bytes assume r: "st_rep D st b" "8 \<le> length d"
  have l: "st_rep D (load_xor (mb_ops MB D) 0 d st) (xor_at b 0 (take 8 d))"
    using load_xor_rep(1)[OF assms r(1), of 0 d] r by simp
  have "get_at (xor_at b 0 (take 8 d)) 0 8 = xor_bytes (get_at b 0 8) (take 8 d)"
    using get_at_xor_at[of 0 "take 8 d" b] st_rep_bytes[OF r(1)] r by simp
  with l masked_store_eq(1)[OF assms l, of 0] r
  show "st_rep D (fst (load_xor (mb_ops MB D) 0 d st, masked_store (mb_ops MB D) 0 (load_xor (mb_ops MB D) 0 d st)))
      (fst (encrypt_effect b 0 (take 8 d))) \<and>
    snd (load_xor (mb_ops MB D) 0 d st, masked_store (mb_ops MB D) 0 (load_xor (mb_ops MB D) 0 d st)) =
      snd (encrypt_effect b 0 (take 8 d))"
    by (simp add: encrypt_effect_def)
qed (simp_all add: encrypt_effect_append effect_Nil masked_permute_rep assms)

text \<open>Two words, one after the other, as one range.\<close>

lemma load_xor_two:
  assumes "shares MB D" "st_rep D st b" "16 \<le> length d"
  shows "st_rep D (load_xor (mb_ops MB D) 1 (drop 8 d) (load_xor (mb_ops MB D) 0 d st))
    (xor_at b 0 (take 16 d))"
proof -
  have "st_rep D (load_xor (mb_ops MB D) 1 (drop 8 d) (load_xor (mb_ops MB D) 0 d st))
      (xor_at (xor_at b 0 (take 8 d)) 8 (take 8 (drop 8 d)))"
    using load_xor_rep(1)[OF assms(1) load_xor_rep(1)[OF assms(1,2), of 0 d], of 1 "drop 8 d"]
      assms by simp
  then show ?thesis
    using xor_at_twice[of "take 16 d" b 0] assms by (simp add: drop_take min_def)
qed

lemma encrypt_16_blocks:
  assumes "shares MB D"
  shows "duplex_blocks (st_rep D) encrypt_effect (\<lambda>b. permute_bytes b fr) 16
     (\<lambda>st d off. let st = load_xor (mb_ops MB D) 1 (drop 8 d) (load_xor (mb_ops MB D) 0 d st)
        in (st, masked_store (mb_ops MB D) 0 st @ masked_store (mb_ops MB D) 1 st))
     (masked_permute (mb_ops MB D) fr)"
proof unfold_locales
  fix st b and d :: bytes assume r: "st_rep D st b" "16 \<le> length d"
  let ?st = "load_xor (mb_ops MB D) 1 (drop 8 d) (load_xor (mb_ops MB D) 0 d st)"
  note l = load_xor_two[OF assms r]
  have "masked_store (mb_ops MB D) 0 ?st @ masked_store (mb_ops MB D) 1 ?st = get_at (xor_at b 0 (take 16 d)) 0 16"
    using masked_store_eq(1)[OF assms l, of 0] masked_store_eq(1)[OF assms l, of 1]
      get_at_append[of "xor_at b 0 (take 16 d)" 0 8 8] by simp
  also have "\<dots> = xor_bytes (get_at b 0 16) (take 16 d)"
    using get_at_xor_at[of 0 "take 16 d" b] st_rep_bytes[OF r(1)] r by simp
  finally show "st_rep D (fst (let st = ?st in (st, masked_store (mb_ops MB D) 0 st @ masked_store (mb_ops MB D) 1 st)))
      (fst (encrypt_effect b 0 (take 16 d))) \<and>
    snd (let st = ?st in (st, masked_store (mb_ops MB D) 0 st @ masked_store (mb_ops MB D) 1 st)) =
      snd (encrypt_effect b 0 (take 16 d))"
    using l r by (simp add: encrypt_effect_def Let_def)
qed (simp_all add: encrypt_effect_append effect_Nil masked_permute_rep assms)

text \<open>One word decrypted: the output, and the ciphertext in the state.\<close>

lemma load_set_rep:
  assumes "shares MB D" "st_rep D st b" "i < 5" "8 \<le> length d"
  shows "st_rep D (masked_set i (load_xor (mb_ops MB D) i d st)) (put_at b (8 * i) (take 8 d))"
    "masked_store (mb_ops MB D) i (load_xor (mb_ops MB D) i d st) = xor_bytes (get_at b (8 * i) 8) (take 8 d)"
proof -
  note l = load_xor_rep[OF assms]
  show "st_rep D (masked_set i (load_xor (mb_ops MB D) i d st)) (put_at b (8 * i) (take 8 d))"
    using masked_set_rep[OF l(1) assms(3) l(2) assms(4)] by (simp add: put_xor)
  show "masked_store (mb_ops MB D) i (load_xor (mb_ops MB D) i d st) = xor_bytes (get_at b (8 * i) 8) (take 8 d)"
    using masked_store_eq(1)[OF assms(1) l(1) assms(3)] get_at_xor_at[of "8 * i" "take 8 d" b]
      st_rep_bytes[OF assms(2)] assms by simp
qed

lemma decrypt_8_blocks:
  assumes "shares MB D"
  shows "duplex_blocks (st_rep D) decrypt_effect (\<lambda>b. permute_bytes b fr) 8
     (\<lambda>st d off. let st = load_xor (mb_ops MB D) 0 d st
        in (masked_set 0 st, masked_store (mb_ops MB D) 0 st))
     (masked_permute (mb_ops MB D) fr)"
  using load_set_rep[OF assms, of _ _ 0]
  by unfold_locales (simp_all add: decrypt_effect_append effect_Nil masked_permute_rep assms,
      simp add: decrypt_effect_def Let_def min_def)

lemma load_set_two:
  assumes "shares MB D" "st_rep D st b" "16 \<le> length d"
    "st1 = load_xor (mb_ops MB D) 0 d st" "st2 = load_xor (mb_ops MB D) 1 (drop 8 d) (masked_set 0 st1)"
  shows "st_rep D (masked_set 1 st2) (put_at b 0 (take 16 d))"
    "masked_store (mb_ops MB D) 0 st1 @ masked_store (mb_ops MB D) 1 st2 = xor_bytes (get_at b 0 16) (take 16 d)"
proof -
  note l1 = load_set_rep[OF assms(1,2), of 0 d, folded assms(4)]
  have 1: "st_rep D (masked_set 0 st1) (put_at b 0 (take 8 d))" using l1(1) assms(3) by simp
  note l2 = load_set_rep[OF assms(1) 1, of 1 "drop 8 d", folded assms(5)]
  have "st_rep D (masked_set 1 st2) (put_at (put_at b 0 (take 8 d)) 8 (take 8 (drop 8 d)))"
    using l2(1) assms(3) by simp
  then show "st_rep D (masked_set 1 st2) (put_at b 0 (take 16 d))"
    using put_at_twice[of "take 16 d" b 0] assms(3) by (simp add: drop_take min_def)
  have "get_at (put_at b 0 (take 8 d)) 8 8 = get_at b 8 8"
    by (rule get_at_put_at_above) simp
  then have "masked_store (mb_ops MB D) 0 st1 @ masked_store (mb_ops MB D) 1 st2 =
      xor_bytes (get_at b 0 8) (take 8 d) @ xor_bytes (get_at b 8 8) (take 8 (drop 8 d))"
    using l1(2) l2(2) assms(3) by simp
  also have "\<dots> = xor_bytes (get_at b 0 16) (take 16 d)"
    using st_rep_bytes[OF assms(2)] assms(3) get_at_append[of b 0 8 8]
    by (simp add: take_16_split xor_bytes_append)
  finally show "masked_store (mb_ops MB D) 0 st1 @ masked_store (mb_ops MB D) 1 st2 =
      xor_bytes (get_at b 0 16) (take 16 d)" .
qed

lemma decrypt_16_blocks:
  assumes "shares MB D"
  shows "duplex_blocks (st_rep D) decrypt_effect (\<lambda>b. permute_bytes b fr) 16
     (\<lambda>st d off. let st1 = load_xor (mb_ops MB D) 0 d st;
          st2 = load_xor (mb_ops MB D) 1 (drop 8 d) (masked_set 0 st1)
        in (masked_set 1 st2, masked_store (mb_ops MB D) 0 st1 @ masked_store (mb_ops MB D) 1 st2))
     (masked_permute (mb_ops MB D) fr)"
  using load_set_two[OF assms _ _ refl refl]
  by unfold_locales (simp_all add: decrypt_effect_append effect_Nil masked_permute_rep assms,
      simp add: decrypt_effect_def Let_def min_def)

lemma masked_encrypt_8_run:
  assumes "shares MB D" "st_rep D st b" "ascon_masked_aead_encrypt_8 MB D st m fr = (st', out)"
  shows "\<exists>b' p. run (machine encrypt_effect 8 fr) (b, 0) m = ((b', p), out) \<and> p < 8 \<and>
    st_rep D st' (xor_at b' p [0x80])"
proof -
  obtain s1 out1 rest where 1: "block_loop 8 (\<lambda>st src.
      (masked_permute (mb_ops MB D) fr (load_xor (mb_ops MB D) 0 src st),
       masked_store (mb_ops MB D) 0 (load_xor (mb_ops MB D) 0 src st))) st m = (s1, out1, rest)"
    by (rule prod_cases3)
  have "\<exists>b' p. run (duplex_step encrypt_effect (\<lambda>b. permute_bytes b fr) 8) (b, 0) m =
      ((b', p), out1 @ snd (masked_encrypt_tail MB D 0 s1 rest)) \<and> p < 8 \<and>
      st_rep D (fst (masked_encrypt_tail MB D 0 s1 rest)) (xor_at b' p [0x80])"
    by (rule duplex_blocks.loop_pad_run[OF encrypt_8_blocks[OF assms(1)] assms(2),
        where tail = "masked_encrypt_tail MB D 0" and rest = rest])
      (use 1 encrypt_tail_rep[OF assms(1), of _ _ 0] in
        \<open>simp_all add: encrypt_effect_def st_rep_bytes Let_def\<close>)
  with 1 assms(3) show ?thesis
    by (auto simp: ascon_masked_aead_encrypt_8_def machine_def Let_def split: prod.splits)
qed

lemma masked_encrypt_16_run:
  assumes "shares MB D" "st_rep D st b" "ascon_masked_aead_encrypt_16 MB D st m fr = (st', out)"
  shows "\<exists>b' p. run (machine encrypt_effect 16 fr) (b, 0) m = ((b', p), out) \<and> p < 16 \<and>
    st_rep D st' (xor_at b' p [0x80])"
proof -
  obtain s1 out1 rest where 1: "block_loop 16 (\<lambda>st src.
      (masked_permute (mb_ops MB D) fr (load_xor (mb_ops MB D) 1 (drop 8 src) (load_xor (mb_ops MB D) 0 src st)),
       masked_store (mb_ops MB D) 0 (load_xor (mb_ops MB D) 1 (drop 8 src) (load_xor (mb_ops MB D) 0 src st)) @
       masked_store (mb_ops MB D) 1 (load_xor (mb_ops MB D) 1 (drop 8 src) (load_xor (mb_ops MB D) 0 src st)))) st m = (s1, out1, rest)"
    by (rule prod_cases3)
  define tail where "tail = (\<lambda>st src. if length src \<ge> 8 then
      case masked_encrypt_tail MB D 1 (load_xor (mb_ops MB D) 0 src st) (drop 8 src) of
        (st', dest2) \<Rightarrow> (st', masked_store (mb_ops MB D) 0 (load_xor (mb_ops MB D) 0 src st) @ dest2)
     else masked_encrypt_tail MB D 0 st src)"
  have tail: "st_rep D (fst (tail st src)) (xor_at (xor_at b 0 src) (length src) [0x80]) \<and>
      snd (tail st src) = xor_bytes (get_at b 0 (length src)) src"
    if "st_rep D st b" "length src < 16" for st b src
  proof -
    have b: "length b = 40" by (rule st_rep_bytes[OF that(1)])
    show ?thesis
    proof (cases "8 \<le> length src")
      case True
      have l: "st_rep D (load_xor (mb_ops MB D) 0 src st) (xor_at b 0 (take 8 src))"
        using load_xor_rep(1)[OF assms(1) that(1), of 0 src] True by simp
      have "masked_store (mb_ops MB D) 0 (load_xor (mb_ops MB D) 0 src st) = xor_bytes (get_at b 0 8) (take 8 src)"
        using masked_store_eq(1)[OF assms(1) l, of 0] get_at_xor_at[of 0 "take 8 src" b] b True by simp
      moreover have "get_at (xor_at b 0 (take 8 src)) 8 (length src - 8) = get_at b 8 (length src - 8)"
        by (rule nth_equalityI) (use True in \<open>auto simp: byte_nth\<close>)
      moreover have "xor_bytes (get_at b 0 (length src)) src =
          xor_bytes (get_at b 0 8) (take 8 src) @ xor_bytes (get_at b 8 (length src - 8)) (drop 8 src)"
        using xor_bytes_append[of "get_at b 0 8" "take 8 src" "get_at b 8 (length src - 8)" "drop 8 src"]
          get_at_append[of b 0 8 "length src - 8"] True b by simp
      ultimately show ?thesis
        using encrypt_tail_rep[OF assms(1) l, of 1 "drop 8 src"] that(2) True b xor_at_twice[of src b 0]
        by (simp add: tail_def case_prod_beta)
    next
      case False
      then show ?thesis
        using encrypt_tail_rep[OF assms(1) that(1), of 0 src] b by (simp add: tail_def)
    qed
  qed
  have "\<exists>b' p. run (duplex_step encrypt_effect (\<lambda>b. permute_bytes b fr) 16) (b, 0) m =
      ((b', p), out1 @ snd (tail s1 rest)) \<and> p < 16 \<and> st_rep D (fst (tail s1 rest)) (xor_at b' p [0x80])"
    by (rule duplex_blocks.loop_pad_run[OF encrypt_16_blocks[OF assms(1)] assms(2),
        where tail = tail and rest = rest])
      (use 1 tail in \<open>simp_all add: encrypt_effect_def Let_def\<close>)
  moreover have "ascon_masked_aead_encrypt_16 MB D st m fr = (case tail s1 rest of (st', out2) \<Rightarrow> (st', out1 @ out2))"
    using 1 by (simp add: ascon_masked_aead_encrypt_16_def Let_def tail_def)
  ultimately show ?thesis
    using assms(3) by (auto simp: machine_def split: prod.splits)
qed

lemma masked_decrypt_8_run:
  assumes "shares MB D" "st_rep D st b" "ascon_masked_aead_decrypt_8 MB D st m fr = (st', out)"
  shows "\<exists>b' p. run (machine decrypt_effect 8 fr) (b, 0) m = ((b', p), out) \<and> p < 8 \<and>
    st_rep D st' (xor_at b' p [0x80])"
proof -
  obtain s1 out1 rest where 1: "block_loop 8 (\<lambda>st src.
      (masked_permute (mb_ops MB D) fr (masked_set 0 (load_xor (mb_ops MB D) 0 src st)),
       masked_store (mb_ops MB D) 0 (load_xor (mb_ops MB D) 0 src st))) st m = (s1, out1, rest)"
    by (rule prod_cases3)
  have "\<exists>b' p. run (duplex_step decrypt_effect (\<lambda>b. permute_bytes b fr) 8) (b, 0) m =
      ((b', p), out1 @ snd (masked_decrypt_tail MB D 0 s1 rest)) \<and> p < 8 \<and>
      st_rep D (fst (masked_decrypt_tail MB D 0 s1 rest)) (xor_at b' p [0x80])"
    by (rule duplex_blocks.loop_pad_run[OF decrypt_8_blocks[OF assms(1)] assms(2),
        where tail = "masked_decrypt_tail MB D 0" and rest = rest])
      (use 1 decrypt_tail_rep[OF assms(1), of _ _ 0] in
        \<open>simp_all add: decrypt_effect_def st_rep_bytes Let_def\<close>)
  with 1 assms(3) show ?thesis
    by (auto simp: ascon_masked_aead_decrypt_8_def machine_def Let_def split: prod.splits)
qed

lemma masked_decrypt_16_run:
  assumes "shares MB D" "st_rep D st b" "ascon_masked_aead_decrypt_16 MB D st m fr = (st', out)"
  shows "\<exists>b' p. run (machine decrypt_effect 16 fr) (b, 0) m = ((b', p), out) \<and> p < 16 \<and>
    st_rep D st' (xor_at b' p [0x80])"
proof -
  obtain s1 out1 rest where 1: "block_loop 16 (\<lambda>st src.
      (masked_permute (mb_ops MB D) fr (masked_set 1 (load_xor (mb_ops MB D) 1 (drop 8 src) (masked_set 0 (load_xor (mb_ops MB D) 0 src st)))),
       masked_store (mb_ops MB D) 0 (load_xor (mb_ops MB D) 0 src st) @
       masked_store (mb_ops MB D) 1 (load_xor (mb_ops MB D) 1 (drop 8 src) (masked_set 0 (load_xor (mb_ops MB D) 0 src st))))) st m = (s1, out1, rest)"
    by (rule prod_cases3)
  define tail where "tail = (\<lambda>st src. if length src \<ge> 8 then
      case masked_decrypt_tail MB D 1 (masked_set 0 (load_xor (mb_ops MB D) 0 src st)) (drop 8 src) of
        (st', dest2) \<Rightarrow> (st', masked_store (mb_ops MB D) 0 (load_xor (mb_ops MB D) 0 src st) @ dest2)
     else masked_decrypt_tail MB D 0 st src)"
  have tail: "st_rep D (fst (tail st src)) (xor_at (put_at b 0 src) (length src) [0x80]) \<and>
      snd (tail st src) = xor_bytes (get_at b 0 (length src)) src"
    if "st_rep D st b" "length src < 16" for st b src
  proof -
    have b: "length b = 40" by (rule st_rep_bytes[OF that(1)])
    show ?thesis
    proof (cases "8 \<le> length src")
      case True
      have l: "st_rep D (masked_set 0 (load_xor (mb_ops MB D) 0 src st)) (put_at b 0 (take 8 src))"
        using load_set_rep(1)[OF assms(1) that(1), of 0 src] True by simp
      have "masked_store (mb_ops MB D) 0 (load_xor (mb_ops MB D) 0 src st) = xor_bytes (get_at b 0 8) (take 8 src)"
        using load_set_rep(2)[OF assms(1) that(1), of 0 src] True by simp
      moreover have "get_at (put_at b 0 (take 8 src)) 8 (length src - 8) = get_at b 8 (length src - 8)"
        by (rule nth_equalityI) (use True in \<open>auto simp: byte_nth\<close>)
      moreover have "xor_bytes (get_at b 0 (length src)) src =
          xor_bytes (get_at b 0 8) (take 8 src) @ xor_bytes (get_at b 8 (length src - 8)) (drop 8 src)"
        using xor_bytes_append[of "get_at b 0 8" "take 8 src" "get_at b 8 (length src - 8)" "drop 8 src"]
          get_at_append[of b 0 8 "length src - 8"] True b by simp
      ultimately show ?thesis
        using decrypt_tail_rep[OF assms(1) l, of 1 "drop 8 src"] that(2) True b put_at_twice[of src b 0]
        by (simp add: tail_def case_prod_beta)
    next
      case False
      then show ?thesis
        using decrypt_tail_rep[OF assms(1) that(1), of 0 src] b by (simp add: tail_def)
    qed
  qed
  have "\<exists>b' p. run (duplex_step decrypt_effect (\<lambda>b. permute_bytes b fr) 16) (b, 0) m =
      ((b', p), out1 @ snd (tail s1 rest)) \<and> p < 16 \<and> st_rep D (fst (tail s1 rest)) (xor_at b' p [0x80])"
    by (rule duplex_blocks.loop_pad_run[OF decrypt_16_blocks[OF assms(1)] assms(2),
        where tail = tail and rest = rest])
      (use 1 tail in \<open>simp_all add: decrypt_effect_def Let_def\<close>)
  moreover have "ascon_masked_aead_decrypt_16 MB D st m fr = (case tail s1 rest of (st', out2) \<Rightarrow> (st', out1 @ out2))"
    using 1 by (simp add: ascon_masked_aead_decrypt_16_def Let_def tail_def)
  ultimately show ?thesis
    using assms(3) by (auto simp: machine_def split: prod.splits)
qed

end

section \<open>Conversions\<close>

lemma length_preserve_words: "length (snd (preserve_words MB n t)) = n"
  by (induction n arbitrary: t) (simp_all add: Let_def case_prod_beta)

context masking
begin

lemma shares_cases: "shares MB K \<Longrightarrow> K = 2 \<or> K = 3 \<or> K = 4"
  using max_shares by linarith

lemma key_randomize_rep:
  assumes "shares MB K" "state_rep K ms b"
  shows "state_rep K (snd (ascon_masked_key_randomize MB K ms t)) b"
  using shares_cases[OF assms(1)] loop_self_rep[OF assms, of K "mw_randomize (mb_ops MB K)" t]
    randomize_rep[OF assms(1)]
  by (auto simp: ascon_masked_key_randomize_def ascon_x2_randomize_def ascon_x3_randomize_def
      ascon_x4_randomize_def)

lemmas copy_defs =
  ascon_x2_randomize_def ascon_x3_randomize_def ascon_x4_randomize_def
  ascon_x2_copy_from_x3_def ascon_x2_copy_from_x4_def ascon_x3_copy_from_x2_def
  ascon_x3_copy_from_x4_def ascon_x4_copy_from_x2_def ascon_x4_copy_from_x3_def

lemma copy_key_to_rep:
  assumes "shares MB K" "2 \<le> D" "D \<le> K" "state_rep K ms b"
  shows "state_rep D (snd (ascon_copy_key_to MB K D ms t)) b"
proof (cases "D = K")
  case True
  then have "snd (ascon_copy_key_to MB K D ms t) = ms"
    using shares_cases[OF assms(1)] by (auto simp: ascon_copy_key_to_def)
  with assms True show ?thesis by simp
next
  case False
  have "state_rep D (snd (word_loop (mb_from MB D K) ms ms t)) b"
    by (rule loop_self_rep[OF assms(1,4)], rule from_rep) (use assms False in auto)
  moreover have "snd (ascon_copy_key_to MB K D ms t) = snd (word_loop (mb_from MB D K) ms ms t)"
    using shares_cases[OF assms(1)] assms False by (auto simp: ascon_copy_key_to_def copy_defs)
  ultimately show ?thesis by simp
qed

lemma copy_key_init_rep:
  assumes "shares MB K" "1 \<le> D" "D \<le> K" "state_rep K ms b"
  shows "state_rep (if D = 1 then K else D) (snd (ascon_copy_key_to MB K D ms t)) b"
proof (cases "D = 1")
  case True
  with shares_cases[OF assms(1)] assms(4) show ?thesis by (auto simp: ascon_copy_key_to_def)
next
  case False
  with copy_key_to_rep[OF assms(1) _ assms(3,4)] assms(2) show ?thesis by simp
qed

lemma copy_key_from_rep:
  assumes "shares MB K" "2 \<le> D" "D \<le> K" "state_rep D ms b"
  shows "state_rep K (snd (ascon_copy_key_from MB K D ms t)) b"
proof -
  have D: "shares MB D" using assms by simp
  show ?thesis
  proof (cases "D = K")
    case True
    then have "snd (ascon_copy_key_from MB K D ms t) = snd (word_loop (mw_randomize (mb_ops MB K)) ms ms t)"
      using shares_cases[OF assms(1)] by (auto simp: ascon_copy_key_from_def copy_defs)
    moreover have "state_rep K (snd (word_loop (mw_randomize (mb_ops MB K)) ms ms t)) b"
      by (rule loop_self_rep[OF D assms(4)], rule randomize_rep[OF assms(1)]) (use True in auto)
    ultimately show ?thesis by simp
  next
    case False
    have "state_rep K (snd (word_loop (mb_from MB K D) ms ms t)) b"
      by (rule loop_self_rep[OF D assms(4)], rule from_rep) (use assms False in auto)
    moreover have "snd (ascon_copy_key_from MB K D ms t) = snd (word_loop (mb_from MB K D) ms ms t)"
      using shares_cases[OF assms(1)] assms False by (auto simp: ascon_copy_key_from_def copy_defs)
    ultimately show ?thesis by simp
  qed
qed

lemma convert_state_rep:
  assumes "st_rep K st b" "D \<le> K" "\<And>ms t. state_rep K ms b \<Longrightarrow> state_rep D (snd (f ms t)) b"
  shows "st_rep D (convert_state f st) b"
  using assms by (auto simp: st_rep_def convert_state_def case_prod_beta)

end

lemma xor_at_leading_zeros: "xor_at b off (zeros n @ d) = xor_at b (off + n) d"
  by (simp add: xor_at_append xor_at_zero_bytes)

lemma xor_at_zeros: "length d = n \<Longrightarrow> xor_at (zeros n) 0 d = d"
  by (rule nth_equalityI) (auto simp: byte_nth)

lemma split_16: "length k = 16 \<Longrightarrow> take 8 (drop 8 k) = drop 8 k"
  by simp

lemma start_bytes_128:
  assumes "length iv = 8" "length k = 16" "length npub = 16"
  shows "xor_at (xor_at (xor_at (xor_at (xor_at (zeros 40) 0 iv) 8 (take 8 k)) 16 (drop 8 k)) 24 (take 8 npub))
    32 (drop 8 npub) = iv @ k @ npub"
proof -
  have "xor_at (zeros 40) 0 (iv @ (take 8 k @ drop 8 k) @ (take 8 npub @ drop 8 npub)) = iv @ k @ npub"
    using assms by (simp only: append_take_drop_id, intro xor_at_zeros) simp
  then show ?thesis using assms by (simp add: xor_at_append del: append_take_drop_id)
qed

lemma xor_key_160:
  assumes "length k = 20"
  shows "xor_at (xor_at (xor_at b p (take 4 k)) (p + 4) (take 8 (drop 4 k))) (p + 12) (drop 12 k) = xor_at b p k"
proof -
  have "k = take 4 k @ take 8 (drop 4 k) @ drop 12 k"
    using append_take_drop_id[of 4 k] append_take_drop_id[of 8 "drop 4 k"] by simp
  then have "xor_at b p k = xor_at b p (take 4 k @ take 8 (drop 4 k) @ drop 12 k)" by simp
  also have "\<dots> = xor_at (xor_at (xor_at b p (take 4 k)) (p + 4) (take 8 (drop 4 k))) (p + 12) (drop 12 k)"
    using assms by (simp add: xor_at_append add.commute)
  finally show ?thesis ..
qed

lemma xor_key_160':
  assumes "length k = 20"
  shows "xor_at (xor_at (xor_at b p (take 8 k)) (p + 8) (take 8 (drop 8 k))) (p + 16) (drop 16 k) = xor_at b p k"
proof -
  have "k = take 8 k @ take 8 (drop 8 k) @ drop 16 k"
    using append_take_drop_id[of 8 k] append_take_drop_id[of 8 "drop 8 k"] by simp
  then have "xor_at b p k = xor_at b p (take 8 k @ take 8 (drop 8 k) @ drop 16 k)" by simp
  also have "\<dots> = xor_at (xor_at (xor_at b p (take 8 k)) (p + 8) (take 8 (drop 8 k))) (p + 16) (drop 16 k)"
    using assms by (simp add: xor_at_append add.commute)
  finally show ?thesis ..
qed

lemma length_ASCON80PQ_IV_word: "length ASCON80PQ_IV_word = 8"
  by (simp add: ASCON80PQ_IV_word_def)

lemma start_bytes_80pq:
  assumes "length k = 20" "length npub = 16"
  shows "xor_at (xor_at (xor_at (xor_at (xor_at (xor_at (zeros 40) 0 ASCON80PQ_IV_word)
      0 (zeros 4 @ take 4 k)) 8 (take 8 (drop 4 k))) 16 (drop 12 k)) 24 (take 8 npub)) 32 (drop 8 npub) =
    ASCON80PQ_IV @ k @ npub"
proof -
  have iv: "ASCON80PQ_IV_word = ASCON80PQ_IV @ zeros 4"
    by (simp add: ASCON80PQ_IV_word_def ASCON80PQ_IV_def zeros_def eval_nat_numeral)
  have "xor_at (zeros 40) 0 (ASCON80PQ_IV @ k @ (take 8 npub @ drop 8 npub)) = ASCON80PQ_IV @ k @ npub"
    using assms by (simp only: append_take_drop_id, intro xor_at_zeros) simp
  then show ?thesis
    using assms xor_key_160[OF assms(1), of "xor_at (zeros 40) 0 ASCON80PQ_IV" 4]
    by (simp add: iv xor_at_append xor_at_zero_bytes del: append_take_drop_id)
qed

section \<open>The modes compute the construction\<close>

context masking
begin

text \<open>The state before the IV, the key and the nonce go in.\<close>

lemma start_rep:
  assumes "shares MB K" "shaped w"
  shows "st_rep K (case preserve_words MB (K - 1) t of (t, preserve) \<Rightarrow>
    case ascon_masked_key_randomize MB K (ascon_masked_state_init MB) t of (t, state) \<Rightarrow>
      (state, w, preserve, t)) (zeros 40)"
  using key_randomize_rep[OF assms(1) state_init_rep[OF assms(1)]] assms
    length_preserve_words[of MB "K - 1" t]
  by (auto simp: st_rep_def case_prod_beta)

lemma finalize_start_rep:
  assumes "shares MB K" "shaped w" "\<And>t. state_rep K (snd (convert ms t)) b"
  shows "st_rep K (convert_state convert (ms, w, snd (preserve_words MB (K - 1) t),
    fst (preserve_words MB (K - 1) t))) b"
  using assms by (auto simp: st_rep_def convert_state_def case_prod_beta length_preserve_words)

lemma tag_store:
  assumes "shares MB K" "st_rep K st b"
  shows "masked_store (mb_ops MB K) 3 st @ masked_store (mb_ops MB K) 4 st = get_at b 24 16"
  using masked_store_eq(1)[OF assms, of 3] masked_store_eq(1)[OF assms, of 4]
    get_at_append[of b 24 8 8] by simp


lemma ascon128_masked_aead_init_rep:
  assumes "shares MB K" "key128_masked (mrep K) ks k" "shaped w" "length npub = 16" "1 \<le> D" "D \<le> K"
  shows "st_rep (if D = 1 then K else D) (ascon128_masked_aead_init MB K D t w npub ks)
    (xor_at (permute_bytes (ASCON128_IV @ k @ npub) 0) 24 k)"
proof -
  obtain k0 k1 where ks: "ks = [k0, k1]"
    and key: "mrep K k0 (be_load_word64 (k))" "mrep K k1 (be_load_word64 (drop 8 k))"
    and k: "length k = 16"
    using assms(2) by (auto simp: key128_masked_def list_all2_Cons2)
  note len = k assms(4) length_ASCON128_IV length_drop length_take length_append length_zeros
  define st0 where "st0 = (case preserve_words MB (K - 1) t of (t, preserve) \<Rightarrow>
    case ascon_masked_key_randomize MB K (ascon_masked_state_init MB) t of (t, state) \<Rightarrow>
      (state, w, preserve, t))"
  note start = start_rep[OF assms(1,3), of t, folded st0_def]
  note i0 = load_xor_rep(1)[OF assms(1) start, of 0 "ASCON128_IV", simplified len]
  note i1 = key_xor_rep[OF assms(1) i0 _ key(1), of 1, simplified len]
  note i2 = key_xor_rep[OF assms(1) i1 _ key(2), of 2, simplified len]
  note i3 = load_xor_rep(1)[OF assms(1) i2, of 3 "npub", simplified len]
  note i4 = load_xor_rep(1)[OF assms(1) i3, of 4 "drop 8 npub", simplified len]
  note i5 = masked_permute_rep[OF assms(1) i4, of 0]
  note i6 = key_xor_rep[OF assms(1) i5 _ key(1), of 3, simplified len]
  note i7 = key_xor_rep[OF assms(1) i6 _ key(2), of 4, simplified len]
  have st: "st_rep K (key_xor (mb_ops MB K) 4 k1 (key_xor (mb_ops MB K) 3 k0 (masked_permute (mb_ops MB K) 0 (load_xor (mb_ops MB K) 4 (drop 8 npub) (load_xor (mb_ops MB K) 3 npub (key_xor (mb_ops MB K) 2 k1 (key_xor (mb_ops MB K) 1 k0 (load_xor (mb_ops MB K) 0 ASCON128_IV (st0)))))))))
      (xor_at (permute_bytes (ASCON128_IV @ k @ npub) 0) 24 k)"
    using i7 start_bytes_128[OF length_ASCON128_IV k assms(4)] xor_at_twice[of k _ 24] k assms(4)
    by (simp add: len split_16 xor_at_leading_zeros)
  have "ascon128_masked_aead_init MB K D t w npub ks = convert_state (ascon_copy_key_to MB K D)
      (key_xor (mb_ops MB K) 4 k1 (key_xor (mb_ops MB K) 3 k0 (masked_permute (mb_ops MB K) 0 (load_xor (mb_ops MB K) 4 (drop 8 npub) (load_xor (mb_ops MB K) 3 npub (key_xor (mb_ops MB K) 2 k1 (key_xor (mb_ops MB K) 1 k0 (load_xor (mb_ops MB K) 0 ASCON128_IV (st0)))))))))"
    by (simp add: ascon128_masked_aead_init_def st0_def Let_def case_prod_beta ks)
  moreover have "st_rep (if D = 1 then K else D) (convert_state (ascon_copy_key_to MB K D)
      (key_xor (mb_ops MB K) 4 k1 (key_xor (mb_ops MB K) 3 k0 (masked_permute (mb_ops MB K) 0 (load_xor (mb_ops MB K) 4 (drop 8 npub) (load_xor (mb_ops MB K) 3 npub (key_xor (mb_ops MB K) 2 k1 (key_xor (mb_ops MB K) 1 k0 (load_xor (mb_ops MB K) 0 ASCON128_IV (st0))))))))))
      (xor_at (permute_bytes (ASCON128_IV @ k @ npub) 0) 24 k)"
    by (rule convert_state_rep[OF st])
      (use assms(6) copy_key_init_rep[OF assms(1,5,6)] in auto)
  ultimately show ?thesis by simp
qed

lemma ascon128_masked_aead_finalize_eq:
  assumes "shares MB K" "key128_masked (mrep K) ks k" "shaped w"
    "\<And>t. state_rep K (snd (convert ms t)) b"
  shows "ascon128_masked_aead_finalize MB K convert (ms, w, p, t) ks =
    get_at (xor_at (permute_bytes (xor_at b 8 k) 0) 24 (drop (length k - 16) k)) 24 16"
proof -
  obtain k0 k1 where ks: "ks = [k0, k1]"
    and key: "mrep K k0 (be_load_word64 (k))" "mrep K k1 (be_load_word64 (drop 8 k))"
    and k: "length k = 16"
    using assms(2) by (auto simp: key128_masked_def list_all2_Cons2)
  note len = k length_drop length_take length_append length_zeros
  define st0 where "st0 = convert_state convert (ms, w, snd (preserve_words MB (K - 1) t),
    fst (preserve_words MB (K - 1) t))"
  note start = finalize_start_rep[OF assms(1,3), of convert ms, OF assms(4), of t, folded st0_def]
  note f0 = key_xor_rep[OF assms(1) start _ key(1), of 1, simplified len]
  note f1 = key_xor_rep[OF assms(1) f0 _ key(2), of 2, simplified len]
  note f2 = masked_permute_rep[OF assms(1) f1, of 0]
  note f3 = key_xor_rep[OF assms(1) f2 _ key(1), of 3, simplified len]
  note f4 = key_xor_rep[OF assms(1) f3 _ key(2), of 4, simplified len]
  have "st_rep K (key_xor (mb_ops MB K) 4 k1 (key_xor (mb_ops MB K) 3 k0 (masked_permute (mb_ops MB K) 0 (key_xor (mb_ops MB K) 2 k1 (key_xor (mb_ops MB K) 1 k0 (st0))))))
      (xor_at (permute_bytes (xor_at b 8 k) 0) 24 (drop (length k - 16) k))"
    using f4 xor_at_twice[of k b 8] xor_at_twice[of k _ 24] k
    by (simp add: len split_16 xor_at_trailing_zeros)
  from tag_store[OF assms(1) this] show ?thesis
    by (simp add: ascon128_masked_aead_finalize_def st0_def Let_def case_prod_beta ks)
qed


lemma ascon128a_masked_aead_init_rep:
  assumes "shares MB K" "key128_masked (mrep K) ks k" "shaped w" "length npub = 16" "1 \<le> D" "D \<le> K"
  shows "st_rep (if D = 1 then K else D) (ascon128a_masked_aead_init MB K D t w npub ks)
    (xor_at (permute_bytes (ASCON128a_IV @ k @ npub) 0) 24 k)"
proof -
  obtain k0 k1 where ks: "ks = [k0, k1]"
    and key: "mrep K k0 (be_load_word64 (k))" "mrep K k1 (be_load_word64 (drop 8 k))"
    and k: "length k = 16"
    using assms(2) by (auto simp: key128_masked_def list_all2_Cons2)
  note len = k assms(4) length_ASCON128a_IV length_drop length_take length_append length_zeros
  define st0 where "st0 = (case preserve_words MB (K - 1) t of (t, preserve) \<Rightarrow>
    case ascon_masked_key_randomize MB K (ascon_masked_state_init MB) t of (t, state) \<Rightarrow>
      (state, w, preserve, t))"
  note start = start_rep[OF assms(1,3), of t, folded st0_def]
  note i0 = load_xor_rep(1)[OF assms(1) start, of 0 "ASCON128a_IV", simplified len]
  note i1 = key_xor_rep[OF assms(1) i0 _ key(1), of 1, simplified len]
  note i2 = key_xor_rep[OF assms(1) i1 _ key(2), of 2, simplified len]
  note i3 = load_xor_rep(1)[OF assms(1) i2, of 3 "npub", simplified len]
  note i4 = load_xor_rep(1)[OF assms(1) i3, of 4 "drop 8 npub", simplified len]
  note i5 = masked_permute_rep[OF assms(1) i4, of 0]
  note i6 = key_xor_rep[OF assms(1) i5 _ key(1), of 3, simplified len]
  note i7 = key_xor_rep[OF assms(1) i6 _ key(2), of 4, simplified len]
  have st: "st_rep K (key_xor (mb_ops MB K) 4 k1 (key_xor (mb_ops MB K) 3 k0 (masked_permute (mb_ops MB K) 0 (load_xor (mb_ops MB K) 4 (drop 8 npub) (load_xor (mb_ops MB K) 3 npub (key_xor (mb_ops MB K) 2 k1 (key_xor (mb_ops MB K) 1 k0 (load_xor (mb_ops MB K) 0 ASCON128a_IV (st0)))))))))
      (xor_at (permute_bytes (ASCON128a_IV @ k @ npub) 0) 24 k)"
    using i7 start_bytes_128[OF length_ASCON128a_IV k assms(4)] xor_at_twice[of k _ 24] k assms(4)
    by (simp add: len split_16 xor_at_leading_zeros)
  have "ascon128a_masked_aead_init MB K D t w npub ks = convert_state (ascon_copy_key_to MB K D)
      (key_xor (mb_ops MB K) 4 k1 (key_xor (mb_ops MB K) 3 k0 (masked_permute (mb_ops MB K) 0 (load_xor (mb_ops MB K) 4 (drop 8 npub) (load_xor (mb_ops MB K) 3 npub (key_xor (mb_ops MB K) 2 k1 (key_xor (mb_ops MB K) 1 k0 (load_xor (mb_ops MB K) 0 ASCON128a_IV (st0)))))))))"
    by (simp add: ascon128a_masked_aead_init_def st0_def Let_def case_prod_beta ks)
  moreover have "st_rep (if D = 1 then K else D) (convert_state (ascon_copy_key_to MB K D)
      (key_xor (mb_ops MB K) 4 k1 (key_xor (mb_ops MB K) 3 k0 (masked_permute (mb_ops MB K) 0 (load_xor (mb_ops MB K) 4 (drop 8 npub) (load_xor (mb_ops MB K) 3 npub (key_xor (mb_ops MB K) 2 k1 (key_xor (mb_ops MB K) 1 k0 (load_xor (mb_ops MB K) 0 ASCON128a_IV (st0))))))))))
      (xor_at (permute_bytes (ASCON128a_IV @ k @ npub) 0) 24 k)"
    by (rule convert_state_rep[OF st])
      (use assms(6) copy_key_init_rep[OF assms(1,5,6)] in auto)
  ultimately show ?thesis by simp
qed

lemma ascon128a_masked_aead_finalize_eq:
  assumes "shares MB K" "key128_masked (mrep K) ks k" "shaped w"
    "\<And>t. state_rep K (snd (convert ms t)) b"
  shows "ascon128a_masked_aead_finalize MB K convert (ms, w, p, t) ks =
    get_at (xor_at (permute_bytes (xor_at b 16 k) 0) 24 (drop (length k - 16) k)) 24 16"
proof -
  obtain k0 k1 where ks: "ks = [k0, k1]"
    and key: "mrep K k0 (be_load_word64 (k))" "mrep K k1 (be_load_word64 (drop 8 k))"
    and k: "length k = 16"
    using assms(2) by (auto simp: key128_masked_def list_all2_Cons2)
  note len = k length_drop length_take length_append length_zeros
  define st0 where "st0 = convert_state convert (ms, w, snd (preserve_words MB (K - 1) t),
    fst (preserve_words MB (K - 1) t))"
  note start = finalize_start_rep[OF assms(1,3), of convert ms, OF assms(4), of t, folded st0_def]
  note f0 = key_xor_rep[OF assms(1) start _ key(1), of 2, simplified len]
  note f1 = key_xor_rep[OF assms(1) f0 _ key(2), of 3, simplified len]
  note f2 = masked_permute_rep[OF assms(1) f1, of 0]
  note f3 = key_xor_rep[OF assms(1) f2 _ key(1), of 3, simplified len]
  note f4 = key_xor_rep[OF assms(1) f3 _ key(2), of 4, simplified len]
  have "st_rep K (key_xor (mb_ops MB K) 4 k1 (key_xor (mb_ops MB K) 3 k0 (masked_permute (mb_ops MB K) 0 (key_xor (mb_ops MB K) 3 k1 (key_xor (mb_ops MB K) 2 k0 (st0))))))
      (xor_at (permute_bytes (xor_at b 16 k) 0) 24 (drop (length k - 16) k))"
    using f4 xor_at_twice[of k b 16] xor_at_twice[of k _ 24] k
    by (simp add: len split_16 xor_at_trailing_zeros)
  from tag_store[OF assms(1) this] show ?thesis
    by (simp add: ascon128a_masked_aead_finalize_def st0_def Let_def case_prod_beta ks)
qed


lemma ascon80pq_masked_aead_init_rep:
  assumes "shares MB K" "key160_masked (mrep K) ks k" "shaped w" "length npub = 16" "1 \<le> D" "D \<le> K"
  shows "st_rep (if D = 1 then K else D) (ascon80pq_masked_aead_init MB K D t w npub ks)
    (xor_at (permute_bytes (ASCON80PQ_IV @ k @ npub) 0) 20 k)"
proof -
  obtain k0 k1 k2 k3 k4 k5 where ks: "ks = [k0, k1, k2, k3, k4, k5]"
    and key: "mrep K k0 (be_load_word64 (k))" "mrep K k1 (be_load_word64 (drop 8 k))" "mrep K k2 (be_load_word64 (drop 16 k @ zeros 4))" "mrep K k3 (be_load_word64 (zeros 4 @ take 4 k))" "mrep K k4 (be_load_word64 (drop 4 k))" "mrep K k5 (be_load_word64 (drop 12 k))"
    and k: "length k = 20"
    using assms(2) by (auto simp: key160_masked_def list_all2_Cons2)
  note len = k assms(4) length_ASCON80PQ_IV_word length_drop length_take length_append length_zeros
  define st0 where "st0 = (case preserve_words MB (K - 1) t of (t, preserve) \<Rightarrow>
    case ascon_masked_key_randomize MB K (ascon_masked_state_init MB) t of (t, state) \<Rightarrow>
      (state, w, preserve, t))"
  note start = start_rep[OF assms(1,3), of t, folded st0_def]
  note i0 = load_xor_rep(1)[OF assms(1) start, of 0 "ASCON80PQ_IV_word", simplified len]
  note i1 = key_xor_rep[OF assms(1) i0 _ key(4), of 0, simplified len]
  note i2 = key_xor_rep[OF assms(1) i1 _ key(5), of 1, simplified len]
  note i3 = key_xor_rep[OF assms(1) i2 _ key(6), of 2, simplified len]
  note i4 = load_xor_rep(1)[OF assms(1) i3, of 3 "npub", simplified len]
  note i5 = load_xor_rep(1)[OF assms(1) i4, of 4 "drop 8 npub", simplified len]
  note i6 = masked_permute_rep[OF assms(1) i5, of 0]
  note i7 = key_xor_rep[OF assms(1) i6 _ key(4), of 2, simplified len]
  note i8 = key_xor_rep[OF assms(1) i7 _ key(5), of 3, simplified len]
  note i9 = key_xor_rep[OF assms(1) i8 _ key(6), of 4, simplified len]
  have st: "st_rep K (key_xor (mb_ops MB K) 4 k5 (key_xor (mb_ops MB K) 3 k4 (key_xor (mb_ops MB K) 2 k3 (masked_permute (mb_ops MB K) 0 (load_xor (mb_ops MB K) 4 (drop 8 npub) (load_xor (mb_ops MB K) 3 npub (key_xor (mb_ops MB K) 2 k5 (key_xor (mb_ops MB K) 1 k4 (key_xor (mb_ops MB K) 0 k3 (load_xor (mb_ops MB K) 0 ASCON80PQ_IV_word (st0)))))))))))
      (xor_at (permute_bytes (ASCON80PQ_IV @ k @ npub) 0) 20 k)"
    using i9 start_bytes_80pq[OF k assms(4)] xor_key_160[OF k, of _ 20] k assms(4)
    by (simp add: len split_16 xor_at_leading_zeros)
  have "ascon80pq_masked_aead_init MB K D t w npub ks = convert_state (ascon_copy_key_to MB K D)
      (key_xor (mb_ops MB K) 4 k5 (key_xor (mb_ops MB K) 3 k4 (key_xor (mb_ops MB K) 2 k3 (masked_permute (mb_ops MB K) 0 (load_xor (mb_ops MB K) 4 (drop 8 npub) (load_xor (mb_ops MB K) 3 npub (key_xor (mb_ops MB K) 2 k5 (key_xor (mb_ops MB K) 1 k4 (key_xor (mb_ops MB K) 0 k3 (load_xor (mb_ops MB K) 0 ASCON80PQ_IV_word (st0)))))))))))"
    by (simp add: ascon80pq_masked_aead_init_def st0_def Let_def case_prod_beta ks)
  moreover have "st_rep (if D = 1 then K else D) (convert_state (ascon_copy_key_to MB K D)
      (key_xor (mb_ops MB K) 4 k5 (key_xor (mb_ops MB K) 3 k4 (key_xor (mb_ops MB K) 2 k3 (masked_permute (mb_ops MB K) 0 (load_xor (mb_ops MB K) 4 (drop 8 npub) (load_xor (mb_ops MB K) 3 npub (key_xor (mb_ops MB K) 2 k5 (key_xor (mb_ops MB K) 1 k4 (key_xor (mb_ops MB K) 0 k3 (load_xor (mb_ops MB K) 0 ASCON80PQ_IV_word (st0))))))))))))
      (xor_at (permute_bytes (ASCON80PQ_IV @ k @ npub) 0) 20 k)"
    by (rule convert_state_rep[OF st])
      (use assms(6) copy_key_init_rep[OF assms(1,5,6)] in auto)
  ultimately show ?thesis by simp
qed

lemma ascon80pq_masked_aead_finalize_eq:
  assumes "shares MB K" "key160_masked (mrep K) ks k" "shaped w"
    "\<And>t. state_rep K (snd (convert ms t)) b"
  shows "ascon80pq_masked_aead_finalize MB K convert (ms, w, p, t) ks =
    get_at (xor_at (permute_bytes (xor_at b 8 k) 0) 24 (drop (length k - 16) k)) 24 16"
proof -
  obtain k0 k1 k2 k3 k4 k5 where ks: "ks = [k0, k1, k2, k3, k4, k5]"
    and key: "mrep K k0 (be_load_word64 (k))" "mrep K k1 (be_load_word64 (drop 8 k))" "mrep K k2 (be_load_word64 (drop 16 k @ zeros 4))" "mrep K k3 (be_load_word64 (zeros 4 @ take 4 k))" "mrep K k4 (be_load_word64 (drop 4 k))" "mrep K k5 (be_load_word64 (drop 12 k))"
    and k: "length k = 20"
    using assms(2) by (auto simp: key160_masked_def list_all2_Cons2)
  note len = k length_drop length_take length_append length_zeros
  define st0 where "st0 = convert_state convert (ms, w, snd (preserve_words MB (K - 1) t),
    fst (preserve_words MB (K - 1) t))"
  note start = finalize_start_rep[OF assms(1,3), of convert ms, OF assms(4), of t, folded st0_def]
  note f0 = key_xor_rep[OF assms(1) start _ key(1), of 1, simplified len]
  note f1 = key_xor_rep[OF assms(1) f0 _ key(2), of 2, simplified len]
  note f2 = key_xor_rep[OF assms(1) f1 _ key(3), of 3, simplified len]
  note f3 = masked_permute_rep[OF assms(1) f2, of 0]
  note f4 = key_xor_rep[OF assms(1) f3 _ key(5), of 3, simplified len]
  note f5 = key_xor_rep[OF assms(1) f4 _ key(6), of 4, simplified len]
  have "st_rep K (key_xor (mb_ops MB K) 4 k5 (key_xor (mb_ops MB K) 3 k4 (masked_permute (mb_ops MB K) 0 (key_xor (mb_ops MB K) 3 k2 (key_xor (mb_ops MB K) 2 k1 (key_xor (mb_ops MB K) 1 k0 (st0)))))))
      (xor_at (permute_bytes (xor_at b 8 k) 0) 24 (drop (length k - 16) k))"
    using f5 xor_key_160'[OF k, of b 8] xor_at_twice[of "drop 4 k" _ 24] k
    by (simp add: len split_16 xor_at_trailing_zeros)
  from tag_store[OF assms(1) this] show ?thesis
    by (simp add: ascon80pq_masked_aead_finalize_def st0_def Let_def case_prod_beta ks)
qed


end

context masking_plain
begin

lemma copy_key_to_x1_rep:
  assumes "shares MB K" "state_rep K ms b"
  shows "prep (ascon_copy_key_to_x1 MB K P ms) b"
  using shares_cases[OF assms(1)] copy_to_x1_rep[OF assms(2,1)]
  by (auto simp: ascon_copy_key_to_x1_def ascon_x2_copy_to_x1_def ascon_x3_copy_to_x1_def
      ascon_x4_copy_to_x1_def)

lemma copy_key_from_x1_shaped_rep:
  assumes "shares MB K" "length ms = 5" "list_all shaped ms" "prep s b"
  shows "state_rep K (snd (ascon_copy_key_from_x1 MB K P s ms t)) b"
  using copy_from_x1_rep[OF assms(4,2,3,1)] shares_cases[OF assms(1)]
  by (auto simp: ascon_copy_key_from_x1_def ascon_x2_copy_from_x1_def ascon_x3_copy_from_x1_def
      ascon_x4_copy_from_x1_def)

lemma copy_key_from_x1_rep:
  assumes "shares MB K" "state_rep K ms b0" "prep s b"
  shows "state_rep K (snd (ascon_copy_key_from_x1 MB K P s ms t)) b"
proof -
  have "list_all shaped ms"
    using assms(2) by (auto simp: stands_for_def intro: stands_for_shaped[OF assms(1)])
  with copy_key_from_x1_shaped_rep[OF assms(1) _ _ assms(3)] state_rep_length[OF assms(2)]
  show ?thesis by blast
qed

lemma x1_roundtrip_rep:
  assumes "shares MB K" "2 \<le> D" "D \<le> K" "length ms = 5" "list_all shaped ms" "prep s b"
  shows "prep (ascon_copy_key_to_x1 MB K P (snd (ascon_copy_key_from MB K D
    (snd (ascon_copy_key_to MB K D (snd (ascon_copy_key_from_x1 MB K P s ms t)) t')) t''))) b"
  by (rule copy_key_to_x1_rep[OF assms(1)], rule copy_key_from_rep[OF assms(1-3)],
      rule copy_key_to_rep[OF assms(1-3)], rule copy_key_from_x1_shaped_rep[OF assms(1,4-6)])

lemma plain_pad_rep:
  assumes "prep s b" "p < 16"
  shows "prep (snp_pad P s (unat (of_nat p :: u8))) (xor_at b p [0x80])"
proof -
  have "unat (of_nat p :: u8) = p"
    using assms(2) by (simp add: unat_of_nat take_bit_nat_eq_self)
  with plain.rep_pad[OF assms(1), of p] assms(2) show ?thesis by simp
qed


text \<open>The state after the associated data, plain and masked.\<close>

lemma ascon128_masked_aead_start:
  assumes "shares MB K" "key128_masked (mrep K) ks k" "shaped w" "length npub = 16" "1 \<le> D" "D \<le> K"
    "ascon128_masked_aead_init MB K D t w npub ks = st"
  shows "D = 1 \<Longrightarrow> prep (snp_separator P (if length ad > 0
      then ascon_aead_absorb_8 P (ascon_copy_key_to_x1 MB K P (fst st)) ad 6 True
      else ascon_copy_key_to_x1 MB K P (fst st))) (spec_aead_start ASCON128_IV 8 6 k npub ad)"
    "D \<noteq> 1 \<Longrightarrow> st_rep D (masked_separator MB (if length ad > 0
      then ascon_masked_aead_absorb_8 MB D st ad 6 else st)) (spec_aead_start ASCON128_IV 8 6 k npub ad)"
proof -
  let ?b = "xor_at (permute_bytes (ASCON128_IV @ k @ npub) 0) 24 k"
  have k: "length k = 16" using assms(2) by (simp add: key128_masked_def)
  have start: "spec_aead_start ASCON128_IV 8 6 k npub ad =
      xor_at (if ad = [] then ?b else permute_bytes (spec_absorb 8 6 ?b ad) 6) 39 [1]"
    by (simp add: spec_aead_start_def Let_def k)
  note r = ascon128_masked_aead_init_rep[OF assms(1-6), of t, unfolded assms(7)]
  show "prep (snp_separator P (if length ad > 0
      then ascon_aead_absorb_8 P (ascon_copy_key_to_x1 MB K P (fst st)) ad 6 True
      else ascon_copy_key_to_x1 MB K P (fst st))) (spec_aead_start ASCON128_IV 8 6 k npub ad)"
    if "D = 1"
  proof -
    have "prep (ascon_copy_key_to_x1 MB K P (fst st)) ?b"
      using r that by (auto simp: st_rep_def intro: copy_key_to_x1_rep[OF assms(1)])
    with plain.absorb_8_run[OF this, of ad 6] show ?thesis
      by (auto simp: start intro!: plain.rep_separator)
  qed
  show "st_rep D (masked_separator MB (if length ad > 0
      then ascon_masked_aead_absorb_8 MB D st ad 6 else st)) (spec_aead_start ASCON128_IV 8 6 k npub ad)"
    if "D \<noteq> 1"
  proof -
    have D: "shares MB D" "st_rep D st ?b" using r that assms by auto
    with masked_absorb_8_rep[OF D, of ad 6] show ?thesis
      by (auto simp: start intro!: masked_separator_rep)
  qed
qed

lemma ascon128_masked_aead_tag:
  assumes "shares MB K" "key128_masked (mrep K) ks k" "shaped w" "length npub = 16" "1 \<le> D" "D \<le> K"
    "ascon128_masked_aead_init MB K D t w npub ks = st" "p < 8"
  shows "\<lbrakk>D = 1; prep s b\<rbrakk> \<Longrightarrow> ascon128_masked_aead_finalize MB K
      (ascon_copy_key_from_x1 MB K P (snp_pad P s (unat (of_nat p :: u8)))) st ks = spec_aead_tag 8 k (b, p)"
    "\<lbrakk>D \<noteq> 1; st_rep D st' (xor_at b p [0x80])\<rbrakk> \<Longrightarrow> ascon128_masked_aead_finalize MB K
      (ascon_copy_key_from MB K D) st' ks = spec_aead_tag 8 k (b, p)"
proof -
  note r = ascon128_masked_aead_init_rep[OF assms(1-6), of t, unfolded assms(7)]
  have tag: "get_at (xor_at (permute_bytes (xor_at (xor_at b p [0x80]) 8 k) 0) 24 (drop (length k - 16) k)) 24 16 =
      spec_aead_tag 8 k (b, p)"
    by (simp add: spec_aead_tag_def Let_def)
  show "ascon128_masked_aead_finalize MB K
      (ascon_copy_key_from_x1 MB K P (snp_pad P s (unat (of_nat p :: u8)))) st ks = spec_aead_tag 8 k (b, p)"
    if D: "D = 1" and s: "prep s b"
  proof -
    obtain ms w' q t' where st: "st = (ms, w', q, t')"
      "state_rep K ms (xor_at (permute_bytes (ASCON128_IV @ k @ npub) 0) 24 k)" "shaped w'"
      using r D by (auto elim: st_rep_cases)
    have "prep (snp_pad P s (unat (of_nat p :: u8))) (xor_at b p [0x80])"
      using plain_pad_rep[OF s, of p] assms(8) by simp
    then show ?thesis
      unfolding st(1) tag[symmetric]
      by (intro ascon128_masked_aead_finalize_eq[OF assms(1,2) st(3)] copy_key_from_x1_rep[OF assms(1) st(2)])
  qed
  show "ascon128_masked_aead_finalize MB K (ascon_copy_key_from MB K D) st' ks = spec_aead_tag 8 k (b, p)"
    if D: "D \<noteq> 1" and s: "st_rep D st' (xor_at b p [0x80])"
  proof -
    obtain ms w' q t' where st: "st' = (ms, w', q, t')" "state_rep D ms (xor_at b p [0x80])" "shaped w'"
      using s by (rule st_rep_cases)
    show ?thesis
      unfolding st(1) tag[symmetric]
      by (rule ascon128_masked_aead_finalize_eq[OF assms(1,2) st(3)])
        (use copy_key_from_rep[OF assms(1) _ assms(6) st(2)] D assms(5) in auto)
  qed
qed

lemma ascon128_masked_aead_encrypt_spec:
  assumes "shares MB K" "key128_masked (mrep K) ks k" "shaped w" "length npub = 16" "1 \<le> D" "D \<le> K"
  shows "ascon128_masked_aead_encrypt MB K D P m ad npub ks w t = spec_aead_encrypt ASCON128_IV 8 6 k npub ad m"
proof -
  obtain st where st: "ascon128_masked_aead_init MB K D t w npub ks = st" by simp
  note start = ascon128_masked_aead_start[OF assms st, of ad] and tag = ascon128_masked_aead_tag[OF assms st]
  obtain b p c where run: "run (machine encrypt_effect 8 6)
      (spec_aead_start ASCON128_IV 8 6 k npub ad, 0) m = ((b, p), c)"
    by (metis prod.exhaust)
  show ?thesis
  proof (cases "D = 1")
    case True
    obtain s where e: "ascon_aead_encrypt_8 P (snp_separator P (if length ad > 0
        then ascon_aead_absorb_8 P (ascon_copy_key_to_x1 MB K P (fst st)) ad 6 True
        else ascon_copy_key_to_x1 MB K P (fst st))) m 6 0 = (s, c, of_nat p)" "prep s b" "p < 8"
      using plain.encrypt_8_run[OF start(1)[OF True], of 0 m 6] by (auto simp: run)
    show ?thesis
      unfolding ascon128_masked_aead_encrypt_def Let_def st if_P[OF True] e(1) prod.case tag(1)[OF e(3) True e(2)]
      by (simp add: spec_aead_encrypt_def run)
  next
    case False
    then have D: "shares MB D" using assms by auto
    obtain st' c' where e: "ascon_masked_aead_encrypt_8 MB D (masked_separator MB (if length ad > 0
      then ascon_masked_aead_absorb_8 MB D st ad 6 else st)) m 6 = (st', c')"
      by (rule prod.exhaust)
    from masked_encrypt_8_run[OF D start(2)[OF False] e] run
    have e': "c' = c" "p < 8" "st_rep D st' (xor_at b p [0x80])" by auto
    show ?thesis
      unfolding ascon128_masked_aead_encrypt_def Let_def st if_not_P[OF False] e prod.case tag(2)[OF e'(2) False e'(3)]
      by (simp add: spec_aead_encrypt_def run e'(1))
  qed
qed

lemma ascon128_masked_aead_decrypt_spec:
  assumes "shares MB K" "key128_masked (mrep K) ks k" "shaped w" "length npub = 16" "1 \<le> D" "D \<le> K"
  shows "ascon128_masked_aead_decrypt MB K D P c ad npub ks w t =
    (if length c < 16 then (-1, None)
     else case spec_aead_decrypt ASCON128_IV 8 6 k npub ad c of
            Some m \<Rightarrow> (0, Some m) | None \<Rightarrow> (-1, Some (zeros (length c - 16))))"
proof (cases "length c < 16")
  case False
  let ?m = "take (length c - 16) c"
  obtain st where st: "ascon128_masked_aead_init MB K D t w npub ks = st" by simp
  note start = ascon128_masked_aead_start[OF assms st, of ad] and tag = ascon128_masked_aead_tag[OF assms st]
  obtain b p out where run: "run (machine decrypt_effect 8 6)
      (spec_aead_start ASCON128_IV 8 6 k npub ad, 0) ?m = ((b, p), out)"
    by (metis prod.exhaust)
  have len: "length out = length c - 16"
    using length_run[OF _ duplex_ok_start, of 8 decrypt_effect 6 ASCON128_IV 6 k npub ad ?m] run by simp
  have check: "ascon_aead_check_tag out (spec_aead_tag 8 k (b, p)) (drop (length c - 16) c) 16 =
    (if spec_aead_tag 8 k (b, p) = drop (length c - 16) c then (0, out) else (-1, zeros (length c - 16)))"
    using False len by (simp add: check_tag_eq length_spec_tag)
  show ?thesis
  proof (cases "D = 1")
    case True
    obtain s where e: "ascon_aead_decrypt_8 P (snp_separator P (if length ad > 0
        then ascon_aead_absorb_8 P (ascon_copy_key_to_x1 MB K P (fst st)) ad 6 True
        else ascon_copy_key_to_x1 MB K P (fst st))) ?m 6 0 = (s, out, of_nat p)" "prep s b" "p < 8"
      using plain.decrypt_8_run[OF start(1)[OF True], of 0 ?m 6] by (auto simp: run)
    show ?thesis
      unfolding ascon128_masked_aead_decrypt_def Let_def st if_P[OF True] if_not_P[OF False] e(1) prod.case
        tag(1)[OF e(3) True e(2)] check
      using False by (simp add: spec_aead_decrypt_def run)
  next
    case D1: False
    then have D: "shares MB D" using assms by auto
    obtain st' out' where e: "ascon_masked_aead_decrypt_8 MB D (masked_separator MB (if length ad > 0
      then ascon_masked_aead_absorb_8 MB D st ad 6 else st)) ?m 6 = (st', out')"
      by (rule prod.exhaust)
    from masked_decrypt_8_run[OF D start(2)[OF D1] e] run
    have e': "out' = out" "p < 8" "st_rep D st' (xor_at b p [0x80])" by auto
    show ?thesis
      unfolding ascon128_masked_aead_decrypt_def Let_def st if_not_P[OF D1] if_not_P[OF False] e prod.case
        tag(2)[OF e'(2) D1 e'(3)] e'(1) check
      using False by (simp add: spec_aead_decrypt_def run)
  qed
qed (simp add: ascon128_masked_aead_decrypt_def)


text \<open>The state after the associated data, plain and masked.\<close>

lemma ascon128a_masked_aead_start:
  assumes "shares MB K" "key128_masked (mrep K) ks k" "shaped w" "length npub = 16" "1 \<le> D" "D \<le> K"
    "ascon128a_masked_aead_init MB K D t w npub ks = st"
  shows "D = 1 \<Longrightarrow> prep (snp_separator P (if length ad > 0
      then ascon_aead_absorb_16 P (ascon_copy_key_to_x1 MB K P (fst st)) ad 4 True
      else ascon_copy_key_to_x1 MB K P (fst st))) (spec_aead_start ASCON128a_IV 16 4 k npub ad)"
    "D \<noteq> 1 \<Longrightarrow> st_rep D (masked_separator MB (if length ad > 0
      then ascon_masked_aead_absorb_16 MB D st ad 4 else st)) (spec_aead_start ASCON128a_IV 16 4 k npub ad)"
proof -
  let ?b = "xor_at (permute_bytes (ASCON128a_IV @ k @ npub) 0) 24 k"
  have k: "length k = 16" using assms(2) by (simp add: key128_masked_def)
  have start: "spec_aead_start ASCON128a_IV 16 4 k npub ad =
      xor_at (if ad = [] then ?b else permute_bytes (spec_absorb 16 4 ?b ad) 4) 39 [1]"
    by (simp add: spec_aead_start_def Let_def k)
  note r = ascon128a_masked_aead_init_rep[OF assms(1-6), of t, unfolded assms(7)]
  show "prep (snp_separator P (if length ad > 0
      then ascon_aead_absorb_16 P (ascon_copy_key_to_x1 MB K P (fst st)) ad 4 True
      else ascon_copy_key_to_x1 MB K P (fst st))) (spec_aead_start ASCON128a_IV 16 4 k npub ad)"
    if "D = 1"
  proof -
    have "prep (ascon_copy_key_to_x1 MB K P (fst st)) ?b"
      using r that by (auto simp: st_rep_def intro: copy_key_to_x1_rep[OF assms(1)])
    with plain.absorb_16_run[OF this, of ad 4] show ?thesis
      by (auto simp: start intro!: plain.rep_separator)
  qed
  show "st_rep D (masked_separator MB (if length ad > 0
      then ascon_masked_aead_absorb_16 MB D st ad 4 else st)) (spec_aead_start ASCON128a_IV 16 4 k npub ad)"
    if "D \<noteq> 1"
  proof -
    have D: "shares MB D" "st_rep D st ?b" using r that assms by auto
    with masked_absorb_16_rep[OF D, of ad 4] show ?thesis
      by (auto simp: start intro!: masked_separator_rep)
  qed
qed

lemma ascon128a_masked_aead_tag:
  assumes "shares MB K" "key128_masked (mrep K) ks k" "shaped w" "length npub = 16" "1 \<le> D" "D \<le> K"
    "ascon128a_masked_aead_init MB K D t w npub ks = st" "p < 16"
  shows "\<lbrakk>D = 1; prep s b\<rbrakk> \<Longrightarrow> ascon128a_masked_aead_finalize MB K
      (ascon_copy_key_from_x1 MB K P (snp_pad P s (unat (of_nat p :: u8)))) st ks = spec_aead_tag 16 k (b, p)"
    "\<lbrakk>D \<noteq> 1; st_rep D st' (xor_at b p [0x80])\<rbrakk> \<Longrightarrow> ascon128a_masked_aead_finalize MB K
      (ascon_copy_key_from MB K D) st' ks = spec_aead_tag 16 k (b, p)"
proof -
  note r = ascon128a_masked_aead_init_rep[OF assms(1-6), of t, unfolded assms(7)]
  have tag: "get_at (xor_at (permute_bytes (xor_at (xor_at b p [0x80]) 16 k) 0) 24 (drop (length k - 16) k)) 24 16 =
      spec_aead_tag 16 k (b, p)"
    by (simp add: spec_aead_tag_def Let_def)
  show "ascon128a_masked_aead_finalize MB K
      (ascon_copy_key_from_x1 MB K P (snp_pad P s (unat (of_nat p :: u8)))) st ks = spec_aead_tag 16 k (b, p)"
    if D: "D = 1" and s: "prep s b"
  proof -
    obtain ms w' q t' where st: "st = (ms, w', q, t')"
      "state_rep K ms (xor_at (permute_bytes (ASCON128a_IV @ k @ npub) 0) 24 k)" "shaped w'"
      using r D by (auto elim: st_rep_cases)
    have "prep (snp_pad P s (unat (of_nat p :: u8))) (xor_at b p [0x80])"
      using plain_pad_rep[OF s, of p] assms(8) by simp
    then show ?thesis
      unfolding st(1) tag[symmetric]
      by (intro ascon128a_masked_aead_finalize_eq[OF assms(1,2) st(3)] copy_key_from_x1_rep[OF assms(1) st(2)])
  qed
  show "ascon128a_masked_aead_finalize MB K (ascon_copy_key_from MB K D) st' ks = spec_aead_tag 16 k (b, p)"
    if D: "D \<noteq> 1" and s: "st_rep D st' (xor_at b p [0x80])"
  proof -
    obtain ms w' q t' where st: "st' = (ms, w', q, t')" "state_rep D ms (xor_at b p [0x80])" "shaped w'"
      using s by (rule st_rep_cases)
    show ?thesis
      unfolding st(1) tag[symmetric]
      by (rule ascon128a_masked_aead_finalize_eq[OF assms(1,2) st(3)])
        (use copy_key_from_rep[OF assms(1) _ assms(6) st(2)] D assms(5) in auto)
  qed
qed

lemma ascon128a_masked_aead_encrypt_spec:
  assumes "shares MB K" "key128_masked (mrep K) ks k" "shaped w" "length npub = 16" "1 \<le> D" "D \<le> K"
  shows "ascon128a_masked_aead_encrypt MB K D P m ad npub ks w t = spec_aead_encrypt ASCON128a_IV 16 4 k npub ad m"
proof -
  obtain st where st: "ascon128a_masked_aead_init MB K D t w npub ks = st" by simp
  note start = ascon128a_masked_aead_start[OF assms st, of ad] and tag = ascon128a_masked_aead_tag[OF assms st]
  obtain b p c where run: "run (machine encrypt_effect 16 4)
      (spec_aead_start ASCON128a_IV 16 4 k npub ad, 0) m = ((b, p), c)"
    by (metis prod.exhaust)
  show ?thesis
  proof (cases "D = 1")
    case True
    obtain s where e: "ascon_aead_encrypt_16 P (snp_separator P (if length ad > 0
        then ascon_aead_absorb_16 P (ascon_copy_key_to_x1 MB K P (fst st)) ad 4 True
        else ascon_copy_key_to_x1 MB K P (fst st))) m 4 0 = (s, c, of_nat p)" "prep s b" "p < 16"
      using plain.encrypt_16_run[OF start(1)[OF True], of 0 m 4] by (auto simp: run)
    show ?thesis
      unfolding ascon128a_masked_aead_encrypt_def Let_def st if_P[OF True] e(1) prod.case tag(1)[OF e(3) True e(2)]
      by (simp add: spec_aead_encrypt_def run)
  next
    case False
    then have D: "shares MB D" using assms by auto
    obtain st' c' where e: "ascon_masked_aead_encrypt_16 MB D (masked_separator MB (if length ad > 0
      then ascon_masked_aead_absorb_16 MB D st ad 4 else st)) m 4 = (st', c')"
      by (rule prod.exhaust)
    from masked_encrypt_16_run[OF D start(2)[OF False] e] run
    have e': "c' = c" "p < 16" "st_rep D st' (xor_at b p [0x80])" by auto
    show ?thesis
      unfolding ascon128a_masked_aead_encrypt_def Let_def st if_not_P[OF False] e prod.case tag(2)[OF e'(2) False e'(3)]
      by (simp add: spec_aead_encrypt_def run e'(1))
  qed
qed

lemma ascon128a_masked_aead_decrypt_spec:
  assumes "shares MB K" "key128_masked (mrep K) ks k" "shaped w" "length npub = 16" "1 \<le> D" "D \<le> K"
  shows "ascon128a_masked_aead_decrypt MB K D P c ad npub ks w t =
    (if length c < 16 then (-1, None)
     else case spec_aead_decrypt ASCON128a_IV 16 4 k npub ad c of
            Some m \<Rightarrow> (0, Some m) | None \<Rightarrow> (-1, Some (zeros (length c - 16))))"
proof (cases "length c < 16")
  case False
  let ?m = "take (length c - 16) c"
  obtain st where st: "ascon128a_masked_aead_init MB K D t w npub ks = st" by simp
  note start = ascon128a_masked_aead_start[OF assms st, of ad] and tag = ascon128a_masked_aead_tag[OF assms st]
  obtain b p out where run: "run (machine decrypt_effect 16 4)
      (spec_aead_start ASCON128a_IV 16 4 k npub ad, 0) ?m = ((b, p), out)"
    by (metis prod.exhaust)
  have len: "length out = length c - 16"
    using length_run[OF _ duplex_ok_start, of 16 decrypt_effect 4 ASCON128a_IV 4 k npub ad ?m] run by simp
  have check: "ascon_aead_check_tag out (spec_aead_tag 16 k (b, p)) (drop (length c - 16) c) 16 =
    (if spec_aead_tag 16 k (b, p) = drop (length c - 16) c then (0, out) else (-1, zeros (length c - 16)))"
    using False len by (simp add: check_tag_eq length_spec_tag)
  show ?thesis
  proof (cases "D = 1")
    case True
    obtain s where e: "ascon_aead_decrypt_16 P (snp_separator P (if length ad > 0
        then ascon_aead_absorb_16 P (ascon_copy_key_to_x1 MB K P (fst st)) ad 4 True
        else ascon_copy_key_to_x1 MB K P (fst st))) ?m 4 0 = (s, out, of_nat p)" "prep s b" "p < 16"
      using plain.decrypt_16_run[OF start(1)[OF True], of 0 ?m 4] by (auto simp: run)
    show ?thesis
      unfolding ascon128a_masked_aead_decrypt_def Let_def st if_P[OF True] if_not_P[OF False] e(1) prod.case
        tag(1)[OF e(3) True e(2)] check
      using False by (simp add: spec_aead_decrypt_def run)
  next
    case D1: False
    then have D: "shares MB D" using assms by auto
    obtain st' out' where e: "ascon_masked_aead_decrypt_16 MB D (masked_separator MB (if length ad > 0
      then ascon_masked_aead_absorb_16 MB D st ad 4 else st)) ?m 4 = (st', out')"
      by (rule prod.exhaust)
    from masked_decrypt_16_run[OF D start(2)[OF D1] e] run
    have e': "out' = out" "p < 16" "st_rep D st' (xor_at b p [0x80])" by auto
    show ?thesis
      unfolding ascon128a_masked_aead_decrypt_def Let_def st if_not_P[OF D1] if_not_P[OF False] e prod.case
        tag(2)[OF e'(2) D1 e'(3)] e'(1) check
      using False by (simp add: spec_aead_decrypt_def run)
  qed
qed (simp add: ascon128a_masked_aead_decrypt_def)


text \<open>The state after the associated data, plain and masked.\<close>

lemma ascon80pq_masked_aead_start:
  assumes "shares MB K" "key160_masked (mrep K) ks k" "shaped w" "length npub = 16" "1 \<le> D" "D \<le> K"
    "ascon80pq_masked_aead_init MB K D t w npub ks = st"
  shows "D = 1 \<Longrightarrow> prep (snp_separator P (if length ad > 0
      then ascon_aead_absorb_8 P (ascon_copy_key_to_x1 MB K P (fst st)) ad 6 True
      else ascon_copy_key_to_x1 MB K P (fst st))) (spec_aead_start ASCON80PQ_IV 8 6 k npub ad)"
    "D \<noteq> 1 \<Longrightarrow> st_rep D (masked_separator MB (if length ad > 0
      then ascon_masked_aead_absorb_8 MB D st ad 6 else st)) (spec_aead_start ASCON80PQ_IV 8 6 k npub ad)"
proof -
  let ?b = "xor_at (permute_bytes (ASCON80PQ_IV @ k @ npub) 0) 20 k"
  have k: "length k = 20" using assms(2) by (simp add: key160_masked_def)
  have start: "spec_aead_start ASCON80PQ_IV 8 6 k npub ad =
      xor_at (if ad = [] then ?b else permute_bytes (spec_absorb 8 6 ?b ad) 6) 39 [1]"
    by (simp add: spec_aead_start_def Let_def k)
  note r = ascon80pq_masked_aead_init_rep[OF assms(1-6), of t, unfolded assms(7)]
  show "prep (snp_separator P (if length ad > 0
      then ascon_aead_absorb_8 P (ascon_copy_key_to_x1 MB K P (fst st)) ad 6 True
      else ascon_copy_key_to_x1 MB K P (fst st))) (spec_aead_start ASCON80PQ_IV 8 6 k npub ad)"
    if "D = 1"
  proof -
    have "prep (ascon_copy_key_to_x1 MB K P (fst st)) ?b"
      using r that by (auto simp: st_rep_def intro: copy_key_to_x1_rep[OF assms(1)])
    with plain.absorb_8_run[OF this, of ad 6] show ?thesis
      by (auto simp: start intro!: plain.rep_separator)
  qed
  show "st_rep D (masked_separator MB (if length ad > 0
      then ascon_masked_aead_absorb_8 MB D st ad 6 else st)) (spec_aead_start ASCON80PQ_IV 8 6 k npub ad)"
    if "D \<noteq> 1"
  proof -
    have D: "shares MB D" "st_rep D st ?b" using r that assms by auto
    with masked_absorb_8_rep[OF D, of ad 6] show ?thesis
      by (auto simp: start intro!: masked_separator_rep)
  qed
qed

lemma ascon80pq_masked_aead_tag:
  assumes "shares MB K" "key160_masked (mrep K) ks k" "shaped w" "length npub = 16" "1 \<le> D" "D \<le> K"
    "ascon80pq_masked_aead_init MB K D t w npub ks = st" "p < 8"
  shows "\<lbrakk>D = 1; prep s b\<rbrakk> \<Longrightarrow> ascon80pq_masked_aead_finalize MB K
      (ascon_copy_key_from_x1 MB K P (snp_pad P s (unat (of_nat p :: u8)))) st ks = spec_aead_tag 8 k (b, p)"
    "\<lbrakk>D \<noteq> 1; st_rep D st' (xor_at b p [0x80])\<rbrakk> \<Longrightarrow> ascon80pq_masked_aead_finalize MB K
      (ascon_copy_key_from MB K D) st' ks = spec_aead_tag 8 k (b, p)"
proof -
  note r = ascon80pq_masked_aead_init_rep[OF assms(1-6), of t, unfolded assms(7)]
  have tag: "get_at (xor_at (permute_bytes (xor_at (xor_at b p [0x80]) 8 k) 0) 24 (drop (length k - 16) k)) 24 16 =
      spec_aead_tag 8 k (b, p)"
    by (simp add: spec_aead_tag_def Let_def)
  show "ascon80pq_masked_aead_finalize MB K
      (ascon_copy_key_from_x1 MB K P (snp_pad P s (unat (of_nat p :: u8)))) st ks = spec_aead_tag 8 k (b, p)"
    if D: "D = 1" and s: "prep s b"
  proof -
    obtain ms w' q t' where st: "st = (ms, w', q, t')"
      "state_rep K ms (xor_at (permute_bytes (ASCON80PQ_IV @ k @ npub) 0) 20 k)" "shaped w'"
      using r D by (auto elim: st_rep_cases)
    have "prep (snp_pad P s (unat (of_nat p :: u8))) (xor_at b p [0x80])"
      using plain_pad_rep[OF s, of p] assms(8) by simp
    then show ?thesis
      unfolding st(1) tag[symmetric]
      by (intro ascon80pq_masked_aead_finalize_eq[OF assms(1,2) st(3)] copy_key_from_x1_rep[OF assms(1) st(2)])
  qed
  show "ascon80pq_masked_aead_finalize MB K (ascon_copy_key_from MB K D) st' ks = spec_aead_tag 8 k (b, p)"
    if D: "D \<noteq> 1" and s: "st_rep D st' (xor_at b p [0x80])"
  proof -
    obtain ms w' q t' where st: "st' = (ms, w', q, t')" "state_rep D ms (xor_at b p [0x80])" "shaped w'"
      using s by (rule st_rep_cases)
    show ?thesis
      unfolding st(1) tag[symmetric]
      by (rule ascon80pq_masked_aead_finalize_eq[OF assms(1,2) st(3)])
        (use copy_key_from_rep[OF assms(1) _ assms(6) st(2)] D assms(5) in auto)
  qed
qed

lemma ascon80pq_masked_aead_encrypt_spec:
  assumes "shares MB K" "key160_masked (mrep K) ks k" "shaped w" "length npub = 16" "1 \<le> D" "D \<le> K"
  shows "ascon80pq_masked_aead_encrypt MB K D P m ad npub ks w t = spec_aead_encrypt ASCON80PQ_IV 8 6 k npub ad m"
proof -
  obtain st where st: "ascon80pq_masked_aead_init MB K D t w npub ks = st" by simp
  note start = ascon80pq_masked_aead_start[OF assms st, of ad] and tag = ascon80pq_masked_aead_tag[OF assms st]
  obtain b p c where run: "run (machine encrypt_effect 8 6)
      (spec_aead_start ASCON80PQ_IV 8 6 k npub ad, 0) m = ((b, p), c)"
    by (metis prod.exhaust)
  show ?thesis
  proof (cases "D = 1")
    case True
    obtain s where e: "ascon_aead_encrypt_8 P (snp_separator P (if length ad > 0
        then ascon_aead_absorb_8 P (ascon_copy_key_to_x1 MB K P (fst st)) ad 6 True
        else ascon_copy_key_to_x1 MB K P (fst st))) m 6 0 = (s, c, of_nat p)" "prep s b" "p < 8"
      using plain.encrypt_8_run[OF start(1)[OF True], of 0 m 6] by (auto simp: run)
    show ?thesis
      unfolding ascon80pq_masked_aead_encrypt_def Let_def st if_P[OF True] e(1) prod.case tag(1)[OF e(3) True e(2)]
      by (simp add: spec_aead_encrypt_def run)
  next
    case False
    then have D: "shares MB D" using assms by auto
    obtain st' c' where e: "ascon_masked_aead_encrypt_8 MB D (masked_separator MB (if length ad > 0
      then ascon_masked_aead_absorb_8 MB D st ad 6 else st)) m 6 = (st', c')"
      by (rule prod.exhaust)
    from masked_encrypt_8_run[OF D start(2)[OF False] e] run
    have e': "c' = c" "p < 8" "st_rep D st' (xor_at b p [0x80])" by auto
    show ?thesis
      unfolding ascon80pq_masked_aead_encrypt_def Let_def st if_not_P[OF False] e prod.case tag(2)[OF e'(2) False e'(3)]
      by (simp add: spec_aead_encrypt_def run e'(1))
  qed
qed

lemma ascon80pq_masked_aead_decrypt_spec:
  assumes "shares MB K" "key160_masked (mrep K) ks k" "shaped w" "length npub = 16" "1 \<le> D" "D \<le> K"
  shows "ascon80pq_masked_aead_decrypt MB K D P c ad npub ks w t =
    (if length c < 16 then (-1, None)
     else case spec_aead_decrypt ASCON80PQ_IV 8 6 k npub ad c of
            Some m \<Rightarrow> (0, Some m) | None \<Rightarrow> (-1, Some (zeros (length c - 16))))"
proof (cases "length c < 16")
  case False
  let ?m = "take (length c - 16) c"
  obtain st where st: "ascon80pq_masked_aead_init MB K D t w npub ks = st" by simp
  note start = ascon80pq_masked_aead_start[OF assms st, of ad] and tag = ascon80pq_masked_aead_tag[OF assms st]
  obtain b p out where run: "run (machine decrypt_effect 8 6)
      (spec_aead_start ASCON80PQ_IV 8 6 k npub ad, 0) ?m = ((b, p), out)"
    by (metis prod.exhaust)
  have len: "length out = length c - 16"
    using length_run[OF _ duplex_ok_start, of 8 decrypt_effect 6 ASCON80PQ_IV 6 k npub ad ?m] run by simp
  have check: "ascon_aead_check_tag out (spec_aead_tag 8 k (b, p)) (drop (length c - 16) c) 16 =
    (if spec_aead_tag 8 k (b, p) = drop (length c - 16) c then (0, out) else (-1, zeros (length c - 16)))"
    using False len by (simp add: check_tag_eq length_spec_tag)
  show ?thesis
  proof (cases "D = 1")
    case True
    obtain s where e: "ascon_aead_decrypt_8 P (snp_separator P (if length ad > 0
        then ascon_aead_absorb_8 P (ascon_copy_key_to_x1 MB K P (fst st)) ad 6 True
        else ascon_copy_key_to_x1 MB K P (fst st))) ?m 6 0 = (s, out, of_nat p)" "prep s b" "p < 8"
      using plain.decrypt_8_run[OF start(1)[OF True], of 0 ?m 6] by (auto simp: run)
    show ?thesis
      unfolding ascon80pq_masked_aead_decrypt_def Let_def st if_P[OF True] if_not_P[OF False] e(1) prod.case
        tag(1)[OF e(3) True e(2)] check
      using False by (simp add: spec_aead_decrypt_def run)
  next
    case D1: False
    then have D: "shares MB D" using assms by auto
    obtain st' out' where e: "ascon_masked_aead_decrypt_8 MB D (masked_separator MB (if length ad > 0
      then ascon_masked_aead_absorb_8 MB D st ad 6 else st)) ?m 6 = (st', out')"
      by (rule prod.exhaust)
    from masked_decrypt_8_run[OF D start(2)[OF D1] e] run
    have e': "out' = out" "p < 8" "st_rep D st' (xor_at b p [0x80])" by auto
    show ?thesis
      unfolding ascon80pq_masked_aead_decrypt_def Let_def st if_not_P[OF D1] if_not_P[OF False] e prod.case
        tag(2)[OF e'(2) D1 e'(3)] e'(1) check
      using False by (simp add: spec_aead_decrypt_def run)
  qed
qed (simp add: ascon80pq_masked_aead_decrypt_def)


end


end
