(* ===== verification/Masked_Backends.thy ===== *)
theory Masked_Backends
  imports Snp_Direct_Xor Masked_Word32 Masked_Direct Masked_Aead
begin

text \<open>
  The masked backends of \<open>masking/ascon-masked-backend.h\<close> that are written in C: words of 64 bits,
  words of 32 bits, and bytes, as records of the functions of theories \<open>Masked_Word64\<close>,
  \<open>Masked_Word32\<close> and \<open>Masked_Direct\<close>, with the proof that they satisfy the contracts \<open>masked_word\<close> and \<open>masking\<close> for
  every choice of \<open>ASCON_MASKED_MAX_SHARES\<close> from 2 to 4.
\<close>

section \<open>The backends\<close>

definition mw64_from ::
  "'t rng \<Rightarrow> nat \<Rightarrow> nat \<Rightarrow> u64 list \<Rightarrow> u64 list \<Rightarrow> 't \<Rightarrow> 't \<times> u64 list" where
  "mw64_from R k j =
     (if k = 2 then (if j = 3 then mw64_x2_from_x3 R else mw64_x2_from_x4 R)
      else if k = 3 then (if j = 2 then mw64_x3_from_x2 R else mw64_x3_from_x4 R)
      else (if j = 2 then mw64_x4_from_x2 R else mw64_x4_from_x3 R))"

definition mw32_from ::
  "'t rng \<Rightarrow> nat \<Rightarrow> nat \<Rightarrow> u32 list \<Rightarrow> u32 list \<Rightarrow> 't \<Rightarrow> 't \<times> u32 list" where
  "mw32_from R k j =
     (if k = 2 then (if j = 3 then mw32_x2_from_x3 R else mw32_x2_from_x4 R)
      else if k = 3 then (if j = 2 then mw32_x3_from_x2 R else mw32_x3_from_x4 R)
      else (if j = 2 then mw32_x4_from_x2 R else mw32_x4_from_x3 R))"

definition masked64 :: "'t rng \<Rightarrow> nat \<Rightarrow> (u64 list, 't) masked_backend" where
  "masked64 R mx =
     \<lparr> mb_max = mx, mb_clear = replicate mx 0, mb_ops = mw64 R, mb_from = mw64_from R,
       mb_pad = mw64_pad, mb_separator = mw64_separator, mb_next = next_64 R \<rparr>"

definition masked32 :: "bool \<Rightarrow> 't rng \<Rightarrow> nat \<Rightarrow> (u32 list, 't) masked_backend" where
  "masked32 le R mx =
     \<lparr> mb_max = mx, mb_clear = replicate (2 * mx) 0, mb_ops = mw32 le R, mb_from = mw32_from R,
       mb_pad = mw32_pad, mb_separator = mw32_separator, mb_next = next_64 R \<rparr>"

definition mwd_from ::
  "bool \<Rightarrow> 't rng \<Rightarrow> nat \<Rightarrow> nat \<Rightarrow> bytes \<Rightarrow> bytes \<Rightarrow> 't \<Rightarrow> 't \<times> bytes" where
  "mwd_from le R k j =
     (if k = 2 then (if j = 3 then mwd_x2_from_x3 le R else mwd_x2_from_x4 le R)
      else if k = 3 then (if j = 2 then mwd_x3_from_x2 le R else mwd_x3_from_x4 le R)
      else (if j = 2 then mwd_x4_from_x2 le R else mwd_x4_from_x3 le R))"

definition masked_direct :: "bool \<Rightarrow> 't rng \<Rightarrow> nat \<Rightarrow> (bytes, 't) masked_backend" where
  "masked_direct le R mx =
     \<lparr> mb_max = mx, mb_clear = replicate (8 * mx) 0, mb_ops = mwd le R, mb_from = mwd_from le R,
       mb_pad = mwd_pad, mb_separator = mwd_separator, mb_next = next_64 R \<rparr>"

section \<open>Words of 64 bits\<close>

lemmas mw64_from_defs = mw64_from_def
  mw64_x2_from_x3_def mw64_x2_from_x4_def mw64_x3_from_x2_def
  mw64_x3_from_x4_def mw64_x4_from_x2_def mw64_x4_from_x3_def

lemma mw64_x2_from_x3_value:
  "2 \<le> length w \<Longrightarrow> value64 2 (snd (mw64_x2_from_x3 R w v t)) = value64 3 v"
  by (auto simp: mw64_x2_from_x3_def value64_x2 value64_x3 share_present mask64_bitwise ac_simps
      split: prod.splits)

lemma mw64_x2_from_x4_value:
  "2 \<le> length w \<Longrightarrow> value64 2 (snd (mw64_x2_from_x4 R w v t)) = value64 4 v"
  by (auto simp: mw64_x2_from_x4_def value64_x2 value64_x4 share_present mask64_bitwise ac_simps
      split: prod.splits)

lemma mw64_x3_from_x2_value:
  "3 \<le> length w \<Longrightarrow> value64 3 (snd (mw64_x3_from_x2 R w v t)) = value64 2 v"
  by (auto simp: mw64_x3_from_x2_def value64_x3 value64_x2 share_present mask64_bitwise ac_simps
      split: prod.splits)

lemma mw64_x3_from_x4_value:
  "3 \<le> length w \<Longrightarrow> value64 3 (snd (mw64_x3_from_x4 R w v t)) = value64 4 v"
  by (auto simp: mw64_x3_from_x4_def value64_x3 value64_x4 share_present mask64_bitwise ac_simps
      split: prod.splits)

lemma mw64_x4_from_x2_value:
  "4 \<le> length w \<Longrightarrow> value64 4 (snd (mw64_x4_from_x2 R w v t)) = value64 2 v"
  by (auto simp: mw64_x4_from_x2_def value64_x4 value64_x2 share_present mask64_bitwise ac_simps
      split: prod.splits)

lemma mw64_x4_from_x3_value:
  "4 \<le> length w \<Longrightarrow> value64 4 (snd (mw64_x4_from_x3 R w v t)) = value64 3 v"
  by (auto simp: mw64_x4_from_x3_def value64_x4 value64_x3 share_present mask64_bitwise ac_simps
      split: prod.splits)

lemma value64_simple:
  "2 \<le> k \<Longrightarrow> w \<noteq> [] \<Longrightarrow> value64 k (w[0 := w ! 0 XOR c]) = value64 k w XOR c"
  "\<lbrakk>k \<le> mx; mx \<le> 4; 2 \<le> k\<rbrakk> \<Longrightarrow> value64 k (replicate mx 0) = 0"
  by (simp_all add: value64_def mask64_bitwise ac_simps)

lemma masked_words64:
  assumes "2 \<le> k" "k \<le> mx" "mx \<le> 4"
  shows "masked_word (mw64 R k) (rep64 mx k) (\<lambda>w. length w = mx) k"
proof -
  have shaped: "(\<lambda>w. length w = mx \<and> k \<le> mx) = (\<lambda>w :: u64 list. length w = mx)"
    using assms by auto
  from assms have "k = 2 \<or> k = 3 \<or> k = 4" by linarith
  with mw64_x2_laws[of R mx] mw64_x3_laws[of R mx] mw64_x4_laws[of R mx] show ?thesis
    unfolding shaped[symmetric] by blast
qed

lemma randomize64_first_rep:
  assumes "2 \<le> k" "rep64 mx k w x"
  shows "rep64 mx k (snd (mw64_x2_randomize R w w t)) x"
  using assms by (auto simp: rep64_def value64_def mw64_x2_randomize_def mask64_bitwise ac_simps
      share_present split: prod.splits)

lemma masking64:
  assumes "2 \<le> mx" "mx \<le> 4"
  shows "masking (masked64 R mx) (rep64 mx) (\<lambda>w. length w = mx)"
proof (rule masking.intro)
  show "2 \<le> mb_max (masked64 R mx)" "mb_max (masked64 R mx) \<le> 4"
    using assms by (simp_all add: masked64_def)
  fix k assume "shares (masked64 R mx) k"
  then have k: "2 \<le> k" "k \<le> mx" by (simp_all add: masked64_def)
  then have k': "k = 2 \<or> k = 3 \<or> k = 4" using assms by linarith
  show "masked_word (mb_ops (masked64 R mx) k) (rep64 mx k) (\<lambda>w. length w = mx) k"
    using masked_words64[OF k assms(2)] by (simp add: masked64_def)
  show "rep64 mx k (mb_clear (masked64 R mx)) 0"
    using value64_simple(2)[OF k(2) assms(2) k(1)] k by (simp add: masked64_def rep64_def)
  show "rep64 mx k (snd (mb_from (masked64 R mx) k j w v t)) x"
    if "shares (masked64 R mx) j" "k \<noteq> j" "length w = mx" "rep64 mx j v x" for j w v t x
  proof -
    from that(1) have j: "j = 2 \<or> j = 3 \<or> j = 4" using assms by (auto simp: masked64_def)
    have "length (snd (mw64_from R k j w v t)) = length w"
      by (simp add: mw64_from_defs split: prod.splits)
    with k k' j that show ?thesis
      by (auto simp: masked64_def rep64_def mw64_from_def mw64_x2_from_x3_value mw64_x2_from_x4_value
          mw64_x3_from_x2_value mw64_x3_from_x4_value mw64_x4_from_x2_value mw64_x4_from_x3_value)
  qed
  show "rep64 mx k (mb_pad (masked64 R mx) w off) (x XOR drop_bit (off * 8) 0x8000000000000000)"
    if "rep64 mx k w x" for w x off
    using that k value64_simple(1)[of k w]
    by (auto simp: masked64_def rep64_def mw64_pad_def share_present simp del: drop_bit_numeral_minus_bit1)
  show "rep64 mx k (mb_separator (masked64 R mx) w) (x XOR 1)" if "rep64 mx k w x" for w x
    using that k value64_simple(1)[of k w 1]
    by (auto simp: masked64_def rep64_def mw64_separator_def share_present)
  show "rep64 mx k (snd (mw_randomize (mb_ops (masked64 R mx) 2) w w t)) x"
    if "rep64 mx k w x" for w t x
    using randomize64_first_rep[OF k(1) that] by (simp add: masked64_def mw64_def)
qed

section \<open>Words of 32 bits\<close>

lemmas mw32_from_defs = mw32_from_def
  mw32_x2_from_x3_def mw32_x2_from_x4_def mw32_x3_from_x2_def
  mw32_x3_from_x4_def mw32_x4_from_x2_def mw32_x4_from_x3_def

lemma mw32_x2_from_x3_value:
  assumes "2 * 2 \<le> length w"
  shows "value32 2 (snd (mw32_x2_from_x3 R w v t)) 0 = value32 3 v 0"
    "value32 2 (snd (mw32_x2_from_x3 R w v t)) (Suc 0) = value32 3 v (Suc 0)"
proof -
  have "w \<noteq> []" using assms by auto
  then show "value32 2 (snd (mw32_x2_from_x3 R w v t)) 0 = value32 3 v 0"
    "value32 2 (snd (mw32_x2_from_x3 R w v t)) (Suc 0) = value32 3 v (Suc 0)"
    using assms
    by (simp_all add: mw32_x2_from_x3_def value32_x2 value32_x3 mask32_bitwise ac_simps
        split: prod.splits)
qed

lemma mw32_x2_from_x4_value:
  assumes "2 * 2 \<le> length w"
  shows "value32 2 (snd (mw32_x2_from_x4 R w v t)) 0 = value32 4 v 0"
    "value32 2 (snd (mw32_x2_from_x4 R w v t)) (Suc 0) = value32 4 v (Suc 0)"
proof -
  have "w \<noteq> []" using assms by auto
  then show "value32 2 (snd (mw32_x2_from_x4 R w v t)) 0 = value32 4 v 0"
    "value32 2 (snd (mw32_x2_from_x4 R w v t)) (Suc 0) = value32 4 v (Suc 0)"
    using assms
    by (simp_all add: mw32_x2_from_x4_def value32_x2 value32_x4 mask32_bitwise ac_simps
        split: prod.splits)
qed

lemma mw32_x3_from_x2_value:
  assumes "2 * 3 \<le> length w"
  shows "value32 3 (snd (mw32_x3_from_x2 R w v t)) 0 = value32 2 v 0"
    "value32 3 (snd (mw32_x3_from_x2 R w v t)) (Suc 0) = value32 2 v (Suc 0)"
proof -
  have "w \<noteq> []" using assms by auto
  then show "value32 3 (snd (mw32_x3_from_x2 R w v t)) 0 = value32 2 v 0"
    "value32 3 (snd (mw32_x3_from_x2 R w v t)) (Suc 0) = value32 2 v (Suc 0)"
    using assms
    by (simp_all add: mw32_x3_from_x2_def value32_x3 value32_x2 mask32_bitwise ac_simps
        split: prod.splits)
qed

lemma mw32_x3_from_x4_value:
  assumes "2 * 3 \<le> length w"
  shows "value32 3 (snd (mw32_x3_from_x4 R w v t)) 0 = value32 4 v 0"
    "value32 3 (snd (mw32_x3_from_x4 R w v t)) (Suc 0) = value32 4 v (Suc 0)"
proof -
  have "w \<noteq> []" using assms by auto
  then show "value32 3 (snd (mw32_x3_from_x4 R w v t)) 0 = value32 4 v 0"
    "value32 3 (snd (mw32_x3_from_x4 R w v t)) (Suc 0) = value32 4 v (Suc 0)"
    using assms
    by (simp_all add: mw32_x3_from_x4_def value32_x3 value32_x4 mask32_bitwise ac_simps
        split: prod.splits)
qed

lemma mw32_x4_from_x2_value:
  assumes "2 * 4 \<le> length w"
  shows "value32 4 (snd (mw32_x4_from_x2 R w v t)) 0 = value32 2 v 0"
    "value32 4 (snd (mw32_x4_from_x2 R w v t)) (Suc 0) = value32 2 v (Suc 0)"
proof -
  have "w \<noteq> []" using assms by auto
  then show "value32 4 (snd (mw32_x4_from_x2 R w v t)) 0 = value32 2 v 0"
    "value32 4 (snd (mw32_x4_from_x2 R w v t)) (Suc 0) = value32 2 v (Suc 0)"
    using assms
    by (simp_all add: mw32_x4_from_x2_def value32_x4 value32_x2 mask32_bitwise ac_simps
        split: prod.splits)
qed

lemma mw32_x4_from_x3_value:
  assumes "2 * 4 \<le> length w"
  shows "value32 4 (snd (mw32_x4_from_x3 R w v t)) 0 = value32 3 v 0"
    "value32 4 (snd (mw32_x4_from_x3 R w v t)) (Suc 0) = value32 3 v (Suc 0)"
proof -
  have "w \<noteq> []" using assms by auto
  then show "value32 4 (snd (mw32_x4_from_x3 R w v t)) 0 = value32 3 v 0"
    "value32 4 (snd (mw32_x4_from_x3 R w v t)) (Suc 0) = value32 3 v (Suc 0)"
    using assms
    by (simp_all add: mw32_x4_from_x3_def value32_x4 value32_x3 mask32_bitwise ac_simps
        split: prod.splits)
qed

lemma value32_simple:
  assumes "2 \<le> k" "2 * k \<le> length w"
  shows "value32 k (w[0 := w ! 0 XOR c]) 0 = value32 k w 0 XOR c"
    "value32 k (w[0 := w ! 0 XOR c]) (Suc 0) = value32 k w (Suc 0)"
    "value32 k (w[Suc 0 := w ! Suc 0 XOR c]) (Suc 0) = value32 k w (Suc 0) XOR c"
    "value32 k (w[Suc 0 := w ! Suc 0 XOR c]) 0 = value32 k w 0"
proof -
  have "w \<noteq> []" "Suc 0 < length w" using assms by auto
  then show "value32 k (w[0 := w ! 0 XOR c]) 0 = value32 k w 0 XOR c"
    "value32 k (w[0 := w ! 0 XOR c]) (Suc 0) = value32 k w (Suc 0)"
    "value32 k (w[Suc 0 := w ! Suc 0 XOR c]) (Suc 0) = value32 k w (Suc 0) XOR c"
    "value32 k (w[Suc 0 := w ! Suc 0 XOR c]) 0 = value32 k w 0"
    by (simp_all add: value32_def mask32_bitwise ac_simps)
qed

lemma value32_clear: "\<lbrakk>k \<le> mx; 2 \<le> k; h < 2\<rbrakk> \<Longrightarrow> value32 k (replicate (2 * mx) 0) h = 0"
  by (auto simp: value32_def mask32_bitwise)

lemma masked_words32:
  assumes "2 \<le> k" "k \<le> mx" "mx \<le> 4"
  shows "masked_word (mw32 le R k) (rep32 mx k) (\<lambda>w. length w = 2 * mx) k"
proof -
  have shaped: "(\<lambda>w. length w = 2 * mx \<and> k \<le> mx) = (\<lambda>w :: u32 list. length w = 2 * mx)"
    using assms by auto
  from assms have "k = 2 \<or> k = 3 \<or> k = 4" by linarith
  with mw32_x2_laws[of le R mx] mw32_x3_laws[of le R mx] mw32_x4_laws[of le R mx] show ?thesis
    unfolding shaped[symmetric] by blast
qed

lemma value32_shares:
  "value32 k w 0 = w ! 0 XOR (ascon_mask32_unrotate_share1_0 (w ! 2) XOR
     ((if 3 \<le> k then ascon_mask32_unrotate_share2_0 (w ! 4) else 0) XOR
      (if 4 \<le> k then ascon_mask32_unrotate_share3_0 (w ! 6) else 0)))"
  "value32 k w (Suc 0) = w ! Suc 0 XOR (ascon_mask32_unrotate_share1_0 (w ! 3) XOR
     ((if 3 \<le> k then ascon_mask32_unrotate_share2_0 (w ! 5) else 0) XOR
      (if 4 \<le> k then ascon_mask32_unrotate_share3_0 (w ! 7) else 0)))"
  by (simp_all add: value32_def eval_nat_numeral)

lemma randomize32_first_rep:
  assumes "2 \<le> k" "rep32 mx k w x"
  shows "rep32 mx k (snd (mw32_x2_randomize R w w t)) x"
proof -
  have "w \<noteq> []" "Suc 0 < length w" "2 < length w" "3 < length w" using assms by (auto simp: rep32_def)
  then have "value32 k (snd (mw32_x2_randomize R w w t)) 0 = value32 k w 0"
    "value32 k (snd (mw32_x2_randomize R w w t)) 1 = value32 k w 1"
    by (simp_all add: value32_shares mw32_x2_randomize_def mask32_bitwise ac_simps
        split: prod.splits)
  with assms show ?thesis
    by (simp add: rep32_def) (simp add: mw32_x2_randomize_def split: prod.splits)
qed

lemma masking32:
  assumes "2 \<le> mx" "mx \<le> 4"
  shows "masking (masked32 le R mx) (rep32 mx) (\<lambda>w. length w = 2 * mx)"
proof (rule masking.intro)
  show "2 \<le> mb_max (masked32 le R mx)" "mb_max (masked32 le R mx) \<le> 4"
    using assms by (simp_all add: masked32_def)
  fix k assume "shares (masked32 le R mx) k"
  then have k: "2 \<le> k" "k \<le> mx" by (simp_all add: masked32_def)
  then have k': "k = 2 \<or> k = 3 \<or> k = 4" using assms by linarith
  show "masked_word (mb_ops (masked32 le R mx) k) (rep32 mx k) (\<lambda>w. length w = 2 * mx) k"
    using masked_words32[OF k assms(2)] by (simp add: masked32_def)
  show "rep32 mx k (mb_clear (masked32 le R mx)) 0"
    using value32_clear[OF k(2,1)] k by (simp add: masked32_def rep32_def slice_zero)
  show "rep32 mx k (snd (mb_from (masked32 le R mx) k j w v t)) x"
    if "shares (masked32 le R mx) j" "k \<noteq> j" "length w = 2 * mx" "rep32 mx j v x" for j w v t x
  proof -
    from that(1) have j: "j = 2 \<or> j = 3 \<or> j = 4" using assms by (auto simp: masked32_def)
    have "length (snd (mw32_from R k j w v t)) = length w"
      by (simp add: mw32_from_defs split: prod.splits)
    with k k' j that show ?thesis
      by (auto simp: masked32_def rep32_def mw32_from_def mw32_x2_from_x3_value mw32_x2_from_x4_value
          mw32_x3_from_x2_value mw32_x3_from_x4_value mw32_x4_from_x2_value mw32_x4_from_x3_value)
  qed
  show "rep32 mx k (mb_pad (masked32 le R mx) w off) (x XOR drop_bit (off * 8) 0x8000000000000000)"
    if "rep32 mx k w x" "off < 8" for w x off
  proof -
    have "mb_pad (masked32 le R mx) w off = w[Suc 0 := w ! Suc 0 XOR drop_bit (off * 4) 0x80000000]"
      by (simp add: masked32_def mw32_pad_def)
    with that k value32_simple(3,4)[of k w "drop_bit (off * 4) 0x80000000"] show ?thesis
      by (simp only: rep32_def slice_xor slice_constants length_list_update One_nat_def xor.right_neutral)
  qed
  show "rep32 mx k (mb_separator (masked32 le R mx) w) (x XOR 1)" if "rep32 mx k w x" for w x
    using that k value32_simple(1,2)[of k w 1]
    by (auto simp: masked32_def rep32_def mw32_separator_def slice_xor slice_constants)
  show "rep32 mx k (snd (mw_randomize (mb_ops (masked32 le R mx) 2) w w t)) x"
    if "rep32 mx k w x" for w t x
    using randomize32_first_rep[OF k(1) that] by (simp add: masked32_def mw32_def)
qed

section \<open>Bytes\<close>

lemma direct_value_simple:
  assumes "2 \<le> k" "8 * k \<le> length w" "i < 8" "j < 8"
  shows "direct_value k (w[i := w ! i XOR c]) j = direct_value k w j XOR (if i = j then c else 0)"
  using assms by (auto simp: direct_value_def nth_list_update ac_simps)

lemma masked_words_direct:
  assumes "2 \<le> k" "k \<le> mx" "mx \<le> 4"
  shows "masked_word (mwd le R k) (rep_direct mx k) (\<lambda>w. length w = 8 * mx) k"
proof -
  have shaped: "(\<lambda>w. length w = 8 * mx \<and> k \<le> mx) = (\<lambda>w :: bytes. length w = 8 * mx)"
    using assms by auto
  from assms have "k = 2 \<or> k = 3 \<or> k = 4" by linarith
  with mwd_x2_laws[of le R mx] mwd_x3_laws[of le R mx] mwd_x4_laws[of le R mx] show ?thesis
    unfolding shaped[symmetric] by blast
qed

lemma randomize_direct_first_rep:
  assumes "2 \<le> k" "rep_direct mx k w x"
  shows "rep_direct mx k (snd (mwd_x2_randomize le R w w t)) x"
proof -
  have w: "16 \<le> length w" "length w = 8 * mx" "k \<le> mx" using assms by (auto simp: rep_direct_def)
  note col = fold_columns[OF mwd_x2_column5[of "length w"]]
  have "direct_value k (snd (mwd_x2_randomize le R w w t)) j = direct_value k w j" if "j < 8" for j
    using w assms(1) that
    by (auto simp: mwd_x2_randomize_def case_prod_beta Let_def col direct_value_def place_mod nth_list_update)
      (simp_all add: ac_simps)
  with w assms(2) show ?thesis by (auto simp: rep_direct_def mwd_x2_randomize_value)
qed

lemma masking_direct:
  assumes "2 \<le> mx" "mx \<le> 4"
  shows "masking (masked_direct le R mx) (rep_direct mx) (\<lambda>w. length w = 8 * mx)"
proof (rule masking.intro)
  show "2 \<le> mb_max (masked_direct le R mx)" "mb_max (masked_direct le R mx) \<le> 4"
    using assms by (simp_all add: masked_direct_def)
  fix k assume "shares (masked_direct le R mx) k"
  then have k: "2 \<le> k" "k \<le> mx" by (simp_all add: masked_direct_def)
  then have k': "k = 2 \<or> k = 3 \<or> k = 4" using assms by linarith
  show "masked_word (mb_ops (masked_direct le R mx) k) (rep_direct mx k) (\<lambda>w. length w = 8 * mx) k"
    using masked_words_direct[OF k assms(2)] by (simp add: masked_direct_def)
  show "rep_direct mx k (mb_clear (masked_direct le R mx)) 0"
    using k by (auto simp: masked_direct_def rep_direct_def direct_value_def be_store_zero)
  show "rep_direct mx k (snd (mb_from (masked_direct le R mx) k j w v t)) x"
    if "shares (masked_direct le R mx) j" "k \<noteq> j" "length w = 8 * mx" "rep_direct mx j v x" for j w v t x
  proof -
    from that(1) have j: "j = 2 \<or> j = 3 \<or> j = 4" using assms by (auto simp: masked_direct_def)
    with k k' that show ?thesis
      by (auto simp: masked_direct_def rep_direct_def mwd_from_def mwd_x2_from_x3_value mwd_x2_from_x4_value
          mwd_x3_from_x2_value mwd_x3_from_x4_value mwd_x4_from_x2_value mwd_x4_from_x3_value)
  qed
  show "rep_direct mx k (mb_pad (masked_direct le R mx) w off) (x XOR drop_bit (off * 8) 0x8000000000000000)"
    if "rep_direct mx k w x" "off < 8" for w x off
  proof -
    have "be_store_word64 (x XOR drop_bit (off * 8) 0x8000000000000000) ! j =
        be_store_word64 x ! j XOR (if off = j then 0x80 else 0)" if "j < 8" for j
    proof -
      have "off AND 7 = take_bit 3 off" by (simp add: take_bit_eq_mask mask_eq_exp_minus_1)
      then have "off AND 7 = off" "off mod 8 = off" using \<open>off < 8\<close> by (simp_all add: take_bit_eq_mod)
      with sliced64_pad_byte[of off] that show ?thesis
        by (simp add: be_store_word64_xor nth_xor_bytes nth_list_update del: drop_bit_of_1)
    qed
    with that k show ?thesis
      by (auto simp: masked_direct_def rep_direct_def mwd_pad_def direct_value_simple)
  qed
  show "rep_direct mx k (mb_separator (masked_direct le R mx) w) (x XOR 1)" if "rep_direct mx k w x" for w x
  proof -
    have one: "be_store_word64 1 = [0, 0, 0, 0, 0, 0, 0, 1]" by code_simp
    have "be_store_word64 (x XOR 1) ! j = be_store_word64 x ! j XOR (if 7 = j then 1 else 0)" if "j < 8" for j
    proof -
      from that have "j = 0 \<or> j = 1 \<or> j = 2 \<or> j = 3 \<or> j = 4 \<or> j = 5 \<or> j = 6 \<or> j = 7" by linarith
      then show ?thesis by (auto simp: be_store_word64_xor nth_xor_bytes one)
    qed
    with that k show ?thesis
      by (auto simp: masked_direct_def rep_direct_def mwd_separator_def direct_value_simple)
  qed
  show "rep_direct mx k (snd (mw_randomize (mb_ops (masked_direct le R mx) 2) w w t)) x"
    if "rep_direct mx k w x" for w t x
    using randomize_direct_first_rep[OF k(1) that] by (simp add: masked_direct_def mwd_def)
qed

section \<open>The contracts hold\<close>

text \<open>On the words as the file for each size has them, and on the default configuration, four
  shares, beside the plain backends of the same size.\<close>


interpretation direct_x2: masked_word "mwd le R 2" "rep_direct mx 2" "\<lambda>w. length w = 8 * mx \<and> 2 \<le> mx" 2
  by (rule mwd_x2_laws)

interpretation direct_x3: masked_word "mwd le R 3" "rep_direct mx 3" "\<lambda>w. length w = 8 * mx \<and> 3 \<le> mx" 3
  by (rule mwd_x3_laws)

interpretation direct_x4: masked_word "mwd le R 4" "rep_direct mx 4" "\<lambda>w. length w = 8 * mx \<and> 4 \<le> mx" 4
  by (rule mwd_x4_laws)

interpretation word64_x2: masked_word "mw64 R 2" "rep64 mx 2" "\<lambda>w. length w = mx \<and> 2 \<le> mx" 2
  by (rule mw64_x2_laws)

interpretation word64_x3: masked_word "mw64 R 3" "rep64 mx 3" "\<lambda>w. length w = mx \<and> 3 \<le> mx" 3
  by (rule mw64_x3_laws)

interpretation word64_x4: masked_word "mw64 R 4" "rep64 mx 4" "\<lambda>w. length w = mx \<and> 4 \<le> mx" 4
  by (rule mw64_x4_laws)

interpretation word32_x2: masked_word "mw32 le R 2" "rep32 mx 2" "\<lambda>w. length w = 2 * mx \<and> 2 \<le> mx" 2
  by (rule mw32_x2_laws)

interpretation word32_x3: masked_word "mw32 le R 3" "rep32 mx 3" "\<lambda>w. length w = 2 * mx \<and> 3 \<le> mx" 3
  by (rule mw32_x3_laws)

interpretation word32_x4: masked_word "mw32 le R 4" "rep32 mx 4" "\<lambda>w. length w = 2 * mx \<and> 4 \<le> mx" 4
  by (rule mw32_x4_laws)

lemma masking_plain64:
  assumes "2 \<le> mx" "mx \<le> 4" "snp_laws P prep"
  shows "masking_plain (masked64 R mx) (rep64 mx) (\<lambda>w. length w = mx) P prep"
  using masking64[OF assms(1,2), of R] assms(3) by (simp add: masking_plain_def)

lemma masking_plain32:
  assumes "2 \<le> mx" "mx \<le> 4" "snp_laws P prep"
  shows "masking_plain (masked32 le R mx) (rep32 mx) (\<lambda>w. length w = 2 * mx) P prep"
  using masking32[OF assms(1,2), of le R] assms(3) by (simp add: masking_plain_def)

lemma masking_plain_direct:
  assumes "2 \<le> mx" "mx \<le> 4" "snp_laws P prep"
  shows "masking_plain (masked_direct le R mx) (rep_direct mx) (\<lambda>w. length w = 8 * mx) P prep"
  using masking_direct[OF assms(1,2), of le R] assms(3) by (simp add: masking_plain_def)

interpretation default64: masking_plain "masked64 R 4" "rep64 4" "\<lambda>w. length w = 4" "sliced64 le" rep_sliced64
  by (rule masking_plain64) (simp_all add: sliced64.snp_laws_axioms)

interpretation default32: masking_plain "masked32 le R 4" "rep32 4" "\<lambda>w. length w = 2 * 4" sliced32 rep_sliced32
  by (rule masking_plain32) (simp_all add: sliced32.snp_laws_axioms)

text \<open>On AVR, the only user of the byte words, three shares at most.\<close>

interpretation avr: masking_plain "masked_direct True R 3" "rep_direct 3" "\<lambda>w. length w = 8 * 3" direct_xor rep_direct_xor
  by (rule masking_plain_direct) (simp_all add: direct_xor.snp_laws_axioms)

end
