(* ===== verification/Masked_Properties.thy ===== *)
theory Masked_Properties
  imports Masked_Backends
begin

text \<open>
  The properties of the masked implementation: the permutations on shares, keys, states, the
  masked modes against the plain ones, and what masking is for, that all shares but one of a
  freshly masked word carry no information on the word.
\<close>

text \<open>A generator that returns the words of a list.\<close>

definition list_rng :: "u64 list rng" where
  "list_rng = \<lparr> next_64 = (\<lambda>t. (tl t, hd t)), next_32 = (\<lambda>t. (tl t, ucast (hd t))) \<rparr>"

section \<open>Permutations\<close>

text \<open>Property C7. The masked permutations on 64-bit shares, with two, three and four shares: whatever
  the words preserved from the previous call, the words that the shares stand for afterwards are
  those that the plain permutation makes of the words that the shares stood for.\<close>

theorem masked_permute_c64:
  assumes "k \<in> {2, 3, 4}" "k \<le> mx" "mx \<le> 4" "length ws = 5" "\<forall>w\<in>set ws. length w = mx"
    "length preserve = k - 1"
  shows "map (value64 k) (fst (mw_permute (mw64 R k) ws first_round preserve)) =
    ascon_permute_c64 (map (value64 k) ws) first_round"
proof -
  have M: "masked_word (mw64 R k) (rep64 mx k) (\<lambda>w. length w = mx) k"
    by (rule masked_words64) (use assms in auto)
  have "list_all2 (rep64 mx k) ws (map (value64 k) ws)"
    using assms by (auto simp: list_all2_conv_all_nth rep64_def)
  from masked_word.rep_permute[OF M this, of preserve first_round] assms show ?thesis
    by (auto simp: list_all2_conv_all_nth rep64_def intro!: nth_equalityI)
qed

theorem masked_permute_c64_witness:
  "map (value64 3) (fst (mw_permute (mw64 list_rng 3) (replicate 5 [1, 2, 3]) 4 [5, 6])) =
     ascon_permute_c64 (map (value64 3) (replicate 5 [1, 2, 3])) 4"
  by (rule masked_permute_c64[of 3 3]) simp_all

text \<open>The same on 32-bit shares of the bit-sliced words, of which there is a pair for each
  word: the even and the odd bits.\<close>

theorem masked_permute_c32:
  assumes "k \<in> {2, 3, 4}" "k \<le> mx" "mx \<le> 4" "length ws = 5" "\<forall>w\<in>set ws. length w = 2 * mx"
    "length xs = 5"
    "\<forall>i<5. value32 k (ws ! i) 0 = even_bits (xs ! i) \<and> value32 k (ws ! i) 1 = odd_bits (xs ! i)"
    "length preserve = k - 1"
  shows "\<forall>i<5.
    value32 k (fst (mw_permute (mw32 le R k) ws first_round preserve) ! i) 0 =
      even_bits (ascon_permute_c64 xs first_round ! i) \<and>
    value32 k (fst (mw_permute (mw32 le R k) ws first_round preserve) ! i) 1 =
      odd_bits (ascon_permute_c64 xs first_round ! i)"
proof -
  have M: "masked_word (mw32 le R k) (rep32 mx k) (\<lambda>w. length w = 2 * mx) k"
    by (rule masked_words32) (use assms in auto)
  have "list_all2 (rep32 mx k) ws xs"
    using assms by (auto simp: list_all2_conv_all_nth rep32_def)
  from masked_word.rep_permute[OF M this, of preserve first_round] assms show ?thesis
    by (auto simp: list_all2_conv_all_nth rep32_def length_permute_c64)
qed

theorem masked_permute_c32_witness:
  "let ws = fst (mw_permute (mw32 True list_rng 2) (replicate 5 [0, 0, 0, 0]) 6 [5])
   in map (\<lambda>i. (value32 2 (ws ! i) 0, value32 2 (ws ! i) 1)) [0..<5] =
      map (\<lambda>i. (even_bits (ascon_permute_c64 (replicate 5 0) 6 ! i), odd_bits (ascon_permute_c64 (replicate 5 0) 6 ! i)))
        [0..<5]"
  unfolding Let_def map_eq_conv atLeast_upt[symmetric] lessThan_iff
  using masked_permute_c32[of 2 2 "replicate 5 [0, 0, 0, 0]" "replicate 5 0" "[5]" True list_rng 6]
  by (simp add: value32_x2 mask32_bitwise slice_zero)

section \<open>Keys and states\<close>

text \<open>A key masked with any number of shares, by either backend, randomised again and
  unmasked, is the key, of 128 or 160 bits, whatever the generator returns.\<close>

theorem masked_key_roundtrip:
  assumes "2 \<le> K" "K \<le> mx" "mx \<le> 4" "length key = 16" "length key' = 20"
    "length m64 = 2" "\<forall>w\<in>set m64. length w = mx" "length m32 = 2" "\<forall>w\<in>set m32. length w = 2 * mx"
    "length n64 = 6" "\<forall>w\<in>set n64. length w = mx" "length n32 = 6" "\<forall>w\<in>set n32. length w = 2 * mx"
  shows "ascon_masked_key_128_extract (masked64 R mx) K (ascon_masked_key_128_randomize (masked64 R mx) K
      (ascon_masked_key_128_init (masked64 R mx) K m64 key t) t') = key \<and>
    ascon_masked_key_128_extract (masked32 le R mx) K (ascon_masked_key_128_randomize (masked32 le R mx) K
      (ascon_masked_key_128_init (masked32 le R mx) K m32 key t) t') = key \<and>
    ascon_masked_key_160_extract (masked64 R mx) K (ascon_masked_key_160_randomize (masked64 R mx) K
      (ascon_masked_key_160_init (masked64 R mx) K n64 key' t) t') = key' \<and>
    ascon_masked_key_160_extract (masked32 le R mx) K (ascon_masked_key_160_randomize (masked32 le R mx) K
      (ascon_masked_key_160_init (masked32 le R mx) K n32 key' t) t') = key'"
proof -
  have mx: "2 \<le> mx" using assms by simp
  note M = masking64[OF mx assms(3), of R] and N = masking32[OF mx assms(3), of le R]
  have K: "shares (masked64 R mx) K" "shares (masked32 le R mx) K"
    using assms by (simp_all add: masked64_def masked32_def)
  show ?thesis
    using masking.key_128_extract_eq[OF M K(1) masking.key_128_randomize_rep[OF M K(1)
        masking.key_128_init_rep[OF M K(1)]]]
      masking.key_128_extract_eq[OF N K(2) masking.key_128_randomize_rep[OF N K(2)
        masking.key_128_init_rep[OF N K(2)]]]
      masking.key_160_extract_eq[OF M K(1) masking.key_160_randomize_rep[OF M K(1)
        masking.key_160_init_rep[OF M K(1)]]]
      masking.key_160_extract_eq[OF N K(2) masking.key_160_randomize_rep[OF N K(2)
        masking.key_160_init_rep[OF N K(2)]]] assms
    by (simp add: list_all_iff)
qed

theorem masked_key_roundtrip_witness:
  "ascon_masked_key_128_extract (masked64 list_rng 2) 2 (ascon_masked_key_128_randomize (masked64 list_rng 2) 2
      (ascon_masked_key_128_init (masked64 list_rng 2) 2 [[0, 0], [0, 0]] (zeros 16) [1, 2]) [3, 4]) = zeros 16 \<and>
    ascon_masked_key_128_extract (masked32 True list_rng 2) 2 (ascon_masked_key_128_randomize (masked32 True list_rng 2) 2
      (ascon_masked_key_128_init (masked32 True list_rng 2) 2 (replicate 2 [0, 0, 0, 0]) (zeros 16) [1, 2]) [3, 4]) = zeros 16 \<and>
    ascon_masked_key_160_extract (masked64 list_rng 2) 2 (ascon_masked_key_160_randomize (masked64 list_rng 2) 2
      (ascon_masked_key_160_init (masked64 list_rng 2) 2 (replicate 6 [0, 0]) (zeros 20) [1, 2]) [3, 4]) = zeros 20 \<and>
    ascon_masked_key_160_extract (masked32 True list_rng 2) 2 (ascon_masked_key_160_randomize (masked32 True list_rng 2) 2
      (ascon_masked_key_160_init (masked32 True list_rng 2) 2 (replicate 6 [0, 0, 0, 0]) (zeros 20) [1, 2]) [3, 4]) = zeros 20"
  by (rule masked_key_roundtrip) simp_all

lemma rep_sliced64_unique:
  assumes "rep_sliced64 S b" "rep_sliced64 S' b"
  shows "S = S'"
  using rep_sliced64_words[OF assms(1)] rep_sliced64_words[OF assms(2)] by simp

text \<open>A plain state, masked with \<open>K\<close> shares, converted to \<open>D\<close> shares and back as the modes
  do between the two permutations with the key, and unmasked, is the same state; for 64-bit and
  for 32-bit shares, whatever the generator returns.\<close>

theorem masked_state_roundtrip:
  assumes "2 \<le> D" "D \<le> K" "K \<le> mx" "mx \<le> 4" "length S = 5"
    "length m64 = 5" "\<forall>w\<in>set m64. length w = mx" "length m32 = 5" "\<forall>w\<in>set m32. length w = 2 * mx"
    "MB = masked64 R mx" "MC = masked32 le R mx" "P = sliced64 le"
  shows "ascon_copy_key_to_x1 MB K P (snd (ascon_copy_key_from MB K D
      (snd (ascon_copy_key_to MB K D (snd (ascon_copy_key_from_x1 MB K P S m64 t)) t')) t'')) = S \<and>
    ascon_copy_key_to_x1 MC K P (snd (ascon_copy_key_from MC K D
      (snd (ascon_copy_key_to MC K D (snd (ascon_copy_key_from_x1 MC K P S m32 t)) t')) t'')) = S"
proof -
  have mx: "2 \<le> mx" using assms by simp
  have snp: "snp_laws P rep_sliced64" unfolding assms(12) by (rule sliced64.snp_laws_axioms)
  note M = masking_plain64[OF mx assms(4) snp, of R, folded assms(10)]
    and N = masking_plain32[OF mx assms(4) snp, of le R, folded assms(11)]
  have K: "shares MB K" "shares MC K"
    using assms by (simp_all add: masked64_def masked32_def)
  have S: "rep_sliced64 S (concat (map be_store_word64 S))"
    using assms(5) by (simp add: rep_sliced64_def)
  show ?thesis
    using rep_sliced64_unique[OF masking_plain.x1_roundtrip_rep[OF M K(1) assms(1,2) assms(6) _ S] S]
      rep_sliced64_unique[OF masking_plain.x1_roundtrip_rep[OF N K(2) assms(1,2) assms(8) _ S] S]
      assms(7,9)
    by (simp add: list_all_iff)
qed

theorem masked_state_roundtrip_witness:
  "ascon_copy_key_to_x1 (masked64 list_rng 3) 3 (sliced64 True) (snd (ascon_copy_key_from (masked64 list_rng 3) 3 2
      (snd (ascon_copy_key_to (masked64 list_rng 3) 3 2 (snd (ascon_copy_key_from_x1 (masked64 list_rng 3) 3
        (sliced64 True) [1, 2, 3, 4, 5] (replicate 5 [0, 0, 0]) [6]))  [7])) [8])) = [1, 2, 3, 4, 5] \<and>
    ascon_copy_key_to_x1 (masked32 True list_rng 3) 3 (sliced64 True) (snd (ascon_copy_key_from (masked32 True list_rng 3) 3 2
      (snd (ascon_copy_key_to (masked32 True list_rng 3) 3 2 (snd (ascon_copy_key_from_x1 (masked32 True list_rng 3) 3
        (sliced64 True) [1, 2, 3, 4, 5] (replicate 5 [0, 0, 0, 0, 0, 0]) [6])) [7])) [8])) = [1, 2, 3, 4, 5]"
  by (rule masked_state_roundtrip[OF _ _ _ _ _ _ _ _ _ refl refl refl]) simp_all

section \<open>The modes\<close>

text \<open>Property C3. \<open>ASCON-128\<close> and \<open>ASCON-128a\<close> masked, with any number of shares of the key and at most as
  many of the data (one included), on 64-bit shares: with the key masked by the library, encryption
  returns what the plain mode returns, and decryption returns the result code and the plaintext
  that the plain mode returns, for every input and whatever the generator returns.\<close>

theorem masked_aead_64:
  assumes "2 \<le> K" "K \<le> mx" "mx \<le> 4" "1 \<le> D" "D \<le> K" "length key = 16" "length npub = 16"
    "length masked = 2" "\<forall>w\<in>set masked. length w = mx" "length word = mx"
    "MB = masked64 R mx" "P = sliced64 le" "k = ascon_masked_key_128_init MB K masked key t"
  shows "ascon128_masked_aead_encrypt MB K D P m ad npub k word t' = ascon128_aead_encrypt P m ad npub key \<and>
    ascon128_masked_aead_decrypt MB K D P c ad npub k word t' = ascon128_aead_decrypt P c ad npub key \<and>
    ascon128a_masked_aead_encrypt MB K D P m ad npub k word t' = ascon128a_aead_encrypt P m ad npub key \<and>
    ascon128a_masked_aead_decrypt MB K D P c ad npub k word t' = ascon128a_aead_decrypt P c ad npub key"
proof -
  have mx: "2 \<le> mx" using assms by simp
  have snp: "snp_laws P rep_sliced64" unfolding assms(12) by (rule sliced64.snp_laws_axioms)
  note M = masking_plain64[OF mx assms(3) snp, of R, folded assms(11)]
  note m = masking_plain.axioms(1)[OF M]
  have K: "shares MB K" using assms by (simp add: masked64_def)
  have k: "key128_masked (rep64 mx K) k key"
    unfolding assms(13) by (rule masking.key_128_init_rep[OF m K]) (use assms in \<open>auto simp: list_all_iff\<close>)
  show ?thesis
    unfolding masking_plain.ascon128_masked_aead_encrypt_spec[OF M K k assms(10,7,4,5)]
      masking_plain.ascon128_masked_aead_decrypt_spec[OF M K k assms(10,7,4,5)]
      masking_plain.ascon128a_masked_aead_encrypt_spec[OF M K k assms(10,7,4,5)]
      masking_plain.ascon128a_masked_aead_decrypt_spec[OF M K k assms(10,7,4,5)]
      snp_laws.ascon128_encrypt_spec[OF snp assms(6,7)] snp_laws.ascon128_decrypt_spec[OF snp assms(6,7)]
      snp_laws.ascon128a_encrypt_spec[OF snp assms(6,7)] snp_laws.ascon128a_decrypt_spec[OF snp assms(6,7)]
    by simp
qed

theorem masked_aead_64_witness:
  "let MB = masked64 list_rng 4; P = sliced64 True;
       k = ascon_masked_key_128_init MB 4 (replicate 2 [0, 0, 0, 0]) (zeros 16) [1, 2, 3, 4, 5, 6] in
     ascon128_masked_aead_encrypt MB 4 2 P [7] [] (zeros 16) k [0, 0, 0, 0] [8] = ascon128_aead_encrypt P [7] [] (zeros 16) (zeros 16) \<and>
     ascon128_masked_aead_decrypt MB 4 2 P (zeros 17) [] (zeros 16) k [0, 0, 0, 0] [8] = ascon128_aead_decrypt P (zeros 17) [] (zeros 16) (zeros 16) \<and>
     ascon128a_masked_aead_encrypt MB 4 2 P [7] [] (zeros 16) k [0, 0, 0, 0] [8] = ascon128a_aead_encrypt P [7] [] (zeros 16) (zeros 16) \<and>
     ascon128a_masked_aead_decrypt MB 4 2 P (zeros 17) [] (zeros 16) k [0, 0, 0, 0] [8] = ascon128a_aead_decrypt P (zeros 17) [] (zeros 16) (zeros 16)"
  unfolding Let_def by (rule masked_aead_64[OF _ _ _ _ _ _ _ _ _ _ refl refl refl]) simp_all

text \<open>The same on 32-bit shares, with the bit-sliced 32-bit backend for the plain state, and
  for \<open>ASCON-80pq\<close> on both sizes of shares, with the key randomised once in between.\<close>

theorem masked_aead_32_and_80pq:
  assumes "2 \<le> K" "K \<le> mx" "mx \<le> 4" "1 \<le> D" "D \<le> K" "length npub = 16" "length key = 16" "length key' = 20"
    "length masked = 2" "\<forall>w\<in>set masked. length w = 2 * mx" "length word = 2 * mx"
    "length n64 = 6" "\<forall>w\<in>set n64. length w = mx" "length w64 = mx"
    "length n32 = 6" "\<forall>w\<in>set n32. length w = 2 * mx"
    "MB = masked64 R mx" "MC = masked32 le R mx" "k = ascon_masked_key_128_init MC K masked key t"
    "k64 = ascon_masked_key_160_randomize MB K (ascon_masked_key_160_init MB K n64 key' t) t1"
    "k32 = ascon_masked_key_160_randomize MC K (ascon_masked_key_160_init MC K n32 key' t) t1"
  shows "ascon128_masked_aead_encrypt MC K D sliced32 m ad npub k word t' = ascon128_aead_encrypt sliced32 m ad npub key \<and>
    ascon128_masked_aead_decrypt MC K D sliced32 c ad npub k word t' = ascon128_aead_decrypt sliced32 c ad npub key \<and>
    ascon128a_masked_aead_encrypt MC K D sliced32 m ad npub k word t' = ascon128a_aead_encrypt sliced32 m ad npub key \<and>
    ascon128a_masked_aead_decrypt MC K D sliced32 c ad npub k word t' = ascon128a_aead_decrypt sliced32 c ad npub key \<and>
    ascon80pq_masked_aead_encrypt MC K D sliced32 m ad npub k32 word t' = ascon80pq_aead_encrypt sliced32 m ad npub key' \<and>
    ascon80pq_masked_aead_decrypt MC K D sliced32 c ad npub k32 word t' = ascon80pq_aead_decrypt sliced32 c ad npub key' \<and>
    ascon80pq_masked_aead_encrypt MB K D (sliced64 le) m ad npub k64 w64 t' = ascon80pq_aead_encrypt (sliced64 le) m ad npub key' \<and>
    ascon80pq_masked_aead_decrypt MB K D (sliced64 le) c ad npub k64 w64 t' = ascon80pq_aead_decrypt (sliced64 le) c ad npub key'"
proof -
  have mx: "2 \<le> mx" using assms by simp
  note snp = sliced64.snp_laws_axioms[of le] and snp' = sliced32.snp_laws_axioms
  note M = masking_plain64[OF mx assms(3) snp, of R, folded assms(17)]
    and N = masking_plain32[OF mx assms(3) snp', of le R, folded assms(18)]
  note m = masking_plain.axioms(1)[OF M] and n = masking_plain.axioms(1)[OF N]
  have K: "shares MB K" "shares MC K" using assms by (simp_all add: masked64_def masked32_def)
  have k: "key128_masked (rep32 mx K) k key"
    unfolding assms(19) by (rule masking.key_128_init_rep[OF n K(2)]) (use assms in \<open>auto simp: list_all_iff\<close>)
  have k64: "key160_masked (rep64 mx K) k64 key'"
    unfolding assms(20) by (rule masking.key_160_randomize_rep[OF m K(1)], rule masking.key_160_init_rep[OF m K(1)])
      (use assms in \<open>auto simp: list_all_iff\<close>)
  have k32: "key160_masked (rep32 mx K) k32 key'"
    unfolding assms(21) by (rule masking.key_160_randomize_rep[OF n K(2)], rule masking.key_160_init_rep[OF n K(2)])
      (use assms in \<open>auto simp: list_all_iff\<close>)
  show ?thesis
    unfolding masking_plain.ascon128_masked_aead_encrypt_spec[OF N K(2) k assms(11,6,4,5)]
      masking_plain.ascon128_masked_aead_decrypt_spec[OF N K(2) k assms(11,6,4,5)]
      masking_plain.ascon128a_masked_aead_encrypt_spec[OF N K(2) k assms(11,6,4,5)]
      masking_plain.ascon128a_masked_aead_decrypt_spec[OF N K(2) k assms(11,6,4,5)]
      masking_plain.ascon80pq_masked_aead_encrypt_spec[OF N K(2) k32 assms(11,6,4,5)]
      masking_plain.ascon80pq_masked_aead_decrypt_spec[OF N K(2) k32 assms(11,6,4,5)]
      masking_plain.ascon80pq_masked_aead_encrypt_spec[OF M K(1) k64 assms(14,6,4,5)]
      masking_plain.ascon80pq_masked_aead_decrypt_spec[OF M K(1) k64 assms(14,6,4,5)]
      snp_laws.ascon128_encrypt_spec[OF snp' assms(7,6)] snp_laws.ascon128_decrypt_spec[OF snp' assms(7,6)]
      snp_laws.ascon128a_encrypt_spec[OF snp' assms(7,6)] snp_laws.ascon128a_decrypt_spec[OF snp' assms(7,6)]
      snp_laws.ascon80pq_encrypt_spec[OF snp' assms(8,6)] snp_laws.ascon80pq_decrypt_spec[OF snp' assms(8,6)]
      snp_laws.ascon80pq_encrypt_spec[OF snp assms(8,6)] snp_laws.ascon80pq_decrypt_spec[OF snp assms(8,6)]
    by simp
qed

theorem masked_aead_32_and_80pq_witness:
  "let MB = masked64 list_rng 2; MC = masked32 True list_rng 2;
       k = ascon_masked_key_128_init MC 2 (replicate 2 [0, 0, 0, 0]) (zeros 16) [1, 2, 3, 4];
       k64 = ascon_masked_key_160_randomize MB 2
         (ascon_masked_key_160_init MB 2 (replicate 6 [0, 0]) (zeros 20) [1, 2, 3, 4]) [5];
       k32 = ascon_masked_key_160_randomize MC 2
         (ascon_masked_key_160_init MC 2 (replicate 6 [0, 0, 0, 0]) (zeros 20) [1, 2, 3, 4]) [5] in
     ascon128_masked_aead_encrypt MC 2 1 sliced32 [7] [] (zeros 16) k [0, 0, 0, 0] [8] = ascon128_aead_encrypt sliced32 [7] [] (zeros 16) (zeros 16) \<and>
     ascon128_masked_aead_decrypt MC 2 1 sliced32 (zeros 17) [] (zeros 16) k [0, 0, 0, 0] [8] = ascon128_aead_decrypt sliced32 (zeros 17) [] (zeros 16) (zeros 16) \<and>
     ascon128a_masked_aead_encrypt MC 2 1 sliced32 [7] [] (zeros 16) k [0, 0, 0, 0] [8] = ascon128a_aead_encrypt sliced32 [7] [] (zeros 16) (zeros 16) \<and>
     ascon128a_masked_aead_decrypt MC 2 1 sliced32 (zeros 17) [] (zeros 16) k [0, 0, 0, 0] [8] = ascon128a_aead_decrypt sliced32 (zeros 17) [] (zeros 16) (zeros 16) \<and>
     ascon80pq_masked_aead_encrypt MC 2 1 sliced32 [7] [] (zeros 16) k32 [0, 0, 0, 0] [8] = ascon80pq_aead_encrypt sliced32 [7] [] (zeros 16) (zeros 20) \<and>
     ascon80pq_masked_aead_decrypt MC 2 1 sliced32 (zeros 17) [] (zeros 16) k32 [0, 0, 0, 0] [8] = ascon80pq_aead_decrypt sliced32 (zeros 17) [] (zeros 16) (zeros 20) \<and>
     ascon80pq_masked_aead_encrypt MB 2 1 (sliced64 True) [7] [] (zeros 16) k64 [0, 0] [8] = ascon80pq_aead_encrypt (sliced64 True) [7] [] (zeros 16) (zeros 20) \<and>
     ascon80pq_masked_aead_decrypt MB 2 1 (sliced64 True) (zeros 17) [] (zeros 16) k64 [0, 0] [8] = ascon80pq_aead_decrypt (sliced64 True) (zeros 17) [] (zeros 16) (zeros 20)"
  unfolding Let_def
  by (rule masked_aead_32_and_80pq[OF _ _ _ _ _ _ _ _ _ _ _ _ _ _ _ _ refl refl refl refl refl]) simp_all

text \<open>The same on bytes, the representation of the 8-bit machines, with the byte-array
  backend for the plain state, in all three modes.\<close>

theorem masked_aead_direct:
  assumes "2 \<le> K" "K \<le> mx" "mx \<le> 4" "1 \<le> D" "D \<le> K" "length npub = 16" "length key = 16" "length key' = 20"
    "length masked = 2" "\<forall>w\<in>set masked. length w = 8 * mx" "length word = 8 * mx"
    "length masked' = 6" "\<forall>w\<in>set masked'. length w = 8 * mx"
    "MB = masked_direct le R mx" "k = ascon_masked_key_128_init MB K masked key t"
    "k' = ascon_masked_key_160_randomize MB K (ascon_masked_key_160_init MB K masked' key' t) t1"
  shows "ascon128_masked_aead_encrypt MB K D direct_xor m ad npub k word t' = ascon128_aead_encrypt direct_xor m ad npub key \<and>
    ascon128_masked_aead_decrypt MB K D direct_xor c ad npub k word t' = ascon128_aead_decrypt direct_xor c ad npub key \<and>
    ascon128a_masked_aead_encrypt MB K D direct_xor m ad npub k word t' = ascon128a_aead_encrypt direct_xor m ad npub key \<and>
    ascon128a_masked_aead_decrypt MB K D direct_xor c ad npub k word t' = ascon128a_aead_decrypt direct_xor c ad npub key \<and>
    ascon80pq_masked_aead_encrypt MB K D direct_xor m ad npub k' word t' = ascon80pq_aead_encrypt direct_xor m ad npub key' \<and>
    ascon80pq_masked_aead_decrypt MB K D direct_xor c ad npub k' word t' = ascon80pq_aead_decrypt direct_xor c ad npub key'"
proof -
  have mx: "2 \<le> mx" using assms by simp
  note snp = direct_xor.snp_laws_axioms
  note M = masking_plain_direct[OF mx assms(3) snp, of le R, folded assms(14)]
  note m = masking_plain.axioms(1)[OF M]
  have K: "shares MB K" using assms by (simp add: masked_direct_def)
  have k: "key128_masked (rep_direct mx K) k key"
    unfolding assms(15) by (rule masking.key_128_init_rep[OF m K]) (use assms in \<open>auto simp: list_all_iff\<close>)
  have k': "key160_masked (rep_direct mx K) k' key'"
    unfolding assms(16) by (rule masking.key_160_randomize_rep[OF m K], rule masking.key_160_init_rep[OF m K])
      (use assms in \<open>auto simp: list_all_iff\<close>)
  show ?thesis
    unfolding masking_plain.ascon128_masked_aead_encrypt_spec[OF M K k assms(11,6,4,5)]
      masking_plain.ascon128_masked_aead_decrypt_spec[OF M K k assms(11,6,4,5)]
      masking_plain.ascon128a_masked_aead_encrypt_spec[OF M K k assms(11,6,4,5)]
      masking_plain.ascon128a_masked_aead_decrypt_spec[OF M K k assms(11,6,4,5)]
      masking_plain.ascon80pq_masked_aead_encrypt_spec[OF M K k' assms(11,6,4,5)]
      masking_plain.ascon80pq_masked_aead_decrypt_spec[OF M K k' assms(11,6,4,5)]
      snp_laws.ascon128_encrypt_spec[OF snp assms(7,6)] snp_laws.ascon128_decrypt_spec[OF snp assms(7,6)]
      snp_laws.ascon128a_encrypt_spec[OF snp assms(7,6)] snp_laws.ascon128a_decrypt_spec[OF snp assms(7,6)]
      snp_laws.ascon80pq_encrypt_spec[OF snp assms(8,6)] snp_laws.ascon80pq_decrypt_spec[OF snp assms(8,6)]
    by simp
qed

theorem masked_aead_direct_witness:
  "let MB = masked_direct False list_rng 3;
       k = ascon_masked_key_128_init MB 3 (replicate 2 (zeros 24)) (zeros 16) [1, 2, 3, 4];
       k' = ascon_masked_key_160_randomize MB 3
              (ascon_masked_key_160_init MB 3 (replicate 6 (zeros 24)) (zeros 20) [1, 2, 3, 4]) [5, 6] in
     ascon128_masked_aead_encrypt MB 3 2 direct_xor [7] [] (zeros 16) k (zeros 24) [8] = ascon128_aead_encrypt direct_xor [7] [] (zeros 16) (zeros 16) \<and>
     ascon128_masked_aead_decrypt MB 3 2 direct_xor (zeros 17) [] (zeros 16) k (zeros 24) [8] = ascon128_aead_decrypt direct_xor (zeros 17) [] (zeros 16) (zeros 16) \<and>
     ascon128a_masked_aead_encrypt MB 3 2 direct_xor [7] [] (zeros 16) k (zeros 24) [8] = ascon128a_aead_encrypt direct_xor [7] [] (zeros 16) (zeros 16) \<and>
     ascon128a_masked_aead_decrypt MB 3 2 direct_xor (zeros 17) [] (zeros 16) k (zeros 24) [8] = ascon128a_aead_decrypt direct_xor (zeros 17) [] (zeros 16) (zeros 16) \<and>
     ascon80pq_masked_aead_encrypt MB 3 2 direct_xor [7] [] (zeros 16) k' (zeros 24) [8] = ascon80pq_aead_encrypt direct_xor [7] [] (zeros 16) (zeros 20) \<and>
     ascon80pq_masked_aead_decrypt MB 3 2 direct_xor (zeros 17) [] (zeros 16) k' (zeros 24) [8] = ascon80pq_aead_decrypt direct_xor (zeros 17) [] (zeros 16) (zeros 20)"
  unfolding Let_def
  by (rule masked_aead_direct[OF _ _ _ _ _ _ _ _ _ _ _ _ _ refl refl refl]) simp_all

section \<open>What masking hides\<close>

text \<open>The shares of a masked word but one.\<close>

definition other_shares :: "nat \<Rightarrow> nat \<Rightarrow> u64 list \<Rightarrow> u64 list" where
  "other_shares k i w = take i w @ drop (Suc i) (take k w)"

lemma rotate_shares_inj:
  "ascon_mask64_rotate_share1_0 d x = ascon_mask64_rotate_share1_0 d y \<longleftrightarrow> x = y"
  "ascon_mask64_rotate_share2_0 d x = ascon_mask64_rotate_share2_0 d y \<longleftrightarrow> x = y"
  "ascon_mask64_rotate_share3_0 d x = ascon_mask64_rotate_share3_0 d y \<longleftrightarrow> x = y"
  by (metis mask64_positions)+

lemma xor_cancels:
  fixes x y c :: u64
  shows "x XOR c = y XOR c \<longleftrightarrow> x = y" "c XOR x = c XOR y \<longleftrightarrow> x = y"
proof -
  have "x = (x XOR c) XOR c" "y = (y XOR c) XOR c" by (simp_all add: xor.assoc)
  then show "x XOR c = y XOR c \<longleftrightarrow> x = y" by metis
  then show "c XOR x = c XOR y \<longleftrightarrow> x = y" by (simp add: xor.commute)
qed

text \<open>The shares explicitly.\<close>

lemma load_shares:
  "snd (mw_load (mw64 list_rng 2) [w0, w1, w2, w3] data [r]) =
     [r XOR be_load_word64 data, ascon_mask64_rotate_share1_0 False r, 0, 0]"
  "snd (mw_load (mw64 list_rng 3) [w0, w1, w2, w3] data [r, r']) =
     [(r XOR r') XOR be_load_word64 data, ascon_mask64_rotate_share1_0 False r,
      ascon_mask64_rotate_share2_0 False r', 0]"
  "snd (mw_load (mw64 list_rng 4) [w0, w1, w2, w3] data [r, r', r'']) =
     [(r XOR r' XOR r'') XOR be_load_word64 data, ascon_mask64_rotate_share1_0 False r,
      ascon_mask64_rotate_share2_0 False r', ascon_mask64_rotate_share3_0 False r'']"
  by (simp_all add: mw64_def mw64_x2_load_def mw64_x3_load_def mw64_x4_load_def list_rng_def
      eval_nat_numeral xor.assoc)

text \<open>Property C26. When eight bytes are masked with \<open>k\<close> shares on the words of a generator, each
  choice of all the shares but one is a bijective image of the random words, whatever the bytes: if the words
  are uniform, so are those shares, and they carry no information on the bytes.\<close>

theorem masking_hides:
  assumes "k \<in> {2, 3, 4}" "i < k" "length word = 4"
  shows "bij_betw (\<lambda>rs. other_shares k i (snd (mw_load (mw64 list_rng k) word data rs)))
    {rs. length rs = k - 1} {ws. length ws = k - 1}"
proof -
  let ?f = "\<lambda>rs. other_shares k i (snd (mw_load (mw64 list_rng k) word data rs))"
  obtain w0 w1 w2 w3 where w: "word = [w0, w1, w2, w3]"
    using assms(3) by (auto simp: numeral_eq_Suc length_Suc_conv)
  have ks: "k = 2 \<or> k = 3 \<or> k = 4" and "i = 0 \<or> i = 1 \<or> i = 2 \<or> i = 3"
    using assms by auto
  then have len: "length (?f rs) = k - 1" for rs
    using assms(2) by (auto simp: other_shares_def mw64_def w mw64_x2_load_def mw64_x3_load_def
        mw64_x4_load_def case_prod_beta Let_def)
  have inj: "inj_on ?f {rs. length rs = k - 1}"
  proof (rule inj_onI)
    fix rs qs :: "u64 list"
    assume l: "rs \<in> {rs. length rs = k - 1}" "qs \<in> {rs. length rs = k - 1}" and eq: "?f rs = ?f qs"
    consider (x2) "k = 2" "i = 0 \<or> i = 1" | (x3) "k = 3" "i = 0 \<or> i = 1 \<or> i = 2"
      | (x4) "k = 4" "i = 0 \<or> i = 1 \<or> i = 2 \<or> i = 3"
      using ks assms(2) by linarith
    then show "rs = qs"
    proof cases
      case x2
      with l obtain r q where "rs = [r]" "qs = [q]" by (auto simp: length_Suc_conv)
      with x2 eq show ?thesis by (auto simp: w load_shares other_shares_def rotate_shares_inj xor_cancels)
    next
      case x3
      with l obtain r r' q q' where "rs = [r, r']" "qs = [q, q']"
        by (auto simp: length_Suc_conv numeral_2_eq_2)
      with x3 eq show ?thesis by (auto simp: w load_shares other_shares_def rotate_shares_inj xor_cancels)
    next
      case x4
      with l obtain r r' r'' q q' q'' where "rs = [r, r', r'']" "qs = [q, q', q'']"
        by (auto simp: length_Suc_conv numeral_3_eq_3)
      with x4 eq show ?thesis by (auto simp: w load_shares other_shares_def rotate_shares_inj xor_cancels)
    qed
  qed
  have "{rs :: u64 list. length rs = k - 1} = {xs. set xs \<subseteq> UNIV \<and> length xs = k - 1}" by simp
  then have "finite {rs :: u64 list. length rs = k - 1}"
    using finite_lists_length_eq[of "UNIV :: u64 set" "k - 1"] by simp
  from endo_inj_surj[OF this _ inj] inj len show ?thesis
    by (auto simp: bij_betw_def)
qed

theorem masking_hides_witness:
  "bij_betw (\<lambda>rs. other_shares 3 1 (snd (mw_load (mw64 list_rng 3) [0, 0, 0, 0] (zeros 8) rs)))
    {rs. length rs = 3 - 1} {ws. length ws = 3 - 1}"
  by (rule masking_hides) simp_all

lemma word_loop_self:
  assumes "\<And>d t. r (snd (f d d t)) d"
  shows "list_all2 r (snd (word_loop f src src t)) src"
  by (induction src arbitrary: t) (simp_all add: assms case_prod_beta Let_def)

text \<open>Randomising a masked 160-bit key refreshes the first two shares of each word only: in
  every configuration, so also with three and four shares, the shares from the third on are the ones
  of before. (The function calls the two-share function in all three branches of the preprocessor;
  for a 128-bit key the branches differ, and all the shares are refreshed.)\<close>

theorem masked_key_160_third_share_kept:
  assumes "length masked = 6" "i < 6" "2 \<le> j"
  shows "ascon_masked_key_160_randomize (masked64 R mx) K masked t ! i ! j = masked ! i ! j"
proof -
  have "list_all2 (\<lambda>v w. \<forall>j\<ge>2. v ! j = w ! j)
      (snd (word_loop (mw64_x2_randomize R) masked masked t)) masked"
    by (rule word_loop_self) (simp add: mw64_x2_randomize_def case_prod_beta)
  with assms show ?thesis
    by (simp add: ascon_masked_key_160_randomize_def ascon_masked_key_160_randomize_with_trng_def
        masked64_def mw64_def list_all2_conv_all_nth)
qed

theorem masked_key_160_third_share_kept_witness:
  "ascon_masked_key_160_randomize (masked64 list_rng 4) 4 (replicate 6 [1, 2, 3, 4]) [5, 6, 7, 8, 9, 10] ! 0 ! 2 =
     replicate 6 [1, 2, 3, 4] ! 0 ! 2"
  by (rule masked_key_160_third_share_kept) simp_all

end
