(* ===== verification/Byte_Array.thy ===== *)
theory Byte_Array
  imports Ascon_Prelude
begin

text \<open>
  The class \<open>byte_array\<close> of \<open>ascon/utility.h\<close> and \<open>cplusplus/ascon-byte-array.cpp\<close>, used where there is
  no standard library: arrays that share a counted representation and copy it before they write.

  The state has the heap of representations, the live \<open>byte_array\<close> objects with their pointer \<open>p\<close>
  (\<open>None\<close> is the null pointer) and the next free address; addresses are not used twice.  \<open>J\<close> gives
  the bytes that \<open>new\<close> finds in the memory it returns.  The abstraction of a state gives each live
  object its list of bytes; the operations of a vector on these lists are the specification.
\<close>

section \<open>The representation\<close>

record byte_array_private =
  ba_ref :: nat
  ba_size :: nat
  ba_capacity :: nat
  ba_data :: bytes

record 'v arrays =
  ar_heap :: "nat \<Rightarrow> byte_array_private option"
  ar_vars :: "'v \<Rightarrow> nat option option"
  ar_next :: nat

definition no_arrays :: "'v arrays" where
  "no_arrays = \<lparr> ar_heap = \<lambda>_. None, ar_vars = \<lambda>_. None, ar_next = 0 \<rparr>"

definition ptr :: "'v arrays \<Rightarrow> 'v \<Rightarrow> nat option" where
  "ptr st v = (case ar_vars st v of Some p \<Rightarrow> p | None \<Rightarrow> None)"

definition cell :: "'v arrays \<Rightarrow> nat \<Rightarrow> byte_array_private" where
  "cell st a = the (ar_heap st a)"

definition set_cell :: "nat \<Rightarrow> byte_array_private \<Rightarrow> 'v arrays \<Rightarrow> 'v arrays" where
  "set_cell a ob st = st\<lparr> ar_heap := (ar_heap st)(a := Some ob) \<rparr>"

definition set_ptr :: "'v \<Rightarrow> nat option \<Rightarrow> 'v arrays \<Rightarrow> 'v arrays" where
  "set_ptr v p st = st\<lparr> ar_vars := (ar_vars st)(v := Some p) \<rparr>"

text \<open>Up to the next multiple of 16.\<close>

definition CAPACITY :: "nat \<Rightarrow> nat" where
  "CAPACITY x = (x + 15) div 16 * 16"

definition byte_array_private_new ::
  "(nat \<Rightarrow> nat \<Rightarrow> u8) \<Rightarrow> nat \<Rightarrow> 'v arrays \<Rightarrow> nat \<times> 'v arrays" where
  "byte_array_private_new J reserve st =
     (let a = ar_next st;
          ob = \<lparr> ba_ref = 1, ba_size = 0, ba_capacity = reserve, ba_data = map (J a) [0..<reserve] \<rparr>
      in (a, (set_cell a ob st)\<lparr> ar_next := a + 1 \<rparr>))"

text \<open>\<open>++(p->ref)\<close>, and \<open>if (p && (--(p->ref)) == 0) delete p\<close>.\<close>

definition retain :: "nat option \<Rightarrow> 'v arrays \<Rightarrow> 'v arrays" where
  "retain p st = (case p of None \<Rightarrow> st
     | Some a \<Rightarrow> set_cell a ((cell st a)\<lparr> ba_ref := ba_ref (cell st a) + 1 \<rparr>) st)"

definition release :: "nat option \<Rightarrow> 'v arrays \<Rightarrow> 'v arrays" where
  "release p st = (case p of None \<Rightarrow> st
     | Some a \<Rightarrow>
         let ref = ba_ref (cell st a) - 1 in
         if ref = 0 then st\<lparr> ar_heap := (ar_heap st)(a := None) \<rparr>
         else set_cell a ((cell st a)\<lparr> ba_ref := ref \<rparr>) st)"

section \<open>The operations\<close>

definition byte_array_new :: "'v \<Rightarrow> 'v arrays \<Rightarrow> 'v arrays" where
  "byte_array_new v st = set_ptr v None st"

definition byte_array_copy :: "'v \<Rightarrow> 'v \<Rightarrow> 'v arrays \<Rightarrow> 'v arrays" where
  "byte_array_copy v other st = (let p = ptr st other in retain p (set_ptr v p st))"

definition byte_array_sized ::
  "(nat \<Rightarrow> nat \<Rightarrow> u8) \<Rightarrow> 'v \<Rightarrow> nat \<Rightarrow> u8 \<Rightarrow> 'v arrays \<Rightarrow> 'v arrays" where
  "byte_array_sized J v sz value st =
     (let (a, st) = byte_array_private_new J (if sz \<noteq> 0 then CAPACITY sz else CAPACITY 1) st;
          st = set_ptr v (Some a) st;
          st = set_cell a ((cell st a)\<lparr> ba_size := sz \<rparr>) st
      in set_cell a ((cell st a)\<lparr> ba_data := put_at (ba_data (cell st a)) 0 (replicate sz value) \<rparr>) st)"

definition byte_array_destroy :: "'v \<Rightarrow> 'v arrays \<Rightarrow> 'v arrays" where
  "byte_array_destroy v st =
     (let st = release (ptr st v) st in st\<lparr> ar_vars := (ar_vars st)(v := None) \<rparr>)"

definition byte_array_assign :: "'v \<Rightarrow> 'v \<Rightarrow> 'v arrays \<Rightarrow> 'v arrays" where
  "byte_array_assign v other st =
     (if ptr st v \<noteq> ptr st other then
        let st = retain (ptr st other) st;
            st = release (ptr st v) st
        in set_ptr v (ptr st other) st
      else st)"

definition byte_array_detach ::
  "(nat \<Rightarrow> nat \<Rightarrow> u8) \<Rightarrow> 'v \<Rightarrow> nat \<Rightarrow> 'v arrays \<Rightarrow> 'v arrays" where
  "byte_array_detach J v capacity st =
     (let p = ptr st v;
          capacity = (case p of None \<Rightarrow> capacity
            | Some a \<Rightarrow> if ba_size (cell st a) > capacity then ba_size (cell st a) else capacity);
          capacity = (if capacity = 0 then 1 else capacity);
          capacity = CAPACITY capacity;
          (np, st) = byte_array_private_new J capacity st;
          st = (case p of None \<Rightarrow> st
            | Some a \<Rightarrow>
                let n = ba_size (cell st a) in
                set_cell np ((cell st np)\<lparr> ba_size := n,
                  ba_data := put_at (ba_data (cell st np)) 0 (take n (ba_data (cell st a))) \<rparr>) st);
          st = release p st
      in set_ptr v (Some np) st)"

text \<open>\<open>operator[]\<close>, to read and to write: both versions make a copy first, whether or not the
  representation is shared.\<close>

definition byte_array_get ::
  "(nat \<Rightarrow> nat \<Rightarrow> u8) \<Rightarrow> 'v \<Rightarrow> nat \<Rightarrow> 'v arrays \<Rightarrow> u8 \<times> 'v arrays" where
  "byte_array_get J v pos st =
     (let st = byte_array_detach J v 0 st
      in (ba_data (cell st (the (ptr st v))) ! pos, st))"

definition byte_array_put ::
  "(nat \<Rightarrow> nat \<Rightarrow> u8) \<Rightarrow> 'v \<Rightarrow> nat \<Rightarrow> u8 \<Rightarrow> 'v arrays \<Rightarrow> 'v arrays" where
  "byte_array_put J v pos x st =
     (let st = byte_array_detach J v 0 st;
          a = the (ptr st v)
      in set_cell a ((cell st a)\<lparr> ba_data := (ba_data (cell st a))[pos := x] \<rparr>) st)"

definition byte_array_size :: "'v arrays \<Rightarrow> 'v \<Rightarrow> nat" where
  "byte_array_size st v = (case ptr st v of None \<Rightarrow> 0 | Some a \<Rightarrow> ba_size (cell st a))"

definition byte_array_capacity :: "'v arrays \<Rightarrow> 'v \<Rightarrow> nat" where
  "byte_array_capacity st v = (case ptr st v of None \<Rightarrow> 0 | Some a \<Rightarrow> ba_capacity (cell st a))"

definition byte_array_empty :: "'v arrays \<Rightarrow> 'v \<Rightarrow> bool" where
  "byte_array_empty st v = (case ptr st v of None \<Rightarrow> True | Some a \<Rightarrow> ba_size (cell st a) = 0)"

text \<open>\<open>data()\<close> returns a pointer that the caller may write through.\<close>

definition byte_array_data ::
  "(nat \<Rightarrow> nat \<Rightarrow> u8) \<Rightarrow> 'v \<Rightarrow> 'v arrays \<Rightarrow> nat option \<times> 'v arrays" where
  "byte_array_data J v st =
     (case ptr st v of None \<Rightarrow> (None, st)
      | Some a \<Rightarrow>
          let st = (if ba_ref (cell st a) > 1 then byte_array_detach J v 0 st else st)
          in (ptr st v, st))"

definition byte_array_write ::
  "(nat \<Rightarrow> nat \<Rightarrow> u8) \<Rightarrow> 'v \<Rightarrow> nat \<Rightarrow> bytes \<Rightarrow> 'v arrays \<Rightarrow> 'v arrays" where
  "byte_array_write J v pos bs st =
     (case byte_array_data J v st of
        (None, st) \<Rightarrow> st
      | (Some a, st) \<Rightarrow> set_cell a ((cell st a)\<lparr> ba_data := put_at (ba_data (cell st a)) pos bs \<rparr>) st)"

definition byte_array_reserve ::
  "(nat \<Rightarrow> nat \<Rightarrow> u8) \<Rightarrow> 'v \<Rightarrow> nat \<Rightarrow> 'v arrays \<Rightarrow> 'v arrays" where
  "byte_array_reserve J v sz st =
     (case ptr st v of None \<Rightarrow> byte_array_detach J v sz st
      | Some a \<Rightarrow> if sz > ba_capacity (cell st a) then byte_array_detach J v sz st else st)"

definition byte_array_resize ::
  "(nat \<Rightarrow> nat \<Rightarrow> u8) \<Rightarrow> 'v \<Rightarrow> nat \<Rightarrow> 'v arrays \<Rightarrow> 'v arrays" where
  "byte_array_resize J v sz st =
     (let st = byte_array_reserve J v sz st;
          a = the (ptr st v);
          old = ba_size (cell st a);
          st = (if old < sz
                then set_cell a ((cell st a)\<lparr> ba_data := put_at (ba_data (cell st a)) old (zeros (sz - old)) \<rparr>) st
                else st)
      in set_cell a ((cell st a)\<lparr> ba_size := sz \<rparr>) st)"

definition byte_array_clear :: "'v \<Rightarrow> 'v arrays \<Rightarrow> 'v arrays" where
  "byte_array_clear v st = set_ptr v None (release (ptr st v) st)"

definition byte_array_push_back ::
  "(nat \<Rightarrow> nat \<Rightarrow> u8) \<Rightarrow> 'v \<Rightarrow> u8 \<Rightarrow> 'v arrays \<Rightarrow> 'v arrays" where
  "byte_array_push_back J v x st =
     (let st = (case ptr st v of None \<Rightarrow> byte_array_detach J v 0 st
            | Some a \<Rightarrow>
                if ba_size (cell st a) \<ge> ba_capacity (cell st a) \<or> ba_ref (cell st a) > 1
                then byte_array_detach J v (ba_size (cell st a) + 1) st else st);
          a = the (ptr st v);
          n = ba_size (cell st a)
      in set_cell a ((cell st a)\<lparr> ba_data := (ba_data (cell st a))[n := x], ba_size := n + 1 \<rparr>) st)"

definition byte_array_pop_back ::
  "(nat \<Rightarrow> nat \<Rightarrow> u8) \<Rightarrow> 'v \<Rightarrow> 'v arrays \<Rightarrow> 'v arrays" where
  "byte_array_pop_back J v st =
     (case ptr st v of None \<Rightarrow> st
      | Some a \<Rightarrow>
          if ba_size (cell st a) > 0 then
            let st = byte_array_detach J v 0 st;
                a = the (ptr st v)
            in set_cell a ((cell st a)\<lparr> ba_size := ba_size (cell st a) - 1 \<rparr>) st
          else st)"

text \<open>\<open>memcmp\<close> with the difference of the first bytes that differ as the result.\<close>

fun memcmp :: "bytes \<Rightarrow> bytes \<Rightarrow> int" where
  "memcmp (x # xs) (y # ys) = (if x = y then memcmp xs ys else uint x - uint y)"
| "memcmp _ _ = 0"

definition byte_array_cmp :: "'v arrays \<Rightarrow> 'v \<Rightarrow> 'v \<Rightarrow> int" where
  "byte_array_cmp st v other =
     (if ptr st v = ptr st other then 0
      else case (ptr st v, ptr st other) of
        (None, None) \<Rightarrow> 0
      | (None, Some b) \<Rightarrow> if ba_size (cell st b) > 0 then 1 else 0
      | (Some a, None) \<Rightarrow> if ba_size (cell st a) > 0 then -1 else 0
      | (Some a, Some b) \<Rightarrow>
          let sz = ba_size (cell st a);
              sz = (if sz > ba_size (cell st b) then ba_size (cell st b) else sz);
              result = memcmp (take sz (ba_data (cell st a))) (take sz (ba_data (cell st b)))
          in if result \<noteq> 0 then result
             else if sz < ba_size (cell st a) then 1
             else if sz < ba_size (cell st b) then -1
             else 0)"

section \<open>Reference counts\<close>

text \<open>The objects that point to a representation, and the invariant: every pointer is to a live
  representation, whose count is the number of its objects.  Between the steps of an operation some
  references are held by no object; \<open>e\<close> counts those.\<close>

definition refs :: "'v arrays \<Rightarrow> nat \<Rightarrow> 'v set" where
  "refs st a = {v. ar_vars st v = Some (Some a)}"

definition cell_ok :: "byte_array_private \<Rightarrow> bool" where
  "cell_ok ob \<longleftrightarrow> ba_size ob \<le> ba_capacity ob \<and> 0 < ba_capacity ob \<and> length (ba_data ob) = ba_capacity ob"

definition cell_counted :: "nat \<Rightarrow> 'v set \<Rightarrow> nat \<Rightarrow> nat \<Rightarrow> byte_array_private option \<Rightarrow> bool" where
  "cell_counted next vs n a c = (case c of
     None \<Rightarrow> vs = {} \<and> n = 0
   | Some ob \<Rightarrow> a < next \<and> ba_ref ob = card vs + n \<and> 0 < ba_ref ob \<and> cell_ok ob)"

definition counted :: "(nat \<Rightarrow> nat) \<Rightarrow> 'v arrays \<Rightarrow> bool" where
  "counted e st \<longleftrightarrow> finite (dom (ar_vars st)) \<and>
     (\<forall>a. cell_counted (ar_next st) (refs st a) (e a) a (ar_heap st a))"

abbreviation arrays_ok :: "'v arrays \<Rightarrow> bool" where
  "arrays_ok st \<equiv> counted (\<lambda>_. 0) st"

definition held :: "nat option \<Rightarrow> (nat \<Rightarrow> nat) \<Rightarrow> nat \<Rightarrow> nat" where
  "held p e = (case p of None \<Rightarrow> e | Some a \<Rightarrow> e(a := e a + 1))"

lemma held_simps [simp]: "held None e = e" "held (Some a) e = e(a := e a + 1)"
  by (simp_all add: held_def)

lemma countedD:
  assumes "counted e st"
  shows "finite (dom (ar_vars st))" "finite (refs st a)"
    "ar_heap st a = None \<Longrightarrow> refs st a = {} \<and> e a = 0"
    "ar_heap st a = Some ob \<Longrightarrow> a < ar_next st \<and> ba_ref ob = card (refs st a) + e a \<and> 0 < ba_ref ob \<and> cell_ok ob"
proof -
  have a: "finite (dom (ar_vars st))" "cell_counted (ar_next st) (refs st a) (e a) a (ar_heap st a)"
    using assms by (simp_all add: counted_def)
  have "refs st a \<subseteq> dom (ar_vars st)" by (auto simp: refs_def)
  with a(1) show "finite (refs st a)" "finite (dom (ar_vars st))" by (auto intro: finite_subset)
  show "ar_heap st a = None \<Longrightarrow> refs st a = {} \<and> e a = 0"
    "ar_heap st a = Some ob \<Longrightarrow> a < ar_next st \<and> ba_ref ob = card (refs st a) + e a \<and> 0 < ba_ref ob \<and> cell_ok ob"
    using a(2) by (auto simp: cell_counted_def)
qed

lemma counted_live:
  assumes "counted e st" "ptr st v = Some a \<or> 0 < e a"
  obtains ob where "ar_heap st a = Some ob" "cell st a = ob" "a < ar_next st" "0 < ba_ref ob" "cell_ok ob"
    "ba_ref ob = card (refs st a) + e a"
proof -
  have "v \<in> refs st a" if "ptr st v = Some a" using that by (auto simp: ptr_def refs_def split: option.splits)
  then have "ar_heap st a \<noteq> None"
    using countedD(3)[OF assms(1)] assms(2) by (metis empty_iff less_nat_zero_code)
  then show ?thesis using that countedD(4)[OF assms(1), of a] by (auto simp: cell_def)
qed

text \<open>A change at one address.\<close>

lemma counted_change:
  assumes "counted e st" "ar_vars st' = ar_vars st" "ar_next st \<le> ar_next st'"
    "\<And>b. b \<noteq> a \<Longrightarrow> ar_heap st' b = ar_heap st b \<and> e' b = e b"
    "cell_counted (ar_next st') (refs st a) (e' a) a (ar_heap st' a)"
  shows "counted e' st'"
proof -
  have refs: "refs st' b = refs st b" for b using assms(2) by (auto simp: refs_def)
  have "cell_counted (ar_next st') (refs st' b) (e' b) b (ar_heap st' b)" for b
  proof (cases "b = a")
    case False
    moreover have "cell_counted (ar_next st) (refs st b) (e b) b (ar_heap st b)"
      using assms(1) by (simp add: counted_def)
    ultimately show ?thesis
      using assms(3) assms(4)[of b] by (auto simp: refs cell_counted_def split: option.splits)
  qed (simp add: assms(5) refs)
  with assms(1,2) show ?thesis by (simp add: counted_def)
qed

lemma no_arrays_ok: "arrays_ok no_arrays"
  by (simp add: counted_def cell_counted_def no_arrays_def refs_def)

text \<open>The effect of each step on the counts.\<close>

lemma set_cell_simps [simp]:
  "ar_vars (set_cell a ob st) = ar_vars st" "ar_next (set_cell a ob st) = ar_next st"
  "ar_heap (set_cell a ob st) = (ar_heap st)(a := Some ob)" "refs (set_cell a ob st) b = refs st b"
  "ptr (set_cell a ob st) v = ptr st v" "cell (set_cell a ob st) b = (if b = a then ob else cell st b)"
  by (simp_all add: refs_def set_cell_def ptr_def cell_def)

lemma counted_set_cell:
  assumes "counted e st" "ar_heap st a = Some ob" "ba_ref ob' = ba_ref ob" "cell_ok ob'"
  shows "counted e (set_cell a ob' st)"
  by (rule counted_change[OF assms(1), of _ a])
    (use countedD(4)[OF assms(1,2)] assms(3,4) in \<open>auto simp: cell_counted_def\<close>)

lemma counted_new:
  assumes "counted e st" "0 < n" "byte_array_private_new J n st = (a, st')"
  shows "counted (held (Some a) e) st'"
proof -
  have a: "a = ar_next st" using assms(3) by (simp add: byte_array_private_new_def Let_def)
  have none: "ar_heap st a = None"
    using countedD(4)[OF assms(1), of a] a by (cases "ar_heap st a") auto
  show ?thesis
    by (rule counted_change[OF assms(1), of _ a])
      (use assms(2,3) countedD(3)[OF assms(1) none] a in
        \<open>auto simp: byte_array_private_new_def Let_def cell_counted_def cell_ok_def\<close>)
qed

lemma counted_retain:
  assumes "counted e st" "\<And>a. p = Some a \<Longrightarrow> ar_heap st a \<noteq> None"
  shows "counted (held p e) (retain p st)"
proof (cases p)
  case (Some a)
  then obtain ob where ob: "ar_heap st a = Some ob" using assms(2) by auto
  show ?thesis
    unfolding Some by (rule counted_change[OF assms(1), of _ a])
      (use countedD(4)[OF assms(1) ob] ob in \<open>auto simp: retain_def cell_def cell_counted_def cell_ok_def\<close>)
qed (use assms in \<open>simp add: retain_def\<close>)

lemma counted_release:
  assumes "counted (held p e) st"
  shows "counted e (release p st)"
proof (cases p)
  case (Some a)
  with assms have c: "counted (e(a := e a + 1)) st" by simp
  then obtain ob where ob: "ar_heap st a = Some ob" "cell st a = ob" "ba_ref ob = card (refs st a) + (e a + 1)"
    by (auto elim: counted_live[of _ st undefined a])
  show ?thesis
    unfolding Some by (rule counted_change[OF c, of _ a])
      (use countedD(2,4)[OF c, of a] ob in \<open>auto simp: release_def cell_def cell_counted_def cell_ok_def Let_def\<close>)
qed (use assms in \<open>simp add: release_def\<close>)

lemma counted_vars:
  assumes "counted (held q e) st" "q = (case x of Some p \<Rightarrow> p | None \<Rightarrow> None)"
    "st' = st\<lparr> ar_vars := (ar_vars st)(v := x) \<rparr>"
  shows "counted (held (ptr st v) e) st'"
proof -
  have refs: "refs st' b = (if q = Some b then insert v (refs st b) else refs st b - {v})" for b
    using assms(2,3) by (auto simp: refs_def split: option.splits)
  have v: "v \<in> refs st b \<longleftrightarrow> ptr st v = Some b" for b
    by (auto simp: refs_def ptr_def split: option.splits)
  have "cell_counted (ar_next st') (refs st' b) (held (ptr st v) e b) b (ar_heap st' b)" for b
  proof -
    have old: "cell_counted (ar_next st) (refs st b) (held q e b) b (ar_heap st b)"
      using assms(1) by (simp add: counted_def)
    have fin: "finite (refs st b)" by (rule countedD(2)[OF assms(1)])
    have st': "ar_next st' = ar_next st" "ar_heap st' = ar_heap st" using assms(3) by simp_all
    have "card (refs st' b) + held (ptr st v) e b = card (refs st b) + held q e b"
    proof (cases "ptr st v = Some b")
      case True
      then have "v \<in> refs st b" "0 < card (refs st b)" using v fin by (auto simp: card_gt_0_iff)
      then show ?thesis using True fin by (auto simp: refs held_def insert_absorb split: option.splits)
    next
      case False
      then have "v \<notin> refs st b" using v by simp
      then show ?thesis using False fin by (auto simp: refs held_def split: option.splits)
    qed
    moreover from this fin have "refs st' b = {} \<and> held (ptr st v) e b = 0 \<longleftrightarrow> refs st b = {} \<and> held q e b = 0"
      by (metis add_is_0 card_eq_0_iff finite.insertI finite_Diff refs)
    ultimately show ?thesis using old by (auto simp: st' cell_counted_def split: option.splits)
  qed
  moreover have "finite (dom (ar_vars st'))"
    using countedD(1)[OF assms(1)] assms(3) by (cases x) (auto simp: dom_def[symmetric] fun_upd_def[symmetric] dom_fun_upd)
  ultimately show ?thesis by (simp add: counted_def)
qed

lemma set_ptr_simps [simp]:
  "ar_vars (set_ptr v q st) = (ar_vars st)(v := Some q)" "ar_next (set_ptr v q st) = ar_next st"
  "ar_heap (set_ptr v q st) = ar_heap st" "cell (set_ptr v q st) a = cell st a"
  "ptr (set_ptr v q st) w = (if w = v then q else ptr st w)"
  by (simp_all add: set_ptr_def cell_def ptr_def)

lemma counted_set_ptr: "counted (held q e) st \<Longrightarrow> counted (held (ptr st v) e) (set_ptr v q st)"
  by (rule counted_vars[where x = "Some q"]) (simp_all add: set_ptr_def)

lemma release_simps [simp]:
  "ar_vars (release p st) = ar_vars st" "ar_next (release p st) = ar_next st"
  "ptr (release p st) v = ptr st v" "refs (release p st) a = refs st a"
  by (simp_all add: release_def ptr_def refs_def Let_def split: option.splits)

lemma cell_release: "p \<noteq> Some a \<Longrightarrow> cell (release p st) a = cell st a"
  by (auto simp: release_def Let_def cell_def split: option.splits)

lemma release_set_ptr: "release p (set_ptr v q st) = set_ptr v q (release p st)"
  by (simp add: release_def Let_def set_cell_def set_ptr_def cell_def split: option.splits)

lemma retain_simps [simp]:
  "ar_vars (retain p st) = ar_vars st" "ar_next (retain p st) = ar_next st"
  "ptr (retain p st) v = ptr st v" "refs (retain p st) a = refs st a"
  by (simp_all add: retain_def split: option.splits)

section \<open>The vectors of a state\<close>

definition contents :: "'v arrays \<Rightarrow> nat option \<Rightarrow> bytes" where
  "contents st p = (case p of None \<Rightarrow> []
     | Some a \<Rightarrow> take (ba_size (cell st a)) (ba_data (cell st a)))"

definition vectors :: "'v arrays \<Rightarrow> 'v \<Rightarrow> bytes option" where
  "vectors st v = map_option (contents st) (ar_vars st v)"

lemma contents_ptr: "ar_vars st v \<noteq> None \<Longrightarrow> vectors st v = Some (contents st (ptr st v))"
  by (auto simp: vectors_def ptr_def)

lemma vectors_eqI:
  assumes "ar_vars st' = ar_vars st"
    "\<And>v a. ptr st v = Some a \<Longrightarrow> contents st' (Some a) = contents st (Some a)"
  shows "vectors st' = vectors st"
proof
  fix v
  show "vectors st' v = vectors st v"
  proof (cases "ar_vars st v")
    case (Some p)
    then show ?thesis
      using assms(2)[of v] by (cases p) (auto simp: vectors_def assms(1) ptr_def contents_def)
  qed (simp add: vectors_def assms(1))
qed

lemma contents_set_ptr [simp]: "contents (set_ptr v q st) = contents st"
  by (simp add: contents_def fun_eq_iff split: option.splits)

lemma contents_set_cell [simp]:
  "contents (set_cell a ob st) p =
     (if p = Some a then take (ba_size ob) (ba_data ob) else contents st p)"
  by (auto simp: contents_def split: option.splits)

lemma vectors_set_ptr:
  "vectors (set_ptr v q st) = (vectors st)(v := Some (contents st q))"
  by (auto simp: vectors_def fun_eq_iff)

lemma vectors_retain: "vectors (retain p st) = vectors st"
  by (rule vectors_eqI) (simp_all add: retain_def contents_def split: option.splits)

lemma vectors_release:
  assumes "counted (held p e) st"
  shows "vectors (release p st) = vectors st"
proof (cases p)
  case (Some a)
  with assms have c: "counted (e(a := e a + 1)) st" by simp
  then obtain ob where ob: "cell st a = ob" "ba_ref ob = card (refs st a) + (e a + 1)"
    by (auto elim: counted_live[of _ st undefined a])
  show ?thesis
  proof (rule vectors_eqI)
    fix v b assume v: "ptr st v = Some b"
    then have "v \<in> refs st b" by (auto simp: refs_def ptr_def split: option.splits)
    then have "refs st a \<noteq> {}" if "b = a" using that by auto
    then have "1 < ba_ref ob" if "b = a" using that ob countedD(2)[OF c, of a] by (simp add: card_gt_0_iff)
    then show "contents (release p st) (Some b) = contents st (Some b)"
      using ob Some by (auto simp: release_def contents_def Let_def cell_def)
  qed simp
qed (simp add: release_def)

text \<open>A change to a representation with one object.\<close>

lemma change_private:
  assumes "counted (\<lambda>_. 0) st" "ptr st v = Some a" "ba_ref (cell st a) = 1"
    "ba_ref ob = 1" "cell_ok ob"
  shows "arrays_ok (set_cell a ob st)"
    "vectors (set_cell a ob st) = (vectors st)(v := Some (take (ba_size ob) (ba_data ob)))"
proof -
  obtain o' where o': "ar_heap st a = Some o'" "cell st a = o'" "ba_ref o' = card (refs st a)"
    using counted_live[OF assms(1), of v a] assms(2) by auto
  have "v \<in> refs st a" using assms(2) by (auto simp: refs_def ptr_def split: option.splits)
  with o' assms(3) have refs: "refs st a = {v}"
    by (metis card_1_singletonE singletonD)
  show "arrays_ok (set_cell a ob st)"
    using counted_set_cell[OF assms(1) o'(1)] assms(3-5) o'(2) by simp
  have other: "ptr st w \<noteq> Some a" if "w \<noteq> v" for w
    using refs that by (auto simp: refs_def ptr_def split: option.splits)
  have "vectors (set_cell a ob st) w = vectors st w" if "w \<noteq> v" for w
    using other[OF that] by (cases "ar_vars st w") (auto simp: vectors_def ptr_def)
  moreover have "ar_vars st v = Some (Some a)"
    using assms(2) by (auto simp: ptr_def split: option.splits)
  then have "vectors (set_cell a ob st) v = Some (take (ba_size ob) (ba_data ob))"
    by (simp add: vectors_def contents_def)
  ultimately show "vectors (set_cell a ob st) = (vectors st)(v := Some (take (ba_size ob) (ba_data ob)))"
    by (auto simp: fun_eq_iff)
qed

section \<open>Each operation is the operation on a vector\<close>

lemma CAPACITY_ge: "x \<le> CAPACITY x" "0 < x \<Longrightarrow> 0 < CAPACITY x"
proof -
  show "x \<le> CAPACITY x" unfolding CAPACITY_def using div_mult_mod_eq[of "x + 15" 16] by linarith
  then show "0 < x \<Longrightarrow> 0 < CAPACITY x" by simp
qed

text \<open>A new representation that no object points to yet.\<close>

lemma private_new:
  assumes "arrays_ok st" "0 < n" "byte_array_private_new J n st = (a, st')"
  shows "counted (held (Some a) (\<lambda>_. 0)) st'" "ar_vars st' = ar_vars st" "vectors st' = vectors st"
    "ar_heap st' a = Some (cell st' a)" "ptr st w \<noteq> Some a" "ptr st' w = ptr st w"
    "cell st' a = \<lparr> ba_ref = 1, ba_size = 0, ba_capacity = n, ba_data = map (J a) [0..<n] \<rparr>"
    "ptr st w = Some b \<Longrightarrow> cell st' b = cell st b"
proof -
  have a: "a = ar_next st" using assms(3) by (simp add: byte_array_private_new_def Let_def)
  have fresh: "ptr st w \<noteq> Some a" for w
    using counted_live[OF assms(1), of w a] a by auto
  then show "ptr st w \<noteq> Some a" .
  show "counted (held (Some a) (\<lambda>_. 0)) st'" by (rule counted_new[OF assms])
  from assms(3) have st': "st' = (set_cell a \<lparr> ba_ref = 1, ba_size = 0, ba_capacity = n,
      ba_data = map (J a) [0..<n] \<rparr> st)\<lparr> ar_next := a + 1 \<rparr>"
    by (auto simp: byte_array_private_new_def Let_def)
  then show "ar_vars st' = ar_vars st" "ar_heap st' a = Some (cell st' a)" "ptr st' w = ptr st w"
    "cell st' a = \<lparr> ba_ref = 1, ba_size = 0, ba_capacity = n, ba_data = map (J a) [0..<n] \<rparr>"
    by (simp_all add: cell_def ptr_def)
  have cell: "cell st' b = cell st b" if "b \<noteq> a" for b
    using that by (simp add: st' cell_def)
  then show "cell st' b = cell st b" if "ptr st w = Some b" using fresh[of w] that by auto
  show "vectors st' = vectors st"
  proof (rule vectors_eqI)
    fix v b assume "ptr st v = Some b"
    then have "cell st' b = cell st b" using fresh[of v] cell[of b] by auto
    then show "contents st' (Some b) = contents st (Some b)" by (simp add: contents_def)
  qed (simp add: st')
qed

text \<open>What a detached object \<open>v\<close> is afterwards.\<close>

definition detached :: "'v \<Rightarrow> nat \<Rightarrow> 'v arrays \<Rightarrow> 'v arrays \<Rightarrow> bool" where
  "detached v capacity st st' \<longleftrightarrow> arrays_ok st' \<and> vectors st' = vectors st \<and> dom (ar_vars st') = dom (ar_vars st) \<and>
     (\<exists>a. ptr st' v = Some a \<and> ba_ref (cell st' a) = 1 \<and> cell_ok (cell st' a) \<and>
       take (ba_size (cell st' a)) (ba_data (cell st' a)) = contents st (ptr st v) \<and>
       ba_size (cell st' a) = byte_array_size st v \<and> capacity \<le> ba_capacity (cell st' a))"

lemma contents_length: "arrays_ok st \<Longrightarrow> length (contents st (ptr st v)) = byte_array_size st v"
  by (cases "ptr st v")
    (auto simp: contents_def byte_array_size_def cell_ok_def elim!: counted_live[of _ st v])

lemma take_put_at: "n \<le> length s \<Longrightarrow> length d = n \<Longrightarrow> take n (put_at s 0 d) = d"
  by (rule nth_equalityI) (auto simp: byte_nth)

lemma detach:
  assumes "arrays_ok st" "ar_vars st v \<noteq> None"
  shows "detached v capacity st (byte_array_detach J v capacity st)"
proof -
  define p where "p = ptr st v"
  define n where "n = byte_array_size st v"
  define c where "c = CAPACITY (let c = if n > capacity then n else capacity in if c = 0 then 1 else c)"
  have c: "n \<le> c" "capacity \<le> c" "0 < c"
    unfolding c_def Let_def using CAPACITY_ge by (auto intro: order_trans[OF _ CAPACITY_ge(1)] CAPACITY_ge(2))
  obtain a st1 where new: "byte_array_private_new J c st = (a, st1)" by fastforce
  note new' = private_new[OF assms(1) c(3) new]
  define ob where "ob = \<lparr> ba_ref = 1, ba_size = n, ba_capacity = c,
    ba_data = put_at (map (J a) [0..<c]) 0 (contents st p) \<rparr>"
  have len: "length (contents st p) = n" unfolding p_def n_def by (rule contents_length[OF assms(1)])
  define st2 where "st2 = set_cell a ob st1"
  have ob: "cell_ok ob" "take n (ba_data ob) = contents st p" "ba_ref ob = 1" "ba_size ob = n" "ba_capacity ob = c"
    using c len by (simp_all add: ob_def cell_ok_def take_put_at)
  have st2: "byte_array_detach J v capacity st = set_ptr v (Some a) (release p st2)"
  proof (cases p)
    case None
    then have "n = 0" "contents st p = []"
      by (simp_all add: n_def byte_array_size_def p_def contents_def)
    moreover have "set_cell a (cell st1 a) st1 = st1"
      using new'(4) by (cases st1) (auto simp: set_cell_def)
    ultimately have "st2 = st1" using new'(7) by (simp add: st2_def ob_def)
    moreover have "CAPACITY (if capacity = 0 then 1 else capacity) = c"
      using \<open>n = 0\<close> by (simp add: c_def)
    ultimately show ?thesis
      unfolding byte_array_detach_def p_def[symmetric] None Let_def by (simp only: option.case new prod.case)
  next
    case (Some b)
    then have b: "cell st1 b = cell st b" "b \<noteq> a" "n = ba_size (cell st b)"
      using new'(8)[of v b] new'(5)[of v] by (auto simp: p_def n_def byte_array_size_def)
    have c': "CAPACITY (if (if n > capacity then n else capacity) = 0 then 1
        else if n > capacity then n else capacity) = c"
      by (simp add: c_def Let_def)
    have "st2 = set_cell a ((cell st1 a)\<lparr> ba_size := n,
        ba_data := put_at (ba_data (cell st1 a)) 0 (take n (ba_data (cell st1 b))) \<rparr>) st1"
      using b Some by (simp add: st2_def ob_def new'(7) contents_def)
    then show ?thesis
      unfolding byte_array_detach_def p_def[symmetric] Some Let_def
      by (simp only: option.case b(3)[symmetric] c' new prod.case b(1))
  qed
  have st2_ok: "counted (held (Some a) (\<lambda>_. 0)) st2"
    unfolding st2_def by (rule counted_set_cell[OF new'(1,4)]) (simp_all add: ob new'(7))
  have st2_v: "vectors st2 = vectors st"
  proof -
    have "vectors st2 = vectors st1"
      by (rule vectors_eqI) (use new'(5,6) in \<open>auto simp: st2_def\<close>)
    with new'(3) show ?thesis by simp
  qed
  have ptr2: "ptr st2 w = ptr st w" "cell st2 a = ob" "ar_vars st2 = ar_vars st" for w
    using new' by (simp_all add: st2_def)
  have st3_ok: "counted (held p (\<lambda>_. 0)) (set_ptr v (Some a) st2)"
    using counted_set_ptr[OF st2_ok, of v] by (simp add: ptr2 p_def)
  let ?st = "release p (set_ptr v (Some a) st2)"
  have "arrays_ok ?st" by (rule counted_release[OF st3_ok])
  moreover have "vectors ?st = (vectors st)(v := Some (contents st p))"
    using vectors_release[OF st3_ok] ob by (simp add: vectors_set_ptr st2_v contents_def ptr2)
  moreover have "vectors st v = Some (contents st p)" unfolding p_def by (rule contents_ptr[OF assms(2)])
  then have "(vectors st)(v := Some (contents st p)) = vectors st" by auto
  moreover have "cell ?st a = ob"
    using new'(5)[of v] by (simp add: cell_release p_def ptr2)
  moreover have "ptr ?st v = Some a" "dom (ar_vars ?st) = dom (ar_vars st)"
    using assms(2) by (auto simp: ptr2)
  ultimately show ?thesis
    unfolding detached_def st2 release_set_ptr[symmetric] using ob c by (auto simp: p_def n_def)
qed

lemma set_cell_twice [simp]: "set_cell a x (set_cell a y st) = set_cell a x st"
  by (simp add: set_cell_def)

lemma vectors_live: "vectors st v = Some xs \<Longrightarrow> ar_vars st v \<noteq> None"
  by (auto simp: vectors_def)

lemma vectors_size:
  assumes "arrays_ok st" "vectors st v = Some xs"
  shows "byte_array_size st v = length xs" "contents st (ptr st v) = xs"
proof -
  show "contents st (ptr st v) = xs" using assms(2) by (auto simp: vectors_def ptr_def)
  with contents_length[OF assms(1), of v] show "byte_array_size st v = length xs" by simp
qed

text \<open>Where the object has a representation to itself, with its bytes and room for \<open>n\<close>.\<close>

lemma own_change:
  assumes "detached v n st st'" "vectors st v = Some xs" "arrays_ok st" "ptr st' v = Some a"
  shows "length (ba_data (cell st' a)) = ba_capacity (cell st' a)" "n \<le> ba_capacity (cell st' a)"
    "ba_size (cell st' a) = length xs" "take (length xs) (ba_data (cell st' a)) = xs"
    "length xs \<le> ba_capacity (cell st' a)"
    "\<lbrakk>ba_ref ob = 1; cell_ok ob\<rbrakk> \<Longrightarrow> arrays_ok (set_cell a ob st') \<and>
       vectors (set_cell a ob st') = (vectors st)(v := Some (take (ba_size ob) (ba_data ob)))"
    "cell_ok (cell st' a)" "ba_ref (cell st' a) = 1"
proof -
  note xs = vectors_size[OF assms(3,2)]
  have d: "arrays_ok st'" "vectors st' = vectors st" "ba_ref (cell st' a) = 1" "cell_ok (cell st' a)"
    "take (ba_size (cell st' a)) (ba_data (cell st' a)) = xs" "ba_size (cell st' a) = length xs"
    "n \<le> ba_capacity (cell st' a)"
    using assms(1,4) xs by (auto simp: detached_def)
  then show "length (ba_data (cell st' a)) = ba_capacity (cell st' a)" "n \<le> ba_capacity (cell st' a)"
    "ba_size (cell st' a) = length xs" "take (length xs) (ba_data (cell st' a)) = xs"
    "length xs \<le> ba_capacity (cell st' a)" "cell_ok (cell st' a)" "ba_ref (cell st' a) = 1"
    by (auto simp: cell_ok_def)
  show "\<lbrakk>ba_ref ob = 1; cell_ok ob\<rbrakk> \<Longrightarrow> arrays_ok (set_cell a ob st') \<and>
      vectors (set_cell a ob st') = (vectors st)(v := Some (take (ba_size ob) (ba_data ob)))"
    using change_private[OF d(1) assms(4) d(3)] d(2) by metis
qed

lemma already_detached:
  assumes "arrays_ok st" "ptr st v = Some a" "ba_ref (cell st a) = 1" "n \<le> ba_capacity (cell st a)"
  shows "detached v n st st"
  using assms unfolding detached_def
  by (auto simp: contents_def byte_array_size_def elim!: counted_live[of _ st v a])

lemma detached_ptr: "detached v n st st' \<Longrightarrow> \<exists>a. ptr st' v = Some a"
  by (auto simp: detached_def)

lemma array_put:
  assumes "arrays_ok st" "vectors st v = Some xs"
  shows "arrays_ok (byte_array_put J v i x st) \<and>
    vectors (byte_array_put J v i x st) = (vectors st)(v := Some (xs[i := x]))"
proof -
  have d: "detached v 0 st (byte_array_detach J v 0 st)"
    by (rule detach[OF assms(1) vectors_live[OF assms(2)]])
  obtain a where a: "ptr (byte_array_detach J v 0 st) v = Some a" using detached_ptr[OF d] by auto
  note own = own_change[OF d assms(2,1) a]
  let ?ob = "(cell (byte_array_detach J v 0 st) a)
    \<lparr> ba_data := (ba_data (cell (byte_array_detach J v 0 st) a))[i := x] \<rparr>"
  have "byte_array_put J v i x st = set_cell a ?ob (byte_array_detach J v 0 st)"
    using a by (simp add: byte_array_put_def Let_def)
  moreover have "take (length xs) ((ba_data (cell (byte_array_detach J v 0 st) a))[i := x]) = xs[i := x]"
    using own(4) by (simp add: take_update_swap)
  ultimately show ?thesis
    using own(6)[of ?ob] own(3,7,8) by (simp add: cell_ok_def)
qed

lemma array_get:
  assumes "arrays_ok st" "vectors st v = Some xs" "i < length xs"
  shows "fst (byte_array_get J v i st) = xs ! i" "arrays_ok (snd (byte_array_get J v i st))"
    "vectors (snd (byte_array_get J v i st)) = vectors st"
proof -
  have d: "detached v 0 st (byte_array_detach J v 0 st)"
    by (rule detach[OF assms(1) vectors_live[OF assms(2)]])
  moreover from detached_ptr[OF this] obtain a where a: "ptr (byte_array_detach J v 0 st) v = Some a" by auto
  ultimately have "take (length xs) (ba_data (cell (byte_array_detach J v 0 st) a)) = xs"
    using own_change(4)[OF _ assms(2,1)] by simp
  then have "ba_data (cell (byte_array_detach J v 0 st) a) ! i = xs ! i"
    using assms(3) by (metis nth_take)
  with a d show "fst (byte_array_get J v i st) = xs ! i" "arrays_ok (snd (byte_array_get J v i st))"
    "vectors (snd (byte_array_get J v i st)) = vectors st"
    by (simp_all add: byte_array_get_def Let_def detached_def)
qed

lemma array_data:
  assumes "arrays_ok st" "ptr st v = Some b"
  shows "\<exists>a st'. byte_array_data J v st = (Some a, st') \<and> ptr st' v = Some a \<and> detached v 0 st st'"
proof (cases "ba_ref (cell st b) > 1")
  case True
  have "detached v 0 st (byte_array_detach J v 0 st)"
    by (rule detach[OF assms(1)]) (use assms(2) in \<open>auto simp: ptr_def split: option.splits\<close>)
  with detached_ptr[OF this] True assms(2) show ?thesis by (auto simp: byte_array_data_def)
next
  case False
  with assms have "ba_ref (cell st b) = 1" by (auto elim!: counted_live[of _ st v b])
  with already_detached[OF assms] False assms(2) show ?thesis by (simp add: byte_array_data_def)
qed

lemma array_write:
  assumes "arrays_ok st" "vectors st v = Some xs" "i + length bs \<le> length xs"
  shows "arrays_ok (byte_array_write J v i bs st) \<and>
    vectors (byte_array_write J v i bs st) = (vectors st)(v := Some (put_at xs i bs))"
proof (cases "ptr st v")
  case None
  with vectors_size(2)[OF assms(1,2)] assms have "xs = []" "bs = []" by (auto simp: contents_def)
  with assms(1,2) None show ?thesis
    by (auto simp: byte_array_write_def byte_array_data_def)
next
  case (Some b)
  obtain a st' where st': "byte_array_data J v st = (Some a, st')" "ptr st' v = Some a" "detached v 0 st st'"
    using array_data[OF assms(1) Some, of J] by auto
  note own = own_change[OF st'(3) assms(2,1) st'(2)]
  have "take (length xs) (put_at (ba_data (cell st' a)) i bs) = put_at (take (length xs) (ba_data (cell st' a))) i bs"
    using assms(3) own(1,5) by (intro nth_equalityI) (auto simp: byte_nth)
  with own st' show ?thesis
    by (simp add: byte_array_write_def cell_ok_def detached_def)
qed

lemma array_reserve:
  assumes "arrays_ok st" "vectors st v = Some xs"
  shows "\<exists>a. ptr (byte_array_reserve J v n st) v = Some a \<and> arrays_ok (byte_array_reserve J v n st) \<and>
    vectors (byte_array_reserve J v n st) = vectors st \<and>
    n \<le> ba_capacity (cell (byte_array_reserve J v n st) a) \<and>
    (ptr st v = Some a \<and> byte_array_reserve J v n st = st \<or>
     detached v n st (byte_array_reserve J v n st))"
proof -
  have d: "detached v n st (byte_array_detach J v n st)"
    by (rule detach[OF assms(1) vectors_live[OF assms(2)]])
  show ?thesis
  proof (cases "ptr st v")
    case None
    with d show ?thesis by (auto simp: byte_array_reserve_def detached_def)
  next
    case (Some a)
    with d assms(1) show ?thesis by (auto simp: byte_array_reserve_def detached_def)
  qed
qed

lemma array_resize:
  assumes "arrays_ok st" "vectors st v = Some xs"
  shows "arrays_ok (byte_array_resize J v n st)"
    "(case ptr st v of None \<Rightarrow> True | Some a \<Rightarrow> ba_ref (cell st a) = 1 \<or> ba_capacity (cell st a) < n) \<Longrightarrow>
      vectors (byte_array_resize J v n st) = (vectors st)(v := Some (take n xs @ zeros (n - length xs)))"
    "\<lbrakk>ptr st v = Some a; n \<le> ba_capacity (cell st a); ptr st w = Some a\<rbrakk> \<Longrightarrow>
      vectors (byte_array_resize J v n st) w = Some (take n xs @ zeros (n - length xs))"
proof -
  define st1 where "st1 = byte_array_reserve J v n st"
  obtain a where r: "ptr st1 v = Some a" "arrays_ok st1" "vectors st1 = vectors st" "n \<le> ba_capacity (cell st1 a)"
    "ptr st v = Some a \<and> st1 = st \<or> detached v n st st1"
    using array_reserve[OF assms, of J n] unfolding st1_def by auto
  obtain ob where ob: "ar_heap st1 a = Some ob" "cell st1 a = ob" "cell_ok ob"
    using counted_live[OF r(2), of v a] r(1) by auto
  have v1: "vectors st1 v = Some xs" using r(3) assms(2) by simp
  have c: "ba_size ob = length xs" "take (length xs) (ba_data ob) = xs"
    using vectors_size[OF r(2) v1] r(1) ob(2) by (auto simp: byte_array_size_def contents_def)
  let ?d = "if length xs < n then put_at (ba_data ob) (length xs) (zeros (n - length xs)) else ba_data ob"
  let ?ob = "ob\<lparr> ba_data := ?d, ba_size := n \<rparr>"
  have eq: "byte_array_resize J v n st = set_cell a ?ob st1"
    using r(1) ob(1,2) c(1) by (simp add: byte_array_resize_def st1_def[symmetric] Let_def)
  have ok: "cell_ok ?ob" using ob(3) r(4) ob(2) by (simp add: cell_ok_def)
  have d: "take n ?d = take n xs @ zeros (n - length xs)"
  proof (cases "length xs < n")
    case True
    have "take n ?d = take (length xs) (ba_data ob) @ zeros (n - length xs)"
      using True ob(2,3) r(4) by (intro nth_equalityI) (auto simp: byte_nth nth_append cell_ok_def)
    with True c show ?thesis by simp
  next
    case False
    then have "take n (ba_data ob) = take n (take (length xs) (ba_data ob))" by (simp add: min_def)
    with False c show ?thesis by (simp add: zeros_def)
  qed
  show "arrays_ok (byte_array_resize J v n st)"
    unfolding eq by (rule counted_set_cell[OF r(2) ob(1) _ ok]) simp
  show "vectors (byte_array_resize J v n st) = (vectors st)(v := Some (take n xs @ zeros (n - length xs)))"
    if own: "case ptr st v of None \<Rightarrow> True | Some a \<Rightarrow> ba_ref (cell st a) = 1 \<or> ba_capacity (cell st a) < n"
  proof -
    have "ba_ref (cell st1 a) = 1"
      using r(1,4,5) own by (auto simp: detached_def split: option.splits)
    then show ?thesis
      unfolding eq using change_private(2)[OF r(2,1), of ?ob] ob(2) ok d r(3) by simp
  qed
  show "vectors (byte_array_resize J v n st) w = Some (take n xs @ zeros (n - length xs))"
    if "ptr st v = Some a'" "n \<le> ba_capacity (cell st a')" "ptr st w = Some a'" for a'
  proof -
    have "st1 = st" using that by (simp add: st1_def byte_array_reserve_def)
    with r(1) that(1,3) have "ar_vars st1 w = Some (Some a)"
      by (auto simp: ptr_def split: option.splits)
    then show ?thesis unfolding eq by (simp add: vectors_def d)
  qed
qed

lemma array_push_back:
  assumes "arrays_ok st" "vectors st v = Some xs"
  shows "arrays_ok (byte_array_push_back J v x st) \<and>
    vectors (byte_array_push_back J v x st) = (vectors st)(v := Some (xs @ [x]))"
proof -
  note xs = vectors_size[OF assms]
  define st1 where "st1 = (case ptr st v of None \<Rightarrow> byte_array_detach J v 0 st
            | Some a \<Rightarrow>
                if ba_size (cell st a) \<ge> ba_capacity (cell st a) \<or> ba_ref (cell st a) > 1
                then byte_array_detach J v (ba_size (cell st a) + 1) st else st)"
  have d: "detached v n st (byte_array_detach J v n st)" for n
    by (rule detach[OF assms(1) vectors_live[OF assms(2)]])
  have "\<exists>n. detached v n st st1 \<and> (n = length xs + 1 \<or> xs = [])"
  proof (cases "ptr st v")
    case None
    with xs(2) d[of 0] show ?thesis by (auto simp: st1_def contents_def)
  next
    case (Some a)
    then have "detached v (length xs + 1) st st"
      if "\<not> (ba_size (cell st a) \<ge> ba_capacity (cell st a) \<or> ba_ref (cell st a) > 1)"
      using that already_detached[OF assms(1) Some, of "length xs + 1"] xs(1) assms(1)
      by (auto simp: byte_array_size_def elim!: counted_live[of _ st v a])
    with Some d xs(1) show ?thesis by (auto simp: st1_def byte_array_size_def)
  qed
  then obtain n where n: "detached v n st st1" "n = length xs + 1 \<or> xs = []" by auto
  obtain a where a: "ptr st1 v = Some a" using detached_ptr[OF n(1)] by auto
  note own = own_change[OF n(1) assms(2,1) a]
  let ?ob = "(cell st1 a)\<lparr> ba_data := (ba_data (cell st1 a))[length xs := x], ba_size := length xs + 1 \<rparr>"
  have eq: "byte_array_push_back J v x st = set_cell a ?ob st1"
    using a own(3) by (simp add: byte_array_push_back_def st1_def[symmetric] Let_def)
  have room: "length xs < ba_capacity (cell st1 a)"
    using n a own(2) by (auto simp: detached_def cell_ok_def)
  have "take (length xs + 1) ((ba_data (cell st1 a))[length xs := x]) = take (length xs) (ba_data (cell st1 a)) @ [x]"
    using room own(1) by (simp add: take_Suc_conv_app_nth)
  then show ?thesis
    unfolding eq using own(6)[of ?ob] own(1,4,8) room by (simp add: cell_ok_def)
qed

lemma array_pop_back:
  assumes "arrays_ok st" "vectors st v = Some xs"
  shows "arrays_ok (byte_array_pop_back J v st) \<and>
    vectors (byte_array_pop_back J v st) = (vectors st)(v := Some (butlast xs))"
proof -
  note xs = vectors_size[OF assms]
  show ?thesis
  proof (cases "\<exists>b. ptr st v = Some b \<and> ba_size (cell st b) > 0")
    case False
    then have "byte_array_pop_back J v st = st" "xs = []"
      using xs by (auto simp: byte_array_pop_back_def contents_def split: option.splits)
    with assms show ?thesis by (auto simp: fun_eq_iff)
  next
    case True
    have d: "detached v 0 st (byte_array_detach J v 0 st)"
      by (rule detach[OF assms(1) vectors_live[OF assms(2)]])
    obtain a where a: "ptr (byte_array_detach J v 0 st) v = Some a" using detached_ptr[OF d] by auto
    note own = own_change[OF d assms(2,1) a]
    let ?ob = "(cell (byte_array_detach J v 0 st) a)\<lparr> ba_size := length xs - 1 \<rparr>"
    have "take (length xs - 1) (ba_data (cell (byte_array_detach J v 0 st) a)) = butlast xs"
      using own(4) by (metis butlast_take diff_le_self own(1,5) take_take min.absorb1 butlast_conv_take)
    moreover have "byte_array_pop_back J v st = set_cell a ?ob (byte_array_detach J v 0 st)"
      using True a own(3) by (auto simp: byte_array_pop_back_def Let_def)
    ultimately show ?thesis
      using own(6)[of ?ob] own(5,7,8) by (simp add: cell_ok_def)
  qed
qed

lemma array_new:
  assumes "arrays_ok st" "ar_vars st v = None"
  shows "arrays_ok (byte_array_new v st) \<and> vectors (byte_array_new v st) = (vectors st)(v := Some [])"
proof -
  have "ptr st v = None" using assms(2) by (simp add: ptr_def)
  with counted_set_ptr[of None "\<lambda>_. 0" st v] assms(1) show ?thesis
    by (simp add: byte_array_new_def vectors_set_ptr contents_def)
qed

lemma array_copy:
  assumes "arrays_ok st" "ar_vars st v = None" "vectors st w = Some ys"
  shows "arrays_ok (byte_array_copy v w st) \<and> vectors (byte_array_copy v w st) = (vectors st)(v := Some ys)"
proof -
  let ?p = "ptr st w"
  have live: "\<And>a. ?p = Some a \<Longrightarrow> ar_heap st a \<noteq> None"
    using assms(1) by (auto elim!: counted_live[of _ st w])
  have "ptr st v = None" using assms(2) by (simp add: ptr_def)
  with counted_set_ptr[OF counted_retain[OF assms(1) live], where v = v]
  have "arrays_ok (set_ptr v ?p (retain ?p st))" by simp
  moreover have "byte_array_copy v w st = set_ptr v ?p (retain ?p st)"
    by (simp add: byte_array_copy_def Let_def retain_def set_cell_def set_ptr_def cell_def split: option.splits)
  moreover have "contents (retain ?p st) ?p = ys"
    using vectors_size(2)[OF assms(1,3)] by (simp add: retain_def contents_def split: option.splits)
  ultimately show ?thesis by (simp add: vectors_set_ptr vectors_retain)
qed

lemma array_sized:
  assumes "arrays_ok st" "ar_vars st v = None"
  shows "arrays_ok (byte_array_sized J v n x st) \<and>
    vectors (byte_array_sized J v n x st) = (vectors st)(v := Some (replicate n x))"
proof -
  let ?c = "if n \<noteq> 0 then CAPACITY n else CAPACITY 1"
  have c: "0 < ?c" "n \<le> ?c" using CAPACITY_ge by auto
  obtain a st1 where new: "byte_array_private_new J ?c st = (a, st1)" by fastforce
  note new' = private_new[OF assms(1) c(1) new]
  have none: "ptr st1 v = None" using new'(6)[of v] assms(2) by (simp add: ptr_def)
  let ?ob = "(cell st1 a)\<lparr> ba_size := n, ba_data := put_at (ba_data (cell st1 a)) 0 (replicate n x) \<rparr>"
  have eq: "byte_array_sized J v n x st = set_cell a ?ob (set_ptr v (Some a) st1)"
    unfolding byte_array_sized_def new by (simp add: Let_def)
  have ok: "arrays_ok (set_ptr v (Some a) st1)"
    using counted_set_ptr[OF new'(1), of v] none by simp
  have ob: "cell_ok ?ob" "ba_ref ?ob = 1" "take n (ba_data ?ob) = replicate n x"
    using c by (auto simp: new'(7) cell_ok_def take_put_at)
  have "arrays_ok (set_cell a ?ob (set_ptr v (Some a) st1)) \<and>
      vectors (set_cell a ?ob (set_ptr v (Some a) st1)) =
        (vectors (set_ptr v (Some a) st1))(v := Some (take (ba_size ?ob) (ba_data ?ob)))"
    using change_private[OF ok, of v a ?ob] ob by (simp add: new'(7))
  then show ?thesis
    unfolding eq using ob(3) by (simp add: vectors_set_ptr new'(3))
qed

lemma vectors_remove: "vectors (st\<lparr> ar_vars := (ar_vars st)(v := None) \<rparr>) = (vectors st)(v := None)"
proof -
  have c: "contents (st\<lparr> ar_vars := (ar_vars st)(v := None) \<rparr>) = contents st"
    by (auto simp: contents_def cell_def fun_eq_iff split: option.splits)
  show ?thesis by (rule ext) (simp add: vectors_def c)
qed

lemma array_destroy:
  assumes "arrays_ok st"
  shows "arrays_ok (byte_array_destroy v st) \<and> vectors (byte_array_destroy v st) = (vectors st)(v := None)"
proof -
  let ?st = "st\<lparr> ar_vars := (ar_vars st)(v := None) \<rparr>"
  have ok: "counted (held (ptr st v) (\<lambda>_. 0)) ?st"
    by (rule counted_vars[of None _ st None]) (use assms in simp_all)
  have "byte_array_destroy v st = release (ptr st v) ?st"
    by (simp add: byte_array_destroy_def Let_def release_def set_cell_def cell_def split: option.splits)
  with counted_release[OF ok] vectors_release[OF ok] show ?thesis by (simp add: vectors_remove)
qed

lemma array_clear:
  assumes "arrays_ok st"
  shows "arrays_ok (byte_array_clear v st) \<and> vectors (byte_array_clear v st) = (vectors st)(v := Some [])"
proof -
  have ok: "counted (held (ptr st v) (\<lambda>_. 0)) (set_ptr v None st)"
    by (rule counted_set_ptr) (use assms in simp)
  from counted_release[OF ok] vectors_release[OF ok] show ?thesis
    by (simp add: byte_array_clear_def vectors_set_ptr contents_def flip: release_set_ptr)
qed

lemma array_assign:
  assumes "arrays_ok st" "vectors st v = Some xs" "vectors st w = Some ys"
  shows "arrays_ok (byte_array_assign v w st) \<and> vectors (byte_array_assign v w st) = (vectors st)(v := Some ys)"
proof (cases "ptr st v = ptr st w")
  case True
  with vectors_size(2)[OF assms(1,2)] vectors_size(2)[OF assms(1,3)] have "xs = ys" by simp
  with True assms(1,2) show ?thesis by (auto simp: byte_array_assign_def)
next
  case False
  let ?q = "ptr st w"
  have live: "\<And>a. ?q = Some a \<Longrightarrow> ar_heap st a \<noteq> None"
    using assms(1) by (auto elim!: counted_live[of _ st w])
  have ok: "counted (held (ptr st v) (\<lambda>_. 0)) (set_ptr v ?q (retain ?q st))"
    using counted_set_ptr[OF counted_retain[OF assms(1) live], where v = v] by simp
  have "contents (retain ?q st) ?q = ys"
    using vectors_size(2)[OF assms(1,3)] by (simp add: retain_def contents_def split: option.splits)
  with False counted_release[OF ok] vectors_release[OF ok] show ?thesis
    by (simp add: byte_array_assign_def Let_def vectors_set_ptr vectors_retain flip: release_set_ptr)
qed

section \<open>Programs on arrays\<close>

datatype 'v array_op = New 'v | Copy 'v 'v | Sized 'v nat u8 | Destroy 'v | Assign 'v 'v | Get 'v nat |
  Put 'v nat u8 | Write 'v nat bytes | Reserve 'v nat | Resize 'v nat | Clear 'v | Push_Back 'v u8 | Pop_Back 'v

fun array_step :: "(nat \<Rightarrow> nat \<Rightarrow> u8) \<Rightarrow> 'v array_op \<Rightarrow> 'v arrays \<Rightarrow> 'v arrays" where
  "array_step J (New v) st = byte_array_new v st"
| "array_step J (Copy v w) st = byte_array_copy v w st"
| "array_step J (Sized v n x) st = byte_array_sized J v n x st"
| "array_step J (Destroy v) st = byte_array_destroy v st"
| "array_step J (Assign v w) st = byte_array_assign v w st"
| "array_step J (Get v i) st = snd (byte_array_get J v i st)"
| "array_step J (Put v i x) st = byte_array_put J v i x st"
| "array_step J (Write v i bs) st = byte_array_write J v i bs st"
| "array_step J (Reserve v n) st = byte_array_reserve J v n st"
| "array_step J (Resize v n) st = byte_array_resize J v n st"
| "array_step J (Clear v) st = byte_array_clear v st"
| "array_step J (Push_Back v x) st = byte_array_push_back J v x st"
| "array_step J (Pop_Back v) st = byte_array_pop_back J v st"

text \<open>The same on vectors of bytes, as \<open>std::vector\<close> defines it, and what a caller has to observe.\<close>

fun vector_step :: "'v array_op \<Rightarrow> ('v \<Rightarrow> bytes option) \<Rightarrow> 'v \<Rightarrow> bytes option" where
  "vector_step (New v) f = f(v := Some [])"
| "vector_step (Copy v w) f = f(v := f w)"
| "vector_step (Sized v n x) f = f(v := Some (replicate n x))"
| "vector_step (Destroy v) f = f(v := None)"
| "vector_step (Assign v w) f = f(v := f w)"
| "vector_step (Get v i) f = f"
| "vector_step (Put v i x) f = f(v := Some ((the (f v))[i := x]))"
| "vector_step (Write v i bs) f = f(v := Some (put_at (the (f v)) i bs))"
| "vector_step (Reserve v n) f = f"
| "vector_step (Resize v n) f = f(v := Some (take n (the (f v)) @ zeros (n - length (the (f v)))))"
| "vector_step (Clear v) f = f(v := Some [])"
| "vector_step (Push_Back v x) f = f(v := Some (the (f v) @ [x]))"
| "vector_step (Pop_Back v) f = f(v := Some (butlast (the (f v))))"

fun op_allowed :: "'v array_op \<Rightarrow> ('v \<Rightarrow> bytes option) \<Rightarrow> bool" where
  "op_allowed (New v) f \<longleftrightarrow> f v = None"
| "op_allowed (Copy v w) f \<longleftrightarrow> f v = None \<and> f w \<noteq> None"
| "op_allowed (Sized v n x) f \<longleftrightarrow> f v = None"
| "op_allowed (Destroy v) f \<longleftrightarrow> f v \<noteq> None"
| "op_allowed (Assign v w) f \<longleftrightarrow> f v \<noteq> None \<and> f w \<noteq> None"
| "op_allowed (Get v i) f \<longleftrightarrow> f v \<noteq> None \<and> i < length (the (f v))"
| "op_allowed (Put v i x) f \<longleftrightarrow> f v \<noteq> None \<and> i < length (the (f v))"
| "op_allowed (Write v i bs) f \<longleftrightarrow> f v \<noteq> None \<and> i + length bs \<le> length (the (f v))"
| "op_allowed (Reserve v n) f \<longleftrightarrow> f v \<noteq> None"
| "op_allowed (Resize v n) f \<longleftrightarrow> f v \<noteq> None"
| "op_allowed (Clear v) f \<longleftrightarrow> f v \<noteq> None"
| "op_allowed (Push_Back v x) f \<longleftrightarrow> f v \<noteq> None"
| "op_allowed (Pop_Back v) f \<longleftrightarrow> f v \<noteq> None"

text \<open>\<open>resize\<close> is safe on an object that does not share its representation, or when it has to grow.\<close>

fun resize_safe :: "'v array_op \<Rightarrow> 'v arrays \<Rightarrow> bool" where
  "resize_safe (Resize v n) st \<longleftrightarrow>
     (case ptr st v of None \<Rightarrow> True | Some a \<Rightarrow> ba_ref (cell st a) = 1 \<or> ba_capacity (cell st a) < n)"
| "resize_safe _ st \<longleftrightarrow> True"

lemma array_step:
  assumes "arrays_ok st" "op_allowed op (vectors st)"
  shows "arrays_ok (array_step J op st)"
    "resize_safe op st \<Longrightarrow> vectors (array_step J op st) = vector_step op (vectors st)"
proof -
  have dead: "ar_vars st v = None" if "vectors st v = None" for v using that by (simp add: vectors_def)
  have "arrays_ok (array_step J op st) \<and>
      (resize_safe op st \<longrightarrow> vectors (array_step J op st) = vector_step op (vectors st))"
  proof (cases op)
    case (Reserve v n)
    with assms array_reserve[OF assms(1), of v _ J n] show ?thesis by auto
  next
    case (Resize v n)
    with assms array_resize(1)[OF assms(1), of v _ J n] array_resize(2)[OF assms(1), of v _ n J]
    show ?thesis by auto
  qed (use assms(2) in \<open>auto simp: dead array_new[OF assms(1)] array_copy[OF assms(1)] array_sized[OF assms(1)]
      array_destroy[OF assms(1)] array_assign[OF assms(1)] array_get(2,3)[OF assms(1)] array_put[OF assms(1)]
      array_write[OF assms(1)] array_clear[OF assms(1)] array_push_back[OF assms(1)] array_pop_back[OF assms(1)]\<close>)
  then show "arrays_ok (array_step J op st)"
    "resize_safe op st \<Longrightarrow> vectors (array_step J op st) = vector_step op (vectors st)" by auto
qed

text \<open>The states of a program that uses the class as one may, and those of a program that in
  addition calls \<open>resize\<close> only where it is safe, with the vectors it should see.\<close>

inductive array_run :: "(nat \<Rightarrow> nat \<Rightarrow> u8) \<Rightarrow> 'v arrays \<Rightarrow> bool" for J where
  start: "array_run J no_arrays"
| step: "\<lbrakk>array_run J st; op_allowed op (vectors st)\<rbrakk> \<Longrightarrow> array_run J (array_step J op st)"

inductive array_session :: "(nat \<Rightarrow> nat \<Rightarrow> u8) \<Rightarrow> 'v arrays \<Rightarrow> ('v \<Rightarrow> bytes option) \<Rightarrow> bool" for J where
  start: "array_session J no_arrays (\<lambda>_. None)"
| step: "\<lbrakk>array_session J st f; op_allowed op f; resize_safe op st\<rbrakk> \<Longrightarrow>
    array_session J (array_step J op st) (vector_step op f)"

lemma array_run_ok: "array_run J st \<Longrightarrow> arrays_ok st"
  by (induction rule: array_run.induct) (auto intro: no_arrays_ok array_step(1))

lemma array_session_vectors: "array_session J st f \<Longrightarrow> arrays_ok st \<and> vectors st = f"
proof (induction rule: array_session.induct)
  case start
  show ?case by (simp add: no_arrays_ok) (simp add: vectors_def no_arrays_def fun_eq_iff)
next
  case (step st f op)
  with array_step[of st op J] show ?case by auto
qed

end
