(* ===== verification/Cpp_Class.thy ===== *)
theory Cpp_Class
  imports Aead_Inc "HOL-Library.Sublist"
begin

text \<open>
  The base class \<open>ascon::aead\<close> of the C++ interface (\<open>ascon/aead.h\<close>, \<open>cplusplus/ascon-aead-cpp.cpp\<close>).  An
  object holds a key and the nonce of the next packet.  The virtual functions of a subclass are the
  record \<open>packet_class\<close>; the functions of the base class, which work on byte arrays, are
  defined over it.  Byte arrays are the vectors of the standard library here; theory
  \<open>Byte_Array\<close> has the substitute.  A pointer to a key is \<open>None\<close> if it is null, or else the bytes it points
  to.

  The locale \<open>packets\<close> is the contract of the subclasses: what it is for an object to hold a key
  and a nonce, and that it then encrypts and decrypts by a cipher with this key and nonce and moves to
  the next nonce.  From it follow what two objects do with a sequence of packets.
\<close>

section \<open>The virtual functions\<close>

text \<open>\<open>set_key\<close> may crash, which is \<open>None\<close>; the result of \<open>do_encrypt\<close> and \<open>do_decrypt\<close> is an
  \<open>int\<close>, and \<open>do_decrypt\<close> leaves its output alone (\<open>None\<close>) if the input is too short.\<close>

record 'o packet_class =
  cl_key_size :: nat
  cl_tag_size :: nat
  cl_nonce_size :: nat
  cl_set_key :: "'o \<Rightarrow> bytes option \<Rightarrow> nat \<Rightarrow> ('o \<times> bool) option"
  cl_set_nonce :: "'o \<Rightarrow> bytes \<Rightarrow> nat \<Rightarrow> 'o"
  cl_set_counter :: "'o \<Rightarrow> u64 \<Rightarrow> 'o"
  cl_clear :: "'o \<Rightarrow> 'o"
  cl_do_encrypt :: "'o \<Rightarrow> bytes \<Rightarrow> bytes \<Rightarrow> 'o \<times> bytes \<times> int"
  cl_do_decrypt :: "'o \<Rightarrow> bytes \<Rightarrow> bytes \<Rightarrow> 'o \<times> int \<times> bytes option"

text \<open>The conversion of a \<open>size_t\<close> to \<open>int\<close>.\<close>

definition to_int :: "nat \<Rightarrow> int" where
  "to_int n = sint (of_nat n :: 32 word)"

text \<open>The body of \<open>set_nonce\<close>, the same in all classes: short nonces are filled with zeros on the left.\<close>

definition copy_nonce :: "nat \<Rightarrow> bytes \<Rightarrow> bytes \<Rightarrow> nat \<Rightarrow> bytes" where
  "copy_nonce NONCE_SIZE m_nonce nonce len =
     (if len \<ge> NONCE_SIZE then put_at m_nonce 0 (take NONCE_SIZE nonce)
      else
        let m_nonce = put_at m_nonce 0 (zeros (NONCE_SIZE - len)) in
        if len > 0 then put_at m_nonce (NONCE_SIZE - len) (take len nonce) else m_nonce)"

section \<open>The base class\<close>

definition resize_bytes :: "bytes \<Rightarrow> nat \<Rightarrow> bytes" where
  "resize_bytes xs n = take n xs @ zeros (n - length xs)"

definition aead_encrypt :: "'o packet_class \<Rightarrow> 'o \<Rightarrow> bytes \<Rightarrow> 'o \<times> bytes" where
  "aead_encrypt C ob m = (let (ob, c, _) = cl_do_encrypt C ob m [] in (ob, c))"

definition aead_encrypt_ad :: "'o packet_class \<Rightarrow> 'o \<Rightarrow> bytes \<Rightarrow> bytes \<Rightarrow> 'o \<times> bytes" where
  "aead_encrypt_ad C ob m ad = (let (ob, c, _) = cl_do_encrypt C ob m ad in (ob, c))"

text \<open>\<open>m\<close> is the output array as the caller passes it.\<close>

definition aead_decrypt :: "'o packet_class \<Rightarrow> 'o \<Rightarrow> bytes \<Rightarrow> bytes \<Rightarrow> 'o \<times> bool \<times> bytes" where
  "aead_decrypt C ob m c =
     (let len = length c; tlen = cl_tag_size C in
      if len < tlen then (ob, False, resize_bytes m 0)
      else
        let m = resize_bytes m (len - tlen);
            (ob, result, out) = cl_do_decrypt C ob c [];
            m = (case out of Some m' \<Rightarrow> m' | None \<Rightarrow> m)
        in if result < 0 then (ob, False, resize_bytes m 0) else (ob, True, m))"

definition aead_decrypt_ad :: "'o packet_class \<Rightarrow> 'o \<Rightarrow> bytes \<Rightarrow> bytes \<Rightarrow> bytes \<Rightarrow> 'o \<times> bool \<times> bytes" where
  "aead_decrypt_ad C ob m c ad =
     (let len = length c; tlen = cl_tag_size C in
      if len < tlen then (ob, False, resize_bytes m 0)
      else
        let m = resize_bytes m (len - tlen);
            (ob, result, out) = cl_do_decrypt C ob c ad;
            m = (case out of Some m' \<Rightarrow> m' | None \<Rightarrow> m)
        in if result < 0 then (ob, False, resize_bytes m 0) else (ob, True, m))"

section \<open>Numbers\<close>

lemma to_int_small: "n < 2 ^ 31 \<Longrightarrow> to_int n = int n"
proof -
  assume n: "n < 2 ^ 31"
  then have "int n < 2 ^ 31" by (metis of_nat_less_iff of_nat_numeral of_nat_power)
  then have "signed_take_bit 31 (int n) = int n"
    by (simp add: signed_take_bit_int_eq_self_iff)
  then show ?thesis by (simp add: to_int_def signed_of_nat)
qed

lemma to_int_large: "2 ^ 31 \<le> n \<Longrightarrow> n < 2 ^ 32 \<Longrightarrow> to_int n < 0"
proof -
  assume n: "2 ^ 31 \<le> n" "n < 2 ^ 32"
  then have "n = 2 ^ 31 + (n - 2 ^ 31)" "n - 2 ^ 31 < 2 ^ 31" by simp_all
  then obtain k where k: "n = 2 ^ 31 + k" "k < 2 ^ 31" by blast
  then have "int n div 2 ^ 31 = 1" by (simp add: div_pos_pos_trivial)
  then have "bit (int n) 31" by (simp add: bit_iff_odd)
  then show ?thesis by (simp add: to_int_def signed_of_nat signed_take_bit_negative_iff)
qed

lemma copy_nonce_eq:
  assumes "length m_nonce = n" "len \<le> length nonce"
  shows "copy_nonce n m_nonce nonce len =
    (if len \<ge> n then take n nonce else zeros (n - len) @ take len nonce)"
proof (cases "len \<ge> n")
  case True
  with assms show ?thesis by (simp add: copy_nonce_def put_at_whole)
next
  case False
  then have "put_at (put_at m_nonce 0 (zeros (n - len))) (n - len) (take len nonce) =
      put_at m_nonce 0 (zeros (n - len) @ take len nonce)"
    by (simp add: put_at_append)
  also have "\<dots> = zeros (n - len) @ take len nonce"
    using False assms by (intro put_at_whole) simp
  finally show ?thesis using False assms by (auto simp: copy_nonce_def put_at_whole Let_def)
qed

section \<open>The contract of the subclasses\<close>

locale packets =
  fixes C :: "'o packet_class" and holds :: "'o \<Rightarrow> bytes \<Rightarrow> bytes \<Rightarrow> bool"
    and enc :: "bytes \<Rightarrow> bytes \<Rightarrow> bytes \<Rightarrow> bytes \<Rightarrow> bytes"
  assumes tag_size: "cl_tag_size C = 16"
    and holds_nonce: "holds ob k n \<Longrightarrow> length n = 16"
    and enc_length: "length (enc k n ad m) = length m + 16"
    and do_encrypt: "holds ob k n \<Longrightarrow> \<exists>ob'. cl_do_encrypt C ob m ad =
      (ob', enc k n ad m, to_int (length m + 16)) \<and> holds ob' k (ascon_aead_increment_nonce n)"
    and do_decrypt: "holds ob k n \<Longrightarrow> \<exists>ob'. cl_do_decrypt C ob (enc k n ad m) ad =
      (ob', to_int (length m), Some m) \<and> holds ob' k (ascon_aead_increment_nonce n)"
    and do_decrypt_bad: "\<lbrakk>holds ob k n; \<And>m. c \<noteq> enc k n ad m\<rbrakk> \<Longrightarrow> \<exists>ob' out. cl_do_decrypt C ob c ad =
      (ob', -1, out) \<and> holds ob' k n"

text \<open>Sequences of packets with their associated data: what a sender makes of messages, and what a
  receiver makes of what it gets, the number of the nonce and the message of each packet accepted.\<close>

fun send_packets :: "'o packet_class \<Rightarrow> 'o \<Rightarrow> (bytes \<times> bytes) list \<Rightarrow> 'o \<times> (bytes \<times> bytes) list" where
  "send_packets C ob [] = (ob, [])"
| "send_packets C ob ((m, ad) # ms) =
     (let (ob, c) = aead_encrypt_ad C ob m ad; (ob, cs) = send_packets C ob ms in (ob, (c, ad) # cs))"

fun receive_packets :: "'o packet_class \<Rightarrow> 'o \<Rightarrow> (bytes \<times> bytes) list \<Rightarrow> 'o \<times> (bytes \<times> bytes) list" where
  "receive_packets C ob [] = (ob, [])"
| "receive_packets C ob ((c, ad) # cs) =
     (let (ob, ok, m) = aead_decrypt_ad C ob [] c ad; (ob, ms) = receive_packets C ob cs
      in (ob, if ok then (m, ad) # ms else ms))"

text \<open>The packets of a list of messages under consecutive nonces.\<close>

fun packets_from ::
  "(bytes \<Rightarrow> bytes \<Rightarrow> bytes \<Rightarrow> bytes \<Rightarrow> bytes) \<Rightarrow> bytes \<Rightarrow> bytes \<Rightarrow> (bytes \<times> bytes) list \<Rightarrow> (bytes \<times> bytes) list" where
  "packets_from enc k n [] = []"
| "packets_from enc k n ((m, ad) # ms) =
     (enc k n ad m, ad) # packets_from enc k (ascon_aead_increment_nonce n) ms"

definition nonce_after :: "bytes \<Rightarrow> nat \<Rightarrow> bytes" where
  "nonce_after n i = (ascon_aead_increment_nonce ^^ i) n"

lemma nonce_after_Suc: "nonce_after (ascon_aead_increment_nonce n) i = nonce_after n (Suc i)"
  by (simp add: nonce_after_def funpow_swap1)

context packets
begin

lemma aead_decrypt_ad_eq:
  assumes "holds ob k n"
  shows "length m < 2 ^ 31 \<Longrightarrow> \<exists>ob'. aead_decrypt_ad C ob m0 (enc k n ad m) ad = (ob', True, m) \<and>
      holds ob' k (ascon_aead_increment_nonce n)"
    "\<lbrakk>2 ^ 31 \<le> length m; length m < 2 ^ 32\<rbrakk> \<Longrightarrow> \<exists>ob'. aead_decrypt_ad C ob m0 (enc k n ad m) ad = (ob', False, []) \<and>
      holds ob' k (ascon_aead_increment_nonce n)"
    "(\<And>m. c \<noteq> enc k n ad m) \<Longrightarrow> \<exists>ob'. aead_decrypt_ad C ob m0 c ad = (ob', False, []) \<and> holds ob' k n"
proof -
  show "length m < 2 ^ 31 \<Longrightarrow> \<exists>ob'. aead_decrypt_ad C ob m0 (enc k n ad m) ad = (ob', True, m) \<and>
      holds ob' k (ascon_aead_increment_nonce n)"
    using do_decrypt[OF assms, of ad m] by (auto simp: aead_decrypt_ad_def tag_size enc_length to_int_small)
  show "\<lbrakk>2 ^ 31 \<le> length m; length m < 2 ^ 32\<rbrakk> \<Longrightarrow> \<exists>ob'. aead_decrypt_ad C ob m0 (enc k n ad m) ad = (ob', False, []) \<and>
      holds ob' k (ascon_aead_increment_nonce n)"
    using do_decrypt[OF assms, of ad m] to_int_large[of "length m"]
    by (auto simp: aead_decrypt_ad_def tag_size enc_length resize_bytes_def zeros_def)
  assume "\<And>m. c \<noteq> enc k n ad m"
  from do_decrypt_bad[OF assms this] assms show "\<exists>ob'. aead_decrypt_ad C ob m0 c ad = (ob', False, []) \<and> holds ob' k n"
    by (auto simp: aead_decrypt_ad_def tag_size resize_bytes_def zeros_def Let_def)
qed

lemma send_eq:
  assumes "holds ob k n"
  shows "\<exists>ob'. send_packets C ob ms = (ob', packets_from enc k n ms) \<and> holds ob' k (nonce_after n (length ms))"
  using assms
proof (induction ms arbitrary: ob n)
  case (Cons p ms)
  obtain m ad where p: "p = (m, ad)" by fastforce
  obtain ob' where ob': "cl_do_encrypt C ob m ad = (ob', enc k n ad m, to_int (length m + 16))"
    "holds ob' k (ascon_aead_increment_nonce n)"
    using do_encrypt[OF Cons.prems] by blast
  from Cons.IH[OF ob'(2)] ob'(1) show ?case
    by (auto simp: p aead_encrypt_ad_def nonce_after_Suc)
qed (simp add: nonce_after_def)

text \<open>Whatever packets arrive, those accepted are the encryptions, under consecutive nonces, of
  what comes out; and all of the packets of a sender are accepted.\<close>

lemma receive_eq:
  assumes "holds ob k n" "\<forall>(c, ad)\<in>set cs. length c < 2 ^ 31 + 16"
  shows "\<exists>ob' ms. receive_packets C ob cs = (ob', ms) \<and> holds ob' k (nonce_after n (length ms)) \<and>
    subseq (packets_from enc k n ms) cs"
  using assms
proof (induction cs arbitrary: ob n)
  case (Cons p cs)
  obtain c ad where p: "p = (c, ad)" by fastforce
  show ?case
  proof (cases "\<exists>m. c = enc k n ad m")
    case True
    then obtain m where m: "c = enc k n ad m" by blast
    with Cons.prems(2) have "length m < 2 ^ 31" by (simp add: p enc_length)
    then obtain ob' where ob': "aead_decrypt_ad C ob [] c ad = (ob', True, m)" "holds ob' k (ascon_aead_increment_nonce n)"
      using aead_decrypt_ad_eq(1)[OF Cons.prems(1)] m by blast
    from Cons.IH[OF ob'(2)] Cons.prems(2) ob'(1) show ?thesis
      by (auto simp: p m nonce_after_Suc)
  next
    case False
    then obtain ob' where ob': "aead_decrypt_ad C ob [] c ad = (ob', False, [])" "holds ob' k n"
      using aead_decrypt_ad_eq(3)[OF Cons.prems(1)] by blast
    from Cons.IH[OF ob'(2)] Cons.prems(2) ob'(1) show ?thesis
      by (auto simp: p)
  qed
qed (simp add: nonce_after_def)

lemma receive_sent:
  assumes "holds ob k n" "\<forall>(m, ad)\<in>set ms. length m < 2 ^ 31"
  shows "\<exists>ob'. receive_packets C ob (packets_from enc k n ms) = (ob', ms) \<and> holds ob' k (nonce_after n (length ms))"
  using assms
proof (induction ms arbitrary: ob n)
  case (Cons p ms)
  obtain m ad where p: "p = (m, ad)" by fastforce
  obtain ob' where ob': "aead_decrypt_ad C ob [] (enc k n ad m) ad = (ob', True, m)" "holds ob' k (ascon_aead_increment_nonce n)"
    using aead_decrypt_ad_eq(1)[OF Cons.prems(1), of m "[]" ad] Cons.prems(2) p by auto
  from Cons.IH[OF ob'(2)] Cons.prems(2) ob'(1) show ?case
    by (auto simp: p nonce_after_Suc)
qed (simp add: nonce_after_def)

end

text \<open>The nonces of fewer than \<open>2^128\<close> packets are different.\<close>

lemma be_value_less: "be_value xs < 256 ^ length xs"
proof (induction xs rule: rev_induct)
  case (snoc x xs)
  have "unat x < 256" using unsigned_less[of x, where ?'a = nat] by simp
  with snoc show ?case by (simp add: be_value_append1)
qed (simp add: be_value_def)

lemma nonce_after_value:
  assumes "length n = 16"
  shows "length (nonce_after n i) = 16 \<and> be_value (nonce_after n i) = (be_value n + i) mod 2 ^ 128"
proof (induction i)
  case 0
  show ?case using assms be_value_less[of n] by (simp add: nonce_after_def)
next
  case (Suc i)
  let ?n = "nonce_after n i"
  have "be_value (increment_loop 16 1 ?n) = (be_value ?n + 1) mod 256 ^ 16"
    using increment_loop_value[of ?n 16 1] Suc by simp
  with Suc show ?case
    by (simp add: nonce_after_def ascon_aead_increment_nonce_def mod_Suc_eq power_mult[of 2 8 16, simplified])
qed

lemma nonces_different:
  assumes "length n = 16" "i < j" "j < i + 2 ^ 128"
  shows "nonce_after n i \<noteq> nonce_after n j"
proof
  assume "nonce_after n i = nonce_after n j"
  with nonce_after_value[OF assms(1)] have "(be_value n + i) mod 2 ^ 128 = (be_value n + j) mod 2 ^ 128" by metis
  then have "(2 ^ 128 :: nat) dvd (be_value n + j) - (be_value n + i)"
    using assms(2) by (metis mod_eq_dvd_iff_nat add_le_cancel_left less_imp_le)
  then have "(2 ^ 128 :: nat) dvd j - i" by simp
  with assms(2,3) show False by (simp add: nat_dvd_not_less)
qed

end
