(* ===== verification/Cpp_Aead.thy ===== *)
theory Cpp_Aead
  imports Cpp_Class Aead_OneShot Siv Snp_Direct_Xor Snp_Sliced64
begin

text \<open>
  The classes \<open>aead128\<close>, \<open>aead128a\<close>, \<open>aead80pq\<close> (\<open>cplusplus/ascon-aead-cpp.cpp\<close>) and \<open>siv128\<close>, \<open>siv128a\<close>,
  \<open>siv80pq\<close> (\<open>ascon-siv-cpp.cpp\<close>) over a backend \<open>P\<close>, with the proof that they satisfy the contract
  \<open>packets\<close>.  Of the member \<open>m_state\<close> they use the key and the nonce.  A constructor that is given a
  key works on an object whose memory has not been initialised, the argument \<open>ob\<close>.
\<close>

record packet_object =
  ob_key :: bytes
  ob_nonce :: bytes

section \<open>The classes of the AEAD modes\<close>

subsection \<open>\<open>aead128\<close>\<close>

definition aead128_new :: packet_object where
  "aead128_new = \<lparr> ob_key = zeros 16, ob_nonce = zeros 16 \<rparr>"

definition aead128_with_key :: "packet_object \<Rightarrow> bytes option \<Rightarrow> packet_object" where
  "aead128_with_key ob key =
     (let ob = (case key of
            Some key \<Rightarrow> ob\<lparr> ob_key := put_at (ob_key ob) 0 (take 16 key) \<rparr>
          | None \<Rightarrow> ob\<lparr> ob_key := put_at (ob_key ob) 0 (zeros 16) \<rparr>)
      in ob\<lparr> ob_nonce := zeros 16 \<rparr>)"

definition aead128_set_key ::
  "packet_object \<Rightarrow> bytes option \<Rightarrow> nat \<Rightarrow> (packet_object \<times> bool) option" where
  "aead128_set_key ob key len =
     (if len = 16 \<and> key \<noteq> None
      then Some (ob\<lparr> ob_key := put_at (ob_key ob) 0 (take 16 (the key)) \<rparr>, True)
      else if len = 0 then Some (ob\<lparr> ob_key := put_at (ob_key ob) 0 (zeros 16) \<rparr>, True)
      else Some (ob, False))"

definition aead128_set_nonce :: "packet_object \<Rightarrow> bytes \<Rightarrow> nat \<Rightarrow> packet_object" where
  "aead128_set_nonce ob nonce len = ob\<lparr> ob_nonce := copy_nonce 16 (ob_nonce ob) nonce len \<rparr>"

definition aead128_set_counter :: "packet_object \<Rightarrow> u64 \<Rightarrow> packet_object" where
  "aead128_set_counter ob n = ob\<lparr> ob_nonce := ascon_aead_set_counter n \<rparr>"

definition aead128_clear :: "packet_object \<Rightarrow> packet_object" where
  "aead128_clear ob = \<lparr> ob_key = zeros 16, ob_nonce = zeros 16 \<rparr>"

definition aead128_do_encrypt ::
  "'s snp \<Rightarrow> packet_object \<Rightarrow> bytes \<Rightarrow> bytes \<Rightarrow> packet_object \<times> bytes \<times> int" where
  "aead128_do_encrypt P ob m ad =
     (let c = ascon128_aead_encrypt P m ad (ob_nonce ob) (ob_key ob); clen = length m + 16;
          ob = ob\<lparr> ob_nonce := ascon_aead_increment_nonce (ob_nonce ob) \<rparr>
      in (ob, c, to_int clen))"

definition aead128_do_decrypt ::
  "'s snp \<Rightarrow> packet_object \<Rightarrow> bytes \<Rightarrow> bytes \<Rightarrow> packet_object \<times> int \<times> bytes option" where
  "aead128_do_decrypt P ob c ad =
     (let (result, m) = ascon128_aead_decrypt P c ad (ob_nonce ob) (ob_key ob); mlen = length c - 16
      in if result \<ge> 0 then
           let ob = ob\<lparr> ob_nonce := ascon_aead_increment_nonce (ob_nonce ob) \<rparr>
           in (ob, to_int mlen, m)
         else (ob, -1, m))"

definition aead128 :: "'s snp \<Rightarrow> packet_object packet_class" where
  "aead128 P = \<lparr> cl_key_size = 16, cl_tag_size = 16, cl_nonce_size = 16,
     cl_set_key = aead128_set_key, cl_set_nonce = aead128_set_nonce, cl_set_counter = aead128_set_counter,
     cl_clear = aead128_clear, cl_do_encrypt = aead128_do_encrypt P, cl_do_decrypt = aead128_do_decrypt P \<rparr>"

subsection \<open>\<open>aead128a\<close>\<close>

definition aead128a_new :: packet_object where
  "aead128a_new = \<lparr> ob_key = zeros 16, ob_nonce = zeros 16 \<rparr>"

definition aead128a_with_key :: "packet_object \<Rightarrow> bytes option \<Rightarrow> packet_object" where
  "aead128a_with_key ob key =
     (let ob = (case key of
            Some key \<Rightarrow> ob\<lparr> ob_key := put_at (ob_key ob) 0 (take 16 key) \<rparr>
          | None \<Rightarrow> ob\<lparr> ob_key := put_at (ob_key ob) 0 (zeros 16) \<rparr>)
      in ob\<lparr> ob_nonce := zeros 16 \<rparr>)"

definition aead128a_set_key ::
  "packet_object \<Rightarrow> bytes option \<Rightarrow> nat \<Rightarrow> (packet_object \<times> bool) option" where
  "aead128a_set_key ob key len =
     (if len = 16 \<and> key \<noteq> None
      then Some (ob\<lparr> ob_key := put_at (ob_key ob) 0 (take 16 (the key)) \<rparr>, True)
      else if len = 0 then Some (ob\<lparr> ob_key := put_at (ob_key ob) 0 (zeros 16) \<rparr>, True)
      else Some (ob, False))"

definition aead128a_set_nonce :: "packet_object \<Rightarrow> bytes \<Rightarrow> nat \<Rightarrow> packet_object" where
  "aead128a_set_nonce ob nonce len = ob\<lparr> ob_nonce := copy_nonce 16 (ob_nonce ob) nonce len \<rparr>"

definition aead128a_set_counter :: "packet_object \<Rightarrow> u64 \<Rightarrow> packet_object" where
  "aead128a_set_counter ob n = ob\<lparr> ob_nonce := ascon_aead_set_counter n \<rparr>"

definition aead128a_clear :: "packet_object \<Rightarrow> packet_object" where
  "aead128a_clear ob = \<lparr> ob_key = zeros 16, ob_nonce = zeros 16 \<rparr>"

definition aead128a_do_encrypt ::
  "'s snp \<Rightarrow> packet_object \<Rightarrow> bytes \<Rightarrow> bytes \<Rightarrow> packet_object \<times> bytes \<times> int" where
  "aead128a_do_encrypt P ob m ad =
     (let c = ascon128a_aead_encrypt P m ad (ob_nonce ob) (ob_key ob); clen = length m + 16;
          ob = ob\<lparr> ob_nonce := ascon_aead_increment_nonce (ob_nonce ob) \<rparr>
      in (ob, c, to_int clen))"

definition aead128a_do_decrypt ::
  "'s snp \<Rightarrow> packet_object \<Rightarrow> bytes \<Rightarrow> bytes \<Rightarrow> packet_object \<times> int \<times> bytes option" where
  "aead128a_do_decrypt P ob c ad =
     (let (result, m) = ascon128a_aead_decrypt P c ad (ob_nonce ob) (ob_key ob); mlen = length c - 16
      in if result \<ge> 0 then
           let ob = ob\<lparr> ob_nonce := ascon_aead_increment_nonce (ob_nonce ob) \<rparr>
           in (ob, to_int mlen, m)
         else (ob, -1, m))"

definition aead128a :: "'s snp \<Rightarrow> packet_object packet_class" where
  "aead128a P = \<lparr> cl_key_size = 16, cl_tag_size = 16, cl_nonce_size = 16,
     cl_set_key = aead128a_set_key, cl_set_nonce = aead128a_set_nonce, cl_set_counter = aead128a_set_counter,
     cl_clear = aead128a_clear, cl_do_encrypt = aead128a_do_encrypt P, cl_do_decrypt = aead128a_do_decrypt P \<rparr>"

subsection \<open>\<open>aead80pq\<close>\<close>

definition aead80pq_new :: packet_object where
  "aead80pq_new = \<lparr> ob_key = zeros 20, ob_nonce = zeros 16 \<rparr>"

definition aead80pq_with_key :: "packet_object \<Rightarrow> bytes option \<Rightarrow> packet_object" where
  "aead80pq_with_key ob key =
     (let ob = (case key of
            Some key \<Rightarrow> ob\<lparr> ob_key := put_at (ob_key ob) 0 (take 16 key) \<rparr>
          | None \<Rightarrow> ob\<lparr> ob_key := put_at (ob_key ob) 0 (zeros 16) \<rparr>)
      in ob\<lparr> ob_nonce := zeros 16 \<rparr>)"

definition aead80pq_set_key ::
  "packet_object \<Rightarrow> bytes option \<Rightarrow> nat \<Rightarrow> (packet_object \<times> bool) option" where
  "aead80pq_set_key ob key len =
     (if len = 20 \<and> key \<noteq> None
      then Some (ob\<lparr> ob_key := put_at (ob_key ob) 0 (take 20 (the key)) \<rparr>, True)
      else if len = 0 then Some (ob\<lparr> ob_key := put_at (ob_key ob) 0 (zeros 20) \<rparr>, True)
      else Some (ob, False))"

definition aead80pq_set_nonce :: "packet_object \<Rightarrow> bytes \<Rightarrow> nat \<Rightarrow> packet_object" where
  "aead80pq_set_nonce ob nonce len = ob\<lparr> ob_nonce := copy_nonce 16 (ob_nonce ob) nonce len \<rparr>"

definition aead80pq_set_counter :: "packet_object \<Rightarrow> u64 \<Rightarrow> packet_object" where
  "aead80pq_set_counter ob n = ob\<lparr> ob_nonce := ascon_aead_set_counter n \<rparr>"

definition aead80pq_clear :: "packet_object \<Rightarrow> packet_object" where
  "aead80pq_clear ob = \<lparr> ob_key = zeros 20, ob_nonce = zeros 16 \<rparr>"

definition aead80pq_do_encrypt ::
  "'s snp \<Rightarrow> packet_object \<Rightarrow> bytes \<Rightarrow> bytes \<Rightarrow> packet_object \<times> bytes \<times> int" where
  "aead80pq_do_encrypt P ob m ad =
     (let c = ascon80pq_aead_encrypt P m ad (ob_nonce ob) (ob_key ob); clen = length m + 16;
          ob = ob\<lparr> ob_nonce := ascon_aead_increment_nonce (ob_nonce ob) \<rparr>
      in (ob, c, to_int clen))"

definition aead80pq_do_decrypt ::
  "'s snp \<Rightarrow> packet_object \<Rightarrow> bytes \<Rightarrow> bytes \<Rightarrow> packet_object \<times> int \<times> bytes option" where
  "aead80pq_do_decrypt P ob c ad =
     (let (result, m) = ascon80pq_aead_decrypt P c ad (ob_nonce ob) (ob_key ob); mlen = length c - 16
      in if result \<ge> 0 then
           let ob = ob\<lparr> ob_nonce := ascon_aead_increment_nonce (ob_nonce ob) \<rparr>
           in (ob, to_int mlen, m)
         else (ob, -1, m))"

definition aead80pq :: "'s snp \<Rightarrow> packet_object packet_class" where
  "aead80pq P = \<lparr> cl_key_size = 20, cl_tag_size = 16, cl_nonce_size = 16,
     cl_set_key = aead80pq_set_key, cl_set_nonce = aead80pq_set_nonce, cl_set_counter = aead80pq_set_counter,
     cl_clear = aead80pq_clear, cl_do_encrypt = aead80pq_do_encrypt P, cl_do_decrypt = aead80pq_do_decrypt P \<rparr>"

section \<open>The classes of the SIV modes\<close>

subsection \<open>\<open>siv128\<close>\<close>

definition siv128_new :: packet_object where
  "siv128_new = \<lparr> ob_key = zeros 16, ob_nonce = zeros 16 \<rparr>"

definition siv128_with_key :: "packet_object \<Rightarrow> bytes option \<Rightarrow> packet_object" where
  "siv128_with_key ob key =
     (let ob = (case key of
            Some key \<Rightarrow> ob\<lparr> ob_key := put_at (ob_key ob) 0 (take 16 key) \<rparr>
          | None \<Rightarrow> ob\<lparr> ob_key := put_at (ob_key ob) 0 (zeros 16) \<rparr>)
      in ob\<lparr> ob_nonce := zeros 16 \<rparr>)"

definition siv128_set_key ::
  "packet_object \<Rightarrow> bytes option \<Rightarrow> nat \<Rightarrow> (packet_object \<times> bool) option" where
  "siv128_set_key ob key len =
     (if len = 16 \<and> key \<noteq> None
      then Some (ob\<lparr> ob_key := put_at (ob_key ob) 0 (take 16 (the key)) \<rparr>, True)
      else if len = 0 then Some (ob\<lparr> ob_key := put_at (ob_key ob) 0 (zeros 16) \<rparr>, True)
      else Some (ob, False))"

definition siv128_set_nonce :: "packet_object \<Rightarrow> bytes \<Rightarrow> nat \<Rightarrow> packet_object" where
  "siv128_set_nonce ob nonce len = ob\<lparr> ob_nonce := copy_nonce 16 (ob_nonce ob) nonce len \<rparr>"

definition siv128_set_counter :: "packet_object \<Rightarrow> u64 \<Rightarrow> packet_object" where
  "siv128_set_counter ob n = ob\<lparr> ob_nonce := ascon_aead_set_counter n \<rparr>"

definition siv128_clear :: "packet_object \<Rightarrow> packet_object" where
  "siv128_clear ob = \<lparr> ob_key = zeros 16, ob_nonce = zeros 16 \<rparr>"

definition siv128_do_encrypt ::
  "'s snp \<Rightarrow> packet_object \<Rightarrow> bytes \<Rightarrow> bytes \<Rightarrow> packet_object \<times> bytes \<times> int" where
  "siv128_do_encrypt P ob m ad =
     (let c = ascon128_siv_encrypt P m ad (ob_nonce ob) (ob_key ob); clen = length m + 16;
          ob = ob\<lparr> ob_nonce := ascon_aead_increment_nonce (ob_nonce ob) \<rparr>
      in (ob, c, to_int clen))"

definition siv128_do_decrypt ::
  "'s snp \<Rightarrow> packet_object \<Rightarrow> bytes \<Rightarrow> bytes \<Rightarrow> packet_object \<times> int \<times> bytes option" where
  "siv128_do_decrypt P ob c ad =
     (let (result, m) = ascon128_siv_decrypt P c ad (ob_nonce ob) (ob_key ob); mlen = length c - 16
      in if result \<ge> 0 then
           let ob = ob\<lparr> ob_nonce := ascon_aead_increment_nonce (ob_nonce ob) \<rparr>
           in (ob, to_int mlen, m)
         else (ob, -1, m))"

definition siv128 :: "'s snp \<Rightarrow> packet_object packet_class" where
  "siv128 P = \<lparr> cl_key_size = 16, cl_tag_size = 16, cl_nonce_size = 16,
     cl_set_key = siv128_set_key, cl_set_nonce = siv128_set_nonce, cl_set_counter = siv128_set_counter,
     cl_clear = siv128_clear, cl_do_encrypt = siv128_do_encrypt P, cl_do_decrypt = siv128_do_decrypt P \<rparr>"

subsection \<open>\<open>siv128a\<close>\<close>

definition siv128a_new :: packet_object where
  "siv128a_new = \<lparr> ob_key = zeros 16, ob_nonce = zeros 16 \<rparr>"

definition siv128a_with_key :: "packet_object \<Rightarrow> bytes option \<Rightarrow> packet_object" where
  "siv128a_with_key ob key =
     (let ob = (case key of
            Some key \<Rightarrow> ob\<lparr> ob_key := put_at (ob_key ob) 0 (take 16 key) \<rparr>
          | None \<Rightarrow> ob\<lparr> ob_key := put_at (ob_key ob) 0 (zeros 16) \<rparr>)
      in ob\<lparr> ob_nonce := zeros 16 \<rparr>)"

definition siv128a_set_key ::
  "packet_object \<Rightarrow> bytes option \<Rightarrow> nat \<Rightarrow> (packet_object \<times> bool) option" where
  "siv128a_set_key ob key len =
     (if len = 16 \<and> key \<noteq> None
      then Some (ob\<lparr> ob_key := put_at (ob_key ob) 0 (take 16 (the key)) \<rparr>, True)
      else if len = 0 then Some (ob\<lparr> ob_key := put_at (ob_key ob) 0 (zeros 16) \<rparr>, True)
      else Some (ob, False))"

definition siv128a_set_nonce :: "packet_object \<Rightarrow> bytes \<Rightarrow> nat \<Rightarrow> packet_object" where
  "siv128a_set_nonce ob nonce len = ob\<lparr> ob_nonce := copy_nonce 16 (ob_nonce ob) nonce len \<rparr>"

definition siv128a_set_counter :: "packet_object \<Rightarrow> u64 \<Rightarrow> packet_object" where
  "siv128a_set_counter ob n = ob\<lparr> ob_nonce := ascon_aead_set_counter n \<rparr>"

definition siv128a_clear :: "packet_object \<Rightarrow> packet_object" where
  "siv128a_clear ob = \<lparr> ob_key = zeros 16, ob_nonce = zeros 16 \<rparr>"

definition siv128a_do_encrypt ::
  "'s snp \<Rightarrow> packet_object \<Rightarrow> bytes \<Rightarrow> bytes \<Rightarrow> packet_object \<times> bytes \<times> int" where
  "siv128a_do_encrypt P ob m ad =
     (let c = ascon128a_siv_encrypt P m ad (ob_nonce ob) (ob_key ob); clen = length m + 16;
          ob = ob\<lparr> ob_nonce := ascon_aead_increment_nonce (ob_nonce ob) \<rparr>
      in (ob, c, to_int clen))"

definition siv128a_do_decrypt ::
  "'s snp \<Rightarrow> packet_object \<Rightarrow> bytes \<Rightarrow> bytes \<Rightarrow> packet_object \<times> int \<times> bytes option" where
  "siv128a_do_decrypt P ob c ad =
     (let (result, m) = ascon128a_siv_decrypt P c ad (ob_nonce ob) (ob_key ob); mlen = length c - 16
      in if result \<ge> 0 then
           let ob = ob\<lparr> ob_nonce := ascon_aead_increment_nonce (ob_nonce ob) \<rparr>
           in (ob, to_int mlen, m)
         else (ob, -1, m))"

definition siv128a :: "'s snp \<Rightarrow> packet_object packet_class" where
  "siv128a P = \<lparr> cl_key_size = 16, cl_tag_size = 16, cl_nonce_size = 16,
     cl_set_key = siv128a_set_key, cl_set_nonce = siv128a_set_nonce, cl_set_counter = siv128a_set_counter,
     cl_clear = siv128a_clear, cl_do_encrypt = siv128a_do_encrypt P, cl_do_decrypt = siv128a_do_decrypt P \<rparr>"

subsection \<open>\<open>siv80pq\<close>\<close>

definition siv80pq_new :: packet_object where
  "siv80pq_new = \<lparr> ob_key = zeros 20, ob_nonce = zeros 16 \<rparr>"

definition siv80pq_with_key :: "packet_object \<Rightarrow> bytes option \<Rightarrow> packet_object" where
  "siv80pq_with_key ob key =
     (let ob = (case key of
            Some key \<Rightarrow> ob\<lparr> ob_key := put_at (ob_key ob) 0 (take 16 key) \<rparr>
          | None \<Rightarrow> ob\<lparr> ob_key := put_at (ob_key ob) 0 (zeros 16) \<rparr>)
      in ob\<lparr> ob_nonce := zeros 16 \<rparr>)"

definition siv80pq_set_key ::
  "packet_object \<Rightarrow> bytes option \<Rightarrow> nat \<Rightarrow> (packet_object \<times> bool) option" where
  "siv80pq_set_key ob key len =
     (if len = 20 \<and> key \<noteq> None
      then Some (ob\<lparr> ob_key := put_at (ob_key ob) 0 (take 20 (the key)) \<rparr>, True)
      else if len = 0 then Some (ob\<lparr> ob_key := put_at (ob_key ob) 0 (zeros 20) \<rparr>, True)
      else Some (ob, False))"

definition siv80pq_set_nonce :: "packet_object \<Rightarrow> bytes \<Rightarrow> nat \<Rightarrow> packet_object" where
  "siv80pq_set_nonce ob nonce len = ob\<lparr> ob_nonce := copy_nonce 16 (ob_nonce ob) nonce len \<rparr>"

definition siv80pq_set_counter :: "packet_object \<Rightarrow> u64 \<Rightarrow> packet_object" where
  "siv80pq_set_counter ob n = ob\<lparr> ob_nonce := ascon_aead_set_counter n \<rparr>"

definition siv80pq_clear :: "packet_object \<Rightarrow> packet_object" where
  "siv80pq_clear ob = \<lparr> ob_key = zeros 20, ob_nonce = zeros 16 \<rparr>"

definition siv80pq_do_encrypt ::
  "'s snp \<Rightarrow> packet_object \<Rightarrow> bytes \<Rightarrow> bytes \<Rightarrow> packet_object \<times> bytes \<times> int" where
  "siv80pq_do_encrypt P ob m ad =
     (let c = ascon80pq_siv_encrypt P m ad (ob_nonce ob) (ob_key ob); clen = length m + 16;
          ob = ob\<lparr> ob_nonce := ascon_aead_increment_nonce (ob_nonce ob) \<rparr>
      in (ob, c, to_int clen))"

definition siv80pq_do_decrypt ::
  "'s snp \<Rightarrow> packet_object \<Rightarrow> bytes \<Rightarrow> bytes \<Rightarrow> packet_object \<times> int \<times> bytes option" where
  "siv80pq_do_decrypt P ob c ad =
     (let (result, m) = ascon80pq_siv_decrypt P c ad (ob_nonce ob) (ob_key ob); mlen = length c - 16
      in if result \<ge> 0 then
           let ob = ob\<lparr> ob_nonce := ascon_aead_increment_nonce (ob_nonce ob) \<rparr>
           in (ob, to_int mlen, m)
         else (ob, -1, m))"

definition siv80pq :: "'s snp \<Rightarrow> packet_object packet_class" where
  "siv80pq P = \<lparr> cl_key_size = 20, cl_tag_size = 16, cl_nonce_size = 16,
     cl_set_key = siv80pq_set_key, cl_set_nonce = siv80pq_set_nonce, cl_set_counter = siv80pq_set_counter,
     cl_clear = siv80pq_clear, cl_do_encrypt = siv80pq_do_encrypt P, cl_do_decrypt = siv80pq_do_decrypt P \<rparr>"

section \<open>The contract\<close>

definition holds_key :: "nat \<Rightarrow> packet_object \<Rightarrow> bytes \<Rightarrow> bytes \<Rightarrow> bool" where
  "holds_key len ob k n \<longleftrightarrow> ob_key ob = k \<and> ob_nonce ob = n \<and> length k = len \<and> length n = 16"

lemmas spec_iffs = spec_decrypt_iff[of 8, simplified] spec_decrypt_iff[of 16, simplified]
  spec_siv_decrypt_iff[of 8, simplified] spec_siv_decrypt_iff[of 16, simplified]

lemma length_spec_siv: "0 < R \<Longrightarrow> R \<le> 40 \<Longrightarrow> length (spec_siv_encrypt iv1 iv2 R fr k npub ad m) = length m + 16"
  by (simp add: spec_siv_encrypt_def Let_def length_spec_siv_tag length_spec_siv_stream)

lemmas spec_lengths = length_spec_encrypt length_spec_siv

context snp_laws
begin

lemma aead128_packets:
  "packets (aead128 B) (holds_key 16) (\<lambda>k n ad m. spec_aead_encrypt ASCON128_IV 8 6 k n ad m)"
proof
  fix ob k n m ad c
  assume h: "holds_key 16 ob k n"
  then have kn: "length k = 16" "length n = 16" by (simp_all add: holds_key_def)
  note enc = ascon128_encrypt_spec[OF kn] and dec = ascon128_decrypt_spec[OF kn]
  from h show "\<exists>ob'. cl_do_encrypt (aead128 B) ob m ad =
      (ob', spec_aead_encrypt ASCON128_IV 8 6 k n ad m, to_int (length m + 16)) \<and> holds_key 16 ob' k (ascon_aead_increment_nonce n)"
    by (simp add: aead128_def aead128_do_encrypt_def Let_def holds_key_def enc)
  have "spec_aead_decrypt ASCON128_IV 8 6 k n ad (spec_aead_encrypt ASCON128_IV 8 6 k n ad m) = Some m" by (simp add: spec_iffs)
  with h show "\<exists>ob'. cl_do_decrypt (aead128 B) ob (spec_aead_encrypt ASCON128_IV 8 6 k n ad m) ad =
      (ob', to_int (length m), Some m) \<and> holds_key 16 ob' k (ascon_aead_increment_nonce n)"
    by (simp add: aead128_def aead128_do_decrypt_def Let_def holds_key_def dec spec_lengths)
  show "\<exists>ob' out. cl_do_decrypt (aead128 B) ob c ad = (ob', -1, out) \<and> holds_key 16 ob' k n"
    if bad: "\<And>m. c \<noteq> spec_aead_encrypt ASCON128_IV 8 6 k n ad m"
  proof -
    have "spec_aead_decrypt ASCON128_IV 8 6 k n ad c = None"
      using bad by (cases "spec_aead_decrypt ASCON128_IV 8 6 k n ad c") (simp_all add: spec_iffs)
    with h show ?thesis by (auto simp: aead128_def aead128_do_decrypt_def Let_def holds_key_def dec)
  qed
qed (simp_all add: aead128_def holds_key_def spec_lengths)

lemma aead128a_packets:
  "packets (aead128a B) (holds_key 16) (\<lambda>k n ad m. spec_aead_encrypt ASCON128a_IV 16 4 k n ad m)"
proof
  fix ob k n m ad c
  assume h: "holds_key 16 ob k n"
  then have kn: "length k = 16" "length n = 16" by (simp_all add: holds_key_def)
  note enc = ascon128a_encrypt_spec[OF kn] and dec = ascon128a_decrypt_spec[OF kn]
  from h show "\<exists>ob'. cl_do_encrypt (aead128a B) ob m ad =
      (ob', spec_aead_encrypt ASCON128a_IV 16 4 k n ad m, to_int (length m + 16)) \<and> holds_key 16 ob' k (ascon_aead_increment_nonce n)"
    by (simp add: aead128a_def aead128a_do_encrypt_def Let_def holds_key_def enc)
  have "spec_aead_decrypt ASCON128a_IV 16 4 k n ad (spec_aead_encrypt ASCON128a_IV 16 4 k n ad m) = Some m" by (simp add: spec_iffs)
  with h show "\<exists>ob'. cl_do_decrypt (aead128a B) ob (spec_aead_encrypt ASCON128a_IV 16 4 k n ad m) ad =
      (ob', to_int (length m), Some m) \<and> holds_key 16 ob' k (ascon_aead_increment_nonce n)"
    by (simp add: aead128a_def aead128a_do_decrypt_def Let_def holds_key_def dec spec_lengths)
  show "\<exists>ob' out. cl_do_decrypt (aead128a B) ob c ad = (ob', -1, out) \<and> holds_key 16 ob' k n"
    if bad: "\<And>m. c \<noteq> spec_aead_encrypt ASCON128a_IV 16 4 k n ad m"
  proof -
    have "spec_aead_decrypt ASCON128a_IV 16 4 k n ad c = None"
      using bad by (cases "spec_aead_decrypt ASCON128a_IV 16 4 k n ad c") (simp_all add: spec_iffs)
    with h show ?thesis by (auto simp: aead128a_def aead128a_do_decrypt_def Let_def holds_key_def dec)
  qed
qed (simp_all add: aead128a_def holds_key_def spec_lengths)

lemma aead80pq_packets:
  "packets (aead80pq B) (holds_key 20) (\<lambda>k n ad m. spec_aead_encrypt ASCON80PQ_IV 8 6 k n ad m)"
proof
  fix ob k n m ad c
  assume h: "holds_key 20 ob k n"
  then have kn: "length k = 20" "length n = 16" by (simp_all add: holds_key_def)
  note enc = ascon80pq_encrypt_spec[OF kn] and dec = ascon80pq_decrypt_spec[OF kn]
  from h show "\<exists>ob'. cl_do_encrypt (aead80pq B) ob m ad =
      (ob', spec_aead_encrypt ASCON80PQ_IV 8 6 k n ad m, to_int (length m + 16)) \<and> holds_key 20 ob' k (ascon_aead_increment_nonce n)"
    by (simp add: aead80pq_def aead80pq_do_encrypt_def Let_def holds_key_def enc)
  have "spec_aead_decrypt ASCON80PQ_IV 8 6 k n ad (spec_aead_encrypt ASCON80PQ_IV 8 6 k n ad m) = Some m" by (simp add: spec_iffs)
  with h show "\<exists>ob'. cl_do_decrypt (aead80pq B) ob (spec_aead_encrypt ASCON80PQ_IV 8 6 k n ad m) ad =
      (ob', to_int (length m), Some m) \<and> holds_key 20 ob' k (ascon_aead_increment_nonce n)"
    by (simp add: aead80pq_def aead80pq_do_decrypt_def Let_def holds_key_def dec spec_lengths)
  show "\<exists>ob' out. cl_do_decrypt (aead80pq B) ob c ad = (ob', -1, out) \<and> holds_key 20 ob' k n"
    if bad: "\<And>m. c \<noteq> spec_aead_encrypt ASCON80PQ_IV 8 6 k n ad m"
  proof -
    have "spec_aead_decrypt ASCON80PQ_IV 8 6 k n ad c = None"
      using bad by (cases "spec_aead_decrypt ASCON80PQ_IV 8 6 k n ad c") (simp_all add: spec_iffs)
    with h show ?thesis by (auto simp: aead80pq_def aead80pq_do_decrypt_def Let_def holds_key_def dec)
  qed
qed (simp_all add: aead80pq_def holds_key_def spec_lengths)

lemma siv128_packets:
  "packets (siv128 B) (holds_key 16) (\<lambda>k n ad m. spec_siv_encrypt ASCON128_IV1 ASCON128_IV2 8 6 k n ad m)"
proof
  fix ob k n m ad c
  assume h: "holds_key 16 ob k n"
  then have kn: "length k = 16" "length n = 16" by (simp_all add: holds_key_def)
  note enc = ascon128_siv_encrypt_spec[OF kn] and dec = ascon128_siv_decrypt_spec[OF kn]
  from h show "\<exists>ob'. cl_do_encrypt (siv128 B) ob m ad =
      (ob', spec_siv_encrypt ASCON128_IV1 ASCON128_IV2 8 6 k n ad m, to_int (length m + 16)) \<and> holds_key 16 ob' k (ascon_aead_increment_nonce n)"
    by (simp add: siv128_def siv128_do_encrypt_def Let_def holds_key_def enc)
  have "spec_siv_decrypt ASCON128_IV1 ASCON128_IV2 8 6 k n ad (spec_siv_encrypt ASCON128_IV1 ASCON128_IV2 8 6 k n ad m) = Some m" by (simp add: spec_iffs)
  with h show "\<exists>ob'. cl_do_decrypt (siv128 B) ob (spec_siv_encrypt ASCON128_IV1 ASCON128_IV2 8 6 k n ad m) ad =
      (ob', to_int (length m), Some m) \<and> holds_key 16 ob' k (ascon_aead_increment_nonce n)"
    by (simp add: siv128_def siv128_do_decrypt_def Let_def holds_key_def dec spec_lengths)
  show "\<exists>ob' out. cl_do_decrypt (siv128 B) ob c ad = (ob', -1, out) \<and> holds_key 16 ob' k n"
    if bad: "\<And>m. c \<noteq> spec_siv_encrypt ASCON128_IV1 ASCON128_IV2 8 6 k n ad m"
  proof -
    have "spec_siv_decrypt ASCON128_IV1 ASCON128_IV2 8 6 k n ad c = None"
      using bad by (cases "spec_siv_decrypt ASCON128_IV1 ASCON128_IV2 8 6 k n ad c") (simp_all add: spec_iffs)
    with h show ?thesis by (auto simp: siv128_def siv128_do_decrypt_def Let_def holds_key_def dec)
  qed
qed (simp_all add: siv128_def holds_key_def spec_lengths)

lemma siv128a_packets:
  "packets (siv128a B) (holds_key 16) (\<lambda>k n ad m. spec_siv_encrypt ASCON128a_IV1 ASCON128a_IV2 16 4 k n ad m)"
proof
  fix ob k n m ad c
  assume h: "holds_key 16 ob k n"
  then have kn: "length k = 16" "length n = 16" by (simp_all add: holds_key_def)
  note enc = ascon128a_siv_encrypt_spec[OF kn] and dec = ascon128a_siv_decrypt_spec[OF kn]
  from h show "\<exists>ob'. cl_do_encrypt (siv128a B) ob m ad =
      (ob', spec_siv_encrypt ASCON128a_IV1 ASCON128a_IV2 16 4 k n ad m, to_int (length m + 16)) \<and> holds_key 16 ob' k (ascon_aead_increment_nonce n)"
    by (simp add: siv128a_def siv128a_do_encrypt_def Let_def holds_key_def enc)
  have "spec_siv_decrypt ASCON128a_IV1 ASCON128a_IV2 16 4 k n ad (spec_siv_encrypt ASCON128a_IV1 ASCON128a_IV2 16 4 k n ad m) = Some m" by (simp add: spec_iffs)
  with h show "\<exists>ob'. cl_do_decrypt (siv128a B) ob (spec_siv_encrypt ASCON128a_IV1 ASCON128a_IV2 16 4 k n ad m) ad =
      (ob', to_int (length m), Some m) \<and> holds_key 16 ob' k (ascon_aead_increment_nonce n)"
    by (simp add: siv128a_def siv128a_do_decrypt_def Let_def holds_key_def dec spec_lengths)
  show "\<exists>ob' out. cl_do_decrypt (siv128a B) ob c ad = (ob', -1, out) \<and> holds_key 16 ob' k n"
    if bad: "\<And>m. c \<noteq> spec_siv_encrypt ASCON128a_IV1 ASCON128a_IV2 16 4 k n ad m"
  proof -
    have "spec_siv_decrypt ASCON128a_IV1 ASCON128a_IV2 16 4 k n ad c = None"
      using bad by (cases "spec_siv_decrypt ASCON128a_IV1 ASCON128a_IV2 16 4 k n ad c") (simp_all add: spec_iffs)
    with h show ?thesis by (auto simp: siv128a_def siv128a_do_decrypt_def Let_def holds_key_def dec)
  qed
qed (simp_all add: siv128a_def holds_key_def spec_lengths)

lemma siv80pq_packets:
  "packets (siv80pq B) (holds_key 20) (\<lambda>k n ad m. spec_siv_encrypt ASCON80PQ_IV1 ASCON80PQ_IV2 8 6 k n ad m)"
proof
  fix ob k n m ad c
  assume h: "holds_key 20 ob k n"
  then have kn: "length k = 20" "length n = 16" by (simp_all add: holds_key_def)
  note enc = ascon80pq_siv_encrypt_spec[OF kn] and dec = ascon80pq_siv_decrypt_spec[OF kn]
  from h show "\<exists>ob'. cl_do_encrypt (siv80pq B) ob m ad =
      (ob', spec_siv_encrypt ASCON80PQ_IV1 ASCON80PQ_IV2 8 6 k n ad m, to_int (length m + 16)) \<and> holds_key 20 ob' k (ascon_aead_increment_nonce n)"
    by (simp add: siv80pq_def siv80pq_do_encrypt_def Let_def holds_key_def enc)
  have "spec_siv_decrypt ASCON80PQ_IV1 ASCON80PQ_IV2 8 6 k n ad (spec_siv_encrypt ASCON80PQ_IV1 ASCON80PQ_IV2 8 6 k n ad m) = Some m" by (simp add: spec_iffs)
  with h show "\<exists>ob'. cl_do_decrypt (siv80pq B) ob (spec_siv_encrypt ASCON80PQ_IV1 ASCON80PQ_IV2 8 6 k n ad m) ad =
      (ob', to_int (length m), Some m) \<and> holds_key 20 ob' k (ascon_aead_increment_nonce n)"
    by (simp add: siv80pq_def siv80pq_do_decrypt_def Let_def holds_key_def dec spec_lengths)
  show "\<exists>ob' out. cl_do_decrypt (siv80pq B) ob c ad = (ob', -1, out) \<and> holds_key 20 ob' k n"
    if bad: "\<And>m. c \<noteq> spec_siv_encrypt ASCON80PQ_IV1 ASCON80PQ_IV2 8 6 k n ad m"
  proof -
    have "spec_siv_decrypt ASCON80PQ_IV1 ASCON80PQ_IV2 8 6 k n ad c = None"
      using bad by (cases "spec_siv_decrypt ASCON80PQ_IV1 ASCON80PQ_IV2 8 6 k n ad c") (simp_all add: spec_iffs)
    with h show ?thesis by (auto simp: siv80pq_def siv80pq_do_decrypt_def Let_def holds_key_def dec)
  qed
qed (simp_all add: siv80pq_def holds_key_def spec_lengths)

end

text \<open>On the word backend.\<close>

interpretation cpp_aead128: packets "aead128 (sliced64 le)" "holds_key 16" "\<lambda>k n ad m. spec_aead_encrypt ASCON128_IV 8 6 k n ad m" for le
  by (rule sliced64.aead128_packets)

interpretation cpp_aead128a: packets "aead128a (sliced64 le)" "holds_key 16" "\<lambda>k n ad m. spec_aead_encrypt ASCON128a_IV 16 4 k n ad m" for le
  by (rule sliced64.aead128a_packets)

interpretation cpp_aead80pq: packets "aead80pq (sliced64 le)" "holds_key 20" "\<lambda>k n ad m. spec_aead_encrypt ASCON80PQ_IV 8 6 k n ad m" for le
  by (rule sliced64.aead80pq_packets)

interpretation cpp_siv128: packets "siv128 (sliced64 le)" "holds_key 16" "\<lambda>k n ad m. spec_siv_encrypt ASCON128_IV1 ASCON128_IV2 8 6 k n ad m" for le
  by (rule sliced64.siv128_packets)

interpretation cpp_siv128a: packets "siv128a (sliced64 le)" "holds_key 16" "\<lambda>k n ad m. spec_siv_encrypt ASCON128a_IV1 ASCON128a_IV2 16 4 k n ad m" for le
  by (rule sliced64.siv128a_packets)

interpretation cpp_siv80pq: packets "siv80pq (sliced64 le)" "holds_key 20" "\<lambda>k n ad m. spec_siv_encrypt ASCON80PQ_IV1 ASCON80PQ_IV2 8 6 k n ad m" for le
  by (rule sliced64.siv80pq_packets)

end
