(* ===== verification/Cpp_Isap.thy ===== *)
theory Cpp_Isap
  imports Cpp_Class Isap
begin

text \<open>
  The classes \<open>isap128\<close>, \<open>isap128a\<close> and \<open>isap80pq\<close> (\<open>cplusplus/ascon-isap-cpp.cpp\<close>), which hold a
  precomputed key.  A key may be given in its saved form of 80 bytes.  A null pointer that the code
  reads through is a crash, \<open>None\<close>; this happens in the constructor, and in \<open>set_key\<close> when the length is zero,
  where the code passes the pointer on in place of \<open>zero_key\<close>.
\<close>

definition zero_key :: bytes where
  "zero_key = zeros 20"

record 's isap_object =
  io_key :: "'s isap_key"
  io_nonce :: bytes

section \<open>\<open>isap128\<close>\<close>

definition isap128_new :: "'s snp \<Rightarrow> 's isap_object" where
  "isap128_new P = \<lparr> io_key = isap_aead_init P ascon128_isap (take 16 zero_key), io_nonce = zeros 16 \<rparr>"

definition isap128_with_key :: "'s snp \<Rightarrow> bytes option \<Rightarrow> nat \<Rightarrow> 's isap_object option" where
  "isap128_with_key P key len =
     (let m_key =
        (if len = 16 then
           (case key of Some key \<Rightarrow> Some (isap_aead_init P ascon128_isap (take 16 key)) | None \<Rightarrow> None)
         else if len = 80 then
           (case key of Some key \<Rightarrow> Some (isap_aead_load_key P key) | None \<Rightarrow> None)
         else Some (isap_aead_init P ascon128_isap (take 16 zero_key)))
      in map_option (\<lambda>m_key. \<lparr> io_key = m_key, io_nonce = zeros 16 \<rparr>) m_key)"

definition isap128_save_key :: "'s snp \<Rightarrow> 's isap_object \<Rightarrow> 's isap_object \<times> bytes" where
  "isap128_save_key P ob =
     (let (m_key, key) = isap_aead_save_key P (io_key ob) in (ob\<lparr> io_key := m_key \<rparr>, key))"

definition isap128_set_key ::
  "'s snp \<Rightarrow> 's isap_object \<Rightarrow> bytes option \<Rightarrow> nat \<Rightarrow> ('s isap_object \<times> bool) option" where
  "isap128_set_key P ob key len =
     (if len = 16 \<and> key \<noteq> None then
        Some (ob\<lparr> io_key := isap_aead_init P ascon128_isap (take 16 (the key)) \<rparr>, True)
      else if len = 80 \<and> key \<noteq> None then
        Some (ob\<lparr> io_key := isap_aead_load_key P (the key) \<rparr>, True)
      else if len = 0 then
        (case key of
           Some key \<Rightarrow> Some (ob\<lparr> io_key := isap_aead_init P ascon128_isap (take 16 key) \<rparr>, True)
         | None \<Rightarrow> None)
      else Some (ob, False))"

definition isap128_set_nonce :: "'s isap_object \<Rightarrow> bytes \<Rightarrow> nat \<Rightarrow> 's isap_object" where
  "isap128_set_nonce ob nonce len = ob\<lparr> io_nonce := copy_nonce 16 (io_nonce ob) nonce len \<rparr>"

definition isap128_set_counter :: "'s isap_object \<Rightarrow> u64 \<Rightarrow> 's isap_object" where
  "isap128_set_counter ob n = ob\<lparr> io_nonce := ascon_aead_set_counter n \<rparr>"

definition isap128_clear :: "'s snp \<Rightarrow> 's isap_object \<Rightarrow> 's isap_object" where
  "isap128_clear P ob = \<lparr> io_key = isap_aead_init P ascon128_isap (take 16 zero_key), io_nonce = zeros 16 \<rparr>"

definition isap128_do_encrypt ::
  "'s snp \<Rightarrow> ('s \<Rightarrow> u8 \<Rightarrow> nat \<Rightarrow> 's) \<Rightarrow> 's isap_object \<Rightarrow> bytes \<Rightarrow> bytes \<Rightarrow> 's isap_object \<times> bytes \<times> int" where
  "isap128_do_encrypt P add ob m ad =
     (let c = isap_aead_encrypt P add ascon128_isap m ad (io_nonce ob) (io_key ob); clen = length m + 16;
          ob = ob\<lparr> io_nonce := ascon_aead_increment_nonce (io_nonce ob) \<rparr>
      in (ob, c, to_int clen))"

definition isap128_do_decrypt ::
  "'s snp \<Rightarrow> ('s \<Rightarrow> u8 \<Rightarrow> nat \<Rightarrow> 's) \<Rightarrow> 's isap_object \<Rightarrow> bytes \<Rightarrow> bytes \<Rightarrow>
     's isap_object \<times> int \<times> bytes option" where
  "isap128_do_decrypt P add ob c ad =
     (let (result, m) = isap_aead_decrypt P add ascon128_isap c ad (io_nonce ob) (io_key ob); mlen = length c - 16
      in if result \<ge> 0 then
           let ob = ob\<lparr> io_nonce := ascon_aead_increment_nonce (io_nonce ob) \<rparr>
           in (ob, to_int mlen, m)
         else (ob, -1, m))"

definition isap128 :: "'s snp \<Rightarrow> ('s \<Rightarrow> u8 \<Rightarrow> nat \<Rightarrow> 's) \<Rightarrow> 's isap_object packet_class" where
  "isap128 P add = \<lparr> cl_key_size = 16, cl_tag_size = 16, cl_nonce_size = 16,
     cl_set_key = isap128_set_key P, cl_set_nonce = isap128_set_nonce, cl_set_counter = isap128_set_counter,
     cl_clear = isap128_clear P, cl_do_encrypt = isap128_do_encrypt P add, cl_do_decrypt = isap128_do_decrypt P add \<rparr>"

section \<open>\<open>isap128a\<close>\<close>

definition isap128a_new :: "'s snp \<Rightarrow> 's isap_object" where
  "isap128a_new P = \<lparr> io_key = isap_aead_init P ascon128a_isap (take 16 zero_key), io_nonce = zeros 16 \<rparr>"

definition isap128a_with_key :: "'s snp \<Rightarrow> bytes option \<Rightarrow> nat \<Rightarrow> 's isap_object option" where
  "isap128a_with_key P key len =
     (let m_key =
        (if len = 16 then
           (case key of Some key \<Rightarrow> Some (isap_aead_init P ascon128a_isap (take 16 key)) | None \<Rightarrow> None)
         else if len = 80 then
           (case key of Some key \<Rightarrow> Some (isap_aead_load_key P key) | None \<Rightarrow> None)
         else Some (isap_aead_init P ascon128a_isap (take 16 zero_key)))
      in map_option (\<lambda>m_key. \<lparr> io_key = m_key, io_nonce = zeros 16 \<rparr>) m_key)"

definition isap128a_save_key :: "'s snp \<Rightarrow> 's isap_object \<Rightarrow> 's isap_object \<times> bytes" where
  "isap128a_save_key P ob =
     (let (m_key, key) = isap_aead_save_key P (io_key ob) in (ob\<lparr> io_key := m_key \<rparr>, key))"

definition isap128a_set_key ::
  "'s snp \<Rightarrow> 's isap_object \<Rightarrow> bytes option \<Rightarrow> nat \<Rightarrow> ('s isap_object \<times> bool) option" where
  "isap128a_set_key P ob key len =
     (if len = 16 \<and> key \<noteq> None then
        Some (ob\<lparr> io_key := isap_aead_init P ascon128a_isap (take 16 (the key)) \<rparr>, True)
      else if len = 80 \<and> key \<noteq> None then
        Some (ob\<lparr> io_key := isap_aead_load_key P (the key) \<rparr>, True)
      else if len = 0 then
        (case key of
           Some key \<Rightarrow> Some (ob\<lparr> io_key := isap_aead_init P ascon128a_isap (take 16 key) \<rparr>, True)
         | None \<Rightarrow> None)
      else Some (ob, False))"

definition isap128a_set_nonce :: "'s isap_object \<Rightarrow> bytes \<Rightarrow> nat \<Rightarrow> 's isap_object" where
  "isap128a_set_nonce ob nonce len = ob\<lparr> io_nonce := copy_nonce 16 (io_nonce ob) nonce len \<rparr>"

definition isap128a_set_counter :: "'s isap_object \<Rightarrow> u64 \<Rightarrow> 's isap_object" where
  "isap128a_set_counter ob n = ob\<lparr> io_nonce := ascon_aead_set_counter n \<rparr>"

definition isap128a_clear :: "'s snp \<Rightarrow> 's isap_object \<Rightarrow> 's isap_object" where
  "isap128a_clear P ob = \<lparr> io_key = isap_aead_init P ascon128a_isap (take 16 zero_key), io_nonce = zeros 16 \<rparr>"

definition isap128a_do_encrypt ::
  "'s snp \<Rightarrow> ('s \<Rightarrow> u8 \<Rightarrow> nat \<Rightarrow> 's) \<Rightarrow> 's isap_object \<Rightarrow> bytes \<Rightarrow> bytes \<Rightarrow> 's isap_object \<times> bytes \<times> int" where
  "isap128a_do_encrypt P add ob m ad =
     (let c = isap_aead_encrypt P add ascon128a_isap m ad (io_nonce ob) (io_key ob); clen = length m + 16;
          ob = ob\<lparr> io_nonce := ascon_aead_increment_nonce (io_nonce ob) \<rparr>
      in (ob, c, to_int clen))"

definition isap128a_do_decrypt ::
  "'s snp \<Rightarrow> ('s \<Rightarrow> u8 \<Rightarrow> nat \<Rightarrow> 's) \<Rightarrow> 's isap_object \<Rightarrow> bytes \<Rightarrow> bytes \<Rightarrow>
     's isap_object \<times> int \<times> bytes option" where
  "isap128a_do_decrypt P add ob c ad =
     (let (result, m) = isap_aead_decrypt P add ascon128a_isap c ad (io_nonce ob) (io_key ob); mlen = length c - 16
      in if result \<ge> 0 then
           let ob = ob\<lparr> io_nonce := ascon_aead_increment_nonce (io_nonce ob) \<rparr>
           in (ob, to_int mlen, m)
         else (ob, -1, m))"

definition isap128a :: "'s snp \<Rightarrow> ('s \<Rightarrow> u8 \<Rightarrow> nat \<Rightarrow> 's) \<Rightarrow> 's isap_object packet_class" where
  "isap128a P add = \<lparr> cl_key_size = 16, cl_tag_size = 16, cl_nonce_size = 16,
     cl_set_key = isap128a_set_key P, cl_set_nonce = isap128a_set_nonce, cl_set_counter = isap128a_set_counter,
     cl_clear = isap128a_clear P, cl_do_encrypt = isap128a_do_encrypt P add, cl_do_decrypt = isap128a_do_decrypt P add \<rparr>"

section \<open>\<open>isap80pq\<close>\<close>

definition isap80pq_new :: "'s snp \<Rightarrow> 's isap_object" where
  "isap80pq_new P = \<lparr> io_key = isap_aead_init P ascon80pq_isap (take 20 zero_key), io_nonce = zeros 16 \<rparr>"

definition isap80pq_with_key :: "'s snp \<Rightarrow> bytes option \<Rightarrow> nat \<Rightarrow> 's isap_object option" where
  "isap80pq_with_key P key len =
     (let m_key =
        (if len = 20 then
           (case key of Some key \<Rightarrow> Some (isap_aead_init P ascon80pq_isap (take 20 key)) | None \<Rightarrow> None)
         else if len = 80 then
           (case key of Some key \<Rightarrow> Some (isap_aead_load_key P key) | None \<Rightarrow> None)
         else Some (isap_aead_init P ascon80pq_isap (take 20 zero_key)))
      in map_option (\<lambda>m_key. \<lparr> io_key = m_key, io_nonce = zeros 16 \<rparr>) m_key)"

definition isap80pq_save_key :: "'s snp \<Rightarrow> 's isap_object \<Rightarrow> 's isap_object \<times> bytes" where
  "isap80pq_save_key P ob =
     (let (m_key, key) = isap_aead_save_key P (io_key ob) in (ob\<lparr> io_key := m_key \<rparr>, key))"

definition isap80pq_set_key ::
  "'s snp \<Rightarrow> 's isap_object \<Rightarrow> bytes option \<Rightarrow> nat \<Rightarrow> ('s isap_object \<times> bool) option" where
  "isap80pq_set_key P ob key len =
     (if len = 20 \<and> key \<noteq> None then
        Some (ob\<lparr> io_key := isap_aead_init P ascon80pq_isap (take 20 (the key)) \<rparr>, True)
      else if len = 80 \<and> key \<noteq> None then
        Some (ob\<lparr> io_key := isap_aead_load_key P (the key) \<rparr>, True)
      else if len = 0 then
        (case key of
           Some key \<Rightarrow> Some (ob\<lparr> io_key := isap_aead_init P ascon80pq_isap (take 20 key) \<rparr>, True)
         | None \<Rightarrow> None)
      else Some (ob, False))"

definition isap80pq_set_nonce :: "'s isap_object \<Rightarrow> bytes \<Rightarrow> nat \<Rightarrow> 's isap_object" where
  "isap80pq_set_nonce ob nonce len = ob\<lparr> io_nonce := copy_nonce 16 (io_nonce ob) nonce len \<rparr>"

definition isap80pq_set_counter :: "'s isap_object \<Rightarrow> u64 \<Rightarrow> 's isap_object" where
  "isap80pq_set_counter ob n = ob\<lparr> io_nonce := ascon_aead_set_counter n \<rparr>"

definition isap80pq_clear :: "'s snp \<Rightarrow> 's isap_object \<Rightarrow> 's isap_object" where
  "isap80pq_clear P ob = \<lparr> io_key = isap_aead_init P ascon80pq_isap (take 20 zero_key), io_nonce = zeros 16 \<rparr>"

definition isap80pq_do_encrypt ::
  "'s snp \<Rightarrow> ('s \<Rightarrow> u8 \<Rightarrow> nat \<Rightarrow> 's) \<Rightarrow> 's isap_object \<Rightarrow> bytes \<Rightarrow> bytes \<Rightarrow> 's isap_object \<times> bytes \<times> int" where
  "isap80pq_do_encrypt P add ob m ad =
     (let c = isap_aead_encrypt P add ascon80pq_isap m ad (io_nonce ob) (io_key ob); clen = length m + 16;
          ob = ob\<lparr> io_nonce := ascon_aead_increment_nonce (io_nonce ob) \<rparr>
      in (ob, c, to_int clen))"

definition isap80pq_do_decrypt ::
  "'s snp \<Rightarrow> ('s \<Rightarrow> u8 \<Rightarrow> nat \<Rightarrow> 's) \<Rightarrow> 's isap_object \<Rightarrow> bytes \<Rightarrow> bytes \<Rightarrow>
     's isap_object \<times> int \<times> bytes option" where
  "isap80pq_do_decrypt P add ob c ad =
     (let (result, m) = isap_aead_decrypt P add ascon80pq_isap c ad (io_nonce ob) (io_key ob); mlen = length c - 16
      in if result \<ge> 0 then
           let ob = ob\<lparr> io_nonce := ascon_aead_increment_nonce (io_nonce ob) \<rparr>
           in (ob, to_int mlen, m)
         else (ob, -1, m))"

definition isap80pq :: "'s snp \<Rightarrow> ('s \<Rightarrow> u8 \<Rightarrow> nat \<Rightarrow> 's) \<Rightarrow> 's isap_object packet_class" where
  "isap80pq P add = \<lparr> cl_key_size = 20, cl_tag_size = 16, cl_nonce_size = 16,
     cl_set_key = isap80pq_set_key P, cl_set_nonce = isap80pq_set_nonce, cl_set_counter = isap80pq_set_counter,
     cl_clear = isap80pq_clear P, cl_do_encrypt = isap80pq_do_encrypt P add, cl_do_decrypt = isap80pq_do_decrypt P add \<rparr>"

section \<open>The contract\<close>

definition holds_isap ::
  "('s \<Rightarrow> bytes \<Rightarrow> bool) \<Rightarrow> isap_alg \<Rightarrow> 's isap_object \<Rightarrow> bytes \<Rightarrow> bytes \<Rightarrow> bool" where
  "holds_isap rep A ob k n \<longleftrightarrow> isap_rep rep A (io_key ob) k \<and> io_nonce ob = n \<and> length n = 16"

lemma length_spec_isap: "length (spec_isap_encrypt A k npub ad m) = length m + 16"
  by (simp add: spec_isap_encrypt_def Let_def length_spec_isap_mac length_spec_isap_stream)

context isap_backend
begin

lemma isap128_packets:
  "packets (isap128 B add) (holds_isap rep ascon128_isap) (\<lambda>k n ad m. spec_isap_encrypt ascon128_isap k n ad m)"
proof
  have A: "16 \<le> isap_key_size ascon128_isap" "isap_key_size ascon128_isap \<le> 32" by (simp_all add: ascon128_isap_def)
  fix ob k n m ad c
  assume h: "holds_isap rep ascon128_isap ob k n"
  then have kn: "isap_rep rep ascon128_isap (io_key ob) k" "length n = 16" by (simp_all add: holds_isap_def)
  note enc = isap_encrypt_spec[OF kn A] and dec = isap_decrypt_spec[OF kn A]
  from h show "\<exists>ob'. cl_do_encrypt (isap128 B add) ob m ad =
      (ob', spec_isap_encrypt ascon128_isap k n ad m, to_int (length m + 16)) \<and>
      holds_isap rep ascon128_isap ob' k (ascon_aead_increment_nonce n)"
    by (simp add: isap128_def isap128_do_encrypt_def Let_def holds_isap_def enc)
  have "spec_isap_decrypt ascon128_isap k n ad (spec_isap_encrypt ascon128_isap k n ad m) = Some m"
    by (simp add: spec_isap_decrypt_iff)
  with h show "\<exists>ob'. cl_do_decrypt (isap128 B add) ob (spec_isap_encrypt ascon128_isap k n ad m) ad =
      (ob', to_int (length m), Some m) \<and> holds_isap rep ascon128_isap ob' k (ascon_aead_increment_nonce n)"
    by (simp add: isap128_def isap128_do_decrypt_def Let_def holds_isap_def dec length_spec_isap)
  show "\<exists>ob' out. cl_do_decrypt (isap128 B add) ob c ad = (ob', -1, out) \<and> holds_isap rep ascon128_isap ob' k n"
    if bad: "\<And>m. c \<noteq> spec_isap_encrypt ascon128_isap k n ad m"
  proof -
    have "spec_isap_decrypt ascon128_isap k n ad c = None"
      using bad by (cases "spec_isap_decrypt ascon128_isap k n ad c") (simp_all add: spec_isap_decrypt_iff)
    with h show ?thesis by (auto simp: isap128_def isap128_do_decrypt_def Let_def holds_isap_def dec)
  qed
qed (simp_all add: isap128_def holds_isap_def length_spec_isap)

lemma isap128a_packets:
  "packets (isap128a B add) (holds_isap rep ascon128a_isap) (\<lambda>k n ad m. spec_isap_encrypt ascon128a_isap k n ad m)"
proof
  have A: "16 \<le> isap_key_size ascon128a_isap" "isap_key_size ascon128a_isap \<le> 32" by (simp_all add: ascon128a_isap_def)
  fix ob k n m ad c
  assume h: "holds_isap rep ascon128a_isap ob k n"
  then have kn: "isap_rep rep ascon128a_isap (io_key ob) k" "length n = 16" by (simp_all add: holds_isap_def)
  note enc = isap_encrypt_spec[OF kn A] and dec = isap_decrypt_spec[OF kn A]
  from h show "\<exists>ob'. cl_do_encrypt (isap128a B add) ob m ad =
      (ob', spec_isap_encrypt ascon128a_isap k n ad m, to_int (length m + 16)) \<and>
      holds_isap rep ascon128a_isap ob' k (ascon_aead_increment_nonce n)"
    by (simp add: isap128a_def isap128a_do_encrypt_def Let_def holds_isap_def enc)
  have "spec_isap_decrypt ascon128a_isap k n ad (spec_isap_encrypt ascon128a_isap k n ad m) = Some m"
    by (simp add: spec_isap_decrypt_iff)
  with h show "\<exists>ob'. cl_do_decrypt (isap128a B add) ob (spec_isap_encrypt ascon128a_isap k n ad m) ad =
      (ob', to_int (length m), Some m) \<and> holds_isap rep ascon128a_isap ob' k (ascon_aead_increment_nonce n)"
    by (simp add: isap128a_def isap128a_do_decrypt_def Let_def holds_isap_def dec length_spec_isap)
  show "\<exists>ob' out. cl_do_decrypt (isap128a B add) ob c ad = (ob', -1, out) \<and> holds_isap rep ascon128a_isap ob' k n"
    if bad: "\<And>m. c \<noteq> spec_isap_encrypt ascon128a_isap k n ad m"
  proof -
    have "spec_isap_decrypt ascon128a_isap k n ad c = None"
      using bad by (cases "spec_isap_decrypt ascon128a_isap k n ad c") (simp_all add: spec_isap_decrypt_iff)
    with h show ?thesis by (auto simp: isap128a_def isap128a_do_decrypt_def Let_def holds_isap_def dec)
  qed
qed (simp_all add: isap128a_def holds_isap_def length_spec_isap)

lemma isap80pq_packets:
  "packets (isap80pq B add) (holds_isap rep ascon80pq_isap) (\<lambda>k n ad m. spec_isap_encrypt ascon80pq_isap k n ad m)"
proof
  have A: "16 \<le> isap_key_size ascon80pq_isap" "isap_key_size ascon80pq_isap \<le> 32" by (simp_all add: ascon80pq_isap_def)
  fix ob k n m ad c
  assume h: "holds_isap rep ascon80pq_isap ob k n"
  then have kn: "isap_rep rep ascon80pq_isap (io_key ob) k" "length n = 16" by (simp_all add: holds_isap_def)
  note enc = isap_encrypt_spec[OF kn A] and dec = isap_decrypt_spec[OF kn A]
  from h show "\<exists>ob'. cl_do_encrypt (isap80pq B add) ob m ad =
      (ob', spec_isap_encrypt ascon80pq_isap k n ad m, to_int (length m + 16)) \<and>
      holds_isap rep ascon80pq_isap ob' k (ascon_aead_increment_nonce n)"
    by (simp add: isap80pq_def isap80pq_do_encrypt_def Let_def holds_isap_def enc)
  have "spec_isap_decrypt ascon80pq_isap k n ad (spec_isap_encrypt ascon80pq_isap k n ad m) = Some m"
    by (simp add: spec_isap_decrypt_iff)
  with h show "\<exists>ob'. cl_do_decrypt (isap80pq B add) ob (spec_isap_encrypt ascon80pq_isap k n ad m) ad =
      (ob', to_int (length m), Some m) \<and> holds_isap rep ascon80pq_isap ob' k (ascon_aead_increment_nonce n)"
    by (simp add: isap80pq_def isap80pq_do_decrypt_def Let_def holds_isap_def dec length_spec_isap)
  show "\<exists>ob' out. cl_do_decrypt (isap80pq B add) ob c ad = (ob', -1, out) \<and> holds_isap rep ascon80pq_isap ob' k n"
    if bad: "\<And>m. c \<noteq> spec_isap_encrypt ascon80pq_isap k n ad m"
  proof -
    have "spec_isap_decrypt ascon80pq_isap k n ad c = None"
      using bad by (cases "spec_isap_decrypt ascon80pq_isap k n ad c") (simp_all add: spec_isap_decrypt_iff)
    with h show ?thesis by (auto simp: isap80pq_def isap80pq_do_decrypt_def Let_def holds_isap_def dec)
  qed
qed (simp_all add: isap80pq_def holds_isap_def length_spec_isap)

end

interpretation cpp_isap128: packets "isap128 (sliced64 le) sliced64_add_bit" "holds_isap rep_sliced64 ascon128_isap"
  "\<lambda>k n ad m. spec_isap_encrypt ascon128_isap k n ad m" for le
  by (rule isap_sliced64.isap128_packets)

interpretation cpp_isap128a: packets "isap128a (sliced64 le) sliced64_add_bit" "holds_isap rep_sliced64 ascon128a_isap"
  "\<lambda>k n ad m. spec_isap_encrypt ascon128a_isap k n ad m" for le
  by (rule isap_sliced64.isap128a_packets)

interpretation cpp_isap80pq: packets "isap80pq (sliced64 le) sliced64_add_bit" "holds_isap rep_sliced64 ascon80pq_isap"
  "\<lambda>k n ad m. spec_isap_encrypt ascon80pq_isap k n ad m" for le
  by (rule isap_sliced64.isap80pq_packets)

end
