(* ===== verification/Cpp_Masked.thy ===== *)
theory Cpp_Masked
  imports Cpp_Class Masked_Backends
begin

text \<open>
  The classes \<open>aead128_masked\<close>, \<open>aead128a_masked\<close> and \<open>aead80pq_masked\<close>
  (\<open>cplusplus/ascon-aead-masked-cpp.cpp\<close>) over a masked backend \<open>MB\<close> with \<open>K\<close> shares of the key and \<open>D\<close> of the
  data and a plain backend \<open>P\<close>.  Each call that masks starts a new generator; \<open>mo_seeds\<close> are the
  states in which the generators of the calls to come will be.  \<open>word\<close> is the scratch word that a function
  finds on its stack.
\<close>

record ('w, 't) masked_object =
  mo_key :: "'w list"
  mo_nonce :: bytes
  mo_seeds :: "nat \<Rightarrow> 't"

text \<open>\<open>ascon_trng_init\<close>: the state of the new generator, and the object with the later ones.\<close>

definition next_seed :: "('w, 't) masked_object \<Rightarrow> ('w, 't) masked_object \<times> 't" where
  "next_seed ob = (ob\<lparr> mo_seeds := \<lambda>i. mo_seeds ob (Suc i) \<rparr>, mo_seeds ob 0)"

definition masked_zero_key :: bytes where
  "masked_zero_key = zeros 20"

section \<open>\<open>aead128_masked\<close>\<close>

definition aead128_masked_new :: "('w, 't) masked_backend \<Rightarrow> (nat \<Rightarrow> 't) \<Rightarrow> ('w, 't) masked_object" where
  "aead128_masked_new MB seeds = \<lparr> mo_key = replicate 2 (mb_clear MB), mo_nonce = zeros 16, mo_seeds = seeds \<rparr>"

definition aead128_masked_with_key ::
  "('w, 't) masked_backend \<Rightarrow> nat \<Rightarrow> ('w, 't) masked_object \<Rightarrow> bytes option \<Rightarrow> ('w, 't) masked_object" where
  "aead128_masked_with_key MB K ob key =
     (let (ob, t) = next_seed ob;
          key = (case key of Some key \<Rightarrow> key | None \<Rightarrow> masked_zero_key);
          ob = ob\<lparr> mo_key := ascon_masked_key_128_init MB K (mo_key ob) (take 16 key) t \<rparr>
      in ob\<lparr> mo_nonce := zeros 16 \<rparr>)"

definition aead128_masked_set_key ::
  "('w, 't) masked_backend \<Rightarrow> nat \<Rightarrow> ('w, 't) masked_object \<Rightarrow> bytes option \<Rightarrow> nat \<Rightarrow>
     (('w, 't) masked_object \<times> bool) option" where
  "aead128_masked_set_key MB K ob key len =
     (if len = 16 \<and> key \<noteq> None then
        let (ob, t) = next_seed ob
        in Some (ob\<lparr> mo_key := ascon_masked_key_128_init MB K (mo_key ob) (take 16 (the key)) t \<rparr>, True)
      else if len = 0 then
        let (ob, t) = next_seed ob
        in Some (ob\<lparr> mo_key := ascon_masked_key_128_init MB K (mo_key ob) (take 16 masked_zero_key) t \<rparr>, True)
      else Some (ob, False))"

definition aead128_masked_set_nonce :: "('w, 't) masked_object \<Rightarrow> bytes \<Rightarrow> nat \<Rightarrow> ('w, 't) masked_object" where
  "aead128_masked_set_nonce ob nonce len = ob\<lparr> mo_nonce := copy_nonce 16 (mo_nonce ob) nonce len \<rparr>"

definition aead128_masked_set_counter :: "('w, 't) masked_object \<Rightarrow> u64 \<Rightarrow> ('w, 't) masked_object" where
  "aead128_masked_set_counter ob n = ob\<lparr> mo_nonce := ascon_aead_set_counter n \<rparr>"

definition aead128_masked_clear :: "('w, 't) masked_backend \<Rightarrow> ('w, 't) masked_object \<Rightarrow> ('w, 't) masked_object" where
  "aead128_masked_clear MB ob = ob\<lparr> mo_key := ascon_masked_key_128_free MB (mo_key ob), mo_nonce := zeros 16 \<rparr>"

definition aead128_masked_randomize_key ::
  "('w, 't) masked_backend \<Rightarrow> nat \<Rightarrow> ('w, 't) masked_object \<Rightarrow> ('w, 't) masked_object" where
  "aead128_masked_randomize_key MB K ob =
     (let (ob, t) = next_seed ob in ob\<lparr> mo_key := ascon_masked_key_128_randomize MB K (mo_key ob) t \<rparr>)"

definition aead128_masked_do_encrypt ::
  "('w, 't) masked_backend \<Rightarrow> nat \<Rightarrow> nat \<Rightarrow> 's snp \<Rightarrow> 'w \<Rightarrow> ('w, 't) masked_object \<Rightarrow> bytes \<Rightarrow> bytes \<Rightarrow>
     ('w, 't) masked_object \<times> bytes \<times> int" where
  "aead128_masked_do_encrypt MB K D P word ob m ad =
     (let (ob, t) = next_seed ob;
          c = ascon128_masked_aead_encrypt MB K D P m ad (mo_nonce ob) (mo_key ob) word t; clen = length m + 16;
          ob = ob\<lparr> mo_nonce := ascon_aead_increment_nonce (mo_nonce ob) \<rparr>
      in (ob, c, to_int clen))"

definition aead128_masked_do_decrypt ::
  "('w, 't) masked_backend \<Rightarrow> nat \<Rightarrow> nat \<Rightarrow> 's snp \<Rightarrow> 'w \<Rightarrow> ('w, 't) masked_object \<Rightarrow> bytes \<Rightarrow> bytes \<Rightarrow>
     ('w, 't) masked_object \<times> int \<times> bytes option" where
  "aead128_masked_do_decrypt MB K D P word ob c ad =
     (let (ob, t) = next_seed ob;
          (result, m) = ascon128_masked_aead_decrypt MB K D P c ad (mo_nonce ob) (mo_key ob) word t;
          mlen = length c - 16
      in if result \<ge> 0 then
           let ob = ob\<lparr> mo_nonce := ascon_aead_increment_nonce (mo_nonce ob) \<rparr>
           in (ob, to_int mlen, m)
         else (ob, -1, m))"

definition aead128_masked ::
  "('w, 't) masked_backend \<Rightarrow> nat \<Rightarrow> nat \<Rightarrow> 's snp \<Rightarrow> 'w \<Rightarrow> ('w, 't) masked_object packet_class" where
  "aead128_masked MB K D P word = \<lparr> cl_key_size = 16, cl_tag_size = 16, cl_nonce_size = 16,
     cl_set_key = aead128_masked_set_key MB K, cl_set_nonce = aead128_masked_set_nonce, cl_set_counter = aead128_masked_set_counter,
     cl_clear = aead128_masked_clear MB, cl_do_encrypt = aead128_masked_do_encrypt MB K D P word,
     cl_do_decrypt = aead128_masked_do_decrypt MB K D P word \<rparr>"

section \<open>\<open>aead128a_masked\<close>\<close>

definition aead128a_masked_new :: "('w, 't) masked_backend \<Rightarrow> (nat \<Rightarrow> 't) \<Rightarrow> ('w, 't) masked_object" where
  "aead128a_masked_new MB seeds = \<lparr> mo_key = replicate 2 (mb_clear MB), mo_nonce = zeros 16, mo_seeds = seeds \<rparr>"

definition aead128a_masked_with_key ::
  "('w, 't) masked_backend \<Rightarrow> nat \<Rightarrow> ('w, 't) masked_object \<Rightarrow> bytes option \<Rightarrow> ('w, 't) masked_object" where
  "aead128a_masked_with_key MB K ob key =
     (let (ob, t) = next_seed ob;
          key = (case key of Some key \<Rightarrow> key | None \<Rightarrow> masked_zero_key);
          ob = ob\<lparr> mo_key := ascon_masked_key_128_init MB K (mo_key ob) (take 16 key) t \<rparr>
      in ob\<lparr> mo_nonce := zeros 16 \<rparr>)"

definition aead128a_masked_set_key ::
  "('w, 't) masked_backend \<Rightarrow> nat \<Rightarrow> ('w, 't) masked_object \<Rightarrow> bytes option \<Rightarrow> nat \<Rightarrow>
     (('w, 't) masked_object \<times> bool) option" where
  "aead128a_masked_set_key MB K ob key len =
     (if len = 16 \<and> key \<noteq> None then
        let (ob, t) = next_seed ob
        in Some (ob\<lparr> mo_key := ascon_masked_key_128_init MB K (mo_key ob) (take 16 (the key)) t \<rparr>, True)
      else if len = 0 then
        let (ob, t) = next_seed ob
        in Some (ob\<lparr> mo_key := ascon_masked_key_128_init MB K (mo_key ob) (take 16 masked_zero_key) t \<rparr>, True)
      else Some (ob, False))"

definition aead128a_masked_set_nonce :: "('w, 't) masked_object \<Rightarrow> bytes \<Rightarrow> nat \<Rightarrow> ('w, 't) masked_object" where
  "aead128a_masked_set_nonce ob nonce len = ob\<lparr> mo_nonce := copy_nonce 16 (mo_nonce ob) nonce len \<rparr>"

definition aead128a_masked_set_counter :: "('w, 't) masked_object \<Rightarrow> u64 \<Rightarrow> ('w, 't) masked_object" where
  "aead128a_masked_set_counter ob n = ob\<lparr> mo_nonce := ascon_aead_set_counter n \<rparr>"

definition aead128a_masked_clear :: "('w, 't) masked_backend \<Rightarrow> ('w, 't) masked_object \<Rightarrow> ('w, 't) masked_object" where
  "aead128a_masked_clear MB ob = ob\<lparr> mo_key := ascon_masked_key_128_free MB (mo_key ob), mo_nonce := zeros 16 \<rparr>"

definition aead128a_masked_randomize_key ::
  "('w, 't) masked_backend \<Rightarrow> nat \<Rightarrow> ('w, 't) masked_object \<Rightarrow> ('w, 't) masked_object" where
  "aead128a_masked_randomize_key MB K ob =
     (let (ob, t) = next_seed ob in ob\<lparr> mo_key := ascon_masked_key_128_randomize MB K (mo_key ob) t \<rparr>)"

definition aead128a_masked_do_encrypt ::
  "('w, 't) masked_backend \<Rightarrow> nat \<Rightarrow> nat \<Rightarrow> 's snp \<Rightarrow> 'w \<Rightarrow> ('w, 't) masked_object \<Rightarrow> bytes \<Rightarrow> bytes \<Rightarrow>
     ('w, 't) masked_object \<times> bytes \<times> int" where
  "aead128a_masked_do_encrypt MB K D P word ob m ad =
     (let (ob, t) = next_seed ob;
          c = ascon128a_masked_aead_encrypt MB K D P m ad (mo_nonce ob) (mo_key ob) word t; clen = length m + 16;
          ob = ob\<lparr> mo_nonce := ascon_aead_increment_nonce (mo_nonce ob) \<rparr>
      in (ob, c, to_int clen))"

definition aead128a_masked_do_decrypt ::
  "('w, 't) masked_backend \<Rightarrow> nat \<Rightarrow> nat \<Rightarrow> 's snp \<Rightarrow> 'w \<Rightarrow> ('w, 't) masked_object \<Rightarrow> bytes \<Rightarrow> bytes \<Rightarrow>
     ('w, 't) masked_object \<times> int \<times> bytes option" where
  "aead128a_masked_do_decrypt MB K D P word ob c ad =
     (let (ob, t) = next_seed ob;
          (result, m) = ascon128a_masked_aead_decrypt MB K D P c ad (mo_nonce ob) (mo_key ob) word t;
          mlen = length c - 16
      in if result \<ge> 0 then
           let ob = ob\<lparr> mo_nonce := ascon_aead_increment_nonce (mo_nonce ob) \<rparr>
           in (ob, to_int mlen, m)
         else (ob, -1, m))"

definition aead128a_masked ::
  "('w, 't) masked_backend \<Rightarrow> nat \<Rightarrow> nat \<Rightarrow> 's snp \<Rightarrow> 'w \<Rightarrow> ('w, 't) masked_object packet_class" where
  "aead128a_masked MB K D P word = \<lparr> cl_key_size = 16, cl_tag_size = 16, cl_nonce_size = 16,
     cl_set_key = aead128a_masked_set_key MB K, cl_set_nonce = aead128a_masked_set_nonce, cl_set_counter = aead128a_masked_set_counter,
     cl_clear = aead128a_masked_clear MB, cl_do_encrypt = aead128a_masked_do_encrypt MB K D P word,
     cl_do_decrypt = aead128a_masked_do_decrypt MB K D P word \<rparr>"

section \<open>\<open>aead80pq_masked\<close>\<close>

definition aead80pq_masked_new :: "('w, 't) masked_backend \<Rightarrow> (nat \<Rightarrow> 't) \<Rightarrow> ('w, 't) masked_object" where
  "aead80pq_masked_new MB seeds = \<lparr> mo_key = replicate 6 (mb_clear MB), mo_nonce = zeros 16, mo_seeds = seeds \<rparr>"

definition aead80pq_masked_with_key ::
  "('w, 't) masked_backend \<Rightarrow> nat \<Rightarrow> ('w, 't) masked_object \<Rightarrow> bytes option \<Rightarrow> ('w, 't) masked_object" where
  "aead80pq_masked_with_key MB K ob key =
     (let (ob, t) = next_seed ob;
          key = (case key of Some key \<Rightarrow> key | None \<Rightarrow> masked_zero_key);
          ob = ob\<lparr> mo_key := ascon_masked_key_160_init MB K (mo_key ob) (take 20 key) t \<rparr>
      in ob\<lparr> mo_nonce := zeros 16 \<rparr>)"

definition aead80pq_masked_set_key ::
  "('w, 't) masked_backend \<Rightarrow> nat \<Rightarrow> ('w, 't) masked_object \<Rightarrow> bytes option \<Rightarrow> nat \<Rightarrow>
     (('w, 't) masked_object \<times> bool) option" where
  "aead80pq_masked_set_key MB K ob key len =
     (if len = 20 \<and> key \<noteq> None then
        let (ob, t) = next_seed ob
        in Some (ob\<lparr> mo_key := ascon_masked_key_160_init MB K (mo_key ob) (take 20 (the key)) t \<rparr>, True)
      else if len = 0 then
        let (ob, t) = next_seed ob
        in Some (ob\<lparr> mo_key := ascon_masked_key_160_init MB K (mo_key ob) (take 20 masked_zero_key) t \<rparr>, True)
      else Some (ob, False))"

definition aead80pq_masked_set_nonce :: "('w, 't) masked_object \<Rightarrow> bytes \<Rightarrow> nat \<Rightarrow> ('w, 't) masked_object" where
  "aead80pq_masked_set_nonce ob nonce len = ob\<lparr> mo_nonce := copy_nonce 16 (mo_nonce ob) nonce len \<rparr>"

definition aead80pq_masked_set_counter :: "('w, 't) masked_object \<Rightarrow> u64 \<Rightarrow> ('w, 't) masked_object" where
  "aead80pq_masked_set_counter ob n = ob\<lparr> mo_nonce := ascon_aead_set_counter n \<rparr>"

definition aead80pq_masked_clear :: "('w, 't) masked_backend \<Rightarrow> ('w, 't) masked_object \<Rightarrow> ('w, 't) masked_object" where
  "aead80pq_masked_clear MB ob = ob\<lparr> mo_key := ascon_masked_key_160_free MB (mo_key ob), mo_nonce := zeros 16 \<rparr>"

definition aead80pq_masked_randomize_key ::
  "('w, 't) masked_backend \<Rightarrow> nat \<Rightarrow> ('w, 't) masked_object \<Rightarrow> ('w, 't) masked_object" where
  "aead80pq_masked_randomize_key MB K ob =
     (let (ob, t) = next_seed ob in ob\<lparr> mo_key := ascon_masked_key_160_randomize MB K (mo_key ob) t \<rparr>)"

definition aead80pq_masked_do_encrypt ::
  "('w, 't) masked_backend \<Rightarrow> nat \<Rightarrow> nat \<Rightarrow> 's snp \<Rightarrow> 'w \<Rightarrow> ('w, 't) masked_object \<Rightarrow> bytes \<Rightarrow> bytes \<Rightarrow>
     ('w, 't) masked_object \<times> bytes \<times> int" where
  "aead80pq_masked_do_encrypt MB K D P word ob m ad =
     (let (ob, t) = next_seed ob;
          c = ascon80pq_masked_aead_encrypt MB K D P m ad (mo_nonce ob) (mo_key ob) word t; clen = length m + 16;
          ob = ob\<lparr> mo_nonce := ascon_aead_increment_nonce (mo_nonce ob) \<rparr>
      in (ob, c, to_int clen))"

definition aead80pq_masked_do_decrypt ::
  "('w, 't) masked_backend \<Rightarrow> nat \<Rightarrow> nat \<Rightarrow> 's snp \<Rightarrow> 'w \<Rightarrow> ('w, 't) masked_object \<Rightarrow> bytes \<Rightarrow> bytes \<Rightarrow>
     ('w, 't) masked_object \<times> int \<times> bytes option" where
  "aead80pq_masked_do_decrypt MB K D P word ob c ad =
     (let (ob, t) = next_seed ob;
          (result, m) = ascon80pq_masked_aead_decrypt MB K D P c ad (mo_nonce ob) (mo_key ob) word t;
          mlen = length c - 16
      in if result \<ge> 0 then
           let ob = ob\<lparr> mo_nonce := ascon_aead_increment_nonce (mo_nonce ob) \<rparr>
           in (ob, to_int mlen, m)
         else (ob, -1, m))"

definition aead80pq_masked ::
  "('w, 't) masked_backend \<Rightarrow> nat \<Rightarrow> nat \<Rightarrow> 's snp \<Rightarrow> 'w \<Rightarrow> ('w, 't) masked_object packet_class" where
  "aead80pq_masked MB K D P word = \<lparr> cl_key_size = 20, cl_tag_size = 16, cl_nonce_size = 16,
     cl_set_key = aead80pq_masked_set_key MB K, cl_set_nonce = aead80pq_masked_set_nonce, cl_set_counter = aead80pq_masked_set_counter,
     cl_clear = aead80pq_masked_clear MB, cl_do_encrypt = aead80pq_masked_do_encrypt MB K D P word,
     cl_do_decrypt = aead80pq_masked_do_decrypt MB K D P word \<rparr>"

section \<open>The contract\<close>

definition holds_masked ::
  "('w list \<Rightarrow> bytes \<Rightarrow> bool) \<Rightarrow> ('w, 't) masked_object \<Rightarrow> bytes \<Rightarrow> bytes \<Rightarrow> bool" where
  "holds_masked masked ob k n \<longleftrightarrow> masked (mo_key ob) k \<and> mo_nonce ob = n \<and> length n = 16"

lemmas masked_spec_iffs = spec_decrypt_iff[of 8, simplified] spec_decrypt_iff[of 16, simplified]

context masking_plain
begin

lemma aead128_masked_packets:
  assumes "shares MB K" "shaped w" "1 \<le> D" "D \<le> K"
  shows "packets (aead128_masked MB K D P w) (holds_masked (key128_masked (mrep K))) (\<lambda>k n ad m. spec_aead_encrypt ASCON128_IV 8 6 k n ad m)"
proof
  fix ob :: "('w, 't) masked_object" and k n m ad c
  assume h: "holds_masked (key128_masked (mrep K)) ob k n"
  then have kn: "key128_masked (mrep K) (mo_key ob) k" "length n = 16" by (simp_all add: holds_masked_def)
  note enc = ascon128_masked_aead_encrypt_spec[OF assms(1) kn(1) assms(2) kn(2) assms(3,4)]
    and dec = ascon128_masked_aead_decrypt_spec[OF assms(1) kn(1) assms(2) kn(2) assms(3,4)]
  from h show "\<exists>ob'. cl_do_encrypt (aead128_masked MB K D P w) ob m ad =
      (ob', spec_aead_encrypt ASCON128_IV 8 6 k n ad m, to_int (length m + 16)) \<and>
      holds_masked (key128_masked (mrep K)) ob' k (ascon_aead_increment_nonce n)"
    by (simp add: aead128_masked_def aead128_masked_do_encrypt_def next_seed_def Let_def holds_masked_def enc)
  have "spec_aead_decrypt ASCON128_IV 8 6 k n ad (spec_aead_encrypt ASCON128_IV 8 6 k n ad m) = Some m"
    by (simp add: masked_spec_iffs)
  with h show "\<exists>ob'. cl_do_decrypt (aead128_masked MB K D P w) ob (spec_aead_encrypt ASCON128_IV 8 6 k n ad m) ad =
      (ob', to_int (length m), Some m) \<and> holds_masked (key128_masked (mrep K)) ob' k (ascon_aead_increment_nonce n)"
    by (simp add: aead128_masked_def aead128_masked_do_decrypt_def next_seed_def Let_def holds_masked_def dec length_spec_encrypt)
  show "\<exists>ob' out. cl_do_decrypt (aead128_masked MB K D P w) ob c ad = (ob', -1, out) \<and>
      holds_masked (key128_masked (mrep K)) ob' k n"
    if bad: "\<And>m. c \<noteq> spec_aead_encrypt ASCON128_IV 8 6 k n ad m"
  proof -
    have "spec_aead_decrypt ASCON128_IV 8 6 k n ad c = None"
      using bad by (cases "spec_aead_decrypt ASCON128_IV 8 6 k n ad c") (simp_all add: masked_spec_iffs)
    with h show ?thesis by (auto simp: aead128_masked_def aead128_masked_do_decrypt_def next_seed_def Let_def holds_masked_def dec)
  qed
qed (simp_all add: aead128_masked_def holds_masked_def length_spec_encrypt)

lemma aead128a_masked_packets:
  assumes "shares MB K" "shaped w" "1 \<le> D" "D \<le> K"
  shows "packets (aead128a_masked MB K D P w) (holds_masked (key128_masked (mrep K))) (\<lambda>k n ad m. spec_aead_encrypt ASCON128a_IV 16 4 k n ad m)"
proof
  fix ob :: "('w, 't) masked_object" and k n m ad c
  assume h: "holds_masked (key128_masked (mrep K)) ob k n"
  then have kn: "key128_masked (mrep K) (mo_key ob) k" "length n = 16" by (simp_all add: holds_masked_def)
  note enc = ascon128a_masked_aead_encrypt_spec[OF assms(1) kn(1) assms(2) kn(2) assms(3,4)]
    and dec = ascon128a_masked_aead_decrypt_spec[OF assms(1) kn(1) assms(2) kn(2) assms(3,4)]
  from h show "\<exists>ob'. cl_do_encrypt (aead128a_masked MB K D P w) ob m ad =
      (ob', spec_aead_encrypt ASCON128a_IV 16 4 k n ad m, to_int (length m + 16)) \<and>
      holds_masked (key128_masked (mrep K)) ob' k (ascon_aead_increment_nonce n)"
    by (simp add: aead128a_masked_def aead128a_masked_do_encrypt_def next_seed_def Let_def holds_masked_def enc)
  have "spec_aead_decrypt ASCON128a_IV 16 4 k n ad (spec_aead_encrypt ASCON128a_IV 16 4 k n ad m) = Some m"
    by (simp add: masked_spec_iffs)
  with h show "\<exists>ob'. cl_do_decrypt (aead128a_masked MB K D P w) ob (spec_aead_encrypt ASCON128a_IV 16 4 k n ad m) ad =
      (ob', to_int (length m), Some m) \<and> holds_masked (key128_masked (mrep K)) ob' k (ascon_aead_increment_nonce n)"
    by (simp add: aead128a_masked_def aead128a_masked_do_decrypt_def next_seed_def Let_def holds_masked_def dec length_spec_encrypt)
  show "\<exists>ob' out. cl_do_decrypt (aead128a_masked MB K D P w) ob c ad = (ob', -1, out) \<and>
      holds_masked (key128_masked (mrep K)) ob' k n"
    if bad: "\<And>m. c \<noteq> spec_aead_encrypt ASCON128a_IV 16 4 k n ad m"
  proof -
    have "spec_aead_decrypt ASCON128a_IV 16 4 k n ad c = None"
      using bad by (cases "spec_aead_decrypt ASCON128a_IV 16 4 k n ad c") (simp_all add: masked_spec_iffs)
    with h show ?thesis by (auto simp: aead128a_masked_def aead128a_masked_do_decrypt_def next_seed_def Let_def holds_masked_def dec)
  qed
qed (simp_all add: aead128a_masked_def holds_masked_def length_spec_encrypt)

lemma aead80pq_masked_packets:
  assumes "shares MB K" "shaped w" "1 \<le> D" "D \<le> K"
  shows "packets (aead80pq_masked MB K D P w) (holds_masked (key160_masked (mrep K))) (\<lambda>k n ad m. spec_aead_encrypt ASCON80PQ_IV 8 6 k n ad m)"
proof
  fix ob :: "('w, 't) masked_object" and k n m ad c
  assume h: "holds_masked (key160_masked (mrep K)) ob k n"
  then have kn: "key160_masked (mrep K) (mo_key ob) k" "length n = 16" by (simp_all add: holds_masked_def)
  note enc = ascon80pq_masked_aead_encrypt_spec[OF assms(1) kn(1) assms(2) kn(2) assms(3,4)]
    and dec = ascon80pq_masked_aead_decrypt_spec[OF assms(1) kn(1) assms(2) kn(2) assms(3,4)]
  from h show "\<exists>ob'. cl_do_encrypt (aead80pq_masked MB K D P w) ob m ad =
      (ob', spec_aead_encrypt ASCON80PQ_IV 8 6 k n ad m, to_int (length m + 16)) \<and>
      holds_masked (key160_masked (mrep K)) ob' k (ascon_aead_increment_nonce n)"
    by (simp add: aead80pq_masked_def aead80pq_masked_do_encrypt_def next_seed_def Let_def holds_masked_def enc)
  have "spec_aead_decrypt ASCON80PQ_IV 8 6 k n ad (spec_aead_encrypt ASCON80PQ_IV 8 6 k n ad m) = Some m"
    by (simp add: masked_spec_iffs)
  with h show "\<exists>ob'. cl_do_decrypt (aead80pq_masked MB K D P w) ob (spec_aead_encrypt ASCON80PQ_IV 8 6 k n ad m) ad =
      (ob', to_int (length m), Some m) \<and> holds_masked (key160_masked (mrep K)) ob' k (ascon_aead_increment_nonce n)"
    by (simp add: aead80pq_masked_def aead80pq_masked_do_decrypt_def next_seed_def Let_def holds_masked_def dec length_spec_encrypt)
  show "\<exists>ob' out. cl_do_decrypt (aead80pq_masked MB K D P w) ob c ad = (ob', -1, out) \<and>
      holds_masked (key160_masked (mrep K)) ob' k n"
    if bad: "\<And>m. c \<noteq> spec_aead_encrypt ASCON80PQ_IV 8 6 k n ad m"
  proof -
    have "spec_aead_decrypt ASCON80PQ_IV 8 6 k n ad c = None"
      using bad by (cases "spec_aead_decrypt ASCON80PQ_IV 8 6 k n ad c") (simp_all add: masked_spec_iffs)
    with h show ?thesis by (auto simp: aead80pq_masked_def aead80pq_masked_do_decrypt_def next_seed_def Let_def holds_masked_def dec)
  qed
qed (simp_all add: aead80pq_masked_def holds_masked_def length_spec_encrypt)

end

text \<open>The default: four shares of the key, two of the data.\<close>

interpretation cpp_aead128_masked: packets "aead128_masked (masked64 R 4) 4 2 (sliced64 le) (replicate 4 0)"
  "holds_masked (key128_masked (rep64 4 4))" "\<lambda>k n ad m. spec_aead_encrypt ASCON128_IV 8 6 k n ad m" for R le
  by (rule default64.aead128_masked_packets) (simp_all add: masked64_def)

interpretation cpp_aead128a_masked: packets "aead128a_masked (masked64 R 4) 4 2 (sliced64 le) (replicate 4 0)"
  "holds_masked (key128_masked (rep64 4 4))" "\<lambda>k n ad m. spec_aead_encrypt ASCON128a_IV 16 4 k n ad m" for R le
  by (rule default64.aead128a_masked_packets) (simp_all add: masked64_def)

interpretation cpp_aead80pq_masked: packets "aead80pq_masked (masked64 R 4) 4 2 (sliced64 le) (replicate 4 0)"
  "holds_masked (key160_masked (rep64 4 4))" "\<lambda>k n ad m. spec_aead_encrypt ASCON80PQ_IV 8 6 k n ad m" for R le
  by (rule default64.aead80pq_masked_packets) (simp_all add: masked64_def)

end
