(* ===== verification/Cpp_Hash.thy ===== *)
theory Cpp_Hash
  imports Hash Snp_Sliced64
begin

text \<open>
  The inline C++ classes of \<open>ascon/xof.h\<close> and \<open>ascon/hash.h\<close>: objects that hold the state of ASCON-XOF,
  ASCON-XOFA, ASCON-HASH or ASCON-HASHA.

  A method takes the state of the object and returns the new one.  Byte arrays and strings are lists of
  bytes, a pointer to characters that may be \<open>NULL\<close> is an option.  \<open>stack\<close> is what the memory of a new object holds before its
  constructor has run; \<open>same\<close> says that an object is assigned to itself.
\<close>

section \<open>xof_with_output_length\<close>

definition xof_new :: "'s snp \<Rightarrow> nat \<Rightarrow> 's xof_state" where
  "xof_new B outlen = (if outlen = 0 then ascon_xof_init B else ascon_xof_init_fixed B outlen)"

definition xof_copy_new :: "'s snp \<Rightarrow> 's xof_state \<Rightarrow> 's xof_state \<Rightarrow> 's xof_state" where
  "xof_copy_new B stack other = ascon_xof_copy B False stack other"

definition xof_named :: "'s snp \<Rightarrow> nat \<Rightarrow> bytes option \<Rightarrow> bytes \<Rightarrow> 's xof_state" where
  "xof_named B outlen function_name custom = ascon_xof_init_custom B function_name custom outlen"

definition xof_named_array :: "'s snp \<Rightarrow> nat \<Rightarrow> bytes option \<Rightarrow> bytes \<Rightarrow> 's xof_state" where
  "xof_named_array B outlen function_name custom = ascon_xof_init_custom B function_name custom outlen"

definition xof_destroy :: "'s snp \<Rightarrow> 's xof_state \<Rightarrow> 's xof_state" where
  "xof_destroy B st = ascon_xof_free B st"

definition xof_assign :: "'s snp \<Rightarrow> bool \<Rightarrow> 's xof_state \<Rightarrow> 's xof_state \<Rightarrow> 's xof_state" where
  "xof_assign B same st other =
     (if \<not> same then let st = ascon_xof_free B st in ascon_xof_copy B False st other else st)"

definition xof_reset :: "'s snp \<Rightarrow> nat \<Rightarrow> 's xof_state \<Rightarrow> 's xof_state" where
  "xof_reset B outlen st = (if outlen = 0 then ascon_xof_reinit B st else ascon_xof_reinit_fixed B st outlen)"

definition xof_absorb_data :: "'s snp \<Rightarrow> 's xof_state \<Rightarrow> bytes \<Rightarrow> 's xof_state" where
  "xof_absorb_data B st data = ascon_xof_absorb B st data"

definition xof_absorb_str :: "'s snp \<Rightarrow> 's xof_state \<Rightarrow> bytes option \<Rightarrow> 's xof_state" where
  "xof_absorb_str B st str = (case str of Some s \<Rightarrow> ascon_xof_absorb B st s | None \<Rightarrow> st)"

definition xof_absorb_array :: "'s snp \<Rightarrow> 's xof_state \<Rightarrow> bytes \<Rightarrow> 's xof_state" where
  "xof_absorb_array B st data = ascon_xof_absorb B st data"

definition xof_absorb_string :: "'s snp \<Rightarrow> 's xof_state \<Rightarrow> bytes \<Rightarrow> 's xof_state" where
  "xof_absorb_string B st str = ascon_xof_absorb B st str"

definition xof_squeeze_data :: "'s snp \<Rightarrow> 's xof_state \<Rightarrow> nat \<Rightarrow> 's xof_state \<times> bytes" where
  "xof_squeeze_data B st len = ascon_xof_squeeze B st len"

definition xof_squeeze_array :: "'s snp \<Rightarrow> 's xof_state \<Rightarrow> nat \<Rightarrow> 's xof_state \<times> bytes" where
  "xof_squeeze_array B st len = (let (st, vec) = ascon_xof_squeeze B st len in (st, vec))"

definition xof_pad :: "'s snp \<Rightarrow> 's xof_state \<Rightarrow> 's xof_state" where
  "xof_pad B st = ascon_xof_pad B st"

section \<open>xofa_with_output_length\<close>

definition xofa_new :: "'s snp \<Rightarrow> nat \<Rightarrow> 's xof_state" where
  "xofa_new B outlen = (if outlen = 0 then ascon_xofa_init B else ascon_xofa_init_fixed B outlen)"

definition xofa_copy_new :: "'s snp \<Rightarrow> 's xof_state \<Rightarrow> 's xof_state \<Rightarrow> 's xof_state" where
  "xofa_copy_new B stack other = ascon_xofa_copy B False stack other"

definition xofa_named :: "'s snp \<Rightarrow> nat \<Rightarrow> bytes option \<Rightarrow> bytes \<Rightarrow> 's xof_state" where
  "xofa_named B outlen function_name custom = ascon_xofa_init_custom B function_name custom outlen"

definition xofa_named_array :: "'s snp \<Rightarrow> nat \<Rightarrow> bytes option \<Rightarrow> bytes \<Rightarrow> 's xof_state" where
  "xofa_named_array B outlen function_name custom = ascon_xofa_init_custom B function_name custom outlen"

definition xofa_destroy :: "'s snp \<Rightarrow> 's xof_state \<Rightarrow> 's xof_state" where
  "xofa_destroy B st = ascon_xofa_free B st"

definition xofa_assign :: "'s snp \<Rightarrow> bool \<Rightarrow> 's xof_state \<Rightarrow> 's xof_state \<Rightarrow> 's xof_state" where
  "xofa_assign B same st other =
     (if \<not> same then let st = ascon_xofa_free B st in ascon_xofa_copy B False st other else st)"

definition xofa_reset :: "'s snp \<Rightarrow> nat \<Rightarrow> 's xof_state \<Rightarrow> 's xof_state" where
  "xofa_reset B outlen st = (if outlen = 0 then ascon_xofa_reinit B st else ascon_xofa_reinit_fixed B st outlen)"

definition xofa_absorb_data :: "'s snp \<Rightarrow> 's xof_state \<Rightarrow> bytes \<Rightarrow> 's xof_state" where
  "xofa_absorb_data B st data = ascon_xofa_absorb B st data"

text \<open>The overloads of \<open>absorb\<close> for strings of this class pass \<open>const char *\<close> for \<open>const unsigned char *\<close> and do not
  compile where they are used; there is no definition for them.\<close>

definition xofa_absorb_array :: "'s snp \<Rightarrow> 's xof_state \<Rightarrow> bytes \<Rightarrow> 's xof_state" where
  "xofa_absorb_array B st data = ascon_xofa_absorb B st data"

definition xofa_squeeze_data :: "'s snp \<Rightarrow> 's xof_state \<Rightarrow> nat \<Rightarrow> 's xof_state \<times> bytes" where
  "xofa_squeeze_data B st len = ascon_xofa_squeeze B st len"

definition xofa_squeeze_array :: "'s snp \<Rightarrow> 's xof_state \<Rightarrow> nat \<Rightarrow> 's xof_state \<times> bytes" where
  "xofa_squeeze_array B st len = (let (st, vec) = ascon_xofa_squeeze B st len in (st, vec))"

definition xofa_pad :: "'s snp \<Rightarrow> 's xof_state \<Rightarrow> 's xof_state" where
  "xofa_pad B st = ascon_xofa_pad B st"

section \<open>hash\<close>

definition hash_new :: "'s snp \<Rightarrow> 's xof_state" where
  "hash_new B = ascon_hash_init B"

definition hash_copy_new :: "'s snp \<Rightarrow> 's xof_state \<Rightarrow> 's xof_state \<Rightarrow> 's xof_state" where
  "hash_copy_new B stack other = ascon_hash_copy B False stack other"

definition hash_destroy :: "'s snp \<Rightarrow> 's xof_state \<Rightarrow> 's xof_state" where
  "hash_destroy B st = ascon_hash_free B st"

definition hash_assign :: "'s snp \<Rightarrow> bool \<Rightarrow> 's xof_state \<Rightarrow> 's xof_state \<Rightarrow> 's xof_state" where
  "hash_assign B same st other =
     (if \<not> same then let st = ascon_hash_free B st in ascon_hash_copy B False st other else st)"

definition hash_reset :: "'s snp \<Rightarrow> 's xof_state \<Rightarrow> 's xof_state" where
  "hash_reset B st = ascon_hash_reinit B st"

definition hash_update_data :: "'s snp \<Rightarrow> 's xof_state \<Rightarrow> bytes \<Rightarrow> 's xof_state" where
  "hash_update_data B st data = ascon_hash_update B st data"

definition hash_update_str :: "'s snp \<Rightarrow> 's xof_state \<Rightarrow> bytes option \<Rightarrow> 's xof_state" where
  "hash_update_str B st str = (case str of Some s \<Rightarrow> ascon_hash_update B st s | None \<Rightarrow> st)"

definition hash_update_array :: "'s snp \<Rightarrow> 's xof_state \<Rightarrow> bytes \<Rightarrow> 's xof_state" where
  "hash_update_array B st data = ascon_hash_update B st data"

definition hash_update_string :: "'s snp \<Rightarrow> 's xof_state \<Rightarrow> bytes \<Rightarrow> 's xof_state" where
  "hash_update_string B st str = ascon_hash_update B st str"

definition hash_finalize_data :: "'s snp \<Rightarrow> 's xof_state \<Rightarrow> 's xof_state \<times> bytes" where
  "hash_finalize_data B st = ascon_hash_finalize B st"

definition hash_finalize_array :: "'s snp \<Rightarrow> 's xof_state \<Rightarrow> 's xof_state \<times> bytes" where
  "hash_finalize_array B st = (let (st, vec) = ascon_hash_finalize B st in (st, vec))"

definition hash_digest :: "'s snp \<Rightarrow> bytes \<Rightarrow> bytes" where
  "hash_digest B data = ascon_hash B data"

section \<open>hasha\<close>

definition hasha_new :: "'s snp \<Rightarrow> 's xof_state" where
  "hasha_new B = ascon_hasha_init B"

definition hasha_copy_new :: "'s snp \<Rightarrow> 's xof_state \<Rightarrow> 's xof_state \<Rightarrow> 's xof_state" where
  "hasha_copy_new B stack other = ascon_hasha_copy B False stack other"

definition hasha_destroy :: "'s snp \<Rightarrow> 's xof_state \<Rightarrow> 's xof_state" where
  "hasha_destroy B st = ascon_hasha_free B st"

definition hasha_assign :: "'s snp \<Rightarrow> bool \<Rightarrow> 's xof_state \<Rightarrow> 's xof_state \<Rightarrow> 's xof_state" where
  "hasha_assign B same st other =
     (if \<not> same then let st = ascon_hasha_free B st in ascon_hasha_copy B False st other else st)"

definition hasha_reset :: "'s snp \<Rightarrow> 's xof_state \<Rightarrow> 's xof_state" where
  "hasha_reset B st = ascon_hasha_reinit B st"

definition hasha_update_data :: "'s snp \<Rightarrow> 's xof_state \<Rightarrow> bytes \<Rightarrow> 's xof_state" where
  "hasha_update_data B st data = ascon_hasha_update B st data"

definition hasha_update_str :: "'s snp \<Rightarrow> 's xof_state \<Rightarrow> bytes option \<Rightarrow> 's xof_state" where
  "hasha_update_str B st str = (case str of Some s \<Rightarrow> ascon_hasha_update B st s | None \<Rightarrow> st)"

definition hasha_update_array :: "'s snp \<Rightarrow> 's xof_state \<Rightarrow> bytes \<Rightarrow> 's xof_state" where
  "hasha_update_array B st data = ascon_hasha_update B st data"

definition hasha_update_string :: "'s snp \<Rightarrow> 's xof_state \<Rightarrow> bytes \<Rightarrow> 's xof_state" where
  "hasha_update_string B st str = ascon_hasha_update B st str"

definition hasha_finalize_data :: "'s snp \<Rightarrow> 's xof_state \<Rightarrow> 's xof_state \<times> bytes" where
  "hasha_finalize_data B st = ascon_hasha_finalize B st"

definition hasha_finalize_array :: "'s snp \<Rightarrow> 's xof_state \<Rightarrow> 's xof_state \<times> bytes" where
  "hasha_finalize_array B st = (let (st, vec) = ascon_hasha_finalize B st in (st, vec))"

definition hasha_digest :: "'s snp \<Rightarrow> bytes \<Rightarrow> bytes" where
  "hasha_digest B data = ascon_hasha B data"

section \<open>Programs with objects\<close>

text \<open>A program of one of the classes: the calls name the objects by numbers.  \<open>Wipe\<close> is a destructor, after which the
  object is gone.  An object holds no pointers, so the memory is a map from numbers to states, and that objects do not
  share memory is part of the model.\<close>

datatype digest_call =
    Make nat
  | Make_Named nat "bytes option" bytes
  | Make_Copy nat nat
  | Wipe nat
  | Assign_Object nat nat
  | Reset_Object nat
  | Put nat bytes
  | Put_Str nat "bytes option"
  | Get nat nat
  | Pad_Object nat

record 's digest_class =
  dc_new :: 's
  dc_named :: "bytes option \<Rightarrow> bytes \<Rightarrow> 's"
  dc_copy :: "'s \<Rightarrow> 's"
  dc_assign :: "bool \<Rightarrow> 's \<Rightarrow> 's \<Rightarrow> 's"
  dc_reset :: "'s \<Rightarrow> 's"
  dc_put :: "'s \<Rightarrow> bytes \<Rightarrow> 's"
  dc_put_str :: "'s \<Rightarrow> bytes option \<Rightarrow> 's"
  dc_get :: "'s \<Rightarrow> nat \<Rightarrow> 's \<times> bytes"
  dc_pad :: "'s \<Rightarrow> 's"

text \<open>A call on an object that does not exist has no effect here.\<close>

definition on_object :: "(nat \<rightharpoonup> 's) \<Rightarrow> nat \<Rightarrow> ('s \<Rightarrow> 's \<times> bytes) \<Rightarrow> (nat \<rightharpoonup> 's) \<times> bytes" where
  "on_object f v g = (case f v of None \<Rightarrow> (f, []) | Some st \<Rightarrow> let (st, out) = g st in (f(v \<mapsto> st), out))"

fun digest_step :: "'s digest_class \<Rightarrow> (nat \<rightharpoonup> 's) \<Rightarrow> digest_call \<Rightarrow> (nat \<rightharpoonup> 's) \<times> bytes" where
  "digest_step C f (Make v) = (f(v \<mapsto> dc_new C), [])"
| "digest_step C f (Make_Named v name custom) = (f(v \<mapsto> dc_named C name custom), [])"
| "digest_step C f (Make_Copy v u) = (case f u of None \<Rightarrow> (f, []) | Some st \<Rightarrow> (f(v \<mapsto> dc_copy C st), []))"
| "digest_step C f (Wipe v) = (f(v := None), [])"
| "digest_step C f (Assign_Object v u) =
     (case f u of None \<Rightarrow> (f, []) | Some other \<Rightarrow> on_object f v (\<lambda>st. (dc_assign C (u = v) st other, [])))"
| "digest_step C f (Reset_Object v) = on_object f v (\<lambda>st. (dc_reset C st, []))"
| "digest_step C f (Put v d) = on_object f v (\<lambda>st. (dc_put C st d, []))"
| "digest_step C f (Put_Str v d) = on_object f v (\<lambda>st. (dc_put_str C st d, []))"
| "digest_step C f (Get v n) = on_object f v (\<lambda>st. dc_get C st n)"
| "digest_step C f (Pad_Object v) = on_object f v (\<lambda>st. (dc_pad C st, []))"

fun digest_run :: "'s digest_class \<Rightarrow> (nat \<rightharpoonup> 's) \<Rightarrow> digest_call list \<Rightarrow> bytes list" where
  "digest_run C f [] = []"
| "digest_run C f (c # cs) = (case digest_step C f c of (f, out) \<Rightarrow> out # digest_run C f cs)"

definition xof_class :: "'s snp \<Rightarrow> 's xof_state \<Rightarrow> nat \<Rightarrow> 's xof_state digest_class" where
  "xof_class B stack outlen = \<lparr> dc_new = xof_new B outlen, dc_named = xof_named B outlen, dc_copy = xof_copy_new B stack,
     dc_assign = xof_assign B, dc_reset = xof_reset B outlen, dc_put = xof_absorb_data B,
     dc_put_str = xof_absorb_str B, dc_get = xof_squeeze_data B, dc_pad = xof_pad B \<rparr>"

text \<open>Programs for the next class do not use \<open>Put_Str\<close>.\<close>

definition xofa_class :: "'s snp \<Rightarrow> 's xof_state \<Rightarrow> nat \<Rightarrow> 's xof_state digest_class" where
  "xofa_class B stack outlen = \<lparr> dc_new = xofa_new B outlen, dc_named = xofa_named B outlen, dc_copy = xofa_copy_new B stack,
     dc_assign = xofa_assign B, dc_reset = xofa_reset B outlen, dc_put = xofa_absorb_data B,
     dc_put_str = (\<lambda>st _. st), dc_get = xofa_squeeze_data B, dc_pad = xofa_pad B \<rparr>"

text \<open>The classes of the hash functions have no named constructor and no padding, and 32 bytes of output; programs for them do
  not use the three calls.\<close>

definition hash_class :: "'s snp \<Rightarrow> 's xof_state \<Rightarrow> 's xof_state digest_class" where
  "hash_class B stack = \<lparr> dc_new = hash_new B, dc_named = (\<lambda>_ _. hash_new B), dc_copy = hash_copy_new B stack,
     dc_assign = hash_assign B, dc_reset = hash_reset B, dc_put = hash_update_data B,
     dc_put_str = hash_update_str B, dc_get = (\<lambda>st n. hash_finalize_data B st), dc_pad = id \<rparr>"

definition hasha_class :: "'s snp \<Rightarrow> 's xof_state \<Rightarrow> 's xof_state digest_class" where
  "hasha_class B stack = \<lparr> dc_new = hasha_new B, dc_named = (\<lambda>_ _. hasha_new B), dc_copy = hasha_copy_new B stack,
     dc_assign = hasha_assign B, dc_reset = hasha_reset B, dc_put = hasha_update_data B,
     dc_put_str = hasha_update_str B, dc_get = (\<lambda>st n. hasha_finalize_data B st), dc_pad = id \<rparr>"

section \<open>Objects as values\<close>

text \<open>The class as it is documented, with sponges of the specification.  An object is a value: the sponge that it was
  constructed as, to which a reset goes back, and the current one.  \<open>NULL\<close> stands for the empty string.\<close>

definition sponge_class ::
  "u8 \<Rightarrow> (sponge \<Rightarrow> nat \<Rightarrow> sponge \<times> bytes) \<Rightarrow> u64 \<Rightarrow> nat \<Rightarrow> (sponge \<times> sponge) digest_class" where
  "sponge_class fr squeeze iv outlen =
     (let n = (if outlen \<ge> 2 ^ 29 then 0 else outlen);
          start = (spec_xof_start iv n, 0, False); named = (\<lambda>name custom. spec_custom_start fr iv name custom n)
      in \<lparr> dc_new = (start, start), dc_named = (\<lambda>name custom. (named name custom, named name custom)),
           dc_copy = (\<lambda>x. x), dc_assign = (\<lambda>same x other. other), dc_reset = (\<lambda>(initial, st). (initial, initial)),
           dc_put = (\<lambda>(initial, st) d. (initial, sponge_absorb fr st d)),
           dc_put_str = (\<lambda>(initial, st) d. (initial, sponge_absorb fr st (case d of Some d \<Rightarrow> d | None \<Rightarrow> []))),
           dc_get = (\<lambda>(initial, st) n. let (st, out) = squeeze st n in ((initial, st), out)),
           dc_pad = (\<lambda>(initial, st). (initial, sponge_pad fr st)) \<rparr>)"

text \<open>One class simulates another: corresponding objects stay so, and give the same output.  The relation depends on the
  number of the object.\<close>

locale digest_simulation =
  fixes C :: "'s digest_class" and D :: "'t digest_class" and R :: "nat \<Rightarrow> 's \<Rightarrow> 't \<Rightarrow> bool" and has :: "digest_call \<Rightarrow> bool"
  assumes new: "R v (dc_new C) (dc_new D)"
    and named: "has (Make_Named v name custom) \<Longrightarrow> R v (dc_named C name custom) (dc_named D name custom)"
    and copy: "\<lbrakk>has (Make_Copy v u); R u s t\<rbrakk> \<Longrightarrow> R v (dc_copy C s) (dc_copy D t)"
    and assign: "\<lbrakk>has (Assign_Object v u); R v s t; R u s' t'; u = v \<Longrightarrow> s = s' \<and> t = t'\<rbrakk> \<Longrightarrow>
      R v (dc_assign C (u = v) s s') (dc_assign D (u = v) t t')"
    and reset: "\<lbrakk>has (Reset_Object v); R v s t\<rbrakk> \<Longrightarrow> R v (dc_reset C s) (dc_reset D t)"
    and put: "R v s t \<Longrightarrow> R v (dc_put C s d) (dc_put D t d)"
    and put_str: "\<lbrakk>has (Put_Str v str); R v s t\<rbrakk> \<Longrightarrow> R v (dc_put_str C s str) (dc_put_str D t str)"
    and get: "\<lbrakk>has (Get v n); R v s t\<rbrakk> \<Longrightarrow>
      R v (fst (dc_get C s n)) (fst (dc_get D t n)) \<and> snd (dc_get C s n) = snd (dc_get D t n)"
    and pad: "\<lbrakk>has (Pad_Object v); R v s t\<rbrakk> \<Longrightarrow> R v (dc_pad C s) (dc_pad D t)"
begin

definition matching :: "(nat \<rightharpoonup> 's) \<Rightarrow> (nat \<rightharpoonup> 't) \<Rightarrow> bool" where
  "matching f g \<longleftrightarrow> (\<forall>v. rel_option (R v) (f v) (g v))"

lemma matching_cases:
  assumes "matching f g"
  obtains "f v = None" "g v = None" | s t where "f v = Some s" "g v = Some t" "R v s t"
  using assms that unfolding matching_def by (metis option.rel_cases)

lemma matching_upd: "\<lbrakk>matching f g; R v s t\<rbrakk> \<Longrightarrow> matching (f(v \<mapsto> s)) (g(v \<mapsto> t))"
  by (simp add: matching_def)

lemma matching_on_object:
  assumes "matching f g" "\<And>s t. \<lbrakk>f v = Some s; g v = Some t; R v s t\<rbrakk> \<Longrightarrow> R v (fst (F s)) (fst (G t)) \<and> snd (F s) = snd (G t)"
  shows "matching (fst (on_object f v F)) (fst (on_object g v G)) \<and> snd (on_object f v F) = snd (on_object g v G)"
  using assms matching_upd[OF assms(1)]
  by (cases rule: matching_cases[OF assms(1), of v]) (auto simp: on_object_def case_prod_beta Let_def)

lemma step_simulates:
  assumes "matching f g" "has c"
  shows "matching (fst (digest_step C f c)) (fst (digest_step D g c)) \<and> snd (digest_step C f c) = snd (digest_step D g c)"
proof (cases c)
  case (Make_Copy v u)
  then show ?thesis using assms copy matching_upd[OF assms(1)]
    by (cases rule: matching_cases[OF assms(1), of u]) auto
next
  case (Assign_Object v u)
  show ?thesis
  proof (cases rule: matching_cases[OF assms(1), of u])
    case (2 s' t')
    have "R v (dc_assign C (u = v) s s') (dc_assign D (u = v) t t')" if "f v = Some s" "g v = Some t" "R v s t" for s t
      by (rule assign[OF _ that(3) 2(3)]) (use assms(2) Assign_Object that 2 in auto)
    then show ?thesis using Assign_Object 2 matching_on_object[OF assms(1), of v] by simp
  qed (use Assign_Object assms in simp)
next
  case (Wipe v)
  then show ?thesis using assms(1) by (simp add: matching_def)
qed (use assms matching_upd[OF assms(1)] matching_on_object[OF assms(1)] new named reset put put_str get pad in auto)

theorem run_simulates:
  "\<lbrakk>matching f g; \<And>c. c \<in> set cs \<Longrightarrow> has c\<rbrakk> \<Longrightarrow> digest_run C f cs = digest_run D g cs"
proof (induction cs arbitrary: f g)
  case (Cons c cs)
  with step_simulates[OF Cons.prems(1), of c] show ?case by (simp add: case_prod_beta)
qed simp

lemma programs_simulate: "(\<And>c. c \<in> set cs \<Longrightarrow> has c) \<Longrightarrow> digest_run C (\<lambda>_. None) cs = digest_run D (\<lambda>_. None) cs"
  by (rule run_simulates) (simp_all add: matching_def)

end

section \<open>The four classes\<close>

lemma reinit_fixed: "ascon_xof_reinit_fixed B st outlen = ascon_xof_init_fixed B outlen"
  "ascon_xofa_reinit_fixed B st outlen = ascon_xofa_init_fixed B outlen"
  by (simp_all add: ascon_xof_reinit_fixed_def ascon_xofa_reinit_fixed_def)

lemma xof_new_fixed: "xof_new B outlen = ascon_xof_init_fixed B outlen" "xofa_new B outlen = ascon_xofa_init_fixed B outlen"
  by (simp_all add: xof_new_def xofa_new_def ascon_xof_init_fixed_def ascon_xofa_init_fixed_def)

lemma xof_reset_fixed:
  "xof_reset B outlen st = ascon_xof_init_fixed B outlen" "xofa_reset B outlen st = ascon_xofa_init_fixed B outlen"
  by (simp_all add: xof_reset_def xofa_reset_def reinit_fixed ascon_xof_reinit_def ascon_xofa_reinit_def
      ascon_xof_init_fixed_def ascon_xofa_init_fixed_def)

text \<open>The programs that the documentation covers.  \<open>V\<close> has the numbers of the objects that can be made with a name, or be
  copies of such objects: they are not reset, for \<open>reset\<close> loses the name.  No string is \<open>NULL\<close>: the code ignores it,
  and the empty string starts a new phase on an object that was read from.\<close>

definition documented_calls :: "nat set \<Rightarrow> digest_call \<Rightarrow> bool" where
  "documented_calls V c \<longleftrightarrow> (case c of
     Make_Named v _ _ \<Rightarrow> v \<in> V
   | Make_Copy v u \<Rightarrow> u \<in> V \<longrightarrow> v \<in> V
   | Assign_Object v u \<Rightarrow> u \<in> V \<longrightarrow> v \<in> V
   | Reset_Object v \<Rightarrow> v \<notin> V
   | Put_Str _ str \<Rightarrow> str \<noteq> None
   | _ \<Rightarrow> True)"

definition xofa_calls :: "nat set \<Rightarrow> digest_call \<Rightarrow> bool" where
  "xofa_calls V c \<longleftrightarrow> documented_calls V c \<and> (case c of Put_Str _ _ \<Rightarrow> False | _ \<Rightarrow> True)"

definition hash_calls :: "digest_call \<Rightarrow> bool" where
  "hash_calls c \<longleftrightarrow> documented_calls {} c \<and> (case c of Pad_Object _ \<Rightarrow> False | Get _ n \<Rightarrow> n = 32 | _ \<Rightarrow> True)"

lemmas call_defs = documented_calls_def xofa_calls_def hash_calls_def

text \<open>An object and its value: the current sponge is the represented one, and an object without a name was
  constructed as the plain start.\<close>

definition object_rep ::
  "('s \<Rightarrow> bytes \<Rightarrow> bool) \<Rightarrow> u64 \<Rightarrow> nat \<Rightarrow> nat set \<Rightarrow> nat \<Rightarrow> 's xof_state \<Rightarrow> sponge \<times> sponge \<Rightarrow> bool" where
  "object_rep rep iv outlen V v s x \<longleftrightarrow> xof_rep rep s (snd x) \<and>
     (v \<notin> V \<longrightarrow> fst x = (spec_xof_start iv (if outlen \<ge> 2 ^ 29 then 0 else outlen), 0, False))"

context snp_laws
begin

lemma xof_class_simulation:
  "digest_simulation (xof_class B stack outlen) (sponge_class 0 lazy_sponge_squeeze 0x00400c0000000000 outlen)
     (object_rep rep 0x00400c0000000000 outlen V) (documented_calls V)"
  by unfold_locales
    (use xof_init_fixed_rep xof_init_custom_rep xof_absorb_rep xof_squeeze_rep xof_pad_rep xof_copy_rep in
      \<open>auto simp: xof_class_def sponge_class_def object_rep_def call_defs Let_def case_prod_beta xof_new_fixed xof_reset_fixed
        xof_named_def xof_copy_new_def xof_assign_def xof_absorb_data_def xof_absorb_str_def xof_squeeze_data_def xof_pad_def\<close>)

lemma xofa_class_simulation:
  "digest_simulation (xofa_class B stack outlen) (sponge_class 4 (eager_sponge_squeeze 4) 0x00400c0400000000 outlen)
     (object_rep rep 0x00400c0400000000 outlen V) (xofa_calls V)"
  by unfold_locales
    (use xofa_init_fixed_rep xofa_init_custom_rep xofa_absorb_rep xofa_squeeze_rep xofa_pad_rep xofa_copy_rep in
      \<open>auto simp: xofa_class_def sponge_class_def object_rep_def call_defs Let_def case_prod_beta xof_new_fixed xof_reset_fixed
        xofa_named_def xofa_copy_new_def xofa_assign_def xofa_absorb_data_def xofa_squeeze_data_def xofa_pad_def\<close>)

lemma hash_class_simulation:
  "digest_simulation (hash_class B stack) (sponge_class 0 lazy_sponge_squeeze 0x00400c0000000000 32)
     (object_rep rep 0x00400c0000000000 32 {}) hash_calls"
  by unfold_locales
    (use xof_init_fixed_rep[of 32] xof_absorb_rep xof_squeeze_rep xof_copy_rep in
      \<open>auto simp: hash_class_def sponge_class_def object_rep_def call_defs Let_def case_prod_beta hash_new_def hash_reset_def
        hash_init_eq ascon_hash_reinit_def hash_copy_new_def hash_assign_def hash_update_data_def hash_update_str_def
        hash_finalize_data_def ascon_hash_copy_def ascon_hash_update_def ascon_hash_finalize_def\<close>)

lemma hasha_class_simulation:
  "digest_simulation (hasha_class B stack) (sponge_class 4 (eager_sponge_squeeze 4) 0x00400c0400000000 32)
     (object_rep rep 0x00400c0400000000 32 {}) hash_calls"
  by unfold_locales
    (use xofa_init_fixed_rep[of 32] xofa_absorb_rep xofa_squeeze_rep xofa_copy_rep in
      \<open>auto simp: hasha_class_def sponge_class_def object_rep_def call_defs Let_def case_prod_beta hasha_new_def hasha_reset_def
        hasha_init_eq ascon_hasha_reinit_def hasha_copy_new_def hasha_assign_def hasha_update_data_def hasha_update_str_def
        hasha_finalize_data_def ascon_hasha_copy_def ascon_hasha_update_def ascon_hasha_finalize_def\<close>)

end

interpretation cpp_xof: digest_simulation "xof_class (sliced64 le) stack outlen"
  "sponge_class 0 lazy_sponge_squeeze 0x00400c0000000000 outlen"
  "object_rep rep_sliced64 0x00400c0000000000 outlen V" "documented_calls V" for le stack outlen V
  by (rule sliced64.xof_class_simulation)

interpretation cpp_xofa: digest_simulation "xofa_class (sliced64 le) stack outlen"
  "sponge_class 4 (eager_sponge_squeeze 4) 0x00400c0400000000 outlen"
  "object_rep rep_sliced64 0x00400c0400000000 outlen V" "xofa_calls V" for le stack outlen V
  by (rule sliced64.xofa_class_simulation)

interpretation cpp_hash: digest_simulation "hash_class (sliced64 le) stack"
  "sponge_class 0 lazy_sponge_squeeze 0x00400c0000000000 32" "object_rep rep_sliced64 0x00400c0000000000 32 {}" hash_calls
  for le stack
  by (rule sliced64.hash_class_simulation)

interpretation cpp_hasha: digest_simulation "hasha_class (sliced64 le) stack"
  "sponge_class 4 (eager_sponge_squeeze 4) 0x00400c0400000000 32" "object_rep rep_sliced64 0x00400c0400000000 32 {}" hash_calls
  for le stack
  by (rule sliced64.hasha_class_simulation)

text \<open>Where the code differs from the documentation: a reset makes an object plain, and \<open>NULL\<close> is ignored.\<close>

lemma reset_forgets_name:
  assumes "C = xof_class B stack outlen \<or> C = xofa_class B stack outlen"
  shows "digest_run C f (Make_Named v name custom # Reset_Object v # cs) = [] # digest_run C f (Make v # cs)"
  using assms by (auto simp: xof_class_def xofa_class_def xof_new_fixed xof_reset_fixed on_object_def)

lemma null_string_ignored: "digest_run (xof_class B stack outlen) f (Put_Str v None # cs) = [] # digest_run (xof_class B stack outlen) f cs"
  by (auto simp: xof_class_def xof_absorb_str_def on_object_def fun_upd_idem split: option.split)

text \<open>The two ways to pass the same bytes.\<close>

lemma other_overloads:
  "xof_absorb_array B st d = xof_absorb_data B st d" "xof_absorb_string B st d = xof_absorb_data B st d"
  "xof_absorb_str B st (Some d) = xof_absorb_data B st d" "xof_squeeze_array B st n = xof_squeeze_data B st n"
  "xofa_absorb_array B st d = xofa_absorb_data B st d" "xofa_squeeze_array B st n = xofa_squeeze_data B st n"
  "hash_update_array B st d = hash_update_data B st d" "hash_update_string B st d = hash_update_data B st d"
  "hasha_update_array B st d = hasha_update_data B st d" "hasha_update_string B st d = hasha_update_data B st d"
  by (simp_all add: xof_absorb_array_def xof_absorb_data_def xof_absorb_string_def xof_absorb_str_def xof_squeeze_array_def
      xof_squeeze_data_def xofa_absorb_array_def xofa_absorb_data_def xofa_squeeze_array_def xofa_squeeze_data_def
      hash_update_array_def hash_update_data_def hash_update_string_def hasha_update_array_def hasha_update_data_def
      hasha_update_string_def)

end
