(* ===== verification/Cpp_Properties.thy ===== *)
theory Cpp_Properties
  imports Byte_Array Cpp_Aead Cpp_Isap Cpp_Masked Cpp_Hash Masked_Properties
begin

text \<open>
  The properties of the C++ interface: byte arrays that share their representation, and objects that
  encrypt and decrypt sequences of packets.
\<close>

section \<open>Byte arrays\<close>

text \<open>A state for the witnesses: the arrays 0 and 1 share three bytes.\<close>

definition shared_pair :: "nat arrays" where
  "shared_pair = array_step (\<lambda>_ _. 7) (Copy 1 0) (array_step (\<lambda>_ _. 7) (Sized 0 3 5) no_arrays)"

lemma shared_pair_session:
  "array_session (\<lambda>_ _. 7) shared_pair ((\<lambda>_. None)(0 := Some [5, 5, 5], 1 := Some [5, 5, 5]))"
proof -
  have 1: "array_session (\<lambda>_ _. 7) (array_step (\<lambda>_ _. 7) (Sized 0 3 5) no_arrays)
      (vector_step (Sized 0 3 5) (\<lambda>_. None) :: nat \<Rightarrow> bytes option)"
    by (rule array_session.step[OF array_session.start]) simp_all
  have "array_session (\<lambda>_ _. 7) shared_pair (vector_step (Copy 1 0) (vector_step (Sized 0 3 5) (\<lambda>_. None)))"
    unfolding shared_pair_def by (rule array_session.step[OF 1]) simp_all
  then show ?thesis by (simp add: numeral_3_eq_3)
qed

lemma array_session_run: "array_session J st f \<Longrightarrow> array_run J st"
proof (induction rule: array_session.induct)
  case (step st f op)
  with array_session_vectors[of J st f] show ?case by (auto intro: array_run.step)
qed (rule array_run.start)

lemma shared_pair_run: "array_run (\<lambda>_ _. 7) shared_pair"
  by (rule array_session_run[OF shared_pair_session])

lemma shared_pair_ptr:
  "ptr shared_pair 0 = Some 0" "ptr shared_pair 1 = Some 0" "ba_capacity (cell shared_pair 0) = 16"
  by (simp_all add: shared_pair_def byte_array_copy_def byte_array_sized_def byte_array_private_new_def
      no_arrays_def retain_def CAPACITY_def Let_def ptr_def cell_def set_cell_def set_ptr_def)

text \<open>Property C27. In every state that a program with byte arrays reaches, the count of each representation
  on the heap is the number of the objects that point to it, its bytes fit its capacity, and no object
  points to freed memory; so when all objects are destroyed, all memory has been freed.\<close>

theorem byte_array_counts:
  assumes "array_run J st"
  shows "(\<forall>a. case ar_heap st a of
      None \<Rightarrow> \<forall>v. ptr st v \<noteq> Some a
    | Some ob \<Rightarrow> ba_ref ob = card {v. ar_vars st v = Some (Some a)} \<and> 0 < ba_ref ob \<and>
        ba_size ob \<le> ba_capacity ob \<and> length (ba_data ob) = ba_capacity ob) \<and>
    ((\<forall>v. ar_vars st v = None) \<longrightarrow> (\<forall>a. ar_heap st a = None))"
proof -
  note ok = array_run_ok[OF assms]
  have heap: "case ar_heap st a of
      None \<Rightarrow> \<forall>v. ptr st v \<noteq> Some a
    | Some ob \<Rightarrow> ba_ref ob = card {v. ar_vars st v = Some (Some a)} \<and> 0 < ba_ref ob \<and>
        ba_size ob \<le> ba_capacity ob \<and> length (ba_data ob) = ba_capacity ob" for a
  proof (cases "ar_heap st a")
    case None
    then show ?thesis using counted_live[OF ok, of _ a] by fastforce
  next
    case (Some ob)
    with countedD(4)[OF ok Some] show ?thesis by (auto simp: refs_def cell_ok_def)
  qed
  moreover have "ar_heap st a = None" if "\<forall>v. ar_vars st v = None" for a
    using heap[of a] that by (auto split: option.splits)
  ultimately show ?thesis by blast
qed

theorem byte_array_counts_witness:
  "let ob = the (ar_heap shared_pair 0)
   in ba_ref ob = card {v. ar_vars shared_pair v = Some (Some 0)} \<and> 0 < ba_ref ob \<and>
      ba_size ob \<le> ba_capacity ob \<and> length (ba_data ob) = ba_capacity ob"
  using byte_array_counts[OF shared_pair_run, THEN conjunct1, THEN spec, of 0] shared_pair_ptr(1)
  by (auto simp: Let_def split: option.splits)

text \<open>Property C15. As long as \<open>resize\<close> is called on arrays that do not share their representation or have to
  grow beyond its capacity, the arrays of a program are the vectors that the same operations give on
  lists: no operation on one array shows in another; \<open>size\<close> and \<open>operator[]\<close> read these lists.\<close>

theorem byte_array_is_vector:
  assumes "array_session J st f"
  shows "vectors st = f \<and> (\<forall>v xs. f v = Some xs \<longrightarrow> byte_array_size st v = length xs \<and>
    (\<forall>i<length xs. fst (byte_array_get J v i st) = xs ! i))"
  using array_session_vectors[OF assms] vectors_size(1)[of st] array_get(1)[of st _ _ _ J] by blast

theorem byte_array_is_vector_witness:
  "fst (byte_array_get (\<lambda>_ _. 7) 1 2 shared_pair) = 5"
  using byte_array_is_vector[OF shared_pair_session] by (simp add: numeral_2_eq_2)

text \<open>Property C28. \<open>resize\<close> makes no copy of a shared representation with room for the new size: the other
  arrays that share it, the copies of the array, change with it.\<close>

theorem resize_writes_through:
  assumes "array_run J st" "vectors st v = Some xs" "ptr st v = Some a" "ptr st w = Some a"
    "n \<le> ba_capacity (cell st a)"
  shows "vectors (byte_array_resize J v n st) w = Some (take n xs @ zeros (n - length xs))"
  using array_resize(3)[OF array_run_ok[OF assms(1)] assms(2)] assms(3-5) by blast

theorem resize_writes_through_witness:
  "vectors (byte_array_resize (\<lambda>_ _. 7) 0 1 shared_pair) 1 = Some [5]"
  using resize_writes_through[OF shared_pair_run, of 0 "[5, 5, 5]" 0 1 1]
    array_session_vectors[OF shared_pair_session] by (simp add: shared_pair_ptr zeros_def del: One_nat_def, simp)

lemma memcmp_sign:
  "memcmp xs ys < 0 \<Longrightarrow> ord_class.lexordp xs ys" "memcmp xs ys > 0 \<Longrightarrow> ord_class.lexordp ys xs"
  "memcmp xs ys = 0 \<Longrightarrow> take (length ys) xs = take (length xs) ys"
  by (induction xs ys rule: memcmp.induct) (auto simp: word_less_def word_uint_eq_iff split: if_splits)

lemma memcmp_order:
  "(if memcmp xs ys \<noteq> 0 then memcmp xs ys < 0 else length xs < length ys) = ord_class.lexordp xs ys"
  "(if memcmp xs ys \<noteq> 0 then memcmp xs ys > 0 else length ys < length xs) = ord_class.lexordp ys xs"
  by (induction xs ys rule: memcmp.induct) (auto simp: word_less_def word_uint_eq_iff neq_Nil_conv)

lemma memcmp_self: "memcmp xs xs = 0"
  by (induction xs) simp_all

lemma memcmp_take: "memcmp (take (min (length xs) (length ys)) xs) (take (min (length xs) (length ys)) ys) = memcmp xs ys"
  by (induction xs ys rule: memcmp.induct) auto

text \<open>Property C29. The comparison of two arrays that have a representation is the lexicographic comparison
  of their bytes, but an array without one, like one just constructed, compares as greater than every
  array that is not empty.\<close>

theorem byte_array_order:
  assumes "array_run J st" "vectors st v = Some xs" "vectors st w = Some ys"
  shows "(ptr st v \<noteq> None \<longrightarrow> ptr st w \<noteq> None \<longrightarrow>
      (byte_array_cmp st v w < 0) = ord_class.lexordp xs ys \<and>
      (byte_array_cmp st v w = 0) = (xs = ys) \<and>
      (byte_array_cmp st v w > 0) = ord_class.lexordp ys xs) \<and>
    (ptr st v = None \<longrightarrow> ys \<noteq> [] \<longrightarrow> xs = [] \<and> byte_array_cmp st v w = 1 \<and> byte_array_cmp st w v = -1)"
proof -
  note ok = array_run_ok[OF assms(1)]
  note x = vectors_size[OF ok assms(2)] and y = vectors_size[OF ok assms(3)]
  have "(byte_array_cmp st v w < 0) = ord_class.lexordp xs ys \<and> (byte_array_cmp st v w = 0) = (xs = ys) \<and>
      (byte_array_cmp st v w > 0) = ord_class.lexordp ys xs"
    if some: "ptr st v \<noteq> None" "ptr st w \<noteq> None"
  proof -
    obtain a b where ab: "ptr st v = Some a" "ptr st w = Some b" using some by auto
    have c: "byte_array_cmp st v w = (if a = b then 0 else if memcmp xs ys \<noteq> 0 then memcmp xs ys
        else if length ys < length xs then 1 else if length xs < length ys then -1 else 0)"
    proof (cases "a = b")
      case False
      have take: "take (min (length xs) (length ys)) (ba_data (cell st a)) = take (min (length xs) (length ys)) xs"
        "take (min (length xs) (length ys)) (ba_data (cell st b)) = take (min (length xs) (length ys)) ys"
      proof -
        have "take (length xs) (ba_data (cell st a)) = xs" "take (length ys) (ba_data (cell st b)) = ys"
          using x y ab by (simp_all add: contents_def byte_array_size_def)
        then have "take (min (length xs) (length ys)) xs =
            take (min (length xs) (length ys)) (take (length xs) (ba_data (cell st a)))"
          "take (min (length xs) (length ys)) ys =
            take (min (length xs) (length ys)) (take (length ys) (ba_data (cell st b)))" by simp_all
        then show "take (min (length xs) (length ys)) (ba_data (cell st a)) = take (min (length xs) (length ys)) xs"
          "take (min (length xs) (length ys)) (ba_data (cell st b)) = take (min (length xs) (length ys)) ys"
          by (simp_all add: min.assoc min.commute min.left_commute)
      qed
      have sz: "ba_size (cell st a) = length xs" "ba_size (cell st b) = length ys"
        using x(1) y(1) ab by (simp_all add: byte_array_size_def)
      have min: "(if length ys < length xs then length ys else length xs) = min (length xs) (length ys)" by simp
      show ?thesis
        unfolding byte_array_cmp_def ab prod.case option.case option.inject Let_def sz min take memcmp_take
        using False by (simp add: min_def)
    qed (simp add: byte_array_cmp_def ab)
    show ?thesis
    proof (cases "a = b")
      case True
      with x(2) y(2) ab have "xs = ys" by simp
      with c True show ?thesis by (simp add: lexordp_irreflexive')
    next
      case False
      show ?thesis
        using c False memcmp_sign(3)[of xs ys] memcmp_self[of xs] memcmp_order[of xs ys]
        by (auto split: if_splits)
    qed
  qed
  moreover have "xs = [] \<and> byte_array_cmp st v w = 1 \<and> byte_array_cmp st w v = -1"
    if "ptr st v = None" "ys \<noteq> []"
  proof -
    from that(2) y(2) obtain b where b: "ptr st w = Some b" by (cases "ptr st w") (auto simp: contents_def)
    with y(1) that(2) have "ba_size (cell st b) > 0" by (simp add: byte_array_size_def)
    with x(2) that(1) b show ?thesis by (simp add: byte_array_cmp_def contents_def)
  qed
  ultimately show ?thesis by blast
qed

theorem byte_array_order_witness:
  "(byte_array_cmp shared_pair 0 1 = 0) = ([5, 5, 5] = [5, 5, 5 :: u8])"
  using byte_array_order[OF shared_pair_run, of 0 "[5, 5, 5]" 1 "[5, 5, 5]"]
    array_session_vectors[OF shared_pair_session] by (simp add: shared_pair_ptr del: One_nat_def)

section \<open>Packets\<close>

text \<open>The six classes that keep key and nonce as bytes, with what an object with a given key and nonce
  encrypts to.\<close>

definition plain_classes :: "'s snp \<Rightarrow> packet_object packet_class set" where
  "plain_classes P = {aead128 P, aead128a P, aead80pq P, siv128 P, siv128a P, siv80pq P}"

definition class_encrypt :: "packet_object packet_class \<Rightarrow> bytes \<Rightarrow> bytes \<Rightarrow> bytes \<Rightarrow> bytes \<Rightarrow> bytes" where
  "class_encrypt C k n ad m = fst (snd (cl_do_encrypt C \<lparr> ob_key = k, ob_nonce = n \<rparr> m ad))"

definition well_formed :: "packet_object packet_class \<Rightarrow> packet_object \<Rightarrow> bool" where
  "well_formed C ob \<longleftrightarrow> length (ob_key ob) = cl_key_size C \<and> length (ob_nonce ob) = 16"

lemma class_sizes:
  "cl_key_size (aead128 P) = 16" "cl_key_size (aead128a P) = 16" "cl_key_size (aead80pq P) = 20"
  "cl_key_size (siv128 P) = 16" "cl_key_size (siv128a P) = 16" "cl_key_size (siv80pq P) = 20"
  by (simp_all add: aead128_def aead128a_def aead80pq_def siv128_def siv128a_def siv80pq_def)

lemma plain_packets:
  assumes "C \<in> plain_classes (sliced64 le)"
  shows "\<exists>enc. packets C (holds_key (cl_key_size C)) enc"
  using assms sliced64.aead128_packets[of le] sliced64.aead128a_packets[of le] sliced64.aead80pq_packets[of le]
    sliced64.siv128_packets[of le] sliced64.siv128a_packets[of le] sliced64.siv80pq_packets[of le]
  by (auto simp: plain_classes_def class_sizes)

lemma class_encrypt:
  assumes "packets C (holds_key (cl_key_size C)) enc" "length k = cl_key_size C" "length n = 16"
  shows "class_encrypt C k n ad m = enc k n ad m"
proof -
  have "holds_key (cl_key_size C) \<lparr> ob_key = k, ob_nonce = n \<rparr> k n" using assms(2,3) by (simp add: holds_key_def)
  from packets.do_encrypt[OF assms(1) this, of m ad] show ?thesis by (auto simp: class_encrypt_def)
qed

lemma packets_from_class:
  assumes "packets C (holds_key (cl_key_size C)) enc" "length k = cl_key_size C" "length n = 16"
  shows "packets_from enc k n ms = packets_from (class_encrypt C) k n ms"
  using assms(3)
proof (induction ms arbitrary: n)
  case (Cons p ms)
  with class_encrypt[OF assms(1,2) Cons.prems] show ?case by (cases p) simp
qed simp

lemma holds_same: "holds_key len ob k n \<Longrightarrow> ob = \<lparr> ob_key = k, ob_nonce = n \<rparr>"
  by (cases ob) (simp add: holds_key_def)

lemma plain_set_key:
  assumes "C \<in> plain_classes P" "well_formed C ob" "length k = cl_key_size C" "length n = 16"
  shows "\<exists>ob'. cl_set_key C ob (Some k) (cl_key_size C) = Some (ob', True) \<and>
    cl_set_nonce C ob' n 16 = \<lparr> ob_key = k, ob_nonce = n \<rparr>"
  using assms by (cases ob)
    (auto simp: plain_classes_def well_formed_def aead128_def aead128a_def aead80pq_def siv128_def siv128a_def siv80pq_def
      aead128_set_key_def aead128a_set_key_def aead80pq_set_key_def siv128_set_key_def siv128a_set_key_def
      siv80pq_set_key_def aead128_set_nonce_def aead128a_set_nonce_def aead80pq_set_nonce_def siv128_set_nonce_def
      siv128a_set_nonce_def siv80pq_set_nonce_def copy_nonce_eq put_at_whole)

text \<open>Property C14. Two objects of any of the six classes that are given the same key and nonce understand
  each other: of any messages with associated data, each shorter than \<open>2^31\<close> bytes, the receiver gets
  exactly these messages from the packets of the sender, and both objects end in the same state.\<close>

theorem packet_sessions:
  assumes "C \<in> plain_classes (sliced64 le)" "well_formed C a" "well_formed C b"
    "length k = cl_key_size C" "length n = 16"
    "cl_set_key C a (Some k) (length k) = Some (a', True)" "cl_set_key C b (Some k) (length k) = Some (b', True)"
    "\<forall>(m, ad)\<in>set ms. length m < 2 ^ 31"
  shows "receive_packets C (cl_set_nonce C b' n 16) (snd (send_packets C (cl_set_nonce C a' n 16) ms)) =
    (fst (send_packets C (cl_set_nonce C a' n 16) ms), ms)"
proof -
  let ?o = "\<lparr> ob_key = k, ob_nonce = n \<rparr>"
  have ab: "cl_set_nonce C a' n 16 = ?o" "cl_set_nonce C b' n 16 = ?o"
    using plain_set_key[OF assms(1,2,4,5)] plain_set_key[OF assms(1,3-5)] assms(4,6,7) by auto
  obtain enc where P: "packets C (holds_key (cl_key_size C)) enc" using plain_packets[OF assms(1)] by blast
  have h: "holds_key (cl_key_size C) ?o k n" using assms(4,5) by (simp add: holds_key_def)
  from packets.send_eq[OF P h, of ms] packets.receive_sent[OF P h assms(8)] show ?thesis
    unfolding ab by (auto dest!: holds_same)
qed

theorem packet_sessions_witness:
  "receive_packets (siv80pq (sliced64 True)) (siv80pq_set_nonce \<lparr> ob_key = zeros 20, ob_nonce = zeros 16 \<rparr> (zeros 16) 16)
     (snd (send_packets (siv80pq (sliced64 True)) (siv80pq_set_nonce \<lparr> ob_key = zeros 20, ob_nonce = zeros 16 \<rparr> (zeros 16) 16)
        [([1], []), ([2, 3], [4])])) =
   (fst (send_packets (siv80pq (sliced64 True)) (siv80pq_set_nonce \<lparr> ob_key = zeros 20, ob_nonce = zeros 16 \<rparr> (zeros 16) 16)
        [([1], []), ([2, 3], [4])]), [([1], []), ([2, 3], [4])])"
proof -
  have "siv80pq_set_nonce = cl_set_nonce (siv80pq (sliced64 True))" by (simp add: siv80pq_def)
  then show ?thesis
    using packet_sessions[of "siv80pq (sliced64 True)" True siv80pq_new siv80pq_new "zeros 20" "zeros 16"
        "\<lparr> ob_key = zeros 20, ob_nonce = zeros 16 \<rparr>" "\<lparr> ob_key = zeros 20, ob_nonce = zeros 16 \<rparr>"
        "[([1], []), ([2, 3], [4])]"]
    by (simp add: plain_classes_def well_formed_def siv80pq_def siv80pq_new_def siv80pq_set_key_def put_at_whole)
qed

text \<open>Property C30. Whatever packets arrive at an object, of less than \<open>2^31 + 16\<close> bytes each, in any order,
  repeated or forged: those accepted are, in order of arrival, the encryptions of the messages that
  come out under the nonces that follow each other from the nonce of the object on, and fewer than
  \<open>2^128\<close> of these nonces are all different, so none is accepted twice.\<close>

theorem packet_order:
  assumes "C \<in> plain_classes (sliced64 le)" "well_formed C ob" "\<forall>(c, ad)\<in>set cs. length c < 2 ^ 31 + 16"
    "receive_packets C ob cs = (ob', ms)"
  shows "subseq (packets_from (class_encrypt C) (ob_key ob) (ob_nonce ob) ms) cs \<and>
    ob' = \<lparr> ob_key = ob_key ob, ob_nonce = nonce_after (ob_nonce ob) (length ms) \<rparr> \<and>
    (\<forall>i j. i < j \<and> j < i + 2 ^ 128 \<longrightarrow> nonce_after (ob_nonce ob) i \<noteq> nonce_after (ob_nonce ob) j)"
proof -
  obtain enc where P: "packets C (holds_key (cl_key_size C)) enc" using plain_packets[OF assms(1)] by blast
  have len: "length (ob_key ob) = cl_key_size C" "length (ob_nonce ob) = 16"
    using assms(2) by (simp_all add: well_formed_def)
  then have h: "holds_key (cl_key_size C) ob (ob_key ob) (ob_nonce ob)" by (simp add: holds_key_def)
  from packets.receive_eq[OF P h assms(3)] assms(4) show ?thesis
    using nonces_different[OF len(2)] packets_from_class[OF P len] by (auto dest!: holds_same)
qed

theorem packet_order_witness:
  "let C = aead128 (sliced64 True); ob = \<lparr> ob_key = zeros 16, ob_nonce = zeros 16 \<rparr>;
       r = receive_packets C ob [(zeros 20, []), ([], [1])]
   in subseq (packets_from (class_encrypt C) (zeros 16) (zeros 16) (snd r)) [(zeros 20, []), ([], [1])]"
  unfolding Let_def
  using packet_order[of "aead128 (sliced64 True)" True "\<lparr> ob_key = zeros 16, ob_nonce = zeros 16 \<rparr>"
      "[(zeros 20, []), ([], [1])]", OF _ _ _ surjective_pairing]
  by (simp add: plain_classes_def well_formed_def class_sizes del: receive_packets.simps)

text \<open>Property C31. A packet whose plaintext has from \<open>2^31\<close> to \<open>2^32 - 1\<close> bytes is decrypted and
  authenticated, and the nonce moves on, but \<open>decrypt\<close> returns false and an empty array: the length
  has become negative in the conversion to \<open>int\<close>.\<close>

theorem long_packet_rejected:
  assumes "C \<in> plain_classes (sliced64 le)" "well_formed C ob" "2 ^ 31 \<le> length m" "length m < 2 ^ 32"
  shows "aead_decrypt_ad C ob m0 (snd (aead_encrypt_ad C ob m ad)) ad =
      (\<lparr> ob_key = ob_key ob, ob_nonce = ascon_aead_increment_nonce (ob_nonce ob) \<rparr>, False, []) \<and>
    fst (snd (cl_do_decrypt C ob (snd (aead_encrypt_ad C ob m ad)) ad)) < 0 \<and>
    snd (snd (cl_do_decrypt C ob (snd (aead_encrypt_ad C ob m ad)) ad)) = Some m"
proof -
  obtain enc where P: "packets C (holds_key (cl_key_size C)) enc" using plain_packets[OF assms(1)] by blast
  have h: "holds_key (cl_key_size C) ob (ob_key ob) (ob_nonce ob)"
    using assms(2) by (simp add: holds_key_def well_formed_def)
  have c: "snd (aead_encrypt_ad C ob m ad) = enc (ob_key ob) (ob_nonce ob) ad m"
    using packets.do_encrypt[OF P h, of m ad] by (auto simp: aead_encrypt_ad_def)
  show ?thesis
    unfolding c using packets.aead_decrypt_ad_eq(2)[OF P h assms(3,4), of m0 ad] packets.do_decrypt[OF P h, of ad m]
      to_int_large[OF assms(3,4)] by (auto dest!: holds_same)
qed

theorem long_packet_rejected_witness:
  "fst (snd (aead_decrypt_ad (aead128a (sliced64 True)) aead128a_new []
     (snd (aead_encrypt_ad (aead128a (sliced64 True)) aead128a_new (zeros (2 ^ 31)) [])) [])) = False"
  using long_packet_rejected[of "aead128a (sliced64 True)" True aead128a_new "zeros (2 ^ 31)" "[]" "[]"]
  by (simp add: plain_classes_def well_formed_def aead128a_def aead128a_new_def del: length_zeros)
    (simp add: length_zeros)

text \<open>Property C32. The constructors of \<open>aead80pq\<close> and \<open>siv80pq\<close> that are given a key copy 16 of its 20 bytes: the
  last four bytes of the key of the object are whatever was in its memory, and the last four
  bytes of the key given make no difference.  \<open>set_key\<close> copies all 20.\<close>

theorem constructor_80pq_drops_key:
  assumes "length (ob_key ob) = 20" "length k = 20"
  shows "aead80pq_with_key ob (Some k) = \<lparr> ob_key = take 16 k @ drop 16 (ob_key ob), ob_nonce = zeros 16 \<rparr> \<and>
    siv80pq_with_key ob (Some k) = \<lparr> ob_key = take 16 k @ drop 16 (ob_key ob), ob_nonce = zeros 16 \<rparr> \<and>
    aead80pq_set_key ob (Some k) 20 = Some (ob\<lparr> ob_key := k \<rparr>, True) \<and>
    siv80pq_set_key ob (Some k) 20 = Some (ob\<lparr> ob_key := k \<rparr>, True)"
proof -
  have "put_at (ob_key ob) 0 (take 16 k) = take 16 k @ drop 16 (ob_key ob)"
    using assms by (intro nth_equalityI) (auto simp: byte_nth nth_append)
  with assms show ?thesis
    by (cases ob) (simp add: aead80pq_with_key_def siv80pq_with_key_def aead80pq_set_key_def siv80pq_set_key_def
        put_at_whole)
qed

theorem constructor_80pq_drops_key_witness:
  "aead80pq_with_key \<lparr> ob_key = replicate 20 9, ob_nonce = [] \<rparr> (Some (replicate 20 1)) =
     \<lparr> ob_key = replicate 16 1 @ replicate 4 9, ob_nonce = zeros 16 \<rparr>"
  using constructor_80pq_drops_key[of "\<lparr> ob_key = replicate 20 9, ob_nonce = [] \<rparr>" "replicate 20 1"] by simp

section \<open>Masked objects\<close>

text \<open>The masked classes with the plain ones of the same mode.\<close>

definition class_pairs ::
  "('w, 't) masked_backend \<Rightarrow> nat \<Rightarrow> nat \<Rightarrow> 's snp \<Rightarrow> 'w \<Rightarrow>
     (('w, 't) masked_object packet_class \<times> packet_object packet_class) set" where
  "class_pairs MB K D P word =
     {(aead128_masked MB K D P word, aead128 P), (aead128a_masked MB K D P word, aead128a P),
      (aead80pq_masked MB K D P word, aead80pq P)}"

lemma masked_set_key:
  assumes "masking_plain MB mrep shaped P prep" "shares MB K"
    "C \<in> {aead128_masked MB K D P w, aead128a_masked MB K D P w}"
    "length k = 16" "length n = 16" "length (mo_key ob) = 2" "\<forall>v\<in>set (mo_key ob). shaped v" "length (mo_nonce ob) = 16"
  shows "\<exists>ob'. cl_set_key C ob (Some k) 16 = Some (ob', True) \<and>
    holds_masked (key128_masked (mrep K)) (cl_set_nonce C ob' n 16) k n"
  using masking.key_128_init_rep[OF masking_plain.axioms(1)[OF assms(1)] assms(2,6) _ assms(4), of "mo_seeds ob 0"] assms(3-8)
  by (auto simp: aead128_masked_def aead128a_masked_def aead128_masked_set_key_def aead128a_masked_set_key_def
      aead128_masked_set_nonce_def aead128a_masked_set_nonce_def next_seed_def holds_masked_def copy_nonce_eq
      list_all_iff)

lemma masked_80pq_set_key:
  assumes "masking_plain MB mrep shaped P prep" "shares MB K"
    "length k = 20" "length n = 16" "length (mo_key ob) = 6" "\<forall>v\<in>set (mo_key ob). shaped v" "length (mo_nonce ob) = 16"
  shows "\<exists>ob'. cl_set_key (aead80pq_masked MB K D P w) ob (Some k) 20 = Some (ob', True) \<and>
    holds_masked (key160_masked (mrep K)) (cl_set_nonce (aead80pq_masked MB K D P w) ob' n 16) k n"
  using masking.key_160_init_rep[OF masking_plain.axioms(1)[OF assms(1)] assms(2,5) _ assms(3), of "mo_seeds ob 0"] assms(3-7)
  by (auto simp: aead80pq_masked_def aead80pq_masked_set_key_def aead80pq_masked_set_nonce_def next_seed_def
      holds_masked_def copy_nonce_eq list_all_iff)

text \<open>A masked object and a plain one by their contracts.\<close>

lemma sessions_between:
  assumes "packets C h enc" "packets C' h' enc" "h a k n" "h' b k n" "\<forall>(m, ad)\<in>set ms. length m < 2 ^ 31"
  shows "snd (receive_packets C' b (snd (send_packets C a ms))) = ms"
  using packets.send_eq[OF assms(1,3), of ms] packets.receive_sent[OF assms(2,4,5)] by auto

text \<open>An object of a masked class, on 64-bit shares with any numbers of shares, and one of the plain
  class of the same mode that are given the same key and nonce understand each other, in both
  directions and whatever the generators return.\<close>

theorem masked_plain_sessions:
  assumes "(CM, C) \<in> class_pairs (masked64 R mx) K D (sliced64 le) w"
    "2 \<le> K" "K \<le> mx" "mx \<le> 4" "1 \<le> D" "D \<le> K" "length w = mx"
    "length (mo_key a) = (if cl_key_size C = 16 then 2 else 6)" "\<forall>v\<in>set (mo_key a). length v = mx"
    "length (mo_nonce a) = 16" "well_formed C b" "length k = cl_key_size C" "length n = 16"
    "cl_set_key CM a (Some k) (length k) = Some (a', True)" "cl_set_key C b (Some k) (length k) = Some (b', True)"
    "\<forall>(m, ad)\<in>set ms. length m < 2 ^ 31"
  shows "snd (receive_packets C (cl_set_nonce C b' n 16) (snd (send_packets CM (cl_set_nonce CM a' n 16) ms))) = ms \<and>
    snd (receive_packets CM (cl_set_nonce CM a' n 16) (snd (send_packets C (cl_set_nonce C b' n 16) ms))) = ms"
proof -
  have mx: "2 \<le> mx" using assms(2,3) by simp
  note M = masking_plain64[OF mx assms(4) sliced64.snp_laws_axioms[of le], of R]
  have K: "shares (masked64 R mx) K" using assms(2,3) by (simp add: masked64_def)
  have C: "C \<in> plain_classes (sliced64 le)" using assms(1) by (auto simp: class_pairs_def plain_classes_def)
  have b: "holds_key (cl_key_size C) (cl_set_nonce C b' n 16) k n"
    using plain_set_key[OF C assms(11-13)] assms(12,13,15) by (auto simp: holds_key_def)
  consider (m128) "CM = aead128_masked (masked64 R mx) K D (sliced64 le) w" "C = aead128 (sliced64 le)"
    | (m128a) "CM = aead128a_masked (masked64 R mx) K D (sliced64 le) w" "C = aead128a (sliced64 le)"
    | (m80) "CM = aead80pq_masked (masked64 R mx) K D (sliced64 le) w" "C = aead80pq (sliced64 le)"
    using assms(1) by (auto simp: class_pairs_def)
  then show ?thesis
  proof cases
    case m128
    then have "holds_masked (key128_masked (rep64 mx K)) (cl_set_nonce CM a' n 16) k n"
      using masked_set_key[OF M K, of CM D w k n a] assms(8-10,12-14) by (auto simp: class_sizes)
    with m128 show ?thesis
      using sessions_between[OF masking_plain.aead128_masked_packets[OF M K assms(7,5,6)] sliced64.aead128_packets]
        sessions_between[OF sliced64.aead128_packets masking_plain.aead128_masked_packets[OF M K assms(7,5,6)]]
        b assms(16) by (simp add: class_sizes)
  next
    case m128a
    then have "holds_masked (key128_masked (rep64 mx K)) (cl_set_nonce CM a' n 16) k n"
      using masked_set_key[OF M K, of CM D w k n a] assms(8-10,12-14) by (auto simp: class_sizes)
    with m128a show ?thesis
      using sessions_between[OF masking_plain.aead128a_masked_packets[OF M K assms(7,5,6)] sliced64.aead128a_packets]
        sessions_between[OF sliced64.aead128a_packets masking_plain.aead128a_masked_packets[OF M K assms(7,5,6)]]
        b assms(16) by (simp add: class_sizes)
  next
    case m80
    then have "holds_masked (key160_masked (rep64 mx K)) (cl_set_nonce CM a' n 16) k n"
      using masked_80pq_set_key[OF M K, of k n a D w] assms(8-10,12-14) by (auto simp: class_sizes)
    with m80 show ?thesis
      using sessions_between[OF masking_plain.aead80pq_masked_packets[OF M K assms(7,5,6)] sliced64.aead80pq_packets]
        sessions_between[OF sliced64.aead80pq_packets masking_plain.aead80pq_masked_packets[OF M K assms(7,5,6)]]
        b assms(16) by (simp add: class_sizes)
  qed
qed

theorem masked_plain_sessions_witness:
  "let seeds = (\<lambda>_. [1, 2, 3, 4]); CM = aead128_masked (masked64 list_rng 2) 2 2 (sliced64 True) [0, 0];
       C = aead128 (sliced64 True);
       a = fst (the (aead128_masked_set_key (masked64 list_rng 2) 2 (aead128_masked_new (masked64 list_rng 2) seeds)
             (Some (zeros 16)) 16))
   in snd (receive_packets C aead128_new (snd (send_packets CM (aead128_masked_set_nonce a (zeros 16) 16)
        [([1], []), ([2, 3], [4])]))) = [([1], []), ([2, 3], [4])]"
proof -
  have 1: "cl_set_key (aead128_masked (masked64 list_rng 2) 2 2 (sliced64 True) [0, 0])
      (aead128_masked_new (masked64 list_rng 2) (\<lambda>_. [1, 2, 3, 4])) (Some (zeros 16)) (length (zeros 16)) =
    Some (fst (the (aead128_masked_set_key (masked64 list_rng 2) 2
      (aead128_masked_new (masked64 list_rng 2) (\<lambda>_. [1, 2, 3, 4])) (Some (zeros 16)) 16)), True)"
    by (simp add: aead128_masked_def aead128_masked_set_key_def next_seed_def)
  have 2: "cl_set_key (aead128 (sliced64 True)) aead128_new (Some (zeros 16)) (length (zeros 16)) = Some (aead128_new, True)"
    "cl_set_nonce (aead128 (sliced64 True)) aead128_new (zeros 16) 16 = aead128_new"
    by (simp_all add: aead128_def aead128_set_key_def aead128_new_def aead128_set_nonce_def copy_nonce_eq put_at_whole)
  have 3: "cl_set_nonce (aead128_masked (masked64 list_rng 2) 2 2 (sliced64 True) [0, 0]) = aead128_masked_set_nonce"
    by (simp add: aead128_masked_def)
  have 4: "(aead128_masked (masked64 list_rng 2) 2 2 (sliced64 True) [0, 0], aead128 (sliced64 True))
      \<in> class_pairs (masked64 list_rng 2) 2 2 (sliced64 True) [0, 0]"
    by (simp add: class_pairs_def)
  have 5: "well_formed (aead128 (sliced64 True)) aead128_new" "length (zeros 16) = cl_key_size (aead128 (sliced64 True))"
    "length (mo_key (aead128_masked_new (masked64 list_rng 2) (\<lambda>_. [1, 2, 3, 4]))) =
      (if cl_key_size (aead128 (sliced64 True)) = 16 then 2 else 6)"
    "\<forall>v\<in>set (mo_key (aead128_masked_new (masked64 list_rng 2) (\<lambda>_. [1, 2, 3, 4]))). length v = 2"
    "length (mo_nonce (aead128_masked_new (masked64 list_rng 2) (\<lambda>_. [1, 2, 3, 4]))) = 16"
    by (simp_all add: well_formed_def class_sizes aead128_new_def aead128_masked_new_def masked64_def)
  show ?thesis
    unfolding Let_def
    using masked_plain_sessions[OF 4 _ _ _ _ _ _ 5(3-5,1,2) _ 1 2(1), of "zeros 16" "[([1], []), ([2, 3], [4])]"]
    by (simp add: 2(2) 3 del: send_packets.simps receive_packets.simps)
qed

section \<open>Hash objects\<close>



end
