(* ===== verification/Posix_Files.thy ===== *)
theory Posix_Files
  imports Trng "HOL-Library.Monad_Syntax"
begin

text \<open>
  The files that the command-line programs work on, and \<open>apps/asconcrypt/fileops.c\<close> on top of them (the
  branch \<open>USE_POSIX_FDS\<close>).

  The state \<open>posix\<close> has the contents of the streams, the table of file descriptors with the position
  of each, and the future of the system calls: \<open>px_events\<close> says what happens in a call of each kind, by the
  number of calls before it.  A
  call fails with an error number, interruptions among them, or transfers some but perhaps not all bytes;
  a read of the end of a file transfers none.  So the lemmas hold for every way in which the system
  may cut reads and writes into pieces.  A C string is the list of its characters without the
  terminator.  Messages on the terminal are left out.

  The loops of \<open>fileops.c\<close> repeat interrupted calls without a bound, so they are partial functions,
  with \<open>None\<close> for a loop that never ends.
\<close>

section \<open>System calls\<close>

datatype stream = StdIn | StdOut | StdErr | Named bytes

datatype io_event = Error nat | Transfer nat

datatype syscall = Open | Read | Write | Unlink

record posix =
  px_data :: "stream \<Rightarrow> bytes option"
  px_fds :: "(stream \<times> nat) option list"
  px_events :: "syscall \<Rightarrow> nat \<Rightarrow> io_event"
  px_clock :: nat

definition next_event :: "syscall \<Rightarrow> posix \<Rightarrow> posix \<times> io_event" where
  "next_event call w = (w \<lparr> px_clock := Suc (px_clock w) \<rparr>, px_events w call (px_clock w))"

text \<open>The lowest descriptor that is not in use.\<close>

fun free_fd :: "'a option list \<Rightarrow> nat" where
  "free_fd [] = 0"
| "free_fd (None # fds) = 0"
| "free_fd (Some _ # fds) = Suc (free_fd fds)"

definition set_fd :: "nat \<Rightarrow> (stream \<times> nat) option \<Rightarrow> posix \<Rightarrow> posix" where
  "set_fd fd v w = w \<lparr> px_fds := (px_fds w @ replicate (Suc fd - length (px_fds w)) None)[fd := v] \<rparr>"

definition put_data :: "stream \<Rightarrow> bytes option \<Rightarrow> posix \<Rightarrow> posix" where
  "put_data s v w = w \<lparr> px_data := (px_data w)(s := v) \<rparr>"

definition fd_entry :: "posix \<Rightarrow> int \<Rightarrow> (stream \<times> nat) option" where
  "fd_entry w fd = (if 0 \<le> fd \<and> nat fd < length (px_fds w) then px_fds w ! nat fd else None)"

definition posix_open_read :: "posix \<Rightarrow> bytes \<Rightarrow> posix \<times> int" where
  "posix_open_read w name =
     (case next_event Open w of
        (w, Error _) \<Rightarrow> (w, -1)
      | (w, Transfer _) \<Rightarrow>
          if px_data w (Named name) = None then (w, -1)
          else let fd = free_fd (px_fds w) in (set_fd fd (Some (Named name, 0)) w, int fd))"

text \<open>With the flags \<open>O_CREAT | O_TRUNC | O_WRONLY\<close>.\<close>

definition posix_open_write :: "posix \<Rightarrow> bytes \<Rightarrow> posix \<times> int" where
  "posix_open_write w name =
     (case next_event Open w of
        (w, Error _) \<Rightarrow> (w, -1)
      | (w, Transfer _) \<Rightarrow>
          let w = put_data (Named name) (Some []) w; fd = free_fd (px_fds w)
          in (set_fd fd (Some (Named name, 0)) w, int fd))"

definition posix_close :: "posix \<Rightarrow> int \<Rightarrow> posix" where
  "posix_close w fd = (if fd_entry w fd = None then w else set_fd (nat fd) None w)"

definition posix_unlink :: "posix \<Rightarrow> bytes \<Rightarrow> posix" where
  "posix_unlink w name =
     (case next_event Unlink w of
        (w, Error _) \<Rightarrow> w
      | (w, Transfer _) \<Rightarrow> put_data (Named name) None w)"

definition EBADF :: nat where "EBADF = 9"

text \<open>The results are the value of the call, \<open>errno\<close> and, for \<open>read\<close>, the bytes.\<close>

definition posix_read :: "posix \<Rightarrow> int \<Rightarrow> nat \<Rightarrow> posix \<times> int \<times> nat \<times> bytes" where
  "posix_read w fd len =
     (case next_event Read w of
        (w, Error e) \<Rightarrow> (w, -1, e, [])
      | (w, Transfer k) \<Rightarrow>
          (case fd_entry w fd of
             None \<Rightarrow> (w, -1, EBADF, [])
           | Some (s, pos) \<Rightarrow>
               (case px_data w s of
                  None \<Rightarrow> (w, 0, 0, [])
                | Some c \<Rightarrow>
                    let out = take (min (Suc k) len) (drop pos c)
                    in (set_fd (nat fd) (Some (s, pos + length out)) w, int (length out), 0, out))))"

definition posix_write :: "posix \<Rightarrow> int \<Rightarrow> bytes \<Rightarrow> posix \<times> int \<times> nat" where
  "posix_write w fd d =
     (case next_event Write w of
        (w, Error e) \<Rightarrow> (w, -1, e)
      | (w, Transfer k) \<Rightarrow>
          (case fd_entry w fd of
             None \<Rightarrow> (w, -1, EBADF)
           | Some (s, pos) \<Rightarrow>
               let c = (case px_data w s of None \<Rightarrow> [] | Some c \<Rightarrow> c); d = take (Suc k) d;
                   c = take pos c @ d @ drop (pos + length d) c;
                   w = put_data s (Some c) w
               in (set_fd (nat fd) (Some (s, pos + length d)) w, int (length d), 0)))"

section \<open>Safe files\<close>

record safefile =
  sf_fd :: int
  sf_filename :: bytes

definition STDIO :: bytes where "STDIO = map of_char ''-''"

text \<open>\<open>None\<close> is the result 0, on which the structure is not used.\<close>

definition safe_file_open_read :: "posix \<Rightarrow> bytes \<Rightarrow> posix \<times> safefile option" where
  "safe_file_open_read w filename =
     (if filename = STDIO then (w, Some \<lparr> sf_fd = 0, sf_filename = filename \<rparr>)
      else
        let (w, fd) = posix_open_read w filename
        in if fd < 0 then (w, None) else (w, Some \<lparr> sf_fd = fd, sf_filename = filename \<rparr>))"

definition safe_file_open_write :: "posix \<Rightarrow> bytes \<Rightarrow> posix \<times> safefile option" where
  "safe_file_open_write w filename =
     (if filename = STDIO then (w, Some \<lparr> sf_fd = 1, sf_filename = filename \<rparr>)
      else
        let (w, fd) = posix_open_write w filename
        in if fd < 0 then (w, None) else (w, Some \<lparr> sf_fd = fd, sf_filename = filename \<rparr>))"

definition safe_file_close :: "posix \<Rightarrow> safefile \<Rightarrow> posix \<times> safefile" where
  "safe_file_close w file =
     (let w = (if sf_fd file \<ge> 2 then posix_close w (sf_fd file) else w) in (w, file \<lparr> sf_fd := -1 \<rparr>))"

text \<open>\<open>result\<close> and \<open>d\<close> are the number and the bytes that were read so far, \<open>len\<close> what is left of the buffer.\<close>

partial_function (option) safe_read_loop ::
  "posix \<Rightarrow> int \<Rightarrow> nat \<Rightarrow> int \<Rightarrow> bytes \<Rightarrow> (posix \<times> int \<times> bytes) option" where
  "safe_read_loop w fd len result d =
     (case posix_read w fd len of (w, temp, errno, out) \<Rightarrow>
        if temp < 0 then
          if errno = EINTR \<or> errno = EAGAIN then safe_read_loop w fd len result d
          else Some (w, -1, d)
        else if temp = 0 then Some (w, result, d)
        else safe_read_loop w fd (len - nat temp) (result + temp) (d @ out))"

definition safe_file_read :: "posix \<Rightarrow> safefile \<Rightarrow> nat \<Rightarrow> (posix \<times> int \<times> bytes) option" where
  "safe_file_read w file len = safe_read_loop w (sf_fd file) len 0 []"

partial_function (option) safe_write_loop ::
  "posix \<Rightarrow> int \<Rightarrow> bytes \<Rightarrow> int \<Rightarrow> (posix \<times> int) option" where
  "safe_write_loop w fd d result =
     (case posix_write w fd d of (w, temp, errno) \<Rightarrow>
        if temp < 0 then
          if errno = EINTR \<or> errno = EAGAIN then safe_write_loop w fd d result
          else Some (w, -1)
        else if temp = 0 then Some (w, result)
        else safe_write_loop w fd (drop (nat temp) d) (result + temp))"

definition safe_file_write :: "posix \<Rightarrow> safefile \<Rightarrow> bytes \<Rightarrow> (posix \<times> int) option" where
  "safe_file_write w file d = safe_write_loop w (sf_fd file) d 0"

definition safe_file_delete :: "posix \<Rightarrow> safefile \<Rightarrow> posix" where
  "safe_file_delete w file =
     (let (w, file) = safe_file_close w file
      in if sf_filename file \<noteq> STDIO then posix_unlink w (sf_filename file) else w)"

section \<open>What the calls do\<close>

lemma set_fd_simps [simp]:
  "px_data (set_fd fd v w) = px_data w" "px_events (set_fd fd v w) = px_events w"
  "px_clock (set_fd fd v w) = px_clock w"
  "set_fd fd v w \<lparr> px_clock := n \<rparr> = set_fd fd v (w \<lparr> px_clock := n \<rparr>)"
  by (simp_all add: set_fd_def)

lemma put_data_simps [simp]:
  "px_data (put_data s v w) t = (if t = s then v else px_data w t)"
  "px_fds (put_data s v w) = px_fds w" "px_events (put_data s v w) = px_events w"
  "px_clock (put_data s v w) = px_clock w"
  "put_data s v w \<lparr> px_clock := n \<rparr> = put_data s v (w \<lparr> px_clock := n \<rparr>)"
  "put_data s v (set_fd fd x w) = set_fd fd x (put_data s v w)"
  "put_data s v (put_data s u w) = put_data s v w"
  by (simp_all add: put_data_def set_fd_def)

lemma put_data_same: "px_data w s = v \<Longrightarrow> put_data s v w = w"
  by (auto simp: put_data_def fun_upd_idem)

lemma fd_entry_simps [simp]:
  "fd_entry (w \<lparr> px_clock := n \<rparr>) fd = fd_entry w fd" "fd_entry (put_data s u w) fd = fd_entry w fd"
  "fd_entry (set_fd n v w) fd = (if fd = int n then v else fd_entry w fd)"
  by (auto simp: fd_entry_def set_fd_def nth_append nth_list_update nth_Cons split: nat.splits)

lemma fd_entry_nonneg: "fd_entry w fd = Some x \<Longrightarrow> 0 \<le> fd \<and> nat fd < length (px_fds w)"
  by (simp add: fd_entry_def split: if_splits)

lemma set_fd_same: "fd_entry w fd = Some x \<Longrightarrow> set_fd (nat fd) (Some x) w = w"
  by (auto simp: fd_entry_def set_fd_def split: if_splits intro!: posix.equality) (metis list_update_id)

lemma set_fd_twice [simp]: "set_fd fd v (set_fd fd u w) = set_fd fd v w"
  by (auto simp: set_fd_def list_update_append intro!: posix.equality nth_equalityI)

lemma free_fd_free: "free_fd fds < length fds \<Longrightarrow> fds ! free_fd fds = None"
  by (induction fds rule: free_fd.induct) auto

lemma fd_entry_free: "fd_entry w (int (free_fd (px_fds w))) = None"
  by (simp add: fd_entry_def free_fd_free)

text \<open>A system that interrupts calls of a kind only finitely often in a row, one where in addition no
  such call fails for another reason, and one where this holds for all reads and writes and files can be
  opened and removed.\<close>

definition fair :: "(syscall \<Rightarrow> nat \<Rightarrow> io_event) \<Rightarrow> syscall \<Rightarrow> bool" where
  "fair ev call \<longleftrightarrow> (\<forall>i. \<exists>j\<ge>i. ev call j \<notin> {Error EINTR, Error EAGAIN})"

definition steady :: "(syscall \<Rightarrow> nat \<Rightarrow> io_event) \<Rightarrow> syscall \<Rightarrow> bool" where
  "steady ev call \<longleftrightarrow> fair ev call \<and> (\<forall>i e. ev call i = Error e \<longrightarrow> e = EINTR \<or> e = EAGAIN)"

definition no_errors :: "(syscall \<Rightarrow> nat \<Rightarrow> io_event) \<Rightarrow> syscall \<Rightarrow> bool" where
  "no_errors ev call \<longleftrightarrow> (\<forall>i. \<exists>k. ev call i = Transfer k)"

definition working :: "posix \<Rightarrow> bool" where
  "working w \<longleftrightarrow> steady (px_events w) Read \<and> steady (px_events w) Write \<and> no_errors (px_events w) Open \<and>
     no_errors (px_events w) Unlink"

text \<open>The first call from now on that is not interrupted.\<close>

lemma next_call:
  assumes "fair (px_events w) call"
  obtains j where "px_clock w \<le> j"
    "\<And>i. px_clock w \<le> i \<Longrightarrow> i < j \<Longrightarrow> px_events w call i \<in> {Error EINTR, Error EAGAIN}"
    "px_events w call j \<notin> {Error EINTR, Error EAGAIN}"
proof -
  let ?P = "\<lambda>j. px_clock w \<le> j \<and> px_events w call j \<notin> {Error EINTR, Error EAGAIN}"
  have ex: "\<exists>j. ?P j" using assms unfolding fair_def by blast
  from LeastI_ex[OF ex] not_less_Least[of _ ?P] show ?thesis by (intro that[of "LEAST j. ?P j"]) blast+
qed

lemma read_retry:
  assumes "px_clock w \<le> j" "\<And>i. px_clock w \<le> i \<Longrightarrow> i < j \<Longrightarrow> px_events w Read i \<in> {Error EINTR, Error EAGAIN}"
  shows "safe_read_loop w fd len result d = safe_read_loop (w \<lparr> px_clock := j \<rparr>) fd len result d"
  using assms
proof (induction "j - px_clock w" arbitrary: w)
  case (Suc n)
  let ?w = "w \<lparr> px_clock := Suc (px_clock w) \<rparr>"
  have "px_events w Read (px_clock w) \<in> {Error EINTR, Error EAGAIN}" using Suc.hyps(2) Suc.prems by auto
  then have "safe_read_loop w fd len result d = safe_read_loop ?w fd len result d"
    by (subst safe_read_loop.simps) (auto simp: posix_read_def next_event_def)
  also have "\<dots> = safe_read_loop (?w \<lparr> px_clock := j \<rparr>) fd len result d"
    by (rule Suc.hyps(1)) (use Suc.hyps(2) Suc.prems in auto)
  finally show ?case by simp
qed simp

lemma write_retry:
  assumes "px_clock w \<le> j" "\<And>i. px_clock w \<le> i \<Longrightarrow> i < j \<Longrightarrow> px_events w Write i \<in> {Error EINTR, Error EAGAIN}"
  shows "safe_write_loop w fd d result = safe_write_loop (w \<lparr> px_clock := j \<rparr>) fd d result"
  using assms
proof (induction "j - px_clock w" arbitrary: w)
  case (Suc n)
  let ?w = "w \<lparr> px_clock := Suc (px_clock w) \<rparr>"
  have "px_events w Write (px_clock w) \<in> {Error EINTR, Error EAGAIN}" using Suc.hyps(2) Suc.prems by auto
  then have "safe_write_loop w fd d result = safe_write_loop ?w fd d result"
    by (subst safe_write_loop.simps) (auto simp: posix_write_def next_event_def)
  also have "\<dots> = safe_write_loop (?w \<lparr> px_clock := j \<rparr>) fd d result"
    by (rule Suc.hyps(1)) (use Suc.hyps(2) Suc.prems in auto)
  finally show ?case by simp
qed simp

section \<open>Reading and writing when nothing fails\<close>

lemma take_split:
  assumes "m \<le> n"
  shows "take m xs @ take (n - length (take m xs)) (drop (length (take m xs)) xs) = take n xs"
proof (cases "m \<le> length xs")
  case True
  then show ?thesis using assms by simp (metis le_add_diff_inverse take_add)
qed (use assms in simp)

text \<open>All of the buffer is filled if the file has as many bytes, however the system cuts the transfer.\<close>

lemma safe_read_loop_steady:
  assumes "steady (px_events w) Read" "fd_entry w fd = Some (s, pos)" "px_data w s = Some c"
  shows "\<exists>n. safe_read_loop w fd len result d =
    Some (set_fd (nat fd) (Some (s, pos + length (take len (drop pos c)))) w \<lparr> px_clock := n \<rparr>,
      result + int (length (take len (drop pos c))), d @ take len (drop pos c))"
  using assms
proof (induction len arbitrary: w pos result d rule: less_induct)
  case (less len)
  have "fair (px_events w) Read" using less.prems(1) by (simp add: steady_def)
  then obtain j where j: "px_clock w \<le> j"
      "\<And>i. px_clock w \<le> i \<Longrightarrow> i < j \<Longrightarrow> px_events w Read i \<in> {Error EINTR, Error EAGAIN}"
      "px_events w Read j \<notin> {Error EINTR, Error EAGAIN}" by (rule next_call) blast
  with less.prems(1) obtain k where k: "px_events w Read j = Transfer k"
    by (cases "px_events w Read j") (auto simp: steady_def)
  define out where "out = take (min (Suc k) len) (drop pos c)"
  have read: "posix_read (w \<lparr> px_clock := j \<rparr>) fd len =
      (set_fd (nat fd) (Some (s, pos + length out)) w \<lparr> px_clock := Suc j \<rparr>, int (length out), 0, out)"
    using less.prems(2,3) k by (simp add: posix_read_def next_event_def out_def Let_def)
  have retry: "safe_read_loop w fd len result d = safe_read_loop (w \<lparr> px_clock := j \<rparr>) fd len result d"
    by (rule read_retry[OF j(1,2)])
  show ?case
  proof (cases "out = []")
    case True
    then have "take len (drop pos c) = []" by (auto simp: out_def)
    moreover have "safe_read_loop w fd len result d =
        Some (set_fd (nat fd) (Some (s, pos + length out)) w \<lparr> px_clock := Suc j \<rparr>, result, d)"
      by (subst retry, subst safe_read_loop.simps) (simp add: read True)
    ultimately show ?thesis using True by auto
  next
    case False
    let ?w = "set_fd (nat fd) (Some (s, pos + length out)) w \<lparr> px_clock := Suc j \<rparr>"
    have fd: "fd = int (nat fd)" using fd_entry_nonneg[OF less.prems(2)] by simp
    have len: "length out \<le> len" "0 < length out" "len - length out < len"
      using False by (auto simp: out_def)
    have rest: "out @ take (len - length out) (drop (pos + length out) c) = take len (drop pos c)"
      using take_split[of "min (Suc k) len" len "drop pos c"] by (simp add: out_def add.commute)
    have "safe_read_loop w fd len result d =
        safe_read_loop ?w fd (len - length out) (result + int (length out)) (d @ out)"
      by (subst retry, subst safe_read_loop.simps) (use False in \<open>simp add: read\<close>)
    moreover obtain n where "safe_read_loop ?w fd (len - length out) (result + int (length out)) (d @ out) =
        Some (set_fd (nat fd) (Some (s, pos + length out + length (take (len - length out) (drop (pos + length out) c)))) ?w
            \<lparr> px_clock := n \<rparr>,
          result + int (length out) + int (length (take (len - length out) (drop (pos + length out) c))),
          (d @ out) @ take (len - length out) (drop (pos + length out) c))"
      using less.IH[of "len - length out" ?w "pos + length out" "result + int (length out)" "d @ out"]
        len less.prems fd by auto
    moreover have "length out + length (take (len - length out) (drop (pos + length out) c)) =
        length (take len (drop pos c))"
      by (metis length_append rest)
    ultimately show ?thesis using rest by (auto simp: add.assoc simp flip: of_nat_add)
  qed
qed

lemma safe_file_read_steady:
  assumes "steady (px_events w) Read" "fd_entry w (sf_fd file) = Some (s, pos)" "px_data w s = Some c"
  shows "\<exists>n. safe_file_read w file len =
    Some (set_fd (nat (sf_fd file)) (Some (s, pos + length (take len (drop pos c)))) w \<lparr> px_clock := n \<rparr>,
      int (length (take len (drop pos c))), take len (drop pos c))"
  using safe_read_loop_steady[OF assms, of len 0 "[]"] by (simp add: safe_file_read_def)

lemma safe_write_loop_steady:
  assumes "steady (px_events w) Write" "fd_entry w fd = Some (s, pos)" "px_data w s = Some c" "pos = length c"
  shows "\<exists>n. safe_write_loop w fd d result =
    Some (set_fd (nat fd) (Some (s, pos + length d)) (put_data s (Some (c @ d)) w) \<lparr> px_clock := n \<rparr>,
      result + int (length d))"
  using assms
proof (induction d arbitrary: w pos c result rule: length_induct)
  case (1 d)
  have "fair (px_events w) Write" using "1.prems"(1) by (simp add: steady_def)
  then obtain j where j: "px_clock w \<le> j"
      "\<And>i. px_clock w \<le> i \<Longrightarrow> i < j \<Longrightarrow> px_events w Write i \<in> {Error EINTR, Error EAGAIN}"
      "px_events w Write j \<notin> {Error EINTR, Error EAGAIN}" by (rule next_call) blast
  with "1.prems"(1) obtain k where k: "px_events w Write j = Transfer k"
    by (cases "px_events w Write j") (auto simp: steady_def)
  define out where "out = take (Suc k) d"
  let ?w = "set_fd (nat fd) (Some (s, pos + length out)) (put_data s (Some (c @ out)) w) \<lparr> px_clock := Suc j \<rparr>"
  have call: "posix_write (w \<lparr> px_clock := j \<rparr>) fd d = (?w, int (length out), 0)"
    using "1.prems" k by (simp add: posix_write_def next_event_def out_def Let_def)
  have retry: "safe_write_loop w fd d result = safe_write_loop (w \<lparr> px_clock := j \<rparr>) fd d result"
    by (rule write_retry[OF j(1,2)])
  have fd: "fd = int (nat fd)" using fd_entry_nonneg[OF "1.prems"(2)] by simp
  show ?case
  proof (cases "out = []")
    case True
    then have "d = []" by (auto simp: out_def)
    have "safe_write_loop w fd d result = Some (?w, result)"
      by (subst retry, subst safe_write_loop.simps) (simp add: call True)
    then show ?thesis using True \<open>d = []\<close> by auto
  next
    case False
    have len: "length (drop (length out) d) < length d" using False by (cases d) (auto simp: out_def)
    have rest: "out @ drop (length out) d = d" by (simp add: out_def append_take_drop_id min_def)
    have "safe_write_loop w fd d result = safe_write_loop ?w fd (drop (length out) d) (result + int (length out))"
      by (subst retry, subst safe_write_loop.simps) (use False in \<open>simp add: call\<close>)
    moreover have "steady (px_events ?w) Write" using "1.prems"(1) by simp
    moreover have "fd_entry ?w fd = Some (s, pos + length out)" using fd by simp
    ultimately obtain n where n: "safe_write_loop w fd d result =
        Some (set_fd (nat fd) (Some (s, pos + length out + length (drop (length out) d)))
            (put_data s (Some ((c @ out) @ drop (length out) d)) ?w) \<lparr> px_clock := n \<rparr>,
          result + int (length out) + int (length (drop (length out) d)))"
      using "1.IH"[rule_format, OF len, of ?w "pos + length out" "c @ out" "result + int (length out)"]
        "1.prems"(4) by auto
    have "length out + length (drop (length out) d) = length d" by (metis length_append rest)
    then show ?thesis using n rest by (auto simp: add.assoc simp flip: of_nat_add)
  qed
qed

lemma safe_file_write_steady:
  assumes "steady (px_events w) Write" "fd_entry w (sf_fd file) = Some (s, length c)" "px_data w s = Some c"
  shows "\<exists>n. safe_file_write w file d =
    Some (set_fd (nat (sf_fd file)) (Some (s, length c + length d)) (put_data s (Some (c @ d)) w)
        \<lparr> px_clock := n \<rparr>, int (length d))"
  using safe_write_loop_steady[OF assms, of d 0] by (simp add: safe_file_write_def)


section \<open>From one file to another\<close>

text \<open>A program that reads \<open>input\<close>, of which \<open>rest\<close> is left, and has written \<open>out\<close> to \<open>output\<close>; \<open>D\<close> is
  what the other streams hold.\<close>

definition piping ::
  "(stream \<Rightarrow> bytes option) \<Rightarrow> (syscall \<Rightarrow> nat \<Rightarrow> io_event) \<Rightarrow> posix \<Rightarrow> safefile \<Rightarrow> safefile \<Rightarrow> stream \<Rightarrow> stream \<Rightarrow>
   bytes \<Rightarrow> bytes \<Rightarrow> bool" where
  "piping D ev w input output sin sout rest out \<longleftrightarrow>
     px_events w = ev \<and> sin \<noteq> sout \<and> sf_fd input \<noteq> sf_fd output \<and> px_data w = D(sout \<mapsto> out) \<and>
     fd_entry w (sf_fd output) = Some (sout, length out) \<and>
     (\<exists>pos c. fd_entry w (sf_fd input) = Some (sin, pos) \<and> D sin = Some c \<and> rest = drop pos c)"

lemma pipe_read:
  assumes "piping D ev w input output sin sout rest out" "steady ev Read"
  shows "\<exists>w'. safe_file_read w input len = Some (w', int (length (take len rest)), take len rest) \<and>
    piping D ev w' input output sin sout (drop len rest) out"
proof -
  from assms obtain pos c where in_file: "fd_entry w (sf_fd input) = Some (sin, pos)" "D sin = Some c" "rest = drop pos c"
    by (auto simp: piping_def)
  with assms have "px_data w sin = Some c" "steady (px_events w) Read" by (simp_all add: piping_def)
  from safe_file_read_steady[OF this(2) in_file(1) this(1), of len] obtain n where n:
    "safe_file_read w input len =
      Some (set_fd (nat (sf_fd input)) (Some (sin, pos + length (take len rest))) w \<lparr> px_clock := n \<rparr>,
        int (length (take len rest)), take len rest)"
    unfolding in_file(3) by auto
  have fd: "0 \<le> sf_fd input" "0 \<le> sf_fd output"
    using in_file(1) assms fd_entry_nonneg unfolding piping_def by blast+
  have "drop len rest = drop (pos + length (take len rest)) c"
    using in_file(3) by (cases "len \<le> length rest") (auto simp: add.commute)
  then show ?thesis using n assms in_file(2) fd by (auto simp: piping_def)
qed

lemma pipe_write:
  assumes "piping D ev w input output sin sout rest out" "steady ev Write"
  shows "\<exists>w'. safe_file_write w output d = Some (w', int (length d)) \<and>
    piping D ev w' input output sin sout rest (out @ d)"
proof -
  from assms have out_file: "fd_entry w (sf_fd output) = Some (sout, length out)" "px_data w sout = Some out"
    and "steady (px_events w) Write" by (simp_all add: piping_def)
  from safe_file_write_steady[OF this(3,1,2), of d] obtain n where n:
    "safe_file_write w output d =
      Some (set_fd (nat (sf_fd output)) (Some (sout, length out + length d)) (put_data sout (Some (out @ d)) w)
        \<lparr> px_clock := n \<rparr>, int (length d))" by blast
  have fd: "0 \<le> sf_fd input" "0 \<le> sf_fd output"
    using out_file(1) assms fd_entry_nonneg unfolding piping_def by blast+
  show ?thesis using n assms fd by (auto simp: piping_def fun_eq_iff)
qed

text \<open>A disk on which nothing can be written.\<close>

lemma pipe_write_fails:
  assumes "piping D ev w input output sin sout rest out" "\<And>i. ev Write i = Error e" "e \<noteq> EINTR" "e \<noteq> EAGAIN"
  shows "\<exists>w'. safe_file_write w output d = Some (w', -1) \<and> piping D ev w' input output sin sout rest out"
proof -
  have "px_events w Write i = Error e" for i using assms(1,2) by (simp add: piping_def)
  then have "safe_file_write w output d = Some (w \<lparr> px_clock := Suc (px_clock w) \<rparr>, -1)"
    using assms(3,4) unfolding safe_file_write_def
    by (subst safe_write_loop.simps) (simp add: posix_write_def next_event_def)
  then show ?thesis using assms(1) by (auto simp: piping_def)
qed

text \<open>Two files with different names, the second one new or overwritten.\<close>

lemma pipe_open:
  assumes "no_errors (px_events w) Open"
    and "a \<noteq> b" "a \<noteq> STDIO" "b \<noteq> STDIO" "px_data w (Named a) = Some c"
    and "length (px_fds w) \<ge> 2" "px_fds w ! 0 \<noteq> None" "px_fds w ! 1 \<noteq> None"
  shows "\<exists>w1 input w2 output. safe_file_open_read w a = (w1, Some input) \<and>
    safe_file_open_write w1 b = (w2, Some output) \<and> sf_filename input = a \<and> sf_filename output = b \<and>
    2 \<le> sf_fd input \<and> 2 \<le> sf_fd output \<and>
    piping (px_data w) (px_events w) w2 input output (Named a) (Named b) c []"
proof -
  let ?f = "free_fd (px_fds w)"
  let ?w1 = "set_fd ?f (Some (Named a, 0)) (w \<lparr> px_clock := Suc (px_clock w) \<rparr>)"
  let ?g = "free_fd (px_fds ?w1)"
  obtain i j where ev: "px_events w Open (px_clock w) = Transfer i" "px_events w Open (Suc (px_clock w)) = Transfer j"
    using assms(1) unfolding no_errors_def by metis
  obtain x y fds where fds: "px_fds w = Some x # Some y # fds"
    using assms(6-8) by (cases "px_fds w"; cases "tl (px_fds w)") auto
  have f: "2 \<le> ?f" by (simp add: fds)
  then have g: "2 \<le> ?g" by (auto simp: set_fd_def fds split: nat.splits)
  have "fd_entry ?w1 (int ?g) = None" by (rule fd_entry_free)
  then have "?f \<noteq> ?g" by auto
  then show ?thesis using ev assms(2-5) f g
    by (auto simp: safe_file_open_read_def safe_file_open_write_def posix_open_read_def posix_open_write_def
        next_event_def Let_def piping_def fun_eq_iff)
qed

lemma data_close [simp]: "px_data (posix_close w fd) = px_data w" "px_events (posix_close w fd) = px_events w"
  by (simp_all add: posix_close_def)

section \<open>Every call returns\<close>

text \<open>Also when calls fail, as long as the system does not interrupt for ever.\<close>

lemma safe_read_loop_returns:
  assumes "fair (px_events w) Read"
  shows "\<exists>w' r out. safe_read_loop w fd len result d = Some (w', r, out) \<and> px_events w' = px_events w \<and>
    (r = -1 \<or> result \<le> r \<and> r \<le> result + int len)"
  using assms
proof (induction len arbitrary: w result d rule: less_induct)
  case (less len)
  from less.prems obtain j where j: "px_clock w \<le> j"
      "\<And>i. px_clock w \<le> i \<Longrightarrow> i < j \<Longrightarrow> px_events w Read i \<in> {Error EINTR, Error EAGAIN}"
      "px_events w Read j \<notin> {Error EINTR, Error EAGAIN}" by (rule next_call) blast
  let ?w = "w \<lparr> px_clock := j \<rparr>"
  obtain w' temp errno out where call: "posix_read ?w fd len = (w', temp, errno, out)"
    by (metis prod_cases4)
  then have ev: "px_events w' = px_events w" and err: "temp < 0 \<Longrightarrow> errno \<noteq> EINTR \<and> errno \<noteq> EAGAIN"
    and len: "temp \<le> int len"
    using j(3) by (auto simp: posix_read_def next_event_def Let_def EBADF_def EINTR_def EAGAIN_def
        split: io_event.splits option.splits prod.splits)
  have eq: "safe_read_loop w fd len result d =
      (if temp < 0 then Some (w', -1, d) else if temp = 0 then Some (w', result, d)
       else safe_read_loop w' fd (len - nat temp) (result + temp) (d @ out))"
    by (subst read_retry[OF j(1,2)], simp, simp, subst safe_read_loop.simps) (simp add: call err)
  show ?case
  proof (cases "temp \<le> 0")
    case True
    then show ?thesis using eq ev by auto
  next
    case False
    then have "len - nat temp < len" using len by auto
    with less.IH[OF this, of w' "result + temp" "d @ out"] less.prems ev False len
    show ?thesis unfolding eq by (fastforce simp: ev)
  qed
qed

lemma safe_write_loop_returns:
  assumes "fair (px_events w) Write"
  shows "\<exists>w' r. safe_write_loop w fd d result = Some (w', r) \<and> px_events w' = px_events w"
  using assms
proof (induction d arbitrary: w result rule: length_induct)
  case (1 d)
  from "1.prems" obtain j where j: "px_clock w \<le> j"
      "\<And>i. px_clock w \<le> i \<Longrightarrow> i < j \<Longrightarrow> px_events w Write i \<in> {Error EINTR, Error EAGAIN}"
      "px_events w Write j \<notin> {Error EINTR, Error EAGAIN}" by (rule next_call) blast
  let ?w = "w \<lparr> px_clock := j \<rparr>"
  obtain w' temp errno where call: "posix_write ?w fd d = (w', temp, errno)"
    by (metis prod_cases3)
  then have ev: "px_events w' = px_events w" and err: "temp < 0 \<Longrightarrow> errno \<noteq> EINTR \<and> errno \<noteq> EAGAIN"
    and len: "temp \<le> int (length d)"
    using j(3) by (auto simp: posix_write_def next_event_def Let_def EBADF_def EINTR_def EAGAIN_def
        split: io_event.splits option.splits prod.splits)
  have eq: "safe_write_loop w fd d result =
      (if temp < 0 then Some (w', -1) else if temp = 0 then Some (w', result)
       else safe_write_loop w' fd (drop (nat temp) d) (result + temp))"
    by (subst write_retry[OF j(1,2)], simp, simp, subst safe_write_loop.simps) (simp add: call err)
  show ?case
  proof (cases "temp \<le> 0")
    case True
    then show ?thesis using eq ev by auto
  next
    case False
    then have "length (drop (nat temp) d) < length d" using len by auto
    with "1.IH"[rule_format, OF this, of w' "result + temp"] "1.prems" ev False
    show ?thesis unfolding eq by (simp add: ev)
  qed
qed

lemma safe_file_read_returns:
  "fair (px_events w) Read \<Longrightarrow> \<exists>w' r out. safe_file_read w file len = Some (w', r, out) \<and> px_events w' = px_events w \<and>
    (r = -1 \<or> 0 \<le> r \<and> r \<le> int len)"
  using safe_read_loop_returns[of w "sf_fd file" len 0 "[]"] by (simp add: safe_file_read_def)

lemma safe_file_write_returns:
  "fair (px_events w) Write \<Longrightarrow> \<exists>w' r. safe_file_write w file d = Some (w', r) \<and> px_events w' = px_events w"
  using safe_write_loop_returns[of w "sf_fd file" d 0] by (simp add: safe_file_write_def)

end
