(* ===== verification/Asconcrypt.thy ===== *)
theory Asconcrypt
  imports Posix_Files Prng Aead_Properties Pbkdf2 Siv
begin

text \<open>
  The program \<open>asconcrypt\<close> (\<open>apps/asconcrypt/asconcrypt.c\<close>, \<open>readpass.c\<close>): files encrypted under a password.

  A file starts with a header (magic, version, salt) and a block with a fresh key and nonce that is
  encrypted with ASCON-80pq-SIV under a key that PBKDF2 derives from the password; the payload is
  encrypted with ASCON-80pq under the fresh key, in pieces of one buffer.  The functions work on the
  files of theory \<open>Posix_Files\<close> and may run for ever (\<open>None\<close>) if system calls are interrupted for ever.
  \<open>B\<close> is the backend, \<open>trng\<close> the source of random bytes with its state \<open>r\<close>, \<open>stack\<close> what a local state of
  PBKDF2 holds before it is set.  Messages and the clearing of buffers are left out.
\<close>

section \<open>Constants\<close>

definition ASCON_PBKDF2_ROUNDS :: nat where "ASCON_PBKDF2_ROUNDS = 8192"

text \<open>\<open>BUFSIZ\<close> of the C library for Linux.\<close>

definition ASCON_BUFSIZ :: nat where "ASCON_BUFSIZ = 8192"
definition ASCON_PWSIZ :: nat where "ASCON_PWSIZ = 1024"
definition ASCON_MAX_FILE_SIZE :: u64 where "ASCON_MAX_FILE_SIZE = 1024 * 1024 * 1024 * 1024"

section \<open>Passwords and key files\<close>

definition DEFAULT_PASSWORD_LENGTH :: nat where "DEFAULT_PASSWORD_LENGTH = 40"

definition pw_chars :: bytes where
  "pw_chars = map of_char ''0123456789abcdefghijklmnopqrstuvwxyzABCDEFGHIJKLMNOPQRSTUVWXYZ%$''"

definition generate_password ::
  "'s snp \<Rightarrow> 'r trng \<Rightarrow> posix \<Rightarrow> 'r \<Rightarrow> bytes \<Rightarrow> (posix \<times> 'r \<times> int) option" where
  "generate_password B trng w r keyfile =
     (case safe_file_open_write w keyfile of
        (w, None) \<Rightarrow> Some (w, r, 0)
      | (w, Some file) \<Rightarrow>
          let (r, password, ok) = ascon_random B trng r DEFAULT_PASSWORD_LENGTH in
          if ok = 0 then Some (safe_file_delete w file, r, 0)
          else
            let password = map (\<lambda>b. pw_chars ! unat (b AND 0x3F)) password in
            do {
              (w, _) \<leftarrow> safe_file_write w file password;
              (w, _) \<leftarrow> safe_file_write w file (map of_char [CHR 0x0A]);
              let (w, file) = safe_file_close w file in Some (w, r, 1)
            })"

text \<open>The scan for the end of the first line: the position, or \<open>None\<close> if there is a NUL before it.\<close>

function keyfile_scan :: "bytes \<Rightarrow> nat \<Rightarrow> nat \<Rightarrow> nat option" where
  "keyfile_scan full_password len posn =
     (if posn < len \<and> full_password ! posn \<noteq> 0x0A \<and> full_password ! posn \<noteq> 0x0D then
        if full_password ! posn = 0 then None else keyfile_scan full_password len (posn + 1)
      else Some posn)"
  by pat_completeness auto
termination by (relation "measure (\<lambda>(pw, len, posn). len - posn)") auto

declare keyfile_scan.simps [simp del]

text \<open>The password is the C string in the buffer \<open>full_password\<close>, \<open>None\<close> for a result of 0.\<close>

definition read_keyfile :: "posix \<Rightarrow> bytes \<Rightarrow> (posix \<times> bytes option) option" where
  "read_keyfile w keyfile =
     (case safe_file_open_read w keyfile of
        (w, None) \<Rightarrow> Some (w, None)
      | (w, Some file) \<Rightarrow>
          do {
            (w, len, full_password) \<leftarrow> safe_file_read w file ASCON_PWSIZ;
            let (w, file) = safe_file_close w file in
            Some (w,
              if len < 0 then None
              else case keyfile_scan full_password (nat len) 0 of
                None \<Rightarrow> None
              | Some posn \<Rightarrow>
                  if posn \<ge> nat len \<and> len \<ge> int ASCON_PWSIZ then None else Some (take posn full_password))
          })"

text \<open>\<open>pwd\<close> is what \<open>getpass\<close> returns; the buffer has \<open>len\<close> bytes.\<close>

definition read_password :: "bytes option \<Rightarrow> nat \<Rightarrow> bytes option" where
  "read_password pwd len =
     (case pwd of
        None \<Rightarrow> None
      | Some pwd \<Rightarrow>
          let plen = length pwd; plen2 = (if plen \<ge> len then len - 1 else plen) in Some (take plen2 pwd))"

section \<open>File names\<close>

definition ASCON_SUFFIX :: bytes where "ASCON_SUFFIX = map of_char ''.ascon''"
definition DECRYPTED_SUFFIX :: bytes where "DECRYPTED_SUFFIX = map of_char ''.decrypted''"

definition is_encrypted_filename :: "bytes \<Rightarrow> bool" where
  "is_encrypted_filename filename =
     (let len = length filename in if len \<ge> 6 then take 6 (drop (len - 6) filename) = ASCON_SUFFIX else True)"

text \<open>The subtraction is that of \<open>size_t\<close>.  \<open>None\<close> is a write past the end of \<open>temp_filename\<close>, or a read past the
  end of the name.\<close>

definition strip_suffix :: "bytes \<Rightarrow> bytes option" where
  "strip_suffix filename =
     (let len = (of_nat (length filename) :: u64) - 6;
          len = (if unat len \<ge> ASCON_BUFSIZ then of_nat ASCON_BUFSIZ else len)
      in if unat len > length filename \<or> unat len \<ge> ASCON_BUFSIZ then None
         else Some (take (unat len) filename))"

text \<open>\<open>snprintf\<close> cuts the name to the buffer.\<close>

definition add_suffix :: "bytes \<Rightarrow> bytes \<Rightarrow> bytes" where
  "add_suffix filename suffix = take (ASCON_BUFSIZ - 1) (filename @ suffix)"

section \<open>Encryption\<close>

definition asconcrypt_header :: "bytes \<Rightarrow> bytes" where
  "asconcrypt_header salt = map of_char ''ASCONcrypt'' @ [0, 1] @ salt"

text \<open>The key and nonce for the SIV block.\<close>

definition password_kn :: "'s snp \<Rightarrow> 's xof_state \<Rightarrow> bytes \<Rightarrow> bytes \<Rightarrow> bytes" where
  "password_kn B stack pw salt = ascon_pbkdf2 B stack (20 + 16) pw salt ASCON_PBKDF2_ROUNDS"

definition cleanup :: "posix \<Rightarrow> safefile \<Rightarrow> safefile \<Rightarrow> int \<Rightarrow> posix" where
  "cleanup w input output exit_val =
     (let (w, input) = safe_file_close w input; (w, output) = safe_file_close w output
      in if exit_val = 0 then safe_file_delete w output else w)"

text \<open>The loop over the payload; the last result is \<open>exit_val\<close>.\<close>

partial_function (option) encrypt_loop ::
  "'s snp \<Rightarrow> posix \<Rightarrow> 's aead_state \<Rightarrow> safefile \<Rightarrow> safefile \<Rightarrow> u64 \<Rightarrow> (posix \<times> 's aead_state \<times> int) option" where
  "encrypt_loop B w state input output sz =
     do {
       (w, len, data) \<leftarrow> safe_file_read w input ASCON_BUFSIZ;
       if len < 0 then Some (w, state, 0)
       else if len = 0 then Some (w, state, 1)
       else
         let sz = sz + of_int len in
         if sz > ASCON_MAX_FILE_SIZE then Some (w, state, 0)
         else
           let (state, data) = ascon80pq_aead_encrypt_block B state data in
           do {
             (w, n) \<leftarrow> safe_file_write w output data;
             let exit_val = (if n = 0 then 0 else 1) in
             if len < int ASCON_BUFSIZ then Some (w, state, exit_val)
             else if exit_val = 0 then Some (w, state, 0)
             else encrypt_loop B w state input output sz
           }
     }"

text \<open>\<open>sz\<close> is \<open>size\<close>, a local of the function and set to 0 before the loop.  \<open>siv\<close> is the block as written.\<close>

definition encrypt_payload ::
  "'s snp \<Rightarrow> posix \<Rightarrow> safefile \<Rightarrow> safefile \<Rightarrow> bytes \<Rightarrow> bytes \<Rightarrow> bytes \<Rightarrow> int \<Rightarrow> (posix \<times> int) option" where
  "encrypt_payload B w input output siv key nonce exit_val =
     (let state = ascon80pq_aead_init B (Some nonce) (Some key);
          state = ascon80pq_aead_start B state siv
      in do {
        (w, state, exit_val) \<leftarrow>
          (if exit_val = 0 then Some (w, state, exit_val) else encrypt_loop B w state input output 0);
        let (state, tag) = ascon80pq_aead_encrypt_finalize B state in
        if exit_val = 0 then Some (w, exit_val)
        else do {
          (w, n) \<leftarrow> safe_file_write w output tag;
          Some (w, if n = 0 then 0 else exit_val)
        }
      })"

definition encrypt_file ::
  "'s snp \<Rightarrow> 's xof_state \<Rightarrow> 'r trng \<Rightarrow> bytes \<Rightarrow> posix \<Rightarrow> 'r \<Rightarrow> bytes \<Rightarrow> bytes \<Rightarrow> (posix \<times> 'r \<times> int) option" where
  "encrypt_file B stack trng full_password w r infilename outfilename =
     (case safe_file_open_read w infilename of
        (w, None) \<Rightarrow> Some (w, r, 0)
      | (w, Some input) \<Rightarrow>
          (case safe_file_open_write w outfilename of
             (w, None) \<Rightarrow> let (w, input) = safe_file_close w input in Some (w, r, 0)
           | (w, Some output) \<Rightarrow>
               let (r, salt, ok) = ascon_random B trng r 16 in
               if ok = 0 then Some (cleanup w input output 0, r, 0)
               else
                 let (r, kn, ok) = ascon_random B trng r (20 + 16) in
                 if ok = 0 then Some (cleanup w input output 0, r, 0)
                 else
                   let header = asconcrypt_header salt; key = take 20 kn; nonce = drop 20 kn;
                       kn = password_kn B stack full_password salt;
                       siv = ascon80pq_siv_encrypt B (key @ nonce) header (drop 20 kn) (take 20 kn)
                   in do {
                     (w, n) \<leftarrow> safe_file_write w output header;
                     (w, exit_val) \<leftarrow>
                       (if n = 0 then Some (w, 0)
                        else do { (w, n) \<leftarrow> safe_file_write w output siv; Some (w, if n = 0 then 0 else 1) });
                     (w, exit_val) \<leftarrow> encrypt_payload B w input output siv key nonce exit_val;
                     Some (cleanup w input output exit_val, r, exit_val)
                   }))"

section \<open>Decryption\<close>

text \<open>\<open>data\<close> has the first 16 bytes of the buffer, which are kept back because they may be the tag.\<close>

partial_function (option) decrypt_loop ::
  "'s snp \<Rightarrow> posix \<Rightarrow> 's aead_state \<Rightarrow> safefile \<Rightarrow> safefile \<Rightarrow> u64 \<Rightarrow> bytes \<Rightarrow>
   (posix \<times> 's aead_state \<times> bytes \<times> int) option" where
  "decrypt_loop B w state input output sz data =
     do {
       (w, len, more) \<leftarrow> safe_file_read w input (ASCON_BUFSIZ - 16);
       if len < 0 then Some (w, state, data, 0)
       else if len = 0 then Some (w, state, data, 1)
       else
         let sz = sz + of_int len in
         if sz > ASCON_MAX_FILE_SIZE then Some (w, state, data, 0)
         else
           let data = data @ more;
               (state, plain) = ascon80pq_aead_decrypt_block B state (take (nat len) data)
           in do {
             (w, n) \<leftarrow> safe_file_write w output plain;
             let exit_val = (if n = 0 then 0 else 1); data = take 16 (drop (nat len) data) in
             if len < int ASCON_BUFSIZ - 16 then Some (w, state, data, exit_val)
             else if exit_val = 0 then Some (w, state, data, 0)
             else decrypt_loop B w state input output sz data
           }
     }"

definition decrypt_payload ::
  "'s snp \<Rightarrow> posix \<Rightarrow> safefile \<Rightarrow> safefile \<Rightarrow> bytes \<Rightarrow> bytes \<Rightarrow> bytes \<Rightarrow> bytes \<Rightarrow> (posix \<times> int) option" where
  "decrypt_payload B w input output siv key nonce data =
     (let state = ascon80pq_aead_init B (Some nonce) (Some key);
          state = ascon80pq_aead_start B state siv
      in do {
        (w, state, data, exit_val) \<leftarrow> decrypt_loop B w state input output 0 data;
        let (state, result) = ascon80pq_aead_decrypt_finalize B state data in
        Some (w, if result \<noteq> 0 \<and> exit_val \<noteq> 0 then 0 else exit_val)
      })"

definition decrypt_file ::
  "'s snp \<Rightarrow> 's xof_state \<Rightarrow> bytes \<Rightarrow> posix \<Rightarrow> bytes \<Rightarrow> bytes \<Rightarrow> (posix \<times> int) option" where
  "decrypt_file B stack full_password w infilename outfilename =
     (case safe_file_open_read w infilename of
        (w, None) \<Rightarrow> Some (w, 0)
      | (w, Some input) \<Rightarrow>
          (case safe_file_open_write w outfilename of
             (w, None) \<Rightarrow> let (w, input) = safe_file_close w input in Some (w, 0)
           | (w, Some output) \<Rightarrow>
               do {
                 (w, len, header) \<leftarrow> safe_file_read w input 80;
                 if len \<noteq> 80 \<or> take 10 header \<noteq> map of_char ''ASCONcrypt'' \<or> header ! 10 \<noteq> 0 \<or> header ! 11 \<noteq> 1
                 then Some (cleanup w input output 0, 0)
                 else
                   let salt = get_at header 12 16; siv_copy = drop 28 header;
                       kn = password_kn B stack full_password salt;
                       (result, m) = ascon80pq_siv_decrypt B siv_copy (take 28 header) (drop 20 kn) (take 20 kn)
                   in
                   if result \<noteq> 0 then Some (cleanup w input output 0, 0)
                   else do {
                     (w, len, data) \<leftarrow> safe_file_read w input 16;
                     if len \<noteq> 16 then Some (cleanup w input output 0, 0)
                     else do {
                       (w, exit_val) \<leftarrow>
                         decrypt_payload B w input output siv_copy (take 20 (the m)) (drop 20 (the m)) data;
                       Some (cleanup w input output exit_val, exit_val)
                     }
                   }
               }))"


section \<open>The file format\<close>

text \<open>The file for the payload \<open>m\<close>.\<close>

definition asconcrypt_container :: "bytes \<Rightarrow> bytes \<Rightarrow> bytes \<Rightarrow> bytes \<Rightarrow> bytes \<Rightarrow> bytes" where
  "asconcrypt_container pw salt key nonce m =
     (let h = asconcrypt_header salt; kn = spec_pbkdf2 (pbkdf2_prf pw) salt ASCON_PBKDF2_ROUNDS 36;
          siv = spec_siv_encrypt ASCON80PQ_IV1 ASCON80PQ_IV2 8 6 (take 20 kn) (drop 20 kn) h (key @ nonce)
      in h @ siv @ spec_aead_encrypt ASCON80PQ_IV 8 6 key nonce siv m)"

lemma length_header: "length (asconcrypt_header salt) = 12 + length salt"
  by (simp add: asconcrypt_header_def)

lemma length_password_kn: "length (spec_pbkdf2 (pbkdf2_prf pw) salt n 36) = 36"
proof -
  have "[1..<1 + (36 + 31) div 32] = [1, 2 :: nat]" by (simp add: upt_rec)
  then show ?thesis
    by (simp add: spec_pbkdf2_def length_spec_pbkdf2_f[of "pbkdf2_prf pw"] length_pbkdf2_prf del: upt_Suc)
qed

lemma length_siv_block:
  "\<lbrakk>0 < R; R \<le> 40\<rbrakk> \<Longrightarrow> length (spec_siv_encrypt iv1 iv2 R fr k npub ad m) = length m + 16"
  by (simp add: spec_siv_encrypt_def Let_def length_spec_siv_stream length_spec_siv_tag)

definition asconcrypt_magic :: bytes where "asconcrypt_magic = map of_char ''ASCONcrypt'' @ [0, 1]"

text \<open>Reading the format: the payload of a file, if it is one.\<close>

definition asconcrypt_payload :: "bytes \<Rightarrow> bytes \<Rightarrow> bytes option" where
  "asconcrypt_payload pw c =
     (let siv = drop 28 (take 80 c); kn = spec_pbkdf2 (pbkdf2_prf pw) (get_at c 12 16) ASCON_PBKDF2_ROUNDS 36
      in if length c < 80 \<or> take 12 c \<noteq> asconcrypt_magic then None
         else case spec_siv_decrypt ASCON80PQ_IV1 ASCON80PQ_IV2 8 6 (take 20 kn) (drop 20 kn) (take 28 c) siv of
           None \<Rightarrow> None
         | Some kn \<Rightarrow> spec_aead_decrypt ASCON80PQ_IV 8 6 (take 20 kn) (drop 20 kn) siv (drop 80 c))"

lemma asconcrypt_payload_container:
  assumes "length salt = 16" "length key = 20" "length nonce = 16"
  shows "asconcrypt_payload pw (asconcrypt_container pw salt key nonce m) = Some m"
proof -
  let ?h = "asconcrypt_header salt" and ?kn = "spec_pbkdf2 (pbkdf2_prf pw) salt ASCON_PBKDF2_ROUNDS 36"
  let ?siv = "spec_siv_encrypt ASCON80PQ_IV1 ASCON80PQ_IV2 8 6 (take 20 ?kn) (drop 20 ?kn) ?h (key @ nonce)"
  let ?c = "asconcrypt_container pw salt key nonce m"
  have c: "?c = ?h @ ?siv @ spec_aead_encrypt ASCON80PQ_IV 8 6 key nonce ?siv m"
    by (simp add: asconcrypt_container_def Let_def)
  have len: "length ?h = 28" "length ?siv = 52" using assms by (simp_all add: length_header length_siv_block)
  have h: "take 12 ?h = asconcrypt_magic" "take 16 (drop 12 ?h) = salt"
    using assms(1) by (simp_all add: asconcrypt_header_def asconcrypt_magic_def)
  have "take 12 ?c = asconcrypt_magic" "get_at ?c 12 16 = salt" "take 28 ?c = ?h" "drop 28 (take 80 ?c) = ?siv"
    "drop 80 ?c = spec_aead_encrypt ASCON80PQ_IV 8 6 key nonce ?siv m" "80 \<le> length ?c"
    unfolding c using len h assms(1) by (simp_all add: get_at_def)
  moreover have "spec_siv_decrypt ASCON80PQ_IV1 ASCON80PQ_IV2 8 6 (take 20 ?kn) (drop 20 ?kn) ?h ?siv = Some (key @ nonce)"
    "spec_aead_decrypt ASCON80PQ_IV 8 6 key nonce ?siv (spec_aead_encrypt ASCON80PQ_IV 8 6 key nonce ?siv m) = Some m"
    by (simp_all add: spec_siv_decrypt_iff spec_decrypt_iff)
  ultimately show ?thesis using assms by (simp add: asconcrypt_payload_def Let_def)
qed

lemma asconcrypt_payload_Some:
  assumes "asconcrypt_payload pw c = Some m"
  shows "\<exists>salt key nonce. length salt = 16 \<and> length key = 20 \<and> length nonce = 16 \<and>
    c = asconcrypt_container pw salt key nonce m"
proof -
  let ?salt = "get_at c 12 16" and ?siv = "drop 28 (take 80 c)"
  let ?kn = "spec_pbkdf2 (pbkdf2_prf pw) ?salt ASCON_PBKDF2_ROUNDS 36"
  obtain kn where kn: "80 \<le> length c" "take 12 c = asconcrypt_magic"
      "?siv = spec_siv_encrypt ASCON80PQ_IV1 ASCON80PQ_IV2 8 6 (take 20 ?kn) (drop 20 ?kn) (take 28 c) kn"
      "spec_aead_decrypt ASCON80PQ_IV 8 6 (take 20 kn) (drop 20 kn) ?siv (drop 80 c) = Some m"
    using assms by (auto simp: asconcrypt_payload_def Let_def spec_siv_decrypt_iff split: if_splits option.splits)
  have "length ?siv = 52" using kn(1) by simp
  then have len: "length kn = 36" unfolding kn(3) by (simp add: length_siv_block)
  have h: "take 28 c = asconcrypt_header ?salt"
  proof -
    have "take 28 c = take 12 c @ take 16 (drop 12 c)" using take_add[of 12 16 c] by simp
    then show ?thesis by (simp add: kn(2) asconcrypt_header_def asconcrypt_magic_def get_at_def)
  qed
  have "take 80 c = take 28 c @ ?siv" using append_take_drop_id[of 28 "take 80 c"] by simp
  then have "c = take 28 c @ ?siv @ drop 80 c" by (metis append.assoc append_take_drop_id)
  also have "drop 80 c = spec_aead_encrypt ASCON80PQ_IV 8 6 (take 20 kn) (drop 20 kn) ?siv m"
    using kn(4) len by (simp add: spec_decrypt_iff)
  finally have "c = asconcrypt_container pw ?salt (take 20 kn) (drop 20 kn) m"
    using h kn(3) by (simp add: asconcrypt_container_def Let_def)
  then show ?thesis using len kn(1)
    by (intro exI[of _ ?salt] exI[of _ "take 20 kn"] exI[of _ "drop 20 kn"]) simp
qed

section \<open>Cleaning up\<close>

lemma data_safe_close [simp]:
  "px_data (fst (safe_file_close w file)) = px_data w" "px_events (fst (safe_file_close w file)) = px_events w"
  "sf_filename (snd (safe_file_close w file)) = sf_filename file"
  by (simp_all add: safe_file_close_def Let_def)

lemma cleanup_data:
  assumes "no_errors (px_events w) Unlink" "sf_filename output \<noteq> STDIO"
  shows "px_data (cleanup w input output exit_val) =
    (if exit_val = 0 then (px_data w)(Named (sf_filename output) := None) else px_data w)"
proof -
  have "px_events w Unlink i \<noteq> Error e" for i e
    using assms(1) by (metis io_event.distinct(1) no_errors_def)
  then show ?thesis
    using assms(2) by (auto simp: cleanup_def safe_file_delete_def posix_unlink_def next_event_def case_prod_beta
        Let_def fun_eq_iff split: io_event.splits)
qed

section \<open>The payload when nothing fails\<close>

lemma unat_add_len:
  assumes "unat sz + n \<le> 2 ^ 40"
  shows "unat (sz + of_int (int n) :: u64) = unat sz + n"
proof -
  have "unat sz + n < 2 ^ LENGTH(64)" using assms by simp
  then show ?thesis by (simp add: unat_word_ariths take_bit_eq_mod unat_of_nat mod_add_right_eq)
qed

lemma max_file_size: "(sz :: u64) > ASCON_MAX_FILE_SIZE \<longleftrightarrow> unat sz > 2 ^ 40"
  by (simp add: ASCON_MAX_FILE_SIZE_def word_less_nat_alt)

context snp_laws
begin

lemma length_encrypt_block:
  assumes "ascon80pq_session B st"
  shows "length (snd (ascon80pq_aead_encrypt_block B st m)) = length m"
proof -
  obtain b where b: "rep (aead_perm st) b" "unat (aead_posn st) < 8"
    using ascon80pq_session_inv[OF assms] by blast
  from ascon80pq_encrypt_feed[OF b, of "[m]"] length_run[of 8 "(b, unat (aead_posn st))" encrypt_effect 6 m]
  show ?thesis using b rep_length[OF b(1)] by (auto simp: case_prod_beta Let_def duplex_ok_def)
qed

lemma length_decrypt_block:
  assumes "ascon80pq_session B st"
  shows "length (snd (ascon80pq_aead_decrypt_block B st m)) = length m"
proof -
  obtain b where b: "rep (aead_perm st) b" "unat (aead_posn st) < 8"
    using ascon80pq_session_inv[OF assms] by blast
  from ascon80pq_decrypt_feed[OF b, of "[m]"] length_run[of 8 "(b, unat (aead_posn st))" decrypt_effect 6 m]
  show ?thesis using b rep_length[OF b(1)] by (auto simp: case_prod_beta Let_def duplex_ok_def)
qed

lemma encrypt_loop_pipe:
  assumes ev: "steady ev Read" "steady ev Write"
    and start: "piping D ev w input output sin sout rest out" "ascon80pq_session B st" "unat sz + length rest \<le> 2 ^ 40"
  shows "\<exists>w' ms. encrypt_loop B w st input output sz =
      Some (w', fst (feed (ascon80pq_aead_encrypt_block B) st ms), 1) \<and> concat ms = rest \<and>
    piping D ev w' input output sin sout [] (out @ snd (feed (ascon80pq_aead_encrypt_block B) st ms))"
  using start
proof (induction "length rest" arbitrary: w st sz rest out rule: less_induct)
  case less
  let ?d = "take 8192 rest"
  obtain w1 where r: "safe_file_read w input 8192 = Some (w1, int (length ?d), ?d)"
      "piping D ev w1 input output sin sout (drop 8192 rest) out"
    using pipe_read[OF less.prems(1) ev(1)] by blast
  show ?case
  proof (cases "rest = []")
    case True
    then show ?thesis using r
      by (subst encrypt_loop.simps) (auto simp: ASCON_BUFSIZ_def intro!: exI[of _ "[]"])
  next
    case False
    have len: "unat (sz + of_int (int (length ?d))) = unat sz + length ?d"
      by (rule unat_add_len) (use less.prems(3) in auto)
    obtain st1 c where c: "ascon80pq_aead_encrypt_block B st ?d = (st1, c)" by fastforce
    have "length c = length ?d" using length_encrypt_block[OF less.prems(2), of ?d] c by simp
    then have "c \<noteq> []" using False by (cases rest) auto
    obtain w2 where wr: "safe_file_write w1 output c = Some (w2, int (length c))"
        "piping D ev w2 input output sin sout (drop 8192 rest) (out @ c)"
      using pipe_write[OF r(2) ev(2)] by blast
    have small: "\<not> sz + of_int (int (length ?d)) > ASCON_MAX_FILE_SIZE"
      unfolding max_file_size len using less.prems(3) by simp
    have step: "encrypt_loop B w st input output sz =
        (if length ?d < 8192 then Some (w2, st1, 1)
         else encrypt_loop B w2 st1 input output (sz + of_int (int (length ?d))))"
      using r(1) c wr(1) \<open>c \<noteq> []\<close> False small
      by (subst encrypt_loop.simps) (simp add: ASCON_BUFSIZ_def Let_def del: length_take of_int_of_nat_eq)
    show ?thesis
    proof (cases "length ?d < 8192")
      case True
      then have "?d = rest" "drop 8192 rest = []" by auto
      with step True wr(2) c show ?thesis
        by (intro exI[of _ w2] exI[of _ "[rest]"]) simp
    next
      case full: False
      have "ascon80pq_session B st1" using ascon80pq_session_encrypt[OF less.prems(2), of ?d] c by simp
      moreover have "length (drop 8192 rest) < length rest" using False by simp
      moreover have "unat (sz + of_int (int (length ?d))) + length (drop 8192 rest) \<le> 2 ^ 40"
        unfolding len using less.prems(3) full by simp
      ultimately obtain w3 ms where "encrypt_loop B w2 st1 input output (sz + of_int (int (length ?d))) =
            Some (w3, fst (feed (ascon80pq_aead_encrypt_block B) st1 ms), 1)" "concat ms = drop 8192 rest"
          "piping D ev w3 input output sin sout [] ((out @ c) @ snd (feed (ascon80pq_aead_encrypt_block B) st1 ms))"
        using less.hyps wr(2) by blast
      then show ?thesis using step full c
        by (intro exI[of _ w3] exI[of _ "?d # ms"]) (simp add: case_prod_beta Let_def)
    qed
  qed
qed

lemma length_encrypt_tag:
  assumes "ascon80pq_session B st"
  shows "length (snd (ascon80pq_aead_encrypt_finalize B st)) = 16"
proof -
  obtain b where b: "rep (aead_perm st) b" "unat (aead_posn st) < 8" "length (aead_key st) = 20"
    using ascon80pq_session_inv[OF assms] by blast
  obtain b' where "rep (ascon80pq_finish B (snp_acquire B (aead_perm st)) (aead_posn st) (aead_key st)) b'"
    using ascon80pq_finish_any[OF rep_acquire[OF b(1)] b(2,3)] by blast
  from rep_squeeze_16[OF this, of 24] rep_length[OF this] show ?thesis
    by (simp add: ascon80pq_aead_encrypt_finalize_def case_prod_beta Let_def)
qed

lemma session_feed_encrypt:
  "ascon80pq_session B st \<Longrightarrow> ascon80pq_session B (fst (feed (ascon80pq_aead_encrypt_block B) st ms))"
  by (induction ms arbitrary: st) (auto simp: case_prod_beta Let_def intro: ascon80pq_session_encrypt)

lemma session_started:
  assumes "length key = 20" "length nonce = 16"
  shows "ascon80pq_session B (ascon80pq_aead_init B (Some nonce) (Some key))"
    "ascon80pq_session B (ascon80pq_aead_start B (ascon80pq_aead_init B (Some nonce) (Some key)) ad)"
    "aead_key (ascon80pq_aead_init B (Some nonce) (Some key)) = key"
    "aead_nonce (ascon80pq_aead_init B (Some nonce) (Some key)) = nonce"
  using assms ascon80pq_session_init[of "Some nonce" "Some key" B] ascon80pq_session_start
  by (auto simp: ascon80pq_aead_init_def ascon80pq_aead_reinit_def)

lemma encrypt_payload_pipe:
  assumes ev: "steady ev Read" "steady ev Write"
    and start: "piping D ev w input output sin sout rest out" "length key = 20" "length nonce = 16" "length rest \<le> 2 ^ 40"
  shows "\<exists>w'. encrypt_payload B w input output siv key nonce 1 = Some (w', 1) \<and>
    piping D ev w' input output sin sout [] (out @ spec_aead_encrypt ASCON80PQ_IV 8 6 key nonce siv rest)"
proof -
  let ?st = "ascon80pq_aead_init B (Some nonce) (Some key)"
  let ?st1 = "ascon80pq_aead_start B ?st siv"
  note session = session_started[OF start(2,3)]
  obtain w1 ms where loop: "encrypt_loop B w ?st1 input output 0 =
        Some (w1, fst (feed (ascon80pq_aead_encrypt_block B) ?st1 ms), 1)" "concat ms = rest"
      "piping D ev w1 input output sin sout [] (out @ snd (feed (ascon80pq_aead_encrypt_block B) ?st1 ms))"
    using encrypt_loop_pipe[OF ev start(1) session(2)[of siv], of 0] start(4) by auto
  obtain st2 c where feed: "feed (ascon80pq_aead_encrypt_block B) ?st1 ms = (st2, c)" by fastforce
  obtain st3 tag where fin: "ascon80pq_aead_encrypt_finalize B st2 = (st3, tag)" by fastforce
  have len: "length tag = 16"
    using length_encrypt_tag[OF session_feed_encrypt[OF session(2)[of siv], of ms]] feed fin by simp
  obtain b where b: "rep (aead_perm ?st) b" using ascon80pq_session_inv[OF session(1)] by blast
  have "c @ tag = spec_aead_encrypt ASCON80PQ_IV 8 6 key nonce siv rest"
    using ascon80pq_incremental_encrypt[OF b _ _ feed fin] session(3,4) start(2,3) loop(2) by simp
  moreover obtain w2 where "safe_file_write w1 output tag = Some (w2, 16)"
      "piping D ev w2 input output sin sout [] ((out @ c) @ tag)"
    using pipe_write[OF loop(3) ev(2), of tag] feed len by auto
  ultimately show ?thesis using loop(1) feed fin
    by (simp add: encrypt_payload_def Let_def)
qed

end

text \<open>What the two functions start from: two different files, neither of them the terminal, on a system
  that interrupts reads and writes but lets no call fail.\<close>

definition files_ready :: "posix \<Rightarrow> bytes \<Rightarrow> bytes \<Rightarrow> bytes \<Rightarrow> bool" where
  "files_ready w a b c \<longleftrightarrow> working w \<and> a \<noteq> b \<and> a \<noteq> STDIO \<and> b \<noteq> STDIO \<and>
     px_data w (Named a) = Some c \<and> 2 \<le> length (px_fds w) \<and> px_fds w ! 0 \<noteq> None \<and> px_fds w ! 1 \<noteq> None"

lemma files_ready_events:
  assumes "files_ready w a b c"
  shows "steady (px_events w) Read" "steady (px_events w) Write" "no_errors (px_events w) Unlink"
  using assms by (simp_all add: files_ready_def working_def)

lemma files_ready_open:
  assumes "files_ready w a b c"
  obtains w1 ifile w2 ofile where "safe_file_open_read w a = (w1, Some ifile)"
    "safe_file_open_write w1 b = (w2, Some ofile)" "sf_filename ofile = b" "sf_filename ofile \<noteq> STDIO"
    "piping (px_data w) (px_events w) w2 ifile ofile (Named a) (Named b) c []"
  using assms pipe_open[of w a b c] unfolding files_ready_def working_def by metis

text \<open>The source of random bytes works.\<close>

definition trng_works :: "'r trng \<Rightarrow> bool" where
  "trng_works trng \<longleftrightarrow> (\<forall>r. snd (snd (trng r 32)) \<noteq> 0)"

context snp_laws
begin

lemma random_works:
  assumes "trng_works trng"
  obtains r' out where "ascon_random B trng r n = (r', out, 1)" "length out = n"
  using assms random_output[of trng r n] that
  by (auto simp: trng_works_def split: prod.splits) (metis snd_conv)

lemma encrypt_file_result:
  assumes "files_ready w a b m" "trng_works trng" "length m \<le> 2 ^ 40"
  shows "\<exists>w' r' salt key nonce. encrypt_file B stack trng pw w r a b = Some (w', r', 1) \<and>
    length salt = 16 \<and> length key = 20 \<and> length nonce = 16 \<and>
    px_data w' = (px_data w)(Named b \<mapsto> asconcrypt_container pw salt key nonce m)"
proof -
  note ev = files_ready_events[OF assms(1)]
  obtain w1 ifile w2 ofile where opened: "safe_file_open_read w a = (w1, Some ifile)"
      "safe_file_open_write w1 b = (w2, Some ofile)" "sf_filename ofile \<noteq> STDIO"
    and pipe: "piping (px_data w) (px_events w) w2 ifile ofile (Named a) (Named b) m []"
    using files_ready_open[OF assms(1)] by metis
  obtain r1 salt where salt: "ascon_random B trng r 16 = (r1, salt, 1)" "length salt = 16"
    by (rule random_works[OF assms(2)])
  obtain r2 kn where kn: "ascon_random B trng r1 36 = (r2, kn, 1)" "length kn = 36"
    by (rule random_works[OF assms(2)])
  let ?pw = "spec_pbkdf2 (pbkdf2_prf pw) salt ASCON_PBKDF2_ROUNDS 36" and ?h = "asconcrypt_header salt"
  let ?siv = "spec_siv_encrypt ASCON80PQ_IV1 ASCON80PQ_IV2 8 6 (take 20 ?pw) (drop 20 ?pw) ?h (take 20 kn @ drop 20 kn)"
  have siv: "ascon80pq_siv_encrypt B (take 20 kn @ drop 20 kn) ?h
      (drop 20 (password_kn B stack pw salt)) (take 20 (password_kn B stack pw salt)) = ?siv"
    using ascon80pq_siv_encrypt_spec[of "take 20 ?pw" "drop 20 ?pw"]
    by (simp add: password_kn_def pbkdf2_eq length_password_kn)
  obtain w3 where w3: "safe_file_write w2 ofile ?h = Some (w3, int (length ?h))"
      "piping (px_data w) (px_events w) w3 ifile ofile (Named a) (Named b) m ?h"
    using pipe_write[OF pipe ev(2), of ?h] by auto
  obtain w4 where w4: "safe_file_write w3 ofile ?siv = Some (w4, int (length ?siv))"
      "piping (px_data w) (px_events w) w4 ifile ofile (Named a) (Named b) m (?h @ ?siv)"
    using pipe_write[OF w3(2) ev(2), of ?siv] by auto
  obtain w5 where w5: "encrypt_payload B w4 ifile ofile ?siv (take 20 kn) (drop 20 kn) 1 = Some (w5, 1)"
      "piping (px_data w) (px_events w) w5 ifile ofile (Named a) (Named b) []
        ((?h @ ?siv) @ spec_aead_encrypt ASCON80PQ_IV 8 6 (take 20 kn) (drop 20 kn) ?siv m)"
    using encrypt_payload_pipe[OF ev(1,2) w4(2), of "take 20 kn" "drop 20 kn" ?siv] kn(2) assms(3) by auto
  have lens: "length ?h \<noteq> 0" "length ?siv \<noteq> 0"
    by (simp_all add: length_header length_siv_block)
  have "encrypt_file B stack trng pw w r a b = Some (cleanup w5 ifile ofile 1, r2, 1)"
    using opened salt(1) kn(1) siv w3(1) w4(1) w5(1) lens
    by (simp add: encrypt_file_def Let_def)
  moreover have "px_data (cleanup w5 ifile ofile 1) = px_data w5"
    using cleanup_data[of w5 ofile ifile 1] opened(3) ev(3) w5(2) by (simp add: piping_def)
  ultimately show ?thesis
    using w5(2) salt(2) kn(2)
    by (intro exI[of _ "cleanup w5 ifile ofile 1"] exI[of _ r2] exI[of _ salt] exI[of _ "take 20 kn"]
        exI[of _ "drop 20 kn"]) (simp add: piping_def asconcrypt_container_def Let_def)
qed

lemma session_feed_decrypt:
  "ascon80pq_session B st \<Longrightarrow> ascon80pq_session B (fst (feed (ascon80pq_aead_decrypt_block B) st cs))"
  by (induction cs arbitrary: st) (auto simp: case_prod_beta Let_def intro: ascon80pq_session_decrypt)

text \<open>The last 16 bytes of what was read so far are kept back.\<close>

lemma decrypt_loop_pipe:
  assumes ev: "steady ev Read" "steady ev Write"
    and start: "piping D ev w input output sin sout rest out" "ascon80pq_session B st" "unat sz \<le> 2 ^ 40" "length data = 16"
  shows "\<exists>w' cs data' rest' out' x. decrypt_loop B w st input output sz data =
      Some (w', fst (feed (ascon80pq_aead_decrypt_block B) st cs), data', x) \<and>
    piping D ev w' input output sin sout rest' out' \<and> length data' = 16 \<and>
    (if unat sz + length rest \<le> 2 ^ 40
     then x = 1 \<and> concat cs @ data' = data @ rest \<and> out' = out @ snd (feed (ascon80pq_aead_decrypt_block B) st cs)
     else x = 0)"
  using start
proof (induction "length rest" arbitrary: w st sz rest out data rule: less_induct)
  case less
  define d rest1 where "d = take (ASCON_BUFSIZ - 16) rest" and "rest1 = drop (ASCON_BUFSIZ - 16) rest"
  have split: "d @ rest1 = rest" "length rest = length d + length rest1" "d = [] \<longleftrightarrow> rest = []"
    "length d < ASCON_BUFSIZ - 16 \<Longrightarrow> rest1 = []"
    by (auto simp: d_def rest1_def ASCON_BUFSIZ_def)
  have bufsiz: "int ASCON_BUFSIZ - 16 = int (ASCON_BUFSIZ - 16)" by (simp add: ASCON_BUFSIZ_def)
  obtain w1 where r: "safe_file_read w input (ASCON_BUFSIZ - 16) = Some (w1, int (length d), d)"
      "piping D ev w1 input output sin sout rest1 out"
    using pipe_read[OF less.prems(1) ev(1)] unfolding d_def rest1_def by blast
  show ?case
  proof (cases "rest = []")
    case True
    then have "decrypt_loop B w st input output sz data = Some (w1, st, data, 1)"
      using r(1) split(3) by (subst decrypt_loop.simps) simp
    then show ?thesis using r(2) True less.prems(3,4)
      by (intro exI[of _ w1] exI[of _ "[]::bytes list"] exI[of _ data] exI[of _ rest1] exI[of _ out] exI[of _ 1]) simp
  next
    case False
    have big: "sz + of_int (int (length d)) > ASCON_MAX_FILE_SIZE \<longleftrightarrow> unat sz + length d > 2 ^ 40"
    proof -
      have "length d \<le> 8192" by (simp add: d_def ASCON_BUFSIZ_def)
      then have "unat sz + length d < 2 ^ LENGTH(64)" using less.prems(3) by simp
      then have "unat (sz + of_int (int (length d))) = unat sz + length d"
        by (simp add: unat_word_ariths take_bit_eq_mod unat_of_nat mod_add_right_eq)
      then show ?thesis by (simp only: max_file_size)
    qed
    show ?thesis
    proof (cases "unat sz + length d > 2 ^ 40")
      case True
      have "decrypt_loop B w st input output sz data = Some (w1, st, data, 0)"
        using r(1) False True big split(3) by (subst decrypt_loop.simps) (simp add: Let_def del: of_int_of_nat_eq)
      moreover have "\<not> unat sz + length rest \<le> 2 ^ 40" using True split(2) by simp
      ultimately show ?thesis using r(2) less.prems(4)
        by (intro exI[of _ w1] exI[of _ "[]::bytes list"]) auto
    next
      case small: False
      have len: "unat (sz + of_int (int (length d))) = unat sz + length d"
        by (rule unat_add_len) (use small in auto)
      define x y where "x = take (length d) (data @ d)" and "y = take 16 (drop (length d) (data @ d))"
      have "y = drop (length d) (data @ d)" using less.prems(4) by (simp add: y_def)
      then have y: "length y = 16" "x @ y = data @ d" "length x = length d"
        using less.prems(4) append_take_drop_id[of "length d" "data @ d"] by (simp_all add: x_def)
      obtain st1 m where m: "ascon80pq_aead_decrypt_block B st x = (st1, m)" by fastforce
      have "length m = length d" using length_decrypt_block[OF less.prems(2), of x] m y(3) by simp
      then have "m \<noteq> []" using False split(3) by auto
      obtain w2 where wr: "safe_file_write w1 output m = Some (w2, int (length m))"
          "piping D ev w2 input output sin sout rest1 (out @ m)"
        using pipe_write[OF r(2) ev(2)] by blast
      have step: "decrypt_loop B w st input output sz data =
          (if length d < ASCON_BUFSIZ - 16 then Some (w2, st1, y, 1)
           else decrypt_loop B w2 st1 input output (sz + of_int (int (length d))) y)"
        using r(1) m wr(1) \<open>m \<noteq> []\<close> False small big split(3)
        by (subst decrypt_loop.simps) (simp add: bufsiz Let_def nat_int x_def y_def del: of_int_of_nat_eq)
      show ?thesis
      proof (cases "length d < ASCON_BUFSIZ - 16")
        case True
        with split(4) have "rest1 = []" by simp
        then show ?thesis using step True wr(2) m y split small
          by (intro exI[of _ w2] exI[of _ "[x]"] exI[of _ y] exI[of _ "[]"] exI[of _ "out @ m"] exI[of _ 1]) simp
      next
        case full: False
        have session: "ascon80pq_session B st1" using ascon80pq_session_decrypt[OF less.prems(2), of x] m by simp
        have shorter: "length rest1 < length rest" using False split(2,3) by simp
        have bound: "unat (sz + of_int (int (length d))) \<le> 2 ^ 40" unfolding len using small by simp
        from less.hyps[OF shorter wr(2) session bound y(1)] obtain w3 cs data' rest' out' z where ih:
            "decrypt_loop B w2 st1 input output (sz + of_int (int (length d))) y =
              Some (w3, fst (feed (ascon80pq_aead_decrypt_block B) st1 cs), data', z)"
            "piping D ev w3 input output sin sout rest' out'" "length data' = 16"
            "if unat sz + length d + length rest1 \<le> 2 ^ 40
             then z = 1 \<and> concat cs @ data' = y @ rest1 \<and>
               out' = (out @ m) @ snd (feed (ascon80pq_aead_decrypt_block B) st1 cs)
             else z = 0"
          unfolding len by metis
        have "x @ y @ rest1 = data @ rest" using y(2) split(1) by (metis append.assoc)
        with ih step full m split(2) show ?thesis
          by (intro exI[of _ w3] exI[of _ "x # cs"] exI[of _ data'] exI[of _ rest'] exI[of _ out'] exI[of _ z])
            (simp add: case_prod_beta Let_def add.assoc)
      qed
    qed
  qed
qed

lemma decrypt_payload_pipe:
  assumes ev: "steady ev Read" "steady ev Write"
    and start: "piping D ev w input output sin sout rest out" "length key = 20" "length nonce = 16" "length data = 16"
  shows "\<exists>w' rest' out' x. decrypt_payload B w input output siv key nonce data = Some (w', x) \<and>
    piping D ev w' input output sin sout rest' out' \<and>
    (case spec_aead_decrypt ASCON80PQ_IV 8 6 key nonce siv (data @ rest) of
       None \<Rightarrow> x = 0
     | Some m \<Rightarrow> if length rest \<le> 2 ^ 40 then x = 1 \<and> out' = out @ m else x = 0)"
proof -
  let ?st = "ascon80pq_aead_init B (Some nonce) (Some key)"
  let ?st1 = "ascon80pq_aead_start B ?st siv"
  note session = session_started[OF start(2,3)]
  obtain w1 cs data' rest' out' x where loop: "decrypt_loop B w ?st1 input output 0 data =
        Some (w1, fst (feed (ascon80pq_aead_decrypt_block B) ?st1 cs), data', x)"
      "piping D ev w1 input output sin sout rest' out'" "length data' = 16"
      "if length rest \<le> 2 ^ 40
       then x = 1 \<and> concat cs @ data' = data @ rest \<and> out' = out @ snd (feed (ascon80pq_aead_decrypt_block B) ?st1 cs)
       else x = 0"
    using decrypt_loop_pipe[OF ev start(1) session(2)[of siv], of 0 data] start(4) by auto
  obtain st2 m where feed: "feed (ascon80pq_aead_decrypt_block B) ?st1 cs = (st2, m)" by fastforce
  obtain st3 result where fin: "ascon80pq_aead_decrypt_finalize B st2 data' = (st3, result)" by fastforce
  obtain b where b: "rep (aead_perm ?st) b" using ascon80pq_session_inv[OF session(1)] by blast
  have result: "result = (if spec_aead_decrypt ASCON80PQ_IV 8 6 key nonce siv (concat cs @ data') = Some m then 0 else -1)"
    "spec_aead_decrypt ASCON80PQ_IV 8 6 key nonce siv (concat cs @ data') \<in> {None, Some m}"
    using ascon80pq_incremental_decrypt[OF b _ _ feed fin loop(3)] session(3,4) start(2,3) by simp_all
  define y where "y = (if result \<noteq> 0 \<and> x \<noteq> 0 then 0 else x)"
  have "decrypt_payload B w input output siv key nonce data = Some (w1, y)"
    using loop(1) feed fin by (simp add: decrypt_payload_def Let_def y_def)
  moreover have "case spec_aead_decrypt ASCON80PQ_IV 8 6 key nonce siv (data @ rest) of
      None \<Rightarrow> y = 0 | Some m \<Rightarrow> if length rest \<le> 2 ^ 40 then y = 1 \<and> out' = out @ m else y = 0"
    using loop(4) feed result by (auto simp: y_def split: option.split if_splits)
  ultimately show ?thesis using loop(2) by blast
qed

text \<open>Which files are accepted, and what is left in the output file.\<close>

lemma decrypt_file_result:
  assumes "files_ready w a b c"
  shows "\<exists>w' x. decrypt_file B stack pw w a b = Some (w', x) \<and>
    (case asconcrypt_payload pw c of
       Some m \<Rightarrow> if length m \<le> 2 ^ 40 then x = 1 \<and> px_data w' = (px_data w)(Named b \<mapsto> m)
                 else x = 0 \<and> px_data w' = (px_data w)(Named b := None)
     | None \<Rightarrow> x = 0 \<and> px_data w' = (px_data w)(Named b := None))"
proof -
  note ev = files_ready_events[OF assms]
  obtain w1 ifile w2 ofile where opened: "safe_file_open_read w a = (w1, Some ifile)"
      "safe_file_open_write w1 b = (w2, Some ofile)" "sf_filename ofile = b" "sf_filename ofile \<noteq> STDIO"
    and pipe: "piping (px_data w) (px_events w) w2 ifile ofile (Named a) (Named b) c []"
    using files_ready_open[OF assms] by metis
  have failed: "px_data (cleanup w' ifile ofile 0) = (px_data w)(Named b := None)"
    if "piping (px_data w) (px_events w) w' ifile ofile (Named a) (Named b) rest out" for w' rest out
    using that cleanup_data[of w' ofile ifile 0] opened(3,4) ev(3) by (simp add: piping_def)
  obtain w3 where w3: "safe_file_read w2 ifile 80 = Some (w3, int (length (take 80 c)), take 80 c)"
      "piping (px_data w) (px_events w) w3 ifile ofile (Named a) (Named b) (drop 80 c) []"
    using pipe_read[OF pipe ev(1), of 80] by blast
  let ?salt = "get_at c 12 16" and ?siv = "drop 28 (take 80 c)"
  let ?kn = "spec_pbkdf2 (pbkdf2_prf pw) ?salt ASCON_PBKDF2_ROUNDS 36"
  show ?thesis
  proof (cases "length c < 80 \<or> take 12 c \<noteq> asconcrypt_magic")
    case True
    have "length c < 80 \<or> take 10 (take 80 c) \<noteq> map of_char ''ASCONcrypt'' \<or> take 80 c ! 10 \<noteq> 0 \<or> take 80 c ! 11 \<noteq> 1"
    proof (rule ccontr)
      assume *: "\<not> ?thesis"
      then have "12 \<le> length c" by simp
      then have "take 12 c = take 10 c @ [c ! 10, c ! 11]"
        using take_Suc_conv_app_nth[of 10 c] take_Suc_conv_app_nth[of 11 c] by (simp add: numeral_eq_Suc)
      with * True show False by (simp add: asconcrypt_magic_def)
    qed
    then have "decrypt_file B stack pw w a b = Some (cleanup w3 ifile ofile 0, 0)"
      using opened(1,2) w3(1) by (auto simp: decrypt_file_def Let_def)
    then show ?thesis using failed[OF w3(2)] True by (auto simp: asconcrypt_payload_def Let_def)
  next
    case False
    then have magic: "80 \<le> length c" "take 12 c = asconcrypt_magic" by auto
    then have fields: "take 10 (take 80 c) = map of_char ''ASCONcrypt''" "take 80 c ! 10 = 0" "take 80 c ! 11 = 1"
    proof -
      have "take 10 c = take 10 (take 12 c)" "c ! 10 = take 12 c ! 10" "c ! 11 = take 12 c ! 11" by simp_all
      then show "take 10 (take 80 c) = map of_char ''ASCONcrypt''" "take 80 c ! 10 = 0" "take 80 c ! 11 = 1"
        unfolding magic(2) by (simp_all add: asconcrypt_magic_def)
    qed
    let ?d = "spec_siv_decrypt ASCON80PQ_IV1 ASCON80PQ_IV2 8 6 (take 20 ?kn) (drop 20 ?kn) (take 28 c) ?siv"
    have siv: "ascon80pq_siv_decrypt B ?siv (take 28 c) (drop 20 (password_kn B stack pw ?salt))
        (take 20 (password_kn B stack pw ?salt)) = (case ?d of Some m \<Rightarrow> (0, Some m) | None \<Rightarrow> (-1, Some (zeros 36)))"
    proof -
      have "length ?siv = 52" using magic(1) by simp
      then show ?thesis using ascon80pq_siv_decrypt_spec[of "take 20 ?kn" "drop 20 ?kn" ?siv]
        by (simp add: password_kn_def pbkdf2_eq length_password_kn split: option.split)
    qed
    have salt: "get_at (take 80 c) 12 16 = ?salt" by (simp add: get_at_def drop_take)
    have w3': "safe_file_read w2 ifile 80 = Some (w3, 80, take 80 c)" using w3(1) magic(1) by simp
    show ?thesis
    proof (cases ?d)
      case None
      then have "decrypt_file B stack pw w a b = Some (cleanup w3 ifile ofile 0, 0)"
        using opened(1,2) w3' magic(1) fields salt siv by (simp add: decrypt_file_def Let_def)
      then show ?thesis using None failed[OF w3(2)] by (auto simp: asconcrypt_payload_def Let_def)
    next
      case (Some kn)
      have start: "decrypt_file B stack pw w a b =
          do {
            (w, len, data) \<leftarrow> safe_file_read w3 ifile 16;
            if len \<noteq> 16 then Some (cleanup w ifile ofile 0, 0)
            else do {
              (w, exit_val) \<leftarrow> decrypt_payload B w ifile ofile ?siv (take 20 kn) (drop 20 kn) data;
              Some (cleanup w ifile ofile exit_val, exit_val)
            }
          }"
        using opened(1,2) w3' magic(1) fields salt siv Some
        by (simp add: decrypt_file_def Let_def) (simp only: option.sel)
      from Some have e: "?siv = spec_siv_encrypt ASCON80PQ_IV1 ASCON80PQ_IV2 8 6 (take 20 ?kn) (drop 20 ?kn) (take 28 c) kn"
        by (simp add: spec_siv_decrypt_iff)
      have "length ?siv = 52" using magic(1) by simp
      then have len: "length kn = 36" unfolding e by (simp add: length_siv_block)
      let ?p = "spec_aead_decrypt ASCON80PQ_IV 8 6 (take 20 kn) (drop 20 kn) ?siv (drop 80 c)"
      have payload: "asconcrypt_payload pw c = ?p"
        using magic Some by (simp add: asconcrypt_payload_def Let_def)
      obtain w4 where w4: "safe_file_read w3 ifile 16 = Some (w4, int (length (take 16 (drop 80 c))), take 16 (drop 80 c))"
          "piping (px_data w) (px_events w) w4 ifile ofile (Named a) (Named b) (drop 16 (drop 80 c)) []"
        using pipe_read[OF w3(2) ev(1), of 16] by blast
      show ?thesis
      proof (cases "length (take 16 (drop 80 c)) = 16")
        case False
        then have "length (drop 80 c) < 16" by (simp add: min_def split: if_splits)
        then have "?p = None" by (simp only: spec_aead_decrypt_def if_True)
        then show ?thesis using start Some w4(1) False failed[OF w4(2)] payload by auto
      next
        case True
        have data: "take 16 (drop 80 c) @ drop 16 (drop 80 c) = drop 80 c" by (rule append_take_drop_id)
        obtain w5 rest' out' x where pay: "decrypt_payload B w4 ifile ofile ?siv (take 20 kn) (drop 20 kn)
              (take 16 (drop 80 c)) = Some (w5, x)"
            "piping (px_data w) (px_events w) w5 ifile ofile (Named a) (Named b) rest' out'"
            "case ?p of None \<Rightarrow> x = 0
             | Some m \<Rightarrow> if length (drop 16 (drop 80 c)) \<le> 2 ^ 40 then x = 1 \<and> out' = [] @ m else x = 0"
          using decrypt_payload_pipe[OF ev(1,2) w4(2), of "take 20 kn" "drop 20 kn" "take 16 (drop 80 c)" ?siv] len True
          unfolding data by auto
        have run: "decrypt_file B stack pw w a b = Some (cleanup w5 ifile ofile x, x)"
          using start Some w4(1) True pay(1) by simp
        have finished: "px_data (cleanup w5 ifile ofile 1) = (px_data w)(Named b \<mapsto> out')"
          using cleanup_data[of w5 ofile ifile 1] opened(4) pay(2) ev(3) by (simp add: piping_def)
        show ?thesis
        proof (cases ?p)
          case None
          then show ?thesis using run pay(3) failed[OF pay(2)] payload by auto
        next
          case (Some m)
          then have "drop 80 c = spec_aead_encrypt ASCON80PQ_IV 8 6 (take 20 kn) (drop 20 kn) ?siv m"
            by (simp add: spec_decrypt_iff)
          then have "length (drop 80 c) = length m + 16" by (simp add: length_spec_encrypt)
          then have "length (drop 16 (drop 80 c)) = length m" by simp
          then show ?thesis using Some run pay(3) failed[OF pay(2)] finished payload by auto
        qed
      qed
    qed
  qed
qed

end

section \<open>A disk without space\<close>

text \<open>The results of \<open>safe_file_write\<close> are tested for 0, but an error is -1.\<close>

definition disk_full :: "posix \<Rightarrow> bytes \<Rightarrow> bytes \<Rightarrow> bytes \<Rightarrow> bool" where
  "disk_full w a b c \<longleftrightarrow> steady (px_events w) Read \<and> (\<forall>i. px_events w Write i = Error 28) \<and>
     no_errors (px_events w) Open \<and> no_errors (px_events w) Unlink \<and> a \<noteq> b \<and> a \<noteq> STDIO \<and> b \<noteq> STDIO \<and>
     px_data w (Named a) = Some c \<and> 2 \<le> length (px_fds w) \<and> px_fds w ! 0 \<noteq> None \<and> px_fds w ! 1 \<noteq> None"

lemma full_write:
  "\<lbrakk>piping D ev w ifile ofile sin sout rest out; \<forall>i. ev Write i = Error 28\<rbrakk> \<Longrightarrow>
   \<exists>w'. safe_file_write w ofile d = Some (w', -1) \<and> piping D ev w' ifile ofile sin sout rest out"
  by (rule pipe_write_fails[of D ev w ifile ofile sin sout rest out 28]) (simp_all add: EINTR_def EAGAIN_def)

lemma encrypt_loop_full:
  assumes ev: "steady ev Read" "\<forall>i. ev Write i = Error 28"
    and start: "piping D ev w ifile ofile sin sout rest out" "unat sz + length rest \<le> 2 ^ 40"
  shows "\<exists>w' st' rest'. encrypt_loop B w st ifile ofile sz = Some (w', st', 1) \<and>
    piping D ev w' ifile ofile sin sout rest' out"
  using start
proof (induction "length rest" arbitrary: w st sz rest rule: less_induct)
  case less
  define d rest1 where "d = take ASCON_BUFSIZ rest" and "rest1 = drop ASCON_BUFSIZ rest"
  have split: "length rest = length d + length rest1" "d = [] \<longleftrightarrow> rest = []"
    by (auto simp: d_def rest1_def ASCON_BUFSIZ_def)
  obtain w1 where r: "safe_file_read w ifile ASCON_BUFSIZ = Some (w1, int (length d), d)"
      "piping D ev w1 ifile ofile sin sout rest1 out"
    using pipe_read[OF less.prems(1) ev(1)] unfolding d_def rest1_def by blast
  show ?case
  proof (cases "rest = []")
    case True
    then have "encrypt_loop B w st ifile ofile sz = Some (w1, st, 1)"
      using r(1) split(2) by (subst encrypt_loop.simps) simp
    then show ?thesis using r(2) by blast
  next
    case False
    have len: "unat (sz + of_int (int (length d))) = unat sz + length d"
      by (rule unat_add_len) (use less.prems(2) split in auto)
    obtain st1 c where c: "ascon80pq_aead_encrypt_block B st d = (st1, c)" by fastforce
    obtain w2 where wr: "safe_file_write w1 ofile c = Some (w2, -1)" "piping D ev w2 ifile ofile sin sout rest1 out"
      using full_write[OF r(2) ev(2)] by blast
    have small: "\<not> sz + of_int (int (length d)) > ASCON_MAX_FILE_SIZE"
      unfolding max_file_size len using less.prems(2) split(1) by simp
    have step: "encrypt_loop B w st ifile ofile sz =
        (if length d < ASCON_BUFSIZ then Some (w2, st1, 1)
         else encrypt_loop B w2 st1 ifile ofile (sz + of_int (int (length d))))"
      using r(1) c wr(1) False small split(2)
      by (subst encrypt_loop.simps) (simp add: Let_def del: of_int_of_nat_eq)
    have "length rest1 < length rest" using False split by simp
    moreover have "unat (sz + of_int (int (length d))) + length rest1 \<le> 2 ^ 40"
      unfolding len using less.prems(2) split(1) by simp
    ultimately show ?thesis using less.hyps[OF _ wr(2)] wr(2) unfolding step by auto
  qed
qed

lemma encrypt_payload_full:
  assumes ev: "steady ev Read" "\<forall>i. ev Write i = Error 28"
    and start: "piping D ev w ifile ofile sin sout rest out" "length rest \<le> 2 ^ 40"
  shows "\<exists>w' rest'. encrypt_payload B w ifile ofile siv key nonce 1 = Some (w', 1) \<and>
    piping D ev w' ifile ofile sin sout rest' out"
proof -
  let ?st = "ascon80pq_aead_start B (ascon80pq_aead_init B (Some nonce) (Some key)) siv"
  obtain w1 st1 rest1 where loop: "encrypt_loop B w ?st ifile ofile 0 = Some (w1, st1, 1)"
      "piping D ev w1 ifile ofile sin sout rest1 out"
    using encrypt_loop_full[OF ev start(1), of 0 B ?st] start(2) by auto
  obtain st2 tag where fin: "ascon80pq_aead_encrypt_finalize B st1 = (st2, tag)" by fastforce
  obtain w2 where "safe_file_write w1 ofile tag = Some (w2, -1)" "piping D ev w2 ifile ofile sin sout rest1 out"
    using full_write[OF loop(2) ev(2)] by blast
  then show ?thesis using loop(1) fin by (auto simp: encrypt_payload_def Let_def)
qed

lemma encrypt_file_full:
  assumes "disk_full w a b m" "length m \<le> 2 ^ 40"
    and "\<And>r n. \<exists>r' out. ascon_random B trng r n = (r', out, 1)"
  shows "\<exists>w' r'. encrypt_file B stack trng pw w r a b = Some (w', r', 1) \<and> px_data w' = (px_data w)(Named b \<mapsto> [])"
proof -
  have ev: "steady (px_events w) Read" "\<forall>i. px_events w Write i = Error 28" "no_errors (px_events w) Unlink"
    using assms(1) by (simp_all add: disk_full_def)
  obtain w1 ifile w2 ofile where opened: "safe_file_open_read w a = (w1, Some ifile)"
      "safe_file_open_write w1 b = (w2, Some ofile)" "sf_filename ofile \<noteq> STDIO"
    and pipe: "piping (px_data w) (px_events w) w2 ifile ofile (Named a) (Named b) m []"
    using pipe_open[of w a b m] assms(1) unfolding disk_full_def by metis
  obtain r1 salt where salt: "ascon_random B trng r 16 = (r1, salt, 1)" using assms(3) by blast
  obtain r2 kn where kn: "ascon_random B trng r1 36 = (r2, kn, 1)" using assms(3) by blast
  define h siv where "h = asconcrypt_header salt" and "siv = ascon80pq_siv_encrypt B kn h
    (drop 20 (password_kn B stack pw salt)) (take 20 (password_kn B stack pw salt))"
  obtain w3 where w3: "safe_file_write w2 ofile h = Some (w3, -1)"
      "piping (px_data w) (px_events w) w3 ifile ofile (Named a) (Named b) m []"
    using full_write[OF pipe ev(2)] by blast
  obtain w4 where w4: "safe_file_write w3 ofile siv = Some (w4, -1)"
      "piping (px_data w) (px_events w) w4 ifile ofile (Named a) (Named b) m []"
    using full_write[OF w3(2) ev(2)] by blast
  obtain w5 rest where w5: "encrypt_payload B w4 ifile ofile siv (take 20 kn) (drop 20 kn) 1 = Some (w5, 1)"
      "piping (px_data w) (px_events w) w5 ifile ofile (Named a) (Named b) rest []"
    using encrypt_payload_full[OF ev(1,2) w4(2) assms(2)] by blast
  have "encrypt_file B stack trng pw w r a b = Some (cleanup w5 ifile ofile 1, r2, 1)"
    using opened salt kn w3(1) w4(1) w5(1)
    by (simp add: encrypt_file_def Let_def flip: h_def siv_def)
  moreover have "px_data (cleanup w5 ifile ofile 1) = (px_data w)(Named b \<mapsto> [])"
    using cleanup_data[of w5 ofile ifile 1] opened(3) ev(3) w5(2) by (simp add: piping_def)
  ultimately show ?thesis by blast
qed

section \<open>Every call returns\<close>

lemma size_grows:
  assumes "unat (sz :: u64) \<le> 2 ^ 40" "int n \<le> len" "len \<le> 8192" "\<not> sz + of_int len > ASCON_MAX_FILE_SIZE"
  shows "unat (sz + of_int len) \<le> 2 ^ 40" "unat sz + n \<le> unat (sz + of_int len)"
proof -
  obtain k where k: "len = int k" using assms(2) by (metis nonneg_int_cases of_nat_0_le_iff order_trans)
  then have "unat sz + k < 2 ^ LENGTH(64)" using assms(1,3) by simp
  then have "unat (sz + of_int len) = unat sz + k"
    unfolding k by (simp add: unat_word_ariths take_bit_eq_mod unat_of_nat mod_add_right_eq)
  then show "unat sz + n \<le> unat (sz + of_int len)" using assms(2) k by simp
  show "unat (sz + of_int len) \<le> 2 ^ 40" using assms(4) unfolding max_file_size by simp
qed

lemma encrypt_loop_returns:
  assumes "fair (px_events w) Read" "fair (px_events w) Write" "unat sz \<le> 2 ^ 40"
  shows "\<exists>w' st' x. encrypt_loop B w st ifile ofile sz = Some (w', st', x) \<and> px_events w' = px_events w"
  using assms
proof (induction "2 ^ 40 - unat sz" arbitrary: w st sz rule: less_induct)
  case less
  obtain w1 len data where rd: "safe_file_read w ifile ASCON_BUFSIZ = Some (w1, len, data)"
      "px_events w1 = px_events w" "len = -1 \<or> 0 \<le> len \<and> len \<le> int ASCON_BUFSIZ"
    using safe_file_read_returns[OF less.prems(1)] by blast
  consider "len \<le> 0" | "sz + of_int len > ASCON_MAX_FILE_SIZE"
    | (go) "0 < len" "\<not> sz + of_int len > ASCON_MAX_FILE_SIZE" by linarith
  then show ?case
  proof cases
    case go
    obtain st1 c where c: "ascon80pq_aead_encrypt_block B st data = (st1, c)" by fastforce
    obtain w2 n where wr: "safe_file_write w1 ofile c = Some (w2, n)" "px_events w2 = px_events w"
      using safe_file_write_returns[of w1 ofile c] less.prems(2) rd(2) by auto
    have step: "encrypt_loop B w st ifile ofile sz =
        (let exit_val = (if n = 0 then 0 else 1) in
         if len < int ASCON_BUFSIZ then Some (w2, st1, exit_val)
         else if exit_val = 0 then Some (w2, st1, 0)
         else encrypt_loop B w2 st1 ifile ofile (sz + of_int len))"
      by (subst encrypt_loop.simps) (use rd(1) c wr(1) go in simp)
    show ?thesis
    proof (cases "len < int ASCON_BUFSIZ")
      case True
      then show ?thesis using step wr(2) by auto
    next
      case False
      then have "unat (sz + of_int len) \<le> 2 ^ 40" "unat sz + 1 \<le> unat (sz + of_int len)"
        using size_grows[of sz 1 len] less.prems(3) rd(3) go by (auto simp: ASCON_BUFSIZ_def)
      moreover from this have "2 ^ 40 - unat (sz + of_int len) < 2 ^ 40 - unat sz" by linarith
      moreover have "fair (px_events w2) Read" "fair (px_events w2) Write" using less.prems(1,2) wr(2) by simp_all
      ultimately obtain w3 st3 x where "encrypt_loop B w2 st1 ifile ofile (sz + of_int len) = Some (w3, st3, x)"
          "px_events w3 = px_events w2"
        using less.hyps by blast
      then show ?thesis using step wr(2) by (auto simp: Let_def)
    qed
  qed (subst encrypt_loop.simps, use rd in auto)+
qed

lemma decrypt_loop_returns:
  assumes "fair (px_events w) Read" "fair (px_events w) Write" "unat sz \<le> 2 ^ 40"
  shows "\<exists>w' st' data' x. decrypt_loop B w st ifile ofile sz data = Some (w', st', data', x) \<and>
    px_events w' = px_events w"
  using assms
proof (induction "2 ^ 40 - unat sz" arbitrary: w st sz data rule: less_induct)
  case less
  obtain w1 len more where rd: "safe_file_read w ifile (ASCON_BUFSIZ - 16) = Some (w1, len, more)"
      "px_events w1 = px_events w" "len = -1 \<or> 0 \<le> len \<and> len \<le> int (ASCON_BUFSIZ - 16)"
    using safe_file_read_returns[OF less.prems(1)] by blast
  consider "len \<le> 0" | "sz + of_int len > ASCON_MAX_FILE_SIZE"
    | (go) "0 < len" "\<not> sz + of_int len > ASCON_MAX_FILE_SIZE" by linarith
  then show ?case
  proof cases
    case go
    obtain st1 m where m: "ascon80pq_aead_decrypt_block B st (take (nat len) (data @ more)) = (st1, m)" by fastforce
    obtain w2 n where wr: "safe_file_write w1 ofile m = Some (w2, n)" "px_events w2 = px_events w"
      using safe_file_write_returns[of w1 ofile m] less.prems(2) rd(2) by auto
    have step: "decrypt_loop B w st ifile ofile sz data =
        (let exit_val = (if n = 0 then 0 else 1); data = take 16 (drop (nat len) (data @ more)) in
         if len < int ASCON_BUFSIZ - 16 then Some (w2, st1, data, exit_val)
         else if exit_val = 0 then Some (w2, st1, data, 0)
         else decrypt_loop B w2 st1 ifile ofile (sz + of_int len) data)"
      by (subst decrypt_loop.simps) (use rd(1) m wr(1) go in \<open>simp add: Let_def\<close>)
    show ?thesis
    proof (cases "len < int ASCON_BUFSIZ - 16")
      case True
      then show ?thesis using step wr(2) by (auto simp: Let_def)
    next
      case False
      then have "unat (sz + of_int len) \<le> 2 ^ 40" "unat sz + 1 \<le> unat (sz + of_int len)"
        using size_grows[of sz 1 len] less.prems(3) rd(3) go by (auto simp: ASCON_BUFSIZ_def)
      moreover from this have "2 ^ 40 - unat (sz + of_int len) < 2 ^ 40 - unat sz" by linarith
      moreover have "fair (px_events w2) Read" "fair (px_events w2) Write" using less.prems(1,2) wr(2) by simp_all
      ultimately obtain w3 st3 d x where
          "decrypt_loop B w2 st1 ifile ofile (sz + of_int len) (take 16 (drop (nat len) (data @ more))) =
            Some (w3, st3, d, x)" "px_events w3 = px_events w2"
        using less.hyps by blast
      then show ?thesis using step wr(2) by (auto simp: Let_def)
    qed
  qed (subst decrypt_loop.simps, use rd in auto)+
qed

lemma events_open:
  "safe_file_open_read w name = (w', f) \<Longrightarrow> px_events w' = px_events w"
  "safe_file_open_write w name = (w', f) \<Longrightarrow> px_events w' = px_events w"
  by (auto simp: safe_file_open_read_def safe_file_open_write_def posix_open_read_def posix_open_write_def
      next_event_def Let_def split: if_splits io_event.splits prod.splits)

lemma encrypt_payload_returns:
  assumes "fair (px_events w) Read" "fair (px_events w) Write"
  shows "\<exists>w' y. encrypt_payload B w ifile ofile siv key nonce x = Some (w', y) \<and> px_events w' = px_events w"
proof -
  let ?st = "ascon80pq_aead_start B (ascon80pq_aead_init B (Some nonce) (Some key)) siv"
  obtain w1 st1 y where loop: "(if x = 0 then Some (w, ?st, x) else encrypt_loop B w ?st ifile ofile 0) = Some (w1, st1, y)"
      "px_events w1 = px_events w"
  proof (cases "x = 0")
    case False
    with encrypt_loop_returns[OF assms, of 0 B ?st ifile ofile] that show ?thesis by auto
  qed (use that in auto)
  obtain st2 tag where fin: "ascon80pq_aead_encrypt_finalize B st1 = (st2, tag)" by fastforce
  obtain w2 n where "safe_file_write w1 ofile tag = Some (w2, n)" "px_events w2 = px_events w"
    using safe_file_write_returns[of w1] loop(2) assms(2) by metis
  then show ?thesis using loop fin by (auto simp: encrypt_payload_def Let_def)
qed

lemma cleanup_events: "px_events (cleanup w input output x) = px_events w"
proof -
  have "px_events (safe_file_delete v f) = px_events v" for v f
    by (auto simp: safe_file_delete_def posix_unlink_def next_event_def case_prod_beta Let_def split: io_event.split)
  then show ?thesis by (simp add: cleanup_def case_prod_beta Let_def)
qed

lemma encrypt_file_returns:
  assumes "fair (px_events w) Read" "fair (px_events w) Write"
  shows "\<exists>w' r' x. encrypt_file B stack trng pw w r a b = Some (w', r', x) \<and> px_events w' = px_events w"
proof -
  have wr: "\<exists>w' n. safe_file_write w1 f d = Some (w', n) \<and> px_events w' = px_events w"
    if "px_events w1 = px_events w" for w1 f d
    using safe_file_write_returns[of w1 f d] that assms(2) by simp
  have pay: "\<exists>w' y. encrypt_payload B w1 ifile ofile siv key nonce x = Some (w', y) \<and> px_events w' = px_events w"
    if "px_events w1 = px_events w" for w1 ifile ofile siv key nonce x
    using encrypt_payload_returns[of w1] that assms by simp
  show ?thesis
  proof (cases "safe_file_open_read w a")
    case (Pair w1 f)
    note 1 = this events_open(1)[OF this]
    show ?thesis
    proof (cases f)
      case (Some inf)
      show ?thesis
      proof (cases "safe_file_open_write w1 b")
        case (Pair w2 g)
        note 2 = this events_open(2)[OF this]
        show ?thesis
        proof (cases g)
          case (Some outf)
          obtain r1 salt ok1 where r1: "ascon_random B trng r 16 = (r1, salt, ok1)" by (metis prod_cases3)
          obtain r2 kn ok2 where r2: "ascon_random B trng r1 36 = (r2, kn, ok2)" by (metis prod_cases3)
          define header where "header = asconcrypt_header salt"
          define siv where "siv = ascon80pq_siv_encrypt B kn header
            (drop 20 (password_kn B stack pw salt)) (take 20 (password_kn B stack pw salt))"
          obtain w3 n3 where w3: "safe_file_write w2 outf header = Some (w3, n3)" "px_events w3 = px_events w"
            using wr[of w2 outf header] 1 2 by auto
          obtain w4 n4 where w4: "safe_file_write w3 outf siv = Some (w4, n4)" "px_events w4 = px_events w"
            using wr[of w3 outf siv] w3(2) by auto
          obtain w5 x5 where w5: "encrypt_payload B w3 inf outf siv (take 20 kn) (drop 20 kn) 0 = Some (w5, x5)"
              "px_events w5 = px_events w"
            using pay[OF w3(2)] by blast
          obtain w6 x6 where w6: "encrypt_payload B w4 inf outf siv (take 20 kn) (drop 20 kn) (if n4 = 0 then 0 else 1) =
              Some (w6, x6)" "px_events w6 = px_events w"
            using pay[OF w4(2)] by blast
          show ?thesis
            using 1 2 \<open>f = Some inf\<close> \<open>g = Some outf\<close> r1 r2 w3(1) w4(1) w5 w6
            by (auto simp: encrypt_file_def Let_def cleanup_events simp flip: header_def siv_def split: if_splits)
        qed (use 1 2 \<open>f = Some inf\<close> in \<open>auto simp: encrypt_file_def Let_def case_prod_beta\<close>)
      qed
    qed (use 1 in \<open>auto simp: encrypt_file_def\<close>)
  qed
qed

lemma decrypt_file_returns:
  assumes "fair (px_events w) Read" "fair (px_events w) Write"
  shows "\<exists>w' x. decrypt_file B stack pw w a b = Some (w', x) \<and> px_events w' = px_events w"
proof -
  have rd: "\<exists>w' n d. safe_file_read w1 f len = Some (w', n, d) \<and> px_events w' = px_events w"
    if "px_events w1 = px_events w" for w1 f len
    using safe_file_read_returns[of w1 f len] that assms(1) by auto
  have pay: "\<exists>w' y. decrypt_payload B w1 ifile ofile siv key nonce d = Some (w', y) \<and> px_events w' = px_events w"
    if "px_events w1 = px_events w" for w1 ifile ofile siv key nonce d
    using decrypt_loop_returns[of w1 0 B "ascon80pq_aead_start B (ascon80pq_aead_init B (Some nonce) (Some key)) siv"
        ifile ofile d] that assms
    by (auto simp: decrypt_payload_def Let_def split: prod.split)
  show ?thesis
  proof (cases "safe_file_open_read w a")
    case (Pair w1 f)
    note 1 = this events_open(1)[OF this]
    show ?thesis
    proof (cases f)
      case (Some inf)
      show ?thesis
      proof (cases "safe_file_open_write w1 b")
        case (Pair w2 g)
        note 2 = this events_open(2)[OF this]
        show ?thesis
        proof (cases g)
          case (Some outf)
          obtain w3 n3 d3 where w3: "safe_file_read w2 inf 80 = Some (w3, n3, d3)" "px_events w3 = px_events w"
            using rd[of w2 inf 80] 1 2 by auto
          obtain w4 n4 d4 where w4: "safe_file_read w3 inf 16 = Some (w4, n4, d4)" "px_events w4 = px_events w"
            using rd[of w3 inf 16] w3(2) by auto
          define F where "F siv key nonce = the (decrypt_payload B w4 inf outf siv key nonce d4)" for siv key nonce
          have "decrypt_payload B w4 inf outf siv key nonce d4 = Some (F siv key nonce) \<and>
              px_events (fst (F siv key nonce)) = px_events w" for siv key nonce
            unfolding F_def using pay[OF w4(2), of inf outf siv key nonce d4] by auto
          then show ?thesis
            using 1 2 \<open>f = Some inf\<close> \<open>g = Some outf\<close> w3 w4
            by (simp add: decrypt_file_def Let_def case_prod_beta cleanup_events)
        qed (use 1 2 \<open>f = Some inf\<close> in \<open>auto simp: decrypt_file_def Let_def case_prod_beta\<close>)
      qed
    qed (use 1 in \<open>auto simp: decrypt_file_def\<close>)
  qed
qed

end
