(* ===== verification/Asconcrypt_Main.thy ===== *)
theory Asconcrypt_Main
  imports Asconcrypt
begin

text \<open>
  The command line of \<open>asconcrypt\<close>: \<open>main\<close> of \<open>apps/asconcrypt/asconcrypt.c\<close> with its own parser for the
  options, the one for systems without \<open>getopt\<close>.

  \<open>tty\<close> is the result of \<open>isatty\<close> for both streams, \<open>getpass\<close> what the user answers to the first and the
  second prompt.  The result of \<open>main\<close> is the exit status; \<open>None\<close> stands for a run that does not end or that
  leaves the bounds of the buffer of \<open>strip_suffix\<close>.
\<close>

section \<open>Options\<close>

datatype mode = MODE_DECRYPT | MODE_ENCRYPT | MODE_DETECT | MODE_GENERATE

record opts =
  opt_mode :: mode
  opt_password :: "bytes option"
  opt_keyfile :: "bytes option"
  opt_output :: "bytes option"

definition no_opts :: opts where
  "no_opts = \<lparr> opt_mode = MODE_DETECT, opt_password = None, opt_keyfile = None, opt_output = None \<rparr>"

text \<open>The argument of an option: the rest of the word or, if there is none, the next word.\<close>

fun GET_OPTARG :: "bytes \<Rightarrow> bytes list \<Rightarrow> (bytes \<times> bytes list) option" where
  "GET_OPTARG [] [] = None"
| "GET_OPTARG [] (arg # args) = Some (arg, args)"
| "GET_OPTARG opts args = Some (opts, args)"

text \<open>The options of one word; \<open>args\<close> are the words after it and \<open>None\<close> is an error.\<close>

fun parse_word :: "opts \<Rightarrow> bytes \<Rightarrow> bytes list \<Rightarrow> (opts \<times> bytes list) option" where
  "parse_word o1 [] args = Some (o1, args)"
| "parse_word o1 (opt # opts) args =
     (if opt = of_char CHR ''e'' then parse_word (o1 \<lparr> opt_mode := MODE_ENCRYPT \<rparr>) opts args
      else if opt = of_char CHR ''d'' then parse_word (o1 \<lparr> opt_mode := MODE_DECRYPT \<rparr>) opts args
      else if opt = of_char CHR ''p'' then
        do { (v, args) \<leftarrow> GET_OPTARG opts args; Some (o1 \<lparr> opt_password := Some v \<rparr>, args) }
      else if opt = of_char CHR ''k'' then
        do { (v, args) \<leftarrow> GET_OPTARG opts args; Some (o1 \<lparr> opt_keyfile := Some v \<rparr>, args) }
      else if opt = of_char CHR ''o'' then
        do { (v, args) \<leftarrow> GET_OPTARG opts args; Some (o1 \<lparr> opt_output := Some v \<rparr>, args) }
      else if opt = of_char CHR ''g'' then
        do { (v, args) \<leftarrow> GET_OPTARG opts args;
             Some (o1 \<lparr> opt_mode := MODE_GENERATE, opt_keyfile := Some v \<rparr>, args) }
      else None)"

lemma parse_word_args: "parse_word o1 opts args = Some (o2, rest) \<Longrightarrow> length rest \<le> length args"
proof (induction o1 opts args rule: parse_word.induct)
  case (2 o1 opt opts args)
  have "length r \<le> length args" if "GET_OPTARG opts args = Some (v, r)" for v r
    using that by (induction opts args rule: GET_OPTARG.induct) auto
  with 2 show ?case by (fastforce split: if_splits Option.bind_splits)
qed simp

definition is_option :: "bytes \<Rightarrow> bool" where
  "is_option arg \<longleftrightarrow> take 1 arg = STDIO \<and> length arg > 1"

function parse_options :: "opts \<Rightarrow> bytes list \<Rightarrow> (opts \<times> bytes list) option" where
  "parse_options o1 args =
     (case args of
        [] \<Rightarrow> Some (o1, [])
      | arg # rest \<Rightarrow>
          if is_option arg then
            (case parse_word o1 (tl arg) rest of
               None \<Rightarrow> None
             | Some (o1, rest) \<Rightarrow> parse_options o1 rest)
          else Some (o1, args))"
  by pat_completeness auto
termination by (relation "measure (\<lambda>(o1, args). length args)") (auto dest: parse_word_args)

declare parse_options.simps [simp del]

section \<open>The program\<close>

text \<open>One name of the loop that looks for the direction: the new mode and \<open>mixture\<close>.\<close>

fun detect_mode :: "mode \<Rightarrow> bool \<Rightarrow> bytes list \<Rightarrow> mode \<times> bool" where
  "detect_mode mode mixture [] = (mode, mixture)"
| "detect_mode mode mixture (name # names) =
     (if is_encrypted_filename name then
        if mode = MODE_ENCRYPT then detect_mode mode True names else detect_mode MODE_DECRYPT mixture names
      else
        if mode = MODE_DECRYPT then detect_mode mode True names else detect_mode MODE_ENCRYPT mixture names)"

text \<open>\<open>None\<close> is one of the errors on which \<open>main\<close> returns 1.\<close>

definition acquire_password ::
  "posix \<Rightarrow> opts \<Rightarrow> bool \<Rightarrow> (nat \<Rightarrow> bytes option) \<Rightarrow> (posix \<times> bytes option) option" where
  "acquire_password w o1 tty getpass =
     (case opt_password o1 of
        Some pw \<Rightarrow> Some (w, if length pw \<ge> ASCON_PWSIZ then None else Some pw)
      | None \<Rightarrow>
          (case opt_keyfile o1 of
             Some keyfile \<Rightarrow> read_keyfile w keyfile
           | None \<Rightarrow>
               Some (w,
                 if \<not> tty then None
                 else case read_password (getpass 0) ASCON_PWSIZ of
                   None \<Rightarrow> None
                 | Some pw \<Rightarrow>
                     if opt_mode o1 = MODE_DECRYPT then Some pw
                     else if read_password (getpass 1) ASCON_PWSIZ = Some pw then Some pw else None)))"

fun process_files ::
  "'s snp \<Rightarrow> 's xof_state \<Rightarrow> 'r trng \<Rightarrow> mode \<Rightarrow> bytes \<Rightarrow> posix \<Rightarrow> 'r \<Rightarrow> bytes option \<Rightarrow> int \<Rightarrow> bytes list \<Rightarrow>
   (posix \<times> 'r \<times> int) option" where
  "process_files B stack trng mode pw w r out exit_val [] = Some (w, r, exit_val)"
| "process_files B stack trng mode pw w r out exit_val (name # names) =
     (let out = (if name = STDIO \<and> out = None then Some STDIO else out) in
      if mode = MODE_DECRYPT then
        do {
          filename \<leftarrow>
            (if out \<noteq> None then out
             else if is_encrypted_filename name then strip_suffix name
             else Some (add_suffix name DECRYPTED_SUFFIX));
          (w, ok) \<leftarrow> decrypt_file B stack pw w name filename;
          process_files B stack trng mode pw w r None (if ok = 0 then 1 else exit_val) names
        }
      else
        do {
          filename \<leftarrow> (if out \<noteq> None then out else Some (add_suffix name ASCON_SUFFIX));
          (w, r, ok) \<leftarrow> encrypt_file B stack trng pw w r name filename;
          process_files B stack trng mode pw w r None (if ok = 0 then 1 else exit_val) names
        })"

definition asconcrypt_main ::
  "'s snp \<Rightarrow> 's xof_state \<Rightarrow> 'r trng \<Rightarrow> bool \<Rightarrow> (nat \<Rightarrow> bytes option) \<Rightarrow> posix \<Rightarrow> 'r \<Rightarrow> bytes list \<Rightarrow>
   (posix \<times> 'r \<times> int) option" where
  "asconcrypt_main B stack trng tty getpass w r args =
     (case parse_options no_opts args of
        None \<Rightarrow> Some (w, r, 1)
      | Some (o1, names) \<Rightarrow>
          if (opt_mode o1 = MODE_GENERATE \<and> names \<noteq> []) \<or> (opt_mode o1 \<noteq> MODE_GENERATE \<and> names = []) then Some (w, r, 1)
          else if opt_mode o1 \<noteq> MODE_GENERATE \<and> opt_password o1 \<noteq> None \<and> opt_keyfile o1 \<noteq> None then Some (w, r, 1)
          else if opt_mode o1 \<noteq> MODE_GENERATE \<and> opt_output o1 \<noteq> None \<and> length names > 1 then Some (w, r, 1)
          else if opt_mode o1 = MODE_GENERATE then
            do {
              (w, r, ok) \<leftarrow> generate_password B trng w r (the (opt_keyfile o1));
              Some (w, r, if ok = 0 then 1 else 0)
            }
          else
            let (mode, mixture) =
              (if opt_mode o1 = MODE_DETECT then detect_mode MODE_DETECT False names else (opt_mode o1, False))
            in if mixture then Some (w, r, 1)
               else do {
                 (w, pw) \<leftarrow> acquire_password w (o1 \<lparr> opt_mode := mode \<rparr>) tty getpass;
                 (case pw of
                    None \<Rightarrow> Some (w, r, 1)
                  | Some pw \<Rightarrow> process_files B stack trng mode pw w r (opt_output o1) 0 names)
               })"

section \<open>File names\<close>

text \<open>A name that is not an option, is long enough to have a suffix and has another one.\<close>

definition plain_name :: "bytes \<Rightarrow> bool" where
  "plain_name name \<longleftrightarrow> take 1 name \<noteq> STDIO \<and> 6 \<le> length name \<and> length name + 6 < ASCON_BUFSIZ \<and>
     drop (length name - 6) name \<noteq> ASCON_SUFFIX"

lemma length_ASCON_SUFFIX [simp]: "length ASCON_SUFFIX = 6"
  by (simp add: ASCON_SUFFIX_def)

lemma encrypted_name: "is_encrypted_filename (name @ ASCON_SUFFIX)"
  by (simp add: is_encrypted_filename_def)

lemma plain_name_encrypted: "plain_name name \<Longrightarrow> \<not> is_encrypted_filename name"
  by (simp add: plain_name_def is_encrypted_filename_def Let_def)

lemma add_strip_suffix:
  assumes "length name + 6 < ASCON_BUFSIZ"
  shows "add_suffix name ASCON_SUFFIX = name @ ASCON_SUFFIX" "strip_suffix (name @ ASCON_SUFFIX) = Some name"
proof -
  show "add_suffix name ASCON_SUFFIX = name @ ASCON_SUFFIX" using assms by (simp add: add_suffix_def)
  have "length name < 2 ^ LENGTH(64)" using assms by (simp add: ASCON_BUFSIZ_def)
  then have "unat (of_nat (length (name @ ASCON_SUFFIX)) - 6 :: u64) = length name"
    by (simp add: unat_of_nat take_bit_nat_eq_self)
  then show "strip_suffix (name @ ASCON_SUFFIX) = Some name"
    using assms by (simp add: strip_suffix_def Let_def)
qed

text \<open>The subtraction of \<open>strip_suffix\<close> wraps around.\<close>

lemma strip_suffix_short:
  assumes "length name < 6"
  shows "strip_suffix name = None"
proof -
  from assms consider "length name = 0" | "length name = 1" | "length name = 2" | "length name = 3"
    | "length name = 4" | "length name = 5" by linarith
  then have "ASCON_BUFSIZ \<le> unat (of_nat (length name) - 6 :: u64)"
    by cases (simp_all add: ASCON_BUFSIZ_def unsigned_minus_1_eq_mask mask_eq_exp_minus_1)
  then show ?thesis by (simp add: strip_suffix_def Let_def ASCON_BUFSIZ_def)
qed

lemma strip_suffix_fits:
  assumes "6 \<le> length name" "length name < ASCON_BUFSIZ + 6"
  shows "strip_suffix name \<noteq> None"
proof -
  have "unat (of_nat (length name) - 6 :: u64) = length name - 6"
  proof -
    have "length name < 2 ^ LENGTH(64)" using assms(2) by (simp add: ASCON_BUFSIZ_def)
    then have l: "unat (of_nat (length name) :: u64) = length name" by (simp add: unat_of_nat take_bit_nat_eq_self)
    then have "(6 :: u64) \<le> of_nat (length name)" using assms(1) by (simp add: word_le_nat_alt)
    then show ?thesis using l by (simp add: unat_sub)
  qed
  then show ?thesis using assms by (auto simp: strip_suffix_def Let_def)
qed

section \<open>The options with a password\<close>

definition opt_p :: bytes where "opt_p = map of_char ''-p''"

lemma options_password:
  "take 1 name \<noteq> STDIO \<Longrightarrow> parse_options no_opts [opt_p, pw, name] = Some (no_opts \<lparr> opt_password := Some pw \<rparr>, [name])"
proof -
  assume name: "take 1 name \<noteq> STDIO"
  have "parse_options no_opts [opt_p, pw, name] = parse_options (no_opts \<lparr> opt_password := Some pw \<rparr>) [name]"
    by (subst parse_options.simps) (simp add: opt_p_def is_option_def STDIO_def)
  then show ?thesis using name by (simp add: parse_options.simps[of _ "[name]"] is_option_def)
qed

text \<open>The generated mode always comes with the name of a key file.\<close>

lemma parse_word_generate:
  "\<lbrakk>parse_word o1 opts args = Some (o2, rest); opt_mode o1 = MODE_GENERATE \<Longrightarrow> opt_keyfile o1 \<noteq> None;
    opt_mode o2 = MODE_GENERATE\<rbrakk> \<Longrightarrow> opt_keyfile o2 \<noteq> None"
  by (induction o1 opts args rule: parse_word.induct) (auto split: if_splits Option.bind_splits)

lemma parse_options_generate:
  "\<lbrakk>parse_options o1 args = Some (o2, names); opt_mode o1 = MODE_GENERATE \<Longrightarrow> opt_keyfile o1 \<noteq> None;
    opt_mode o2 = MODE_GENERATE\<rbrakk> \<Longrightarrow> opt_keyfile o2 \<noteq> None"
proof (induction o1 args rule: parse_options.induct)
  case (1 o1 args)
  show ?case
  proof (cases "args \<noteq> [] \<and> is_option (hd args)")
    case True
    with "1.prems"(1) obtain o3 rest where o3: "parse_word o1 (tl (hd args)) (tl args) = Some (o3, rest)"
        "parse_options o3 rest = Some (o2, names)"
      by (subst (asm) parse_options.simps) (auto split: list.splits option.splits)
    have "args = hd args # tl args" using True by simp
    from "1.IH"[OF this _ o3(1)] True o3(2) "1.prems"(3) parse_word_generate[OF o3(1) "1.prems"(2)]
    show ?thesis by blast
  next
    case False
    with "1.prems" show ?thesis by (subst (asm) parse_options.simps) (auto split: list.splits)
  qed
qed

section \<open>A file and back\<close>

text \<open>A process at its start, with the standard streams open, on a system where no call fails.\<close>

definition process_ready :: "posix \<Rightarrow> bool" where
  "process_ready w \<longleftrightarrow> working w \<and> 2 \<le> length (px_fds w) \<and> px_fds w ! 0 \<noteq> None \<and> px_fds w ! 1 \<noteq> None"

lemma process_files_ready:
  "\<lbrakk>process_ready w; a \<noteq> b; a \<noteq> STDIO; b \<noteq> STDIO; px_data w (Named a) = Some c\<rbrakk> \<Longrightarrow> files_ready w a b c"
  by (simp add: process_ready_def files_ready_def)

lemma plain_name_neq: "plain_name name \<Longrightarrow> name \<noteq> STDIO \<and> name @ ASCON_SUFFIX \<noteq> STDIO \<and> name \<noteq> name @ ASCON_SUFFIX"
  by (auto simp: plain_name_def STDIO_def ASCON_SUFFIX_def)

lemma main_password:
  assumes "take 1 name \<noteq> STDIO" "length pw < ASCON_PWSIZ"
  shows "asconcrypt_main B stack trng tty getpass w r [opt_p, pw, name] =
    process_files B stack trng (if is_encrypted_filename name then MODE_DECRYPT else MODE_ENCRYPT) pw w r None 0 [name]"
proof -
  have "asconcrypt_main B stack trng tty getpass w r [opt_p, pw, name] =
      (let o1 = no_opts \<lparr> opt_password := Some pw \<rparr>; (mode, mixture) = detect_mode MODE_DETECT False [name] in
       if mixture then Some (w, r, 1)
       else do {
         (w, pw) \<leftarrow> acquire_password w (o1 \<lparr> opt_mode := mode \<rparr>) tty getpass;
         (case pw of None \<Rightarrow> Some (w, r, 1)
          | Some pw \<Rightarrow> process_files B stack trng mode pw w r (opt_output o1) 0 [name]) })"
    unfolding asconcrypt_main_def options_password[OF assms(1)]
    by (simp del: process_files.simps detect_mode.simps add: no_opts_def Let_def)
  then show ?thesis using assms(2)
    by (simp add: no_opts_def acquire_password_def del: process_files.simps)
qed

context snp_laws
begin

lemma main_encrypts:
  assumes "process_ready w" "trng_works trng" "plain_name name" "length pw < ASCON_PWSIZ"
    and "px_data w (Named name) = Some m" "length m \<le> 2 ^ 40"
  shows "\<exists>w' r' salt key nonce. asconcrypt_main B stack trng tty getpass w r [opt_p, pw, name] = Some (w', r', 0) \<and>
    length salt = 16 \<and> length key = 20 \<and> length nonce = 16 \<and>
    px_data w' = (px_data w)(Named (name @ ASCON_SUFFIX) \<mapsto> asconcrypt_container pw salt key nonce m)"
proof -
  have name: "take 1 name \<noteq> STDIO" "length name + 6 < ASCON_BUFSIZ" using assms(3) by (simp_all add: plain_name_def)
  note neq = plain_name_neq[OF assms(3)]
  have "files_ready w name (name @ ASCON_SUFFIX) m"
    by (rule process_files_ready) (use assms(1,5) neq in simp_all)
  from encrypt_file_result[OF this assms(2,6), of stack pw r] obtain w' r' salt key nonce where
      run: "encrypt_file B stack trng pw w r name (name @ ASCON_SUFFIX) = Some (w', r', 1)"
      "length salt = 16" "length key = 20" "length nonce = 16"
      "px_data w' = (px_data w)(Named (name @ ASCON_SUFFIX) \<mapsto> asconcrypt_container pw salt key nonce m)" by blast
  then have "asconcrypt_main B stack trng tty getpass w r [opt_p, pw, name] = Some (w', r', 0)"
    using neq name assms(4) by (simp add: main_password plain_name_encrypted[OF assms(3)] add_strip_suffix)
  then show ?thesis using run(2-5) by blast
qed

lemma main_decrypts:
  assumes "process_ready w" "plain_name name" "length pw < ASCON_PWSIZ" "px_data w (Named (name @ ASCON_SUFFIX)) = Some c"
  shows "\<exists>w'. asconcrypt_main B stack trng tty getpass w r [opt_p, pw, name @ ASCON_SUFFIX] =
      Some (w', r, if px_data w' (Named name) = None then 1 else 0) \<and>
    px_data w' = (px_data w)(Named name :=
      (case asconcrypt_payload pw c of Some m \<Rightarrow> if length m \<le> 2 ^ 40 then Some m else None | None \<Rightarrow> None))"
proof -
  have name: "take 1 (name @ ASCON_SUFFIX) \<noteq> STDIO" "length name + 6 < ASCON_BUFSIZ"
    using assms(2) by (auto simp: plain_name_def)
  note neq = plain_name_neq[OF assms(2)]
  have "files_ready w (name @ ASCON_SUFFIX) name c"
    by (rule process_files_ready) (use assms(1,4) neq in simp_all)
  note result = decrypt_file_result[OF this, of stack pw]
  define v where "v = (case asconcrypt_payload pw c of Some m \<Rightarrow> if length m \<le> 2 ^ 40 then Some m else None | None \<Rightarrow> None)"
  obtain w' where run: "decrypt_file B stack pw w (name @ ASCON_SUFFIX) name = Some (w', if v = None then 0 else 1)"
      "px_data w' = (px_data w)(Named name := v)"
    using result by (cases "asconcrypt_payload pw c") (auto simp: v_def split: if_splits)
  then have "asconcrypt_main B stack trng tty getpass w r [opt_p, pw, name @ ASCON_SUFFIX] =
      Some (w', r, if px_data w' (Named name) = None then 1 else 0)"
    using neq name assms(3) by (simp add: main_password encrypted_name add_strip_suffix)
  then show ?thesis using run(2) unfolding v_def by blast
qed

end

text \<open>A name without room for a suffix counts as encrypted, and \<open>strip_suffix\<close> leaves its buffer.\<close>

lemma main_short_name:
  assumes "take 1 name \<noteq> STDIO" "length name < 6" "length pw < ASCON_PWSIZ"
  shows "asconcrypt_main B stack trng tty getpass w r [opt_p, pw, name] = None"
proof -
  have "is_encrypted_filename name" "name \<noteq> STDIO"
    using assms(1,2) by (auto simp: is_encrypted_filename_def STDIO_def)
  then show ?thesis using assms by (simp add: main_password strip_suffix_short)
qed

section \<open>Every run returns\<close>

lemma generate_password_returns:
  assumes "fair (px_events w) Write"
  shows "\<exists>w' r' x. generate_password B trng w r keyfile = Some (w', r', x)"
proof (cases "safe_file_open_write w keyfile")
  case (Pair w1 f)
  note 1 = this events_open(2)[OF this]
  show ?thesis
  proof (cases f)
    case (Some sf)
    obtain r1 pw ok where pw: "ascon_random B trng r DEFAULT_PASSWORD_LENGTH = (r1, pw, ok)" by (metis prod_cases3)
    define d where "d = map (\<lambda>b. pw_chars ! unat (b AND 0x3F)) pw"
    obtain w2 n2 where w2: "safe_file_write w1 sf d = Some (w2, n2)" "px_events w2 = px_events w"
      using safe_file_write_returns[of w1 sf d] 1(2) assms by auto
    obtain w3 n3 where w3: "safe_file_write w2 sf (map of_char [CHR 0x0A]) = Some (w3, n3)"
      using safe_file_write_returns[of w2] w2(2) assms by metis
    show ?thesis using 1(1) Some pw w2(1) w3 by (simp add: generate_password_def Let_def case_prod_beta flip: d_def)
  qed (use 1 in \<open>simp add: generate_password_def\<close>)
qed

lemma read_keyfile_returns:
  assumes "fair (px_events w) Read"
  shows "\<exists>w' x. read_keyfile w keyfile = Some (w', x) \<and> px_events w' = px_events w"
proof (cases "safe_file_open_read w keyfile")
  case (Pair w1 f)
  note 1 = this events_open(1)[OF this]
  show ?thesis
  proof (cases f)
    case (Some sf)
    obtain w2 n d where "safe_file_read w1 sf ASCON_PWSIZ = Some (w2, n, d)" "px_events w2 = px_events w"
      using safe_file_read_returns[of w1 sf ASCON_PWSIZ] 1(2) assms by auto
    then show ?thesis using 1(1) Some by (simp add: read_keyfile_def Let_def case_prod_beta)
  qed (use 1 in \<open>simp add: read_keyfile_def\<close>)
qed

lemma acquire_password_returns:
  assumes "fair (px_events w) Read"
  shows "\<exists>w' pw. acquire_password w o1 tty getpass = Some (w', pw) \<and> px_events w' = px_events w"
  using read_keyfile_returns[OF assms]
  by (auto simp: acquire_password_def split: option.split)

text \<open>The names that need no suffix to be removed, or have room for it.\<close>

definition strip_ok :: "mode \<Rightarrow> bytes \<Rightarrow> bool" where
  "strip_ok mode name \<longleftrightarrow> mode = MODE_ENCRYPT \<or> name = STDIO \<or> 6 \<le> length name \<and> length name < ASCON_BUFSIZ + 6"

lemma process_files_returns:
  assumes "fair (px_events w) Read" "fair (px_events w) Write" "\<forall>name\<in>set names. strip_ok mode name"
    and "mode = MODE_ENCRYPT \<or> mode = MODE_DECRYPT"
  shows "\<exists>w' r' x. process_files B stack trng mode pw w r out y names = Some (w', r', x)"
  using assms(1-3)
proof (induction names arbitrary: w r out y)
  case (Cons name names)
  define out1 where "out1 = (if name = STDIO \<and> out = None then Some STDIO else out)"
  show ?case
  proof (cases "mode = MODE_DECRYPT")
    case True
    obtain filename where f: "(if out1 \<noteq> None then out1 else if is_encrypted_filename name then strip_suffix name
        else Some (add_suffix name DECRYPTED_SUFFIX)) = Some filename"
      using Cons.prems(3) True strip_suffix_fits[of name]
      by (cases "out1 = None"; cases "is_encrypted_filename name") (auto simp: out1_def strip_ok_def split: if_splits)
    obtain w1 x1 where w1: "decrypt_file B stack pw w name filename = Some (w1, x1)" "px_events w1 = px_events w"
      using decrypt_file_returns[OF Cons.prems(1,2), of B stack pw name filename] by blast
    with Cons.IH[of w1 r None "if x1 = 0 then 1 else y"] Cons.prems show ?thesis
      using True f by (simp only: process_files.simps Let_def flip: out1_def) simp
  next
    case False
    obtain filename where f: "(if out1 \<noteq> None then out1 else Some (add_suffix name ASCON_SUFFIX)) = Some filename"
      by (cases out1) auto
    obtain w1 r1 x1 where w1: "encrypt_file B stack trng pw w r name filename = Some (w1, r1, x1)"
        "px_events w1 = px_events w"
      using encrypt_file_returns[OF Cons.prems(1,2), of B stack trng pw r name filename] by blast
    with Cons.IH[of w1 r1 None "if x1 = 0 then 1 else y"] Cons.prems show ?thesis
      using False f by (simp only: process_files.simps Let_def flip: out1_def) simp
  qed
qed simp

lemma detect_mode_direction:
  "\<lbrakk>detect_mode mode mixture names = (mode', mixture'); names \<noteq> [] \<or> mode = MODE_ENCRYPT \<or> mode = MODE_DECRYPT\<rbrakk> \<Longrightarrow>
   mode' = MODE_ENCRYPT \<or> mode' = MODE_DECRYPT"
  by (induction mode mixture names rule: detect_mode.induct) (auto split: if_splits)

text \<open>\<open>None\<close> would be a run without end or outside the bounds.\<close>

lemma main_returns:
  assumes "fair (px_events w) Read" "fair (px_events w) Write"
    and names: "\<And>o1 names. parse_options no_opts args = Some (o1, names) \<Longrightarrow> \<forall>name\<in>set names. strip_ok (opt_mode o1) name"
  shows "\<exists>w' r' x. asconcrypt_main B stack trng tty getpass w r args = Some (w', r', x)"
proof (cases "parse_options no_opts args")
  case (Some a)
  obtain o1 ns where o1: "parse_options no_opts args = Some (o1, ns)" using Some by (cases a) simp
  obtain mode mixture where m: "(if opt_mode o1 = MODE_DETECT then detect_mode MODE_DETECT False ns
      else (opt_mode o1, False)) = (mode, mixture)" by fastforce
  obtain w1 r1 x1 where gen: "generate_password B trng w r (the (opt_keyfile o1)) = Some (w1, r1, x1)"
    using generate_password_returns[OF assms(2), of B trng r "the (opt_keyfile o1)"] by blast
  obtain w2 pw where acq: "acquire_password w (o1 \<lparr> opt_mode := mode \<rparr>) tty getpass = Some (w2, pw)"
      "px_events w2 = px_events w"
    using acquire_password_returns[OF assms(1)] by blast
  have files: "\<exists>w' r' x. process_files B stack trng mode p w2 r (opt_output o1) 0 ns = Some (w', r', x)"
    if "ns \<noteq> []" "opt_mode o1 \<noteq> MODE_GENERATE" for p
  proof (rule process_files_returns)
    show "mode = MODE_ENCRYPT \<or> mode = MODE_DECRYPT"
      using m that detect_mode_direction[of MODE_DETECT False ns mode mixture]
      by (cases "opt_mode o1") (auto split: if_splits)
    show "\<forall>name\<in>set ns. strip_ok mode name"
      using names[OF o1] m by (cases "opt_mode o1") (auto simp: strip_ok_def)
  qed (use assms(1,2) acq(2) in simp_all)
  show ?thesis
    unfolding asconcrypt_main_def o1 using m gen acq(1) files by (auto split: option.split)
qed (simp add: asconcrypt_main_def)

section \<open>Key files\<close>

lemma set_pw_chars: "b \<in> set pw_chars \<Longrightarrow> b \<noteq> 0 \<and> b \<noteq> 0x0A \<and> b \<noteq> 0x0D"
  by (auto simp: pw_chars_def)

lemma pw_chars_nth: "pw_chars ! unat ((b :: 8 word) AND 0x3F) \<in> set pw_chars"
proof -
  have "b AND 0x3F < 64" using and_mask_less'[of 6 b] by (simp add: mask_eq_exp_minus_1)
  then show ?thesis by (intro nth_mem) (simp add: word_less_nat_alt pw_chars_def)
qed

lemma keyfile_scan_line:
  assumes "set pw \<subseteq> set pw_chars" "posn \<le> length pw" "length pw < len"
  shows "keyfile_scan (pw @ 0x0A # rest) len posn = Some (length pw)"
  using assms(2)
proof (induction "length pw - posn" arbitrary: posn)
  case 0
  then show ?case by (subst keyfile_scan.simps) (simp add: nth_append)
next
  case (Suc n)
  then have posn: "posn < length pw" by simp
  then have "pw ! posn \<in> set pw_chars" using assms(1) nth_mem by blast
  moreover have "keyfile_scan (pw @ 0x0A # rest) len (posn + 1) = Some (length pw)"
    by (rule Suc.hyps) (use Suc.hyps(2) posn in auto)
  ultimately show ?case using posn assms(3) set_pw_chars
    by (subst keyfile_scan.simps) (simp add: nth_append)
qed

lemma read_keyfile_line:
  assumes "process_ready w" "k \<noteq> STDIO" "px_data w (Named k) = Some (pw @ [0x0A])" "set pw \<subseteq> set pw_chars"
    and "length pw < ASCON_PWSIZ"
  shows "\<exists>w'. read_keyfile w k = Some (w', Some pw)"
proof -
  have "working w" using assms(1) by (simp add: process_ready_def)
  then have ev: "no_errors (px_events w) Open" "steady (px_events w) Read" by (simp_all add: working_def)
  obtain i where i: "px_events w Open (px_clock w) = Transfer i" using ev(1) unfolding no_errors_def by metis
  define fd where "fd = free_fd (px_fds w)"
  define w1 where "w1 = set_fd fd (Some (Named k, 0)) (w \<lparr> px_clock := Suc (px_clock w) \<rparr>)"
  define f where "f = \<lparr> sf_fd = int fd, sf_filename = k \<rparr>"
  have op: "safe_file_open_read w k = (w1, Some f)"
    using assms(2,3) i by (simp add: safe_file_open_read_def posix_open_read_def next_event_def Let_def w1_def f_def fd_def)
  have "fd_entry w1 (sf_fd f) = Some (Named k, 0)" "px_data w1 (Named k) = Some (pw @ [0x0A])" "px_events w1 = px_events w"
    using assms(3) by (simp_all add: w1_def f_def)
  then obtain w2 where rd: "safe_file_read w1 f ASCON_PWSIZ = Some (w2, int (length pw) + 1, pw @ [0x0A])"
    using safe_file_read_steady[of w1 f "Named k" 0 "pw @ [0x0A]" ASCON_PWSIZ] ev(2) assms(5) by auto
  have "nat (int (length pw) + 1) = Suc (length pw)" by simp
  then have "keyfile_scan (pw @ [0x0A]) (nat (int (length pw) + 1)) 0 = Some (length pw)"
    using keyfile_scan_line[OF assms(4), of 0 "Suc (length pw)" "[]"] by simp
  then show ?thesis using op rd \<open>nat _ = _\<close> by (simp add: read_keyfile_def case_prod_beta Let_def)
qed

context snp_laws
begin

lemma generate_password_result:
  assumes "process_ready w" "k \<noteq> STDIO" "trng_works trng"
  shows "\<exists>w' r' pw. generate_password B trng w r k = Some (w', r', 1) \<and> length pw = 40 \<and> set pw \<subseteq> set pw_chars \<and>
    px_data w' = (px_data w)(Named k \<mapsto> pw @ [0x0A])"
proof -
  have "working w" using assms(1) by (simp add: process_ready_def)
  then have ev: "no_errors (px_events w) Open" "steady (px_events w) Write" by (simp_all add: working_def)
  obtain i where i: "px_events w Open (px_clock w) = Transfer i" using ev(1) unfolding no_errors_def by metis
  define fd where "fd = free_fd (px_fds w)"
  define w1 where "w1 = set_fd fd (Some (Named k, 0)) (put_data (Named k) (Some []) (w \<lparr> px_clock := Suc (px_clock w) \<rparr>))"
  define f where "f = \<lparr> sf_fd = int fd, sf_filename = k \<rparr>"
  have op: "safe_file_open_write w k = (w1, Some f)"
    using assms(2) i by (simp add: safe_file_open_write_def posix_open_write_def next_event_def Let_def w1_def f_def fd_def)
  obtain r1 d where d: "ascon_random B trng r 40 = (r1, d, 1)" "length d = 40"
    by (rule random_works[OF assms(3)])
  define pw where "pw = map (\<lambda>b. pw_chars ! unat (b AND 0x3F)) d"
  have pw: "length pw = 40" "set pw \<subseteq> set pw_chars" using d(2) pw_chars_nth by (auto simp: pw_def)
  have e1: "fd_entry w1 (sf_fd f) = Some (Named k, length ([] :: bytes))" "px_data w1 (Named k) = Some []"
      "steady (px_events w1) Write" using ev(2) by (simp_all add: w1_def f_def)
  obtain w2 where w2: "safe_file_write w1 f pw = Some (w2, int (length pw))" "fd_entry w2 (sf_fd f) = Some (Named k, length pw)"
      "px_data w2 = (px_data w1)(Named k \<mapsto> pw)" "px_events w2 = px_events w1"
    using safe_file_write_steady[OF e1(3,1,2), of pw] by (auto simp: f_def fun_eq_iff)
  have w1_data: "px_data w1 = (px_data w)(Named k \<mapsto> [])" by (auto simp: w1_def)
  have e2: "px_data w2 (Named k) = Some pw" "steady (px_events w2) Write" "px_data w2 = (px_data w)(Named k \<mapsto> pw)"
    using e1(3) by (simp_all add: w2(3,4) w1_data)
  obtain w3 x where w3: "safe_file_write w2 f [0x0A] = Some (w3, x)" "px_data w3 = (px_data w2)(Named k \<mapsto> pw @ [0x0A])"
    using safe_file_write_steady[OF e2(2) w2(2) e2(1), of "[0x0A]"] by (auto simp: fun_eq_iff)
  have "generate_password B trng w r k = Some (fst (safe_file_close w3 f), r1, 1)"
    using op d(1) w2(1) w3(1)
    by (simp add: generate_password_def DEFAULT_PASSWORD_LENGTH_def Let_def case_prod_beta flip: pw_def)
  moreover have "px_data (fst (safe_file_close w3 f)) = (px_data w)(Named k \<mapsto> pw @ [0x0A])"
    using w3(2) e2(3) by simp
  ultimately show ?thesis using pw by blast
qed

end

end
