(* ===== verification/Asconsum.thy ===== *)
theory Asconsum
  imports Hash
begin

text \<open>
  The program \<open>asconsum\<close> (\<open>apps/asconsum/asconsum.c\<close>): printing and checking the hash values of files.

  The program uses the streams of the C library.  A stream is the list of the bytes to come, with a
  flag for a read error after them, where an end of file would be otherwise.  The state has the files by name, standard
  input and what was printed on standard output; messages on standard error are left out.
  The numbers of errors, \<open>int\<close> in the code, are unbounded here.
\<close>

section \<open>Streams\<close>

type_synonym cfile = "bytes \<times> bool"

record stdio =
  io_files :: "bytes \<Rightarrow> cfile option"
  io_stdin :: cfile
  io_out :: bytes

definition fread :: "nat \<Rightarrow> cfile \<Rightarrow> cfile \<times> bytes" where
  "fread n file = ((drop n (fst file), snd file), take n (fst file))"

text \<open>A line with at most \<open>size - 1\<close> characters; a read error is noticed only if it comes before the end of the line.\<close>

definition fgets :: "nat \<Rightarrow> cfile \<Rightarrow> (cfile \<times> bytes) option" where
  "fgets sz file =
     (let t = takeWhile (\<lambda>c. c \<noteq> 0x0A) (fst file);
          line = take (sz - 1) (take (Suc (length t)) (fst file))
      in if line = [] \<or> (snd file \<and> length line < sz - 1 \<and> last line \<noteq> 0x0A) then None
         else Some ((drop (length line) (fst file), snd file), line))"

definition sum_stdin_name :: bytes where "sum_stdin_name = map of_char ''-''"

definition printf_out :: "bytes \<Rightarrow> stdio \<Rightarrow> stdio" where
  "printf_out s w = w \<lparr> io_out := io_out w @ s \<rparr>"

definition hex_digits :: bytes where "hex_digits = map of_char ''0123456789abcdef''"

definition print_02x :: "8 word \<Rightarrow> bytes" where
  "print_02x b = [hex_digits ! unat (drop_bit 4 b), hex_digits ! unat (b AND 0x0F)]"

section \<open>Hashing a file\<close>

definition SUM_BUFSIZ :: nat where "SUM_BUFSIZ = 8192"
definition ASCON_LINESIZ :: nat where "ASCON_LINESIZ = 1024"

datatype sum_alg = ALG_ASCON_HASH | ALG_ASCON_HASHA | ALG_ASCON_XOF | ALG_ASCON_XOFA

text \<open>The loop that the four functions share; the last result is \<open>ok\<close>.\<close>

function hash_stream :: "('t \<Rightarrow> bytes \<Rightarrow> 't) \<Rightarrow> 't \<Rightarrow> cfile \<Rightarrow> cfile \<times> 't \<times> bool" where
  "hash_stream update state file =
     (case fread SUM_BUFSIZ file of (file, buffer) \<Rightarrow>
        if length buffer = SUM_BUFSIZ then hash_stream update (update state buffer) file
        else (file, if length buffer > 0 then update state buffer else state, \<not> snd file))"
  by pat_completeness auto
termination
  by (relation "measure (\<lambda>(update, state, file). length (fst file))") (auto simp: fread_def SUM_BUFSIZ_def min_def split: if_splits)

declare hash_stream.simps [simp del]

definition ascon_hash_file :: "'s snp \<Rightarrow> cfile \<Rightarrow> cfile \<times> bytes \<times> bool" where
  "ascon_hash_file B file =
     (let state = ascon_hash_init B;
          (file, state, ok) = hash_stream (ascon_hash_update B) state file;
          (state, hash) = ascon_hash_finalize B state
      in (file, hash, ok))"

definition ascon_hasha_file :: "'s snp \<Rightarrow> cfile \<Rightarrow> cfile \<times> bytes \<times> bool" where
  "ascon_hasha_file B file =
     (let state = ascon_hasha_init B;
          (file, state, ok) = hash_stream (ascon_hasha_update B) state file;
          (state, hash) = ascon_hasha_finalize B state
      in (file, hash, ok))"

definition ascon_xof_file :: "'s snp \<Rightarrow> cfile \<Rightarrow> cfile \<times> bytes \<times> bool" where
  "ascon_xof_file B file =
     (let state = ascon_xof_init B;
          (file, state, ok) = hash_stream (ascon_xof_absorb B) state file;
          (state, hash) = ascon_xof_squeeze B state 32
      in (file, hash, ok))"

definition ascon_xofa_file :: "'s snp \<Rightarrow> cfile \<Rightarrow> cfile \<times> bytes \<times> bool" where
  "ascon_xofa_file B file =
     (let state = ascon_xofa_init B;
          (file, state, ok) = hash_stream (ascon_xofa_absorb B) state file;
          (state, hash) = ascon_xofa_squeeze B state 32
      in (file, hash, ok))"

definition sum_file :: "'s snp \<Rightarrow> sum_alg \<Rightarrow> cfile \<Rightarrow> cfile \<times> bytes \<times> bool" where
  "sum_file B algorithm file =
     (if algorithm = ALG_ASCON_HASHA then ascon_hasha_file B file
      else if algorithm = ALG_ASCON_XOF then ascon_xof_file B file
      else if algorithm = ALG_ASCON_XOFA then ascon_xofa_file B file
      else ascon_hash_file B file)"

text \<open>A file by its name, or standard input, which moves on; \<open>None\<close> if it cannot be opened.\<close>

definition sum_named :: "'s snp \<Rightarrow> sum_alg \<Rightarrow> stdio \<Rightarrow> bytes \<Rightarrow> stdio \<times> (bytes \<times> bool) option" where
  "sum_named B algorithm w filename =
     (if filename = sum_stdin_name then
        let (file, hash, ok) = sum_file B algorithm (io_stdin w) in (w \<lparr> io_stdin := file \<rparr>, Some (hash, ok))
      else
        case io_files w filename of
          None \<Rightarrow> (w, None)
        | Some file \<Rightarrow> let (file, hash, ok) = sum_file B algorithm file in (w, Some (hash, ok)))"

definition hash_file :: "'s snp \<Rightarrow> stdio \<Rightarrow> bytes \<Rightarrow> sum_alg \<Rightarrow> stdio \<times> int" where
  "hash_file B w filename algorithm =
     (case sum_named B algorithm w filename of
        (w, None) \<Rightarrow> (w, 0)
      | (w, Some (hash, ok)) \<Rightarrow>
          if ok then
            let w = printf_out (concat (map print_02x hash)) w;
                w = printf_out (map of_char ''  '' @ filename @ [0x0A]) w
            in (w, 1)
          else (w, 0))"

section \<open>Checking\<close>

definition to_hex_digit :: "8 word \<Rightarrow> int" where
  "to_hex_digit ch =
     (if ch \<ge> of_char CHR ''0'' \<and> ch \<le> of_char CHR ''9'' then uint ch - of_char CHR ''0''
      else if ch \<ge> of_char CHR ''a'' \<and> ch \<le> of_char CHR ''f'' then uint ch - of_char CHR ''a'' + 10
      else if ch \<ge> of_char CHR ''A'' \<and> ch \<le> of_char CHR ''F'' then uint ch - of_char CHR ''A'' + 10
      else -1)"

text \<open>A character of the line, which ends with a zero.\<close>

definition line_char :: "bytes \<Rightarrow> nat \<Rightarrow> 8 word" where
  "line_char line posn = (if posn < length line then line ! posn else 0)"

definition strip_eol :: "bytes \<Rightarrow> bytes" where
  "strip_eol line = rev (dropWhile (\<lambda>c. c = 0x0A \<or> c = 0x0D) (rev (takeWhile (\<lambda>c. c \<noteq> 0) line)))"

function parse_hash :: "bytes \<Rightarrow> nat \<Rightarrow> bytes \<Rightarrow> nat \<times> bytes" where
  "parse_hash line posn hash =
     (if posn < length line \<and> length hash < 32 \<and> to_hex_digit (line_char line posn) \<ge> 0 \<and>
         to_hex_digit (line_char line (posn + 1)) \<ge> 0
      then parse_hash line (posn + 2)
        (hash @ [word_of_int (to_hex_digit (line_char line posn) * 16 + to_hex_digit (line_char line (posn + 1)))])
      else (posn, hash))"
  by pat_completeness auto
termination by (relation "measure (\<lambda>(line, posn, hash). length line - posn)") auto

declare parse_hash.simps [simp del]

text \<open>The hash value and the file name of a line that is not empty; \<open>None\<close> for a format error.\<close>

definition parse_line :: "bytes \<Rightarrow> (bytes \<times> bytes) option" where
  "parse_line line =
     (let (posn, hash) = parse_hash line 0 [] in
      if line_char line posn \<noteq> 0x20 \<or> length hash \<noteq> 32 then None
      else
        let posn = posn + length (takeWhile (\<lambda>c. c = 0x20) (drop posn line)) in
        if line_char line posn = 0 then None else Some (hash, drop posn line))"

record sum_counts =
  sc_found :: bool
  sc_format_errors :: nat
  sc_mismatch_errors :: nat
  sc_read_errors :: nat

definition check_line ::
  "'s snp \<Rightarrow> sum_alg \<Rightarrow> bytes \<Rightarrow> stdio \<times> sum_counts \<Rightarrow> bytes \<Rightarrow> stdio \<times> sum_counts" where
  "check_line B algorithm filename wc line =
     (let (w, c) = wc; line = strip_eol line in
      if line = [] then (w, c)
      else
        case parse_line line of
          None \<Rightarrow> (w, c \<lparr> sc_format_errors := sc_format_errors c + 1 \<rparr>)
        | Some (hash, check_filename) \<Rightarrow>
            let c = c \<lparr> sc_found := True \<rparr> in
            if check_filename = sum_stdin_name \<and> filename = sum_stdin_name
            then (w, c \<lparr> sc_format_errors := sc_format_errors c + 1 \<rparr>)
            else
              let (w, result) = sum_named B algorithm w check_filename;
                  w = printf_out (check_filename @ map of_char '': '') w;
                  file_ok = (case result of None \<Rightarrow> False | Some (hash2, ok) \<Rightarrow> ok);
                  hash2 = (case result of None \<Rightarrow> [] | Some (hash2, ok) \<Rightarrow> hash2)
              in
              if file_ok \<and> hash = hash2 then (printf_out (map of_char ''OK'' @ [0x0A]) w, c)
              else if file_ok then
                (printf_out (map of_char ''FAILED'' @ [0x0A]) w, c \<lparr> sc_mismatch_errors := sc_mismatch_errors c + 1 \<rparr>)
              else
                (printf_out (map of_char ''FAILED open or read'' @ [0x0A]) w,
                 c \<lparr> sc_read_errors := sc_read_errors c + 1 \<rparr>))"

function check_loop ::
  "'s snp \<Rightarrow> sum_alg \<Rightarrow> bytes \<Rightarrow> cfile \<Rightarrow> stdio \<times> sum_counts \<Rightarrow> cfile \<times> stdio \<times> sum_counts" where
  "check_loop B algorithm filename file wc =
     (case fgets ASCON_LINESIZ file of
        None \<Rightarrow> (file, wc)
      | Some (file, line) \<Rightarrow> check_loop B algorithm filename file (check_line B algorithm filename wc line))"
  by pat_completeness auto
termination
  by (relation "measure (\<lambda>(B, algorithm, filename, file, wc). length (fst file))")
    (auto simp: fgets_def Let_def ASCON_LINESIZ_def split: if_splits)

declare check_loop.simps [simp del]

definition check_file :: "'s snp \<Rightarrow> stdio \<Rightarrow> bytes \<Rightarrow> sum_alg \<Rightarrow> stdio \<times> int" where
  "check_file B w filename algorithm =
     (case (if filename = sum_stdin_name then Some (io_stdin w) else io_files w filename) of
        None \<Rightarrow> (w, 0)
      | Some file \<Rightarrow>
          let c = \<lparr> sc_found = False, sc_format_errors = 0, sc_mismatch_errors = 0, sc_read_errors = 0 \<rparr>;
              (file, w, c) = check_loop B algorithm filename file (w, c);
              ok = (if \<not> sc_found c \<or> sc_format_errors c \<noteq> 0 \<or> sc_mismatch_errors c \<noteq> 0 \<or> sc_read_errors c \<noteq> 0 then 0 else 1)
          in (if filename = sum_stdin_name then w \<lparr> io_stdin := file \<rparr> else w, ok))"

section \<open>The program\<close>

text \<open>The options of one word, with the parser for systems without \<open>getopt\<close>; the results are the algorithm and \<open>check_mode\<close>.\<close>

fun sum_word :: "sum_alg \<Rightarrow> bool \<Rightarrow> bytes \<Rightarrow> (sum_alg \<times> bool) option" where
  "sum_word algorithm check_mode [] = Some (algorithm, check_mode)"
| "sum_word algorithm check_mode (opt # opts) =
     (if opt = of_char CHR ''h'' then sum_word ALG_ASCON_HASH check_mode opts
      else if opt = of_char CHR ''a'' then sum_word ALG_ASCON_HASHA check_mode opts
      else if opt = of_char CHR ''x'' then sum_word ALG_ASCON_XOF check_mode opts
      else if opt = of_char CHR ''y'' then sum_word ALG_ASCON_XOFA check_mode opts
      else if opt = of_char CHR ''c'' then sum_word algorithm True opts
      else None)"

fun sum_options :: "sum_alg \<Rightarrow> bool \<Rightarrow> bytes list \<Rightarrow> (sum_alg \<times> bool \<times> bytes list) option" where
  "sum_options algorithm check_mode [] = Some (algorithm, check_mode, [])"
| "sum_options algorithm check_mode (arg # args) =
     (if take 1 arg = sum_stdin_name \<and> length arg > 1 then
        case sum_word algorithm check_mode (tl arg) of
          None \<Rightarrow> None
        | Some (algorithm, check_mode) \<Rightarrow> sum_options algorithm check_mode args
      else Some (algorithm, check_mode, arg # args))"

fun sum_all ::
  "'s snp \<Rightarrow> sum_alg \<Rightarrow> bool \<Rightarrow> stdio \<Rightarrow> int \<Rightarrow> bytes list \<Rightarrow> stdio \<times> int" where
  "sum_all B algorithm check_mode w exit_val [] = (w, exit_val)"
| "sum_all B algorithm check_mode w exit_val (name # names) =
     (let (w, ok) = (if check_mode then check_file B w name algorithm else hash_file B w name algorithm)
      in sum_all B algorithm check_mode w (if ok = 0 then 1 else exit_val) names)"

definition asconsum_main :: "'s snp \<Rightarrow> stdio \<Rightarrow> bytes list \<Rightarrow> stdio \<times> int" where
  "asconsum_main B w args =
     (case sum_options ALG_ASCON_HASH False args of
        None \<Rightarrow> (w, 1)
      | Some (algorithm, check_mode, names) \<Rightarrow>
          sum_all B algorithm check_mode w 0 (if names = [] then [sum_stdin_name] else names))"

section \<open>What is hashed\<close>

lemma hash_stream_pieces:
  "\<exists>ms. hash_stream update st f = (([], snd f), foldl update st ms, \<not> snd f) \<and> concat ms = fst f"
proof (induction "length (fst f)" arbitrary: st f rule: less_induct)
  case (less f)
  show ?case
  proof (cases "length (fst f) \<ge> SUM_BUFSIZ")
    case True
    let ?d = "take SUM_BUFSIZ (fst f)" and ?f = "(drop SUM_BUFSIZ (fst f), snd f)"
    have "length (fst ?f) < length (fst f)" using True by (simp add: SUM_BUFSIZ_def)
    from less.hyps[OF this, of "update st ?d"] obtain ms where
        "hash_stream update (update st ?d) ?f = (([], snd f), foldl update (update st ?d) ms, \<not> snd f)"
        "concat ms = drop SUM_BUFSIZ (fst f)" by auto
    then show ?thesis using True
      by (subst hash_stream.simps) (auto simp: fread_def intro!: exI[of _ "?d # ms"])
  next
    case False
    have "concat (if fst f = [] then [] else [fst f]) = fst f" by simp
    then show ?thesis using False
      by (subst hash_stream.simps) (auto simp: fread_def intro!: exI[of _ "if fst f = [] then [] else [fst f]"])
  qed
qed

text \<open>The hash functions of the four algorithms.\<close>

definition spec_sum :: "sum_alg \<Rightarrow> bytes \<Rightarrow> bytes" where
  "spec_sum algorithm m =
     (case algorithm of
        ALG_ASCON_HASH \<Rightarrow> spec_hash m
      | ALG_ASCON_HASHA \<Rightarrow> spec_hasha m
      | ALG_ASCON_XOF \<Rightarrow> spec_sponge 0 (spec_xof_start 0x00400c0000000000 0) m 32
      | ALG_ASCON_XOFA \<Rightarrow> spec_sponge 4 (spec_xof_start 0x00400c0400000000 0) m 32)"

lemma length_spec_sum [simp]: "length (spec_sum algorithm m) = 32"
  by (simp add: spec_sum_def split: sum_alg.split)

context snp_laws
begin

lemma sum_file_result: "sum_file B algorithm (m, bad) = (([], bad), spec_sum algorithm m, \<not> bad)"
proof (cases algorithm)
  case ALG_ASCON_HASH
  obtain ms where "hash_stream (ascon_hash_update B) (ascon_hash_init B) (m, bad) =
      (([], bad), foldl (ascon_hash_update B) (ascon_hash_init B) ms, \<not> bad)" "concat ms = m"
    using hash_stream_pieces[of _ _ "(m, bad)"] by fastforce
  then show ?thesis using hash_incremental[of ms] ALG_ASCON_HASH
    by (simp add: sum_file_def ascon_hash_file_def spec_sum_def case_prod_beta Let_def)
next
  case ALG_ASCON_HASHA
  obtain ms where "hash_stream (ascon_hasha_update B) (ascon_hasha_init B) (m, bad) =
      (([], bad), foldl (ascon_hasha_update B) (ascon_hasha_init B) ms, \<not> bad)" "concat ms = m"
    using hash_stream_pieces[of _ _ "(m, bad)"] by fastforce
  then show ?thesis using hasha_incremental[of ms] ALG_ASCON_HASHA
    by (simp add: sum_file_def ascon_hasha_file_def spec_sum_def case_prod_beta Let_def)
next
  case ALG_ASCON_XOF
  obtain ms where "hash_stream (ascon_xof_absorb B) (ascon_xof_init B) (m, bad) =
      (([], bad), foldl (ascon_xof_absorb B) (ascon_xof_init B) ms, \<not> bad)" "concat ms = m"
    using hash_stream_pieces[of _ _ "(m, bad)"] by fastforce
  then show ?thesis using xof_pieces[OF xof_init_rep, of ms "[32]"] ALG_ASCON_XOF
    by (simp add: sum_file_def ascon_xof_file_def spec_sum_def case_prod_beta Let_def)
next
  case ALG_ASCON_XOFA
  obtain ms where "hash_stream (ascon_xofa_absorb B) (ascon_xofa_init B) (m, bad) =
      (([], bad), foldl (ascon_xofa_absorb B) (ascon_xofa_init B) ms, \<not> bad)" "concat ms = m"
    using hash_stream_pieces[of _ _ "(m, bad)"] by fastforce
  then show ?thesis using xofa_pieces[OF xofa_init_rep, of ms "[32]"] ALG_ASCON_XOFA
    by (simp add: sum_file_def ascon_xofa_file_def spec_sum_def case_prod_beta Let_def)
qed

end

section \<open>Hexadecimal values\<close>

lemma length_print_02x: "length (concat (map print_02x hash)) = 2 * length hash"
  by (induction hash) (simp_all add: print_02x_def)

lemma nth_print_02x:
  "i < length hash \<Longrightarrow> concat (map print_02x hash) ! (2 * i) = hex_digits ! unat (drop_bit 4 (hash ! i)) \<and>
    concat (map print_02x hash) ! (2 * i + 1) = hex_digits ! unat (hash ! i AND 0x0F)"
proof (induction hash arbitrary: i)
  case (Cons b hash)
  then show ?case by (cases i) (simp_all add: print_02x_def)
qed simp

lemma hex_digits_values: "map to_hex_digit hex_digits = map int [0..<16]"
  by code_simp

lemma to_hex_digit_nth: "n < 16 \<Longrightarrow> to_hex_digit (hex_digits ! n) = int n"
proof -
  assume "n < 16"
  then have "to_hex_digit (hex_digits ! n) = map to_hex_digit hex_digits ! n"
    by (intro nth_map[symmetric]) (simp add: hex_digits_def)
  also have "\<dots> = int n" unfolding hex_digits_values using \<open>n < 16\<close> by simp
  finally show ?thesis .
qed

lemma nibble_less: "unat (drop_bit 4 b) < 16" "unat (b AND 0x0F) < 16" for b :: "8 word"
proof -
  have "unat b < 256" using unsigned_less[of b] by simp
  then have "unat b div 16 < 16" by linarith
  then show "unat (drop_bit 4 b) < 16" by (simp add: drop_bit_eq_div unat_div)
  have "b AND 0x0F < 16" using and_mask_less'[of 4 b] by (simp add: mask_eq_exp_minus_1)
  then show "unat (b AND 0x0F) < 16" by (simp add: word_less_nat_alt)
qed

lemma hex_pair:
  fixes b :: "8 word"
  shows "to_hex_digit (hex_digits ! unat (drop_bit 4 b)) = uint (drop_bit 4 b)"
    "to_hex_digit (hex_digits ! unat (b AND 0x0F)) = uint (b AND 0x0F)"
    "word_of_int (uint (drop_bit 4 b) * 16 + uint (b AND 0x0F)) = b"
proof -
  from nibble_less show "to_hex_digit (hex_digits ! unat (drop_bit 4 b)) = uint (drop_bit 4 b)"
    "to_hex_digit (hex_digits ! unat (b AND 0x0F)) = uint (b AND 0x0F)"
    by (simp_all only: to_hex_digit_nth) simp_all
  have "b AND 0x0F = take_bit 4 b" by (simp add: take_bit_eq_mask mask_eq_exp_minus_1)
  then have "uint (drop_bit 4 b) * 16 + uint (b AND 0x0F) = uint b"
    by (simp add: drop_bit_eq_div uint_div take_bit_eq_mod uint_mod)
  then show "word_of_int (uint (drop_bit 4 b) * 16 + uint (b AND 0x0F)) = b" by simp
qed

text \<open>Scanning what was printed, from any byte on.\<close>

lemma parse_hash_printed:
  assumes "length hash = 32" "n \<le> 32"
  shows "parse_hash (concat (map print_02x hash) @ rest) (2 * n) (take n hash) = (64, hash)"
  using assms(2)
proof (induction "32 - n" arbitrary: n)
  case 0
  then show ?case using assms(1) by (subst parse_hash.simps) simp
next
  case (Suc k)
  then have n: "n < 32" by simp
  let ?l = "concat (map print_02x hash) @ rest"
  have len: "length (concat (map print_02x hash)) = 64" using length_print_02x[of hash] assms(1) by simp
  have "line_char ?l (2 * n) = hex_digits ! unat (drop_bit 4 (hash ! n))"
    "line_char ?l (2 * n + 1) = hex_digits ! unat (hash ! n AND 0x0F)"
    using nth_print_02x[of n hash] n len assms(1) by (simp_all add: line_char_def nth_append)
  moreover have "take (Suc n) hash = take n hash @ [hash ! n]"
    using n assms(1) by (simp add: take_Suc_conv_app_nth)
  moreover have "parse_hash ?l (2 * Suc n) (take (Suc n) hash) = (64, hash)"
    by (rule Suc.hyps) (use Suc.hyps(2) n in auto)
  ultimately show ?case using n len assms(1) hex_pair[of "hash ! n"]
    by (subst parse_hash.simps) simp
qed

section \<open>Lines\<close>

text \<open>A name that can stand in a list: it has no end of line, is not too long and does not start with a space.\<close>

definition sum_name :: "bytes \<Rightarrow> bool" where
  "sum_name name \<longleftrightarrow> name \<noteq> [] \<and> hd name \<noteq> 0x20 \<and> last name \<noteq> 0x0D \<and> 0 \<notin> set name \<and> 0x0A \<notin> set name \<and>
     name \<noteq> sum_stdin_name \<and> take 1 name \<noteq> sum_stdin_name \<and> length name \<le> 956"

definition sum_line :: "bytes \<Rightarrow> bytes \<Rightarrow> bytes" where
  "sum_line hash name = concat (map print_02x hash) @ [0x20, 0x20] @ name"

lemma hex_digits_not: "n < 16 \<Longrightarrow> hex_digits ! n \<notin> {0, 0x0A, 0x0D, 0x20}"
proof -
  assume "n < 16"
  then have "hex_digits ! n \<in> set hex_digits" by (intro nth_mem) (simp add: hex_digits_def)
  then show ?thesis by (auto simp: hex_digits_def)
qed

lemma sum_line_chars: "c \<in> set (concat (map print_02x hash)) \<Longrightarrow> c \<notin> {0, 0x0A, 0x0D, 0x20}"
  using hex_digits_not[OF nibble_less(1)] hex_digits_not[OF nibble_less(2)]
  by (fastforce simp: print_02x_def)

lemma strip_sum_line:
  assumes "sum_name name"
  shows "strip_eol (sum_line hash name @ [0x0A]) = sum_line hash name"
proof -
  have "takeWhile (\<lambda>c. c \<noteq> 0) (sum_line hash name @ [0x0A]) = sum_line hash name @ [0x0A]"
    using assms sum_line_chars[of _ hash] by (auto simp: takeWhile_eq_all_conv sum_line_def sum_name_def)
  moreover have "dropWhile (\<lambda>c. c = 0x0A \<or> c = 0x0D) (rev (sum_line hash name)) = rev (sum_line hash name)"
  proof -
    have "rev (sum_line hash name) = last name # rev (butlast name) @ rev (concat (map print_02x hash) @ [0x20, 0x20])"
    proof -
      have "name = butlast name @ [last name]" using assms by (simp add: sum_name_def)
      then have "rev name = last name # rev (butlast name)" by (metis rev_eq_Cons_iff rev_rev_ident)
      then show ?thesis by (simp add: sum_line_def)
    qed
    moreover have "last name \<noteq> 0x0A" "last name \<noteq> 0x0D"
      using assms last_in_set[of name] by (metis sum_name_def)+
    ultimately show ?thesis by simp
  qed
  ultimately show ?thesis by (simp add: strip_eol_def)
qed

lemma parse_sum_line:
  assumes "sum_name name" "length hash = 32"
  shows "parse_line (sum_line hash name) = Some (hash, name)"
proof -
  have len: "length (concat (map print_02x hash)) = 64" using length_print_02x[of hash] assms(2) by simp
  obtain c cs where name: "name = c # cs" "c \<noteq> 0x20" "c \<noteq> 0" using assms(1) by (cases name) (auto simp: sum_name_def)
  have "parse_hash (sum_line hash name) 0 [] = (64, hash)"
    using parse_hash_printed[OF assms(2), of 0] by (simp add: sum_line_def)
  moreover have "takeWhile (\<lambda>c. c = 0x20) (drop 64 (sum_line hash name)) = [0x20, 0x20]"
    "line_char (sum_line hash name) 64 = 0x20" "line_char (sum_line hash name) 66 = c" "drop 66 (sum_line hash name) = name"
    using len name by (simp_all add: sum_line_def line_char_def nth_append)
  ultimately show ?thesis using name assms(2) by (simp add: parse_line_def Let_def)
qed

lemma fgets_sum_line:
  assumes "sum_name name" "length hash = 32"
  shows "fgets ASCON_LINESIZ (sum_line hash name @ [0x0A] @ rest, bad) = Some ((rest, bad), sum_line hash name @ [0x0A])"
proof -
  let ?l = "sum_line hash name"
  have len: "length ?l \<le> 1022" using length_print_02x[of hash] assms by (simp add: sum_line_def sum_name_def)
  have "0x0A \<notin> set ?l" using assms(1) sum_line_chars[of "0x0A" hash] by (auto simp: sum_line_def sum_name_def)
  then have "takeWhile (\<lambda>c. c \<noteq> 0x0A) (?l @ [0x0A] @ rest) = ?l"
    by (subst takeWhile_append2) auto
  then show ?thesis using len by (simp add: fgets_def ASCON_LINESIZ_def Let_def)
qed

section \<open>Lists of hash values\<close>

lemma printf_out_simps [simp]:
  "io_files (printf_out s w) = io_files w" "io_out (printf_out s w) = io_out w @ s"
  "printf_out t (printf_out s w) = printf_out (s @ t) w" "printf_out [] w = w"
  by (simp_all add: printf_out_def)

definition sum_option :: "sum_alg \<Rightarrow> bytes" where
  "sum_option algorithm = map of_char
     (case algorithm of
        ALG_ASCON_HASH \<Rightarrow> ''-h'' | ALG_ASCON_HASHA \<Rightarrow> ''-a'' | ALG_ASCON_XOF \<Rightarrow> ''-x'' | ALG_ASCON_XOFA \<Rightarrow> ''-y'')"

definition opt_c :: bytes where "opt_c = map of_char ''-c''"

definition sum_list_of :: "sum_alg \<Rightarrow> (bytes \<Rightarrow> bytes) \<Rightarrow> bytes list \<Rightarrow> bytes" where
  "sum_list_of algorithm content names =
     concat (map (\<lambda>name. sum_line (spec_sum algorithm (content name)) name @ [0x0A]) names)"

definition sum_ok_lines :: "bytes list \<Rightarrow> bytes" where
  "sum_ok_lines names = concat (map (\<lambda>name. name @ map of_char '': OK'' @ [0x0A]) names)"

lemma sum_options_algorithm:
  assumes "\<forall>name\<in>set names. take 1 name \<noteq> sum_stdin_name"
  shows "sum_options ALG_ASCON_HASH False (sum_option algorithm # names) = Some (algorithm, False, names)"
    "sum_options ALG_ASCON_HASH False (sum_option algorithm # opt_c # names) = Some (algorithm, True, names)"
proof -
  have plain: "sum_options a c names = Some (a, c, names)" for a c
    using assms by (cases names) auto
  show "sum_options ALG_ASCON_HASH False (sum_option algorithm # names) = Some (algorithm, False, names)"
    "sum_options ALG_ASCON_HASH False (sum_option algorithm # opt_c # names) = Some (algorithm, True, names)"
    using plain by (simp_all add: sum_option_def opt_c_def sum_stdin_name_def split: sum_alg.split)
qed

context snp_laws
begin

lemma sum_named_result:
  "\<lbrakk>name \<noteq> sum_stdin_name; io_files w name = Some (m, bad)\<rbrakk> \<Longrightarrow>
   sum_named B algorithm w name = (w, Some (spec_sum algorithm m, \<not> bad))"
  by (simp add: sum_named_def sum_file_result)

lemma hash_file_result:
  assumes "name \<noteq> sum_stdin_name" "io_files w name = Some (m, False)"
  shows "hash_file B w name algorithm = (printf_out (sum_line (spec_sum algorithm m) name @ [0x0A]) w, 1)"
  using sum_named_result[OF assms] by (simp add: hash_file_def sum_line_def)

lemma sum_all_hashes:
  assumes "\<forall>name\<in>set names. sum_name name \<and> io_files w name = Some (content name, False)"
  shows "sum_all B algorithm False w y names = (printf_out (sum_list_of algorithm content names) w, y)"
  using assms
proof (induction names arbitrary: w)
  case (Cons name names)
  then show ?case
    using hash_file_result[of name w "content name" algorithm] by (auto simp: sum_list_of_def sum_name_def)
qed (simp add: sum_list_of_def)

lemma check_loop_list:
  assumes "\<forall>name\<in>set names. sum_name name \<and> io_files w name = Some (content name, False)"
  shows "check_loop B algorithm listname (sum_list_of algorithm content names, False) (w, c) =
    (([], False), printf_out (sum_ok_lines names) w, c \<lparr> sc_found := sc_found c \<or> names \<noteq> [] \<rparr>)"
  using assms
proof (induction names arbitrary: w c)
  case Nil
  then show ?case
    by (subst check_loop.simps) (simp add: sum_list_of_def sum_ok_lines_def fgets_def)
next
  case (Cons name names)
  let ?h = "spec_sum algorithm (content name)"
  have name: "sum_name name" "name \<noteq> sum_stdin_name" "io_files w name = Some (content name, False)"
    using Cons.prems by (auto simp: sum_name_def)
  have "sum_line ?h name \<noteq> []" by (simp add: sum_line_def)
  then have line: "check_line B algorithm listname (w, c) (sum_line ?h name @ [0x0A]) =
      (printf_out (name @ map of_char '': OK'' @ [0x0A]) w, c \<lparr> sc_found := True \<rparr>)"
    using name strip_sum_line[OF name(1)] parse_sum_line[OF name(1), of ?h] sum_named_result[OF name(2,3), of algorithm]
    by (simp add: check_line_def Let_def)
  have "fgets ASCON_LINESIZ (sum_list_of algorithm content (name # names), False) =
      Some ((sum_list_of algorithm content names, False), sum_line ?h name @ [0x0A])"
    using fgets_sum_line[OF name(1), of ?h "sum_list_of algorithm content names" False] by (simp add: sum_list_of_def)
  then show ?case using line Cons.IH[of "printf_out (name @ map of_char '': OK'' @ [0x0A]) w" "c \<lparr> sc_found := True \<rparr>"] Cons.prems
    by (subst check_loop.simps) (simp add: sum_ok_lines_def)
qed

lemma asconsum_hashes:
  assumes "names \<noteq> []" "\<forall>name\<in>set names. sum_name name \<and> io_files w name = Some (content name, False)"
  shows "asconsum_main B w (sum_option algorithm # names) = (printf_out (sum_list_of algorithm content names) w, 0)"
proof -
  have "\<forall>name\<in>set names. take 1 name \<noteq> sum_stdin_name" using assms(2) by (simp add: sum_name_def)
  from sum_options_algorithm(1)[OF this] sum_all_hashes[OF assms(2)] show ?thesis
    using assms(1) by (simp only: asconsum_main_def) simp
qed

lemma asconsum_checks:
  assumes "names \<noteq> []" "\<forall>name\<in>set names. sum_name name \<and> io_files w name = Some (content name, False)"
    and "take 1 listname \<noteq> sum_stdin_name" "io_files w listname = Some (sum_list_of algorithm content names, False)"
  shows "asconsum_main B w [sum_option algorithm, opt_c, listname] = (printf_out (sum_ok_lines names) w, 0)"
proof -
  have "listname \<noteq> sum_stdin_name" using assms(3) by (auto simp: sum_stdin_name_def)
  then have "check_file B w listname algorithm = (printf_out (sum_ok_lines names) w, 1)"
    using assms(1,4) by (simp add: check_file_def check_loop_list[OF assms(2)] Let_def)
  then show ?thesis using sum_options_algorithm(2)[of "[listname]" algorithm] assms(3)
    by (simp add: asconsum_main_def)
qed

end

section \<open>When a list is accepted\<close>

function file_lines :: "cfile \<Rightarrow> bytes list" where
  "file_lines f = (case fgets ASCON_LINESIZ f of None \<Rightarrow> [] | Some (f, line) \<Rightarrow> line # file_lines f)"
  by pat_completeness auto
termination
  by (relation "measure (\<lambda>f. length (fst f))") (auto simp: fgets_def Let_def ASCON_LINESIZ_def split: if_splits)

declare file_lines.simps [simp del]

definition line_good :: "(bytes \<Rightarrow> cfile option) \<Rightarrow> sum_alg \<Rightarrow> bytes \<Rightarrow> bool" where
  "line_good files algorithm line \<longleftrightarrow>
     (case parse_line (strip_eol line) of
        None \<Rightarrow> False
      | Some (hash, name) \<Rightarrow>
          (case files name of None \<Rightarrow> False | Some (m, bad) \<Rightarrow> \<not> bad \<and> hash = spec_sum algorithm m))"

definition no_stdin_line :: "bytes \<Rightarrow> bool" where
  "no_stdin_line line \<longleftrightarrow> (case parse_line (strip_eol line) of None \<Rightarrow> True | Some (hash, name) \<Rightarrow> name \<noteq> sum_stdin_name)"

definition no_sum_errors :: "sum_counts \<Rightarrow> bool" where
  "no_sum_errors c \<longleftrightarrow> sc_format_errors c = 0 \<and> sc_mismatch_errors c = 0 \<and> sc_read_errors c = 0"

context snp_laws
begin

lemma check_line_result:
  assumes "listname \<noteq> sum_stdin_name" "no_stdin_line line" "check_line B algorithm listname (w, c) line = (w', c')"
  shows "io_files w' = io_files w"
    "no_sum_errors c' \<longleftrightarrow> no_sum_errors c \<and> (strip_eol line = [] \<or> line_good (io_files w) algorithm line)"
    "sc_found c' \<longleftrightarrow> sc_found c \<or> (strip_eol line \<noteq> [] \<and> parse_line (strip_eol line) \<noteq> None)"
proof -
  have *: "io_files w' = io_files w \<and>
    (no_sum_errors c' \<longleftrightarrow> no_sum_errors c \<and> (strip_eol line = [] \<or> line_good (io_files w) algorithm line)) \<and>
    (sc_found c' \<longleftrightarrow> sc_found c \<or> (strip_eol line \<noteq> [] \<and> parse_line (strip_eol line) \<noteq> None))"
  proof (cases "parse_line (strip_eol line)")
    case None
    then show ?thesis using assms(3)
      by (auto simp: check_line_def Let_def no_sum_errors_def line_good_def split: if_splits)
  next
    case (Some p)
    obtain h name where p: "parse_line (strip_eol line) = Some (h, name)" using Some by (cases p) simp
    have name: "name \<noteq> sum_stdin_name" using assms(2) p by (simp add: no_stdin_line_def)
    show ?thesis
    proof (cases "io_files w name")
      case None
      then show ?thesis using assms(1,3) p name
        by (auto simp: check_line_def Let_def no_sum_errors_def line_good_def sum_named_def split: if_splits)
    next
      case (Some f)
      obtain m bad where f: "io_files w name = Some (m, bad)" using Some by (cases f) simp
      show ?thesis using assms(1,3) p name f sum_named_result[OF name f, of algorithm]
        by (auto simp: check_line_def Let_def no_sum_errors_def line_good_def split: if_splits)
    qed
  qed
  then show "io_files w' = io_files w"
    "no_sum_errors c' \<longleftrightarrow> no_sum_errors c \<and> (strip_eol line = [] \<or> line_good (io_files w) algorithm line)"
    "sc_found c' \<longleftrightarrow> sc_found c \<or> (strip_eol line \<noteq> [] \<and> parse_line (strip_eol line) \<noteq> None)" by blast+
qed

lemma check_loop_result:
  assumes "listname \<noteq> sum_stdin_name" "\<forall>line\<in>set (file_lines f). no_stdin_line line"
    and "check_loop B algorithm listname f (w, c) = (f', w', c')"
  shows "no_sum_errors c' \<and> sc_found c' \<longleftrightarrow> no_sum_errors c \<and>
      (\<forall>line\<in>set (file_lines f). strip_eol line \<noteq> [] \<longrightarrow> line_good (io_files w) algorithm line) \<and>
      (sc_found c \<or> (\<exists>line\<in>set (file_lines f). strip_eol line \<noteq> []))"
  using assms(2,3)
proof (induction f arbitrary: w c rule: file_lines.induct)
  case (1 f)
  show ?case
  proof (cases "fgets ASCON_LINESIZ f")
    case None
    have "file_lines f = []" using None by (simp add: file_lines.simps[of f])
    moreover have "c' = c" using None "1.prems"(2) by (simp add: check_loop.simps[of B algorithm listname f])
    ultimately show ?thesis by auto
  next
    case (Some a)
    obtain f1 line where a: "fgets ASCON_LINESIZ f = Some (f1, line)" using Some by (cases a) simp
    then have lines: "file_lines f = line # file_lines f1" by (simp add: file_lines.simps[of f])
    obtain w1 c1 where step: "check_line B algorithm listname (w, c) line = (w1, c1)" by fastforce
    have rest: "check_loop B algorithm listname f1 (w1, c1) = (f', w', c')"
      using "1.prems"(2) a step by (simp add: check_loop.simps[of B algorithm listname f])
    note ih = "1.IH"[OF a refl _ rest]
    have stdin: "no_stdin_line line" "\<forall>line\<in>set (file_lines f1). no_stdin_line line" using "1.prems"(1) lines by auto
    note here = check_line_result[OF assms(1) stdin(1) step]
    have good: "line_good (io_files w) algorithm line \<Longrightarrow> parse_line (strip_eol line) \<noteq> None"
      by (auto simp: line_good_def split: option.splits)
    show ?thesis using ih[OF stdin(2)] here good unfolding lines by auto
  qed
qed

lemma check_file_iff:
  assumes "listname \<noteq> sum_stdin_name" "io_files w listname = Some f" "\<forall>line\<in>set (file_lines f). no_stdin_line line"
  shows "snd (check_file B w listname algorithm) = 1 \<longleftrightarrow>
    (\<exists>line\<in>set (file_lines f). strip_eol line \<noteq> []) \<and>
    (\<forall>line\<in>set (file_lines f). strip_eol line \<noteq> [] \<longrightarrow> line_good (io_files w) algorithm line)"
proof -
  let ?c = "\<lparr> sc_found = False, sc_format_errors = 0, sc_mismatch_errors = 0, sc_read_errors = 0 \<rparr>"
  obtain f' w' c' where loop: "check_loop B algorithm listname f (w, ?c) = (f', w', c')" by (metis prod_cases3)
  then have "snd (check_file B w listname algorithm) = 1 \<longleftrightarrow> no_sum_errors c' \<and> sc_found c'"
    using assms(1,2) by (auto simp: check_file_def Let_def no_sum_errors_def)
  also have "\<dots> \<longleftrightarrow> (\<forall>line\<in>set (file_lines f). strip_eol line \<noteq> [] \<longrightarrow> line_good (io_files w) algorithm line) \<and>
      (\<exists>line\<in>set (file_lines f). strip_eol line \<noteq> [])"
    using check_loop_result[OF assms(1,3) loop] by (simp add: no_sum_errors_def)
  finally show ?thesis by blast
qed

end

end
