(* ===== verification/App_Properties.thy ===== *)
theory App_Properties
  imports Asconcrypt_Main Asconsum
begin

text \<open>
  The properties of the command-line programs.
\<close>

section \<open>Systems to try them on\<close>

text \<open>A new process whose calls behave as \<open>ev\<close> says, with the given files.\<close>

definition new_process :: "(syscall \<Rightarrow> nat \<Rightarrow> io_event) \<Rightarrow> (bytes \<times> bytes) list \<Rightarrow> posix" where
  "new_process ev files =
     \<lparr> px_data = (\<lambda>s. case s of Named name \<Rightarrow> map_of files name | _ \<Rightarrow> Some []),
       px_fds = [Some (StdIn, 0), Some (StdOut, 0), Some (StdErr, 0)], px_events = ev, px_clock = 0 \<rparr>"

text \<open>Every read and write transfers one byte, and every other call is interrupted.\<close>

definition slow_events :: "syscall \<Rightarrow> nat \<Rightarrow> io_event" where
  "slow_events call i = (if (call = Read \<or> call = Write) \<and> even i then Error EINTR else Transfer 0)"

definition full_events :: "syscall \<Rightarrow> nat \<Rightarrow> io_event" where
  "full_events call i = (if call = Write then Error 28 else Transfer 0)"

lemma slow_fair: "fair slow_events call"
  unfolding fair_def
proof
  fix i show "\<exists>j\<ge>i. slow_events call j \<notin> {Error EINTR, Error EAGAIN}"
    by (rule exI[of _ "Suc (2 * i)"]) (simp add: slow_events_def)
qed

lemma slow_ready: "process_ready (new_process slow_events files)"
  by (auto simp: process_ready_def working_def new_process_def steady_def slow_fair no_errors_def slow_events_def)

lemma full_disk:
  "\<lbrakk>a \<noteq> b; a \<noteq> STDIO; b \<noteq> STDIO; map_of files a = Some c\<rbrakk> \<Longrightarrow> disk_full (new_process full_events files) a b c"
  by (auto simp: disk_full_def new_process_def steady_def fair_def no_errors_def full_events_def)

lemma zeros_work: "trng_works (\<lambda>r n. (r, zeros n, 1))"
  by (simp add: trng_works_def)

definition report :: bytes where "report = map of_char ''report''"

lemma report_name: "plain_name report" "report \<noteq> STDIO" "take 1 report \<noteq> STDIO" "strip_ok MODE_DETECT report"
  by (simp_all add: plain_name_def report_def STDIO_def ASCON_BUFSIZ_def ASCON_SUFFIX_def strip_ok_def)

section \<open>asconcrypt\<close>

text \<open>Property C4. A file that was encrypted on the command line comes back on the command line.  With a
  password and no direction given, \<open>asconcrypt\<close> on a file of at most one terabyte exits with 0 and writes
  one new file, with the suffix; and run on that file in any later process, with the same password, it exits with 0
  and writes the old contents under the old name, changing nothing else.  The system calls of the two runs do
  not fail (\<open>process_ready\<close>), but reads and writes can be cut into pieces and interrupted in any way; the
  name has six characters or more, room for the suffix and not yet a suffix, and is not an option (\<open>plain_name\<close>),
  and the password fits its buffer.\<close>

theorem asconcrypt_restores:
  assumes "process_ready w" "trng_works trng" "plain_name name" "length pw < ASCON_PWSIZ"
    and "px_data w (Named name) = Some m" "length m \<le> 2 ^ 40"
  shows "\<exists>w1 r1 c. asconcrypt_main (sliced64 le) stack trng tty getpass w r [opt_p, pw, name] = Some (w1, r1, 0) \<and>
    px_data w1 = (px_data w)(Named (name @ ASCON_SUFFIX) \<mapsto> c) \<and>
    (\<forall>w2 r2. process_ready w2 \<and> px_data w2 (Named (name @ ASCON_SUFFIX)) = Some c \<longrightarrow>
      (\<exists>w3. asconcrypt_main (sliced64 le2) stack2 trng tty2 getpass2 w2 r2 [opt_p, pw, name @ ASCON_SUFFIX] =
          Some (w3, r2, 0) \<and>
        px_data w3 = (px_data w2)(Named name \<mapsto> m)))"
proof -
  obtain w1 r1 salt key nonce where run:
      "asconcrypt_main (sliced64 le) stack trng tty getpass w r [opt_p, pw, name] = Some (w1, r1, 0)"
      "length salt = 16" "length key = 20" "length nonce = 16"
      "px_data w1 = (px_data w)(Named (name @ ASCON_SUFFIX) \<mapsto> asconcrypt_container pw salt key nonce m)"
    using snp_laws.main_encrypts[OF sliced64.snp_laws_axioms assms] by blast
  have payload: "asconcrypt_payload pw (asconcrypt_container pw salt key nonce m) = Some m"
    by (rule asconcrypt_payload_container[OF run(2-4)])
  have "\<exists>w3. asconcrypt_main (sliced64 le2) stack2 trng tty2 getpass2 w2 r2 [opt_p, pw, name @ ASCON_SUFFIX] =
        Some (w3, r2, 0) \<and> px_data w3 = (px_data w2)(Named name \<mapsto> m)"
    if "process_ready w2" "px_data w2 (Named (name @ ASCON_SUFFIX)) = Some (asconcrypt_container pw salt key nonce m)"
    for w2 r2
    using snp_laws.main_decrypts[OF sliced64.snp_laws_axioms that(1) assms(3,4) that(2), of le2 stack2 trng tty2 getpass2 r2]
      payload assms(6) by auto
  then show ?thesis using run(1,5) by blast
qed

lemma asconcrypt_restores_witness:
  "\<exists>w1 r1. asconcrypt_main (sliced64 True) (ascon_xof_init (sliced64 True)) (\<lambda>r n. (r :: unit, zeros n, 1)) False (\<lambda>_. None)
      (new_process slow_events [(report, [1, 2, 3])]) () [opt_p, [0x61], report] = Some (w1, r1, 0)"
  using asconcrypt_restores[of "new_process slow_events [(report, [1, 2, 3])]" "\<lambda>r n. (r :: unit, zeros n, 1)" report
      "[0x61]" "[1, 2, 3]", OF slow_ready zeros_work report_name(1)]
  by (fastforce simp: ASCON_PWSIZ_def new_process_def)

text \<open>Property C34. Decryption accepts the files of the format for the password, with at most one terabyte of payload, and no others.  Between two
  files on a system where no call fails, \<open>decrypt_file\<close> returns 1 and leaves the payload in the output
  file, or returns 0 and removes the output file: what was decrypted before the tag was wrong never stays.\<close>

theorem decrypt_file_accepts:
  assumes "files_ready w a b c"
  shows "\<exists>w' x. decrypt_file (sliced64 le) stack pw w a b = Some (w', x) \<and>
    ((x = 1 \<and> (\<exists>salt key nonce m. length salt = 16 \<and> length key = 20 \<and> length nonce = 16 \<and> length m \<le> 2 ^ 40 \<and>
        c = asconcrypt_container pw salt key nonce m \<and> px_data w' = (px_data w)(Named b \<mapsto> m))) \<or>
     (x = 0 \<and> px_data w' = (px_data w)(Named b := None) \<and>
        (\<nexists>salt key nonce m. length salt = 16 \<and> length key = 20 \<and> length nonce = 16 \<and> length m \<le> 2 ^ 40 \<and>
          c = asconcrypt_container pw salt key nonce m)))"
proof -
  obtain w' x where run: "decrypt_file (sliced64 le) stack pw w a b = Some (w', x)"
    and result: "case asconcrypt_payload pw c of
       Some m \<Rightarrow> if length m \<le> 2 ^ 40 then x = 1 \<and> px_data w' = (px_data w)(Named b \<mapsto> m)
                 else x = 0 \<and> px_data w' = (px_data w)(Named b := None)
     | None \<Rightarrow> x = 0 \<and> px_data w' = (px_data w)(Named b := None)"
    using snp_laws.decrypt_file_result[OF sliced64.snp_laws_axioms assms, of le stack pw] by blast
  have only: "asconcrypt_payload pw c = Some m"
    if "length salt = 16" "length key = 20" "length nonce = 16" "c = asconcrypt_container pw salt key nonce m" for salt key nonce m
    using asconcrypt_payload_container[OF that(1-3)] that(4) by simp
  show ?thesis
  proof (cases "\<exists>m. asconcrypt_payload pw c = Some m \<and> length m \<le> 2 ^ 40")
    case True
    then obtain m where m: "asconcrypt_payload pw c = Some m" "length m \<le> 2 ^ 40" by blast
    then show ?thesis using run result asconcrypt_payload_Some[OF m(1)] by auto
  next
    case False
    then have "x = 0 \<and> px_data w' = (px_data w)(Named b := None)"
      using result by (auto split: option.splits if_splits)
    then show ?thesis using run only False by blast
  qed
qed

lemma decrypt_file_accepts_witness:
  "\<exists>w' x. decrypt_file (sliced64 True) (ascon_xof_init (sliced64 True)) [0x61] (new_process slow_events [(report, [1, 2, 3])])
    report [0x62] = Some (w', x)"
proof -
  have "files_ready (new_process slow_events [(report, [1, 2, 3])]) report [0x62] [1, 2, 3]"
    by (rule process_files_ready[OF slow_ready]) (simp_all add: report_def STDIO_def new_process_def)
  from decrypt_file_accepts[OF this, of True "ascon_xof_init (sliced64 True)" "[0x61]"] show ?thesis by blast
qed

text \<open>Property C35. Every run of \<open>asconcrypt\<close> ends with an exit status, whatever the arguments, the files and the failures of system
  calls are, if the system does not interrupt reads or writes for ever and, when a suffix may have to be
  removed, every name is long enough to have one and fits in the buffer.\<close>

theorem asconcrypt_returns:
  assumes "fair (px_events w) Read" "fair (px_events w) Write"
    and "\<And>o1 names. parse_options no_opts args = Some (o1, names) \<Longrightarrow> \<forall>name\<in>set names. strip_ok (opt_mode o1) name"
  shows "\<exists>w' r' status. asconcrypt_main B stack trng tty getpass w r args = Some (w', r', status)"
  by (rule main_returns[OF assms])

lemma asconcrypt_returns_witness:
  "\<exists>w' r' status. asconcrypt_main (sliced64 True) (ascon_xof_init (sliced64 True)) (\<lambda>r n. (r :: unit, zeros n, 1)) False
    (\<lambda>_. None) (new_process full_events []) () [opt_p, [0x61], report] = Some (w', r', status)"
proof (rule asconcrypt_returns)
  show "fair (px_events (new_process full_events [])) Read" "fair (px_events (new_process full_events [])) Write"
    by (auto simp: new_process_def fair_def full_events_def EINTR_def EAGAIN_def)
  show "\<forall>name\<in>set names. strip_ok (opt_mode o1) name"
    if "parse_options no_opts [opt_p, [0x61], report] = Some (o1, names)" for o1 names
    using that options_password[OF report_name(3), of "[0x61]"] report_name(4) by (auto simp: no_opts_def)
qed

text \<open>Property C36. A full disk goes unnoticed.  If every write fails with \<open>ENOSPC\<close>, \<open>encrypt_file\<close> returns 1 for a file that can be
  read, and leaves an empty output file: \<open>safe_file_write\<close> returns -1, and the results are tested for 0.\<close>

theorem encrypt_disk_full:
  assumes "disk_full w a b m" "trng_works trng" "length m \<le> 2 ^ 40"
  shows "\<exists>w' r'. encrypt_file (sliced64 le) stack trng pw w r a b = Some (w', r', 1) \<and>
    px_data w' = (px_data w)(Named b \<mapsto> [])"
  using encrypt_file_full[OF assms(1,3)] snp_laws.random_works[OF sliced64.snp_laws_axioms assms(2)] by metis

lemma encrypt_disk_full_witness:
  "\<exists>w' r'. encrypt_file (sliced64 True) (ascon_xof_init (sliced64 True)) (\<lambda>r n. (r :: unit, zeros n, 1)) [0x61]
      (new_process full_events [(report, [1, 2, 3])]) () report [0x62] = Some (w', r', 1) \<and>
    px_data w' = (px_data (new_process full_events [(report, [1, 2, 3])]))(Named [0x62] \<mapsto> [])"
proof -
  have "disk_full (new_process full_events [(report, [1, 2, 3])]) report [0x62] [1, 2, 3]"
    by (rule full_disk) (simp_all add: report_def STDIO_def)
  then show ?thesis by (rule encrypt_disk_full[OF _ zeros_work]) simp
qed

text \<open>Property C37. A name with fewer than six characters breaks the program.  It counts as the name of an encrypted file, so without a
  direction \<open>asconcrypt\<close> removes a suffix from it: the length wraps around and the copy leaves the name
  and the buffer, in every state and before any file is opened.\<close>

theorem short_name_overruns:
  assumes "take 1 name \<noteq> STDIO" "length name < 6" "length pw < ASCON_PWSIZ"
  shows "asconcrypt_main B stack trng tty getpass w r [opt_p, pw, name] = None \<and> strip_suffix name = None"
  by (simp add: main_short_name[OF assms] strip_suffix_short[OF assms(2)])

lemma short_name_overruns_witness:
  "asconcrypt_main (sliced64 True) (ascon_xof_init (sliced64 True)) (\<lambda>r n. (r :: unit, zeros n, 1)) False
    (\<lambda>_. None) (new_process slow_events []) () [opt_p, [0x61], map of_char ''a.txt''] = None"
  by (rule short_name_overruns[THEN conjunct1]) (simp_all add: STDIO_def ASCON_PWSIZ_def)

text \<open>Property C38. A generated key file is read back.  \<open>generate_password\<close> writes 40 characters of its alphabet and
  the end of the line, and \<open>read_keyfile\<close> returns exactly these characters in any later process.\<close>

theorem keyfile_roundtrip:
  assumes "process_ready w" "keyfile \<noteq> STDIO" "trng_works trng"
  shows "\<exists>w1 r1 pw. generate_password (sliced64 le) trng w r keyfile = Some (w1, r1, 1) \<and>
    length pw = 40 \<and> set pw \<subseteq> set pw_chars \<and> px_data w1 = (px_data w)(Named keyfile \<mapsto> pw @ [0x0A]) \<and>
    (\<forall>w2. process_ready w2 \<and> px_data w2 (Named keyfile) = Some (pw @ [0x0A]) \<longrightarrow>
      (\<exists>w3. read_keyfile w2 keyfile = Some (w3, Some pw)))"
proof -
  obtain w1 r1 pw where "generate_password (sliced64 le) trng w r keyfile = Some (w1, r1, 1)" "length pw = 40"
      "set pw \<subseteq> set pw_chars" "px_data w1 = (px_data w)(Named keyfile \<mapsto> pw @ [0x0A])"
    using snp_laws.generate_password_result[OF sliced64.snp_laws_axioms assms] by blast
  moreover have "\<exists>w3. read_keyfile w2 keyfile = Some (w3, Some pw)"
    if "process_ready w2" "px_data w2 (Named keyfile) = Some (pw @ [0x0A])" for w2
    using read_keyfile_line[OF that(1) assms(2) that(2)] calculation by (simp add: ASCON_PWSIZ_def)
  ultimately show ?thesis by blast
qed

lemma keyfile_roundtrip_witness:
  "\<exists>w1 r1. generate_password (sliced64 True) (\<lambda>r n. (r :: unit, zeros n, 1)) (new_process slow_events []) () report =
    Some (w1, r1, 1)"
  using keyfile_roundtrip[OF slow_ready report_name(2) zeros_work, where r = "() :: unit"] by blast

section \<open>asconsum\<close>

text \<open>Property C39. What \<open>asconsum\<close> prints for a list of files, it checks.  Run with the option of one of the four algorithms, it prints a
  line for each file with the hash value of the specification and the name; and with the printed text in a file,
  and the files unchanged, the checking mode prints that every file is OK and exits with 0.  The names have no
  ends of line, leading spaces or dashes, and fit in a line.\<close>

theorem asconsum_list_checks:
  assumes "names \<noteq> []" "\<And>name. name \<in> set names \<Longrightarrow> sum_name name \<and> io_files w name = Some (content name, False)"
  shows "asconsum_main (sliced64 le) w (sum_option algorithm # names) =
      (printf_out (sum_list_of algorithm content names) w, 0) \<and>
    (\<forall>w2 listname. take 1 listname \<noteq> sum_stdin_name \<and>
        io_files w2 listname = Some (sum_list_of algorithm content names, False) \<and>
        (\<forall>name\<in>set names. io_files w2 name = io_files w name) \<longrightarrow>
      asconsum_main (sliced64 le2) w2 [sum_option algorithm, opt_c, listname] = (printf_out (sum_ok_lines names) w2, 0))"
proof -
  have files: "\<forall>name\<in>set names. sum_name name \<and> io_files w name = Some (content name, False)" using assms(2) by blast
  show ?thesis
  proof (intro conjI allI impI)
    show "asconsum_main (sliced64 le) w (sum_option algorithm # names) =
        (printf_out (sum_list_of algorithm content names) w, 0)"
      by (rule snp_laws.asconsum_hashes[OF sliced64.snp_laws_axioms assms(1) files])
  next
    fix w2 :: stdio and listname
    assume later: "take 1 listname \<noteq> sum_stdin_name \<and> io_files w2 listname = Some (sum_list_of algorithm content names, False) \<and>
        (\<forall>name\<in>set names. io_files w2 name = io_files w name)"
    then have "\<forall>name\<in>set names. sum_name name \<and> io_files w2 name = Some (content name, False)" using files by simp
    from snp_laws.asconsum_checks[OF sliced64.snp_laws_axioms assms(1) this, of listname algorithm le2] later
    show "asconsum_main (sliced64 le2) w2 [sum_option algorithm, opt_c, listname] = (printf_out (sum_ok_lines names) w2, 0)"
      by blast
  qed
qed

lemma asconsum_list_checks_witness:
  "snd (asconsum_main (sliced64 True) \<lparr> io_files = [report \<mapsto> ([1, 2, 3], False)], io_stdin = ([], False), io_out = [] \<rparr>
    [sum_option ALG_ASCON_XOF, report]) = 0"
proof -
  have "sum_name report" by (simp add: sum_name_def report_def sum_stdin_name_def)
  then show ?thesis
    using asconsum_list_checks[of "[report]" "\<lparr> io_files = [report \<mapsto> ([1, 2, 3], False)], io_stdin = ([], False), io_out = [] \<rparr>"
        "\<lambda>_. [1, 2, 3]" True ALG_ASCON_XOF True] by simp
qed

text \<open>Property C40. The checking mode accepts a list if and only if it has a line that is not empty, and every such line is a
  hash value and the name of a file that can be read and has this hash value.\<close>

theorem check_file_accepts:
  assumes "listname \<noteq> sum_stdin_name" "io_files w listname = Some f" "\<And>line. line \<in> set (file_lines f) \<Longrightarrow> no_stdin_line line"
  shows "snd (check_file (sliced64 le) w listname algorithm) = 1 \<longleftrightarrow>
    (\<exists>line\<in>set (file_lines f). strip_eol line \<noteq> []) \<and>
    (\<forall>line\<in>set (file_lines f). strip_eol line \<noteq> [] \<longrightarrow> line_good (io_files w) algorithm line)"
  by (rule snp_laws.check_file_iff[OF sliced64.snp_laws_axioms assms(1,2)]) (use assms(3) in blast)

lemma check_file_accepts_witness:
  "snd (check_file (sliced64 True) \<lparr> io_files = [report \<mapsto> ([0x0A, 0x41], False)], io_stdin = ([], False), io_out = [] \<rparr>
    report ALG_ASCON_HASH) \<noteq> 1"
proof -
  let ?f = "([0x0A, 0x41], False) :: cfile"
  let ?w = "\<lparr> io_files = [report \<mapsto> ?f], io_stdin = ([], False), io_out = [] \<rparr>"
  have lines: "file_lines ?f = [[0x0A], [0x41]]"
    by (simp add: file_lines.simps fgets_def ASCON_LINESIZ_def)
  have "parse_line [0x41] = None" "parse_line [] = None"
    by (simp_all add: parse_line_def parse_hash.simps line_char_def to_hex_digit_def)
  then have bad: "strip_eol [0x41] = [0x41]" "\<not> line_good (io_files ?w) ALG_ASCON_HASH [0x41]" "no_stdin_line [0x41]"
    "no_stdin_line [0x0A]"
    by (simp_all add: strip_eol_def line_good_def no_stdin_line_def)
  have "snd (check_file (sliced64 True) ?w report ALG_ASCON_HASH) = 1 \<longleftrightarrow>
    (\<exists>line\<in>set (file_lines ?f). strip_eol line \<noteq> []) \<and>
    (\<forall>line\<in>set (file_lines ?f). strip_eol line \<noteq> [] \<longrightarrow> line_good (io_files ?w) ALG_ASCON_HASH line)"
    by (rule check_file_accepts) (use bad lines in \<open>auto simp: report_def sum_stdin_name_def\<close>)
  then show ?thesis using bad lines by simp
qed

end
